(* ===== verification/Keeper_Prelude.thy ===== *)
theory Keeper_Prelude
  imports Main "HOL-Library.Sublist"
begin

text \<open>
  Shared vocabulary of the development: Go's \<open>int64\<close> as a bounded \<open>int\<close> with the
  wrap-around written out, the part of Go's \<open>strings\<close> package that the sources call on
  byte strings, and the collections of facts that the component theories add to.

  A Go string is its list of bytes, so \<open>string\<close> (one \<open>char\<close> per byte) is exact.
\<close>

named_theorems int64_simps \<open>bounds and wrap-around of 64-bit signed integers\<close>
named_theorems token_defs \<open>unfolding rules of the token pipeline\<close>
named_theorems price_defs \<open>unfolding rules of the pricing component\<close>
named_theorems gate_defs \<open>unfolding rules of the gates and limiters\<close>


section \<open>Signed 64-bit integers\<close>

definition MaxInt64 :: int where
  "MaxInt64 = 9223372036854775807"

definition MinInt64 :: int where
  "MinInt64 = - 9223372036854775808"

definition is_int64 :: "int \<Rightarrow> bool" where
  "is_int64 x \<longleftrightarrow> MinInt64 \<le> x \<and> x \<le> MaxInt64"

text \<open>A count that passed Keeper's ingress: a non-negative \<open>int64\<close>.\<close>

definition is_count :: "int \<Rightarrow> bool" where
  "is_count x \<longleftrightarrow> 0 \<le> x \<and> x \<le> MaxInt64"

text \<open>The value Go's two's complement arithmetic leaves in an \<open>int64\<close> variable.\<close>

definition wrap64 :: "int \<Rightarrow> int" where
  "wrap64 x = (x + 9223372036854775808) mod 18446744073709551616 - 9223372036854775808"

lemmas int64_bounds = MaxInt64_def MinInt64_def is_int64_def is_count_def

lemma wrap64_id [int64_simps]: "is_int64 x \<Longrightarrow> wrap64 x = x"
  by (simp add: wrap64_def int64_bounds)

lemma is_int64_wrap64 [simp]: "is_int64 (wrap64 x)"
  by (simp add: wrap64_def int64_bounds)

lemma wrap64_count [int64_simps]: "is_count x \<Longrightarrow> wrap64 x = x"
  by (simp add: wrap64_def int64_bounds)

lemma is_count_zero [simp]: "is_count 0"
  by (simp add: int64_bounds)

lemma is_count_nonneg: "is_count x \<Longrightarrow> 0 \<le> x"
  by (simp add: is_count_def)

lemma is_count_int64: "is_count x \<Longrightarrow> is_int64 x"
  by (simp add: int64_bounds)


section \<open>Go byte strings\<close>

text \<open>
  The UTF-8 encodings of the code points for which \<open>unicode.IsSpace\<close> holds:
  U+0009..U+000D, U+0020, U+0085, U+00A0, U+1680, U+2000..U+200A, U+2028, U+2029,
  U+202F, U+205F and U+3000. None of these encodings is a proper prefix or suffix of
  another, and the first byte of each starts a rune, so removing them bytewise at either
  end is what \<open>strings.TrimSpace\<close> does, also on ill-formed input.
\<close>

definition go_spaces :: "string list" where
  "go_spaces =
    [[CHR 0x09], [CHR 0x0A], [CHR 0x0B], [CHR 0x0C], [CHR 0x0D], [CHR 0x20],
     [CHR 0xC2, CHR 0x85], [CHR 0xC2, CHR 0xA0], [CHR 0xE1, CHR 0x9A, CHR 0x80],
     [CHR 0xE2, CHR 0x80, CHR 0x80], [CHR 0xE2, CHR 0x80, CHR 0x81],
     [CHR 0xE2, CHR 0x80, CHR 0x82], [CHR 0xE2, CHR 0x80, CHR 0x83],
     [CHR 0xE2, CHR 0x80, CHR 0x84], [CHR 0xE2, CHR 0x80, CHR 0x85],
     [CHR 0xE2, CHR 0x80, CHR 0x86], [CHR 0xE2, CHR 0x80, CHR 0x87],
     [CHR 0xE2, CHR 0x80, CHR 0x88], [CHR 0xE2, CHR 0x80, CHR 0x89],
     [CHR 0xE2, CHR 0x80, CHR 0x8A], [CHR 0xE2, CHR 0x80, CHR 0xA8],
     [CHR 0xE2, CHR 0x80, CHR 0xA9], [CHR 0xE2, CHR 0x80, CHR 0xAF],
     [CHR 0xE2, CHR 0x81, CHR 0x9F], [CHR 0xE3, CHR 0x80, CHR 0x80]]"

text \<open>
  \<open>strip ws n s\<close> removes up to \<open>n\<close> leading members of \<open>ws\<close>. Every member of
  \<open>go_spaces\<close> has at least one byte, so \<open>length s\<close> rounds are always enough
  (\<open>strip_stops\<close> below).
\<close>

fun strip :: "string list \<Rightarrow> nat \<Rightarrow> string \<Rightarrow> string" where
  "strip ws 0 s = s"
| "strip ws (Suc n) s =
     (case find (\<lambda>p. prefix p s) ws of
        None \<Rightarrow> s
      | Some p \<Rightarrow> strip ws n (drop (length p) s))"

definition trim_left :: "string \<Rightarrow> string" where
  "trim_left s = strip go_spaces (length s) s"

definition trim_right :: "string \<Rightarrow> string" where
  "trim_right s = rev (strip (map rev go_spaces) (length s) (rev s))"

definition TrimSpace :: "string \<Rightarrow> string" where
  "TrimSpace s = trim_right (trim_left s)"

lemma strip_stops:
  assumes "[] \<notin> set ws" and "length s \<le> n"
  shows "find (\<lambda>p. prefix p (strip ws n s)) ws = None"
  using assms(2)
proof (induction n arbitrary: s)
  case 0
  then have "s = []" by simp
  with assms(1) show ?case by (auto simp: find_None_iff)
next
  case (Suc n)
  show ?case
  proof (cases "find (\<lambda>p. prefix p s) ws")
    case (Some p)
    then have "p \<in> set ws" by (auto simp: find_Some_iff)
    with assms(1) have "p \<noteq> []" by auto
    with Suc.prems have "length (drop (length p) s) \<le> n"
      by (cases p) auto
    with Some show ?thesis using Suc.IH by simp
  qed simp
qed

lemma strip_fixpoint: "find (\<lambda>p. prefix p s) ws = None \<Longrightarrow> strip ws n s = s"
  by (cases n) simp_all

lemma strip_length: "length (strip ws n s) \<le> length s"
proof (induction n arbitrary: s)
  case (Suc n)
  show ?case
  proof (cases "find (\<lambda>p. prefix p s) ws")
    case (Some p)
    have "length (strip ws n (drop (length p) s)) \<le> length (drop (length p) s)"
      by (rule Suc.IH)
    with Some show ?thesis by simp
  qed simp
qed simp

text \<open>
  \<open>strings.ToLower\<close>. Two code points outside ASCII have an ASCII lower case, U+212A
  (Kelvin sign, bytes E2 84 AA) and U+0130 (bytes C4 B0); both are handled. Every other
  rune outside ASCII has a lower case outside ASCII and is left as it is here, so a
  comparison of the result with an ASCII string, the only use the sources make of it in
  the modelled parts, gives the answer Go gives.
\<close>

definition ascii_lower :: "char \<Rightarrow> char" where
  "ascii_lower c =
     (if 65 \<le> (of_char c :: nat) \<and> (of_char c :: nat) \<le> 90 then char_of (of_char c + 32 :: nat) else c)"

fun ToLower :: "string \<Rightarrow> string" where
  "ToLower (c # d # e # cs) =
     (if c = CHR 0xE2 \<and> d = CHR 0x84 \<and> e = CHR 0xAA then CHR ''k'' # ToLower cs
      else if c = CHR 0xC4 \<and> d = CHR 0xB0 then CHR ''i'' # ToLower (e # cs)
      else ascii_lower c # ToLower (d # e # cs))"
| "ToLower [c, d] =
     (if c = CHR 0xC4 \<and> d = CHR 0xB0 then [CHR ''i''] else [ascii_lower c, ascii_lower d])"
| "ToLower [c] = [ascii_lower c]"
| "ToLower [] = []"

lemma ToLower_eq_Nil [simp]: "ToLower s = [] \<longleftrightarrow> s = []"
  by (cases s rule: ToLower.cases) auto


section \<open>Errors and decimal numerals\<close>

text \<open>Go's \<open>if err != nil { return err }\<close> on a result that is an error or a value.\<close>

fun andThen :: "'e + 'a \<Rightarrow> ('a \<Rightarrow> 'e + 'b) \<Rightarrow> 'e + 'b" where
  "andThen (Inl e) f = Inl e"
| "andThen (Inr x) f = f x"

lemma andThen_assoc: "andThen (andThen r f) g = andThen r (\<lambda>x. andThen (f x) g)"
  by (cases r) simp_all

lemma andThen_eq_Inr: "andThen r f = Inr y \<longleftrightarrow> (\<exists>x. r = Inr x \<and> f x = Inr y)"
  by (cases r) auto

text \<open>The decimal numeral that \<open>%d\<close> and \<open>strconv.Itoa\<close> print for an index.\<close>

fun itoa :: "nat \<Rightarrow> string" where
  "itoa n = (if n < 10 then [char_of (48 + n)] else itoa (n div 10) @ [char_of (48 + n mod 10)])"

declare itoa.simps [simp del]

section \<open>Division by a positive integer\<close>

lemma int_div_le_iff: "0 < (d :: int) \<Longrightarrow> v div d \<le> u \<longleftrightarrow> v < (u + 1) * d"
proof
  assume d: "0 < d" and "v div d \<le> u"
  then have "(v div d + 1) * d \<le> (u + 1) * d" by simp
  moreover have "v < (v div d + 1) * d"
    unfolding distrib_right using div_mult_mod_eq [of v d] pos_mod_bound [OF d, of v] by linarith
  ultimately show "v < (u + 1) * d" by simp
next
  assume d: "0 < d" and "v < (u + 1) * d"
  then have "v div d \<le> ((u + 1) * d - 1) div d" by (intro zdiv_mono1) simp_all
  also have "((u + 1) * d - 1) div d = u"
    using d by (intro int_div_pos_eq [where r = "d - 1"]) (simp_all add: algebra_simps)
  finally show "v div d \<le> u" .
qed

lemma int_le_div_iff: "0 < (d :: int) \<Longrightarrow> u \<le> v div d \<longleftrightarrow> u * d \<le> v"
  using int_div_le_iff [of d v "u - 1"] by auto

end
