(* ===== verification/Token_Core.thy ===== *)
theory Token_Core
  imports Keeper_Prelude
begin

text \<open>
  The data of \<open>internal/service/tokenprocessor\<close> (types.go, handler.go), its overflow-safe
  addition (arithmetic.go) and the reconciliation of the total (final_total.go).

  String-typed enumerations are datatypes with the source's constants; where a \<open>switch\<close>
  or a registry lookup of the source has a branch for any other string, the datatype has a
  constructor for it.
\<close>

section \<open>Data\<close>

datatype handlerID =
    HandlerClaude | HandlerGemini | HandlerResponsesInclusive | HandlerStrictPassThrough
  | HandlerOpenAICompatibility | HandlerTokenBreakdown | HandlerOther string

datatype evidenceSource =
  EvidenceExecutor | EvidenceIdentity | EvidenceDefault | EvidenceTokenBreakdown

datatype evidenceStrength =
  EvidenceParserContract | EvidenceIdentityHint | EvidenceUnknown | EvidenceAccountingContract

record tokenValues =
  InputTokens :: int
  OutputTokens :: int
  ReasoningTokens :: int
  CachedTokens :: int
  CacheReadTokens :: int
  CacheReadPresent :: bool
  CacheCreationTokens :: int
  TotalTokens :: int

text \<open>\<open>TokenOutcomeUnset\<close> is Go's zero value, an action that carries no mark.\<close>

datatype tokenOutcome =
    TokenOutcomeValid | TokenOutcomeNormalized | TokenOutcomeCompatibility
  | TokenOutcomeCorrected | TokenOutcomeAmbiguous | TokenOutcomeOverflow | TokenOutcomeUnset

record action =
  ActCode :: string
  ActField :: string
  Before :: int
  After :: int
  ActEvidence :: evidenceSource
  ActRule :: string
  ActOutcome :: tokenOutcome

record violation =
  VioCode :: string
  VioFields :: "string list"
  VioReason :: string

record processResult =
  Tokens :: tokenValues
  Actions :: "action list"
  Violations :: "violation list"
  Outcome :: tokenOutcome

definition ActionClampNegativeToken :: string where
  "ActionClampNegativeToken = ''clamp_negative_token''"
definition ActionBackfillCacheReadAlias :: string where
  "ActionBackfillCacheReadAlias = ''backfill_cache_read_alias''"
definition ActionNormalizeClaudeInput :: string where
  "ActionNormalizeClaudeInput = ''normalize_claude_input''"
definition ActionNormalizeClaudeCachedAlias :: string where
  "ActionNormalizeClaudeCachedAlias = ''normalize_claude_cached_alias''"
definition ActionNormalizeGeminiOutput :: string where
  "ActionNormalizeGeminiOutput = ''normalize_gemini_output''"
definition ActionBackfillZeroTotal :: string where
  "ActionBackfillZeroTotal = ''backfill_zero_total''"
definition ActionCorrectNonzeroTotal :: string where
  "ActionCorrectNonzeroTotal = ''correct_nonzero_total''"
definition ActionNormalizeTokenBreakdown :: string where
  "ActionNormalizeTokenBreakdown = ''normalize_token_breakdown''"

definition ViolationTokenArithmeticOverflow :: string where
  "ViolationTokenArithmeticOverflow = ''token_arithmetic_overflow''"
definition ViolationAmbiguousTotalMismatch :: string where
  "ViolationAmbiguousTotalMismatch = ''ambiguous_total_mismatch''"
definition ViolationCacheReadAliasConflict :: string where
  "ViolationCacheReadAliasConflict = ''cache_read_alias_conflict''"
definition ViolationInputBelowCache :: string where
  "ViolationInputBelowCache = ''input_below_cache_components''"
definition ViolationOutputBelowReasoning :: string where
  "ViolationOutputBelowReasoning = ''output_below_reasoning''"

lemmas violation_codes =
  ViolationTokenArithmeticOverflow_def ViolationAmbiguousTotalMismatch_def
  ViolationCacheReadAliasConflict_def ViolationInputBelowCache_def
  ViolationOutputBelowReasoning_def

text \<open>A route picked by the resolver; Go's \<open>*TokenValues\<close> is an option.\<close>

record handlerResolution =
  handler_id :: handlerID
  evidence_source :: evidenceSource
  evidence_strength :: evidenceStrength
  executor_type :: string
  identity_type :: string
  needs_identity :: bool
  unknown_executor :: bool
  breakdown_tokens :: "tokenValues option"

datatype totalAuthority =
    totalAuthorityCanonical | totalAuthorityZeroOnly | totalAuthorityPreserve
  | totalAuthorityOther string

type_synonym tokenFieldSet = "string set"

record normalizationContext =
  nonNegative :: tokenValues
  clamped :: tokenFieldSet
  resolution :: handlerResolution

record handlerResult =
  hr_tokens :: tokenValues
  hr_authority :: totalAuthority
  hr_actions :: "action list"
  hr_violations :: "violation list"

definition tfs_has :: "tokenFieldSet \<Rightarrow> string \<Rightarrow> bool" where
  "tfs_has fset fld \<longleftrightarrow> fld \<in> fset"

fun tfs_hasAny :: "tokenFieldSet \<Rightarrow> string list \<Rightarrow> bool" where
  "tfs_hasAny fset [] = False"
| "tfs_hasAny fset (name # names) = (if tfs_has fset name then True else tfs_hasAny fset names)"

lemma tfs_hasAny_iff: "tfs_hasAny fset names \<longleftrightarrow> fset \<inter> set names \<noteq> {}"
  by (induction names) (auto simp: tfs_has_def)

lemma tfs_empty [simp]: "\<not> tfs_has {} f" "\<not> tfs_hasAny {} fs"
  by (simp_all add: tfs_has_def tfs_hasAny_iff)

abbreviation mk_action ::
  "string \<Rightarrow> string \<Rightarrow> int \<Rightarrow> int \<Rightarrow> evidenceSource \<Rightarrow> string \<Rightarrow> tokenOutcome \<Rightarrow> action" where
  "mk_action c f b a e r out \<equiv>
     \<lparr>ActCode = c, ActField = f, Before = b, After = a, ActEvidence = e, ActRule = r, ActOutcome = out\<rparr>"

abbreviation mk_violation :: "string \<Rightarrow> string list \<Rightarrow> string \<Rightarrow> violation" where
  "mk_violation c fs r \<equiv> \<lparr>VioCode = c, VioFields = fs, VioReason = r\<rparr>"


section \<open>Overflow-safe addition\<close>

text \<open>
  The loop of \<open>safeAddTokenCounts\<close>; every subtraction and addition of the source is an
  \<open>int64\<close> operation, so each one wraps.
\<close>

fun safeAdd_loop :: "int \<Rightarrow> int list \<Rightarrow> int \<times> bool" where
  "safeAdd_loop tot [] = (tot, True)"
| "safeAdd_loop tot (v # vs) =
     (if v > 0 \<and> tot > wrap64 (MaxInt64 - v) then (0, False)
      else if v < 0 \<and> tot < wrap64 (MinInt64 - v) then (0, False)
      else safeAdd_loop (wrap64 (tot + v)) vs)"

definition safeAddTokenCounts :: "int list \<Rightarrow> int \<times> bool" where
  "safeAddTokenCounts values = safeAdd_loop 0 values"

text \<open>The mathematical specification: the exact sum when every partial sum is an \<open>int64\<close>.\<close>

fun partial_sums_fit :: "int \<Rightarrow> int list \<Rightarrow> bool" where
  "partial_sums_fit tot [] = True"
| "partial_sums_fit tot (v # vs) = (is_int64 (tot + v) \<and> partial_sums_fit (tot + v) vs)"

lemma safeAdd_loop_spec:
  assumes "is_int64 tot" and "\<forall>v \<in> set vs. is_int64 v"
  shows "safeAdd_loop tot vs =
    (if partial_sums_fit tot vs then (tot + sum_list vs, True) else (0, False))"
  using assms
proof (induction vs arbitrary: tot)
  case Nil
  then show ?case by simp
next
  case (Cons v vs)
  then have v: "is_int64 v" and vs: "\<forall>v \<in> set vs. is_int64 v" by auto
  have up: "v > 0 \<Longrightarrow> wrap64 (MaxInt64 - v) = MaxInt64 - v"
    and lo: "v < 0 \<Longrightarrow> wrap64 (MinInt64 - v) = MinInt64 - v"
    using v by (auto simp: int64_bounds intro!: wrap64_id)
  show ?case
  proof (cases "is_int64 (tot + v)")
    case True
    then have "wrap64 (tot + v) = tot + v" by (rule wrap64_id)
    moreover have "\<not> (v > 0 \<and> tot > MaxInt64 - v)" "\<not> (v < 0 \<and> tot < MinInt64 - v)"
      using True by (auto simp: is_int64_def)
    ultimately show ?thesis
      using Cons.IH [OF True vs] True up lo by (auto simp: add.assoc)
  next
    case False
    with Cons.prems(1) v have "(v > 0 \<and> tot > MaxInt64 - v) \<or> (v < 0 \<and> tot < MinInt64 - v)"
      by (auto simp: is_int64_def)
    with False show ?thesis using up lo by auto
  qed
qed

lemma partial_sums_fit_counts:
  assumes "0 \<le> tot" and "\<forall>v \<in> set vs. 0 \<le> v"
  shows "tot + sum_list vs \<le> MaxInt64 \<Longrightarrow> partial_sums_fit tot vs"
    and "partial_sums_fit tot vs \<Longrightarrow> tot \<le> MaxInt64 \<Longrightarrow> tot + sum_list vs \<le> MaxInt64"
proof -
  have "(tot \<le> MaxInt64 \<longrightarrow> partial_sums_fit tot vs \<longrightarrow> tot + sum_list vs \<le> MaxInt64) \<and>
    (tot + sum_list vs \<le> MaxInt64 \<longrightarrow> partial_sums_fit tot vs)"
    using assms
  proof (induction vs arbitrary: tot)
    case (Cons v vs)
    then have "0 \<le> v" "0 \<le> sum_list vs" by (auto intro: sum_list_nonneg)
    with Cons.prems Cons.IH [of "tot + v"] show ?case
      by (auto simp: is_int64_def MinInt64_def add.assoc)
  qed simp
  then show "tot + sum_list vs \<le> MaxInt64 \<Longrightarrow> partial_sums_fit tot vs"
    and "partial_sums_fit tot vs \<Longrightarrow> tot \<le> MaxInt64 \<Longrightarrow> tot + sum_list vs \<le> MaxInt64"
    by blast+
qed

text \<open>On counts the addition is the sum or an overflow report: the rule the handler proofs use.\<close>

lemma safeAdd_counts [int64_simps]:
  assumes "\<forall>v \<in> set vs. is_count v"
  shows "safeAddTokenCounts vs =
    (if sum_list vs \<le> MaxInt64 then (sum_list vs, True) else (0, False))"
proof -
  have "\<forall>v \<in> set vs. is_int64 v" "\<forall>v \<in> set vs. 0 \<le> v"
    using assms by (auto simp: is_count_int64 is_count_nonneg)
  moreover have "is_int64 0" by (simp add: int64_bounds)
  ultimately show ?thesis
    using partial_sums_fit_counts [of 0 vs]
    by (auto simp: safeAddTokenCounts_def safeAdd_loop_spec MaxInt64_def)
qed

text \<open>The two and three argument instances, in the form simp can apply to handler terms.\<close>

lemma safeAdd2 [int64_simps]:
  "is_count a \<Longrightarrow> is_count b \<Longrightarrow>
   safeAddTokenCounts [a, b] = (if a + b \<le> MaxInt64 then (a + b, True) else (0, False))"
  by (simp add: safeAdd_counts)

lemma safeAdd3 [int64_simps]:
  "is_count a \<Longrightarrow> is_count b \<Longrightarrow> is_count c \<Longrightarrow>
   safeAddTokenCounts [a, b, c] =
     (if a + b + c \<le> MaxInt64 then (a + b + c, True) else (0, False))"
  by (simp add: safeAdd_counts add.assoc)


section \<open>Reconciliation of the total\<close>

type_synonym reconciled = "tokenValues \<times> action list \<times> violation list"

definition reconcileZeroOnlyTotal ::
  "tokenValues \<Rightarrow> tokenFieldSet \<Rightarrow> handlerResolution \<Rightarrow> reconciled" where
  "reconcileZeroOnlyTotal tokens clampd res =
     (if TotalTokens tokens \<noteq> 0 then
        (if handler_id res = HandlerStrictPassThrough then (tokens, [], [])
         else let (expectedTotal, ok) = safeAddTokenCounts [InputTokens tokens, OutputTokens tokens] in
           if \<not> ok then
             (tokens, [], [mk_violation ViolationTokenArithmeticOverflow
                [''input_tokens'', ''output_tokens'', ''total_tokens'']
                ''zero-only comparison exceeds int64''])
           else if expectedTotal \<noteq> TotalTokens tokens then
             (tokens, [], [mk_violation ViolationAmbiguousTotalMismatch
                [''input_tokens'', ''output_tokens'', ''total_tokens'']
                ''nonzero total differs from canonical fields without correction authority''])
           else (tokens, [], []))
      else if tfs_hasAny clampd [''input_tokens'', ''output_tokens'', ''total_tokens''] then
        (tokens, [], [mk_violation ViolationAmbiguousTotalMismatch
           [''input_tokens'', ''output_tokens'', ''total_tokens'']
           ''zero total fallback depends on clamped fields''])
      else let (expectedTotal, ok) = safeAddTokenCounts [InputTokens tokens, OutputTokens tokens] in
        if \<not> ok then
          (tokens, [], [mk_violation ViolationTokenArithmeticOverflow
             [''input_tokens'', ''output_tokens'', ''total_tokens'']
             ''zero-only input plus output exceeds int64''])
        else if expectedTotal > 0 then
          (tokens\<lparr>TotalTokens := expectedTotal\<rparr>,
           [mk_action ActionBackfillZeroTotal ''total_tokens'' (TotalTokens tokens) expectedTotal
              (evidence_source res) ''existing_zero_total_input_output'' TokenOutcomeCompatibility], [])
        else if CacheReadTokens tokens > 0 then
          (tokens\<lparr>TotalTokens := CacheReadTokens tokens\<rparr>,
           [mk_action ActionBackfillZeroTotal ''total_tokens'' (TotalTokens tokens) (CacheReadTokens tokens)
              (evidence_source res) ''existing_zero_total_cache_read'' TokenOutcomeCompatibility], [])
        else (tokens, [], []))"

definition reconcileCanonicalConflictWithZeroFallback ::
  "tokenValues \<Rightarrow> tokenFieldSet \<Rightarrow> handlerResolution \<Rightarrow> violation \<Rightarrow> reconciled" where
  "reconcileCanonicalConflictWithZeroFallback tokens clampd res conflict =
     (if TotalTokens tokens \<noteq> 0 then (tokens, [], [conflict])
      else let (fallbackTokens, fallbackActions, fallbackViolations) =
             reconcileZeroOnlyTotal tokens clampd res
        in (fallbackTokens, fallbackActions, [conflict] @ fallbackViolations))"

definition reconcileCanonicalTotal ::
  "tokenValues \<Rightarrow> tokenFieldSet \<Rightarrow> handlerResolution \<Rightarrow> reconciled" where
  "reconcileCanonicalTotal tokens clampd res =
     (if tfs_hasAny clampd [''input_tokens'', ''output_tokens'', ''reasoning_tokens'',
           ''cache_read_tokens'', ''cache_creation_tokens'', ''total_tokens''] then
        (tokens, [], [mk_violation ViolationAmbiguousTotalMismatch
           [''input_tokens'', ''output_tokens'', ''reasoning_tokens'',
            ''cache_read_tokens'', ''cache_creation_tokens'', ''total_tokens'']
           ''canonical total depends on clamped token fields''])
      else let (cacheComponents, ok) =
             safeAddTokenCounts [CacheReadTokens tokens, CacheCreationTokens tokens] in
        if \<not> ok then
          reconcileCanonicalConflictWithZeroFallback tokens clampd res
            (mk_violation ViolationTokenArithmeticOverflow
               [''cache_read_tokens'', ''cache_creation_tokens'']
               ''cache token components exceed int64'')
        else if InputTokens tokens < cacheComponents then
          reconcileCanonicalConflictWithZeroFallback tokens clampd res
            (mk_violation ViolationInputBelowCache
               [''input_tokens'', ''cache_read_tokens'', ''cache_creation_tokens'']
               ''canonical input is smaller than cache read plus creation'')
        else if OutputTokens tokens < ReasoningTokens tokens then
          reconcileCanonicalConflictWithZeroFallback tokens clampd res
            (mk_violation ViolationOutputBelowReasoning [''output_tokens'', ''reasoning_tokens'']
               ''canonical output is smaller than reasoning'')
        else let (expectedTotal, ok2) = safeAddTokenCounts [InputTokens tokens, OutputTokens tokens] in
          if \<not> ok2 then
            (tokens, [], [mk_violation ViolationTokenArithmeticOverflow
               [''input_tokens'', ''output_tokens'', ''total_tokens'']
               ''canonical input plus output exceeds int64''])
          else if TotalTokens tokens = expectedTotal then (tokens, [], [])
          else if TotalTokens tokens = 0 then
            (tokens\<lparr>TotalTokens := expectedTotal\<rparr>,
             [mk_action ActionBackfillZeroTotal ''total_tokens'' (TotalTokens tokens) expectedTotal
                (evidence_source res) ''canonical_zero_total'' TokenOutcomeCompatibility], [])
          else
            (tokens\<lparr>TotalTokens := expectedTotal\<rparr>,
             [mk_action ActionCorrectNonzeroTotal ''total_tokens'' (TotalTokens tokens) expectedTotal
                (evidence_source res) ''canonical_input_plus_output'' TokenOutcomeCorrected], []))"

definition reconcileFinalTotal ::
  "tokenValues \<Rightarrow> totalAuthority \<Rightarrow> tokenFieldSet \<Rightarrow> handlerResolution \<Rightarrow> reconciled" where
  "reconcileFinalTotal tokens authority clampd res =
     (case authority of
        totalAuthorityCanonical \<Rightarrow> reconcileCanonicalTotal tokens clampd res
      | totalAuthorityZeroOnly \<Rightarrow> reconcileZeroOnlyTotal tokens clampd res
      | totalAuthorityPreserve \<Rightarrow> (tokens, [], [])
      | totalAuthorityOther _ \<Rightarrow>
          (tokens, [], [mk_violation ViolationAmbiguousTotalMismatch [''total_tokens'']
             ''token handler returned unknown total authority'']))"

lemmas reconcile_defs =
  reconcileFinalTotal_def reconcileCanonicalTotal_def
  reconcileCanonicalConflictWithZeroFallback_def reconcileZeroOnlyTotal_def

end
