(* ===== verification/Token_Registry.thy ===== *)
theory Token_Registry
  imports Token_Core
begin

text \<open>
  The static registry of token handlers (registry.go, the definitions in the executor
  files), its start-up validation, and the resolver that turns an executor name or a
  credential identity into a route with an evidence strength (resolver.go).
\<close>

section \<open>Registry tables\<close>

record executorDefinition =
  ed_alias :: string
  ed_handlerID :: handlerID

record identityAliasDefinition =
  ia_alias :: string
  ia_handlerID :: handlerID

record identityPrefixDefinition =
  ip_prefix :: string
  ip_handlerID :: handlerID

record registryIndexes =
  executors :: "string \<rightharpoonup> executorDefinition"
  identities :: "string \<rightharpoonup> identityAliasDefinition"
  identityPrefixes :: "identityPrefixDefinition list"

definition handlerDefinitions :: "handlerID list" where
  "handlerDefinitions =
     [HandlerClaude, HandlerGemini, HandlerResponsesInclusive, HandlerStrictPassThrough,
      HandlerOpenAICompatibility, HandlerTokenBreakdown]"

text \<open>
  \<open>tokenHandlers\<close> as the key of each entry and the identifier its implementation
  reports (\<open>None\<close> for a nil implementation); the implementations are the definitions of
  \<open>Token_Handlers\<close>.
\<close>

definition tokenHandlerIDs :: "(handlerID \<times> handlerID option) list" where
  "tokenHandlerIDs =
     [(HandlerClaude, Some HandlerClaude), (HandlerGemini, Some HandlerGemini),
      (HandlerResponsesInclusive, Some HandlerResponsesInclusive),
      (HandlerStrictPassThrough, Some HandlerStrictPassThrough),
      (HandlerOpenAICompatibility, Some HandlerOpenAICompatibility),
      (HandlerTokenBreakdown, Some HandlerTokenBreakdown)]"

definition claudeExecutorDefinition :: executorDefinition where
  "claudeExecutorDefinition = \<lparr>ed_alias = ''ClaudeExecutor'', ed_handlerID = HandlerClaude\<rparr>"
definition geminiExecutorDefinition :: executorDefinition where
  "geminiExecutorDefinition = \<lparr>ed_alias = ''GeminiExecutor'', ed_handlerID = HandlerGemini\<rparr>"
definition geminiVertexExecutorDefinition :: executorDefinition where
  "geminiVertexExecutorDefinition = \<lparr>ed_alias = ''GeminiVertexExecutor'', ed_handlerID = HandlerGemini\<rparr>"
definition geminiCLIExecutorDefinition :: executorDefinition where
  "geminiCLIExecutorDefinition = \<lparr>ed_alias = ''GeminiCLIExecutor'', ed_handlerID = HandlerGemini\<rparr>"
definition aiStudioExecutorDefinition :: executorDefinition where
  "aiStudioExecutorDefinition = \<lparr>ed_alias = ''AIStudioExecutor'', ed_handlerID = HandlerGemini\<rparr>"
definition antigravityExecutorDefinition :: executorDefinition where
  "antigravityExecutorDefinition = \<lparr>ed_alias = ''AntigravityExecutor'', ed_handlerID = HandlerGemini\<rparr>"
definition codexExecutorDefinition :: executorDefinition where
  "codexExecutorDefinition = \<lparr>ed_alias = ''CodexExecutor'', ed_handlerID = HandlerResponsesInclusive\<rparr>"
definition codexWebsocketsExecutorDefinition :: executorDefinition where
  "codexWebsocketsExecutorDefinition =
     \<lparr>ed_alias = ''CodexWebsocketsExecutor'', ed_handlerID = HandlerResponsesInclusive\<rparr>"
definition codexAutoExecutorDefinition :: executorDefinition where
  "codexAutoExecutorDefinition =
     \<lparr>ed_alias = ''CodexAutoExecutor'', ed_handlerID = HandlerResponsesInclusive\<rparr>"
definition xaiExecutorDefinition :: executorDefinition where
  "xaiExecutorDefinition = \<lparr>ed_alias = ''XAIExecutor'', ed_handlerID = HandlerResponsesInclusive\<rparr>"
definition xaiWebsocketsExecutorDefinition :: executorDefinition where
  "xaiWebsocketsExecutorDefinition =
     \<lparr>ed_alias = ''XAIWebsocketsExecutor'', ed_handlerID = HandlerResponsesInclusive\<rparr>"
definition xaiAutoExecutorDefinition :: executorDefinition where
  "xaiAutoExecutorDefinition =
     \<lparr>ed_alias = ''XAIAutoExecutor'', ed_handlerID = HandlerResponsesInclusive\<rparr>"
definition kimiExecutorDefinition :: executorDefinition where
  "kimiExecutorDefinition = \<lparr>ed_alias = ''KimiExecutor'', ed_handlerID = HandlerStrictPassThrough\<rparr>"
definition openAICompatExecutorDefinition :: executorDefinition where
  "openAICompatExecutorDefinition =
     \<lparr>ed_alias = ''OpenAICompatExecutor'', ed_handlerID = HandlerOpenAICompatibility\<rparr>"
definition metaExecutorDefinition :: executorDefinition where
  "metaExecutorDefinition = \<lparr>ed_alias = ''MetaExecutor'', ed_handlerID = HandlerResponsesInclusive\<rparr>"
definition devinExecutorDefinition :: executorDefinition where
  "devinExecutorDefinition = \<lparr>ed_alias = ''DevinExecutor'', ed_handlerID = HandlerStrictPassThrough\<rparr>"

lemmas executor_definition_defs =
  claudeExecutorDefinition_def geminiExecutorDefinition_def geminiVertexExecutorDefinition_def
  geminiCLIExecutorDefinition_def aiStudioExecutorDefinition_def antigravityExecutorDefinition_def
  codexExecutorDefinition_def codexWebsocketsExecutorDefinition_def codexAutoExecutorDefinition_def
  xaiExecutorDefinition_def xaiWebsocketsExecutorDefinition_def xaiAutoExecutorDefinition_def
  kimiExecutorDefinition_def openAICompatExecutorDefinition_def metaExecutorDefinition_def
  devinExecutorDefinition_def

definition executorDefinitions :: "executorDefinition list" where
  "executorDefinitions =
     [claudeExecutorDefinition, geminiExecutorDefinition, geminiVertexExecutorDefinition,
      geminiCLIExecutorDefinition, aiStudioExecutorDefinition, antigravityExecutorDefinition,
      codexExecutorDefinition, codexWebsocketsExecutorDefinition, codexAutoExecutorDefinition,
      xaiExecutorDefinition, xaiWebsocketsExecutorDefinition, xaiAutoExecutorDefinition,
      kimiExecutorDefinition, openAICompatExecutorDefinition, metaExecutorDefinition,
      devinExecutorDefinition]"

definition identityAliasDefinitions :: "identityAliasDefinition list" where
  "identityAliasDefinitions = map (\<lambda>(a, h). \<lparr>ia_alias = a, ia_handlerID = h\<rparr>)
     [(''claude'', HandlerClaude), (''anthropic'', HandlerClaude),
      (''gemini'', HandlerGemini), (''vertex'', HandlerGemini), (''gemini-cli'', HandlerGemini),
      (''gemini-cli-code-assist'', HandlerGemini), (''gemini-interactions'', HandlerGemini),
      (''aistudio'', HandlerGemini), (''ai-studio'', HandlerGemini), (''antigravity'', HandlerGemini),
      (''codex'', HandlerResponsesInclusive), (''xai'', HandlerResponsesInclusive),
      (''meta'', HandlerResponsesInclusive), (''devin'', HandlerStrictPassThrough),
      (''kimi'', HandlerStrictPassThrough), (''kimi-ai'', HandlerStrictPassThrough),
      (''kimi.ai'', HandlerStrictPassThrough), (''kimi.com'', HandlerStrictPassThrough),
      (''moonshot'', HandlerStrictPassThrough),
      (''openai'', HandlerOpenAICompatibility), (''openai-compatible'', HandlerOpenAICompatibility),
      (''openai_compatibility'', HandlerOpenAICompatibility),
      (''openai-compatibility'', HandlerOpenAICompatibility)]"

definition identityPrefixDefinitions :: "identityPrefixDefinition list" where
  "identityPrefixDefinitions =
     [\<lparr>ip_prefix = ''openai-compatible-'', ip_handlerID = HandlerOpenAICompatibility\<rparr>]"

text \<open>The names of the ordered compatibility rules; \<open>None\<close> stands for a nil rule.\<close>

definition openAICompatibilityRuleNames :: "string option list" where
  "openAICompatibilityRuleNames = [Some ''issue_272_separated_reasoning'']"


section \<open>Validation and indexing\<close>

datatype registryError =
    DuplicateHandler handlerID
  | RegistrySize nat nat
  | UndeclaredImplementation handlerID
  | MismatchedImplementation handlerID
  | EmptyCompatibilityRule
  | DuplicateCompatibilityRule string
  | EmptyExecutorAlias
  | ExecutorUnknownHandler string handlerID
  | DuplicateExecutorAlias string
  | EmptyIdentityAlias
  | IdentityUnknownHandler string handlerID
  | DuplicateIdentityAlias string
  | EmptyIdentityPrefix
  | PrefixUnknownHandler string handlerID
  | DuplicateIdentityPrefix string

definition normalizeRegistryAlias :: "string \<Rightarrow> string" where
  "normalizeRegistryAlias s = ToLower (TrimSpace s)"

fun declare_handlers :: "handlerID set \<Rightarrow> handlerID list \<Rightarrow> registryError + handlerID set" where
  "declare_handlers seen [] = Inr seen"
| "declare_handlers seen (h # hs) =
     (if h \<in> seen then Inl (DuplicateHandler h) else declare_handlers (insert h seen) hs)"

fun check_implementations ::
  "handlerID set \<Rightarrow> (handlerID \<times> handlerID option) list \<Rightarrow> registryError option" where
  "check_implementations handlers [] = None"
| "check_implementations handlers ((h, impl) # rest) =
     (if h \<notin> handlers then Some (UndeclaredImplementation h)
      else if impl \<noteq> Some h then Some (MismatchedImplementation h)
      else check_implementations handlers rest)"

fun check_rules :: "string set \<Rightarrow> string option list \<Rightarrow> registryError option" where
  "check_rules seen [] = None"
| "check_rules seen (None # rest) = Some EmptyCompatibilityRule"
| "check_rules seen (Some n # rest) =
     (if n = '''' then Some EmptyCompatibilityRule
      else if n \<in> seen then Some (DuplicateCompatibilityRule n)
      else check_rules (insert n seen) rest)"

definition validateOpenAICompatibilityRules :: "string option list \<Rightarrow> registryError option" where
  "validateOpenAICompatibilityRules rules = check_rules {} rules"

fun index_executors ::
  "handlerID set \<Rightarrow> (string \<rightharpoonup> executorDefinition) \<Rightarrow> executorDefinition list \<Rightarrow>
   registryError + (string \<rightharpoonup> executorDefinition)" where
  "index_executors handlers m [] = Inr m"
| "index_executors handlers m (d # ds) =
     (let a = normalizeRegistryAlias (ed_alias d) in
      if a = '''' then Inl EmptyExecutorAlias
      else if ed_handlerID d \<notin> handlers then Inl (ExecutorUnknownHandler (ed_alias d) (ed_handlerID d))
      else if m a \<noteq> None then Inl (DuplicateExecutorAlias (ed_alias d))
      else index_executors handlers (m(a \<mapsto> d)) ds)"

fun index_identities ::
  "handlerID set \<Rightarrow> (string \<rightharpoonup> identityAliasDefinition) \<Rightarrow> identityAliasDefinition list \<Rightarrow>
   registryError + (string \<rightharpoonup> identityAliasDefinition)" where
  "index_identities handlers m [] = Inr m"
| "index_identities handlers m (d # ds) =
     (let a = normalizeRegistryAlias (ia_alias d) in
      if a = '''' then Inl EmptyIdentityAlias
      else if ia_handlerID d \<notin> handlers then Inl (IdentityUnknownHandler (ia_alias d) (ia_handlerID d))
      else if m a \<noteq> None then Inl (DuplicateIdentityAlias (ia_alias d))
      else index_identities handlers (m(a \<mapsto> d)) ds)"

fun index_prefixes ::
  "handlerID set \<Rightarrow> string set \<Rightarrow> identityPrefixDefinition list \<Rightarrow> identityPrefixDefinition list \<Rightarrow>
   registryError + identityPrefixDefinition list" where
  "index_prefixes handlers seen acc [] = Inr acc"
| "index_prefixes handlers seen acc (d # ds) =
     (let p = normalizeRegistryAlias (ip_prefix d) in
      if p = '''' then Inl EmptyIdentityPrefix
      else if ip_handlerID d \<notin> handlers then Inl (PrefixUnknownHandler (ip_prefix d) (ip_handlerID d))
      else if p \<in> seen then Inl (DuplicateIdentityPrefix (ip_prefix d))
      else index_prefixes handlers (insert p seen) (acc @ [d\<lparr>ip_prefix := p\<rparr>]) ds)"

text \<open>
  \<open>buildRegistryIndexes\<close> over arbitrary tables; the source applies it once to the package's
  own tables, which is \<open>defaultRegistry\<close> below.
\<close>

definition buildRegistryIndexes ::
  "handlerID list \<Rightarrow> (handlerID \<times> handlerID option) list \<Rightarrow> string option list \<Rightarrow>
   executorDefinition list \<Rightarrow> identityAliasDefinition list \<Rightarrow> identityPrefixDefinition list \<Rightarrow>
   registryError + registryIndexes" where
  "buildRegistryIndexes defs impls rules execs ids prefs =
     (case declare_handlers {} defs of
        Inl e \<Rightarrow> Inl e
      | Inr handlers \<Rightarrow>
          if length impls \<noteq> card handlers then Inl (RegistrySize (length impls) (card handlers))
          else (case check_implementations handlers impls of
             Some e \<Rightarrow> Inl e
           | None \<Rightarrow> (case validateOpenAICompatibilityRules rules of
                Some e \<Rightarrow> Inl e
              | None \<Rightarrow> (case index_executors handlers Map.empty execs of
                   Inl e \<Rightarrow> Inl e
                 | Inr ex \<Rightarrow> (case index_identities handlers Map.empty ids of
                      Inl e \<Rightarrow> Inl e
                    | Inr idn \<Rightarrow> (case index_prefixes handlers {} [] prefs of
                         Inl e \<Rightarrow> Inl e
                       | Inr pre \<Rightarrow> Inr \<lparr>executors = ex, identities = idn, identityPrefixes = pre\<rparr>))))))"

definition defaultBuild :: "registryError + registryIndexes" where
  "defaultBuild = buildRegistryIndexes handlerDefinitions tokenHandlerIDs openAICompatibilityRuleNames
     executorDefinitions identityAliasDefinitions identityPrefixDefinitions"

definition defaultRegistry :: registryIndexes where
  "defaultRegistry = (case defaultBuild of
      Inr r \<Rightarrow> r | Inl _ \<Rightarrow> \<lparr>executors = Map.empty, identities = Map.empty, identityPrefixes = []\<rparr>)"

definition defaultRegistryErr :: "registryError option" where
  "defaultRegistryErr = (case defaultBuild of Inr _ \<Rightarrow> None | Inl e \<Rightarrow> Some e)"


section \<open>Resolution\<close>

definition resolveExecutor :: "registryIndexes \<Rightarrow> string \<Rightarrow> handlerResolution" where
  "resolveExecutor registry executorType =
     (let normalizedExecutor = normalizeRegistryAlias executorType in
      case executors registry normalizedExecutor of
        Some d \<Rightarrow>
          \<lparr>handler_id = ed_handlerID d, evidence_source = EvidenceExecutor,
           evidence_strength = EvidenceParserContract, executor_type = TrimSpace executorType,
           identity_type = '''', needs_identity = False, unknown_executor = False,
           breakdown_tokens = None\<rparr>
      | None \<Rightarrow>
          \<lparr>handler_id = HandlerStrictPassThrough, evidence_source = EvidenceDefault,
           evidence_strength = EvidenceUnknown, executor_type = TrimSpace executorType,
           identity_type = '''', needs_identity = True,
           unknown_executor = (normalizedExecutor \<noteq> '''' \<and> normalizedExecutor \<noteq> ''unknown''),
           breakdown_tokens = None\<rparr>)"

definition ResolveExecutor :: "string \<Rightarrow> registryError + handlerResolution" where
  "ResolveExecutor executorType =
     (case defaultRegistryErr of
        Some e \<Rightarrow> Inl e
      | None \<Rightarrow> Inr (resolveExecutor defaultRegistry executorType))"

definition ResolveIdentity :: "string \<Rightarrow> string \<Rightarrow> registryError + handlerResolution" where
  "ResolveIdentity executorType identityType =
     (case defaultRegistryErr of
        Some e \<Rightarrow> Inl e
      | None \<Rightarrow>
          let res = resolveExecutor defaultRegistry executorType in
          if \<not> needs_identity res then Inr (res\<lparr>identity_type := TrimSpace identityType\<rparr>)
          else let normalizedIdentity = normalizeRegistryAlias identityType in
            (case identities defaultRegistry normalizedIdentity of
               Some d \<Rightarrow>
                 Inr (res\<lparr>handler_id := ia_handlerID d, evidence_source := EvidenceIdentity,
                          evidence_strength := EvidenceIdentityHint,
                          identity_type := TrimSpace identityType, needs_identity := False\<rparr>)
             | None \<Rightarrow>
                 (case find (\<lambda>d. prefix (ip_prefix d) normalizedIdentity) (identityPrefixes defaultRegistry) of
                    Some d \<Rightarrow>
                      Inr (res\<lparr>handler_id := ip_handlerID d, evidence_source := EvidenceIdentity,
                               evidence_strength := EvidenceIdentityHint,
                               identity_type := TrimSpace identityType, needs_identity := False\<rparr>)
                  | None \<Rightarrow>
                      Inr (res\<lparr>handler_id := HandlerStrictPassThrough, evidence_source := EvidenceDefault,
                               evidence_strength := EvidenceUnknown,
                               identity_type := TrimSpace identityType, needs_identity := False\<rparr>))))"

section \<open>The alias index contract\<close>

text \<open>
  Both alias tables are indexed by the same loop over different records. The contract states
  one round of the loop; its clients get when indexing succeeds and what the index then
  answers.
\<close>

locale alias_index =
  fixes index :: "handlerID set \<Rightarrow> (string \<rightharpoonup> 'd) \<Rightarrow> 'd list \<Rightarrow> registryError + (string \<rightharpoonup> 'd)"
    and key :: "'d \<Rightarrow> string"
    and target :: "'d \<Rightarrow> handlerID"
  assumes index_Nil: "index H m [] = Inr m"
    and index_accept: "key d \<noteq> '''' \<Longrightarrow> target d \<in> H \<Longrightarrow> m (key d) = None \<Longrightarrow>
      index H m (d # ds) = index H (m(key d \<mapsto> d)) ds"
    and index_reject: "key d = '''' \<or> target d \<notin> H \<or> m (key d) \<noteq> None \<Longrightarrow>
      \<exists>e. index H m (d # ds) = Inl e"
begin

lemma index_success_iff:
  "(\<exists>m'. index H m ds = Inr m') \<longleftrightarrow>
     (\<forall>d \<in> set ds. key d \<noteq> '''' \<and> target d \<in> H) \<and> distinct (map key ds) \<and>
     dom m \<inter> key ` set ds = {}"
proof (induction ds arbitrary: m)
  case Nil
  then show ?case by (simp add: index_Nil)
next
  case (Cons d ds)
  show ?case
  proof (cases "key d \<noteq> '''' \<and> target d \<in> H \<and> m (key d) = None")
    case True
    then have "index H m (d # ds) = index H (m(key d \<mapsto> d)) ds" by (simp add: index_accept)
    moreover have "key d \<notin> dom m" using True by auto
    ultimately show ?thesis using True Cons.IH [of "m(key d \<mapsto> d)"]
      by (simp only: dom_fun_upd) auto
  next
    case False
    then obtain e where "index H m (d # ds) = Inl e" using index_reject by blast
    with False show ?thesis by auto
  qed
qed

lemma index_lookup:
  assumes "index H m ds = Inr m'"
  shows "m' a = Some d \<longleftrightarrow> m a = Some d \<or> (d \<in> set ds \<and> key d = a)"
  using assms
proof (induction ds arbitrary: m)
  case Nil
  then show ?case by (simp add: index_Nil)
next
  case (Cons c ds)
  then have ok: "key c \<noteq> '''' \<and> target c \<in> H \<and> m (key c) = None"
    using index_reject [of c H m ds] by (metis Inl_Inr_False)
  with Cons.prems have "index H (m(key c \<mapsto> c)) ds = Inr m'" by (simp add: index_accept)
  then have "m' a = Some d \<longleftrightarrow> (m(key c \<mapsto> c)) a = Some d \<or> (d \<in> set ds \<and> key d = a)"
    by (rule Cons.IH)
  with ok show ?case by (auto split: if_splits)
qed

end

interpretation exec_index: alias_index index_executors
  "\<lambda>d. normalizeRegistryAlias (ed_alias d)" ed_handlerID
  by unfold_locales (auto simp: Let_def)

interpretation ident_index: alias_index index_identities
  "\<lambda>d. normalizeRegistryAlias (ia_alias d)" ia_handlerID
  by unfold_locales (auto simp: Let_def)


section \<open>The package's own tables\<close>

lemma declare_handlers_distinct:
  "distinct hs \<Longrightarrow> set hs \<inter> seen = {} \<Longrightarrow> declare_handlers seen hs = Inr (seen \<union> set hs)"
  by (induction hs arbitrary: seen) (auto simp: insert_commute Un_insert_right)

lemma handlers_declared: "declare_handlers {} handlerDefinitions = Inr (set handlerDefinitions)"
  by (subst declare_handlers_distinct) (simp_all add: handlerDefinitions_def)

lemma normalized_executor_aliases:
  "map (\<lambda>d. normalizeRegistryAlias (ed_alias d)) executorDefinitions =
     [''claudeexecutor'', ''geminiexecutor'', ''geminivertexexecutor'', ''geminicliexecutor'',
      ''aistudioexecutor'', ''antigravityexecutor'', ''codexexecutor'', ''codexwebsocketsexecutor'',
      ''codexautoexecutor'', ''xaiexecutor'', ''xaiwebsocketsexecutor'', ''xaiautoexecutor'',
      ''kimiexecutor'', ''openaicompatexecutor'', ''metaexecutor'', ''devinexecutor'']"
  by code_simp

lemma normalized_identity_aliases:
  "map (\<lambda>d. normalizeRegistryAlias (ia_alias d)) identityAliasDefinitions =
     map ia_alias identityAliasDefinitions"
  by code_simp

lemma executors_indexed:
  "\<exists>m. index_executors (set handlerDefinitions) Map.empty executorDefinitions = Inr m"
proof -
  have "\<forall>a \<in> set (map (\<lambda>d. normalizeRegistryAlias (ed_alias d)) executorDefinitions). a \<noteq> ''''"
    "distinct (map (\<lambda>d. normalizeRegistryAlias (ed_alias d)) executorDefinitions)"
    unfolding normalized_executor_aliases by simp_all
  moreover have "\<forall>d \<in> set executorDefinitions. ed_handlerID d \<in> set handlerDefinitions"
    by (simp add: executorDefinitions_def handlerDefinitions_def executor_definition_defs)
  ultimately show ?thesis by (simp add: exec_index.index_success_iff)
qed

lemma identities_indexed:
  "\<exists>m. index_identities (set handlerDefinitions) Map.empty identityAliasDefinitions = Inr m"
proof -
  have "\<forall>a \<in> set (map (\<lambda>d. normalizeRegistryAlias (ia_alias d)) identityAliasDefinitions). a \<noteq> ''''"
    "distinct (map (\<lambda>d. normalizeRegistryAlias (ia_alias d)) identityAliasDefinitions)"
    unfolding normalized_identity_aliases by (simp_all add: identityAliasDefinitions_def)
  moreover have "\<forall>d \<in> set identityAliasDefinitions. ia_handlerID d \<in> set handlerDefinitions"
    by (simp add: identityAliasDefinitions_def handlerDefinitions_def)
  ultimately show ?thesis by (simp add: ident_index.index_success_iff)
qed

lemma prefixes_indexed:
  "index_prefixes (set handlerDefinitions) {} [] identityPrefixDefinitions = Inr identityPrefixDefinitions"
proof -
  have "normalizeRegistryAlias ''openai-compatible-'' = ''openai-compatible-''" by code_simp
  then show ?thesis by (simp add: identityPrefixDefinitions_def handlerDefinitions_def)
qed

lemma defaultBuild_tables:
  obtains ex idn where
    "defaultBuild = Inr \<lparr>executors = ex, identities = idn, identityPrefixes = identityPrefixDefinitions\<rparr>"
    and "index_executors (set handlerDefinitions) Map.empty executorDefinitions = Inr ex"
    and "index_identities (set handlerDefinitions) Map.empty identityAliasDefinitions = Inr idn"
proof -
  obtain ex where ex: "index_executors (set handlerDefinitions) Map.empty executorDefinitions = Inr ex"
    using executors_indexed by blast
  obtain idn where idn: "index_identities (set handlerDefinitions) Map.empty identityAliasDefinitions = Inr idn"
    using identities_indexed by blast
  have "card (set handlerDefinitions) = length tokenHandlerIDs"
    "check_implementations (set handlerDefinitions) tokenHandlerIDs = None"
    by (simp_all add: handlerDefinitions_def tokenHandlerIDs_def)
  moreover have "validateOpenAICompatibilityRules openAICompatibilityRuleNames = None"
    by (simp add: validateOpenAICompatibilityRules_def openAICompatibilityRuleNames_def)
  ultimately have
    "defaultBuild = Inr \<lparr>executors = ex, identities = idn, identityPrefixes = identityPrefixDefinitions\<rparr>"
    by (simp add: defaultBuild_def buildRegistryIndexes_def handlers_declared prefixes_indexed ex idn)
  from this ex idn show ?thesis by (rule that)
qed

lemma defaultRegistry_tables:
  shows defaultRegistryErr_None [simp]: "defaultRegistryErr = None"
    and executors_default:
      "index_executors (set handlerDefinitions) Map.empty executorDefinitions = Inr (executors defaultRegistry)"
    and identities_default:
      "index_identities (set handlerDefinitions) Map.empty identityAliasDefinitions = Inr (identities defaultRegistry)"
    and default_prefixes [simp]: "identityPrefixes defaultRegistry = identityPrefixDefinitions"
proof -
  obtain ex idn where b:
    "defaultBuild = Inr \<lparr>executors = ex, identities = idn, identityPrefixes = identityPrefixDefinitions\<rparr>"
    and ix: "index_executors (set handlerDefinitions) Map.empty executorDefinitions = Inr ex"
      "index_identities (set handlerDefinitions) Map.empty identityAliasDefinitions = Inr idn"
    by (rule defaultBuild_tables)
  show "defaultRegistryErr = None" unfolding defaultRegistryErr_def b by simp
  show "index_executors (set handlerDefinitions) Map.empty executorDefinitions = Inr (executors defaultRegistry)"
    "index_identities (set handlerDefinitions) Map.empty identityAliasDefinitions = Inr (identities defaultRegistry)"
    "identityPrefixes defaultRegistry = identityPrefixDefinitions"
    unfolding defaultRegistry_def b using ix by simp_all
qed

lemma default_executors:
  "executors defaultRegistry a = Some d \<longleftrightarrow>
     d \<in> set executorDefinitions \<and> normalizeRegistryAlias (ed_alias d) = a"
  by (simp add: exec_index.index_lookup [OF executors_default])

lemma default_identities:
  "identities defaultRegistry a = Some d \<longleftrightarrow>
     d \<in> set identityAliasDefinitions \<and> normalizeRegistryAlias (ia_alias d) = a"
  by (simp add: ident_index.index_lookup [OF identities_default])

text \<open>What every route the resolver hands out satisfies; the processor relies on it.\<close>

definition route_ok :: "handlerResolution \<Rightarrow> bool" where
  "route_ok res \<longleftrightarrow> handler_id res \<in> set handlerDefinitions \<and>
     (evidence_strength res = EvidenceParserContract \<longleftrightarrow> evidence_source res = EvidenceExecutor)"

lemma resolveExecutor_cases:
  obtains (known) d where "d \<in> set executorDefinitions"
      "normalizeRegistryAlias (ed_alias d) = normalizeRegistryAlias e"
      "resolveExecutor defaultRegistry e =
        \<lparr>handler_id = ed_handlerID d, evidence_source = EvidenceExecutor,
         evidence_strength = EvidenceParserContract, executor_type = TrimSpace e,
         identity_type = '''', needs_identity = False, unknown_executor = False,
         breakdown_tokens = None\<rparr>"
  | (unknown) "normalizeRegistryAlias e \<notin> (\<lambda>d. normalizeRegistryAlias (ed_alias d)) ` set executorDefinitions"
      "resolveExecutor defaultRegistry e =
        \<lparr>handler_id = HandlerStrictPassThrough, evidence_source = EvidenceDefault,
         evidence_strength = EvidenceUnknown, executor_type = TrimSpace e,
         identity_type = '''', needs_identity = True,
         unknown_executor = (normalizeRegistryAlias e \<noteq> '''' \<and> normalizeRegistryAlias e \<noteq> ''unknown''),
         breakdown_tokens = None\<rparr>"
proof (cases "executors defaultRegistry (normalizeRegistryAlias e)")
  case None
  then have "\<forall>d. \<not> (d \<in> set executorDefinitions \<and> normalizeRegistryAlias (ed_alias d) = normalizeRegistryAlias e)"
    by (metis default_executors option.distinct(1))
  with None show ?thesis by (intro unknown) (auto simp: resolveExecutor_def Let_def)
next
  case (Some d)
  then have "d \<in> set executorDefinitions" "normalizeRegistryAlias (ed_alias d) = normalizeRegistryAlias e"
    by (simp_all add: default_executors)
  then show ?thesis by (rule known) (simp add: resolveExecutor_def Some)
qed

lemma executor_targets: "d \<in> set executorDefinitions \<Longrightarrow> ed_handlerID d \<in> set handlerDefinitions"
  by (auto simp: executorDefinitions_def handlerDefinitions_def executor_definition_defs)

lemma identity_targets: "d \<in> set identityAliasDefinitions \<Longrightarrow> ia_handlerID d \<in> set handlerDefinitions"
  by (auto simp: identityAliasDefinitions_def handlerDefinitions_def)

section \<open>Properties of the registry and the resolver\<close>

lemma declare_handlers_iff:
  "declare_handlers seen hs = Inr H \<longleftrightarrow> distinct hs \<and> set hs \<inter> seen = {} \<and> H = seen \<union> set hs"
  by (induction hs arbitrary: seen) auto

lemma check_implementations_iff:
  "check_implementations H impls = None \<longleftrightarrow> (\<forall>(h, impl) \<in> set impls. h \<in> H \<and> impl = Some h)"
  by (induction H impls rule: check_implementations.induct) auto

lemma check_rules_iff:
  "check_rules seen rules = None \<longleftrightarrow>
     (\<forall>r \<in> set rules. r \<noteq> None \<and> r \<noteq> Some '''') \<and> distinct rules \<and> Some ` seen \<inter> set rules = {}"
  by (induction seen rules rule: check_rules.induct) auto

lemma index_prefixes_iff:
  "(\<exists>ps. index_prefixes H seen acc ds = Inr ps) \<longleftrightarrow>
     (\<forall>d \<in> set ds. normalizeRegistryAlias (ip_prefix d) \<noteq> '''' \<and> ip_handlerID d \<in> H) \<and>
     distinct (map (\<lambda>d. normalizeRegistryAlias (ip_prefix d)) ds) \<and>
     seen \<inter> (\<lambda>d. normalizeRegistryAlias (ip_prefix d)) ` set ds = {}"
  by (induction H seen acc ds rule: index_prefixes.induct) (auto simp: Let_def)

text \<open>Well-formed tables: what the validation is meant to accept.\<close>

definition registry_tables_ok ::
  "handlerID list \<Rightarrow> (handlerID \<times> handlerID option) list \<Rightarrow> string option list \<Rightarrow>
   executorDefinition list \<Rightarrow> identityAliasDefinition list \<Rightarrow> identityPrefixDefinition list \<Rightarrow> bool" where
  "registry_tables_ok defs impls rules execs ids prefs \<longleftrightarrow>
     distinct defs \<and> length impls = length defs \<and>
     (\<forall>(h, impl) \<in> set impls. h \<in> set defs \<and> impl = Some h) \<and>
     (\<forall>r \<in> set rules. r \<noteq> None \<and> r \<noteq> Some '''') \<and> distinct rules \<and>
     (\<forall>d \<in> set execs. normalizeRegistryAlias (ed_alias d) \<noteq> '''' \<and> ed_handlerID d \<in> set defs) \<and>
     distinct (map (\<lambda>d. normalizeRegistryAlias (ed_alias d)) execs) \<and>
     (\<forall>d \<in> set ids. normalizeRegistryAlias (ia_alias d) \<noteq> '''' \<and> ia_handlerID d \<in> set defs) \<and>
     distinct (map (\<lambda>d. normalizeRegistryAlias (ia_alias d)) ids) \<and>
     (\<forall>d \<in> set prefs. normalizeRegistryAlias (ip_prefix d) \<noteq> '''' \<and> ip_handlerID d \<in> set defs) \<and>
     distinct (map (\<lambda>d. normalizeRegistryAlias (ip_prefix d)) prefs)"

lemma build_stages:
  "(\<exists>r. buildRegistryIndexes defs impls rules execs ids prefs = Inr r) \<longleftrightarrow>
     distinct defs \<and> length impls = card (set defs) \<and>
     check_implementations (set defs) impls = None \<and> check_rules {} rules = None \<and>
     (\<exists>m. index_executors (set defs) Map.empty execs = Inr m) \<and>
     (\<exists>m. index_identities (set defs) Map.empty ids = Inr m) \<and>
     (\<exists>ps. index_prefixes (set defs) {} [] prefs = Inr ps)"
proof (cases "declare_handlers {} defs")
  case (Inl e)
  then have "\<not> distinct defs" using declare_handlers_iff [of "{}" defs "set defs"] by auto
  with Inl show ?thesis by (simp add: buildRegistryIndexes_def)
next
  case (Inr H)
  then have "distinct defs" "H = set defs" by (simp_all add: declare_handlers_iff)
  with Inr show ?thesis
    by (auto simp: buildRegistryIndexes_def validateOpenAICompatibilityRules_def
        split: option.splits sum.splits)
qed

text \<open>
  Start-up validation of the handler registry accepts exactly the well-formed tables:
  distinct handler identifiers, one implementation per identifier that reports that identifier,
  non-empty and distinct rule names, and aliases and prefixes that are non-empty, pairwise
  distinct after trimming and lower-casing, and point at declared handlers.
\<close>

theorem buildRegistryIndexes_accepts_iff:
  "(\<exists>r. buildRegistryIndexes defs impls rules execs ids prefs = Inr r) \<longleftrightarrow>
     registry_tables_ok defs impls rules execs ids prefs"
  unfolding build_stages registry_tables_ok_def check_implementations_iff check_rules_iff
    exec_index.index_success_iff ident_index.index_success_iff index_prefixes_iff
  by (auto simp: distinct_card)

text \<open>
  Resolution with the shipped tables is total: for every executor name and every
  credential identity it gives a route to a declared handler that needs no further identity
  lookup. The route carries the parser contract exactly when the trimmed, lower-cased name is a
  registered executor, and then the identity changes nothing but the recorded identity type.
\<close>

theorem ResolveIdentity_total:
  "\<exists>res. ResolveIdentity e i = Inr res \<and> handler_id res \<in> set handlerDefinitions \<and>
     \<not> needs_identity res \<and> identity_type res = TrimSpace i \<and> breakdown_tokens res = None \<and>
     (evidence_strength res = EvidenceParserContract \<longleftrightarrow>
        normalizeRegistryAlias e \<in> (\<lambda>d. normalizeRegistryAlias (ed_alias d)) ` set executorDefinitions) \<and>
     (evidence_strength res = EvidenceParserContract \<longrightarrow>
        ResolveExecutor e = Inr (res\<lparr>identity_type := ''''\<rparr>))"
proof (cases rule: resolveExecutor_cases [of e])
  case (known d)
  then show ?thesis
    by (auto simp: ResolveIdentity_def ResolveExecutor_def executor_targets intro!: image_eqI [of _ _ d])
next
  case unknown
  have pre: "\<And>d. find p identityPrefixDefinitions = Some d \<Longrightarrow> ip_handlerID d \<in> set handlerDefinitions" for p
    by (auto simp: identityPrefixDefinitions_def handlerDefinitions_def split: if_splits)
  have strict: "HandlerStrictPassThrough \<in> set handlerDefinitions" by (simp add: handlerDefinitions_def)
  from unknown show ?thesis
    by (auto simp: ResolveIdentity_def Let_def default_identities identity_targets pre strict
        split: option.split)
qed

theorem ResolveIdentity_total_witness:
  "\<exists>res. ResolveIdentity ''ClaudeExecutor'' ''gemini'' = Inr res \<and>
     ResolveExecutor ''ClaudeExecutor'' = Inr (res\<lparr>identity_type := ''''\<rparr>)"
proof -
  have "normalizeRegistryAlias ''ClaudeExecutor'' \<in>
      (\<lambda>d. normalizeRegistryAlias (ed_alias d)) ` set executorDefinitions"
    by (rule image_eqI [of _ _ claudeExecutorDefinition])
      (simp_all add: executorDefinitions_def claudeExecutorDefinition_def)
  then show ?thesis using ResolveIdentity_total [of "''ClaudeExecutor''" "''gemini''"] by blast
qed

end
