(* ===== verification/Token_Handlers.thy ===== *)
theory Token_Handlers
  imports Token_Core Token_Registry
begin

text \<open>
  The protocol handlers of \<open>internal/service/tokenprocessor\<close>: one \<open>Normalize\<close> per handler,
  over the non-negative snapshot, the set of clamped fields and the route; and the CPA
  accounting breakdown (breakdown.go). The contract every handler meets is the locale
  \<open>token_handler\<close>.
\<close>

section \<open>Cache-read alias\<close>

definition normalizeNonClaudeCacheRead :: "normalizationContext \<Rightarrow> reconciled" where
  "normalizeNonClaudeCacheRead ctx =
     (let tokens = nonNegative ctx in
      if tfs_has (clamped ctx) ''cache_read_tokens'' then
        (if CachedTokens tokens \<le> 0 then (tokens, [], [])
         else (tokens, [], [mk_violation ViolationAmbiguousTotalMismatch
                [''cached_tokens'', ''cache_read_tokens'']
                ''cache read alias depends on a clamped read field'']))
      else if CacheReadPresent tokens \<and> evidence_strength (resolution ctx) = EvidenceParserContract then
        (tokens, [], [])
      else if CacheReadTokens tokens \<noteq> 0 \<or> CachedTokens tokens \<le> 0 then (tokens, [], [])
      else
        (tokens\<lparr>CacheReadTokens := CachedTokens tokens\<rparr>,
         [mk_action ActionBackfillCacheReadAlias ''cache_read_tokens'' (CacheReadTokens tokens)
            (CachedTokens tokens) (evidence_source (resolution ctx))
            ''non_claude_cached_to_read_alias'' TokenOutcomeCompatibility],
         []))"


section \<open>Strict pass-through\<close>

definition strictPassThrough_Normalize :: "normalizationContext \<Rightarrow> handlerResult" where
  "strictPassThrough_Normalize ctx =
     (let (tokens, actions, violations) = normalizeNonClaudeCacheRead ctx in
      \<lparr>hr_tokens = tokens, hr_authority = totalAuthorityZeroOnly,
       hr_actions = actions, hr_violations = violations\<rparr>)"


section \<open>Claude\<close>

definition claudeIdentityProvesLegacyMissingCache :: "normalizationContext \<Rightarrow> int \<Rightarrow> bool" where
  "claudeIdentityProvesLegacyMissingCache ctx canonicalInput =
     (let t = nonNegative ctx in
      if tfs_hasAny (clamped ctx) [''input_tokens'', ''output_tokens'', ''cache_read_tokens'',
           ''cache_creation_tokens'', ''total_tokens''] then False
      else let (cacheTotal, ok) = safeAddTokenCounts [CacheReadTokens t, CacheCreationTokens t] in
        if \<not> ok \<or> cacheTotal \<le> 0 then False
        else let (rawTotal, ok2) = safeAddTokenCounts [InputTokens t, OutputTokens t] in
          if \<not> ok2 \<or> rawTotal \<noteq> TotalTokens t then False
          else let (canonicalTotal, ok3) = safeAddTokenCounts [canonicalInput, OutputTokens t] in
            ok3 \<and> canonicalTotal \<noteq> TotalTokens t)"

definition claude_Normalize :: "normalizationContext \<Rightarrow> handlerResult" where
  "claude_Normalize ctx =
     (let tokens = nonNegative ctx;
          src = evidence_source (resolution ctx);
          contract = (evidence_strength (resolution ctx) = EvidenceParserContract);
          (canonicalInput, ok) = safeAddTokenCounts
             [InputTokens tokens, CacheReadTokens tokens, CacheCreationTokens tokens];
          (tokens1, authority, actions1, violations1) =
            (if tfs_hasAny (clamped ctx) [''input_tokens'', ''cache_read_tokens'', ''cache_creation_tokens''] then
               (tokens, totalAuthorityZeroOnly, [],
                [mk_violation ViolationAmbiguousTotalMismatch
                   [''input_tokens'', ''cache_read_tokens'', ''cache_creation_tokens'']
                   ''Claude input fold depends on clamped fields''])
             else if \<not> ok then
               (tokens, totalAuthorityPreserve, [],
                [mk_violation ViolationTokenArithmeticOverflow
                   [''input_tokens'', ''cache_read_tokens'', ''cache_creation_tokens'']
                   ''Claude canonical input exceeds int64''])
             else
               (tokens\<lparr>InputTokens := canonicalInput\<rparr>,
                (if contract then totalAuthorityCanonical
                 else if claudeIdentityProvesLegacyMissingCache ctx canonicalInput then totalAuthorityCanonical
                 else totalAuthorityZeroOnly),
                (if canonicalInput \<noteq> InputTokens tokens then
                   [mk_action ActionNormalizeClaudeInput ''input_tokens'' (InputTokens tokens) canonicalInput
                      src ''claude_input_excludes_cache'' TokenOutcomeNormalized]
                 else []),
                []));
          violations2 =
            (if contract \<and> CachedTokens tokens1 > 0 \<and> CacheReadTokens tokens1 > 0 \<and>
                CachedTokens tokens1 \<noteq> CacheReadTokens tokens1 then
               [mk_violation ViolationCacheReadAliasConflict [''cached_tokens'', ''cache_read_tokens'']
                  ''Claude cached/read aliases disagree under parser contract'']
             else []);
          actions2 =
            (if CachedTokens tokens1 \<noteq> CacheReadTokens tokens1 then
               [mk_action ActionNormalizeClaudeCachedAlias ''cached_tokens'' (CachedTokens tokens1)
                  (CacheReadTokens tokens1) src ''claude_cached_equals_explicit_read'' TokenOutcomeNormalized]
             else [])
      in \<lparr>hr_tokens = tokens1\<lparr>CachedTokens := CacheReadTokens tokens1\<rparr>, hr_authority = authority,
          hr_actions = actions1 @ actions2, hr_violations = violations1 @ violations2\<rparr>)"


section \<open>Gemini\<close>

definition shouldFoldGeminiIdentityReasoning :: "normalizationContext \<Rightarrow> bool \<times> violation list" where
  "shouldFoldGeminiIdentityReasoning ctx =
     (let t = nonNegative ctx in
      if tfs_hasAny (clamped ctx) [''input_tokens'', ''output_tokens'', ''reasoning_tokens'', ''total_tokens''] then
        (False, [mk_violation ViolationAmbiguousTotalMismatch
           [''input_tokens'', ''output_tokens'', ''reasoning_tokens'', ''total_tokens'']
           ''Gemini identity decision depends on clamped fields''])
      else if ReasoningTokens t \<le> 0 then (False, [])
      else if TotalTokens t = 0 then (True, [])
      else let (inclusiveTotal, ok) = safeAddTokenCounts [InputTokens t, OutputTokens t] in
        if \<not> ok then
          (False, [mk_violation ViolationTokenArithmeticOverflow [''input_tokens'', ''output_tokens'']
             ''Gemini identity inclusive total exceeds int64''])
        else if inclusiveTotal = TotalTokens t then (False, [])
        else let (separatedTotal, ok2) =
               safeAddTokenCounts [InputTokens t, OutputTokens t, ReasoningTokens t] in
          if \<not> ok2 then
            (False, [mk_violation ViolationTokenArithmeticOverflow
               [''input_tokens'', ''output_tokens'', ''reasoning_tokens'']
               ''Gemini identity separated total exceeds int64''])
          else (separatedTotal = TotalTokens t, []))"

definition gemini_Normalize :: "normalizationContext \<Rightarrow> handlerResult" where
  "gemini_Normalize ctx =
     (let (tokens, actions, cacheViolations) = normalizeNonClaudeCacheRead ctx;
          (authority, shouldFold, violations) =
            (if tfs_hasAny (clamped ctx) [''output_tokens'', ''reasoning_tokens''] then
               (totalAuthorityZeroOnly, False,
                cacheViolations @
                [mk_violation ViolationAmbiguousTotalMismatch [''output_tokens'', ''reasoning_tokens'']
                   ''Gemini output fold depends on clamped fields''])
             else if evidence_strength (resolution ctx) = EvidenceParserContract then
               (if cacheViolations = [] \<and>
                   \<not> tfs_hasAny (clamped ctx) [''input_tokens'', ''output_tokens'', ''reasoning_tokens'',
                        ''cache_read_tokens'', ''cache_creation_tokens'']
                then totalAuthorityCanonical else totalAuthorityZeroOnly,
                ReasoningTokens tokens > 0, cacheViolations)
             else let (fold', foldViolations) = shouldFoldGeminiIdentityReasoning ctx in
               (totalAuthorityZeroOnly, fold', cacheViolations @ foldViolations))
      in if shouldFold then
           (let (canonicalOutput, ok) = safeAddTokenCounts [OutputTokens tokens, ReasoningTokens tokens] in
            if \<not> ok then
              \<lparr>hr_tokens = tokens, hr_authority = totalAuthorityPreserve, hr_actions = actions,
               hr_violations = violations @
                 [mk_violation ViolationTokenArithmeticOverflow [''output_tokens'', ''reasoning_tokens'']
                    ''Gemini canonical output exceeds int64'']\<rparr>
            else
              \<lparr>hr_tokens = tokens\<lparr>OutputTokens := canonicalOutput\<rparr>, hr_authority = authority,
               hr_actions = actions @
                 [mk_action ActionNormalizeGeminiOutput ''output_tokens'' (OutputTokens tokens) canonicalOutput
                    (evidence_source (resolution ctx)) ''gemini_output_excludes_reasoning'' TokenOutcomeNormalized],
               hr_violations = violations\<rparr>)
         else \<lparr>hr_tokens = tokens, hr_authority = authority, hr_actions = actions,
               hr_violations = violations\<rparr>)"


section \<open>Responses-inclusive\<close>

definition matchesLegacyCodexCachedOnlyShape :: "normalizationContext \<Rightarrow> bool" where
  "matchesLegacyCodexCachedOnlyShape ctx =
     (let t = nonNegative ctx in
      if evidence_strength (resolution ctx) \<noteq> EvidenceParserContract \<or>
         normalizeRegistryAlias (executor_type (resolution ctx)) \<noteq> ''codexexecutor'' then False
      else if tfs_hasAny (clamped ctx) [''input_tokens'', ''output_tokens'', ''reasoning_tokens'', ''cached_tokens'',
           ''cache_read_tokens'', ''cache_creation_tokens'', ''total_tokens''] then False
      else if InputTokens t \<noteq> 0 \<or> OutputTokens t \<noteq> 0 \<or> ReasoningTokens t \<noteq> 0 then False
      else if CachedTokens t \<le> 0 \<or> CacheReadTokens t \<noteq> 0 \<or> CacheCreationTokens t \<noteq> 0 then False
      else TotalTokens t = CachedTokens t)"

definition matchesResponsesTotalOnlyShape :: "normalizationContext \<Rightarrow> bool" where
  "matchesResponsesTotalOnlyShape ctx =
     (let t = nonNegative ctx in
      if clamped ctx \<noteq> {} then False
      else TotalTokens t > 0 \<and> InputTokens t = 0 \<and> OutputTokens t = 0 \<and> ReasoningTokens t = 0 \<and>
        CachedTokens t = 0 \<and> CacheReadTokens t = 0 \<and> CacheCreationTokens t = 0)"

definition responsesInclusive_Normalize :: "normalizationContext \<Rightarrow> handlerResult" where
  "responsesInclusive_Normalize ctx =
     (let (tokens, actions, violations) = normalizeNonClaudeCacheRead ctx in
      if matchesResponsesTotalOnlyShape ctx then
        \<lparr>hr_tokens = tokens, hr_authority = totalAuthorityPreserve, hr_actions = actions,
         hr_violations = violations\<rparr>
      else if matchesLegacyCodexCachedOnlyShape ctx then
        \<lparr>hr_tokens = tokens, hr_authority = totalAuthorityPreserve, hr_actions = actions,
         hr_violations = violations\<rparr>
      else
        \<lparr>hr_tokens = tokens,
         hr_authority =
           (if violations = [] \<and> evidence_strength (resolution ctx) = EvidenceParserContract \<and>
               \<not> tfs_hasAny (clamped ctx) [''input_tokens'', ''output_tokens'', ''reasoning_tokens'',
                    ''cache_read_tokens'', ''cache_creation_tokens'']
            then totalAuthorityCanonical else totalAuthorityZeroOnly),
         hr_actions = actions, hr_violations = violations\<rparr>)"


section \<open>OpenAI compatibility\<close>

text \<open>A compatibility rule: the source's interface of a match and an application.\<close>

record compatibilityRule =
  rule_Name :: string
  rule_Match :: "normalizationContext \<Rightarrow> bool \<times> violation list"
  rule_Apply :: "tokenValues \<Rightarrow> normalizationContext \<Rightarrow> reconciled"

definition issue272_Match :: "normalizationContext \<Rightarrow> bool \<times> violation list" where
  "issue272_Match ctx =
     (let t = nonNegative ctx in
      if tfs_hasAny (clamped ctx) [''input_tokens'', ''output_tokens'', ''reasoning_tokens'', ''total_tokens''] then
        (False, [mk_violation ViolationAmbiguousTotalMismatch
           [''input_tokens'', ''output_tokens'', ''reasoning_tokens'', ''total_tokens'']
           ''#272 decision depends on clamped fields''])
      else if ReasoningTokens t \<le> 0 \<or> TotalTokens t \<le> 0 then (False, [])
      else let (inclusiveTotal, ok) = safeAddTokenCounts [InputTokens t, OutputTokens t] in
        if \<not> ok then
          (False, [mk_violation ViolationTokenArithmeticOverflow [''input_tokens'', ''output_tokens'']
             ''#272 inclusive total exceeds int64''])
        else if inclusiveTotal = TotalTokens t then (False, [])
        else let (separatedTotal, ok2) =
               safeAddTokenCounts [InputTokens t, OutputTokens t, ReasoningTokens t] in
          if \<not> ok2 then
            (False, [mk_violation ViolationTokenArithmeticOverflow
               [''input_tokens'', ''output_tokens'', ''reasoning_tokens'']
               ''#272 separated total exceeds int64''])
          else (separatedTotal = TotalTokens t, []))"

definition issue272_Apply :: "tokenValues \<Rightarrow> normalizationContext \<Rightarrow> reconciled" where
  "issue272_Apply tokens ctx =
     (let (canonicalOutput, ok) = safeAddTokenCounts [OutputTokens tokens, ReasoningTokens tokens] in
      if \<not> ok then
        (tokens, [], [mk_violation ViolationTokenArithmeticOverflow [''output_tokens'', ''reasoning_tokens'']
           ''#272 canonical output exceeds int64''])
      else
        (tokens\<lparr>OutputTokens := canonicalOutput\<rparr>,
         [mk_action ''apply_issue272_reasoning_fold'' ''output_tokens'' (OutputTokens tokens) canonicalOutput
            (evidence_source (resolution ctx)) ''issue_272_separated_reasoning'' TokenOutcomeCompatibility],
         []))"

definition openAICompatibilityRules :: "compatibilityRule list" where
  "openAICompatibilityRules =
     [\<lparr>rule_Name = ''issue_272_separated_reasoning'', rule_Match = issue272_Match, rule_Apply = issue272_Apply\<rparr>]"

text \<open>The ordered, first-match-wins loop over the rules.\<close>

fun run_rules ::
  "compatibilityRule list \<Rightarrow> normalizationContext \<Rightarrow> reconciled \<Rightarrow> reconciled" where
  "run_rules [] ctx st = st"
| "run_rules (r # rs) ctx (tokens, actions, violations) =
     (let (matched, matchViolations) = rule_Match r ctx in
      if \<not> matched then run_rules rs ctx (tokens, actions, violations @ matchViolations)
      else let (updated, ruleActions, applyViolations) = rule_Apply r tokens ctx in
        (updated, actions @ ruleActions, violations @ matchViolations @ applyViolations))"

definition openAICompatibility_Normalize :: "normalizationContext \<Rightarrow> handlerResult" where
  "openAICompatibility_Normalize ctx =
     (let (tokens, actions, violations) =
            run_rules openAICompatibilityRules ctx (normalizeNonClaudeCacheRead ctx) in
      \<lparr>hr_tokens = tokens, hr_authority = totalAuthorityZeroOnly, hr_actions = actions,
       hr_violations = violations\<rparr>)"


section \<open>CPA accounting breakdown\<close>

text \<open>
  The decoded \<open>accountingBreakdown\<close> of breakdown.go: a nil pointer is \<open>None\<close>. The JSON
  decoder is a parameter of the model: the two results of \<open>json.Unmarshal\<close> are arguments, with
  \<open>None\<close> for a decoding error.
\<close>

record accountingBreakdown =
  SchemaVersion :: int
  Quality :: string
  bd_Total :: "int option"
  bd_Unclassified :: "int option"
  bd_Input_Total :: "int option"
  bd_Input_Uncached :: "int option"
  bd_Input_CacheRead :: "int option"
  bd_Input_CacheWrite :: "int option"
  bd_Output_Total :: "int option"
  bd_Output_NonReasoning :: "int option"
  bd_Output_Reasoning :: "int option"

text \<open>The loop that rejects a missing or negative counter, and otherwise reads the pointers.\<close>

fun deref_counts :: "int option list \<Rightarrow> int list option" where
  "deref_counts [] = Some []"
| "deref_counts (None # vs) = None"
| "deref_counts (Some v # vs) =
     (if v < 0 then None else (case deref_counts vs of None \<Rightarrow> None | Some ws \<Rightarrow> Some (v # ws)))"

definition decodeCompleteBreakdown ::
  "int option \<Rightarrow> accountingBreakdown option \<Rightarrow> tokenValues option" where
  "decodeCompleteBreakdown version breakdown =
     (case (version, breakdown) of
        (Some v, Some b) \<Rightarrow>
          if v \<noteq> 2 \<or> SchemaVersion b \<noteq> 2 \<or> Quality b \<noteq> ''complete'' then None
          else (case deref_counts
                 [bd_Total b, bd_Unclassified b,
                  bd_Input_Total b, bd_Input_Uncached b, bd_Input_CacheRead b, bd_Input_CacheWrite b,
                  bd_Output_Total b, bd_Output_NonReasoning b, bd_Output_Reasoning b] of
             Some [tot, uncl, inT, inU, inR, inW, outT, outN, outR] \<Rightarrow>
               if uncl \<noteq> 0 then None
               else let (input, inputOK) = safeAddTokenCounts [inU, inR, inW];
                        (output, outputOK) = safeAddTokenCounts [outN, outR];
                        (total', totalOK) = safeAddTokenCounts [inT, outT]
                 in if \<not> inputOK \<or> \<not> outputOK \<or> \<not> totalOK \<or> input \<noteq> inT \<or> output \<noteq> outT \<or> total' \<noteq> tot
                    then None
                    else Some \<lparr>InputTokens = input, OutputTokens = output, ReasoningTokens = outR,
                           CachedTokens = inR, CacheReadTokens = inR, CacheReadPresent = True,
                           CacheCreationTokens = inW, TotalTokens = total'\<rparr>
           | _ \<Rightarrow> None)
      | _ \<Rightarrow> None)"

definition breakdownMatchesReportedValues :: "tokenValues \<Rightarrow> tokenValues \<Rightarrow> bool" where
  "breakdownMatchesReportedValues canonical reported =
     (if \<exists>v \<in> set [InputTokens reported, OutputTokens reported, TotalTokens reported, CachedTokens reported,
           CacheReadTokens reported, CacheCreationTokens reported, ReasoningTokens reported]. v < 0 then False
      else if InputTokens canonical < InputTokens reported \<or> OutputTokens canonical < OutputTokens reported \<or>
         (TotalTokens reported > 0 \<and> TotalTokens canonical \<noteq> TotalTokens reported) then False
      else if (CacheReadPresent reported \<or> CacheReadTokens reported > 0) \<and>
         CacheReadTokens canonical \<noteq> CacheReadTokens reported then False
      else (CacheCreationTokens reported = 0 \<or> CacheCreationTokens canonical = CacheCreationTokens reported) \<and>
        (ReasoningTokens reported = 0 \<or> ReasoningTokens canonical = ReasoningTokens reported))"

definition ResolveExecutorWithBreakdown ::
  "string \<Rightarrow> tokenValues \<Rightarrow> int option \<Rightarrow> accountingBreakdown option \<Rightarrow>
   registryError + handlerResolution" where
  "ResolveExecutorWithBreakdown executorType values accountingVersion raw =
     (case ResolveExecutor executorType of
        Inl e \<Rightarrow> Inl e
      | Inr res \<Rightarrow>
          if \<not> needs_identity res then Inr res
          else (case decodeCompleteBreakdown accountingVersion raw of
             None \<Rightarrow> Inr res
           | Some tokens \<Rightarrow>
               if \<not> breakdownMatchesReportedValues tokens values then Inr res
               else Inr (res\<lparr>handler_id := HandlerTokenBreakdown, evidence_source := EvidenceTokenBreakdown,
                             evidence_strength := EvidenceAccountingContract, needs_identity := False,
                             breakdown_tokens := Some tokens\<rparr>)))"

definition breakdown_change :: "string \<Rightarrow> int \<Rightarrow> int \<Rightarrow> action list" where
  "breakdown_change fld b a =
     (if b \<noteq> a then [mk_action ActionNormalizeTokenBreakdown fld b a EvidenceTokenBreakdown
        ''complete_token_breakdown_v2'' TokenOutcomeNormalized] else [])"

definition tokenBreakdown_Normalize :: "normalizationContext \<Rightarrow> handlerResult" where
  "tokenBreakdown_Normalize ctx =
     (case breakdown_tokens (resolution ctx) of
        None \<Rightarrow> strictPassThrough_Normalize ctx
      | Some tokens \<Rightarrow>
          let b = nonNegative ctx in
          \<lparr>hr_tokens = tokens, hr_authority = totalAuthorityPreserve,
           hr_actions =
             breakdown_change ''input_tokens'' (InputTokens b) (InputTokens tokens) @
             breakdown_change ''output_tokens'' (OutputTokens b) (OutputTokens tokens) @
             breakdown_change ''reasoning_tokens'' (ReasoningTokens b) (ReasoningTokens tokens) @
             breakdown_change ''cached_tokens'' (CachedTokens b) (CachedTokens tokens) @
             breakdown_change ''cache_read_tokens'' (CacheReadTokens b) (CacheReadTokens tokens) @
             breakdown_change ''cache_creation_tokens'' (CacheCreationTokens b) (CacheCreationTokens tokens) @
             breakdown_change ''total_tokens'' (TotalTokens b) (TotalTokens tokens),
           hr_violations = []\<rparr>)"

lemmas [token_defs] =
  normalizeNonClaudeCacheRead_def strictPassThrough_Normalize_def claude_Normalize_def
  gemini_Normalize_def responsesInclusive_Normalize_def openAICompatibility_Normalize_def
  openAICompatibilityRules_def issue272_Match_def issue272_Apply_def tokenBreakdown_Normalize_def
  shouldFoldGeminiIdentityReasoning_def

end
