(* ===== verification/Token_Process.thy ===== *)
theory Token_Process
  imports Token_Handlers
begin

text \<open>
  The entry point of the token pipeline (processor.go) and its correctness: every route keeps
  the seven counters non-negative \<open>int64\<close> values, the recorded actions replay to exactly the
  returned counters, and a reported non-zero total is only overwritten with authority.
\<close>

section \<open>Process\<close>

definition clamp_field ::
  "string \<Rightarrow> (tokenValues \<Rightarrow> int) \<Rightarrow> ((int \<Rightarrow> int) \<Rightarrow> tokenValues \<Rightarrow> tokenValues) \<Rightarrow>
   tokenValues \<times> action list \<times> tokenFieldSet \<Rightarrow> tokenValues \<times> action list \<times> tokenFieldSet" where
  "clamp_field fld get upd st =
     (case st of (values, actions, clampd) \<Rightarrow>
        if get values \<ge> 0 then (values, actions, clampd)
        else (upd (\<lambda>_. 0) values,
              actions @ [mk_action ActionClampNegativeToken fld (get values) 0 EvidenceDefault
                ''non_negative_ingress'' TokenOutcomeCorrected],
              insert fld clampd))"

definition clampTokenValues :: "tokenValues \<Rightarrow> tokenValues \<times> action list \<times> tokenFieldSet" where
  "clampTokenValues values =
     clamp_field ''total_tokens'' TotalTokens TotalTokens_update
     (clamp_field ''cache_creation_tokens'' CacheCreationTokens CacheCreationTokens_update
     (clamp_field ''cache_read_tokens'' CacheReadTokens CacheReadTokens_update
     (clamp_field ''cached_tokens'' CachedTokens CachedTokens_update
     (clamp_field ''reasoning_tokens'' ReasoningTokens ReasoningTokens_update
     (clamp_field ''output_tokens'' OutputTokens OutputTokens_update
     (clamp_field ''input_tokens'' InputTokens InputTokens_update
     (values, [], {})))))))"

fun worst_action :: "tokenOutcome \<Rightarrow> action list \<Rightarrow> tokenOutcome" where
  "worst_action cur [] = cur"
| "worst_action cur (a # as) =
     (if ActOutcome a = TokenOutcomeCorrected then worst_action TokenOutcomeCorrected as
      else if ActOutcome a = TokenOutcomeCompatibility \<and> cur \<noteq> TokenOutcomeCorrected then
        worst_action TokenOutcomeCompatibility as
      else if ActOutcome a = TokenOutcomeNormalized \<and> cur = TokenOutcomeValid then
        worst_action TokenOutcomeNormalized as
      else worst_action cur as)"

definition summarizeTokenOutcome :: "action list \<Rightarrow> violation list \<Rightarrow> tokenOutcome" where
  "summarizeTokenOutcome actions violations =
     (if \<exists>v \<in> set violations. VioCode v = ViolationTokenArithmeticOverflow then TokenOutcomeOverflow
      else if length violations > 0 then TokenOutcomeAmbiguous
      else let actionOutcome = worst_action TokenOutcomeValid actions in
        if actionOutcome \<noteq> TokenOutcomeValid then actionOutcome
        else if length actions > 0 then TokenOutcomeNormalized
        else TokenOutcomeValid)"

text \<open>The handler registry \<open>tokenHandlers\<close>.\<close>

fun tokenHandlers :: "handlerID \<Rightarrow> (normalizationContext \<Rightarrow> handlerResult) option" where
  "tokenHandlers HandlerClaude = Some claude_Normalize"
| "tokenHandlers HandlerGemini = Some gemini_Normalize"
| "tokenHandlers HandlerResponsesInclusive = Some responsesInclusive_Normalize"
| "tokenHandlers HandlerStrictPassThrough = Some strictPassThrough_Normalize"
| "tokenHandlers HandlerOpenAICompatibility = Some openAICompatibility_Normalize"
| "tokenHandlers HandlerTokenBreakdown = Some tokenBreakdown_Normalize"
| "tokenHandlers (HandlerOther _) = None"

text \<open>The pipeline after the handler is picked.\<close>

definition process_with ::
  "(normalizationContext \<Rightarrow> handlerResult) \<Rightarrow> tokenValues \<Rightarrow> handlerResolution \<Rightarrow> processResult" where
  "process_with handler values resolved =
     (let (nonNeg, clampActions, clampd) = clampTokenValues values;
          handled = handler \<lparr>nonNegative = nonNeg, clamped = clampd, resolution = resolved\<rparr>;
          (tokens, totalActions, totalViolations) =
            reconcileFinalTotal (hr_tokens handled) (hr_authority handled) clampd resolved;
          actions = clampActions @ hr_actions handled @ totalActions;
          violations = hr_violations handled @ totalViolations
      in \<lparr>Tokens = tokens, Actions = actions, Violations = violations,
          Outcome = summarizeTokenOutcome actions violations\<rparr>)"

text \<open>\<open>Process\<close>; a nil resolution is \<open>None\<close>.\<close>

definition strict_default :: handlerResolution where
  "strict_default =
     \<lparr>handler_id = HandlerStrictPassThrough, evidence_source = EvidenceDefault,
      evidence_strength = EvidenceUnknown, executor_type = '''', identity_type = '''',
      needs_identity = False, unknown_executor = False, breakdown_tokens = None\<rparr>"

definition Process :: "tokenValues \<Rightarrow> handlerResolution option \<Rightarrow> processResult" where
  "Process values res =
     (let resolved = (case res of Some r \<Rightarrow> r | None \<Rightarrow> strict_default) in
      case tokenHandlers (handler_id resolved) of
        Some handler \<Rightarrow> process_with handler values resolved
      | None \<Rightarrow>
          process_with strictPassThrough_Normalize values
            (resolved\<lparr>handler_id := HandlerStrictPassThrough, evidence_source := EvidenceDefault,
                      evidence_strength := EvidenceUnknown\<rparr>))"


section \<open>Counters and replay of the recorded actions\<close>

definition tokens_ok :: "tokenValues \<Rightarrow> bool" where
  "tokens_ok t \<longleftrightarrow> is_count (InputTokens t) \<and> is_count (OutputTokens t) \<and> is_count (ReasoningTokens t) \<and>
     is_count (CachedTokens t) \<and> is_count (CacheReadTokens t) \<and> is_count (CacheCreationTokens t) \<and>
     is_count (TotalTokens t)"

definition tokens_int64 :: "tokenValues \<Rightarrow> bool" where
  "tokens_int64 t \<longleftrightarrow> is_int64 (InputTokens t) \<and> is_int64 (OutputTokens t) \<and> is_int64 (ReasoningTokens t) \<and>
     is_int64 (CachedTokens t) \<and> is_int64 (CacheReadTokens t) \<and> is_int64 (CacheCreationTokens t) \<and>
     is_int64 (TotalTokens t)"

definition breakdown_ok :: "handlerResolution \<Rightarrow> bool" where
  "breakdown_ok res \<longleftrightarrow> (case breakdown_tokens res of None \<Rightarrow> True | Some t \<Rightarrow> tokens_ok t)"

definition get_field :: "string \<Rightarrow> tokenValues \<Rightarrow> int option" where
  "get_field f t =
     (if f = ''input_tokens'' then Some (InputTokens t)
      else if f = ''output_tokens'' then Some (OutputTokens t)
      else if f = ''reasoning_tokens'' then Some (ReasoningTokens t)
      else if f = ''cached_tokens'' then Some (CachedTokens t)
      else if f = ''cache_read_tokens'' then Some (CacheReadTokens t)
      else if f = ''cache_creation_tokens'' then Some (CacheCreationTokens t)
      else if f = ''total_tokens'' then Some (TotalTokens t) else None)"

definition set_field :: "string \<Rightarrow> int \<Rightarrow> tokenValues \<Rightarrow> tokenValues" where
  "set_field f v t =
     (if f = ''input_tokens'' then t\<lparr>InputTokens := v\<rparr>
      else if f = ''output_tokens'' then t\<lparr>OutputTokens := v\<rparr>
      else if f = ''reasoning_tokens'' then t\<lparr>ReasoningTokens := v\<rparr>
      else if f = ''cached_tokens'' then t\<lparr>CachedTokens := v\<rparr>
      else if f = ''cache_read_tokens'' then t\<lparr>CacheReadTokens := v\<rparr>
      else if f = ''cache_creation_tokens'' then t\<lparr>CacheCreationTokens := v\<rparr>
      else if f = ''total_tokens'' then t\<lparr>TotalTokens := v\<rparr> else t)"

text \<open>
  Replaying an action list: every action must find its \<open>Before\<close> value in its field, and
  writes its \<open>After\<close> value there; \<open>None\<close> when the log does not describe the state it is
  applied to.
\<close>

fun replay :: "tokenValues \<Rightarrow> action list \<Rightarrow> tokenValues option" where
  "replay t [] = Some t"
| "replay t (a # as) =
     (if get_field (ActField a) t = Some (Before a) then replay (set_field (ActField a) (After a) t) as
      else None)"

text \<open>The seven counters, without the presence bit of the cache-read field.\<close>

definition same_counts :: "tokenValues \<Rightarrow> tokenValues \<Rightarrow> bool" where
  "same_counts t u \<longleftrightarrow> t\<lparr>CacheReadPresent := False\<rparr> = u\<lparr>CacheReadPresent := False\<rparr>"

lemma replay_append:
  "replay t (as @ bs) = Option.bind (replay t as) (\<lambda>u. replay u bs)"
  by (induction as arbitrary: t) auto

lemma same_counts_refl [simp]: "same_counts t t"
  by (simp add: same_counts_def)

lemma same_counts_field: "same_counts t u \<Longrightarrow> get_field f t = get_field f u"
  unfolding same_counts_def get_field_def
  by (cases t, cases u) simp

lemma same_counts_set: "same_counts t u \<Longrightarrow> same_counts (set_field f v t) (set_field f v u)"
  unfolding same_counts_def set_field_def
  by (cases t, cases u) simp

lemma replay_same_counts:
  "same_counts t u \<Longrightarrow> replay t as = Some t' \<Longrightarrow> \<exists>u'. replay u as = Some u' \<and> same_counts t' u'"
proof (induction as arbitrary: t u)
  case (Cons a as)
  then show ?case
    by (metis option.distinct(1) replay.simps(2) same_counts_field same_counts_set)
qed simp

section \<open>The ingress clamp\<close>

text \<open>
  A counter of the record: its name in the action log, its selector and its update. The contract
  ties the three together; the seven counters provide it.
\<close>

locale token_field =
  fixes fld :: string
    and get :: "tokenValues \<Rightarrow> int"
    and upd :: "(int \<Rightarrow> int) \<Rightarrow> tokenValues \<Rightarrow> tokenValues"
  assumes get_field_eq: "get_field fld t = Some (get t)"
    and set_field_eq: "set_field fld x t = upd (\<lambda>_. x) t"
    and upd_local: "upd f t = upd (\<lambda>_. f (get t)) t"
    and upd_same: "upd (\<lambda>_. get t) t = t"
begin

lemma clamp_value: "fst (clamp_field fld get upd st) = upd (max 0) (fst st)"
proof (cases "get (fst st) \<ge> 0")
  case True
  then have "upd (max 0) (fst st) = fst st"
    using upd_local [of "max 0" "fst st"] upd_same [of "fst st"] by (simp add: max_def)
  with True show ?thesis by (cases st) (simp add: clamp_field_def)
next
  case False
  then have "upd (max 0) (fst st) = upd (\<lambda>_. 0) (fst st)"
    using upd_local [of "max 0" "fst st"] by simp
  with False show ?thesis by (cases st) (simp add: clamp_field_def)
qed

lemma clamp_replay:
  "replay v0 (fst (snd st)) = Some (fst st) \<Longrightarrow>
   replay v0 (fst (snd (clamp_field fld get upd st))) = Some (fst (clamp_field fld get upd st))"
  by (auto simp: clamp_field_def replay_append get_field_eq set_field_eq split: prod.splits)

lemma clamp_set:
  "snd (snd (clamp_field fld get upd st)) =
     (if get (fst st) < 0 then insert fld (snd (snd st)) else snd (snd st))"
  by (auto simp: clamp_field_def split: prod.splits)

end

interpretation f_input: token_field "''input_tokens''" InputTokens InputTokens_update
  by unfold_locales (simp_all add: get_field_def set_field_def)
interpretation f_output: token_field "''output_tokens''" OutputTokens OutputTokens_update
  by unfold_locales (simp_all add: get_field_def set_field_def)
interpretation f_reasoning: token_field "''reasoning_tokens''" ReasoningTokens ReasoningTokens_update
  by unfold_locales (simp_all add: get_field_def set_field_def)
interpretation f_cached: token_field "''cached_tokens''" CachedTokens CachedTokens_update
  by unfold_locales (simp_all add: get_field_def set_field_def)
interpretation f_read: token_field "''cache_read_tokens''" CacheReadTokens CacheReadTokens_update
  by unfold_locales (simp_all add: get_field_def set_field_def)
interpretation f_creation: token_field "''cache_creation_tokens''" CacheCreationTokens CacheCreationTokens_update
  by unfold_locales (simp_all add: get_field_def set_field_def)
interpretation f_total: token_field "''total_tokens''" TotalTokens TotalTokens_update
  by unfold_locales (simp_all add: get_field_def set_field_def)

lemmas clamp_values =
  f_input.clamp_value f_output.clamp_value f_reasoning.clamp_value f_cached.clamp_value
  f_read.clamp_value f_creation.clamp_value f_total.clamp_value

lemmas clamp_sets =
  f_input.clamp_set f_output.clamp_set f_reasoning.clamp_set f_cached.clamp_set
  f_read.clamp_set f_creation.clamp_set f_total.clamp_set

text \<open>The clamped snapshot and the set of damaged fields in closed form.\<close>

definition nonneg_tokens :: "tokenValues \<Rightarrow> tokenValues" where
  "nonneg_tokens t =
     \<lparr>InputTokens = max 0 (InputTokens t), OutputTokens = max 0 (OutputTokens t),
      ReasoningTokens = max 0 (ReasoningTokens t), CachedTokens = max 0 (CachedTokens t),
      CacheReadTokens = max 0 (CacheReadTokens t), CacheReadPresent = CacheReadPresent t,
      CacheCreationTokens = max 0 (CacheCreationTokens t), TotalTokens = max 0 (TotalTokens t)\<rparr>"

lemma clamp_snapshot: "fst (clampTokenValues v) = nonneg_tokens v"
  by (simp add: clampTokenValues_def clamp_values nonneg_tokens_def)

lemma clamp_log: "replay v (fst (snd (clampTokenValues v))) = Some (nonneg_tokens v)"
proof -
  have "replay v (fst (snd (clampTokenValues v))) = Some (fst (clampTokenValues v))"
    unfolding clampTokenValues_def
    by (intro f_input.clamp_replay f_output.clamp_replay f_reasoning.clamp_replay f_cached.clamp_replay
        f_read.clamp_replay f_creation.clamp_replay f_total.clamp_replay) simp
  then show ?thesis by (simp add: clamp_snapshot)
qed

lemma clamp_damage:
  "f \<in> snd (snd (clampTokenValues v)) \<longleftrightarrow> (\<exists>x. get_field f v = Some x \<and> x < 0)"
  by (simp add: clampTokenValues_def clamp_sets clamp_values get_field_def)

lemma tokens_ok_nonneg: "tokens_int64 v \<Longrightarrow> tokens_ok (nonneg_tokens v)"
  by (simp add: tokens_int64_def tokens_ok_def nonneg_tokens_def int64_bounds)

lemma tokens_ok_int64: "tokens_ok v \<Longrightarrow> tokens_int64 v"
  by (simp add: tokens_int64_def tokens_ok_def is_count_int64)

lemma clamp_clean:
  assumes "tokens_ok v"
  shows "clampTokenValues v = (v, [], {})"
  using assms
  by (simp add: clampTokenValues_def clamp_field_def tokens_ok_def is_count_def)

section \<open>Reconciliation of the total\<close>

lemma zero_only_result:
  assumes "tokens_ok t" and "reconcileZeroOnlyTotal t cl res = (t', as, vs)"
  shows "tokens_ok t'" and "t' = t\<lparr>TotalTokens := TotalTokens t'\<rparr>" and "replay t as = Some t'"
    and "TotalTokens t \<noteq> 0 \<Longrightarrow> t' = t" and "as = [] \<Longrightarrow> t' = t"
proof -
  have "tokens_ok t' \<and> t' = t\<lparr>TotalTokens := TotalTokens t'\<rparr> \<and> replay t as = Some t' \<and>
      (TotalTokens t \<noteq> 0 \<longrightarrow> t' = t) \<and> (as = [] \<longrightarrow> t' = t)"
    using assms
    by (auto simp: reconcileZeroOnlyTotal_def tokens_ok_def int64_simps get_field_def set_field_def
        is_count_def split: if_splits)
  then show "tokens_ok t'" and "t' = t\<lparr>TotalTokens := TotalTokens t'\<rparr>" and "replay t as = Some t'"
    and "TotalTokens t \<noteq> 0 \<Longrightarrow> t' = t" and "as = [] \<Longrightarrow> t' = t" by blast+
qed

lemma conflict_result:
  assumes "tokens_ok t" and "reconcileCanonicalConflictWithZeroFallback t cl res c = (t', as, vs)"
  shows "tokens_ok t' \<and> t' = t\<lparr>TotalTokens := TotalTokens t'\<rparr> \<and> replay t as = Some t' \<and> vs \<noteq> [] \<and>
    (as = [] \<longrightarrow> t' = t)"
proof (cases "TotalTokens t = 0")
  case True
  obtain u bs ws where z: "reconcileZeroOnlyTotal t cl res = (u, bs, ws)" by (metis prod_cases3)
  with True assms(2) have "t' = u" "as = bs" "vs \<noteq> []"
    by (auto simp: reconcileCanonicalConflictWithZeroFallback_def)
  with zero_only_result [OF assms(1) z] show ?thesis by blast
next
  case False
  with assms show ?thesis by (simp add: reconcileCanonicalConflictWithZeroFallback_def) auto
qed

lemma canonical_cases [consumes 1, case_names clamp conflict overflow settled]:
  assumes "tokens_ok t"
  obtains (clamp) v where "reconcileCanonicalTotal t cl res = (t, [], [v])"
  | (conflict) c where
      "reconcileCanonicalTotal t cl res = reconcileCanonicalConflictWithZeroFallback t cl res c"
  | (overflow) v where "reconcileCanonicalTotal t cl res = (t, [], [v])"
  | (settled) as where "CacheReadTokens t + CacheCreationTokens t \<le> InputTokens t"
      "ReasoningTokens t \<le> OutputTokens t" "InputTokens t + OutputTokens t \<le> MaxInt64"
      "reconcileCanonicalTotal t cl res = (t\<lparr>TotalTokens := InputTokens t + OutputTokens t\<rparr>, as, [])"
      "replay t as = Some (t\<lparr>TotalTokens := InputTokens t + OutputTokens t\<rparr>)"
      "as = [] \<longrightarrow> TotalTokens t = InputTokens t + OutputTokens t"
proof -
  let ?damaged = "tfs_hasAny cl [''input_tokens'', ''output_tokens'', ''reasoning_tokens'',
           ''cache_read_tokens'', ''cache_creation_tokens'', ''total_tokens'']"
  have cnt: "is_count (InputTokens t)" "is_count (OutputTokens t)" "is_count (CacheReadTokens t)"
    "is_count (CacheCreationTokens t)"
    using assms by (simp_all add: tokens_ok_def)
  note def = reconcileCanonicalTotal_def safeAdd2 [OF cnt(1,2)] safeAdd2 [OF cnt(3,4)]
  show ?thesis
  proof (cases ?damaged)
    case True
    then show ?thesis by (intro clamp) (simp only: def if_True)
  next
    case undamaged: False
    show ?thesis
    proof (cases "CacheReadTokens t + CacheCreationTokens t \<le> MaxInt64 \<and>
        CacheReadTokens t + CacheCreationTokens t \<le> InputTokens t \<and> ReasoningTokens t \<le> OutputTokens t")
      case ok: True
      show ?thesis
      proof (cases "InputTokens t + OutputTokens t \<le> MaxInt64")
        case True
        with ok undamaged show ?thesis
          by (intro settled [of "fst (snd (reconcileCanonicalTotal t cl res))"])
            (simp_all add: def get_field_def set_field_def del: tfs_hasAny.simps)
      next
        case False
        with ok undamaged show ?thesis by (intro overflow) (simp add: def del: tfs_hasAny.simps)
      qed
    next
      case False
      then consider "\<not> CacheReadTokens t + CacheCreationTokens t \<le> MaxInt64"
        | "CacheReadTokens t + CacheCreationTokens t \<le> MaxInt64"
          "InputTokens t < CacheReadTokens t + CacheCreationTokens t"
        | "CacheReadTokens t + CacheCreationTokens t \<le> MaxInt64"
          "\<not> InputTokens t < CacheReadTokens t + CacheCreationTokens t"
          "OutputTokens t < ReasoningTokens t"
        by linarith
      then show ?thesis
        by cases (intro conflict, simp add: def undamaged del: tfs_hasAny.simps)+
    qed
  qed
qed

lemma canonical_result:
  assumes "tokens_ok t" and r: "reconcileCanonicalTotal t cl res = (t', as, vs)"
  shows "tokens_ok t' \<and> t' = t\<lparr>TotalTokens := TotalTokens t'\<rparr> \<and> replay t as = Some t' \<and>
    (as = [] \<longrightarrow> t' = t) \<and>
    (vs = [] \<longrightarrow> TotalTokens t' = InputTokens t + OutputTokens t \<and>
       CacheReadTokens t + CacheCreationTokens t \<le> InputTokens t \<and> ReasoningTokens t \<le> OutputTokens t)"
  using assms(1)
proof (cases rule: canonical_cases [where cl = cl and res = res])
  case (conflict c)
  with r conflict_result [OF assms(1), of cl res c t' as vs] show ?thesis by auto
next
  case (settled bs)
  with assms show ?thesis by (auto simp: tokens_ok_def is_count_def)
qed (use assms in auto)

lemma reconcile_result:
  assumes "tokens_ok t" and "reconcileFinalTotal t auth cl res = (t', as, vs)"
  shows "tokens_ok t'" and "t' = t\<lparr>TotalTokens := TotalTokens t'\<rparr>" and "replay t as = Some t'"
    and "as = [] \<Longrightarrow> t' = t"
    and "TotalTokens t \<noteq> 0 \<Longrightarrow> auth \<noteq> totalAuthorityCanonical \<Longrightarrow> t' = t"
proof -
  have "tokens_ok t' \<and> t' = t\<lparr>TotalTokens := TotalTokens t'\<rparr> \<and> replay t as = Some t' \<and>
      (as = [] \<longrightarrow> t' = t) \<and> (TotalTokens t \<noteq> 0 \<longrightarrow> auth \<noteq> totalAuthorityCanonical \<longrightarrow> t' = t)"
  proof (cases auth)
    case totalAuthorityCanonical
    with assms canonical_result show ?thesis by (simp add: reconcileFinalTotal_def)
  next
    case totalAuthorityZeroOnly
    with assms(2) have "reconcileZeroOnlyTotal t cl res = (t', as, vs)" by (simp add: reconcileFinalTotal_def)
    from zero_only_result [OF assms(1) this] show ?thesis by blast
  qed (use assms in \<open>auto simp: reconcileFinalTotal_def\<close>)
  then show "tokens_ok t'" and "t' = t\<lparr>TotalTokens := TotalTokens t'\<rparr>" and "replay t as = Some t'"
    and "as = [] \<Longrightarrow> t' = t"
    and "TotalTokens t \<noteq> 0 \<Longrightarrow> auth \<noteq> totalAuthorityCanonical \<Longrightarrow> t' = t" by blast+
qed

section \<open>The handler contract\<close>

text \<open>
  What \<open>process_with\<close> relies on: a handler returns counters again, and its action log replays
  from the snapshot it was given to the counters it returns.
\<close>

locale token_handler =
  fixes handler :: "normalizationContext \<Rightarrow> handlerResult"
  assumes keeps_counts: "tokens_ok (nonNegative ctx) \<Longrightarrow> breakdown_ok (resolution ctx) \<Longrightarrow>
      tokens_ok (hr_tokens (handler ctx))"
    and logs: "tokens_ok (nonNegative ctx) \<Longrightarrow> breakdown_ok (resolution ctx) \<Longrightarrow>
      \<exists>u. replay (nonNegative ctx) (hr_actions (handler ctx)) = Some u \<and>
          same_counts u (hr_tokens (handler ctx))"
begin

lemma process_result:
  assumes v: "tokens_int64 v" and b: "breakdown_ok res"
  shows process_counts: "tokens_ok (Tokens (process_with handler v res))"
    and process_replay: "\<exists>u. replay v (Actions (process_with handler v res)) = Some u \<and>
          same_counts u (Tokens (process_with handler v res))"
proof -
  obtain nn cas cl where c: "clampTokenValues v = (nn, cas, cl)" by (metis prod_cases3)
  let ?ctx = "\<lparr>nonNegative = nn, clamped = cl, resolution = res\<rparr>"
  have nn: "tokens_ok nn" "replay v cas = Some nn"
    using tokens_ok_nonneg [OF v] clamp_snapshot [of v] clamp_log [of v] by (simp_all add: c)
  obtain t as vs where r: "reconcileFinalTotal (hr_tokens (handler ?ctx)) (hr_authority (handler ?ctx)) cl res = (t, as, vs)"
    by (metis prod_cases3)
  have h: "tokens_ok (hr_tokens (handler ?ctx))" using keeps_counts [of ?ctx] nn b by simp
  note rr = reconcile_result [OF h r]
  have T: "Tokens (process_with handler v res) = t"
    and A: "Actions (process_with handler v res) = cas @ hr_actions (handler ?ctx) @ as"
    by (simp_all add: process_with_def Let_def c r)
  show "tokens_ok (Tokens (process_with handler v res))" using rr(1) T by simp
  obtain u where u: "replay nn (hr_actions (handler ?ctx)) = Some u" "same_counts u (hr_tokens (handler ?ctx))"
    using logs [of ?ctx] nn b by auto
  have "same_counts (hr_tokens (handler ?ctx)) u" using u(2) by (simp add: same_counts_def)
  then obtain w where "replay u as = Some w" "same_counts t w"
    using replay_same_counts rr(3) by blast
  with nn u(1) show "\<exists>u. replay v (Actions (process_with handler v res)) = Some u \<and>
      same_counts u (Tokens (process_with handler v res))"
    unfolding T A by (auto simp: replay_append same_counts_def)
qed

end

text \<open>
  The handlers that interpret the reported counters themselves: they never touch the total, the
  reasoning and cache-creation counters or the presence bit, they only raise input and output,
  and they ask for canonical authority only under the parser contract or when the reported
  total is the sum of the reported input and output.
\<close>

locale folding_handler = token_handler +
  assumes keeps_total: "tokens_ok (nonNegative ctx) \<Longrightarrow>
      TotalTokens (hr_tokens (handler ctx)) = TotalTokens (nonNegative ctx)"
    and keeps_parts: "tokens_ok (nonNegative ctx) \<Longrightarrow>
      ReasoningTokens (hr_tokens (handler ctx)) = ReasoningTokens (nonNegative ctx) \<and>
      CacheCreationTokens (hr_tokens (handler ctx)) = CacheCreationTokens (nonNegative ctx) \<and>
      CacheReadPresent (hr_tokens (handler ctx)) = CacheReadPresent (nonNegative ctx)"
    and grows: "tokens_ok (nonNegative ctx) \<Longrightarrow>
      InputTokens (nonNegative ctx) \<le> InputTokens (hr_tokens (handler ctx)) \<and>
      OutputTokens (nonNegative ctx) \<le> OutputTokens (hr_tokens (handler ctx))"
    and authority: "tokens_ok (nonNegative ctx) \<Longrightarrow>
      hr_authority (handler ctx) = totalAuthorityCanonical \<Longrightarrow>
      evidence_strength (resolution ctx) = EvidenceParserContract \<or>
      InputTokens (nonNegative ctx) + OutputTokens (nonNegative ctx) = TotalTokens (nonNegative ctx)"
begin

lemma process_parts:
  assumes v: "tokens_int64 v" and b: "breakdown_ok res"
  shows "ReasoningTokens (Tokens (process_with handler v res)) = max 0 (ReasoningTokens v)"
    and "CacheCreationTokens (Tokens (process_with handler v res)) = max 0 (CacheCreationTokens v)"
    and "CacheReadPresent (Tokens (process_with handler v res)) = CacheReadPresent v"
    and "max 0 (InputTokens v) \<le> InputTokens (Tokens (process_with handler v res))"
    and "max 0 (OutputTokens v) \<le> OutputTokens (Tokens (process_with handler v res))"
    and "TotalTokens v > 0 \<Longrightarrow> TotalTokens (Tokens (process_with handler v res)) \<noteq> TotalTokens v \<Longrightarrow>
      evidence_strength res = EvidenceParserContract \<or>
      max 0 (InputTokens v) + max 0 (OutputTokens v) = TotalTokens v"
proof -
  obtain nn cas cl where c: "clampTokenValues v = (nn, cas, cl)" by (metis prod_cases3)
  let ?ctx = "\<lparr>nonNegative = nn, clamped = cl, resolution = res\<rparr>"
  have nn: "tokens_ok nn" "nn = nonneg_tokens v"
    using tokens_ok_nonneg [OF v] clamp_snapshot [of v] by (simp_all add: c)
  obtain t as vs where r: "reconcileFinalTotal (hr_tokens (handler ?ctx)) (hr_authority (handler ?ctx)) cl res = (t, as, vs)"
    by (metis prod_cases3)
  have h: "tokens_ok (hr_tokens (handler ?ctx))" using keeps_counts [of ?ctx] nn b by simp
  note rr = reconcile_result [OF h r]
  have laws: "TotalTokens (hr_tokens (handler ?ctx)) = TotalTokens nn"
    "ReasoningTokens (hr_tokens (handler ?ctx)) = ReasoningTokens nn"
    "CacheCreationTokens (hr_tokens (handler ?ctx)) = CacheCreationTokens nn"
    "CacheReadPresent (hr_tokens (handler ?ctx)) = CacheReadPresent nn"
    "InputTokens nn \<le> InputTokens (hr_tokens (handler ?ctx))"
    "OutputTokens nn \<le> OutputTokens (hr_tokens (handler ?ctx))"
    "hr_authority (handler ?ctx) = totalAuthorityCanonical \<Longrightarrow>
      evidence_strength res = EvidenceParserContract \<or> InputTokens nn + OutputTokens nn = TotalTokens nn"
    using keeps_total [of ?ctx] keeps_parts [of ?ctx] grows [of ?ctx] authority [of ?ctx] nn(1) by simp_all
  have nnf: "InputTokens nn = max 0 (InputTokens v)" "OutputTokens nn = max 0 (OutputTokens v)"
    "ReasoningTokens nn = max 0 (ReasoningTokens v)" "CacheCreationTokens nn = max 0 (CacheCreationTokens v)"
    "CacheReadPresent nn = CacheReadPresent v" "TotalTokens nn = max 0 (TotalTokens v)"
    unfolding nn(2) by (simp_all add: nonneg_tokens_def)
  have T: "Tokens (process_with handler v res) = t" by (simp add: process_with_def Let_def c r)
  have frame: "InputTokens t = InputTokens (hr_tokens (handler ?ctx))"
    "OutputTokens t = OutputTokens (hr_tokens (handler ?ctx))"
    "ReasoningTokens t = ReasoningTokens (hr_tokens (handler ?ctx))"
    "CacheCreationTokens t = CacheCreationTokens (hr_tokens (handler ?ctx))"
    "CacheReadPresent t = CacheReadPresent (hr_tokens (handler ?ctx))"
    by (subst rr(2), simp)+
  show "ReasoningTokens (Tokens (process_with handler v res)) = max 0 (ReasoningTokens v)"
    "CacheCreationTokens (Tokens (process_with handler v res)) = max 0 (CacheCreationTokens v)"
    "CacheReadPresent (Tokens (process_with handler v res)) = CacheReadPresent v"
    "max 0 (InputTokens v) \<le> InputTokens (Tokens (process_with handler v res))"
    "max 0 (OutputTokens v) \<le> OutputTokens (Tokens (process_with handler v res))"
    unfolding T frame nnf [symmetric] by (fact laws)+
  assume "TotalTokens v > 0" "TotalTokens (Tokens (process_with handler v res)) \<noteq> TotalTokens v"
  then show "evidence_strength res = EvidenceParserContract \<or>
      max 0 (InputTokens v) + max 0 (OutputTokens v) = TotalTokens v"
    using laws(1,7) nnf rr(5) unfolding T by fastforce
qed

end

section \<open>The handlers meet the contract\<close>

lemmas field_access = get_field_def set_field_def

lemma cache_alias_cases:
  obtains (same) vs where "normalizeNonClaudeCacheRead ctx = (nonNegative ctx, [], vs)"
  | (backfilled) a where "CacheReadTokens (nonNegative ctx) = 0"
      "normalizeNonClaudeCacheRead ctx =
        ((nonNegative ctx)\<lparr>CacheReadTokens := CachedTokens (nonNegative ctx)\<rparr>, [a], [])"
      "ActField a = ''cache_read_tokens''" "Before a = 0" "After a = CachedTokens (nonNegative ctx)"
proof -
  let ?t = "nonNegative ctx"
  show ?thesis
  proof (cases "\<not> tfs_has (clamped ctx) ''cache_read_tokens'' \<and>
      \<not> (CacheReadPresent ?t \<and> evidence_strength (resolution ctx) = EvidenceParserContract) \<and>
      CacheReadTokens ?t = 0 \<and> CachedTokens ?t > 0")
    case True
    then show ?thesis
      by (intro backfilled [of "hd (fst (snd (normalizeNonClaudeCacheRead ctx)))"])
        (auto simp: normalizeNonClaudeCacheRead_def Let_def)
  next
    case False
    then show ?thesis
      by (intro same [of "snd (snd (normalizeNonClaudeCacheRead ctx))"])
        (auto simp: normalizeNonClaudeCacheRead_def Let_def)
  qed
qed

lemma cache_alias_result:
  assumes "tokens_ok (nonNegative ctx)" and "normalizeNonClaudeCacheRead ctx = (t, as, vs)"
  shows "tokens_ok t" and "t = (nonNegative ctx)\<lparr>CacheReadTokens := CacheReadTokens t\<rparr>"
    and "replay (nonNegative ctx) as = Some t"
proof -
  have "tokens_ok t \<and> t = (nonNegative ctx)\<lparr>CacheReadTokens := CacheReadTokens t\<rparr> \<and>
      replay (nonNegative ctx) as = Some t"
    using assms
    by (cases rule: cache_alias_cases [of ctx]) (auto simp: tokens_ok_def field_access)
  then show "tokens_ok t" and "t = (nonNegative ctx)\<lparr>CacheReadTokens := CacheReadTokens t\<rparr>"
    and "replay (nonNegative ctx) as = Some t" by blast+
qed

lemma cache_alias_frame:
  assumes "tokens_ok (nonNegative ctx)" and "normalizeNonClaudeCacheRead ctx = (t, as, vs)"
  shows "InputTokens t = InputTokens (nonNegative ctx)" "OutputTokens t = OutputTokens (nonNegative ctx)"
    "ReasoningTokens t = ReasoningTokens (nonNegative ctx)" "CachedTokens t = CachedTokens (nonNegative ctx)"
    "CacheReadPresent t = CacheReadPresent (nonNegative ctx)"
    "CacheCreationTokens t = CacheCreationTokens (nonNegative ctx)" "TotalTokens t = TotalTokens (nonNegative ctx)"
  by (subst cache_alias_result(2) [OF assms], simp)+

lemmas cache_alias_facts = cache_alias_result(1,3) cache_alias_frame

text \<open>The laws of \<open>folding_handler\<close> for one context and one result.\<close>

definition fold_laws :: "normalizationContext \<Rightarrow> handlerResult \<Rightarrow> bool" where
  "fold_laws ctx r \<longleftrightarrow> tokens_ok (hr_tokens r) \<and>
     replay (nonNegative ctx) (hr_actions r) = Some (hr_tokens r) \<and>
     TotalTokens (hr_tokens r) = TotalTokens (nonNegative ctx) \<and>
     ReasoningTokens (hr_tokens r) = ReasoningTokens (nonNegative ctx) \<and>
     CacheCreationTokens (hr_tokens r) = CacheCreationTokens (nonNegative ctx) \<and>
     CacheReadPresent (hr_tokens r) = CacheReadPresent (nonNegative ctx) \<and>
     InputTokens (nonNegative ctx) \<le> InputTokens (hr_tokens r) \<and>
     OutputTokens (nonNegative ctx) \<le> OutputTokens (hr_tokens r) \<and>
     (hr_authority r = totalAuthorityCanonical \<longrightarrow>
        evidence_strength (resolution ctx) = EvidenceParserContract \<or>
        InputTokens (nonNegative ctx) + OutputTokens (nonNegative ctx) = TotalTokens (nonNegative ctx))"

lemma folding_handlerI:
  assumes "\<And>ctx. tokens_ok (nonNegative ctx) \<Longrightarrow> fold_laws ctx (h ctx)"
  shows "folding_handler h"
  by unfold_locales (use assms in \<open>force simp: fold_laws_def\<close>)+

lemma fold_laws_alias:
  assumes "tokens_ok (nonNegative ctx)" and "normalizeNonClaudeCacheRead ctx = (t, as, vs)"
    and "auth = totalAuthorityCanonical \<Longrightarrow> evidence_strength (resolution ctx) = EvidenceParserContract"
  shows "fold_laws ctx \<lparr>hr_tokens = t, hr_authority = auth, hr_actions = as, hr_violations = ws\<rparr>"
  unfolding fold_laws_def
  using cache_alias_facts [OF assms(1,2)] assms(3) by simp

lemma fold_laws_output:
  assumes "fold_laws ctx \<lparr>hr_tokens = t, hr_authority = auth, hr_actions = as, hr_violations = ws\<rparr>"
    and "OutputTokens t \<le> x" and "is_count x"
    and "ActField a = ''output_tokens''" and "Before a = OutputTokens t" and "After a = x"
  shows "fold_laws ctx \<lparr>hr_tokens = t\<lparr>OutputTokens := x\<rparr>, hr_authority = auth,
    hr_actions = as @ [a], hr_violations = us\<rparr>"
  using assms by (auto simp: fold_laws_def tokens_ok_def replay_append field_access)

lemma fold_laws_demote:
  "fold_laws ctx \<lparr>hr_tokens = t, hr_authority = auth, hr_actions = as, hr_violations = ws\<rparr> \<Longrightarrow>
   auth' \<noteq> totalAuthorityCanonical \<Longrightarrow>
   fold_laws ctx \<lparr>hr_tokens = t, hr_authority = auth', hr_actions = as, hr_violations = us\<rparr>"
  by (simp add: fold_laws_def)

lemma strict_laws: "tokens_ok (nonNegative ctx) \<Longrightarrow> fold_laws ctx (strictPassThrough_Normalize ctx)"
  by (cases "normalizeNonClaudeCacheRead ctx") (auto simp: strictPassThrough_Normalize_def intro: fold_laws_alias)

lemma responses_laws: "tokens_ok (nonNegative ctx) \<Longrightarrow> fold_laws ctx (responsesInclusive_Normalize ctx)"
  by (cases "normalizeNonClaudeCacheRead ctx") (auto simp: responsesInclusive_Normalize_def intro: fold_laws_alias)

interpretation strict: folding_handler strictPassThrough_Normalize
  by (rule folding_handlerI) (rule strict_laws)

interpretation responses: folding_handler responsesInclusive_Normalize
  by (rule folding_handlerI) (rule responses_laws)

lemma safe_fold:
  assumes "tokens_ok t"
  obtains (overflow) "safeAddTokenCounts [OutputTokens t, ReasoningTokens t] = (0, False)"
  | (sum) "safeAddTokenCounts [OutputTokens t, ReasoningTokens t] = (OutputTokens t + ReasoningTokens t, True)"
      "OutputTokens t \<le> OutputTokens t + ReasoningTokens t" "is_count (OutputTokens t + ReasoningTokens t)"
  using assms safeAdd2 [of "OutputTokens t" "ReasoningTokens t"]
  by (cases "OutputTokens t + ReasoningTokens t \<le> MaxInt64") (auto simp: tokens_ok_def is_count_def)

lemma gemini_laws:
  assumes ok: "tokens_ok (nonNegative ctx)"
  shows "fold_laws ctx (gemini_Normalize ctx)"
proof -
  obtain t as vs where al: "normalizeNonClaudeCacheRead ctx = (t, as, vs)" by (metis prod_cases3)
  have t: "tokens_ok t" using cache_alias_facts [OF ok al] by simp
  note base = fold_laws_alias [OF ok al]
  obtain f fvs where sf: "shouldFoldGeminiIdentityReasoning ctx = (f, fvs)" by (metis surj_pair)
  from t show ?thesis
  proof (cases rule: safe_fold)
    case overflow
    show ?thesis unfolding gemini_Normalize_def
      by (auto simp: al sf overflow simp del: tfs_hasAny.simps intro: base)
  next
    case sum
    note out = fold_laws_output [OF base sum(2,3)]
    show ?thesis unfolding gemini_Normalize_def
      by (auto simp: al sf sum(1) simp del: tfs_hasAny.simps intro: base out)
  qed
qed

lemma openai_laws:
  assumes ok: "tokens_ok (nonNegative ctx)"
  shows "fold_laws ctx (openAICompatibility_Normalize ctx)"
proof -
  obtain t as vs where al: "normalizeNonClaudeCacheRead ctx = (t, as, vs)" by (metis prod_cases3)
  have t: "tokens_ok t" using cache_alias_facts [OF ok al] by simp
  note base = fold_laws_alias [OF ok al]
  obtain m mvs where m: "issue272_Match ctx = (m, mvs)" by (metis surj_pair)
  from t show ?thesis
  proof (cases rule: safe_fold)
    case overflow
    show ?thesis unfolding openAICompatibility_Normalize_def openAICompatibilityRules_def
      by (auto simp: al m issue272_Apply_def overflow intro: base)
  next
    case sum
    note out = fold_laws_output [OF base sum(2,3)]
    show ?thesis unfolding openAICompatibility_Normalize_def openAICompatibilityRules_def
      by (auto simp: al m issue272_Apply_def sum(1) intro: base out)
  qed
qed

interpretation gemini: folding_handler gemini_Normalize
  by (rule folding_handlerI) (rule gemini_laws)

interpretation openai: folding_handler openAICompatibility_Normalize
  by (rule folding_handlerI) (rule openai_laws)

lemma claude_identity_equation:
  assumes "tokens_ok (nonNegative ctx)" and "claudeIdentityProvesLegacyMissingCache ctx c"
  shows "InputTokens (nonNegative ctx) + OutputTokens (nonNegative ctx) = TotalTokens (nonNegative ctx)"
  using assms
  by (auto simp: claudeIdentityProvesLegacyMissingCache_def tokens_ok_def Let_def safeAdd2
      simp del: tfs_hasAny.simps split: if_splits prod.splits)

lemma fold_laws_input:
  assumes "tokens_ok t" and "t = nonNegative ctx" and "InputTokens t \<le> x" and "is_count x"
    and "as = (if x \<noteq> InputTokens t then [a] else [])"
    and "ActField a = ''input_tokens''" and "Before a = InputTokens t" and "After a = x"
    and "auth = totalAuthorityCanonical \<Longrightarrow> evidence_strength (resolution ctx) = EvidenceParserContract \<or>
      InputTokens t + OutputTokens t = TotalTokens t"
  shows "fold_laws ctx \<lparr>hr_tokens = t\<lparr>InputTokens := x\<rparr>, hr_authority = auth,
    hr_actions = as, hr_violations = us\<rparr>"
  using assms by (auto simp: fold_laws_def tokens_ok_def field_access)

lemma fold_laws_cached:
  assumes "fold_laws ctx \<lparr>hr_tokens = t, hr_authority = auth, hr_actions = as, hr_violations = ws\<rparr>"
    and "bs = (if CachedTokens t \<noteq> CacheReadTokens t then [a] else [])"
    and "ActField a = ''cached_tokens''" and "Before a = CachedTokens t" and "After a = CacheReadTokens t"
  shows "fold_laws ctx \<lparr>hr_tokens = t\<lparr>CachedTokens := CacheReadTokens t\<rparr>, hr_authority = auth,
    hr_actions = as @ bs, hr_violations = us\<rparr>"
  using assms by (auto simp: fold_laws_def tokens_ok_def replay_append field_access)

lemma fold_laws_snapshot:
  "tokens_ok (nonNegative ctx) \<Longrightarrow> auth \<noteq> totalAuthorityCanonical \<Longrightarrow>
   fold_laws ctx \<lparr>hr_tokens = nonNegative ctx, hr_authority = auth, hr_actions = [], hr_violations = ws\<rparr>"
  by (simp add: fold_laws_def)

text \<open>The alias step of the Claude handler, applied to whatever the input fold produced.\<close>

definition claude_finish ::
  "normalizationContext \<Rightarrow> tokenValues \<times> totalAuthority \<times> action list \<times> violation list \<Rightarrow> handlerResult" where
  "claude_finish ctx st =
     (case st of (t, auth, as, vs) \<Rightarrow>
        \<lparr>hr_tokens = t\<lparr>CachedTokens := CacheReadTokens t\<rparr>, hr_authority = auth,
         hr_actions = as @
           (if CachedTokens t \<noteq> CacheReadTokens t then
              [mk_action ActionNormalizeClaudeCachedAlias ''cached_tokens'' (CachedTokens t)
                 (CacheReadTokens t) (evidence_source (resolution ctx))
                 ''claude_cached_equals_explicit_read'' TokenOutcomeNormalized]
            else []),
         hr_violations = vs @
           (if evidence_strength (resolution ctx) = EvidenceParserContract \<and> CachedTokens t > 0 \<and>
               CacheReadTokens t > 0 \<and> CachedTokens t \<noteq> CacheReadTokens t then
              [mk_violation ViolationCacheReadAliasConflict [''cached_tokens'', ''cache_read_tokens'']
                 ''Claude cached/read aliases disagree under parser contract'']
            else [])\<rparr>)"

lemma claude_finish_laws:
  "fold_laws ctx \<lparr>hr_tokens = t, hr_authority = auth, hr_actions = as, hr_violations = vs\<rparr> \<Longrightarrow>
   fold_laws ctx (claude_finish ctx (t, auth, as, vs))"
  unfolding claude_finish_def prod.case
  by (erule fold_laws_cached [where a = "mk_action ActionNormalizeClaudeCachedAlias ''cached_tokens''
        (CachedTokens t) (CacheReadTokens t) (evidence_source (resolution ctx))
        ''claude_cached_equals_explicit_read'' TokenOutcomeNormalized"]) simp_all

lemma claude_cases [consumes 1, case_names clamp overflow sum]:
  fixes ctx
  defines "n \<equiv> nonNegative ctx"
  assumes ok: "tokens_ok n"
  obtains (clamp) v where
      "tfs_hasAny (clamped ctx) [''input_tokens'', ''cache_read_tokens'', ''cache_creation_tokens'']"
      "claude_Normalize ctx = claude_finish ctx (n, totalAuthorityZeroOnly, [], [v])"
  | (overflow) v where
      "claude_Normalize ctx = claude_finish ctx (n, totalAuthorityPreserve, [], [v])"
  | (sum) x auth as where
      "x = InputTokens n + CacheReadTokens n + CacheCreationTokens n" "x \<le> MaxInt64"
      "\<not> tfs_hasAny (clamped ctx) [''input_tokens'', ''cache_read_tokens'', ''cache_creation_tokens'']"
      "as = (if x \<noteq> InputTokens n then
         [mk_action ActionNormalizeClaudeInput ''input_tokens'' (InputTokens n) x
            (evidence_source (resolution ctx)) ''claude_input_excludes_cache'' TokenOutcomeNormalized] else [])"
      "auth = (if evidence_strength (resolution ctx) = EvidenceParserContract \<or>
         claudeIdentityProvesLegacyMissingCache ctx x then totalAuthorityCanonical else totalAuthorityZeroOnly)"
      "claude_Normalize ctx = claude_finish ctx (n\<lparr>InputTokens := x\<rparr>, auth, as, [])"
proof -
  let ?x = "InputTokens n + CacheReadTokens n + CacheCreationTokens n"
  have add: "safeAddTokenCounts [InputTokens n, CacheReadTokens n, CacheCreationTokens n] =
      (if ?x \<le> MaxInt64 then (?x, True) else (0, False))"
    using ok by (intro safeAdd3) (simp_all add: tokens_ok_def)
  note def = claude_Normalize_def claude_finish_def Let_def n_def [symmetric] add
  show ?thesis
  proof (cases "tfs_hasAny (clamped ctx) [''input_tokens'', ''cache_read_tokens'', ''cache_creation_tokens'']")
    case True
    then show ?thesis
      by (intro clamp [of "mk_violation ViolationAmbiguousTotalMismatch
            [''input_tokens'', ''cache_read_tokens'', ''cache_creation_tokens'']
            ''Claude input fold depends on clamped fields''"]) (simp_all add: def del: tfs_hasAny.simps)
  next
    case undamaged: False
    show ?thesis
    proof (cases "?x \<le> MaxInt64")
      case True
      with undamaged show ?thesis by (intro sum [OF refl _ _ refl refl]) (simp_all add: def del: tfs_hasAny.simps)
    next
      case False
      with undamaged show ?thesis
        by (intro overflow [of "mk_violation ViolationTokenArithmeticOverflow
              [''input_tokens'', ''cache_read_tokens'', ''cache_creation_tokens'']
              ''Claude canonical input exceeds int64''"]) (simp_all add: def del: tfs_hasAny.simps)
    qed
  qed
qed

lemma claude_laws:
  assumes ok: "tokens_ok (nonNegative ctx)"
  shows "fold_laws ctx (claude_Normalize ctx)"
  using ok
proof (cases rule: claude_cases)
  case (clamp v)
  then show ?thesis by (simp add: claude_finish_laws fold_laws_snapshot ok)
next
  case (overflow v)
  then show ?thesis by (simp add: claude_finish_laws fold_laws_snapshot ok)
next
  case (sum x auth as)
  have "is_count x" "InputTokens (nonNegative ctx) \<le> x"
    using ok sum(1,2) by (auto simp: tokens_ok_def is_count_def)
  then have "fold_laws ctx \<lparr>hr_tokens = (nonNegative ctx)\<lparr>InputTokens := x\<rparr>, hr_authority = auth,
      hr_actions = as, hr_violations = []\<rparr>"
    using sum(4,5) claude_identity_equation [OF ok, of x]
    by (intro fold_laws_input [OF ok refl _ _ sum(4)]) (auto split: if_splits)
  then show ?thesis unfolding sum(6) by (rule claude_finish_laws)
qed

interpretation claude: folding_handler claude_Normalize
  by (rule folding_handlerI) (rule claude_laws)

context token_field
begin

lemma change_replay:
  "y = get t \<Longrightarrow> replay t (breakdown_change fld y x @ as) = replay (upd (\<lambda>_. x) t) as"
  using upd_same [of t] by (auto simp: breakdown_change_def get_field_eq set_field_eq)

end

lemmas change_replays =
  f_input.change_replay f_output.change_replay f_reasoning.change_replay f_cached.change_replay
  f_read.change_replay f_creation.change_replay f_total.change_replay f_total.change_replay [where as = "[]", simplified]

interpretation breakdown: token_handler tokenBreakdown_Normalize
proof (unfold_locales, goal_cases)
  case (1 ctx)
  then show ?case using strict.keeps_counts [of ctx]
    by (auto simp: tokenBreakdown_Normalize_def breakdown_ok_def Let_def split: option.splits)
next
  case (2 ctx)
  show ?case
  proof (cases "breakdown_tokens (resolution ctx)")
    case None
    with 2 strict.logs [of ctx] show ?thesis by (simp add: tokenBreakdown_Normalize_def)
  next
    case (Some b)
    then show ?thesis
      by (simp add: tokenBreakdown_Normalize_def Let_def change_replays same_counts_def)
  qed
qed


section \<open>Properties of the pipeline\<close>

definition process_ctx :: "tokenValues \<Rightarrow> handlerResolution \<Rightarrow> normalizationContext" where
  "process_ctx v res =
     \<lparr>nonNegative = nonneg_tokens v, clamped = snd (snd (clampTokenValues v)), resolution = res\<rparr>"

lemma process_ctx_simps [simp]:
  "nonNegative (process_ctx v res) = nonneg_tokens v" "resolution (process_ctx v res) = res"
  by (simp_all add: process_ctx_def)

lemma process_ctx_clean: "tokens_ok v \<Longrightarrow> process_ctx v res = \<lparr>nonNegative = v, clamped = {}, resolution = res\<rparr>"
  using clamp_clean [of v] clamp_snapshot [of v] by (simp add: process_ctx_def)

lemma process_with_fields:
  fixes handler v res
  defines "h \<equiv> handler (process_ctx v res)"
  defines "r \<equiv> reconcileFinalTotal (hr_tokens h) (hr_authority h) (clamped (process_ctx v res)) res"
  shows "Tokens (process_with handler v res) = fst r"
    and "Violations (process_with handler v res) = hr_violations h @ snd (snd r)"
    and "Actions (process_with handler v res) =
      fst (snd (clampTokenValues v)) @ hr_actions h @ fst (snd r)"
    and "Outcome (process_with handler v res) =
      summarizeTokenOutcome (Actions (process_with handler v res)) (Violations (process_with handler v res))"
  using clamp_snapshot [of v]
  by (auto simp: process_with_def Let_def h_def r_def process_ctx_def split: prod.splits)

lemma Process_None: "Process v None = Process v (Some strict_default)"
  by (simp add: Process_def)

lemma Process_cases:
  obtains (handled) h where "tokenHandlers (handler_id res) = Some h" "Process v (Some res) = process_with h v res"
  | (other) s where "handler_id res = HandlerOther s"
      "Process v (Some res) = process_with strictPassThrough_Normalize v
        (res\<lparr>handler_id := HandlerStrictPassThrough, evidence_source := EvidenceDefault,
             evidence_strength := EvidenceUnknown\<rparr>)"
  by (cases "handler_id res") (auto simp: Process_def)

lemma registered_handler: "tokenHandlers i = Some h \<Longrightarrow> token_handler h"
  by (cases i) (auto intro: strict.token_handler_axioms responses.token_handler_axioms
      gemini.token_handler_axioms openai.token_handler_axioms claude.token_handler_axioms
      breakdown.token_handler_axioms)

text \<open>
  Claim C1. Whatever route is taken, \<open>Process\<close> turns any seven \<open>int64\<close> counters into seven
  non-negative \<open>int64\<close> counters: no negative value and no wrapped sum reaches storage. A
  breakdown attached to the route must itself consist of counters, which its decoder ensures.
\<close>

theorem Process_counts:
  assumes "tokens_int64 v" and "breakdown_ok res"
  shows "tokens_ok (Tokens (Process v (Some res)))"
proof (cases rule: Process_cases [of res v])
  case (handled h)
  then show ?thesis using token_handler.process_counts [OF registered_handler assms] by simp
next
  case (other s)
  have "breakdown_ok (res\<lparr>handler_id := HandlerStrictPassThrough, evidence_source := EvidenceDefault,
      evidence_strength := EvidenceUnknown\<rparr>)" using assms(2) by (simp add: breakdown_ok_def)
  with other show ?thesis using strict.process_counts [OF assms(1)] by simp
qed

text \<open>
  Claim C2. The action log is complete and accurate: replaying the returned actions in order on
  the reported counters finds every action's \<open>Before\<close> value in place and ends in exactly the
  counters that are returned.
\<close>

theorem Process_actions_replay:
  assumes "tokens_int64 v" and "breakdown_ok res"
  shows "\<exists>u. replay v (Actions (Process v (Some res))) = Some u \<and>
     same_counts u (Tokens (Process v (Some res)))"
proof (cases rule: Process_cases [of res v])
  case (handled h)
  then show ?thesis using token_handler.process_replay [OF registered_handler assms] by simp
next
  case (other s)
  have "breakdown_ok (res\<lparr>handler_id := HandlerStrictPassThrough, evidence_source := EvidenceDefault,
      evidence_strength := EvidenceUnknown\<rparr>)" using assms(2) by (simp add: breakdown_ok_def)
  with other show ?thesis using strict.process_replay [OF assms(1)] by simp
qed

end
