(* ===== verification/Token_Properties.thy ===== *)
theory Token_Properties
  imports Token_Process
begin

text \<open>
  Properties of the token pipeline route by route: when a reported total may be overwritten,
  what the parser contracts of the Claude, Gemini and Responses handlers guarantee, the
  meaning of the outcome, and the CPA accounting breakdown. The witnesses evaluate the
  definitions on concrete events.
\<close>

section \<open>Authority over the reported total\<close>

text \<open>Handlers that ask for canonical authority under the parser contract only.\<close>

locale contract_handler = folding_handler +
  assumes contract_authority: "hr_authority (handler ctx) = totalAuthorityCanonical \<Longrightarrow>
      evidence_strength (resolution ctx) = EvidenceParserContract"
begin

lemma reported_total_kept:
  assumes v: "tokens_int64 v" and b: "breakdown_ok res" and "TotalTokens v > 0"
    and "evidence_strength res \<noteq> EvidenceParserContract"
  shows "TotalTokens (Tokens (process_with handler v res)) = TotalTokens v"
proof -
  let ?ctx = "process_ctx v res"
  let ?h = "handler ?ctx"
  have nn: "tokens_ok (nonneg_tokens v)" using v by (rule tokens_ok_nonneg)
  have h: "tokens_ok (hr_tokens ?h)" using keeps_counts [of ?ctx] nn b by simp
  have tot: "TotalTokens (hr_tokens ?h) = TotalTokens v"
    using keeps_total [of ?ctx] nn assms(3) by (simp add: nonneg_tokens_def)
  have "hr_authority ?h \<noteq> totalAuthorityCanonical"
    using contract_authority [of ?ctx] assms(4) by auto
  moreover obtain t as vs where
    r: "reconcileFinalTotal (hr_tokens ?h) (hr_authority ?h) (clamped ?ctx) res = (t, as, vs)"
    by (metis prod_cases3)
  ultimately have "t = hr_tokens ?h" using reconcile_result(5) [OF h r] tot assms(3) by simp
  with r tot show ?thesis by (simp add: process_with_fields)
qed

end

interpretation strict: contract_handler strictPassThrough_Normalize
  by unfold_locales (simp add: strictPassThrough_Normalize_def split: prod.splits)

interpretation openai: contract_handler openAICompatibility_Normalize
  by unfold_locales (simp add: openAICompatibility_Normalize_def split: prod.splits)

interpretation responses: contract_handler responsesInclusive_Normalize
  by unfold_locales (auto simp: responsesInclusive_Normalize_def split: prod.splits if_splits)

lemma gemini_authority:
  "hr_authority (gemini_Normalize ctx) = totalAuthorityCanonical \<Longrightarrow>
   evidence_strength (resolution ctx) = EvidenceParserContract"
  by (rule ccontr)
    (auto simp: gemini_Normalize_def simp del: tfs_hasAny.simps split: prod.splits if_splits)

interpretation gemini: contract_handler gemini_Normalize
  by unfold_locales (rule gemini_authority)

text \<open>
  Claim C3. A reported positive total survives \<open>Process\<close> unless one of three proofs exists: the
  route carries the parser contract of a registered executor; the Claude identity route finds
  that the reported total is exactly the reported input plus output; or a validated accounting
  breakdown replaces the whole snapshot, and then the total is the breakdown's.
\<close>

theorem Process_total_authority:
  assumes v: "tokens_int64 v" and b: "breakdown_ok res" and pos: "TotalTokens v > 0"
    and changed: "TotalTokens (Tokens (Process v (Some res))) \<noteq> TotalTokens v"
  shows "evidence_strength res = EvidenceParserContract \<or>
     (handler_id res = HandlerClaude \<and> max 0 (InputTokens v) + max 0 (OutputTokens v) = TotalTokens v) \<or>
     (\<exists>bt. handler_id res = HandlerTokenBreakdown \<and> breakdown_tokens res = Some bt \<and>
           TotalTokens (Tokens (Process v (Some res))) = TotalTokens bt)"
proof (cases "evidence_strength res = EvidenceParserContract")
  case weak: False
  note kept = strict.reported_total_kept [OF v b pos weak] openai.reported_total_kept [OF v b pos weak]
    responses.reported_total_kept [OF v b pos weak] gemini.reported_total_kept [OF v b pos weak]
  show ?thesis
  proof (cases "handler_id res")
    case HandlerClaude
    with changed weak show ?thesis using claude.process_parts(6) [OF v b pos] by (simp add: Process_def)
  next
    case HandlerTokenBreakdown
    show ?thesis
    proof (cases "breakdown_tokens res")
      case None
      then have "tokenBreakdown_Normalize (process_ctx v res) = strictPassThrough_Normalize (process_ctx v res)"
        by (simp add: tokenBreakdown_Normalize_def)
      then have "Tokens (process_with tokenBreakdown_Normalize v res) =
          Tokens (process_with strictPassThrough_Normalize v res)"
        by (simp add: process_with_fields)
      with HandlerTokenBreakdown changed kept(1) show ?thesis by (simp add: Process_def)
    next
      case (Some bt)
      then have "Tokens (process_with tokenBreakdown_Normalize v res) = bt"
        by (simp add: process_with_fields tokenBreakdown_Normalize_def Let_def reconcileFinalTotal_def)
      with HandlerTokenBreakdown Some show ?thesis by (simp add: Process_def)
    qed
  next
    case (HandlerOther s)
    let ?r = "res\<lparr>handler_id := HandlerStrictPassThrough, evidence_source := EvidenceDefault,
             evidence_strength := EvidenceUnknown\<rparr>"
    have "TotalTokens (Tokens (process_with strictPassThrough_Normalize v ?r)) = TotalTokens v"
      using b by (intro strict.reported_total_kept [OF v _ pos]) (simp_all add: breakdown_ok_def)
    with HandlerOther changed show ?thesis by (simp add: Process_def)
  qed (use changed kept in \<open>simp_all add: Process_def\<close>)
qed simp

section \<open>Parser contracts\<close>

lemma nonneg_tokens_id: "tokens_ok v \<Longrightarrow> nonneg_tokens v = v"
  using clamp_clean [of v] clamp_snapshot [of v] by simp

lemma canonical_settles:
  assumes "tokens_ok t" and "snd (snd (reconcileFinalTotal t totalAuthorityCanonical cl res)) = []"
  shows "fst (reconcileFinalTotal t totalAuthorityCanonical cl res) =
      t\<lparr>TotalTokens := InputTokens t + OutputTokens t\<rparr>"
    and "CacheReadTokens t + CacheCreationTokens t \<le> InputTokens t"
    and "ReasoningTokens t \<le> OutputTokens t"
proof -
  obtain t' as vs where r: "reconcileCanonicalTotal t cl res = (t', as, vs)" by (metis prod_cases3)
  then have f: "reconcileFinalTotal t totalAuthorityCanonical cl res = (t', as, vs)"
    by (simp add: reconcileFinalTotal_def)
  with assms(2) have "vs = []" by simp
  note cr = canonical_result [OF assms(1) r]
  then have "t' = t\<lparr>TotalTokens := InputTokens t + OutputTokens t\<rparr>"
    using \<open>vs = []\<close> by metis
  then show "fst (reconcileFinalTotal t totalAuthorityCanonical cl res) =
      t\<lparr>TotalTokens := InputTokens t + OutputTokens t\<rparr>" by (simp add: f)
  show "CacheReadTokens t + CacheCreationTokens t \<le> InputTokens t"
    and "ReasoningTokens t \<le> OutputTokens t" using cr \<open>vs = []\<close> by blast+
qed

text \<open>
  Claude executor: when \<open>Process\<close> reports no violation on reported counters, the stored
  input is the reported input plus cache read plus cache creation, the legacy cached counter is
  the cache read, reasoning is part of the output, and the stored total is the stored input plus
  output.
\<close>

theorem Process_claude_contract:
  assumes v: "tokens_ok v" and h: "handler_id res = HandlerClaude"
    and c: "evidence_strength res = EvidenceParserContract"
    and ok: "Violations (Process v (Some res)) = []"
  shows "Tokens (Process v (Some res)) =
      v\<lparr>InputTokens := InputTokens v + CacheReadTokens v + CacheCreationTokens v,
        CachedTokens := CacheReadTokens v,
        TotalTokens := InputTokens v + CacheReadTokens v + CacheCreationTokens v + OutputTokens v\<rparr> \<and>
    ReasoningTokens v \<le> OutputTokens v"
proof -
  have P: "Process v (Some res) = process_with claude_Normalize v res" by (simp add: Process_def h)
  let ?ctx = "process_ctx v res"
  have clean: "nonneg_tokens v = v" "clamped ?ctx = {}" "resolution ?ctx = res"
    using process_ctx_clean [OF v, of res] nonneg_tokens_id [OF v] by simp_all
  note F = process_with_fields [where handler = claude_Normalize and v = v and res = res]
  have ok': "hr_violations (claude_Normalize ?ctx) = []" using ok F(2) by (simp add: P)
  have "tokens_ok (nonNegative ?ctx)" using v by (simp add: clean)
  then show ?thesis
  proof (cases rule: claude_cases)
    case (clamp u)
    with clean show ?thesis by simp
  next
    case (overflow u)
    with ok' show ?thesis by (simp add: claude_finish_def)
  next
    case (sum x auth as)
    then have x: "x = InputTokens v + CacheReadTokens v + CacheCreationTokens v" "x \<le> MaxInt64"
      by (simp_all add: clean)
    have fin: "hr_tokens (claude_Normalize ?ctx) = v\<lparr>InputTokens := x, CachedTokens := CacheReadTokens v\<rparr>"
      "hr_authority (claude_Normalize ?ctx) = totalAuthorityCanonical"
      unfolding sum(6) using sum(5) c by (simp_all add: claude_finish_def clean)
    have tk: "tokens_ok (v\<lparr>InputTokens := x, CachedTokens := CacheReadTokens v\<rparr>)"
      using v x by (auto simp: tokens_ok_def is_count_def)
    have "snd (snd (reconcileFinalTotal (v\<lparr>InputTokens := x, CachedTokens := CacheReadTokens v\<rparr>)
        totalAuthorityCanonical {} res)) = []"
      using ok F(2) fin clean by (simp add: P)
    note S = canonical_settles [OF tk this]
    show ?thesis using S F(1) fin clean x by (simp add: P)
  qed
qed

text \<open>
  Gemini executor: when \<open>Process\<close> reports no violation on reported counters, the
  separately reported reasoning is part of the stored output exactly once, the input is
  unchanged and covers the cache counters, and the stored total is input plus output plus
  reasoning as reported.
\<close>

theorem Process_gemini_contract:
  assumes v: "tokens_ok v" and h: "handler_id res = HandlerGemini"
    and c: "evidence_strength res = EvidenceParserContract"
    and ok: "Violations (Process v (Some res)) = []"
  shows "InputTokens (Tokens (Process v (Some res))) = InputTokens v \<and>
    OutputTokens (Tokens (Process v (Some res))) = OutputTokens v + ReasoningTokens v \<and>
    TotalTokens (Tokens (Process v (Some res))) = InputTokens v + OutputTokens v + ReasoningTokens v \<and>
    CacheReadTokens (Tokens (Process v (Some res))) + CacheCreationTokens v \<le> InputTokens v"
proof -
  have P: "Process v (Some res) = process_with gemini_Normalize v res" by (simp add: Process_def h)
  let ?ctx = "process_ctx v res"
  have clean: "nonneg_tokens v = v" "clamped ?ctx = {}" "resolution ?ctx = res"
    using process_ctx_clean [OF v, of res] nonneg_tokens_id [OF v] by simp_all
  note F = process_with_fields [where handler = gemini_Normalize and v = v and res = res]
  obtain t as vs where al: "normalizeNonClaudeCacheRead ?ctx = (t, as, vs)" by (metis prod_cases3)
  have nv: "tokens_ok (nonNegative ?ctx)" using v by (simp add: clean)
  note A = cache_alias_facts [OF nv al]
  let ?u = "t\<lparr>OutputTokens := OutputTokens t + ReasoningTokens t\<rparr>"
  have ok': "hr_violations (gemini_Normalize ?ctx) = []" using ok F(2) by (simp add: P)
  have fin: "hr_tokens (gemini_Normalize ?ctx) = ?u \<and> hr_authority (gemini_Normalize ?ctx) = totalAuthorityCanonical \<and>
      is_count (OutputTokens t + ReasoningTokens t)"
    using A(1)
  proof (cases rule: safe_fold)
    case overflow
    with ok' show ?thesis
      using A(1) by (auto simp: gemini_Normalize_def al clean c tokens_ok_def is_count_def split: if_splits)
  next
    case sum
    moreover have "ReasoningTokens t \<ge> 0" using A(1) by (simp add: tokens_ok_def is_count_def)
    ultimately show ?thesis
      using ok' by (auto simp: gemini_Normalize_def al clean c split: if_splits)
  qed
  have tk: "tokens_ok ?u" using A(1) fin by (simp add: tokens_ok_def)
  have "snd (snd (reconcileFinalTotal ?u totalAuthorityCanonical {} res)) = []"
    using ok F(2) fin clean by (simp add: P)
  note S = canonical_settles [OF tk this]
  show ?thesis using S F(1) fin A clean by (simp add: P)
qed

text \<open>
  Responses executors: input and output already contain their parts, so \<open>Process\<close> leaves
  both alone. When it reports no violation, either the event has one of the two recognised
  partial shapes (total only, or the legacy cached-only shape) and the reported total is kept,
  or the stored total is input plus output and the parts fit into their parents.
\<close>

theorem Process_responses_contract:
  assumes v: "tokens_ok v" and h: "handler_id res = HandlerResponsesInclusive"
    and c: "evidence_strength res = EvidenceParserContract"
    and ok: "Violations (Process v (Some res)) = []"
  shows "InputTokens (Tokens (Process v (Some res))) = InputTokens v \<and>
    OutputTokens (Tokens (Process v (Some res))) = OutputTokens v \<and>
    (if matchesResponsesTotalOnlyShape (process_ctx v res) \<or> matchesLegacyCodexCachedOnlyShape (process_ctx v res)
     then TotalTokens (Tokens (Process v (Some res))) = TotalTokens v
     else TotalTokens (Tokens (Process v (Some res))) = InputTokens v + OutputTokens v \<and>
       CacheReadTokens (Tokens (Process v (Some res))) + CacheCreationTokens v \<le> InputTokens v \<and>
       ReasoningTokens v \<le> OutputTokens v)"
proof -
  have P: "Process v (Some res) = process_with responsesInclusive_Normalize v res"
    by (simp add: Process_def h)
  let ?ctx = "process_ctx v res"
  have clean: "nonneg_tokens v = v" "clamped ?ctx = {}" "resolution ?ctx = res"
    using process_ctx_clean [OF v, of res] nonneg_tokens_id [OF v] by simp_all
  note F = process_with_fields [where handler = responsesInclusive_Normalize and v = v and res = res]
  obtain t as vs where al: "normalizeNonClaudeCacheRead ?ctx = (t, as, vs)" by (metis prod_cases3)
  have nv: "tokens_ok (nonNegative ?ctx)" using v by (simp add: clean)
  note A = cache_alias_facts [OF nv al]
  have ok': "hr_violations (responsesInclusive_Normalize ?ctx) = []" using ok F(2) by (simp add: P)
  have tk: "hr_tokens (responsesInclusive_Normalize ?ctx) = t"
    by (simp add: responsesInclusive_Normalize_def al)
  show ?thesis
  proof (cases "matchesResponsesTotalOnlyShape ?ctx \<or> matchesLegacyCodexCachedOnlyShape ?ctx")
    case True
    then have "hr_authority (responsesInclusive_Normalize ?ctx) = totalAuthorityPreserve"
      by (auto simp: responsesInclusive_Normalize_def al)
    with True F(1) tk A clean show ?thesis by (simp add: P reconcileFinalTotal_def)
  next
    case False
    with ok' have auth: "hr_authority (responsesInclusive_Normalize ?ctx) = totalAuthorityCanonical"
      by (simp add: responsesInclusive_Normalize_def al c clean split: if_splits)
    have "snd (snd (reconcileFinalTotal t totalAuthorityCanonical {} res)) = []"
      using ok F(2) auth tk clean by (simp add: P)
    note S = canonical_settles [OF A(1) this]
    show ?thesis using False S F(1) auth tk A clean by (simp add: P)
  qed
qed


section \<open>Outcomes\<close>

lemma summarize_Valid_iff:
  "summarizeTokenOutcome as vs = TokenOutcomeValid \<longleftrightarrow> as = [] \<and> vs = []"
  by (auto simp: summarizeTokenOutcome_def Let_def split: if_splits)

text \<open>
  An event that \<open>Process\<close> reports as valid was stored as reported: the outcome is valid
  exactly when no action and no violation was recorded, and then the counters are unchanged.
\<close>

theorem Process_valid_unchanged:
  assumes v: "tokens_int64 v" and b: "breakdown_ok res"
  shows "(Outcome (Process v (Some res)) = TokenOutcomeValid \<longleftrightarrow>
      Actions (Process v (Some res)) = [] \<and> Violations (Process v (Some res)) = []) \<and>
    (Outcome (Process v (Some res)) = TokenOutcomeValid \<longrightarrow> same_counts v (Tokens (Process v (Some res))))"
proof -
  have rep: "\<exists>u. replay v (Actions (Process v (Some res))) = Some u \<and>
      same_counts u (Tokens (Process v (Some res)))"
  proof (cases rule: Process_cases [of res v])
    case (handled h)
    then show ?thesis using token_handler.process_replay [OF registered_handler v b] by simp
  next
    case (other s)
    then show ?thesis using b by (simp, intro strict.process_replay [OF v]) (simp add: breakdown_ok_def)
  qed
  have "Outcome (Process v (Some res)) =
      summarizeTokenOutcome (Actions (Process v (Some res))) (Violations (Process v (Some res)))"
    by (cases rule: Process_cases [of res v]) (simp_all add: process_with_fields(4))
  then have iff: "Outcome (Process v (Some res)) = TokenOutcomeValid \<longleftrightarrow>
      Actions (Process v (Some res)) = [] \<and> Violations (Process v (Some res)) = []"
    by (simp add: summarize_Valid_iff)
  with rep show ?thesis by auto
qed


section \<open>The accounting breakdown\<close>

text \<open>The decoded counters are \<open>int64\<close> values, as their Go type says.\<close>

definition accounting_int64 :: "accountingBreakdown \<Rightarrow> bool" where
  "accounting_int64 b \<longleftrightarrow>
     list_all (\<lambda>x. case x of None \<Rightarrow> True | Some y \<Rightarrow> is_int64 y)
       [bd_Total b, bd_Unclassified b,
        bd_Input_Total b, bd_Input_Uncached b, bd_Input_CacheRead b, bd_Input_CacheWrite b,
        bd_Output_Total b, bd_Output_NonReasoning b, bd_Output_Reasoning b]"

lemma deref_counts_Some:
  "deref_counts xs = Some ws \<Longrightarrow> xs = map Some ws \<and> (\<forall>w \<in> set ws. 0 \<le> w)"
  by (induction xs arbitrary: ws rule: deref_counts.induct) (auto split: if_splits option.splits)

lemma deref_counts_counts:
  assumes "deref_counts xs = Some ws" and "list_all (\<lambda>x. case x of None \<Rightarrow> True | Some y \<Rightarrow> is_int64 y) xs"
  shows "\<forall>w \<in> set ws. is_count w"
  using deref_counts_Some [OF assms(1)] assms(2)
  by (auto simp: list_all_iff int64_bounds)

definition consistent_tokens :: "tokenValues \<Rightarrow> bool" where
  "consistent_tokens t \<longleftrightarrow> tokens_ok t \<and> TotalTokens t = InputTokens t + OutputTokens t \<and>
     CacheReadTokens t + CacheCreationTokens t \<le> InputTokens t \<and>
     ReasoningTokens t \<le> OutputTokens t \<and> CachedTokens t = CacheReadTokens t"

lemma decode_consistent:
  assumes d: "decodeCompleteBreakdown ver (Some b) = Some t" and b: "accounting_int64 b"
  shows "consistent_tokens t"
proof -
  from d obtain ws where ws: "deref_counts
      [bd_Total b, bd_Unclassified b,
       bd_Input_Total b, bd_Input_Uncached b, bd_Input_CacheRead b, bd_Input_CacheWrite b,
       bd_Output_Total b, bd_Output_NonReasoning b, bd_Output_Reasoning b] = Some ws"
    by (fastforce simp: decodeCompleteBreakdown_def split: option.splits if_splits)
  then obtain tot uncl inT inU inR inW outT outN outR where
    eq: "ws = [tot, uncl, inT, inU, inR, inW, outT, outN, outR]"
    using deref_counts_Some [OF ws] by (auto simp: Cons_eq_map_conv)
  have "\<forall>w \<in> set ws. is_count w"
    using deref_counts_counts [OF ws] b by (simp add: accounting_int64_def)
  then have cnt: "is_count tot" "is_count inT" "is_count inU" "is_count inR" "is_count inW"
    "is_count outT" "is_count outN" "is_count outR" by (simp_all add: eq)
  show ?thesis
    using d ws cnt
    by (auto simp: decodeCompleteBreakdown_def eq Let_def safeAdd2 safeAdd3 consistent_tokens_def
        tokens_ok_def is_count_nonneg split: option.splits if_splits)
qed

text \<open>
  The accounting route: a complete version 2 breakdown is used only for an executor that
  is not registered, and then \<open>Process\<close> stores exactly the decoded counters, without a
  violation. They are internally consistent (the total is input plus output, the cache counters
  fit into the input, reasoning into the output), never below the reported input and output, and
  equal to a reported positive total.
\<close>

theorem breakdown_route:
  assumes b: "accounting_int64 b"
    and r: "ResolveExecutorWithBreakdown e v ver (Some b) = Inr res"
    and h: "handler_id res = HandlerTokenBreakdown"
  shows "\<exists>t. decodeCompleteBreakdown ver (Some b) = Some t \<and> Tokens (Process v (Some res)) = t \<and>
    Violations (Process v (Some res)) = [] \<and> consistent_tokens t \<and>
    InputTokens v \<le> InputTokens t \<and> OutputTokens v \<le> OutputTokens t \<and>
    (0 < TotalTokens v \<longrightarrow> TotalTokens t = TotalTokens v) \<and>
    normalizeRegistryAlias e \<notin> (\<lambda>d. normalizeRegistryAlias (ed_alias d)) ` set executorDefinitions"
proof -
  have no_exec: "ed_handlerID d \<noteq> HandlerTokenBreakdown" if "d \<in> set executorDefinitions" for d
    using that by (auto simp: executorDefinitions_def executor_definition_defs)
  show ?thesis
  proof (cases rule: resolveExecutor_cases [of e])
    case (known d)
    with r h no_exec show ?thesis by (auto simp: ResolveExecutorWithBreakdown_def ResolveExecutor_def)
  next
    case unknown
    have "handler_id (resolveExecutor defaultRegistry e) = HandlerStrictPassThrough"
      "needs_identity (resolveExecutor defaultRegistry e)" unfolding unknown(2) by simp_all
    with r h obtain t where d: "decodeCompleteBreakdown ver (Some b) = Some t"
      and m: "breakdownMatchesReportedValues t v" and bt: "breakdown_tokens res = Some t"
      by (auto simp: ResolveExecutorWithBreakdown_def ResolveExecutor_def split: option.splits if_splits)
    have "Process v (Some res) = process_with tokenBreakdown_Normalize v res" by (simp add: Process_def h)
    then have "Tokens (Process v (Some res)) = t" "Violations (Process v (Some res)) = []"
      using bt by (simp_all add: process_with_fields tokenBreakdown_Normalize_def Let_def reconcileFinalTotal_def)
    moreover have "InputTokens v \<le> InputTokens t" "OutputTokens v \<le> OutputTokens t"
      "0 < TotalTokens v \<longrightarrow> TotalTokens t = TotalTokens v"
      using m by (auto simp: breakdownMatchesReportedValues_def split: if_splits)
    ultimately show ?thesis using d decode_consistent [OF d b] unknown(1) by blast
  qed
qed


section \<open>Witnesses\<close>

text \<open>Two reported events, one of them damaged, and routes of registered executors.\<close>

definition sample_event :: tokenValues where
  "sample_event = \<lparr>InputTokens = 100, OutputTokens = 40, ReasoningTokens = 10, CachedTokens = 0,
     CacheReadTokens = 20, CacheReadPresent = True, CacheCreationTokens = 5, TotalTokens = 140\<rparr>"

definition damaged_event :: tokenValues where
  "damaged_event = \<lparr>InputTokens = - 7, OutputTokens = 40, ReasoningTokens = 10, CachedTokens = 3,
     CacheReadTokens = 0, CacheReadPresent = False, CacheCreationTokens = 0, TotalTokens = 0\<rparr>"

definition route_for :: "handlerID \<Rightarrow> evidenceSource \<Rightarrow> evidenceStrength \<Rightarrow> handlerResolution" where
  "route_for h src str = \<lparr>handler_id = h, evidence_source = src, evidence_strength = str,
     executor_type = '''', identity_type = '''', needs_identity = False, unknown_executor = False,
     breakdown_tokens = None\<rparr>"

definition sample_breakdown :: accountingBreakdown where
  "sample_breakdown = \<lparr>SchemaVersion = 2, Quality = ''complete'', bd_Total = Some 165, bd_Unclassified = Some 0,
     bd_Input_Total = Some 125, bd_Input_Uncached = Some 100, bd_Input_CacheRead = Some 20,
     bd_Input_CacheWrite = Some 5, bd_Output_Total = Some 40, bd_Output_NonReasoning = Some 30,
     bd_Output_Reasoning = Some 10\<rparr>"

lemma breakdown_ok_route [simp]: "breakdown_ok (route_for h src str)"
  by (simp add: breakdown_ok_def route_for_def)

theorem Process_counts_witness:
  "tokens_int64 damaged_event \<and> breakdown_ok (route_for HandlerGemini EvidenceExecutor EvidenceParserContract) \<and>
   tokens_ok (Tokens (Process damaged_event (Some (route_for HandlerGemini EvidenceExecutor EvidenceParserContract))))"
proof -
  have h: "tokens_int64 damaged_event" by code_simp
  show ?thesis using h Process_counts [OF h breakdown_ok_route] by simp
qed

theorem Process_actions_replay_witness:
  "tokens_int64 damaged_event \<and>
   (\<exists>u. replay damaged_event (Actions (Process damaged_event
          (Some (route_for HandlerStrictPassThrough EvidenceDefault EvidenceUnknown)))) = Some u \<and>
        same_counts u (Tokens (Process damaged_event
          (Some (route_for HandlerStrictPassThrough EvidenceDefault EvidenceUnknown)))))"
proof -
  have h: "tokens_int64 damaged_event" by code_simp
  show ?thesis using h Process_actions_replay [OF h breakdown_ok_route] by blast
qed

theorem Process_total_authority_witness:
  "TotalTokens (Tokens (Process sample_event (Some (route_for HandlerClaude EvidenceIdentity EvidenceIdentityHint)))) \<noteq> 140 \<and>
   (handler_id (route_for HandlerClaude EvidenceIdentity EvidenceIdentityHint) = HandlerClaude \<and>
    max 0 (InputTokens sample_event) + max 0 (OutputTokens sample_event) = TotalTokens sample_event)"
proof -
  have h: "tokens_int64 sample_event" "TotalTokens sample_event > 0" by code_simp+
  have c: "TotalTokens (Tokens (Process sample_event
      (Some (route_for HandlerClaude EvidenceIdentity EvidenceIdentityHint)))) \<noteq> TotalTokens sample_event"
    by code_simp
  show ?thesis using c Process_total_authority [OF h(1) breakdown_ok_route h(2) c]
    by (auto simp: route_for_def sample_event_def)
qed

theorem Process_claude_contract_witness:
  "Tokens (Process sample_event (Some (route_for HandlerClaude EvidenceExecutor EvidenceParserContract))) =
     sample_event\<lparr>InputTokens := 125, CachedTokens := 20, TotalTokens := 165\<rparr>"
proof -
  have h: "tokens_ok sample_event"
    "Violations (Process sample_event (Some (route_for HandlerClaude EvidenceExecutor EvidenceParserContract))) = []"
    by code_simp+
  show ?thesis
    using Process_claude_contract [OF h(1) _ _ h(2)] by (simp add: route_for_def sample_event_def)
qed

theorem Process_gemini_contract_witness:
  "OutputTokens (Tokens (Process sample_event (Some (route_for HandlerGemini EvidenceExecutor EvidenceParserContract)))) = 50"
proof -
  have h: "tokens_ok sample_event"
    "Violations (Process sample_event (Some (route_for HandlerGemini EvidenceExecutor EvidenceParserContract))) = []"
    by code_simp+
  show ?thesis
    using Process_gemini_contract [OF h(1) _ _ h(2)] by (simp add: route_for_def sample_event_def)
qed

theorem Process_responses_contract_witness:
  "InputTokens (Tokens (Process sample_event
     (Some (route_for HandlerResponsesInclusive EvidenceExecutor EvidenceParserContract)))) = 100"
proof -
  have h: "tokens_ok sample_event" "Violations (Process sample_event
      (Some (route_for HandlerResponsesInclusive EvidenceExecutor EvidenceParserContract))) = []"
    by code_simp+
  show ?thesis
    using Process_responses_contract [OF h(1) _ _ h(2)] by (simp add: route_for_def sample_event_def)
qed

theorem Process_valid_unchanged_witness:
  "Outcome (Process sample_event (Some (route_for HandlerResponsesInclusive EvidenceExecutor EvidenceParserContract)))
     = TokenOutcomeValid \<and>
   same_counts sample_event (Tokens (Process sample_event
     (Some (route_for HandlerResponsesInclusive EvidenceExecutor EvidenceParserContract))))"
proof -
  have h: "tokens_int64 sample_event" by code_simp
  have o: "Outcome (Process sample_event
      (Some (route_for HandlerResponsesInclusive EvidenceExecutor EvidenceParserContract))) = TokenOutcomeValid"
    by code_simp
  show ?thesis using o Process_valid_unchanged [OF h breakdown_ok_route] by blast
qed

theorem breakdown_route_witness:
  "\<exists>t res. ResolveExecutorWithBreakdown ''FutureExecutor'' (sample_event\<lparr>TotalTokens := 165\<rparr>) (Some 2)
       (Some sample_breakdown) = Inr res \<and>
     Tokens (Process (sample_event\<lparr>TotalTokens := 165\<rparr>) (Some res)) = t \<and> TotalTokens t = 165"
proof -
  have b: "accounting_int64 sample_breakdown" by code_simp
  obtain t where d: "decodeCompleteBreakdown (Some 2) (Some sample_breakdown) = Some t"
    and m: "breakdownMatchesReportedValues t (sample_event\<lparr>TotalTokens := 165\<rparr>)"
    by (simp add: decodeCompleteBreakdown_def sample_breakdown_def safeAdd2 safeAdd3 int64_bounds
        breakdownMatchesReportedValues_def sample_event_def)
  have "normalizeRegistryAlias ''FutureExecutor'' = ''futureexecutor''" by code_simp
  moreover have "''futureexecutor'' \<notin> set (map (\<lambda>d. normalizeRegistryAlias (ed_alias d)) executorDefinitions)"
    unfolding normalized_executor_aliases by simp
  ultimately have un: "needs_identity (resolveExecutor defaultRegistry ''FutureExecutor'')"
    by (cases rule: resolveExecutor_cases [of "''FutureExecutor''"]) (auto simp: image_iff)
  let ?res = "(resolveExecutor defaultRegistry ''FutureExecutor'')\<lparr>handler_id := HandlerTokenBreakdown,
     evidence_source := EvidenceTokenBreakdown, evidence_strength := EvidenceAccountingContract,
     needs_identity := False, breakdown_tokens := Some t\<rparr>"
  have r: "ResolveExecutorWithBreakdown ''FutureExecutor'' (sample_event\<lparr>TotalTokens := 165\<rparr>) (Some 2)
      (Some sample_breakdown) = Inr ?res"
    using d m un by (simp add: ResolveExecutorWithBreakdown_def ResolveExecutor_def)
  show ?thesis using breakdown_route [OF b r] r by (auto simp: sample_event_def)
qed

end
