(* ===== verification/Go_Float.thy ===== *)
theory Go_Float
  imports Complex_Main Keeper_Prelude "HOL-Library.Log_Nat"
begin

text \<open>
  Go's \<open>float64\<close>. A finite value is the rational number it stands for; an operation
  computes the exact result and rounds it to 53 bits, ties to even, with gradual
  underflow and overflow to an infinity. The two zeros are one value here: the sources
  compare prices and multipliers, and never divide by one that may be zero, so the sign of
  a zero is not observable.
\<close>

datatype float64 = NaN | PosInf | NegInf | Fin rat

definition MaxFloat64 :: rat where
  "MaxFloat64 = (2 ^ 53 - 1) * 2 ^ 971"

text \<open>\<open>binade x\<close> is the exponent \<open>e\<close> with \<open>2 powi e \<le> x < 2 powi (e + 1)\<close>.\<close>

definition binade :: "rat \<Rightarrow> int" where
  "binade x =
     (let (n, d) = quotient_of x;
          e = bitlen n - bitlen d
      in if 2 powi e \<le> x then e else e - 1)"

definition round_even :: "rat \<Rightarrow> int" where
  "round_even r =
     (let f = \<lfloor>r\<rfloor>; t = r - of_int f
      in if t < 1 / 2 then f else if 1 / 2 < t then f + 1 else if even f then f else f + 1)"

text \<open>The exponent of the last place of the result: 53 bits, but never below \<open>2 powi (- 1074)\<close>.\<close>

definition last_place :: "rat \<Rightarrow> int" where
  "last_place x = max (- 1074) (binade \<bar>x\<bar> - 52)"

definition rounded :: "rat \<Rightarrow> rat" where
  "rounded x =
     (if x = 0 then 0
      else of_int (round_even (x / 2 powi last_place x)) * 2 powi last_place x)"

definition to_float :: "rat \<Rightarrow> float64" where
  "to_float x =
     (let v = rounded x
      in if MaxFloat64 < v then PosInf else if v < - MaxFloat64 then NegInf else Fin v)"

definition representable :: "rat \<Rightarrow> bool" where
  "representable x \<longleftrightarrow> to_float x = Fin x"

text \<open>The values a \<open>float64\<close> variable can hold.\<close>

fun is_float64 :: "float64 \<Rightarrow> bool" where
  "is_float64 (Fin x) = representable x"
| "is_float64 _ = True"


section \<open>Arithmetic and comparisons\<close>

fun fneg :: "float64 \<Rightarrow> float64" where
  "fneg NaN = NaN"
| "fneg PosInf = NegInf"
| "fneg NegInf = PosInf"
| "fneg (Fin x) = Fin (- x)"

fun fadd :: "float64 \<Rightarrow> float64 \<Rightarrow> float64" where
  "fadd NaN _ = NaN"
| "fadd _ NaN = NaN"
| "fadd PosInf NegInf = NaN"
| "fadd NegInf PosInf = NaN"
| "fadd PosInf _ = PosInf"
| "fadd _ PosInf = PosInf"
| "fadd NegInf _ = NegInf"
| "fadd _ NegInf = NegInf"
| "fadd (Fin x) (Fin y) = to_float (x + y)"

definition fsub :: "float64 \<Rightarrow> float64 \<Rightarrow> float64" where
  "fsub x y = fadd x (fneg y)"

fun finf_mul :: "rat \<Rightarrow> float64" where
  "finf_mul x = (if x = 0 then NaN else if 0 < x then PosInf else NegInf)"

fun fmul :: "float64 \<Rightarrow> float64 \<Rightarrow> float64" where
  "fmul NaN _ = NaN"
| "fmul _ NaN = NaN"
| "fmul PosInf PosInf = PosInf"
| "fmul PosInf NegInf = NegInf"
| "fmul NegInf PosInf = NegInf"
| "fmul NegInf NegInf = PosInf"
| "fmul PosInf (Fin y) = finf_mul y"
| "fmul NegInf (Fin y) = fneg (finf_mul y)"
| "fmul (Fin x) PosInf = finf_mul x"
| "fmul (Fin x) NegInf = fneg (finf_mul x)"
| "fmul (Fin x) (Fin y) = to_float (x * y)"

text \<open>
  Division, for a divisor that is not zero: the sources divide by one million, and by a
  multiplier only after comparing it with zero.
\<close>

fun fdiv :: "float64 \<Rightarrow> float64 \<Rightarrow> float64" where
  "fdiv NaN _ = NaN"
| "fdiv _ NaN = NaN"
| "fdiv PosInf (Fin y) = (if 0 \<le> y then PosInf else NegInf)"
| "fdiv NegInf (Fin y) = (if 0 \<le> y then NegInf else PosInf)"
| "fdiv (Fin x) (Fin y) = to_float (x / y)"
| "fdiv (Fin _) _ = Fin 0"
| "fdiv _ _ = NaN"

fun feq :: "float64 \<Rightarrow> float64 \<Rightarrow> bool" where
  "feq NaN _ = False"
| "feq _ NaN = False"
| "feq x y = (x = y)"

fun flt :: "float64 \<Rightarrow> float64 \<Rightarrow> bool" where
  "flt NaN _ = False"
| "flt _ NaN = False"
| "flt (Fin x) (Fin y) = (x < y)"
| "flt NegInf y = (y \<noteq> NegInf)"
| "flt x PosInf = (x \<noteq> PosInf)"
| "flt _ _ = False"

definition fle :: "float64 \<Rightarrow> float64 \<Rightarrow> bool" where
  "fle x y \<longleftrightarrow> flt x y \<or> feq x y"

definition of_int64 :: "int \<Rightarrow> float64" where
  "of_int64 n = to_float (of_int n)"


section \<open>Rounding\<close>

lemma quotient_of_pos:
  assumes "0 < x" and "quotient_of x = (n, d)"
  shows "0 < n" and "0 < d" and "x = of_int n / of_int d"
proof -
  show d: "0 < d" using assms(2) by (rule quotient_of_denom_pos)
  show x: "x = of_int n / of_int d" using assms(2) by (rule quotient_of_div)
  show "0 < n" using assms(1) d unfolding x by (simp add: zero_less_divide_iff)
qed

lemma floorlog_powi:
  assumes "0 < (n :: int)"
  shows "2 powi (int (floorlog 2 (nat n)) - 1) \<le> (of_int n :: rat)"
    and "(of_int n :: rat) < 2 powi int (floorlog 2 (nat n))"
proof -
  let ?k = "floorlog 2 (nat n)"
  from assms have pos: "0 < nat n" by simp
  have b: "2 ^ (?k - 1) \<le> nat n" "nat n < 2 ^ ?k"
    using floorlog_bounds [OF pos, of 2] by simp_all
  from assms have k: "1 \<le> ?k" by (simp add: floorlog_def)
  have n: "(of_int n :: rat) = of_nat (nat n)" using assms by simp
  from b(1) have "(of_nat (2 ^ (?k - 1)) :: rat) \<le> of_nat (nat n)"
    by (simp only: of_nat_le_iff)
  moreover have "(2 :: rat) powi (int ?k - 1) = 2 ^ (?k - 1)"
    using k by (simp add: power_int_def nat_diff_distrib)
  ultimately show "2 powi (int ?k - 1) \<le> (of_int n :: rat)"
    unfolding n by simp
  from b(2) have "(of_nat (nat n) :: rat) < of_nat (2 ^ ?k)"
    by (simp only: of_nat_less_iff)
  then show "(of_int n :: rat) < 2 powi int ?k"
    unfolding n by simp
qed

lemma binade_bounds:
  assumes "0 < x"
  shows "2 powi binade x \<le> x \<and> x < 2 powi (binade x + 1)"
proof -
  obtain n d where q: "quotient_of x = (n, d)" by fastforce
  note nd = quotient_of_pos [OF assms q]
  define a where "a = int (floorlog 2 (nat n))"
  define b where "b = int (floorlog 2 (nat d))"
  note n = floorlog_powi [OF nd(1), folded a_def]
  note d = floorlog_powi [OF nd(2), folded b_def]
  have dpos: "(0 :: rat) < of_int d" using nd(2) by simp
  have "(2 :: rat) powi (a - b - 1) * of_int d \<le> 2 powi (a - b - 1) * 2 powi b"
    using d(2) by (intro mult_left_mono) simp_all
  also have "\<dots> = 2 powi (a - 1)" by (simp flip: power_int_add)
  also have "\<dots> \<le> of_int n" by (rule n(1))
  finally have lo: "2 powi (a - b - 1) \<le> x"
    using dpos unfolding nd(3) by (simp add: le_divide_eq)
  have "(of_int n :: rat) < 2 powi a" by (rule n(2))
  also have "\<dots> = 2 powi (a - b + 1) * 2 powi (b - 1)" by (simp flip: power_int_add)
  also have "\<dots> \<le> 2 powi (a - b + 1) * of_int d"
    using d(1) by (intro mult_left_mono) simp_all
  finally have hi: "x < 2 powi (a - b + 1)"
    using dpos unfolding nd(3) by (simp add: divide_less_eq)
  have "binade x = (if 2 powi (a - b) \<le> x then a - b else a - b - 1)"
    by (simp add: binade_def q a_def b_def bitlen_def Let_def)
  then show ?thesis using lo hi by auto
qed

lemma powi_le_iff [simp]: "(2 :: rat) powi a \<le> 2 powi b \<longleftrightarrow> a \<le> b"
  using power_int_increasing [of a b "2 :: rat"] power_int_strict_increasing [of b a "2 :: rat"]
  by (cases "a \<le> b") auto

lemma powi_less_iff [simp]: "(2 :: rat) powi a < 2 powi b \<longleftrightarrow> a < b"
  using powi_le_iff [of b a] by (simp add: not_le [symmetric] del: powi_le_iff)

lemma powi_pos [simp]: "0 < (2 :: rat) powi a"
  by simp

lemma binade_unique:
  assumes "2 powi e \<le> x" and "x < 2 powi (e + 1)"
  shows "binade x = e"
proof -
  have pos: "0 < x" using assms(1) by (meson less_le_trans zero_less_power_int zero_less_numeral)
  note b = binade_bounds [OF pos]
  have "(2 :: rat) powi binade x < 2 powi (e + 1)" using b assms by linarith
  then have 1: "binade x < e + 1" by (simp only: powi_less_iff)
  have "(2 :: rat) powi e < 2 powi (binade x + 1)" using b assms by linarith
  then have 2: "e < binade x + 1" by (simp only: powi_less_iff)
  from 1 2 show ?thesis by linarith
qed

lemma binade_mono:
  assumes "0 < x" and "x \<le> y"
  shows "binade x \<le> binade y"
proof -
  from assms have "0 < y" by linarith
  then have "(2 :: rat) powi binade x < 2 powi (binade y + 1)"
    using binade_bounds [of x] binade_bounds [of y] assms by linarith
  then have "binade x < binade y + 1" by (simp only: powi_less_iff)
  then show ?thesis by simp
qed

lemma round_even_bounds: "\<lfloor>r\<rfloor> \<le> round_even r" "round_even r \<le> \<lfloor>r\<rfloor> + 1"
  by (simp_all add: round_even_def Let_def)

lemma round_even_of_int [simp]: "round_even (of_int m) = m"
  by (simp add: round_even_def)

lemma round_even_mono:
  assumes "r \<le> s"
  shows "round_even r \<le> round_even s"
proof (cases "\<lfloor>r\<rfloor> = \<lfloor>s\<rfloor>")
  case True
  with assms show ?thesis by (auto simp: round_even_def Let_def)
next
  case False
  with floor_mono [OF assms] have "\<lfloor>r\<rfloor> + 1 \<le> \<lfloor>s\<rfloor>" by linarith
  with round_even_bounds(2) [of r] round_even_bounds(1) [of s] show ?thesis by linarith
qed

lemma round_even_le: "r \<le> of_int m \<Longrightarrow> round_even r \<le> m"
  using round_even_mono [of r "of_int m"] by simp

lemma round_even_ge: "of_int m \<le> r \<Longrightarrow> m \<le> round_even r"
  using round_even_mono [of "of_int m" r] by simp

lemma powi_int_factor:
  assumes "l \<le> k"
  shows "\<exists>c. (2 :: rat) powi k = of_int c * 2 powi l"
proof
  have "(2 :: rat) powi k = 2 powi (int (nat (k - l)) + l)" using assms by simp
  also have "\<dots> = 2 powi int (nat (k - l)) * 2 powi l" by (rule power_int_add) simp
  also have "\<dots> = of_int (2 ^ nat (k - l)) * 2 powi l" by (simp only: power_int_of_nat of_int_power of_int_numeral)
  finally show "(2 :: rat) powi k = of_int (2 ^ nat (k - l)) * 2 powi l" .
qed

lemma rounded_grid:
  assumes "last_place (of_int m * 2 powi k) \<le> k"
  shows "rounded (of_int m * 2 powi k) = of_int m * 2 powi k"
proof -
  let ?v = "of_int m * 2 powi k :: rat"
  obtain c where "2 powi k = (of_int c :: rat) * 2 powi last_place ?v"
    using powi_int_factor [OF assms] by blast
  then have "?v = of_int (m * c) * 2 powi last_place ?v" by simp
  then have "?v / 2 powi last_place ?v = of_int (m * c)"
    using powi_pos [of "last_place ?v"] by (metis nonzero_mult_div_cancel_right less_irrefl)
  then have "round_even (?v / 2 powi last_place ?v) = m * c"
    by (simp only: round_even_of_int)
  with \<open>?v = of_int (m * c) * 2 powi last_place ?v\<close> show ?thesis
    unfolding rounded_def by (metis mult_zero_left)
qed

lemma rounded_nonneg: "0 \<le> x \<Longrightarrow> 0 \<le> rounded x"
  using round_even_ge [of 0 "x / 2 powi last_place x"] by (simp add: rounded_def)

lemma rounded_le_grid:
  assumes "x \<le> of_int m * 2 powi k" and "last_place x \<le> k" and "0 < x"
  shows "rounded x \<le> of_int m * 2 powi k"
proof -
  let ?l = "last_place x"
  obtain c where c: "2 powi k = (of_int c :: rat) * 2 powi ?l"
    using powi_int_factor [OF assms(2)] by blast
  with assms(1) have "x / 2 powi ?l \<le> of_int (m * c)"
    by (simp add: divide_le_eq mult.assoc)
  then have "round_even (x / 2 powi ?l) \<le> m * c" by (rule round_even_le)
  then have "(of_int (round_even (x / 2 powi ?l)) :: rat) \<le> of_int (m * c)"
    by (simp only: of_int_le_iff)
  then have "rounded x \<le> of_int (m * c) * 2 powi ?l"
    using assms(3) by (simp add: rounded_def mult_right_mono)
  with c show ?thesis by (simp add: mult.assoc)
qed

lemma rounded_ge_grid:
  assumes "of_int m * 2 powi k \<le> x" and "last_place x \<le> k" and "0 < x"
  shows "of_int m * 2 powi k \<le> rounded x"
proof -
  let ?l = "last_place x"
  obtain c where c: "2 powi k = (of_int c :: rat) * 2 powi ?l"
    using powi_int_factor [OF assms(2)] by blast
  with assms(1) have "of_int (m * c) \<le> x / 2 powi ?l"
    by (simp add: le_divide_eq mult.assoc)
  then have "m * c \<le> round_even (x / 2 powi ?l)" by (rule round_even_ge)
  then have "(of_int (m * c) :: rat) \<le> of_int (round_even (x / 2 powi ?l))"
    by (simp only: of_int_le_iff)
  then have "of_int (m * c) * 2 powi ?l \<le> rounded x"
    using assms(3) by (simp add: rounded_def mult_right_mono)
  with c show ?thesis by (simp add: mult.assoc)
qed

lemma rounded_mono:
  assumes "0 \<le> x" and "x \<le> y"
  shows "rounded x \<le> rounded y"
proof (cases "x = 0")
  case True
  with assms show ?thesis using rounded_nonneg [of y] by (simp add: rounded_def)
next
  case False
  with assms have x: "0 < x" and y: "0 < y" by simp_all
  from binade_mono [OF x assms(2)] have le: "last_place x \<le> last_place y"
    using x y by (simp add: last_place_def)
  show ?thesis
  proof (cases "last_place x = last_place y")
    case True
    have "round_even (x / 2 powi last_place y) \<le> round_even (y / 2 powi last_place y)"
      using assms(2) by (intro round_even_mono divide_right_mono) simp_all
    with x y True show ?thesis by (simp add: rounded_def mult_right_mono)
  next
    case neq: False
    with le x y have b: "binade x + 1 \<le> binade y" "last_place y \<le> binade y" "last_place x \<le> binade y"
      by (auto simp: last_place_def max_def split: if_splits)
    have "x \<le> of_int 1 * 2 powi binade y"
      using binade_bounds [OF x] powi_le_iff [of "binade x + 1" "binade y"] b(1) by (simp del: powi_le_iff)
    then have "rounded x \<le> of_int 1 * 2 powi binade y" using b(3) x by (rule rounded_le_grid)
    also have "\<dots> \<le> rounded y"
      using binade_bounds [OF y] by (intro rounded_ge_grid [OF _ b(2) y]) simp
    finally show ?thesis .
  qed
qed

lemma rounded_powi: "- 1074 \<le> e \<Longrightarrow> rounded (2 powi e) = 2 powi e"
  using rounded_grid [of 1 e] binade_unique [of e "2 powi e"] by (simp add: last_place_def)

lemma rounded_idem:
  assumes "0 \<le> x"
  shows "rounded (rounded x) = rounded x"
proof (cases "rounded x = 0")
  case True
  then show ?thesis by (simp add: rounded_def)
next
  case False
  with assms have v: "0 < rounded x" using rounded_nonneg [of x] by simp
  from False assms have x: "0 < x" by (cases "x = 0") (simp_all add: rounded_def)
  let ?k = "last_place x" and ?b = "binade x"
  define m where "m = round_even (x / 2 powi ?k)"
  have vm: "rounded x = of_int m * 2 powi ?k" using x by (simp add: rounded_def m_def)
  then have "0 < m"
    using v zero_less_mult_pos2 [OF _ powi_pos, of "of_int m" ?k] by simp
  have kb: "?k \<le> ?b + 1"
  proof (rule ccontr)
    assume "\<not> ?k \<le> ?b + 1"
    then have "(2 :: rat) powi (?b + 1) \<le> 2 powi (?k - 1)" by (simp only: powi_le_iff)
    then have "x < 2 powi (?k - 1)" using binade_bounds [OF x] by linarith
    then have "x / 2 powi ?k < 1 / 2" by (simp add: divide_less_eq power_int_diff)
    moreover have "0 < x / 2 powi ?k" using x by simp
    ultimately have "\<lfloor>x / 2 powi ?k\<rfloor> = 0" unfolding floor_eq_iff by linarith
    with \<open>x / 2 powi ?k < 1 / 2\<close> have "m = 0" by (simp add: m_def round_even_def)
    with \<open>0 < m\<close> show False by simp
  qed
  have "rounded x \<le> of_int 1 * 2 powi (?b + 1)"
    using binade_bounds [OF x] by (intro rounded_le_grid [OF _ kb x]) simp
  then consider "rounded x = 2 powi (?b + 1)" | "rounded x < 2 powi (?b + 1)" by fastforce
  then show ?thesis
  proof cases
    case 1
    have "- 1074 \<le> ?b + 1" using kb by (simp add: last_place_def)
    with 1 show ?thesis by (simp only: rounded_powi)
  next
    case 2
    have "(2 :: rat) powi binade (rounded x) < 2 powi (?b + 1)"
      using 2 binade_bounds [OF v] by linarith
    then have "binade (rounded x) \<le> ?b" by (simp only: powi_less_iff)
    then have "last_place (rounded x) \<le> ?k" using v x by (simp add: last_place_def)
    then show ?thesis unfolding vm by (rule rounded_grid)
  qed
qed

section \<open>The non-negative finite values\<close>

text \<open>The values the price compiler admits: \<open>isNonNegativeFinite\<close> on a variable's content.\<close>

definition fin_nonneg :: "float64 \<Rightarrow> bool" where
  "fin_nonneg x \<longleftrightarrow> (\<exists>v \<ge> 0. x = Fin v \<and> representable v)"

text \<open>\<open>below n x\<close>: a non-negative value of at most \<open>2 ^ n\<close>.\<close>

definition below :: "nat \<Rightarrow> float64 \<Rightarrow> bool" where
  "below n x \<longleftrightarrow> (\<exists>v. 0 \<le> v \<and> v \<le> 2 ^ n \<and> x = Fin v)"

lemma MaxFloat64_bounds: "(2 :: rat) ^ 1023 \<le> MaxFloat64"
  by (simp add: MaxFloat64_def)

lemma rounded_zero [simp]: "rounded 0 = 0"
  by (simp add: rounded_def)

lemma to_float_zero [simp]: "to_float 0 = Fin 0"
  by (simp add: to_float_def MaxFloat64_def)

lemma to_float_nonneg:
  assumes "0 \<le> x"
  obtains "to_float x = PosInf" | v where "to_float x = Fin v" "0 \<le> v" "representable v"
proof (cases "MaxFloat64 < rounded x")
  case True
  then show ?thesis using that(1) by (simp add: to_float_def)
next
  case False
  have nonneg: "0 \<le> rounded x" using assms by (rule rounded_nonneg)
  moreover have "0 \<le> MaxFloat64" by (simp add: MaxFloat64_def)
  ultimately have "to_float x = Fin (rounded x)" "to_float (rounded x) = Fin (rounded x)"
    using False rounded_idem [OF assms] by (simp_all add: to_float_def)
  with nonneg show ?thesis using that(2) by (simp add: representable_def)
qed

lemma to_float_below:
  assumes "0 \<le> x" and "x \<le> 2 ^ n" and "n \<le> 1023"
  shows "below n (to_float x)"
proof -
  have "rounded x \<le> rounded (2 ^ n)" using assms(1,2) by (rule rounded_mono)
  also have "\<dots> = 2 ^ n" using rounded_powi [of "int n"] by simp
  finally have le: "rounded x \<le> 2 ^ n" .
  also have "(2 :: rat) ^ n \<le> 2 ^ 1023" using assms(3) by (rule power_increasing) simp
  also have "\<dots> \<le> MaxFloat64" by (rule MaxFloat64_bounds)
  finally have "\<not> MaxFloat64 < rounded x" by simp
  moreover have "0 \<le> rounded x" using assms(1) by (rule rounded_nonneg)
  moreover have "0 \<le> MaxFloat64" by (simp add: MaxFloat64_def)
  ultimately show ?thesis using le by (simp add: to_float_def below_def)
qed

lemma fmul_below:
  assumes "below m x" and "below n y" and "m + n \<le> 1023"
  shows "below (m + n) (fmul x y)"
proof -
  from assms obtain v w where "0 \<le> v" "v \<le> 2 ^ m" "0 \<le> w" "w \<le> 2 ^ n" "x = Fin v" "y = Fin w"
    by (auto simp: below_def)
  moreover from this have "v * w \<le> 2 ^ (m + n)" by (simp add: power_add mult_mono)
  ultimately show ?thesis using assms(3) by (simp add: to_float_below)
qed

lemma fadd_below:
  assumes "below n x" and "below n y" and "n < 1023"
  shows "below (Suc n) (fadd x y)"
proof -
  from assms obtain v w where "0 \<le> v" "v \<le> 2 ^ n" "0 \<le> w" "w \<le> 2 ^ n" "x = Fin v" "y = Fin w"
    by (auto simp: below_def)
  moreover from this have "v + w \<le> 2 ^ Suc n" by simp
  ultimately show ?thesis using assms(3) by (simp add: to_float_below del: power_Suc)
qed

lemma below_mono:
  assumes "below m x" and "m \<le> n"
  shows "below n x"
proof -
  have "(2 :: rat) ^ m \<le> 2 ^ n" using assms(2) by (rule power_increasing) simp
  moreover obtain v where v: "0 \<le> v" "v \<le> 2 ^ m" "x = Fin v"
    using assms(1) unfolding below_def by blast
  ultimately have "v \<le> 2 ^ n" by linarith
  with v show ?thesis unfolding below_def by blast
qed

lemma below_zero [simp]: "below n (Fin 0)"
  by (simp add: below_def)

lemma below_one [simp]: "below n (Fin 1)"
  by (simp add: below_def)

lemma belowE:
  assumes "below n x" obtains v where "x = Fin v" "0 \<le> v"
  using assms by (auto simp: below_def)

lemma feq_refl_Fin [simp]: "feq (Fin x) y \<longleftrightarrow> y = Fin x"
  by (cases y) auto

text \<open>Every integer multiple of a power of two with at most 53 bits is a \<open>float64\<close>.\<close>

lemma representable_dyadic:
  assumes "0 \<le> m" and "m < 2 ^ 53" and "- 1074 \<le> k" and "k \<le> 900"
  shows "representable (of_int m * 2 powi k)"
proof (cases "m = 0")
  case True
  then show ?thesis by (simp add: representable_def)
next
  case False
  let ?v = "of_int m * 2 powi k :: rat"
  from False assms(1) have v: "0 < ?v" by simp
  have m: "(of_int m :: rat) < 2 ^ 53"
    using assms(2) by (metis of_int_less_iff of_int_numeral of_int_power)
  have "?v < 2 ^ 53 * 2 powi k" using m by (rule mult_strict_right_mono) simp
  also have "(2 :: rat) ^ 53 * 2 powi k = 2 powi (53 + k)" by (simp add: power_int_add)
  finally have less: "?v < 2 powi (53 + k)" .
  then have "(2 :: rat) powi binade ?v < 2 powi (53 + k)" using binade_bounds [OF v] by linarith
  then have "binade ?v < 53 + k" by (simp only: powi_less_iff)
  then have "last_place ?v \<le> k" using v assms(3) by (simp add: last_place_def)
  then have "rounded ?v = ?v" by (rule rounded_grid)
  moreover have "(2 :: rat) powi (53 + k) \<le> 2 powi 1023" using assms(4) by (simp only: powi_le_iff)
  then have "?v \<le> 2 ^ 1023" using less by simp
  then have "?v \<le> MaxFloat64" using MaxFloat64_bounds by linarith
  moreover have "0 \<le> MaxFloat64" by (simp add: MaxFloat64_def)
  ultimately show ?thesis using v by (simp add: representable_def to_float_def)
qed

lemma representable_numeral: "numeral n < (2 :: int) ^ 53 \<Longrightarrow> representable (numeral n)"
  using representable_dyadic [of "numeral n" 0] by simp

lemma representable_01 [simp]: "representable 0" "representable 1"
  using representable_dyadic [of 0 0] representable_dyadic [of 1 0] by simp_all

text \<open>Rounding a value that is closer to \<open>m * 2 powi k\<close> than to its neighbours.\<close>

lemma to_float_nearest:
  assumes "2 ^ 52 \<le> m" and "m < 2 ^ 53" and "- 1074 \<le> k" and "k \<le> 900"
    and "of_int m * 2 powi k \<le> x" and "x < (of_int m + 1 / 2) * 2 powi k"
  shows "to_float x = Fin (of_int m * 2 powi k)"
proof -
  have m: "(2 :: rat) ^ 52 \<le> of_int m" "(of_int m :: rat) + 1 \<le> 2 ^ 53"
    using of_int_le_iff [of "2 ^ 52" m, where 'a = rat] of_int_le_iff [of "m + 1" "2 ^ 53", where 'a = rat]
      assms(1,2) by simp_all
  have "(2 :: rat) powi (52 + k) = 2 ^ 52 * 2 powi k" by (simp add: power_int_add)
  also have "\<dots> \<le> of_int m * 2 powi k" using m(1) by (rule mult_right_mono) simp
  finally have lo: "2 powi (52 + k) \<le> x" using assms(5) by linarith
  have "(of_int m + 1 / 2 :: rat) \<le> 2 ^ 53" using m(2) by linarith
  then have "(of_int m + 1 / 2 :: rat) * 2 powi k \<le> 2 ^ 53 * 2 powi k" by (rule mult_right_mono) simp
  then have "x < 2 ^ 53 * 2 powi k" using assms(6) by linarith
  also have "\<dots> = 2 powi (52 + k + 1)" by (simp add: power_int_add)
  finally have b: "binade x = 52 + k" using lo by (intro binade_unique)
  have x: "0 < x" using lo less_le_trans [OF powi_pos] by blast
  have l: "last_place x = k" using x assms(3) by (simp add: last_place_def b)
  have "of_int m \<le> x / 2 powi k" "x / 2 powi k < of_int m + 1 / 2"
    using assms(5,6) by (simp_all add: le_divide_eq divide_less_eq)
  moreover from this have "\<lfloor>x / 2 powi k\<rfloor> = m" by (intro floor_unique) linarith+
  ultimately have "round_even (x / 2 powi k) = m"
    unfolding round_even_def Let_def by (simp only: if_P less_diff_eq diff_less_eq add.commute)
  then have r: "rounded x = of_int m * 2 powi k" using x by (simp add: rounded_def l)
  moreover have "to_float (of_int m * 2 powi k) = Fin (of_int m * 2 powi k)"
    using representable_dyadic [of m k] assms(1-4) by (simp add: representable_def)
  moreover have "rounded (rounded x) = rounded x" using x by (simp add: rounded_idem)
  ultimately show ?thesis by (simp add: to_float_def)
qed

lemma to_float_dyadic:
  "0 \<le> m \<Longrightarrow> m < 2 ^ 53 \<Longrightarrow> - 1074 \<le> k \<Longrightarrow> k \<le> 900 \<Longrightarrow>
    to_float (of_int m * 2 powi k) = Fin (of_int m * 2 powi k)"
  using representable_dyadic by (simp add: representable_def)

end
