(* ===== verification/Go_Json.thy ===== *)
theory Go_Json
  imports Go_Float
begin

text \<open>
  What the sources use of \<open>encoding/json\<close>, on syntax trees. A value is the tree of a
  well-formed document (\<open>json.Unmarshal\<close> checks well-formedness before it decodes); a
  number keeps the distinction that matters to the decoder, whether its literal has a
  fraction or an exponent. Decoding reproduces the rules of the package: a struct field is
  chosen by its exact name and otherwise by the case-folded one, later occurrences of a
  field overwrite earlier ones, \<open>null\<close> clears a pointer, a literal of the wrong type or out
  of range is an error, and so is an unknown field under \<open>DisallowUnknownFields\<close>.
\<close>

datatype json =
    JNull
  | JBool bool
  | JInt int
  | JDec rat
  | JStr string
  | JArr "json list"
  | JObj "(string \<times> json) list"

text \<open>
  \<open>foldName\<close>: simple case folding. The code points outside ASCII that fold to an ASCII
  letter are U+212A (Kelvin sign, E2 84 AA) and U+017F (long s, C5 BF).
\<close>

fun fold_name :: "string \<Rightarrow> string" where
  "fold_name (c # d # e # cs) =
     (if c = CHR 0xE2 \<and> d = CHR 0x84 \<and> e = CHR 0xAA then CHR ''k'' # fold_name cs
      else if c = CHR 0xC5 \<and> d = CHR 0xBF then CHR ''s'' # fold_name (e # cs)
      else ascii_lower c # fold_name (d # e # cs))"
| "fold_name [c, d] =
     (if c = CHR 0xC5 \<and> d = CHR 0xBF then [CHR ''s''] else [ascii_lower c, ascii_lower d])"
| "fold_name [c] = [ascii_lower c]"
| "fold_name [] = []"

text \<open>The struct field that a key of the document is decoded into.\<close>

definition struct_field :: "string list \<Rightarrow> string \<Rightarrow> string option" where
  "struct_field names key =
     (if key \<in> set names then Some key else find (\<lambda>n. fold_name n = fold_name key) names)"

definition occurrences :: "string list \<Rightarrow> (string \<times> json) list \<Rightarrow> string \<Rightarrow> json list" where
  "occurrences names kvs n = [v. (k, v) \<leftarrow> kvs, struct_field names k = Some n]"

definition all_known :: "string list \<Rightarrow> (string \<times> json) list \<Rightarrow> bool" where
  "all_known names kvs \<longleftrightarrow> (\<forall>(k, v) \<in> set kvs. struct_field names k \<noteq> None)"

text \<open>A pointer field: every occurrence is decoded, the last one stays. \<open>None\<close> is a type error.\<close>

fun decode_ptr :: "(json \<Rightarrow> 'a option) \<Rightarrow> 'a option \<Rightarrow> json list \<Rightarrow> 'a option option" where
  "decode_ptr d p [] = Some p"
| "decode_ptr d p (JNull # vs) = decode_ptr d None vs"
| "decode_ptr d p (v # vs) =
     (case d v of None \<Rightarrow> None | Some x \<Rightarrow> decode_ptr d (Some x) vs)"

text \<open>A \<open>json.RawMessage\<close> field: the text of the last occurrence; \<open>None\<close> is the empty message.\<close>

definition decode_raw :: "json list \<Rightarrow> json option" where
  "decode_raw vs = (if vs = [] then None else Some (last vs))"

fun as_string :: "json \<Rightarrow> string option" where
  "as_string (JStr s) = Some s"
| "as_string _ = None"

fun as_int64 :: "json \<Rightarrow> int option" where
  "as_int64 (JInt i) = (if is_int64 i then Some i else None)"
| "as_int64 _ = None"

fun finite_float :: "float64 \<Rightarrow> float64 option" where
  "finite_float (Fin x) = Some (Fin x)"
| "finite_float _ = None"

fun as_float64 :: "json \<Rightarrow> float64 option" where
  "as_float64 (JInt i) = finite_float (to_float (of_int i))"
| "as_float64 (JDec q) = finite_float (to_float q)"
| "as_float64 _ = None"

fun as_array :: "json \<Rightarrow> json list option" where
  "as_array (JArr vs) = Some vs"
| "as_array _ = None"

text \<open>
  The entries of the object a struct is decoded from: \<open>null\<close> leaves the struct as it is, any
  other value that is not an object is a type error.
\<close>

fun object_entries :: "json \<Rightarrow> (string \<times> json) list option" where
  "object_entries JNull = Some []"
| "object_entries (JObj kvs) = Some kvs"
| "object_entries _ = None"

lemma as_float64_JDec [simp]: "representable q \<Longrightarrow> as_float64 (JDec q) = Some (Fin q)"
  by (simp add: representable_def)

lemma decode_ptr_single [simp]:
  "v \<noteq> JNull \<Longrightarrow> decode_ptr d p [v] = (case d v of None \<Rightarrow> None | Some x \<Rightarrow> Some (Some x))"
  by (cases v) (auto split: option.splits)

end
