(* ===== verification/Pricing_Contract.thy ===== *)
theory Pricing_Contract
  imports Go_Json
begin

text \<open>
  The wire contract of a model's price configuration: \<open>src/internal/pricing/contract.go\<close>,
  \<open>validation_error.go\<close> and the \<open>RuleConfig\<close> of \<open>snapshot.go\<close>. The decoders run on the syntax
  trees of \<open>Go_Json\<close>. The last section has what \<open>json.Marshal\<close> writes for these structs and
  shows that decoding reads it back.
\<close>


section \<open>Errors\<close>

text \<open>
  The reason of a validation error is its message; only the message for an unknown rule
  field quotes user input (\<open>%q\<close>), and that one keeps the quoted text.
\<close>

datatype reason = Msg string | UnknownRuleField string

datatype pricingError =
    ValidationError (Path: string) (Code: string) (Reason: reason)
  | BranchConflictError (BranchIDs: "string \<times> string") (FieldPaths: "string list")
  | JsonError
  | TimezoneRequired
  | DuplicateModelPrice string
  | CompileModelPriceAtIndex nat pricingError

definition invalidPricingField :: "string \<Rightarrow> string \<Rightarrow> string \<Rightarrow> pricingError" where
  "invalidPricingField path code msg = ValidationError path code (Msg msg)"

text \<open>\<open>errors.As\<close> for \<open>*ValidationError\<close>: looks through the errors wrapped by \<open>%w\<close>.\<close>

fun as_validation :: "pricingError \<Rightarrow> (string \<times> string \<times> reason) option" where
  "as_validation (ValidationError p c r) = Some (p, c, r)"
| "as_validation (CompileModelPriceAtIndex _ e) = as_validation e"
| "as_validation _ = None"

definition prefixPricingValidationError :: "string \<Rightarrow> pricingError \<Rightarrow> pricingError" where
  "prefixPricingValidationError parent err =
     (case as_validation err of
        Some (p, c, r) \<Rightarrow>
          ValidationError (if p \<noteq> '''' then parent @ ''.'' @ p else parent) c r
      | None \<Rightarrow> err)"

definition branchPricingValidationError :: "pricingError \<Rightarrow> pricingError" where
  "branchPricingValidationError err =
     (case as_validation err of
        None \<Rightarrow> err
      | Some (p, c, r) \<Rightarrow>
          let path =
            if p = ''base_prices'' then ''prices''
            else if length p > length ''base_prices.''
                 \<and> take (length ''base_prices.'') p = ''base_prices.''
              then ''prices.'' @ drop (length ''base_prices.'') p
            else p
          in ValidationError path c r)"

text \<open>\<open>if err != nil { return prefix...(err) }\<close>.\<close>

fun mapError :: "('e \<Rightarrow> 'f) \<Rightarrow> 'e + 'a \<Rightarrow> 'f + 'a" where
  "mapError f (Inl e) = Inl (f e)"
| "mapError f (Inr x) = Inr x"

definition indexed :: "string \<Rightarrow> nat \<Rightarrow> string" where
  "indexed name i = name @ ''['' @ itoa i @ '']''"


section \<open>Configuration\<close>

record basePrices =
  bp_Input :: float64
  bp_Output :: float64
  bp_CacheRead :: float64
  bp_CacheWrite :: float64

record ruleConfig =
  rc_Key :: string
  rc_Value :: string
  rc_Multiplier :: float64

record contextCondition =
  cc_Type :: string
  cc_Threshold :: "int option"
  cc_Min :: "int option"
  cc_Max :: "int option"

record periodCondition =
  pc_Type :: string
  pc_Start :: "string option"
  pc_End :: "string option"

record priceBranch =
  pb_ID :: string
  pb_Name :: string
  pb_Days :: string
  pb_Context :: contextCondition
  pb_Period :: periodCondition
  pb_Prices :: basePrices

text \<open>The two slices distinguish \<open>nil\<close> (\<open>None\<close>) from the empty list.\<close>

record modelPricingConfig =
  mp_Model :: string
  mp_PricingStyle :: string
  mp_BasePrices :: basePrices
  mp_ModelMultiplier :: float64
  mp_ConditionalMultipliers :: "ruleConfig list option"
  mp_Branches :: "priceBranch list option"

definition DaysAll :: string where "DaysAll = ''all''"
definition DaysWeekday :: string where "DaysWeekday = ''weekday''"
definition DaysWeekend :: string where "DaysWeekend = ''weekend''"
definition ContextAll :: string where "ContextAll = ''all''"
definition ContextGT :: string where "ContextGT = ''gt''"
definition ContextLTE :: string where "ContextLTE = ''lte''"
definition ContextRange :: string where "ContextRange = ''range''"
definition PeriodAll :: string where "PeriodAll = ''all''"
definition PeriodWindow :: string where "PeriodWindow = ''window''"

lemmas condition_names =
  DaysAll_def DaysWeekday_def DaysWeekend_def ContextAll_def ContextGT_def ContextLTE_def
  ContextRange_def PeriodAll_def PeriodWindow_def


section \<open>Decoding\<close>

text \<open>
  \<open>decodePricingObject\<close>: decodes an object into a struct with the given fields and rejects
  unknown ones. The result gives the occurrences of each field, in document order.
\<close>

definition decodePricingObject :: "string list \<Rightarrow> json \<Rightarrow> pricingError + (string \<Rightarrow> json list)" where
  "decodePricingObject names data =
     (case object_entries data of
        None \<Rightarrow> Inl JsonError
      | Some kvs \<Rightarrow>
          if all_known names kvs then Inr (occurrences names kvs) else Inl JsonError)"

definition ptr_field ::
  "(json \<Rightarrow> 'a option) \<Rightarrow> (string \<Rightarrow> json list) \<Rightarrow> string \<Rightarrow> pricingError + 'a option" where
  "ptr_field d wire name =
     (case decode_ptr d None (wire name) of None \<Rightarrow> Inl JsonError | Some p \<Rightarrow> Inr p)"

definition missingPricingJSONField :: "json option \<Rightarrow> bool" where
  "missingPricingJSONField raw \<longleftrightarrow> raw = None \<or> raw = Some JNull"

text \<open>The keys of the object decoded into a \<open>map[string]json.RawMessage\<close>, by exact name.\<close>

definition present_fields :: "json \<Rightarrow> pricingError + string set" where
  "present_fields data =
     (case object_entries data of
        None \<Rightarrow> Inl JsonError
      | Some kvs \<Rightarrow> Inr (set (map fst kvs)))"

definition hasPricingField :: "string set \<Rightarrow> string list \<Rightarrow> bool" where
  "hasPricingField fields_present names \<longleftrightarrow> (\<exists>name \<in> set names. name \<in> fields_present)"

definition required :: "string \<Rightarrow> string \<Rightarrow> pricingError" where
  "required field msg = invalidPricingField field ''required'' msg"

definition invalid :: "string \<Rightarrow> string \<Rightarrow> pricingError" where
  "invalid field msg = invalidPricingField field ''invalid'' msg"

definition basePrices_fields :: "string list" where
  "basePrices_fields = [''input'', ''output'', ''cache_read'', ''cache_write'']"

definition basePrices_UnmarshalJSON :: "json \<Rightarrow> pricingError + basePrices" where
  "basePrices_UnmarshalJSON data =
     andThen (decodePricingObject basePrices_fields data) (\<lambda>wire.
     andThen (ptr_field as_float64 wire ''input'') (\<lambda>input.
     andThen (ptr_field as_float64 wire ''output'') (\<lambda>output.
     andThen (ptr_field as_float64 wire ''cache_read'') (\<lambda>cacheRead.
     andThen (ptr_field as_float64 wire ''cache_write'') (\<lambda>cacheWrite.
       case (input, output, cacheRead, cacheWrite) of
         (Some i, Some out, Some r, Some w) \<Rightarrow>
           Inr \<lparr>bp_Input = i, bp_Output = out, bp_CacheRead = r, bp_CacheWrite = w\<rparr>
       | (None, _, _, _) \<Rightarrow> Inl (required ''input'' ''input price is required'')
       | (_, None, _, _) \<Rightarrow> Inl (required ''output'' ''output price is required'')
       | (_, _, None, _) \<Rightarrow> Inl (required ''cache_read'' ''cache read price is required'')
       | _ \<Rightarrow> Inl (required ''cache_write'' ''cache write price is required''))))))"

definition ruleConfig_fields :: "string list" where
  "ruleConfig_fields = [''key'', ''value'', ''multiplier'']"

definition ruleConfig_UnmarshalJSON :: "json \<Rightarrow> pricingError + ruleConfig" where
  "ruleConfig_UnmarshalJSON data =
     andThen (decodePricingObject ruleConfig_fields data) (\<lambda>wire.
     andThen (ptr_field as_string wire ''key'') (\<lambda>key.
     andThen (ptr_field as_string wire ''value'') (\<lambda>val.
     andThen (ptr_field as_float64 wire ''multiplier'') (\<lambda>multiplier.
       case (key, val, multiplier) of
         (Some k, Some v, Some m) \<Rightarrow> Inr \<lparr>rc_Key = k, rc_Value = v, rc_Multiplier = m\<rparr>
       | (None, _, _) \<Rightarrow> Inl (required ''key'' ''conditional multiplier key is required'')
       | (_, None, _) \<Rightarrow> Inl (required ''value'' ''conditional multiplier value is required'')
       | _ \<Rightarrow> Inl (required ''multiplier'' ''conditional multiplier value is required'')))))"

definition contextCondition_fields :: "string list" where
  "contextCondition_fields = [''type'', ''threshold'', ''min'', ''max'']"

definition contextCondition_UnmarshalJSON :: "json \<Rightarrow> pricingError + contextCondition" where
  "contextCondition_UnmarshalJSON data =
     andThen (present_fields data) (\<lambda>present.
     andThen (decodePricingObject contextCondition_fields data) (\<lambda>wire.
     andThen (ptr_field as_string wire ''type'') (\<lambda>type.
     andThen (ptr_field as_int64 wire ''threshold'') (\<lambda>threshold.
     andThen (ptr_field as_int64 wire ''min'') (\<lambda>mn.
     andThen (ptr_field as_int64 wire ''max'') (\<lambda>mx.
       case type of
         None \<Rightarrow> Inl (required ''type'' ''context type is required'')
       | Some t \<Rightarrow>
           let c = Inr \<lparr>cc_Type = t, cc_Threshold = threshold, cc_Min = mn, cc_Max = mx\<rparr> in
           if t = ContextAll then
             if hasPricingField present [''threshold'', ''min'', ''max'']
             then Inl (invalid ''type'' ''all context does not accept thresholds'') else c
           else if t = ContextGT \<or> t = ContextLTE then
             if threshold = None then Inl (required ''threshold'' ''context threshold is required'')
             else if hasPricingField present [''min'', ''max'']
             then Inl (invalid ''type'' ''context accepts only threshold'') else c
           else if t = ContextRange then
             if mn = None then Inl (required ''min'' ''range min is required'')
             else if mx = None then Inl (required ''max'' ''range max is required'')
             else if hasPricingField present [''threshold'']
             then Inl (invalid ''type'' ''range accepts only min and max'') else c
           else Inl (invalid ''type'' ''unknown context type'')))))))"

definition periodCondition_fields :: "string list" where
  "periodCondition_fields = [''type'', ''start'', ''end'']"

definition periodCondition_UnmarshalJSON :: "json \<Rightarrow> pricingError + periodCondition" where
  "periodCondition_UnmarshalJSON data =
     andThen (present_fields data) (\<lambda>present.
     andThen (decodePricingObject periodCondition_fields data) (\<lambda>wire.
     andThen (ptr_field as_string wire ''type'') (\<lambda>type.
     andThen (ptr_field as_string wire ''start'') (\<lambda>start.
     andThen (ptr_field as_string wire ''end'') (\<lambda>stop.
       case type of
         None \<Rightarrow> Inl (required ''type'' ''period type is required'')
       | Some t \<Rightarrow>
           let p = Inr \<lparr>pc_Type = t, pc_Start = start, pc_End = stop\<rparr> in
           if t = PeriodAll then
             if hasPricingField present [''start'', ''end'']
             then Inl (invalid ''type'' ''all period does not accept start or end'') else p
           else if t = PeriodWindow then
             if start = None then Inl (required ''start'' ''period start is required'')
             else if stop = None then Inl (required ''end'' ''period end is required'') else p
           else Inl (invalid ''type'' ''unknown period type''))))))"

text \<open>The loops that report the first missing field of a struct.\<close>

fun first_missing :: "(string \<times> bool) list \<Rightarrow> pricingError + unit" where
  "first_missing [] = Inr ()"
| "first_missing ((name, missing) # rest) =
     (if missing then Inl (required name (name @ '' is required'')) else first_missing rest)"

definition days_field :: "json option \<Rightarrow> pricingError + string" where
  "days_field raw =
     (let bad = Inl (invalid ''days'' ''days must be all, weekday, or weekend'') in
      case raw of
        None \<Rightarrow> Inr DaysAll
      | Some v \<Rightarrow>
          (case as_string v of None \<Rightarrow> bad | Some d \<Rightarrow> if d = '''' then bad else Inr d))"

definition raw_field :: "(string \<Rightarrow> json list) \<Rightarrow> string \<Rightarrow> json option" where
  "raw_field wire name = decode_raw (wire name)"

definition raw_value :: "json option \<Rightarrow> json" where
  "raw_value raw = (case raw of None \<Rightarrow> JNull | Some v \<Rightarrow> v)"

definition priceBranch_fields :: "string list" where
  "priceBranch_fields = [''id'', ''name'', ''days'', ''context'', ''period'', ''prices'']"

definition priceBranch_UnmarshalJSON :: "json \<Rightarrow> pricingError + priceBranch" where
  "priceBranch_UnmarshalJSON data =
     andThen (decodePricingObject priceBranch_fields data) (\<lambda>wire.
     andThen (ptr_field as_string wire ''id'') (\<lambda>id.
     andThen (ptr_field as_string wire ''name'') (\<lambda>name.
     andThen (first_missing
       [(''id'', id = None), (''name'', name = None),
        (''context'', missingPricingJSONField (raw_field wire ''context'')),
        (''period'', missingPricingJSONField (raw_field wire ''period'')),
        (''prices'', missingPricingJSONField (raw_field wire ''prices''))]) (\<lambda>_.
     andThen (days_field (raw_field wire ''days'')) (\<lambda>days.
     andThen (mapError (prefixPricingValidationError ''context'')
       (contextCondition_UnmarshalJSON (raw_value (raw_field wire ''context'')))) (\<lambda>context.
     andThen (mapError (prefixPricingValidationError ''period'')
       (periodCondition_UnmarshalJSON (raw_value (raw_field wire ''period'')))) (\<lambda>period.
     andThen (mapError (prefixPricingValidationError ''prices'')
       (basePrices_UnmarshalJSON (raw_value (raw_field wire ''prices'')))) (\<lambda>prices.
       Inr \<lparr>pb_ID = the id, pb_Name = the name, pb_Days = days, pb_Context = context,
            pb_Period = period, pb_Prices = prices\<rparr>))))))))"

text \<open>The loops that decode the raw elements of an array one by one.\<close>

fun decode_elements :: "string \<Rightarrow> (json \<Rightarrow> pricingError + 'a) \<Rightarrow> nat \<Rightarrow> json list \<Rightarrow> pricingError + 'a list" where
  "decode_elements name d i [] = Inr []"
| "decode_elements name d i (v # vs) =
     andThen (mapError (prefixPricingValidationError (indexed name i)) (d v)) (\<lambda>x.
     andThen (decode_elements name d (Suc i) vs) (\<lambda>xs. Inr (x # xs)))"

definition raw_elements :: "json \<Rightarrow> pricingError + json list" where
  "raw_elements data = (case as_array data of None \<Rightarrow> Inl JsonError | Some vs \<Rightarrow> Inr vs)"

definition modelPricingConfig_fields :: "string list" where
  "modelPricingConfig_fields =
     [''model'', ''pricing_style'', ''base_prices'', ''model_multiplier'',
      ''conditional_multipliers'', ''branches'']"

definition modelPricingConfig_UnmarshalJSON :: "json \<Rightarrow> pricingError + modelPricingConfig" where
  "modelPricingConfig_UnmarshalJSON data =
     andThen (decodePricingObject modelPricingConfig_fields data) (\<lambda>wire.
     andThen (ptr_field as_string wire ''model'') (\<lambda>model.
     andThen (ptr_field as_string wire ''pricing_style'') (\<lambda>style.
     andThen (ptr_field as_float64 wire ''model_multiplier'') (\<lambda>multiplier.
     andThen (first_missing
       [(''model'', model = None), (''pricing_style'', style = None),
        (''base_prices'', missingPricingJSONField (raw_field wire ''base_prices'')),
        (''model_multiplier'', multiplier = None),
        (''conditional_multipliers'', missingPricingJSONField (raw_field wire ''conditional_multipliers'')),
        (''branches'', missingPricingJSONField (raw_field wire ''branches''))]) (\<lambda>_.
     andThen (mapError (prefixPricingValidationError ''base_prices'')
       (basePrices_UnmarshalJSON (raw_value (raw_field wire ''base_prices'')))) (\<lambda>prices.
     andThen (raw_elements (raw_value (raw_field wire ''conditional_multipliers''))) (\<lambda>rawRules.
     andThen (decode_elements ''conditional_multipliers'' ruleConfig_UnmarshalJSON 0 rawRules) (\<lambda>rules.
     andThen (raw_elements (raw_value (raw_field wire ''branches''))) (\<lambda>rawBranches.
     andThen (decode_elements ''branches'' priceBranch_UnmarshalJSON 0 rawBranches) (\<lambda>branches.
       Inr \<lparr>mp_Model = the model, mp_PricingStyle = the style, mp_BasePrices = prices,
            mp_ModelMultiplier = the multiplier, mp_ConditionalMultipliers = Some rules,
            mp_Branches = Some branches\<rparr>))))))))))"

end
