(* ===== verification/Pricing_Compile.thy ===== *)
theory Pricing_Compile
  imports Pricing_Contract "HOL-Library.Word" "HOL-Library.List_Lexorder" "HOL-Library.Char_ord"
begin

text \<open>
  The price compiler: \<open>src/internal/pricing/fields.go\<close>, \<open>snapshot.go\<close> and
  \<open>complete_snapshot.go\<close>. It turns the configurations of all models into a read-only
  snapshot, or rejects the whole set. A deployment time zone is an element of a type
  parameter: the compiler only checks that it is there.
\<close>

unbundle bit_operations_syntax

section \<open>Rule fields\<close>

datatype ruleField =
    RuleFieldInvalid
  | RuleFieldAPIGroupKey
  | RuleFieldModel
  | RuleFieldAuthIndex
  | RuleFieldModelAlias
  | RuleFieldServiceTier
  | RuleFieldResponseServiceTier
  | RuleFieldReasoningEffort
  | RuleFieldEndpoint
  | RuleFieldExecutorType

text \<open>The values from \<open>RuleFieldAPIGroupKey\<close> up to \<open>ruleFieldCount\<close>, in order.\<close>

definition rule_fields :: "ruleField list" where
  "rule_fields =
     [RuleFieldAPIGroupKey, RuleFieldModel, RuleFieldAuthIndex, RuleFieldModelAlias,
      RuleFieldServiceTier, RuleFieldResponseServiceTier, RuleFieldReasoningEffort,
      RuleFieldEndpoint, RuleFieldExecutorType]"

fun ruleFieldNames :: "ruleField \<Rightarrow> string" where
  "ruleFieldNames RuleFieldInvalid = ''''"
| "ruleFieldNames RuleFieldAPIGroupKey = ''api_group_key''"
| "ruleFieldNames RuleFieldModel = ''model''"
| "ruleFieldNames RuleFieldAuthIndex = ''auth_index''"
| "ruleFieldNames RuleFieldModelAlias = ''model_alias''"
| "ruleFieldNames RuleFieldServiceTier = ''service_tier''"
| "ruleFieldNames RuleFieldResponseServiceTier = ''response_service_tier''"
| "ruleFieldNames RuleFieldReasoningEffort = ''reasoning_effort''"
| "ruleFieldNames RuleFieldEndpoint = ''endpoint''"
| "ruleFieldNames RuleFieldExecutorType = ''executor_type''"

definition ParseRuleField :: "string \<Rightarrow> reason + ruleField" where
  "ParseRuleField v =
     (let normalized = ToLower (TrimSpace v) in
      case find (\<lambda>f. ruleFieldNames f = normalized) rule_fields of
        Some f \<Rightarrow> Inr f
      | None \<Rightarrow> Inl (UnknownRuleField normalized))"

definition RuleField_String :: "ruleField \<Rightarrow> string" where
  "RuleField_String f = (if f = RuleFieldInvalid then '''' else ruleFieldNames f)"

record usageDimensions =
  ud_APIGroupKey :: string
  ud_Model :: string
  ud_AuthIndex :: string
  ud_ModelAlias :: string
  ud_ServiceTier :: string
  ud_ResponseServiceTier :: string
  ud_ReasoningEffort :: string
  ud_Endpoint :: string
  ud_ExecutorType :: string

fun UsageDimensions_Value :: "usageDimensions \<Rightarrow> ruleField \<Rightarrow> string" where
  "UsageDimensions_Value d RuleFieldAPIGroupKey = ud_APIGroupKey d"
| "UsageDimensions_Value d RuleFieldModel = ud_Model d"
| "UsageDimensions_Value d RuleFieldAuthIndex = ud_AuthIndex d"
| "UsageDimensions_Value d RuleFieldModelAlias = ud_ModelAlias d"
| "UsageDimensions_Value d RuleFieldServiceTier = ud_ServiceTier d"
| "UsageDimensions_Value d RuleFieldResponseServiceTier = ud_ResponseServiceTier d"
| "UsageDimensions_Value d RuleFieldReasoningEffort = ud_ReasoningEffort d"
| "UsageDimensions_Value d RuleFieldEndpoint = ud_Endpoint d"
| "UsageDimensions_Value d RuleFieldExecutorType = ud_ExecutorType d"
| "UsageDimensions_Value d RuleFieldInvalid = ''''"

definition canonicalRequiredDimension :: "string \<Rightarrow> string" where
  "canonicalRequiredDimension v =
     (let t = TrimSpace v in if t = '''' then ''unknown'' else t)"

definition canonicalizeUsageDimensions :: "usageDimensions \<Rightarrow> usageDimensions" where
  "canonicalizeUsageDimensions d =
     \<lparr>ud_APIGroupKey = canonicalRequiredDimension (ud_APIGroupKey d),
      ud_Model = canonicalRequiredDimension (ud_Model d),
      ud_AuthIndex = TrimSpace (ud_AuthIndex d),
      ud_ModelAlias = TrimSpace (ud_ModelAlias d),
      ud_ServiceTier = TrimSpace (ud_ServiceTier d),
      ud_ResponseServiceTier = TrimSpace (ud_ResponseServiceTier d),
      ud_ReasoningEffort = TrimSpace (ud_ReasoningEffort d),
      ud_Endpoint = TrimSpace (ud_Endpoint d),
      ud_ExecutorType = TrimSpace (ud_ExecutorType d)\<rparr>"


section \<open>Compiled data\<close>

text \<open>
  \<open>entities.ModelPriceSetting\<close>, without the columns that pricing neither reads nor writes
  (row id, stored branches, time stamps). \<open>PriceMultiplier\<close> is a pointer.
\<close>

record modelPriceSetting =
  ps_Model :: string
  ps_PricingStyle :: string
  ps_PromptPricePer1M :: float64
  ps_CompletionPricePer1M :: float64
  ps_CacheReadPricePer1M :: float64
  ps_CacheWritePricePer1M :: float64
  ps_PriceMultiplier :: "float64 option"

record modelConfig =
  mc_Pricing :: modelPriceSetting
  mc_Rules :: "ruleConfig list"

record compiledRule =
  cr_field :: ruleField
  cr_value :: string
  cr_multiplier :: float64

record tokenInterval =
  ti_min :: int
  ti_max :: int

record minuteInterval =
  mi_start :: int
  mi_end :: int

record compiledBranch =
  cb_prices :: basePrices
  cb_days :: "8 word"
  cb_context :: tokenInterval
  cb_periods :: "minuteInterval list"
  cb_allDay :: bool

record compiledModel =
  cm_pricing :: modelPriceSetting
  cm_rules :: "compiledRule list"
  cm_branches :: "compiledBranch list"

record 'loc snapshot =
  sn_modelsByName :: "string \<rightharpoonup> compiledModel"
  sn_modelConfigs :: "modelConfig list"
  sn_pricingConfigs :: "modelPricingConfig list"
  sn_location :: "'loc option"

definition ModelPricingStyleOpenAI :: string where "ModelPricingStyleOpenAI = ''openai''"
definition ModelPricingStyleClaude :: string where "ModelPricingStyleClaude = ''claude''"


section \<open>Numbers\<close>

fun isNonNegativeFinite :: "float64 \<Rightarrow> bool" where
  "isNonNegativeFinite (Fin v) = (0 \<le> v)"
| "isNonNegativeFinite _ = False"

fun is_finite :: "float64 \<Rightarrow> bool" where
  "is_finite (Fin v) = True"
| "is_finite _ = False"

definition safeMultiply :: "float64 \<Rightarrow> float64 \<Rightarrow> float64 \<times> bool" where
  "safeMultiply left right =
     (if feq left (Fin 0) \<or> feq right (Fin 0) then (Fin 0, True)
      else if flt (fdiv (Fin MaxFloat64) right) left then (Fin 0, False)
      else let result = fmul left right in (result, is_finite result))"

definition multiplier_or_one :: "float64 option \<Rightarrow> float64" where
  "multiplier_or_one p = (case p of None \<Rightarrow> Fin 1 | Some m \<Rightarrow> m)"

definition cloneModelPriceSetting :: "modelPriceSetting \<Rightarrow> modelPriceSetting" where
  "cloneModelPriceSetting p =
     p\<lparr>ps_PriceMultiplier := Some (multiplier_or_one (ps_PriceMultiplier p))\<rparr>"

text \<open>The loop over the four prices of \<open>validatePricingNumbers\<close>.\<close>

fun check_prices :: "(string \<times> string \<times> float64) list \<Rightarrow> pricingError + unit" where
  "check_prices [] = Inr ()"
| "check_prices ((path, name, v) # rest) =
     (if isNonNegativeFinite v then check_prices rest
      else Inl (invalid path (name @ '' must be a finite non-negative number'')))"

definition validatePricingNumbers :: "modelPriceSetting \<Rightarrow> pricingError + unit" where
  "validatePricingNumbers p =
     andThen (check_prices
       [(''base_prices.input'', ''prompt price'', ps_PromptPricePer1M p),
        (''base_prices.output'', ''completion price'', ps_CompletionPricePer1M p),
        (''base_prices.cache_read'', ''cache read price'', ps_CacheReadPricePer1M p),
        (''base_prices.cache_write'', ''cache write price'', ps_CacheWritePricePer1M p)]) (\<lambda>_.
     if isNonNegativeFinite (multiplier_or_one (ps_PriceMultiplier p)) then Inr ()
     else Inl (invalid ''model_multiplier'' ''model price multiplier must be a finite non-negative number''))"

text \<open>\<open>maxByField\<close> after the loop over the rules.\<close>

fun max_by_field :: "compiledRule list \<Rightarrow> (ruleField \<Rightarrow> float64) \<Rightarrow> ruleField \<Rightarrow> float64" where
  "max_by_field [] m = m"
| "max_by_field (r # rs) m =
     max_by_field rs (if flt (m (cr_field r)) (cr_multiplier r)
                      then m(cr_field r := cr_multiplier r) else m)"

fun max_rule_multiplier :: "ruleField list \<Rightarrow> (ruleField \<Rightarrow> float64) \<Rightarrow> float64 \<Rightarrow> pricingError + float64" where
  "max_rule_multiplier [] m acc = Inr acc"
| "max_rule_multiplier (f # fs) m acc =
     (case safeMultiply acc (m f) of
        (acc', ok) \<Rightarrow>
          if ok then max_rule_multiplier fs m acc'
          else Inl (invalid ''conditional_multipliers'' ''combined pricing rule multiplier is not finite''))"

text \<open>\<open>float64(math.MaxInt64) / 1_000_000\<close>, a constant expression.\<close>

definition maxTokensPerMillion :: float64 where
  "maxTokensPerMillion = fdiv (of_int64 MaxInt64) (Fin 1000000)"

fun worst_case_total :: "float64 \<Rightarrow> float64 list \<Rightarrow> float64 \<Rightarrow> float64 \<Rightarrow> pricingError + unit" where
  "worst_case_total totalMultiplier [] unscaled scaled = Inr ()"
| "worst_case_total totalMultiplier (price # prices) unscaled scaled =
     (case safeMultiply price maxTokensPerMillion of
        (segment, ok) \<Rightarrow>
          if \<not> ok \<or> flt (fsub (Fin MaxFloat64) segment) unscaled
          then Inl (invalid ''base_prices'' ''unscaled worst-case token cost is not finite'')
          else
            (case safeMultiply segment totalMultiplier of
               (segment', ok') \<Rightarrow>
                 if \<not> ok' \<or> flt (fsub (Fin MaxFloat64) segment') scaled
                 then Inl (invalid ''base_prices'' ''worst-case token cost is not finite'')
                 else worst_case_total totalMultiplier prices (fadd unscaled segment) (fadd scaled segment')))"

definition validateWorstCaseCost :: "modelPriceSetting \<Rightarrow> compiledRule list \<Rightarrow> pricingError + unit" where
  "validateWorstCaseCost p rules =
     (let modelMultiplier = multiplier_or_one (ps_PriceMultiplier p) in
      if feq modelMultiplier (Fin 0) then Inr ()
      else
        andThen (max_rule_multiplier rule_fields (max_by_field rules (\<lambda>_. Fin 1)) (Fin 1)) (\<lambda>maxRuleMultiplier.
          case safeMultiply modelMultiplier maxRuleMultiplier of
            (totalMultiplier, ok) \<Rightarrow>
              if \<not> ok then Inl (invalid ''model_multiplier'' ''combined model and rule multiplier is not finite'')
              else worst_case_total totalMultiplier
                     [ps_PromptPricePer1M p, ps_CompletionPricePer1M p,
                      ps_CacheReadPricePer1M p, ps_CacheWritePricePer1M p] (Fin 0) (Fin 0)))"


section \<open>Models and rules\<close>

definition compileRule :: "ruleConfig \<Rightarrow> pricingError + ruleConfig \<times> compiledRule" where
  "compileRule input =
     (case ParseRuleField (rc_Key input) of
        Inl err \<Rightarrow> Inl (ValidationError ''key'' ''invalid'' err)
      | Inr field \<Rightarrow>
          let v = TrimSpace (rc_Value input) in
          if v = '''' then Inl (required ''value'' ''rule value is required'')
          else if \<not> isNonNegativeFinite (rc_Multiplier input)
          then Inl (invalid ''multiplier'' ''rule multiplier must be a finite non-negative number'')
          else Inr (\<lparr>rc_Key = RuleField_String field, rc_Value = v, rc_Multiplier = rc_Multiplier input\<rparr>,
                    \<lparr>cr_field = field, cr_value = v, cr_multiplier = rc_Multiplier input\<rparr>))"

text \<open>
  The loop of \<open>compileModelConfig\<close> over the rules: the normalised rules, and the compiled
  ones without those whose multiplier is one. \<open>seen\<close> holds the identities met so far.
\<close>

fun compile_rules ::
  "nat \<Rightarrow> (string \<times> string) list \<Rightarrow> ruleConfig list \<Rightarrow> pricingError + ruleConfig list \<times> compiledRule list" where
  "compile_rules i seen [] = Inr ([], [])"
| "compile_rules i seen (input # rest) =
     andThen (mapError (prefixPricingValidationError (indexed ''conditional_multipliers'' i)) (compileRule input)) (\<lambda>(rule, compiled).
       if (rc_Key rule, rc_Value rule) \<in> set seen
       then Inl (invalid (indexed ''conditional_multipliers'' i @ ''.key'') ''duplicate rule key and value'')
       else
         andThen (compile_rules (Suc i) ((rc_Key rule, rc_Value rule) # seen) rest) (\<lambda>(rules, compiledRules).
           Inr (rule # rules,
                if feq (rc_Multiplier rule) (Fin 1) then compiledRules else compiled # compiledRules)))"

definition compileModelConfig :: "modelConfig \<Rightarrow> pricingError + compiledModel \<times> modelConfig" where
  "compileModelConfig config =
     (let cloned = cloneModelPriceSetting (mc_Pricing config);
          p = cloned\<lparr>ps_Model := TrimSpace (ps_Model cloned)\<rparr>
      in
      if ps_Model p = '''' then Inl (required ''model'' ''model is required'')
      else
        andThen (validatePricingNumbers p) (\<lambda>_.
        andThen (compile_rules 0 [] (mc_Rules config)) (\<lambda>(rules, compiledRules).
        andThen (validateWorstCaseCost p compiledRules) (\<lambda>_.
          Inr (\<lparr>cm_pricing = p, cm_rules = compiledRules, cm_branches = []\<rparr>,
               \<lparr>mc_Pricing = cloneModelPriceSetting p, mc_Rules = rules\<rparr>)))))"

fun compile_models ::
  "nat \<Rightarrow> (string \<rightharpoonup> compiledModel) \<Rightarrow> modelConfig list
    \<Rightarrow> pricingError + (string \<rightharpoonup> compiledModel) \<times> modelConfig list" where
  "compile_models i models [] = Inr (models, [])"
| "compile_models i models (c # cs) =
     andThen (mapError (CompileModelPriceAtIndex i) (compileModelConfig c)) (\<lambda>(compiled, normalized).
       let model = ps_Model (mc_Pricing normalized) in
       if models model \<noteq> None then Inl (DuplicateModelPrice model)
       else
         andThen (compile_models (Suc i) (models(model \<mapsto> compiled)) cs) (\<lambda>(models', normalizeds).
           Inr (models', normalized # normalizeds)))"

definition CompileSnapshot :: "modelConfig list \<Rightarrow> pricingError + 'loc snapshot" where
  "CompileSnapshot configs =
     andThen (compile_models 0 Map.empty configs) (\<lambda>(models, normalizeds).
       Inr \<lparr>sn_modelsByName = models,
            sn_modelConfigs = sort_key (\<lambda>c. ps_Model (mc_Pricing c)) normalizeds,
            sn_pricingConfigs = [], sn_location = None\<rparr>)"


section \<open>Branches\<close>

definition maxSafeContextToken :: int where
  "maxSafeContextToken = 9007199254740991"

definition compileDays :: "string \<Rightarrow> pricingError + 8 word" where
  "compileDays condition =
     (if condition = DaysAll then Inr 0x7f
      else if condition = DaysWeekday then Inr 0x3e
      else if condition = DaysWeekend then Inr 0x41
      else Inl (invalid ''days'' ''days must be all, weekday, or weekend''))"

definition compileContext :: "contextCondition \<Rightarrow> pricingError + tokenInterval" where
  "compileContext c =
     (if cc_Type c = ContextAll then
        if cc_Threshold c \<noteq> None \<or> cc_Min c \<noteq> None \<or> cc_Max c \<noteq> None
        then Inl (invalid ''type'' ''all context does not accept thresholds'')
        else Inr \<lparr>ti_min = 0, ti_max = MaxInt64\<rparr>
      else if cc_Type c = ContextGT \<or> cc_Type c = ContextLTE then
        (let bad = Inl (invalid ''threshold'' ''context requires a non-negative safe threshold'') in
         case cc_Threshold c of
           None \<Rightarrow> bad
         | Some t \<Rightarrow>
             if cc_Min c \<noteq> None \<or> cc_Max c \<noteq> None \<or> t < 0 \<or> maxSafeContextToken < t then bad
             else if cc_Type c = ContextGT then
               if t = maxSafeContextToken
               then Inl (invalid ''threshold'' ''gt threshold plus one must be a safe integer'')
               else Inr \<lparr>ti_min = wrap64 (t + 1), ti_max = MaxInt64\<rparr>
             else Inr \<lparr>ti_min = 0, ti_max = t\<rparr>)
      else if cc_Type c = ContextRange then
        (let path =
               (if cc_Max c = None \<or> (\<exists>mx \<in> set_option (cc_Max c). maxSafeContextToken < mx)
                then ''max'' else ''min'');
             bad = Inl (invalid path ''range context requires ordered non-negative safe min and max'')
         in
         case (cc_Threshold c, cc_Min c, cc_Max c) of
           (None, Some mn, Some mx) \<Rightarrow>
             if mn < 0 \<or> maxSafeContextToken < mx \<or> mx < mn then bad
             else Inr \<lparr>ti_min = mn, ti_max = mx\<rparr>
         | _ \<Rightarrow> bad)
      else Inl (invalid ''type'' ''unknown context type''))"

definition is_digit :: "char \<Rightarrow> bool" where
  "is_digit c \<longleftrightarrow> 48 \<le> (of_char c :: int) \<and> (of_char c :: int) \<le> 57"

definition digit_value :: "char \<Rightarrow> int" where
  "digit_value c = of_char c - 48"

definition parseClockMinute :: "string \<Rightarrow> pricingError + int" where
  "parseClockMinute v =
     (let bad = Inl (invalid '''' ''period time must be HH:mm'') in
      case v of
        [a, b, c, d, e] \<Rightarrow>
          if c \<noteq> CHR '':'' \<or> \<not> is_digit a \<or> \<not> is_digit b \<or> \<not> is_digit d \<or> \<not> is_digit e then bad
          else
            let hour = digit_value a * 10 + digit_value b;
                minute = digit_value d * 10 + digit_value e
            in if 23 < hour \<or> 59 < minute
               then Inl (invalid '''' ''period time is outside the day'')
               else Inr (hour * 60 + minute)
      | _ \<Rightarrow> bad)"

definition compilePeriod :: "periodCondition \<Rightarrow> pricingError + minuteInterval list" where
  "compilePeriod p =
     (if pc_Type p = PeriodAll then
        if pc_Start p \<noteq> None \<or> pc_End p \<noteq> None
        then Inl (invalid ''type'' ''all period does not accept start or end'')
        else Inr [\<lparr>mi_start = 0, mi_end = 1440\<rparr>]
      else if pc_Type p = PeriodWindow then
        (case (pc_Start p, pc_End p) of
           (Some s, Some e) \<Rightarrow>
             andThen (mapError (prefixPricingValidationError ''start'') (parseClockMinute s)) (\<lambda>start.
             andThen (mapError (prefixPricingValidationError ''end'') (parseClockMinute e)) (\<lambda>stop.
               if start = stop then Inl (invalid ''end'' ''window start and end must differ'')
               else if start < stop then Inr [\<lparr>mi_start = start, mi_end = stop\<rparr>]
               else if stop = 0 then Inr [\<lparr>mi_start = start, mi_end = 1440\<rparr>]
               else Inr [\<lparr>mi_start = start, mi_end = 1440\<rparr>, \<lparr>mi_start = 0, mi_end = stop\<rparr>]))
         | _ \<Rightarrow> Inl (required ''start'' ''window period requires start and end''))
      else Inl (invalid ''type'' ''unknown period type''))"

definition clock_minute :: "string option \<Rightarrow> int" where
  "clock_minute v =
     (case v of None \<Rightarrow> 0 | Some s \<Rightarrow> (case parseClockMinute s of Inl _ \<Rightarrow> 0 | Inr m \<Rightarrow> m))"

definition branch_pricing :: "basePrices \<Rightarrow> modelPriceSetting \<Rightarrow> modelPriceSetting" where
  "branch_pricing prices p =
     p\<lparr>ps_PromptPricePer1M := bp_Input prices,
       ps_CompletionPricePer1M := bp_Output prices,
       ps_CacheReadPricePer1M := bp_CacheRead prices,
       ps_CacheWritePricePer1M := bp_CacheWrite prices\<rparr>"

definition compilePriceBranch ::
  "priceBranch \<Rightarrow> modelPriceSetting \<Rightarrow> compiledRule list \<Rightarrow> pricingError + compiledBranch \<times> priceBranch" where
  "compilePriceBranch input modelPricing rules =
     (let n1 = input\<lparr>pb_ID := TrimSpace (pb_ID input), pb_Name := TrimSpace (pb_Name input)\<rparr> in
      if pb_ID n1 = '''' then Inl (required ''id'' ''branch id is required'')
      else if pb_Name n1 = '''' then Inl (required ''name'' ''branch name is required'')
      else
        andThen (mapError (prefixPricingValidationError ''context'') (compileContext (pb_Context n1))) (\<lambda>context.
        andThen (mapError (prefixPricingValidationError ''period'') (compilePeriod (pb_Period n1))) (\<lambda>periods.
        let n2 = (if pb_Days n1 = '''' then n1\<lparr>pb_Days := DaysAll\<rparr> else n1) in
        andThen (compileDays (pb_Days n2)) (\<lambda>days.
        if pb_Days n2 \<noteq> DaysAll \<and> pc_Type (pb_Period n2) = PeriodWindow
           \<and> clock_minute (pc_End (pb_Period n2)) < clock_minute (pc_Start (pb_Period n2))
        then Inl (invalidPricingField ''period.end'' ''cross_day'' ''weekday and weekend windows cannot cross midnight'')
        else
          let p = branch_pricing (pb_Prices n2) modelPricing in
          andThen (mapError branchPricingValidationError (validatePricingNumbers p)) (\<lambda>_.
          andThen (mapError branchPricingValidationError (validateWorstCaseCost p rules)) (\<lambda>_.
            Inr (\<lparr>cb_prices = pb_Prices n2, cb_days = days, cb_context = context, cb_periods = periods,
                  cb_allDay = (pc_Type (pb_Period n2) = PeriodAll)\<rparr>, n2)))))))"

definition intervalsOverlap :: "tokenInterval \<Rightarrow> tokenInterval \<Rightarrow> bool" where
  "intervalsOverlap left right \<longleftrightarrow> ti_min left \<le> ti_max right \<and> ti_min right \<le> ti_max left"

definition periodsOverlap :: "minuteInterval list \<Rightarrow> minuteInterval list \<Rightarrow> bool" where
  "periodsOverlap left right \<longleftrightarrow>
     (\<exists>a \<in> set left. \<exists>b \<in> set right. mi_start a < mi_end b \<and> mi_start b < mi_end a)"

definition branches_conflict :: "compiledBranch \<Rightarrow> compiledBranch \<Rightarrow> bool" where
  "branches_conflict earlier candidate \<longleftrightarrow>
     cb_days earlier AND cb_days candidate \<noteq> 0
     \<and> intervalsOverlap (cb_context earlier) (cb_context candidate)
     \<and> periodsOverlap (cb_periods earlier) (cb_periods candidate)"

text \<open>The index of the first earlier branch that conflicts with the candidate.\<close>

fun first_conflict :: "compiledBranch list \<Rightarrow> compiledBranch \<Rightarrow> nat \<Rightarrow> nat option" where
  "first_conflict [] candidate i = None"
| "first_conflict (e # es) candidate i =
     (if branches_conflict e candidate then Some i else first_conflict es candidate (Suc i))"

definition conflict_paths :: "nat \<Rightarrow> nat \<Rightarrow> string list" where
  "conflict_paths i j =
     [indexed ''branches'' i @ ''.days'', indexed ''branches'' i @ ''.context'', indexed ''branches'' i @ ''.period'',
      indexed ''branches'' j @ ''.days'', indexed ''branches'' j @ ''.context'', indexed ''branches'' j @ ''.period'']"

text \<open>
  The loop over the branches of one model. The accumulators are the compiled and the
  normalised branches so far, in order; their ids are the \<open>seen\<close> set of the code.
\<close>

fun compile_branches ::
  "modelPriceSetting \<Rightarrow> compiledRule list \<Rightarrow> compiledBranch list \<Rightarrow> priceBranch list
    \<Rightarrow> priceBranch list \<Rightarrow> pricingError + compiledBranch list \<times> priceBranch list" where
  "compile_branches p rules compiled normalized [] = Inr (compiled, normalized)"
| "compile_branches p rules compiled normalized (input # rest) =
     andThen (mapError (prefixPricingValidationError (indexed ''branches'' (length compiled)))
       (compilePriceBranch input p rules)) (\<lambda>(candidate, n).
       if pb_ID n \<in> set (map pb_ID normalized)
       then Inl (invalid (indexed ''branches'' (length compiled) @ ''.id'') ''duplicate branch id'')
       else
         case first_conflict compiled candidate 0 of
           Some i \<Rightarrow>
             Inl (BranchConflictError (pb_ID (normalized ! i), pb_ID n) (conflict_paths i (length compiled)))
         | None \<Rightarrow> compile_branches p rules (compiled @ [candidate]) (normalized @ [n]) rest)"

definition legacy_config :: "modelPricingConfig \<Rightarrow> modelConfig" where
  "legacy_config c =
     \<lparr>mc_Pricing =
        \<lparr>ps_Model = mp_Model c, ps_PricingStyle = mp_PricingStyle c,
         ps_PromptPricePer1M = bp_Input (mp_BasePrices c),
         ps_CompletionPricePer1M = bp_Output (mp_BasePrices c),
         ps_CacheReadPricePer1M = bp_CacheRead (mp_BasePrices c),
         ps_CacheWritePricePer1M = bp_CacheWrite (mp_BasePrices c),
         ps_PriceMultiplier = Some (mp_ModelMultiplier c)\<rparr>,
      mc_Rules = (case mp_ConditionalMultipliers c of None \<Rightarrow> [] | Some rs \<Rightarrow> rs)\<rparr>"

fun legacy_configs :: "modelPricingConfig list \<Rightarrow> pricingError + modelConfig list" where
  "legacy_configs [] = Inr []"
| "legacy_configs (c # cs) =
     (if mp_PricingStyle c \<noteq> ModelPricingStyleOpenAI \<and> mp_PricingStyle c \<noteq> ModelPricingStyleClaude
      then Inl (invalid ''pricing_style'' ''pricing_style must be openai or claude'')
      else if mp_ConditionalMultipliers c = None
      then Inl (required ''conditional_multipliers'' ''conditional_multipliers is required'')
      else if mp_Branches c = None then Inl (required ''branches'' ''branches is required'')
      else andThen (legacy_configs cs) (\<lambda>ls. Inr (legacy_config c # ls)))"

text \<open>The index \<open>normalizedModels\<close> of the normalised models by name; names are unique there.\<close>

definition normalized_model :: "modelConfig list \<Rightarrow> string \<Rightarrow> modelConfig option" where
  "normalized_model configs name = find (\<lambda>c. ps_Model (mc_Pricing c) = name) configs"

text \<open>
  One round of the loop of \<open>CompilePricingSnapshot\<close>: the branches of a model are compiled
  and its entry and published configuration are completed.
\<close>

definition complete_model ::
  "modelConfig list \<Rightarrow> (string \<rightharpoonup> compiledModel) \<Rightarrow> modelPricingConfig
    \<Rightarrow> pricingError + (string \<rightharpoonup> compiledModel) \<times> modelPricingConfig" where
  "complete_model configs models c =
     (let name = TrimSpace (mp_Model c) in
      case (models name, normalized_model configs name, mp_Branches c) of
        (Some compiled, Some model, Some inputs) \<Rightarrow>
          andThen (compile_branches (cm_pricing compiled) (cm_rules compiled) [] [] inputs) (\<lambda>(branches, normalized).
            Inr (models(name \<mapsto> compiled\<lparr>cm_branches := branches\<rparr>),
                 \<lparr>mp_Model = name, mp_PricingStyle = ps_PricingStyle (mc_Pricing model),
                  mp_BasePrices = mp_BasePrices c,
                  mp_ModelMultiplier = multiplier_or_one (ps_PriceMultiplier (mc_Pricing model)),
                  mp_ConditionalMultipliers = Some (mc_Rules model), mp_Branches = Some normalized\<rparr>))
      | _ \<Rightarrow> Inl JsonError)"

fun complete_models ::
  "modelConfig list \<Rightarrow> (string \<rightharpoonup> compiledModel) \<Rightarrow> modelPricingConfig list
    \<Rightarrow> pricingError + (string \<rightharpoonup> compiledModel) \<times> modelPricingConfig list" where
  "complete_models configs models [] = Inr (models, [])"
| "complete_models configs models (c # cs) =
     andThen (complete_model configs models c) (\<lambda>(models', published).
     andThen (complete_models configs models' cs) (\<lambda>(models'', rest).
       Inr (models'', published # rest)))"

definition CompilePricingSnapshot ::
  "modelPricingConfig list \<Rightarrow> 'loc option \<Rightarrow> pricingError + 'loc snapshot" where
  "CompilePricingSnapshot configs location =
     (if location = None then Inl TimezoneRequired
      else
        andThen (legacy_configs configs) (\<lambda>legacy.
        andThen (CompileSnapshot legacy) (\<lambda>snapshot.
        andThen (complete_models (sn_modelConfigs snapshot) (sn_modelsByName snapshot) configs) (\<lambda>(models, published).
          Inr (snapshot\<lparr>sn_modelsByName := models, sn_location := location,
                         sn_pricingConfigs := sort_key mp_Model published\<rparr>)))))"

end
