(* ===== verification/Pricing_Resolver.thy ===== *)
theory Pricing_Resolver
  imports Pricing_Compile
begin

text \<open>
  Pricing an event: \<open>src/internal/helper/usage_cost.go\<close>, \<open>src/internal/pricing/resolver.go\<close>,
  \<open>catalog.go\<close> and the \<open>matches\<close> of \<open>complete_snapshot.go\<close>. The wall clock of an instant in a
  time zone, \<open>time.Time.In\<close>, is the parameter \<open>wall\<close>: weekday from 0 for Sunday, hour, minute.
\<close>


section \<open>Token cost\<close>

record usageTokenCostInput =
  ct_InputTokens :: int
  ct_OutputTokens :: int
  ct_CacheReadTokens :: int
  ct_CacheCreationTokens :: int

definition UsageTokenInputRequiresPricing :: "usageTokenCostInput \<Rightarrow> bool" where
  "UsageTokenInputRequiresPricing t \<longleftrightarrow>
     0 < ct_InputTokens t \<or> 0 < ct_OutputTokens t \<or> 0 < ct_CacheReadTokens t \<or> 0 < ct_CacheCreationTokens t"

definition maxInt64 :: "int \<Rightarrow> int \<Rightarrow> int" where
  "maxInt64 v lowest = (if v < lowest then lowest else v)"

definition clampUsageTokenCostInput :: "usageTokenCostInput \<Rightarrow> usageTokenCostInput" where
  "clampUsageTokenCostInput t =
     \<lparr>ct_InputTokens = maxInt64 (ct_InputTokens t) 0,
      ct_OutputTokens = maxInt64 (ct_OutputTokens t) 0,
      ct_CacheReadTokens = maxInt64 (ct_CacheReadTokens t) 0,
      ct_CacheCreationTokens = maxInt64 (ct_CacheCreationTokens t) 0\<rparr>"

definition modelPriceMultiplier :: "modelPriceSetting \<Rightarrow> float64" where
  "modelPriceMultiplier p = (case ps_PriceMultiplier p of None \<Rightarrow> Fin 1 | Some m \<Rightarrow> m)"

text \<open>The input tokens that are neither read from nor written to the cache.\<close>

definition normal_input_tokens :: "usageTokenCostInput \<Rightarrow> int" where
  "normal_input_tokens t =
     (let n1 = wrap64 (ct_InputTokens t - min (ct_InputTokens t) (ct_CacheReadTokens t))
      in wrap64 (n1 - min n1 (ct_CacheCreationTokens t)))"

definition token_cost :: "int \<Rightarrow> float64 \<Rightarrow> float64" where
  "token_cost tokens price = fmul (fdiv (of_int64 tokens) (Fin 1000000)) price"

definition CalculateUsageTokenCost :: "usageTokenCostInput \<Rightarrow> modelPriceSetting \<Rightarrow> float64" where
  "CalculateUsageTokenCost input p =
     (let t = clampUsageTokenCostInput input;
          multiplier = modelPriceMultiplier p
      in
      if feq multiplier (Fin 0) then Fin 0
      else
        let inputCost = token_cost (normal_input_tokens t) (ps_PromptPricePer1M p);
            cacheReadCost = token_cost (ct_CacheReadTokens t) (ps_CacheReadPricePer1M p);
            cacheWriteCost = token_cost (ct_CacheCreationTokens t) (ps_CacheWritePricePer1M p);
            outputCost = token_cost (ct_OutputTokens t) (ps_CompletionPricePer1M p)
        in fmul (fadd (fadd (fadd inputCost cacheReadCost) cacheWriteCost) outputCost) multiplier)"


section \<open>Branch matching\<close>

record 'time costSubject =
  cs_Dimensions :: usageDimensions
  cs_Tokens :: usageTokenCostInput
  cs_Timestamp :: 'time

definition NewCostSubject :: "'time \<Rightarrow> usageDimensions \<Rightarrow> usageTokenCostInput \<Rightarrow> 'time costSubject" where
  "NewCostSubject zero_time dimensions tokens =
     \<lparr>cs_Dimensions = canonicalizeUsageDimensions dimensions, cs_Tokens = tokens, cs_Timestamp = zero_time\<rparr>"

record wallClock =
  wc_Weekday :: nat
  wc_Hour :: int
  wc_Minute :: int

type_synonym ('loc, 'time) wall = "'loc \<Rightarrow> 'time \<Rightarrow> wallClock"

definition compiledBranch_matches ::
  "('loc, 'time) wall \<Rightarrow> compiledBranch \<Rightarrow> 'time costSubject \<Rightarrow> 'loc \<Rightarrow> bool" where
  "compiledBranch_matches wall b subject location =
     (let inputTokens = max (ct_InputTokens (cs_Tokens subject)) 0 in
      if inputTokens < ti_min (cb_context b) \<or> ti_max (cb_context b) < inputTokens then False
      else if cb_days b = 0x7f \<and> cb_allDay b then True
      else
        let local = wall location (cs_Timestamp subject) in
        if cb_days b AND push_bit (wc_Weekday local) 1 = 0 then False
        else if cb_allDay b then True
        else
          let minute = wc_Hour local * 60 + wc_Minute local
          in list_ex (\<lambda>period. mi_start period \<le> minute \<and> minute < mi_end period) (cb_periods b))"


section \<open>Resolver\<close>

record feeResult =
  fr_TotalCostUSD :: float64
  fr_Available :: bool

text \<open>\<open>Resolver.snapshot\<close> is a pointer that may be \<open>nil\<close>.\<close>

type_synonym 'loc resolver = "'loc snapshot option"

definition stripProviderPrefix :: "string \<Rightarrow> string option" where
  "stripProviderPrefix model =
     (case dropWhile (\<lambda>c. c \<noteq> CHR ''/'') model of
        [] \<Rightarrow> None
      | slash # bare \<Rightarrow> if bare = [] then None else Some bare)"

definition matchModel :: "'loc resolver \<Rightarrow> usageDimensions \<Rightarrow> compiledModel option" where
  "matchModel r d =
     (case r of
        None \<Rightarrow> None
      | Some snapshot \<Rightarrow>
          (case sn_modelsByName snapshot (ud_Model d) of
             Some m \<Rightarrow> Some m
           | None \<Rightarrow>
               (case Option.bind (stripProviderPrefix (ud_Model d)) (sn_modelsByName snapshot) of
                  Some m \<Rightarrow> Some m
                | None \<Rightarrow> sn_modelsByName snapshot (ud_ModelAlias d))))"

fun rule_multiplier_from :: "float64 \<Rightarrow> compiledRule list \<Rightarrow> usageDimensions \<Rightarrow> float64" where
  "rule_multiplier_from acc [] d = acc"
| "rule_multiplier_from acc (r # rs) d =
     (if UsageDimensions_Value d (cr_field r) \<noteq> cr_value r then rule_multiplier_from acc rs d
      else if feq (cr_multiplier r) (Fin 0) then Fin 0
      else rule_multiplier_from (fmul acc (cr_multiplier r)) rs d)"

definition matchingRuleMultiplier :: "compiledRule list \<Rightarrow> usageDimensions \<Rightarrow> float64" where
  "matchingRuleMultiplier rules d = rule_multiplier_from (Fin 1) rules d"

definition select_pricing ::
  "('loc, 'time) wall \<Rightarrow> 'loc option \<Rightarrow> compiledModel \<Rightarrow> 'time costSubject \<Rightarrow> modelPriceSetting" where
  "select_pricing wall location model subject =
     (case find (\<lambda>b. compiledBranch_matches wall b subject (the location)) (cm_branches model) of
        None \<Rightarrow> cm_pricing model
      | Some b \<Rightarrow> branch_pricing (cb_prices b) (cm_pricing model))"

definition model_fee ::
  "('loc, 'time) wall \<Rightarrow> 'loc option \<Rightarrow> compiledModel \<Rightarrow> 'time costSubject \<Rightarrow> float64" where
  "model_fee wall location model subject =
     (let total = CalculateUsageTokenCost (cs_Tokens subject) (select_pricing wall location model subject) in
      if ps_PriceMultiplier (cm_pricing model) = None
         \<or> \<not> feq (the (ps_PriceMultiplier (cm_pricing model))) (Fin 0)
      then fmul total (matchingRuleMultiplier (cm_rules model) (cs_Dimensions subject))
      else total)"

definition CalculateFee :: "('loc, 'time) wall \<Rightarrow> 'loc resolver \<Rightarrow> 'time costSubject \<Rightarrow> feeResult" where
  "CalculateFee wall r subject =
     (case matchModel r (cs_Dimensions subject) of
        None \<Rightarrow>
          \<lparr>fr_TotalCostUSD = Fin 0, fr_Available = (\<not> UsageTokenInputRequiresPricing (cs_Tokens subject))\<rparr>
      | Some model \<Rightarrow>
          \<lparr>fr_TotalCostUSD = model_fee wall (Option.bind r sn_location) model subject, fr_Available = True\<rparr>)"

definition priceMultiplierValue :: "float64 option \<Rightarrow> float64" where
  "priceMultiplierValue p = (case p of None \<Rightarrow> Fin 1 | Some m \<Rightarrow> m)"

text \<open>
  The comparison of the rules as multisets through a counting map. Map keys and struct
  comparison use \<open>==\<close>, which is equality on the finite multipliers that compiled rules have.
\<close>

fun count_rules :: "compiledRule list \<Rightarrow> (compiledRule \<Rightarrow> int) \<Rightarrow> compiledRule \<Rightarrow> int" where
  "count_rules [] counts = counts"
| "count_rules (r # rs) counts = count_rules rs (counts(r := counts r + 1))"

fun uncount_rules :: "compiledRule list \<Rightarrow> (compiledRule \<Rightarrow> int) \<Rightarrow> bool" where
  "uncount_rules [] counts = True"
| "uncount_rules (r # rs) counts =
     (let c = counts r - 1 in if c < 0 then False else uncount_rules rs (counts(r := c)))"

definition sameBilling :: "compiledModel \<Rightarrow> compiledModel \<Rightarrow> bool" where
  "sameBilling a b =
     (let pa = cm_pricing a; pb = cm_pricing b in
      if ps_PricingStyle pa \<noteq> ps_PricingStyle pb
         \<or> \<not> feq (ps_PromptPricePer1M pa) (ps_PromptPricePer1M pb)
         \<or> \<not> feq (ps_CompletionPricePer1M pa) (ps_CompletionPricePer1M pb)
         \<or> \<not> feq (ps_CacheReadPricePer1M pa) (ps_CacheReadPricePer1M pb)
         \<or> \<not> feq (ps_CacheWritePricePer1M pa) (ps_CacheWritePricePer1M pb) then False
      else if \<not> feq (priceMultiplierValue (ps_PriceMultiplier pa)) (priceMultiplierValue (ps_PriceMultiplier pb))
      then False
      else if cm_branches a \<noteq> cm_branches b then False
      else if length (cm_rules a) \<noteq> length (cm_rules b) then False
      else uncount_rules (cm_rules b) (count_rules (cm_rules a) (\<lambda>_. 0)))"

definition ResolveModelName :: "'loc resolver \<Rightarrow> usageDimensions \<Rightarrow> string" where
  "ResolveModelName r dimensions =
     (let canonical = ud_Model (canonicalizeUsageDimensions dimensions) in
      case r of
        None \<Rightarrow> canonical
      | Some snapshot \<Rightarrow>
          (case stripProviderPrefix canonical of
             None \<Rightarrow> canonical
           | Some bareName \<Rightarrow>
               (case sn_modelsByName snapshot bareName of
                  None \<Rightarrow> canonical
                | Some bare \<Rightarrow>
                    (case sn_modelsByName snapshot canonical of
                       Some prefixed \<Rightarrow> if sameBilling prefixed bare then bareName else canonical
                     | None \<Rightarrow> bareName))))"

definition PricingStyleForModel :: "'loc snapshot option \<Rightarrow> string \<Rightarrow> string \<Rightarrow> string" where
  "PricingStyleForModel s model mdl_alias =
     (case s of
        None \<Rightarrow> ''''
      | Some snapshot \<Rightarrow>
          (case sn_modelsByName snapshot (canonicalRequiredDimension model) of
             Some c \<Rightarrow> ps_PricingStyle (cm_pricing c)
           | None \<Rightarrow>
               (case sn_modelsByName snapshot (TrimSpace mdl_alias) of
                  Some c \<Rightarrow> ps_PricingStyle (cm_pricing c)
                | None \<Rightarrow> '''')))"

text \<open>Deep copies are the values themselves.\<close>

definition PricingModelConfigs :: "'loc snapshot option \<Rightarrow> modelPricingConfig list" where
  "PricingModelConfigs s = (case s of None \<Rightarrow> [] | Some snapshot \<Rightarrow> sn_pricingConfigs snapshot)"

definition PricingModelConfig :: "'loc snapshot option \<Rightarrow> string \<Rightarrow> modelPricingConfig option" where
  "PricingModelConfig s model =
     (case s of
        None \<Rightarrow> None
      | Some snapshot \<Rightarrow> find (\<lambda>c. mp_Model c = TrimSpace model) (sn_pricingConfigs snapshot))"


section \<open>Catalog\<close>

definition EmptySnapshot :: "'loc snapshot" where
  "EmptySnapshot =
     \<lparr>sn_modelsByName = Map.empty, sn_modelConfigs = [], sn_pricingConfigs = [], sn_location = None\<rparr>"

text \<open>The catalog is one atomic pointer; a \<open>nil\<close> catalog is \<open>None\<close> outside.\<close>

record 'loc catalog =
  cat_current :: "'loc snapshot option"

definition Catalog_Replace :: "'loc catalog option \<Rightarrow> 'loc snapshot option \<Rightarrow> 'loc catalog option" where
  "Catalog_Replace c s =
     (case c of
        None \<Rightarrow> None
      | Some cat \<Rightarrow> Some (cat\<lparr>cat_current := Some (case s of None \<Rightarrow> EmptySnapshot | Some x \<Rightarrow> x)\<rparr>))"

definition NewCatalog :: "'loc snapshot option \<Rightarrow> 'loc catalog option" where
  "NewCatalog s = Catalog_Replace (Some \<lparr>cat_current = None\<rparr>) s"

definition Catalog_Snapshot :: "'loc catalog option \<Rightarrow> 'loc snapshot" where
  "Catalog_Snapshot c =
     (case c of
        None \<Rightarrow> EmptySnapshot
      | Some cat \<Rightarrow> (case cat_current cat of None \<Rightarrow> EmptySnapshot | Some s \<Rightarrow> s))"

definition NewResolver :: "'loc catalog option \<Rightarrow> 'loc resolver" where
  "NewResolver c = Some (Catalog_Snapshot c)"

end
