(* ===== verification/Pricing_Branches.thy ===== *)
theory Pricing_Branches
  imports Pricing_Resolver
begin

text \<open>
  What the conditional price branches of a model mean, and that the compiled form
  (\<open>complete_snapshot.go\<close>) implements it: the meaning of a branch is stated on the
  configuration the operator wrote, in words of token counts, weekdays and clock times;
  the compiled branch is an interval, a bit set of weekdays and minute intervals.
\<close>


section \<open>Meaning of a branch\<close>

definition context_holds :: "contextCondition \<Rightarrow> int \<Rightarrow> bool" where
  "context_holds c tokens =
     (if cc_Type c = ContextGT then the (cc_Threshold c) < tokens
      else if cc_Type c = ContextLTE then tokens \<le> the (cc_Threshold c)
      else if cc_Type c = ContextRange then the (cc_Min c) \<le> tokens \<and> tokens \<le> the (cc_Max c)
      else True)"

definition days_hold :: "string \<Rightarrow> nat \<Rightarrow> bool" where
  "days_hold days weekday =
     (if days = DaysWeekday then 1 \<le> weekday \<and> weekday \<le> 5
      else if days = DaysWeekend then weekday = 0 \<or> weekday = 6
      else True)"

text \<open>A window that ends before it starts runs over midnight.\<close>

definition period_holds :: "periodCondition \<Rightarrow> int \<Rightarrow> bool" where
  "period_holds p minute =
     (if pc_Type p = PeriodWindow
      then let start = clock_minute (pc_Start p); stop = clock_minute (pc_End p)
           in if start < stop then start \<le> minute \<and> minute < stop else start \<le> minute \<or> minute < stop
      else True)"

definition branch_holds :: "priceBranch \<Rightarrow> int \<Rightarrow> wallClock \<Rightarrow> bool" where
  "branch_holds b tokens clock \<longleftrightarrow>
     context_holds (pb_Context b) tokens \<and> days_hold (pb_Days b) (wc_Weekday clock)
     \<and> period_holds (pb_Period b) (wc_Hour clock * 60 + wc_Minute clock)"

definition valid_clock :: "wallClock \<Rightarrow> bool" where
  "valid_clock c \<longleftrightarrow>
     wc_Weekday c \<le> 6 \<and> 0 \<le> wc_Hour c \<and> wc_Hour c \<le> 23 \<and> 0 \<le> wc_Minute c \<and> wc_Minute c \<le> 59"


section \<open>Compiled branches\<close>

text \<open>The events a compiled branch covers, and the shape the compiler gives it.\<close>

definition in_context :: "tokenInterval \<Rightarrow> int \<Rightarrow> bool" where
  "in_context i tokens \<longleftrightarrow> ti_min i \<le> tokens \<and> tokens \<le> ti_max i"

definition in_periods :: "minuteInterval list \<Rightarrow> int \<Rightarrow> bool" where
  "in_periods ps minute \<longleftrightarrow> (\<exists>p \<in> set ps. mi_start p \<le> minute \<and> minute < mi_end p)"

definition on_day :: "8 word \<Rightarrow> nat \<Rightarrow> bool" where
  "on_day days weekday \<longleftrightarrow> days AND push_bit weekday 1 \<noteq> 0"

definition covers :: "compiledBranch \<Rightarrow> int \<Rightarrow> nat \<Rightarrow> int \<Rightarrow> bool" where
  "covers b tokens weekday minute \<longleftrightarrow>
     in_context (cb_context b) tokens \<and> on_day (cb_days b) weekday \<and> in_periods (cb_periods b) minute"

definition period_wf :: "minuteInterval \<Rightarrow> bool" where
  "period_wf p \<longleftrightarrow> 0 \<le> mi_start p \<and> mi_start p < mi_end p \<and> mi_end p \<le> 1440"

definition branch_wf :: "compiledBranch \<Rightarrow> bool" where
  "branch_wf b \<longleftrightarrow>
     0 \<le> ti_min (cb_context b) \<and> ti_min (cb_context b) \<le> ti_max (cb_context b)
     \<and> ti_max (cb_context b) \<le> MaxInt64
     \<and> cb_days b \<in> {0x7f, 0x3e, 0x41}
     \<and> list_all period_wf (cb_periods b)
     \<and> (cb_allDay b \<longrightarrow> cb_periods b = [\<lparr>mi_start = 0, mi_end = 1440\<rparr>])"

lemma clock_char_value: "is_digit c \<Longrightarrow> 0 \<le> digit_value c \<and> digit_value c \<le> 9"
  by (simp add: is_digit_def digit_value_def)

lemma parseClockMinute_range:
  assumes "parseClockMinute v = Inr m"
  shows "0 \<le> m \<and> m < 1440"
proof -
  from assms obtain a b c d e where v: "v = [a, b, c, d, e]"
    by (auto simp: parseClockMinute_def Let_def split: list.splits if_splits)
  from assms show ?thesis
    using clock_char_value [of a] clock_char_value [of b] clock_char_value [of d] clock_char_value [of e]
    by (auto simp: v parseClockMinute_def Let_def split: if_splits)
qed

lemma mapError_eq_Inr [simp]: "mapError f r = Inr x \<longleftrightarrow> r = Inr x"
  by (cases r) auto

lemma clock_minute_parsed: "parseClockMinute s = Inr m \<Longrightarrow> clock_minute (Some s) = m"
  by (simp add: clock_minute_def)

lemma compileContext_sound:
  assumes "compileContext c = Inr i"
  shows "0 \<le> ti_min i \<and> ti_min i \<le> ti_max i \<and> ti_max i \<le> MaxInt64"
    and "0 \<le> tokens \<Longrightarrow> tokens \<le> MaxInt64 \<Longrightarrow> in_context i tokens \<longleftrightarrow> context_holds c tokens"
  using assms
  by (auto simp: compileContext_def context_holds_def in_context_def Let_def condition_names
      maxSafeContextToken_def int64_bounds wrap64_def split: if_splits option.splits)

lemma compilePeriod_cases [consumes 1, case_names all window]:
  assumes "compilePeriod p = Inr ps"
  obtains "pc_Type p = PeriodAll" "ps = [\<lparr>mi_start = 0, mi_end = 1440\<rparr>]"
  | start stop where "pc_Type p = PeriodWindow"
      "clock_minute (pc_Start p) = start" "clock_minute (pc_End p) = stop"
      "0 \<le> start" "start < 1440" "0 \<le> stop" "stop < 1440" "start \<noteq> stop"
      "ps = (if start < stop then [\<lparr>mi_start = start, mi_end = stop\<rparr>]
             else if stop = 0 then [\<lparr>mi_start = start, mi_end = 1440\<rparr>]
             else [\<lparr>mi_start = start, mi_end = 1440\<rparr>, \<lparr>mi_start = 0, mi_end = stop\<rparr>])"
proof (cases "pc_Type p = PeriodAll")
  case True
  with assms that(1) show ?thesis by (auto simp: compilePeriod_def split: if_splits)
next
  case False
  with assms obtain s e start stop where w: "pc_Type p = PeriodWindow" "pc_Start p = Some s" "pc_End p = Some e"
      and parsed: "parseClockMinute s = Inr start" "parseClockMinute e = Inr stop"
    by (auto simp: compilePeriod_def andThen_eq_Inr split: if_splits option.splits)
  from assms False w parsed show ?thesis
    using parseClockMinute_range [OF parsed(1)] parseClockMinute_range [OF parsed(2)]
    by (intro that(2) [of start stop]) (auto simp: compilePeriod_def clock_minute_parsed split: if_splits)
qed

lemma compilePeriod_sound:
  assumes "compilePeriod p = Inr ps"
  shows "list_all period_wf ps"
    and "0 \<le> minute \<Longrightarrow> minute < 1440 \<Longrightarrow> in_periods ps minute \<longleftrightarrow> period_holds p minute"
    and "pc_Type p = PeriodAll \<Longrightarrow> ps = [\<lparr>mi_start = 0, mi_end = 1440\<rparr>]"
  using assms
  by (cases rule: compilePeriod_cases;
      force simp: period_wf_def in_periods_def period_holds_def PeriodAll_def PeriodWindow_def Let_def)+

lemma weekday_cases: "n \<le> 6 \<Longrightarrow> n = 0 \<or> n = 1 \<or> n = 2 \<or> n = 3 \<or> n = 4 \<or> n = 5 \<or> n = (6 :: nat)"
  by auto

lemma compileDays_sound:
  assumes "compileDays d = Inr w"
  shows "w \<in> {0x7f, 0x3e, 0x41}"
    and "weekday \<le> 6 \<Longrightarrow> on_day w weekday \<longleftrightarrow> days_hold d weekday"
    and "w = 0x7f \<longleftrightarrow> d = DaysAll"
  using assms
  by (auto simp: compileDays_def on_day_def days_hold_def condition_names
      dest!: weekday_cases split: if_splits)

text \<open>What a successful \<open>compilePriceBranch\<close> has checked and produced.\<close>

lemma compilePriceBranch_parts:
  assumes "compilePriceBranch input p rules = Inr (b, n)"
  shows "compileContext (pb_Context n) = Inr (cb_context b)"
    and "compilePeriod (pb_Period n) = Inr (cb_periods b)"
    and "compileDays (pb_Days n) = Inr (cb_days b)"
    and "cb_allDay b \<longleftrightarrow> pc_Type (pb_Period n) = PeriodAll"
    and "cb_prices b = pb_Prices n"
    and "pb_Prices n = pb_Prices input"
    and "pb_ID n = TrimSpace (pb_ID input)" and "pb_ID n \<noteq> ''''"
    and "validatePricingNumbers (branch_pricing (pb_Prices n) p) = Inr ()"
    and "validateWorstCaseCost (branch_pricing (pb_Prices n) p) rules = Inr ()"
  using assms
  by (auto simp: compilePriceBranch_def Let_def andThen_eq_Inr split: if_splits)

lemma compilePriceBranch_wf:
  assumes "compilePriceBranch input p rules = Inr (b, n)"
  shows "branch_wf b"
proof -
  note parts = compilePriceBranch_parts [OF assms]
  show ?thesis
    using compileContext_sound(1) [OF parts(1)] compileDays_sound(1) [OF parts(3)]
      compilePeriod_sound(1,3) [OF parts(2)] parts(4)
    by (simp add: branch_wf_def)
qed

lemma on_day_all: "weekday \<le> 6 \<Longrightarrow> on_day 0x7f weekday"
  using compileDays_sound(2) [of DaysAll "0x7f" weekday]
  by (simp add: compileDays_def days_hold_def condition_names)

lemma matches_covers:
  assumes "branch_wf b" and "valid_clock (wall location (cs_Timestamp subject))"
  shows "compiledBranch_matches wall b subject location \<longleftrightarrow>
    covers b (max (ct_InputTokens (cs_Tokens subject)) 0)
      (wc_Weekday (wall location (cs_Timestamp subject)))
      (wc_Hour (wall location (cs_Timestamp subject)) * 60 + wc_Minute (wall location (cs_Timestamp subject)))"
  using assms on_day_all
  by (auto simp: compiledBranch_matches_def covers_def in_context_def in_periods_def branch_wf_def on_day_def
      valid_clock_def list_ex_iff Let_def)

lemma common_weekday:
  assumes "d \<in> {0x7f, 0x3e, 0x41}" and "e \<in> {0x7f, 0x3e, 0x41 :: 8 word}"
  shows "d AND e \<noteq> 0 \<longleftrightarrow> (\<exists>w \<le> 6. on_day d w \<and> on_day e w)"
proof -
  have "on_day 0x7f 1" "on_day 0x3e 1" "on_day 0x7f 0" "on_day 0x41 0"
    by (simp_all add: on_day_def)
  moreover have "\<not> (on_day 0x3e w \<and> on_day 0x41 w)" if "w \<le> 6" for w
    using weekday_cases [OF that] by (auto simp: on_day_def)
  ultimately show ?thesis using assms
    by (auto intro: exI [of _ 0] exI [of _ 1])
qed

lemma common_tokens:
  assumes "0 \<le> ti_min a" "ti_min a \<le> ti_max a" "0 \<le> ti_min b" "ti_min b \<le> ti_max b"
    "ti_max a \<le> MaxInt64" "ti_max b \<le> MaxInt64"
  shows "intervalsOverlap a b \<longleftrightarrow> (\<exists>t. is_count t \<and> in_context a t \<and> in_context b t)"
proof
  assume "intervalsOverlap a b"
  with assms have "is_count (max (ti_min a) (ti_min b)) \<and> in_context a (max (ti_min a) (ti_min b))
    \<and> in_context b (max (ti_min a) (ti_min b))"
    by (auto simp: intervalsOverlap_def in_context_def is_count_def)
  then show "\<exists>t. is_count t \<and> in_context a t \<and> in_context b t" by blast
qed (auto simp: intervalsOverlap_def in_context_def)

lemma common_minute:
  assumes "list_all period_wf as" and "list_all period_wf bs"
  shows "periodsOverlap as bs \<longleftrightarrow> (\<exists>m. 0 \<le> m \<and> m < 1440 \<and> in_periods as m \<and> in_periods bs m)"
proof
  assume "periodsOverlap as bs"
  then obtain a b where ab: "a \<in> set as" "b \<in> set bs" "mi_start a < mi_end b" "mi_start b < mi_end a"
    by (auto simp: periodsOverlap_def)
  moreover from ab assms have "period_wf a" "period_wf b" by (auto simp: list_all_iff)
  ultimately show "\<exists>m. 0 \<le> m \<and> m < 1440 \<and> in_periods as m \<and> in_periods bs m"
    unfolding in_periods_def period_wf_def
    by (intro exI [of _ "max (mi_start a) (mi_start b)"]) force
qed (force simp: periodsOverlap_def in_periods_def)

text \<open>The conflict test is exact: two branches conflict when some event would match both.\<close>

lemma branches_conflict_iff:
  assumes "branch_wf a" and "branch_wf b"
  shows "branches_conflict a b \<longleftrightarrow>
    (\<exists>t w m. is_count t \<and> w \<le> 6 \<and> 0 \<le> m \<and> m < 1440 \<and> covers a t w m \<and> covers b t w m)"
proof -
  from assms have "cb_days a AND cb_days b \<noteq> 0 \<longleftrightarrow> (\<exists>w \<le> 6. on_day (cb_days a) w \<and> on_day (cb_days b) w)"
    by (intro common_weekday) (simp_all add: branch_wf_def)
  moreover from assms have "intervalsOverlap (cb_context a) (cb_context b)
      \<longleftrightarrow> (\<exists>t. is_count t \<and> in_context (cb_context a) t \<and> in_context (cb_context b) t)"
    by (intro common_tokens) (simp_all add: branch_wf_def)
  moreover from assms have "periodsOverlap (cb_periods a) (cb_periods b)
      \<longleftrightarrow> (\<exists>m. 0 \<le> m \<and> m < 1440 \<and> in_periods (cb_periods a) m \<and> in_periods (cb_periods b) m)"
    by (intro common_minute) (simp_all add: branch_wf_def)
  ultimately show ?thesis unfolding branches_conflict_def covers_def by blast
qed

lemma branch_holds_covers:
  assumes "compilePriceBranch input p rules = Inr (b, n)" and "valid_clock clock" and "is_count tokens"
  shows "branch_holds n tokens clock \<longleftrightarrow>
    covers b tokens (wc_Weekday clock) (wc_Hour clock * 60 + wc_Minute clock)"
proof -
  note parts = compilePriceBranch_parts [OF assms(1)]
  show ?thesis
    using assms(2,3) compileContext_sound(2) [OF parts(1)] compilePeriod_sound(2) [OF parts(2)]
      compileDays_sound(2) [OF parts(3)]
    by (simp add: branch_holds_def covers_def valid_clock_def is_count_def)
qed

text \<open>Every weekday and minute of the day is the wall clock of some moment.\<close>

lemma clock_of_minute:
  assumes "w \<le> 6" and "0 \<le> m" and "m < 1440"
  obtains clock where "valid_clock clock" "wc_Weekday clock = w" "wc_Hour clock * 60 + wc_Minute clock = m"
proof (rule that)
  let ?clock = "\<lparr>wc_Weekday = w, wc_Hour = m div 60, wc_Minute = m mod 60\<rparr>"
  from assms(2,3) have "0 \<le> m div 60" "m div 60 \<le> 23" "m mod 60 \<le> 59" by presburger+
  with assms(1) show "valid_clock ?clock" by (simp add: valid_clock_def)
qed simp_all

lemma conflict_iff_common_event:
  assumes "compilePriceBranch i1 p rules = Inr (b1, n1)" and "compilePriceBranch i2 p rules = Inr (b2, n2)"
  shows "branches_conflict b1 b2 \<longleftrightarrow>
    (\<exists>t clock. is_count t \<and> valid_clock clock \<and> branch_holds n1 t clock \<and> branch_holds n2 t clock)"
    (is "_ \<longleftrightarrow> ?event")
proof -
  note wf = compilePriceBranch_wf [OF assms(1)] compilePriceBranch_wf [OF assms(2)]
  note holds = branch_holds_covers [OF assms(1)] branch_holds_covers [OF assms(2)]
  show ?thesis
  proof
    assume "branches_conflict b1 b2"
    then obtain t w m where e: "is_count t" "w \<le> 6" "0 \<le> m" "m < 1440" "covers b1 t w m" "covers b2 t w m"
      using branches_conflict_iff [OF wf] by blast
    then obtain clock where "valid_clock clock" "wc_Weekday clock = w" "wc_Hour clock * 60 + wc_Minute clock = m"
      using clock_of_minute by blast
    with e holds show ?event by blast
  next
    assume ?event
    then obtain t clock where "is_count t" "valid_clock clock" "branch_holds n1 t clock" "branch_holds n2 t clock"
      by blast
    moreover from this holds have
      "covers b1 t (wc_Weekday clock) (wc_Hour clock * 60 + wc_Minute clock)"
      "covers b2 t (wc_Weekday clock) (wc_Hour clock * 60 + wc_Minute clock)" by blast+
    ultimately show "branches_conflict b1 b2"
      unfolding branches_conflict_iff [OF wf]
      by (intro exI [of _ t] exI [of _ "wc_Weekday clock"] exI [of _ "wc_Hour clock * 60 + wc_Minute clock"])
        (auto simp: valid_clock_def)
  qed
qed


section \<open>The branches of a model\<close>

definition exclusive :: "compiledBranch list \<Rightarrow> bool" where
  "exclusive bs \<longleftrightarrow> sorted_wrt (\<lambda>a b. \<not> branches_conflict a b) bs"

definition compiled_from :: "modelPriceSetting \<Rightarrow> compiledRule list \<Rightarrow> compiledBranch \<Rightarrow> priceBranch \<Rightarrow> bool" where
  "compiled_from p rules b n \<longleftrightarrow> (\<exists>input. compilePriceBranch input p rules = Inr (b, n))"

lemma first_conflict_None: "first_conflict bs c i = None \<longleftrightarrow> (\<forall>b \<in> set bs. \<not> branches_conflict b c)"
  by (induction bs arbitrary: i) auto

lemma compile_branches_invariant:
  assumes "compile_branches p rules cs ns inputs = Inr (cs', ns')"
    and "exclusive cs" and "list_all2 (compiled_from p rules) cs ns" and "distinct (map pb_ID ns)"
  shows "exclusive cs' \<and> list_all2 (compiled_from p rules) cs' ns' \<and> distinct (map pb_ID ns')"
  using assms
proof (induction inputs arbitrary: cs ns)
  case (Cons input rest)
  from Cons.prems(1) obtain b n where c: "compilePriceBranch input p rules = Inr (b, n)"
    and fresh: "pb_ID n \<notin> set (map pb_ID ns)" and free: "first_conflict cs b 0 = None"
    and rest: "compile_branches p rules (cs @ [b]) (ns @ [n]) rest = Inr (cs', ns')"
    by (auto simp: andThen_eq_Inr split: if_splits option.splits)
  have "exclusive (cs @ [b])"
    using Cons.prems(2) free by (simp add: exclusive_def sorted_wrt_append first_conflict_None)
  moreover have "list_all2 (compiled_from p rules) (cs @ [b]) (ns @ [n])"
    using Cons.prems(3) c
    by (intro list_all2_appendI) (auto simp: compiled_from_def [of p rules b n])
  moreover have "distinct (map pb_ID (ns @ [n]))" using Cons.prems(4) fresh by simp
  ultimately show ?case using Cons.IH [OF rest] by blast
qed simp

lemma compile_branches_accepts:
  assumes "list_all2 (\<lambda>input bn. compilePriceBranch input p rules = Inr bn) inputs bns"
    and "distinct (map pb_ID (ns @ map snd bns))" and "exclusive cs"
  shows "(\<exists>r. compile_branches p rules cs ns inputs = Inr r) \<longleftrightarrow> exclusive (cs @ map fst bns)"
  using assms
proof (induction inputs bns arbitrary: cs ns rule: list_all2_induct)
  case (Cons input inputs bn bns)
  obtain b n where bn: "bn = (b, n)" by fastforce
  show ?case
  proof (cases "first_conflict cs b 0")
    case None
    then have ex: "exclusive (cs @ [b])"
      using Cons.prems(2) by (simp add: exclusive_def sorted_wrt_append first_conflict_None)
    have "distinct (map pb_ID ((ns @ [n]) @ map snd bns))" using Cons.prems(1) by (simp add: bn)
    from Cons.IH [OF this ex] Cons.hyps(1) Cons.prems(1) None show ?thesis by (simp add: bn)
  next
    case (Some i)
    then have "\<not> (\<forall>c \<in> set cs. \<not> branches_conflict c b)" using first_conflict_None [of cs b 0] by simp
    then have "\<not> exclusive (cs @ map fst (bn # bns))"
      by (auto simp: bn exclusive_def sorted_wrt_append)
    with Cons.hyps(1) Cons.prems(1) Some show ?thesis by (simp add: bn)
  qed
qed simp

lemma exclusive_unique:
  assumes "exclusive bs" and "list_all branch_wf bs"
    and "b \<in> set bs" and "b' \<in> set bs"
    and "is_count t" and "w \<le> 6" and "0 \<le> m" and "m < 1440"
    and "covers b t w m" and "covers b' t w m"
  shows "b = b'"
proof (rule ccontr)
  assume "b \<noteq> b'"
  with assms(3,4) obtain i j where "i < length bs" "j < length bs" "i \<noteq> j" "bs ! i = b" "bs ! j = b'"
    by (metis in_set_conv_nth)
  then have "\<not> branches_conflict b b' \<or> \<not> branches_conflict b' b"
    using assms(1) by (metis exclusive_def linorder_neqE_nat sorted_wrt_iff_nth_less)
  moreover have "branch_wf b" "branch_wf b'" using assms(2-4) by (simp_all add: list_all_iff)
  ultimately show False using assms(5-) branches_conflict_iff by blast
qed

end
