(* ===== verification/Pricing_Wire.thy ===== *)
theory Pricing_Wire
  imports Pricing_Contract
begin

text \<open>
  What \<open>json.Marshal\<close> writes for the structs of the price contract (their tags, with
  \<open>omitempty\<close>), and the round trip through the decoders of \<open>Pricing_Contract\<close>. How a
  \<open>float64\<close> is printed is a parameter: the only thing relied on is that the literal is read
  back as the same value, which \<open>strconv\<close> documents.
\<close>


section \<open>Encoding\<close>

definition basePrices_json :: "(float64 \<Rightarrow> json) \<Rightarrow> basePrices \<Rightarrow> json" where
  "basePrices_json lit p =
     JObj [(''input'', lit (bp_Input p)), (''output'', lit (bp_Output p)),
           (''cache_read'', lit (bp_CacheRead p)), (''cache_write'', lit (bp_CacheWrite p))]"

definition ruleConfig_json :: "(float64 \<Rightarrow> json) \<Rightarrow> ruleConfig \<Rightarrow> json" where
  "ruleConfig_json lit r =
     JObj [(''key'', JStr (rc_Key r)), (''value'', JStr (rc_Value r)),
           (''multiplier'', lit (rc_Multiplier r))]"

definition omit_nil :: "string \<Rightarrow> ('a \<Rightarrow> json) \<Rightarrow> 'a option \<Rightarrow> (string \<times> json) list" where
  "omit_nil name enc p = (case p of None \<Rightarrow> [] | Some x \<Rightarrow> [(name, enc x)])"

definition contextCondition_json :: "contextCondition \<Rightarrow> json" where
  "contextCondition_json c =
     JObj ([(''type'', JStr (cc_Type c))] @ omit_nil ''threshold'' JInt (cc_Threshold c)
           @ omit_nil ''min'' JInt (cc_Min c) @ omit_nil ''max'' JInt (cc_Max c))"

definition periodCondition_json :: "periodCondition \<Rightarrow> json" where
  "periodCondition_json p =
     JObj ([(''type'', JStr (pc_Type p))] @ omit_nil ''start'' JStr (pc_Start p)
           @ omit_nil ''end'' JStr (pc_End p))"

definition priceBranch_json :: "(float64 \<Rightarrow> json) \<Rightarrow> priceBranch \<Rightarrow> json" where
  "priceBranch_json lit b =
     JObj ([(''id'', JStr (pb_ID b)), (''name'', JStr (pb_Name b))]
           @ (if pb_Days b = '''' then [] else [(''days'', JStr (pb_Days b))])
           @ [(''context'', contextCondition_json (pb_Context b)),
              (''period'', periodCondition_json (pb_Period b)),
              (''prices'', basePrices_json lit (pb_Prices b))])"

definition slice_json :: "('a \<Rightarrow> json) \<Rightarrow> 'a list option \<Rightarrow> json" where
  "slice_json enc xs = (case xs of None \<Rightarrow> JNull | Some ys \<Rightarrow> JArr (map enc ys))"

definition modelPricingConfig_json :: "(float64 \<Rightarrow> json) \<Rightarrow> modelPricingConfig \<Rightarrow> json" where
  "modelPricingConfig_json lit c =
     JObj [(''model'', JStr (mp_Model c)), (''pricing_style'', JStr (mp_PricingStyle c)),
           (''base_prices'', basePrices_json lit (mp_BasePrices c)),
           (''model_multiplier'', lit (mp_ModelMultiplier c)),
           (''conditional_multipliers'', slice_json (ruleConfig_json lit) (mp_ConditionalMultipliers c)),
           (''branches'', slice_json (priceBranch_json lit) (mp_Branches c))]"


section \<open>Configurations that a save can store\<close>

fun finite_number :: "float64 \<Rightarrow> bool" where
  "finite_number (Fin v) = representable v"
| "finite_number _ = False"

definition prices_finite :: "basePrices \<Rightarrow> bool" where
  "prices_finite p \<longleftrightarrow>
     finite_number (bp_Input p) \<and> finite_number (bp_Output p)
     \<and> finite_number (bp_CacheRead p) \<and> finite_number (bp_CacheWrite p)"

definition rule_finite :: "ruleConfig \<Rightarrow> bool" where
  "rule_finite r \<longleftrightarrow> finite_number (rc_Multiplier r)"

definition context_shape :: "contextCondition \<Rightarrow> bool" where
  "context_shape c \<longleftrightarrow>
     pred_option is_int64 (cc_Threshold c) \<and> pred_option is_int64 (cc_Min c)
     \<and> pred_option is_int64 (cc_Max c)
     \<and> (cc_Type c = ContextAll \<and> cc_Threshold c = None \<and> cc_Min c = None \<and> cc_Max c = None
        \<or> cc_Type c \<in> {ContextGT, ContextLTE} \<and> cc_Threshold c \<noteq> None \<and> cc_Min c = None \<and> cc_Max c = None
        \<or> cc_Type c = ContextRange \<and> cc_Threshold c = None \<and> cc_Min c \<noteq> None \<and> cc_Max c \<noteq> None)"

definition period_shape :: "periodCondition \<Rightarrow> bool" where
  "period_shape p \<longleftrightarrow>
     pc_Type p = PeriodAll \<and> pc_Start p = None \<and> pc_End p = None
     \<or> pc_Type p = PeriodWindow \<and> pc_Start p \<noteq> None \<and> pc_End p \<noteq> None"

definition branch_shape :: "priceBranch \<Rightarrow> bool" where
  "branch_shape b \<longleftrightarrow>
     pb_Days b \<noteq> '''' \<and> context_shape (pb_Context b) \<and> period_shape (pb_Period b)
     \<and> prices_finite (pb_Prices b)"

definition config_shape :: "modelPricingConfig \<Rightarrow> bool" where
  "config_shape c \<longleftrightarrow>
     prices_finite (mp_BasePrices c) \<and> finite_number (mp_ModelMultiplier c)
     \<and> (\<exists>rs. mp_ConditionalMultipliers c = Some rs \<and> list_all rule_finite rs)
     \<and> (\<exists>bs. mp_Branches c = Some bs \<and> list_all branch_shape bs)"


section \<open>Round trip\<close>

text \<open>An encoder and a decoder that reads it back, on the values that satisfy \<open>ok\<close>.\<close>

locale json_codec =
  fixes enc :: "'a \<Rightarrow> json"
    and dec :: "json \<Rightarrow> pricingError + 'a"
    and ok :: "'a \<Rightarrow> bool"
  assumes dec_enc: "ok x \<Longrightarrow> dec (enc x) = Inr x"
begin

lemma decode_elements_map:
  "list_all ok xs \<Longrightarrow> decode_elements name dec i (map enc xs) = Inr xs"
  by (induction xs arbitrary: i) (simp_all add: dec_enc)

end

interpretation context_codec: json_codec contextCondition_json contextCondition_UnmarshalJSON context_shape
  by unfold_locales
    (auto simp: context_shape_def contextCondition_json_def contextCondition_UnmarshalJSON_def
      present_fields_def decodePricingObject_def all_known_def struct_field_def occurrences_def
      ptr_field_def contextCondition_fields_def hasPricingField_def omit_nil_def condition_names Let_def)

interpretation period_codec: json_codec periodCondition_json periodCondition_UnmarshalJSON period_shape
  by unfold_locales
    (auto simp: period_shape_def periodCondition_json_def periodCondition_UnmarshalJSON_def
      present_fields_def decodePricingObject_def all_known_def struct_field_def occurrences_def
      ptr_field_def periodCondition_fields_def hasPricingField_def omit_nil_def condition_names Let_def)

text \<open>A printer of numbers whose literals are read back as the same value.\<close>

locale float_literal =
  fixes lit :: "float64 \<Rightarrow> json"
  assumes read_back: "finite_number x \<Longrightarrow> as_float64 (lit x) = Some x"
begin

lemma lit_not_null: "finite_number x \<Longrightarrow> lit x \<noteq> JNull"
  using read_back [of x] by auto

lemma basePrices_roundtrip:
  "prices_finite p \<Longrightarrow> basePrices_UnmarshalJSON (basePrices_json lit p) = Inr p"
  by (simp add: prices_finite_def basePrices_json_def basePrices_UnmarshalJSON_def
      decodePricingObject_def all_known_def struct_field_def occurrences_def ptr_field_def
      basePrices_fields_def read_back lit_not_null)

lemma ruleConfig_roundtrip:
  "rule_finite r \<Longrightarrow> ruleConfig_UnmarshalJSON (ruleConfig_json lit r) = Inr r"
  by (simp add: rule_finite_def ruleConfig_json_def ruleConfig_UnmarshalJSON_def
      decodePricingObject_def all_known_def struct_field_def occurrences_def ptr_field_def
      ruleConfig_fields_def read_back lit_not_null)

end

sublocale float_literal \<subseteq> price_codec: json_codec "basePrices_json lit" basePrices_UnmarshalJSON prices_finite
  by unfold_locales (rule basePrices_roundtrip)

sublocale float_literal \<subseteq> rule_codec: json_codec "ruleConfig_json lit" ruleConfig_UnmarshalJSON rule_finite
  by unfold_locales (rule ruleConfig_roundtrip)

lemmas field_decoding =
  decodePricingObject_def all_known_def struct_field_def occurrences_def ptr_field_def
  raw_field_def decode_raw_def raw_value_def missingPricingJSONField_def

lemma condition_json_not_null [simp]:
  "contextCondition_json c \<noteq> JNull" "periodCondition_json p \<noteq> JNull" "basePrices_json lit q \<noteq> JNull"
  by (simp_all add: contextCondition_json_def periodCondition_json_def basePrices_json_def)

context float_literal
begin

lemma priceBranch_roundtrip:
  "branch_shape b \<Longrightarrow> priceBranch_UnmarshalJSON (priceBranch_json lit b) = Inr b"
  by (simp add: branch_shape_def priceBranch_json_def priceBranch_UnmarshalJSON_def field_decoding
      priceBranch_fields_def days_field_def context_codec.dec_enc period_codec.dec_enc
      price_codec.dec_enc)

end

sublocale float_literal \<subseteq> branch_codec: json_codec "priceBranch_json lit" priceBranch_UnmarshalJSON branch_shape
  by unfold_locales (rule priceBranch_roundtrip)

context float_literal
begin

lemma config_roundtrip:
  assumes "config_shape c"
  shows "modelPricingConfig_UnmarshalJSON (modelPricingConfig_json lit c) = Inr c"
proof -
  obtain rs bs where rb: "mp_ConditionalMultipliers c = Some rs" "list_all rule_finite rs"
      "mp_Branches c = Some bs" "list_all branch_shape bs"
    and p: "prices_finite (mp_BasePrices c)" "finite_number (mp_ModelMultiplier c)"
    using assms by (auto simp: config_shape_def)
  from p rb show ?thesis
    by (simp add: modelPricingConfig_json_def modelPricingConfig_UnmarshalJSON_def field_decoding
        modelPricingConfig_fields_def slice_json_def raw_elements_def price_codec.dec_enc
        rule_codec.decode_elements_map branch_codec.decode_elements_map read_back lit_not_null)
qed

end

text \<open>One such printer: the exact decimal expansion, which every finite binary fraction has.\<close>

fun exact_literal :: "float64 \<Rightarrow> json" where
  "exact_literal (Fin v) = JDec v"
| "exact_literal _ = JNull"

lemma finite_numberE:
  assumes "finite_number x" obtains v where "x = Fin v" "representable v"
  using assms by (cases x) auto

interpretation exact: float_literal exact_literal
  by unfold_locales (auto simp: representable_def elim!: finite_numberE)

text \<open>
  Claim C19. A complete model price configuration survives being stored and loaded: whatever
  literals the JSON printer chooses for the prices, provided each is read back as the number
  it was printed for, decoding the document \<open>json.Marshal\<close> writes for a configuration gives the same
  configuration, with its rules and branches in order, thresholds of zero and free prices
  kept apart from absent ones. The configurations are those with finite numbers, with
  non-nil rule and branch lists and with exactly the fields that the type of each
  condition calls for; their strings are kept as they are, as \<open>json.Marshal\<close> keeps valid UTF-8.
\<close>

theorem config_json_roundtrip:
  assumes "\<And>x. finite_number x \<Longrightarrow> as_float64 (lit x) = Some x"
    and "config_shape c"
  shows "modelPricingConfig_UnmarshalJSON (modelPricingConfig_json lit c) = Inr c"
  using assms by (intro float_literal.config_roundtrip float_literal.intro)

definition sample_prices :: basePrices where
  "sample_prices =
     \<lparr>bp_Input = Fin 3, bp_Output = Fin 15, bp_CacheRead = Fin 0, bp_CacheWrite = Fin (1 / 4)\<rparr>"

definition night_branch :: priceBranch where
  "night_branch =
     \<lparr>pb_ID = ''night'', pb_Name = ''Night'', pb_Days = DaysAll,
      pb_Context = \<lparr>cc_Type = ContextGT, cc_Threshold = Some 0, cc_Min = None, cc_Max = None\<rparr>,
      pb_Period = \<lparr>pc_Type = PeriodWindow, pc_Start = Some ''22:00'', pc_End = Some ''06:00''\<rparr>,
      pb_Prices = sample_prices\<rparr>"

definition sample_config :: modelPricingConfig where
  "sample_config =
     \<lparr>mp_Model = ''gpt-5'', mp_PricingStyle = ''openai'', mp_BasePrices = sample_prices,
      mp_ModelMultiplier = Fin 1,
      mp_ConditionalMultipliers = Some [\<lparr>rc_Key = ''service_tier'', rc_Value = ''priority'', rc_Multiplier = Fin 2\<rparr>],
      mp_Branches = Some [night_branch]\<rparr>"

lemma representable_examples:
  "representable 2" "representable 3" "representable 15" "representable (1 / 4)"
  using representable_dyadic [of 1 "- 2"] by (simp_all add: representable_numeral power_int_minus)

lemma sample_config_shape: "config_shape sample_config"
  by (simp add: representable_examples config_shape_def sample_config_def prices_finite_def sample_prices_def rule_finite_def
      branch_shape_def night_branch_def context_shape_def period_shape_def condition_names is_int64_def
      MinInt64_def MaxInt64_def)

theorem config_json_roundtrip_witness:
  "modelPricingConfig_UnmarshalJSON (modelPricingConfig_json exact_literal sample_config) = Inr sample_config"
  by (rule config_json_roundtrip [OF exact.read_back sample_config_shape])

end
