(* ===== verification/Pricing_Snapshot.thy ===== *)
theory Pricing_Snapshot
  imports Pricing_Branches Pricing_Wire
begin

text \<open>
  Properties of a compiled price snapshot: how the entries of the snapshot relate to the
  published configurations, which prices an event gets, what an event costs, and which model
  names are shown as one.
\<close>


section \<open>Entries of a snapshot\<close>

lemma cloneModelPriceSetting_fields [simp]:
  "ps_Model (cloneModelPriceSetting p) = ps_Model p"
  "ps_PriceMultiplier (cloneModelPriceSetting p) = Some (multiplier_or_one (ps_PriceMultiplier p))"
  by (simp_all add: cloneModelPriceSetting_def)

lemma compileModelConfig_parts:
  assumes "compileModelConfig c = Inr (m, n)"
  shows "ps_Model (cm_pricing m) = TrimSpace (ps_Model (mc_Pricing c))"
    and "ps_Model (mc_Pricing n) = ps_Model (cm_pricing m)" and "ps_Model (cm_pricing m) \<noteq> ''''"
    and "cm_branches m = []"
    and "validatePricingNumbers (cm_pricing m) = Inr ()"
    and "compile_rules 0 [] (mc_Rules c) = Inr (mc_Rules n, cm_rules m)"
    and "validateWorstCaseCost (cm_pricing m) (cm_rules m) = Inr ()"
    and "ps_PriceMultiplier (cm_pricing m) \<noteq> None"
  using assms
  by (auto simp: compileModelConfig_def Let_def andThen_eq_Inr split: if_splits)

lemma compile_models_entry:
  assumes "compile_models i models cs = Inr (models', ns)" and "models' name = Some m"
  shows "models name = Some m
    \<or> (\<exists>c \<in> set cs. \<exists>n. compileModelConfig c = Inr (m, n) \<and> ps_Model (mc_Pricing n) = name)"
  using assms
proof (induction cs arbitrary: i models ns)
  case (Cons c cs)
  from Cons.prems(1) obtain m1 n1 ns1 where c: "compileModelConfig c = Inr (m1, n1)"
    and rest: "compile_models (Suc i) (models(ps_Model (mc_Pricing n1) \<mapsto> m1)) cs = Inr (models', ns1)"
    by (auto simp: andThen_eq_Inr Let_def split: if_splits)
  from Cons.IH [OF rest Cons.prems(2)] c show ?case by (auto split: if_splits)
qed simp

text \<open>The branches of an entry and of its published configuration come from one compilation.\<close>

definition branches_of :: "compiledModel \<Rightarrow> modelPricingConfig \<Rightarrow> bool" where
  "branches_of m c \<longleftrightarrow>
     (\<exists>inputs ns. mp_Branches c = Some ns
        \<and> compile_branches (cm_pricing m) (cm_rules m) [] [] inputs = Inr (cm_branches m, ns))"

lemma complete_model_parts:
  assumes "complete_model configs models c = Inr (models', pub)"
  obtains m0 bs where "models (TrimSpace (mp_Model c)) = Some m0"
    and "models' = models(TrimSpace (mp_Model c) \<mapsto> m0\<lparr>cm_branches := bs\<rparr>)"
    and "mp_Model pub = TrimSpace (mp_Model c)" and "branches_of (m0\<lparr>cm_branches := bs\<rparr>) pub"
  using assms
  by (force simp: complete_model_def branches_of_def Let_def andThen_eq_Inr split: option.splits)

lemma complete_models_entry:
  assumes "complete_models configs models cs = Inr (models', pubs)" and "models' name = Some m"
  shows "\<exists>m0. models name = Some m0 \<and> cm_pricing m = cm_pricing m0 \<and> cm_rules m = cm_rules m0
    \<and> (if name \<in> (\<lambda>c. TrimSpace (mp_Model c)) ` set cs
       then \<exists>c \<in> set pubs. mp_Model c = name \<and> branches_of m c else m = m0)"
  using assms
proof (induction cs arbitrary: models pubs)
  case (Cons c cs)
  let ?n = "TrimSpace (mp_Model c)"
  from Cons.prems(1) obtain models1 pub rest where step: "complete_model configs models c = Inr (models1, pub)"
    and more: "complete_models configs models1 cs = Inr (models', rest)" and pubs: "pubs = pub # rest"
    by (auto simp: andThen_eq_Inr)
  from complete_model_parts [OF step] obtain m0 bs where m0: "models ?n = Some m0"
    "models1 = models(?n \<mapsto> m0\<lparr>cm_branches := bs\<rparr>)" "mp_Model pub = ?n" "branches_of (m0\<lparr>cm_branches := bs\<rparr>) pub" .
  from Cons.IH [OF more Cons.prems(2)] m0 pubs show ?case
    by (cases "name = ?n") (auto split: if_splits)
qed simp

text \<open>What the compiler guarantees of an entry of the snapshot.\<close>

definition entry_compiled :: "'loc snapshot \<Rightarrow> string \<Rightarrow> compiledModel \<Rightarrow> bool" where
  "entry_compiled s name m \<longleftrightarrow>
     (\<exists>c m0 n. compileModelConfig c = Inr (m0, n) \<and> ps_Model (mc_Pricing n) = name
        \<and> cm_pricing m = cm_pricing m0 \<and> cm_rules m = cm_rules m0)
     \<and> (\<exists>c \<in> set (sn_pricingConfigs s). mp_Model c = name \<and> branches_of m c)"

lemma legacy_configs_map: "legacy_configs cs = Inr ls \<Longrightarrow> ls = map legacy_config cs"
  by (induction cs arbitrary: ls) (auto simp: andThen_eq_Inr split: if_splits)

lemma compiled_entry:
  assumes "CompilePricingSnapshot configs location = Inr s" and "sn_modelsByName s name = Some m"
  shows "entry_compiled s name m"
proof -
  from assms(1) obtain ls s0 models pubs where ls: "legacy_configs configs = Inr ls"
    and s0: "CompileSnapshot ls = Inr (s0 :: 'a snapshot)"
    and cm: "complete_models (sn_modelConfigs s0) (sn_modelsByName s0) configs = Inr (models, pubs)"
    and s: "sn_modelsByName s = models" "sn_pricingConfigs s = sort_key mp_Model pubs"
    by (auto simp: CompilePricingSnapshot_def andThen_eq_Inr split: if_splits)
  from complete_models_entry [OF cm, of name m] assms(2) s obtain m0 where m0: "sn_modelsByName s0 name = Some m0"
    "cm_pricing m = cm_pricing m0" "cm_rules m = cm_rules m0"
    "if name \<in> (\<lambda>c. TrimSpace (mp_Model c)) ` set configs
     then \<exists>c \<in> set pubs. mp_Model c = name \<and> branches_of m c else m = m0" by auto
  from s0 obtain ns where "compile_models 0 Map.empty ls = Inr (sn_modelsByName s0, ns)"
    by (auto simp: CompileSnapshot_def andThen_eq_Inr)
  from compile_models_entry [OF this m0(1)] obtain c n where c: "c \<in> set ls" "compileModelConfig c = Inr (m0, n)"
    "ps_Model (mc_Pricing n) = name" by auto
  then have "name \<in> (\<lambda>c. TrimSpace (mp_Model c)) ` set configs"
    using compileModelConfig_parts(1,2) [OF c(2)] unfolding legacy_configs_map [OF ls]
    by (auto simp: legacy_config_def)
  with m0(4) s(2) have "\<exists>c \<in> set (sn_pricingConfigs s). mp_Model c = name \<and> branches_of m c" by simp
  with c m0 show ?thesis unfolding entry_compiled_def by blast
qed

section \<open>The prices an event gets\<close>

lemma find_unique:
  assumes "x \<in> set xs" and "P x" and "\<And>y. y \<in> set xs \<Longrightarrow> P y \<Longrightarrow> y = x"
  shows "find P xs = Some x"
proof (cases "find P xs")
  case None
  with assms(1,2) show ?thesis by (auto simp: find_None_iff)
next
  case (Some y)
  then have "y \<in> set xs" "P y" by (auto simp: find_Some_iff)
  with assms(3) Some show ?thesis by simp
qed

lemma compiled_branches_wf:
  assumes "list_all2 (compiled_from p rules) bs ns"
  shows "list_all branch_wf bs"
  using assms by (induction rule: list_all2_induct) (auto simp: compiled_from_def compilePriceBranch_wf)

lemma list_all2_member1: "list_all2 P xs ys \<Longrightarrow> x \<in> set xs \<Longrightarrow> \<exists>y \<in> set ys. P x y"
  by (metis in_set_conv_nth list_all2_conv_all_nth)

lemma list_all2_member2: "list_all2 P xs ys \<Longrightarrow> y \<in> set ys \<Longrightarrow> \<exists>x \<in> set xs. P x y"
  by (metis in_set_conv_nth list_all2_conv_all_nth)

text \<open>The event as the branches see it: its input tokens and its local wall clock.\<close>

definition event_tokens :: "'time costSubject \<Rightarrow> int" where
  "event_tokens subject = max (ct_InputTokens (cs_Tokens subject)) 0"

definition event_clock :: "('loc, 'time) wall \<Rightarrow> 'loc option \<Rightarrow> 'time costSubject \<Rightarrow> wallClock" where
  "event_clock wall location subject = wall (the location) (cs_Timestamp subject)"

lemma event_tokens_count: "is_int64 (ct_InputTokens (cs_Tokens subject)) \<Longrightarrow> is_count (event_tokens subject)"
  by (simp add: event_tokens_def int64_bounds)

lemma matches_covers_event:
  assumes "branch_wf b" and "valid_clock (event_clock wall location subject)"
  shows "compiledBranch_matches wall b subject (the location) \<longleftrightarrow>
    covers b (event_tokens subject) (wc_Weekday (event_clock wall location subject))
      (wc_Hour (event_clock wall location subject) * 60 + wc_Minute (event_clock wall location subject))"
  using matches_covers [of b wall "the location" subject] assms by (simp add: event_clock_def event_tokens_def)

lemma matches_iff_holds:
  assumes "compiled_from p rules b n" and "valid_clock (event_clock wall location subject)"
    and "is_int64 (ct_InputTokens (cs_Tokens subject))"
  shows "compiledBranch_matches wall b subject (the location) \<longleftrightarrow>
    branch_holds n (event_tokens subject) (event_clock wall location subject)"
proof -
  from assms(1) obtain input where c: "compilePriceBranch input p rules = Inr (b, n)"
    by (auto simp: compiled_from_def)
  show ?thesis
    unfolding matches_covers_event [OF compilePriceBranch_wf [OF c] assms(2)]
      branch_holds_covers [OF c assms(2) event_tokens_count [OF assms(3)]] ..
qed

lemma select_pricing_cases:
  assumes bn: "list_all2 (compiled_from p rules) (cm_branches m) ns" and ex: "exclusive (cm_branches m)"
    and clock: "valid_clock (event_clock wall location subject)"
    and tokens: "is_int64 (ct_InputTokens (cs_Tokens subject))"
  defines "holds \<equiv> \<lambda>n. branch_holds n (event_tokens subject) (event_clock wall location subject)"
  shows "(\<exists>n \<in> set ns. holds n) \<or> select_pricing wall location m subject = cm_pricing m"
    and "n \<in> set ns \<Longrightarrow> holds n \<Longrightarrow>
      select_pricing wall location m subject = branch_pricing (pb_Prices n) (cm_pricing m)"
proof -
  let ?match = "\<lambda>b. compiledBranch_matches wall b subject (the location)"
  have iff: "?match b \<longleftrightarrow> holds n" if "compiled_from p rules b n" for b n
    unfolding holds_def using that clock tokens by (rule matches_iff_holds)
  have wf: "list_all branch_wf (cm_branches m)" using bn by (rule compiled_branches_wf)
  show "(\<exists>n \<in> set ns. holds n) \<or> select_pricing wall location m subject = cm_pricing m"
  proof (cases "find ?match (cm_branches m)")
    case None
    then show ?thesis by (simp add: select_pricing_def)
  next
    case (Some b)
    then have "b \<in> set (cm_branches m)" "?match b" by (auto simp: find_Some_iff)
    with list_all2_member1 [OF bn] iff show ?thesis by blast
  qed
  assume n: "n \<in> set ns" "holds n"
  with list_all2_member2 [OF bn] obtain b where b: "b \<in> set (cm_branches m)" "compiled_from p rules b n" by blast
  have "find ?match (cm_branches m) = Some b"
  proof (rule find_unique)
    fix b' assume b': "b' \<in> set (cm_branches m)" "?match b'"
    from b n iff have "?match b" by blast
    note cover = matches_covers_event [OF _ clock]
    show "b' = b"
    proof (rule exclusive_unique [OF ex wf b'(1) b(1)])
      show "is_count (event_tokens subject)" using tokens by (rule event_tokens_count)
      show "covers b' (event_tokens subject) (wc_Weekday (event_clock wall location subject))
        (wc_Hour (event_clock wall location subject) * 60 + wc_Minute (event_clock wall location subject))"
        using cover [of b'] b' wf by (simp add: list_all_iff)
      show "covers b (event_tokens subject) (wc_Weekday (event_clock wall location subject))
        (wc_Hour (event_clock wall location subject) * 60 + wc_Minute (event_clock wall location subject))"
        using cover [of b] b \<open>?match b\<close> wf by (simp add: list_all_iff)
    qed (use clock in \<open>auto simp: valid_clock_def\<close>)
  qed (use b n iff in blast)+
  moreover have "cb_prices b = pb_Prices n"
    using b(2) by (auto simp: compiled_from_def dest: compilePriceBranch_parts(5))
  ultimately show "select_pricing wall location m subject = branch_pricing (pb_Prices n) (cm_pricing m)"
    by (simp add: select_pricing_def)
qed

lemma entry_branches:
  assumes "entry_compiled s name m"
  obtains c ns where "c \<in> set (sn_pricingConfigs s)" "mp_Model c = name" "mp_Branches c = Some ns"
    "exclusive (cm_branches m)" "list_all2 (compiled_from (cm_pricing m) (cm_rules m)) (cm_branches m) ns"
proof -
  from assms obtain c inputs ns where c: "c \<in> set (sn_pricingConfigs s)" "mp_Model c = name" "mp_Branches c = Some ns"
    and b: "compile_branches (cm_pricing m) (cm_rules m) [] [] inputs = Inr (cm_branches m, ns)"
    by (auto simp: entry_compiled_def branches_of_def)
  show ?thesis
    using that [OF c] compile_branches_invariant [OF b] by (simp add: exclusive_def)
qed

text \<open>
  Claim C15. In a snapshot that the compiler accepted, the price branches of a model are
  mutually exclusive and mean what the published configuration says. For every event with
  an \<open>int64\<close> input count and every wall clock of its time stamp, the four unit prices used
  are those of the one published branch whose token, weekday and time-of-day conditions
  the event satisfies (windows over midnight included), whatever its position in the list;
  if it satisfies none, they are the base prices.
\<close>

theorem event_prices_follow_config:
  assumes "CompilePricingSnapshot configs (Some location) = Inr s"
    and "sn_modelsByName s name = Some m"
    and "valid_clock (wall location (cs_Timestamp subject))"
    and "is_int64 (ct_InputTokens (cs_Tokens subject))"
  shows "\<exists>c \<in> set (sn_pricingConfigs s). \<exists>branches.
    mp_Model c = name \<and> mp_Branches c = Some branches
    \<and> (let holds = (\<lambda>b. branch_holds b (max (ct_InputTokens (cs_Tokens subject)) 0) (wall location (cs_Timestamp subject)));
           selected = select_pricing wall (Some location) m subject
       in (\<forall>b \<in> set branches. holds b \<longrightarrow> selected = branch_pricing (pb_Prices b) (cm_pricing m))
          \<and> ((\<forall>b \<in> set branches. \<not> holds b) \<longrightarrow> selected = cm_pricing m))"
proof -
  from compiled_entry [OF assms(1,2)] obtain c ns where c: "c \<in> set (sn_pricingConfigs s)"
    "mp_Model c = name" "mp_Branches c = Some ns" "exclusive (cm_branches m)"
    "list_all2 (compiled_from (cm_pricing m) (cm_rules m)) (cm_branches m) ns" by (rule entry_branches)
  have clock: "valid_clock (event_clock wall (Some location) subject)" using assms(3) by (simp add: event_clock_def)
  note select = select_pricing_cases [OF c(5,4) clock assms(4), unfolded event_clock_def event_tokens_def option.sel]
  show ?thesis using c(1-3) select unfolding Let_def by blast
qed

text \<open>
  Claim C16. The conflict check of the compiler is exact. For branches that compile one by
  one and have distinct ids, the list of branches is accepted exactly when no two of them
  can apply to the same event: no input count, weekday and minute of the day satisfies the
  conditions of both. Nothing that overlaps gets through, and nothing is rejected that
  could not overlap.
\<close>

theorem branch_conflicts_exact:
  assumes "list_all2 (\<lambda>input (b, n). compilePriceBranch input p rules = Inr (b, n)) inputs bns"
    and "distinct (map (\<lambda>(b, n). pb_ID n) bns)"
  shows "(\<exists>compiled normalized. compile_branches p rules [] [] inputs = Inr (compiled, normalized)) \<longleftrightarrow>
    \<not> (\<exists>i j t clock. i < j \<and> j < length bns \<and> is_count t \<and> valid_clock clock
         \<and> branch_holds (snd (bns ! i)) t clock \<and> branch_holds (snd (bns ! j)) t clock)"
proof -
  have each: "\<exists>input. compilePriceBranch input p rules = Inr (fst (bns ! i), snd (bns ! i))" if "i < length bns" for i
    using list_all2_nthD2 [OF assms(1) that] by (auto simp: case_prod_unfold)
  have conflict: "branches_conflict (fst (bns ! i)) (fst (bns ! j)) \<longleftrightarrow>
      (\<exists>t clock. is_count t \<and> valid_clock clock
        \<and> branch_holds (snd (bns ! i)) t clock \<and> branch_holds (snd (bns ! j)) t clock)"
    if "i < j" "j < length bns" for i j
  proof -
    from that each [of i] each [of j] obtain i1 i2
      where "compilePriceBranch i1 p rules = Inr (fst (bns ! i), snd (bns ! i))"
        and "compilePriceBranch i2 p rules = Inr (fst (bns ! j), snd (bns ! j))" by auto
    then show ?thesis by (rule conflict_iff_common_event)
  qed
  have "(\<exists>r. compile_branches p rules [] [] inputs = Inr r) \<longleftrightarrow> exclusive ([] @ map fst bns)"
    by (rule compile_branches_accepts) (use assms in \<open>simp_all add: case_prod_unfold exclusive_def comp_def\<close>)
  also have "\<dots> \<longleftrightarrow> (\<forall>j < length bns. \<forall>i < j. \<not> branches_conflict (fst (bns ! i)) (fst (bns ! j)))"
    unfolding exclusive_def sorted_wrt_iff_nth_less by auto
  also have "\<dots> \<longleftrightarrow> \<not> (\<exists>i j t clock. i < j \<and> j < length bns \<and> is_count t \<and> valid_clock clock
      \<and> branch_holds (snd (bns ! i)) t clock \<and> branch_holds (snd (bns ! j)) t clock)"
    using conflict by blast
  finally show ?thesis by simp
qed

end
