(* ===== verification/Pricing_Cost.thy ===== *)
theory Pricing_Cost
  imports Pricing_Snapshot "HOL-Library.Multiset"
begin

text \<open>
  What an event costs under a compiled snapshot, and which model names are merged for
  display: \<open>usage_cost.go\<close>, \<open>CalculateFee\<close>, \<open>ResolveModelName\<close> and \<open>sameBilling\<close>.
\<close>


section \<open>Compiled rules\<close>

lemma feq_Fin [simp]: "feq x (Fin y) \<longleftrightarrow> x = Fin y"
  by (cases x) auto

lemma compileRule_parts:
  assumes "compileRule input = Inr (r, c)"
  shows "cr_field c \<in> set rule_fields" and "rc_Key r = RuleField_String (cr_field c)"
    and "rc_Value r = cr_value c" and "rc_Multiplier r = cr_multiplier c"
    and "isNonNegativeFinite (cr_multiplier c)" and "cr_value c \<noteq> ''''"
  using assms
  by (auto simp: compileRule_def ParseRuleField_def Let_def find_Some_iff
      split: sum.splits option.splits if_splits)

definition rule_identity :: "compiledRule \<Rightarrow> string \<times> string" where
  "rule_identity r = (RuleField_String (cr_field r), cr_value r)"

lemma compile_rules_invariant:
  assumes "compile_rules i seen rs = Inr (ns, cs)"
  shows "distinct (map rule_identity cs) \<and> set (map rule_identity cs) \<inter> set seen = {}
    \<and> (\<forall>c \<in> set cs. cr_field c \<in> set rule_fields \<and> isNonNegativeFinite (cr_multiplier c))"
  using assms
proof (induction rs arbitrary: i seen ns cs)
  case (Cons input rest)
  from Cons.prems obtain r c ns1 cs1 where c: "compileRule input = Inr (r, c)"
    and fresh: "(rc_Key r, rc_Value r) \<notin> set seen"
    and rest: "compile_rules (Suc i) ((rc_Key r, rc_Value r) # seen) rest = Inr (ns1, cs1)"
    and cs: "cs = (if feq (rc_Multiplier r) (Fin 1) then cs1 else c # cs1)"
    by (auto simp: andThen_eq_Inr split: if_splits)
  have "rule_identity c = (rc_Key r, rc_Value r)"
    using compileRule_parts [OF c] by (simp add: rule_identity_def)
  with Cons.IH [OF rest] compileRule_parts [OF c] fresh cs show ?case by auto
qed simp

text \<open>At most one rule per field applies to an event, so at most nine in all.\<close>

definition rule_matches :: "usageDimensions \<Rightarrow> compiledRule \<Rightarrow> bool" where
  "rule_matches d r \<longleftrightarrow> UsageDimensions_Value d (cr_field r) = cr_value r"

lemma matching_rules_distinct:
  assumes "distinct (map rule_identity rs)"
  shows "distinct (map cr_field (filter (rule_matches d) rs))"
  using assms
proof (induction rs)
  case (Cons r rs)
  have "cr_field r \<notin> set (map cr_field (filter (rule_matches d) rs))" if "rule_matches d r"
    using that Cons.prems by (auto simp: rule_matches_def rule_identity_def image_iff)
  with Cons show ?case by simp
qed simp

lemma matching_rules_bound:
  assumes "distinct (map rule_identity rs)" and "\<forall>r \<in> set rs. cr_field r \<in> set rule_fields"
  shows "length (filter (rule_matches d) rs) \<le> 9"
proof -
  let ?fs = "map cr_field (filter (rule_matches d) rs)"
  have "set ?fs \<subseteq> set rule_fields" using assms(2) by auto
  then have "card (set ?fs) \<le> card (set rule_fields)" by (intro card_mono) simp_all
  also have "\<dots> = 9" by (simp add: rule_fields_def)
  finally show ?thesis using distinct_card [OF matching_rules_distinct [OF assms(1), of d]] by simp
qed

lemma rule_multiplier_below:
  assumes "below n acc" and "\<forall>r \<in> set rs. below 40 (cr_multiplier r)"
    and "n + 40 * length (filter (rule_matches d) rs) \<le> 1023"
  shows "below (n + 40 * length (filter (rule_matches d) rs)) (rule_multiplier_from acc rs d)"
  using assms
proof (induction rs arbitrary: n acc)
  case (Cons r rs)
  show ?case
  proof (cases "rule_matches d r")
    case True
    with Cons.prems have step: "below (n + 40) (fmul acc (cr_multiplier r))" by (intro fmul_below) auto
    have "below (n + 40 + 40 * length (filter (rule_matches d) rs)) (rule_multiplier_from (fmul acc (cr_multiplier r)) rs d)"
      using Cons.prems True by (intro Cons.IH [OF step]) auto
    moreover have "UsageDimensions_Value d (cr_field r) = cr_value r" using True by (simp add: rule_matches_def)
    ultimately show ?thesis using True by (simp add: add.assoc)
  next
    case False
    with Cons show ?thesis by (simp add: rule_matches_def)
  qed
qed simp

lemma zero_rule_multiplier:
  assumes "r \<in> set rs" and "rule_matches d r" and "cr_multiplier r = Fin 0"
  shows "rule_multiplier_from acc rs d = Fin 0"
  using assms by (induction rs arbitrary: acc) (auto simp: rule_matches_def)


section \<open>Bounds of the cost\<close>

text \<open>Prices and multipliers of at most \<open>2 ^ 40\<close>, about a million million.\<close>

definition pricing_bounded :: "modelPriceSetting \<Rightarrow> bool" where
  "pricing_bounded p \<longleftrightarrow>
     below 40 (ps_PromptPricePer1M p) \<and> below 40 (ps_CompletionPricePer1M p)
     \<and> below 40 (ps_CacheReadPricePer1M p) \<and> below 40 (ps_CacheWritePricePer1M p)
     \<and> below 40 (modelPriceMultiplier p)"

definition model_bounded :: "compiledModel \<Rightarrow> bool" where
  "model_bounded m \<longleftrightarrow>
     pricing_bounded (cm_pricing m)
     \<and> (\<forall>b \<in> set (cm_branches m). pricing_bounded (branch_pricing (cb_prices b) (cm_pricing m)))
     \<and> (\<forall>r \<in> set (cm_rules m). below 40 (cr_multiplier r))"

definition cost_tokens_int64 :: "usageTokenCostInput \<Rightarrow> bool" where
  "cost_tokens_int64 t \<longleftrightarrow>
     is_int64 (ct_InputTokens t) \<and> is_int64 (ct_OutputTokens t)
     \<and> is_int64 (ct_CacheReadTokens t) \<and> is_int64 (ct_CacheCreationTokens t)"

text \<open>The two subtractions never wrap and leave the uncached part of the input, or nothing.\<close>

lemma normal_input_tokens_eq:
  assumes "cost_tokens_int64 t"
  shows "normal_input_tokens (clampUsageTokenCostInput t)
    = max 0 (max 0 (ct_InputTokens t) - max 0 (ct_CacheReadTokens t) - max 0 (ct_CacheCreationTokens t))"
  using assms
  by (simp add: normal_input_tokens_def clampUsageTokenCostInput_def maxInt64_def cost_tokens_int64_def Let_def
      wrap64_id int64_bounds min_def max_def)

lemma token_cost_below:
  assumes "is_count n" and "below 40 price"
  shows "below 84 (token_cost n price)"
proof -
  from assms(1) have "below 63 (of_int64 n)"
    unfolding of_int64_def by (intro to_float_below) (simp_all add: is_count_def MaxInt64_def)
  then obtain v where v: "of_int64 n = Fin v" "0 \<le> v" "v \<le> 2 ^ 63" by (auto simp: below_def)
  then have "below 44 (fdiv (of_int64 n) (Fin 1000000))"
    by (simp add: v(1)) (intro to_float_below; simp)
  from fmul_below [OF this assms(2)] show ?thesis by (simp add: token_cost_def)
qed

lemma clamped_counts:
  assumes "cost_tokens_int64 t"
  shows "is_count (ct_OutputTokens (clampUsageTokenCostInput t))"
    and "is_count (ct_CacheReadTokens (clampUsageTokenCostInput t))"
    and "is_count (ct_CacheCreationTokens (clampUsageTokenCostInput t))"
    and "is_count (normal_input_tokens (clampUsageTokenCostInput t))"
proof -
  show "is_count (normal_input_tokens (clampUsageTokenCostInput t))"
    unfolding normal_input_tokens_eq [OF assms]
    using assms by (simp add: cost_tokens_int64_def int64_bounds max_def)
qed (use assms in \<open>simp_all add: clampUsageTokenCostInput_def maxInt64_def cost_tokens_int64_def int64_bounds\<close>)

lemma cost_below:
  assumes "cost_tokens_int64 t" and "pricing_bounded p"
  shows "below 127 (CalculateUsageTokenCost t p)"
proof (cases "feq (modelPriceMultiplier p) (Fin 0)")
  case True
  then show ?thesis by (simp add: CalculateUsageTokenCost_def Let_def)
next
  case False
  note seg = token_cost_below [OF clamped_counts(4) [OF assms(1)], of "ps_PromptPricePer1M p"]
    token_cost_below [OF clamped_counts(2) [OF assms(1)], of "ps_CacheReadPricePer1M p"]
    token_cost_below [OF clamped_counts(3) [OF assms(1)], of "ps_CacheWritePricePer1M p"]
    token_cost_below [OF clamped_counts(1) [OF assms(1)], of "ps_CompletionPricePer1M p"]
  have "below (87 + 40) (CalculateUsageTokenCost t p)"
    unfolding CalculateUsageTokenCost_def Let_def using False
    by (simp only: if_False)
      (intro fmul_below fadd_below [where n = 86, simplified] fadd_below [where n = 85, simplified]
        fadd_below [where n = 84, simplified] seg below_mono [where m = 84 and n = 85, OF seg(3)]
        below_mono [where m = 84 and n = 86, OF seg(4)];
       use assms(2) in \<open>simp add: pricing_bounded_def\<close>)
  then show ?thesis by simp
qed

lemma select_pricing_bounded: "model_bounded m \<Longrightarrow> pricing_bounded (select_pricing wall location m subject)"
  by (auto simp: select_pricing_def model_bounded_def find_Some_iff split: option.splits)

lemma rule_multiplier_bounded:
  assumes "entry_compiled s name m" and "model_bounded m"
  shows "below 360 (matchingRuleMultiplier (cm_rules m) d)"
proof -
  from assms(1) obtain c n m0 where "compileModelConfig c = Inr (m0, n)" "cm_rules m = cm_rules m0"
    by (auto simp: entry_compiled_def)
  then have "compile_rules 0 [] (mc_Rules c) = Inr (mc_Rules n, cm_rules m)"
    using compileModelConfig_parts(6) by simp
  from compile_rules_invariant [OF this]
  have nine: "length (filter (rule_matches d) (cm_rules m)) \<le> 9" by (intro matching_rules_bound) auto
  have "below (0 + 40 * length (filter (rule_matches d) (cm_rules m))) (matchingRuleMultiplier (cm_rules m) d)"
    unfolding matchingRuleMultiplier_def using assms(2) nine
    by (intro rule_multiplier_below) (auto simp: model_bounded_def)
  then show ?thesis by (rule below_mono) (use nine in simp)
qed

lemma model_fee_below:
  assumes "entry_compiled s name m" and "model_bounded m" and "cost_tokens_int64 (cs_Tokens subject)"
  shows "below 487 (model_fee wall location m subject)"
proof -
  have cost: "below 127 (CalculateUsageTokenCost (cs_Tokens subject) (select_pricing wall location m subject))"
    using assms(3) select_pricing_bounded [OF assms(2)] by (rule cost_below)
  show ?thesis
    using fmul_below [OF cost rule_multiplier_bounded [OF assms(1,2), of "cs_Dimensions subject"]]
      below_mono [OF cost, of 487]
    by (simp add: model_fee_def Let_def)
qed

lemma matchModel_entry:
  "matchModel (Some s) d = Some m \<Longrightarrow> \<exists>name. sn_modelsByName s name = Some m"
  by (auto simp: matchModel_def bind_eq_Some_conv split: option.splits)

lemma fee_of_matched:
  "matchModel (Some s) (cs_Dimensions subject) = Some m \<Longrightarrow>
    CalculateFee wall (Some s) subject =
      \<lparr>fr_TotalCostUSD = model_fee wall (sn_location s) m subject, fr_Available = True\<rparr>"
  by (simp add: CalculateFee_def)

text \<open>
  Claim C17. Every fee that a compiled snapshot computes is a finite, non-negative number:
  for any event with \<open>int64\<close> token counts, negative ones included, and any time stamp, when
  the prices and multipliers of the snapshot are at most \<open>2 ^ 40\<close> (each, not combined). In
  IEEE arithmetic with its roundings there is then no overflow, no infinity and no NaN;
  at most one rule per dimension multiplies the fee, however many rules a model has.
\<close>

theorem fee_finite_nonneg:
  assumes "CompilePricingSnapshot configs location = Inr s"
    and "\<forall>m \<in> ran (sn_modelsByName s). model_bounded m"
    and "cost_tokens_int64 (cs_Tokens subject)"
  shows "\<exists>v \<ge> 0. fr_TotalCostUSD (CalculateFee wall (Some s) subject) = Fin v"
proof (cases "matchModel (Some s) (cs_Dimensions subject)")
  case None
  then show ?thesis by (simp add: CalculateFee_def)
next
  case (Some m)
  then obtain name where name: "sn_modelsByName s name = Some m" using matchModel_entry by blast
  with assms(2) have "model_bounded m" by (auto simp: ran_def)
  from model_fee_below [OF compiled_entry [OF assms(1) name] this assms(3), of wall "sn_location s"]
  show ?thesis unfolding fee_of_matched [OF Some] by (auto elim: belowE)
qed

lemma token_cost_zero: "below 40 price \<Longrightarrow> token_cost 0 price = Fin 0"
  by (auto simp: token_cost_def of_int64_def below_def)

lemma cost_without_tokens:
  assumes "pricing_bounded p" and "\<not> UsageTokenInputRequiresPricing t"
  shows "CalculateUsageTokenCost t p = Fin 0"
proof -
  have "clampUsageTokenCostInput t =
      \<lparr>ct_InputTokens = 0, ct_OutputTokens = 0, ct_CacheReadTokens = 0, ct_CacheCreationTokens = 0\<rparr>"
    using assms(2) by (auto simp: clampUsageTokenCostInput_def maxInt64_def UsageTokenInputRequiresPricing_def)
  with assms(1) show ?thesis
    by (auto simp: CalculateUsageTokenCost_def normal_input_tokens_def pricing_bounded_def token_cost_zero
        wrap64_def Let_def elim!: belowE)
qed

text \<open>
  An event is free, and its fee available, whenever it should be: the model
  multiplier is zero, or some rule with multiplier zero applies to the event, in whatever
  position and next to whatever other rules, or no token count is positive.
\<close>

theorem fee_zero:
  assumes "CompilePricingSnapshot configs location = Inr s"
    and "\<forall>m \<in> ran (sn_modelsByName s). model_bounded m"
    and "cost_tokens_int64 (cs_Tokens subject)"
    and "matchModel (Some s) (cs_Dimensions subject) = Some m"
    and "ps_PriceMultiplier (cm_pricing m) = Some (Fin 0)
      \<or> (\<exists>r \<in> set (cm_rules m). cr_multiplier r = Fin 0
           \<and> UsageDimensions_Value (cs_Dimensions subject) (cr_field r) = cr_value r)
      \<or> \<not> UsageTokenInputRequiresPricing (cs_Tokens subject)"
  shows "CalculateFee wall (Some s) subject = \<lparr>fr_TotalCostUSD = Fin 0, fr_Available = True\<rparr>"
proof -
  obtain name where name: "sn_modelsByName s name = Some m" using assms(4) matchModel_entry by blast
  with assms(2) have m: "model_bounded m" by (auto simp: ran_def)
  let ?cost = "CalculateUsageTokenCost (cs_Tokens subject) (select_pricing wall (sn_location s) m subject)"
  have cost: "below 127 ?cost" using assms(3) select_pricing_bounded [OF m] by (rule cost_below)
  have rules: "below 360 (matchingRuleMultiplier (cm_rules m) (cs_Dimensions subject))"
    by (rule rule_multiplier_bounded [OF compiled_entry [OF assms(1) name] m])
  have "ps_PriceMultiplier (select_pricing wall (sn_location s) m subject) = ps_PriceMultiplier (cm_pricing m)"
    by (simp add: select_pricing_def branch_pricing_def split: option.splits)
  then have free: "?cost = Fin 0" if "ps_PriceMultiplier (cm_pricing m) = Some (Fin 0)"
    using that by (simp add: CalculateUsageTokenCost_def modelPriceMultiplier_def Let_def)
  from assms(5) have "model_fee wall (sn_location s) m subject = Fin 0"
  proof (elim disjE bexE conjE)
    fix r assume "r \<in> set (cm_rules m)" "cr_multiplier r = Fin 0"
      "UsageDimensions_Value (cs_Dimensions subject) (cr_field r) = cr_value r"
    then have "matchingRuleMultiplier (cm_rules m) (cs_Dimensions subject) = Fin 0"
      unfolding matchingRuleMultiplier_def by (intro zero_rule_multiplier) (auto simp: rule_matches_def)
    with cost free show ?thesis by (auto simp: model_fee_def Let_def elim: belowE)
  next
    assume "\<not> UsageTokenInputRequiresPricing (cs_Tokens subject)"
    with select_pricing_bounded [OF m] have "?cost = Fin 0" by (rule cost_without_tokens)
    with rules show ?thesis by (auto simp: model_fee_def Let_def elim!: belowE)
  qed (use free in \<open>simp add: model_fee_def Let_def\<close>)
  then show ?thesis unfolding fee_of_matched [OF assms(4)] by simp
qed

section \<open>Model names\<close>

text \<open>The counting map of \<open>sameBilling\<close> decides equality of the two multisets of rules.\<close>

lemma count_rules_eq: "count_rules rs counts r = counts r + int (count (mset rs) r)"
  by (induction rs arbitrary: counts) auto

lemma uncount_rules_iff:
  "uncount_rules rs counts \<longleftrightarrow> (\<forall>r \<in> set rs. int (count (mset rs) r) \<le> counts r)"
proof (induction rs arbitrary: counts)
  case (Cons r rs)
  show ?case
    by (cases "r \<in> set rs") (auto simp: Cons.IH Let_def simp flip: count_mset_0_iff)
qed simp

lemma multiset_comparison:
  "length as = length bs \<and> uncount_rules bs (count_rules as (\<lambda>_. 0)) \<longleftrightarrow> mset as = mset bs"
proof
  assume l: "length as = length bs \<and> uncount_rules bs (count_rules as (\<lambda>_. 0))"
  have "count (mset bs) r \<le> count (mset as) r" for r
    using l by (cases "r \<in> set bs") (auto simp: uncount_rules_iff count_rules_eq simp flip: count_mset_0_iff)
  then have "mset bs \<subseteq># mset as" by (simp add: subseteq_mset_def)
  with l show "mset as = mset bs" by (metis mset_subset_size size_mset subset_mset.le_imp_less_or_eq less_irrefl)
next
  assume eq: "mset as = mset bs"
  then show "length as = length bs \<and> uncount_rules bs (count_rules as (\<lambda>_. 0))"
    by (auto simp: uncount_rules_iff count_rules_eq dest: mset_eq_length)
qed

lemma validated_numbers:
  assumes "validatePricingNumbers p = Inr ()"
  shows "isNonNegativeFinite (ps_PromptPricePer1M p)" "isNonNegativeFinite (ps_CompletionPricePer1M p)"
    "isNonNegativeFinite (ps_CacheReadPricePer1M p)" "isNonNegativeFinite (ps_CacheWritePricePer1M p)"
    "isNonNegativeFinite (multiplier_or_one (ps_PriceMultiplier p))"
  using assms by (auto simp: validatePricingNumbers_def andThen_eq_Inr split: if_splits)

lemma feq_finite: "isNonNegativeFinite x \<Longrightarrow> feq x y \<longleftrightarrow> x = y"
  by (cases x) auto

text \<open>Two entries bill alike: they differ at most in the model name and the order of the rules.\<close>

definition same_terms :: "compiledModel \<Rightarrow> compiledModel \<Rightarrow> bool" where
  "same_terms a b \<longleftrightarrow>
     cm_pricing a = (cm_pricing b)\<lparr>ps_Model := ps_Model (cm_pricing a)\<rparr>
     \<and> cm_branches a = cm_branches b \<and> mset (cm_rules a) = mset (cm_rules b)"

lemma entry_pricing:
  assumes "entry_compiled s name m"
  shows "validatePricingNumbers (cm_pricing m) = Inr ()"
    and "ps_PriceMultiplier (cm_pricing m) \<noteq> None"
    and "ps_Model (cm_pricing m) = name"
  using assms by (auto simp: entry_compiled_def dest: compileModelConfig_parts)

lemma pricing_eq_iff:
  "(p :: modelPriceSetting) = q\<lparr>ps_Model := ps_Model p\<rparr> \<longleftrightarrow>
     ps_PricingStyle p = ps_PricingStyle q \<and> ps_PromptPricePer1M p = ps_PromptPricePer1M q
     \<and> ps_CompletionPricePer1M p = ps_CompletionPricePer1M q
     \<and> ps_CacheReadPricePer1M p = ps_CacheReadPricePer1M q
     \<and> ps_CacheWritePricePer1M p = ps_CacheWritePricePer1M q
     \<and> ps_PriceMultiplier p = ps_PriceMultiplier q"
  by (cases p; cases q) auto

lemma sameBilling_iff:
  assumes "entry_compiled s n1 a" and "entry_compiled s' n2 b"
  shows "sameBilling a b \<longleftrightarrow> same_terms a b"
proof -
  note va = validated_numbers [OF entry_pricing(1) [OF assms(1)]]
  obtain x y where mult: "ps_PriceMultiplier (cm_pricing a) = Some x" "ps_PriceMultiplier (cm_pricing b) = Some y"
    using entry_pricing(2) [OF assms(1)] entry_pricing(2) [OF assms(2)] by blast
  have x: "isNonNegativeFinite x" using va(5) mult by (simp add: multiplier_or_one_def)
  have "sameBilling a b \<longleftrightarrow>
      cm_pricing a = (cm_pricing b)\<lparr>ps_Model := ps_Model (cm_pricing a)\<rparr> \<and> cm_branches a = cm_branches b
      \<and> (length (cm_rules a) = length (cm_rules b) \<and> uncount_rules (cm_rules b) (count_rules (cm_rules a) (\<lambda>_. 0)))"
    unfolding pricing_eq_iff using mult
    by (auto simp: sameBilling_def Let_def feq_finite [OF x] priceMultiplierValue_def
        feq_finite [OF va(1)] feq_finite [OF va(2)] feq_finite [OF va(3)] feq_finite [OF va(4)])
  then show ?thesis unfolding multiset_comparison same_terms_def .
qed

text \<open>
  Claim C18. Showing an event under another model name never misrepresents its billing. When
  \<open>ResolveModelName\<close> replaces the canonical model of a row by the name behind its provider
  prefix, that name is registered, and the entry that prices the event is this very entry
  or one that bills alike: equal prices, style, model multiplier and branches, and the same
  rules up to their order.
\<close>

theorem merged_names_bill_alike:
  assumes "CompilePricingSnapshot configs location = Inr s"
    and "ResolveModelName (Some s) d \<noteq> ud_Model (canonicalizeUsageDimensions d)"
  shows "\<exists>bare priced.
    stripProviderPrefix (ud_Model (canonicalizeUsageDimensions d)) = Some (ResolveModelName (Some s) d)
    \<and> sn_modelsByName s (ResolveModelName (Some s) d) = Some bare
    \<and> matchModel (Some s) (canonicalizeUsageDimensions d) = Some priced
    \<and> cm_pricing priced = (cm_pricing bare)\<lparr>ps_Model := ps_Model (cm_pricing priced)\<rparr>
    \<and> cm_branches priced = cm_branches bare
    \<and> mset (cm_rules priced) = mset (cm_rules bare)"
proof -
  let ?c = "ud_Model (canonicalizeUsageDimensions d)" and ?n = "ResolveModelName (Some s) d"
  from assms(2) obtain bare where bare: "stripProviderPrefix ?c = Some ?n" "sn_modelsByName s ?n = Some bare"
    and same: "\<And>p. sn_modelsByName s ?c = Some p \<Longrightarrow> sameBilling p bare"
    by (auto simp: ResolveModelName_def Let_def split: option.splits if_splits)
  show ?thesis
  proof (cases "sn_modelsByName s ?c")
    case None
    with bare show ?thesis by (simp add: matchModel_def)
  next
    case (Some p)
    have "same_terms p bare"
      using same [OF Some] sameBilling_iff [OF compiled_entry [OF assms(1) Some] compiled_entry [OF assms(1) bare(2)]]
      by simp
    with bare Some show ?thesis by (simp add: matchModel_def same_terms_def)
  qed
qed

section \<open>The overflow guard accepts realistic prices\<close>

lemma to_float_at_least:
  assumes "2 ^ n \<le> x"
  shows "to_float x = PosInf \<or> (\<exists>u \<ge> 2 ^ n. to_float x = Fin u)"
proof -
  have "rounded (2 ^ n) \<le> rounded x" using assms by (intro rounded_mono) simp_all
  moreover have "rounded (2 ^ n) = 2 ^ n" using rounded_powi [of "int n"] by simp
  ultimately have "2 ^ n \<le> rounded x" by simp
  moreover have "0 \<le> MaxFloat64" by (simp add: MaxFloat64_def)
  moreover have "(0 :: rat) < 2 ^ n" by simp
  ultimately have "to_float x = (if MaxFloat64 < rounded x then PosInf else Fin (rounded x))"
    unfolding to_float_def Let_def by (simp; linarith)
  with \<open>2 ^ n \<le> rounded x\<close> show ?thesis by simp
qed

lemma safeMultiply_below:
  assumes "below m x" and "below n y" and "m + n \<le> 1000"
  obtains z where "safeMultiply x y = (z, True)" "below (m + n) z"
proof -
  from assms obtain v w where v: "0 \<le> v" "v \<le> 2 ^ m" "x = Fin v" and w: "0 \<le> w" "w \<le> 2 ^ n" "y = Fin w"
    by (auto simp: below_def)
  have prod: "below (m + n) (fmul x y)" using assms by (intro fmul_below) simp_all
  show ?thesis
  proof (cases "v = 0 \<or> w = 0")
    case True
    then show ?thesis using that [of "Fin 0"] by (simp add: safeMultiply_def v w)
  next
    case False
    then have "0 < w" using w by simp
    have "(2 :: rat) ^ (1023 - n) * w \<le> 2 ^ (1023 - n) * 2 ^ n" using w by (intro mult_left_mono) simp_all
    also have "\<dots> = 2 ^ 1023" using assms(3) by (simp flip: power_add)
    also have "\<dots> \<le> MaxFloat64" by (rule MaxFloat64_bounds)
    finally have "2 ^ (1023 - n) \<le> MaxFloat64 / w" using \<open>0 < w\<close> by (simp add: le_divide_eq)
    moreover have "(2 :: rat) ^ m \<le> 2 ^ (1023 - n)" using assms(3) by (intro power_increasing) simp_all
    ultimately have "2 ^ m \<le> MaxFloat64 / w" by (rule order_trans [rotated])
    from to_float_at_least [OF this] have "\<not> flt (fdiv (Fin MaxFloat64) y) x"
      using v(2) by (auto simp: v(3) w(3) simp del: v(2))
    moreover obtain u where "fmul x y = Fin u" using prod by (rule belowE)
    ultimately show ?thesis
      using that [of "fmul x y"] prod False by (simp add: safeMultiply_def v w)
  qed
qed

lemma headroom_left:
  assumes "below m seg" and "below n acc" and "m \<le> 1000" and "n \<le> 1000"
  shows "\<not> flt (fsub (Fin MaxFloat64) seg) acc"
proof -
  from assms obtain v w where v: "v \<le> 2 ^ m" "seg = Fin v" and w: "w \<le> 2 ^ n" "acc = Fin w"
    by (auto simp: below_def)
  have "(2 :: rat) ^ m \<le> 2 ^ 1000" "(2 :: rat) ^ n \<le> 2 ^ 1000"
    using assms(3,4) by (intro power_increasing; simp)+
  then have "2 ^ 1000 \<le> MaxFloat64 + - v" "w \<le> 2 ^ 1000" using v w by (simp_all add: MaxFloat64_def)
  from to_float_at_least [OF this(1)] this(2) show ?thesis by (auto simp: fsub_def v w)
qed

lemma max_by_field_below:
  "\<forall>r \<in> set rs. below 40 (cr_multiplier r) \<Longrightarrow> \<forall>f. below 40 (m f) \<Longrightarrow> below 40 (max_by_field rs m f)"
  by (induction rs arbitrary: m) auto

lemma max_rule_multiplier_below:
  assumes "\<forall>f. below 40 (m f)" and "below n acc" and "n + 40 * length fs \<le> 1000"
  obtains z where "max_rule_multiplier fs m acc = Inr z" "below (n + 40 * length fs) z"
  using assms
proof (induction fs arbitrary: n acc thesis)
  case (Cons f fs)
  from Cons.prems obtain z where z: "safeMultiply acc (m f) = (z, True)" "below (n + 40) z"
    using safeMultiply_below [of n acc 40 "m f"] by auto
  obtain y where "max_rule_multiplier fs m z = Inr y" "below (n + 40 + 40 * length fs) y"
    using Cons.IH [OF _ Cons.prems(2) z(2)] Cons.prems(4) by auto
  with z Cons.prems(1) show ?case by (simp add: add.assoc)
qed simp

lemma maxTokensPerMillion_below: "below 44 maxTokensPerMillion"
proof -
  have "below 63 (of_int64 MaxInt64)"
    unfolding of_int64_def by (intro to_float_below) (simp_all add: MaxInt64_def)
  then obtain v where v: "of_int64 MaxInt64 = Fin v" "0 \<le> v" "v \<le> 2 ^ 63" by (auto simp: below_def)
  then show ?thesis by (simp add: maxTokensPerMillion_def) (intro to_float_below; simp)
qed

lemma worst_case_total_accepts:
  assumes "below 400 k" and "list_all (below 40) prices"
    and "below n unscaled" and "below l scaled" and "84 \<le> n" and "484 \<le> l"
    and "n + length prices \<le> 1000" and "l + length prices \<le> 1000"
  shows "worst_case_total k prices unscaled scaled = Inr ()"
  using assms
proof (induction prices arbitrary: unscaled scaled n l)
  case (Cons price prices)
  obtain seg where seg: "safeMultiply price maxTokensPerMillion = (seg, True)" "below 84 seg"
    using safeMultiply_below [OF _ maxTokensPerMillion_below, of 40 price] Cons.prems(2) by auto
  obtain seg' where seg': "safeMultiply seg k = (seg', True)" "below 484 seg'"
    using safeMultiply_below [OF seg(2) Cons.prems(1)] by auto
  have free: "\<not> flt (fsub (Fin MaxFloat64) seg) unscaled" "\<not> flt (fsub (Fin MaxFloat64) seg') scaled"
    using Cons.prems(7,8)
    by (simp_all add: headroom_left [OF seg(2) Cons.prems(3)] headroom_left [OF seg'(2) Cons.prems(4)])
  have "below (Suc n) (fadd unscaled seg)" "below (Suc l) (fadd scaled seg')"
    using Cons.prems(3-8) seg(2) seg'(2) by (auto intro!: fadd_below intro: below_mono)
  from Cons.IH [OF Cons.prems(1) _ this] Cons.prems(2,5-8) seg seg' free show ?case by simp
qed simp

lemma validateWorstCaseCost_bounded:
  assumes "pricing_bounded p" and "\<forall>r \<in> set rules. below 40 (cr_multiplier r)"
  shows "validateWorstCaseCost p rules = Inr ()"
proof (cases "multiplier_or_one (ps_PriceMultiplier p) = Fin 0")
  case True
  then show ?thesis by (simp add: validateWorstCaseCost_def)
next
  case False
  have "\<forall>f. below 40 (max_by_field rules (\<lambda>_. Fin 1) f)" using assms(2) by (simp add: max_by_field_below)
  from max_rule_multiplier_below [OF this below_one, of 0 rule_fields] obtain z
    where z: "max_rule_multiplier rule_fields (max_by_field rules (\<lambda>_. Fin 1)) (Fin 1) = Inr z" "below 360 z"
    by (auto simp: rule_fields_def)
  have "below 40 (multiplier_or_one (ps_PriceMultiplier p))"
    using assms(1) by (simp add: pricing_bounded_def modelPriceMultiplier_def multiplier_or_one_def)
  from safeMultiply_below [OF this z(2)] obtain k
    where k: "safeMultiply (multiplier_or_one (ps_PriceMultiplier p)) z = (k, True)" "below 400 k" by auto
  have "worst_case_total k [ps_PromptPricePer1M p, ps_CompletionPricePer1M p, ps_CacheReadPricePer1M p,
      ps_CacheWritePricePer1M p] (Fin 0) (Fin 0) = Inr ()"
    using assms(1) by (intro worst_case_total_accepts [OF k(2), of _ 84 _ 484]) (simp_all add: pricing_bounded_def)
  with False z k show ?thesis by (simp add: validateWorstCaseCost_def)
qed

lemma validatePricingNumbers_bounded: "pricing_bounded p \<Longrightarrow> validatePricingNumbers p = Inr ()"
  by (auto simp: pricing_bounded_def validatePricingNumbers_def modelPriceMultiplier_def multiplier_or_one_def
      elim!: belowE)

text \<open>
  The overflow guard of the compiler has no false alarms in practice. A model
  with a name, with well-formed rules and with prices and multipliers of up to \<open>2 ^ 40\<close>
  each, in any number of rules, is accepted, although \<open>validateWorstCaseCost\<close> multiplies the
  largest multiplier of every dimension with the cost of \<open>math.MaxInt64\<close> tokens of each
  kind. Its entry has no branches yet, its multiplier is set, and its compiled rules are
  those whose multiplier is not one.
\<close>

theorem overflow_guard_accepts:
  assumes "TrimSpace (ps_Model (mc_Pricing c)) \<noteq> ''''" and "pricing_bounded (mc_Pricing c)"
    and "compile_rules 0 [] (mc_Rules c) = Inr (rules, compiled)"
    and "\<forall>r \<in> set compiled. below 40 (cr_multiplier r)"
  shows "\<exists>n. compileModelConfig c =
    Inr (\<lparr>cm_pricing = (mc_Pricing c)\<lparr>ps_Model := TrimSpace (ps_Model (mc_Pricing c)),
              ps_PriceMultiplier := Some (modelPriceMultiplier (mc_Pricing c))\<rparr>,
          cm_rules = compiled, cm_branches = []\<rparr>, n)"
proof -
  let ?p = "(mc_Pricing c)\<lparr>ps_Model := TrimSpace (ps_Model (mc_Pricing c)),
    ps_PriceMultiplier := Some (modelPriceMultiplier (mc_Pricing c))\<rparr>"
  have p: "(cloneModelPriceSetting (mc_Pricing c))\<lparr>ps_Model := TrimSpace (ps_Model (mc_Pricing c))\<rparr> = ?p"
    by (simp add: cloneModelPriceSetting_def multiplier_or_one_def modelPriceMultiplier_def)
  have b: "pricing_bounded ?p" using assms(2) by (simp add: pricing_bounded_def modelPriceMultiplier_def)
  show ?thesis
    using assms(1,3) validatePricingNumbers_bounded [OF b] validateWorstCaseCost_bounded [OF b assms(4)]
    by (simp add: compileModelConfig_def p Let_def)
qed

end
