(* ===== verification/Pricing_Examples.thy ===== *)
theory Pricing_Examples
  imports Pricing_Cost
begin

text \<open>
  A small price table, compiled: two names of one model, with a night branch and two rules.
  The properties of the price snapshot are applied to it.
\<close>

lemma trimmed_literals [simp]:
  "TrimSpace ''gpt-5'' = ''gpt-5''" "TrimSpace ''openai/gpt-5'' = ''openai/gpt-5''"
  "TrimSpace ''night'' = ''night''" "TrimSpace ''Night'' = ''Night''"
  "TrimSpace ''priority'' = ''priority''" "TrimSpace ''free'' = ''free''"
  by code_simp+

lemma parsed_literals [simp]:
  "ParseRuleField ''service_tier'' = Inr RuleFieldServiceTier"
  "ParseRuleField ''executor_type'' = Inr RuleFieldExecutorType"
  "parseClockMinute ''22:00'' = Inr 1320" "parseClockMinute ''06:00'' = Inr 360"
  by code_simp+

definition shop_rules :: "ruleConfig list" where
  "shop_rules =
     [\<lparr>rc_Key = ''service_tier'', rc_Value = ''priority'', rc_Multiplier = Fin 2\<rparr>,
      \<lparr>rc_Key = ''executor_type'', rc_Value = ''free'', rc_Multiplier = Fin 0\<rparr>]"

definition shop_config :: "string \<Rightarrow> modelPricingConfig" where
  "shop_config name =
     \<lparr>mp_Model = name, mp_PricingStyle = ''openai'', mp_BasePrices = sample_prices,
      mp_ModelMultiplier = Fin 1, mp_ConditionalMultipliers = Some shop_rules,
      mp_Branches = Some [night_branch]\<rparr>"

definition shop_model :: "string \<Rightarrow> compiledModel" where
  "shop_model name =
     \<lparr>cm_pricing =
        \<lparr>ps_Model = name, ps_PricingStyle = ''openai'', ps_PromptPricePer1M = Fin 3,
         ps_CompletionPricePer1M = Fin 15, ps_CacheReadPricePer1M = Fin 0,
         ps_CacheWritePricePer1M = Fin (1 / 4), ps_PriceMultiplier = Some (Fin 1)\<rparr>,
      cm_rules =
        [\<lparr>cr_field = RuleFieldServiceTier, cr_value = ''priority'', cr_multiplier = Fin 2\<rparr>,
         \<lparr>cr_field = RuleFieldExecutorType, cr_value = ''free'', cr_multiplier = Fin 0\<rparr>],
      cm_branches =
        [\<lparr>cb_prices = sample_prices, cb_days = 0x7f, cb_context = \<lparr>ti_min = 1, ti_max = MaxInt64\<rparr>,
          cb_periods = [\<lparr>mi_start = 1320, mi_end = 1440\<rparr>, \<lparr>mi_start = 0, mi_end = 360\<rparr>],
          cb_allDay = False\<rparr>]\<rparr>"

lemma shop_rules_compile:
  "compile_rules 0 [] shop_rules = Inr (shop_rules, cm_rules (shop_model name))"
  by (simp add: shop_rules_def compileRule_def shop_model_def RuleField_String_def Let_def)

definition shop_pricing :: "string \<Rightarrow> modelConfig" where
  "shop_pricing name = \<lparr>mc_Pricing = cm_pricing (shop_model name), mc_Rules = shop_rules\<rparr>"

lemma legacy_shop: "legacy_config (shop_config name) = shop_pricing name"
  by (simp add: legacy_config_def shop_config_def shop_pricing_def shop_model_def sample_prices_def)

lemma below_Fin: "below n (Fin v) \<longleftrightarrow> 0 \<le> v \<and> v \<le> 2 ^ n"
  by (auto simp: below_def)

lemma shop_bounded: "model_bounded (shop_model name)"
  by (simp add: model_bounded_def shop_model_def pricing_bounded_def below_Fin modelPriceMultiplier_def
      branch_pricing_def sample_prices_def)

lemma shop_model_compiles:
  assumes "TrimSpace name = name" and "name \<noteq> ''''"
  shows "compileModelConfig (shop_pricing name)
    = Inr ((shop_model name)\<lparr>cm_branches := []\<rparr>, shop_pricing name)"
proof -
  have b: "pricing_bounded (cm_pricing (shop_model name))"
    "\<forall>r \<in> set (cm_rules (shop_model name)). below 40 (cr_multiplier r)"
    using shop_bounded [of name] by (simp_all add: model_bounded_def)
  have c: "(cm_pricing (shop_model name))\<lparr>ps_Model := name\<rparr> = cm_pricing (shop_model name)"
    "cloneModelPriceSetting (cm_pricing (shop_model name)) = cm_pricing (shop_model name)"
    "ps_Model (cm_pricing (shop_model name)) = name"
    by (simp_all add: cloneModelPriceSetting_def shop_model_def multiplier_or_one_def)
  show ?thesis
    using assms validatePricingNumbers_bounded [OF b(1)] validateWorstCaseCost_bounded [OF b]
    by (simp add: compileModelConfig_def shop_pricing_def c shop_rules_compile [of name] Let_def
        compiledModel.equality)
qed

lemma night_branch_compiles:
  "compilePriceBranch night_branch (cm_pricing (shop_model name)) (cm_rules (shop_model name))
    = Inr (hd (cm_branches (shop_model name)), night_branch)"
proof -
  have b: "pricing_bounded (branch_pricing sample_prices (cm_pricing (shop_model name)))"
    "\<forall>r \<in> set (cm_rules (shop_model name)). below 40 (cr_multiplier r)"
    using shop_bounded [of name] by (simp_all add: model_bounded_def) (simp add: shop_model_def)
  note ok = validatePricingNumbers_bounded [OF b(1)] validateWorstCaseCost_bounded [OF b]
  show ?thesis
    using ok
    by (simp add: compilePriceBranch_def night_branch_def compileContext_def compilePeriod_def compileDays_def
        condition_names maxSafeContextToken_def wrap64_def MaxInt64_def clock_minute_def Let_def)
      (simp add: shop_model_def MaxInt64_def)
qed

definition shop_configs :: "modelPricingConfig list" where
  "shop_configs = [shop_config ''openai/gpt-5'', shop_config ''gpt-5'']"

definition shop_snapshot :: "unit snapshot" where
  "shop_snapshot =
     \<lparr>sn_modelsByName =
        [''openai/gpt-5'' \<mapsto> shop_model ''openai/gpt-5'', ''gpt-5'' \<mapsto> shop_model ''gpt-5''],
      sn_modelConfigs = [shop_pricing ''gpt-5'', shop_pricing ''openai/gpt-5''],
      sn_pricingConfigs = [shop_config ''gpt-5'', shop_config ''openai/gpt-5''],
      sn_location = Some ()\<rparr>"

lemma shop_models_compile:
  "compile_models 0 Map.empty [shop_pricing ''openai/gpt-5'', shop_pricing ''gpt-5''] =
    Inr ([''openai/gpt-5'' \<mapsto> (shop_model ''openai/gpt-5'')\<lparr>cm_branches := []\<rparr>,
          ''gpt-5'' \<mapsto> (shop_model ''gpt-5'')\<lparr>cm_branches := []\<rparr>],
         [shop_pricing ''openai/gpt-5'', shop_pricing ''gpt-5''])"
proof -
  have "ps_Model (mc_Pricing (shop_pricing name)) = name" for name
    by (simp add: shop_pricing_def shop_model_def)
  then show ?thesis by (simp add: shop_model_compiles Let_def)
qed

lemma shop_branches_compile:
  "compile_branches (cm_pricing (shop_model name)) (cm_rules (shop_model name)) [] [] [night_branch]
    = Inr (cm_branches (shop_model name), [night_branch])"
  by (simp add: night_branch_compiles) (simp add: shop_model_def)

lemma shop_complete:
  assumes "TrimSpace name = name" and "models name = Some ((shop_model name)\<lparr>cm_branches := []\<rparr>)"
    and "normalized_model ps name = Some (shop_pricing name)"
  shows "complete_model ps models (shop_config name) = Inr (models(name \<mapsto> shop_model name), shop_config name)"
  using assms
  by (simp add: complete_model_def shop_config_def shop_branches_compile shop_pricing_def multiplier_or_one_def
      del: compile_branches.simps)
    (simp add: shop_model_def)

lemma name_order: "''gpt-5'' \<le> ''openai/gpt-5''" "\<not> ''openai/gpt-5'' \<le> ''gpt-5''"
  by code_simp+

lemma shop_compiles: "CompilePricingSnapshot shop_configs (Some ()) = Inr shop_snapshot"
proof -
  have l: "legacy_configs shop_configs = Inr [shop_pricing ''openai/gpt-5'', shop_pricing ''gpt-5'']"
    by (simp add: shop_configs_def flip: legacy_shop)
      (simp add: shop_config_def ModelPricingStyleOpenAI_def)
  have name: "ps_Model (mc_Pricing (shop_pricing name)) = name" "mp_Model (shop_config name) = name" for name
    by (simp_all add: shop_pricing_def shop_model_def shop_config_def)
  show ?thesis unfolding CompilePricingSnapshot_def l
    by (simp add: CompileSnapshot_def shop_models_compile sort_key_def name
        name_order shop_configs_def shop_complete normalized_model_def shop_snapshot_def fun_upd_twist
        del: compile_models.simps)
qed

section \<open>The properties at this table\<close>

text \<open>An event at 23:30 on a Sunday; the time zone and the time stamp carry no information.\<close>

definition sunday_night :: "(unit, unit) wall" where
  "sunday_night = (\<lambda>_ _. \<lparr>wc_Weekday = 0, wc_Hour = 23, wc_Minute = 30\<rparr>)"

definition shop_dimensions :: usageDimensions where
  "shop_dimensions =
     \<lparr>ud_APIGroupKey = ''key'', ud_Model = ''openai/gpt-5'', ud_AuthIndex = '''', ud_ModelAlias = '''',
      ud_ServiceTier = ''priority'', ud_ResponseServiceTier = '''', ud_ReasoningEffort = '''',
      ud_Endpoint = '''', ud_ExecutorType = ''free''\<rparr>"

definition shop_event :: "unit costSubject" where
  "shop_event =
     \<lparr>cs_Dimensions = shop_dimensions,
      cs_Tokens = \<lparr>ct_InputTokens = 1000, ct_OutputTokens = 200, ct_CacheReadTokens = - 5, ct_CacheCreationTokens = 10\<rparr>,
      cs_Timestamp = ()\<rparr>"

lemma shop_entries:
  "sn_modelsByName shop_snapshot ''gpt-5'' = Some (shop_model ''gpt-5'')"
  "sn_modelsByName shop_snapshot ''openai/gpt-5'' = Some (shop_model ''openai/gpt-5'')"
  by (simp_all add: shop_snapshot_def)

lemma shop_all_bounded: "\<forall>m \<in> ran (sn_modelsByName shop_snapshot). model_bounded m"
  by (auto simp: shop_snapshot_def ran_def shop_bounded split: if_splits)

lemma shop_tokens: "cost_tokens_int64 (cs_Tokens shop_event)"
  by (simp add: shop_event_def cost_tokens_int64_def int64_bounds)

theorem event_prices_follow_config_witness:
  "\<exists>c \<in> set (sn_pricingConfigs shop_snapshot). \<exists>branches.
    mp_Model c = ''gpt-5'' \<and> mp_Branches c = Some branches
    \<and> (let holds = (\<lambda>b. branch_holds b (max (ct_InputTokens (cs_Tokens shop_event)) 0) (sunday_night () (cs_Timestamp shop_event)));
           selected = select_pricing sunday_night (Some ()) (shop_model ''gpt-5'') shop_event
       in (\<forall>b \<in> set branches. holds b \<longrightarrow> selected = branch_pricing (pb_Prices b) (cm_pricing (shop_model ''gpt-5'')))
          \<and> ((\<forall>b \<in> set branches. \<not> holds b) \<longrightarrow> selected = cm_pricing (shop_model ''gpt-5'')))"
  by (rule event_prices_follow_config [OF shop_compiles shop_entries(1)])
    (simp_all add: sunday_night_def valid_clock_def shop_event_def int64_bounds)

theorem branch_conflicts_exact_witness:
  "(\<exists>compiled normalized. compile_branches (cm_pricing (shop_model ''gpt-5'')) (cm_rules (shop_model ''gpt-5'')) [] []
      [night_branch] = Inr (compiled, normalized)) \<longleftrightarrow>
    \<not> (\<exists>i j t clock. i < j \<and> j < length [(hd (cm_branches (shop_model ''gpt-5'')), night_branch)]
         \<and> is_count t \<and> valid_clock clock
         \<and> branch_holds (snd ([(hd (cm_branches (shop_model ''gpt-5'')), night_branch)] ! i)) t clock
         \<and> branch_holds (snd ([(hd (cm_branches (shop_model ''gpt-5'')), night_branch)] ! j)) t clock)"
  by (rule branch_conflicts_exact) (simp_all add: night_branch_compiles)

theorem fee_finite_nonneg_witness:
  "\<exists>v \<ge> 0. fr_TotalCostUSD (CalculateFee sunday_night (Some shop_snapshot) shop_event) = Fin v"
  by (rule fee_finite_nonneg [OF shop_compiles shop_all_bounded shop_tokens])

theorem fee_zero_witness:
  "CalculateFee sunday_night (Some shop_snapshot) shop_event = \<lparr>fr_TotalCostUSD = Fin 0, fr_Available = True\<rparr>"
proof (rule fee_zero [OF shop_compiles shop_all_bounded shop_tokens])
  show "matchModel (Some shop_snapshot) (cs_Dimensions shop_event) = Some (shop_model ''openai/gpt-5'')"
    by (simp add: matchModel_def shop_event_def shop_dimensions_def shop_entries)
qed (simp add: shop_model_def shop_event_def shop_dimensions_def)

lemma shop_canonical_model: "ud_Model (canonicalizeUsageDimensions shop_dimensions) = ''openai/gpt-5''"
  by (simp add: canonicalizeUsageDimensions_def canonicalRequiredDimension_def shop_dimensions_def)

lemma shop_resolved_name: "ResolveModelName (Some shop_snapshot) shop_dimensions = ''gpt-5''"
proof -
  have "sameBilling (shop_model ''openai/gpt-5'') (shop_model ''gpt-5'')"
    by (simp add: sameBilling_def shop_model_def priceMultiplierValue_def)
  then show ?thesis
    by (simp add: ResolveModelName_def shop_canonical_model stripProviderPrefix_def shop_entries)
qed

theorem merged_names_bill_alike_witness:
  "\<exists>bare priced.
    stripProviderPrefix (ud_Model (canonicalizeUsageDimensions shop_dimensions)) = Some (ResolveModelName (Some shop_snapshot) shop_dimensions)
    \<and> sn_modelsByName shop_snapshot (ResolveModelName (Some shop_snapshot) shop_dimensions) = Some bare
    \<and> matchModel (Some shop_snapshot) (canonicalizeUsageDimensions shop_dimensions) = Some priced
    \<and> cm_pricing priced = (cm_pricing bare)\<lparr>ps_Model := ps_Model (cm_pricing priced)\<rparr>
    \<and> cm_branches priced = cm_branches bare
    \<and> mset (cm_rules priced) = mset (cm_rules bare)"
  by (rule merged_names_bill_alike [OF shop_compiles]) (simp add: shop_resolved_name shop_canonical_model)

theorem overflow_guard_accepts_witness:
  "\<exists>n. compileModelConfig (shop_pricing ''gpt-5'') =
    Inr (\<lparr>cm_pricing = (mc_Pricing (shop_pricing ''gpt-5''))\<lparr>ps_Model := TrimSpace (ps_Model (mc_Pricing (shop_pricing ''gpt-5''))),
              ps_PriceMultiplier := Some (modelPriceMultiplier (mc_Pricing (shop_pricing ''gpt-5'')))\<rparr>,
          cm_rules = cm_rules (shop_model ''gpt-5''), cm_branches = []\<rparr>, n)"
  by (rule overflow_guard_accepts [where rules = shop_rules])
    (use shop_bounded [of "''gpt-5''"] shop_rules_compile [of "''gpt-5''"] in
      \<open>simp_all add: shop_pricing_def model_bounded_def shop_model_def\<close>)

end
