(* ===== verification/Work_Gate.thy ===== *)
theory Work_Gate
  imports Keeper_Prelude
begin

text \<open>
  The gate that stops usage work while prices are recalculated:
  \<open>src/internal/service/usage_work_gate.go\<close>. Every section between \<open>mu.Lock\<close> and
  \<open>mu.Unlock\<close> is one atomic operation on the gate. The goroutines that use the gate are a
  step relation over these operations; a context may end at any moment. A broadcast
  channel is a number, and closing it wakes its waiters; channels are never reused.
\<close>


section \<open>Operations under the lock\<close>

record workGate =
  wg_changed :: "nat option"
  wg_paused :: bool
  wg_active :: int
  wg_closed :: "nat set"
  wg_fresh :: nat

text \<open>\<open>wg_closed\<close> and \<open>wg_fresh\<close> stand for the run-time state of the channels.\<close>

definition new_gate :: workGate where
  "new_gate = \<lparr>wg_changed = None, wg_paused = False, wg_active = 0, wg_closed = {}, wg_fresh = 0\<rparr>"

definition changeChannelLocked :: "'a workGate_scheme \<Rightarrow> 'a workGate_scheme \<times> nat" where
  "changeChannelLocked g =
     (case wg_changed g of
        None \<Rightarrow> (g\<lparr>wg_changed := Some (wg_fresh g), wg_fresh := Suc (wg_fresh g)\<rparr>, wg_fresh g)
      | Some ch \<Rightarrow> (g, ch))"

definition notifyLocked :: "'a workGate_scheme \<Rightarrow> 'a workGate_scheme" where
  "notifyLocked g =
     (case wg_changed g of
        None \<Rightarrow> g
      | Some ch \<Rightarrow> g\<lparr>wg_closed := insert ch (wg_closed g), wg_changed := None\<rparr>)"

text \<open>
  One round of the loop of \<open>enter\<close>: \<open>ctx_err\<close> says whether the context has ended. The
  outcome is an error, a permit, or a channel to wait on.
\<close>

datatype outcome = Failed | Granted | WaitOn nat

definition enter_round :: "bool \<Rightarrow> 'a workGate_scheme \<Rightarrow> 'a workGate_scheme \<times> outcome" where
  "enter_round ctx_err g =
     (if ctx_err then (g, Failed)
      else if \<not> wg_paused g then (g\<lparr>wg_active := wg_active g + 1\<rparr>, Granted)
      else (case changeChannelLocked g of (g', ch) \<Rightarrow> (g', WaitOn ch)))"

definition leave :: "'a workGate_scheme \<Rightarrow> 'a workGate_scheme" where
  "leave g =
     (let g' = g\<lparr>wg_active := wg_active g - 1\<rparr> in if wg_active g' = 0 then notifyLocked g' else g')"

text \<open>The first section of \<open>pause\<close>, the rounds of its loop, and the function it returns.\<close>

definition pause_begin :: "bool \<Rightarrow> 'a workGate_scheme \<Rightarrow> 'a workGate_scheme \<times> outcome" where
  "pause_begin ctx_err g =
     (if ctx_err then (g, Failed)
      else if wg_paused g then (g, Failed)
      else (g\<lparr>wg_paused := True\<rparr>, Granted))"

definition pause_round :: "bool \<Rightarrow> 'a workGate_scheme \<Rightarrow> 'a workGate_scheme \<times> outcome" where
  "pause_round ctx_err g =
     (if ctx_err then (g, Failed)
      else if wg_active g = 0 then (g, Granted)
      else (case changeChannelLocked g of (g', ch) \<Rightarrow> (g', WaitOn ch)))"

definition resume :: "'a workGate_scheme \<Rightarrow> 'a workGate_scheme" where
  "resume g = notifyLocked (g\<lparr>wg_paused := False\<rparr>)"


section \<open>Goroutines\<close>

text \<open>
  Where a goroutine is: outside, in the loop of \<open>enter\<close>, waiting there, inside with a
  permit, in the loop of \<open>pause\<close>, waiting there, holding a completed pause, or about to
  call \<open>resume\<close> after its context has ended.
\<close>

datatype place =
    Outside
  | Entering
  | EnterWait nat
  | Inside
  | Pausing
  | PauseWait nat
  | Holding
  | Cancelling

record world =
  w_gate :: workGate
  w_place :: "nat \<Rightarrow> place"

definition at :: "world \<Rightarrow> nat \<Rightarrow> workGate \<Rightarrow> place \<Rightarrow> world" where
  "at w t g p = \<lparr>w_gate = g, w_place = (w_place w)(t := p)\<rparr>"

fun after_enter :: "outcome \<Rightarrow> place" where
  "after_enter Failed = Outside"
| "after_enter Granted = Inside"
| "after_enter (WaitOn ch) = EnterWait ch"

fun after_pause :: "outcome \<Rightarrow> place" where
  "after_pause Failed = Cancelling"
| "after_pause Granted = Holding"
| "after_pause (WaitOn ch) = PauseWait ch"

inductive step :: "world \<Rightarrow> world \<Rightarrow> bool" where
  call_enter: "w_place w t = Outside \<Longrightarrow> step w (at w t (w_gate w) Entering)"
| enter: "w_place w t = Entering \<Longrightarrow> enter_round ctx_err (w_gate w) = (g, r) \<Longrightarrow> step w (at w t g (after_enter r))"
| enter_woken: "w_place w t = EnterWait ch \<Longrightarrow> ch \<in> wg_closed (w_gate w) \<Longrightarrow> step w (at w t (w_gate w) Entering)"
| enter_cancelled: "w_place w t = EnterWait ch \<Longrightarrow> step w (at w t (w_gate w) Outside)"
| work_done: "w_place w t = Inside \<Longrightarrow> step w (at w t (leave (w_gate w)) Outside)"
| call_pause: "w_place w t = Outside \<Longrightarrow> pause_begin ctx_err (w_gate w) = (g, Granted) \<Longrightarrow> step w (at w t g Pausing)"
| call_pause_refused: "w_place w t = Outside \<Longrightarrow> pause_begin ctx_err (w_gate w) = (g, Failed) \<Longrightarrow> step w (at w t g Outside)"
| pause: "w_place w t = Pausing \<Longrightarrow> pause_round ctx_err (w_gate w) = (g, r) \<Longrightarrow> step w (at w t g (after_pause r))"
| pause_woken: "w_place w t = PauseWait ch \<Longrightarrow> ch \<in> wg_closed (w_gate w) \<Longrightarrow> step w (at w t (w_gate w) Pausing)"
| pause_cancelled: "w_place w t = PauseWait ch \<Longrightarrow> step w (at w t (w_gate w) Cancelling)"
| cancel: "w_place w t = Cancelling \<Longrightarrow> step w (at w t (resume (w_gate w)) Outside)"
| resumed: "w_place w t = Holding \<Longrightarrow> step w (at w t (resume (w_gate w)) Outside)"

definition start :: world where
  "start = \<lparr>w_gate = new_gate, w_place = (\<lambda>_. Outside)\<rparr>"


section \<open>The contract of a gate\<close>

text \<open>
  What the recalculation relies on, whatever gate it uses: while a goroutine holds the
  gate nobody is inside, and at most one goroutine holds it.
\<close>

locale exclusive_gate =
  fixes step :: "'w \<Rightarrow> 'w \<Rightarrow> bool"
    and start :: 'w
    and inside :: "'w \<Rightarrow> nat set"
    and holding :: "'w \<Rightarrow> nat \<Rightarrow> bool"
    and inv :: "'w \<Rightarrow> bool"
  assumes inv_start: "inv start"
    and inv_step: "step w w' \<Longrightarrow> inv w \<Longrightarrow> inv w'"
    and nobody_inside: "inv w \<Longrightarrow> holding w t \<Longrightarrow> inside w = {}"
    and one_holder: "inv w \<Longrightarrow> holding w t \<Longrightarrow> holding w u \<Longrightarrow> u = t"
begin

lemma reached_inv: "step\<^sup>*\<^sup>* start w \<Longrightarrow> inv w"
  by (induction rule: rtranclp_induct) (auto intro: inv_start inv_step)

lemma exclusion:
  "step\<^sup>*\<^sup>* start w \<Longrightarrow> holding w t \<Longrightarrow> inside w = {} \<and> (\<forall>u. holding w u \<longrightarrow> u = t)"
  using reached_inv nobody_inside one_holder by blast

end


section \<open>Invariant\<close>

fun pausing_place :: "place \<Rightarrow> bool" where
  "pausing_place Pausing = True"
| "pausing_place (PauseWait _) = True"
| "pausing_place Holding = True"
| "pausing_place Cancelling = True"
| "pausing_place _ = False"

definition workers :: "world \<Rightarrow> nat set" where
  "workers w = {t. w_place w t = Inside}"

definition pausers :: "world \<Rightarrow> nat set" where
  "pausers w = {t. pausing_place (w_place w t)}"

lemma workers_at: "workers (at w t g p) = (if p = Inside then insert t (workers w) else workers w - {t})"
  by (auto simp: workers_def at_def)

lemma pausers_at: "pausers (at w t g p) = (if pausing_place p then insert t (pausers w) else pausers w - {t})"
  by (auto simp: pausers_def at_def)

lemma gate_at [simp]: "w_gate (at w t g p) = g" "w_place (at w t g p) = (w_place w)(t := p)"
  by (simp_all add: at_def)

lemma worker_iff: "t \<in> workers w \<longleftrightarrow> w_place w t = Inside"
  by (simp add: workers_def)

lemma pauser_iff: "t \<in> pausers w \<longleftrightarrow> pausing_place (w_place w t)"
  by (simp add: pausers_def)

lemmas gate_ops =
  enter_round_def leave_def pause_begin_def pause_round_def resume_def changeChannelLocked_def
  notifyLocked_def Let_def

text \<open>
  Who is inside and who pauses: the active count is the number of goroutines inside, the
  gate is paused exactly while one goroutine pauses it, and nobody is inside while it holds
  the completed pause.
\<close>

definition counts_inv :: "world \<Rightarrow> bool" where
  "counts_inv w \<longleftrightarrow>
     finite (workers w) \<and> wg_active (w_gate w) = int (card (workers w))
     \<and> (if wg_paused (w_gate w) then \<exists>t. pausers w = {t} else pausers w = {})
     \<and> (\<forall>t. w_place w t = Holding \<longrightarrow> workers w = {})"

lemma counts_inv_start: "counts_inv start"
  by (simp add: counts_inv_def start_def new_gate_def workers_def pausers_def)

lemma op_counts [simp]:
  "wg_active (notifyLocked g) = wg_active g" "wg_paused (notifyLocked g) = wg_paused g"
  by (simp_all add: notifyLocked_def split: option.splits)

lemma channel_counts:
  "changeChannelLocked g = (g', ch) \<Longrightarrow> wg_active g' = wg_active g \<and> wg_paused g' = wg_paused g"
  by (auto simp: changeChannelLocked_def split: option.splits)

lemma only_pauser:
  "counts_inv w \<Longrightarrow> pausing_place (w_place w t) \<Longrightarrow> wg_paused (w_gate w) \<and> pausers w = {t}"
  using pauser_iff [of t w] by (auto simp: counts_inv_def split: if_splits)

text \<open>A goroutine that moves between places that are neither inside nor pausing.\<close>

lemma counts_inv_idle:
  assumes "counts_inv w" and "w_place w t \<noteq> Inside" and "p \<noteq> Inside"
    and "\<not> pausing_place (w_place w t)" and "\<not> pausing_place p"
    and "wg_active g = wg_active (w_gate w)" and "wg_paused g = wg_paused (w_gate w)"
  shows "counts_inv (at w t g p)"
proof -
  have "workers (at w t g p) = workers w" "pausers (at w t g p) = pausers w"
    using assms(2-5) by (auto simp: workers_at pausers_at worker_iff pauser_iff)
  with assms show ?thesis by (auto simp: counts_inv_def)
qed

text \<open>The pausing goroutine moves on, and only holds the gate when nobody is inside.\<close>

lemma counts_inv_pausing:
  assumes "counts_inv w" and "pausing_place (w_place w t)" and "pausing_place p"
    and "wg_active g = wg_active (w_gate w)" and "wg_paused g = wg_paused (w_gate w)"
    and "p = Holding \<Longrightarrow> wg_active g = 0"
  shows "counts_inv (at w t g p)"
proof -
  have "t \<notin> workers w" "p \<noteq> Inside" using assms(2,3) by (auto simp: worker_iff)
  then have w: "workers (at w t g p) = workers w" by (auto simp: workers_at)
  have "pausers (at w t g p) = pausers w" using assms(2,3) by (auto simp: pausers_at pauser_iff)
  moreover have "workers w = {}" if "p = Holding"
    using assms(1,4,6) that by (simp add: counts_inv_def)
  ultimately show ?thesis using assms(1,4,5) w by (auto simp: counts_inv_def)
qed

text \<open>The pause ends.\<close>

lemma counts_inv_resume:
  assumes "counts_inv w" and "pausing_place (w_place w t)"
  shows "counts_inv (at w t (resume (w_gate w)) Outside)"
proof -
  have "t \<notin> workers w" using assms(2) by (auto simp: worker_iff)
  then have "workers (at w t g Outside) = workers w" for g by (auto simp: workers_at)
  moreover have "pausers (at w t g Outside) = {}" for g
    using only_pauser [OF assms] by (auto simp: pausers_at)
  moreover have "w_place w u \<noteq> Holding" if "u \<noteq> t" for u
    using only_pauser [OF assms] that pauser_iff [of u w] by (metis pausing_place.simps(3) singletonD)
  ultimately show ?thesis using assms(1) by (simp add: counts_inv_def resume_def)
qed

lemma counts_inv_enter:
  assumes "counts_inv w" and "w_place w t = Entering" and "\<not> wg_paused (w_gate w)"
  shows "counts_inv (at w t ((w_gate w)\<lparr>wg_active := wg_active (w_gate w) + 1\<rparr>) Inside)"
proof -
  have "t \<notin> workers w" using assms(2) by (simp add: worker_iff)
  moreover have none: "pausers w = {}" using assms(1,3) by (simp add: counts_inv_def)
  moreover have "w_place w u \<noteq> Holding" for u using none pauser_iff [of u w] by auto
  ultimately show ?thesis using assms by (simp add: counts_inv_def workers_at pausers_at)
qed

lemma counts_inv_leave:
  assumes "counts_inv w" and "w_place w t = Inside"
  shows "counts_inv (at w t (leave (w_gate w)) Outside)"
proof -
  have t: "t \<in> workers w" "t \<notin> pausers w" using assms(2) by (simp_all add: worker_iff pauser_iff)
  have "wg_active (leave g) = wg_active g - 1" "wg_paused (leave g) = wg_paused g" for g :: workGate
    by (simp_all add: leave_def Let_def)
  moreover have "int (card (workers w - {t})) = int (card (workers w)) - 1"
    using t assms(1) card_gt_0_iff [of "workers w"] by (auto simp: counts_inv_def of_nat_diff)
  ultimately show ?thesis using assms t by (auto simp: counts_inv_def workers_at pausers_at)
qed

lemma counts_inv_pause:
  assumes "counts_inv w" and "w_place w t = Outside" and "\<not> wg_paused (w_gate w)"
  shows "counts_inv (at w t ((w_gate w)\<lparr>wg_paused := True\<rparr>) Pausing)"
proof -
  have "t \<notin> workers w" using assms(2) by (simp add: worker_iff)
  moreover have "pausers w = {}" using assms(1,3) by (simp add: counts_inv_def)
  ultimately show ?thesis using assms by (auto simp: counts_inv_def workers_at pausers_at)
qed

lemma counts_inv_step:
  assumes "step w w'" and "counts_inv w"
  shows "counts_inv w'"
  using assms(1)
proof cases
  case (enter t ctx_err g r)
  show ?thesis
  proof (cases "ctx_err \<or> wg_paused (w_gate w)")
    case True
    with enter assms(2) show ?thesis
      by (auto simp: enter_round_def split: if_splits prod.splits dest!: channel_counts intro!: counts_inv_idle)
  next
    case False
    with enter assms(2) show ?thesis by (auto simp: enter_round_def intro!: counts_inv_enter)
  qed
next
  case (pause t ctx_err g r)
  with assms(2) show ?thesis
    by (auto simp: pause_round_def split: if_splits prod.splits
        dest!: channel_counts intro!: counts_inv_pausing)
next
  case (call_pause t ctx_err g)
  with assms(2) show ?thesis by (auto simp: pause_begin_def counts_inv_pause split: if_splits)
next
  case (call_pause_refused t ctx_err g)
  with assms(2) show ?thesis by (auto simp: pause_begin_def intro!: counts_inv_idle split: if_splits)
next
  case (pause_woken t ch)
  with assms(2) show ?thesis by (auto intro!: counts_inv_pausing)
next
  case (pause_cancelled t ch)
  with assms(2) show ?thesis by (auto intro!: counts_inv_pausing)
qed (use assms(2) in \<open>simp_all add: counts_inv_idle counts_inv_pausing counts_inv_leave counts_inv_resume\<close>)


text \<open>
  The channels: the ones in use are older than the fresh one and the current channel is
  open; whoever waits on a channel that is still open waits on the current one, and still
  has a reason to: the gate is paused, or somebody is inside.
\<close>

definition chan_ok :: "workGate \<Rightarrow> bool" where
  "chan_ok g \<longleftrightarrow>
     (\<forall>ch \<in> wg_closed g. ch < wg_fresh g)
     \<and> (\<forall>ch. wg_changed g = Some ch \<longrightarrow> ch < wg_fresh g \<and> ch \<notin> wg_closed g)"

fun wait_ok :: "workGate \<Rightarrow> place \<Rightarrow> bool" where
  "wait_ok g (EnterWait ch) = (ch \<in> wg_closed g \<or> wg_changed g = Some ch \<and> wg_paused g)"
| "wait_ok g (PauseWait ch) = (ch \<in> wg_closed g \<or> wg_changed g = Some ch \<and> wg_active g \<noteq> 0)"
| "wait_ok g _ = True"

definition channels_inv :: "world \<Rightarrow> bool" where
  "channels_inv w \<longleftrightarrow> chan_ok (w_gate w) \<and> (\<forall>t. wait_ok (w_gate w) (w_place w t))"

lemma channels_inv_start: "channels_inv start"
  by (simp add: channels_inv_def chan_ok_def start_def new_gate_def)

lemma channels_inv_at:
  assumes "channels_inv w" and "chan_ok g" and "wait_ok g p"
    and "\<And>q. wait_ok (w_gate w) q \<Longrightarrow> wait_ok g q"
  shows "channels_inv (at w t g p)"
  using assms by (simp add: channels_inv_def)

lemma chan_ok_ops:
  "chan_ok g \<Longrightarrow> chan_ok (notifyLocked g)"
  "chan_ok g \<Longrightarrow> changeChannelLocked g = (g', ch) \<Longrightarrow> chan_ok g'"
  "chan_ok (g\<lparr>wg_active := a\<rparr>) = chan_ok g" "chan_ok (g\<lparr>wg_paused := b\<rparr>) = chan_ok g"
  by (fastforce simp: chan_ok_def notifyLocked_def changeChannelLocked_def split: option.splits)+

text \<open>Closing the current channel wakes everyone.\<close>

lemma wait_ok_notify:
  "wait_ok g q \<Longrightarrow> wait_ok (notifyLocked (g\<lparr>wg_active := a\<rparr>)) q"
  "wait_ok g q \<Longrightarrow> wait_ok (notifyLocked (g\<lparr>wg_paused := b\<rparr>)) q"
  by (cases q; auto simp: notifyLocked_def split: option.splits)+

text \<open>A goroutine that starts waiting under the lock has a reason to.\<close>

lemma wait_ok_channel:
  assumes "changeChannelLocked g = (g', ch)"
  shows "wait_ok g q \<Longrightarrow> wait_ok g' q"
    and "wg_paused g \<Longrightarrow> wait_ok g' (EnterWait ch)" and "wg_active g \<noteq> 0 \<Longrightarrow> wait_ok g' (PauseWait ch)"
  using assms by (cases q; auto simp: changeChannelLocked_def split: option.splits)+

lemma wait_ok_counts:
  "wait_ok g q \<Longrightarrow> (wg_active g \<noteq> 0 \<Longrightarrow> a \<noteq> 0) \<Longrightarrow> wait_ok (g\<lparr>wg_active := a\<rparr>) q"
  "wait_ok g q \<Longrightarrow> wait_ok (g\<lparr>wg_paused := True\<rparr>) q"
  by (cases q; auto)+

lemma channels_inv_enter:
  assumes "channels_inv w" and "0 \<le> wg_active (w_gate w)" and "enter_round ctx_err (w_gate w) = (g, r)"
  shows "channels_inv (at w t g (after_enter r))"
proof -
  have ok: "chan_ok (w_gate w)" using assms(1) by (simp add: channels_inv_def)
  from assms(3) consider "g = w_gate w" "r = Failed"
    | "g = (w_gate w)\<lparr>wg_active := wg_active (w_gate w) + 1\<rparr>" "r = Granted"
    | ch where "changeChannelLocked (w_gate w) = (g, ch)" "r = WaitOn ch" "wg_paused (w_gate w)"
    by (auto simp: enter_round_def split: if_splits prod.splits)
  then show ?thesis
  proof cases
    case 2
    have "wait_ok g q" if "wait_ok (w_gate w) q" for q
      unfolding 2 using that assms(2) by (intro wait_ok_counts) simp_all
    with 2 ok show ?thesis by (intro channels_inv_at [OF assms(1)]) (simp_all add: chan_ok_ops)
  next
    case 3
    with ok show ?thesis
      by (intro channels_inv_at [OF assms(1)]) (simp_all add: chan_ok_ops wait_ok_channel del: wait_ok.simps)
  qed (use ok in \<open>simp add: channels_inv_at [OF assms(1)]\<close>)
qed

lemma channels_inv_pause:
  assumes "channels_inv w" and "pause_round ctx_err (w_gate w) = (g, r)"
  shows "channels_inv (at w t g (after_pause r))"
proof -
  have ok: "chan_ok (w_gate w)" using assms(1) by (simp add: channels_inv_def)
  from assms(2) consider "g = w_gate w" "r = Failed \<or> r = Granted"
    | ch where "changeChannelLocked (w_gate w) = (g, ch)" "r = WaitOn ch" "wg_active (w_gate w) \<noteq> 0"
    by (auto simp: pause_round_def split: if_splits prod.splits)
  then show ?thesis
  proof cases
    case 1
    then have "wait_ok g (after_pause r)" by auto
    with 1 ok show ?thesis by (simp add: channels_inv_at [OF assms(1)])
  next
    case 2
    with ok show ?thesis
      by (intro channels_inv_at [OF assms(1)]) (simp_all add: chan_ok_ops wait_ok_channel del: wait_ok.simps)
  qed
qed

lemma channels_inv_ops:
  assumes "channels_inv w"
  shows "channels_inv (at w t (leave (w_gate w)) Outside)"
    and "channels_inv (at w t (resume (w_gate w)) Outside)"
    and "channels_inv (at w t ((w_gate w)\<lparr>wg_paused := True\<rparr>) Pausing)"
proof -
  have ok: "chan_ok (w_gate w)" using assms by (simp add: channels_inv_def)
  show "channels_inv (at w t (leave (w_gate w)) Outside)"
    by (rule channels_inv_at [OF assms])
      (use ok in \<open>auto simp: leave_def Let_def chan_ok_ops wait_ok_notify intro!: wait_ok_counts\<close>)
  show "channels_inv (at w t (resume (w_gate w)) Outside)"
    by (rule channels_inv_at [OF assms]) (use ok in \<open>simp_all add: resume_def chan_ok_ops wait_ok_notify\<close>)
  show "channels_inv (at w t ((w_gate w)\<lparr>wg_paused := True\<rparr>) Pausing)"
    by (rule channels_inv_at [OF assms]) (use ok in \<open>simp_all add: chan_ok_ops wait_ok_counts\<close>)
qed

lemma channels_inv_step:
  assumes "step w w'" and "counts_inv w" and "channels_inv w"
  shows "channels_inv w'"
proof -
  have ok: "chan_ok (w_gate w)" and active: "0 \<le> wg_active (w_gate w)"
    using assms(2,3) by (simp_all add: channels_inv_def counts_inv_def)
  from assms(1) show ?thesis
  proof cases
    case (call_pause t ctx_err g)
    then have "g = (w_gate w)\<lparr>wg_paused := True\<rparr>" by (auto simp: pause_begin_def split: if_splits)
    with call_pause show ?thesis by (simp add: channels_inv_ops [OF assms(3)])
  next
    case (call_pause_refused t ctx_err g)
    then have "g = w_gate w" by (auto simp: pause_begin_def split: if_splits)
    with ok call_pause_refused show ?thesis by (simp add: channels_inv_at [OF assms(3)])
  qed (simp_all add: channels_inv_at [OF assms(3)] ok active channels_inv_ops [OF assms(3)]
        channels_inv_enter [OF assms(3)] channels_inv_pause [OF assms(3)])
qed

definition gate_inv :: "world \<Rightarrow> bool" where
  "gate_inv w \<longleftrightarrow> counts_inv w \<and> channels_inv w"

definition holding :: "world \<Rightarrow> nat \<Rightarrow> bool" where
  "holding w t \<longleftrightarrow> w_place w t = Holding"

lemma one_pauser: "counts_inv w \<Longrightarrow> t \<in> pausers w \<Longrightarrow> u \<in> pausers w \<Longrightarrow> u = t"
  by (auto simp: counts_inv_def split: if_splits)

interpretation work: exclusive_gate step start workers holding gate_inv
proof
  show "gate_inv start" by (simp add: gate_inv_def counts_inv_start channels_inv_start)
  show "step w w' \<Longrightarrow> gate_inv w \<Longrightarrow> gate_inv w'" for w w'
    by (simp add: gate_inv_def counts_inv_step channels_inv_step)
  show "gate_inv w \<Longrightarrow> holding w t \<Longrightarrow> workers w = {}" for w t
    unfolding gate_inv_def counts_inv_def holding_def by blast
  show "gate_inv w \<Longrightarrow> holding w t \<Longrightarrow> holding w u \<Longrightarrow> u = t" for w t u
    by (auto simp: gate_inv_def holding_def pauser_iff intro: one_pauser)
qed


section \<open>Properties\<close>

text \<open>
  Claim C20. Usage work and a completed pause exclude each other. In every state that any
  number of goroutines can reach through the gate, with contexts ending at any moment,
  while one goroutine holds a completed pause no goroutine is between its admission and
  its leave, the gate counts zero active calls and refuses admission, and no other
  goroutine has or is getting a pause.
\<close>

theorem pause_excludes_work:
  assumes "step\<^sup>*\<^sup>* start w" and "w_place w t = Holding"
  shows "(\<forall>u. w_place w u \<noteq> Inside) \<and> wg_active (w_gate w) = 0 \<and> wg_paused (w_gate w)
    \<and> (\<forall>u. u \<noteq> t \<longrightarrow> \<not> pausing_place (w_place w u))"
proof -
  have inv: "counts_inv w" using work.reached_inv [OF assms(1)] by (simp add: gate_inv_def)
  have "workers w = {}" using work.exclusion [OF assms(1), of t] assms(2) by (simp add: holding_def)
  with inv only_pauser [OF inv, of t] assms(2) show ?thesis
    using worker_iff [of _ w] pauser_iff [of _ w] by (auto simp: counts_inv_def)
qed

text \<open>
  Claim C21. The gate loses no wake-up and leaves no pause behind. In every reachable state:
  a goroutine that waits to enter although the gate is open, or waits for work to settle
  although nobody is inside, has been woken; the gate counts exactly the goroutines inside;
  and it is paused only while exactly one goroutine is pausing it, so a cancelled or
  finished pause always opens it again.
\<close>

theorem gate_wakes_waiters:
  assumes "step\<^sup>*\<^sup>* start w"
  shows "(w_place w t = EnterWait ch \<longrightarrow> wg_paused (w_gate w) \<or> ch \<in> wg_closed (w_gate w))
    \<and> (w_place w t = PauseWait ch \<longrightarrow> (\<exists>u. w_place w u = Inside) \<or> ch \<in> wg_closed (w_gate w))
    \<and> wg_active (w_gate w) = int (card {u. w_place w u = Inside})
    \<and> (wg_paused (w_gate w) \<longleftrightarrow> (\<exists>!u. pausing_place (w_place w u)))"
proof -
  have inv: "counts_inv w" "wait_ok (w_gate w) (w_place w t)"
    using work.reached_inv [OF assms] by (simp_all add: gate_inv_def channels_inv_def)
  have "wg_active (w_gate w) \<noteq> 0 \<Longrightarrow> \<exists>u. w_place w u = Inside"
    using inv(1) by (auto simp: counts_inv_def workers_def)
  moreover have "wg_paused (w_gate w) \<longleftrightarrow> (\<exists>!u. pausing_place (w_place w u))"
    using inv(1) unfolding pauser_iff [of _ w, symmetric] by (cases "wg_paused (w_gate w)") (auto simp: counts_inv_def)
  moreover have "wg_active (w_gate w) = int (card {u. w_place w u = Inside})"
    using inv(1) by (simp add: counts_inv_def workers_def)
  ultimately show ?thesis using inv(2) by (auto split: if_splits)
qed

text \<open>A run: one goroutine pauses an idle gate, another one then waits to enter.\<close>

definition held_world :: world where
  "held_world = \<lparr>w_gate = new_gate\<lparr>wg_paused := True\<rparr>, w_place = (\<lambda>_. Outside)(7 := Holding)\<rparr>"

lemma held_world_reached: "step\<^sup>*\<^sup>* start held_world"
proof -
  let ?p = "at start 7 (new_gate\<lparr>wg_paused := True\<rparr>) Pausing"
  have "step start ?p"
    by (rule step.call_pause [where ctx_err = False]) (simp_all add: start_def pause_begin_def new_gate_def)
  moreover have "step ?p (at ?p 7 (new_gate\<lparr>wg_paused := True\<rparr>) (after_pause Granted))"
    by (rule step.pause [where ctx_err = False]) (simp_all add: pause_round_def new_gate_def)
  moreover have "at ?p 7 (new_gate\<lparr>wg_paused := True\<rparr>) (after_pause Granted) = held_world"
    by (simp add: held_world_def at_def start_def)
  ultimately show ?thesis by (metis converse_rtranclp_into_rtranclp r_into_rtranclp)
qed

text \<open>Another goroutine then tries to enter and waits for the pause to end.\<close>

definition waiting_world :: world where
  "waiting_world =
     \<lparr>w_gate = new_gate\<lparr>wg_paused := True, wg_changed := Some 0, wg_fresh := 1\<rparr>,
      w_place = (\<lambda>_. Outside)(7 := Holding, 3 := EnterWait 0)\<rparr>"

lemma waiting_world_reached: "step\<^sup>*\<^sup>* start waiting_world"
proof -
  let ?e = "at held_world 3 (w_gate held_world) Entering"
  let ?g = "new_gate\<lparr>wg_paused := True, wg_changed := Some 0, wg_fresh := 1\<rparr>"
  have "step held_world ?e" by (rule step.call_enter) (simp add: held_world_def)
  moreover have "step ?e (at ?e 3 ?g (after_enter (WaitOn 0)))"
    by (rule step.enter [where ctx_err = False])
      (simp_all add: held_world_def enter_round_def changeChannelLocked_def new_gate_def)
  moreover have "at ?e 3 ?g (after_enter (WaitOn 0)) = waiting_world"
    by (simp add: waiting_world_def held_world_def at_def)
  ultimately show ?thesis using held_world_reached by (metis rtranclp.rtrancl_into_rtrancl)
qed

theorem pause_excludes_work_witness:
  "(\<forall>u. w_place held_world u \<noteq> Inside) \<and> wg_active (w_gate held_world) = 0 \<and> wg_paused (w_gate held_world)
    \<and> {u. pausing_place (w_place held_world u)} \<subseteq> {7}"
  using pause_excludes_work [OF held_world_reached, of 7] by (auto simp: held_world_def)

theorem gate_wakes_waiters_witness:
  "(wg_paused (w_gate waiting_world) \<or> 0 \<in> wg_closed (w_gate waiting_world))
    \<and> wg_active (w_gate waiting_world) = int (card {u. w_place waiting_world u = Inside})
    \<and> (wg_paused (w_gate waiting_world) \<longleftrightarrow> (\<exists>!u. pausing_place (w_place waiting_world u)))"
proof -
  have "w_place waiting_world 3 = EnterWait 0" by (simp add: waiting_world_def)
  then show ?thesis using gate_wakes_waiters [OF waiting_world_reached, of 3 0] by blast
qed

end
