(* ===== verification/Aggregation_Gate.thy ===== *)
theory Aggregation_Gate
  imports Work_Gate
begin

text \<open>
  The gate of the usage aggregation runner: \<open>src/internal/poller/usage_aggregation_pause.go\<close>.
  It is the work gate with two more flags: \<open>ready\<close> says that a pause has settled, and
  \<open>controlled\<close> that the one controlled catch-up of a settled pause is running; ending a
  pause waits for it. The operations that the two files share textually are the ones of
  \<open>Work_Gate\<close>.
\<close>


section \<open>Operations under the lock\<close>

record aggregationWorkGate = workGate +
  ag_ready :: bool
  ag_controlled :: bool

definition new_aggregation_gate :: aggregationWorkGate where
  "new_aggregation_gate =
     \<lparr>wg_changed = None, wg_paused = False, wg_active = 0, wg_closed = {}, wg_fresh = 0,
      ag_ready = False, ag_controlled = False\<rparr>"

definition aggregation_enter :: "bool \<Rightarrow> aggregationWorkGate \<Rightarrow> aggregationWorkGate \<times> outcome" where
  "aggregation_enter = enter_round"

definition aggregation_leave :: "aggregationWorkGate \<Rightarrow> aggregationWorkGate" where
  "aggregation_leave = leave"

definition aggregation_pause_begin :: "bool \<Rightarrow> aggregationWorkGate \<Rightarrow> aggregationWorkGate \<times> outcome" where
  "aggregation_pause_begin = pause_begin"

definition aggregation_pause_round :: "bool \<Rightarrow> aggregationWorkGate \<Rightarrow> aggregationWorkGate \<times> outcome" where
  "aggregation_pause_round ctx_err g =
     (if ctx_err then (g, Failed)
      else if wg_active g = 0 then (g\<lparr>ag_ready := True\<rparr>, Granted)
      else (case changeChannelLocked g of (g', ch) \<Rightarrow> (g', WaitOn ch)))"

text \<open>
  The function that \<open>pause\<close> returns, from taking the lock to releasing it: the loop over a
  running catch-up either waits on a channel or ends the pause. The first section also
  withdraws \<open>ready\<close>.
\<close>

definition resume_round :: "aggregationWorkGate \<Rightarrow> aggregationWorkGate \<times> outcome" where
  "resume_round g =
     (if ag_controlled g then (case changeChannelLocked g of (g', ch) \<Rightarrow> (g', WaitOn ch))
      else (notifyLocked (g\<lparr>wg_paused := False\<rparr>), Granted))"

definition resume_first :: "aggregationWorkGate \<Rightarrow> aggregationWorkGate \<times> outcome" where
  "resume_first g = resume_round (g\<lparr>ag_ready := False\<rparr>)"

definition beginControlled :: "bool \<Rightarrow> aggregationWorkGate \<Rightarrow> aggregationWorkGate \<times> outcome" where
  "beginControlled ctx_err g =
     (if ctx_err then (g, Failed)
      else if \<not> wg_paused g \<or> \<not> ag_ready g then (g, Failed)
      else if ag_controlled g then (g, Failed)
      else (g\<lparr>ag_controlled := True\<rparr>, Granted))"

definition finishControlled :: "aggregationWorkGate \<Rightarrow> aggregationWorkGate" where
  "finishControlled g = notifyLocked (g\<lparr>ag_controlled := False\<rparr>)"


section \<open>Activities\<close>

text \<open>
  The calls in progress, one place each; a catch-up made by the goroutine that holds the
  pause is an activity of its own. \<open>ARelease\<close> is about to run the resume function for the
  first time, because the pause is over or its context ended.
\<close>

datatype aplace =
    AOutside
  | AEntering
  | AEnterWait nat
  | AInside
  | APausing
  | APauseWait nat
  | AHolding
  | ARelease
  | AResumeWait nat
  | AResume
  | ACatchUp

record aworld =
  aw_gate :: aggregationWorkGate
  aw_place :: "nat \<Rightarrow> aplace"

definition aat :: "aworld \<Rightarrow> nat \<Rightarrow> aggregationWorkGate \<Rightarrow> aplace \<Rightarrow> aworld" where
  "aat w t g p = \<lparr>aw_gate = g, aw_place = (aw_place w)(t := p)\<rparr>"

fun after_aenter :: "outcome \<Rightarrow> aplace" where
  "after_aenter Failed = AOutside"
| "after_aenter Granted = AInside"
| "after_aenter (WaitOn ch) = AEnterWait ch"

fun after_apause :: "outcome \<Rightarrow> aplace" where
  "after_apause Failed = ARelease"
| "after_apause Granted = AHolding"
| "after_apause (WaitOn ch) = APauseWait ch"

fun after_resume :: "outcome \<Rightarrow> aplace" where
  "after_resume (WaitOn ch) = AResumeWait ch"
| "after_resume _ = AOutside"

inductive astep :: "aworld \<Rightarrow> aworld \<Rightarrow> bool" where
  call_enter: "aw_place w t = AOutside \<Longrightarrow> astep w (aat w t (aw_gate w) AEntering)"
| enter: "aw_place w t = AEntering \<Longrightarrow> aggregation_enter ctx_err (aw_gate w) = (g, r) \<Longrightarrow> astep w (aat w t g (after_aenter r))"
| enter_woken: "aw_place w t = AEnterWait ch \<Longrightarrow> ch \<in> wg_closed (aw_gate w) \<Longrightarrow> astep w (aat w t (aw_gate w) AEntering)"
| enter_cancelled: "aw_place w t = AEnterWait ch \<Longrightarrow> astep w (aat w t (aw_gate w) AOutside)"
| turn_done: "aw_place w t = AInside \<Longrightarrow> astep w (aat w t (aggregation_leave (aw_gate w)) AOutside)"
| call_pause: "aw_place w t = AOutside \<Longrightarrow> aggregation_pause_begin ctx_err (aw_gate w) = (g, Granted) \<Longrightarrow> astep w (aat w t g APausing)"
| pause: "aw_place w t = APausing \<Longrightarrow> aggregation_pause_round ctx_err (aw_gate w) = (g, r) \<Longrightarrow> astep w (aat w t g (after_apause r))"
| pause_woken: "aw_place w t = APauseWait ch \<Longrightarrow> ch \<in> wg_closed (aw_gate w) \<Longrightarrow> astep w (aat w t (aw_gate w) APausing)"
| pause_cancelled: "aw_place w t = APauseWait ch \<Longrightarrow> astep w (aat w t (aw_gate w) ARelease)"
| call_resume: "aw_place w t = AHolding \<Longrightarrow> astep w (aat w t (aw_gate w) ARelease)"
| release: "aw_place w t = ARelease \<Longrightarrow> resume_first (aw_gate w) = (g, r) \<Longrightarrow> astep w (aat w t g (after_resume r))"
| resume_woken: "aw_place w t = AResumeWait ch \<Longrightarrow> ch \<in> wg_closed (aw_gate w) \<Longrightarrow> astep w (aat w t (aw_gate w) AResume)"
| resume: "aw_place w t = AResume \<Longrightarrow> resume_round (aw_gate w) = (g, r) \<Longrightarrow> astep w (aat w t g (after_resume r))"
| catch_up: "aw_place w t = AOutside \<Longrightarrow> beginControlled ctx_err (aw_gate w) = (g, Granted) \<Longrightarrow> astep w (aat w t g ACatchUp)"
| catch_up_done: "aw_place w t = ACatchUp \<Longrightarrow> astep w (aat w t (finishControlled (aw_gate w)) AOutside)"

definition astart :: aworld where
  "astart = \<lparr>aw_gate = new_aggregation_gate, aw_place = (\<lambda>_. AOutside)\<rparr>"


section \<open>Invariant\<close>

fun apausing :: "aplace \<Rightarrow> bool" where
  "apausing APausing = True"
| "apausing (APauseWait _) = True"
| "apausing AHolding = True"
| "apausing ARelease = True"
| "apausing (AResumeWait _) = True"
| "apausing AResume = True"
| "apausing _ = False"

definition turns :: "aworld \<Rightarrow> nat set" where
  "turns w = {t. aw_place w t = AInside}"

definition apausers :: "aworld \<Rightarrow> nat set" where
  "apausers w = {t. apausing (aw_place w t)}"

definition catch_ups :: "aworld \<Rightarrow> nat set" where
  "catch_ups w = {t. aw_place w t = ACatchUp}"

text \<open>A place in the light of the gate: why its activity may be there.\<close>

fun aplace_ok :: "aggregationWorkGate \<Rightarrow> aplace \<Rightarrow> bool" where
  "aplace_ok g (AEnterWait ch) = (ch \<in> wg_closed g \<or> wg_changed g = Some ch \<and> wg_paused g)"
| "aplace_ok g (APauseWait ch) = ((ch \<in> wg_closed g \<or> wg_changed g = Some ch \<and> wg_active g \<noteq> 0) \<and> \<not> ag_ready g)"
| "aplace_ok g APausing = (\<not> ag_ready g)"
| "aplace_ok g AHolding = (ag_ready g \<and> wg_active g = 0)"
| "aplace_ok g (AResumeWait ch) = ((ch \<in> wg_closed g \<or> wg_changed g = Some ch \<and> ag_controlled g) \<and> \<not> ag_ready g)"
| "aplace_ok g AResume = (\<not> ag_ready g)"
| "aplace_ok g _ = True"

definition flags_ok :: "aggregationWorkGate \<Rightarrow> bool" where
  "flags_ok g \<longleftrightarrow>
     0 \<le> wg_active g
     \<and> (ag_ready g \<or> ag_controlled g \<longrightarrow> wg_paused g \<and> wg_active g = 0)
     \<and> (\<forall>ch \<in> wg_closed g. ch < wg_fresh g)
     \<and> (\<forall>ch. wg_changed g = Some ch \<longrightarrow> ch < wg_fresh g \<and> ch \<notin> wg_closed g)"

definition agg_inv :: "aworld \<Rightarrow> bool" where
  "agg_inv w \<longleftrightarrow>
     flags_ok (aw_gate w) \<and> (\<forall>t. aplace_ok (aw_gate w) (aw_place w t))
     \<and> finite (turns w) \<and> wg_active (aw_gate w) = int (card (turns w))
     \<and> (if wg_paused (aw_gate w) then \<exists>t. apausers w = {t} else apausers w = {})
     \<and> (if ag_controlled (aw_gate w) then \<exists>t. catch_ups w = {t} else catch_ups w = {})"

lemma aat_simps [simp]: "aw_gate (aat w t g p) = g" "aw_place (aat w t g p) = (aw_place w)(t := p)"
  by (simp_all add: aat_def)

lemma activity_sets:
  "turns (aat w t g p) = (if p = AInside then insert t (turns w) else turns w - {t})"
  "apausers (aat w t g p) = (if apausing p then insert t (apausers w) else apausers w - {t})"
  "catch_ups (aat w t g p) = (if p = ACatchUp then insert t (catch_ups w) else catch_ups w - {t})"
  by (auto simp: turns_def apausers_def catch_ups_def)

lemma activity_iff:
  "t \<in> turns w \<longleftrightarrow> aw_place w t = AInside" "t \<in> apausers w \<longleftrightarrow> apausing (aw_place w t)"
  "t \<in> catch_ups w \<longleftrightarrow> aw_place w t = ACatchUp"
  by (simp_all add: turns_def apausers_def catch_ups_def)

lemma agg_inv_start: "agg_inv astart"
  by (simp add: agg_inv_def flags_ok_def astart_def new_aggregation_gate_def turns_def apausers_def catch_ups_def)

lemma agg_invD:
  assumes "agg_inv w"
  shows "flags_ok (aw_gate w)" and "aplace_ok (aw_gate w) (aw_place w t)"
    and "apausing (aw_place w t) \<Longrightarrow> wg_paused (aw_gate w) \<and> apausers w = {t}"
    and "\<not> wg_paused (aw_gate w) \<Longrightarrow> \<not> apausing (aw_place w t)"
    and "aw_place w t = ACatchUp \<Longrightarrow> ag_controlled (aw_gate w) \<and> catch_ups w = {t}"
  using assms activity_iff [of t w] by (auto simp: agg_inv_def split: if_splits)

text \<open>The waiting activities stay justified when channels are only opened or closed.\<close>

definition keeps_waiters :: "aggregationWorkGate \<Rightarrow> aggregationWorkGate \<Rightarrow> bool" where
  "keeps_waiters g g' \<longleftrightarrow> (\<forall>ch. aplace_ok g (AEnterWait ch) \<longrightarrow> aplace_ok g' (AEnterWait ch))"

lemma keeps_waiters_ops:
  "changeChannelLocked g = (g', ch) \<Longrightarrow> keeps_waiters g g'"
  "keeps_waiters g (notifyLocked (g\<lparr>wg_paused := b\<rparr>))" "keeps_waiters g (notifyLocked (g\<lparr>ag_controlled := b\<rparr>))"
  "keeps_waiters g (g\<lparr>ag_ready := b\<rparr>)" "keeps_waiters g g"
  by (auto simp: keeps_waiters_def changeChannelLocked_def notifyLocked_def split: option.splits)

lemma channel_frame:
  assumes "changeChannelLocked g = (g', ch)"
  shows "wg_paused g' = wg_paused g" "wg_active g' = wg_active g" "ag_ready g' = ag_ready g"
    "ag_controlled g' = ag_controlled g" "flags_ok g \<Longrightarrow> flags_ok g'" "wg_changed g' = Some ch"
  using assms by (auto simp: changeChannelLocked_def flags_ok_def less_Suc_eq split: option.splits)

lemma notify_frame [simp]:
  "wg_paused (notifyLocked g) = wg_paused g" "wg_active (notifyLocked g) = wg_active g"
  "ag_ready (notifyLocked g) = ag_ready g" "ag_controlled (notifyLocked g) = ag_controlled g"
  by (simp_all add: notifyLocked_def split: option.splits)

lemma flags_ok_notify: "flags_ok g \<Longrightarrow> flags_ok (notifyLocked g)"
  by (auto simp: flags_ok_def notifyLocked_def split: option.splits)

text \<open>The pausing activity moves on within the pause.\<close>

lemma agg_inv_pausing:
  assumes inv: "agg_inv w" and t: "apausing (aw_place w t)" and p: "apausing p" "aplace_ok g p"
    and g: "flags_ok g" "keeps_waiters (aw_gate w) g" "wg_paused g" "wg_active g = wg_active (aw_gate w)"
      "ag_controlled g = ag_controlled (aw_gate w)"
  shows "agg_inv (aat w t g p)"
proof -
  have t': "t \<notin> turns w" "t \<notin> catch_ups w" "p \<noteq> AInside" "p \<noteq> ACatchUp" using t p by (auto simp: activity_iff)
  note pt = agg_invD(3) [OF inv t]
  have "aplace_ok g (aw_place w u)" if "u \<noteq> t" for u
  proof -
    have "\<not> apausing (aw_place w u)" using pt that activity_iff(2) [of u w] by auto
    with agg_invD(2) [OF inv, of u] g(2) show ?thesis by (cases "aw_place w u") (auto simp: keeps_waiters_def)
  qed
  with p t' pt g inv show ?thesis by (auto simp: agg_inv_def activity_sets)
qed

text \<open>The pause ends.\<close>

lemma agg_inv_end_pause:
  assumes inv: "agg_inv w" and t: "apausing (aw_place w t)"
    and g: "flags_ok g" "keeps_waiters (aw_gate w) g" "\<not> wg_paused g" "wg_active g = wg_active (aw_gate w)"
      "ag_controlled g = ag_controlled (aw_gate w)"
  shows "agg_inv (aat w t g AOutside)"
proof -
  have t': "t \<notin> turns w" "t \<notin> catch_ups w" using t by (auto simp: activity_iff)
  note pt = agg_invD(3) [OF inv t]
  have "aplace_ok g (aw_place w u)" if "u \<noteq> t" for u
  proof -
    have "\<not> apausing (aw_place w u)" using pt that activity_iff(2) [of u w] by auto
    with agg_invD(2) [OF inv, of u] g(2) show ?thesis by (cases "aw_place w u") (auto simp: keeps_waiters_def)
  qed
  with t' pt g inv show ?thesis by (auto simp: agg_inv_def activity_sets)
qed

text \<open>An activity moves between places that are neither inside nor pausing nor a catch-up.\<close>

lemma agg_inv_idle:
  assumes inv: "agg_inv w" and t: "aw_place w t \<in> {AOutside, AEntering} \<or> (\<exists>ch. aw_place w t = AEnterWait ch)"
    and p: "p \<in> {AOutside, AEntering} \<or> (\<exists>ch. p = AEnterWait ch)" "aplace_ok g p"
    and g: "g = aw_gate w \<or> (\<exists>ch. changeChannelLocked (aw_gate w) = (g, ch))"
  shows "agg_inv (aat w t g p)"
proof -
  have sets: "turns (aat w t g p) = turns w" "apausers (aat w t g p) = apausers w" "catch_ups (aat w t g p) = catch_ups w"
    using t p by (auto simp: activity_sets activity_iff)
  have frame: "wg_paused g = wg_paused (aw_gate w)" "wg_active g = wg_active (aw_gate w)" "ag_ready g = ag_ready (aw_gate w)"
    "ag_controlled g = ag_controlled (aw_gate w)" "flags_ok g"
    using g channel_frame [of "aw_gate w" g] agg_invD(1) [OF inv] by auto
  have "aplace_ok g q" if "aplace_ok (aw_gate w) q" for q
    using g that by (cases q) (auto simp: changeChannelLocked_def split: option.splits)
  with p inv frame sets show ?thesis by (simp add: agg_inv_def)
qed

lemma agg_inv_enter:
  assumes inv: "agg_inv w" and t: "aw_place w t = AEntering" and "\<not> wg_paused (aw_gate w)"
  shows "agg_inv (aat w t ((aw_gate w)\<lparr>wg_active := wg_active (aw_gate w) + 1\<rparr>) AInside)"
proof -
  have none: "\<not> apausing (aw_place w u)" for u using agg_invD(4) [OF inv assms(3)] .
  have "aplace_ok ((aw_gate w)\<lparr>wg_active := wg_active (aw_gate w) + 1\<rparr>) (aw_place w u)" for u
    using none [of u] agg_invD(2) [OF inv, of u] by (cases "aw_place w u") auto
  moreover have "t \<notin> turns w" "t \<notin> apausers w" "t \<notin> catch_ups w" using t by (simp_all add: activity_iff)
  moreover have "flags_ok ((aw_gate w)\<lparr>wg_active := wg_active (aw_gate w) + 1\<rparr>)"
    using agg_invD(1) [OF inv] assms(3) by (auto simp: flags_ok_def)
  ultimately show ?thesis using inv assms(3) by (auto simp: agg_inv_def activity_sets)
qed

lemma agg_inv_leave:
  assumes inv: "agg_inv w" and t: "aw_place w t = AInside"
  shows "agg_inv (aat w t (leave (aw_gate w)) AOutside)"
proof -
  let ?g = "leave (aw_gate w)"
  have t': "t \<in> turns w" "t \<notin> apausers w" "t \<notin> catch_ups w" using t by (simp_all add: activity_iff)
  have card: "int (card (turns w - {t})) = int (card (turns w)) - 1" "finite (turns w)" "0 < card (turns w)"
    using inv t'(1) card_gt_0_iff [of "turns w"] by (auto simp: agg_inv_def of_nat_diff)
  have pos: "0 < wg_active (aw_gate w)" using inv card(3) by (simp add: agg_inv_def)
  have frame: "wg_paused ?g = wg_paused (aw_gate w)" "wg_active ?g = wg_active (aw_gate w) - 1"
    "ag_ready ?g = ag_ready (aw_gate w)" "ag_controlled ?g = ag_controlled (aw_gate w)"
    by (simp_all add: leave_def Let_def)
  have "flags_ok ((aw_gate w)\<lparr>wg_active := wg_active (aw_gate w) - 1\<rparr>)"
    using agg_invD(1) [OF inv] pos by (auto simp: flags_ok_def)
  then have flags: "flags_ok ?g" using flags_ok_notify by (auto simp: leave_def Let_def)
  have "aplace_ok ?g q" if "aplace_ok (aw_gate w) q" for q
    using that pos by (cases q) (auto simp: leave_def Let_def notifyLocked_def split: option.splits)
  with t' card frame flags inv show ?thesis by (auto simp: agg_inv_def activity_sets)
qed

lemma agg_inv_call_pause:
  assumes inv: "agg_inv w" and t: "aw_place w t = AOutside" and "\<not> wg_paused (aw_gate w)"
  shows "agg_inv (aat w t ((aw_gate w)\<lparr>wg_paused := True\<rparr>) APausing)"
proof -
  have none: "\<not> apausing (aw_place w u)" for u using agg_invD(4) [OF inv assms(3)] .
  have "\<not> ag_ready (aw_gate w)" using agg_invD(1) [OF inv] assms(3) by (auto simp: flags_ok_def)
  moreover have "aplace_ok ((aw_gate w)\<lparr>wg_paused := True\<rparr>) (aw_place w u)" for u
    using none [of u] agg_invD(2) [OF inv, of u] by (cases "aw_place w u") auto
  moreover have "t \<notin> turns w" "t \<notin> apausers w" "t \<notin> catch_ups w" using t by (simp_all add: activity_iff)
  moreover have "flags_ok ((aw_gate w)\<lparr>wg_paused := True\<rparr>)"
    using agg_invD(1) [OF inv] by (auto simp: flags_ok_def)
  ultimately show ?thesis using inv assms(3) by (auto simp: agg_inv_def activity_sets)
qed

lemma agg_inv_catch_up:
  assumes inv: "agg_inv w" and t: "aw_place w t = AOutside"
    and "wg_paused (aw_gate w)" "ag_ready (aw_gate w)" "\<not> ag_controlled (aw_gate w)"
  shows "agg_inv (aat w t ((aw_gate w)\<lparr>ag_controlled := True\<rparr>) ACatchUp)"
proof -
  have "aplace_ok ((aw_gate w)\<lparr>ag_controlled := True\<rparr>) (aw_place w u)" for u
    using agg_invD(2) [OF inv, of u] by (cases "aw_place w u") auto
  moreover have "t \<notin> turns w" "t \<notin> apausers w" "t \<notin> catch_ups w" using t by (simp_all add: activity_iff)
  moreover have "flags_ok ((aw_gate w)\<lparr>ag_controlled := True\<rparr>)"
    using agg_invD(1) [OF inv] assms(3,4) by (auto simp: flags_ok_def)
  ultimately show ?thesis using inv assms(3-5) by (auto simp: agg_inv_def activity_sets)
qed

lemma agg_inv_catch_up_done:
  assumes inv: "agg_inv w" and t: "aw_place w t = ACatchUp"
  shows "agg_inv (aat w t (finishControlled (aw_gate w)) AOutside)"
proof -
  let ?g = "finishControlled (aw_gate w)"
  have "aplace_ok ?g q" if "aplace_ok (aw_gate w) q" for q
    using that by (cases q) (auto simp: finishControlled_def notifyLocked_def split: option.splits)
  moreover have "flags_ok ((aw_gate w)\<lparr>ag_controlled := False\<rparr>)"
    using agg_invD(1) [OF inv] by (auto simp: flags_ok_def)
  then have "flags_ok ?g" by (simp add: finishControlled_def flags_ok_notify)
  moreover have "t \<notin> turns w" "t \<notin> apausers w" using t by (simp_all add: activity_iff)
  ultimately show ?thesis
    using inv agg_invD(5) [OF inv t] by (auto simp: agg_inv_def activity_sets finishControlled_def)
qed

lemma agg_inv_release:
  assumes inv: "agg_inv w" and t: "apausing (aw_place w t)"
    and g0: "g0 = aw_gate w \<or> g0 = (aw_gate w)\<lparr>ag_ready := False\<rparr>" "\<not> ag_ready g0"
    and r: "resume_round g0 = (g, r)"
  shows "agg_inv (aat w t g (after_resume r))"
proof -
  have ok: "flags_ok g0" using agg_invD(1) [OF inv] g0(1) by (auto simp: flags_ok_def)
  have paused: "wg_paused (aw_gate w)" using agg_invD(3) [OF inv t] by simp
  have frame: "wg_paused g0" "wg_active g0 = wg_active (aw_gate w)" "ag_controlled g0 = ag_controlled (aw_gate w)"
    "keeps_waiters (aw_gate w) g0"
    using g0(1) paused by (auto simp: keeps_waiters_ops)
  have keep: "keeps_waiters (aw_gate w) g'" if "keeps_waiters g0 g'" for g'
    using frame(4) that by (auto simp: keeps_waiters_def)
  show ?thesis
  proof (cases "ag_controlled g0")
    case True
    with r obtain ch where ch: "changeChannelLocked g0 = (g, ch)" "r = WaitOn ch"
      by (auto simp: resume_round_def split: prod.splits)
    note c = channel_frame [OF ch(1)]
    show ?thesis unfolding ch(2) after_resume.simps
      using c ok frame g0(2) True keep [OF keeps_waiters_ops(1) [OF ch(1)]]
      by (intro agg_inv_pausing [OF inv t]) auto
  next
    case False
    with r have g: "g = notifyLocked (g0\<lparr>wg_paused := False\<rparr>)" "r = Granted"
      by (auto simp: resume_round_def)
    have "flags_ok (g0\<lparr>wg_paused := False\<rparr>)" using ok False g0(2) by (auto simp: flags_ok_def)
    then show ?thesis unfolding g after_resume.simps
      using frame keep [OF keeps_waiters_ops(2)]
      by (intro agg_inv_end_pause [OF inv t]) (simp_all add: flags_ok_notify)
  qed
qed

lemma agg_inv_pause_round:
  assumes inv: "agg_inv w" and t: "aw_place w t = APausing"
    and r: "aggregation_pause_round ctx_err (aw_gate w) = (g, r)"
  shows "agg_inv (aat w t g (after_apause r))"
proof -
  have t': "apausing (aw_place w t)" using t by simp
  note ok = agg_invD(1) [OF inv] and paused = agg_invD(3) [OF inv t'] and ready = agg_invD(2) [OF inv, of t]
  from r consider "g = aw_gate w" "r = Failed"
    | "g = (aw_gate w)\<lparr>ag_ready := True\<rparr>" "r = Granted" "wg_active (aw_gate w) = 0"
    | ch where "changeChannelLocked (aw_gate w) = (g, ch)" "r = WaitOn ch" "wg_active (aw_gate w) \<noteq> 0"
    by (auto simp: aggregation_pause_round_def split: if_splits prod.splits)
  then show ?thesis
  proof cases
    case 1
    with ok paused show ?thesis by (simp add: agg_inv_pausing [OF inv t'] keeps_waiters_ops)
  next
    case 2
    then have "flags_ok g" using ok paused by (auto simp: flags_ok_def)
    with 2 paused show ?thesis by (simp add: agg_inv_pausing [OF inv t'] keeps_waiters_ops)
  next
    case 3
    note c = channel_frame [OF 3(1)]
    show ?thesis unfolding 3(2) after_apause.simps
      using c ok paused 3 ready t keeps_waiters_ops(1) [OF 3(1)]
      by (intro agg_inv_pausing [OF inv t']) auto
  qed
qed

lemma agg_inv_step:
  assumes "astep w w'" and inv: "agg_inv w"
  shows "agg_inv w'"
  using assms(1)
proof cases
  case (enter t ctx_err g r)
  show ?thesis
  proof (cases "ctx_err \<or> wg_paused (aw_gate w)")
    case True
    with enter have "g = aw_gate w \<and> r = Failed
        \<or> (\<exists>ch. changeChannelLocked (aw_gate w) = (g, ch) \<and> r = WaitOn ch \<and> wg_paused (aw_gate w))"
      by (auto simp: aggregation_enter_def enter_round_def split: if_splits prod.splits)
    then show ?thesis unfolding enter(1)
    proof (elim disjE exE conjE)
      fix ch assume c: "changeChannelLocked (aw_gate w) = (g, ch)" "r = WaitOn ch" "wg_paused (aw_gate w)"
      note f = channel_frame [OF c(1)]
      show "agg_inv (aat w t g (after_aenter r))"
        using c f enter by (intro agg_inv_idle [OF inv]) auto
    qed (use enter in \<open>auto intro!: agg_inv_idle [OF inv]\<close>)
  next
    case False
    with enter show ?thesis by (auto simp: aggregation_enter_def enter_round_def intro!: agg_inv_enter [OF inv])
  qed
next
  case (call_pause t ctx_err g)
  then have "g = (aw_gate w)\<lparr>wg_paused := True\<rparr>" "\<not> wg_paused (aw_gate w)"
    by (auto simp: aggregation_pause_begin_def pause_begin_def split: if_splits)
  with call_pause show ?thesis by (simp add: agg_inv_call_pause [OF inv])
next
  case (catch_up t ctx_err g)
  then have "g = (aw_gate w)\<lparr>ag_controlled := True\<rparr>" "wg_paused (aw_gate w)" "ag_ready (aw_gate w)" "\<not> ag_controlled (aw_gate w)"
    by (auto simp: beginControlled_def split: if_splits)
  with catch_up show ?thesis by (simp add: agg_inv_catch_up [OF inv])
next
  case (release t g r)
  then show ?thesis
    using agg_inv_release [OF inv, of t "(aw_gate w)\<lparr>ag_ready := False\<rparr>" g r] by (simp add: resume_first_def)
next
  case (resume t g r)
  then show ?thesis
    using agg_inv_release [OF inv, of t "aw_gate w" g r] agg_invD(2) [OF inv, of t] by simp
next
  case (pause_woken t ch)
  then show ?thesis
    using agg_invD(1) [OF inv] agg_invD(2,3) [OF inv, of t] by (auto simp: keeps_waiters_ops intro!: agg_inv_pausing [OF inv])
next
  case (pause_cancelled t ch)
  then show ?thesis
    using agg_invD(1) [OF inv] agg_invD(2,3) [OF inv, of t] by (auto simp: keeps_waiters_ops intro!: agg_inv_pausing [OF inv])
next
  case (call_resume t)
  then show ?thesis
    using agg_invD(1) [OF inv] agg_invD(2,3) [OF inv, of t] by (auto simp: keeps_waiters_ops intro!: agg_inv_pausing [OF inv])
next
  case (resume_woken t ch)
  then show ?thesis
    using agg_invD(1) [OF inv] agg_invD(2,3) [OF inv, of t] by (auto simp: keeps_waiters_ops intro!: agg_inv_pausing [OF inv])
qed (simp_all add: aggregation_leave_def agg_inv_leave [OF inv] agg_inv_pause_round [OF inv]
      agg_inv_catch_up_done [OF inv] agg_inv_idle [OF inv])

definition aholding :: "aworld \<Rightarrow> nat \<Rightarrow> bool" where
  "aholding w t \<longleftrightarrow> aw_place w t = AHolding"

text \<open>A catch-up and a settled pause both exclude ordinary turns.\<close>

interpretation settled: exclusive_gate astep astart turns aholding agg_inv
proof
  show "agg_inv w \<Longrightarrow> aholding w t \<Longrightarrow> turns w = {}" for w t
    using agg_invD(2) [of w t] by (auto simp: agg_inv_def aholding_def)
  show "agg_inv w \<Longrightarrow> aholding w t \<Longrightarrow> aholding w u \<Longrightarrow> u = t" for w t u
    using agg_invD(3) [of w t] activity_iff(2) [of u w] by (simp add: aholding_def)
qed (simp_all add: agg_inv_start agg_inv_step)

interpretation catching_up: exclusive_gate astep astart turns "\<lambda>w t. aw_place w t = ACatchUp" agg_inv
proof
  show "agg_inv w \<Longrightarrow> aw_place w t = ACatchUp \<Longrightarrow> turns w = {}" for w t
  proof -
    assume inv: "agg_inv w" and t: "aw_place w t = ACatchUp"
    have "wg_active (aw_gate w) = 0"
      using agg_invD(1) [OF inv] agg_invD(5) [OF inv t] by (simp add: flags_ok_def)
    with inv show "turns w = {}" by (auto simp: agg_inv_def)
  qed
  show "agg_inv w \<Longrightarrow> aw_place w t = ACatchUp \<Longrightarrow> aw_place w u = ACatchUp \<Longrightarrow> u = t" for w t u
    using agg_invD(5) [of w t] activity_iff(3) [of u w] by simp
qed (simp_all add: agg_inv_start agg_inv_step)

text \<open>
  Claim C22. A controlled catch-up of the overview never runs beside ordinary aggregation or
  beside a second catch-up. In every state that any interleaving of turns, pauses,
  cancellations, resumptions and catch-ups can reach, while a catch-up runs or a pause is
  settled, no ordinary turn is between its admission and its leave; at most one catch-up
  runs; and the gate stays paused until the catch-up has finished, also when the pause is
  being ended meanwhile.
\<close>

theorem catch_up_exclusive:
  assumes "astep\<^sup>*\<^sup>* astart w"
  shows "(aw_place w t = ACatchUp \<longrightarrow>
      (\<forall>u. aw_place w u \<noteq> AInside) \<and> (\<forall>u. aw_place w u = ACatchUp \<longrightarrow> u = t) \<and> wg_paused (aw_gate w))
    \<and> (aw_place w t = AHolding \<longrightarrow> (\<forall>u. aw_place w u \<noteq> AInside) \<and> (\<forall>u. u \<noteq> t \<longrightarrow> \<not> apausing (aw_place w u)))"
proof -
  have inv: "agg_inv w" by (rule settled.reached_inv [OF assms])
  have "u = t" if "aw_place w t = AHolding" "apausing (aw_place w u)" for u
    using agg_invD(3) [OF inv, of t] activity_iff(2) [of u w] that by simp
  moreover have "aw_place w u \<noteq> AInside" if "turns w = {}" for u
    using that by (auto simp: turns_def)
  moreover have "wg_paused (aw_gate w)" if "aw_place w t = ACatchUp"
    using agg_invD(1) [OF inv] agg_invD(5) [OF inv that] by (simp add: flags_ok_def)
  ultimately show ?thesis
    using settled.exclusion [OF assms, of t] catching_up.exclusion [OF assms, of t]
    unfolding aholding_def by blast
qed

text \<open>
  The aggregation gate loses no wake-up either: in every reachable state, whoever
  waits to enter an open gate, for turns that are all over, or for a catch-up that has
  ended, has been woken; and the gate is paused exactly while one activity is pausing it.
\<close>

theorem aggregation_gate_wakes_waiters:
  assumes "astep\<^sup>*\<^sup>* astart w"
  shows "(aw_place w t = AEnterWait ch \<longrightarrow> wg_paused (aw_gate w) \<or> ch \<in> wg_closed (aw_gate w))
    \<and> (aw_place w t = APauseWait ch \<longrightarrow> (\<exists>u. aw_place w u = AInside) \<or> ch \<in> wg_closed (aw_gate w))
    \<and> (aw_place w t = AResumeWait ch \<longrightarrow> (\<exists>u. aw_place w u = ACatchUp) \<or> ch \<in> wg_closed (aw_gate w))
    \<and> (wg_paused (aw_gate w) \<longleftrightarrow> (\<exists>!u. apausing (aw_place w u)))"
proof -
  have inv: "agg_inv w" by (rule settled.reached_inv [OF assms])
  have "wg_active (aw_gate w) \<noteq> 0 \<Longrightarrow> \<exists>u. aw_place w u = AInside"
    using inv by (auto simp: agg_inv_def turns_def)
  moreover have "ag_controlled (aw_gate w) \<Longrightarrow> \<exists>u. aw_place w u = ACatchUp"
    using inv activity_iff(3) [of _ w] by (auto simp: agg_inv_def)
  moreover have "wg_paused (aw_gate w) \<longleftrightarrow> (\<exists>!u. apausing (aw_place w u))"
    using inv unfolding activity_iff(2) [of _ w, symmetric] by (cases "wg_paused (aw_gate w)") (auto simp: agg_inv_def)
  ultimately show ?thesis using agg_invD(2) [OF inv, of t] by (auto split: if_splits)
qed

text \<open>A run: a pause settles, its holder starts the catch-up and then ends the pause.\<close>

definition catch_up_gate :: aggregationWorkGate where
  "catch_up_gate = new_aggregation_gate\<lparr>wg_paused := True, ag_ready := True, ag_controlled := True\<rparr>"

definition catch_up_world :: aworld where
  "catch_up_world = \<lparr>aw_gate = catch_up_gate, aw_place = (\<lambda>_. AOutside)(1 := AHolding, 2 := ACatchUp)\<rparr>"

lemma catch_up_world_reached: "astep\<^sup>*\<^sup>* astart catch_up_world"
proof -
  let ?g1 = "new_aggregation_gate\<lparr>wg_paused := True\<rparr>"
  let ?g2 = "?g1\<lparr>ag_ready := True\<rparr>"
  let ?w1 = "aat astart 1 ?g1 APausing"
  let ?w2 = "aat ?w1 1 ?g2 (after_apause Granted)"
  have "astep astart ?w1"
    by (rule astep.call_pause [where ctx_err = False])
      (simp_all add: astart_def aggregation_pause_begin_def pause_begin_def new_aggregation_gate_def)
  moreover have "astep ?w1 ?w2"
    by (rule astep.pause [where ctx_err = False])
      (simp_all add: aggregation_pause_round_def new_aggregation_gate_def)
  moreover have "astep ?w2 (aat ?w2 2 catch_up_gate ACatchUp)"
    by (rule astep.catch_up [where ctx_err = False])
      (simp_all add: astart_def beginControlled_def new_aggregation_gate_def catch_up_gate_def)
  moreover have "aat ?w2 2 catch_up_gate ACatchUp = catch_up_world"
    by (simp add: catch_up_world_def aat_def astart_def)
  ultimately show ?thesis by (metis converse_rtranclp_into_rtranclp r_into_rtranclp)
qed

theorem catch_up_exclusive_witness:
  "(\<forall>u. aw_place catch_up_world u \<noteq> AInside) \<and> {u. aw_place catch_up_world u = ACatchUp} \<subseteq> {2}
    \<and> wg_paused (aw_gate catch_up_world)"
proof -
  have "aw_place catch_up_world 2 = ACatchUp" by (simp add: catch_up_world_def)
  then show ?thesis using catch_up_exclusive [OF catch_up_world_reached, of 2] by blast
qed

text \<open>The holder resumes while the catch-up still runs, and waits for its end.\<close>

definition resuming_world :: aworld where
  "resuming_world =
     \<lparr>aw_gate = new_aggregation_gate\<lparr>wg_paused := True, ag_controlled := True, wg_changed := Some 0, wg_fresh := 1\<rparr>,
      aw_place = (\<lambda>_. AOutside)(1 := AResumeWait 0, 2 := ACatchUp)\<rparr>"

lemma resuming_world_reached: "astep\<^sup>*\<^sup>* astart resuming_world"
proof -
  let ?r = "aat catch_up_world 1 (aw_gate catch_up_world) ARelease"
  let ?g = "aw_gate resuming_world"
  have "astep catch_up_world ?r" by (rule astep.call_resume) (simp add: catch_up_world_def)
  moreover have "astep ?r (aat ?r 1 ?g (after_resume (WaitOn 0)))"
    by (rule astep.release)
      (simp_all add: catch_up_world_def resuming_world_def catch_up_gate_def resume_first_def
        resume_round_def changeChannelLocked_def new_aggregation_gate_def)
  moreover have "aat ?r 1 ?g (after_resume (WaitOn 0)) = resuming_world"
    by (simp add: resuming_world_def catch_up_world_def aat_def fun_upd_twist)
  ultimately show ?thesis using catch_up_world_reached by (metis rtranclp.rtrancl_into_rtrancl)
qed

theorem aggregation_gate_wakes_waiters_witness:
  "((\<exists>u. aw_place resuming_world u = ACatchUp) \<or> 0 \<in> wg_closed (aw_gate resuming_world))
    \<and> (wg_paused (aw_gate resuming_world) \<longleftrightarrow> (\<exists>!u. apausing (aw_place resuming_world u)))"
proof -
  have "aw_place resuming_world 1 = AResumeWait 0" by (simp add: resuming_world_def)
  then show ?thesis using aggregation_gate_wakes_waiters [OF resuming_world_reached, of 1 0] by blast
qed

end
