(* ===== verification/Cost_Read_Gate.thy ===== *)
theory Cost_Read_Gate
  imports Work_Gate
begin

text \<open>
  The permit for reading costs over HTTP: \<open>src/internal/service/cost_read_gate.go\<close>. A
  recalculation blocks new reads and waits for the ones that have a permit. As in
  \<open>Work_Gate\<close>, a section under the lock is one step and channels are numbers.
\<close>


section \<open>Operations under the lock\<close>

record costReadGate =
  cg_blocked :: bool
  cg_active :: int
  cg_drained :: "nat option"
  cg_closed :: "nat set"
  cg_fresh :: nat

definition NewCostReadGate :: costReadGate where
  "NewCostReadGate = \<lparr>cg_blocked = False, cg_active = 0, cg_drained = None, cg_closed = {}, cg_fresh = 0\<rparr>"

text \<open>\<open>Acquire\<close>; the second component says whether the permit was given.\<close>

definition Acquire :: "costReadGate \<Rightarrow> costReadGate \<times> bool" where
  "Acquire g = (if cg_blocked g then (g, False) else (g\<lparr>cg_active := cg_active g + 1\<rparr>, True))"

text \<open>The first call of the release function; later calls do nothing (\<open>sync.OnceFunc\<close>).\<close>

definition release_read :: "costReadGate \<Rightarrow> costReadGate" where
  "release_read g =
     (let g' = g\<lparr>cg_active := cg_active g - 1\<rparr> in
      case cg_drained g' of
        Some ch \<Rightarrow>
          if cg_active g' = 0 then g'\<lparr>cg_closed := insert ch (cg_closed g'), cg_drained := None\<rparr> else g'
      | None \<Rightarrow> g')"

text \<open>The locked section of \<open>BlockAndDrain\<close>: refused, or blocked with or without a channel to wait on.\<close>

definition block_reads :: "costReadGate \<Rightarrow> costReadGate \<times> outcome" where
  "block_reads g =
     (if cg_blocked g then (g, Failed)
      else
        let g' = g\<lparr>cg_blocked := True\<rparr> in
        if 0 < cg_active g'
        then (g'\<lparr>cg_drained := Some (cg_fresh g'), cg_fresh := Suc (cg_fresh g')\<rparr>, WaitOn (cg_fresh g'))
        else (g', Granted))"

definition resume_reads :: "costReadGate \<Rightarrow> costReadGate" where
  "resume_reads g = g\<lparr>cg_blocked := False\<rparr>"


section \<open>Goroutines\<close>

text \<open>
  \<open>CDrained\<close> is past the wait and about to look at its context once more; \<open>CAbort\<close> is about
  to resume because the context ended.
\<close>

datatype cplace = COutside | CReading | CDrainWait nat | CDrained | CHolding | CAbort

record cworld =
  cw_gate :: costReadGate
  cw_place :: "nat \<Rightarrow> cplace"

definition cat :: "cworld \<Rightarrow> nat \<Rightarrow> costReadGate \<Rightarrow> cplace \<Rightarrow> cworld" where
  "cat w t g p = \<lparr>cw_gate = g, cw_place = (cw_place w)(t := p)\<rparr>"

fun after_block :: "outcome \<Rightarrow> cplace" where
  "after_block Failed = COutside"
| "after_block Granted = CDrained"
| "after_block (WaitOn ch) = CDrainWait ch"

inductive cstep :: "cworld \<Rightarrow> cworld \<Rightarrow> bool" where
  acquire: "cw_place w t = COutside \<Longrightarrow> Acquire (cw_gate w) = (g, ok) \<Longrightarrow> cstep w (cat w t g (if ok then CReading else COutside))"
| release: "cw_place w t = CReading \<Longrightarrow> cstep w (cat w t (release_read (cw_gate w)) COutside)"
| block: "cw_place w t = COutside \<Longrightarrow> block_reads (cw_gate w) = (g, r) \<Longrightarrow> cstep w (cat w t g (after_block r))"
| drained: "cw_place w t = CDrainWait ch \<Longrightarrow> ch \<in> cg_closed (cw_gate w) \<Longrightarrow> cstep w (cat w t (cw_gate w) CDrained)"
| cancelled: "cw_place w t = CDrainWait ch \<Longrightarrow> cstep w (cat w t (cw_gate w) CAbort)"
| settled: "cw_place w t = CDrained \<Longrightarrow> cstep w (cat w t (cw_gate w) (if ctx_err then CAbort else CHolding))"
| abort: "cw_place w t = CAbort \<Longrightarrow> cstep w (cat w t (resume_reads (cw_gate w)) COutside)"
| resume: "cw_place w t = CHolding \<Longrightarrow> cstep w (cat w t (resume_reads (cw_gate w)) COutside)"

definition cstart :: cworld where
  "cstart = \<lparr>cw_gate = NewCostReadGate, cw_place = (\<lambda>_. COutside)\<rparr>"


section \<open>Invariant\<close>

fun blocking :: "cplace \<Rightarrow> bool" where
  "blocking (CDrainWait _) = True"
| "blocking CDrained = True"
| "blocking CHolding = True"
| "blocking CAbort = True"
| "blocking _ = False"

definition readers :: "cworld \<Rightarrow> nat set" where
  "readers w = {t. cw_place w t = CReading}"

definition blockers :: "cworld \<Rightarrow> nat set" where
  "blockers w = {t. blocking (cw_place w t)}"

text \<open>
  A channel closed for a waiting goroutine means that the reads are drained, and stay so
  while the gate is blocked; an open one is the channel the last reader will close.
\<close>

fun cplace_ok :: "costReadGate \<Rightarrow> cplace \<Rightarrow> bool" where
  "cplace_ok g (CDrainWait ch) =
     (ch < cg_fresh g \<and> (if ch \<in> cg_closed g then cg_active g = 0 else cg_drained g = Some ch \<and> 0 < cg_active g))"
| "cplace_ok g CDrained = (cg_active g = 0)"
| "cplace_ok g CHolding = (cg_active g = 0)"
| "cplace_ok g _ = True"

definition read_inv :: "cworld \<Rightarrow> bool" where
  "read_inv w \<longleftrightarrow>
     (\<forall>ch \<in> cg_closed (cw_gate w). ch < cg_fresh (cw_gate w))
     \<and> (\<forall>ch. cg_drained (cw_gate w) = Some ch \<longrightarrow> ch < cg_fresh (cw_gate w))
     \<and> (\<forall>t. cplace_ok (cw_gate w) (cw_place w t))
     \<and> finite (readers w) \<and> cg_active (cw_gate w) = int (card (readers w))
     \<and> (if cg_blocked (cw_gate w) then \<exists>t. blockers w = {t} else blockers w = {})"

lemma cat_simps [simp]: "cw_gate (cat w t g p) = g" "cw_place (cat w t g p) = (cw_place w)(t := p)"
  by (simp_all add: cat_def)

lemma reader_sets:
  "readers (cat w t g p) = (if p = CReading then insert t (readers w) else readers w - {t})"
  "blockers (cat w t g p) = (if blocking p then insert t (blockers w) else blockers w - {t})"
  by (auto simp: readers_def blockers_def)

lemma reader_iff: "t \<in> readers w \<longleftrightarrow> cw_place w t = CReading" "t \<in> blockers w \<longleftrightarrow> blocking (cw_place w t)"
  by (simp_all add: readers_def blockers_def)

lemma read_inv_start: "read_inv cstart"
  by (simp add: read_inv_def cstart_def NewCostReadGate_def readers_def blockers_def)

lemma read_invD:
  assumes "read_inv w"
  shows "cplace_ok (cw_gate w) (cw_place w t)"
    and "blocking (cw_place w t) \<Longrightarrow> cg_blocked (cw_gate w) \<and> blockers w = {t}"
    and "\<not> cg_blocked (cw_gate w) \<Longrightarrow> \<not> blocking (cw_place w t)"
    and "0 \<le> cg_active (cw_gate w)"
  using assms reader_iff [of t w] by (auto simp: read_inv_def split: if_splits)

lemma not_blocking_ok: "\<not> blocking p \<Longrightarrow> cplace_ok g p"
  by (cases p) auto

lemma other_not_blocking:
  "read_inv w \<Longrightarrow> blocking (cw_place w t) \<Longrightarrow> u \<noteq> t \<Longrightarrow> \<not> blocking (cw_place w u)"
  using read_invD(2) [of w t] reader_iff(2) [of u w] by simp

text \<open>The blocking goroutine moves on; the gate does not change.\<close>

lemma read_inv_blocking:
  assumes inv: "read_inv w" and t: "blocking (cw_place w t)" and p: "blocking p" "cplace_ok (cw_gate w) p"
  shows "read_inv (cat w t (cw_gate w) p)"
proof -
  have "t \<notin> readers w" "t \<in> blockers w" "p \<noteq> CReading" using t p by (auto simp: reader_iff)
  then have "readers (cat w t (cw_gate w) p) = readers w" "blockers (cat w t (cw_gate w) p) = blockers w"
    using p(1) by (auto simp: reader_sets)
  with inv p show ?thesis by (simp add: read_inv_def)
qed

lemma read_inv_resume:
  assumes inv: "read_inv w" and t: "blocking (cw_place w t)"
  shows "read_inv (cat w t (resume_reads (cw_gate w)) COutside)"
proof -
  have "t \<notin> readers w" using t by (auto simp: reader_iff)
  then have "readers (cat w t (resume_reads (cw_gate w)) COutside) = readers w" by (auto simp: reader_sets)
  moreover have "blockers (cat w t (resume_reads (cw_gate w)) COutside) = {}"
    using read_invD(2) [OF inv t] by (auto simp: reader_sets)
  moreover have "cplace_ok (resume_reads (cw_gate w)) (cw_place w u)" if "u \<noteq> t" for u
    using other_not_blocking [OF inv t that] by (rule not_blocking_ok)
  ultimately show ?thesis using inv by (simp add: read_inv_def resume_reads_def)
qed

lemma read_inv_acquire:
  assumes inv: "read_inv w" and t: "cw_place w t = COutside" and "\<not> cg_blocked (cw_gate w)"
  shows "read_inv (cat w t ((cw_gate w)\<lparr>cg_active := cg_active (cw_gate w) + 1\<rparr>) CReading)"
proof -
  have "cplace_ok ((cw_gate w)\<lparr>cg_active := cg_active (cw_gate w) + 1\<rparr>) (cw_place w u)" for u
    using read_invD(3) [OF inv assms(3)] by (rule not_blocking_ok)
  moreover have "t \<notin> readers w" "t \<notin> blockers w" using t by (simp_all add: reader_iff)
  ultimately show ?thesis using inv assms(3) by (simp add: read_inv_def reader_sets)
qed

lemma read_inv_release:
  assumes inv: "read_inv w" and t: "cw_place w t = CReading"
  shows "read_inv (cat w t (release_read (cw_gate w)) COutside)"
proof -
  let ?g = "release_read (cw_gate w)"
  have t': "t \<in> readers w" "t \<notin> blockers w" using t by (simp_all add: reader_iff)
  have card: "int (card (readers w - {t})) = int (card (readers w)) - 1" "0 < card (readers w)" "finite (readers w)"
    using inv t'(1) card_gt_0_iff [of "readers w"] by (auto simp: read_inv_def of_nat_diff)
  have pos: "0 < cg_active (cw_gate w)" using inv card(2) by (simp add: read_inv_def)
  have frame: "cg_active ?g = cg_active (cw_gate w) - 1" "cg_blocked ?g = cg_blocked (cw_gate w)" "cg_fresh ?g = cg_fresh (cw_gate w)"
    by (simp_all add: release_read_def Let_def split: option.splits)
  have chans: "\<forall>ch \<in> cg_closed ?g. ch < cg_fresh ?g" "\<forall>ch. cg_drained ?g = Some ch \<longrightarrow> ch < cg_fresh ?g"
    using inv by (auto simp: read_inv_def release_read_def Let_def split: option.splits if_splits)
  have "cplace_ok ?g q" if "cplace_ok (cw_gate w) q" for q
    using that pos by (cases q) (auto simp: release_read_def Let_def split: option.splits if_splits)
  with t' card frame chans inv show ?thesis by (simp add: read_inv_def reader_sets)
qed

lemma read_inv_block:
  assumes inv: "read_inv w" and t: "cw_place w t = COutside" and r: "block_reads (cw_gate w) = (g, r)"
    and free: "\<not> cg_blocked (cw_gate w)"
  shows "read_inv (cat w t g (after_block r))"
proof -
  have t': "t \<notin> readers w" "t \<notin> blockers w" using t by (simp_all add: reader_iff)
  have none: "blockers w = {}" using inv free by (simp add: read_inv_def)
  have others: "cplace_ok g (cw_place w u)" for u using read_invD(3) [OF inv free] by (rule not_blocking_ok)
  have fresh: "cg_fresh (cw_gate w) \<notin> cg_closed (cw_gate w)" using inv by (auto simp: read_inv_def)
  from r free have g: "cg_active g = cg_active (cw_gate w)" "cg_blocked g" "cg_closed g = cg_closed (cw_gate w)"
    "cg_fresh (cw_gate w) \<le> cg_fresh g" "\<forall>ch. cg_drained g = Some ch \<longrightarrow> cg_drained (cw_gate w) = Some ch \<or> ch < cg_fresh g"
    by (auto simp: block_reads_def Let_def split: if_splits)
  have place: "cplace_ok g (after_block r)" "blocking (after_block r)" "after_block r \<noteq> CReading"
    using r free fresh read_invD(4) [OF inv] by (auto simp: block_reads_def Let_def split: if_splits)
  have "\<forall>ch \<in> cg_closed g. ch < cg_fresh g" "\<forall>ch. cg_drained g = Some ch \<longrightarrow> ch < cg_fresh g"
    using inv g by (fastforce simp: read_inv_def)+
  with g place others none t' inv show ?thesis by (simp add: read_inv_def reader_sets)
qed

lemma read_inv_refused:
  assumes inv: "read_inv w" and t: "cw_place w t = COutside"
  shows "read_inv (cat w t (cw_gate w) COutside)"
proof -
  have "cat w t (cw_gate w) COutside = w" using t by (cases w) (simp add: cat_def fun_upd_idem)
  with inv show ?thesis by simp
qed

lemma read_inv_step:
  assumes "cstep w w'" and inv: "read_inv w"
  shows "read_inv w'"
  using assms(1)
proof cases
  case (acquire t g ok)
  then show ?thesis
    using read_inv_acquire [OF inv, of t] read_inv_refused [OF inv, of t]
    by (auto simp: Acquire_def split: if_splits)
next
  case (block t g r)
  then show ?thesis
    using read_inv_block [OF inv, of t g r] read_inv_refused [OF inv, of t]
    by (cases "cg_blocked (cw_gate w)") (auto simp: block_reads_def)
next
  case (drained t ch)
  then show ?thesis using read_invD(1) [OF inv, of t] by (auto intro!: read_inv_blocking [OF inv] split: if_splits)
next
  case (settled t ctx_err)
  then show ?thesis using read_invD(1) [OF inv, of t] by (auto intro!: read_inv_blocking [OF inv])
next
  case (cancelled t ch)
  then show ?thesis by (auto intro!: read_inv_blocking [OF inv])
qed (simp_all add: read_inv_release [OF inv] read_inv_resume [OF inv])

interpretation reads: exclusive_gate cstep cstart readers "\<lambda>w t. cw_place w t = CHolding" read_inv
proof
  show "read_inv w \<Longrightarrow> cw_place w t = CHolding \<Longrightarrow> readers w = {}" for w t
    using read_invD(1) [of w t] by (auto simp: read_inv_def)
  show "read_inv w \<Longrightarrow> cw_place w t = CHolding \<Longrightarrow> cw_place w u = CHolding \<Longrightarrow> u = t" for w t u
    using other_not_blocking [of w t u] by fastforce
qed (simp_all add: read_inv_start read_inv_step)

text \<open>
  Claim C23. A successful \<open>BlockAndDrain\<close> means that no cost read is in flight, and none starts
  until it is resumed. In every reachable state: while a goroutine holds the block, no
  goroutine has a read permit, \<open>Acquire\<close> is refused, and no other goroutine is blocking;
  a goroutine that waits for reads although all have been released has been woken; and the
  gate is blocked exactly while one goroutine is blocking, so a cancelled recalculation
  never leaves reads blocked.
\<close>

theorem block_drains_reads:
  assumes "cstep\<^sup>*\<^sup>* cstart w"
  shows "(cw_place w t = CHolding \<longrightarrow>
      (\<forall>u. cw_place w u \<noteq> CReading) \<and> \<not> snd (Acquire (cw_gate w)) \<and> (\<forall>u. u \<noteq> t \<longrightarrow> \<not> blocking (cw_place w u)))
    \<and> (cw_place w t = CDrainWait ch \<longrightarrow> (\<exists>u. cw_place w u = CReading) \<or> ch \<in> cg_closed (cw_gate w))
    \<and> (cg_blocked (cw_gate w) \<longleftrightarrow> (\<exists>!u. blocking (cw_place w u)))"
proof -
  have inv: "read_inv w" by (rule reads.reached_inv [OF assms])
  have "cw_place w u \<noteq> CReading" if "readers w = {}" for u using that by (auto simp: readers_def)
  moreover have "\<not> snd (Acquire (cw_gate w))" if "cw_place w t = CHolding"
    using read_invD(2) [OF inv, of t] that by (simp add: Acquire_def)
  moreover have "\<exists>u. cw_place w u = CReading" if "0 < cg_active (cw_gate w)"
    using inv that card_gt_0_iff [of "readers w"] reader_iff(1) [of _ w] by (auto simp: read_inv_def)
  moreover have "cg_blocked (cw_gate w) \<longleftrightarrow> (\<exists>!u. blocking (cw_place w u))"
    using inv unfolding reader_iff(2) [of _ w, symmetric] by (cases "cg_blocked (cw_gate w)") (auto simp: read_inv_def)
  moreover have "\<not> blocking (cw_place w u)" if "cw_place w t = CHolding" "u \<noteq> t" for u
    using other_not_blocking [OF inv, of t u] that by simp
  ultimately show ?thesis
    using reads.exclusion [OF assms, of t] read_invD(1) [OF inv, of t] by (auto split: if_splits)
qed

text \<open>A run: a read is under way, a recalculation blocks further reads and waits for it.\<close>

definition draining_gate :: costReadGate where
  "draining_gate = \<lparr>cg_blocked = True, cg_active = 1, cg_drained = Some 0, cg_closed = {}, cg_fresh = 1\<rparr>"

definition draining_world :: cworld where
  "draining_world = \<lparr>cw_gate = draining_gate, cw_place = (\<lambda>_. COutside)(1 := CReading, 2 := CDrainWait 0)\<rparr>"

lemma draining_world_reached: "cstep\<^sup>*\<^sup>* cstart draining_world"
proof -
  let ?g = "NewCostReadGate\<lparr>cg_active := 1\<rparr>"
  let ?w = "cat cstart 1 ?g (if True then CReading else COutside)"
  have "cstep cstart ?w"
    by (rule cstep.acquire) (simp_all add: cstart_def Acquire_def NewCostReadGate_def)
  moreover have "cstep ?w (cat ?w 2 draining_gate (after_block (WaitOn 0)))"
    by (rule cstep.block) (simp_all add: cstart_def block_reads_def NewCostReadGate_def draining_gate_def)
  moreover have "cat ?w 2 draining_gate (after_block (WaitOn 0)) = draining_world"
    by (simp add: draining_world_def cat_def cstart_def)
  ultimately show ?thesis by (metis converse_rtranclp_into_rtranclp r_into_rtranclp)
qed

theorem block_drains_reads_witness:
  "((\<exists>u. cw_place draining_world u = CReading) \<or> 0 \<in> cg_closed (cw_gate draining_world))
    \<and> (cg_blocked (cw_gate draining_world) \<longleftrightarrow> (\<exists>!u. blocking (cw_place draining_world u)))"
proof -
  have "cw_place draining_world 2 = CDrainWait 0" by (simp add: draining_world_def)
  then show ?thesis
    using conjunct2 [OF block_drains_reads [OF draining_world_reached, of 2 0]] by (simp only: simp_thms)
qed

end
