(* ===== verification/Go_Time.thy ===== *)
theory Go_Time
  imports Keeper_Prelude
begin

text \<open>
  What the sources use of \<open>time\<close>: instants as nanoseconds since the Unix epoch and durations
  in nanoseconds. An instant is an unbounded integer here; \<open>Time.Sub\<close> saturates as in Go.
\<close>

type_synonym time = int
type_synonym duration = int

definition Nanosecond :: duration where "Nanosecond = 1"
definition Second :: duration where "Second = 1000000000"
definition Minute :: duration where "Minute = 60 * Second"
definition Hour :: duration where "Hour = 60 * Minute"

text \<open>\<open>time.Time{}\<close>, the first instant of the year one.\<close>

definition zeroTime :: time where "zeroTime = - 62135596800000000000"

text \<open>\<open>Time.Sub\<close> saturates at the bounds of \<open>time.Duration\<close>.\<close>

definition time_Sub :: "time \<Rightarrow> time \<Rightarrow> duration" where
  "time_Sub t u = max MinInt64 (min MaxInt64 (t - u))"

end
