(* ===== verification/Login_Limiter.thy ===== *)
theory Login_Limiter
  imports Go_Time "HOL-Library.AList"
begin

text \<open>
  The login attempt limiter: \<open>src/internal/auth/login_limiter.go\<close>. Times are nanoseconds since
  the Unix epoch; the clock is read under the lock, so its value is an argument of each
  operation. The source table is an association list with distinct keys. Go iterates over a
  map in an arbitrary order: the eviction loop gets it as the parameter \<open>iter\<close>, which
  rearranges the entries.
\<close>


section \<open>State\<close>

record loginAttemptWindow =
  lw_StartedAt :: time
  lw_LastSeen :: time
  lw_Attempts :: int

record loginAttemptLimiter =
  ll_window :: duration
  ll_perSourceLimit :: int
  ll_globalLimit :: int
  ll_maxSources :: int
  ll_sources :: "(string \<times> loginAttemptWindow) list"
  ll_global :: loginAttemptWindow

record loginAttemptLimiterOptions =
  lo_Window :: duration
  lo_PerSourceLimit :: int
  lo_GlobalLimit :: int
  lo_MaxSources :: int

definition defaultLoginAttemptWindow :: duration where "defaultLoginAttemptWindow = Minute"
definition defaultLoginAttemptPerSourceLimit :: int where "defaultLoginAttemptPerSourceLimit = 5"
definition defaultLoginAttemptGlobalLimit :: int where "defaultLoginAttemptGlobalLimit = 60"
definition defaultLoginAttemptMaxSources :: int where "defaultLoginAttemptMaxSources = 4096"

definition zeroWindow :: loginAttemptWindow where
  "zeroWindow = \<lparr>lw_StartedAt = zeroTime, lw_LastSeen = zeroTime, lw_Attempts = 0\<rparr>"

definition NewLoginAttemptLimiter :: "loginAttemptLimiterOptions \<Rightarrow> loginAttemptLimiter" where
  "NewLoginAttemptLimiter opts =
     \<lparr>ll_window = (if lo_Window opts \<le> 0 then defaultLoginAttemptWindow else lo_Window opts),
      ll_perSourceLimit = (if lo_PerSourceLimit opts \<le> 0 then defaultLoginAttemptPerSourceLimit else lo_PerSourceLimit opts),
      ll_globalLimit = (if lo_GlobalLimit opts \<le> 0 then defaultLoginAttemptGlobalLimit else lo_GlobalLimit opts),
      ll_maxSources = (if lo_MaxSources opts \<le> 0 then defaultLoginAttemptMaxSources else lo_MaxSources opts),
      ll_sources = [], ll_global = zeroWindow\<rparr>"


section \<open>Operations\<close>

definition resetGlobalWindowLocked :: "time \<Rightarrow> loginAttemptLimiter \<Rightarrow> loginAttemptLimiter" where
  "resetGlobalWindowLocked now l =
     (if lw_StartedAt (ll_global l) = zeroTime \<or> ll_window l \<le> time_Sub now (lw_StartedAt (ll_global l))
      then l\<lparr>ll_global := \<lparr>lw_StartedAt = now, lw_LastSeen = now, lw_Attempts = 0\<rparr>\<rparr>
      else l)"

definition removeExpiredSourcesLocked :: "time \<Rightarrow> loginAttemptLimiter \<Rightarrow> loginAttemptLimiter" where
  "removeExpiredSourcesLocked now l =
     l\<lparr>ll_sources := filter (\<lambda>(source, state). \<not> ll_window l \<le> time_Sub now (lw_StartedAt state)) (ll_sources l)\<rparr>"

fun oldest_source :: "string \<Rightarrow> time \<Rightarrow> (string \<times> loginAttemptWindow) list \<Rightarrow> string" where
  "oldest_source oldest seen [] = oldest"
| "oldest_source oldest seen ((source, state) # rest) =
     (if oldest = '''' \<or> lw_LastSeen state < seen then oldest_source source (lw_LastSeen state) rest
      else oldest_source oldest seen rest)"

type_synonym iteration = "(string \<times> loginAttemptWindow) list \<Rightarrow> (string \<times> loginAttemptWindow) list"

definition makeSourceCapacityLocked :: "iteration \<Rightarrow> loginAttemptLimiter \<Rightarrow> loginAttemptLimiter" where
  "makeSourceCapacityLocked iter l =
     (if int (length (ll_sources l)) < ll_maxSources l then l
      else l\<lparr>ll_sources := AList.delete (oldest_source '''' zeroTime (iter (ll_sources l))) (ll_sources l)\<rparr>)"

definition retryAfter :: "time \<Rightarrow> time \<Rightarrow> duration \<Rightarrow> duration" where
  "retryAfter now startedAt window =
     (let retry = time_Sub (startedAt + window) now in if retry \<le> 0 then Second else retry)"

definition allow :: "iteration \<Rightarrow> time \<Rightarrow> string \<Rightarrow> bool \<Rightarrow> loginAttemptLimiter \<Rightarrow> loginAttemptLimiter \<times> bool \<times> duration" where
  "allow iter now source0 countSource l0 =
     (let source = (if source0 = '''' then ''unknown'' else source0);
          l1 = removeExpiredSourcesLocked now (resetGlobalWindowLocked now l0)
      in
      if ll_globalLimit l1 \<le> lw_Attempts (ll_global l1)
      then (l1, False, retryAfter now (lw_StartedAt (ll_global l1)) (ll_window l1))
      else
        let found = map_of (ll_sources l1) source;
            state = (case found of None \<Rightarrow> zeroWindow | Some s \<Rightarrow> s)
        in
        if ll_perSourceLimit l1 \<le> lw_Attempts state
        then (l1\<lparr>ll_sources := AList.update source (state\<lparr>lw_LastSeen := now\<rparr>) (ll_sources l1)\<rparr>, False,
              retryAfter now (lw_StartedAt state) (ll_window l1))
        else
          let l2 = (if countSource
                then
                  let l' = (if found = None then makeSourceCapacityLocked iter l1 else l1);
                      st = (if found = None then zeroWindow\<lparr>lw_StartedAt := now\<rparr> else state)
                  in l'\<lparr>ll_sources := AList.update source
                          (st\<lparr>lw_Attempts := lw_Attempts st + 1, lw_LastSeen := now\<rparr>) (ll_sources l')\<rparr>
                else l1)
          in (l2\<lparr>ll_global := (ll_global l2)\<lparr>lw_Attempts := lw_Attempts (ll_global l2) + 1, lw_LastSeen := now\<rparr>\<rparr>,
              True, 0))"

text \<open>A \<open>nil\<close> limiter admits everything.\<close>

definition Allow :: "iteration \<Rightarrow> time \<Rightarrow> string \<Rightarrow> loginAttemptLimiter option \<Rightarrow> loginAttemptLimiter option \<times> bool \<times> duration" where
  "Allow iter now source limiter =
     (case limiter of
        None \<Rightarrow> (None, True, 0)
      | Some l \<Rightarrow> (case allow iter now source True l of (l', r) \<Rightarrow> (Some l', r)))"

definition AllowPending :: "iteration \<Rightarrow> time \<Rightarrow> string \<Rightarrow> loginAttemptLimiter option \<Rightarrow> loginAttemptLimiter option \<times> bool \<times> duration" where
  "AllowPending iter now source limiter =
     (case limiter of
        None \<Rightarrow> (None, True, 0)
      | Some l \<Rightarrow> (case allow iter now source False l of (l', r) \<Rightarrow> (Some l', r)))"

definition record_failure :: "iteration \<Rightarrow> time \<Rightarrow> string \<Rightarrow> loginAttemptLimiter \<Rightarrow> loginAttemptLimiter" where
  "record_failure iter now source l0 =
     (if source = '''' then l0
      else
        let l1 = removeExpiredSourcesLocked now l0;
            found = map_of (ll_sources l1) source;
            l2 = (if found = None then makeSourceCapacityLocked iter l1 else l1);
            st = (case found of None \<Rightarrow> zeroWindow\<lparr>lw_StartedAt := now\<rparr> | Some s \<Rightarrow> s);
            st' = (if lw_Attempts st < ll_perSourceLimit l2 then st\<lparr>lw_Attempts := lw_Attempts st + 1\<rparr> else st)
        in l2\<lparr>ll_sources := AList.update source (st'\<lparr>lw_LastSeen := now\<rparr>) (ll_sources l2)\<rparr>)"

definition RecordFailure :: "iteration \<Rightarrow> time \<Rightarrow> string \<Rightarrow> loginAttemptLimiter option \<Rightarrow> loginAttemptLimiter option" where
  "RecordFailure iter now source limiter = map_option (record_failure iter now source) limiter"

definition reset :: "string \<Rightarrow> loginAttemptLimiter \<Rightarrow> loginAttemptLimiter" where
  "reset source l = (if source = '''' then l else l\<lparr>ll_sources := AList.delete source (ll_sources l)\<rparr>)"

definition Reset :: "string \<Rightarrow> loginAttemptLimiter option \<Rightarrow> loginAttemptLimiter option" where
  "Reset source limiter = map_option (reset source) limiter"


section \<open>Invariant\<close>

definition rearranges :: "iteration \<Rightarrow> bool" where
  "rearranges iter \<longleftrightarrow> (\<forall>xs. set (iter xs) = set xs)"

definition limiter_inv :: "loginAttemptLimiter \<Rightarrow> bool" where
  "limiter_inv l \<longleftrightarrow>
     0 < ll_window l \<and> 0 < ll_perSourceLimit l \<and> 0 < ll_globalLimit l \<and> 0 < ll_maxSources l
     \<and> distinct (map fst (ll_sources l)) \<and> '''' \<notin> fst ` set (ll_sources l)
     \<and> int (length (ll_sources l)) \<le> ll_maxSources l
     \<and> (\<forall>(source, state) \<in> set (ll_sources l). 0 \<le> lw_Attempts state \<and> lw_Attempts state \<le> ll_perSourceLimit l)
     \<and> 0 \<le> lw_Attempts (ll_global l) \<and> lw_Attempts (ll_global l) \<le> ll_globalLimit l"

lemma NewLoginAttemptLimiter_inv: "limiter_inv (NewLoginAttemptLimiter opts)"
  by (simp add: limiter_inv_def NewLoginAttemptLimiter_def zeroWindow_def defaultLoginAttemptWindow_def
      defaultLoginAttemptPerSourceLimit_def defaultLoginAttemptGlobalLimit_def defaultLoginAttemptMaxSources_def
      Minute_def Second_def)

lemma expiry_frame [simp]:
  "ll_window (removeExpiredSourcesLocked now (resetGlobalWindowLocked now l)) = ll_window l"
  "ll_perSourceLimit (removeExpiredSourcesLocked now l) = ll_perSourceLimit l"
  by (simp_all add: removeExpiredSourcesLocked_def resetGlobalWindowLocked_def)

lemma limiter_inv_reset_global: "limiter_inv l \<Longrightarrow> limiter_inv (resetGlobalWindowLocked now l)"
  by (auto simp: limiter_inv_def resetGlobalWindowLocked_def)

lemma limiter_inv_expire: "limiter_inv l \<Longrightarrow> limiter_inv (removeExpiredSourcesLocked now l)"
  unfolding limiter_inv_def removeExpiredSourcesLocked_def
  by (auto simp: distinct_map_filter intro: order_trans [OF of_nat_mono [OF length_filter_le]])

lemma oldest_source_member:
  "oldest = '''' \<or> oldest \<in> S \<Longrightarrow> fst ` set xs \<subseteq> S \<Longrightarrow> xs \<noteq> [] \<or> oldest \<noteq> '''' \<Longrightarrow> '''' \<notin> S \<Longrightarrow>
    oldest_source oldest seen xs \<in> S"
proof (induction xs arbitrary: oldest seen)
  case (Cons x xs)
  obtain source state where x: "x = (source, state)" by fastforce
  with Cons.prems have "source \<in> S" "source \<noteq> ''''" by auto
  with Cons.prems Cons.IH x show ?case by auto
qed auto

lemma length_delete:
  "k \<in> fst ` set xs \<Longrightarrow> distinct (map fst xs) \<Longrightarrow> Suc (length (AList.delete k xs)) = length xs"
  by (induction xs) (auto simp: image_iff)

lemma set_update: "set (AList.update k v xs) \<subseteq> insert (k, v) (set xs)"
  by (induction xs) auto

lemma length_update:
  "length (AList.update k v xs) = (if map_of xs k = None then Suc (length xs) else length xs)"
  by (induction xs) auto

text \<open>After making room there is room for one more source.\<close>

lemma capacity_made:
  assumes "rearranges iter" and "limiter_inv l"
  shows "limiter_inv (makeSourceCapacityLocked iter l)"
    and "int (length (ll_sources (makeSourceCapacityLocked iter l))) < ll_maxSources l"
proof -
  let ?k = "oldest_source '''' zeroTime (iter (ll_sources l))" and ?full = "\<not> int (length (ll_sources l)) < ll_maxSources l"
  have member: "?k \<in> fst ` set (ll_sources l)" if ?full
  proof (rule oldest_source_member)
    show "fst ` set (iter (ll_sources l)) \<subseteq> fst ` set (ll_sources l)" using assms(1) by (simp add: rearranges_def)
    from that assms(2) have "ll_sources l \<noteq> []" by (auto simp: limiter_inv_def)
    then show "iter (ll_sources l) \<noteq> [] \<or> '''' \<noteq> ''''" using assms(1) by (metis rearranges_def set_empty2)
  qed (use assms(2) in \<open>simp_all add: limiter_inv_def\<close>)
  have len: "Suc (length (AList.delete ?k (ll_sources l))) = length (ll_sources l)" if ?full
    using member [OF that] assms(2) by (intro length_delete) (simp_all add: limiter_inv_def)
  show "int (length (ll_sources (makeSourceCapacityLocked iter l))) < ll_maxSources l"
    using len assms(2) by (auto simp: makeSourceCapacityLocked_def limiter_inv_def)
  have "set (AList.delete ?k (ll_sources l)) \<subseteq> set (ll_sources l)" by (auto simp: AList.delete_eq)
  then show "limiter_inv (makeSourceCapacityLocked iter l)"
    using assms(2) len unfolding limiter_inv_def makeSourceCapacityLocked_def
    by (auto simp: delete_keys distinct_removeAll)
qed

text \<open>Storing a state with an admissible count, where there is room for it.\<close>

lemma limiter_inv_store:
  assumes "limiter_inv l" and "source \<noteq> ''''"
    and "0 \<le> lw_Attempts st" and "lw_Attempts st \<le> ll_perSourceLimit l"
    and "map_of (ll_sources l) source = None \<Longrightarrow> int (length (ll_sources l)) < ll_maxSources l"
  shows "limiter_inv (l\<lparr>ll_sources := AList.update source st (ll_sources l)\<rparr>)"
proof -
  have len: "int (length (AList.update source st (ll_sources l))) \<le> ll_maxSources l"
    using assms(1,5) by (auto simp: length_update limiter_inv_def)
  have keys: "'''' \<notin> fst ` set (AList.update source st (ll_sources l))"
    "distinct (map fst (AList.update source st (ll_sources l)))"
    using assms(1,2) by (auto simp: AList.dom_update limiter_inv_def intro: AList.distinct_update)
  have "\<forall>(s, x) \<in> set (AList.update source st (ll_sources l)). 0 \<le> lw_Attempts x \<and> lw_Attempts x \<le> ll_perSourceLimit l"
    using set_update [of source st "ll_sources l"] assms(1,3,4) unfolding limiter_inv_def by fast
  with len keys assms(1) show ?thesis by (simp add: limiter_inv_def)
qed

lemma limiter_inv_global:
  "limiter_inv l \<Longrightarrow> lw_Attempts (ll_global l) < ll_globalLimit l \<Longrightarrow>
    limiter_inv (l\<lparr>ll_global := (ll_global l)\<lparr>lw_Attempts := lw_Attempts (ll_global l) + 1, lw_LastSeen := now\<rparr>\<rparr>)"
  by (simp add: limiter_inv_def)

lemma stored_count:
  "limiter_inv l \<Longrightarrow> map_of (ll_sources l) source = Some st \<Longrightarrow>
    0 \<le> lw_Attempts st \<and> lw_Attempts st \<le> ll_perSourceLimit l"
  by (auto simp: limiter_inv_def dest!: map_of_SomeD)

lemma capacity_frame [simp]:
  "ll_perSourceLimit (makeSourceCapacityLocked iter l) = ll_perSourceLimit l"
  "ll_maxSources (makeSourceCapacityLocked iter l) = ll_maxSources l"
  "ll_global (makeSourceCapacityLocked iter l) = ll_global l"
  "ll_globalLimit (makeSourceCapacityLocked iter l) = ll_globalLimit l"
  "ll_window (makeSourceCapacityLocked iter l) = ll_window l"
  by (simp_all add: makeSourceCapacityLocked_def)

text \<open>The counting part of \<open>allow\<close>, shared by the proofs about it.\<close>

definition count_attempt :: "iteration \<Rightarrow> time \<Rightarrow> string \<Rightarrow> loginAttemptLimiter \<Rightarrow> loginAttemptLimiter" where
  "count_attempt iter now source l =
     (let found = map_of (ll_sources l) source;
          l' = (if found = None then makeSourceCapacityLocked iter l else l);
          st = (case found of None \<Rightarrow> zeroWindow\<lparr>lw_StartedAt := now\<rparr> | Some s \<Rightarrow> s)
      in l'\<lparr>ll_sources := AList.update source (st\<lparr>lw_Attempts := lw_Attempts st + 1, lw_LastSeen := now\<rparr>) (ll_sources l')\<rparr>)"

lemma allow_cases [case_names global_limit source_limit admitted]:
  fixes l :: loginAttemptLimiter and now :: time and source :: string and iter :: iteration and c :: bool
  defines "l1 \<equiv> removeExpiredSourcesLocked now (resetGlobalWindowLocked now l)"
    and "src \<equiv> if source = '''' then ''unknown'' else source"
  obtains
    "allow iter now source c l = (l1, False, retryAfter now (lw_StartedAt (ll_global l1)) (ll_window l1))"
      "ll_globalLimit l1 \<le> lw_Attempts (ll_global l1)"
  | st where "map_of (ll_sources l1) src = Some st \<or> map_of (ll_sources l1) src = None \<and> st = zeroWindow"
      "ll_perSourceLimit l1 \<le> lw_Attempts st" "lw_Attempts (ll_global l1) < ll_globalLimit l1"
      "allow iter now source c l =
        (l1\<lparr>ll_sources := AList.update src (st\<lparr>lw_LastSeen := now\<rparr>) (ll_sources l1)\<rparr>, False,
         retryAfter now (lw_StartedAt st) (ll_window l1))"
  | l2 where "l2 = (if c then count_attempt iter now src l1 else l1)"
      "\<And>st. map_of (ll_sources l1) src = Some st \<Longrightarrow> lw_Attempts st < ll_perSourceLimit l1"
      "lw_Attempts (ll_global l1) < ll_globalLimit l1"
      "allow iter now source c l =
        (l2\<lparr>ll_global := (ll_global l2)\<lparr>lw_Attempts := lw_Attempts (ll_global l2) + 1, lw_LastSeen := now\<rparr>\<rparr>, True, 0)"
proof -
  consider "ll_globalLimit l1 \<le> lw_Attempts (ll_global l1)"
    | "lw_Attempts (ll_global l1) < ll_globalLimit l1"
      "ll_perSourceLimit l1 \<le> lw_Attempts (case map_of (ll_sources l1) src of None \<Rightarrow> zeroWindow | Some s \<Rightarrow> s)"
    | "lw_Attempts (ll_global l1) < ll_globalLimit l1"
      "lw_Attempts (case map_of (ll_sources l1) src of None \<Rightarrow> zeroWindow | Some s \<Rightarrow> s) < ll_perSourceLimit l1"
    by linarith
  then show ?thesis
  proof cases
    case 1
    then show ?thesis using that(1) by (simp add: allow_def l1_def [symmetric] Let_def)
  next
    case 2
    then show ?thesis
      using that(2) [of "case map_of (ll_sources l1) src of None \<Rightarrow> zeroWindow | Some s \<Rightarrow> s"]
      by (simp add: allow_def l1_def [symmetric] src_def [symmetric] Let_def split: option.splits)
  next
    case 3
    then show ?thesis
      using that(3) [OF refl]
      by (cases "map_of (ll_sources l1) src")
        (simp_all add: allow_def l1_def [symmetric] src_def [symmetric] count_attempt_def Let_def)
  qed
qed

lemma limiter_inv_count:
  assumes "rearranges iter" and "limiter_inv l" and "source \<noteq> ''''"
    and "\<And>st. map_of (ll_sources l) source = Some st \<Longrightarrow> lw_Attempts st < ll_perSourceLimit l"
  shows "limiter_inv (count_attempt iter now source l)"
proof (cases "map_of (ll_sources l) source")
  case None
  have "limiter_inv ((makeSourceCapacityLocked iter l)\<lparr>ll_sources :=
      AList.update source (zeroWindow\<lparr>lw_StartedAt := now, lw_Attempts := 1, lw_LastSeen := now\<rparr>)
        (ll_sources (makeSourceCapacityLocked iter l))\<rparr>)"
    using capacity_made [OF assms(1,2)] assms(2,3)
    by (intro limiter_inv_store) (simp_all add: limiter_inv_def)
  with None show ?thesis by (simp add: count_attempt_def zeroWindow_def Let_def)
next
  case (Some st)
  with assms stored_count [OF assms(2) Some] show ?thesis
    by (auto simp: count_attempt_def intro!: limiter_inv_store)
qed

lemma count_attempt_global [simp]:
  "ll_global (count_attempt iter now source l) = ll_global l"
  "ll_globalLimit (count_attempt iter now source l) = ll_globalLimit l"
  "ll_window (count_attempt iter now source l) = ll_window l"
  "ll_perSourceLimit (count_attempt iter now source l) = ll_perSourceLimit l"
  "ll_maxSources (count_attempt iter now source l) = ll_maxSources l"
  by (simp_all add: count_attempt_def Let_def)

lemma allow_inv:
  assumes "rearranges iter" and "limiter_inv l"
  shows "limiter_inv (fst (allow iter now source c l))"
proof -
  let ?l1 = "removeExpiredSourcesLocked now (resetGlobalWindowLocked now l)"
  have inv: "limiter_inv ?l1" by (intro limiter_inv_expire limiter_inv_reset_global assms(2))
  show ?thesis
  proof (cases rule: allow_cases [where l = l and now = now and source = source and iter = iter and c = c])
    case (source_limit st)
    have "0 < ll_perSourceLimit ?l1" using inv by (simp add: limiter_inv_def)
    with source_limit(1,2) have st: "map_of (ll_sources ?l1) (if source = '''' then ''unknown'' else source) = Some st"
      by (auto simp: zeroWindow_def)
    from stored_count [OF inv st] show ?thesis
      unfolding source_limit(4) fst_conv using st by (intro limiter_inv_store [OF inv]) simp_all
  next
    case (admitted l2)
    have "limiter_inv l2"
      unfolding admitted(1) using limiter_inv_count [OF assms(1) inv _ admitted(2)] inv by simp
    with admitted(3) show ?thesis
      unfolding admitted(4) fst_conv by (intro limiter_inv_global) (simp_all add: admitted(1))
  qed (simp add: inv)
qed

lemma record_failure_inv:
  assumes "rearranges iter" and "limiter_inv l"
  shows "limiter_inv (record_failure iter now source l)"
proof (cases "source = ''''")
  case False
  let ?l1 = "removeExpiredSourcesLocked now l"
  have inv: "limiter_inv ?l1" using assms(2) by (rule limiter_inv_expire)
  show ?thesis
  proof (cases "map_of (ll_sources ?l1) source")
    case None
    have "limiter_inv ((makeSourceCapacityLocked iter ?l1)\<lparr>ll_sources :=
        AList.update source (zeroWindow\<lparr>lw_StartedAt := now, lw_Attempts := 1, lw_LastSeen := now\<rparr>)
          (ll_sources (makeSourceCapacityLocked iter ?l1))\<rparr>)"
      using capacity_made [OF assms(1) inv] inv False
      by (intro limiter_inv_store) (simp_all add: limiter_inv_def)
    moreover have "0 < ll_perSourceLimit l" using assms(2) by (simp add: limiter_inv_def)
    ultimately show ?thesis using None False by (simp add: record_failure_def zeroWindow_def Let_def)
  next
    case (Some st)
    with stored_count [OF inv Some] False show ?thesis
      by (auto simp: record_failure_def Let_def intro!: limiter_inv_store [OF inv])
  qed
qed (simp add: record_failure_def assms)

lemma reset_inv: "limiter_inv l \<Longrightarrow> limiter_inv (reset source l)"
  unfolding limiter_inv_def reset_def
  by (auto simp: AList.delete_eq distinct_map_filter intro: order_trans [OF of_nat_mono [OF length_filter_le]])


section \<open>Sequences of calls\<close>

datatype call = AllowCall string | PendingCall string | FailureCall string | ResetCall string

text \<open>One call at a time: the new state and whether an attempt was admitted.\<close>

fun serve :: "iteration \<Rightarrow> time \<Rightarrow> call \<Rightarrow> loginAttemptLimiter \<Rightarrow> loginAttemptLimiter \<times> bool" where
  "serve iter now (AllowCall source) l = (case allow iter now source True l of (l', ok, _) \<Rightarrow> (l', ok))"
| "serve iter now (PendingCall source) l = (case allow iter now source False l of (l', ok, _) \<Rightarrow> (l', ok))"
| "serve iter now (FailureCall source) l = (record_failure iter now source l, False)"
| "serve iter now (ResetCall source) l = (reset source l, False)"

fun serve_all :: "iteration \<Rightarrow> (time \<times> call) list \<Rightarrow> loginAttemptLimiter \<Rightarrow> loginAttemptLimiter \<times> (call \<times> bool) list" where
  "serve_all iter [] l = (l, [])"
| "serve_all iter ((now, c) # cs) l =
     (case serve iter now c l of (l', ok) \<Rightarrow>
        case serve_all iter cs l' of (l'', oks) \<Rightarrow> (l'', (c, ok) # oks))"

lemma serve_inv: "rearranges iter \<Longrightarrow> limiter_inv l \<Longrightarrow> limiter_inv (fst (serve iter now c l))"
  by (cases c) (simp_all add: allow_inv record_failure_inv reset_inv case_prod_beta)

lemma serve_all_inv: "rearranges iter \<Longrightarrow> limiter_inv l \<Longrightarrow> limiter_inv (fst (serve_all iter cs l))"
proof (induction cs arbitrary: l)
  case (Cons tc cs)
  obtain now c where tc: "tc = (now, c)" by fastforce
  from Cons.IH [OF Cons.prems(1) serve_inv [OF Cons.prems, of now c]] show ?case
    by (simp add: tc case_prod_beta)
qed simp

text \<open>
  The limiter's memory is bounded and its counters stay within their limits,
  whatever is thrown at it. From a new limiter, with any options, any sequence of calls at
  any times, and any order in which Go walks the source table, leaves at most \<open>maxSources\<close>
  sources, one entry each and none for the empty source, every source with at most its
  limit of attempts, and the global count within the global limit.
\<close>

theorem limiter_bounded:
  assumes "\<And>xs. set (iter xs) = set xs"
    and "l = fst (serve_all iter calls (NewLoginAttemptLimiter options))"
  shows "int (length (ll_sources l)) \<le> ll_maxSources l \<and> distinct (map fst (ll_sources l))
    \<and> '''' \<notin> fst ` set (ll_sources l)
    \<and> (\<forall>(source, state) \<in> set (ll_sources l). 0 \<le> lw_Attempts state \<and> lw_Attempts state \<le> ll_perSourceLimit l)
    \<and> 0 \<le> lw_Attempts (ll_global l) \<and> lw_Attempts (ll_global l) \<le> ll_globalLimit l"
proof -
  have "limiter_inv l"
    unfolding assms(2) using assms(1) by (intro serve_all_inv NewLoginAttemptLimiter_inv) (simp add: rearranges_def)
  then show ?thesis by (simp add: limiter_inv_def)
qed

text \<open>Within one global window nothing but admissions touches the global count.\<close>

definition same_window :: "loginAttemptLimiter \<Rightarrow> loginAttemptLimiter \<Rightarrow> bool" where
  "same_window l l' \<longleftrightarrow>
     ll_window l' = ll_window l \<and> ll_globalLimit l' = ll_globalLimit l
     \<and> lw_StartedAt (ll_global l') = lw_StartedAt (ll_global l)"

lemma window_still_open:
  assumes "lw_StartedAt (ll_global l) \<noteq> zeroTime" and "time_Sub now (lw_StartedAt (ll_global l)) < ll_window l"
  shows "resetGlobalWindowLocked now l = l"
  using assms by (simp add: resetGlobalWindowLocked_def)

lemma expire_global [simp]:
  "ll_global (removeExpiredSourcesLocked now l) = ll_global l"
  "ll_globalLimit (removeExpiredSourcesLocked now l) = ll_globalLimit l"
  "ll_window (removeExpiredSourcesLocked now l) = ll_window l"
  "ll_maxSources (removeExpiredSourcesLocked now l) = ll_maxSources l"
  by (simp_all add: removeExpiredSourcesLocked_def)

lemma allow_global:
  assumes "lw_StartedAt (ll_global l) \<noteq> zeroTime" and "time_Sub now (lw_StartedAt (ll_global l)) < ll_window l"
    and "allow iter now source c l = (l', ok, d)"
  shows "same_window l l' \<and> lw_Attempts (ll_global l') = lw_Attempts (ll_global l) + (if ok then 1 else 0)"
proof -
  note open_window = window_still_open [OF assms(1,2)]
  show ?thesis
  proof (cases rule: allow_cases [where l = l and now = now and source = source and iter = iter and c = c])
    case (admitted l2)
    with assms(3) show ?thesis by (auto simp: open_window same_window_def)
  qed (use assms(3) in \<open>auto simp: open_window same_window_def\<close>)
qed

lemma serve_global:
  assumes "lw_StartedAt (ll_global l) \<noteq> zeroTime" and "time_Sub now (lw_StartedAt (ll_global l)) < ll_window l"
    and "serve iter now c l = (l', ok)"
  shows "same_window l l' \<and> lw_Attempts (ll_global l') = lw_Attempts (ll_global l) + (if ok then 1 else 0)"
  using assms(3) allow_global [OF assms(1,2)]
  by (cases c) (auto simp: record_failure_def reset_def same_window_def Let_def split: prod.splits)

text \<open>
  The global limit holds over time: in any sequence of calls that all fall into
  the current global window, from whatever sources, the attempts admitted by \<open>Allow\<close> and
  \<open>AllowPending\<close> together with the ones counted before never exceed the global limit. The
  failures reported later by \<open>RecordFailure\<close> and the resets do not use up or free any of it.
\<close>

theorem global_limit_enforced:
  assumes "\<And>xs. set (iter xs) = set xs" and "limiter_inv l"
    and "lw_StartedAt (ll_global l) \<noteq> zeroTime"
    and "\<forall>(now, c) \<in> set calls. time_Sub now (lw_StartedAt (ll_global l)) < ll_window l"
  shows "lw_Attempts (ll_global l) + int (length (filter snd (snd (serve_all iter calls l)))) \<le> ll_globalLimit l"
  using assms(2-)
proof (induction calls arbitrary: l)
  case Nil
  then show ?case by (simp add: limiter_inv_def)
next
  case (Cons tc calls)
  obtain now c where tc: "tc = (now, c)" by fastforce
  obtain l' ok where s: "serve iter now c l = (l', ok)" by fastforce
  from Cons.prems tc have g: "same_window l l'" "lw_Attempts (ll_global l') = lw_Attempts (ll_global l) + (if ok then 1 else 0)"
    using serve_global [OF _ _ s] by auto
  have "limiter_inv l'"
    using serve_inv [of iter l now c] assms(1) Cons.prems(1) s by (simp add: rearranges_def)
  from Cons.IH [OF this] Cons.prems g
  have "lw_Attempts (ll_global l') + int (length (filter snd (snd (serve_all iter calls l')))) \<le> ll_globalLimit l"
    by (auto simp: same_window_def)
  with g(2) show ?case by (simp add: tc s case_prod_beta split: if_splits)
qed

text \<open>
  What a source relies on while there is room in the table: its window stays, and its count
  is raised by what is counted for it, up to the limit and not beyond.
\<close>

definition tracked :: "string \<Rightarrow> loginAttemptWindow \<Rightarrow> loginAttemptLimiter \<Rightarrow> loginAttemptLimiter \<Rightarrow> int \<Rightarrow> bool" where
  "tracked s st l l' n \<longleftrightarrow>
     ll_window l' = ll_window l \<and> ll_perSourceLimit l' = ll_perSourceLimit l \<and> ll_maxSources l' = ll_maxSources l
     \<and> length (ll_sources l') \<le> Suc (length (ll_sources l))
     \<and> (\<exists>st'. map_of (ll_sources l') s = Some st' \<and> lw_StartedAt st' = lw_StartedAt st
              \<and> lw_Attempts st' = min (ll_perSourceLimit l) (lw_Attempts st + n))"

lemma map_of_filter_keep:
  "map_of xs k = Some v \<Longrightarrow> distinct (map fst xs) \<Longrightarrow> P (k, v) \<Longrightarrow> map_of (filter P xs) k = Some v"
  by (induction xs) (auto simp: image_iff dest: map_of_SomeD)

lemma expire_keeps:
  assumes "map_of (ll_sources l) s = Some st" and "distinct (map fst (ll_sources l))"
    and "time_Sub now (lw_StartedAt st) < ll_window l"
  shows "map_of (ll_sources (removeExpiredSourcesLocked now (resetGlobalWindowLocked now l))) s = Some st"
    and "map_of (ll_sources (removeExpiredSourcesLocked now l)) s = Some st"
  using assms by (simp_all add: removeExpiredSourcesLocked_def resetGlobalWindowLocked_def map_of_filter_keep)

lemma expire_shrinks:
  "length (ll_sources (removeExpiredSourcesLocked now l)) \<le> length (ll_sources l)"
  "length (ll_sources (removeExpiredSourcesLocked now (resetGlobalWindowLocked now l))) \<le> length (ll_sources l)"
  by (simp_all add: removeExpiredSourcesLocked_def resetGlobalWindowLocked_def)

lemma reset_window_frame [simp]:
  "ll_perSourceLimit (resetGlobalWindowLocked now l) = ll_perSourceLimit l"
  "ll_maxSources (resetGlobalWindowLocked now l) = ll_maxSources l"
  "ll_window (resetGlobalWindowLocked now l) = ll_window l"
  by (simp_all add: resetGlobalWindowLocked_def)

lemma room_no_eviction:
  "int (length (ll_sources l)) < ll_maxSources l \<Longrightarrow> makeSourceCapacityLocked iter l = l"
  by (simp add: makeSourceCapacityLocked_def)

text \<open>The source a caller without an address is counted under.\<close>

definition named :: "string \<Rightarrow> string" where
  "named source = (if source = '''' then ''unknown'' else source)"

text \<open>Whether a call asks for an admission of the source, and whether a served call used up one of its attempts.\<close>

fun asks :: "string \<Rightarrow> call \<Rightarrow> bool" where
  "asks s (AllowCall source) = (named source = s)"
| "asks s (PendingCall source) = (named source = s)"
| "asks s _ = False"

fun spends :: "string \<Rightarrow> call \<times> bool \<Rightarrow> bool" where
  "spends s (AllowCall source, ok) = (ok \<and> named source = s)"
| "spends s (FailureCall source, ok) = (source = s)"
| "spends s _ = False"

definition spent :: "string \<Rightarrow> (call \<times> bool) list \<Rightarrow> int" where
  "spent s log = int (length (filter (spends s) log))"

definition admitted :: "string \<Rightarrow> (call \<times> bool) list \<Rightarrow> int" where
  "admitted s log = int (length (filter (\<lambda>r. snd r \<and> spends s r) log))"

text \<open>The global window has room: there is none yet, it is over, or it is not used up.\<close>

definition global_room :: "time \<Rightarrow> loginAttemptLimiter \<Rightarrow> bool" where
  "global_room now l \<longleftrightarrow>
     lw_StartedAt (ll_global l) = zeroTime \<or> ll_window l \<le> time_Sub now (lw_StartedAt (ll_global l))
   \<or> lw_Attempts (ll_global l) < ll_globalLimit l"

lemma global_room_reset:
  "0 < ll_globalLimit l \<Longrightarrow>
    lw_Attempts (ll_global (resetGlobalWindowLocked now l)) < ll_globalLimit (resetGlobalWindowLocked now l) \<longleftrightarrow> global_room now l"
  by (auto simp: global_room_def resetGlobalWindowLocked_def)

lemma allow_tracks:
  assumes "map_of (ll_sources l) s = Some st" and "limiter_inv l"
    and "time_Sub now (lw_StartedAt st) < ll_window l" and "int (length (ll_sources l)) < ll_maxSources l"
    and "s \<noteq> ''''" and "allow iter now source c l = (l', ok, d)"
  shows "tracked s st l l' (if ok \<and> c \<and> named source = s then 1 else 0)"
    and "named source = s \<Longrightarrow> ok \<longleftrightarrow> lw_Attempts st < ll_perSourceLimit l \<and> global_room now l"
proof -
  let ?l1 = "removeExpiredSourcesLocked now (resetGlobalWindowLocked now l)"
  let ?src = "if source = '''' then ''unknown'' else source"
  have dist: "distinct (map fst (ll_sources l))" and glob: "0 < ll_globalLimit l"
    and bound: "lw_Attempts st \<le> ll_perSourceLimit l"
    using assms(2) stored_count [OF assms(2,1)] by (simp_all add: limiter_inv_def)
  have st: "map_of (ll_sources ?l1) s = Some st" using assms(1) dist assms(3) by (rule expire_keeps)
  have len: "length (ll_sources ?l1) \<le> length (ll_sources l)" by (rule expire_shrinks)
  have room: "makeSourceCapacityLocked iter ?l1 = ?l1" using len assms(4) by (intro room_no_eviction) simp
  have src: "?src = named source" by (simp add: named_def)
  note global = global_room_reset [OF glob, of now]
  have "tracked s st l l' (if ok \<and> c \<and> named source = s then 1 else 0)
      \<and> (named source = s \<longrightarrow> (ok \<longleftrightarrow> lw_Attempts st < ll_perSourceLimit l \<and> global_room now l))"
  proof (cases rule: allow_cases [where l = l and now = now and source = source and iter = iter and c = c])
    case global_limit
    with assms(6) st len bound global show ?thesis by (auto simp: tracked_def)
  next
    case (source_limit st2)
    with assms(6) st len bound show ?thesis
      by (cases "named source = s") (auto simp: src tracked_def length_update AList.update_conv')
  next
    case (admitted l2)
    have l': "l' = l2\<lparr>ll_global := (ll_global l2)\<lparr>lw_Attempts := lw_Attempts (ll_global l2) + 1, lw_LastSeen := now\<rparr>\<rparr>" "ok"
      using assms(6) admitted(4) by auto
    have "global_room now l" using admitted(3) global by simp
    with st len room admitted(2) [of st] assms(5) bound show ?thesis unfolding l'(1) admitted(1) src
      by (cases "named source = s") (auto simp: l'(2) tracked_def count_attempt_def length_update AList.update_conv' Let_def split: if_splits option.splits)
  qed
  then show "tracked s st l l' (if ok \<and> c \<and> named source = s then 1 else 0)"
    and "named source = s \<Longrightarrow> ok \<longleftrightarrow> lw_Attempts st < ll_perSourceLimit l \<and> global_room now l" by auto
qed

lemma record_failure_tracks:
  assumes "map_of (ll_sources l) s = Some st" and "limiter_inv l"
    and "time_Sub now (lw_StartedAt st) < ll_window l" and "int (length (ll_sources l)) < ll_maxSources l"
    and "s \<noteq> ''''"
  shows "tracked s st l (record_failure iter now source l) (if source = s then 1 else 0)"
proof -
  let ?l1 = "removeExpiredSourcesLocked now l"
  have dist: "distinct (map fst (ll_sources l))" and bound: "lw_Attempts st \<le> ll_perSourceLimit l"
    using assms(2) stored_count [OF assms(2,1)] by (simp_all add: limiter_inv_def)
  have st: "map_of (ll_sources ?l1) s = Some st" using assms(1) dist assms(3) by (rule expire_keeps)
  have len: "length (ll_sources ?l1) \<le> length (ll_sources l)" by (rule expire_shrinks)
  have room: "makeSourceCapacityLocked iter ?l1 = ?l1" using len assms(4) by (intro room_no_eviction) simp
  show ?thesis
    using assms(1,5) st len room bound
    by (cases "source = s") (auto simp: tracked_def record_failure_def length_update AList.update_conv' Let_def split: option.splits)
qed

lemma serve_tracks:
  assumes "map_of (ll_sources l) s = Some st" and "limiter_inv l"
    and "time_Sub now (lw_StartedAt st) < ll_window l" and "int (length (ll_sources l)) < ll_maxSources l"
    and "s \<noteq> ''''" and "c \<noteq> ResetCall s" and "serve iter now c l = (l', ok)"
  shows "tracked s st l l' (if spends s (c, ok) then 1 else 0)"
    and "asks s c \<Longrightarrow> ok \<longleftrightarrow> lw_Attempts st < ll_perSourceLimit l \<and> global_room now l"
proof -
  have "tracked s st l l' (if spends s (c, ok) then 1 else 0)
    \<and> (asks s c \<longrightarrow> (ok \<longleftrightarrow> lw_Attempts st < ll_perSourceLimit l \<and> global_room now l))"
  proof (cases c)
    case (AllowCall source)
    with assms(7) obtain d where "allow iter now source True l = (l', ok, d)" by (auto split: prod.splits)
    from allow_tracks [OF assms(1-5) this] AllowCall show ?thesis by simp
  next
    case (PendingCall source)
    with assms(7) obtain d where "allow iter now source False l = (l', ok, d)" by (auto split: prod.splits)
    from allow_tracks [OF assms(1-5) this] PendingCall show ?thesis by simp
  next
    case (FailureCall source)
    with assms(7) show ?thesis using record_failure_tracks [OF assms(1-5), of iter source] by auto
  next
    case (ResetCall source)
    then have "source \<noteq> s" using assms(6) by simp
    moreover have "lw_Attempts st \<le> ll_perSourceLimit l" using stored_count [OF assms(2,1)] by simp
    ultimately show ?thesis using assms(1,7) ResetCall AList.length_delete_le [of source "ll_sources l"]
      by (auto simp: tracked_def reset_def)
  qed
  then show "tracked s st l l' (if spends s (c, ok) then 1 else 0)"
    and "asks s c \<Longrightarrow> ok \<longleftrightarrow> lw_Attempts st < ll_perSourceLimit l \<and> global_room now l" by auto
qed

text \<open>After any calls that fall into the source's window its count is what was spent, up to the limit.\<close>

lemma serve_all_tracks:
  assumes "\<And>xs. set (iter xs) = set xs" and "limiter_inv l" and "map_of (ll_sources l) s = Some st"
    and "\<forall>(now, c) \<in> set calls. time_Sub now (lw_StartedAt st) < ll_window l \<and> c \<noteq> ResetCall s"
    and "int (length (ll_sources l)) + int (length calls) \<le> ll_maxSources l"
    and "serve_all iter calls l = (l', log)"
  shows "limiter_inv l' \<and> ll_window l' = ll_window l \<and> ll_perSourceLimit l' = ll_perSourceLimit l
    \<and> ll_maxSources l' = ll_maxSources l \<and> length (ll_sources l') \<le> length (ll_sources l) + length calls
    \<and> (\<exists>st'. map_of (ll_sources l') s = Some st' \<and> lw_StartedAt st' = lw_StartedAt st
         \<and> lw_Attempts st' = min (ll_perSourceLimit l) (lw_Attempts st + spent s log)
         \<and> lw_Attempts st + admitted s log \<le> lw_Attempts st')"
  using assms(2-)
proof (induction calls arbitrary: l st log)
  case Nil
  then show ?case using stored_count [OF Nil.prems(1,2)] by (auto simp: spent_def admitted_def)
next
  case (Cons tc calls)
  obtain now c where tc: "tc = (now, c)" by fastforce
  obtain l1 ok where s: "serve iter now c l = (l1, ok)" by fastforce
  obtain rest where rest: "serve_all iter calls l1 = (l', rest)" "log = (c, ok) # rest"
    using Cons.prems(5) by (auto simp: tc s split: prod.splits)
  have "s \<noteq> ''''" using Cons.prems(1) map_of_SomeD [OF Cons.prems(2)] by (force simp: limiter_inv_def)
  then have "tracked s st l l1 (if spends s (c, ok) then 1 else 0)"
    using serve_tracks(1) [OF Cons.prems(2,1) _ _ _ _ s] Cons.prems(3,4) by (simp add: tc)
  then obtain st1 where t: "map_of (ll_sources l1) s = Some st1" "lw_StartedAt st1 = lw_StartedAt st"
    "lw_Attempts st1 = min (ll_perSourceLimit l) (lw_Attempts st + (if spends s (c, ok) then 1 else 0))"
    "ll_window l1 = ll_window l" "ll_perSourceLimit l1 = ll_perSourceLimit l"
    "ll_maxSources l1 = ll_maxSources l" "length (ll_sources l1) \<le> Suc (length (ll_sources l))"
    unfolding tracked_def by blast
  have inv: "limiter_inv l1"
    using serve_inv [of iter l now c] assms(1) Cons.prems(1) s by (simp add: rearranges_def)
  have below: "lw_Attempts st < ll_perSourceLimit l" if "spends s (c, ok) \<and> ok"
  proof -
    from that s have "asks s c" by (cases c) auto
    then show ?thesis
      using serve_tracks(2) [OF Cons.prems(2,1) _ _ \<open>s \<noteq> ''''\<close> _ s] Cons.prems(3,4) that by (simp add: tc)
  qed
  have "0 \<le> lw_Attempts st" "lw_Attempts st \<le> ll_perSourceLimit l" using stored_count [OF Cons.prems(1,2)] by simp_all
  moreover have "spent s log = (if spends s (c, ok) then 1 else 0) + spent s rest"
    "admitted s log = (if spends s (c, ok) \<and> ok then 1 else 0) + admitted s rest"
    by (cases ok; simp add: rest(2) spent_def admitted_def)+
  moreover have "\<forall>(now, c) \<in> set calls. time_Sub now (lw_StartedAt st1) < ll_window l1 \<and> c \<noteq> ResetCall s"
    "int (length (ll_sources l1)) + int (length calls) \<le> ll_maxSources l1"
    using Cons.prems(3,4) t by auto
  note end_state = Cons.IH [OF inv t(1) this rest(1)]
  moreover have "lw_Attempts st + (if spends s (c, ok) \<and> ok then 1 else 0) \<le> lw_Attempts st1" "lw_Attempts st1 \<le> ll_perSourceLimit l"
    using below t(3) calculation(2) by (auto split: if_splits)
  moreover have "spent s rest \<ge> 0" by (simp add: spent_def)
  ultimately show ?case using t by (auto split: if_splits)
qed

text \<open>
  Claim C24. The per-source limit holds over time, exactly. Take a source with an entry and
  any calls of any kind, from whatever sources, that all fall into the source's window, none
  of them a reset of this source, and a table with room for them, so that the entry is not
  evicted. What counts against the source is every call of \<open>Allow\<close> it was admitted by and
  every failure recorded for it; a pending attempt does not count before its failure is
  recorded. Every call of \<open>Allow\<close> or \<open>AllowPending\<close> of the source is admitted if and only if
  what has been counted until then is below the limit and the global window has room. So the
  admissions by \<open>Allow\<close>, with the attempts the entry started with, never exceed the limit.
\<close>

theorem source_limit_enforced:
  assumes "\<And>xs. set (iter xs) = set xs" and "limiter_inv l"
    and "map_of (ll_sources l) s = Some st"
    and "\<forall>(now, c) \<in> set calls. time_Sub now (lw_StartedAt st) < ll_window l \<and> c \<noteq> ResetCall s"
    and "int (length (ll_sources l)) + int (length calls) \<le> ll_maxSources l"
  shows "(calls = before @ (now, c) # after \<longrightarrow> asks s c \<longrightarrow>
      (snd (serve iter now c (fst (serve_all iter before l)))
        \<longleftrightarrow> lw_Attempts st + spent s (snd (serve_all iter before l)) < ll_perSourceLimit l
          \<and> global_room now (fst (serve_all iter before l))))
    \<and> lw_Attempts st + admitted s (snd (serve_all iter calls l)) \<le> ll_perSourceLimit l"
proof (intro conjI impI)
  assume calls: "calls = before @ (now, c) # after" and c: "asks s c"
  obtain l' log where b: "serve_all iter before l = (l', log)" by fastforce
  obtain l1 ok where one: "serve iter now c l' = (l1, ok)" by fastforce
  have "s \<noteq> ''''" using assms(2) map_of_SomeD [OF assms(3)] by (force simp: limiter_inv_def)
  from serve_all_tracks [OF assms(1-3) _ _ b] assms(4,5) calls
  obtain st' where t: "limiter_inv l'" "ll_window l' = ll_window l" "ll_perSourceLimit l' = ll_perSourceLimit l"
    "ll_maxSources l' = ll_maxSources l" "length (ll_sources l') \<le> length (ll_sources l) + length before"
    "map_of (ll_sources l') s = Some st'" "lw_StartedAt st' = lw_StartedAt st"
    "lw_Attempts st' = min (ll_perSourceLimit l) (lw_Attempts st + spent s log)"
    by auto
  have "ok \<longleftrightarrow> lw_Attempts st' < ll_perSourceLimit l' \<and> global_room now l'"
    using serve_tracks(2) [OF t(6,1) _ _ \<open>s \<noteq> ''''\<close> _ one c] assms(4,5) t calls by auto
  with t(3,8) show "snd (serve iter now c (fst (serve_all iter before l)))
      \<longleftrightarrow> lw_Attempts st + spent s (snd (serve_all iter before l)) < ll_perSourceLimit l
        \<and> global_room now (fst (serve_all iter before l))"
    by (simp add: b one) linarith
next
  obtain l' log where b: "serve_all iter calls l = (l', log)" by fastforce
  from serve_all_tracks [OF assms b] show "lw_Attempts st + admitted s (snd (serve_all iter calls l)) \<le> ll_perSourceLimit l"
    unfolding b by auto
qed


section \<open>An example\<close>

definition busy_limiter :: loginAttemptLimiter where
  "busy_limiter =
     \<lparr>ll_window = 60, ll_perSourceLimit = 5, ll_globalLimit = 60, ll_maxSources = 4096,
      ll_sources = [(''10.0.0.1'', \<lparr>lw_StartedAt = 1000, lw_LastSeen = 1010, lw_Attempts = 4\<rparr>)],
      ll_global = \<lparr>lw_StartedAt = 1000, lw_LastSeen = 1010, lw_Attempts = 4\<rparr>\<rparr>"

definition busy_calls :: "(time \<times> call) list" where
  "busy_calls =
     [(1020, AllowCall ''10.0.0.1''), (1030, AllowCall ''10.0.0.1''), (1040, PendingCall ''10.0.0.2'')]"

lemma busy_limiter_inv: "limiter_inv busy_limiter"
  by (simp add: limiter_inv_def busy_limiter_def)

theorem limiter_bounded_witness:
  "let l = fst (serve_all (\<lambda>xs. xs) busy_calls (NewLoginAttemptLimiter \<lparr>lo_Window = 60, lo_PerSourceLimit = 5, lo_GlobalLimit = 0, lo_MaxSources = 1\<rparr>))
   in int (length (ll_sources l)) \<le> ll_maxSources l \<and> distinct (map fst (ll_sources l))
    \<and> '''' \<notin> fst ` set (ll_sources l)
    \<and> list_all (\<lambda>(source, state). 0 \<le> lw_Attempts state \<and> lw_Attempts state \<le> ll_perSourceLimit l) (ll_sources l)
    \<and> 0 \<le> lw_Attempts (ll_global l) \<and> lw_Attempts (ll_global l) \<le> ll_globalLimit l"
  unfolding Let_def list_all_iff by (rule limiter_bounded [where iter = "\<lambda>xs. xs"]) simp_all

theorem global_limit_enforced_witness:
  "lw_Attempts (ll_global busy_limiter)
    + int (length (filter snd (snd (serve_all (\<lambda>xs. xs) busy_calls busy_limiter)))) \<le> ll_globalLimit busy_limiter"
  by (rule global_limit_enforced [OF _ busy_limiter_inv])
    (simp_all add: busy_limiter_def busy_calls_def zeroTime_def time_Sub_def MinInt64_def MaxInt64_def)

text \<open>
  A source with four of five attempts used asks while a login of it is pending: the pending
  attempt is admitted and not counted, its failure is, and then the source is refused.
\<close>

definition source_calls :: "(time \<times> call) list" where
  "source_calls =
     [(1020, PendingCall ''10.0.0.1''), (1025, AllowCall ''10.0.0.2''), (1030, FailureCall ''10.0.0.1''),
      (1035, PendingCall ''10.0.0.1''), (1040, AllowCall ''10.0.0.1'')]"

theorem source_limit_enforced_witness:
  "snd (serve (\<lambda>xs. xs) 1020 (PendingCall ''10.0.0.1'') busy_limiter)
   \<and> \<not> snd (serve (\<lambda>xs. xs) 1035 (PendingCall ''10.0.0.1'') (fst (serve_all (\<lambda>xs. xs) (take 3 source_calls) busy_limiter)))
   \<and> \<not> snd (serve (\<lambda>xs. xs) 1040 (AllowCall ''10.0.0.1'') (fst (serve_all (\<lambda>xs. xs) (take 4 source_calls) busy_limiter)))"
proof -
  have calls: "\<forall>(now, c) \<in> set source_calls. time_Sub now (lw_StartedAt \<lparr>lw_StartedAt = 1000, lw_LastSeen = 1010, lw_Attempts = 4\<rparr>) < ll_window busy_limiter \<and> c \<noteq> ResetCall ''10.0.0.1''"
    by (simp add: source_calls_def busy_limiter_def time_Sub_def MinInt64_def MaxInt64_def)
  have st: "map_of (ll_sources busy_limiter) ''10.0.0.1'' = Some \<lparr>lw_StartedAt = 1000, lw_LastSeen = 1010, lw_Attempts = 4\<rparr>"
    by (simp add: busy_limiter_def)
  have room: "int (length (ll_sources busy_limiter)) + int (length source_calls) \<le> ll_maxSources busy_limiter"
    by (simp add: busy_limiter_def source_calls_def)
  have iter: "\<And>xs. set ((\<lambda>xs. xs) xs) = set xs" by simp
  note limit = source_limit_enforced [where iter = "\<lambda>xs. xs", OF iter busy_limiter_inv st calls room, THEN conjunct1, THEN mp, THEN mp]
  have split: "source_calls = [] @ (1020, PendingCall ''10.0.0.1'') # drop 1 source_calls"
    "source_calls = take 3 source_calls @ (1035, PendingCall ''10.0.0.1'') # drop 4 source_calls"
    "source_calls = take 4 source_calls @ (1040, AllowCall ''10.0.0.1'') # drop 5 source_calls"
    by (simp_all add: source_calls_def)
  have log: "snd (serve_all (\<lambda>xs. xs) (take 3 source_calls) busy_limiter) =
      [(PendingCall ''10.0.0.1'', True), (AllowCall ''10.0.0.2'', True), (FailureCall ''10.0.0.1'', False)]"
    "snd (serve_all (\<lambda>xs. xs) (take 4 source_calls) busy_limiter) =
      [(PendingCall ''10.0.0.1'', True), (AllowCall ''10.0.0.2'', True), (FailureCall ''10.0.0.1'', False), (PendingCall ''10.0.0.1'', False)]"
    by code_simp+
  have spent: "spent ''10.0.0.1'' (snd (serve_all (\<lambda>xs. xs) [] busy_limiter)) = 0"
    "spent ''10.0.0.1'' (snd (serve_all (\<lambda>xs. xs) (take 3 source_calls) busy_limiter)) = 1"
    "spent ''10.0.0.1'' (snd (serve_all (\<lambda>xs. xs) (take 4 source_calls) busy_limiter)) = 1"
    unfolding log by (simp_all add: spent_def named_def)
  have "ll_perSourceLimit busy_limiter = 5" "global_room 1020 busy_limiter"
    by (simp_all add: busy_limiter_def global_room_def)
  with limit [OF split(1)] limit [OF split(2)] limit [OF split(3)] spent show ?thesis by (simp add: named_def)
qed

end
