(* ===== verification/Oidc_Transactions.thy ===== *)
theory Oidc_Transactions
  imports Go_Time "HOL-Library.AList"
begin

text \<open>
  The pending OIDC logins: \<open>src/internal/oidc/transactions.go\<close>. The digest \<open>sha256.Sum256\<close> is
  the parameter \<open>sum256\<close>, the random secrets are arguments of \<open>Create\<close> (\<open>None\<close> when reading
  random bytes failed), and so is the value of the clock. The items are an association list
  with distinct keys; the loop of \<open>Create\<close> over them deletes and counts, so the order in
  which Go walks the map does not matter.
\<close>

datatype oidcError = ErrInvalid | ErrExpired | ErrUnavailable | ErrDenied | ErrCanceled | ErrCapacity

record 'h transaction =
  tx_State :: string
  tx_Nonce :: string
  tx_Verifier :: string
  tx_Issuer :: string
  tx_ClientID :: string
  tx_ReturnTo :: string
  tx_SourceKey :: string
  tx_ExpiresAt :: time
  tx_bindingHash :: 'h

record transactionOptions =
  to_TTL :: duration
  to_Capacity :: int
  to_BrowserCapacity :: int

record 'h transactionStore =
  ts_items :: "(string \<times> 'h transaction) list"
  ts_options :: transactionOptions

definition TransactionTTL :: duration where "TransactionTTL = 5 * Minute"
definition MaxTransactions :: int where "MaxTransactions = 1024"
definition MaxBrowserTransactions :: int where "MaxBrowserTransactions = 8"

definition defaulted_options :: "transactionOptions \<Rightarrow> transactionOptions" where
  "defaulted_options opts =
     \<lparr>to_TTL = (if to_TTL opts \<le> 0 then TransactionTTL else to_TTL opts),
      to_Capacity = (if to_Capacity opts \<le> 0 then MaxTransactions else to_Capacity opts),
      to_BrowserCapacity = (if to_BrowserCapacity opts \<le> 0 then MaxBrowserTransactions else to_BrowserCapacity opts)\<rparr>"

definition NewTransactionStore :: "transactionOptions \<Rightarrow> 'h transactionStore" where
  "NewTransactionStore opts = \<lparr>ts_items = [], ts_options = defaulted_options opts\<rparr>"

definition matchesBinding :: "(string \<Rightarrow> 'h) \<Rightarrow> 'h transaction \<Rightarrow> string \<Rightarrow> bool" where
  "matchesBinding sum256 item binding \<longleftrightarrow> binding \<noteq> '''' \<and> sum256 binding = tx_bindingHash item"

text \<open>The four random strings of a login: its state, nonce, verifier and browser binding.\<close>

type_synonym secrets = "string \<times> string \<times> string \<times> string"

record createRequest =
  cr_issuer :: string
  cr_clientID :: string
  cr_returnTo :: string
  cr_sourceKey :: string
  cr_bindings :: "(string \<times> string) list"

definition Create ::
    "(string \<Rightarrow> 'h) \<Rightarrow> time \<Rightarrow> secrets option \<Rightarrow> createRequest \<Rightarrow> 'h transactionStore
      \<Rightarrow> 'h transactionStore \<times> (oidcError + 'h transaction \<times> string)" where
  "Create sum256 now randoms req s =
     (case randoms of
        None \<Rightarrow> (s, Inl ErrUnavailable)
      | Some (state, nonce, verifier, binding) \<Rightarrow>
          let live = filter (\<lambda>(key, item). now < tx_ExpiresAt item) (ts_items s);
              active = length (filter (\<lambda>(key, item).
                case map_of (cr_bindings req) key of
                  Some secret \<Rightarrow> matchesBinding sum256 item secret
                | None \<Rightarrow> False) live);
              s = s\<lparr>ts_items := live\<rparr>
          in if to_Capacity (ts_options s) \<le> int (length live) \<or> to_BrowserCapacity (ts_options s) \<le> int active
             then (s, Inl ErrCapacity)
             else let item = \<lparr>tx_State = state, tx_Nonce = nonce, tx_Verifier = verifier,
                              tx_Issuer = cr_issuer req, tx_ClientID = cr_clientID req,
                              tx_ReturnTo = cr_returnTo req, tx_SourceKey = cr_sourceKey req,
                              tx_ExpiresAt = now + to_TTL (ts_options s), tx_bindingHash = sum256 binding\<rparr>
                  in (s\<lparr>ts_items := AList.update state item live\<rparr>, Inr (item, binding)))"

definition Consume ::
    "(string \<Rightarrow> 'h) \<Rightarrow> time \<Rightarrow> string \<Rightarrow> string \<Rightarrow> 'h transactionStore
      \<Rightarrow> 'h transactionStore \<times> (oidcError + 'h transaction)" where
  "Consume sum256 now state binding s =
     (case map_of (ts_items s) state of
        None \<Rightarrow> (s, Inl ErrExpired)
      | Some item \<Rightarrow>
          if \<not> now < tx_ExpiresAt item then (s\<lparr>ts_items := AList.delete state (ts_items s)\<rparr>, Inl ErrExpired)
          else if \<not> matchesBinding sum256 item binding then (s, Inl ErrInvalid)
          else (s\<lparr>ts_items := AList.delete state (ts_items s)\<rparr>, Inr item))"


section \<open>Runs\<close>

text \<open>A run serves calls one after the other, as the lock of the store makes them, and logs the answers.\<close>

datatype tcall =
    CreateCall time "secrets option" createRequest
  | ConsumeCall time string string

datatype 'h tresult = Created "'h transaction" string | Consumed "'h transaction" | Refused oidcError

fun tserve :: "(string \<Rightarrow> 'h) \<Rightarrow> tcall \<Rightarrow> 'h transactionStore \<Rightarrow> 'h transactionStore \<times> 'h tresult" where
  "tserve sum256 (CreateCall now randoms req) s =
     (case Create sum256 now randoms req s of
        (s', Inl e) \<Rightarrow> (s', Refused e) | (s', Inr (item, binding)) \<Rightarrow> (s', Created item binding))"
| "tserve sum256 (ConsumeCall now state binding) s =
     (case Consume sum256 now state binding s of
        (s', Inl e) \<Rightarrow> (s', Refused e) | (s', Inr item) \<Rightarrow> (s', Consumed item))"

definition tstep ::
    "(string \<Rightarrow> 'h) \<Rightarrow> 'h transactionStore \<times> (tcall \<times> 'h tresult) list \<Rightarrow> tcall
      \<Rightarrow> 'h transactionStore \<times> (tcall \<times> 'h tresult) list" where
  "tstep sum256 w c = (let (s', r) = tserve sum256 c (fst w) in (s', snd w @ [(c, r)]))"

definition trun ::
    "(string \<Rightarrow> 'h) \<Rightarrow> transactionOptions \<Rightarrow> tcall list \<Rightarrow> 'h transactionStore \<times> (tcall \<times> 'h tresult) list" where
  "trun sum256 opts calls = foldl (tstep sum256) (NewTransactionStore opts, []) calls"

fun offered_state :: "tcall \<Rightarrow> string list" where
  "offered_state (CreateCall now (Some (state, _)) req) = [state]"
| "offered_state _ = []"

definition offered_states :: "tcall list \<Rightarrow> string list" where
  "offered_states calls = concat (map offered_state calls)"

fun consumed_state :: "tcall \<times> 'h tresult \<Rightarrow> string list" where
  "consumed_state (_, Consumed item) = [tx_State item]"
| "consumed_state _ = []"

definition consumed_states :: "(tcall \<times> 'h tresult) list \<Rightarrow> string list" where
  "consumed_states log = concat (map consumed_state log)"

text \<open>
  A creation in the log as it ought to be: the browser is handed the fourth secret, and the
  transaction holds the digest of that secret, the other three secrets, the request's fields
  and the lifetime the options give it.
\<close>

definition issue :: "(string \<Rightarrow> 'h) \<Rightarrow> duration \<Rightarrow> tcall \<times> 'h tresult \<Rightarrow> 'h transaction \<Rightarrow> string \<Rightarrow> bool" where
  "issue sum256 ttl entry item b \<longleftrightarrow>
     (\<exists>created state nonce verifier req.
        entry = (CreateCall created (Some (state, nonce, verifier, b)) req, Created item b)
      \<and> item = \<lparr>tx_State = state, tx_Nonce = nonce, tx_Verifier = verifier,
                tx_Issuer = cr_issuer req, tx_ClientID = cr_clientID req,
                tx_ReturnTo = cr_returnTo req, tx_SourceKey = cr_sourceKey req,
                tx_ExpiresAt = created + ttl, tx_bindingHash = sum256 b\<rparr>)"

definition issued :: "(string \<Rightarrow> 'h) \<Rightarrow> duration \<Rightarrow> (tcall \<times> 'h tresult) list \<Rightarrow> 'h transaction \<Rightarrow> bool" where
  "issued sum256 ttl log item \<longleftrightarrow> (\<exists>entry \<in> set log. \<exists>b. issue sum256 ttl entry item b)"

text \<open>
  What holds after every run: the items are within the capacity, each is stored under its
  state, was issued in this run and has not been consumed; nothing is consumed twice.
\<close>

definition item_ok :: "(string \<Rightarrow> 'h) \<Rightarrow> tcall list \<Rightarrow> duration \<Rightarrow> (tcall \<times> 'h tresult) list \<Rightarrow> string \<times> 'h transaction \<Rightarrow> bool" where
  "item_ok sum256 calls ttl log entry \<longleftrightarrow>
     tx_State (snd entry) = fst entry \<and> issued sum256 ttl log (snd entry) \<and> fst entry \<in> set (offered_states calls)
   \<and> fst entry \<notin> set (consumed_states log)"

definition store_inv :: "(string \<Rightarrow> 'h) \<Rightarrow> tcall list \<Rightarrow> 'h transactionStore \<Rightarrow> (tcall \<times> 'h tresult) list \<Rightarrow> bool" where
  "store_inv sum256 calls s log \<longleftrightarrow>
     0 < to_Capacity (ts_options s)
   \<and> int (length (ts_items s)) \<le> to_Capacity (ts_options s)
   \<and> distinct (map fst (ts_items s))
   \<and> (\<forall>entry \<in> set (ts_items s). item_ok sum256 calls (to_TTL (ts_options s)) log entry)
   \<and> distinct (consumed_states log) \<and> set (consumed_states log) \<subseteq> set (offered_states calls)"

lemma consumed_states_snoc: "consumed_states (log @ [e]) = consumed_states log @ consumed_state e"
  by (simp add: consumed_states_def)

lemma offered_states_snoc: "offered_states (calls @ [c]) = offered_states calls @ offered_state c"
  by (simp add: offered_states_def)

lemma issued_snoc: "issued sum256 ttl log item \<Longrightarrow> issued sum256 ttl (log @ [e]) item"
  by (auto simp: issued_def)

lemma trun_snoc: "trun sum256 opts (calls @ [c]) = tstep sum256 (trun sum256 opts calls) c"
  by (simp add: trun_def)

lemma item_ok_snoc:
  "item_ok sum256 calls ttl log entry \<Longrightarrow> fst entry \<notin> set (consumed_state e)
    \<Longrightarrow> item_ok sum256 (calls @ [c]) ttl (log @ [e]) entry"
  by (auto simp: item_ok_def consumed_states_snoc offered_states_snoc intro: issued_snoc)

text \<open>An answer other than a creation keeps the invariant when it only removes items.\<close>

lemma store_inv_shrink:
  assumes inv: "store_inv sum256 calls s log" and "distinct (map fst items)" and "length items \<le> length (ts_items s)"
    and sub: "set items \<subseteq> set (ts_items s)"
    and apart: "set (consumed_state e) \<inter> fst ` set items = {}"
    and once: "distinct (consumed_states log @ consumed_state e)"
    and known: "set (consumed_state e) \<subseteq> set (offered_states calls)"
  shows "store_inv sum256 (calls @ [c]) (s\<lparr>ts_items := items\<rparr>) (log @ [e])"
proof -
  have "item_ok sum256 (calls @ [c]) (to_TTL (ts_options s)) (log @ [e]) entry" if "entry \<in> set items" for entry
  proof (rule item_ok_snoc)
    show "item_ok sum256 calls (to_TTL (ts_options s)) log entry" using inv sub that by (auto simp: store_inv_def)
    show "fst entry \<notin> set (consumed_state e)" using apart that by blast
  qed
  with assms show ?thesis
    by (auto simp: store_inv_def consumed_states_snoc offered_states_snoc)
qed

lemma Create_inv:
  assumes inv: "store_inv sum256 calls s log"
    and c: "c = CreateCall now randoms req"
    and fresh: "distinct (offered_states (calls @ [c]))"
    and served: "tserve sum256 c s = (s', r)"
  shows "store_inv sum256 (calls @ [c]) s' (log @ [(c, r)])"
proof -
  define live where "live = filter (\<lambda>(key, item). now < tx_ExpiresAt item) (ts_items s)"
  have live: "set live \<subseteq> set (ts_items s)" "length live \<le> length (ts_items s)" "distinct (map fst live)"
    using inv by (auto simp: live_def store_inv_def distinct_map_filter)
  consider (unchanged) e where "s' = s" "r = Refused e"
    | (pruned) e where "s' = s\<lparr>ts_items := live\<rparr>" "r = Refused e"
    | (created) item state where "s' = s\<lparr>ts_items := AList.update state item live\<rparr>" "\<exists>b. r = Created item b \<and> issue sum256 (to_TTL (ts_options s)) (c, r) item b"
        "int (length live) < to_Capacity (ts_options s)" "tx_State item = state" "offered_state c = [state]"
    using served unfolding c
    by (auto simp: Create_def Let_def live_def issue_def split: option.splits if_splits)
  then show ?thesis
  proof cases
    case unchanged
    have "s = s\<lparr>ts_items := ts_items s\<rparr>" by simp
    moreover have "distinct (map fst (ts_items s)) \<and> distinct (consumed_states log)"
      using inv by (simp add: store_inv_def)
    ultimately show ?thesis
      using store_inv_shrink [OF inv, of "ts_items s" "(c, r)" c] unchanged by simp
  next
    case pruned
    then show ?thesis
      using store_inv_shrink [OF inv live(3,2,1), of "(c, r)" c] inv by (simp add: store_inv_def)
  next
    case created
    then obtain b where r: "r = Created item b" and b: "issue sum256 (to_TTL (ts_options s)) (c, r) item b" by blast
    from fresh created have new: "state \<notin> set (offered_states calls)" by (simp add: offered_states_snoc)
    have keys: "state \<notin> fst ` set live" using inv live(1) new by (fastforce simp: store_inv_def item_ok_def)
    have upd: "AList.update state item live = live @ [(state, item)]"
      using keys by (induction live) auto
    have "issued sum256 (to_TTL (ts_options s)) (log @ [(c, r)]) item" using b by (auto simp: issued_def)
    moreover have "state \<notin> set (consumed_states log)" using inv new by (auto simp: store_inv_def)
    ultimately have item: "item_ok sum256 (calls @ [c]) (to_TTL (ts_options s)) (log @ [(c, r)]) (state, item)"
      using created(4,5) by (simp add: item_ok_def consumed_states_snoc offered_states_snoc r)
    have "store_inv sum256 (calls @ [c]) (s\<lparr>ts_items := live\<rparr>) (log @ [(c, r)])"
      using store_inv_shrink [OF inv live(3,2,1), of "(c, r)" c] inv r by (simp add: store_inv_def)
    with item keys created(3) show ?thesis unfolding created(1) upd by (simp add: store_inv_def)
  qed
qed

lemma deleted_item:
  assumes "distinct (map fst xs)"
  shows "distinct (map fst (AList.delete k xs))" and "length (AList.delete k xs) \<le> length xs"
    and "set (AList.delete k xs) \<subseteq> set xs" and "k \<notin> fst ` set (AList.delete k xs)"
  using assms by (auto simp: length_delete_le AList.delete_eq distinct_map_filter)

lemma Consume_inv:
  assumes inv: "store_inv sum256 calls s log" and c: "c = ConsumeCall now state binding"
    and served: "tserve sum256 c s = (s', r)"
  shows "store_inv sum256 (calls @ [c]) s' (log @ [(c, r)])"
proof -
  have dist: "distinct (map fst (ts_items s))" and cons: "distinct (consumed_states log)"
    using inv by (simp_all add: store_inv_def)
  note del = deleted_item [OF dist, of state]
  consider (unchanged) e where "s' = s" "r = Refused e"
    | (expired) e where "s' = s\<lparr>ts_items := AList.delete state (ts_items s)\<rparr>" "r = Refused e"
    | (consumed) item where "s' = s\<lparr>ts_items := AList.delete state (ts_items s)\<rparr>" "r = Consumed item"
        "map_of (ts_items s) state = Some item"
    using served unfolding c by (auto simp: Consume_def split: option.splits if_splits)
  then show ?thesis
  proof cases
    case unchanged
    have "s = s\<lparr>ts_items := ts_items s\<rparr>" by simp
    with unchanged dist cons show ?thesis
      using store_inv_shrink [OF inv, of "ts_items s" "(c, r)" c] by simp
  next
    case expired
    with cons show ?thesis using store_inv_shrink [OF inv del(1-3), of "(c, r)" c] by simp
  next
    case consumed
    from consumed(3) have "(state, item) \<in> set (ts_items s)" by (rule map_of_SomeD)
    with inv have "tx_State item = state" "state \<notin> set (consumed_states log)" "state \<in> set (offered_states calls)"
      by (auto simp: store_inv_def item_ok_def)
    with consumed cons del(4) show ?thesis
      using store_inv_shrink [OF inv del(1-3), of "(c, r)" c] by simp
  qed
qed

lemma trun_inv:
  assumes "distinct (offered_states calls)"
  shows "store_inv sum256 calls (fst (trun sum256 opts calls)) (snd (trun sum256 opts calls))"
  using assms
proof (induction calls rule: rev_induct)
  case Nil
  then show ?case
    by (simp add: trun_def store_inv_def NewTransactionStore_def defaulted_options_def MaxTransactions_def consumed_states_def offered_states_def)
next
  case (snoc c calls)
  obtain s log where w: "trun sum256 opts calls = (s, log)" by fastforce
  obtain s' r where r: "tserve sum256 c s = (s', r)" by fastforce
  from snoc w have inv: "store_inv sum256 calls s log" by (simp add: offered_states_snoc)
  have "store_inv sum256 (calls @ [c]) s' (log @ [(c, r)])"
  proof (cases c)
    case (CreateCall now randoms req)
    from Create_inv [OF inv this snoc.prems r] show ?thesis .
  next
    case (ConsumeCall now state binding)
    from Consume_inv [OF inv this r] show ?thesis .
  qed
  then show ?case by (simp add: trun_snoc w tstep_def r)
qed

section \<open>What a login transaction guarantees\<close>

lemma tserve_options: "tserve sum256 c s = (s', r) \<Longrightarrow> ts_options s' = ts_options s"
  by (cases c) (auto simp: Create_def Consume_def Let_def split: option.splits if_splits prod.splits sum.splits)

lemma trun_options: "ts_options (fst (trun sum256 opts calls)) = defaulted_options opts"
proof (induction calls rule: rev_induct)
  case (snoc c calls)
  then show ?case by (auto simp: trun_snoc tstep_def dest: tserve_options split: prod.splits)
qed (simp add: trun_def NewTransactionStore_def)

lemma consumed_authorised:
  assumes "distinct (offered_states calls)"
    and "snd (trun sum256 opts calls) = before @ (ConsumeCall now state binding, Consumed item) # after"
  shows "tx_State item = state \<and> matchesBinding sum256 item binding \<and> now < tx_ExpiresAt item
    \<and> issued sum256 (to_TTL (defaulted_options opts)) before item"
  using assms
proof (induction calls arbitrary: after rule: rev_induct)
  case Nil
  then show ?case by (simp add: trun_def)
next
  case (snoc c calls)
  obtain s log where w: "trun sum256 opts calls = (s, log)" by fastforce
  obtain s' r where r: "tserve sum256 c s = (s', r)" by fastforce
  have fresh: "distinct (offered_states calls)" using snoc.prems(1) by (simp add: offered_states_snoc)
  have log: "log @ [(c, r)] = before @ (ConsumeCall now state binding, Consumed item) # after"
    using snoc.prems(2) by (simp add: trun_snoc w tstep_def r)
  show ?case
  proof (cases after rule: rev_cases)
    case (snoc rest e)
    with log have "log = before @ (ConsumeCall now state binding, Consumed item) # rest" by simp
    then show ?thesis using snoc.IH fresh w by simp
  next
    case Nil
    with log have last: "log = before" "c = ConsumeCall now state binding" "r = Consumed item" by simp_all
    have inv: "store_inv sum256 calls s log" using trun_inv [OF fresh, of sum256 opts] w by simp
    from r last have consumed: "map_of (ts_items s) state = Some item" "now < tx_ExpiresAt item"
        "matchesBinding sum256 item binding"
      by (auto simp: Consume_def split: option.splits if_splits)
    have "item_ok sum256 calls (to_TTL (ts_options s)) log (state, item)"
      using inv map_of_SomeD [OF consumed(1)] by (simp add: store_inv_def)
    moreover have "ts_options s = defaulted_options opts"
      using trun_options [of sum256 opts calls] w by simp
    ultimately show ?thesis using consumed last by (simp add: item_ok_def)
  qed
qed

text \<open>Every creation of a run is one as it ought to be.\<close>

lemma created_issued:
  assumes "(c, Created item b) \<in> set (snd (trun sum256 opts calls))"
  shows "issue sum256 (to_TTL (defaulted_options opts)) (c, Created item b) item b"
  using assms
proof (induction calls rule: rev_induct)
  case Nil
  then show ?case by (simp add: trun_def)
next
  case (snoc d calls)
  obtain s log where w: "trun sum256 opts calls = (s, log)" by fastforce
  obtain s' r where r: "tserve sum256 d s = (s', r)" by fastforce
  have options: "ts_options s = defaulted_options opts" using trun_options [of sum256 opts calls] w by simp
  from snoc.prems have "(c, Created item b) \<in> set log \<or> c = d \<and> r = Created item b"
    by (auto simp: trun_snoc w tstep_def r)
  then show ?case
  proof
    assume "(c, Created item b) \<in> set log"
    with snoc.IH w show ?thesis by simp
  next
    assume last: "c = d \<and> r = Created item b"
    with r obtain now randoms req where "d = CreateCall now randoms req" by (cases d) (auto split: prod.splits sum.splits)
    with r last show ?thesis
      by (auto simp: issue_def Create_def Let_def options split: option.splits if_splits)
  qed
qed

text \<open>
  Claim C25. A login transaction is a single-use, browser-bound ticket with a lifetime. In any
  run of \<open>Create\<close> and \<open>Consume\<close> calls at any times, as long as the random states are distinct:
  the store stays within its capacity; no state is handed out twice; every successful
  \<open>Create\<close> hands its browser the fourth of the random secrets drawn for it, and a transaction
  with the other three, the fields of the request, the configured lifetime and the digest of
  the secret handed out; and whenever \<open>Consume\<close> succeeds for a state, it returns the
  transaction an earlier \<open>Create\<close> of the run issued with that state, before its lifetime has
  passed, to a caller who presents a non-empty binding with the same digest as the secret
  that \<open>Create\<close> handed to its browser.
\<close>

theorem transactions_single_use:
  assumes "distinct (offered_states calls)" and "trun sum256 opts calls = (s, log)"
  shows "int (length (ts_items s)) \<le> to_Capacity (defaulted_options opts)
    \<and> distinct (consumed_states log)
    \<and> (\<forall>(c, r) \<in> set log. case r of
          Created item b \<Rightarrow> issue sum256 (to_TTL (defaulted_options opts)) (c, r) item b
        | _ \<Rightarrow> True)
    \<and> (log = before @ (ConsumeCall now state binding, Consumed item) # after \<longrightarrow>
        tx_State item = state \<and> now < tx_ExpiresAt item \<and> binding \<noteq> ''''
        \<and> (\<exists>entry \<in> set before. \<exists>b. issue sum256 (to_TTL (defaulted_options opts)) entry item b
             \<and> sum256 binding = sum256 b))"
proof (intro conjI impI)
  have inv: "store_inv sum256 calls s log" using trun_inv [OF assms(1), of sum256 opts] assms(2) by simp
  have options: "ts_options s = defaulted_options opts" using trun_options [of sum256 opts calls] assms(2) by simp
  show "int (length (ts_items s)) \<le> to_Capacity (defaulted_options opts)"
    using inv options by (simp add: store_inv_def)
  show "distinct (consumed_states log)" using inv by (simp add: store_inv_def)
  show "\<forall>(c, r) \<in> set log. case r of
      Created item b \<Rightarrow> issue sum256 (to_TTL (defaulted_options opts)) (c, r) item b | _ \<Rightarrow> True"
    using created_issued [of _ _ _ sum256 opts calls] assms(2) by (auto split: tresult.splits)
  assume "log = before @ (ConsumeCall now state binding, Consumed item) # after"
  from consumed_authorised [OF assms(1), of sum256 opts, unfolded assms(2) snd_conv, OF this]
  have item: "tx_State item = state" "now < tx_ExpiresAt item" "binding \<noteq> ''''" "sum256 binding = tx_bindingHash item"
    "issued sum256 (to_TTL (defaulted_options opts)) before item"
    by (simp_all add: matchesBinding_def)
  then show "tx_State item = state" "now < tx_ExpiresAt item" "binding \<noteq> ''''" by simp_all
  from item(4,5) show "\<exists>entry \<in> set before. \<exists>b. issue sum256 (to_TTL (defaulted_options opts)) entry item b
      \<and> sum256 binding = sum256 b"
    unfolding issued_def issue_def by fastforce
qed


section \<open>An example\<close>

definition login_request :: createRequest where
  "login_request = \<lparr>cr_issuer = ''https://idp'', cr_clientID = ''keeper'', cr_returnTo = ''/'', cr_sourceKey = ''10.0.0.1'', cr_bindings = []\<rparr>"

definition login_calls :: "tcall list" where
  "login_calls =
     [CreateCall 100 (Some (''s1'', ''n1'', ''v1'', ''b1'')) login_request,
      ConsumeCall 150 ''s1'' ''other'', ConsumeCall 200 ''s1'' ''b1'', ConsumeCall 201 ''s1'' ''b1'']"

definition login_options :: transactionOptions where
  "login_options = \<lparr>to_TTL = 0, to_Capacity = 0, to_BrowserCapacity = 0\<rparr>"

text \<open>The wrong browser is refused and does not use up the ticket; the right one gets it once.\<close>

definition login_ticket :: "string transaction" where
  "login_ticket = \<lparr>tx_State = ''s1'', tx_Nonce = ''n1'', tx_Verifier = ''v1'', tx_Issuer = ''https://idp'', tx_ClientID = ''keeper'',
     tx_ReturnTo = ''/'', tx_SourceKey = ''10.0.0.1'', tx_ExpiresAt = 100 + TransactionTTL, tx_bindingHash = ''b1''\<rparr>"

lemma login_run:
  "snd (trun (\<lambda>b. b) login_options login_calls) =
     [(hd login_calls, Created login_ticket ''b1''), (ConsumeCall 150 ''s1'' ''other'', Refused ErrInvalid)]
     @ (ConsumeCall 200 ''s1'' ''b1'', Consumed login_ticket) # [(ConsumeCall 201 ''s1'' ''b1'', Refused ErrExpired)]"
  by code_simp

theorem transactions_single_use_witness:
  "snd (trun (\<lambda>b. b) login_options login_calls) ! 1 = (ConsumeCall 150 ''s1'' ''other'', Refused ErrInvalid)
   \<and> snd (trun (\<lambda>b. b) login_options login_calls) ! 2 = (ConsumeCall 200 ''s1'' ''b1'', Consumed login_ticket)
   \<and> (\<exists>b. issue (\<lambda>b. b) TransactionTTL (hd login_calls, Created login_ticket b) login_ticket b \<and> b = ''b1'')
   \<and> distinct (consumed_states (snd (trun (\<lambda>b. b) login_options login_calls)))
   \<and> int (length (ts_items (fst (trun (\<lambda>b. b) login_options login_calls)))) \<le> MaxTransactions"
proof -
  let ?run = "trun (\<lambda>b. b) login_options login_calls"
  have "distinct (offered_states login_calls)" by (simp add: login_calls_def offered_states_def)
  note ticket = transactions_single_use [OF this surjective_pairing [of ?run]]
  have options: "defaulted_options login_options = \<lparr>to_TTL = TransactionTTL, to_Capacity = MaxTransactions, to_BrowserCapacity = MaxBrowserTransactions\<rparr>"
    by (simp add: defaulted_options_def login_options_def)
  from ticket [THEN conjunct2, THEN conjunct2, THEN conjunct2, rule_format, OF login_run]
  obtain entry b where "entry \<in> set [(hd login_calls, Created login_ticket ''b1''), (ConsumeCall 150 ''s1'' ''other'', Refused ErrInvalid)]"
    and i: "issue (\<lambda>b. b) TransactionTTL entry login_ticket b" and b: "''b1'' = b"
    unfolding options by auto
  moreover have "entry \<noteq> (ConsumeCall 150 ''s1'' ''other'', Refused ErrInvalid)" using i by (auto simp: issue_def)
  ultimately have "entry = (hd login_calls, Created login_ticket b)" by simp
  with i b have "\<exists>b. issue (\<lambda>b. b) TransactionTTL (hd login_calls, Created login_ticket b) login_ticket b \<and> b = ''b1''" by blast
  then show ?thesis using ticket unfolding options by (simp add: login_run)
qed

end
