(* ===== verification/Go_Strconv.thy ===== *)
theory Go_Strconv
  imports Keeper_Prelude
begin

text \<open>
  \<open>strconv.Atoi\<close> on a 64-bit platform, and decimal digits as the regular expressions of the
  sources see them.
\<close>

definition is_digit :: "char \<Rightarrow> bool" where
  "is_digit c \<longleftrightarrow> 48 \<le> (of_char c :: nat) \<and> (of_char c :: nat) \<le> 57"

fun digits_value :: "int \<Rightarrow> string \<Rightarrow> int" where
  "digits_value acc [] = acc"
| "digits_value acc (c # cs) = digits_value (10 * acc + (int (of_char c) - 48)) cs"

text \<open>An optional sign, then digits only; a value outside \<open>int64\<close> is an error too.\<close>

definition Atoi :: "string \<Rightarrow> int option" where
  "Atoi s =
     (let (negative, digits) =
        (case s of
           [] \<Rightarrow> (False, [])
         | c # cs \<Rightarrow> if c = CHR ''-'' then (True, cs) else if c = CHR ''+'' then (False, cs) else (False, s))
      in if digits = [] \<or> \<not> list_all is_digit digits then None
         else let v = (if negative then - digits_value 0 digits else digits_value 0 digits)
              in if is_int64 v then Some v else None)"

definition Itoa :: "int \<Rightarrow> string" where
  "Itoa n = (if n < 0 then CHR ''-'' # itoa (nat (- n)) else itoa (nat n))"

lemma digits_value_nonneg: "list_all is_digit s \<Longrightarrow> 0 \<le> acc \<Longrightarrow> 0 \<le> digits_value acc s"
  by (induction s arbitrary: acc) (auto simp: is_digit_def)

lemma digits_value_append: "digits_value acc (xs @ ys) = digits_value (digits_value acc xs) ys"
  by (induction xs arbitrary: acc) simp_all

lemma itoa_digits: "list_all is_digit (itoa n) \<and> itoa n \<noteq> []"
proof (induction n rule: itoa.induct)
  case (1 n)
  have "is_digit (char_of (48 + d))" if "d < 10" for d :: nat using that by (simp add: is_digit_def)
  with 1 show ?case by (subst (1 2) itoa.simps) auto
qed

lemma itoa_value: "digits_value 0 (itoa n) = int n"
proof (induction n rule: itoa.induct)
  case (1 n)
  have split: "10 * int (n div 10) + int (n mod 10) = int n" by presburger
  show ?case
  proof (cases "n < 10")
    case True
    then show ?thesis by (simp add: itoa.simps [of n])
  next
    case False
    with 1 split show ?thesis by (simp add: itoa.simps [of n] digits_value_append)
  qed
qed

lemma is_digit_sign: "is_digit c \<Longrightarrow> c \<noteq> CHR ''-'' \<and> c \<noteq> CHR ''+''"
  by (auto simp: is_digit_def)

lemma Atoi_digits:
  assumes "s \<noteq> []" and "list_all is_digit s"
  shows "Atoi s = (if digits_value 0 s \<le> MaxInt64 then Some (digits_value 0 s) else None)"
proof (cases s)
  case (Cons c cs)
  with assms is_digit_sign [of c] digits_value_nonneg [of s 0] show ?thesis by (simp add: Atoi_def int64_bounds)
qed (use assms in simp)

text \<open>Reading back what \<open>strconv.Itoa\<close> printed gives the number, for every \<open>int64\<close>.\<close>

lemma Atoi_Itoa: "is_int64 n \<Longrightarrow> Atoi (Itoa n) = Some n"
  using itoa_digits [of "nat n"] itoa_digits [of "nat (- n)"]
  by (auto simp: Itoa_def Atoi_digits itoa_value Atoi_def [of "CHR ''-'' # _"] int64_bounds)

end
