(* ===== verification/Update_Check.thy ===== *)
theory Update_Check
  imports Go_Strconv Go_Json "HOL-Library.Product_Lexorder"
begin

text \<open>
  The update check: \<open>src/internal/updatecheck/checker.go\<close>. The HTTP exchange is a parameter:
  \<open>send client url\<close> is the answer of the server, or \<open>NoResponse\<close> when building or sending the
  request fails. The body of an answer is the JSON value that the decoder reads from it, or
  \<open>None\<close> when there is no well-formed one.
\<close>


section \<open>Stable versions\<close>

text \<open>The expression \<open>^v(\d+)\.(\d+)\.(\d+)$\<close>: no part of it can match in two ways.\<close>

definition stableVersionPattern :: "string \<Rightarrow> (string \<times> string \<times> string) option" where
  "stableVersionPattern s =
     (case s of
        [] \<Rightarrow> None
      | v # r \<Rightarrow>
          let a = takeWhile is_digit r; r1 = dropWhile is_digit r;
              b = takeWhile is_digit (tl r1); r2 = dropWhile is_digit (tl r1);
              c = takeWhile is_digit (tl r2); r3 = dropWhile is_digit (tl r2)
          in if v = CHR ''v'' \<and> a \<noteq> [] \<and> r1 \<noteq> [] \<and> hd r1 = CHR ''.'' \<and> b \<noteq> []
                \<and> r2 \<noteq> [] \<and> hd r2 = CHR ''.'' \<and> c \<noteq> [] \<and> r3 = []
             then Some (a, b, c) else None)"

definition IsStableVersion :: "string \<Rightarrow> bool" where
  "IsStableVersion value = (stableVersionPattern (TrimSpace value) \<noteq> None)"

definition parseStableVersion :: "string \<Rightarrow> (int \<times> int \<times> int) option" where
  "parseStableVersion value =
     (case stableVersionPattern (TrimSpace value) of
        None \<Rightarrow> None
      | Some (a, b, c) \<Rightarrow>
          (case Atoi a of None \<Rightarrow> None | Some x \<Rightarrow>
            (case Atoi b of None \<Rightarrow> None | Some y \<Rightarrow>
              (case Atoi c of None \<Rightarrow> None | Some z \<Rightarrow> Some (x, y, z)))))"

fun compare_parts :: "(int \<times> int) list \<Rightarrow> int" where
  "compare_parts [] = 0"
| "compare_parts ((l, r) # rest) = (if l < r then - 1 else if r < l then 1 else compare_parts rest)"

definition CompareStableVersions :: "string \<Rightarrow> string \<Rightarrow> int \<times> bool" where
  "CompareStableVersions left right =
     (case parseStableVersion left of
        None \<Rightarrow> (0, False)
      | Some (l1, l2, l3) \<Rightarrow>
          (case parseStableVersion right of
             None \<Rightarrow> (0, False)
           | Some (r1, r2, r3) \<Rightarrow> (compare_parts [(l1, r1), (l2, r2), (l3, r3)], True)))"


section \<open>The checker\<close>

datatype 'c httpClient = DefaultClient | GivenClient 'c

record 'c checker =
  ck_currentVersion :: string
  ck_baseURL :: string
  ck_owner :: string
  ck_repo :: string
  ck_client :: "'c httpClient option"

definition defaultGitHubAPIBaseURL :: string where "defaultGitHubAPIBaseURL = ''https://api.github.com''"
definition defaultGitHubOwner :: string where "defaultGitHubOwner = ''Willxup''"
definition defaultGitHubRepo :: string where "defaultGitHubRepo = ''cpa-usage-keeper''"

text \<open>An option is a function on the checker under construction; a nil one is skipped.\<close>

definition NewChecker :: "string \<Rightarrow> ('c checker \<Rightarrow> 'c checker) option list \<Rightarrow> 'c checker" where
  "NewChecker currentVersion opts =
     (let c = \<lparr>ck_currentVersion = TrimSpace currentVersion, ck_baseURL = defaultGitHubAPIBaseURL,
               ck_owner = defaultGitHubOwner, ck_repo = defaultGitHubRepo, ck_client = Some DefaultClient\<rparr>;
          c = foldl (\<lambda>c opt. case opt of None \<Rightarrow> c | Some f \<Rightarrow> f c) c opts;
          c = (if ck_client c = None then c\<lparr>ck_client := Some DefaultClient\<rparr> else c);
          c = (if ck_baseURL c = '''' then c\<lparr>ck_baseURL := defaultGitHubAPIBaseURL\<rparr> else c);
          c = (if ck_owner c = '''' then c\<lparr>ck_owner := defaultGitHubOwner\<rparr> else c)
      in if ck_repo c = '''' then c\<lparr>ck_repo := defaultGitHubRepo\<rparr> else c)"

definition WithBaseURL :: "string \<Rightarrow> 'c checker \<Rightarrow> 'c checker" where
  "WithBaseURL baseURL c = c\<lparr>ck_baseURL := rev (dropWhile (\<lambda>x. x = CHR ''/'') (rev (TrimSpace baseURL)))\<rparr>"

definition WithHTTPClient :: "'c httpClient option \<Rightarrow> 'c checker \<Rightarrow> 'c checker" where
  "WithHTTPClient client c = c\<lparr>ck_client := client\<rparr>"

definition WithRepository :: "string \<Rightarrow> string \<Rightarrow> 'c checker \<Rightarrow> 'c checker" where
  "WithRepository owner repo c = c\<lparr>ck_owner := TrimSpace owner, ck_repo := TrimSpace repo\<rparr>"

datatype response = NoResponse | Response int "json option"

type_synonym 'c transport = "'c httpClient option \<Rightarrow> string \<Rightarrow> response"

text \<open>The status and the decoded target; \<open>None\<close> is an error.\<close>

definition getJSON :: "'c transport \<Rightarrow> 'c checker \<Rightarrow> string \<Rightarrow> (json \<Rightarrow> 'a option) \<Rightarrow> int \<times> 'a option" where
  "getJSON send c url decode =
     (case send (ck_client c) url of
        NoResponse \<Rightarrow> (0, None)
      | Response status body \<Rightarrow>
          if status < 200 \<or> 300 \<le> status then (status, None)
          else (status, case body of None \<Rightarrow> None | Some v \<Rightarrow> decode v))"

fun decode_string :: "string \<Rightarrow> json list \<Rightarrow> string option" where
  "decode_string cur [] = Some cur"
| "decode_string cur (JNull # vs) = decode_string cur vs"
| "decode_string cur (JStr s # vs) = decode_string s vs"
| "decode_string cur (_ # vs) = None"

definition decode_named :: "string \<Rightarrow> json \<Rightarrow> string option" where
  "decode_named name v =
     (case object_entries v of None \<Rightarrow> None | Some kvs \<Rightarrow> decode_string '''' (occurrences [name] kvs name))"

fun decode_tags :: "json \<Rightarrow> string list option" where
  "decode_tags JNull = Some []"
| "decode_tags (JArr vs) = those (map (decode_named ''name'') vs)"
| "decode_tags _ = None"

definition repo_url :: "'c checker \<Rightarrow> string" where
  "repo_url c = ck_baseURL c @ ''/repos/'' @ ck_owner c @ ''/'' @ ck_repo c"

definition fetchLatestRelease :: "'c transport \<Rightarrow> 'c checker \<Rightarrow> string option" where
  "fetchLatestRelease send c =
     (case getJSON send c (repo_url c @ ''/releases/latest'') (decode_named ''tag_name'') of
        (status, None) \<Rightarrow> if status = 404 then Some '''' else None
      | (status, Some tag) \<Rightarrow> Some (TrimSpace tag))"

definition fetchTags :: "'c transport \<Rightarrow> 'c checker \<Rightarrow> string list option" where
  "fetchTags send c =
     map_option (\<lambda>payload. filter (\<lambda>name. name \<noteq> '''') (map TrimSpace payload))
       (snd (getJSON send c (repo_url c @ ''/tags?per_page=100'') decode_tags))"

fun newest_tag :: "string \<Rightarrow> string list \<Rightarrow> string" where
  "newest_tag latest [] = latest"
| "newest_tag latest (tag # tags) =
     (if \<not> IsStableVersion tag then newest_tag latest tags
      else if latest = '''' then newest_tag tag tags
      else case CompareStableVersions latest tag of
        (comparison, ok) \<Rightarrow> newest_tag (if ok \<and> comparison < 0 then tag else latest) tags)"

text \<open>\<open>None\<close> is an error, \<open>Some None\<close> that there is no stable version.\<close>

definition latestStableVersion :: "'c transport \<Rightarrow> 'c checker \<Rightarrow> string option option" where
  "latestStableVersion send c =
     (case fetchLatestRelease send c of
        Some latestRelease \<Rightarrow>
          if IsStableVersion latestRelease then Some (Some latestRelease)
          else map_option (\<lambda>tags. let t = newest_tag '''' tags in if t = '''' then None else Some t) (fetchTags send c)
      | None \<Rightarrow> map_option (\<lambda>tags. let t = newest_tag '''' tags in if t = '''' then None else Some t) (fetchTags send c))"

record versionResult =
  vr_CurrentVersion :: string
  vr_LatestVersion :: string
  vr_UpdateAvailable :: bool
  vr_CanCompare :: bool
  vr_Message :: string

definition Check :: "'c transport \<Rightarrow> 'c checker \<Rightarrow> versionResult option" where
  "Check send c =
     (if \<not> IsStableVersion (ck_currentVersion c)
      then Some \<lparr>vr_CurrentVersion = ck_currentVersion c, vr_LatestVersion = '''', vr_UpdateAvailable = False,
                 vr_CanCompare = False, vr_Message = ''current build is not comparable''\<rparr>
      else case latestStableVersion send c of
        None \<Rightarrow> None
      | Some None \<Rightarrow>
          Some \<lparr>vr_CurrentVersion = ck_currentVersion c, vr_LatestVersion = '''', vr_UpdateAvailable = False,
                vr_CanCompare = False, vr_Message = ''no comparable release found''\<rparr>
      | Some (Some latestVersion) \<Rightarrow>
          (case CompareStableVersions (ck_currentVersion c) latestVersion of
             (comparison, ok) \<Rightarrow>
               if \<not> ok
               then Some \<lparr>vr_CurrentVersion = ck_currentVersion c, vr_LatestVersion = latestVersion,
                          vr_UpdateAvailable = False, vr_CanCompare = False,
                          vr_Message = ''current build is not comparable''\<rparr>
               else Some \<lparr>vr_CurrentVersion = ck_currentVersion c, vr_LatestVersion = latestVersion,
                          vr_UpdateAvailable = comparison < 0, vr_CanCompare = True,
                          vr_Message = (if comparison < 0 then ''new version available: '' @ latestVersion
                                        else ''already on the latest version'')\<rparr>))"


section \<open>The order of versions\<close>

lemma compare_parts_order:
  "compare_parts [(a, x), (b, y), (c, z)] < 0 \<longleftrightarrow> (a, b, c) < (x, y, z)"
  by (auto simp: less_prod_def)

lemma CompareStableVersions_less:
  assumes "parseStableVersion l = Some v" and "parseStableVersion r = Some w"
  shows "\<exists>k. CompareStableVersions l r = (k, True) \<and> (k < 0 \<longleftrightarrow> v < w)"
proof -
  obtain a b c x y z where "v = (a, b, c)" "w = (x, y, z)" by (metis prod_cases3)
  with assms compare_parts_order [of a x b y c z] show ?thesis
    by (simp add: CompareStableVersions_def del: compare_parts.simps)
qed

lemma CompareStableVersions_ok:
  "snd (CompareStableVersions l r) \<longleftrightarrow> parseStableVersion l \<noteq> None \<and> parseStableVersion r \<noteq> None"
  by (auto simp: CompareStableVersions_def split: option.splits)

lemma parse_stable: "parseStableVersion s \<noteq> None \<Longrightarrow> IsStableVersion s"
  by (auto simp: parseStableVersion_def IsStableVersion_def split: option.splits)

lemma stable_nonempty: "IsStableVersion s \<Longrightarrow> s \<noteq> ''''"
  by (auto simp: IsStableVersion_def stableVersionPattern_def TrimSpace_def trim_left_def trim_right_def)

text \<open>The versions among the tags that can be compared.\<close>

definition tag_versions :: "string list \<Rightarrow> (int \<times> int \<times> int) set" where
  "tag_versions tags = {v. \<exists>t \<in> set tags. parseStableVersion t = Some v}"

lemma tag_versions_Cons:
  "tag_versions (t # ts) = set_option (parseStableVersion t) \<union> tag_versions ts"
  by (auto simp: tag_versions_def)

lemma tag_versions_finite [simp]: "finite (tag_versions tags)"
  by (induction tags) (simp_all add: tag_versions_Cons, simp add: tag_versions_def)

lemma newest_tag_max:
  assumes "\<forall>t \<in> set tags. IsStableVersion t \<longrightarrow> parseStableVersion t \<noteq> None"
    and "parseStableVersion latest = Some v"
  shows "parseStableVersion (newest_tag latest tags) = Some (Max (insert v (tag_versions tags)))"
  using assms
proof (induction tags arbitrary: latest v)
  case Nil
  then show ?case by (simp add: tag_versions_def)
next
  case (Cons t ts)
  show ?case
  proof (cases "parseStableVersion t")
    case None
    with Cons show ?thesis by (auto simp: tag_versions_Cons)
  next
    case (Some w)
    have latest: "latest \<noteq> ''''" using Cons.prems(2) parse_stable stable_nonempty by blast
    obtain k where k: "CompareStableVersions latest t = (k, True)" "k < 0 \<longleftrightarrow> v < w"
      using CompareStableVersions_less [OF Cons.prems(2) Some] by blast
    let ?l = "if k < 0 then t else latest"
    have "parseStableVersion ?l = Some (max v w)" using Cons.prems(2) Some k(2) by auto
    then have "parseStableVersion (newest_tag ?l ts) = Some (Max (insert (max v w) (tag_versions ts)))"
      using Cons by simp
    moreover have "newest_tag latest (t # ts) = newest_tag ?l ts"
      using Some k latest parse_stable [of t] by simp
    moreover have "Max (insert (max v w) (tag_versions ts)) = Max (insert v (tag_versions (t # ts)))"
    proof (cases "tag_versions ts = {}")
      case False
      then show ?thesis using Some by (simp add: tag_versions_Cons insert_commute max.assoc)
    qed (use Some in \<open>simp add: tag_versions_Cons max.commute\<close>)
    ultimately show ?thesis by simp
  qed
qed

lemma newest_tag_first:
  assumes "\<forall>t \<in> set tags. IsStableVersion t \<longrightarrow> parseStableVersion t \<noteq> None"
  shows "if tag_versions tags = {} then newest_tag '''' tags = ''''
         else parseStableVersion (newest_tag '''' tags) = Some (Max (tag_versions tags))"
  using assms
proof (induction tags)
  case (Cons t ts)
  show ?case
  proof (cases "parseStableVersion t")
    case (Some v)
    then show ?thesis
      using newest_tag_max [of ts t v] Cons.prems parse_stable [of t] by (auto simp: tag_versions_Cons)
  next
    case None
    with Cons show ?thesis by (auto simp: tag_versions_Cons)
  qed
qed (simp add: tag_versions_def)

text \<open>
  Claim C26. The update check offers the newest release, and only a newer one. Whatever the
  server answers, an update is offered only when the current and the offered version can be
  compared and the offered one is later in the order of their three numbers. And when the
  latest release is missing or has no stable tag, the tags could be read and every stable one
  among them has numbers that fit an \<open>int\<close>, then an update is offered exactly if some tag is
  later than the current version, and the version offered is the maximum of all tags.
\<close>

theorem update_check_newest:
  assumes "parseStableVersion (ck_currentVersion c) = Some v"
    and "\<forall>r. fetchLatestRelease send c = Some r \<longrightarrow> \<not> IsStableVersion r"
    and "fetchTags send c = Some tags"
    and "\<forall>t \<in> set tags. IsStableVersion t \<longrightarrow> parseStableVersion t \<noteq> None"
  shows "(Check send' c' = Some r' \<and> vr_UpdateAvailable r' \<longrightarrow>
      (\<exists>v w. parseStableVersion (ck_currentVersion c') = Some v
        \<and> parseStableVersion (vr_LatestVersion r') = Some w \<and> v < w))
    \<and> (\<exists>r. Check send c = Some r
      \<and> (vr_UpdateAvailable r \<longleftrightarrow> (\<exists>w \<in> tag_versions tags. v < w))
      \<and> (tag_versions tags \<noteq> {} \<longrightarrow> parseStableVersion (vr_LatestVersion r) = Some (Max (tag_versions tags))))"
proof (intro conjI impI)
  assume offered: "Check send' c' = Some r' \<and> vr_UpdateAvailable r'"
  then obtain k l where l: "CompareStableVersions (ck_currentVersion c') l = (k, True)" "k < 0" "vr_LatestVersion r' = l"
    by (auto simp: Check_def split: if_splits option.splits prod.splits)
  then obtain v w where p: "parseStableVersion (ck_currentVersion c') = Some v" "parseStableVersion l = Some w"
    using CompareStableVersions_ok [of "ck_currentVersion c'" l] by auto
  with CompareStableVersions_less [OF p] l show "\<exists>v w. parseStableVersion (ck_currentVersion c') = Some v
      \<and> parseStableVersion (vr_LatestVersion r') = Some w \<and> v < w" by auto
next
  let ?t = "newest_tag '''' tags"
  have stable: "IsStableVersion (ck_currentVersion c)" using assms(1) parse_stable [of "ck_currentVersion c"] by simp
  have latest: "latestStableVersion send c = Some (if ?t = '''' then None else Some ?t)"
    using assms(2,3) by (auto simp: latestStableVersion_def Let_def split: option.splits)
  note newest = newest_tag_first [OF assms(4)]
  show "\<exists>r. Check send c = Some r
      \<and> (vr_UpdateAvailable r \<longleftrightarrow> (\<exists>w \<in> tag_versions tags. v < w))
      \<and> (tag_versions tags \<noteq> {} \<longrightarrow> parseStableVersion (vr_LatestVersion r) = Some (Max (tag_versions tags)))"
  proof (cases "tag_versions tags = {}")
    case True
    with newest latest stable show ?thesis by (simp add: Check_def)
  next
    case False
    with newest have p: "parseStableVersion ?t = Some (Max (tag_versions tags))" by simp
    then have "?t \<noteq> ''''" using parse_stable stable_nonempty by blast
    moreover obtain k where "CompareStableVersions (ck_currentVersion c) ?t = (k, True)"
        "k < 0 \<longleftrightarrow> v < Max (tag_versions tags)"
      using CompareStableVersions_less [OF assms(1) p] by blast
    moreover have "v < Max (tag_versions tags) \<longleftrightarrow> (\<exists>w \<in> tag_versions tags. v < w)"
      using False by (simp add: Max_gr_iff)
    ultimately show ?thesis using latest stable p by (simp add: Check_def)
  qed
qed

section \<open>An example\<close>

definition tag_server :: "string list \<Rightarrow> unit transport" where
  "tag_server tags client url =
     (if suffix ''/releases/latest'' url then Response 404 None
      else Response 200 (Some (JArr (map (\<lambda>t. JObj [(''name'', JStr t)]) tags))))"

definition demo_tags :: "string list" where
  "demo_tags = [''v1.9.0'', ''nightly'', ''v1.10.2'', ''v1.10.1'']"

definition demo_checker :: "unit checker" where
  "demo_checker = NewChecker '' v1.9.3 '' []"

lemma demo_facts:
  "parseStableVersion (ck_currentVersion demo_checker) = Some (1, 9, 3)"
  "fetchLatestRelease (tag_server demo_tags) demo_checker = Some ''''"
  "fetchTags (tag_server demo_tags) demo_checker = Some demo_tags"
  "list_all (\<lambda>t. IsStableVersion t \<longrightarrow> parseStableVersion t \<noteq> None) demo_tags"
  "\<not> IsStableVersion ''''"
  by code_simp+

theorem update_check_newest_witness:
  "\<exists>r. Check (tag_server demo_tags) demo_checker = Some r
     \<and> (vr_UpdateAvailable r \<longleftrightarrow> (\<exists>w. w \<in> tag_versions demo_tags \<and> (1, 9, 3) < w))"
proof -
  have "\<forall>r. fetchLatestRelease (tag_server demo_tags) demo_checker = Some r \<longrightarrow> \<not> IsStableVersion r"
    by (simp add: demo_facts(2,5))
  from update_check_newest [OF demo_facts(1) this demo_facts(3) demo_facts(4) [unfolded list_all_iff], THEN conjunct2]
  obtain r where "Check (tag_server demo_tags) demo_checker = Some r"
      and "vr_UpdateAvailable r \<longleftrightarrow> (\<exists>w \<in> tag_versions demo_tags. (1, 9, 3) < w)" by (elim exE conjE)
  then show ?thesis unfolding Bex_def by (rule_tac x = r in exI) (rule conjI)
qed

text \<open>
  A stable tag whose number does not fit an \<open>int\<close> passes the expression but cannot be
  compared. When it comes first it stays the candidate, and hides every later tag.
\<close>

definition overlong_tag :: string where
  "overlong_tag = ''v99999999999999999999.0.0''"

lemma overlong_facts:
  "fetchLatestRelease (tag_server [overlong_tag, ''v2.0.0'']) demo_checker = Some ''''"
  "fetchTags (tag_server [overlong_tag, ''v2.0.0'']) demo_checker = Some [overlong_tag, ''v2.0.0'']"
  "newest_tag '''' [overlong_tag, ''v2.0.0''] = overlong_tag" "overlong_tag \<noteq> ''''"
  "CompareStableVersions (ck_currentVersion demo_checker) overlong_tag = (0, False)"
  "CompareStableVersions (ck_currentVersion demo_checker) ''v2.0.0'' = (- 1, True)"
  by code_simp+

lemma overlong_tag_hides_update:
  "map_option vr_UpdateAvailable (Check (tag_server [overlong_tag, ''v2.0.0'']) demo_checker) = Some False"
  by (simp add: Check_def latestStableVersion_def overlong_facts demo_facts(5) del: newest_tag.simps)

end
