(* ===== verification/Ingest_Backoff.thy ===== *)
theory Ingest_Backoff
  imports Go_Time
begin

text \<open>
  The back-off of the ingest state machine: \<open>src/internal/poller/redis_ingest_backoff.go\<close>.
  A nil receiver is \<open>None\<close>; doubling wraps around in 64 bits.
\<close>

record redisIngestBackoff =
  bo_initial :: duration
  bo_max :: duration
  bo_next :: duration

definition NewRedisIngestBackoff :: "duration \<Rightarrow> duration \<Rightarrow> redisIngestBackoff" where
  "NewRedisIngestBackoff ini limit = \<lparr>bo_initial = ini, bo_max = limit, bo_next = ini\<rparr>"

definition next_delay :: "redisIngestBackoff \<Rightarrow> redisIngestBackoff \<times> duration" where
  "next_delay b =
     (let delay = bo_next b;
          delay = (if delay \<le> 0 then bo_initial b else delay);
          delay = (if delay \<le> 0 then Second else delay);
          nxt = wrap64 (delay * 2);
          nxt = (if 0 < bo_max b \<and> bo_max b < nxt then bo_max b else nxt)
      in (b\<lparr>bo_next := nxt\<rparr>, delay))"

definition NextDelay :: "redisIngestBackoff option \<Rightarrow> redisIngestBackoff option \<times> duration" where
  "NextDelay b = (case b of None \<Rightarrow> (None, Second) | Some b \<Rightarrow> (let (b', d) = next_delay b in (Some b', d)))"

definition backoff_Reset :: "redisIngestBackoff option \<Rightarrow> redisIngestBackoff option" where
  "backoff_Reset b = (case b of None \<Rightarrow> None | Some b \<Rightarrow> Some (b\<lparr>bo_next := bo_initial b\<rparr>))"

text \<open>The delays of \<open>n\<close> failures in a row.\<close>

fun delays :: "nat \<Rightarrow> redisIngestBackoff \<Rightarrow> duration list" where
  "delays 0 b = []"
| "delays (Suc n) b = (let (b', d) = next_delay b in d # delays n b')"

lemma delay_positive: "0 < snd (next_delay b)"
  by (simp add: next_delay_def Let_def Second_def)

lemma delays_geometric:
  assumes "0 < bo_next b" and "bo_next b \<le> bo_max b" and "bo_max b \<le> MaxInt64 div 2"
  shows "delays n b = map (\<lambda>k. min (bo_next b * 2 ^ k) (bo_max b)) [0..<n]"
  using assms
proof (induction n arbitrary: b)
  case (Suc n)
  let ?b = "b\<lparr>bo_next := min (bo_next b * 2) (bo_max b)\<rparr>"
  have step: "next_delay b = (?b, bo_next b)"
    using Suc.prems by (auto simp: next_delay_def Let_def wrap64_id int64_bounds min_def)
  have tail: "delays n ?b = map (\<lambda>k. min (bo_next ?b * 2 ^ k) (bo_max b)) [0..<n]"
    using Suc.IH [of ?b] Suc.prems by simp
  have shift: "min (min (x * 2) m * 2 ^ k) m = min (x * 2 ^ Suc k) m" if "0 < x" "x \<le> m" for x m :: int and k
  proof (cases "x * 2 \<le> m")
    case False
    have "m * 1 \<le> m * 2 ^ k" by (rule mult_left_mono) (use that in auto)
    then have left: "m \<le> m * 2 ^ k" by simp
    have "m * 2 ^ k \<le> (x * 2) * 2 ^ k" by (rule mult_right_mono) (use False in auto)
    also have "\<dots> = x * 2 ^ Suc k" by simp
    finally have "m \<le> x * 2 ^ Suc k" using left by linarith
    moreover have "min (x * 2) m = m" using False by simp
    ultimately show ?thesis using left by (simp only: min_absorb2)
  qed (simp add: mult.assoc)
  have "delays (Suc n) b = bo_next b # map (\<lambda>k. min (bo_next b * 2 ^ Suc k) (bo_max b)) [0..<n]"
    using Suc.prems by (simp add: step tail shift del: power_Suc)
  also have "\<dots> = map (\<lambda>k. min (bo_next b * 2 ^ k) (bo_max b)) [0..<Suc n]"
    using Suc.prems by (simp add: map_upt_Suc min_def del: upt_Suc power_Suc)
  finally show ?case .
qed simp

text \<open>
  The waiting times between failed pulls. With an initial delay up to the maximum,
  and a maximum that can be doubled in 64 bits, \<open>n\<close> failures in a row wait \<open>initial * 2^k\<close>
  each, cut off at the maximum, and a success in between starts over; and whatever the
  fields hold, also after an overflow, no wait is zero or negative, so the loop never spins.
\<close>

theorem backoff_schedule:
  assumes "0 < ini" and "ini \<le> limit" and "limit \<le> MaxInt64 div 2"
  shows "delays n (NewRedisIngestBackoff ini limit) = map (\<lambda>k. min (ini * 2 ^ k) limit) [0..<n]
    \<and> (bo_initial b = ini \<and> bo_max b = limit \<longrightarrow>
         map_option (delays n) (backoff_Reset (Some b)) = Some (map (\<lambda>k. min (ini * 2 ^ k) limit) [0..<n]))
    \<and> 0 < snd (NextDelay c)"
  using assms delays_geometric [of "NewRedisIngestBackoff ini limit" n] delays_geometric [of "b\<lparr>bo_next := bo_initial b\<rparr>" n]
    delay_positive
  by (auto simp: NewRedisIngestBackoff_def backoff_Reset_def NextDelay_def Second_def
      split: option.splits prod.splits) (metis snd_conv)

theorem backoff_schedule_witness:
  "delays 7 (NewRedisIngestBackoff Second (30 * Second))
     = map (\<lambda>k. min (Second * 2 ^ k) (30 * Second)) [0..<7]
   \<and> 0 < snd (NextDelay None)"
  using backoff_schedule [of Second "30 * Second" 7] by (simp add: Second_def MaxInt64_def)

end
