(* ===== verification/Latency_Codec.thy ===== *)
theory Latency_Codec
  imports Keeper_Prelude "HOL-Library.Word"
begin

text \<open>
  The binary encoding of the latency statistics: unsigned varints as \<open>encoding/binary\<close> writes
  and reads them, the zigzag mapping of \<open>src/internal/latency/sketch.go\<close> and the hash of
  \<open>src/internal/latency/sample.go\<close>. A byte is an \<open>8 word\<close>, a \<open>uint64\<close> a \<open>64 word\<close>, an \<open>int64\<close> an
  \<open>int\<close>. The readers of the sources keep an offset into the input; here they return the bytes
  that are left.
\<close>

unbundle bit_operations_syntax

type_synonym byte = "8 word"
type_synonym u64 = "64 word"

datatype codecError =
    Truncated | VarintOverflow | EmptyData | BadVersion | KeysNotIncreasing | BadCount
  | TrailingBytes | CountOverflow | BinOverflow int | NilReceiver | NotPositive | ZeroBin
  | TooManyPoints | PriorityMismatch | PointsNotOrdered | ConflictingSample int | MergerClosed

definition MaxUint64 :: nat where
  "MaxUint64 = 18446744073709551615"


section \<open>Unsigned varints\<close>

text \<open>\<open>binary.AppendUvarint\<close>.\<close>

function uvarint :: "u64 \<Rightarrow> byte list" where
  "uvarint x = (if x < 128 then [ucast x] else (ucast x OR 128) # uvarint (drop_bit 7 x))"
  by auto
termination
proof (relation "measure unat")
  fix x :: u64
  assume "\<not> x < 128"
  then have "128 \<le> unat x" by (simp add: word_less_nat_alt)
  then show "(drop_bit 7 x, x) \<in> measure unat" by (simp add: drop_bit_eq_div unat_div)
qed simp

declare uvarint.simps [simp del]

text \<open>
  \<open>binary.Uvarint\<close>: \<open>i\<close> bytes have been read into \<open>x\<close>. At most ten bytes are read, and the
  tenth must be 0 or 1.
\<close>

fun uvarint_from :: "nat \<Rightarrow> u64 \<Rightarrow> byte list \<Rightarrow> codecError + u64 \<times> byte list" where
  "uvarint_from i x [] = Inl Truncated"
| "uvarint_from i x (b # bs) =
     (if i = 10 then Inl VarintOverflow
      else if b < 128 then
        (if i = 9 \<and> 1 < b then Inl VarintOverflow else Inr (x OR push_bit (7 * i) (ucast b), bs))
      else uvarint_from (Suc i) (x OR push_bit (7 * i) (ucast (b AND 127))) bs)"

definition readUvarint :: "byte list \<Rightarrow> codecError + u64 \<times> byte list" where
  "readUvarint encoded = uvarint_from 0 0 encoded"

definition readPositiveInt64 :: "byte list \<Rightarrow> codecError + int \<times> byte list" where
  "readPositiveInt64 encoded =
     andThen (readUvarint encoded) (\<lambda>(value, rest).
       if value = 0 \<or> MaxInt64 < uint value then Inl NotPositive else Inr (uint value, rest))"

lemma byte_bit_cases: "n < 8 \<Longrightarrow> n = 0 \<or> n = 1 \<or> n = 2 \<or> n = 3 \<or> n = 4 \<or> n = 5 \<or> n = 6 \<or> n = (7 :: nat)"
  by arith

lemma bit_127: "bit (127 :: byte) n \<longleftrightarrow> n < 7"
  using byte_bit_cases [of n] bit_imp_le_length [of "127 :: byte" n] by auto

lemma bit_128: "bit (128 :: byte) n \<longleftrightarrow> n = 7"
  using byte_bit_cases [of n] bit_imp_le_length [of "128 :: byte" n] by auto

lemma bit_low_byte: "bit ((ucast y OR 128 :: byte) AND 127) k \<longleftrightarrow> k < 7 \<and> bit (y :: u64) k"
  by (simp only: bit_and_iff bit_or_iff bit_ucast_iff bit_127 bit_128) auto

lemma low_bits_split:
  fixes y :: u64
  shows "push_bit (7 * i) (ucast ((ucast y OR 128 :: byte) AND 127)) OR push_bit (7 + 7 * i) (drop_bit 7 y)
    = push_bit (7 * i) y"
proof (rule bit_word_eqI)
  fix n assume "n < LENGTH(64)"
  define m :: byte where "m = (ucast y OR 128) AND 127"
  have m: "bit m k \<longleftrightarrow> k < 7 \<and> bit y k" for k unfolding m_def by (rule bit_low_byte)
  consider "n < 7 * i + 7" | "7 * i + 7 \<le> n" by linarith
  then show "bit (push_bit (7 * i) (ucast ((ucast y OR 128 :: byte) AND 127)) OR push_bit (7 + 7 * i) (drop_bit 7 y)) n
    \<longleftrightarrow> bit (push_bit (7 * i) y) n"
    unfolding m_def [symmetric]
  proof cases
    case 2
    then have "7 + (n - (7 + 7 * i)) = n - 7 * i" by simp
    with 2 show "bit (push_bit (7 * i) (ucast m) OR push_bit (7 + 7 * i) (drop_bit 7 y)) n \<longleftrightarrow> bit (push_bit (7 * i) y) n"
      by (auto simp: bit_simps m)
  qed (auto simp: bit_simps m)
qed

lemma ucast_low_byte: "(y :: u64) < 128 \<Longrightarrow> unat (ucast y :: byte) = unat y"
  by (simp add: unsigned_ucast_eq word_less_nat_alt take_bit_nat_eq_self_iff)

lemma ucast_low_byte_back: "(y :: u64) < 128 \<Longrightarrow> ucast (ucast y :: byte) = y"
  by (rule unsigned_word_eqI [where 'a = nat])
    (simp add: unsigned_ucast_eq unsigned_take_bit_eq word_less_nat_alt take_bit_nat_eq_self_iff)

lemma high_byte: "\<not> (x OR 128 :: byte) < 128"
  using le_word_or2 [of "128 :: byte" x] by (simp add: or.commute not_less)

lemma uvarint_from_encoded:
  assumes "unat y < 2 ^ (64 - 7 * i)" and "i \<le> 9"
  shows "uvarint_from i x (uvarint y @ rest) = Inr (x OR push_bit (7 * i) y, rest)"
  using assms
proof (induction y arbitrary: i x rule: uvarint.induct)
  case (1 y)
  show ?case
  proof (cases "y < 128")
    case True
    then have "ucast y < (128 :: byte)" by (simp add: word_less_nat_alt ucast_low_byte)
    moreover have "\<not> 1 < (ucast y :: byte)" if "i = 9"
      using 1(2) that True by (simp add: word_less_nat_alt ucast_low_byte)
    ultimately show ?thesis using True 1(3) by (simp add: uvarint.simps [of y] ucast_low_byte_back)
  next
    case False
    then have big: "128 \<le> unat y" by (simp add: word_less_nat_alt)
    have i: "i \<le> 8"
    proof (rule ccontr)
      assume "\<not> i \<le> 8"
      with 1(3) have "i = 9" by simp
      with 1(2) big show False by simp
    qed
    have "unat (drop_bit 7 y) < 2 ^ (64 - 7 * Suc i)"
    proof -
      have "(2 :: nat) ^ (64 - 7 * i) = 2 ^ (64 - 7 * Suc i) * 128"
      proof -
        have "64 - 7 * i = (64 - 7 * Suc i) + 7" using i by simp
        then have "(2 :: nat) ^ (64 - 7 * i) = 2 ^ (64 - 7 * Suc i) * 2 ^ 7" by (simp only: power_add)
        then show ?thesis by simp
      qed
      with 1(2) show ?thesis by (simp add: drop_bit_eq_div unat_div less_mult_imp_div_less)
    qed
    with 1(1) [OF False, of "Suc i" "x OR push_bit (7 * i) (ucast ((ucast y OR 128 :: byte) AND 127))"] i
    have "uvarint_from (Suc i) (x OR push_bit (7 * i) (ucast ((ucast y OR 128 :: byte) AND 127))) (uvarint (drop_bit 7 y) @ rest)
      = Inr (x OR push_bit (7 * i) y, rest)"
      by (simp add: or.assoc low_bits_split)
    with False i high_byte [of "ucast y"] show ?thesis
      by (simp add: uvarint.simps [of y])
  qed
qed

lemma readUvarint_uvarint [simp]: "readUvarint (uvarint y @ rest) = Inr (y, rest)"
  using uvarint_from_encoded [of y 0 0 rest] unsigned_less [of y] by (simp add: readUvarint_def)

section \<open>Signed keys and sampling priorities\<close>

definition zigzagEncode :: "int \<Rightarrow> u64" where
  "zigzagEncode value = push_bit 1 (word_of_int value) XOR signed_drop_bit 63 (word_of_int value)"

definition zigzagDecode :: "u64 \<Rightarrow> int" where
  "zigzagDecode value = sint (drop_bit 1 value XOR - (value AND 1))"

definition splitMix64 :: "u64 \<Rightarrow> u64" where
  "splitMix64 value =
     (let value = value + 0x9e3779b97f4a7c15;
          value = (value XOR drop_bit 30 value) * 0xbf58476d1ce4e5b9;
          value = (value XOR drop_bit 27 value) * 0x94d049bb133111eb
      in value XOR drop_bit 31 value)"

lemma zigzag_word:
  fixes w :: u64
  shows "drop_bit 1 (push_bit 1 w XOR signed_drop_bit 63 w) XOR - ((push_bit 1 w XOR signed_drop_bit 63 w) AND 1) = w"
proof -
  let ?e = "push_bit 1 w XOR signed_drop_bit 63 w"
  have low: "?e AND 1 = of_bool (bit w 63)"
  proof (rule bit_word_eqI)
    fix n
    show "bit (?e AND 1) n \<longleftrightarrow> bit (of_bool (bit w 63) :: u64) n"
      by (cases n) (simp_all add: bit_and_iff bit_xor_iff bit_push_bit_iff bit_signed_drop_bit_iff bit_1_iff bit_of_bool_iff
          del: push_bit_of_1 push_bit_Suc)
  qed
  have minus: "bit (- of_bool (bit w 63) :: u64) n \<longleftrightarrow> bit w 63" if "n < 64" for n
    using that by (cases "bit w 63") simp_all
  show ?thesis unfolding low
  proof (rule bit_word_eqI)
    fix n assume n: "n < LENGTH(64)"
    have e: "bit ?e k \<longleftrightarrow> (1 \<le> k \<and> bit w (k - 1)) \<noteq> bit w 63" if "k < 64" for k
      using that by (simp only: bit_xor_iff bit_push_bit_iff bit_signed_drop_bit_iff) (cases k; auto)
    have "\<not> bit ?e 64" using bit_imp_le_length [of ?e 64] by auto
    with n minus [of n] e [of "Suc n"] show "bit (drop_bit 1 ?e XOR - of_bool (bit w 63)) n \<longleftrightarrow> bit w n"
      unfolding bit_xor_iff [of "drop_bit 1 ?e"] bit_drop_bit_eq by (cases "n = 63") auto
  qed
qed

lemma zigzag_roundtrip [simp]: "is_int64 k \<Longrightarrow> zigzagDecode (zigzagEncode k) = k"
  unfolding zigzagDecode_def zigzagEncode_def zigzag_word
  by (simp add: sint_sbintrunc' signed_take_bit_int_eq_self int64_bounds)

lemma zigzagDecode_int64 [simp]: "is_int64 (zigzagDecode w)"
  using sint_greater_eq [of "drop_bit 1 w XOR - (w AND 1)"] sint_less [of "drop_bit 1 w XOR - (w AND 1)"]
  by (simp add: zigzagDecode_def int64_bounds)

end
