(* ===== verification/Latency_Sketch.thy ===== *)
theory Latency_Sketch
  imports Latency_Codec Go_Float "HOL-Library.AList" "HOL-Library.Multiset"
begin

text \<open>
  The latency distribution sketch: \<open>src/internal/latency/sketch.go\<close> and \<open>query_sketch.go\<close>. The
  bins are an association list with distinct keys, in the order in which Go walks the map.
  Counts are \<open>nat\<close>; where the code does not guard an addition the wrap-around is written out.
  \<open>math.Log\<close> and \<open>math.Pow\<close> are the parameters \<open>math_log\<close> and \<open>math_pow\<close>: the library does not fix
  their rounding. A nil receiver is \<open>None\<close>.
\<close>

definition u64_wrap :: "nat \<Rightarrow> nat" where
  "u64_wrap n = n mod 18446744073709551616"

definition FormatVersion :: byte where "FormatVersion = 1"

record sketch =
  sk_bins :: "(int \<times> nat) list"
  sk_count :: nat

definition NewSketch :: sketch where
  "NewSketch = \<lparr>sk_bins = [], sk_count = 0\<rparr>"

definition bin :: "(int \<times> nat) list \<Rightarrow> int \<Rightarrow> nat" where
  "bin bins key = (case map_of bins key of None \<Rightarrow> 0 | Some n \<Rightarrow> n)"


section \<open>Buckets\<close>

text \<open>\<open>(1 + 0.01) / (1 - 0.01)\<close> is a constant expression, computed exactly and then rounded.\<close>

definition sketchGamma :: float64 where
  "sketchGamma = to_float (101 / 99)"

fun fceil :: "float64 \<Rightarrow> float64" where
  "fceil (Fin x) = Fin (of_int \<lceil>x\<rceil>)"
| "fceil x = x"

text \<open>\<open>math.Round\<close>: halves go away from zero.\<close>

fun fround :: "float64 \<Rightarrow> float64" where
  "fround (Fin x) = Fin (if 0 \<le> x then of_int \<lfloor>x + 1/2\<rfloor> else of_int \<lceil>x - 1/2\<rceil>)"
| "fround x = x"

text \<open>
  The conversion to \<open>int64\<close> of a value in range. For a NaN, an infinity or a value out of range
  the language leaves the result to the implementation; \<open>MinInt64\<close> is what amd64 gives.
\<close>

fun float_to_int64 :: "float64 \<Rightarrow> int" where
  "float_to_int64 (Fin x) =
     (let n = (if 0 \<le> x then \<lfloor>x\<rfloor> else \<lceil>x\<rceil>) in if is_int64 n then n else MinInt64)"
| "float_to_int64 _ = MinInt64"

definition bucket_key :: "(float64 \<Rightarrow> float64) \<Rightarrow> int \<Rightarrow> int" where
  "bucket_key math_log value = float_to_int64 (fceil (fdiv (math_log (of_int64 value)) (math_log sketchGamma)))"

definition sketchRepresentativeValue :: "(float64 \<Rightarrow> float64 \<Rightarrow> float64) \<Rightarrow> int \<Rightarrow> int" where
  "sketchRepresentativeValue math_pow key =
     (let upper = math_pow sketchGamma (of_int64 key);
          representative = fround (fdiv (fmul (Fin 2) upper) (fadd sketchGamma (Fin 1)))
      in if flt representative (Fin 1) then 1
         else if flt (Fin 9223372036854775808) representative then MaxInt64
         else float_to_int64 representative)"


section \<open>Operations\<close>

definition sketch_Add :: "(float64 \<Rightarrow> float64) \<Rightarrow> int \<Rightarrow> sketch \<Rightarrow> codecError + sketch" where
  "sketch_Add math_log value s =
     (if value \<le> 0 then Inl NotPositive
      else let key = bucket_key math_log value
           in if bin (sk_bins s) key = MaxUint64 \<or> sk_count s = MaxUint64 then Inl CountOverflow
              else Inr \<lparr>sk_bins = AList.update key (bin (sk_bins s) key + 1) (sk_bins s), sk_count = sk_count s + 1\<rparr>)"

text \<open>The loop of \<open>Merge\<close>; an overflowing bin ends it.\<close>

fun merge_bins :: "(int \<times> nat) list \<Rightarrow> (int \<times> nat) list \<Rightarrow> codecError + (int \<times> nat) list" where
  "merge_bins bins [] = Inr bins"
| "merge_bins bins ((key, cnt) # rest) =
     (if MaxUint64 - cnt < bin bins key then Inl (BinOverflow key)
      else merge_bins (AList.update key (bin bins key + cnt) bins) rest)"

definition sketch_Merge :: "sketch option \<Rightarrow> sketch option \<Rightarrow> codecError + sketch" where
  "sketch_Merge s other =
     (case (s, other) of
        (Some s, Some t) \<Rightarrow>
          if MaxUint64 - sk_count t < sk_count s then Inl CountOverflow
          else andThen (merge_bins (sk_bins s) (sk_bins t)) (\<lambda>bins.
            Inr \<lparr>sk_bins = bins, sk_count = sk_count s + sk_count t\<rparr>)
      | _ \<Rightarrow> Inl NilReceiver)"

definition sketch_Clone :: "sketch option \<Rightarrow> sketch" where
  "sketch_Clone s = (case s of None \<Rightarrow> NewSketch | Some s \<Rightarrow> s)"

definition sketch_Count :: "sketch option \<Rightarrow> nat" where
  "sketch_Count s = (case s of None \<Rightarrow> 0 | Some s \<Rightarrow> sk_count s)"

definition sortedKeys :: "sketch \<Rightarrow> int list" where
  "sortedKeys s = sort (map fst (sk_bins s))"

fun find_rank :: "sketch \<Rightarrow> nat \<Rightarrow> nat \<Rightarrow> int list \<Rightarrow> int option" where
  "find_rank s rank cumulative [] = None"
| "find_rank s rank cumulative (key # keys) =
     (let cumulative = u64_wrap (cumulative + bin (sk_bins s) key)
      in if rank \<le> cumulative then Some key else find_rank s rank cumulative keys)"

definition P95 :: "(float64 \<Rightarrow> float64 \<Rightarrow> float64) \<Rightarrow> sketch option \<Rightarrow> int" where
  "P95 math_pow s =
     (case s of
        None \<Rightarrow> 0
      | Some s \<Rightarrow>
          if sk_count s = 0 then 0
          else let rank = u64_wrap (u64_wrap (sk_count s * 95) + 99) div 100;
                   keys = sortedKeys s
               in sketchRepresentativeValue math_pow
                    (case find_rank s rank 0 keys of Some key \<Rightarrow> key | None \<Rightarrow> last keys))"

fun marshal_bins :: "sketch \<Rightarrow> int list \<Rightarrow> byte list \<Rightarrow> codecError + byte list" where
  "marshal_bins s [] encoded = Inr encoded"
| "marshal_bins s (key # keys) encoded =
     (let cnt = bin (sk_bins s) key
      in if cnt = 0 then Inl ZeroBin
         else marshal_bins s keys (encoded @ uvarint (zigzagEncode key) @ uvarint (of_nat cnt)))"

definition sketch_MarshalBinary :: "sketch option \<Rightarrow> codecError + byte list" where
  "sketch_MarshalBinary s =
     (case s of
        None \<Rightarrow> Inl NilReceiver
      | Some s \<Rightarrow>
          let keys = sortedKeys s
          in marshal_bins s keys (FormatVersion # uvarint (of_nat (length keys))))"

text \<open>
  \<open>walkSketch\<close>: the visited bins, in order, and the total or the error. \<open>walk_bins\<close> is its
  loop: \<open>n\<close> bins are left, \<open>prev\<close> is the previous key, absent before the first bin. The
  visits before an error have happened.
\<close>

fun walk_bins :: "nat \<Rightarrow> int option \<Rightarrow> nat \<Rightarrow> byte list \<Rightarrow> (int \<times> nat) list \<times> (codecError + nat)" where
  "walk_bins 0 prev acc encoded = ([], if encoded = [] then Inr acc else Inl TrailingBytes)"
| "walk_bins (Suc n) prev acc encoded =
     (case readUvarint encoded of
        Inl e \<Rightarrow> ([], Inl e)
      | Inr (encodedKey, rest) \<Rightarrow>
          let key = zigzagDecode encodedKey
          in if (case prev of None \<Rightarrow> False | Some previousKey \<Rightarrow> key \<le> previousKey) then ([], Inl KeysNotIncreasing)
             else case readUvarint rest of
               Inl e \<Rightarrow> ([], Inl e)
             | Inr (c, rest) \<Rightarrow>
                 let cnt = unat c
                 in if cnt = 0 \<or> MaxUint64 - cnt < acc then ([], Inl BadCount)
                    else let (visited, r) = walk_bins n (Some key) (acc + cnt) rest in ((key, cnt) # visited, r))"

definition walkSketch :: "byte list \<Rightarrow> (int \<times> nat) list \<times> (codecError + nat)" where
  "walkSketch encoded =
     (case encoded of
        [] \<Rightarrow> ([], Inl EmptyData)
      | version # rest \<Rightarrow>
          if version \<noteq> FormatVersion then ([], Inl BadVersion)
          else case readUvarint rest of
            Inl e \<Rightarrow> ([], Inl e)
          | Inr (binCount, rest) \<Rightarrow> walk_bins (unat binCount) None 0 rest)"

definition UnmarshalSketch :: "byte list \<Rightarrow> codecError + sketch" where
  "UnmarshalSketch encoded =
     (let (visited, r) = walkSketch encoded
      in andThen r (\<lambda>cnt.
           Inr \<lparr>sk_bins = foldl (\<lambda>bins (key, cnt). AList.update key cnt bins) [] visited, sk_count = cnt\<rparr>))"


section \<open>The query merger\<close>

text \<open>A closed merger is \<open>None\<close>. The visitor adds bins until one overflows.\<close>

fun visit_bins :: "(int \<times> nat) list \<Rightarrow> (int \<times> nat) list \<Rightarrow> (int \<times> nat) list \<times> int option" where
  "visit_bins bins [] = (bins, None)"
| "visit_bins bins ((key, cnt) # rest) =
     (if MaxUint64 - cnt < bin bins key then (bins, Some key)
      else visit_bins (AList.update key (bin bins key + cnt) bins) rest)"

type_synonym querySketchMerger = "sketch option"

definition NewQuerySketchMerger :: querySketchMerger where
  "NewQuerySketchMerger = Some NewSketch"

definition sketch_MergeBinary :: "byte list \<Rightarrow> querySketchMerger \<Rightarrow> querySketchMerger \<times> (codecError + nat)" where
  "sketch_MergeBinary encoded merger =
     (case merger of
        None \<Rightarrow> (None, Inl MergerClosed)
      | Some s \<Rightarrow>
          let (visited, r) = walkSketch encoded;
              (bins, overflow) = visit_bins (sk_bins s) visited
          in case r of
               Inl e \<Rightarrow> (None, Inl e)
             | Inr rowCount \<Rightarrow>
                 (case overflow of
                    Some key \<Rightarrow> (None, Inl (BinOverflow key))
                  | None \<Rightarrow>
                      if MaxUint64 - rowCount < sk_count s then (None, Inl CountOverflow)
                      else (Some \<lparr>sk_bins = bins, sk_count = sk_count s + rowCount\<rparr>, Inr rowCount)))"

definition TakeSketch :: "querySketchMerger \<Rightarrow> querySketchMerger \<times> sketch option" where
  "TakeSketch merger = (None, merger)"

section \<open>Contents of a sketch\<close>

definition total_bins :: "(int \<times> nat) list \<Rightarrow> nat" where
  "total_bins bins = sum_list (map snd bins)"

definition bins_ok :: "(int \<times> nat) list \<Rightarrow> bool" where
  "bins_ok bins \<longleftrightarrow> distinct (map fst bins) \<and> (\<forall>(key, n) \<in> set bins. is_int64 key \<and> 0 < n)"

definition sketch_ok :: "sketch \<Rightarrow> bool" where
  "sketch_ok s \<longleftrightarrow> bins_ok (sk_bins s) \<and> sk_count s = total_bins (sk_bins s) \<and> sk_count s \<le> MaxUint64"

lemma bin_Nil [simp]: "bin [] key = 0"
  by (simp add: bin_def)

lemma bin_Cons [simp]: "bin ((k, n) # bins) key = (if key = k then n else bin bins key)"
  by (simp add: bin_def)

lemma bin_update [simp]: "bin (AList.update k n bins) key = (if key = k then n else bin bins key)"
  by (simp add: bin_def update_conv')

lemma bin_unknown: "key \<notin> fst ` set bins \<Longrightarrow> bin bins key = 0"
  by (induction bins) auto

lemma bin_known: "distinct (map fst bins) \<Longrightarrow> (key, n) \<in> set bins \<Longrightarrow> bin bins key = n"
  by (simp add: bin_def)

lemma bin_le_total: "bin bins key \<le> total_bins bins"
  by (induction bins) (auto simp: total_bins_def)

lemma total_update: "distinct (map fst bins) \<Longrightarrow> total_bins (AList.update k n bins) + bin bins k = total_bins bins + n"
  by (induction bins) (auto simp: total_bins_def bin_unknown)

lemma update_new: "key \<notin> fst ` set bins \<Longrightarrow> AList.update key n bins = bins @ [(key, n)]"
  by (induction bins) auto

lemma set_bin_update: "set (AList.update k n bins) \<subseteq> insert (k, n) (set bins)"
  by (induction bins) auto

lemma bins_ok_update: "bins_ok bins \<Longrightarrow> is_int64 k \<Longrightarrow> 0 < n \<Longrightarrow> bins_ok (AList.update k n bins)"
  using set_bin_update [of k n bins] by (fastforce simp: bins_ok_def distinct_update)

lemma merge_bins_spec:
  assumes "bins_ok bins" and "bins_ok adds"
  shows "if total_bins bins + total_bins adds \<le> MaxUint64
    then \<exists>bins'. merge_bins bins adds = Inr bins' \<and> bins_ok bins'
      \<and> (\<forall>key. bin bins' key = bin bins key + bin adds key)
      \<and> total_bins bins' = total_bins bins + total_bins adds
    else True"
  using assms
proof (induction bins adds rule: merge_bins.induct)
  case (2 bins key n rest)
  let ?b = "AList.update key (bin bins key + n) bins"
  show ?case
  proof (cases "total_bins bins + total_bins ((key, n) # rest) \<le> MaxUint64")
    case True
    have fits: "\<not> MaxUint64 - n < bin bins key"
      using True bin_le_total [of bins key] by (simp add: total_bins_def)
    from 2(3) have rest: "bins_ok rest" "is_int64 key" "0 < n" "key \<notin> fst ` set rest" by (auto simp: bins_ok_def)
    from 2(2) rest have ok: "bins_ok ?b" by (simp add: bins_ok_update)
    have t: "total_bins ?b = total_bins bins + n"
      using total_update [of bins key "bin bins key + n"] 2(2) by (simp add: bins_ok_def)
    with 2(1) [OF fits ok rest(1)] True fits rest(4) show ?thesis
      by (auto simp: total_bins_def bin_unknown)
  qed simp
qed (simp add: total_bins_def)

lemma visit_bins_merge:
  "(case merge_bins bins adds of Inr b \<Rightarrow> visit_bins bins adds = (b, None) | Inl e \<Rightarrow> snd (visit_bins bins adds) \<noteq> None)"
  by (induction bins adds rule: merge_bins.induct) (auto split: sum.splits)


section \<open>Encoding\<close>

definition encode_bins :: "(int \<times> nat) list \<Rightarrow> byte list" where
  "encode_bins bins = concat (map (\<lambda>(key, n). uvarint (zigzagEncode key) @ uvarint (of_nat n)) bins)"

lemma marshal_bins_encode:
  "\<forall>key \<in> set keys. 0 < bin (sk_bins s) key
    \<Longrightarrow> marshal_bins s keys encoded = Inr (encoded @ encode_bins (map (\<lambda>key. (key, bin (sk_bins s) key)) keys))"
  by (induction keys arbitrary: encoded) (simp_all add: encode_bins_def)

text \<open>The bins of a well-formed row: ascending keys, positive counts and a total that fits.\<close>

fun ascending :: "int option \<Rightarrow> (int \<times> nat) list \<Rightarrow> bool" where
  "ascending prev [] \<longleftrightarrow> True"
| "ascending prev ((key, n) # bins) \<longleftrightarrow>
     (case prev of None \<Rightarrow> True | Some p \<Rightarrow> p < key) \<and> is_int64 key \<and> 0 < n \<and> ascending (Some key) bins"

lemma unat_of_nat_u64: "n \<le> MaxUint64 \<Longrightarrow> unat (of_nat n :: u64) = n"
  by (simp add: unsigned_of_nat take_bit_nat_eq_self_iff MaxUint64_def)

lemma unat_u64: "unat (c :: u64) \<le> MaxUint64"
proof -
  have "unat c < 2 ^ LENGTH(64)" by (rule unsigned_less)
  then show ?thesis by (simp add: MaxUint64_def)
qed

lemma walk_bins_encoded:
  assumes "ascending prev bins" and "acc + total_bins bins \<le> MaxUint64"
  shows "walk_bins (length bins) prev acc (encode_bins bins) = (bins, Inr (acc + total_bins bins))"
  using assms
proof (induction bins arbitrary: prev acc)
  case Nil
  then show ?case by (simp add: encode_bins_def total_bins_def)
next
  case (Cons b bins)
  obtain key n where b: "b = (key, n)" by fastforce
  with Cons.prems have k: "is_int64 key" "0 < n" "ascending (Some key) bins" "n \<le> MaxUint64"
      "acc + n + total_bins bins \<le> MaxUint64" by (auto simp: total_bins_def)
  have ordered: "\<not> (case prev of None \<Rightarrow> False | Some p \<Rightarrow> key \<le> p)"
    using Cons.prems(1) by (auto simp: b split: option.splits)
  have room: "\<not> MaxUint64 - n < acc" using k(4,5) by simp
  have "encode_bins (b # bins) = uvarint (zigzagEncode key) @ uvarint (of_nat n) @ encode_bins bins"
    by (simp add: encode_bins_def b)
  moreover have "walk_bins (length bins) (Some key) (acc + n) (encode_bins bins) = (bins, Inr (acc + n + total_bins bins))"
    by (rule Cons.IH [OF k(3,5)])
  ultimately show ?case
    using k(1,2,4) ordered room by (simp add: b unat_of_nat_u64 total_bins_def add.assoc)
qed

lemma walk_bins_ascending:
  assumes "walk_bins n prev acc encoded = (visited, Inr acc2)" and "acc \<le> MaxUint64"
  shows "ascending prev visited \<and> acc2 = acc + total_bins visited \<and> acc2 \<le> MaxUint64"
  using assms
proof (induction n arbitrary: prev acc encoded visited)
  case 0
  then show ?case by (auto simp: total_bins_def split: if_splits)
next
  case (Suc n)
  from Suc.prems(1) obtain k rest c rest' vs where
      r: "readUvarint encoded = Inr (k, rest)" "readUvarint rest = Inr (c, rest')"
    and order: "\<not> (case prev of None \<Rightarrow> False | Some p \<Rightarrow> zigzagDecode k \<le> p)"
    and c: "unat c \<noteq> 0" "\<not> MaxUint64 - unat c < acc"
    and walk: "walk_bins n (Some (zigzagDecode k)) (acc + unat c) rest' = (vs, Inr acc2)"
    and v: "visited = (zigzagDecode k, unat c) # vs"
    by (auto simp: Let_def split: sum.splits prod.splits if_splits)
  from unat_u64 [of c] c(2) have "acc + unat c \<le> MaxUint64" by simp
  from Suc.IH [OF walk this]
  show ?case using order c(1) by (auto simp: v total_bins_def zigzagDecode_int64 split: option.splits)
qed

lemma ascending_bound: "ascending (Some p) bins \<Longrightarrow> \<forall>key \<in> fst ` set bins. p < key"
proof (induction bins arbitrary: p)
  case (Cons b bins)
  obtain k n where b: "b = (k, n)" by fastforce
  from Cons.prems Cons.IH [of k] have "p < k" and "\<forall>key \<in> fst ` set bins. k < key" by (simp_all add: b)
  then show ?case by (auto simp: b)
qed simp

lemma ascending_ok: "ascending prev bins \<Longrightarrow> bins_ok bins \<and> sorted (map fst bins)"
proof (induction prev bins rule: ascending.induct)
  case (2 prev key n bins)
  then have "ascending (Some key) bins" by simp
  with 2 ascending_bound [OF this] show ?case by (auto simp: bins_ok_def less_imp_le)
qed (simp add: bins_ok_def)

lemma insert_all_new:
  assumes "distinct (map fst (bins @ adds))"
  shows "foldl (\<lambda>bins (key, n). AList.update key n bins) bins adds = bins @ adds"
  using assms
proof (induction adds arbitrary: bins)
  case (Cons e adds)
  then show ?case by (cases e) (simp add: update_new)
qed simp

text \<open>What decoding accepts, and what it gives: exactly the visited bins.\<close>

lemma UnmarshalSketch_walk:
  "UnmarshalSketch encoded = Inr s \<longleftrightarrow> walkSketch encoded = (sk_bins s, Inr (sk_count s))"
proof -
  have fresh: "foldl (\<lambda>bins (key, n). AList.update key n bins) [] visited = visited"
    if "walkSketch encoded = (visited, Inr n)" for visited n
  proof -
    from that obtain m rest where "walk_bins m None 0 rest = (visited, Inr n)"
      by (auto simp: walkSketch_def split: list.splits if_splits sum.splits prod.splits)
    from walk_bins_ascending [OF this] have "ascending None visited" by simp
    from ascending_ok [OF this] show ?thesis
      using insert_all_new [of "[]" visited] by (simp add: bins_ok_def)
  qed
  obtain visited r where w: "walkSketch encoded = (visited, r)" by fastforce
  show ?thesis
  proof (cases r)
    case (Inr n)
    with fresh [of visited n] w show ?thesis by (cases s) (auto simp: UnmarshalSketch_def)
  qed (use w in \<open>simp add: UnmarshalSketch_def\<close>)
qed

lemma UnmarshalSketch_ok:
  assumes "UnmarshalSketch encoded = Inr s"
  shows "sketch_ok s"
proof -
  from assms [unfolded UnmarshalSketch_walk] obtain m rest where "walk_bins m None 0 rest = (sk_bins s, Inr (sk_count s))"
    by (auto simp: walkSketch_def split: list.splits if_splits sum.splits prod.splits)
  from walk_bins_ascending [OF this] ascending_ok [of None "sk_bins s"] show ?thesis by (simp add: sketch_ok_def)
qed

section \<open>Round trip\<close>

text \<open>The bins in ascending order of their keys.\<close>

definition sorted_bins :: "sketch \<Rightarrow> (int \<times> nat) list" where
  "sorted_bins s = map (\<lambda>key. (key, bin (sk_bins s) key)) (sortedKeys s)"

lemma set_sortedKeys: "set (sortedKeys s) = fst ` set (sk_bins s)"
  by (simp add: sortedKeys_def)

lemma map_of_keys: "map_of (map (\<lambda>k. (k, f k)) keys) key = (if key \<in> set keys then Some (f key) else None)"
  by (induction keys) auto

lemma ascending_sorted:
  assumes "sorted keys" and "distinct keys" and "\<forall>key \<in> set keys. is_int64 key \<and> 0 < f key"
    and "\<forall>p key. prev = Some p \<longrightarrow> key \<in> set keys \<longrightarrow> p < key"
  shows "ascending prev (map (\<lambda>key. (key, f key)) keys)"
  using assms
proof (induction keys arbitrary: prev)
  case (Cons k keys)
  have "\<forall>key \<in> set keys. k < key" using Cons.prems(1,2) by (auto simp: less_le)
  with Cons.prems have "ascending (Some k) (map (\<lambda>key. (key, f key)) keys)"
    by (intro Cons.IH) auto
  with Cons.prems(3,4) show ?case by (auto split: option.splits)
qed simp

lemma sum_bin_keys:
  "distinct (map fst bins) \<Longrightarrow> sum_list (map (bin bins) (map fst bins)) = total_bins bins"
proof (induction bins)
  case (Cons b bins)
  obtain k n where b: "b = (k, n)" by fastforce
  have same: "map (bin (b # bins)) (map fst bins) = map (bin bins) (map fst bins)"
    using Cons.prems by (auto simp: b)
  have "sum_list (map (bin (b # bins)) (map fst (b # bins))) = bin (b # bins) (fst b) + sum_list (map (bin bins) (map fst bins))"
    by (simp only: list.map same sum_list.Cons)
  moreover have "bin (b # bins) (fst b) = snd b" by (simp add: b)
  ultimately show ?case using Cons by (simp only: total_bins_def list.map sum_list.Cons distinct.simps simp_thms)
qed (simp add: total_bins_def)

lemma sorted_bins_facts:
  assumes "sketch_ok s"
  shows "ascending None (sorted_bins s)" and "total_bins (sorted_bins s) = sk_count s"
    and "length (sorted_bins s) \<le> MaxUint64" and "bin (sorted_bins s) key = bin (sk_bins s) key"
proof -
  from assms have ok: "bins_ok (sk_bins s)" "sk_count s = total_bins (sk_bins s)" "sk_count s \<le> MaxUint64"
    by (simp_all add: sketch_ok_def)
  have dist: "distinct (map fst (sk_bins s))" using ok(1) by (simp add: bins_ok_def)
  have pos: "is_int64 key \<and> 0 < bin (sk_bins s) key" if "key \<in> set (sortedKeys s)" for key
    using that ok(1) by (auto simp: set_sortedKeys bins_ok_def bin_known [OF dist])
  show asc: "ascending None (sorted_bins s)"
    unfolding sorted_bins_def using pos dist by (intro ascending_sorted) (simp_all add: sortedKeys_def)
  have "total_bins (sorted_bins s) = sum_mset (image_mset (bin (sk_bins s)) (mset (sortedKeys s)))"
    by (simp add: total_bins_def sorted_bins_def comp_def flip: sum_mset_sum_list mset_map)
  also have "\<dots> = sum_list (map (bin (sk_bins s)) (map fst (sk_bins s)))"
    by (simp add: sortedKeys_def flip: sum_mset_sum_list mset_map)
  finally show total: "total_bins (sorted_bins s) = sk_count s" using sum_bin_keys [OF dist] ok(2) by simp
  have "length bins \<le> total_bins bins" if "ascending prev bins" for prev bins
    using that by (induction prev bins rule: ascending.induct) (auto simp: total_bins_def)
  from this [OF asc] total ok(3) show "length (sorted_bins s) \<le> MaxUint64" by simp
  have "map_of (sorted_bins s) key = (if key \<in> set (sortedKeys s) then Some (bin (sk_bins s) key) else None)"
    by (simp add: sorted_bins_def map_of_keys)
  then show "bin (sorted_bins s) key = bin (sk_bins s) key"
    using bin_unknown [of key "sk_bins s"] by (auto simp: bin_def [of "sorted_bins s"] set_sortedKeys)
qed

lemma sketch_encoded:
  assumes "sketch_ok s"
  shows "\<exists>encoded. sketch_MarshalBinary (Some s) = Inr encoded
    \<and> UnmarshalSketch encoded = Inr \<lparr>sk_bins = sorted_bins s, sk_count = sk_count s\<rparr>"
proof -
  note facts = sorted_bins_facts [OF assms]
  have "\<forall>key \<in> set (sortedKeys s). 0 < bin (sk_bins s) key"
    using assms by (auto simp: set_sortedKeys sketch_ok_def bins_ok_def bin_known)
  then have m: "sketch_MarshalBinary (Some s) =
      Inr (FormatVersion # uvarint (of_nat (length (sorted_bins s))) @ encode_bins (sorted_bins s))"
    using marshal_bins_encode [of "sortedKeys s" s "FormatVersion # uvarint (of_nat (length (sortedKeys s)))"]
    by (simp add: sketch_MarshalBinary_def sorted_bins_def Let_def)
  have "walk_bins (length (sorted_bins s)) None 0 (encode_bins (sorted_bins s)) = (sorted_bins s, Inr (sk_count s))"
    using walk_bins_encoded [OF facts(1), of 0] facts(2) assms by (simp add: sketch_ok_def)
  with m facts(3) show ?thesis
    by (simp add: UnmarshalSketch_walk walkSketch_def unat_of_nat_u64)
qed

text \<open>
  A latency sketch survives being stored. For every well-formed sketch (distinct
  \<open>int64\<close> keys, positive counts that add up to the total, a total that fits 64 bits)
  \<open>MarshalBinary\<close> succeeds, and \<open>UnmarshalSketch\<close> of the bytes gives a sketch with the same
  count in every bin and the same total. And whatever bytes \<open>UnmarshalSketch\<close> accepts, the
  sketch it returns is well-formed.
\<close>

theorem sketch_roundtrip:
  assumes "sketch_ok s"
  shows "(\<exists>encoded t. sketch_MarshalBinary (Some s) = Inr encoded \<and> UnmarshalSketch encoded = Inr t
      \<and> (\<forall>key. bin (sk_bins t) key = bin (sk_bins s) key) \<and> sk_count t = sk_count s)
    \<and> (UnmarshalSketch stored = Inr u \<longrightarrow> sketch_ok u)"
  using sketch_encoded [OF assms] sorted_bins_facts(4) [OF assms] UnmarshalSketch_ok
  by (metis sketch.select_convs)


section \<open>Merging stored rows\<close>

text \<open>The query reads row after row into one merger; the reference decodes and merges each row.\<close>

definition merge_rows :: "byte list list \<Rightarrow> querySketchMerger" where
  "merge_rows rows = foldl (\<lambda>merger row. fst (sketch_MergeBinary row merger)) NewQuerySketchMerger rows"

fun merge_decoded :: "sketch \<Rightarrow> byte list list \<Rightarrow> codecError + sketch" where
  "merge_decoded s [] = Inr s"
| "merge_decoded s (row # rows) =
     andThen (UnmarshalSketch row) (\<lambda>t. andThen (sketch_Merge (Some s) (Some t)) (\<lambda>m. merge_decoded m rows))"

fun successful :: "codecError + 'a \<Rightarrow> 'a option" where
  "successful (Inl _) = None"
| "successful (Inr x) = Some x"

lemma MergeBinary_step:
  "fst (sketch_MergeBinary row (Some s)) =
     successful (andThen (UnmarshalSketch row) (\<lambda>t. sketch_Merge (Some s) (Some t)))"
proof (cases "UnmarshalSketch row")
  case (Inl e)
  then obtain e' where "snd (walkSketch row) = Inl e'"
    by (cases "snd (walkSketch row)") (auto simp: UnmarshalSketch_def split: prod.splits)
  with Inl show ?thesis by (auto simp: sketch_MergeBinary_def split: prod.splits)
next
  case (Inr t)
  then have w: "walkSketch row = (sk_bins t, Inr (sk_count t))" by (simp add: UnmarshalSketch_walk)
  show ?thesis
  proof (cases "merge_bins (sk_bins s) (sk_bins t)")
    case (Inl e)
    then obtain k where "snd (visit_bins (sk_bins s) (sk_bins t)) = Some k"
      using visit_bins_merge [of "sk_bins s" "sk_bins t"] by auto
    with Inr Inl w show ?thesis by (auto simp: sketch_MergeBinary_def sketch_Merge_def split: prod.splits)
  next
    case (Inr b)
    then have "visit_bins (sk_bins s) (sk_bins t) = (b, None)"
      using visit_bins_merge [of "sk_bins s" "sk_bins t"] by simp
    with Inr \<open>UnmarshalSketch row = Inr t\<close> w show ?thesis
      by (simp add: sketch_MergeBinary_def sketch_Merge_def)
  qed
qed

lemma merge_closed: "foldl (\<lambda>merger row. fst (sketch_MergeBinary row merger)) None rows = None"
  by (induction rows) (simp_all add: sketch_MergeBinary_def)

lemma merge_rows_decoded:
  "foldl (\<lambda>merger row. fst (sketch_MergeBinary row merger)) (Some s) rows = successful (merge_decoded s rows)"
proof (induction rows arbitrary: s)
  case (Cons row rows)
  show ?case
  proof (cases "andThen (UnmarshalSketch row) (\<lambda>t. sketch_Merge (Some s) (Some t))")
    case (Inl e)
    then have "merge_decoded s (row # rows) = Inl e" by (cases "UnmarshalSketch row") auto
    with Inl show ?thesis by (simp add: MergeBinary_step merge_closed)
  next
    case (Inr m)
    then have "merge_decoded s (row # rows) = merge_decoded m rows" by (auto simp: andThen_eq_Inr)
    with Inr Cons.IH show ?thesis by (simp add: MergeBinary_step)
  qed
qed simp

lemma sketch_Merge_spec:
  assumes "sketch_ok s" and "sketch_ok t"
  shows "if sk_count s + sk_count t \<le> MaxUint64
    then \<exists>m. sketch_Merge (Some s) (Some t) = Inr m \<and> sketch_ok m \<and> sk_count m = sk_count s + sk_count t
      \<and> (\<forall>key. bin (sk_bins m) key = bin (sk_bins s) key + bin (sk_bins t) key)
    else sketch_Merge (Some s) (Some t) = Inl CountOverflow"
proof (cases "sk_count s + sk_count t \<le> MaxUint64")
  case True
  with assms merge_bins_spec [of "sk_bins s" "sk_bins t"] obtain b where
      "merge_bins (sk_bins s) (sk_bins t) = Inr b" "bins_ok b" "total_bins b = sk_count s + sk_count t"
      "\<forall>key. bin b key = bin (sk_bins s) key + bin (sk_bins t) key"
    by (auto simp: sketch_ok_def)
  moreover have "\<not> MaxUint64 - sk_count t < sk_count s" using True by simp
  ultimately show ?thesis using True by (simp add: sketch_Merge_def sketch_ok_def)
next
  case False
  moreover have "sk_count t \<le> MaxUint64" using assms(2) by (simp add: sketch_ok_def)
  ultimately have "MaxUint64 - sk_count t < sk_count s" by linarith
  with False show ?thesis by (simp add: sketch_Merge_def)
qed

lemma merge_decoded_spec:
  assumes "list_all2 (\<lambda>row t. UnmarshalSketch row = Inr t) rows ts" and "sketch_ok s"
  shows "if sk_count s + sum_list (map sk_count ts) \<le> MaxUint64
    then \<exists>m. merge_decoded s rows = Inr m \<and> sketch_ok m \<and> sk_count m = sk_count s + sum_list (map sk_count ts)
      \<and> (\<forall>key. bin (sk_bins m) key = bin (sk_bins s) key + sum_list (map (\<lambda>t. bin (sk_bins t) key) ts))
    else merge_decoded s rows = Inl CountOverflow"
  using assms
proof (induction rows ts arbitrary: s rule: list_all2_induct)
  case (Cons row rows t ts)
  note merge = sketch_Merge_spec [OF Cons.prems UnmarshalSketch_ok [OF Cons.hyps(1)]]
  show ?case
  proof (cases "sk_count s + sk_count t \<le> MaxUint64")
    case False
    with merge Cons.hyps(1) show ?thesis by simp
  next
    case True
    with merge obtain m where m: "sketch_Merge (Some s) (Some t) = Inr m" "sketch_ok m"
        "sk_count m = sk_count s + sk_count t" "\<forall>key. bin (sk_bins m) key = bin (sk_bins s) key + bin (sk_bins t) key"
      by auto
    have "merge_decoded s (row # rows) = merge_decoded m rows" using m(1) Cons.hyps(1) by simp
    with Cons.IH [OF m(2)] m(3,4) show ?thesis by (auto simp: add.assoc)
  qed
qed (simp add: sketch_ok_def)

text \<open>
  Reading stored sketches straight into one query sketch is decoding and merging
  them. For any rows, the query merger ends with exactly the sketch that \<open>UnmarshalSketch\<close>
  and \<open>Merge\<close>, row after row, give, and is closed exactly when those fail. For rows that
  decode it fails only if the counts add up to more than 64 bits hold; otherwise every bin and
  the total are the sums over the rows, so the order of the rows does not matter.
\<close>

theorem query_sketch_merge:
  assumes "list_all2 (\<lambda>row t. UnmarshalSketch row = Inr t) rows ts"
  shows "snd (TakeSketch (merge_rows anyrows)) = successful (merge_decoded NewSketch anyrows)
    \<and> (case snd (TakeSketch (merge_rows rows)) of
         None \<Rightarrow> MaxUint64 < sum_list (map sk_count ts)
       | Some m \<Rightarrow> sketch_ok m \<and> sk_count m = sum_list (map sk_count ts)
           \<and> (\<forall>key. bin (sk_bins m) key = sum_list (map (\<lambda>t. bin (sk_bins t) key) ts)))"
proof -
  have new: "sketch_ok NewSketch" by (simp add: NewSketch_def sketch_ok_def bins_ok_def total_bins_def)
  have rows: "snd (TakeSketch (merge_rows rows)) = successful (merge_decoded NewSketch rows)" for rows
    by (simp add: TakeSketch_def merge_rows_def NewQuerySketchMerger_def merge_rows_decoded)
  from merge_decoded_spec [OF assms new] show ?thesis
    unfolding rows by (auto simp: NewSketch_def split: if_splits)
qed

section \<open>The 95th percentile\<close>

fun sketch_AddAll :: "(float64 \<Rightarrow> float64) \<Rightarrow> int list \<Rightarrow> sketch \<Rightarrow> codecError + sketch" where
  "sketch_AddAll math_log [] s = Inr s"
| "sketch_AddAll math_log (v # vs) s = andThen (sketch_Add math_log v s) (sketch_AddAll math_log vs)"

text \<open>The bucket keys of the samples, each as often as it was counted.\<close>

definition expand :: "sketch \<Rightarrow> int list \<Rightarrow> int list" where
  "expand s keys = concat (map (\<lambda>key. replicate (bin (sk_bins s) key) key) keys)"

lemma count_expand:
  "distinct keys \<Longrightarrow> count (mset (expand s keys)) key = (if key \<in> set keys then bin (sk_bins s) key else 0)"
  by (induction keys) (auto simp: expand_def)

lemma sorted_expand: "sorted keys \<Longrightarrow> sorted (expand s keys)"
  by (induction keys) (auto simp: expand_def sorted_append sorted_replicate)

lemma length_expand: "length (expand s (sortedKeys s)) = total_bins (sorted_bins s)"
  by (simp add: expand_def total_bins_def sorted_bins_def length_concat comp_def)

lemma find_rank_nth:
  assumes "c < rank" and "rank \<le> c + length (expand s keys)" and "c + length (expand s keys) \<le> MaxUint64"
  shows "find_rank s rank c keys = Some (expand s keys ! (rank - c - 1))"
  using assms
proof (induction keys arbitrary: c)
  case (Cons key keys)
  let ?n = "bin (sk_bins s) key"
  have expand: "expand s (key # keys) = replicate ?n key @ expand s keys" by (simp add: expand_def)
  have wrap: "u64_wrap (c + ?n) = c + ?n" using Cons.prems(3) by (simp add: expand u64_wrap_def MaxUint64_def)
  show ?case
  proof (cases "rank \<le> c + ?n")
    case True
    with Cons.prems(1) have "rank - c - 1 < ?n" by simp
    with True wrap show ?thesis by (simp add: expand nth_append)
  next
    case False
    with Cons.prems Cons.IH [of "c + ?n"] have "find_rank s rank (c + ?n) keys = Some (expand s keys ! (rank - (c + ?n) - 1))"
      by (simp add: expand)
    moreover have "\<not> rank - c - 1 < ?n" and "rank - c - 1 - ?n = rank - (c + ?n) - 1" using False by simp_all
    ultimately show ?thesis using False wrap by (simp add: expand nth_append)
  qed
qed (simp add: expand_def)

lemma float_to_int64_range [simp]: "is_int64 (float_to_int64 x)"
  by (cases x) (auto simp: Let_def int64_bounds)

lemma sketch_Add_spec:
  assumes "sketch_ok s" and "0 < v" and "sk_count s < MaxUint64"
  shows "\<exists>s'. sketch_Add math_log v s = Inr s' \<and> sketch_ok s' \<and> sk_count s' = sk_count s + 1
    \<and> (\<forall>key. bin (sk_bins s') key = bin (sk_bins s) key + (if key = bucket_key math_log v then 1 else 0))"
proof -
  let ?k = "bucket_key math_log v"
  have room: "bin (sk_bins s) ?k < MaxUint64"
    using bin_le_total [of "sk_bins s" ?k] assms by (simp add: sketch_ok_def)
  have "bins_ok (AList.update ?k (bin (sk_bins s) ?k + 1) (sk_bins s))"
    using assms(1) by (intro bins_ok_update) (simp_all add: sketch_ok_def bucket_key_def)
  moreover have "total_bins (AList.update ?k (bin (sk_bins s) ?k + 1) (sk_bins s)) = sk_count s + 1"
    using total_update [of "sk_bins s" ?k "bin (sk_bins s) ?k + 1"] assms(1) by (simp add: sketch_ok_def bins_ok_def)
  ultimately show ?thesis using room assms by (simp add: sketch_Add_def Let_def sketch_ok_def)
qed

lemma sketch_AddAll_spec:
  assumes "sketch_ok s" and "\<forall>v \<in> set vs. 0 < v" and "sk_count s + length vs \<le> MaxUint64"
  shows "\<exists>s'. sketch_AddAll math_log vs s = Inr s' \<and> sketch_ok s' \<and> sk_count s' = sk_count s + length vs
    \<and> (\<forall>key. bin (sk_bins s') key = bin (sk_bins s) key + count (mset (map (bucket_key math_log) vs)) key)"
  using assms
proof (induction vs arbitrary: s)
  case (Cons v vs)
  then obtain s1 where s1: "sketch_Add math_log v s = Inr s1" "sketch_ok s1" "sk_count s1 = sk_count s + 1"
      "\<forall>key. bin (sk_bins s1) key = bin (sk_bins s) key + (if key = bucket_key math_log v then 1 else 0)"
    using sketch_Add_spec [of s v math_log] by auto
  with Cons.IH [of s1] Cons.prems show ?case by (auto simp: add.assoc)
qed simp

lemma expand_samples:
  assumes "sketch_ok s" and "\<forall>key. bin (sk_bins s) key = count (mset keys) key"
  shows "expand s (sortedKeys s) = sort keys"
proof (rule properties_for_sort [symmetric])
  have dist: "distinct (sortedKeys s)" using assms(1) by (simp add: sortedKeys_def sketch_ok_def bins_ok_def)
  show "mset (expand s (sortedKeys s)) = mset keys"
  proof (rule multiset_eqI)
    fix key
    show "count (mset (expand s (sortedKeys s))) key = count (mset keys) key"
      using count_expand [OF dist, of s key] assms(2) bin_unknown [of key "sk_bins s"] by (auto simp: set_sortedKeys)
  qed
  show "sorted (expand s (sortedKeys s))" by (rule sorted_expand) (simp add: sortedKeys_def)
qed

lemma P95_rank:
  assumes "sketch_ok s" and "\<forall>key. bin (sk_bins s) key = count (mset keys) key" and "sk_count s = length keys"
    and "keys \<noteq> []" and "95 * length keys + 99 \<le> MaxUint64"
  shows "P95 math_pow (Some s) = sketchRepresentativeValue math_pow (sort keys ! ((95 * length keys + 99) div 100 - 1))"
proof -
  let ?n = "length keys"
  let ?e = "expand s (sortedKeys s)"
  let ?rank = "(95 * ?n + 99) div 100"
  have len: "length ?e = ?n" using sorted_bins_facts(2) [OF assms(1)] assms(3) by (simp add: length_expand)
  have n: "0 < ?n" using assms(4) by simp
  have rank: "0 < ?rank" "?rank \<le> ?n"
  proof -
    obtain n where "?n = n" by simp
    with n show "0 < ?rank" "?rank \<le> ?n" by (simp_all only:)
  qed
  have "find_rank s ?rank 0 (sortedKeys s) = Some (?e ! (?rank - 1))"
    using find_rank_nth [of 0 ?rank s "sortedKeys s"] rank len assms(1,3) by (simp add: sketch_ok_def)
  moreover have "u64_wrap (u64_wrap (?n * 95) + 99) div 100 = ?rank"
    using assms(5) by (simp add: u64_wrap_def MaxUint64_def mult.commute)
  ultimately have "P95 math_pow (Some s) = sketchRepresentativeValue math_pow (?e ! (?rank - 1))"
    using assms(3) n by (simp add: P95_def Let_def)
  then show ?thesis using expand_samples [OF assms(1,2)] by simp
qed

text \<open>
  \<open>P95\<close> is the nearest-rank percentile. After any positive samples have been added to
  a new sketch, in any order and as long as \<open>95 n + 99\<close> fits 64 bits, no \<open>Add\<close> fails and
  \<open>P95\<close> is the representative value of the bucket at position \<open>ceil(0.95 n)\<close> among the
  samples' buckets in ascending order, whatever \<open>math.Log\<close> and \<open>math.Pow\<close> compute.
\<close>

theorem P95_nearest_rank:
  assumes "samples \<noteq> []" and "\<forall>v \<in> set samples. 0 < v" and "95 * length samples + 99 \<le> MaxUint64"
  shows "\<exists>s. sketch_AddAll math_log samples NewSketch = Inr s \<and> sk_count s = length samples
    \<and> P95 math_pow (Some s) = sketchRepresentativeValue math_pow
        (sort (map (bucket_key math_log) samples) ! ((95 * length samples + 99) div 100 - 1))"
proof -
  let ?n = "length samples"
  have new: "sketch_ok NewSketch" by (simp add: NewSketch_def sketch_ok_def bins_ok_def total_bins_def)
  have fits: "sk_count NewSketch + ?n \<le> MaxUint64" using assms(3) by (simp add: NewSketch_def)
  obtain s where s: "sketch_AddAll math_log samples NewSketch = Inr s" "sketch_ok s" "sk_count s = ?n"
      "\<forall>key. bin (sk_bins s) key = count (mset (map (bucket_key math_log) samples)) key"
    using sketch_AddAll_spec [OF new assms(2) fits, of math_log] by (auto simp: NewSketch_def)
  from P95_rank [OF s(2,4)] s(3) assms(1,3) have
    "P95 math_pow (Some s) = sketchRepresentativeValue math_pow
       (sort (map (bucket_key math_log) samples) ! ((95 * ?n + 99) div 100 - 1))" by simp
  with s(1,3) show ?thesis by blast
qed


section \<open>Examples\<close>

definition sample_sketch :: sketch where
  "sample_sketch = \<lparr>sk_bins = [(300, 2), (-5, 1), (7, 40)], sk_count = 43\<rparr>"

lemma sample_sketch_ok: "sketch_ok sample_sketch"
  by (simp add: sample_sketch_def sketch_ok_def bins_ok_def total_bins_def int64_bounds MaxUint64_def)

theorem sketch_roundtrip_witness:
  "\<exists>encoded t. sketch_MarshalBinary (Some sample_sketch) = Inr encoded \<and> UnmarshalSketch encoded = Inr t
     \<and> (\<forall>key. bin (sk_bins t) key = bin (sk_bins sample_sketch) key) \<and> sk_count t = sk_count sample_sketch"
  using sketch_roundtrip [OF sample_sketch_ok] by blast

definition sample_row :: "byte list" where
  "sample_row = [1, 2, 14, 40, 216, 4, 2]"

lemma sample_row_decodes: "UnmarshalSketch sample_row = Inr \<lparr>sk_bins = [(7, 40), (300, 2)], sk_count = 42\<rparr>"
proof -
  have "readUvarint [2, 14, 40, 216, 4, 2] = Inr (2, [14, 40, 216, 4, 2])"
    "readUvarint [14, 40, 216, 4, 2] = Inr (14, [40, 216, 4, 2])"
    "readUvarint [40, 216, 4, 2] = Inr (40, [216, 4, 2])"
    "readUvarint [216, 4, 2] = Inr (600, [2])" "readUvarint [2] = Inr (2, [])"
    by (simp_all add: readUvarint_def)
  moreover have "zigzagDecode 14 = 7" "zigzagDecode 600 = 300" by (simp_all add: zigzagDecode_def)
  moreover have "walk_bins 2 = walk_bins (Suc (Suc 0))" by (simp add: numeral_2_eq_2)
  ultimately show ?thesis
    by (simp add: UnmarshalSketch_walk walkSketch_def sample_row_def FormatVersion_def MaxUint64_def)
qed

theorem query_sketch_merge_witness:
  "map_option sk_count (snd (TakeSketch (merge_rows [sample_row, sample_row]))) = Some 84"
proof -
  have "list_all2 (\<lambda>row t. UnmarshalSketch row = Inr t) [sample_row, sample_row]
      [\<lparr>sk_bins = [(7, 40), (300, 2)], sk_count = 42\<rparr>, \<lparr>sk_bins = [(7, 40), (300, 2)], sk_count = 42\<rparr>]"
    by (simp add: sample_row_decodes)
  from query_sketch_merge [OF this, THEN conjunct2] show ?thesis
    by (cases "snd (TakeSketch (merge_rows [sample_row, sample_row]))") (auto simp: MaxUint64_def)
qed

theorem P95_nearest_rank_witness:
  "\<exists>s. sketch_AddAll (\<lambda>x. x) [7, 900, 12] NewSketch = Inr s \<and> sk_count s = 3
     \<and> P95 (\<lambda>g k. k) (Some s) = sketchRepresentativeValue (\<lambda>g k. k)
        (sort (map (bucket_key (\<lambda>x. x)) [7, 900, 12]) ! 2)"
proof -
  let ?samples = "[7, 900, 12 :: int]"
  have samples: "?samples \<noteq> []" "\<forall>v \<in> set ?samples. 0 < v" "95 * length ?samples + 99 \<le> MaxUint64"
    by (simp_all add: MaxUint64_def)
  have rank: "length ?samples = 3" "(95 * 3 + 99) div 100 - 1 = (2 :: nat)" by simp_all
  from P95_nearest_rank [OF samples] show ?thesis unfolding rank .
qed

end
