(* ===== verification/Latency_Heap.thy ===== *)
theory Latency_Heap
  imports Latency_Codec "HOL-Library.AList" "HOL-Library.Product_Lexorder" "HOL-Library.Multiset"
begin

text \<open>
  The points of the latency samples, their order, and the binary heap with the worst point on
  top that \<open>src/internal/latency/sample.go\<close> keeps in a slice. The slice is a list; its elements
  are swapped in place.
\<close>

record samplePoint =
  sp_EventID :: int
  sp_Priority :: u64
  sp_TTFTMS :: int
  sp_LatencyMS :: int

definition samplePointLess :: "samplePoint \<Rightarrow> samplePoint \<Rightarrow> bool" where
  "samplePointLess left right =
     (if sp_Priority left \<noteq> sp_Priority right then sp_Priority left < sp_Priority right
      else sp_EventID left < sp_EventID right)"

definition swap_points :: "samplePoint list \<Rightarrow> nat \<Rightarrow> nat \<Rightarrow> samplePoint list" where
  "swap_points heap i j = heap[i := heap ! j, j := heap ! i]"

function siftDownWorst :: "samplePoint list \<Rightarrow> nat \<Rightarrow> samplePoint list" where
  "siftDownWorst heap parent =
     (let child = parent * 2 + 1
      in if length heap \<le> child then heap
         else let right = child + 1;
                  child = (if right < length heap \<and> samplePointLess (heap ! child) (heap ! right) then right else child)
              in if \<not> samplePointLess (heap ! parent) (heap ! child) then heap
                 else siftDownWorst (swap_points heap parent child) child)"
  by auto
termination
  by (relation "measure (\<lambda>(heap, parent). length heap - parent)") (auto simp: swap_points_def split: if_splits)

declare siftDownWorst.simps [simp del]

text \<open>The loop that makes a heap of a slice, and the one that moves a new last element up.\<close>

fun heapify :: "nat \<Rightarrow> samplePoint list \<Rightarrow> samplePoint list" where
  "heapify 0 heap = heap"
| "heapify (Suc index) heap = heapify index (siftDownWorst heap index)"

function siftUpWorst :: "samplePoint list \<Rightarrow> nat \<Rightarrow> samplePoint list" where
  "siftUpWorst heap child =
     (if child = 0 then heap
      else let parent = (child - 1) div 2
           in if \<not> samplePointLess (heap ! parent) (heap ! child) then heap
              else siftUpWorst (swap_points heap parent child) parent)"
  by auto
termination by (relation "measure snd") auto

declare siftUpWorst.simps [simp del]


section \<open>The order of the points\<close>

definition sample_key :: "samplePoint \<Rightarrow> u64 \<times> int" where
  "sample_key p = (sp_Priority p, sp_EventID p)"

lemma samplePointLess_key: "samplePointLess p q \<longleftrightarrow> sample_key p < sample_key q"
  by (auto simp: samplePointLess_def sample_key_def less_prod_def)

lemma swap_length [simp]: "length (swap_points heap i j) = length heap"
  by (simp add: swap_points_def)

lemma swap_nth:
  "i < length heap \<Longrightarrow> j < length heap \<Longrightarrow>
    swap_points heap i j ! k = (if k = j then heap ! i else if k = i then heap ! j else heap ! k)"
  by (cases "k < length heap") (auto simp: swap_points_def nth_list_update)

lemma swap_mset: "i < length heap \<Longrightarrow> j < length heap \<Longrightarrow> mset (swap_points heap i j) = mset heap"
  unfolding swap_points_def by (rule mset_swap)


section \<open>Heaps\<close>

text \<open>
  No element is better placed than its parent, for parents from \<open>lo\<close> on. With a hole at \<open>p\<close>
  the children of \<open>p\<close> need only be bounded by the parent of \<open>p\<close>.
\<close>

definition above :: "samplePoint list \<Rightarrow> nat \<Rightarrow> nat \<Rightarrow> bool" where
  "above heap i c \<longleftrightarrow> sample_key (heap ! c) \<le> sample_key (heap ! i)"

definition heap_from :: "nat \<Rightarrow> samplePoint list \<Rightarrow> bool" where
  "heap_from lo heap \<longleftrightarrow> (\<forall>c < length heap. 0 < c \<longrightarrow> lo \<le> (c - 1) div 2 \<longrightarrow> above heap ((c - 1) div 2) c)"

definition hole_at :: "nat \<Rightarrow> nat \<Rightarrow> samplePoint list \<Rightarrow> bool" where
  "hole_at lo p heap \<longleftrightarrow>
     (\<forall>c < length heap. 0 < c \<longrightarrow> lo \<le> (c - 1) div 2 \<longrightarrow> (c - 1) div 2 \<noteq> p \<longrightarrow> above heap ((c - 1) div 2) c)
   \<and> (\<forall>c < length heap. 0 < c \<longrightarrow> (c - 1) div 2 = p \<longrightarrow> 0 < p \<longrightarrow> lo \<le> (p - 1) div 2 \<longrightarrow> above heap ((p - 1) div 2) c)"

lemma child_cases: "0 < (c :: nat) \<Longrightarrow> (c - 1) div 2 = p \<longleftrightarrow> c = p * 2 + 1 \<or> c = p * 2 + 2"
  by presburger

text \<open>The larger child, as the code picks it.\<close>

definition worse_child :: "samplePoint list \<Rightarrow> nat \<Rightarrow> nat" where
  "worse_child heap p =
     (let child = p * 2 + 1
      in if child + 1 < length heap \<and> samplePointLess (heap ! child) (heap ! (child + 1)) then child + 1 else child)"

lemma siftDownWorst_step:
  "siftDownWorst heap p =
     (if length heap \<le> p * 2 + 1 \<or> \<not> samplePointLess (heap ! p) (heap ! worse_child heap p) then heap
      else siftDownWorst (swap_points heap p (worse_child heap p)) (worse_child heap p))"
  by (subst siftDownWorst.simps) (simp add: worse_child_def Let_def)

lemma worse_child:
  assumes "p * 2 + 1 < length heap"
  shows "worse_child heap p < length heap" and "p < worse_child heap p" and "(worse_child heap p - 1) div 2 = p"
    and "c < length heap \<Longrightarrow> 0 < c \<Longrightarrow> (c - 1) div 2 = p \<Longrightarrow> above heap (worse_child heap p) c"
proof -
  show "worse_child heap p < length heap" "p < worse_child heap p" "(worse_child heap p - 1) div 2 = p"
    using assms by (auto simp: worse_child_def Let_def)
  assume c: "c < length heap" "0 < c" "(c - 1) div 2 = p"
  then have "c = p * 2 + 1 \<or> c = p * 2 + 2" using child_cases by blast
  with c(1) show "above heap (worse_child heap p) c"
    by (auto simp: worse_child_def Let_def above_def samplePointLess_key not_less intro: less_imp_le)
qed

lemma hole_closed:
  assumes "hole_at lo p heap"
    and "\<And>c. c < length heap \<Longrightarrow> 0 < c \<Longrightarrow> (c - 1) div 2 = p \<Longrightarrow> above heap p c"
  shows "heap_from lo heap"
  unfolding heap_from_def
proof (intro allI impI)
  fix c assume "c < length heap" "0 < c" "lo \<le> (c - 1) div 2"
  with assms show "above heap ((c - 1) div 2) c"
    by (cases "(c - 1) div 2 = p") (auto simp: hole_at_def)
qed

lemma hole_down:
  assumes hole: "hole_at lo p heap" and lo: "lo \<le> p" and has: "p * 2 + 1 < length heap"
    and less: "samplePointLess (heap ! p) (heap ! worse_child heap p)"
  shows "hole_at lo (worse_child heap p) (swap_points heap p (worse_child heap p))"
proof -
  let ?k = "worse_child heap p" and ?h = "swap_points heap p (worse_child heap p)"
  note k = worse_child [OF has]
  have p: "p < length heap" using has by simp
  note nth = swap_nth [OF p k(1)]
  have edge: "above ?h ((c - 1) div 2) c"
    if c: "c < length heap" "0 < c" "lo \<le> (c - 1) div 2" "(c - 1) div 2 \<noteq> ?k" for c
  proof (cases "(c - 1) div 2 = p")
    case True
    then have "above heap ?k c" using k(4) c by simp
    then show ?thesis using True less k(2) c(2) by (auto simp: above_def nth samplePointLess_key intro: less_imp_le)
  next
    case False
    then have other: "c \<noteq> ?k" using k(3) by auto
    show ?thesis
    proof (cases "c = p")
      case True
      have "above heap ((p - 1) div 2) ?k" using hole k(1-3) c True by (auto simp: hole_at_def)
      then show ?thesis using True c(4) k(2) False by (auto simp: above_def nth)
    next
      case c_p: False
      have "above heap ((c - 1) div 2) c" using hole c False by (auto simp: hole_at_def)
      then show ?thesis using False other c_p c(4) by (auto simp: above_def nth)
    qed
  qed
  have child: "above ?h ((?k - 1) div 2) c" if c: "c < length heap" "0 < c" "(c - 1) div 2 = ?k" for c
  proof -
    have "above heap ?k c" using hole c k(2) lo by (auto simp: hole_at_def)
    moreover have "c \<noteq> p" "c \<noteq> ?k" using c(3) k(2) by (auto simp: child_cases [OF c(2)])
    ultimately show ?thesis using k(2,3) by (auto simp: above_def nth)
  qed
  from edge child show ?thesis by (auto simp: hole_at_def)
qed

lemma siftDownWorst_heap:
  assumes "hole_at lo p heap" and "lo \<le> p" and "p < length heap"
  shows "heap_from lo (siftDownWorst heap p) \<and> mset (siftDownWorst heap p) = mset heap"
  using assms
proof (induction "length heap - p" arbitrary: heap p rule: less_induct)
  case less
  show ?case
  proof (cases "p * 2 + 1 < length heap")
    case False
    then have "heap_from lo heap"
      by (intro hole_closed [OF less.prems(1)]) (auto simp: child_cases)
    with False show ?thesis by (simp add: siftDownWorst_step [of heap])
  next
    case has: True
    note k = worse_child [OF has]
    show ?thesis
    proof (cases "samplePointLess (heap ! p) (heap ! worse_child heap p)")
      case False
      then have "heap_from lo heap"
        using k(4) by (intro hole_closed [OF less.prems(1)]) (force simp: above_def samplePointLess_key not_less)
      with False show ?thesis by (simp add: siftDownWorst_step [of heap])
    next
      case True
      let ?h = "swap_points heap p (worse_child heap p)"
      have "heap_from lo (siftDownWorst ?h (worse_child heap p)) \<and> mset (siftDownWorst ?h (worse_child heap p)) = mset ?h"
      proof (rule less.hyps)
        show "length ?h - worse_child heap p < length heap - p" using k(1,2) by simp
        show "hole_at lo (worse_child heap p) ?h" by (rule hole_down [OF less.prems(1,2) has True])
      qed (use k(1,2) less.prems(2) in simp_all)
      then show ?thesis using True has k(1) less.prems(3) by (simp add: siftDownWorst_step [of heap] swap_mset)
    qed
  qed
qed

lemma heapify_heap:
  assumes "heap_from n heap" and "n \<le> length heap"
  shows "heap_from 0 (heapify n heap) \<and> mset (heapify n heap) = mset heap"
  using assms
proof (induction n arbitrary: heap)
  case (Suc n)
  have "hole_at n n heap"
    using Suc.prems(1) by (auto simp: hole_at_def heap_from_def)
  from siftDownWorst_heap [OF this] Suc.prems(2)
  have s: "heap_from n (siftDownWorst heap n)" "mset (siftDownWorst heap n) = mset heap" by auto
  then have "length (siftDownWorst heap n) = length heap" by (metis size_mset)
  with Suc.IH [OF s(1)] s(2) Suc.prems(2) show ?case by simp
qed simp

lemma heapify_all: "heap_from 0 (heapify (length heap div 2) heap) \<and> mset (heapify (length heap div 2) heap) = mset heap"
  by (rule heapify_heap) (auto simp: heap_from_def)

lemma heap_top:
  assumes "heap_from 0 heap" and "i < length heap"
  shows "sample_key (heap ! i) \<le> sample_key (heap ! 0)"
  using assms(2)
proof (induction i rule: less_induct)
  case (less i)
  show ?case
  proof (cases "i = 0")
    case False
    then have "sample_key (heap ! i) \<le> sample_key (heap ! ((i - 1) div 2))"
      using assms(1) less.prems by (auto simp: heap_from_def above_def)
    also have "\<dots> \<le> sample_key (heap ! 0)" using False less.prems by (intro less.IH) auto
    finally show ?thesis .
  qed simp
qed

text \<open>The root replaced by another element: a hole at the root.\<close>

lemma replace_root:
  assumes "heap_from 0 heap" and "heap \<noteq> []"
  shows "heap_from 0 (siftDownWorst (heap[0 := p]) 0)
    \<and> mset (siftDownWorst (heap[0 := p]) 0) = add_mset p (mset heap - {#heap ! 0#})"
proof -
  have "hole_at 0 0 (heap[0 := p])"
    using assms(1) by (auto simp: hole_at_def heap_from_def above_def nth_list_update)
  from siftDownWorst_heap [OF this] assms(2) show ?thesis by (simp add: mset_update)
qed

text \<open>A new last element: only its edge to its parent may be wrong.\<close>

definition loose_at :: "nat \<Rightarrow> samplePoint list \<Rightarrow> bool" where
  "loose_at p heap \<longleftrightarrow>
     (\<forall>c < length heap. 0 < c \<longrightarrow> c \<noteq> p \<longrightarrow> above heap ((c - 1) div 2) c)
   \<and> (\<forall>c < length heap. 0 < c \<longrightarrow> (c - 1) div 2 = p \<longrightarrow> 0 < p \<longrightarrow> above heap ((p - 1) div 2) c)"

lemma siftUpWorst_heap:
  assumes "loose_at p heap" and "p < length heap"
  shows "heap_from 0 (siftUpWorst heap p) \<and> mset (siftUpWorst heap p) = mset heap"
  using assms
proof (induction p arbitrary: heap rule: less_induct)
  case (less p)
  let ?q = "(p - 1) div 2"
  show ?case
  proof (cases "p = 0 \<or> \<not> samplePointLess (heap ! ?q) (heap ! p)")
    case True
    have "above heap ((c - 1) div 2) c" if "c < length heap" "0 < c" for c
    proof (cases "c = p")
      case c: True
      with True that(2) show ?thesis by (simp add: above_def samplePointLess_key not_less)
    qed (use less.prems(1) that in \<open>simp add: loose_at_def\<close>)
    then have "heap_from 0 heap" by (simp add: heap_from_def)
    moreover have "siftUpWorst heap p = heap" using True by (subst siftUpWorst.simps) (auto simp: Let_def)
    ultimately show ?thesis by simp
  next
    case False
    then have pos: "0 < p" and worse: "sample_key (heap ! ?q) < sample_key (heap ! p)" by (auto simp: samplePointLess_key)
    have q: "?q < p" "?q < length heap" using pos less.prems(2) by auto
    let ?h = "swap_points heap ?q p"
    note nth = swap_nth [OF q(2) less.prems(2)]
    have edge: "above ?h ((c - 1) div 2) c" if c: "c < length heap" "0 < c" "c \<noteq> ?q" for c
    proof (cases "c = p")
      case True
      then show ?thesis unfolding above_def nth using worse q(1) by simp
    next
      case False
      have old: "above heap ((c - 1) div 2) c" using less.prems(1) c False by (auto simp: loose_at_def)
      consider "(c - 1) div 2 = p" | "(c - 1) div 2 = ?q" | "(c - 1) div 2 \<noteq> p" "(c - 1) div 2 \<noteq> ?q" by blast
      then show ?thesis
      proof cases
        case 1
        then have "above heap ?q c" using less.prems(1) c pos by (auto simp: loose_at_def)
        with False c(3) show ?thesis unfolding 1 above_def nth by simp
      next
        case 2
        from old 2 worse False c(3) q(1) show ?thesis unfolding 2 above_def nth by auto
      next
        case 3
        from old 3 False c(3) show ?thesis unfolding above_def nth by simp
      qed
    qed
    have child: "above ?h ((?q - 1) div 2) c" if c: "c < length heap" "0 < c" "(c - 1) div 2 = ?q" "0 < ?q" for c
    proof -
      have up: "above heap ((?q - 1) div 2) ?q" using less.prems(1) q c(4) by (auto simp: loose_at_def)
      have "(?q - 1) div 2 < ?q" using c(4) by simp
      moreover have "?q < c" unfolding c(3) [symmetric] using c(2) by simp
      ultimately have "(?q - 1) div 2 \<noteq> ?q" "(?q - 1) div 2 \<noteq> p" "c \<noteq> ?q" using q(1) by linarith+
      moreover have "above heap ?q c" if "c \<noteq> p" using less.prems(1) c that by (auto simp: loose_at_def)
      ultimately show ?thesis using up unfolding above_def nth by (cases "c = p") auto
    qed
    have "loose_at ?q ?h" using edge child by (auto simp: loose_at_def)
    from less.IH [OF q(1) this] q(2) have "heap_from 0 (siftUpWorst ?h ?q) \<and> mset (siftUpWorst ?h ?q) = mset ?h" by simp
    moreover have "siftUpWorst heap p = siftUpWorst ?h ?q"
      using False by (subst siftUpWorst.simps) (auto simp: Let_def)
    ultimately show ?thesis using swap_mset [OF q(2) less.prems(2)] by simp
  qed
qed

lemma push_heap:
  assumes "heap_from 0 heap"
  shows "heap_from 0 (siftUpWorst (heap @ [p]) (length heap)) \<and> mset (siftUpWorst (heap @ [p]) (length heap)) = add_mset p (mset heap)"
proof -
  have "loose_at (length heap) (heap @ [p])"
    using assms by (auto simp: loose_at_def heap_from_def above_def nth_append)
  from siftUpWorst_heap [OF this] show ?thesis by simp
qed

end
