(* ===== verification/Latency_Best.thy ===== *)
theory Latency_Best
  imports Latency_Heap
begin

text \<open>
  The specification of the bounded sample: the points with the smallest keys. \<open>kept n K P\<close> says
  that \<open>K\<close> are the \<open>n\<close> best points of \<open>P\<close>, or all of them if there are not more. The locale
  states what the sampling loops need of the structure that holds the kept points, and the
  binary heap of \<open>Latency_Heap\<close> provides it.
\<close>

definition kept :: "nat \<Rightarrow> samplePoint set \<Rightarrow> samplePoint set \<Rightarrow> bool" where
  "kept n K P \<longleftrightarrow> finite P \<and> K \<subseteq> P \<and> card K = min n (card P)
     \<and> (\<forall>x \<in> K. \<forall>y \<in> P - K. sample_key x < sample_key y)"

lemma keptD:
  assumes "kept n K P"
  shows "finite P" "finite K" "K \<subseteq> P" "card K \<le> n" "card K = min n (card P)"
    "x \<in> K \<Longrightarrow> y \<in> P \<Longrightarrow> y \<notin> K \<Longrightarrow> sample_key x < sample_key y"
  using assms by (auto simp: kept_def intro: finite_subset)

lemma kept_room: "kept n K P \<Longrightarrow> card K < n \<Longrightarrow> K = P"
  using keptD [of n K P] by (simp add: card_subset_eq min_def split: if_splits)

lemma kept_all: "finite P \<Longrightarrow> card P \<le> n \<Longrightarrow> kept n P P"
  by (simp add: kept_def)

lemma kept_unique:
  assumes "kept n K P" and "kept n L P"
  shows "K = L"
proof (rule ccontr)
  assume "K \<noteq> L"
  note k = keptD [OF assms(1)] and l = keptD [OF assms(2)]
  have "card K = card L" using k(5) l(5) by simp
  with \<open>K \<noteq> L\<close> k(2) l(2) have "\<not> K \<subseteq> L" "\<not> L \<subseteq> K" using card_subset_eq by metis+
  then obtain x y where "x \<in> K" "x \<notin> L" "y \<in> L" "y \<notin> K" by blast
  with k(3) l(3) have "sample_key x < sample_key y" "sample_key y < sample_key x"
    using k(6) [of x y] l(6) [of y x] by blast+
  then show False by simp
qed

lemma kept_push:
  assumes "kept n K P" and "card K < n" and "p \<notin> P"
  shows "kept n (insert p K) (insert p P)"
proof -
  have "K = P" by (rule kept_room [OF assms(1,2)])
  moreover have "finite P" by (rule keptD(1) [OF assms(1)])
  ultimately show ?thesis using assms(2,3) by (simp add: kept_def)
qed

lemma kept_skip:
  assumes "kept n K P" and "card K = n" and "\<forall>x \<in> K. sample_key x < sample_key p" and "p \<notin> P"
  shows "kept n K (insert p P)"
  using assms keptD [OF assms(1)] by (auto simp: kept_def min_def split: if_splits)

lemma kept_replace:
  assumes k: "kept n K P" and full: "card K = n" and t: "t \<in> K" and worst: "\<forall>x \<in> K. sample_key x \<le> sample_key t"
    and p: "p \<notin> P" "sample_key p < sample_key t" and inj: "inj_on sample_key P"
  shows "kept n (insert p (K - {t})) (insert p P)"
proof -
  note facts = keptD [OF k]
  have "card (insert p (K - {t})) = n"
    using facts(2,3) t p(1) full card_Suc_Diff1 [OF facts(2) t] by (subst card_insert_disjoint) auto
  moreover have "n \<le> card (insert p P)" using facts(1,5) full p(1) by simp
  moreover have "sample_key x < sample_key y"
    if x: "x \<in> insert p (K - {t})" and y: "y \<in> insert p P" "y \<notin> insert p (K - {t})" for x y
  proof -
    have "y \<in> P" "y = t \<or> y \<notin> K" using y by auto
    have x_t: "sample_key x < sample_key t"
    proof (cases "x = p")
      case False
      with x have "x \<in> K" "x \<noteq> t" by auto
      with worst inj facts(3) t show ?thesis by (auto simp: less_le inj_on_def)
    qed (use p(2) in simp)
    show ?thesis
    proof (cases "y = t")
      case False
      then have "sample_key t < sample_key y" using facts(6) [OF t \<open>y \<in> P\<close>] \<open>y = t \<or> y \<notin> K\<close> by blast
      with x_t show ?thesis by simp
    qed (use x_t in simp)
  qed
  ultimately show ?thesis using facts(1,3) by (auto simp: kept_def min_def)
qed

text \<open>Keeping the best of what was kept and of new points is keeping the best of all.\<close>

lemma kept_union:
  assumes k: "kept n K P" and l: "kept n L (K \<union> R)" and R: "finite R"
  shows "kept n L (P \<union> R)"
proof (cases "card K < n")
  case True
  then show ?thesis using kept_room [OF k] l by simp
next
  case False
  note kf = keptD [OF k] and lf = keptD [OF l]
  have full: "card K = n" using False kf(4) by simp
  have "n \<le> card (K \<union> R)" using card_mono [OF lf(1)] full by blast
  then have L: "card L = n" using lf(5) by simp
  have more: "n \<le> card (P \<union> R)" using card_mono [of "P \<union> R" K] kf(1,3) full R by auto
  have "sample_key x < sample_key y" if x: "x \<in> L" and y: "y \<in> P \<union> R" "y \<notin> L" for x y
  proof (cases "y \<in> K \<union> R")
    case True
    with lf(6) x y(2) show ?thesis by blast
  next
    case False
    with y have yp: "y \<in> P" "y \<notin> K" by auto
    show ?thesis
    proof (cases "x \<in> K")
      case True
      with kf(6) yp show ?thesis by blast
    next
      case False
      then have "\<not> K \<subseteq> L" using card_subset_eq [OF lf(2), of K] full L x by auto
      then obtain z where "z \<in> K" "z \<notin> L" by blast
      then have "sample_key x < sample_key z" "sample_key z < sample_key y" using lf(6) [OF x] kf(6) yp by auto
      then show ?thesis by simp
    qed
  qed
  then show ?thesis using kf(1,3) lf(3) L more R by (auto simp: kept_def min_def)
qed


section \<open>What holds the kept points\<close>

locale bounded_best =
  fixes inv :: "'h \<Rightarrow> bool" and items :: "'h \<Rightarrow> samplePoint set" and worst :: "'h \<Rightarrow> samplePoint"
    and push :: "'h \<Rightarrow> samplePoint \<Rightarrow> 'h" and replace :: "'h \<Rightarrow> samplePoint \<Rightarrow> 'h"
  assumes worst_in: "inv h \<Longrightarrow> items h \<noteq> {} \<Longrightarrow> worst h \<in> items h"
    and worst_bound: "inv h \<Longrightarrow> p \<in> items h \<Longrightarrow> sample_key p \<le> sample_key (worst h)"
    and push_inv: "inv h \<Longrightarrow> p \<notin> items h \<Longrightarrow> inv (push h p)"
    and push_items: "inv h \<Longrightarrow> p \<notin> items h \<Longrightarrow> items (push h p) = insert p (items h)"
    and replace_inv: "inv h \<Longrightarrow> items h \<noteq> {} \<Longrightarrow> p \<notin> items h \<Longrightarrow> inv (replace h p)"
    and replace_items: "inv h \<Longrightarrow> items h \<noteq> {} \<Longrightarrow> p \<notin> items h \<Longrightarrow> items (replace h p) = insert p (items h - {worst h})"
begin

text \<open>Offering a new point: there is room, or it beats the worst, or it is dropped.\<close>

lemma offer_push:
  assumes "inv h" and "kept n (items h) P" and "card (items h) < n" and "p \<notin> P"
  shows "inv (push h p) \<and> kept n (items (push h p)) (insert p P)"
proof -
  have new: "p \<notin> items h" using assms(4) keptD(3) [OF assms(2)] by blast
  then show ?thesis using push_inv push_items kept_push assms by simp
qed

lemma offer_replace:
  assumes "inv h" and "kept n (items h) P" and "card (items h) = n" and "0 < n" and "p \<notin> P"
    and "sample_key p < sample_key (worst h)" and "inj_on sample_key P"
  shows "inv (replace h p) \<and> kept n (items (replace h p)) (insert p P)"
proof -
  have new: "p \<notin> items h" using assms(5) keptD(3) [OF assms(2)] by blast
  have some: "items h \<noteq> {}" using assms(3,4) by auto
  have "kept n (insert p (items h - {worst h})) (insert p P)"
    using worst_in [OF assms(1) some] worst_bound [OF assms(1)] assms by (intro kept_replace) auto
  then show ?thesis using replace_inv replace_items some new assms(1) by simp
qed

lemma offer_skip:
  assumes "inv h" and "kept n (items h) P" and "card (items h) = n" and "p \<notin> P"
    and "sample_key (worst h) < sample_key p"
  shows "kept n (items h) (insert p P)"
  using assms worst_bound by (intro kept_skip) (auto intro: le_less_trans)

end

text \<open>The heap of the sources: a list with the worst point first.\<close>

definition heap_inv :: "samplePoint list \<Rightarrow> bool" where
  "heap_inv heap \<longleftrightarrow> heap_from 0 heap \<and> distinct heap"

lemma mset_distinct_set: "mset xs = mset ys \<Longrightarrow> distinct ys \<Longrightarrow> distinct xs \<and> set xs = set ys"
  by (metis mset_eq_imp_distinct_iff set_mset_mset)

lemma push_heap_inv:
  assumes "heap_inv heap" and "p \<notin> set heap"
  shows "heap_inv (siftUpWorst (heap @ [p]) (length heap)) \<and> set (siftUpWorst (heap @ [p]) (length heap)) = insert p (set heap)"
  using push_heap [of heap p] assms mset_distinct_set [of "siftUpWorst (heap @ [p]) (length heap)" "p # heap"]
  by (simp add: heap_inv_def)

lemma replace_heap_inv:
  assumes "heap_inv heap" and "heap \<noteq> []" and "p \<notin> set heap"
  shows "heap_inv (siftDownWorst (heap[0 := p]) 0) \<and> set (siftDownWorst (heap[0 := p]) 0) = insert p (set heap - {heap ! 0})"
proof -
  obtain t rest where h: "heap = t # rest" using assms(2) by (cases heap) auto
  have "heap_from 0 (siftDownWorst (heap[0 := p]) 0)" "mset (siftDownWorst (heap[0 := p]) 0) = mset (p # rest)"
    using replace_root [of heap p] assms(1,2) by (simp_all add: heap_inv_def h)
  with mset_distinct_set [OF this(2)] assms(1,3) show ?thesis by (auto simp: heap_inv_def h)
qed

interpretation worst_heap: bounded_best heap_inv set "\<lambda>heap. heap ! 0"
  "\<lambda>heap p. siftUpWorst (heap @ [p]) (length heap)" "\<lambda>heap p. siftDownWorst (heap[0 := p]) 0"
proof unfold_locales
  fix heap :: "samplePoint list" and p
  assume inv: "heap_inv heap"
  show "sample_key p \<le> sample_key (heap ! 0)" if "p \<in> set heap"
    using heap_top inv that by (auto simp: heap_inv_def in_set_conv_nth)
qed (use push_heap_inv replace_heap_inv in auto)

end
