(* ===== verification/Latency_Sample.thy ===== *)
theory Latency_Sample
  imports Latency_Best
begin

text \<open>
  The bounded sample of latency points: \<open>src/internal/latency/sample.go\<close>. A \<open>SampleSet\<close> is the
  association list of its map, in the order in which Go walks it; a nil receiver is \<open>None\<close>.
  The callers drop a set whose \<open>Add\<close> or \<open>Merge\<close> fails, so a failure gives the error only.
\<close>

type_synonym sampleSet = "(int \<times> samplePoint) list"

definition MaxSamplePoints :: nat where "MaxSamplePoints = 1000"
definition MaxEncodedSamplePoints :: nat where "MaxEncodedSamplePoints = 2500"
definition sampleFormatVersion :: byte where "sampleFormatVersion = 1"

definition NewSampleSet :: sampleSet where "NewSampleSet = []"


section \<open>The set\<close>

definition addPoint :: "samplePoint \<Rightarrow> sampleSet \<Rightarrow> codecError + sampleSet" where
  "addPoint p points =
     (case map_of points (sp_EventID p) of
        Some existing \<Rightarrow> if existing \<noteq> p then Inl (ConflictingSample (sp_EventID p)) else Inr points
      | None \<Rightarrow> Inr (AList.update (sp_EventID p) p points))"

text \<open>
  The loop of \<open>trim\<close> over the points beyond the heap: the worse of the point and the top of the
  heap is deleted from the map.
\<close>

fun trim_rest :: "sampleSet \<Rightarrow> samplePoint list \<Rightarrow> samplePoint list \<Rightarrow> sampleSet \<times> samplePoint list" where
  "trim_rest points heap [] = (points, heap)"
| "trim_rest points heap (p # rest) =
     (if samplePointLess p (heap ! 0)
      then trim_rest (AList.delete (sp_EventID (heap ! 0)) points) (siftDownWorst (heap[0 := p]) 0) rest
      else trim_rest (AList.delete (sp_EventID p) points) heap rest)"

definition sample_trim :: "sampleSet \<Rightarrow> sampleSet \<times> samplePoint option" where
  "sample_trim points =
     (if length points \<le> MaxSamplePoints then (points, None)
      else let all_points = map snd points;
               heap = take MaxSamplePoints all_points;
               heap = heapify (length heap div 2) heap;
               (points', heap') = trim_rest points heap (drop MaxSamplePoints all_points)
           in (points', Some (heap' ! 0)))"

definition sample_Add :: "int \<Rightarrow> int \<Rightarrow> int \<Rightarrow> sampleSet option \<Rightarrow> codecError + sampleSet" where
  "sample_Add eventID ttftMS latencyMS samples =
     (case samples of
        None \<Rightarrow> Inl NilReceiver
      | Some points \<Rightarrow>
          if eventID \<le> 0 \<or> ttftMS \<le> 0 \<or> latencyMS \<le> 0 then Inl NotPositive
          else andThen
            (addPoint \<lparr>sp_EventID = eventID, sp_Priority = splitMix64 (word_of_int eventID),
                       sp_TTFTMS = ttftMS, sp_LatencyMS = latencyMS\<rparr> points)
            (\<lambda>points. Inr (fst (sample_trim points))))"

fun add_points :: "samplePoint list \<Rightarrow> sampleSet \<Rightarrow> codecError + sampleSet" where
  "add_points [] points = Inr points"
| "add_points (p # ps) points = andThen (addPoint p points) (add_points ps)"

definition sample_Merge :: "sampleSet option \<Rightarrow> sampleSet option \<Rightarrow> codecError + sampleSet" where
  "sample_Merge samples other =
     (case (samples, other) of
        (Some points, Some others) \<Rightarrow>
          andThen (add_points (map snd others) points) (\<lambda>points. Inr (fst (sample_trim points)))
      | _ \<Rightarrow> Inl NilReceiver)"

definition sample_Clone :: "sampleSet option \<Rightarrow> sampleSet" where
  "sample_Clone samples = (case samples of None \<Rightarrow> NewSampleSet | Some points \<Rightarrow> points)"

definition sample_Count :: "sampleSet option \<Rightarrow> nat" where
  "sample_Count samples = (case samples of None \<Rightarrow> 0 | Some points \<Rightarrow> length points)"

definition sample_Points :: "sampleSet option \<Rightarrow> samplePoint list" where
  "sample_Points samples = (case samples of None \<Rightarrow> [] | Some points \<Rightarrow> sort_key sample_key (map snd points))"


section \<open>Encoding\<close>

definition encode_point :: "samplePoint \<Rightarrow> byte list" where
  "encode_point p =
     uvarint (word_of_int (sp_EventID p)) @ uvarint (sp_Priority p)
   @ uvarint (word_of_int (sp_TTFTMS p)) @ uvarint (word_of_int (sp_LatencyMS p))"

definition sample_MarshalBinary :: "sampleSet option \<Rightarrow> codecError + byte list" where
  "sample_MarshalBinary samples =
     (case samples of
        None \<Rightarrow> Inl NilReceiver
      | Some _ \<Rightarrow>
          let points = sample_Points samples
          in if MaxSamplePoints < length points then Inl TooManyPoints
             else Inr (sampleFormatVersion # uvarint (of_nat (length points)) @ concat (map encode_point points)))"

definition read_point :: "byte list \<Rightarrow> codecError + samplePoint \<times> byte list" where
  "read_point encoded =
     andThen (readPositiveInt64 encoded) (\<lambda>(eventID, rest).
     andThen (readUvarint rest) (\<lambda>(priority, rest).
     andThen (readPositiveInt64 rest) (\<lambda>(ttftMS, rest).
     andThen (readPositiveInt64 rest) (\<lambda>(latencyMS, rest).
       Inr (\<lparr>sp_EventID = eventID, sp_Priority = priority, sp_TTFTMS = ttftMS, sp_LatencyMS = latencyMS\<rparr>, rest)))))"

text \<open>
  The loop of \<open>walkSampleSet\<close>, with \<open>n\<close> points left and the previous point if there is one:
  the points visited before the end or the error, and the error.
\<close>

fun walk_points :: "nat \<Rightarrow> samplePoint option \<Rightarrow> byte list \<Rightarrow> samplePoint list \<times> codecError option" where
  "walk_points 0 previous encoded = ([], if encoded = [] then None else Some TrailingBytes)"
| "walk_points (Suc n) previous encoded =
     (case read_point encoded of
        Inl e \<Rightarrow> ([], Some e)
      | Inr (p, rest) \<Rightarrow>
          if sp_Priority p \<noteq> splitMix64 (word_of_int (sp_EventID p)) then ([], Some PriorityMismatch)
          else if (case previous of None \<Rightarrow> False | Some q \<Rightarrow> \<not> samplePointLess q p) then ([], Some PointsNotOrdered)
          else let (visited, e) = walk_points n (Some p) rest in (p # visited, e))"

definition walkSampleSet :: "byte list \<Rightarrow> samplePoint list \<times> (codecError + nat)" where
  "walkSampleSet encoded =
     (case encoded of
        [] \<Rightarrow> ([], Inl EmptyData)
      | version # rest \<Rightarrow>
          if version \<noteq> sampleFormatVersion then ([], Inl BadVersion)
          else case readUvarint rest of
            Inl e \<Rightarrow> ([], Inl e)
          | Inr (n, rest) \<Rightarrow>
              if MaxEncodedSamplePoints < unat n then ([], Inl TooManyPoints)
              else let (visited, e) = walk_points (unat n) None rest
                   in (visited, case e of None \<Rightarrow> Inr (unat n) | Some e \<Rightarrow> Inl e))"

definition UnmarshalSampleSet :: "byte list \<Rightarrow> codecError + sampleSet" where
  "UnmarshalSampleSet encoded =
     (let (visited, r) = walkSampleSet encoded
      in andThen r (\<lambda>_. Inr (foldl (\<lambda>points p. AList.update (sp_EventID p) p points) NewSampleSet visited)))"


section \<open>The query merger\<close>

record querySampleMerger =
  qm_samples :: "sampleSet option"
  qm_heap :: "samplePoint list"

definition NewQuerySampleMerger :: querySampleMerger where
  "NewQuerySampleMerger = \<lparr>qm_samples = Some NewSampleSet, qm_heap = []\<rparr>"

text \<open>The visitor: the candidates of the row so far and the first conflicting event, 0 if none.\<close>

definition visit_point ::
    "sampleSet \<Rightarrow> samplePoint list \<Rightarrow> samplePoint list \<times> int \<Rightarrow> samplePoint \<Rightarrow> samplePoint list \<times> int" where
  "visit_point points heap state p =
     (let (candidates, conflictEvent) = state
      in if length heap = MaxSamplePoints \<and> samplePointLess (heap ! 0) p then state
         else case map_of points (sp_EventID p) of
           Some previous \<Rightarrow>
             (candidates, if previous \<noteq> p \<and> conflictEvent = 0 then sp_EventID p else conflictEvent)
         | None \<Rightarrow>
             if length heap < MaxSamplePoints \<or> samplePointLess p (heap ! 0) then (candidates @ [p], conflictEvent)
             else state)"

definition take_candidate :: "sampleSet \<times> samplePoint list \<Rightarrow> samplePoint \<Rightarrow> sampleSet \<times> samplePoint list" where
  "take_candidate state p =
     (let (points, heap) = state
      in if length heap < MaxSamplePoints
         then (AList.update (sp_EventID p) p points, siftUpWorst (heap @ [p]) (length heap))
         else if samplePointLess p (heap ! 0)
         then (AList.update (sp_EventID p) p (AList.delete (sp_EventID (heap ! 0)) points), siftDownWorst (heap[0 := p]) 0)
         else state)"

definition sample_MergeBinary :: "byte list \<Rightarrow> querySampleMerger \<Rightarrow> querySampleMerger \<times> (codecError + nat)" where
  "sample_MergeBinary encoded merger =
     (case qm_samples merger of
        None \<Rightarrow> (merger, Inl MergerClosed)
      | Some points \<Rightarrow>
          let (visited, r) = walkSampleSet encoded;
              (candidates, conflictEvent) = foldl (visit_point points (qm_heap merger)) ([], 0) visited
          in case r of
               Inl e \<Rightarrow> (merger, Inl e)
             | Inr n \<Rightarrow>
                 if conflictEvent \<noteq> 0 then (merger, Inl (ConflictingSample conflictEvent))
                 else if candidates = [] then (merger, Inr n)
                 else let (points', heap') = foldl take_candidate (points, qm_heap merger) candidates
                      in (\<lparr>qm_samples = Some points', qm_heap = heap'\<rparr>, Inr n))"

definition TakeSamples :: "querySampleMerger \<Rightarrow> querySampleMerger \<times> sampleSet option" where
  "TakeSamples merger = (\<lparr>qm_samples = None, qm_heap = []\<rparr>, qm_samples merger)"

section \<open>Sets of points\<close>

definition set_ok :: "sampleSet \<Rightarrow> bool" where
  "set_ok points \<longleftrightarrow> distinct (map fst points) \<and> (\<forall>(eventID, p) \<in> set points. sp_EventID p = eventID)"

definition pts :: "sampleSet \<Rightarrow> samplePoint set" where
  "pts points = snd ` set points"

abbreviation consistent :: "samplePoint set \<Rightarrow> bool" where
  "consistent P \<equiv> inj_on sp_EventID P"

lemma consistent_key: "consistent P \<Longrightarrow> inj_on sample_key P"
  by (auto simp: inj_on_def sample_key_def)

lemma finite_pts [simp]: "finite (pts points)"
  by (simp add: pts_def)

lemma lookup_point:
  assumes "set_ok points"
  shows "map_of points eventID = Some p \<longleftrightarrow> p \<in> pts points \<and> sp_EventID p = eventID"
  using assms by (force simp: set_ok_def pts_def)

lemma lookup_none: "set_ok points \<Longrightarrow> map_of points eventID = None \<longleftrightarrow> (\<forall>p \<in> pts points. sp_EventID p \<noteq> eventID)"
  by (force simp: map_of_eq_None_iff set_ok_def pts_def)

lemma set_ok_consistent: "set_ok points \<Longrightarrow> consistent (pts points)"
  by (rule inj_onI) (metis lookup_point option.inject)

lemma points_distinct: "set_ok points \<Longrightarrow> distinct (map snd points)"
  unfolding set_ok_def distinct_map inj_on_def by (fastforce simp: split_beta)

lemma card_pts: "set_ok points \<Longrightarrow> card (pts points) = length points"
  using distinct_card [OF points_distinct] by (simp add: pts_def)

lemma update_point:
  assumes "set_ok points" and "\<forall>q \<in> pts points. sp_EventID q \<noteq> sp_EventID p"
  shows "set_ok (AList.update (sp_EventID p) p points)" and "pts (AList.update (sp_EventID p) p points) = insert p (pts points)"
proof -
  have new: "sp_EventID p \<notin> fst ` set points" using assms by (force simp: set_ok_def pts_def)
  have "AList.update (sp_EventID p) p points = points @ [(sp_EventID p, p)]"
    using new by (induction points) auto
  with assms(1) new show "set_ok (AList.update (sp_EventID p) p points)"
      "pts (AList.update (sp_EventID p) p points) = insert p (pts points)"
    by (auto simp: set_ok_def pts_def)
qed

lemma delete_point:
  assumes "set_ok points" and "p \<in> pts points"
  shows "set_ok (AList.delete (sp_EventID p) points)" and "pts (AList.delete (sp_EventID p) points) = pts points - {p}"
proof -
  show "set_ok (AList.delete (sp_EventID p) points)"
    using assms(1) by (auto simp: set_ok_def AList.delete_eq distinct_map_filter)
  have "q = p" if "q \<in> pts points" "sp_EventID q = sp_EventID p" for q
    using set_ok_consistent [OF assms(1)] assms(2) that by (auto simp: inj_on_def)
  then show "pts (AList.delete (sp_EventID p) points) = pts points - {p}"
    using assms(1) by (force simp: set_ok_def pts_def AList.delete_eq)
qed

lemma add_points_ok:
  assumes "set_ok points" and "consistent (pts points \<union> set ps)"
  shows "\<exists>points'. add_points ps points = Inr points' \<and> set_ok points' \<and> pts points' = pts points \<union> set ps"
  using assms
proof (induction ps arbitrary: points)
  case (Cons p ps)
  show ?case
  proof (cases "p \<in> pts points")
    case True
    then have "map_of points (sp_EventID p) = Some p" using lookup_point [OF Cons.prems(1)] by blast
    then have "addPoint p points = Inr points" by (simp add: addPoint_def)
    with Cons.IH [of points] Cons.prems True show ?thesis by (simp add: insert_absorb)
  next
    case False
    then have new: "\<forall>q \<in> pts points. sp_EventID q \<noteq> sp_EventID p"
      using Cons.prems(2) by (auto simp: inj_on_def)
    then have "map_of points (sp_EventID p) = None" using lookup_none [OF Cons.prems(1)] by blast
    then have "addPoint p points = Inr (AList.update (sp_EventID p) p points)" by (simp add: addPoint_def)
    with Cons.IH [of "AList.update (sp_EventID p) p points"] update_point [OF Cons.prems(1) new] Cons.prems(2)
    show ?thesis by simp
  qed
qed simp


section \<open>Trimming\<close>

lemma trim_rest_kept:
  assumes "set_ok points" and "heap_inv heap" and "length heap = n" and "0 < n" and "kept n (set heap) P"
    and "set rest \<inter> P = {}" and "distinct rest" and "pts points = set heap \<union> set rest"
    and "consistent (P \<union> set rest)" and "trim_rest points heap rest = (points', heap')"
  shows "set_ok points' \<and> pts points' = set heap' \<and> kept n (set heap') (P \<union> set rest)"
  using assms
proof (induction points heap rest arbitrary: P rule: trim_rest.induct)
  case (2 points heap p rest)
  let ?top = "heap ! 0"
  have full: "card (set heap) = n" using 2(4,5) distinct_card by (auto simp: heap_inv_def)
  have sub: "set heap \<subseteq> P" using keptD(3) 2(7) by blast
  have p: "p \<notin> P" "p \<notin> set rest" "p \<notin> set heap" using 2(8,9) sub by auto
  have top: "?top \<in> set heap" using 2(5,6) by (intro nth_mem) simp
  have inj: "inj_on sample_key (insert p P)" using consistent_key [OF 2(11)] by (rule inj_on_subset) auto
  have later: "set rest \<inter> insert p P = {}" "consistent (insert p P \<union> set rest)"
    using 2(8,9) 2(11) by (auto intro: inj_on_subset)
  show ?case
  proof (cases "samplePointLess p ?top")
    case True
    let ?heap = "siftDownWorst (heap[0 := p]) 0"
    have step: "heap_inv ?heap \<and> kept n (set ?heap) (insert p P)"
      using worst_heap.offer_replace [OF 2(4) 2(7) full 2(6) p(1)] True inj
      by (auto simp: samplePointLess_key intro: inj_on_subset)
    have set: "set ?heap = insert p (set heap - {?top})" using replace_heap_inv 2(4,5,6) p(3) by fastforce
    then have "card (set ?heap) = n"
      using full p(3) top card_Suc_Diff1 [of "set heap" ?top] by (subst set, subst card_insert_disjoint) auto
    then have len: "length ?heap = n" using step distinct_card [of ?heap] by (auto simp: heap_inv_def)
    have points: "pts points - {?top} = set ?heap \<union> set rest"
      using 2(10) set sub p top 2(8) by auto
    have mem: "?top \<in> pts points" using 2(10) top by simp
    from 2(1) [OF True delete_point(1) [OF 2(3) mem] _ len 2(6) _ later(1) _ _ later(2)] step points
      delete_point(2) [OF 2(3) mem] 2(9,12) True show ?thesis by simp
  next
    case False
    then have "sample_key ?top < sample_key p"
      using inj sub top p(1) by (auto simp: samplePointLess_key inj_on_def less_le)
    then have step: "kept n (set heap) (insert p P)"
      by (rule worst_heap.offer_skip [OF 2(4) 2(7) full p(1)])
    have mem: "p \<in> pts points" using 2(10) by simp
    have points: "pts points - {p} = set heap \<union> set rest" using 2(10) p by auto
    from 2(2) [OF False delete_point(1) [OF 2(3) mem] 2(4,5,6) step later(1) _ _ later(2)] points
      delete_point(2) [OF 2(3) mem] 2(9,12) False show ?thesis by simp
  qed
qed simp

lemma sample_trim_kept:
  assumes "set_ok points"
  shows "set_ok (fst (sample_trim points)) \<and> kept MaxSamplePoints (pts (fst (sample_trim points))) (pts points)"
proof (cases "length points \<le> MaxSamplePoints")
  case True
  then show ?thesis using assms card_pts [OF assms] by (simp add: sample_trim_def kept_all)
next
  case False
  let ?all = "map snd points"
  let ?first = "take MaxSamplePoints ?all" and ?rest = "drop MaxSamplePoints ?all"
  let ?heap = "heapify (length ?first div 2) ?first"
  have dist: "distinct ?all" by (rule points_distinct [OF assms])
  have heap: "heap_inv ?heap" "set ?heap = set ?first" "length ?heap = MaxSamplePoints"
    using heapify_all [of ?first] mset_distinct_set [of ?heap ?first] dist False mset_eq_length [of ?heap ?first]
    by (auto simp: heap_inv_def)
  have "card (set ?first) = MaxSamplePoints" using dist False by (simp add: distinct_card)
  then have k: "kept MaxSamplePoints (set ?heap) (set ?first)" unfolding heap(2) by (intro kept_all) simp_all
  have all: "set ?first \<union> set ?rest = pts points" by (metis append_take_drop_id pts_def set_append set_map)
  obtain points' heap' where t: "trim_rest points ?heap ?rest = (points', heap')" by fastforce
  have "set_ok points' \<and> pts points' = set heap' \<and> kept MaxSamplePoints (set heap') (set ?first \<union> set ?rest)"
  proof (rule trim_rest_kept [OF assms heap(1,3) _ k _ _ _ _ t])
    show "0 < MaxSamplePoints" by (simp add: MaxSamplePoints_def)
    show "set ?rest \<inter> set ?first = {}" using dist by (metis Int_commute set_take_disj_set_drop_if_distinct order_refl)
    show "distinct ?rest" using dist by simp
    show "pts points = set ?heap \<union> set ?rest" using all heap(2) by simp
    show "consistent (set ?first \<union> set ?rest)" unfolding all by (rule set_ok_consistent [OF assms])
  qed
  then show ?thesis using False t all by (simp add: sample_trim_def Let_def del: heapify.simps)
qed

lemma sample_Merge_kept:
  assumes "set_ok points" and "set_ok others" and "consistent (pts points \<union> pts others)"
  shows "\<exists>merged. sample_Merge (Some points) (Some others) = Inr merged \<and> set_ok merged
    \<and> kept MaxSamplePoints (pts merged) (pts points \<union> pts others)"
proof -
  have "set (map snd others) = pts others" by (simp add: pts_def)
  with add_points_ok [OF assms(1), of "map snd others"] assms(3) obtain all where
    "add_points (map snd others) points = Inr all" "set_ok all" "pts all = pts points \<union> pts others" by auto
  with sample_trim_kept [of all] show ?thesis by (simp add: sample_Merge_def)
qed

section \<open>Stored rows\<close>

definition point_ok :: "samplePoint \<Rightarrow> bool" where
  "point_ok p \<longleftrightarrow> 0 < sp_EventID p \<and> sp_EventID p \<le> MaxInt64 \<and> sp_Priority p = splitMix64 (word_of_int (sp_EventID p))
     \<and> 0 < sp_TTFTMS p \<and> sp_TTFTMS p \<le> MaxInt64 \<and> 0 < sp_LatencyMS p \<and> sp_LatencyMS p \<le> MaxInt64"

definition row_ok :: "samplePoint option \<Rightarrow> samplePoint list \<Rightarrow> bool" where
  "row_ok previous visited \<longleftrightarrow>
     sorted_wrt samplePointLess (case previous of None \<Rightarrow> visited | Some q \<Rightarrow> q # visited) \<and> list_all point_ok visited"

lemma less_trans_point: "samplePointLess p q \<Longrightarrow> samplePointLess q r \<Longrightarrow> samplePointLess p r"
  by (auto simp: samplePointLess_key)

lemma row_ok_Cons:
  "row_ok previous (p # visited) \<longleftrightarrow>
     (case previous of None \<Rightarrow> True | Some q \<Rightarrow> samplePointLess q p) \<and> point_ok p \<and> row_ok (Some p) visited"
  by (auto simp: row_ok_def intro: less_trans_point split: option.splits)

lemma read_positive_range: "readPositiveInt64 encoded = Inr (v, rest) \<Longrightarrow> 0 < v \<and> v \<le> MaxInt64"
proof -
  assume "readPositiveInt64 encoded = Inr (v, rest)"
  then obtain w where "v = uint w" "w \<noteq> (0 :: u64)" "uint w \<le> MaxInt64"
    by (auto simp: readPositiveInt64_def andThen_eq_Inr split: if_splits)
  then show ?thesis using word_gt_0 [of w] by (simp add: word_less_def)
qed

lemma read_point_range:
  assumes "read_point encoded = Inr (p, rest)"
  shows "0 < sp_EventID p \<and> sp_EventID p \<le> MaxInt64 \<and> 0 < sp_TTFTMS p \<and> sp_TTFTMS p \<le> MaxInt64
    \<and> 0 < sp_LatencyMS p \<and> sp_LatencyMS p \<le> MaxInt64"
  using assms by (auto simp: read_point_def andThen_eq_Inr dest!: read_positive_range)

lemma walk_points_ok:
  "walk_points n previous encoded = (visited, None) \<Longrightarrow> row_ok previous visited \<and> length visited = n"
proof (induction n arbitrary: previous encoded visited)
  case 0
  then show ?case by (cases previous) (auto simp: row_ok_def)
next
  case (Suc n)
  then obtain p rest vs where p: "read_point encoded = Inr (p, rest)" "sp_Priority p = splitMix64 (word_of_int (sp_EventID p))"
      "\<not> (case previous of None \<Rightarrow> False | Some q \<Rightarrow> \<not> samplePointLess q p)"
      "walk_points n (Some p) rest = (vs, None)" "visited = p # vs"
    by (auto split: sum.splits prod.splits if_splits)
  with Suc.IH [OF p(4)] read_point_range [OF p(1)] show ?case
    by (auto simp: row_ok_Cons point_ok_def split: option.splits)
qed

lemma walkSampleSet_ok:
  assumes "walkSampleSet encoded = (visited, Inr n)"
  shows "row_ok None visited" and "length visited = n" and "n \<le> MaxEncodedSamplePoints"
proof -
  from assms obtain m rest where "walk_points m None rest = (visited, None)" "m = n" "n \<le> MaxEncodedSamplePoints"
    by (auto simp: walkSampleSet_def not_less split: list.splits if_splits sum.splits prod.splits option.splits)
  with walk_points_ok show "row_ok None visited" "length visited = n" "n \<le> MaxEncodedSamplePoints" by blast+
qed

text \<open>A row has no event twice: the event fixes the priority, so its points would not be ordered.\<close>

lemma row_events:
  assumes "row_ok None visited"
  shows "distinct visited" and "consistent (set visited)"
proof -
  from assms have sorted: "sorted_wrt samplePointLess visited" and ok: "\<forall>p \<in> set visited. point_ok p"
    by (simp_all add: row_ok_def list_all_iff)
  show "distinct visited" using sorted by (induction visited) (auto simp: samplePointLess_key)
  show "consistent (set visited)"
  proof (rule inj_onI)
    fix p q assume mem: "p \<in> set visited" "q \<in> set visited" and eq: "sp_EventID p = sp_EventID q"
    with ok have "sample_key p = sample_key q" by (simp add: sample_key_def point_ok_def)
    then have "\<not> samplePointLess p q" "\<not> samplePointLess q p" by (simp_all add: samplePointLess_key)
    with sorted mem show "p = q" by (induction visited) auto
  qed
qed

lemma collect_points:
  assumes "distinct (map sp_EventID (map snd points @ ps))" and "\<forall>(eventID, p) \<in> set points. sp_EventID p = eventID"
  shows "foldl (\<lambda>points p. AList.update (sp_EventID p) p points) points ps = points @ map (\<lambda>p. (sp_EventID p, p)) ps"
  using assms
proof (induction ps arbitrary: points)
  case (Cons p ps)
  have "sp_EventID p \<notin> fst ` set points" using Cons.prems by (force simp: image_iff)
  then have "AList.update (sp_EventID p) p points = points @ [(sp_EventID p, p)]"
    by (induction points) auto
  with Cons show ?case by simp
qed simp

lemma UnmarshalSampleSet_walk:
  "UnmarshalSampleSet encoded = Inr points \<longleftrightarrow>
     (\<exists>visited n. walkSampleSet encoded = (visited, Inr n) \<and> points = map (\<lambda>p. (sp_EventID p, p)) visited)"
proof -
  have collect: "foldl (\<lambda>points p. AList.update (sp_EventID p) p points) NewSampleSet visited = map (\<lambda>p. (sp_EventID p, p)) visited"
    if "walkSampleSet encoded = (visited, Inr n)" for visited n
    using row_events [OF walkSampleSet_ok(1) [OF that]] collect_points [of "[]" visited]
    by (simp add: NewSampleSet_def distinct_map)
  show ?thesis
    using collect by (cases "walkSampleSet encoded"; cases "snd (walkSampleSet encoded)")
      (auto simp: UnmarshalSampleSet_def)
qed

lemma UnmarshalSampleSet_ok:
  assumes "walkSampleSet encoded = (visited, Inr n)"
  shows "\<exists>points. UnmarshalSampleSet encoded = Inr points \<and> set_ok points \<and> pts points = set visited"
proof -
  let ?points = "map (\<lambda>p. (sp_EventID p, p)) visited"
  have "set_ok ?points" using row_events [OF walkSampleSet_ok(1) [OF assms]] by (auto simp: set_ok_def comp_def distinct_map)
  moreover have "pts ?points = set visited" by (force simp: pts_def)
  ultimately show ?thesis using assms UnmarshalSampleSet_walk by blast
qed

section \<open>The query merger keeps the best points\<close>

definition merger_ok :: "querySampleMerger \<Rightarrow> samplePoint set \<Rightarrow> bool" where
  "merger_ok merger P \<longleftrightarrow>
     (\<exists>points. qm_samples merger = Some points \<and> set_ok points \<and> pts points = set (qm_heap merger)
        \<and> heap_inv (qm_heap merger) \<and> kept MaxSamplePoints (set (qm_heap merger)) P)"

lemma take_candidate_kept:
  assumes ok: "set_ok points" "pts points = set heap" "heap_inv heap" and k: "kept MaxSamplePoints (set heap) P"
    and p: "p \<notin> P" and cons: "consistent (insert p P)" and t: "take_candidate (points, heap) p = (points', heap')"
  shows "set_ok points' \<and> pts points' = set heap' \<and> heap_inv heap' \<and> kept MaxSamplePoints (set heap') (insert p P)"
proof -
  have sub: "set heap \<subseteq> P" by (rule keptD(3) [OF k])
  have len: "card (set heap) = length heap" using ok(3) distinct_card by (auto simp: heap_inv_def)
  have new: "p \<notin> set heap" "\<forall>q \<in> set heap. sp_EventID q \<noteq> sp_EventID p"
    using p sub cons by (auto simp: inj_on_def)
  consider (room) "length heap < MaxSamplePoints"
    | (better) "length heap = MaxSamplePoints" "samplePointLess p (heap ! 0)"
    | (worse) "length heap = MaxSamplePoints" "\<not> samplePointLess p (heap ! 0)"
    using keptD(4) [OF k] len by linarith
  then show ?thesis
  proof cases
    case room
    then have "points' = AList.update (sp_EventID p) p points" "heap' = siftUpWorst (heap @ [p]) (length heap)"
      using t by (simp_all add: take_candidate_def)
    with worst_heap.offer_push [OF ok(3) k _ p] push_heap_inv [OF ok(3) new(1)] update_point [OF ok(1), of p] new ok(2) room len
    show ?thesis by simp
  next
    case better
    have some: "heap \<noteq> []" "0 < MaxSamplePoints" using better(1) by (auto simp: MaxSamplePoints_def)
    then have top: "heap ! 0 \<in> pts points" using ok(2) by (simp add: nth_mem)
    note del = delete_point [OF ok(1) top]
    have "\<forall>q \<in> pts (AList.delete (sp_EventID (heap ! 0)) points). sp_EventID q \<noteq> sp_EventID p"
      using new(2) ok(2) del(2) by simp
    note upd = update_point [OF del(1) this]
    have "points' = AList.update (sp_EventID p) p (AList.delete (sp_EventID (heap ! 0)) points)"
        "heap' = siftDownWorst (heap[0 := p]) 0"
      using t better by (simp_all add: take_candidate_def)
    moreover have "kept MaxSamplePoints (set (siftDownWorst (heap[0 := p]) 0)) (insert p P)"
      using worst_heap.offer_replace [OF ok(3) k _ some(2) p] better len consistent_key [OF cons]
      by (auto simp: samplePointLess_key intro: inj_on_subset)
    ultimately show ?thesis
      using replace_heap_inv [OF ok(3) some(1) new(1)] upd del(2) ok(2) by simp
  next
    case worse
    have some: "heap \<noteq> []" using worse(1) by (auto simp: MaxSamplePoints_def)
    have "heap ! 0 \<in> P" using some sub nth_mem by blast
    then have "sample_key (heap ! 0) < sample_key p"
      using worse(2) p consistent_key [OF cons] by (auto simp: samplePointLess_key inj_on_def less_le)
    with worst_heap.offer_skip [OF ok(3) k _ p] worse(1) len
    have "kept MaxSamplePoints (set heap) (insert p P)" by simp
    moreover have "points' = points" "heap' = heap" using t worse by (simp_all add: take_candidate_def)
    ultimately show ?thesis using ok by simp
  qed
qed

lemma take_candidates_kept:
  assumes "set_ok points" and "pts points = set heap" and "heap_inv heap" and "kept MaxSamplePoints (set heap) P"
    and "set ps \<inter> P = {}" and "distinct ps" and "consistent (P \<union> set ps)"
    and "foldl take_candidate (points, heap) ps = (points', heap')"
  shows "set_ok points' \<and> pts points' = set heap' \<and> heap_inv heap' \<and> kept MaxSamplePoints (set heap') (P \<union> set ps)"
  using assms
proof (induction ps arbitrary: points heap P)
  case (Cons p ps)
  obtain points1 heap1 where t: "take_candidate (points, heap) p = (points1, heap1)" by fastforce
  have "consistent (insert p P)" using Cons.prems(7) by (rule inj_on_subset) auto
  moreover have "p \<notin> P" using Cons.prems(5) by simp
  ultimately have one: "set_ok points1 \<and> pts points1 = set heap1 \<and> heap_inv heap1 \<and> kept MaxSamplePoints (set heap1) (insert p P)"
    using take_candidate_kept [OF Cons.prems(1-4) _ _ t] by blast
  have "set ps \<inter> insert p P = {}" "consistent (insert p P \<union> set ps)" using Cons.prems(5-7) by auto
  with Cons.IH [of points1 heap1 "insert p P"] one Cons.prems(6,8) t show ?case by simp
qed simp

text \<open>The candidates of a row that has no conflict with what is kept.\<close>

definition wanted :: "sampleSet \<Rightarrow> samplePoint list \<Rightarrow> samplePoint \<Rightarrow> bool" where
  "wanted points heap p \<longleftrightarrow> map_of points (sp_EventID p) = None \<and> (length heap < MaxSamplePoints \<or> samplePointLess p (heap ! 0))"

lemma visit_points_wanted:
  assumes "\<forall>p \<in> set visited. \<forall>q. map_of points (sp_EventID p) = Some q \<longrightarrow> q = p"
  shows "foldl (visit_point points heap) (candidates, 0) visited = (candidates @ filter (wanted points heap) visited, 0)"
  using assms
proof (induction visited arbitrary: candidates)
  case (Cons p visited)
  have "visit_point points heap (candidates, 0) p = (candidates @ filter (wanted points heap) [p], 0)"
    using Cons.prems by (auto simp: visit_point_def wanted_def samplePointLess_key split: option.splits)
  with Cons show ?case by simp
qed simp

lemma unwanted_kept:
  assumes ok: "set_ok points" "pts points = set heap" "heap_inv heap" and k: "kept MaxSamplePoints (set heap) P"
    and unwanted: "\<forall>p \<in> set ps. \<not> wanted points heap p" and cons: "consistent (P \<union> set ps)"
  shows "kept MaxSamplePoints (set heap) (P \<union> set ps)"
  using unwanted cons
proof (induction ps)
  case (Cons p ps)
  have "consistent (P \<union> set ps)" using Cons.prems(2) by (rule inj_on_subset) auto
  with Cons have k': "kept MaxSamplePoints (set heap) (P \<union> set ps)" by simp
  show ?case
  proof (cases "p \<in> P \<union> set ps")
    case True
    then have "P \<union> set (p # ps) = P \<union> set ps" by auto
    with k' show ?thesis by simp
  next
    case False
    have sub: "set heap \<subseteq> P \<union> set ps" by (rule keptD(3) [OF k'])
    have none: "map_of points (sp_EventID p) = None"
      using lookup_none [OF ok(1)] ok(2) sub False Cons.prems(2) by (auto simp: inj_on_def)
    have len: "card (set heap) = length heap" using ok(3) distinct_card by (auto simp: heap_inv_def)
    have full: "length heap = MaxSamplePoints" "\<not> samplePointLess p (heap ! 0)"
      using Cons.prems(1) none keptD(4) [OF k'] len by (auto simp: wanted_def)
    then have "heap ! 0 \<in> set heap" by (intro nth_mem) (simp add: MaxSamplePoints_def)
    then have "sample_key (heap ! 0) \<noteq> sample_key p"
      using none lookup_none [OF ok(1)] ok(2) by (auto simp: sample_key_def)
    with full(2) have "sample_key (heap ! 0) < sample_key p" by (auto simp: samplePointLess_key)
    with worst_heap.offer_skip [OF ok(3) k' _ False] full(1) len show ?thesis by simp
  qed
qed (use k in simp)

lemma wanted_new:
  assumes ok: "set_ok points" "pts points = set heap" "heap_inv heap" and k: "kept MaxSamplePoints (set heap) P"
    and "wanted points heap p"
  shows "p \<notin> P"
proof
  assume p: "p \<in> P"
  have "p \<notin> set heap" using assms(5) lookup_none [OF ok(1)] ok(2) by (auto simp: wanted_def)
  moreover have len: "card (set heap) = length heap" using ok(3) distinct_card by (auto simp: heap_inv_def)
  ultimately have "\<not> length heap < MaxSamplePoints" using kept_room [OF k] p by auto
  then have "samplePointLess p (heap ! 0)" and "heap ! 0 \<in> set heap"
    using assms(5) by (auto simp: wanted_def MaxSamplePoints_def intro: nth_mem)
  with keptD(6) [OF k _ p \<open>p \<notin> set heap\<close>] show False by (fastforce simp: samplePointLess_key)
qed

lemma sample_MergeBinary_kept:
  assumes m: "merger_ok merger P" and w: "walkSampleSet row = (visited, Inr n)" and cons: "consistent (P \<union> set visited)"
  shows "merger_ok (fst (sample_MergeBinary row merger)) (P \<union> set visited) \<and> snd (sample_MergeBinary row merger) = Inr n"
proof -
  from m obtain points where s: "qm_samples merger = Some points" and ok: "set_ok points" "pts points = set (qm_heap merger)"
      "heap_inv (qm_heap merger)" and k: "kept MaxSamplePoints (set (qm_heap merger)) P"
    by (auto simp: merger_ok_def)
  let ?heap = "qm_heap merger"
  let ?cands = "filter (wanted points ?heap) visited" and ?others = "filter (\<lambda>p. \<not> wanted points ?heap p) visited"
  have sub: "set ?heap \<subseteq> P" by (rule keptD(3) [OF k])
  have same: "\<forall>p \<in> set visited. \<forall>q. map_of points (sp_EventID p) = Some q \<longrightarrow> q = p"
    using lookup_point [OF ok(1)] ok(2) sub cons by (auto simp: inj_on_def)
  have visit: "foldl (visit_point points ?heap) ([], 0) visited = (?cands, 0)"
    using visit_points_wanted [OF same, of ?heap "[]"] by simp
  have k1: "kept MaxSamplePoints (set ?heap) (P \<union> set ?others)"
    by (rule unwanted_kept [OF ok k]) (use cons in \<open>auto intro: inj_on_subset\<close>)
  have all: "P \<union> set ?others \<union> set ?cands = P \<union> set visited" by auto
  have dist: "distinct ?cands" using row_events(1) [OF walkSampleSet_ok(1) [OF w]] by simp
  have new: "set ?cands \<inter> (P \<union> set ?others) = {}" using wanted_new [OF ok k] by auto
  obtain points' heap' where t: "foldl take_candidate (points, ?heap) ?cands = (points', heap')" by fastforce
  have result: "set_ok points' \<and> pts points' = set heap' \<and> heap_inv heap' \<and> kept MaxSamplePoints (set heap') (P \<union> set visited)"
    using take_candidates_kept [OF ok k1 new dist _ t] cons unfolding all by simp
  show ?thesis
  proof (cases "?cands = []")
    case True
    then have "points' = points" "heap' = ?heap" using t by simp_all
    moreover have "sample_MergeBinary row merger = (merger, Inr n)"
      using s w visit True by (simp add: sample_MergeBinary_def)
    ultimately show ?thesis using result s by (auto simp: merger_ok_def)
  next
    case False
    then have "sample_MergeBinary row merger = (\<lparr>qm_samples = Some points', qm_heap = heap'\<rparr>, Inr n)"
      using s w visit t by (simp add: sample_MergeBinary_def)
    with result show ?thesis by (simp add: merger_ok_def)
  qed
qed

text \<open>A query reads the rows one after the other; the reference decodes and merges them.\<close>

definition merge_samples :: "byte list list \<Rightarrow> querySampleMerger" where
  "merge_samples rows = foldl (\<lambda>merger row. fst (sample_MergeBinary row merger)) NewQuerySampleMerger rows"

fun merge_decoded_samples :: "sampleSet \<Rightarrow> byte list list \<Rightarrow> codecError + sampleSet" where
  "merge_decoded_samples points [] = Inr points"
| "merge_decoded_samples points (row # rows) =
     andThen (UnmarshalSampleSet row) (\<lambda>others.
       andThen (sample_Merge (Some points) (Some others)) (\<lambda>merged. merge_decoded_samples merged rows))"

definition all_points :: "sampleSet list \<Rightarrow> samplePoint set" where
  "all_points sets = (\<Union>points \<in> set sets. pts points)"

lemma all_points_Cons: "all_points (points # sets) = pts points \<union> all_points sets"
  by (simp add: all_points_def)

lemma merge_rows_kept:
  assumes "list_all2 (\<lambda>row points. UnmarshalSampleSet row = Inr points) rows sets"
    and "merger_ok merger P" and "consistent (P \<union> all_points sets)"
  shows "merger_ok (foldl (\<lambda>merger row. fst (sample_MergeBinary row merger)) merger rows) (P \<union> all_points sets)"
  using assms
proof (induction rows sets arbitrary: merger P rule: list_all2_induct)
  case (Cons row rows points sets)
  from Cons.hyps(1) obtain visited n where w: "walkSampleSet row = (visited, Inr n)"
    and points: "points = map (\<lambda>p. (sp_EventID p, p)) visited" unfolding UnmarshalSampleSet_walk by blast
  have set: "set visited = pts points" by (force simp: points pts_def)
  have "consistent (P \<union> set visited)"
    using Cons.prems(2) unfolding set by (rule inj_on_subset) (auto simp: all_points_Cons)
  from sample_MergeBinary_kept [OF Cons.prems(1) w this]
  have "merger_ok (fst (sample_MergeBinary row merger)) (P \<union> pts points)" by (simp add: set)
  from Cons.IH [OF this] Cons.prems(2) show ?case by (simp add: all_points_Cons Un_assoc)
qed (simp add: all_points_def)

lemma merge_decoded_kept:
  assumes "list_all2 (\<lambda>row points. UnmarshalSampleSet row = Inr points) rows sets"
    and "set_ok points" and "kept MaxSamplePoints (pts points) P" and "consistent (P \<union> all_points sets)"
  shows "\<exists>merged. merge_decoded_samples points rows = Inr merged \<and> kept MaxSamplePoints (pts merged) (P \<union> all_points sets)"
  using assms
proof (induction rows sets arbitrary: points P rule: list_all2_induct)
  case (Cons row rows others sets)
  from Cons.hyps(1) have "set_ok others" using UnmarshalSampleSet_ok unfolding UnmarshalSampleSet_walk by fastforce
  moreover have "consistent (pts points \<union> pts others)"
    using Cons.prems(3) keptD(3) [OF Cons.prems(2)] by (rule_tac inj_on_subset) (auto simp: all_points_Cons)
  ultimately obtain merged where m: "sample_Merge (Some points) (Some others) = Inr merged" "set_ok merged"
      "kept MaxSamplePoints (pts merged) (pts points \<union> pts others)"
    using sample_Merge_kept [OF Cons.prems(1)] by blast
  have "kept MaxSamplePoints (pts merged) (P \<union> pts others)"
    by (rule kept_union [OF Cons.prems(2) m(3)]) simp
  from Cons.IH [OF m(2) this] Cons.prems(3) Cons.hyps(1) m(1) show ?case
    by (simp add: all_points_Cons Un_assoc)
qed (simp add: all_points_def)

text \<open>
  Claim C27. A query over stored latency rows ends with the 1000 points of smallest priority of all
  rows, or with all points if there are not more. For rows that decode and that agree on every
  event, the incremental merger with its heap gives exactly these points; so does decoding
  every row and merging with \<open>SampleSet.Merge\<close> and its trimming; so both give the same set,
  and the order of the rows and of Go's map iteration does not matter.
\<close>

theorem query_samples_best:
  assumes "list_all2 (\<lambda>row points. UnmarshalSampleSet row = Inr points) rows sets"
    and "inj_on sp_EventID (all_points sets)"
  shows "\<exists>best. snd (TakeSamples (merge_samples rows)) = Some best
    \<and> pts best \<subseteq> all_points sets \<and> card (pts best) = min 1000 (card (all_points sets))
    \<and> (\<forall>x \<in> pts best. \<forall>y \<in> all_points sets - pts best. samplePointLess x y)
    \<and> (\<exists>merged. merge_decoded_samples NewSampleSet rows = Inr merged \<and> pts merged = pts best)"
proof -
  have "merger_ok NewQuerySampleMerger {}"
    by (simp add: merger_ok_def NewQuerySampleMerger_def NewSampleSet_def set_ok_def pts_def heap_inv_def heap_from_def kept_def)
  from merge_rows_kept [OF assms(1) this] assms(2) obtain best where
      best: "snd (TakeSamples (merge_samples rows)) = Some best" "kept MaxSamplePoints (pts best) (all_points sets)"
    by (auto simp: merger_ok_def merge_samples_def TakeSamples_def)
  have "set_ok NewSampleSet" "kept MaxSamplePoints (pts NewSampleSet) {}"
    by (simp_all add: NewSampleSet_def set_ok_def pts_def kept_def)
  from merge_decoded_kept [OF assms(1) this] assms(2) obtain merged where
      "merge_decoded_samples NewSampleSet rows = Inr merged" "kept MaxSamplePoints (pts merged) (all_points sets)" by auto
  with kept_unique [OF best(2)] best(1) keptD(3,5) [OF best(2)] show ?thesis
    using keptD(6) [OF best(2)] by (auto simp: MaxSamplePoints_def samplePointLess_key)
qed


section \<open>Round trip\<close>

lemma read_positive_encoded:
  assumes "0 < v" and "v \<le> MaxInt64"
  shows "readPositiveInt64 (uvarint (word_of_int v) @ rest) = Inr (v, rest)"
proof -
  have v: "uint (word_of_int v :: u64) = v" using assms by (simp add: uint_word_of_int MaxInt64_def)
  then have "word_of_int v \<noteq> (0 :: u64)" using assms(1) by auto
  with v assms(2) show ?thesis by (simp add: readPositiveInt64_def)
qed

lemma read_point_encoded: "point_ok p \<Longrightarrow> read_point (encode_point p @ rest) = Inr (p, rest)"
  by (simp add: read_point_def encode_point_def read_positive_encoded point_ok_def)

lemma walk_points_encoded:
  "row_ok previous ps \<Longrightarrow> walk_points (length ps) previous (concat (map encode_point ps)) = (ps, None)"
proof (induction ps arbitrary: previous)
  case (Cons p ps)
  then have p: "point_ok p" "row_ok (Some p) ps" "\<not> (case previous of None \<Rightarrow> False | Some q \<Rightarrow> \<not> samplePointLess q p)"
    by (auto simp: row_ok_Cons split: option.splits)
  with Cons.IH [OF p(2)] read_point_encoded [OF p(1)] show ?case by (simp add: point_ok_def)
qed simp

lemma sample_Points_row:
  assumes "set_ok points" and "\<forall>p \<in> pts points. point_ok p"
  shows "row_ok None (sample_Points (Some points))"
proof -
  let ?ps = "sample_Points (Some points)"
  have set: "set ?ps = pts points" and dist: "distinct ?ps"
    using points_distinct [OF assms(1)] by (simp_all add: sample_Points_def pts_def)
  have "inj_on sample_key (set ?ps)" unfolding set by (rule consistent_key [OF set_ok_consistent [OF assms(1)]])
  with dist have "distinct (map sample_key ?ps)" by (simp add: distinct_map)
  moreover have "sorted (map sample_key ?ps)" by (simp add: sample_Points_def)
  ultimately have "sorted_wrt (<) (map sample_key ?ps)" by (simp add: strict_sorted_iff)
  moreover have "samplePointLess = (\<lambda>p q. sample_key p < sample_key q)" by (intro ext) (simp add: samplePointLess_key)
  ultimately show ?thesis using assms(2) by (simp add: row_ok_def sorted_wrt_map list_all_iff set)
qed

lemma sample_encoded:
  assumes "set_ok points" and "\<forall>p \<in> pts points. point_ok p" and "length points \<le> MaxSamplePoints"
  shows "\<exists>encoded t. sample_MarshalBinary (Some points) = Inr encoded \<and> UnmarshalSampleSet encoded = Inr t
    \<and> set_ok t \<and> pts t = pts points"
proof -
  let ?ps = "sample_Points (Some points)"
  have len: "length ?ps = length points" by (simp add: sample_Points_def)
  let ?encoded = "sampleFormatVersion # uvarint (of_nat (length ?ps)) @ concat (map encode_point ?ps)"
  have small: "unat (of_nat (length ?ps) :: u64) = length ?ps"
    using assms(3) len by (simp add: unsigned_of_nat take_bit_nat_eq_self_iff MaxSamplePoints_def)
  have marshal: "sample_MarshalBinary (Some points) = Inr ?encoded"
    using assms(3) len by (simp add: sample_MarshalBinary_def Let_def)
  have "walkSampleSet ?encoded = (?ps, Inr (length ?ps))"
    using walk_points_encoded [OF sample_Points_row [OF assms(1,2)]] small assms(3) len
    by (simp add: walkSampleSet_def MaxEncodedSamplePoints_def MaxSamplePoints_def)
  from UnmarshalSampleSet_ok [OF this] obtain t where t: "UnmarshalSampleSet ?encoded = Inr t" "set_ok t" "pts t = set ?ps" by blast
  have same: "pts t = pts points" unfolding t(3) by (simp add: sample_Points_def pts_def)
  with marshal t show ?thesis by blast
qed

lemma same_points_same_map:
  assumes "set_ok s" and "set_ok t" and "pts s = pts t"
  shows "map_of s = map_of t"
proof
  fix eventID
  show "map_of s eventID = map_of t eventID"
  proof (cases "map_of s eventID")
    case None
    then have "map_of t eventID = None" using lookup_none [OF assms(1)] lookup_none [OF assms(2)] assms(3) by blast
    with None show ?thesis by simp
  next
    case (Some p)
    then have "map_of t eventID = Some p" using lookup_point [OF assms(1)] lookup_point [OF assms(2)] assms(3) by blast
    with Some show ?thesis by simp
  qed
qed

text \<open>
  A stored sample survives: for every set of at most 1000 valid points, each under
  its own event, \<open>MarshalBinary\<close> succeeds and \<open>UnmarshalSampleSet\<close> of the bytes gives the same
  map from events to points.
\<close>

theorem sample_roundtrip:
  assumes "set_ok points" and "\<forall>p \<in> pts points. point_ok p" and "length points \<le> MaxSamplePoints"
  shows "\<exists>encoded t. sample_MarshalBinary (Some points) = Inr encoded \<and> UnmarshalSampleSet encoded = Inr t
    \<and> map_of t = map_of points"
  using sample_encoded [OF assms] same_points_same_map assms(1) by blast


section \<open>Examples\<close>

definition point :: "int \<Rightarrow> int \<Rightarrow> int \<Rightarrow> samplePoint" where
  "point eventID ttft latency =
     \<lparr>sp_EventID = eventID, sp_Priority = splitMix64 (word_of_int eventID), sp_TTFTMS = ttft, sp_LatencyMS = latency\<rparr>"

definition some_points :: sampleSet where
  "some_points = [(7, point 7 120 900), (3, point 3 80 400)]"

lemma some_points_ok: "set_ok some_points" "\<forall>p \<in> pts some_points. point_ok p" "length some_points \<le> MaxSamplePoints"
  by (simp_all add: some_points_def set_ok_def pts_def point_ok_def point_def MaxInt64_def MaxSamplePoints_def)

theorem sample_roundtrip_witness:
  "\<exists>encoded t. sample_MarshalBinary (Some some_points) = Inr encoded \<and> UnmarshalSampleSet encoded = Inr t
     \<and> map_of t = map_of some_points"
  by (rule sample_roundtrip [OF some_points_ok])

definition sample_blob :: "byte list" where
  "sample_blob = sampleFormatVersion # uvarint 1 @ encode_point (point 7 120 900)"

lemma sample_blob_decodes: "UnmarshalSampleSet sample_blob = Inr [(7, point 7 120 900)]"
proof -
  have "row_ok None [point 7 120 900]" by (simp add: row_ok_def point_ok_def point_def MaxInt64_def)
  from walk_points_encoded [OF this] have "walkSampleSet sample_blob = ([point 7 120 900], Inr 1)"
    by (simp add: sample_blob_def walkSampleSet_def MaxEncodedSamplePoints_def)
  then show ?thesis by (auto simp: UnmarshalSampleSet_walk point_def)
qed

theorem query_samples_best_witness:
  "\<exists>best. snd (TakeSamples (merge_samples [sample_blob, sample_blob])) = Some best
     \<and> pts best \<subseteq> all_points [[(7, point 7 120 900)], [(7, point 7 120 900)]]"
proof -
  let ?sets = "[[(7, point 7 120 900)], [(7, point 7 120 900)]]"
  have "list_all2 (\<lambda>row points. UnmarshalSampleSet row = Inr points) [sample_blob, sample_blob] ?sets"
    by (simp add: sample_blob_decodes)
  moreover have "inj_on sp_EventID (all_points ?sets)" by (simp add: all_points_def pts_def)
  ultimately show ?thesis using query_samples_best by blast
qed

end
