(* ===== verification/Latency_Store.thy ===== *)
theory Latency_Store
  imports Latency_Sketch Latency_Sample Go_Time
begin

text \<open>
  Stored latency rows: the row of \<open>src/internal/entities\<close>, the merge of a stored row with a new
  one and the merge of rows for a query, from \<open>src/internal/repository/latencystore/store.go\<close>, and
  the row builder of \<open>src/internal/latency/aggregate.go\<close>. The SQL statements around them are not
  modelled: \<open>mergeLatencyRows\<close> and \<open>MergeDiagnosticsRows\<close> get the rows they read.
\<close>

datatype rowError =
    UnsupportedFormat int | InvalidCounters | PayloadError codecError | CountMismatch | SampleCountOverflow

record usageLatencyStat =
  ul_ID :: int
  ul_InstanceID :: string
  ul_BucketType :: string
  ul_BucketStart :: time
  ul_APIGroupKey :: string
  ul_SampleCount :: int
  ul_MaxTTFTMS :: int
  ul_MaxLatencyMS :: int
  ul_FormatVersion :: int
  ul_TTFTSketch :: "byte list"
  ul_LatencySketch :: "byte list"
  ul_SamplePoints :: "byte list"
  ul_CreatedAt :: time
  ul_UpdatedAt :: time

record decodedRow =
  dr_TTFTSketch :: sketch
  dr_LatencySketch :: sketch
  dr_SamplePoints :: sampleSet

definition payload :: "codecError + 'a \<Rightarrow> rowError + 'a" where
  "payload r = (case r of Inl e \<Rightarrow> Inl (PayloadError e) | Inr x \<Rightarrow> Inr x)"

definition decodeLatencyRow :: "usageLatencyStat \<Rightarrow> rowError + decodedRow" where
  "decodeLatencyRow row =
     (if ul_FormatVersion row \<noteq> 1 then Inl (UnsupportedFormat (ul_FormatVersion row))
      else if ul_SampleCount row < 0 \<or> ul_MaxTTFTMS row \<le> 0 \<or> ul_MaxLatencyMS row \<le> 0 then Inl InvalidCounters
      else andThen (payload (UnmarshalSketch (ul_TTFTSketch row))) (\<lambda>ttftSketch.
           andThen (payload (UnmarshalSketch (ul_LatencySketch row))) (\<lambda>latencySketch.
           andThen (payload (UnmarshalSampleSet (ul_SamplePoints row))) (\<lambda>samplePoints.
             if int (sketch_Count (Some ttftSketch)) \<noteq> ul_SampleCount row
              \<or> int (sketch_Count (Some latencySketch)) \<noteq> ul_SampleCount row
              \<or> ul_SampleCount row < int (sample_Count (Some samplePoints))
             then Inl CountMismatch
             else Inr \<lparr>dr_TTFTSketch = ttftSketch, dr_LatencySketch = latencySketch, dr_SamplePoints = samplePoints\<rparr>))))"

definition mergeLatencyRows :: "usageLatencyStat \<Rightarrow> usageLatencyStat \<Rightarrow> bool \<Rightarrow> time \<Rightarrow> rowError + usageLatencyStat" where
  "mergeLatencyRows existing incoming hasExisting now =
     andThen (decodeLatencyRow incoming) (\<lambda>incomingDecoded.
       if \<not> hasExisting then Inr (incoming\<lparr>ul_CreatedAt := now, ul_UpdatedAt := now\<rparr>)
       else andThen (decodeLatencyRow existing) (\<lambda>existingDecoded.
         if MaxInt64 - ul_SampleCount incoming < ul_SampleCount existing then Inl SampleCountOverflow
         else
           andThen (payload (sketch_Merge (Some (dr_TTFTSketch existingDecoded)) (Some (dr_TTFTSketch incomingDecoded)))) (\<lambda>t.
           andThen (payload (sketch_Merge (Some (dr_LatencySketch existingDecoded)) (Some (dr_LatencySketch incomingDecoded)))) (\<lambda>l.
           andThen (payload (sample_Merge (Some (dr_SamplePoints existingDecoded)) (Some (dr_SamplePoints incomingDecoded)))) (\<lambda>s.
           andThen (payload (sketch_MarshalBinary (Some t))) (\<lambda>ttftSketch.
           andThen (payload (sketch_MarshalBinary (Some l))) (\<lambda>latencySketch.
           andThen (payload (sample_MarshalBinary (Some s))) (\<lambda>samplePoints.
             Inr (existing
               \<lparr>ul_SampleCount := ul_SampleCount existing + ul_SampleCount incoming,
                ul_MaxTTFTMS := max (ul_MaxTTFTMS existing) (ul_MaxTTFTMS incoming),
                ul_MaxLatencyMS := max (ul_MaxLatencyMS existing) (ul_MaxLatencyMS incoming),
                ul_FormatVersion := 1, ul_TTFTSketch := ttftSketch, ul_LatencySketch := latencySketch,
                ul_SamplePoints := samplePoints, ul_UpdatedAt := now\<rparr>)))))))))"


section \<open>Queries\<close>

record queryMergers =
  qs_ttft :: querySketchMerger
  qs_latency :: querySketchMerger
  qs_samples :: querySampleMerger

definition decodeQueryLatencyRow :: "usageLatencyStat \<Rightarrow> queryMergers \<Rightarrow> rowError + queryMergers" where
  "decodeQueryLatencyRow row m =
     (if ul_FormatVersion row \<noteq> 1 then Inl (UnsupportedFormat (ul_FormatVersion row))
      else if ul_SampleCount row < 0 \<or> ul_MaxTTFTMS row \<le> 0 \<or> ul_MaxLatencyMS row \<le> 0 then Inl InvalidCounters
      else let (t, ttftResult) = sketch_MergeBinary (ul_TTFTSketch row) (qs_ttft m)
           in andThen (payload ttftResult) (\<lambda>ttftCount.
             let (l, latencyResult) = sketch_MergeBinary (ul_LatencySketch row) (qs_latency m)
             in andThen (payload latencyResult) (\<lambda>latencyCount.
               let (s, sampleResult) = sample_MergeBinary (ul_SamplePoints row) (qs_samples m)
               in andThen (payload sampleResult) (\<lambda>n.
                 if int ttftCount \<noteq> ul_SampleCount row \<or> int latencyCount \<noteq> ul_SampleCount row
                  \<or> ul_SampleCount row < int n
                 then Inl CountMismatch
                 else Inr \<lparr>qs_ttft = t, qs_latency = l, qs_samples = s\<rparr>))))"

record diagnosticsAggregate =
  da_SampleCount :: int
  da_MaxTTFTMS :: int
  da_MaxLatencyMS :: int
  da_TTFTSketch :: "sketch option"
  da_LatencySketch :: "sketch option"
  da_SamplePoints :: "sampleSet option"

fun diagnostics_loop ::
    "usageLatencyStat list \<Rightarrow> queryMergers \<Rightarrow> diagnosticsAggregate \<Rightarrow> rowError + queryMergers \<times> diagnosticsAggregate" where
  "diagnostics_loop [] m agg = Inr (m, agg)"
| "diagnostics_loop (row # rows) m agg =
     andThen (decodeQueryLatencyRow row m) (\<lambda>m.
       if MaxInt64 - ul_SampleCount row < da_SampleCount agg then Inl SampleCountOverflow
       else diagnostics_loop rows m
         (agg\<lparr>da_SampleCount := da_SampleCount agg + ul_SampleCount row,
              da_MaxTTFTMS := max (da_MaxTTFTMS agg) (ul_MaxTTFTMS row),
              da_MaxLatencyMS := max (da_MaxLatencyMS agg) (ul_MaxLatencyMS row)\<rparr>))"

definition zero_aggregate :: diagnosticsAggregate where
  "zero_aggregate =
     \<lparr>da_SampleCount = 0, da_MaxTTFTMS = 0, da_MaxLatencyMS = 0,
      da_TTFTSketch = None, da_LatencySketch = None, da_SamplePoints = None\<rparr>"

definition new_mergers :: queryMergers where
  "new_mergers = \<lparr>qs_ttft = NewQuerySketchMerger, qs_latency = NewQuerySketchMerger, qs_samples = NewQuerySampleMerger\<rparr>"

definition MergeDiagnosticsRows :: "usageLatencyStat list \<Rightarrow> rowError + diagnosticsAggregate" where
  "MergeDiagnosticsRows rows =
     andThen (diagnostics_loop rows new_mergers zero_aggregate) (\<lambda>(m, agg).
       let t = snd (TakeSketch (qs_ttft m)); l = snd (TakeSketch (qs_latency m))
       in if int (sketch_Count t) \<noteq> da_SampleCount agg \<or> int (sketch_Count l) \<noteq> da_SampleCount agg
          then Inl CountMismatch
          else Inr (agg\<lparr>da_TTFTSketch := t, da_LatencySketch := l, da_SamplePoints := snd (TakeSamples (qs_samples m))\<rparr>))"


section \<open>Building a row\<close>

record aggregateRowBuilder =
  rb_SampleCount :: int
  rb_MaxTTFTMS :: int
  rb_MaxLatencyMS :: int
  rb_TTFTSketch :: sketch
  rb_LatencySketch :: sketch
  rb_SamplePoints :: sampleSet

definition new_builder :: aggregateRowBuilder where
  "new_builder =
     \<lparr>rb_SampleCount = 0, rb_MaxTTFTMS = 0, rb_MaxLatencyMS = 0,
      rb_TTFTSketch = NewSketch, rb_LatencySketch = NewSketch, rb_SamplePoints = NewSampleSet\<rparr>"

definition builder_add ::
    "(float64 \<Rightarrow> float64) \<Rightarrow> int \<Rightarrow> int \<Rightarrow> int \<Rightarrow> aggregateRowBuilder \<Rightarrow> codecError + aggregateRowBuilder" where
  "builder_add math_log eventID ttftMS latencyMS b =
     andThen (sketch_Add math_log ttftMS (rb_TTFTSketch b)) (\<lambda>t.
     andThen (sketch_Add math_log latencyMS (rb_LatencySketch b)) (\<lambda>l.
     andThen (sample_Add eventID ttftMS latencyMS (Some (rb_SamplePoints b))) (\<lambda>s.
       Inr \<lparr>rb_SampleCount = wrap64 (rb_SampleCount b + 1),
            rb_MaxTTFTMS = (if rb_MaxTTFTMS b < ttftMS then ttftMS else rb_MaxTTFTMS b),
            rb_MaxLatencyMS = (if rb_MaxLatencyMS b < latencyMS then latencyMS else rb_MaxLatencyMS b),
            rb_TTFTSketch = t, rb_LatencySketch = l, rb_SamplePoints = s\<rparr>)))"

definition builder_row :: "aggregateRowBuilder \<Rightarrow> usageLatencyStat \<Rightarrow> codecError + usageLatencyStat" where
  "builder_row b key =
     andThen (sketch_MarshalBinary (Some (rb_TTFTSketch b))) (\<lambda>ttftSketch.
     andThen (sketch_MarshalBinary (Some (rb_LatencySketch b))) (\<lambda>latencySketch.
     andThen (sample_MarshalBinary (Some (rb_SamplePoints b))) (\<lambda>samplePoints.
       Inr (key\<lparr>ul_SampleCount := rb_SampleCount b, ul_MaxTTFTMS := rb_MaxTTFTMS b, ul_MaxLatencyMS := rb_MaxLatencyMS b,
                ul_FormatVersion := 1, ul_TTFTSketch := ttftSketch, ul_LatencySketch := latencySketch,
                ul_SamplePoints := samplePoints\<rparr>))))"

section \<open>What a row holds\<close>

text \<open>A sample: the identifier of its event, the time to the first token and the latency.\<close>

type_synonym latencySample = "int \<times> int \<times> int"

fun sample_point :: "latencySample \<Rightarrow> samplePoint" where
  "sample_point (eventID, ttft, latency) = point eventID ttft latency"

fun ttft_of :: "latencySample \<Rightarrow> int" where "ttft_of (eventID, ttft, latency) = ttft"
fun latency_of :: "latencySample \<Rightarrow> int" where "latency_of (eventID, ttft, latency) = latency"

fun valid_sample :: "latencySample \<Rightarrow> bool" where
  "valid_sample (eventID, ttft, latency) \<longleftrightarrow>
     0 < eventID \<and> eventID \<le> MaxInt64 \<and> 0 < ttft \<and> ttft \<le> MaxInt64 \<and> 0 < latency \<and> latency \<le> MaxInt64"

text \<open>The largest of some positive values, 0 if there are none.\<close>

definition peak :: "int list \<Rightarrow> int" where
  "peak vs = Max (insert 0 (set vs))"

lemma peak_Nil [simp]: "peak [] = 0"
  by (simp add: peak_def)

lemma peak_append: "peak (vs @ ws) = max (peak vs) (peak ws)"
proof -
  have "insert 0 (set (vs @ ws)) = insert 0 (set vs) \<union> insert 0 (set ws)" by auto
  then show ?thesis unfolding peak_def by (simp only: Max_Un finite_insert finite_set insert_not_empty simp_thms)
qed

lemma peak_snoc: "0 < v \<Longrightarrow> peak (vs @ [v]) = (if peak vs < v then v else peak vs)"
  by (auto simp: peak_append peak_def [of "[v]"] max_def)

lemma peak_pos: "vs \<noteq> [] \<Longrightarrow> \<forall>v \<in> set vs. 0 < v \<Longrightarrow> 0 < peak vs"
proof (cases vs)
  case (Cons v ws)
  assume "\<forall>v \<in> set vs. 0 < v"
  with Cons have "0 < v" by simp
  also have "v \<le> peak vs" unfolding peak_def by (rule Max_ge) (simp_all add: Cons)
  finally show ?thesis .
qed simp

text \<open>Valid samples of different events, few enough for the counters.\<close>

definition samples_ok :: "latencySample list \<Rightarrow> bool" where
  "samples_ok es \<longleftrightarrow> list_all valid_sample es \<and> distinct (map fst es) \<and> int (length es) \<le> MaxInt64"

definition sketch_holds :: "(float64 \<Rightarrow> float64) \<Rightarrow> sketch \<Rightarrow> int list \<Rightarrow> bool" where
  "sketch_holds math_log s values \<longleftrightarrow> sketch_ok s \<and> sk_count s = length values
     \<and> (\<forall>key. bin (sk_bins s) key = count (mset (map (bucket_key math_log) values)) key)"

definition samples_hold :: "sampleSet \<Rightarrow> latencySample list \<Rightarrow> bool" where
  "samples_hold points es \<longleftrightarrow> set_ok points \<and> (\<forall>p \<in> pts points. point_ok p)
     \<and> kept MaxSamplePoints (pts points) (set (map sample_point es))"

definition row_holds :: "(float64 \<Rightarrow> float64) \<Rightarrow> usageLatencyStat \<Rightarrow> latencySample list \<Rightarrow> bool" where
  "row_holds math_log row es \<longleftrightarrow> es \<noteq> [] \<and> ul_SampleCount row = int (length es)
     \<and> ul_MaxTTFTMS row = peak (map ttft_of es) \<and> ul_MaxLatencyMS row = peak (map latency_of es)
     \<and> (\<exists>d. decodeLatencyRow row = Inr d \<and> sketch_holds math_log (dr_TTFTSketch d) (map ttft_of es)
          \<and> sketch_holds math_log (dr_LatencySketch d) (map latency_of es) \<and> samples_hold (dr_SamplePoints d) es)"

lemma samples_okD:
  assumes "samples_ok es"
  shows "consistent (set (map sample_point es))" "distinct (map sample_point es)" "\<forall>p \<in> set (map sample_point es). point_ok p"
    "\<forall>v \<in> set (map ttft_of es). 0 < v" "\<forall>v \<in> set (map latency_of es). 0 < v"
proof -
  have ids: "sp_EventID (sample_point e) = fst e" for e by (cases e) (simp add: point_def)
  have dist: "distinct (map sp_EventID (map sample_point es))"
    using assms by (simp add: samples_ok_def ids comp_def)
  then show "consistent (set (map sample_point es))" "distinct (map sample_point es)"
    unfolding distinct_map [of sp_EventID] by blast+
  show "\<forall>p \<in> set (map sample_point es). point_ok p" "\<forall>v \<in> set (map ttft_of es). 0 < v" "\<forall>v \<in> set (map latency_of es). 0 < v"
    using assms by (auto simp: samples_ok_def list_all_iff point_ok_def point_def)
qed

lemma samples_ok_append: "samples_ok (es @ fs) \<Longrightarrow> samples_ok es \<and> samples_ok fs"
  by (auto simp: samples_ok_def)

lemma sketch_holds_new: "sketch_holds math_log NewSketch []"
  by (simp add: sketch_holds_def NewSketch_def sketch_ok_def bins_ok_def total_bins_def)

lemma samples_hold_new: "samples_hold NewSampleSet []"
  by (simp add: samples_hold_def NewSampleSet_def set_ok_def pts_def kept_def)

lemma sketch_Add_holds:
  assumes "sketch_holds math_log s vs" and "0 < v" and "int (length vs) < MaxInt64"
  shows "\<exists>s'. sketch_Add math_log v s = Inr s' \<and> sketch_holds math_log s' (vs @ [v])"
proof -
  have "sk_count s < MaxUint64" using assms(1,3) by (simp add: sketch_holds_def MaxUint64_def MaxInt64_def)
  with sketch_Add_spec [of s v math_log] assms(1,2) show ?thesis by (auto simp: sketch_holds_def)
qed

lemma sample_Add_holds:
  assumes "samples_hold points es" and "samples_ok (es @ [(eventID, ttft, latency)])"
  shows "\<exists>points'. sample_Add eventID ttft latency (Some points) = Inr points' \<and> samples_hold points' (es @ [(eventID, ttft, latency)])"
proof -
  let ?p = "point eventID ttft latency"
  let ?P = "set (map sample_point es)"
  from assms(1) have ok: "set_ok points" "\<forall>p \<in> pts points. point_ok p" and k: "kept MaxSamplePoints (pts points) ?P"
    by (simp_all add: samples_hold_def)
  note facts = samples_okD [OF assms(2)]
  have new: "?p \<notin> ?P" "point_ok ?p" and cons: "consistent (insert ?p ?P)" using facts(1-3) by auto
  have valid: "0 < eventID" "0 < ttft" "0 < latency" using assms(2) by (simp_all add: samples_ok_def)
  have ids: "\<forall>q \<in> pts points. sp_EventID q \<noteq> sp_EventID ?p"
    using inj_onD [OF cons] new(1) keptD(3) [OF k] by blast
  let ?all = "AList.update (sp_EventID ?p) ?p points"
  have "map_of points (sp_EventID ?p) = None" using lookup_none [OF ok(1)] ids by blast
  then have "addPoint ?p points = Inr ?all" by (simp add: addPoint_def)
  then have add: "sample_Add eventID ttft latency (Some points) = Inr (fst (sample_trim ?all))"
    using valid by (simp add: sample_Add_def point_def)
  note upd = update_point [OF ok(1) ids]
  have trimmed: "set_ok (fst (sample_trim ?all))" "kept MaxSamplePoints (pts (fst (sample_trim ?all))) (pts points \<union> {?p})"
    using sample_trim_kept [OF upd(1)] upd(2) by simp_all
  have "kept MaxSamplePoints (pts (fst (sample_trim ?all))) (?P \<union> {?p})"
    by (rule kept_union [OF k trimmed(2)]) simp
  moreover have "\<forall>p \<in> pts (fst (sample_trim ?all)). point_ok p"
    using keptD(3) [OF trimmed(2)] ok(2) new(2) by blast
  ultimately show ?thesis using add trimmed(1) by (simp add: samples_hold_def)
qed

text \<open>The state of a row builder after the samples \<open>es\<close>.\<close>

definition builder_holds :: "(float64 \<Rightarrow> float64) \<Rightarrow> aggregateRowBuilder \<Rightarrow> latencySample list \<Rightarrow> bool" where
  "builder_holds math_log b es \<longleftrightarrow> rb_SampleCount b = int (length es)
     \<and> rb_MaxTTFTMS b = peak (map ttft_of es) \<and> rb_MaxLatencyMS b = peak (map latency_of es)
     \<and> sketch_holds math_log (rb_TTFTSketch b) (map ttft_of es)
     \<and> sketch_holds math_log (rb_LatencySketch b) (map latency_of es) \<and> samples_hold (rb_SamplePoints b) es"

fun build_samples :: "(float64 \<Rightarrow> float64) \<Rightarrow> latencySample list \<Rightarrow> aggregateRowBuilder \<Rightarrow> codecError + aggregateRowBuilder" where
  "build_samples math_log [] b = Inr b"
| "build_samples math_log ((eventID, ttft, latency) # es) b =
     andThen (builder_add math_log eventID ttft latency b) (build_samples math_log es)"

lemma builder_add_holds:
  assumes b: "builder_holds math_log b es" and ok: "samples_ok (es @ [(eventID, ttft, latency)])"
  shows "\<exists>b'. builder_add math_log eventID ttft latency b = Inr b' \<and> builder_holds math_log b' (es @ [(eventID, ttft, latency)])"
proof -
  from ok have v: "0 < ttft" "0 < latency" "int (length es) < MaxInt64" by (simp_all add: samples_ok_def)
  obtain t where t: "sketch_Add math_log ttft (rb_TTFTSketch b) = Inr t" "sketch_holds math_log t (map ttft_of es @ [ttft])"
    using sketch_Add_holds [of math_log "rb_TTFTSketch b" "map ttft_of es" ttft] b v by (auto simp: builder_holds_def)
  obtain l where l: "sketch_Add math_log latency (rb_LatencySketch b) = Inr l" "sketch_holds math_log l (map latency_of es @ [latency])"
    using sketch_Add_holds [of math_log "rb_LatencySketch b" "map latency_of es" latency] b v by (auto simp: builder_holds_def)
  obtain s where s: "sample_Add eventID ttft latency (Some (rb_SamplePoints b)) = Inr s"
      "samples_hold s (es @ [(eventID, ttft, latency)])"
    using sample_Add_holds [OF _ ok] b by (auto simp: builder_holds_def)
  have count: "wrap64 (rb_SampleCount b + 1) = int (length es) + 1"
    using b v(3) by (simp add: builder_holds_def wrap64_id int64_bounds)
  show ?thesis using b t l s count v by (simp add: builder_add_def builder_holds_def peak_snoc)
qed

lemma build_samples_holds:
  assumes "builder_holds math_log b es" and "samples_ok (es @ fs)"
  shows "\<exists>b'. build_samples math_log fs b = Inr b' \<and> builder_holds math_log b' (es @ fs)"
  using assms
proof (induction fs arbitrary: b es)
  case (Cons f fs)
  obtain eventID ttft latency where f: "f = (eventID, ttft, latency)" by (metis prod_cases3)
  have "samples_ok (es @ [f])" using samples_ok_append [of "es @ [f]" fs] Cons.prems(2) by simp
  then obtain b' where "builder_add math_log eventID ttft latency b = Inr b'" "builder_holds math_log b' (es @ [f])"
    using builder_add_holds [OF Cons.prems(1)] f by blast
  with Cons.IH [of b' "es @ [f]"] Cons.prems(2) show ?case by (simp add: f)
qed simp

lemma marshal_sketch_holds:
  assumes "sketch_holds math_log s vs"
  shows "\<exists>encoded t. sketch_MarshalBinary (Some s) = Inr encoded \<and> UnmarshalSketch encoded = Inr t \<and> sketch_holds math_log t vs"
proof -
  from assms have ok: "sketch_ok s" by (simp add: sketch_holds_def)
  with sketch_encoded obtain encoded where "sketch_MarshalBinary (Some s) = Inr encoded"
      "UnmarshalSketch encoded = Inr \<lparr>sk_bins = sorted_bins s, sk_count = sk_count s\<rparr>" by blast
  with UnmarshalSketch_ok assms sorted_bins_facts(4) [OF ok] show ?thesis
    by (fastforce simp: sketch_holds_def)
qed

lemma marshal_samples_hold:
  assumes "samples_hold s es"
  shows "\<exists>encoded t. sample_MarshalBinary (Some s) = Inr encoded \<and> UnmarshalSampleSet encoded = Inr t \<and> samples_hold t es
    \<and> length t \<le> length es"
proof -
  from assms have ok: "set_ok s" "\<forall>p \<in> pts s. point_ok p" and k: "kept MaxSamplePoints (pts s) (set (map sample_point es))"
    by (simp_all add: samples_hold_def)
  have len: "length s \<le> MaxSamplePoints" using keptD(4) [OF k] card_pts [OF ok(1)] by simp
  obtain encoded t where t: "sample_MarshalBinary (Some s) = Inr encoded" "UnmarshalSampleSet encoded = Inr t" "set_ok t" "pts t = pts s"
    using sample_encoded [OF ok len] by blast
  have "card (pts s) \<le> length es"
    using card_mono [OF keptD(1,3) [OF k]] card_length [of "map sample_point es"] by simp
  then have "length t \<le> length es" using card_pts [OF t(3)] t(4) by simp
  with t ok k show ?thesis by (auto simp: samples_hold_def)
qed

lemma payload_Inr [simp]: "payload (Inr x) = Inr x"
  by (simp add: payload_def)

text \<open>A row whose payloads decode to what the samples give, with the right counters.\<close>

lemma row_holdsI:
  assumes "es \<noteq> []" and "samples_ok es" and "ul_FormatVersion row = 1" and "ul_SampleCount row = int (length es)"
    and "ul_MaxTTFTMS row = peak (map ttft_of es)" and "ul_MaxLatencyMS row = peak (map latency_of es)"
    and "UnmarshalSketch (ul_TTFTSketch row) = Inr t" and "sketch_holds math_log t (map ttft_of es)"
    and "UnmarshalSketch (ul_LatencySketch row) = Inr l" and "sketch_holds math_log l (map latency_of es)"
    and "UnmarshalSampleSet (ul_SamplePoints row) = Inr s" and "samples_hold s es" and "length s \<le> length es"
  shows "row_holds math_log row es"
proof -
  have "0 < peak (map ttft_of es)" "0 < peak (map latency_of es)"
    using assms(1) samples_okD(4,5) [OF assms(2)] by (intro peak_pos; simp)+
  with assms show ?thesis
    by (simp add: row_holds_def decodeLatencyRow_def sketch_Count_def sample_Count_def sketch_holds_def)
qed

lemma row_holdsE:
  assumes "row_holds math_log row es"
  obtains t l s where "ul_FormatVersion row = 1" "0 \<le> ul_SampleCount row" "0 < ul_MaxTTFTMS row" "0 < ul_MaxLatencyMS row"
    "UnmarshalSketch (ul_TTFTSketch row) = Inr t" "sketch_holds math_log t (map ttft_of es)"
    "UnmarshalSketch (ul_LatencySketch row) = Inr l" "sketch_holds math_log l (map latency_of es)"
    "UnmarshalSampleSet (ul_SamplePoints row) = Inr s" "samples_hold s es" "int (length s) \<le> ul_SampleCount row"
    "decodeLatencyRow row = Inr \<lparr>dr_TTFTSketch = t, dr_LatencySketch = l, dr_SamplePoints = s\<rparr>"
    "ul_SampleCount row = int (length es)" "es \<noteq> []"
    "ul_MaxTTFTMS row = peak (map ttft_of es)" "ul_MaxLatencyMS row = peak (map latency_of es)"
  using assms unfolding row_holds_def decodeLatencyRow_def
  by (auto simp: andThen_eq_Inr payload_def not_le not_less sketch_Count_def sample_Count_def split: if_splits sum.splits)

lemma builder_row_holds:
  assumes b: "builder_holds math_log b es" and es: "es \<noteq> []" "samples_ok es"
  shows "\<exists>row. builder_row b key = Inr row \<and> row_holds math_log row es"
proof -
  obtain te t where t: "sketch_MarshalBinary (Some (rb_TTFTSketch b)) = Inr te" "UnmarshalSketch te = Inr t" "sketch_holds math_log t (map ttft_of es)"
    using marshal_sketch_holds [of math_log "rb_TTFTSketch b"] b unfolding builder_holds_def by blast
  obtain le l where l: "sketch_MarshalBinary (Some (rb_LatencySketch b)) = Inr le" "UnmarshalSketch le = Inr l" "sketch_holds math_log l (map latency_of es)"
    using marshal_sketch_holds [of math_log "rb_LatencySketch b"] b unfolding builder_holds_def by blast
  obtain se s where s: "sample_MarshalBinary (Some (rb_SamplePoints b)) = Inr se" "UnmarshalSampleSet se = Inr s" "samples_hold s es" "length s \<le> length es"
    using marshal_samples_hold [of "rb_SamplePoints b"] b unfolding builder_holds_def by blast
  let ?row = "key\<lparr>ul_SampleCount := rb_SampleCount b, ul_MaxTTFTMS := rb_MaxTTFTMS b, ul_MaxLatencyMS := rb_MaxLatencyMS b,
    ul_FormatVersion := 1, ul_TTFTSketch := te, ul_LatencySketch := le, ul_SamplePoints := se\<rparr>"
  have "builder_row b key = Inr ?row" using t l s by (simp add: builder_row_def)
  moreover have "row_holds math_log ?row es"
    using b t l s es by (intro row_holdsI [where t = t and l = l and s = s]) (simp_all add: builder_holds_def)
  ultimately show ?thesis by blast
qed

lemma sketch_Merge_holds:
  assumes "sketch_holds math_log s vs" and "sketch_holds math_log t ws" and "int (length vs + length ws) \<le> MaxInt64"
  shows "\<exists>m. sketch_Merge (Some s) (Some t) = Inr m \<and> sketch_holds math_log m (vs @ ws)"
proof -
  have "sk_count s + sk_count t \<le> MaxUint64" using assms by (simp add: sketch_holds_def MaxUint64_def MaxInt64_def)
  with sketch_Merge_spec [of s t] assms show ?thesis by (auto simp: sketch_holds_def)
qed

lemma sample_Merge_holds:
  assumes "samples_hold s es" and "samples_hold t fs" and "samples_ok (es @ fs)"
  shows "\<exists>m. sample_Merge (Some s) (Some t) = Inr m \<and> samples_hold m (es @ fs)"
proof -
  let ?E = "set (map sample_point es)" and ?F = "set (map sample_point fs)"
  have k: "kept MaxSamplePoints (pts s) ?E" "kept MaxSamplePoints (pts t) ?F" and ok: "set_ok s" "set_ok t"
    using assms(1,2) by (simp_all add: samples_hold_def)
  have "consistent (?E \<union> ?F)" using samples_okD(1) [OF assms(3)] by simp
  then have "consistent (pts s \<union> pts t)" by (rule inj_on_subset) (use keptD(3) [OF k(1)] keptD(3) [OF k(2)] in blast)
  then obtain m where m: "sample_Merge (Some s) (Some t) = Inr m" "set_ok m" "kept MaxSamplePoints (pts m) (pts s \<union> pts t)"
    using sample_Merge_kept [OF ok] by blast
  have "kept MaxSamplePoints (pts m) (pts t \<union> ?E)"
    using kept_union [OF k(1) m(3)] by (simp add: Un_commute)
  then have "kept MaxSamplePoints (pts m) (?F \<union> ?E)" by (rule kept_union [OF k(2)]) simp
  moreover have "\<forall>p \<in> pts m. point_ok p"
    using keptD(3) [OF m(3)] assms(1,2) by (auto simp: samples_hold_def)
  ultimately show ?thesis using m by (simp add: samples_hold_def Un_commute)
qed

lemma mergeLatencyRows_holds:
  assumes r: "row_holds math_log existing es" and i: "row_holds math_log incoming fs" and ok: "samples_ok (es @ fs)"
  shows "\<exists>m. mergeLatencyRows existing incoming True now = Inr m \<and> row_holds math_log m (es @ fs)"
proof -
  from ok have small: "int (length es + length fs) \<le> MaxInt64" by (simp add: samples_ok_def)
  from r obtain t1 l1 s1 where r1: "sketch_holds math_log t1 (map ttft_of es)" "sketch_holds math_log l1 (map latency_of es)"
      "samples_hold s1 es" "decodeLatencyRow existing = Inr \<lparr>dr_TTFTSketch = t1, dr_LatencySketch = l1, dr_SamplePoints = s1\<rparr>"
      "ul_SampleCount existing = int (length es)" "es \<noteq> []"
      "ul_MaxTTFTMS existing = peak (map ttft_of es)" "ul_MaxLatencyMS existing = peak (map latency_of es)"
    by (rule row_holdsE)
  from i obtain t2 l2 s2 where r2: "sketch_holds math_log t2 (map ttft_of fs)" "sketch_holds math_log l2 (map latency_of fs)"
      "samples_hold s2 fs" "decodeLatencyRow incoming = Inr \<lparr>dr_TTFTSketch = t2, dr_LatencySketch = l2, dr_SamplePoints = s2\<rparr>"
      "ul_SampleCount incoming = int (length fs)"
      "ul_MaxTTFTMS incoming = peak (map ttft_of fs)" "ul_MaxLatencyMS incoming = peak (map latency_of fs)"
    by (rule row_holdsE)
  obtain t where t: "sketch_Merge (Some t1) (Some t2) = Inr t" "sketch_holds math_log t (map ttft_of (es @ fs))"
    using sketch_Merge_holds [OF r1(1) r2(1)] small by auto
  obtain l where l: "sketch_Merge (Some l1) (Some l2) = Inr l" "sketch_holds math_log l (map latency_of (es @ fs))"
    using sketch_Merge_holds [OF r1(2) r2(2)] small by auto
  obtain s where s: "sample_Merge (Some s1) (Some s2) = Inr s" "samples_hold s (es @ fs)"
    using sample_Merge_holds [OF r1(3) r2(3) ok] by blast
  obtain te t' where te: "sketch_MarshalBinary (Some t) = Inr te" "UnmarshalSketch te = Inr t'" "sketch_holds math_log t' (map ttft_of (es @ fs))"
    using marshal_sketch_holds [OF t(2)] by blast
  obtain le l' where le: "sketch_MarshalBinary (Some l) = Inr le" "UnmarshalSketch le = Inr l'" "sketch_holds math_log l' (map latency_of (es @ fs))"
    using marshal_sketch_holds [OF l(2)] by blast
  obtain se s' where se: "sample_MarshalBinary (Some s) = Inr se" "UnmarshalSampleSet se = Inr s'" "samples_hold s' (es @ fs)"
      "length s' \<le> length (es @ fs)"
    using marshal_samples_hold [OF s(2)] by blast
  let ?m = "existing
    \<lparr>ul_SampleCount := ul_SampleCount existing + ul_SampleCount incoming,
     ul_MaxTTFTMS := max (ul_MaxTTFTMS existing) (ul_MaxTTFTMS incoming),
     ul_MaxLatencyMS := max (ul_MaxLatencyMS existing) (ul_MaxLatencyMS incoming),
     ul_FormatVersion := 1, ul_TTFTSketch := te, ul_LatencySketch := le, ul_SamplePoints := se, ul_UpdatedAt := now\<rparr>"
  have "mergeLatencyRows existing incoming True now = Inr ?m"
    using small by (simp add: mergeLatencyRows_def r1 r2 t(1) l(1) s(1) te(1) le(1) se(1))
  moreover have "row_holds math_log ?m (es @ fs)"
    using te le se ok r1(5-) r2(5-)
    by (intro row_holdsI [where t = t' and l = l' and s = s']) (simp_all add: peak_append)
  ultimately show ?thesis by blast
qed

section \<open>What a query sees\<close>

definition mergers_hold :: "(float64 \<Rightarrow> float64) \<Rightarrow> queryMergers \<Rightarrow> latencySample list \<Rightarrow> bool" where
  "mergers_hold math_log m es \<longleftrightarrow>
     (\<exists>t l. qs_ttft m = Some t \<and> sketch_holds math_log t (map ttft_of es)
        \<and> qs_latency m = Some l \<and> sketch_holds math_log l (map latency_of es))
   \<and> merger_ok (qs_samples m) (set (map sample_point es))"

lemma sketch_MergeBinary_value:
  assumes "UnmarshalSketch row = Inr t" and "sketch_Merge (Some s) (Some t) = Inr m"
  shows "sketch_MergeBinary row (Some s) = (Some m, Inr (sk_count t))"
proof -
  have "fst (sketch_MergeBinary row (Some s)) = Some m" using MergeBinary_step [of row s] assms by simp
  moreover have "walkSketch row = (sk_bins t, Inr (sk_count t))" using assms(1) by (simp add: UnmarshalSketch_walk)
  ultimately show ?thesis
    by (auto simp: sketch_MergeBinary_def split: prod.splits option.splits if_splits)
qed

lemma decodeQueryLatencyRow_holds:
  assumes m: "mergers_hold math_log m es" and r: "row_holds math_log row fs" and ok: "samples_ok (es @ fs)"
  shows "\<exists>m'. decodeQueryLatencyRow row m = Inr m' \<and> mergers_hold math_log m' (es @ fs)"
proof -
  from ok have small: "int (length es + length fs) \<le> MaxInt64" by (simp add: samples_ok_def)
  from m obtain t l where tl: "qs_ttft m = Some t" "sketch_holds math_log t (map ttft_of es)"
      "qs_latency m = Some l" "sketch_holds math_log l (map latency_of es)" "merger_ok (qs_samples m) (set (map sample_point es))"
    by (auto simp: mergers_hold_def)
  from r obtain t2 l2 s2 where r2: "ul_FormatVersion row = 1" "0 \<le> ul_SampleCount row" "0 < ul_MaxTTFTMS row" "0 < ul_MaxLatencyMS row"
      "UnmarshalSketch (ul_TTFTSketch row) = Inr t2" "sketch_holds math_log t2 (map ttft_of fs)"
      "UnmarshalSketch (ul_LatencySketch row) = Inr l2" "sketch_holds math_log l2 (map latency_of fs)"
      "UnmarshalSampleSet (ul_SamplePoints row) = Inr s2" "samples_hold s2 fs" "int (length s2) \<le> ul_SampleCount row"
      "ul_SampleCount row = int (length fs)" by (rule row_holdsE)
  obtain t' where t': "sketch_Merge (Some t) (Some t2) = Inr t'" "sketch_holds math_log t' (map ttft_of (es @ fs))"
    using sketch_Merge_holds [OF tl(2) r2(6)] small by auto
  obtain l' where l': "sketch_Merge (Some l) (Some l2) = Inr l'" "sketch_holds math_log l' (map latency_of (es @ fs))"
    using sketch_Merge_holds [OF tl(4) r2(8)] small by auto
  from r2(9) obtain visited n where w: "walkSampleSet (ul_SamplePoints row) = (visited, Inr n)"
      "s2 = map (\<lambda>p. (sp_EventID p, p)) visited" unfolding UnmarshalSampleSet_walk by blast
  let ?E = "set (map sample_point es)" and ?F = "set (map sample_point fs)"
  have visited: "set visited = pts s2" by (force simp: w(2) pts_def)
  have k: "kept MaxSamplePoints (pts s2) ?F" using r2(10) by (simp add: samples_hold_def)
  have "consistent (?E \<union> ?F)" using samples_okD(1) [OF ok] by simp
  then have "consistent (?E \<union> set visited)"
    by (rule inj_on_subset) (use keptD(3) [OF k] visited in blast)
  from sample_MergeBinary_kept [OF tl(5) w(1) this] obtain q where
      q: "sample_MergeBinary (ul_SamplePoints row) (qs_samples m) = (q, Inr n)" "merger_ok q (?E \<union> pts s2)"
    unfolding visited by (cases "sample_MergeBinary (ul_SamplePoints row) (qs_samples m)") auto
  have "merger_ok q (?F \<union> ?E)"
  proof -
    from q(2) obtain points where p: "qm_samples q = Some points" "set_ok points" "pts points = set (qm_heap q)"
        "heap_inv (qm_heap q)" "kept MaxSamplePoints (set (qm_heap q)) (pts s2 \<union> ?E)"
      by (auto simp: merger_ok_def Un_commute)
    have "kept MaxSamplePoints (set (qm_heap q)) (?F \<union> ?E)" by (rule kept_union [OF k p(5)]) simp
    with p show ?thesis by (auto simp: merger_ok_def)
  qed
  then have samples: "merger_ok q (set (map sample_point (es @ fs)))" by (simp add: Un_commute)
  have counts: "int (sk_count t2) = ul_SampleCount row" "int (sk_count l2) = ul_SampleCount row" "\<not> ul_SampleCount row < int n"
    using r2(6,8,11,12) walkSampleSet_ok(2) [OF w(1)] w(2) by (simp_all add: sketch_holds_def)
  have "decodeQueryLatencyRow row m = Inr \<lparr>qs_ttft = Some t', qs_latency = Some l', qs_samples = q\<rparr>"
    using r2(1-4) tl(1,3) sketch_MergeBinary_value [OF r2(5) t'(1)] sketch_MergeBinary_value [OF r2(7) l'(1)] q(1) counts
    by (simp add: decodeQueryLatencyRow_def)
  moreover have "mergers_hold math_log \<lparr>qs_ttft = Some t', qs_latency = Some l', qs_samples = q\<rparr> (es @ fs)"
    unfolding mergers_hold_def using t'(2) l'(2) samples by (simp del: set_map map_append)
  ultimately show ?thesis by blast
qed

definition aggregate_holds :: "diagnosticsAggregate \<Rightarrow> latencySample list \<Rightarrow> bool" where
  "aggregate_holds agg es \<longleftrightarrow> da_SampleCount agg = int (length es)
     \<and> da_MaxTTFTMS agg = peak (map ttft_of es) \<and> da_MaxLatencyMS agg = peak (map latency_of es)"

lemma diagnostics_loop_holds:
  assumes "list_all2 (row_holds math_log) rows ess" and "mergers_hold math_log m es" and "aggregate_holds agg es"
    and "samples_ok (es @ concat ess)"
  shows "\<exists>m' agg'. diagnostics_loop rows m agg = Inr (m', agg') \<and> mergers_hold math_log m' (es @ concat ess)
    \<and> aggregate_holds agg' (es @ concat ess)"
  using assms
proof (induction rows ess arbitrary: m agg es rule: list_all2_induct)
  case (Cons row rows fs ess)
  have ok: "samples_ok (es @ fs)" using samples_ok_append [of "es @ fs" "concat ess"] Cons.prems(3) by simp
  obtain m1 where m1: "decodeQueryLatencyRow row m = Inr m1" "mergers_hold math_log m1 (es @ fs)"
    using decodeQueryLatencyRow_holds [OF Cons.prems(1) Cons.hyps(1) ok] by blast
  have row: "ul_SampleCount row = int (length fs)" "ul_MaxTTFTMS row = peak (map ttft_of fs)" "ul_MaxLatencyMS row = peak (map latency_of fs)"
    using Cons.hyps(1) by (simp_all add: row_holds_def)
  let ?agg = "agg\<lparr>da_SampleCount := da_SampleCount agg + ul_SampleCount row,
    da_MaxTTFTMS := max (da_MaxTTFTMS agg) (ul_MaxTTFTMS row), da_MaxLatencyMS := max (da_MaxLatencyMS agg) (ul_MaxLatencyMS row)\<rparr>"
  have "\<not> MaxInt64 - ul_SampleCount row < da_SampleCount agg"
    using ok row(1) Cons.prems(2) by (simp add: samples_ok_def aggregate_holds_def)
  moreover have "aggregate_holds ?agg (es @ fs)"
    using Cons.prems(2) row by (simp add: aggregate_holds_def peak_append)
  ultimately show ?case using Cons.IH [OF m1(2)] m1(1) Cons.prems(3) by simp
qed auto

lemma P95_holds:
  assumes "sketch_holds math_log s vs" and "vs \<noteq> []" and "int (95 * length vs + 99) \<le> MaxInt64"
  shows "P95 math_pow (Some s) = sketchRepresentativeValue math_pow
    (sort (map (bucket_key math_log) vs) ! ((95 * length vs + 99) div 100 - 1))"
proof -
  have "95 * length vs + 99 \<le> MaxUint64" using assms(3) by (simp add: MaxUint64_def MaxInt64_def)
  with P95_rank [of s "map (bucket_key math_log) vs"] assms show ?thesis by (simp add: sketch_holds_def)
qed

lemma new_builder_holds: "builder_holds math_log new_builder []"
  by (simp add: builder_holds_def new_builder_def sketch_holds_new samples_hold_new)

text \<open>
  Latency rows stay exact while they grow. Take a stored row that holds the samples
  \<open>es\<close>: its counters and maxima are those of \<open>es\<close>, its sketches count every sample in its
  bucket, and its points are the 1000 best. New samples \<open>fs\<close> of other events build a row that
  holds them, merging it into the stored row succeeds, and the merged row holds \<open>es\<close> and \<open>fs\<close>
  together, so nothing is lost or counted twice by building, encoding, storing and merging.
\<close>

theorem latency_row_lifecycle:
  assumes "row_holds math_log stored es" and "fs \<noteq> []" and "samples_ok (es @ fs)"
  shows "\<exists>b row m. build_samples math_log fs new_builder = Inr b \<and> builder_row b key = Inr row
    \<and> row_holds math_log row fs \<and> mergeLatencyRows stored row True now = Inr m \<and> row_holds math_log m (es @ fs)"
proof -
  have fs: "samples_ok fs" using samples_ok_append assms(3) by blast
  obtain b where b: "build_samples math_log fs new_builder = Inr b" "builder_holds math_log b fs"
    using build_samples_holds [OF new_builder_holds, of fs] fs by auto
  obtain row where "builder_row b key = Inr row" "row_holds math_log row fs"
    using builder_row_holds [OF b(2) assms(2) fs] by blast
  with b(1) mergeLatencyRows_holds [OF assms(1) _ assms(3)] show ?thesis by blast
qed

text \<open>
  Claim C29. The diagnostics of a query are exact over all samples of the rows it reads. For
  rows that hold samples of different events, \<open>MergeDiagnosticsRows\<close> succeeds; the count and
  the maxima are those of all samples, both 95th percentiles are the nearest-rank ones over
  all samples (up to the bucket), and the points are the 1000 best of all samples, in whatever
  way the samples were spread over rows.
\<close>

theorem latency_query_exact:
  assumes "list_all2 (row_holds math_log) rows ess" and "es = concat ess" and "samples_ok es" and "es \<noteq> []"
    and "int (95 * length es + 99) \<le> MaxInt64"
  shows "\<exists>agg points. MergeDiagnosticsRows rows = Inr agg
    \<and> da_SampleCount agg = int (length es)
    \<and> da_MaxTTFTMS agg = Max (insert 0 (set (map ttft_of es)))
    \<and> da_MaxLatencyMS agg = Max (insert 0 (set (map latency_of es)))
    \<and> P95 math_pow (da_TTFTSketch agg) = sketchRepresentativeValue math_pow
        (sort (map (bucket_key math_log) (map ttft_of es)) ! ((95 * length es + 99) div 100 - 1))
    \<and> P95 math_pow (da_LatencySketch agg) = sketchRepresentativeValue math_pow
        (sort (map (bucket_key math_log) (map latency_of es)) ! ((95 * length es + 99) div 100 - 1))
    \<and> da_SamplePoints agg = Some points \<and> kept 1000 (pts points) (set (map sample_point es))"
proof -
  have new: "merger_ok NewQuerySampleMerger {}"
    by (simp add: merger_ok_def NewQuerySampleMerger_def NewSampleSet_def set_ok_def pts_def heap_inv_def heap_from_def kept_def)
  have "mergers_hold math_log new_mergers []"
    using new sketch_holds_new [of math_log] by (simp add: mergers_hold_def new_mergers_def NewQuerySketchMerger_def)
  moreover have "aggregate_holds zero_aggregate []" by (simp add: aggregate_holds_def zero_aggregate_def)
  ultimately obtain m agg where loop: "diagnostics_loop rows new_mergers zero_aggregate = Inr (m, agg)"
      and m: "mergers_hold math_log m es" and agg: "aggregate_holds agg es"
    using diagnostics_loop_holds [OF assms(1), of new_mergers "[]" zero_aggregate] assms(2,3) by auto
  from m obtain t l points where q: "qs_ttft m = Some t" "sketch_holds math_log t (map ttft_of es)"
      "qs_latency m = Some l" "sketch_holds math_log l (map latency_of es)"
      "qm_samples (qs_samples m) = Some points" "kept MaxSamplePoints (pts points) (set (map sample_point es))"
    by (auto simp: mergers_hold_def merger_ok_def)
  have "int (sk_count t) = da_SampleCount agg" "int (sk_count l) = da_SampleCount agg"
    using q(2,4) agg by (simp_all add: sketch_holds_def aggregate_holds_def)
  then have "MergeDiagnosticsRows rows =
      Inr (agg\<lparr>da_TTFTSketch := Some t, da_LatencySketch := Some l, da_SamplePoints := Some points\<rparr>)"
    using loop q(1,3,5) by (simp add: MergeDiagnosticsRows_def TakeSketch_def TakeSamples_def sketch_Count_def)
  with agg q(6) P95_holds [OF q(2), of math_pow] P95_holds [OF q(4), of math_pow] assms(4,5) show ?thesis
    unfolding aggregate_holds_def peak_def MaxSamplePoints_def by simp
qed


section \<open>An example\<close>

definition blank_row :: usageLatencyStat where
  "blank_row =
     \<lparr>ul_ID = 0, ul_InstanceID = ''main'', ul_BucketType = ''hour'', ul_BucketStart = 0, ul_APIGroupKey = ''unknown'',
      ul_SampleCount = 0, ul_MaxTTFTMS = 0, ul_MaxLatencyMS = 0, ul_FormatVersion = 0,
      ul_TTFTSketch = [], ul_LatencySketch = [], ul_SamplePoints = [], ul_CreatedAt = 0, ul_UpdatedAt = 0\<rparr>"

definition first_page :: "latencySample list" where
  "first_page = [(1, 100, 900), (2, 50, 400)]"

definition second_page :: "latencySample list" where
  "second_page = [(3, 70, 1200)]"

lemma pages_ok: "samples_ok (first_page @ second_page)" "samples_ok first_page" "first_page \<noteq> []" "second_page \<noteq> []"
  by (simp_all add: first_page_def second_page_def samples_ok_def MaxInt64_def)

lemma first_page_row: "\<exists>row. row_holds (\<lambda>x. x) row first_page"
  using build_samples_holds [OF new_builder_holds, of first_page "\<lambda>x. x"] builder_row_holds pages_ok(2,3) by fastforce

theorem latency_row_lifecycle_witness:
  "\<exists>stored b row m. build_samples (\<lambda>x. x) second_page new_builder = Inr b \<and> builder_row b blank_row = Inr row
     \<and> mergeLatencyRows stored row True 5 = Inr m \<and> row_holds (\<lambda>x. x) m (first_page @ second_page)"
  using first_page_row latency_row_lifecycle [OF _ pages_ok(4,1), of "\<lambda>x. x" _ blank_row 5] by blast

theorem latency_query_exact_witness:
  "\<exists>row agg points. MergeDiagnosticsRows [row] = Inr agg \<and> da_SampleCount agg = 2
     \<and> da_SamplePoints agg = Some points \<and> kept 1000 (pts points) (set (map sample_point first_page))"
proof -
  obtain row where "row_holds (\<lambda>x. x) row first_page" using first_page_row by blast
  then have "list_all2 (row_holds (\<lambda>x. x)) [row] [first_page]" by simp
  moreover have "first_page = concat [first_page]" "int (95 * length first_page + 99) \<le> MaxInt64" "length first_page = 2"
    by (simp_all add: first_page_def MaxInt64_def)
  ultimately show ?thesis
    using latency_query_exact [OF _ _ pages_ok(2,3), of "\<lambda>x. x" "[row]" "[first_page]" "\<lambda>g k. k"] by fastforce
qed

end
