(* ===== verification/Go_Zone.thy ===== *)
theory Go_Zone
  imports Go_Time
begin

text \<open>
  Local time as \<open>time\<close> computes it. The zone is the parameter: \<open>Location.lookup\<close> as a function
  from a Unix second to the offset in force and to the bounds of the interval in which it is
  in force. A calendar date is its number of days since 1970-01-01, so the year, month and day
  of an instant and \<open>time.Date\<close> of them are a division and a multiplication; \<open>time.Date\<close> then
  turns wall clock seconds into an instant with the two lookups of the library.
\<close>

record zoneSpan =
  zs_offset :: int
  zs_start :: int
  zs_end :: int

type_synonym zone = "int \<Rightarrow> zoneSpan"

definition unix :: "time \<Rightarrow> int" where
  "unix t = t div Second"

text \<open>The wall clock of an instant, in seconds since 1970-01-01T00:00 of the same wall clock.\<close>

definition wall_seconds :: "zone \<Rightarrow> time \<Rightarrow> int" where
  "wall_seconds z t = unix t + zs_offset (z (unix t))"

definition wall_day :: "zone \<Rightarrow> time \<Rightarrow> int" where
  "wall_day z t = wall_seconds z t div 86400"

text \<open>\<open>time.Date\<close>, from wall clock seconds to a Unix second.\<close>

definition from_wall :: "zone \<Rightarrow> int \<Rightarrow> int" where
  "from_wall z w =
     (let span = z w
      in if zs_offset span = 0 then w
         else let utc = w - zs_offset span
              in if utc < zs_start span \<or> zs_end span \<le> utc then w - zs_offset (z utc) else utc)"

text \<open>\<open>time.Date(t.Year(), t.Month(), t.Day(), 0, 0, 0, 0, t.Location())\<close>.\<close>

definition day_start :: "zone \<Rightarrow> time \<Rightarrow> time" where
  "day_start z t = from_wall z (wall_day z t * 86400) * Second"

text \<open>\<open>t.AddDate(0, 0, n)\<close>: the same wall clock \<open>n\<close> days later.\<close>

definition AddDays :: "zone \<Rightarrow> time \<Rightarrow> int \<Rightarrow> time" where
  "AddDays z t n = from_wall z (wall_seconds z t + n * 86400) * Second + t mod Second"

text \<open>\<open>t.Truncate(time.Hour)\<close> counts from the zero time, which is a whole hour.\<close>

definition truncate_hour :: "time \<Rightarrow> time" where
  "truncate_hour t = t - t mod Hour"

text \<open>A zone with a fixed offset.\<close>

definition fixed_zone :: "int \<Rightarrow> zone" where
  "fixed_zone offset u = \<lparr>zs_offset = offset, zs_start = MinInt64, zs_end = MaxInt64\<rparr>"

lemma from_wall_fixed: "from_wall (fixed_zone offset) w = w - offset"
  by (simp add: from_wall_def fixed_zone_def Let_def)

lemma unix_bounds: "unix t * Second \<le> t" "t < (unix t + 1) * Second"
proof -
  have "t = unix t * Second + t mod Second" by (simp add: unix_def)
  moreover have "0 \<le> t mod Second" "t mod Second < Second" by (simp_all add: Second_def)
  ultimately show "unix t * Second \<le> t" "t < (unix t + 1) * Second" by (simp_all add: algebra_simps)
qed

lemma unix_of_seconds [simp]: "unix (u * Second) = u" "u * Second mod Second = 0"
  by (simp_all add: unix_def Second_def)

text \<open>
  What the code relies on for local days: every date has a midnight, at which the wall clock reads
  midnight, and the date lasts from its midnight to the next one. It holds in every zone in which no
  change of offset skips or repeats a midnight. Offsets stay within a day.
\<close>

definition midnight :: "zone \<Rightarrow> int \<Rightarrow> int" where
  "midnight z day = from_wall z (day * 86400)"

definition regular_days :: "zone \<Rightarrow> bool" where
  "regular_days z \<longleftrightarrow>
     (\<forall>day. wall_seconds z (midnight z day * Second) = day * 86400)
     \<and> (\<forall>u day. wall_day z (u * Second) = day \<longleftrightarrow> midnight z day \<le> u \<and> u < midnight z (day + 1))
     \<and> (\<forall>u. \<bar>zs_offset (z u)\<bar> \<le> 86400)"

lemma fixed_zone_regular: "\<bar>offset\<bar> \<le> 86400 \<Longrightarrow> regular_days (fixed_zone offset)"
  by (auto simp: regular_days_def midnight_def from_wall_fixed wall_day_def wall_seconds_def fixed_zone_def)

locale regular_zone =
  fixes zone :: zone
  assumes regular: "regular_days zone"
begin

lemma wall_midnight: "wall_seconds zone (midnight zone day * Second) = day * 86400"
  using regular by (simp add: regular_days_def)

lemma wall_day_unix: "wall_day zone t = wall_day zone (unix t * Second)"
  by (simp add: wall_day_def wall_seconds_def)

lemma wall_day_iff: "wall_day zone t = day \<longleftrightarrow> midnight zone day \<le> unix t \<and> unix t < midnight zone (day + 1)"
  using regular by (subst wall_day_unix) (simp add: regular_days_def)

lemma day_start_midnight: "day_start zone t = midnight zone (wall_day zone t) * Second"
  by (simp add: day_start_def midnight_def)

lemma AddDays_midnight: "AddDays zone (midnight zone day * Second) n = midnight zone (day + n) * Second"
  by (simp add: AddDays_def wall_midnight) (simp add: midnight_def algebra_simps)

lemma midnight_less: "midnight zone day < midnight zone (day + 1)"
  using wall_day_iff [of "midnight zone day * Second" day] wall_midnight [of day] by (simp add: wall_day_def)

lemma midnight_near: "\<bar>midnight zone day - day * 86400\<bar> \<le> 86400"
proof -
  have "\<bar>zs_offset (zone u)\<bar> \<le> 86400" for u using regular by (simp add: regular_days_def)
  then show ?thesis by (simp add: midnight_def from_wall_def Let_def)
qed

end

interpretation fixed_offset: regular_zone "fixed_zone 28800"
  by unfold_locales (simp add: fixed_zone_regular)

end
