(* ===== verification/Activity_Grain.thy ===== *)
theory Activity_Grain
  imports Keeper_Prelude Go_Zone "HOL-Library.Signed_Division" "HOL-Library.Monad_Syntax"
begin

text \<open>
  The buckets of the activity heat map: \<open>src/internal/activity/grain.go\<close>. A window is cut into 364
  buckets of whole seconds; \<open>medium\<close> and \<open>long\<close> cut seven and thirty days from the epoch, \<open>short\<close> cuts
  the local day, \<open>daily\<close> is the local day itself. The integers are 64 bit and wrap. The value \<open>None\<close>
  is a run that panics on a division by zero or never leaves its loop; an unknown grain is an
  error value.
\<close>

definition HeatmapBlocks :: int where "HeatmapBlocks = 364"

definition mediumWindowSeconds :: int where "mediumWindowSeconds = 7 * 24 * 60 * 60"

definition longWindowSeconds :: int where "longWindowSeconds = 30 * 24 * 60 * 60"

definition UsageActivityGrainShort :: string where "UsageActivityGrainShort = ''short''"

definition UsageActivityGrainMedium :: string where "UsageActivityGrainMedium = ''medium''"

definition UsageActivityGrainLong :: string where "UsageActivityGrainLong = ''long''"

definition UsageActivityGrainDaily :: string where "UsageActivityGrainDaily = ''daily''"

lemmas grain_names = UsageActivityGrainShort_def UsageActivityGrainMedium_def UsageActivityGrainLong_def UsageActivityGrainDaily_def

record Bucket =
  b_Start :: time
  b_End :: time

datatype activityError = UnsupportedGrain string


section \<open>Integer boundaries\<close>

definition floorDiv :: "int \<Rightarrow> int \<Rightarrow> int option" where
  "floorDiv value divisor =
     (if divisor = 0 then None
      else let quotient = wrap64 (value sdiv divisor)
           in Some (if value smod divisor < 0 then wrap64 (quotient - 1) else quotient))"

definition fixedBoundary :: "int \<Rightarrow> int \<Rightarrow> time option" where
  "fixedBoundary windowSeconds index = do {
     seconds \<leftarrow> floorDiv (wrap64 (index * windowSeconds)) HeatmapBlocks;
     Some (seconds * Second)
   }"

definition fixedBucket :: "int \<Rightarrow> int \<Rightarrow> Bucket option" where
  "fixedBucket windowSeconds index = do {
     start \<leftarrow> fixedBoundary windowSeconds index;
     stop \<leftarrow> fixedBoundary windowSeconds (wrap64 (index + 1));
     Some \<lparr>b_Start = start, b_End = stop\<rparr>
   }"

text \<open>The two loops of \<open>fixedBucketIndex\<close>, from an estimate up and then down to the bucket.\<close>

partial_function (option) fixed_up :: "int \<Rightarrow> time \<Rightarrow> int \<Rightarrow> int option" where
  "fixed_up windowSeconds timestamp index = do {
     boundary \<leftarrow> fixedBoundary windowSeconds (wrap64 (index + 1));
     if timestamp < boundary then Some index
     else fixed_up windowSeconds timestamp (wrap64 (index + 1))
   }"

partial_function (option) fixed_down :: "int \<Rightarrow> time \<Rightarrow> int \<Rightarrow> int option" where
  "fixed_down windowSeconds timestamp index = do {
     boundary \<leftarrow> fixedBoundary windowSeconds index;
     if timestamp < boundary then fixed_down windowSeconds timestamp (wrap64 (index - 1))
     else Some index
   }"

definition fixedBucketIndex :: "time \<Rightarrow> int \<Rightarrow> int option" where
  "fixedBucketIndex timestamp windowSeconds = do {
     index \<leftarrow> floorDiv (wrap64 (unix timestamp * HeatmapBlocks)) windowSeconds;
     index \<leftarrow> fixed_up windowSeconds timestamp index;
     fixed_down windowSeconds timestamp index
   }"

definition calendarBoundary :: "time \<Rightarrow> int \<Rightarrow> int \<Rightarrow> time option" where
  "calendarBoundary dayStart windowSeconds index = do {
     seconds \<leftarrow> floorDiv (wrap64 (index * windowSeconds)) HeatmapBlocks;
     Some (wrap64 (unix dayStart + seconds) * Second)
   }"

definition calendarBucket :: "time \<Rightarrow> int \<Rightarrow> int \<Rightarrow> Bucket option" where
  "calendarBucket dayStart windowSeconds index = do {
     start \<leftarrow> calendarBoundary dayStart windowSeconds index;
     stop \<leftarrow> calendarBoundary dayStart windowSeconds (wrap64 (index + 1));
     Some \<lparr>b_Start = start, b_End = stop\<rparr>
   }"

partial_function (option) short_up :: "time \<Rightarrow> int \<Rightarrow> time \<Rightarrow> int \<Rightarrow> int option" where
  "short_up dayStart windowSeconds timestamp index =
     (if wrap64 (index + 1) < HeatmapBlocks
      then do {
        boundary \<leftarrow> calendarBoundary dayStart windowSeconds (wrap64 (index + 1));
        if timestamp < boundary then Some index
        else short_up dayStart windowSeconds timestamp (wrap64 (index + 1))
      }
      else Some index)"

partial_function (option) short_down :: "time \<Rightarrow> int \<Rightarrow> time \<Rightarrow> int \<Rightarrow> int option" where
  "short_down dayStart windowSeconds timestamp index =
     (if 0 < index
      then do {
        boundary \<leftarrow> calendarBoundary dayStart windowSeconds index;
        if timestamp < boundary then short_down dayStart windowSeconds timestamp (wrap64 (index - 1))
        else Some index
      }
      else Some index)"

definition shortBucketForTimestamp :: "zone \<Rightarrow> time \<Rightarrow> Bucket option" where
  "shortBucketForTimestamp zone timestamp =
     (let dayStart = day_start zone timestamp;
          dayEnd = AddDays zone dayStart 1;
          windowSeconds = wrap64 (unix dayEnd - unix dayStart)
      in do {
        index \<leftarrow> floorDiv (wrap64 (wrap64 (unix timestamp - unix dayStart) * HeatmapBlocks)) windowSeconds;
        index \<leftarrow> short_up dayStart windowSeconds timestamp index;
        index \<leftarrow> short_down dayStart windowSeconds timestamp index;
        calendarBucket dayStart windowSeconds index
      })"

text \<open>The loop of \<open>shortWindowEndingAt\<close> fills the buckets from the last to the first.\<close>

fun short_back :: "zone \<Rightarrow> nat \<Rightarrow> time \<Rightarrow> Bucket list \<Rightarrow> Bucket list option" where
  "short_back zone 0 cursor buckets = Some buckets"
| "short_back zone (Suc n) cursor buckets = do {
     bucket \<leftarrow> shortBucketForTimestamp zone (cursor - Nanosecond);
     short_back zone n (b_Start bucket) (bucket # buckets)
   }"

definition shortWindowEndingAt :: "zone \<Rightarrow> time \<Rightarrow> Bucket list option" where
  "shortWindowEndingAt zone referenceEnd = do {
     containing \<leftarrow> shortBucketForTimestamp zone referenceEnd;
     short_back zone (nat HeatmapBlocks) (if referenceEnd \<noteq> b_Start containing then b_End containing else b_Start containing) []
   }"

definition fixedWindowSeconds :: "string \<Rightarrow> activityError + int" where
  "fixedWindowSeconds grain =
     (if grain = UsageActivityGrainMedium then Inr mediumWindowSeconds
      else if grain = UsageActivityGrainLong then Inr longWindowSeconds
      else Inl (UnsupportedGrain grain))"

definition dailyBucket :: "zone \<Rightarrow> time \<Rightarrow> Bucket" where
  "dailyBucket zone timestamp =
     (let start = day_start zone timestamp in \<lparr>b_Start = start, b_End = AddDays zone start 1\<rparr>)"

definition BucketForTimestamp :: "zone \<Rightarrow> string \<Rightarrow> time \<Rightarrow> (activityError + Bucket) option" where
  "BucketForTimestamp zone grain timestamp =
     (if grain = UsageActivityGrainShort then map_option Inr (shortBucketForTimestamp zone timestamp)
      else if grain = UsageActivityGrainDaily then Some (Inr (dailyBucket zone timestamp))
      else case fixedWindowSeconds grain of
             Inl err \<Rightarrow> Some (Inl err)
           | Inr windowSeconds \<Rightarrow> do {
               index \<leftarrow> fixedBucketIndex timestamp windowSeconds;
               bucket \<leftarrow> fixedBucket windowSeconds index;
               Some (Inr bucket)
             })"

definition dailyWindow :: "zone \<Rightarrow> time \<Rightarrow> Bucket list" where
  "dailyWindow zone referenceEnd =
     (let end0 = day_start zone referenceEnd;
          stop = (if referenceEnd \<noteq> end0 then AddDays zone end0 1 else end0);
          start = AddDays zone stop (- HeatmapBlocks)
      in map (\<lambda>index. let bucketStart = AddDays zone start index in \<lparr>b_Start = bucketStart, b_End = AddDays zone bucketStart 1\<rparr>)
           [0..HeatmapBlocks - 1])"

text \<open>The buckets of consecutive indices.\<close>

fun fixed_run :: "int \<Rightarrow> int list \<Rightarrow> Bucket list option" where
  "fixed_run windowSeconds [] = Some []"
| "fixed_run windowSeconds (i # is) = do {
     bucket \<leftarrow> fixedBucket windowSeconds i;
     buckets \<leftarrow> fixed_run windowSeconds is;
     Some (bucket # buckets)
   }"

definition WindowEndingAt :: "zone \<Rightarrow> string \<Rightarrow> time \<Rightarrow> (activityError + Bucket list) option" where
  "WindowEndingAt zone grain referenceEnd =
     (if grain = UsageActivityGrainShort then map_option Inr (shortWindowEndingAt zone referenceEnd)
      else if grain = UsageActivityGrainDaily then Some (Inr (dailyWindow zone referenceEnd))
      else case fixedWindowSeconds grain of
             Inl err \<Rightarrow> Some (Inl err)
           | Inr windowSeconds \<Rightarrow> do {
               endIndex \<leftarrow> fixedBucketIndex referenceEnd windowSeconds;
               containing \<leftarrow> fixedBucket windowSeconds endIndex;
               let endIndex = (if referenceEnd \<noteq> b_Start containing then wrap64 (endIndex + 1) else endIndex);
               let startIndex = wrap64 (endIndex - HeatmapBlocks);
               buckets \<leftarrow> fixed_run windowSeconds (map (\<lambda>offset. wrap64 (startIndex + offset)) [0..HeatmapBlocks - 1]);
               Some (Inr buckets)
             })"


section \<open>Cells\<close>

text \<open>
  What the buckets promise: every instant lies in its bucket, and a bucket is the bucket of all its
  instants. Then the buckets tile the time line, and stepping back over their starts yields
  consecutive buckets.
\<close>

locale time_cells =
  fixes cell :: "time \<Rightarrow> Bucket"
  assumes contains: "b_Start (cell t) \<le> t" "t < b_End (cell t)"
    and same_cell: "b_Start (cell t) \<le> u \<Longrightarrow> u < b_End (cell t) \<Longrightarrow> cell u = cell t"
begin

text \<open>The bucket after a bucket starts where that one ends, and the one before a start ends there.\<close>

lemma next_starts: "b_Start (cell (b_End (cell t))) = b_End (cell t)"
proof (rule ccontr)
  let ?e = "b_End (cell t)"
  assume "b_Start (cell ?e) \<noteq> ?e"
  then have "b_Start (cell ?e) \<le> ?e - 1" using contains(1) [of ?e] by simp
  moreover have "?e - 1 < b_End (cell ?e)" using contains(2) [of ?e] by simp
  ultimately have "cell (?e - 1) = cell ?e" by (rule same_cell)
  moreover have "cell (?e - 1) = cell t" using contains [of t] by (intro same_cell) simp_all
  ultimately show False using contains(2) [of ?e] by simp
qed

lemma previous_ends: "b_Start (cell c) = c \<Longrightarrow> b_End (cell (c - 1)) = c"
proof (rule ccontr)
  assume start: "b_Start (cell c) = c" and "b_End (cell (c - 1)) \<noteq> c"
  then have "c < b_End (cell (c - 1))" using contains(2) [of "c - 1"] by simp
  then have "cell c = cell (c - 1)" using contains(1) [of "c - 1"] by (intro same_cell) simp_all
  with start contains(1) [of "c - 1"] show False by simp
qed

lemma start_idem: "b_Start (cell (b_Start (cell t))) = b_Start (cell t)"
  using same_cell [of t "b_Start (cell t)"] contains [of t] by simp

end

text \<open>Consecutive buckets from the first to an end.\<close>

fun chained :: "Bucket list \<Rightarrow> time \<Rightarrow> bool" where
  "chained [] stop = True"
| "chained [b] stop = (b_End b = stop)"
| "chained (b # b' # bs) stop = (b_End b = b_Start b' \<and> chained (b' # bs) stop)"

section \<open>The arithmetic of the boundaries\<close>

lemma div_int64:
  assumes "0 < d" and "is_int64 v"
  shows "is_int64 (v div d)"
proof -
  have "MinInt64 * d \<le> MinInt64 * 1" using assms(1) by (intro mult_left_mono_neg) (simp_all add: MinInt64_def)
  moreover have "MaxInt64 * 1 < (MaxInt64 + 1) * d"
    using assms(1) mult_left_mono [of 1 d MaxInt64] by (simp add: distrib_right MaxInt64_def)
  ultimately show ?thesis
    using assms int_div_le_iff [of d v MaxInt64] int_le_div_iff [of d MinInt64 v] by (simp add: is_int64_def)
qed

lemma floorDiv_exact:
  assumes "0 < d" and "is_int64 v"
  shows "floorDiv v d = Some (v div d)"
proof -
  have sign: "\<not> v mod d < 0" using pos_mod_sign [OF assms(1), of v] by simp
  have q: "v sdiv d = (if v smod d < 0 then v div d + 1 else v div d)"
    using assms(1) sign
    by (auto simp: signed_divide_int_def signed_modulo_int_def sgn_if zdiv_zminus1_eq_if zmod_zminus1_eq_if)
  have neg: "v div d < 0" if "v smod d < 0"
  proof -
    from that have "v < 0" using assms(1) sign
      by (auto simp: signed_modulo_int_def sgn_if split: if_splits)
    then show ?thesis using int_le_div_iff [OF assms(1), of 0 v] by linarith
  qed
  have "is_int64 (v sdiv d)" using div_int64 [OF assms] neg q by (auto simp: int64_bounds)
  then show ?thesis using assms(1) div_int64 [OF assms] q by (simp add: floorDiv_def Let_def wrap64_id)
qed

text \<open>
  The boundary before a given second: \<open>i\<close> windows of \<open>w\<close> seconds, cut into 364, end by second \<open>u\<close>
  exactly when \<open>i\<close> is at most \<open>cell_index w u\<close>.
\<close>

definition edge :: "int \<Rightarrow> int \<Rightarrow> int" where
  "edge w i = i * w div HeatmapBlocks"

definition cell_index :: "int \<Rightarrow> int \<Rightarrow> int" where
  "cell_index w u = ((u + 1) * HeatmapBlocks - 1) div w"

lemma edge_le_iff: "0 < w \<Longrightarrow> edge w i \<le> u \<longleftrightarrow> i \<le> cell_index w u"
  by (simp add: edge_def cell_index_def int_div_le_iff int_le_div_iff HeatmapBlocks_def) linarith

lemma edge_0 [simp]: "edge w 0 = 0" and edge_last [simp]: "edge w HeatmapBlocks = w"
  by (simp_all add: edge_def HeatmapBlocks_def)

text \<open>The cells of a window of \<open>w\<close> seconds from the anchor \<open>a\<close>.\<close>

definition anchored :: "int \<Rightarrow> int \<Rightarrow> time \<Rightarrow> Bucket" where
  "anchored a w t =
     (let i = cell_index w (unix t - a) in \<lparr>b_Start = (a + edge w i) * Second, b_End = (a + edge w (i + 1)) * Second\<rparr>)"

lemma seconds_le_iff: "s * Second \<le> t \<longleftrightarrow> s \<le> unix t" and seconds_less_iff: "t < s * Second \<longleftrightarrow> unix t < s"
  using int_le_div_iff [of Second s t] by (auto simp: unix_def Second_def not_less [symmetric])

lemma anchored_contains:
  assumes "0 < w"
  shows "b_Start (anchored a w t) \<le> t" "t < b_End (anchored a w t)"
proof -
  let ?i = "cell_index w (unix t - a)"
  have "edge w ?i \<le> unix t - a" "\<not> edge w (?i + 1) \<le> unix t - a" by (simp_all add: edge_le_iff [OF assms])
  then show "b_Start (anchored a w t) \<le> t" "t < b_End (anchored a w t)"
    by (simp_all add: anchored_def Let_def seconds_le_iff seconds_less_iff)
qed

lemma anchored_same:
  assumes "0 < w" and "b_Start (anchored a w t) \<le> u" and "u < b_End (anchored a w t)"
  shows "anchored a w u = anchored a w t"
proof -
  let ?i = "cell_index w (unix t - a)"
  have "edge w ?i \<le> unix u - a" "\<not> edge w (?i + 1) \<le> unix u - a"
    using assms(2,3) by (simp_all add: anchored_def Let_def seconds_le_iff seconds_less_iff)
  then have "cell_index w (unix u - a) = ?i" by (simp add: edge_le_iff [OF assms(1)])
  then show ?thesis by (simp add: anchored_def)
qed

lemma anchored_cells: "0 < w \<Longrightarrow> time_cells (anchored a w)"
  using anchored_contains anchored_same by unfold_locales

interpretation medium: time_cells "anchored 0 mediumWindowSeconds"
  by (rule anchored_cells) (simp add: mediumWindowSeconds_def)

interpretation long: time_cells "anchored 0 longWindowSeconds"
  by (rule anchored_cells) (simp add: longWindowSeconds_def)

text \<open>The cells of the local days, and those each local day is cut into.\<close>

definition short_cell :: "zone \<Rightarrow> time \<Rightarrow> Bucket" where
  "short_cell zone t =
     (let day = wall_day zone t in anchored (midnight zone day) (midnight zone (day + 1) - midnight zone day) t)"

context regular_zone begin

lemma dailyBucket_midnight:
  "dailyBucket zone t = \<lparr>b_Start = midnight zone (wall_day zone t) * Second, b_End = midnight zone (wall_day zone t + 1) * Second\<rparr>"
  by (simp add: dailyBucket_def Let_def day_start_midnight AddDays_midnight)

lemma daily_cells: "time_cells (dailyBucket zone)"
proof
  fix t u
  show "b_Start (dailyBucket zone t) \<le> t" "t < b_End (dailyBucket zone t)"
    using wall_day_iff [of t "wall_day zone t"] by (simp_all add: dailyBucket_midnight seconds_le_iff seconds_less_iff)
  assume "b_Start (dailyBucket zone t) \<le> u" "u < b_End (dailyBucket zone t)"
  then have "wall_day zone u = wall_day zone t"
    by (simp add: dailyBucket_midnight seconds_le_iff seconds_less_iff wall_day_iff)
  then show "dailyBucket zone u = dailyBucket zone t" by (simp add: dailyBucket_midnight)
qed

text \<open>A cell of a day lies within the day.\<close>

lemma short_cell_within:
  "b_Start (dailyBucket zone t) \<le> b_Start (short_cell zone t)" "b_End (short_cell zone t) \<le> b_End (dailyBucket zone t)"
  "0 \<le> cell_index (midnight zone (wall_day zone t + 1) - midnight zone (wall_day zone t)) (unix t - midnight zone (wall_day zone t))"
  "cell_index (midnight zone (wall_day zone t + 1) - midnight zone (wall_day zone t)) (unix t - midnight zone (wall_day zone t)) < HeatmapBlocks"
proof -
  let ?m = "midnight zone (wall_day zone t)" and ?w = "midnight zone (wall_day zone t + 1) - midnight zone (wall_day zone t)"
  let ?i = "cell_index ?w (unix t - ?m)"
  have w: "0 < ?w" using midnight_less [of "wall_day zone t"] by simp
  have t: "?m \<le> unix t" "unix t < ?m + ?w" using wall_day_iff [of t "wall_day zone t"] by simp_all
  have "edge ?w 0 \<le> unix t - ?m" "\<not> edge ?w HeatmapBlocks \<le> unix t - ?m" unfolding edge_0 edge_last using t by linarith+
  then show low: "0 \<le> ?i" and high: "?i < HeatmapBlocks" by (simp_all only: edge_le_iff [OF w] not_le)
  have mono: "edge ?w i \<le> edge ?w j" if "i \<le> j" for i j
    using that w unfolding edge_def by (intro zdiv_mono1 mult_right_mono) (simp_all add: HeatmapBlocks_def)
  show "b_Start (dailyBucket zone t) \<le> b_Start (short_cell zone t)"
    using mono [OF low] by (simp add: dailyBucket_midnight short_cell_def anchored_def Let_def Second_def)
  show "b_End (short_cell zone t) \<le> b_End (dailyBucket zone t)"
    using mono [of "?i + 1" HeatmapBlocks] high by (simp add: dailyBucket_midnight short_cell_def anchored_def Let_def Second_def)
qed

lemma short_cells: "time_cells (short_cell zone)"
proof
  fix t u
  have w: "0 < midnight zone (day + 1) - midnight zone day" for day using midnight_less [of day] by simp
  show "b_Start (short_cell zone t) \<le> t" "t < b_End (short_cell zone t)"
    using anchored_contains [OF w] by (simp_all add: short_cell_def Let_def)
  assume u: "b_Start (short_cell zone t) \<le> u" "u < b_End (short_cell zone t)"
  then have "b_Start (dailyBucket zone t) \<le> u" "u < b_End (dailyBucket zone t)"
    using short_cell_within(1,2) [of t] by simp_all
  then have same: "wall_day zone u = wall_day zone t"
    by (simp add: dailyBucket_midnight seconds_le_iff seconds_less_iff wall_day_iff)
  show "short_cell zone u = short_cell zone t"
    using anchored_same [OF w] u unfolding short_cell_def Let_def same by blast
qed

end

sublocale regular_zone \<subseteq> daily: time_cells "dailyBucket zone"
  by (rule daily_cells)

sublocale regular_zone \<subseteq> short: time_cells "short_cell zone"
  by (rule short_cells)

section \<open>The code computes the cells\<close>

text \<open>
  The range in which nothing wraps: \<open>2 ^ 50\<close> seconds are 35 million years, and a stored timestamp has
  a four-digit year.
\<close>

definition storable :: "time \<Rightarrow> bool" where
  "storable t \<longleftrightarrow> \<bar>unix t\<bar> \<le> 2 ^ 50"

lemma abs_le_mult: "1 \<le> w \<Longrightarrow> \<bar>i\<bar> \<le> \<bar>i * w\<bar>" for i w :: int
  using mult_left_mono [of 1 w "\<bar>i\<bar>"] by (simp add: abs_mult)

text \<open>All indices from the estimate to the one after the right bucket are small enough.\<close>

lemma index_range:
  assumes w: "0 < w" "w \<le> 2 ^ 40" and u: "\<bar>u\<bar> \<le> 2 ^ 51"
    and i: "u * HeatmapBlocks div w \<le> i" "i \<le> cell_index w u + 1"
  shows "is_int64 (i * w)" "is_int64 i" "is_int64 (i + 1)" "is_int64 (i - 1)"
proof -
  have "(u * HeatmapBlocks div w) * w \<le> i * w" "i * w \<le> (cell_index w u + 1) * w"
    using i w(1) by (simp_all only: mult_le_cancel_right_pos)
  moreover have "u * HeatmapBlocks - w < (u * HeatmapBlocks div w) * w"
    using int_div_le_iff [OF w(1), of "u * HeatmapBlocks" "u * HeatmapBlocks div w"] by (simp add: distrib_right)
  moreover have "(cell_index w u + 1) * w \<le> u * HeatmapBlocks + 363 + w"
    using int_le_div_iff [OF w(1), of "cell_index w u" "(u + 1) * HeatmapBlocks - 1"]
    by (simp add: cell_index_def distrib_right HeatmapBlocks_def)
  moreover have "\<bar>u * HeatmapBlocks\<bar> \<le> 2 ^ 60" using u by (simp add: HeatmapBlocks_def abs_mult)
  ultimately have "i * w \<le> 2 ^ 60 + 363 + 2 ^ 40" "- (2 ^ 60) - 2 ^ 40 \<le> i * w" using w by linarith+
  then have "\<bar>i * w\<bar> \<le> 2 ^ 61" by (simp add: abs_le_iff)
  moreover from this have "\<bar>i\<bar> \<le> 2 ^ 61" using abs_le_mult [of w i] w(1) by linarith
  ultimately show "is_int64 (i * w)" "is_int64 i" "is_int64 (i + 1)" "is_int64 (i - 1)"
    by (auto simp: int64_bounds abs_le_iff)
qed

lemma estimate_le: "0 < w \<Longrightarrow> u * HeatmapBlocks div w \<le> cell_index w u"
  unfolding cell_index_def by (rule zdiv_mono1) (simp_all add: HeatmapBlocks_def)

lemma floorDiv_estimate: "0 < w \<Longrightarrow> \<bar>u\<bar> \<le> 2 ^ 51 \<Longrightarrow> floorDiv (wrap64 (u * HeatmapBlocks)) w = Some (u * HeatmapBlocks div w)"
  by (subst wrap64_id) (auto simp: HeatmapBlocks_def int64_bounds abs_le_iff intro!: floorDiv_exact)

lemma fixedBoundary_edge: "is_int64 (i * w) \<Longrightarrow> fixedBoundary w i = Some (edge w i * Second)"
  by (simp add: fixedBoundary_def wrap64_id floorDiv_exact edge_def HeatmapBlocks_def)

lemma fixed_up_finds:
  assumes w: "0 < w" "w \<le> 2 ^ 40" and u: "\<bar>unix t\<bar> \<le> 2 ^ 51"
    and "unix t * HeatmapBlocks div w \<le> i" and "i \<le> cell_index w (unix t)"
  shows "fixed_up w t i = Some (cell_index w (unix t))"
  using assms(4,5)
proof (induction "nat (cell_index w (unix t) - i)" arbitrary: i)
  case 0
  then have i: "i = cell_index w (unix t)" by simp
  have "\<not> edge w (i + 1) \<le> unix t" by (simp add: edge_le_iff [OF w(1)] i)
  then show ?case
    using index_range [OF w u, of "i + 1"] index_range [OF w u, of i] 0
    by (subst fixed_up.simps) (simp add: wrap64_id fixedBoundary_edge seconds_less_iff i)
next
  case (Suc n)
  have "edge w (i + 1) \<le> unix t" using Suc.hyps(2) by (simp add: edge_le_iff [OF w(1)])
  moreover have "fixed_up w t (i + 1) = Some (cell_index w (unix t))" using Suc by (intro Suc.hyps(1)) simp_all
  ultimately show ?case
    using index_range [OF w u, of "i + 1"] index_range [OF w u, of i] Suc.prems Suc.hyps(2)
    by (subst fixed_up.simps) (simp add: wrap64_id fixedBoundary_edge seconds_less_iff)
qed

lemma fixedBucketIndex_exact:
  assumes w: "0 < w" "w \<le> 2 ^ 40" and u: "\<bar>unix t\<bar> \<le> 2 ^ 51"
  shows "fixedBucketIndex t w = Some (cell_index w (unix t))"
proof -
  let ?i = "cell_index w (unix t)"
  have "fixed_up w t (unix t * HeatmapBlocks div w) = Some ?i"
    by (rule fixed_up_finds [OF w u]) (simp_all add: estimate_le w(1))
  moreover have "edge w ?i \<le> unix t" by (simp add: edge_le_iff [OF w(1)])
  moreover have "is_int64 (?i * w)" using index_range(1) [OF w u, of ?i] estimate_le [OF w(1)] by simp
  ultimately show ?thesis
    by (simp add: fixedBucketIndex_def floorDiv_estimate [OF w(1) u])
      (subst fixed_down.simps, simp add: fixedBoundary_edge seconds_less_iff)
qed

lemma fixedBucket_cell:
  assumes "is_int64 (i * w)" "is_int64 ((i + 1) * w)" "is_int64 (i + 1)"
  shows "fixedBucket w i = Some \<lparr>b_Start = edge w i * Second, b_End = edge w (i + 1) * Second\<rparr>"
  using assms by (simp add: fixedBucket_def wrap64_id fixedBoundary_edge)

text \<open>The same within a day that starts at second \<open>m\<close> and has \<open>w\<close> seconds.\<close>

lemma calendarBoundary_edge:
  assumes "0 < w" "w \<le> 2 ^ 40" "\<bar>m\<bar> \<le> 2 ^ 52" "0 \<le> i" "i \<le> HeatmapBlocks"
  shows "calendarBoundary (m * Second) w i = Some ((m + edge w i) * Second)"
proof -
  have iw: "0 \<le> i * w" "i * w \<le> HeatmapBlocks * w" using assms(1,4,5) by (simp_all add: mult_right_mono)
  then have "is_int64 (i * w)" using assms(2) by (simp add: int64_bounds HeatmapBlocks_def)
  moreover have "0 \<le> edge w i" "edge w i \<le> w"
    using iw zdiv_mono1 [OF iw(2), of HeatmapBlocks] by (simp_all add: edge_def HeatmapBlocks_def pos_imp_zdiv_nonneg_iff)
  then have "is_int64 (m + edge w i)" using assms(2,3) by (simp add: int64_bounds abs_le_iff)
  ultimately show ?thesis
    by (simp add: calendarBoundary_def wrap64_id floorDiv_exact edge_def HeatmapBlocks_def)
qed

lemma short_up_finds:
  assumes w: "0 < w" "w \<le> 2 ^ 40" "\<bar>m\<bar> \<le> 2 ^ 52" and j: "cell_index w (unix t - m) < HeatmapBlocks"
    and "0 \<le> i" and "i \<le> cell_index w (unix t - m)"
  shows "short_up (m * Second) w t i = Some (cell_index w (unix t - m))"
  using assms(5,6)
proof (induction "nat (cell_index w (unix t - m) - i)" arbitrary: i)
  case 0
  then have i: "i = cell_index w (unix t - m)" by simp
  have "\<not> edge w (i + 1) \<le> unix t - m" by (simp add: edge_le_iff [OF w(1)] i)
  then show ?case
    using 0 j calendarBoundary_edge [OF w, of "i + 1"] wrap64_count [of "i + 1"]
    by (subst short_up.simps) (simp add: i seconds_less_iff is_count_def MaxInt64_def HeatmapBlocks_def)
next
  case (Suc n)
  have "edge w (i + 1) \<le> unix t - m" using Suc.hyps(2) by (simp add: edge_le_iff [OF w(1)])
  moreover have "short_up (m * Second) w t (i + 1) = Some (cell_index w (unix t - m))"
    using Suc by (intro Suc.hyps(1)) simp_all
  ultimately show ?case
    using Suc j calendarBoundary_edge [OF w, of "i + 1"] wrap64_count [of "i + 1"]
    by (subst short_up.simps) (simp add: seconds_less_iff is_count_def MaxInt64_def HeatmapBlocks_def)
qed

lemma short_down_stays:
  assumes w: "0 < w" "w \<le> 2 ^ 40" "\<bar>m\<bar> \<le> 2 ^ 52" and i: "0 \<le> i" "i \<le> HeatmapBlocks" "edge w i \<le> unix t - m"
  shows "short_down (m * Second) w t i = Some i"
  using i calendarBoundary_edge [OF w i(1,2)] by (subst short_down.simps) (simp add: seconds_less_iff)

context regular_zone begin

text \<open>A date has at most three times 86400 seconds.\<close>

lemma day_length: "0 < midnight zone (day + 1) - midnight zone day" "midnight zone (day + 1) - midnight zone day \<le> 259200"
  using midnight_less [of day] midnight_near [of day] midnight_near [of "day + 1"] by (auto simp: abs_le_iff)

lemma shortBucket_exact:
  assumes "\<bar>unix t\<bar> \<le> 2 ^ 51"
  shows "shortBucketForTimestamp zone t = Some (short_cell zone t)"
proof -
  let ?day = "wall_day zone t"
  define m where "m = midnight zone ?day"
  define w where "w = midnight zone (?day + 1) - m"
  let ?j = "cell_index w (unix t - m)"
  have w: "0 < w" "w \<le> 259200" using day_length [of ?day] by (simp_all add: w_def m_def)
  have t: "m \<le> unix t" "unix t < m + w" using wall_day_iff [of t ?day] by (simp_all add: w_def m_def)
  have m: "\<bar>m\<bar> \<le> 2 ^ 52" and w40: "w \<le> 2 ^ 40" using assms t w by (simp_all add: abs_le_iff)
  have j: "0 \<le> ?j" "?j < HeatmapBlocks" using short_cell_within(3,4) [of t] by (simp_all add: w_def m_def)
  have start: "day_start zone t = m * Second" and stop: "AddDays zone (m * Second) 1 = (m + w) * Second"
    by (simp_all add: day_start_midnight AddDays_midnight w_def m_def)
  have "is_int64 w" "is_int64 (unix t - m)" using t w by (simp_all add: int64_bounds)
  then have wraps: "wrap64 (unix (AddDays zone (m * Second) 1) - m) = w" "wrap64 (unix t - m) = unix t - m"
    by (simp_all add: stop wrap64_id)
  have estimate: "floorDiv (wrap64 ((unix t - m) * HeatmapBlocks)) w = Some ((unix t - m) * HeatmapBlocks div w)"
    using t w by (intro floorDiv_estimate) simp_all
  have up: "short_up (m * Second) w t ((unix t - m) * HeatmapBlocks div w) = Some ?j"
    using t w by (intro short_up_finds w(1) w40 m j(2) estimate_le) (simp_all add: HeatmapBlocks_def pos_imp_zdiv_nonneg_iff)
  have down: "short_down (m * Second) w t ?j = Some ?j"
    using j by (intro short_down_stays w(1) w40 m) (simp_all add: edge_le_iff [OF w(1)])
  have bounds: "calendarBoundary (m * Second) w ?j = Some ((m + edge w ?j) * Second)"
      "calendarBoundary (m * Second) w (?j + 1) = Some ((m + edge w (?j + 1)) * Second)" "wrap64 (?j + 1) = ?j + 1"
    using j by (intro calendarBoundary_edge w(1) w40 m wrap64_count; simp add: is_count_def MaxInt64_def HeatmapBlocks_def)+
  have "short_cell zone t = anchored m w t" by (simp add: short_cell_def Let_def m_def w_def)
  then show ?thesis
    by (simp add: shortBucketForTimestamp_def Let_def start wraps estimate up down calendarBucket_def bounds anchored_def)
qed

end

section \<open>Grains\<close>

definition known_grain :: "string \<Rightarrow> bool" where
  "known_grain grain \<longleftrightarrow>
     grain \<in> {UsageActivityGrainShort, UsageActivityGrainMedium, UsageActivityGrainLong, UsageActivityGrainDaily}"

definition grain_cell :: "zone \<Rightarrow> string \<Rightarrow> time \<Rightarrow> Bucket" where
  "grain_cell zone grain =
     (if grain = UsageActivityGrainShort then short_cell zone
      else if grain = UsageActivityGrainDaily then dailyBucket zone
      else if grain = UsageActivityGrainMedium then anchored 0 mediumWindowSeconds
      else anchored 0 longWindowSeconds)"

lemmas window_lengths = mediumWindowSeconds_def longWindowSeconds_def

lemma unknown_grain: "\<not> known_grain grain \<Longrightarrow> BucketForTimestamp zone grain t = Some (Inl (UnsupportedGrain grain))"
    "\<not> known_grain grain \<Longrightarrow> WindowEndingAt zone grain t = Some (Inl (UnsupportedGrain grain))"
  by (simp_all add: known_grain_def BucketForTimestamp_def WindowEndingAt_def fixedWindowSeconds_def)

text \<open>A fixed bucket as the cell of its second.\<close>

lemma fixed_cell:
  assumes "0 < w" "w \<le> 2 ^ 40" and "\<bar>unix t\<bar> \<le> 2 ^ 51"
  shows "fixedBucket w (cell_index w (unix t)) = Some (anchored 0 w t)"
proof -
  have "is_int64 (cell_index w (unix t) * w)" "is_int64 (cell_index w (unix t) + 1)" "is_int64 ((cell_index w (unix t) + 1) * w)"
    using index_range [OF assms, of "cell_index w (unix t)"] index_range(1) [OF assms, of "cell_index w (unix t) + 1"]
      estimate_le [OF assms(1), of "unix t"] by simp_all
  then show ?thesis by (simp add: fixedBucket_cell anchored_def Let_def)
qed

context regular_zone begin

lemma grain_cells: "time_cells (grain_cell zone grain)"
  by (simp add: grain_cell_def daily_cells short_cells medium.time_cells_axioms long.time_cells_axioms)

lemma BucketForTimestamp_exact:
  assumes "known_grain grain" and "\<bar>unix t\<bar> \<le> 2 ^ 51"
  shows "BucketForTimestamp zone grain t = Some (Inr (grain_cell zone grain t))"
  using assms
  by (auto simp: known_grain_def BucketForTimestamp_def grain_cell_def grain_names fixedWindowSeconds_def
      shortBucket_exact fixedBucketIndex_exact fixed_cell window_lengths)

end

sublocale regular_zone \<subseteq> grain: time_cells "grain_cell zone grain" for grain
  by (rule grain_cells)

text \<open>No cell is longer than a date.\<close>

lemma edge_step: "0 < w \<Longrightarrow> edge w (i + 1) \<le> edge w i + w"
proof -
  assume w: "0 < w"
  then have "i * w + w \<le> i * w + HeatmapBlocks * w" by (simp add: HeatmapBlocks_def)
  from zdiv_mono1 [OF this, of HeatmapBlocks] show ?thesis by (simp add: edge_def HeatmapBlocks_def distrib_right)
qed

lemma edge_strict: "HeatmapBlocks \<le> w \<Longrightarrow> edge w i < edge w (i + 1)"
proof -
  assume "HeatmapBlocks \<le> w"
  then have "i * w + HeatmapBlocks * 1 \<le> (i + 1) * w" by (simp add: distrib_right)
  from zdiv_mono1 [OF this, of HeatmapBlocks] show ?thesis by (simp add: edge_def HeatmapBlocks_def)
qed

lemma anchored_width: "0 < w \<Longrightarrow> b_End (anchored a w t) \<le> b_Start (anchored a w t) + w * Second"
  using edge_step [of w "cell_index w (unix t - a)"] by (simp add: anchored_def Let_def Second_def)

lemma anchored_start:
  assumes "HeatmapBlocks \<le> w"
  shows "anchored a w ((a + edge w i) * Second) = \<lparr>b_Start = (a + edge w i) * Second, b_End = (a + edge w (i + 1)) * Second\<rparr>"
proof -
  have w: "0 < w" using assms by (simp add: HeatmapBlocks_def)
  have "\<not> i + 1 \<le> cell_index w (edge w i)" "i \<le> cell_index w (edge w i)"
    unfolding edge_le_iff [OF w, symmetric] using edge_strict [OF assms, of i] by simp_all
  then have "cell_index w (edge w i) = i" by simp
  then show ?thesis by (simp add: anchored_def)
qed

context regular_zone begin

lemma grain_width: "b_End (grain_cell zone grain t) \<le> b_Start (grain_cell zone grain t) + 2592000 * Second"
proof -
  have "b_End (short_cell zone t) \<le> b_Start (short_cell zone t) + 2592000 * Second"
    using anchored_width [OF day_length(1), of "midnight zone (wall_day zone t)" "wall_day zone t" t] day_length(2) [of "wall_day zone t"]
    by (simp add: short_cell_def Let_def Second_def)
  moreover have "b_End (dailyBucket zone t) \<le> b_Start (dailyBucket zone t) + 2592000 * Second"
    using day_length(2) [of "wall_day zone t"] by (simp add: dailyBucket_midnight Second_def)
  moreover have "b_End (anchored 0 mediumWindowSeconds t) \<le> b_Start (anchored 0 mediumWindowSeconds t) + 2592000 * Second"
    using anchored_width [of mediumWindowSeconds 0 t] by (simp add: window_lengths Second_def)
  moreover have "b_End (anchored 0 longWindowSeconds t) \<le> b_Start (anchored 0 longWindowSeconds t) + 2592000 * Second"
    using anchored_width [of longWindowSeconds 0 t] by (simp add: window_lengths Second_def)
  ultimately show ?thesis by (simp add: grain_cell_def)
qed

lemma grain_near: "unix t - 2592000 \<le> unix (b_Start (grain_cell zone grain t))" "unix (b_End (grain_cell zone grain t)) \<le> unix t + 2592000"
proof -
  have "t \<le> b_Start (grain_cell zone grain t) + 2592000 * Second" "b_End (grain_cell zone grain t) \<le> t + 2592000 * Second"
    using grain_width [of grain t] grain.contains [where grain = grain and t = t] by simp_all
  then have "unix t \<le> unix (b_Start (grain_cell zone grain t) + 2592000 * Second)"
      "unix (b_End (grain_cell zone grain t)) \<le> unix (t + 2592000 * Second)"
    unfolding unix_def by (intro zdiv_mono1; simp add: Second_def)+
  then show "unix t - 2592000 \<le> unix (b_Start (grain_cell zone grain t))"
      "unix (b_End (grain_cell zone grain t)) \<le> unix t + 2592000"
    by (simp_all add: unix_def Second_def)
qed

lemma cell_range:
  assumes "storable t" "b_Start (grain_cell zone grain t) \<le> u" "u < b_End (grain_cell zone grain t)"
  shows "\<bar>unix u\<bar> \<le> 2 ^ 51"
proof -
  have "unix (b_Start (grain_cell zone grain t)) \<le> unix u" "unix u \<le> unix (b_End (grain_cell zone grain t))"
    using assms(2,3) unfolding unix_def by (intro zdiv_mono1; simp add: Second_def)+
  then show ?thesis using assms(1) grain_near [where t = t and grain = grain] by (simp add: storable_def abs_le_iff)
qed

end

text \<open>
  Claim C31. In every zone with regular days and for every grain, the bucket of a storable timestamp is found
  (the search loops end), the timestamp lies in it, and every instant in it has the same bucket. An
  unknown grain is an error.
\<close>

theorem activity_bucket_exact:
  assumes "regular_days zone" and "storable t"
  shows "if known_grain grain
         then \<exists>b. BucketForTimestamp zone grain t = Some (Inr b) \<and> b_Start b \<le> t \<and> t < b_End b
                \<and> (\<forall>u. b_Start b \<le> u \<longrightarrow> u < b_End b \<longrightarrow> BucketForTimestamp zone grain u = Some (Inr b))
         else BucketForTimestamp zone grain t = Some (Inl (UnsupportedGrain grain))"
proof -
  from assms(1) have zone: "regular_zone zone" by (simp add: regular_zone_def)
  have t: "\<bar>unix t\<bar> \<le> 2 ^ 51" using assms(2) by (simp add: storable_def)
  note cells = regular_zone.grain_cells [OF zone, of grain]
  show ?thesis
  proof (cases "known_grain grain")
    case True
    have "BucketForTimestamp zone grain u = Some (Inr (grain_cell zone grain t))"
      if "b_Start (grain_cell zone grain t) \<le> u" "u < b_End (grain_cell zone grain t)" for u
      using regular_zone.BucketForTimestamp_exact [OF zone True regular_zone.cell_range [OF zone assms(2) that]]
        time_cells.same_cell [OF cells that] by simp
    moreover note regular_zone.BucketForTimestamp_exact [OF zone True t] time_cells.contains [OF cells, of t]
    ultimately show ?thesis using True by simp
  qed (simp add: unknown_grain)
qed

theorem activity_bucket_exact_witness:
  "case BucketForTimestamp (fixed_zone 28800) ''short'' (1000 * Second) of
     Some (Inr b) \<Rightarrow> b_Start b \<le> 1000 * Second \<and> 1000 * Second < b_End b
       \<and> BucketForTimestamp (fixed_zone 28800) ''short'' (1001 * Second) = Some (Inr b)
   | _ \<Rightarrow> False"
proof -
  have "known_grain ''short''" by (simp add: known_grain_def grain_names)
  moreover have "storable (1000 * Second)" by (simp add: storable_def)
  ultimately obtain b where b: "BucketForTimestamp (fixed_zone 28800) ''short'' (1000 * Second) = Some (Inr b)"
      "b_Start b \<le> 1000 * Second" "1000 * Second < b_End b"
      "\<forall>u. b_Start b \<le> u \<longrightarrow> u < b_End b \<longrightarrow> BucketForTimestamp (fixed_zone 28800) ''short'' u = Some (Inr b)"
    using activity_bucket_exact [OF fixed_zone_regular [of 28800], of "1000 * Second" "''short''"] by auto
  have "b = short_cell (fixed_zone 28800) (1000 * Second)"
    using b(1) fixed_offset.BucketForTimestamp_exact [OF \<open>known_grain ''short''\<close>, of "1000 * Second"]
    by (simp add: grain_cell_def grain_names)
  then have "1001 * Second < b_End b" 
    by (simp add: short_cell_def anchored_def cell_index_def edge_def HeatmapBlocks_def midnight_def from_wall_fixed
        wall_day_def wall_seconds_def fixed_zone_def Second_def unix_def)
  with b show ?thesis by (simp add: Second_def)
qed

section \<open>Windows\<close>

text \<open>Consecutive cells, 364 of them, up to an end; a window ends with the cell its reference ends in.\<close>

definition heat_window :: "(time \<Rightarrow> Bucket) \<Rightarrow> time \<Rightarrow> Bucket list \<Rightarrow> bool" where
  "heat_window cell stop bs \<longleftrightarrow> int (length bs) = HeatmapBlocks \<and> chained bs stop \<and> (\<forall>b\<in>set bs. cell (b_Start b) = b)"

definition window_end :: "(time \<Rightarrow> Bucket) \<Rightarrow> time \<Rightarrow> time" where
  "window_end cell referenceEnd =
     (if referenceEnd \<noteq> b_Start (cell referenceEnd) then b_End (cell referenceEnd) else b_Start (cell referenceEnd))"

lemma chained_last: "chained bs stop \<Longrightarrow> bs \<noteq> [] \<Longrightarrow> b_End (last bs) = stop"
  by (induction bs stop rule: chained.induct) simp_all

lemma chained_nth: "chained bs stop \<Longrightarrow> Suc i < length bs \<Longrightarrow> b_End (bs ! i) = b_Start (bs ! Suc i)"
  by (induction bs stop arbitrary: i rule: chained.induct) (auto simp: nth_Cons split: nat.splits)

lemma chained_Cons: "chained bs stop \<Longrightarrow> (if bs = [] then b_End b = stop else b_End b = b_Start (hd bs)) \<Longrightarrow> chained (b # bs) stop"
  by (cases bs) simp_all

lemma chained_run: "a \<le> b \<Longrightarrow> chained (map (\<lambda>i. \<lparr>b_Start = f i, b_End = f (i + 1)\<rparr>) [a..b]) (f (b + 1))"
proof (induction "nat (b - a)" arbitrary: a)
  case (Suc n)
  have "chained (map (\<lambda>i. \<lparr>b_Start = f i, b_End = f (i + 1)\<rparr>) [a + 1..b]) (f (b + 1))"
    using Suc by (intro Suc.hyps(1)) simp_all
  moreover have "[a + 1..b] = (a + 1) # [a + 1 + 1..b]" using Suc by (intro upto_rec1) simp
  ultimately show ?case using Suc by (simp add: upto_rec1 [of a])
qed simp

context time_cells begin

lemma window_end_start: "b_Start (cell (window_end cell r)) = window_end cell r"
  by (simp add: window_end_def next_starts start_idem)

lemma window_covers:
  assumes "heat_window cell (window_end cell r) bs"
  shows "b_Start (last bs) < r" "r \<le> b_End (last bs)"
proof -
  from assms have "bs \<noteq> []" by (auto simp: heat_window_def HeatmapBlocks_def)
  with assms have stop: "b_End (last bs) = window_end cell r" and self: "cell (b_Start (last bs)) = last bs"
    by (auto simp: heat_window_def chained_last)
  show r: "r \<le> b_End (last bs)" using contains [of r] by (simp add: stop window_end_def)
  have less: "b_Start (last bs) < b_End (last bs)" using contains(2) [of "b_Start (last bs)"] by (simp add: self)
  show "b_Start (last bs) < r"
  proof (rule ccontr)
    assume late: "\<not> ?thesis"
    with less r have "r \<noteq> b_Start (cell r)" using stop by (auto simp: window_end_def)
    with stop have stop: "b_End (last bs) = b_End (cell r)" by (simp add: window_end_def)
    have "cell (b_Start (last bs)) = cell r" using late less stop contains [of r] by (intro same_cell) simp_all
    with self late contains(1) [of r] \<open>r \<noteq> b_Start (cell r)\<close> show False by simp
  qed
qed

end

context regular_zone begin

lemma short_back_window:
  assumes "b_Start (short_cell zone c) = c" and "\<bar>unix c\<bar> + int n * 3000000 \<le> 2 ^ 51 - 1"
    and "chained bs stop" and "if bs = [] then c = stop else c = b_Start (hd bs)"
    and "\<forall>b\<in>set bs. short_cell zone (b_Start b) = b"
  shows "\<exists>ws. short_back zone n c bs = Some ws \<and> length ws = n + length bs \<and> chained ws stop
    \<and> (\<forall>b\<in>set ws. short_cell zone (b_Start b) = b)"
  using assms
proof (induction n arbitrary: c bs)
  case (Suc n)
  let ?b = "short_cell zone (c - Nanosecond)"
  have c: "\<bar>unix c\<bar> + 3000000 + int n * 3000000 \<le> 2 ^ 51 - 1" using Suc.prems(2) by (simp add: distrib_right)
  have unix: "unix c - 1 \<le> unix (c - Nanosecond)" "unix (c - Nanosecond) \<le> unix c"
    using unix_bounds [of c] seconds_le_iff [of "unix c - 1" "c - Nanosecond"] zdiv_mono1 [of "c - Nanosecond" c Second]
    by (simp_all add: Nanosecond_def Second_def unix_def)
  have found: "shortBucketForTimestamp zone (c - Nanosecond) = Some ?b"
    using c unix by (intro shortBucket_exact) linarith
  have ends: "b_End ?b = c" using short.previous_ends [OF Suc.prems(1)] by (simp add: Nanosecond_def)
  have self: "short_cell zone (b_Start ?b) = ?b" using short.same_cell [of "c - Nanosecond" "b_Start ?b"] short.contains [of "c - Nanosecond"] by simp
  have near: "unix c - 2592001 \<le> unix (b_Start ?b)" "unix (b_Start ?b) \<le> unix c"
    using grain_near(1) [where t = "c - Nanosecond" and grain = UsageActivityGrainShort] short.contains(1) [of "c - Nanosecond"] unix
      zdiv_mono1 [of "b_Start ?b" c Second]
    by (simp_all add: grain_cell_def Nanosecond_def Second_def unix_def)
  have self': "b_Start (short_cell zone (b_Start ?b)) = b_Start ?b" by (simp add: self)
  have room: "\<bar>unix (b_Start ?b)\<bar> + int n * 3000000 \<le> 2 ^ 51 - 1" using c near by linarith
  have chain: "chained (?b # bs) stop" using Suc.prems(3,4) ends by (intro chained_Cons) (auto split: if_splits)
  have "if ?b # bs = [] then b_Start ?b = stop else b_Start ?b = b_Start (hd (?b # bs))" by simp
  from Suc.IH [OF self' room chain this] Suc.prems(5) self show ?case by (simp add: found)
qed simp

lemma shortWindow_exact:
  assumes "storable r"
  shows "\<exists>bs. shortWindowEndingAt zone r = Some bs \<and> heat_window (short_cell zone) (window_end (short_cell zone) r) bs"
proof -
  let ?c = "window_end (short_cell zone) r"
  have r: "\<bar>unix r\<bar> \<le> 2 ^ 50" using assms by (simp add: storable_def)
  have "unix (b_Start (short_cell zone r)) \<le> unix r"
    using short.contains(1) [of r] unfolding unix_def by (intro zdiv_mono1) (simp_all add: Second_def)
  moreover have "unix r \<le> unix (b_End (short_cell zone r))"
    using short.contains(2) [of r] unfolding unix_def by (intro zdiv_mono1) (simp_all add: Second_def)
  moreover have "unix r - 2592000 \<le> unix (b_Start (short_cell zone r))" "unix (b_End (short_cell zone r)) \<le> unix r + 2592000"
    using grain_near [where t = r and grain = UsageActivityGrainShort] by (simp_all add: grain_cell_def)
  ultimately have room: "\<bar>unix ?c\<bar> + int (nat HeatmapBlocks) * 3000000 \<le> 2 ^ 51 - 1"
    using r by (simp add: window_end_def HeatmapBlocks_def) linarith
  have "\<exists>ws. short_back zone (nat HeatmapBlocks) ?c [] = Some ws \<and> length ws = nat HeatmapBlocks + length ([] :: Bucket list)
      \<and> chained ws ?c \<and> (\<forall>b\<in>set ws. short_cell zone (b_Start b) = b)"
    by (rule short_back_window [OF short.window_end_start room]) simp_all
  moreover have "shortBucketForTimestamp zone r = Some (short_cell zone r)" using r by (intro shortBucket_exact) simp
  ultimately show ?thesis
    by (auto simp: shortWindowEndingAt_def heat_window_def window_end_def HeatmapBlocks_def)
qed

end

lemma shifted_upto: "map (\<lambda>i. g (s + i)) [0..n] = map g [s..s + n]" for s n :: int
  by (rule nth_equalityI) simp_all

lemma heat_window_run:
  assumes "\<And>i. cell (f i) = \<lparr>b_Start = f i, b_End = f (i + 1)\<rparr>"
  shows "heat_window cell (f stop) (map (\<lambda>i. \<lparr>b_Start = f i, b_End = f (i + 1)\<rparr>) [stop - HeatmapBlocks..stop - 1])"
  using chained_run [of "stop - HeatmapBlocks" "stop - 1" f] assms by (simp add: heat_window_def HeatmapBlocks_def)

text \<open>A fixed window.\<close>

lemma fixed_run_exact:
  assumes "\<And>i. i \<in> set is \<Longrightarrow> is_int64 (i * w) \<and> is_int64 ((i + 1) * w) \<and> is_int64 (i + 1)"
  shows "fixed_run w is = Some (map (\<lambda>i. \<lparr>b_Start = edge w i * Second, b_End = edge w (i + 1) * Second\<rparr>) is)"
  using assms by (induction "is") (simp_all add: fixedBucket_cell)

lemma fixed_window_exact:
  assumes w: "HeatmapBlocks \<le> w" "w \<le> 2 ^ 40" and r: "storable r"
  defines "j \<equiv> cell_index w (unix r)"
  defines "e \<equiv> (if r \<noteq> edge w j * Second then wrap64 (j + 1) else j)"
  shows "\<exists>bs. fixed_run w (map (\<lambda>offset. wrap64 (wrap64 (e - HeatmapBlocks) + offset)) [0..HeatmapBlocks - 1]) = Some bs
    \<and> heat_window (anchored 0 w) (window_end (anchored 0 w) r) bs"
proof -
  have pos: "0 < w" and u: "\<bar>unix r\<bar> \<le> 2 ^ 51" using w(1) r by (simp_all add: HeatmapBlocks_def storable_def)
  have jw: "j * w \<le> (unix r + 1) * HeatmapBlocks - 1" "unix r * HeatmapBlocks - w < j * w"
    using int_le_div_iff [OF pos, of j "(unix r + 1) * HeatmapBlocks - 1"]
      int_div_le_iff [OF pos, of "(unix r + 1) * HeatmapBlocks - 1" j] 
    by (simp_all add: j_def cell_index_def distrib_right HeatmapBlocks_def)
  have small: "\<bar>i * w\<bar> \<le> 2 ^ 61" "\<bar>i\<bar> \<le> 2 ^ 61" if "\<bar>i - j\<bar> \<le> 400" for i
  proof -
    have "\<bar>i * w - j * w\<bar> \<le> 400 * w" using that pos by (simp add: left_diff_distrib [symmetric] abs_mult)
    then show "\<bar>i * w\<bar> \<le> 2 ^ 61" using jw r w(2) by (simp add: HeatmapBlocks_def storable_def abs_le_iff)
    with abs_le_mult [of w i] pos show "\<bar>i\<bar> \<le> 2 ^ 61" by simp
  qed
  have int64: "is_int64 x" if "\<bar>x\<bar> \<le> 2 ^ 61" for x using that by (simp add: int64_bounds abs_le_iff)
  define e' where "e' = (if r \<noteq> edge w j * Second then j + 1 else j)"
  have e: "e = e'" using small(2) [of "j + 1", THEN int64] by (simp add: e_def e'_def wrap64_id)
  have near: "\<bar>e' - j\<bar> \<le> 1" by (simp add: e'_def)
  have "wrap64 (wrap64 (e' - HeatmapBlocks) + offset) = e' - HeatmapBlocks + offset" if "offset \<in> {0..HeatmapBlocks - 1}" for offset
    using that near small(2) [of "e' - HeatmapBlocks", THEN int64] small(2) [of "e' - HeatmapBlocks + offset", THEN int64]
    by (simp add: wrap64_id HeatmapBlocks_def abs_le_iff)
  then have "map (\<lambda>offset. wrap64 (wrap64 (e' - HeatmapBlocks) + offset)) [0..HeatmapBlocks - 1] = map (\<lambda>i. e' - HeatmapBlocks + i) [0..HeatmapBlocks - 1]"
    by (intro map_cong) simp_all
  then have indices: "map (\<lambda>offset. wrap64 (wrap64 (e - HeatmapBlocks) + offset)) [0..HeatmapBlocks - 1] = [e' - HeatmapBlocks..e' - 1]"
    using shifted_upto [of "\<lambda>x. x" "e' - HeatmapBlocks" "HeatmapBlocks - 1"] by (simp add: e)
  have "fixed_run w [e' - HeatmapBlocks..e' - 1] =
      Some (map (\<lambda>i. \<lparr>b_Start = edge w i * Second, b_End = edge w (i + 1) * Second\<rparr>) [e' - HeatmapBlocks..e' - 1])"
  proof (rule fixed_run_exact)
    fix i assume "i \<in> set [e' - HeatmapBlocks..e' - 1]"
    with near have "\<bar>i - j\<bar> \<le> 400" "\<bar>i + 1 - j\<bar> \<le> 400" by (simp_all add: HeatmapBlocks_def abs_le_iff)
    then show "is_int64 (i * w) \<and> is_int64 ((i + 1) * w) \<and> is_int64 (i + 1)" using small int64 by blast
  qed
  moreover have "heat_window (anchored 0 w) (edge w e' * Second)
      (map (\<lambda>i. \<lparr>b_Start = edge w i * Second, b_End = edge w (i + 1) * Second\<rparr>) [e' - HeatmapBlocks..e' - 1])"
    using anchored_start [OF w(1), of 0] by (intro heat_window_run) simp
  moreover have "window_end (anchored 0 w) r = edge w e' * Second"
    by (simp add: window_end_def anchored_def e'_def j_def Let_def)
  ultimately show ?thesis by (simp add: indices)
qed

context regular_zone begin

lemma dailyBucket_start: "dailyBucket zone (midnight zone day * Second) = \<lparr>b_Start = midnight zone day * Second, b_End = midnight zone (day + 1) * Second\<rparr>"
proof -
  have "wall_day zone (midnight zone day * Second) = day" using midnight_less [of day] by (simp add: wall_day_iff)
  then show ?thesis by (simp add: dailyBucket_midnight)
qed

lemma dailyWindow_exact: "heat_window (dailyBucket zone) (window_end (dailyBucket zone) r) (dailyWindow zone r)"
proof -
  define day where "day = (if r \<noteq> midnight zone (wall_day zone r) * Second then wall_day zone r + 1 else wall_day zone r)"
  have stop: "window_end (dailyBucket zone) r = midnight zone day * Second"
    by (simp add: window_end_def dailyBucket_midnight day_def)
  have last: "(if r \<noteq> day_start zone r then AddDays zone (day_start zone r) 1 else day_start zone r) = midnight zone day * Second"
    unfolding day_start_midnight AddDays_midnight day_def by simp
  have "dailyWindow zone r = map (\<lambda>i. \<lparr>b_Start = midnight zone (day - HeatmapBlocks + i) * Second,
      b_End = midnight zone (day - HeatmapBlocks + i + 1) * Second\<rparr>) [0..HeatmapBlocks - 1]"
    by (simp only: dailyWindow_def Let_def last AddDays_midnight) simp
  also have "\<dots> = map (\<lambda>i. \<lparr>b_Start = midnight zone i * Second, b_End = midnight zone (i + 1) * Second\<rparr>) [day - HeatmapBlocks..day - 1]"
    using shifted_upto [of "\<lambda>i. \<lparr>b_Start = midnight zone i * Second, b_End = midnight zone (i + 1) * Second\<rparr>" "day - HeatmapBlocks" "HeatmapBlocks - 1"]
    by simp
  finally show ?thesis
    using heat_window_run [of "dailyBucket zone" "\<lambda>i. midnight zone i * Second" day] dailyBucket_start stop by simp
qed

lemma WindowEndingAt_exact:
  assumes "known_grain grain" and "storable r"
  shows "\<exists>bs. WindowEndingAt zone grain r = Some (Inr bs)
    \<and> heat_window (grain_cell zone grain) (window_end (grain_cell zone grain) r) bs"
proof -
  have u: "\<bar>unix r\<bar> \<le> 2 ^ 51" using assms(2) by (simp add: storable_def)
  have "\<exists>bs. WindowEndingAt zone grain r = Some (Inr bs) \<and> heat_window (anchored 0 w) (window_end (anchored 0 w) r) bs"
    if w: "HeatmapBlocks \<le> w" "w \<le> 2 ^ 40" and g: "fixedWindowSeconds grain = Inr w" for w
  proof -
    have pos: "0 < w" using w(1) by (simp add: HeatmapBlocks_def)
    have "grain \<noteq> UsageActivityGrainShort" "grain \<noteq> UsageActivityGrainDaily"
      using g by (auto simp: fixedWindowSeconds_def grain_names split: if_splits)
    moreover have "b_Start (anchored 0 w r) = edge w (cell_index w (unix r)) * Second" by (simp add: anchored_def Let_def)
    ultimately show ?thesis
      using fixed_window_exact [OF w assms(2)] g fixedBucketIndex_exact [OF pos w(2) u] fixed_cell [OF pos w(2) u]
      by (auto simp: WindowEndingAt_def Let_def)
  qed
  from this [of mediumWindowSeconds] this [of longWindowSeconds] show ?thesis
    using assms shortWindow_exact [OF assms(2)] dailyWindow_exact [of r]
    by (auto simp: known_grain_def grain_cell_def WindowEndingAt_def fixedWindowSeconds_def grain_names HeatmapBlocks_def window_lengths)
qed

end

text \<open>
  Claim C32. For every grain, a window over a storable reference time is exactly 364 consecutive buckets: each ends
  where the next begins, and the last is the one in which the reference time ends. They are the
  buckets the aggregation stores rows under, so every stored event of the window falls into
  exactly one cell of the heat map.
\<close>

theorem activity_window_exact:
  assumes "regular_days zone" and "known_grain grain" and "storable r"
  shows "\<exists>bs. WindowEndingAt zone grain r = Some (Inr bs) \<and> length bs = 364
    \<and> (\<forall>i < 363. b_End (bs ! i) = b_Start (bs ! Suc i)) \<and> b_Start (last bs) < r \<and> r \<le> b_End (last bs)
    \<and> (\<forall>b \<in> set bs. \<forall>t. storable t \<longrightarrow> b_Start b \<le> t \<longrightarrow> t < b_End b \<longrightarrow> BucketForTimestamp zone grain t = Some (Inr b))"
proof -
  from assms(1) have zone: "regular_zone zone" by (simp add: regular_zone_def)
  note cells = regular_zone.grain_cells [OF zone, of grain]
  from regular_zone.WindowEndingAt_exact [OF zone assms(2,3)] obtain bs
    where bs: "WindowEndingAt zone grain r = Some (Inr bs)"
      "heat_window (grain_cell zone grain) (window_end (grain_cell zone grain) r) bs" by blast
  then have "length bs = 364" and chain: "chained bs (window_end (grain_cell zone grain) r)"
      and self: "b \<in> set bs \<Longrightarrow> grain_cell zone grain (b_Start b) = b" for b
    by (simp_all add: heat_window_def HeatmapBlocks_def)
  moreover have "BucketForTimestamp zone grain t = Some (Inr b)"
    if "b \<in> set bs" "storable t" "b_Start b \<le> t" "t < b_End b" for b t
    using regular_zone.BucketForTimestamp_exact [OF zone assms(2), of t] that self [OF that(1)]
      time_cells.same_cell [OF cells, of "b_Start b" t] by (simp add: storable_def)
  ultimately show ?thesis using bs time_cells.window_covers [OF cells bs(2)] chained_nth [OF chain] by auto
qed

theorem activity_window_exact_witness:
  "\<exists>bs. WindowEndingAt (fixed_zone 28800) ''daily'' (1000 * Second) = Some (Inr bs) \<and> length bs = 364
     \<and> b_End (bs ! 0) = b_Start (bs ! 1) \<and> b_Start (last bs) < 1000 * Second \<and> 1000 * Second \<le> b_End (last bs)"
proof -
  have "known_grain ''daily''" "storable (1000 * Second)" by (simp_all add: known_grain_def grain_names storable_def)
  from activity_window_exact [OF fixed_zone_regular this, of 28800] obtain bs
    where "WindowEndingAt (fixed_zone 28800) ''daily'' (1000 * Second) = Some (Inr bs)" "length bs = 364"
      "\<forall>i < 363. b_End (bs ! i) = b_Start (bs ! Suc i)" "b_Start (last bs) < 1000 * Second" "1000 * Second \<le> b_End (last bs)"
    by auto
  then show ?thesis by (intro exI [of _ bs]) auto
qed


section \<open>Dates without a midnight\<close>

text \<open>
  Some zones change their clocks at midnight: on 2024-09-08 Santiago goes from 00:00 to 01:00, at
  04:00 UTC. \<open>time.Date\<close> turns the missing midnight into 23:00 of the date before, so the bucket
  of that date ends an hour early and does not contain its last hour.
\<close>

definition santiago :: zone where
  "santiago u =
     (if u < 1725768000 then \<lparr>zs_offset = - 14400, zs_start = 1712455200, zs_end = 1725768000\<rparr>
      else \<lparr>zs_offset = - 10800, zs_start = 1725768000, zs_end = 1743904800\<rparr>)"

lemma skipped_midnight_misses:
  defines "t \<equiv> 1725766200 * Second"
  shows "BucketForTimestamp santiago UsageActivityGrainDaily t = Some (Inr \<lparr>b_Start = 1725681600 * Second, b_End = 1725764400 * Second\<rparr>)"
    and "1725764400 * Second < t"
  by (simp_all add: t_def BucketForTimestamp_def grain_names dailyBucket_def Let_def day_start_def AddDays_def
      wall_day_def wall_seconds_def from_wall_def santiago_def unix_def Second_def)

text \<open>
  When a zone skips a whole date, as Apia did on 2011-12-30, the date before it has no seconds at all, and
  the division of its window panics.
\<close>

definition apia :: zone where
  "apia u =
     (if u < 1325239200 then \<lparr>zs_offset = - 36000, zs_start = 1316872800, zs_end = 1325239200\<rparr>
      else \<lparr>zs_offset = 50400, zs_start = 1325239200, zs_end = 1333202400\<rparr>)"

lemma skipped_date_panics: "BucketForTimestamp apia UsageActivityGrainShort (1325200000 * Second) = None"
proof -
  have start: "day_start apia (1325200000 * Second) = 1325152800 * Second"
    by (simp add: day_start_def wall_day_def wall_seconds_def from_wall_def apia_def)
  have stop: "AddDays apia (1325152800 * Second) 1 = 1325152800 * Second"
    by (simp add: AddDays_def wall_seconds_def from_wall_def apia_def)
  show ?thesis
    unfolding BucketForTimestamp_def shortBucketForTimestamp_def Let_def start stop
    by (simp add: floorDiv_def wrap64_def)
qed
end
