(* ===== verification/Keyed_Rows.thy ===== *)
theory Keyed_Rows
  imports Keeper_Prelude "HOL-Library.AList" "HOL-Library.Multiset" "HOL-Library.Product_Lexorder" "HOL-Library.List_Lexorder" "HOL-Library.Char_ord"
begin

text \<open>
  The pattern all aggregations share: a map from a key to a row, filled by walking the events
  and adding each to the row of its key, which is created on first use; then the rows as a
  slice, sorted by their key. Go's order on strings is the bytewise lexicographic order, which
  is the library's order on lists of characters.
\<close>

text \<open>\<open>if rows[key] == nil { rows[key] = fresh }; add(rows[key])\<close>.\<close>

definition touch :: "'k \<Rightarrow> 'r \<Rightarrow> ('r \<Rightarrow> 'r) \<Rightarrow> ('k \<times> 'r) list \<Rightarrow> ('k \<times> 'r) list" where
  "touch key fresh add rows =
     AList.update key (add (case map_of rows key of None \<Rightarrow> fresh | Some r \<Rightarrow> r)) rows"

fun collect :: "('e \<Rightarrow> 'k) \<Rightarrow> ('e \<Rightarrow> 'r) \<Rightarrow> ('e \<Rightarrow> 'r \<Rightarrow> 'r) \<Rightarrow> ('k \<times> 'r) list \<Rightarrow> 'e list \<Rightarrow> ('k \<times> 'r) list" where
  "collect key fresh add rows [] = rows"
| "collect key fresh add rows (e # es) = collect key fresh add (touch (key e) (fresh e) (add e) rows) es"

text \<open>The row of a key is the sum over the events of that key, in their order.\<close>

definition row_of :: "('e \<Rightarrow> 'k) \<Rightarrow> ('e \<Rightarrow> 'r) \<Rightarrow> ('e \<Rightarrow> 'r \<Rightarrow> 'r) \<Rightarrow> 'e list \<Rightarrow> 'k \<Rightarrow> 'r option" where
  "row_of key fresh add es k =
     (case filter (\<lambda>e. key e = k) es of [] \<Rightarrow> None | e # rest \<Rightarrow> Some (foldl (\<lambda>r e. add e r) (fresh e) (e # rest)))"

lemma touch_lookup:
  "map_of (touch k fresh add rows) k' =
     (if k' = k then Some (add (case map_of rows k of None \<Rightarrow> fresh | Some r \<Rightarrow> r)) else map_of rows k')"
  by (simp add: touch_def update_conv')

lemma collect_lookup:
  "map_of (collect key fresh add rows es) k =
     (case map_of rows k of
        None \<Rightarrow> row_of key fresh add es k
      | Some r \<Rightarrow> Some (foldl (\<lambda>r e. add e r) r (filter (\<lambda>e. key e = k) es)))"
proof (induction es arbitrary: rows)
  case Nil
  then show ?case by (simp add: row_of_def split: option.splits)
next
  case (Cons e es)
  then show ?case by (cases "key e = k") (auto simp: touch_lookup row_of_def split: option.splits list.splits)
qed

lemma collect_distinct: "distinct (map fst rows) \<Longrightarrow> distinct (map fst (collect key fresh add rows es))"
  by (induction es arbitrary: rows) (simp_all add: touch_def distinct_update)

lemma collect_keys: "fst ` set (collect key fresh add [] es) = key ` set es"
proof -
  have "k \<in> fst ` set (collect key fresh add [] es) \<longleftrightarrow> map_of (collect key fresh add [] es) k \<noteq> None" for k
    by (simp add: map_of_eq_None_iff)
  also have "\<dots> k \<longleftrightarrow> filter (\<lambda>e. key e = k) es \<noteq> []" for k
    by (auto simp: collect_lookup row_of_def split: list.splits)
  also have "\<dots> k \<longleftrightarrow> k \<in> key ` set es" for k by (auto simp: filter_empty_conv)
  finally show ?thesis by blast
qed


text \<open>
  \<open>sort.Slice\<close> is not stable and the map is read in any order. Neither matters: the keys are
  distinct, so there is one sorted permutation.
\<close>

lemma sorted_permutation_unique:
  fixes key :: "'r \<Rightarrow> 'k :: linorder"
  assumes perm: "mset ys = mset xs" and "sorted_wrt (<) (map key ys)"
  shows "ys = sort_key key xs"
proof -
  have same: "mset (sort_key key xs) = mset ys" by (simp add: perm)
  from assms(2) have ys: "sorted (map key ys)" "distinct (map key ys)" by (simp_all add: strict_sorted_iff)
  have "mset (map key (sort_key key xs)) = mset (map key ys)" by (simp add: perm mset_map)
  then have "distinct (map key (sort_key key xs))" "set (map key (sort_key key xs)) = set (map key ys)"
    using ys(2) mset_eq_imp_distinct_iff mset_eq_setD by blast+
  then have "map key (sort_key key xs) = map key ys" using ys by (intro sorted_distinct_set_unique) simp_all
  moreover have "inj_on key (set (sort_key key xs) \<union> set ys)"
    using ys(2) mset_eq_setD [OF same] by (simp add: distinct_map)
  ultimately show ?thesis by (metis inj_on_map_eq_map)
qed


section \<open>Columns\<close>

text \<open>A 64-bit column to which every event adds: its value is the sum, wrapped around once.\<close>

lemma wrap64_add [simp]: "wrap64 (wrap64 a + b) = wrap64 (a + b)"
proof -
  have "wrap64 a + b + 9223372036854775808 = (a + 9223372036854775808) mod 18446744073709551616 + b"
    by (simp add: wrap64_def)
  also have "\<dots> mod 18446744073709551616 = (a + b + 9223372036854775808) mod 18446744073709551616"
    by (simp add: mod_add_left_eq add.assoc add.commute [of b])
  finally show ?thesis by (simp add: wrap64_def)
qed

lemma wrap64_add_right [simp]: "wrap64 (b + wrap64 a) = wrap64 (b + a)"
  using wrap64_add [of a b] by (simp add: add.commute)

lemma column_fold:
  assumes "\<And>e r. f (add e r) = wrap64 (f r + g e)" and "is_int64 (f r)"
  shows "f (foldl (\<lambda>r e. add e r) r es) = wrap64 (f r + (\<Sum>e\<leftarrow>es. g e))"
  using assms(2) by (induction es arbitrary: r) (simp_all add: assms(1) wrap64_id add.assoc)

text \<open>Sums over a table are sums over the events: every event is in exactly one row.\<close>

lemma sum_by_key:
  fixes f :: "'e \<Rightarrow> int"
  assumes "distinct ks" and "key ` set es \<subseteq> set ks"
  shows "(\<Sum>k\<leftarrow>ks. \<Sum>e\<leftarrow>filter (\<lambda>e. key e = k) es. f e) = (\<Sum>e\<leftarrow>es. f e)"
  using assms(2)
proof (induction es)
  case (Cons e es)
  have "(\<Sum>k\<leftarrow>ks. \<Sum>x\<leftarrow>filter (\<lambda>x. key x = k) (e # es). f x)
      = (\<Sum>k\<leftarrow>ks. (if k = key e then f e else 0) + (\<Sum>x\<leftarrow>filter (\<lambda>x. key x = k) es. f x))"
    by (rule arg_cong [of _ _ sum_list], rule map_cong) auto
  also have "\<dots> = (\<Sum>k\<leftarrow>ks. if k = key e then f e else 0) + (\<Sum>k\<leftarrow>ks. \<Sum>x\<leftarrow>filter (\<lambda>x. key x = k) es. f x)"
    by (simp add: sum_list_addf)
  also have "(\<Sum>k\<leftarrow>ks. if k = key e then f e else 0) = f e"
    using assms(1) Cons.prems by (simp add: sum_list_distinct_conv_sum_set)
  finally show ?case using Cons by simp
qed simp

section \<open>Tables of rows\<close>

locale keyed_rows =
  fixes key :: "'e \<Rightarrow> 'k :: linorder" and fresh :: "'e \<Rightarrow> 'r" and add :: "'e \<Rightarrow> 'r \<Rightarrow> 'r" and row_key :: "'r \<Rightarrow> 'k"
  assumes fresh_key: "row_key (fresh e) = key e"
    and add_key: "row_key (add e r) = row_key r"
begin

lemma folded_key: "row_key (foldl (\<lambda>r e. add e r) r es) = row_key r"
  by (induction es arbitrary: r) (simp_all add: add_key)

lemma row_of_key: "row_of key fresh add es k = Some r \<Longrightarrow> row_key r = k"
proof -
  assume "row_of key fresh add es k = Some r"
  then obtain e rest where "filter (\<lambda>e. key e = k) es = e # rest" "r = foldl (\<lambda>r e. add e r) (fresh e) (e # rest)"
    by (auto simp: row_of_def split: list.splits)
  moreover from this(1) have "key e = k" by (auto simp: filter_eq_Cons_iff)
  ultimately show ?thesis by (auto simp: folded_key add_key fresh_key)
qed

text \<open>The rows that come out: one per key that occurs, in ascending order, each the sum of its events.\<close>

lemma table_exact:
  fixes es :: "'e list"
  defines "rows \<equiv> sort_key row_key (map snd (collect key fresh add [] es))"
  shows "sorted_wrt (<) (map row_key rows)" and "set (map row_key rows) = key ` set es"
    and "r \<in> set rows \<Longrightarrow> row_of key fresh add es (row_key r) = Some r"
proof -
  let ?t = "collect key fresh add [] es"
  have dist: "distinct (map fst ?t)" by (rule collect_distinct) simp
  have entry: "row_of key fresh add es k = Some r" if "(k, r) \<in> set ?t" for k r
    using map_of_is_SomeI [OF dist that] by (simp add: collect_lookup)
  have same: "map row_key (map snd ?t) = map fst ?t"
    using entry row_of_key by (fastforce intro: map_cong simp: comp_def)
  have sorted: "sorted (map row_key rows)" by (simp add: rows_def)
  have perm: "mset (map row_key rows) = mset (map fst ?t)"
    unfolding same [symmetric] rows_def mset_map mset_sort ..
  then have "distinct (map row_key rows)" using dist by (metis mset_eq_imp_distinct_iff)
  with sorted show "sorted_wrt (<) (map row_key rows)" by (simp add: strict_sorted_iff)
  show "set (map row_key rows) = key ` set es"
    using mset_eq_setD [OF perm] collect_keys [of key fresh add es] by simp
  show "row_of key fresh add es (row_key r) = Some r" if "r \<in> set rows"
  proof -
    from that obtain k where "(k, r) \<in> set ?t" by (auto simp: rows_def)
    with entry row_of_key show ?thesis by metis
  qed
qed

text \<open>A column is the wrapped sum over the events of the row, and columns of all rows add up to all events.\<close>

lemma column_value:
  assumes "\<And>e r. f (add e r) = wrap64 (f r + g e)" and "\<And>e. f (fresh e) = 0"
    and "r \<in> set (sort_key row_key (map snd (collect key fresh add [] es)))"
  shows "f r = wrap64 (\<Sum>e\<leftarrow>filter (\<lambda>e. key e = row_key r) es. g e)"
proof -
  from table_exact(3) [OF assms(3)] obtain e rest
    where "filter (\<lambda>e. key e = row_key r) es = e # rest" "r = foldl (\<lambda>r e. add e r) (fresh e) (e # rest)"
    by (auto simp: row_of_def split: list.splits)
  moreover have "f (foldl (\<lambda>r e. add e r) (fresh e) (e # rest)) = wrap64 (f (fresh e) + (\<Sum>e\<leftarrow>e # rest. g e))"
    by (rule column_fold [where f = f and add = add and g = g, OF assms(1)]) (simp add: assms(2) int64_bounds)
  ultimately show ?thesis by (metis assms(2) add_0)
qed

lemma column_total:
  assumes "\<And>e r. f (add e r) = wrap64 (f r + g e)" and "\<And>e. f (fresh e) = 0"
    and "\<forall>e\<in>set es. 0 \<le> g e" and "(\<Sum>e\<leftarrow>es. g e) \<le> MaxInt64"
  shows "(\<Sum>r\<leftarrow>sort_key row_key (map snd (collect key fresh add [] es)). f r) = (\<Sum>e\<leftarrow>es. g e)"
proof -
  let ?rows = "sort_key row_key (map snd (collect key fresh add [] es))"
  let ?part = "\<lambda>k. \<Sum>e\<leftarrow>filter (\<lambda>e. key e = k) es. g e"
  have "?part k \<le> (\<Sum>e\<leftarrow>es. g e)" "0 \<le> ?part k" for k
    using assms(3) by (induction es) auto
  then have "is_count (?part k)" for k using assms(4) order_trans [OF _ assms(4)] by (simp add: is_count_def)
  then have "f r = ?part (row_key r)" if "r \<in> set ?rows" for r
    using column_value [OF assms(1,2) that] by (simp add: wrap64_count)
  then have "map f ?rows = map (\<lambda>r. ?part (row_key r)) ?rows" by (intro map_cong) simp_all
  then have "(\<Sum>r\<leftarrow>?rows. f r) = (\<Sum>k\<leftarrow>map row_key ?rows. ?part k)" by (simp only: map_map comp_def)
  also have "\<dots> = (\<Sum>e\<leftarrow>es. g e)"
    using table_exact(1,2) [of es] by (intro sum_by_key) (simp_all add: strict_sorted_iff)
  finally show ?thesis .
qed

end

end
