(* ===== verification/Usage_Event.thy ===== *)
theory Usage_Event
  imports Go_Float Go_Time
begin

text \<open>
  The stored usage event: \<open>src/internal/entities/usage_event.go\<close>. A nil pointer is \<open>None\<close>. The two
  raw accounting messages, which live only during ingestion and are not stored, are left out.
\<close>

record usageEvent =
  ue_ID :: int
  ue_InstanceID :: string
  ue_EventKey :: string
  ue_APIGroupKey :: string
  ue_IsNativeKey :: "bool option"
  ue_AccessProvider :: "string option"
  ue_Provider :: string
  ue_Endpoint :: string
  ue_AuthType :: string
  ue_RequestID :: string
  ue_ExecutionID :: "string option"
  ue_TraceID :: "string option"
  ue_SessionID :: string
  ue_ParentSessionID :: "string option"
  ue_NodeKind :: "string option"
  ue_IsFork :: "bool option"
  ue_IsCompaction :: "bool option"
  ue_ClientIP :: "string option"
  ue_XForwardedFor :: "string option"
  ue_UserAgent :: "string option"
  ue_Model :: string
  ue_ModelAlias :: "string option"
  ue_ResponseModel :: string
  ue_ReasoningEffort :: string
  ue_ServiceTier :: string
  ue_EffectiveServiceTier :: string
  ue_ResponseServiceTier :: string
  ue_ExecutorType :: string
  ue_Timestamp :: time
  ue_Source :: string
  ue_AuthIndex :: string
  ue_Failed :: bool
  ue_StatusCode :: "int option"
  ue_Generate :: "bool option"
  ue_Stream :: "bool option"
  ue_LatencyMS :: int
  ue_TTFTMS :: "int option"
  ue_InputTokens :: int
  ue_OutputTokens :: int
  ue_ReasoningTokens :: int
  ue_CachedTokens :: int
  ue_CacheReadTokens :: int
  ue_CacheReadPresent :: bool
  ue_CacheCreationTokens :: int
  ue_TotalTokens :: int
  ue_CostUSD :: "float64 option"
  ue_CostAvailable :: "bool option"
  ue_CreatedAt :: time

definition blank_event :: usageEvent where
  "blank_event =
     \<lparr>ue_ID = 0, ue_InstanceID = '''', ue_EventKey = '''', ue_APIGroupKey = '''', ue_IsNativeKey = None,
      ue_AccessProvider = None, ue_Provider = '''', ue_Endpoint = '''', ue_AuthType = '''', ue_RequestID = '''',
      ue_ExecutionID = None, ue_TraceID = None, ue_SessionID = '''', ue_ParentSessionID = None, ue_NodeKind = None,
      ue_IsFork = None, ue_IsCompaction = None, ue_ClientIP = None, ue_XForwardedFor = None, ue_UserAgent = None,
      ue_Model = '''', ue_ModelAlias = None, ue_ResponseModel = '''', ue_ReasoningEffort = '''', ue_ServiceTier = '''',
      ue_EffectiveServiceTier = '''', ue_ResponseServiceTier = '''', ue_ExecutorType = '''', ue_Timestamp = zeroTime,
      ue_Source = '''', ue_AuthIndex = '''', ue_Failed = False, ue_StatusCode = None, ue_Generate = None, ue_Stream = None,
      ue_LatencyMS = 0, ue_TTFTMS = None, ue_InputTokens = 0, ue_OutputTokens = 0, ue_ReasoningTokens = 0,
      ue_CachedTokens = 0, ue_CacheReadTokens = 0, ue_CacheReadPresent = False, ue_CacheCreationTokens = 0,
      ue_TotalTokens = 0, ue_CostUSD = None, ue_CostAvailable = None, ue_CreatedAt = zeroTime\<rparr>"

end
