(* ===== verification/Activity_Aggregate.thy ===== *)
theory Activity_Aggregate
  imports Activity_Grain Keyed_Rows Usage_Event
begin

text \<open>
  The activity aggregation: \<open>src/internal/activity/aggregate.go\<close>. Every event is counted in up to four
  rows, one per grain, under its instance, bucket and API group. The creation and update times of
  a row, which the database sets, are left out.
\<close>

record usageActivityStat =
  as_InstanceID :: string
  as_Grain :: string
  as_BucketStart :: time
  as_BucketEnd :: time
  as_APIGroupKey :: string
  as_SuccessCount :: int
  as_FailureCount :: int
  as_InputTokens :: int
  as_OutputTokens :: int
  as_ReasoningTokens :: int
  as_CacheReadTokens :: int
  as_CacheCreationTokens :: int
  as_TotalTokens :: int

text \<open>\<open>aggregateKey\<close> in the order of its fields, which is the order of the rows.\<close>

type_synonym aggregateKey = "string \<times> string \<times> time \<times> string"

definition NormalizeAPIGroupKey :: "string \<Rightarrow> string" where
  "NormalizeAPIGroupKey value = (let trimmed = TrimSpace value in if trimmed = '''' then ''unknown'' else trimmed)"

definition grainRetentions :: "string \<rightharpoonup> duration" where
  "grainRetentions =
     [UsageActivityGrainShort \<mapsto> 3 * 24 * Hour,
      UsageActivityGrainMedium \<mapsto> 8 * 24 * Hour,
      UsageActivityGrainLong \<mapsto> 31 * 24 * Hour]"

definition allGrains :: "string list" where
  "allGrains = [UsageActivityGrainShort, UsageActivityGrainMedium, UsageActivityGrainLong, UsageActivityGrainDaily]"

definition Retention :: "string \<Rightarrow> duration \<times> bool" where
  "Retention grain = (case grainRetentions grain of None \<Rightarrow> (0, False) | Some d \<Rightarrow> (d, True))"

definition row_key :: "usageActivityStat \<Rightarrow> aggregateKey" where
  "row_key row = (as_InstanceID row, as_Grain row, as_BucketStart row, as_APIGroupKey row)"

definition new_row :: "usageEvent \<Rightarrow> string \<Rightarrow> Bucket \<Rightarrow> usageActivityStat" where
  "new_row e grain bucket =
     \<lparr>as_InstanceID = ue_InstanceID e, as_Grain = grain, as_BucketStart = b_Start bucket, as_BucketEnd = b_End bucket,
      as_APIGroupKey = NormalizeAPIGroupKey (ue_APIGroupKey e), as_SuccessCount = 0, as_FailureCount = 0,
      as_InputTokens = 0, as_OutputTokens = 0, as_ReasoningTokens = 0, as_CacheReadTokens = 0,
      as_CacheCreationTokens = 0, as_TotalTokens = 0\<rparr>"

definition add_to_row :: "usageEvent \<Rightarrow> usageActivityStat \<Rightarrow> usageActivityStat" where
  "add_to_row e row =
     row\<lparr>as_FailureCount := (if ue_Failed e then wrap64 (as_FailureCount row + 1) else as_FailureCount row),
         as_SuccessCount := (if ue_Failed e then as_SuccessCount row else wrap64 (as_SuccessCount row + 1)),
         as_InputTokens := wrap64 (as_InputTokens row + ue_InputTokens e),
         as_OutputTokens := wrap64 (as_OutputTokens row + ue_OutputTokens e),
         as_ReasoningTokens := wrap64 (as_ReasoningTokens row + ue_ReasoningTokens e),
         as_CacheReadTokens := wrap64 (as_CacheReadTokens row + ue_CacheReadTokens e),
         as_CacheCreationTokens := wrap64 (as_CacheCreationTokens row + ue_CacheCreationTokens e),
         as_TotalTokens := wrap64 (as_TotalTokens row + ue_TotalTokens e)\<rparr>"

text \<open>The event is older than the retention of the grain.\<close>

definition expired :: "time \<Rightarrow> string \<Rightarrow> usageEvent \<Rightarrow> bool" where
  "expired now grain e = (let (retention, limited) = Retention grain in limited \<and> ue_Timestamp e < now - retention)"

type_synonym activityRows = "(aggregateKey \<times> usageActivityStat) list"

text \<open>One turn of the inner loop, for one grain, and the two loops.\<close>

definition build_grain :: "zone \<Rightarrow> time \<Rightarrow> activityRows \<Rightarrow> usageEvent \<Rightarrow> string \<Rightarrow> (activityError + activityRows) option" where
  "build_grain zone now rows e grain =
     (if expired now grain e then Some (Inr rows)
      else do {
        result \<leftarrow> BucketForTimestamp zone grain (ue_Timestamp e);
        Some (andThen result (\<lambda>bucket.
          Inr (touch (ue_InstanceID e, grain, b_Start bucket, NormalizeAPIGroupKey (ue_APIGroupKey e))
                 (new_row e grain bucket) (add_to_row e) rows)))
      })"

fun build_grains :: "zone \<Rightarrow> time \<Rightarrow> activityRows \<Rightarrow> usageEvent \<Rightarrow> string list \<Rightarrow> (activityError + activityRows) option" where
  "build_grains zone now rows e [] = Some (Inr rows)"
| "build_grains zone now rows e (grain # grains) = do {
     result \<leftarrow> build_grain zone now rows e grain;
     case result of
       Inl err \<Rightarrow> Some (Inl err)
     | Inr rows \<Rightarrow> build_grains zone now rows e grains
   }"

fun build_all :: "zone \<Rightarrow> time \<Rightarrow> activityRows \<Rightarrow> usageEvent list \<Rightarrow> (activityError + activityRows) option" where
  "build_all zone now rows [] = Some (Inr rows)"
| "build_all zone now rows (e # es) = do {
     result \<leftarrow> build_grains zone now rows e allGrains;
     case result of
       Inl err \<Rightarrow> Some (Inl err)
     | Inr rows \<Rightarrow> build_all zone now rows es
   }"

definition BuildActivityRows :: "zone \<Rightarrow> usageEvent list \<Rightarrow> time \<Rightarrow> (activityError + usageActivityStat list) option" where
  "BuildActivityRows zone events now =
     map_option (\<lambda>result. andThen result (\<lambda>rows. Inr (sort_key row_key (map snd rows)))) (build_all zone now [] events)"


section \<open>The rows are exact\<close>

text \<open>What is counted: an event under a grain that still keeps it.\<close>

definition counted :: "time \<Rightarrow> usageEvent list \<Rightarrow> (usageEvent \<times> string) list" where
  "counted now events = [(e, grain). e \<leftarrow> events, grain \<leftarrow> allGrains, \<not> expired now grain e]"

definition pair_key :: "zone \<Rightarrow> usageEvent \<times> string \<Rightarrow> aggregateKey" where
  "pair_key zone = (\<lambda>(e, grain).
     (ue_InstanceID e, grain, b_Start (grain_cell zone grain (ue_Timestamp e)), NormalizeAPIGroupKey (ue_APIGroupKey e)))"

definition pair_row :: "zone \<Rightarrow> usageEvent \<times> string \<Rightarrow> usageActivityStat" where
  "pair_row zone = (\<lambda>(e, grain). new_row e grain (grain_cell zone grain (ue_Timestamp e)))"

definition pair_add :: "usageEvent \<times> string \<Rightarrow> usageActivityStat \<Rightarrow> usageActivityStat" where
  "pair_add = (\<lambda>(e, grain). add_to_row e)"

interpretation activity_rows: keyed_rows "pair_key zone" "pair_row zone" pair_add row_key for zone
  by unfold_locales (auto simp: row_key_def pair_key_def pair_row_def pair_add_def new_row_def add_to_row_def)

lemma collect_append: "collect key fresh add rows (xs @ ys) = collect key fresh add (collect key fresh add rows xs) ys"
  by (induction xs arbitrary: rows) simp_all

lemma allGrains_known: "list_all known_grain allGrains"
  by (simp add: allGrains_def known_grain_def)

context regular_zone begin

lemma build_grains_collect:
  assumes "storable (ue_Timestamp e)" and "list_all known_grain grains"
  shows "build_grains zone now rows e grains =
    Some (Inr (collect (pair_key zone) (pair_row zone) pair_add rows [(e, grain). grain \<leftarrow> grains, \<not> expired now grain e]))"
  using assms(2)
proof (induction grains arbitrary: rows)
  case (Cons grain grains)
  have "BucketForTimestamp zone grain (ue_Timestamp e) = Some (Inr (grain_cell zone grain (ue_Timestamp e)))"
    using Cons.prems assms(1) by (intro BucketForTimestamp_exact) (simp_all add: storable_def)
  with Cons show ?case by (simp add: build_grain_def pair_key_def pair_row_def pair_add_def)
qed simp

lemma build_all_collect:
  assumes "list_all (\<lambda>e. storable (ue_Timestamp e)) events"
  shows "build_all zone now rows events = Some (Inr (collect (pair_key zone) (pair_row zone) pair_add rows (counted now events)))"
  using assms by (induction events arbitrary: rows) (simp_all add: counted_def build_grains_collect allGrains_known collect_append)

end

text \<open>The events a row stands for: of its instance and API group, in its bucket, and kept by its grain.\<close>

definition events_of :: "time \<Rightarrow> usageEvent list \<Rightarrow> usageActivityStat \<Rightarrow> usageEvent list" where
  "events_of now events r =
     filter (\<lambda>e. \<not> expired now (as_Grain r) e \<and> ue_InstanceID e = as_InstanceID r
       \<and> NormalizeAPIGroupKey (ue_APIGroupKey e) = as_APIGroupKey r
       \<and> as_BucketStart r \<le> ue_Timestamp e \<and> ue_Timestamp e < as_BucketEnd r) events"

definition activity_exact :: "usageActivityStat \<Rightarrow> usageEvent list \<Rightarrow> bool" where
  "activity_exact r es \<longleftrightarrow>
     es \<noteq> [] \<and>
     as_SuccessCount r = wrap64 (\<Sum>e\<leftarrow>es. if ue_Failed e then 0 else 1) \<and>
     as_FailureCount r = wrap64 (\<Sum>e\<leftarrow>es. if ue_Failed e then 1 else 0) \<and>
     as_InputTokens r = wrap64 (\<Sum>e\<leftarrow>es. ue_InputTokens e) \<and>
     as_OutputTokens r = wrap64 (\<Sum>e\<leftarrow>es. ue_OutputTokens e) \<and>
     as_ReasoningTokens r = wrap64 (\<Sum>e\<leftarrow>es. ue_ReasoningTokens e) \<and>
     as_CacheReadTokens r = wrap64 (\<Sum>e\<leftarrow>es. ue_CacheReadTokens e) \<and>
     as_CacheCreationTokens r = wrap64 (\<Sum>e\<leftarrow>es. ue_CacheCreationTokens e) \<and>
     as_TotalTokens r = wrap64 (\<Sum>e\<leftarrow>es. ue_TotalTokens e)"

lemma activity_exact_new: "activity_exact (add_to_row e (new_row e grain bucket)) [e]"
  by (simp add: activity_exact_def add_to_row_def new_row_def wrap64_def)

lemma activity_exact_add: "activity_exact r es \<Longrightarrow> activity_exact (add_to_row e r) (es @ [e])"
  unfolding activity_exact_def by (simp add: add_to_row_def add.commute wrap64_id)

lemma activity_exact_fold: "activity_exact r es \<Longrightarrow> activity_exact (foldl (\<lambda>r e. add_to_row e r) r es') (es @ es')"
  by (induction es' rule: rev_induct) (simp_all add: activity_exact_add flip: append_assoc)

lemma add_to_row_end: "as_BucketEnd (foldl (\<lambda>r e. add_to_row e r) r es) = as_BucketEnd r"
  by (induction es arbitrary: r) (simp_all add: add_to_row_def)

text \<open>The pairs counted under one key are the events of one grain.\<close>

lemma counted_of_event:
  "distinct grains \<Longrightarrow>
   filter (\<lambda>p. pair_key zone p = (instance, grain, start, api)) [(e, grain). grain \<leftarrow> grains, \<not> expired now grain e] =
     (if grain \<in> set grains \<and> \<not> expired now grain e \<and> ue_InstanceID e = instance
         \<and> b_Start (grain_cell zone grain (ue_Timestamp e)) = start \<and> NormalizeAPIGroupKey (ue_APIGroupKey e) = api
      then [(e, grain)] else [])"
proof (induction grains)
  case (Cons g grains)
  then show ?case by (cases "g = grain") (simp_all add: pair_key_def)
qed simp

lemma allGrains_distinct: "distinct allGrains"
  by (simp add: allGrains_def grain_names)

lemma counted_of_key:
  assumes "grain \<in> set allGrains"
  shows "filter (\<lambda>p. pair_key zone p = (instance, grain, start, api)) (counted now events) =
    map (\<lambda>e. (e, grain)) (filter (\<lambda>e. \<not> expired now grain e \<and> ue_InstanceID e = instance
       \<and> b_Start (grain_cell zone grain (ue_Timestamp e)) = start \<and> NormalizeAPIGroupKey (ue_APIGroupKey e) = api) events)"
proof (induction events)
  case (Cons e events)
  note counted_of_event [OF allGrains_distinct, of zone "instance" grain start api now e]
  with Cons assms show ?case by (simp add: counted_def)
qed (simp add: counted_def)

context time_cells begin

lemma start_eq_iff: "b_Start (cell u) = b_Start (cell t) \<longleftrightarrow> b_Start (cell t) \<le> u \<and> u < b_End (cell t)"
proof
  assume start: "b_Start (cell u) = b_Start (cell t)"
  have "cell (b_Start (cell t)) = cell t" "cell (b_Start (cell u)) = cell u"
    using contains [of t] contains [of u] by (auto intro!: same_cell)
  with start contains [of u] show "b_Start (cell t) \<le> u \<and> u < b_End (cell t)" by metis
next
  assume "b_Start (cell t) \<le> u \<and> u < b_End (cell t)"
  then show "b_Start (cell u) = b_Start (cell t)" using same_cell [of t u] by simp
qed

end

context regular_zone begin

lemma activity_row_exact:
  assumes "r \<in> set (sort_key row_key (map snd (collect (pair_key zone) (pair_row zone) pair_add [] (counted now events))))"
  shows "activity_exact r (events_of now events r)"
    and "\<exists>t. as_BucketStart r = b_Start (grain_cell zone (as_Grain r) t) \<and> as_BucketEnd r = b_End (grain_cell zone (as_Grain r) t)"
    and "as_Grain r \<in> set allGrains"
proof -
  let ?key = "\<lambda>p. pair_key zone p = row_key r"
  from activity_rows.table_exact(3) [OF assms] obtain p rest
    where pairs: "filter ?key (counted now events) = p # rest" and r: "r = foldl (\<lambda>r p. pair_add p r) (pair_row zone p) (p # rest)"
    by (auto simp: row_of_def split: list.splits)
  obtain e grain where p: "p = (e, grain)" by fastforce
  have "p \<in> set (filter ?key (counted now events))" by (simp add: pairs)
  then have key: "pair_key zone (e, grain) = row_key r" and known: "grain \<in> set allGrains" by (auto simp: p counted_def)
  have g: "as_Grain r = grain" and start: "as_BucketStart r = b_Start (grain_cell zone grain (ue_Timestamp e))"
    using key unfolding pair_key_def row_key_def by (simp_all add: eq_commute)
  have "foldl (\<lambda>r p. pair_add p r) r0 (map (\<lambda>e. (e, grain)) es) = foldl (\<lambda>r e. add_to_row e r) r0 es" for r0 es
    by (induction es arbitrary: r0) (simp_all add: pair_add_def)
  moreover obtain es where es: "p # rest = map (\<lambda>e. (e, grain)) (e # es)"
      "filter (\<lambda>e. \<not> expired now grain e \<and> ue_InstanceID e = as_InstanceID r
         \<and> b_Start (grain_cell zone grain (ue_Timestamp e)) = as_BucketStart r
         \<and> NormalizeAPIGroupKey (ue_APIGroupKey e) = as_APIGroupKey r) events = e # es"
    using pairs counted_of_key [OF known, of zone "as_InstanceID r" "as_BucketStart r" "as_APIGroupKey r" now events]
    by (auto simp: row_key_def g p Cons_eq_map_conv)
  ultimately have fold: "r = foldl (\<lambda>r e. add_to_row e r) (pair_row zone p) (e # es)" using r es(1) by metis
  have stop: "as_BucketEnd r = b_End (grain_cell zone grain (ue_Timestamp e))"
    unfolding fold add_to_row_end by (simp add: p pair_row_def new_row_def)
  have "events_of now events r = e # es"
    unfolding es(2) [symmetric] events_of_def g start stop grain.start_eq_iff by (rule filter_cong) auto
  moreover have "activity_exact r ([e] @ es)"
    unfolding fold p pair_row_def using activity_exact_fold [OF activity_exact_new, of e grain _ es] by simp
  ultimately show "activity_exact r (events_of now events r)" by simp
  show "\<exists>t. as_BucketStart r = b_Start (grain_cell zone (as_Grain r) t) \<and> as_BucketEnd r = b_End (grain_cell zone (as_Grain r) t)"
    using start stop g by blast
  show "as_Grain r \<in> set allGrains" using known g by simp
qed

text \<open>The bucket of a row is the bucket its grain has for each of its events.\<close>

lemma activity_row_bucket:
  assumes "r \<in> set (sort_key row_key (map snd (collect (pair_key zone) (pair_row zone) pair_add [] (counted now events))))"
    and "list_all (\<lambda>e. storable (ue_Timestamp e)) events" and "e \<in> set (events_of now events r)"
  shows "\<exists>b. BucketForTimestamp zone (as_Grain r) (ue_Timestamp e) = Some (Inr b)
    \<and> b_Start b = as_BucketStart r \<and> b_End b = as_BucketEnd r"
proof -
  from activity_row_exact(2) [OF assms(1)] obtain t
    where t: "as_BucketStart r = b_Start (grain_cell zone (as_Grain r) t)" "as_BucketEnd r = b_End (grain_cell zone (as_Grain r) t)" by blast
  from assms(3) have e: "e \<in> set events" "as_BucketStart r \<le> ue_Timestamp e" "ue_Timestamp e < as_BucketEnd r"
    by (simp_all add: events_of_def)
  then have "grain_cell zone (as_Grain r) (ue_Timestamp e) = grain_cell zone (as_Grain r) t"
    unfolding t by (intro grain.same_cell)
  moreover have "known_grain (as_Grain r)" using activity_row_exact(3) [OF assms(1)] allGrains_known by (simp add: list_all_iff)
  moreover have "storable (ue_Timestamp e)" using assms(2) e(1) by (simp add: list_all_iff)
  ultimately show ?thesis
    using BucketForTimestamp_exact [of "as_Grain r" "ue_Timestamp e"] t by (simp add: storable_def)
qed

text \<open>A kept event belongs to the row that has its key.\<close>

lemma events_of_row:
  assumes "r \<in> set (sort_key row_key (map snd (collect (pair_key zone) (pair_row zone) pair_add [] (counted now events))))"
    and "e \<in> set events" and "\<not> expired now grain e" and "as_Grain r = grain"
  shows "e \<in> set (events_of now events r) \<longleftrightarrow> row_key r = pair_key zone (e, grain)"
proof -
  from activity_row_exact(2) [OF assms(1)] obtain t
    where "as_BucketStart r = b_Start (grain_cell zone grain t)" "as_BucketEnd r = b_End (grain_cell zone grain t)"
    by (auto simp: assms(4))
  then have "as_BucketStart r \<le> ue_Timestamp e \<and> ue_Timestamp e < as_BucketEnd r
      \<longleftrightarrow> b_Start (grain_cell zone grain (ue_Timestamp e)) = as_BucketStart r"
    by (simp only: grain.start_eq_iff)
  then have "e \<in> set (events_of now events r) \<longleftrightarrow> ue_InstanceID e = as_InstanceID r
      \<and> NormalizeAPIGroupKey (ue_APIGroupKey e) = as_APIGroupKey r \<and> b_Start (grain_cell zone grain (ue_Timestamp e)) = as_BucketStart r"
    using assms(2-4) by (simp add: events_of_def)
  then show ?thesis using assms(4) by (simp add: row_key_def pair_key_def) (metis (no_types))
qed

lemma activity_rows_partition:
  defines "rows now events \<equiv> sort_key row_key (map snd (collect (pair_key zone) (pair_row zone) pair_add [] (counted now events)))"
  assumes "e \<in> set events" and "grain \<in> set allGrains" and "\<not> expired now grain e"
  shows "\<exists>!r. r \<in> set (rows now events) \<and> as_Grain r = grain \<and> e \<in> set (events_of now events r)"
proof -
  note table = activity_rows.table_exact [where zone = zone and es = "counted now events", folded rows_def]
  have "(e, grain) \<in> set (counted now events)" using assms(2-4) by (auto simp: counted_def)
  then have "pair_key zone (e, grain) \<in> set (map row_key (rows now events))" unfolding table(2) by (rule imageI)
  then obtain r where r: "r \<in> set (rows now events)" "row_key r = pair_key zone (e, grain)" by auto
  moreover from r(2) have "as_Grain r = grain" by (simp add: row_key_def pair_key_def)
  moreover have "inj_on row_key (set (rows now events))"
    using table(1) by (simp add: strict_sorted_iff distinct_map)
  moreover have mine: "e \<in> set (events_of now events s) \<longleftrightarrow> row_key s = pair_key zone (e, grain)"
    if "s \<in> set (rows now events)" "as_Grain s = grain" for s
    using that events_of_row [folded rows_def, OF _ assms(2,4)] by blast
  ultimately show ?thesis by (metis (no_types, lifting) inj_onD)
qed

end

text \<open>
  What the rows are about, without the code's tables: a grain keeps an event of the last 3, 8 or 31 days, the daily grain every
  event; an event without an API key belongs to the group \<open>unknown\<close>.
\<close>

definition kept_in_grain :: "time \<Rightarrow> string \<Rightarrow> usageEvent \<Rightarrow> bool" where
  "kept_in_grain now grain e \<longleftrightarrow>
     grain = ''daily''
     \<or> now - (if grain = ''short'' then 3 else if grain = ''medium'' then 8 else 31) * 86400000000000 \<le> ue_Timestamp e"

definition row_events :: "time \<Rightarrow> usageEvent list \<Rightarrow> usageActivityStat \<Rightarrow> usageEvent list" where
  "row_events now events r =
     filter (\<lambda>e. kept_in_grain now (as_Grain r) e \<and> ue_InstanceID e = as_InstanceID r
       \<and> (if TrimSpace (ue_APIGroupKey e) = '''' then ''unknown'' else TrimSpace (ue_APIGroupKey e)) = as_APIGroupKey r
       \<and> as_BucketStart r \<le> ue_Timestamp e \<and> ue_Timestamp e < as_BucketEnd r) events"

lemma four_grains: "set allGrains = {''short'', ''medium'', ''long'', ''daily''}"
  by (auto simp: allGrains_def UsageActivityGrainShort_def UsageActivityGrainMedium_def UsageActivityGrainLong_def UsageActivityGrainDaily_def)

lemma kept_iff: "grain \<in> {''short'', ''medium'', ''long'', ''daily''} \<Longrightarrow> kept_in_grain now grain e \<longleftrightarrow> \<not> expired now grain e"
  by (auto simp: kept_in_grain_def expired_def Retention_def grainRetentions_def UsageActivityGrainShort_def UsageActivityGrainMedium_def
      UsageActivityGrainLong_def Hour_def Minute_def Second_def)

lemma row_events_iff: "as_Grain r \<in> set allGrains \<Longrightarrow> row_events now events r = events_of now events r"
  by (simp add: row_events_def events_of_def four_grains kept_iff NormalizeAPIGroupKey_def Let_def)

text \<open>
  Claim C33. In every zone with regular days, for storable events, \<open>BuildRows\<close> returns rows in strictly ascending
  order of instance, grain, start of the bucket and API group. Each row counts exactly the events of its instance and API group that lie
  in its bucket and that its grain still keeps (of the last 3, 8 or 31 days, or all of them), at least one: successes, failures and the six
  token counts are their 64-bit sums, and its bucket is the bucket of the grain for each of them. For every grain, an event that the grain keeps is counted
  in exactly one row.
\<close>

theorem activity_rows_exact:
  assumes "regular_days zone" and "list_all (\<lambda>e. storable (ue_Timestamp e)) events"
  shows "\<exists>rows. BuildActivityRows zone events now = Some (Inr rows)
    \<and> sorted_wrt (\<lambda>l r. (as_InstanceID l, as_Grain l, as_BucketStart l, as_APIGroupKey l)
         < (as_InstanceID r, as_Grain r, as_BucketStart r, as_APIGroupKey r)) rows
    \<and> (\<forall>r \<in> set rows. as_Grain r \<in> {''short'', ''medium'', ''long'', ''daily''} \<and> activity_exact r (row_events now events r))
    \<and> (\<forall>r \<in> set rows. \<forall>e \<in> set (row_events now events r).
         \<exists>b. BucketForTimestamp zone (as_Grain r) (ue_Timestamp e) = Some (Inr b)
           \<and> b_Start b = as_BucketStart r \<and> b_End b = as_BucketEnd r)
    \<and> (\<forall>e \<in> set events. \<forall>grain \<in> {''short'', ''medium'', ''long'', ''daily''}. kept_in_grain now grain e \<longrightarrow>
         (\<exists>!r. r \<in> set rows \<and> as_Grain r = grain \<and> e \<in> set (row_events now events r)))"
proof -
  from assms(1) have zone: "regular_zone zone" by (simp add: regular_zone_def)
  let ?rows = "sort_key row_key (map snd (collect (pair_key zone) (pair_row zone) pair_add [] (counted now events)))"
  have "BuildActivityRows zone events now = Some (Inr ?rows)"
    by (simp add: BuildActivityRows_def regular_zone.build_all_collect [OF zone assms(2)])
  moreover have "sorted_wrt (\<lambda>l r. (as_InstanceID l, as_Grain l, as_BucketStart l, as_APIGroupKey l)
      < (as_InstanceID r, as_Grain r, as_BucketStart r, as_APIGroupKey r)) ?rows"
    using activity_rows.table_exact(1) [where zone = zone, unfolded sorted_wrt_map] by (simp add: row_key_def)
  moreover note grains = regular_zone.activity_row_exact(3) [OF zone]
  moreover have "activity_exact r (row_events now events r)" if "r \<in> set ?rows" for r
    using regular_zone.activity_row_exact(1) [OF zone that] by (simp add: row_events_iff [OF grains [OF that]])
  moreover have "\<exists>b. BucketForTimestamp zone (as_Grain r) (ue_Timestamp e) = Some (Inr b)
      \<and> b_Start b = as_BucketStart r \<and> b_End b = as_BucketEnd r"
    if "r \<in> set ?rows" "e \<in> set (row_events now events r)" for r e
    using regular_zone.activity_row_bucket [OF zone that(1) assms(2)] that row_events_iff [OF grains [OF that(1)]] by simp
  moreover have "\<exists>!r. r \<in> set ?rows \<and> as_Grain r = grain \<and> e \<in> set (row_events now events r)"
    if "e \<in> set events" "grain \<in> {''short'', ''medium'', ''long'', ''daily''}" "kept_in_grain now grain e" for e grain
  proof -
    have known: "grain \<in> set allGrains" using that(2) by (simp only: four_grains)
    have "\<not> expired now grain e" using that(2,3) kept_iff by blast
    from regular_zone.activity_rows_partition [OF zone that(1) known this]
    show ?thesis using row_events_iff known by (metis (no_types, lifting))
  qed
  ultimately show ?thesis unfolding four_grains by (intro exI [of _ ?rows] conjI ballI impI) simp_all
qed

text \<open>
  Two failed events, of the last minute and of five days before it: the grain of 3 days has dropped the older one, and every
  grain has a row of the newer one.
\<close>

theorem activity_rows_exact_witness:
  "\<exists>rows. BuildActivityRows (fixed_zone 28800) [blank_event\<lparr>ue_Timestamp := 500000 * Second, ue_Failed := True\<rparr>,
         blank_event\<lparr>ue_Timestamp := 68000 * Second, ue_Failed := True\<rparr>] (500060 * Second) = Some (Inr rows)
     \<and> as_Grain ` set rows = {''short'', ''medium'', ''long'', ''daily''}
     \<and> (\<forall>r\<in>set rows. as_Grain r = ''short'' \<longrightarrow> as_FailureCount r = 1)"
proof -
  let ?new = "blank_event\<lparr>ue_Timestamp := 500000 * Second, ue_Failed := True\<rparr>" and ?old = "blank_event\<lparr>ue_Timestamp := 68000 * Second, ue_Failed := True\<rparr>"
  let ?now = "500060 * Second"
  have "list_all (\<lambda>e. storable (ue_Timestamp e)) [?new, ?old]" by (simp add: storable_def)
  moreover have "regular_days (fixed_zone 28800)" by (rule fixed_zone_regular) simp
  ultimately obtain rows
    where rows: "BuildActivityRows (fixed_zone 28800) [?new, ?old] ?now = Some (Inr rows)"
      and each: "\<forall>r\<in>set rows. as_Grain r \<in> {''short'', ''medium'', ''long'', ''daily''} \<and> activity_exact r (row_events ?now [?new, ?old] r)"
      and all: "\<forall>e\<in>set [?new, ?old]. \<forall>grain\<in>{''short'', ''medium'', ''long'', ''daily''}. kept_in_grain ?now grain e \<longrightarrow>
        (\<exists>!r. r \<in> set rows \<and> as_Grain r = grain \<and> e \<in> set (row_events ?now [?new, ?old] r))"
    using activity_rows_exact [of "fixed_zone 28800" "[?new, ?old]" ?now] by blast
  have kept: "kept_in_grain ?now grain ?new" "\<not> kept_in_grain ?now ''short'' ?old" for grain by (simp_all add: kept_in_grain_def Second_def)
  have "{''short'', ''medium'', ''long'', ''daily''} \<subseteq> as_Grain ` set rows"
  proof
    fix grain assume "grain \<in> {''short'', ''medium'', ''long'', ''daily''}"
    with all kept(1) [of grain] have "\<exists>r. r \<in> set rows \<and> as_Grain r = grain" by (meson ex1_implies_ex list.set_intros(1))
    then show "grain \<in> as_Grain ` set rows" by blast
  qed
  moreover have "as_Grain ` set rows \<subseteq> {''short'', ''medium'', ''long'', ''daily''}" using each by blast
  ultimately have "as_Grain ` set rows = {''short'', ''medium'', ''long'', ''daily''}" by (rule equalityI [rotated])
  moreover have "as_FailureCount r = 1" if "r \<in> set rows" "as_Grain r = ''short''" for r
  proof -
    have "row_events ?now [?new, ?old] r \<in> {[], [?new]}" using that(2) kept(2) by (auto simp: row_events_def)
    with each that(1) show ?thesis by (auto simp: activity_exact_def wrap64_def)
  qed
  ultimately show ?thesis using rows by blast
qed

end
