(* ===== verification/Latency_Aggregate.thy ===== *)
theory Latency_Aggregate
  imports Latency_Store Activity_Aggregate
begin

text \<open>
  The latency aggregation: \<open>BuildRows\<close> of \<open>src/internal/latency/aggregate.go\<close> and the retention of its
  rows. Successful generating events with a positive time to the first token become samples of an
  hourly and of a daily row. The project zone is the parameter \<open>zone\<close>.
\<close>

definition UsageLatencyBucketHour :: string where "UsageLatencyBucketHour = ''hour''"

definition UsageLatencyBucketDay :: string where "UsageLatencyBucketDay = ''day''"

definition HourRetentionDays :: int where "HourRetentionDays = 3"

definition DayRetentionDays :: int where "DayRetentionDays = 365"

datatype latencyBuildError = RetentionTimeZero | UnsupportedBucketType string | RowFailed codecError

text \<open>\<open>aggregateKey\<close>: instance, bucket type, start of the bucket and API group, the order of the rows.\<close>

type_synonym latencyKey = "string \<times> string \<times> time \<times> string"

text \<open>The full hour of the local wall clock.\<close>

definition localHourStart :: "zone \<Rightarrow> time \<Rightarrow> time" where
  "localHourStart zone t =
     t + (- (wall_seconds zone t div 60 mod 60 * Minute) - wall_seconds zone t mod 60 * Second - t mod Second)"

definition RetentionBucketStartCutoff :: "zone \<Rightarrow> string \<Rightarrow> time \<Rightarrow> latencyBuildError + time" where
  "RetentionBucketStartCutoff zone bucketType now =
     (if now = zeroTime then Inl RetentionTimeZero
      else if bucketType = UsageLatencyBucketHour then Inr (localHourStart zone (now - HourRetentionDays * 24 * Hour))
      else if bucketType = UsageLatencyBucketDay then Inr (AddDays zone (day_start zone now) (- (DayRetentionDays - 1)))
      else Inl (UnsupportedBucketType bucketType))"

text \<open>The sample of an event, if it is one.\<close>

definition latency_sample :: "usageEvent \<Rightarrow> latencySample option" where
  "latency_sample e =
     (case (ue_Generate e, ue_TTFTMS e) of
        (Some True, Some ttft) \<Rightarrow>
          if ue_Failed e \<or> ttft \<le> 0 \<or> ue_LatencyMS e \<le> 0 then None else Some (ue_ID e, ttft, ue_LatencyMS e)
      | _ \<Rightarrow> None)"

definition latency_keys :: "zone \<Rightarrow> usageEvent \<Rightarrow> latencyKey list" where
  "latency_keys zone e =
     [(ue_InstanceID e, UsageLatencyBucketHour, localHourStart zone (ue_Timestamp e), NormalizeAPIGroupKey (ue_APIGroupKey e)),
      (ue_InstanceID e, UsageLatencyBucketDay, day_start zone (ue_Timestamp e), NormalizeAPIGroupKey (ue_APIGroupKey e))]"

definition out_of_retention :: "time \<Rightarrow> time \<Rightarrow> latencyKey \<Rightarrow> bool" where
  "out_of_retention hourCutoff dayCutoff key =
     (case key of (_, bucketType, start, _) \<Rightarrow>
        bucketType = UsageLatencyBucketHour \<and> start < hourCutoff \<or> bucketType = UsageLatencyBucketDay \<and> start < dayCutoff)"

type_synonym latencyBuilders = "(latencyKey \<times> aggregateRowBuilder) list"

text \<open>The inner loop over the two keys of an event, and the outer one over the events.\<close>

fun build_keys ::
    "(float64 \<Rightarrow> float64) \<Rightarrow> time \<Rightarrow> time \<Rightarrow> latencySample \<Rightarrow> latencyKey list \<Rightarrow> latencyBuilders \<Rightarrow> codecError + latencyBuilders" where
  "build_keys math_log hourCutoff dayCutoff s [] builders = Inr builders"
| "build_keys math_log hourCutoff dayCutoff s (key # keys) builders =
     (if out_of_retention hourCutoff dayCutoff key then build_keys math_log hourCutoff dayCutoff s keys builders
      else
        let builder = (case map_of builders key of None \<Rightarrow> new_builder | Some b \<Rightarrow> b);
            (eventID, ttftMS, latencyMS) = s
        in andThen (builder_add math_log eventID ttftMS latencyMS builder) (\<lambda>builder.
             build_keys math_log hourCutoff dayCutoff s keys (AList.update key builder builders)))"

fun build_latency_events ::
    "(float64 \<Rightarrow> float64) \<Rightarrow> zone \<Rightarrow> time \<Rightarrow> time \<Rightarrow> usageEvent list \<Rightarrow> latencyBuilders \<Rightarrow> codecError + latencyBuilders" where
  "build_latency_events math_log zone hourCutoff dayCutoff [] builders = Inr builders"
| "build_latency_events math_log zone hourCutoff dayCutoff (e # es) builders =
     (case latency_sample e of
        None \<Rightarrow> build_latency_events math_log zone hourCutoff dayCutoff es builders
      | Some s \<Rightarrow> andThen (build_keys math_log hourCutoff dayCutoff s (latency_keys zone e) builders)
          (build_latency_events math_log zone hourCutoff dayCutoff es))"

definition keyed_row :: "latencyKey \<Rightarrow> usageLatencyStat" where
  "keyed_row key =
     (case key of (instanceID, bucketType, bucketStart, apiGroupKey) \<Rightarrow>
        \<lparr>ul_ID = 0, ul_InstanceID = instanceID, ul_BucketType = bucketType, ul_BucketStart = bucketStart,
         ul_APIGroupKey = apiGroupKey, ul_SampleCount = 0, ul_MaxTTFTMS = 0, ul_MaxLatencyMS = 0, ul_FormatVersion = 0,
         ul_TTFTSketch = [], ul_LatencySketch = [], ul_SamplePoints = [], ul_CreatedAt = zeroTime, ul_UpdatedAt = zeroTime\<rparr>)"

fun encode_builders :: "latencyBuilders \<Rightarrow> codecError + usageLatencyStat list" where
  "encode_builders [] = Inr []"
| "encode_builders ((key, builder) # rest) =
     andThen (builder_row builder (keyed_row key)) (\<lambda>row. andThen (encode_builders rest) (\<lambda>rows. Inr (row # rows)))"

definition latency_key :: "usageLatencyStat \<Rightarrow> latencyKey" where
  "latency_key row = (ul_InstanceID row, ul_BucketType row, ul_BucketStart row, ul_APIGroupKey row)"

definition row_failure :: "codecError + 'a \<Rightarrow> latencyBuildError + 'a" where
  "row_failure r = (case r of Inl e \<Rightarrow> Inl (RowFailed e) | Inr x \<Rightarrow> Inr x)"

definition LatencyBuildRows ::
    "(float64 \<Rightarrow> float64) \<Rightarrow> zone \<Rightarrow> usageEvent list \<Rightarrow> time \<Rightarrow> latencyBuildError + usageLatencyStat list" where
  "LatencyBuildRows math_log zone events now =
     andThen (RetentionBucketStartCutoff zone UsageLatencyBucketHour now) (\<lambda>hourCutoff.
     andThen (RetentionBucketStartCutoff zone UsageLatencyBucketDay now) (\<lambda>dayCutoff.
     andThen (row_failure (build_latency_events math_log zone hourCutoff dayCutoff events [])) (\<lambda>builders.
     andThen (row_failure (encode_builders builders)) (\<lambda>rows.
       Inr (sort_key latency_key rows)))))"


section \<open>The rows are exact\<close>

text \<open>The samples and the keys they are counted under.\<close>

definition kept_pairs :: "zone \<Rightarrow> time \<Rightarrow> time \<Rightarrow> usageEvent list \<Rightarrow> (latencyKey \<times> latencySample) list" where
  "kept_pairs zone hourCutoff dayCutoff events =
     concat (map (\<lambda>e. case latency_sample e of
         None \<Rightarrow> []
       | Some s \<Rightarrow> map (\<lambda>key. (key, s)) (filter (\<lambda>key. \<not> out_of_retention hourCutoff dayCutoff key) (latency_keys zone e))) events)"

definition of_key :: "latencyKey \<Rightarrow> (latencyKey \<times> latencySample) list \<Rightarrow> latencySample list" where
  "of_key key pairs = map snd (filter (\<lambda>p. fst p = key) pairs)"

fun add_pairs :: "(float64 \<Rightarrow> float64) \<Rightarrow> (latencyKey \<times> latencySample) list \<Rightarrow> latencyBuilders \<Rightarrow> codecError + latencyBuilders" where
  "add_pairs math_log [] builders = Inr builders"
| "add_pairs math_log ((key, eventID, ttft, latency) # pairs) builders =
     andThen (builder_add math_log eventID ttft latency (case map_of builders key of None \<Rightarrow> new_builder | Some b \<Rightarrow> b))
       (\<lambda>b. add_pairs math_log pairs (AList.update key b builders))"

lemma add_pairs_append:
  "add_pairs math_log (ps @ qs) builders = andThen (add_pairs math_log ps builders) (add_pairs math_log qs)"
  by (induction math_log ps builders rule: add_pairs.induct) (simp_all add: andThen_assoc)

lemma build_keys_pairs:
  "build_keys math_log hourCutoff dayCutoff s keys builders =
     add_pairs math_log (map (\<lambda>key. (key, s)) (filter (\<lambda>key. \<not> out_of_retention hourCutoff dayCutoff key) keys)) builders"
  by (induction keys arbitrary: builders) (auto split: prod.split)

lemma build_events_pairs:
  "build_latency_events math_log zone hourCutoff dayCutoff events builders =
     add_pairs math_log (kept_pairs zone hourCutoff dayCutoff events) builders"
proof (induction events arbitrary: builders)
  case (Cons e es)
  then have "build_latency_events math_log zone hourCutoff dayCutoff es = add_pairs math_log (kept_pairs zone hourCutoff dayCutoff es)"
    by (intro ext)
  then show ?case
    by (cases "latency_sample e") (simp_all add: kept_pairs_def build_keys_pairs add_pairs_append)
qed (simp add: kept_pairs_def)

text \<open>Every builder holds the samples of its key.\<close>

definition entry_holds :: "(float64 \<Rightarrow> float64) \<Rightarrow> aggregateRowBuilder option \<Rightarrow> latencySample list \<Rightarrow> bool" where
  "entry_holds math_log entry es \<longleftrightarrow>
     (case entry of None \<Rightarrow> es = [] | Some b \<Rightarrow> es \<noteq> [] \<and> builder_holds math_log b es)"

definition builders_hold :: "(float64 \<Rightarrow> float64) \<Rightarrow> latencyBuilders \<Rightarrow> (latencyKey \<times> latencySample) list \<Rightarrow> bool" where
  "builders_hold math_log builders pairs \<longleftrightarrow> distinct (map fst builders) \<and>
     (\<forall>key. entry_holds math_log (map_of builders key) (of_key key pairs))"

lemma of_key_append: "of_key key (ps @ qs) = of_key key ps @ of_key key qs"
  by (simp add: of_key_def)

lemma of_key_single: "of_key key' [(key, s)] = (if key' = key then [s] else [])"
  by (simp add: of_key_def)

lemma builders_holdD: "builders_hold math_log builders ps \<Longrightarrow> entry_holds math_log (map_of builders key) (of_key key ps)"
  unfolding builders_hold_def by blast

lemma builders_add:
  assumes "builders_hold math_log builders ps" and "builder_holds math_log b (of_key key ps @ [s])"
  shows "builders_hold math_log (AList.update key b builders) (ps @ [(key, s)])"
proof -
  have "entry_holds math_log (map_of (AList.update key b builders) key') (of_key key' (ps @ [(key, s)]))" for key'
    using assms(2) builders_holdD [OF assms(1), of key']
    by (cases "key' = key") (simp_all add: update_conv' of_key_append of_key_single entry_holds_def)
  then show ?thesis using assms(1) by (simp add: builders_hold_def distinct_update)
qed

lemma add_pairs_holds:
  assumes "builders_hold math_log builders ps" and "\<And>key. samples_ok (of_key key (ps @ qs))"
  shows "\<exists>builders'. add_pairs math_log qs builders = Inr builders' \<and> builders_hold math_log builders' (ps @ qs)"
  using assms
proof (induction qs arbitrary: builders ps)
  case (Cons q qs)
  obtain key eventID ttft latency where q: "q = (key, eventID, ttft, latency)" by (metis prod_cases4)
  let ?b = "case map_of builders key of None \<Rightarrow> new_builder | Some b \<Rightarrow> b"
  have "builder_holds math_log ?b (of_key key ps)"
  proof -
    note builders_holdD [OF Cons.prems(1), of key]
    then show ?thesis using new_builder_holds [of math_log] by (cases "map_of builders key") (simp_all add: entry_holds_def)
  qed
  moreover have "samples_ok (of_key key ps @ [(eventID, ttft, latency)])"
    using samples_ok_append [of "of_key key ps @ [(eventID, ttft, latency)]" "of_key key qs"] Cons.prems(2) [of key]
    by (simp add: of_key_append) (simp add: of_key_def q)
  ultimately obtain b where b: "builder_add math_log eventID ttft latency ?b = Inr b"
      "builder_holds math_log b (of_key key ps @ [(eventID, ttft, latency)])"
    using builder_add_holds by blast
  from Cons.IH [OF builders_add [OF Cons.prems(1) b(2)]] Cons.prems(2) b(1) show ?case by (simp add: q)
qed simp

lemma builder_row_key: "builder_row b key = Inr row \<Longrightarrow> latency_key row = latency_key key"
  by (auto simp: builder_row_def andThen_eq_Inr latency_key_def)

lemma keyed_row_key: "latency_key (keyed_row key) = key"
  by (simp add: keyed_row_def latency_key_def split: prod.split)

lemma encode_builders_holds:
  assumes "\<And>key b. (key, b) \<in> set builders \<Longrightarrow> of_key key pairs \<noteq> [] \<and> builder_holds math_log b (of_key key pairs)"
    and "\<And>key. samples_ok (of_key key pairs)"
  shows "\<exists>rows. encode_builders builders = Inr rows \<and> map latency_key rows = map fst builders
    \<and> (\<forall>row \<in> set rows. row_holds math_log row (of_key (latency_key row) pairs))"
  using assms(1)
proof (induction builders)
  case (Cons kb builders)
  obtain key b where kb: "kb = (key, b)" by fastforce
  from Cons.prems [of key b] obtain row
    where row: "builder_row b (keyed_row key) = Inr row" "row_holds math_log row (of_key key pairs)"
    using builder_row_holds [of math_log b "of_key key pairs" "keyed_row key"] assms(2) [of key]
    by (metis kb list.set_intros(1))
  moreover have "latency_key row = key" using builder_row_key [OF row(1)] keyed_row_key by metis
  moreover obtain rows where "encode_builders builders = Inr rows" "map latency_key rows = map fst builders"
      "\<forall>row \<in> set rows. row_holds math_log row (of_key (latency_key row) pairs)"
  proof (rule exE [OF Cons.IH])
    show "of_key k pairs \<noteq> [] \<and> builder_holds math_log b' (of_key k pairs)" if "(k, b') \<in> set builders" for k b'
      using that by (intro Cons.prems) simp
  qed blast
  ultimately show ?case by (simp add: kb)
qed simp

text \<open>The samples that belong under a key.\<close>

definition samples_under :: "zone \<Rightarrow> latencyKey \<Rightarrow> usageEvent list \<Rightarrow> latencySample list" where
  "samples_under zone key events = List.map_filter latency_sample (filter (\<lambda>e. key \<in> set (latency_keys zone e)) events)"

lemma of_key_kept:
  "of_key key (kept_pairs zone hourCutoff dayCutoff events) =
     (if out_of_retention hourCutoff dayCutoff key then [] else samples_under zone key events)"
proof (induction events)
  case (Cons e es)
  have distinct: "distinct (latency_keys zone e)"
    by (simp add: latency_keys_def UsageLatencyBucketHour_def UsageLatencyBucketDay_def)
  have "of_key key (map (\<lambda>k. (k, s)) (filter P keys)) = (if key \<in> set keys \<and> P key then [s] else [])"
    if "distinct keys" for s P and keys :: "latencyKey list"
    using that by (induction keys) (auto simp: of_key_def)
  from this [OF distinct] Cons show ?case
    by (cases "latency_sample e") (auto simp: kept_pairs_def samples_under_def of_key_append map_filter_simps of_key_def)
qed (simp add: kept_pairs_def samples_under_def of_key_def map_filter_simps)

lemma samples_ok_part:
  assumes "samples_ok (List.map_filter f es)"
  shows "samples_ok (List.map_filter f (filter P es))"
proof -
  have sub: "set (List.map_filter f (filter P es)) \<subseteq> set (List.map_filter f es)" for es
    by (induction es) (auto simp: map_filter_simps split: option.split)
  have "distinct (map fst (List.map_filter f es)) \<Longrightarrow> distinct (map fst (List.map_filter f (filter P es)))" for es
  proof (induction es)
    case (Cons e es)
    then show ?case
    proof (cases "f e")
      case (Some y)
      with Cons.prems have "fst y \<notin> fst ` set (List.map_filter f es)" by (simp add: map_filter_simps)
      then have "fst y \<notin> fst ` set (List.map_filter f (filter P es))" using sub [of es] by blast
      with Cons Some show ?thesis by (simp add: map_filter_simps)
    qed (simp add: map_filter_simps)
  qed (simp add: map_filter_simps)
  moreover have "length (List.map_filter f (filter P es)) \<le> length (List.map_filter f es)" for es
    by (induction es) (auto simp: map_filter_simps split: option.splits)
  moreover from assms have "\<forall>x \<in> set (List.map_filter f (filter P es)). valid_sample x"
    unfolding samples_ok_def list_all_iff using sub [of es] by blast
  ultimately show ?thesis
    using assms order_trans [OF of_nat_mono] unfolding samples_ok_def list_all_iff by blast
qed

lemma distinct_keys_sorted: "distinct (map f xs) \<Longrightarrow> sorted_wrt (\<lambda>l r. f l < f r) (sort_key f xs)"
proof -
  assume "distinct (map f xs)"
  then have "distinct (map f (sort_key f xs))"
    using mset_eq_imp_distinct_iff [of "map f (sort_key f xs)" "map f xs"] by simp
  then have "sorted_wrt (<) (map f (sort_key f xs))" by (simp add: strict_sorted_iff)
  then show ?thesis by (simp add: sorted_wrt_map)
qed

text \<open>
  Claim C28. \<open>BuildRows\<close> of the latency aggregation is exact. When the events that are samples have different
  ids and valid values, rows come out in strictly ascending order of their keys. Each belongs to a
  bucket inside the retention and holds exactly the samples of its key: their number and maxima,
  sketches that count each of them in its bucket, and the thousand best points. Every sample has a
  row for its hour and one for its day, unless the bucket is past the retention.
\<close>

theorem latency_rows_exact:
  assumes "now \<noteq> zeroTime" and "samples_ok (List.map_filter latency_sample events)"
  shows "\<exists>rows hourCutoff dayCutoff. LatencyBuildRows math_log zone events now = Inr rows
    \<and> RetentionBucketStartCutoff zone UsageLatencyBucketHour now = Inr hourCutoff
    \<and> RetentionBucketStartCutoff zone UsageLatencyBucketDay now = Inr dayCutoff
    \<and> sorted_wrt (\<lambda>l r. latency_key l < latency_key r) rows
    \<and> (\<forall>row \<in> set rows. \<not> out_of_retention hourCutoff dayCutoff (latency_key row)
        \<and> row_holds math_log row (samples_under zone (latency_key row) events))
    \<and> (\<forall>e \<in> set events. \<forall>key \<in> set (latency_keys zone e).
        latency_sample e \<noteq> None \<longrightarrow> \<not> out_of_retention hourCutoff dayCutoff key \<longrightarrow> key \<in> latency_key ` set rows)"
proof -
  obtain hc dc where cut: "RetentionBucketStartCutoff zone UsageLatencyBucketHour now = Inr hc"
      "RetentionBucketStartCutoff zone UsageLatencyBucketDay now = Inr dc"
    using assms(1) by (simp add: RetentionBucketStartCutoff_def UsageLatencyBucketHour_def UsageLatencyBucketDay_def)
  let ?pairs = "kept_pairs zone hc dc events"
  have ok: "samples_ok (of_key key ?pairs)" for key
    using samples_ok_part [OF assms(2)] by (simp add: of_key_kept samples_under_def) (simp add: samples_ok_def MaxInt64_def)
  have "builders_hold math_log [] []" by (simp add: builders_hold_def entry_holds_def of_key_def)
  then obtain builders where built: "build_latency_events math_log zone hc dc events [] = Inr builders"
      and holds: "builders_hold math_log builders ?pairs"
    using add_pairs_holds [of math_log "[]" "[]" ?pairs] ok by (auto simp: build_events_pairs)
  from holds have dist: "distinct (map fst builders)" by (simp add: builders_hold_def)
  have entries: "of_key key ?pairs \<noteq> [] \<and> builder_holds math_log b (of_key key ?pairs)" if "(key, b) \<in> set builders" for key b
    using builders_holdD [OF holds, of key] map_of_is_SomeI [OF dist that] by (simp add: entry_holds_def)
  obtain rows where rows: "encode_builders builders = Inr rows" "map latency_key rows = map fst builders"
      "\<forall>row \<in> set rows. row_holds math_log row (of_key (latency_key row) ?pairs)"
    using encode_builders_holds [OF entries ok] by blast
  let ?rows = "sort_key latency_key rows"
  have "LatencyBuildRows math_log zone events now = Inr ?rows"
    by (simp add: LatencyBuildRows_def cut built rows(1) row_failure_def)
  moreover have "sorted_wrt (\<lambda>l r. latency_key l < latency_key r) ?rows" using rows(2) dist by (intro distinct_keys_sorted) simp
  moreover have "\<not> out_of_retention hc dc (latency_key row) \<and> row_holds math_log row (samples_under zone (latency_key row) events)"
    if "row \<in> set ?rows" for row
  proof -
    from that rows(3) have held: "row_holds math_log row (of_key (latency_key row) ?pairs)" by simp
    then have "of_key (latency_key row) ?pairs \<noteq> []" by (simp add: row_holds_def)
    with held show ?thesis by (simp add: of_key_kept split: if_splits)
  qed
  moreover have "key \<in> latency_key ` set ?rows"
    if "e \<in> set events" "key \<in> set (latency_keys zone e)" "latency_sample e \<noteq> None" "\<not> out_of_retention hc dc key" for e key
  proof -
    from that have "samples_under zone key events \<noteq> []" by (auto simp: samples_under_def List.map_filter_def filter_empty_conv)
    then have "of_key key ?pairs \<noteq> []" using that(4) by (simp add: of_key_kept)
    with builders_holdD [OF holds, of key] have "key \<in> fst ` set builders"
      using map_of_eq_None_iff [of builders key] by (auto simp: entry_holds_def)
    also have "fst ` set builders = latency_key ` set rows" using arg_cong [OF rows(2), of set] by simp
    finally show ?thesis by simp
  qed
  ultimately show ?thesis using cut by blast
qed

text \<open>One sample, a minute old, in its hour and in its day.\<close>

theorem latency_rows_exact_witness:
  "\<exists>rows. LatencyBuildRows (\<lambda>x. x) (fixed_zone 28800)
       [blank_event\<lparr>ue_ID := 7, ue_Timestamp := 1000 * Second, ue_Generate := Some True, ue_TTFTMS := Some 20, ue_LatencyMS := 300\<rparr>]
       (1060 * Second) = Inr rows
     \<and> ('''', ''hour'', 0, ''unknown'') \<in> latency_key ` set rows
     \<and> list_all (\<lambda>row. ul_SampleCount row = 1 \<and> ul_MaxTTFTMS row = 20 \<and> ul_MaxLatencyMS row = 300) rows"
proof -
  let ?e = "blank_event\<lparr>ue_ID := 7, ue_Timestamp := 1000 * Second, ue_Generate := Some True, ue_TTFTMS := Some 20, ue_LatencyMS := 300\<rparr>"
  have sample: "latency_sample ?e = Some (7, 20, 300)" by (simp add: latency_sample_def blank_event_def)
  have "samples_ok (List.map_filter latency_sample [?e])"
    by (simp add: sample map_filter_simps samples_ok_def MaxInt64_def)
  moreover have "(1060 * Second :: time) \<noteq> zeroTime" by (simp add: zeroTime_def Second_def)
  ultimately obtain rows hc dc where rows: "LatencyBuildRows (\<lambda>x. x) (fixed_zone 28800) [?e] (1060 * Second) = Inr rows"
      "RetentionBucketStartCutoff (fixed_zone 28800) UsageLatencyBucketHour (1060 * Second) = Inr hc"
      "\<forall>row \<in> set rows. \<not> out_of_retention hc dc (latency_key row)
        \<and> row_holds (\<lambda>x. x) row (samples_under (fixed_zone 28800) (latency_key row) [?e])"
      "\<forall>key \<in> set (latency_keys (fixed_zone 28800) ?e). \<not> out_of_retention hc dc key \<longrightarrow> key \<in> latency_key ` set rows"
    using latency_rows_exact [of "1060 * Second" "[?e]" "\<lambda>x. x" "fixed_zone 28800"] sample by auto
  have key: "('''', UsageLatencyBucketHour, 0, ''unknown'') \<in> set (latency_keys (fixed_zone 28800) ?e)"
    by (simp add: latency_keys_def blank_event_def localHourStart_def wall_seconds_def fixed_zone_def unix_def Second_def
        Minute_def NormalizeAPIGroupKey_def TrimSpace_def trim_left_def trim_right_def)
  have "\<not> out_of_retention hc dc ('''', UsageLatencyBucketHour, 0, ''unknown'')"
    using rows(2) by (simp add: out_of_retention_def RetentionBucketStartCutoff_def UsageLatencyBucketHour_def
        UsageLatencyBucketDay_def zeroTime_def localHourStart_def wall_seconds_def fixed_zone_def unix_def Second_def
        Minute_def Hour_def HourRetentionDays_def)
  with rows(4) key have first: "('''', ''hour'', 0, ''unknown'') \<in> latency_key ` set rows"
    unfolding UsageLatencyBucketHour_def by blast
  have "ul_SampleCount row = 1 \<and> ul_MaxTTFTMS row = 20 \<and> ul_MaxLatencyMS row = 300" if "row \<in> set rows" for row
  proof -
    from rows(3) that have "row_holds (\<lambda>x. x) row (samples_under (fixed_zone 28800) (latency_key row) [?e])" by blast
    moreover from this have "samples_under (fixed_zone 28800) (latency_key row) [?e] \<noteq> []" by (simp add: row_holds_def)
    then have "samples_under (fixed_zone 28800) (latency_key row) [?e] = [(7, 20, 300)]"
      by (simp add: samples_under_def sample map_filter_simps split: if_splits)
    ultimately show ?thesis by (simp add: row_holds_def peak_def)
  qed
  with rows(1) first show ?thesis by (auto simp: list_all_iff)
qed

end
