(* ===== verification/Overview_Aggregate.thy ===== *)
theory Overview_Aggregate
  imports Keyed_Rows Usage_Event Go_Zone
begin

text \<open>
  The overview aggregation: \<open>src/internal/overview/aggregate.go\<close>. Priced usage events become one
  row per hour and one row per local day for every combination of dimensions. The project zone,
  \<open>time.Local\<close>, is the parameter \<open>zone\<close>. The two row structs of \<open>src/internal/entities\<close> have the
  same fields and are one record here, its eleven dimensions grouped as the key; the creation and update times, which the database sets,
  are left out.
\<close>

datatype BucketKey = BucketKey
  (bk_InstanceID: string)
  (bk_BucketStart: time)
  (bk_APIGroupKey: string)
  (bk_Model: string)
  (bk_AuthIndex: string)
  (bk_ModelAlias: string)
  (bk_ServiceTier: string)
  (bk_ResponseServiceTier: string)
  (bk_ReasoningEffort: string)
  (bk_Endpoint: string)
  (bk_ExecutorType: string)

record usageOverviewStat =
  os_Key :: BucketKey
  os_RequestCount :: int
  os_SuccessCount :: int
  os_FailureCount :: int
  os_InputTokens :: int
  os_OutputTokens :: int
  os_ReasoningTokens :: int
  os_CachedTokens :: int
  os_CacheReadTokens :: int
  os_CacheCreationTokens :: int
  os_TotalTokens :: int
  os_SpeedTPSSum :: float64
  os_SpeedSampleCount :: int
  os_DecodeSpeedTPSSum :: float64
  os_DecodeSpeedSampleCount :: int
  os_CostUSD :: "float64 option"
  os_UnavailableCostCount :: "int option"

datatype overviewError = NotBackfilled int | NotFinite int


section \<open>The order of the rows\<close>

fun valuesLess :: "string list \<Rightarrow> string list \<Rightarrow> bool" where
  "valuesLess (l # ls) (r # rs) = (if l \<noteq> r then l < r else valuesLess ls rs)"
| "valuesLess _ _ = False"

definition dimension_values :: "BucketKey \<Rightarrow> string list" where
  "dimension_values k =
     [bk_APIGroupKey k, bk_Model k, bk_AuthIndex k, bk_ModelAlias k, bk_ServiceTier k, bk_ResponseServiceTier k,
      bk_ReasoningEffort k, bk_Endpoint k, bk_ExecutorType k]"

definition dimensionsLess :: "BucketKey \<Rightarrow> BucketKey \<Rightarrow> bool" where
  "dimensionsLess l r =
     (if bk_InstanceID l \<noteq> bk_InstanceID r then bk_InstanceID l < bk_InstanceID r
      else if bk_BucketStart l \<noteq> bk_BucketStart r then bk_BucketStart l < bk_BucketStart r
      else valuesLess (dimension_values l) (dimension_values r))"

definition hourlyRowLess :: "usageOverviewStat \<Rightarrow> usageOverviewStat \<Rightarrow> bool" where
  "hourlyRowLess l r = dimensionsLess (os_Key l) (os_Key r)"

definition dailyRowLess :: "usageOverviewStat \<Rightarrow> usageOverviewStat \<Rightarrow> bool" where
  "dailyRowLess l r = dimensionsLess (os_Key l) (os_Key r)"

text \<open>The comparison is the lexicographic order of the fields, so it is a linear order on keys.\<close>

definition key_fields :: "BucketKey \<Rightarrow> string \<times> time \<times> string list" where
  "key_fields k = (bk_InstanceID k, bk_BucketStart k, dimension_values k)"

lemma key_fields_inject: "key_fields k = key_fields k' \<longleftrightarrow> k = k'"
  by (auto simp: key_fields_def dimension_values_def intro: BucketKey.expand)

lemma valuesLess_iff: "length ls = length rs \<Longrightarrow> valuesLess ls rs \<longleftrightarrow> ls < rs"
  by (induction ls rs rule: valuesLess.induct) auto

lemma dimensionsLess_iff: "dimensionsLess l r \<longleftrightarrow> key_fields l < key_fields r"
proof -
  have "valuesLess (dimension_values l) (dimension_values r) \<longleftrightarrow> dimension_values l < dimension_values r"
    by (rule valuesLess_iff) (simp add: dimension_values_def)
  then show ?thesis by (auto simp: dimensionsLess_def key_fields_def less_prod_def less_le_not_le)
qed

instantiation BucketKey :: linorder
begin

definition less_BucketKey :: "BucketKey \<Rightarrow> BucketKey \<Rightarrow> bool" where
  "less_BucketKey = dimensionsLess"

definition less_eq_BucketKey :: "BucketKey \<Rightarrow> BucketKey \<Rightarrow> bool" where
  "less_eq_BucketKey l r \<longleftrightarrow> l = r \<or> dimensionsLess l r"

instance
  by standard (auto simp: less_BucketKey_def less_eq_BucketKey_def dimensionsLess_iff key_fields_inject [symmetric])

end

section \<open>The rows\<close>

definition normalizeRequiredDimension :: "string \<Rightarrow> string" where
  "normalizeRequiredDimension value = (let trimmed = TrimSpace value in if trimmed = '''' then ''unknown'' else trimmed)"

definition normalizeOptionalDimension :: "string \<Rightarrow> string" where
  "normalizeOptionalDimension value = TrimSpace value"

text \<open>The dimensions of an event in the bucket that starts at \<open>start\<close>.\<close>

definition event_dimensions :: "usageEvent \<Rightarrow> time \<Rightarrow> BucketKey" where
  "event_dimensions e start =
     BucketKey (ue_InstanceID e) start
       (normalizeRequiredDimension (ue_APIGroupKey e))
       (normalizeRequiredDimension (ue_Model e))
       (normalizeOptionalDimension (ue_AuthIndex e))
       (case ue_ModelAlias e of None \<Rightarrow> '''' | Some a \<Rightarrow> normalizeOptionalDimension a)
       (normalizeOptionalDimension (ue_ServiceTier e))
       (normalizeOptionalDimension (ue_ResponseServiceTier e))
       (normalizeOptionalDimension (ue_ReasoningEffort e))
       (normalizeOptionalDimension (ue_Endpoint e))
       (normalizeOptionalDimension (ue_ExecutorType e))"

definition BucketKeysForEvent :: "zone \<Rightarrow> usageEvent \<Rightarrow> BucketKey \<times> BucketKey" where
  "BucketKeysForEvent zone e =
     (event_dimensions e (truncate_hour (ue_Timestamp e)), event_dimensions e (day_start zone (ue_Timestamp e)))"

text \<open>A row as it is created: the dimensions of its key, no counts, and fees that are present and zero.\<close>

definition newRow :: "BucketKey \<Rightarrow> usageOverviewStat" where
  "newRow key =
     \<lparr>os_Key = key, os_RequestCount = 0, os_SuccessCount = 0, os_FailureCount = 0, os_InputTokens = 0,
      os_OutputTokens = 0, os_ReasoningTokens = 0, os_CachedTokens = 0, os_CacheReadTokens = 0,
      os_CacheCreationTokens = 0, os_TotalTokens = 0, os_SpeedTPSSum = Fin 0, os_SpeedSampleCount = 0,
      os_DecodeSpeedTPSSum = Fin 0, os_DecodeSpeedSampleCount = 0, os_CostUSD = Some (Fin 0),
      os_UnavailableCostCount = Some 0\<rparr>"

text \<open>
  \<open>addEventFee\<close> dereferences the two fee fields of the event, which \<open>BuildRows\<close> has found present,
  and those of the row, which are created present; on an absent one it has nothing to add.
\<close>

definition addEventFee :: "usageEvent \<Rightarrow> usageOverviewStat \<Rightarrow> usageOverviewStat" where
  "addEventFee e row =
     (case (ue_CostUSD e, ue_CostAvailable e) of
        (Some cost, Some available) \<Rightarrow>
          row\<lparr>os_CostUSD := map_option (\<lambda>c. fadd c cost) (os_CostUSD row),
              os_UnavailableCostCount :=
                map_option (\<lambda>n. if available then n else wrap64 (n + 1)) (os_UnavailableCostCount row)\<rparr>
      | _ \<Rightarrow> row)"

definition addEventToHourlyRow :: "usageEvent \<Rightarrow> usageOverviewStat \<Rightarrow> usageOverviewStat" where
  "addEventToHourlyRow e row0 =
     (let row = addEventFee e row0
      in row\<lparr>os_RequestCount := wrap64 (os_RequestCount row + 1),
             os_FailureCount := (if ue_Failed e then wrap64 (os_FailureCount row + 1) else os_FailureCount row),
             os_SuccessCount := (if ue_Failed e then os_SuccessCount row else wrap64 (os_SuccessCount row + 1)),
             os_InputTokens := wrap64 (os_InputTokens row + ue_InputTokens e),
             os_OutputTokens := wrap64 (os_OutputTokens row + ue_OutputTokens e),
             os_ReasoningTokens := wrap64 (os_ReasoningTokens row + ue_ReasoningTokens e),
             os_CachedTokens := wrap64 (os_CachedTokens row + ue_CachedTokens e),
             os_CacheReadTokens := wrap64 (os_CacheReadTokens row + ue_CacheReadTokens e),
             os_CacheCreationTokens := wrap64 (os_CacheCreationTokens row + ue_CacheCreationTokens e),
             os_TotalTokens := wrap64 (os_TotalTokens row + ue_TotalTokens e)\<rparr>)"

definition addEventToDailyRow :: "usageEvent \<Rightarrow> usageOverviewStat \<Rightarrow> usageOverviewStat" where
  "addEventToDailyRow e row0 =
     (let row = addEventFee e row0
      in row\<lparr>os_RequestCount := wrap64 (os_RequestCount row + 1),
             os_FailureCount := (if ue_Failed e then wrap64 (os_FailureCount row + 1) else os_FailureCount row),
             os_SuccessCount := (if ue_Failed e then os_SuccessCount row else wrap64 (os_SuccessCount row + 1)),
             os_InputTokens := wrap64 (os_InputTokens row + ue_InputTokens e),
             os_OutputTokens := wrap64 (os_OutputTokens row + ue_OutputTokens e),
             os_ReasoningTokens := wrap64 (os_ReasoningTokens row + ue_ReasoningTokens e),
             os_CachedTokens := wrap64 (os_CachedTokens row + ue_CachedTokens e),
             os_CacheReadTokens := wrap64 (os_CacheReadTokens row + ue_CacheReadTokens e),
             os_CacheCreationTokens := wrap64 (os_CacheCreationTokens row + ue_CacheCreationTokens e),
             os_TotalTokens := wrap64 (os_TotalTokens row + ue_TotalTokens e)\<rparr>)"

text \<open>The speeds of one request, in tokens per second: over its latency, and over its latency after the first token.\<close>

definition event_speed :: "usageEvent \<Rightarrow> float64 option" where
  "event_speed e =
     (if 0 < ue_OutputTokens e \<and> 0 < ue_LatencyMS e
      then Some (fdiv (fmul (of_int64 (ue_OutputTokens e)) (Fin 1000)) (of_int64 (ue_LatencyMS e)))
      else None)"

definition event_decode_speed :: "usageEvent \<Rightarrow> float64 option" where
  "event_decode_speed e =
     (case (event_speed e, ue_TTFTMS e) of
        (Some _, Some ttft) \<Rightarrow>
          if 0 < ttft \<and> ttft < ue_LatencyMS e
          then Some (fdiv (fmul (of_int64 (ue_OutputTokens e)) (Fin 1000)) (of_int64 (ue_LatencyMS e - ttft)))
          else None
      | _ \<Rightarrow> None)"

definition add_speeds :: "usageEvent \<Rightarrow> usageOverviewStat \<Rightarrow> usageOverviewStat" where
  "add_speeds e row0 =
     (let row = (case event_speed e of
                   None \<Rightarrow> row0
                 | Some speed \<Rightarrow>
                     row0\<lparr>os_SpeedTPSSum := fadd (os_SpeedTPSSum row0) speed,
                          os_SpeedSampleCount := wrap64 (os_SpeedSampleCount row0 + 1)\<rparr>)
      in case event_decode_speed e of
           None \<Rightarrow> row
         | Some speed \<Rightarrow>
             row\<lparr>os_DecodeSpeedTPSSum := fadd (os_DecodeSpeedTPSSum row) speed,
                 os_DecodeSpeedSampleCount := wrap64 (os_DecodeSpeedSampleCount row + 1)\<rparr>)"

text \<open>What one event adds to the row of its hour and to the row of its day.\<close>

definition add_hourly :: "usageEvent \<Rightarrow> usageOverviewStat \<Rightarrow> usageOverviewStat" where
  "add_hourly e row = add_speeds e (addEventToHourlyRow e row)"

definition add_daily :: "usageEvent \<Rightarrow> usageOverviewStat \<Rightarrow> usageOverviewStat" where
  "add_daily e row = add_speeds e (addEventToDailyRow e row)"

record overviewBuild =
  ob_hourly :: "(BucketKey \<times> usageOverviewStat) list"
  ob_daily :: "(BucketKey \<times> usageOverviewStat) list"
  ob_maxEventID :: int

text \<open>One turn of the loop of \<open>BuildRows\<close>.\<close>

definition build_event :: "zone \<Rightarrow> overviewBuild \<Rightarrow> usageEvent \<Rightarrow> overviewError + overviewBuild" where
  "build_event zone b e =
     (case (ue_CostUSD e, ue_CostAvailable e) of
        (Some cost, Some _) \<Rightarrow>
          if cost \<in> {NaN, PosInf, NegInf} then Inl (NotFinite (ue_ID e))
          else
            let (hourKey, dayKey) = BucketKeysForEvent zone e
            in Inr \<lparr>ob_hourly = touch hourKey (newRow hourKey) (add_hourly e) (ob_hourly b),
                    ob_daily = touch dayKey (newRow dayKey) (add_daily e) (ob_daily b),
                    ob_maxEventID = (if ob_maxEventID b < ue_ID e then ue_ID e else ob_maxEventID b)\<rparr>
      | _ \<Rightarrow> Inl (NotBackfilled (ue_ID e)))"

fun build_events :: "zone \<Rightarrow> overviewBuild \<Rightarrow> usageEvent list \<Rightarrow> overviewError + overviewBuild" where
  "build_events zone b [] = Inr b"
| "build_events zone b (e # es) = andThen (build_event zone b e) (\<lambda>b. build_events zone b es)"

definition BuildRows :: "zone \<Rightarrow> usageEvent list \<Rightarrow> overviewError + usageOverviewStat list \<times> usageOverviewStat list \<times> int" where
  "BuildRows zone events =
     andThen (build_events zone \<lparr>ob_hourly = [], ob_daily = [], ob_maxEventID = 0\<rparr> events)
       (\<lambda>b. Inr (sort_key os_Key (map snd (ob_hourly b)), sort_key os_Key (map snd (ob_daily b)), ob_maxEventID b))"


section \<open>The rows are exact\<close>

text \<open>An event whose fee has been stored.\<close>

definition backfilled :: "usageEvent \<Rightarrow> bool" where
  "backfilled e \<longleftrightarrow> (case (ue_CostUSD e, ue_CostAvailable e) of (Some (Fin _), Some _) \<Rightarrow> True | _ \<Rightarrow> False)"

definition hour_key :: "usageEvent \<Rightarrow> BucketKey" where
  "hour_key e = event_dimensions e (truncate_hour (ue_Timestamp e))"

definition day_key :: "zone \<Rightarrow> usageEvent \<Rightarrow> BucketKey" where
  "day_key zone e = event_dimensions e (day_start zone (ue_Timestamp e))"

text \<open>The hourly and the daily rows count alike.\<close>

lemma daily_hourly: "add_daily = add_hourly"
  by (simp add: fun_eq_iff add_daily_def add_hourly_def addEventToDailyRow_def addEventToHourlyRow_def)

lemma add_speeds_columns [simp]:
  "os_Key (add_speeds e r) = os_Key r"
  "os_RequestCount (add_speeds e r) = os_RequestCount r"
  "os_SuccessCount (add_speeds e r) = os_SuccessCount r"
  "os_FailureCount (add_speeds e r) = os_FailureCount r"
  "os_TotalTokens (add_speeds e r) = os_TotalTokens r"
  "os_CostUSD (add_speeds e r) = os_CostUSD r"
  "os_UnavailableCostCount (add_speeds e r) = os_UnavailableCostCount r"
  by (simp_all add: add_speeds_def Let_def split: option.split)

lemma addEventFee_columns [simp]:
  "os_Key (addEventFee e r) = os_Key r"
  "os_RequestCount (addEventFee e r) = os_RequestCount r"
  "os_SuccessCount (addEventFee e r) = os_SuccessCount r"
  "os_FailureCount (addEventFee e r) = os_FailureCount r"
  "os_TotalTokens (addEventFee e r) = os_TotalTokens r"
  by (simp_all add: addEventFee_def split: option.split)

interpretation hourly_rows: keyed_rows hour_key "\<lambda>e. newRow (hour_key e)" add_hourly os_Key
  by unfold_locales (simp_all add: newRow_def add_hourly_def addEventToHourlyRow_def Let_def)

interpretation daily_rows: keyed_rows "day_key zone" "\<lambda>e. newRow (day_key zone e)" add_daily os_Key for zone
  by unfold_locales (simp_all add: newRow_def add_daily_def addEventToDailyRow_def Let_def)

lemma build_events_collect:
  assumes "\<forall>e\<in>set es. backfilled e"
  shows "build_events zone b es =
    Inr \<lparr>ob_hourly = collect hour_key (\<lambda>e. newRow (hour_key e)) add_hourly (ob_hourly b) es,
         ob_daily = collect (day_key zone) (\<lambda>e. newRow (day_key zone e)) add_daily (ob_daily b) es,
         ob_maxEventID = foldl max (ob_maxEventID b) (map ue_ID es)\<rparr>"
  using assms
proof (induction es arbitrary: b)
  case (Cons e es)
  then obtain cost available where fee: "ue_CostUSD e = Some (Fin cost)" "ue_CostAvailable e = Some available"
    by (auto simp: backfilled_def split: option.splits float64.splits)
  have "build_event zone b e =
      Inr \<lparr>ob_hourly = touch (hour_key e) (newRow (hour_key e)) (add_hourly e) (ob_hourly b),
           ob_daily = touch (day_key zone e) (newRow (day_key zone e)) (add_daily e) (ob_daily b),
           ob_maxEventID = max (ob_maxEventID b) (ue_ID e)\<rparr>"
    by (simp add: build_event_def fee BucketKeysForEvent_def hour_key_def day_key_def max_def)
  then show ?case using Cons by simp
qed simp

lemma first_unpriced:
  assumes "\<not> (\<forall>e\<in>set events. backfilled e)"
  obtains es e rest where "events = es @ e # rest" "\<forall>e\<in>set es. backfilled e" "\<not> backfilled e"
proof -
  from assms have "\<exists>e\<in>set events. \<not> backfilled e" by simp
  then show thesis by (rule split_list_first_propE) (rule that, simp_all)
qed

lemma build_events_rejects:
  assumes "\<forall>e\<in>set es. backfilled e" and "\<not> backfilled e"
  shows "build_events zone b (es @ e # rest) =
    Inl (if ue_CostUSD e = None \<or> ue_CostAvailable e = None then NotBackfilled (ue_ID e) else NotFinite (ue_ID e))"
proof -
  have "build_events zone b (es @ e # rest) = andThen (build_events zone b es) (\<lambda>b. build_events zone b (e # rest))" for b
    by (induction es arbitrary: b) (simp_all add: andThen_assoc)
  with assms show ?thesis
    by (auto simp: backfilled_def build_events_collect build_event_def split: option.splits float64.splits)
qed

text \<open>
  What a row says of the events it stands for: the 64-bit columns are sums, wrapped around once, the
  float columns are added up in the order of the events.
\<close>

definition row_exact :: "usageOverviewStat \<Rightarrow> usageEvent list \<Rightarrow> bool" where
  "row_exact r es \<longleftrightarrow>
     os_RequestCount r = wrap64 (int (length es)) \<and>
     os_SuccessCount r = wrap64 (int (length (filter (\<lambda>e. \<not> ue_Failed e) es))) \<and>
     os_FailureCount r = wrap64 (int (length (filter ue_Failed es))) \<and>
     os_InputTokens r = wrap64 (sum_list (map ue_InputTokens es)) \<and>
     os_OutputTokens r = wrap64 (sum_list (map ue_OutputTokens es)) \<and>
     os_ReasoningTokens r = wrap64 (sum_list (map ue_ReasoningTokens es)) \<and>
     os_CachedTokens r = wrap64 (sum_list (map ue_CachedTokens es)) \<and>
     os_CacheReadTokens r = wrap64 (sum_list (map ue_CacheReadTokens es)) \<and>
     os_CacheCreationTokens r = wrap64 (sum_list (map ue_CacheCreationTokens es)) \<and>
     os_TotalTokens r = wrap64 (sum_list (map ue_TotalTokens es)) \<and>
     os_SpeedTPSSum r = foldl fadd (Fin 0) (List.map_filter event_speed es) \<and>
     os_SpeedSampleCount r = wrap64 (int (length (List.map_filter event_speed es))) \<and>
     os_DecodeSpeedTPSSum r = foldl fadd (Fin 0) (List.map_filter event_decode_speed es) \<and>
     os_DecodeSpeedSampleCount r = wrap64 (int (length (List.map_filter event_decode_speed es))) \<and>
     os_CostUSD r = Some (foldl fadd (Fin 0) (List.map_filter ue_CostUSD es)) \<and>
     os_UnavailableCostCount r = Some (wrap64 (int (length (filter (\<lambda>e. ue_CostAvailable e = Some False) es))))"

lemma row_exact_new: "row_exact (newRow k) []"
  by (simp add: row_exact_def newRow_def wrap64_def map_filter_simps)

lemmas add_hourly_defs = add_hourly_def add_speeds_def addEventToHourlyRow_def addEventFee_def Let_def

lemma add_hourly_columns:
  "os_RequestCount (add_hourly e r) = wrap64 (os_RequestCount r + 1)"
  "os_SuccessCount (add_hourly e r) = (if ue_Failed e then os_SuccessCount r else wrap64 (os_SuccessCount r + 1))"
  "os_FailureCount (add_hourly e r) = (if ue_Failed e then wrap64 (os_FailureCount r + 1) else os_FailureCount r)"
  "os_InputTokens (add_hourly e r) = wrap64 (os_InputTokens r + ue_InputTokens e)"
  "os_OutputTokens (add_hourly e r) = wrap64 (os_OutputTokens r + ue_OutputTokens e)"
  "os_ReasoningTokens (add_hourly e r) = wrap64 (os_ReasoningTokens r + ue_ReasoningTokens e)"
  "os_CachedTokens (add_hourly e r) = wrap64 (os_CachedTokens r + ue_CachedTokens e)"
  "os_CacheReadTokens (add_hourly e r) = wrap64 (os_CacheReadTokens r + ue_CacheReadTokens e)"
  "os_CacheCreationTokens (add_hourly e r) = wrap64 (os_CacheCreationTokens r + ue_CacheCreationTokens e)"
  "os_TotalTokens (add_hourly e r) = wrap64 (os_TotalTokens r + ue_TotalTokens e)"
  by (simp_all add: add_hourly_defs split: option.split)

lemma add_hourly_speeds:
  "os_SpeedTPSSum (add_hourly e r) = foldl fadd (os_SpeedTPSSum r) (List.map_filter event_speed [e])"
  "os_SpeedSampleCount (add_hourly e r) = (if event_speed e = None then os_SpeedSampleCount r else wrap64 (os_SpeedSampleCount r + 1))"
  "os_DecodeSpeedTPSSum (add_hourly e r) = foldl fadd (os_DecodeSpeedTPSSum r) (List.map_filter event_decode_speed [e])"
  "os_DecodeSpeedSampleCount (add_hourly e r) =
     (if event_decode_speed e = None then os_DecodeSpeedSampleCount r else wrap64 (os_DecodeSpeedSampleCount r + 1))"
  by (simp_all add: add_hourly_defs map_filter_simps split: option.split)

lemma add_hourly_fee:
  "ue_CostUSD e = Some cost \<Longrightarrow> ue_CostAvailable e = Some available \<Longrightarrow>
     os_CostUSD (add_hourly e r) = map_option (\<lambda>c. fadd c cost) (os_CostUSD r) \<and>
     os_UnavailableCostCount (add_hourly e r) =
       map_option (\<lambda>n. if available then n else wrap64 (n + 1)) (os_UnavailableCostCount r)"
  by (simp add: add_hourly_def addEventToHourlyRow_def addEventFee_def Let_def)

lemma map_filter_append: "List.map_filter f (xs @ ys) = List.map_filter f xs @ List.map_filter f ys"
  by (simp add: List.map_filter_def)

lemma row_exact_add:
  assumes "row_exact r es" and "backfilled e"
  shows "row_exact (add_hourly e r) (es @ [e])"
proof -
  from assms(2) obtain cost available where fee: "ue_CostUSD e = Some (Fin cost)" "ue_CostAvailable e = Some available"
    by (auto simp: backfilled_def split: option.splits float64.splits)
  have grow: "int (length (List.map_filter f (es @ [e]))) =
      (if f e = None then int (length (List.map_filter f es)) else int (length (List.map_filter f es)) + 1)"
    for f :: "usageEvent \<Rightarrow> float64 option"
    by (simp add: map_filter_append map_filter_simps split: option.split)
  show ?thesis
    using assms(1) add_hourly_fee [OF fee, of r] unfolding row_exact_def grow add_hourly_columns add_hourly_speeds
    by (simp add: fee map_filter_append map_filter_simps add.commute)
qed

lemma row_exact_fold: "\<forall>e\<in>set es. backfilled e \<Longrightarrow> row_exact (foldl (\<lambda>r e. add_hourly e r) (newRow k) es) es"
  by (induction es rule: rev_induct) (simp_all add: row_exact_new row_exact_add)

lemma row_exact_row_of:
  assumes "row_of key (\<lambda>e. newRow (key e)) add_hourly es k = Some r" and "\<forall>e\<in>set es. backfilled e"
  shows "row_exact r (filter (\<lambda>e. key e = k) es)"
proof -
  from assms(1) obtain e rest where "filter (\<lambda>e. key e = k) es = e # rest"
      "r = foldl (\<lambda>r e. add_hourly e r) (newRow (key e)) (e # rest)"
    by (auto simp: row_of_def split: list.splits)
  moreover have "\<forall>x\<in>set (filter (\<lambda>e. key e = k) es). backfilled x" using assms(2) by simp
  ultimately show ?thesis by (metis row_exact_fold)
qed

lemma BuildRows_priced:
  assumes "\<forall>e\<in>set es. backfilled e"
  shows "BuildRows zone es =
    Inr (sort_key os_Key (map snd (collect hour_key (\<lambda>e. newRow (hour_key e)) add_hourly [] es)),
         sort_key os_Key (map snd (collect (day_key zone) (\<lambda>e. newRow (day_key zone e)) add_daily [] es)),
         foldl max 0 (map ue_ID es))"
  by (simp add: BuildRows_def build_events_collect [OF assms])

text \<open>One row for every key that occurs, in the order of the keys, each exact for the events of its key.\<close>

definition table_of :: "(usageEvent \<Rightarrow> BucketKey) \<Rightarrow> usageEvent list \<Rightarrow> usageOverviewStat list \<Rightarrow> bool" where
  "table_of key es rows \<longleftrightarrow>
     sorted_wrt hourlyRowLess rows \<and> os_Key ` set rows = key ` set es \<and>
     (\<forall>r\<in>set rows. row_exact r (filter (\<lambda>e. key e = os_Key r) es))"

lemma rowLess_key: "hourlyRowLess l r \<longleftrightarrow> os_Key l < os_Key r" "dailyRowLess l r \<longleftrightarrow> os_Key l < os_Key r"
  by (simp_all add: hourlyRowLess_def dailyRowLess_def less_BucketKey_def)

lemma BuildRows_exact:
  "case BuildRows zone events of
     Inr (hourly, daily, watermark) \<Rightarrow>
       list_all backfilled events \<and> table_of hour_key events hourly \<and> table_of (day_key zone) events daily
       \<and> watermark = foldl max 0 (map ue_ID events)
   | Inl err \<Rightarrow>
       (\<exists>es e rest. events = es @ e # rest \<and> list_all backfilled es \<and> \<not> backfilled e
          \<and> err = (if ue_CostUSD e = None \<or> ue_CostAvailable e = None then NotBackfilled (ue_ID e) else NotFinite (ue_ID e)))"
proof (cases "\<forall>e\<in>set events. backfilled e")
  case True
  have "table_of hour_key events (sort_key os_Key (map snd (collect hour_key (\<lambda>e. newRow (hour_key e)) add_hourly [] events)))"
    unfolding table_of_def rowLess_key
    using hourly_rows.table_exact [where es = events] row_exact_row_of [OF _ True] by (simp add: sorted_wrt_map)
  moreover have "table_of (day_key zone) events
      (sort_key os_Key (map snd (collect (day_key zone) (\<lambda>e. newRow (day_key zone e)) add_daily [] events)))"
    unfolding table_of_def rowLess_key
    using daily_rows.table_exact [where zone = zone and es = events] row_exact_row_of [OF _ True] by (simp add: sorted_wrt_map daily_hourly)
  ultimately show ?thesis using True by (simp add: BuildRows_priced list_all_iff)
next
  case False
  then obtain es e rest where split: "events = es @ e # rest" "\<forall>e\<in>set es. backfilled e" "\<not> backfilled e"
    by (rule first_unpriced)
  have "BuildRows zone events = Inl (if ue_CostUSD e = None \<or> ue_CostAvailable e = None then NotBackfilled (ue_ID e) else NotFinite (ue_ID e))"
    unfolding BuildRows_def split(1) build_events_rejects [OF split(2,3)] by simp
  with split show ?thesis by (auto simp: list_all_iff)
qed

text \<open>
  Claim C30. \<open>BuildRows\<close> succeeds exactly when every event has a stored, finite fee. The hourly and the
  daily rows then come in strictly ascending order, one for every combination of instance,
  bucket and dimensions that occurs, and every column is the sum over the events of that
  combination: requests, failures, tokens and missing prices as 64-bit sums, fees and the two
  speeds in the order of the events. The watermark is the largest event id. Otherwise the error
  names the first event that is not priced, and there are no rows.
\<close>

theorem overview_rows_exact:
  "case BuildRows zone events of
     Inr (hourly, daily, watermark) \<Rightarrow>
       list_all backfilled events \<and> table_of hour_key events hourly \<and> table_of (day_key zone) events daily
       \<and> watermark = foldl max 0 (map ue_ID events)
   | Inl err \<Rightarrow>
       (\<exists>es e rest. events = es @ e # rest \<and> list_all backfilled es \<and> \<not> backfilled e
          \<and> err = (if ue_CostUSD e = None \<or> ue_CostAvailable e = None then NotBackfilled (ue_ID e) else NotFinite (ue_ID e)))"
  by (rule BuildRows_exact)

text \<open>
  Nothing is lost between the events and the two tables: when the totals fit 64 bits, the request
  counts of the hourly rows and those of the daily rows both add up to the number of events, and
  so do the total tokens.
\<close>

theorem overview_totals_conserved:
  assumes "BuildRows zone events = Inr (hourly, daily, watermark)"
    and "int (length events) \<le> MaxInt64"
    and "list_all (\<lambda>e. 0 \<le> ue_TotalTokens e) events" and "sum_list (map ue_TotalTokens events) \<le> MaxInt64"
  shows "sum_list (map os_RequestCount hourly) = int (length events)
    \<and> sum_list (map os_RequestCount daily) = int (length events)
    \<and> sum_list (map os_TotalTokens hourly) = sum_list (map ue_TotalTokens events)
    \<and> sum_list (map os_TotalTokens daily) = sum_list (map ue_TotalTokens events)"
proof -
  have "\<forall>e\<in>set events. backfilled e"
  proof (rule ccontr)
    assume "\<not> ?thesis"
    then obtain es e rest where "events = es @ e # rest" "\<forall>e\<in>set es. backfilled e" "\<not> backfilled e"
      by (rule first_unpriced)
    with assms(1) show False by (simp add: BuildRows_def build_events_rejects)
  qed
  from assms(1) [unfolded BuildRows_priced [OF this]]
  have rows: "hourly = sort_key os_Key (map snd (collect hour_key (\<lambda>e. newRow (hour_key e)) add_hourly [] events))"
      "daily = sort_key os_Key (map snd (collect (day_key zone) (\<lambda>e. newRow (day_key zone e)) add_daily [] events))"
    by simp_all
  have ones: "(\<Sum>e\<leftarrow>events. 1) = int (length events)" by (simp add: sum_list_triv)
  have "sum_list (map os_RequestCount hourly) = int (length events)"
    unfolding rows ones [symmetric]
    by (rule hourly_rows.column_total [OF add_hourly_columns(1)]) (simp_all add: newRow_def sum_list_triv assms(2))
  moreover have "sum_list (map os_RequestCount daily) = int (length events)"
    unfolding rows ones [symmetric]
    by (rule daily_rows.column_total [OF add_hourly_columns(1) [folded daily_hourly]]) (simp_all add: newRow_def sum_list_triv assms(2))
  moreover have "sum_list (map os_TotalTokens hourly) = sum_list (map ue_TotalTokens events)"
    unfolding rows
    by (rule hourly_rows.column_total [OF add_hourly_columns(10)]) (use assms(3,4) in \<open>simp_all add: newRow_def list_all_iff\<close>)
  moreover have "sum_list (map os_TotalTokens daily) = sum_list (map ue_TotalTokens events)"
    unfolding rows
    by (rule daily_rows.column_total [OF add_hourly_columns(10) [folded daily_hourly]])
      (use assms(3,4) in \<open>simp_all add: newRow_def list_all_iff\<close>)
  ultimately show ?thesis by simp
qed

text \<open>Two events of one day in different hours, in a zone eight hours ahead.\<close>

definition sample_events :: "usageEvent list" where
  "sample_events =
     [blank_event\<lparr>ue_ID := 7, ue_Timestamp := 1000 * Second, ue_TotalTokens := 3, ue_CostUSD := Some (Fin 2),
        ue_CostAvailable := Some True\<rparr>,
      blank_event\<lparr>ue_ID := 9, ue_Timestamp := 9000 * Second, ue_TotalTokens := 4, ue_CostUSD := Some (Fin 0),
        ue_CostAvailable := Some False\<rparr>]"

theorem overview_totals_conserved_witness:
  "case BuildRows (fixed_zone 28800) sample_events of
     Inr (hourly, daily, watermark) \<Rightarrow>
       length hourly = 2 \<and> length daily = 1 \<and> watermark = 9
       \<and> sum_list (map os_RequestCount hourly) = 2 \<and> sum_list (map os_RequestCount daily) = 2
       \<and> sum_list (map os_TotalTokens hourly) = 7 \<and> sum_list (map os_TotalTokens daily) = 7
   | Inl _ \<Rightarrow> False"
proof -
  have priced: "\<forall>e\<in>set sample_events. backfilled e" by (simp add: sample_events_def backfilled_def)
  then obtain hourly daily watermark where built: "BuildRows (fixed_zone 28800) sample_events = Inr (hourly, daily, watermark)"
    by (simp add: BuildRows_priced)
  have "sum_list (map os_RequestCount hourly) = int (length sample_events)"
      "sum_list (map os_RequestCount daily) = int (length sample_events)"
      "sum_list (map os_TotalTokens hourly) = sum_list (map ue_TotalTokens sample_events)"
      "sum_list (map os_TotalTokens daily) = sum_list (map ue_TotalTokens sample_events)"
    using overview_totals_conserved [OF built] by (simp_all add: sample_events_def blank_event_def MaxInt64_def)
  moreover have "length hourly = 2" "length daily = 1" "watermark = 9"
    using built unfolding BuildRows_priced [OF priced]
    by (auto simp: sample_events_def touch_def hour_key_def day_key_def event_dimensions_def blank_event_def
        truncate_hour_def Hour_def Minute_def Second_def day_start_def wall_day_def wall_seconds_def unix_def
        from_wall_fixed fixed_zone_def)
  ultimately show ?thesis using built by (simp add: sample_events_def blank_event_def)
qed

end
