(* ===== verification/Recent_Pool.thy ===== *)
theory Recent_Pool
  imports Keeper_Prelude "HOL-Library.AList" "HOL-Library.Multiset"
begin

text \<open>
  The string pool of the recent event cache: \<open>intern\<close> and \<open>release\<close> of
  \<open>src/internal/repository/usage_recent_event_cache.go\<close>. It maps a string to the number of fields of
  cached events that refer to it. Interning returns an equal string, so only the counts are
  modelled. A count is at most six times the number of cached events and does not overflow.
\<close>

type_synonym stringPool = "(string \<times> int) list"

definition intern :: "string \<Rightarrow> stringPool \<Rightarrow> stringPool" where
  "intern value pool =
     (if value = '''' then pool
      else case map_of pool value of
             Some refs \<Rightarrow> AList.update value (refs + 1) pool
           | None \<Rightarrow> AList.update value 1 pool)"

definition release :: "string \<Rightarrow> stringPool \<Rightarrow> stringPool" where
  "release value pool =
     (if value = '''' then pool
      else case map_of pool value of
             None \<Rightarrow> pool
           | Some refs \<Rightarrow> if refs - 1 \<le> 0 then AList.delete value pool else AList.update value (refs - 1) pool)"


section \<open>Reference counts\<close>

text \<open>
  The contract of a reference-counting pool: acquiring and releasing an item changes its count by
  one, and items that are not tracked are ignored. Then a pool that has acquired a multiset of
  items, and released a part of it, counts exactly the rest.
\<close>

locale reference_counts =
  fixes acquire :: "'a \<Rightarrow> 'p \<Rightarrow> 'p" and drop_ref :: "'a \<Rightarrow> 'p \<Rightarrow> 'p" and refs :: "'p \<Rightarrow> 'a \<Rightarrow> nat"
    and invar :: "'p \<Rightarrow> bool" and tracked :: "'a \<Rightarrow> bool"
  assumes invar_acquire: "invar p \<Longrightarrow> invar (acquire x p)"
    and invar_drop: "invar p \<Longrightarrow> invar (drop_ref x p)"
    and refs_acquire: "invar p \<Longrightarrow> refs (acquire x p) y = (if y = x \<and> tracked x then refs p y + 1 else refs p y)"
    and refs_drop: "invar p \<Longrightarrow> refs (drop_ref x p) y = (if y = x \<and> tracked x then refs p y - 1 else refs p y)"
begin

definition counts :: "'p \<Rightarrow> 'a multiset \<Rightarrow> bool" where
  "counts p M \<longleftrightarrow> invar p \<and> (\<forall>x. refs p x = (if tracked x then count M x else 0))"

lemma counts_acquire: "counts p M \<Longrightarrow> counts (acquire x p) (add_mset x M)"
  by (simp add: counts_def invar_acquire refs_acquire)

lemma counts_acquires: "counts p M \<Longrightarrow> counts (fold acquire xs p) (mset xs + M)"
proof (induction xs arbitrary: p M)
  case (Cons x xs)
  from Cons.IH [OF counts_acquire [OF Cons.prems, of x]] show ?case by simp
qed simp

lemma counts_drop: "counts p (add_mset x M) \<Longrightarrow> counts (drop_ref x p) M"
  by (simp add: counts_def invar_drop refs_drop)

lemma counts_drops: "counts p (mset xs + M) \<Longrightarrow> counts (fold drop_ref xs p) M"
  by (induction xs arbitrary: p) (simp_all add: counts_drop)

end

definition pool_refs :: "stringPool \<Rightarrow> string \<Rightarrow> nat" where
  "pool_refs pool s = (case map_of pool s of None \<Rightarrow> 0 | Some n \<Rightarrow> nat n)"

text \<open>No entry with a count of zero stays in the pool.\<close>

definition pool_ok :: "stringPool \<Rightarrow> bool" where
  "pool_ok pool \<longleftrightarrow> distinct (map fst pool) \<and> (\<forall>s n. map_of pool s = Some n \<longrightarrow> 0 < n)"

interpretation strings: reference_counts intern release pool_refs pool_ok "\<lambda>s. s \<noteq> ''''"
proof
  fix p :: stringPool and x y :: string
  assume p: "pool_ok p"
  show "pool_ok (intern x p)"
    using p by (auto simp: pool_ok_def intern_def distinct_update update_conv' simp del: map_of_eq_Some_iff split: option.split if_splits) (meson less_imp_le)
  show "pool_ok (release x p)"
    using p by (auto simp: pool_ok_def release_def distinct_update distinct_delete update_conv' delete_conv' simp del: map_of_eq_Some_iff split: option.split if_splits)
  show "pool_refs (intern x p) y = (if y = x \<and> x \<noteq> '''' then pool_refs p y + 1 else pool_refs p y)"
    using p by (auto simp: pool_ok_def pool_refs_def intern_def update_conv' nat_add_distrib simp del: map_of_eq_Some_iff split: option.split) (metis Suc_nat_eq_nat_zadd1 add.commute less_imp_le)
  show "pool_refs (release x p) y = (if y = x \<and> x \<noteq> '''' then pool_refs p y - 1 else pool_refs p y)"
    using p by (auto simp: pool_ok_def pool_refs_def release_def update_conv' delete_conv' nat_diff_distrib simp del: map_of_eq_Some_iff split: option.split)
qed

text \<open>The entry of a string that is counted.\<close>

lemma counted_entry:
  assumes "strings.counts pool M" and "s \<noteq> ''''"
  shows "map_of pool s = (if s \<in># M then Some (int (count M s)) else None)"
proof -
  have "pool_refs pool s = count M s" using assms by (simp add: strings.counts_def)
  moreover have "0 < n" if "map_of pool s = Some n" for n using assms(1) that by (auto simp: strings.counts_def pool_ok_def)
  ultimately show ?thesis by (cases "map_of pool s") (auto simp: pool_refs_def simp del: map_of_eq_Some_iff simp flip: count_greater_zero_iff)
qed

end
