(* ===== verification/Credential_Health.thy ===== *)
theory Credential_Health
  imports Go_Float Go_Zone Keyed_Rows
begin

text \<open>
  The credential health buckets of the recent event cache:
  \<open>src/internal/repository/usage_credential_health_cache.go\<close>. Per credential, successes, failures and
  tokens are counted in buckets of ten minutes and kept for five hours. Maps are association
  lists with one entry per key. The batched database reader is not modelled; its rows are.
\<close>

definition credentialHealthWindow :: duration where "credentialHealthWindow = 5 * Hour"

definition credentialHealthBucketSpan :: duration where "credentialHealthBucketSpan = 10 * Minute"

type_synonym credentialHealthKey = "string \<times> string"

record credentialHealthBucketCounts =
  hc_success :: int
  hc_failure :: int
  hc_inputTokens :: int
  hc_cacheReadTokens :: int

type_synonym healthBuckets = "(int \<times> credentialHealthBucketCounts) list"

record credentialHealthCache =
  ch_bucketsByCredential :: "(credentialHealthKey \<times> healthBuckets) list"
  ch_lastFullPruneUnix :: int

record credentialHealthLoadRow =
  hr_AuthType :: string
  hr_AuthIndex :: string
  hr_Timestamp :: time
  hr_Failed :: bool
  hr_InputTokens :: int
  hr_CacheReadTokens :: int

record CredentialHealthBucket =
  hb_StartTime :: time
  hb_EndTime :: time
  hb_Success :: int
  hb_Failure :: int
  hb_Rate :: float64

record CredentialHealthSnapshot =
  hs_WindowSeconds :: int
  hs_BucketSeconds :: int
  hs_WindowStart :: time
  hs_WindowEnd :: time
  hs_TotalSuccess :: int
  hs_TotalFailure :: int
  hs_SuccessRate :: float64
  hs_InputTokens :: int
  hs_CacheReadTokens :: int
  hs_Buckets :: "CredentialHealthBucket list"

definition zero_counts :: credentialHealthBucketCounts where
  "zero_counts = \<lparr>hc_success = 0, hc_failure = 0, hc_inputTokens = 0, hc_cacheReadTokens = 0\<rparr>"


section \<open>Operations\<close>

definition newCredentialHealthKey :: "string \<Rightarrow> string \<Rightarrow> credentialHealthKey \<times> bool" where
  "newCredentialHealthKey authType authIndex = ((authType, authIndex), authType \<noteq> '''' \<and> authIndex \<noteq> '''')"

text \<open>\<open>Truncate\<close> to ten minutes; the zero time, from which Go counts, is a multiple of them.\<close>

definition truncate_bucket :: "time \<Rightarrow> time" where
  "truncate_bucket t = t - t mod credentialHealthBucketSpan"

definition credentialHealthBucketUnix :: "time \<Rightarrow> int" where
  "credentialHealthBucketUnix timestamp = unix (truncate_bucket timestamp)"

definition credentialHealthWindowEnd :: "time \<Rightarrow> time" where
  "credentialHealthWindowEnd now = truncate_bucket now + credentialHealthBucketSpan"

definition credentialHealthWindowStart :: "time \<Rightarrow> time" where
  "credentialHealthWindowStart now = credentialHealthWindowEnd now - credentialHealthWindow"

definition saturatingAddCredentialHealthTokens :: "int \<Rightarrow> int \<Rightarrow> int" where
  "saturatingAddCredentialHealthTokens tot value =
     (if value \<le> 0 then tot else if MaxInt64 - value < tot then MaxInt64 else tot + value)"

definition count_row :: "credentialHealthLoadRow \<Rightarrow> credentialHealthBucketCounts \<Rightarrow> credentialHealthBucketCounts" where
  "count_row row counts =
     counts\<lparr>hc_failure := (if hr_Failed row then wrap64 (hc_failure counts + 1) else hc_failure counts),
            hc_success := (if hr_Failed row then hc_success counts else wrap64 (hc_success counts + 1)),
            hc_inputTokens := saturatingAddCredentialHealthTokens (hc_inputTokens counts) (max (hr_InputTokens row) 0),
            hc_cacheReadTokens := saturatingAddCredentialHealthTokens (hc_cacheReadTokens counts) (max (hr_CacheReadTokens row) 0)\<rparr>"

text \<open>The loop over the rows; the second component collects the touched keys.\<close>

fun appendCredentialHealthRowsLocked ::
    "credentialHealthLoadRow list \<Rightarrow> (credentialHealthKey \<times> healthBuckets) list \<times> credentialHealthKey list
      \<Rightarrow> (credentialHealthKey \<times> healthBuckets) list \<times> credentialHealthKey list" where
  "appendCredentialHealthRowsLocked [] st = st"
| "appendCredentialHealthRowsLocked (row # rows) (m, touched) =
     (let (key, ok) = newCredentialHealthKey (hr_AuthType row) (hr_AuthIndex row)
      in if \<not> ok then appendCredentialHealthRowsLocked rows (m, touched)
         else
           let bucketUnix = credentialHealthBucketUnix (hr_Timestamp row);
               buckets = (case map_of m key of None \<Rightarrow> [] | Some bs \<Rightarrow> bs);
               counts = (case map_of buckets bucketUnix of None \<Rightarrow> zero_counts | Some c \<Rightarrow> c)
           in appendCredentialHealthRowsLocked rows
                (AList.update key (AList.update bucketUnix (count_row row counts) buckets) m, List.insert key touched))"

definition pruneCredentialHealthKeyLocked ::
    "int \<Rightarrow> credentialHealthKey \<Rightarrow> (credentialHealthKey \<times> healthBuckets) list \<Rightarrow> (credentialHealthKey \<times> healthBuckets) list" where
  "pruneCredentialHealthKeyLocked cutoff key m =
     (let buckets = filter (\<lambda>(bucketUnix, _). \<not> bucketUnix < cutoff) (case map_of m key of None \<Rightarrow> [] | Some bs \<Rightarrow> bs)
      in if buckets = [] then AList.delete key m else AList.update key buckets m)"

definition shouldFullPruneCredentialHealthLocked :: "int \<Rightarrow> credentialHealthCache \<Rightarrow> bool" where
  "shouldFullPruneCredentialHealthLocked fullPruneUnix h \<longleftrightarrow>
     ch_lastFullPruneUnix h = 0
     \<or> credentialHealthBucketSpan div Second \<le> wrap64 (fullPruneUnix - ch_lastFullPruneUnix h)"

text \<open>The touched keys are \<open>None\<close> for the nil map of the start.\<close>

definition pruneCredentialHealthLocked ::
    "time \<Rightarrow> credentialHealthKey list option \<Rightarrow> credentialHealthCache \<Rightarrow> credentialHealthCache" where
  "pruneCredentialHealthLocked now touched h =
     (let fullPruneUnix = unix (credentialHealthWindowEnd now);
          m = ch_bucketsByCredential h;
          cutoff = unix (credentialHealthWindowStart now)
      in if m = [] then h\<lparr>ch_lastFullPruneUnix := fullPruneUnix\<rparr>
         else case (if shouldFullPruneCredentialHealthLocked fullPruneUnix h then None else touched) of
           None \<Rightarrow> h\<lparr>ch_bucketsByCredential := fold (pruneCredentialHealthKeyLocked cutoff) (map fst m) m,
                     ch_lastFullPruneUnix := fullPruneUnix\<rparr>
         | Some keys \<Rightarrow> h\<lparr>ch_bucketsByCredential := fold (pruneCredentialHealthKeyLocked cutoff) keys m\<rparr>)"

text \<open>The starts of the buckets of a window.\<close>

function bucket_starts :: "time \<Rightarrow> time \<Rightarrow> time list" where
  "bucket_starts start stop =
     (if start < stop then start # bucket_starts (start + credentialHealthBucketSpan) stop else [])"
  by pat_completeness auto

termination
  by (relation "measure (\<lambda>(start, stop). nat (stop - start))")
    (auto simp: credentialHealthBucketSpan_def Minute_def Second_def)

definition health_bucket :: "healthBuckets \<Rightarrow> time \<Rightarrow> credentialHealthBucketCounts" where
  "health_bucket countsByUnix start = (case map_of countsByUnix (unix start) of None \<Rightarrow> zero_counts | Some c \<Rightarrow> c)"

definition snapshot_bucket :: "healthBuckets \<Rightarrow> time \<Rightarrow> CredentialHealthBucket" where
  "snapshot_bucket countsByUnix start =
     (let counts = health_bucket countsByUnix start;
          tot = wrap64 (hc_success counts + hc_failure counts)
      in \<lparr>hb_StartTime = start, hb_EndTime = start + credentialHealthBucketSpan,
          hb_Success = hc_success counts, hb_Failure = hc_failure counts,
          hb_Rate = (if 0 < tot then fdiv (of_int64 (hc_success counts)) (of_int64 tot) else Fin 0)\<rparr>)"

definition buildCredentialHealthSnapshot :: "healthBuckets \<Rightarrow> time \<Rightarrow> CredentialHealthSnapshot" where
  "buildCredentialHealthSnapshot countsByUnix now =
     (let windowEnd = credentialHealthWindowEnd now;
          windowStart = windowEnd - credentialHealthWindow;
          starts = bucket_starts windowStart windowEnd;
          counts = map (health_bucket countsByUnix) starts;
          totalSuccess = foldl (\<lambda>n c. wrap64 (n + hc_success c)) 0 counts;
          totalFailure = foldl (\<lambda>n c. wrap64 (n + hc_failure c)) 0 counts;
          tot = wrap64 (totalSuccess + totalFailure)
      in \<lparr>hs_WindowSeconds = credentialHealthWindow div Second,
          hs_BucketSeconds = credentialHealthBucketSpan div Second,
          hs_WindowStart = windowStart, hs_WindowEnd = windowEnd,
          hs_TotalSuccess = totalSuccess, hs_TotalFailure = totalFailure,
          hs_SuccessRate = (if 0 < tot then fmul (fdiv (of_int64 totalSuccess) (of_int64 tot)) (Fin 100) else Fin 0),
          hs_InputTokens = foldl (\<lambda>n c. saturatingAddCredentialHealthTokens n (hc_inputTokens c)) 0 counts,
          hs_CacheReadTokens = foldl (\<lambda>n c. saturatingAddCredentialHealthTokens n (hc_cacheReadTokens c)) 0 counts,
          hs_Buckets = map (snapshot_bucket countsByUnix) starts\<rparr>)"

definition EmptyCredentialHealthSnapshot :: "time \<Rightarrow> CredentialHealthSnapshot" where
  "EmptyCredentialHealthSnapshot now = buildCredentialHealthSnapshot [] now"

text \<open>\<open>CredentialHealth\<close>, on the cache of a cache object that exists.\<close>

definition CredentialHealth :: "credentialHealthCache option \<Rightarrow> string \<Rightarrow> string \<Rightarrow> time \<Rightarrow> CredentialHealthSnapshot option" where
  "CredentialHealth cache authType authIndex now =
     (case cache of
        None \<Rightarrow> None
      | Some h \<Rightarrow>
          let (key, ok) = newCredentialHealthKey authType authIndex
          in if \<not> ok then Some (buildCredentialHealthSnapshot [] now)
             else Some (buildCredentialHealthSnapshot
                    (case map_of (ch_bucketsByCredential h) key of None \<Rightarrow> [] | Some bs \<Rightarrow> bs) now))"

section \<open>What a bucket counts\<close>

definition counts_at :: "(credentialHealthKey \<times> healthBuckets) list \<Rightarrow> credentialHealthKey \<Rightarrow> int \<Rightarrow> credentialHealthBucketCounts" where
  "counts_at m key b =
     (case map_of m key of None \<Rightarrow> zero_counts | Some bs \<Rightarrow> (case map_of bs b of None \<Rightarrow> zero_counts | Some c \<Rightarrow> c))"

definition row_key :: "credentialHealthLoadRow \<Rightarrow> credentialHealthKey" where
  "row_key r = (hr_AuthType r, hr_AuthIndex r)"

definition row_bucket :: "credentialHealthLoadRow \<Rightarrow> int" where
  "row_bucket r = credentialHealthBucketUnix (hr_Timestamp r)"

text \<open>Adding rows changes exactly the buckets they fall into.\<close>

lemma append_rows_counts:
  assumes "fst key \<noteq> ''''" and "snd key \<noteq> ''''"
  shows "counts_at (fst (appendCredentialHealthRowsLocked rows (m, touched))) key b =
    foldl (\<lambda>c r. count_row r c) (counts_at m key b) (filter (\<lambda>r. row_key r = key \<and> row_bucket r = b) rows)"
proof (induction rows arbitrary: m touched)
  case (Cons r rows)
  show ?case
  proof (cases "hr_AuthType r \<noteq> '''' \<and> hr_AuthIndex r \<noteq> ''''")
    case True
    let ?k = "row_key r" and ?b = "row_bucket r"
    let ?buckets = "case map_of m ?k of None \<Rightarrow> [] | Some bs \<Rightarrow> bs"
    let ?counts = "case map_of ?buckets ?b of None \<Rightarrow> zero_counts | Some c \<Rightarrow> c"
    let ?m = "AList.update ?k (AList.update ?b (count_row r ?counts) ?buckets) m"
    have "counts_at ?m key b = (if ?k = key \<and> ?b = b then count_row r (counts_at m key b) else counts_at m key b)"
      by (auto simp: counts_at_def update_conv' split: option.splits)
    moreover have "appendCredentialHealthRowsLocked (r # rows) (m, touched) =
        appendCredentialHealthRowsLocked rows (?m, List.insert ?k touched)"
      using True by (simp add: newCredentialHealthKey_def row_key_def row_bucket_def Let_def)
    ultimately show ?thesis using Cons.IH [of ?m "List.insert ?k touched"] by simp
  next
    case False
    then have "row_key r \<noteq> key" using assms by (auto simp: row_key_def)
    with False Cons show ?thesis by (simp add: newCredentialHealthKey_def)
  qed
qed simp

lemma map_of_filter_key: "map_of (filter (\<lambda>(k, _). P k) xs) k = (if P k then map_of xs k else None)"
  by (induction xs) auto

lemma prune_key_counts: "cutoff \<le> b \<Longrightarrow> counts_at (pruneCredentialHealthKeyLocked cutoff k m) key b = counts_at m key b"
proof -
  assume b: "cutoff \<le> b"
  let ?buckets = "case map_of m k of None \<Rightarrow> [] | Some bs \<Rightarrow> bs"
  let ?kept = "filter (\<lambda>(bucketUnix, _). \<not> bucketUnix < cutoff) ?buckets"
  have "map_of ?kept b = map_of ?buckets b" using map_of_filter_key [of "\<lambda>x. \<not> x < cutoff" ?buckets b] b by simp
  then show ?thesis
    by (auto simp: counts_at_def pruneCredentialHealthKeyLocked_def Let_def update_conv' delete_conv' split: option.splits)
qed

lemma prune_keys_counts: "cutoff \<le> b \<Longrightarrow> counts_at (fold (pruneCredentialHealthKeyLocked cutoff) keys m) key b = counts_at m key b"
  by (induction keys arbitrary: m) (simp_all add: prune_key_counts)

lemma prune_counts:
  "unix (credentialHealthWindowStart now) \<le> b \<Longrightarrow>
   counts_at (ch_bucketsByCredential (pruneCredentialHealthLocked now touched h)) key b = counts_at (ch_bucketsByCredential h) key b"
  by (simp add: pruneCredentialHealthLocked_def Let_def prune_keys_counts split: option.split)


section \<open>Totals\<close>

lemma saturating_bounds: "0 \<le> n \<Longrightarrow> n \<le> MaxInt64 \<Longrightarrow> 0 \<le> v \<Longrightarrow>
    saturatingAddCredentialHealthTokens n v = min MaxInt64 (n + v)"
  by (auto simp: saturatingAddCredentialHealthTokens_def)

lemma saturating_fold:
  assumes "0 \<le> n" "n \<le> MaxInt64" "\<forall>x \<in> set xs. 0 \<le> f x"
  shows "foldl (\<lambda>n x. saturatingAddCredentialHealthTokens n (min MaxInt64 (f x))) n xs = min MaxInt64 (n + sum_list (map f xs))"
  using assms
proof (induction xs arbitrary: n)
  case (Cons x xs)
  have step: "saturatingAddCredentialHealthTokens n (min MaxInt64 (f x)) = min MaxInt64 (n + f x)"
    using Cons.prems by (subst saturating_bounds) (auto simp: MaxInt64_def)
  have "0 \<le> sum_list (map f xs)" using Cons.prems(3) by (intro sum_list_nonneg) auto
  then have "min MaxInt64 (min MaxInt64 (n + f x) + sum_list (map f xs)) = min MaxInt64 (n + f x + sum_list (map f xs))" by auto
  moreover have "0 \<le> min MaxInt64 (n + f x)" using Cons.prems by (simp add: MaxInt64_def)
  ultimately show ?case using Cons.IH [of "min MaxInt64 (n + f x)"] Cons.prems(3) by (simp add: step add.assoc)
qed simp

definition input_of :: "credentialHealthLoadRow \<Rightarrow> int" where "input_of r = max (hr_InputTokens r) 0"
definition cache_read_of :: "credentialHealthLoadRow \<Rightarrow> int" where "cache_read_of r = max (hr_CacheReadTokens r) 0"

lemma token_sums_nonneg: "0 \<le> sum_list (map input_of rows)" "0 \<le> sum_list (map cache_read_of rows)"
  by (intro sum_list_nonneg; auto simp: input_of_def cache_read_of_def)+

text \<open>The counts of some rows: 64-bit counts, and token sums that stop at the largest 64-bit value.\<close>

definition health_counts :: "credentialHealthLoadRow list \<Rightarrow> credentialHealthBucketCounts" where
  "health_counts rows =
     \<lparr>hc_success = wrap64 (\<Sum>r\<leftarrow>rows. if hr_Failed r then 0 else 1),
      hc_failure = wrap64 (\<Sum>r\<leftarrow>rows. if hr_Failed r then 1 else 0),
      hc_inputTokens = min MaxInt64 (sum_list (map input_of rows)),
      hc_cacheReadTokens = min MaxInt64 (sum_list (map cache_read_of rows))\<rparr>"

lemma health_counts_Nil: "health_counts [] = zero_counts"
  by (simp add: health_counts_def zero_counts_def MaxInt64_def wrap64_def)

lemma count_row_step: "count_row r (health_counts rows) = health_counts (rows @ [r])"
proof -
  have "saturatingAddCredentialHealthTokens (min MaxInt64 (sum_list (map input_of rows))) (input_of r) =
      min MaxInt64 (sum_list (map input_of rows) + input_of r)"
    using token_sums_nonneg(1) [of rows] by (subst saturating_bounds) (auto simp: input_of_def MaxInt64_def)
  moreover have "saturatingAddCredentialHealthTokens (min MaxInt64 (sum_list (map cache_read_of rows))) (cache_read_of r) =
      min MaxInt64 (sum_list (map cache_read_of rows) + cache_read_of r)"
    using token_sums_nonneg(2) [of rows] by (subst saturating_bounds) (auto simp: cache_read_of_def MaxInt64_def)
  ultimately show ?thesis
    by (simp add: count_row_def health_counts_def input_of_def [of r, symmetric] cache_read_of_def [of r, symmetric] wrap64_id)
qed

lemma count_rows: "foldl (\<lambda>c r. count_row r c) (health_counts rows) rows' = health_counts (rows @ rows')"
  by (induction rows' arbitrary: rows) (simp_all add: count_row_step)

text \<open>The buckets that matter after a prune at \<open>now\<close> are exact for all rows ever added.\<close>

definition health_exact :: "time \<Rightarrow> credentialHealthCache \<Rightarrow> credentialHealthLoadRow list \<Rightarrow> bool" where
  "health_exact now h rows \<longleftrightarrow>
     (\<forall>key b. fst key \<noteq> '''' \<longrightarrow> snd key \<noteq> '''' \<longrightarrow> unix (credentialHealthWindowStart now) \<le> b \<longrightarrow>
        counts_at (ch_bucketsByCredential h) key b = health_counts (filter (\<lambda>r. row_key r = key \<and> row_bucket r = b) rows))"

lemma health_exactD:
  "health_exact now h rows \<Longrightarrow> fst key \<noteq> '''' \<Longrightarrow> snd key \<noteq> '''' \<Longrightarrow> unix (credentialHealthWindowStart now) \<le> b \<Longrightarrow>
   counts_at (ch_bucketsByCredential h) key b = health_counts (filter (\<lambda>r. row_key r = key \<and> row_bucket r = b) rows)"
  unfolding health_exact_def by blast

lemma health_exact_append:
  assumes "health_exact now h rows"
  shows "health_exact now (h\<lparr>ch_bucketsByCredential := fst (appendCredentialHealthRowsLocked rows' (ch_bucketsByCredential h, touched))\<rparr>) (rows @ rows')"
  unfolding health_exact_def using health_exactD [OF assms] by (simp add: append_rows_counts count_rows del: split_paired_All)

lemma window_start_mono: "now \<le> now' \<Longrightarrow> unix (credentialHealthWindowStart now) \<le> unix (credentialHealthWindowStart now')"
proof -
  assume "now \<le> now'"
  then have "now div credentialHealthBucketSpan \<le> now' div credentialHealthBucketSpan"
    by (intro zdiv_mono1) (simp_all add: credentialHealthBucketSpan_def Minute_def Second_def)
  then have "truncate_bucket now \<le> truncate_bucket now'"
    by (simp add: truncate_bucket_def minus_mod_eq_mult_div credentialHealthBucketSpan_def Minute_def Second_def)
  then show ?thesis
    unfolding unix_def credentialHealthWindowStart_def credentialHealthWindowEnd_def
    by (intro zdiv_mono1) (simp_all add: Second_def)
qed

lemma health_exact_prune:
  assumes "health_exact now h rows" and "now \<le> now'"
  shows "health_exact now' (pruneCredentialHealthLocked now' touched h) rows"
  unfolding health_exact_def
proof (intro allI impI)
  fix key :: credentialHealthKey and b :: int
  assume b: "unix (credentialHealthWindowStart now') \<le> b" and key: "fst key \<noteq> ''''" "snd key \<noteq> ''''"
  have "unix (credentialHealthWindowStart now) \<le> b" using window_start_mono [OF assms(2)] b by simp
  from health_exactD [OF assms(1) key this] prune_counts [OF b]
  show "counts_at (ch_bucketsByCredential (pruneCredentialHealthLocked now' touched h)) key b =
      health_counts (filter (\<lambda>r. row_key r = key \<and> row_bucket r = b) rows)" by simp
qed

lemma health_exact_empty: "health_exact now \<lparr>ch_bucketsByCredential = [], ch_lastFullPruneUnix = n\<rparr> []"
  by (simp add: health_exact_def counts_at_def health_counts_Nil)

section \<open>Snapshots\<close>

lemma span_seconds: "credentialHealthBucketSpan = 600 * Second" "0 < credentialHealthBucketSpan"
  by (simp_all add: credentialHealthBucketSpan_def Minute_def Second_def)

declare bucket_starts.simps [simp del]

lemma bucket_starts_eq: "bucket_starts s (s + int n * credentialHealthBucketSpan) = map (\<lambda>i. s + int i * credentialHealthBucketSpan) [0..<n]"
proof (induction n arbitrary: s)
  case 0
  then show ?case by (simp add: bucket_starts.simps)
next
  case (Suc n)
  have stop: "s + int (Suc n) * credentialHealthBucketSpan = (s + credentialHealthBucketSpan) + int n * credentialHealthBucketSpan"
    by (simp add: distrib_right)
  have "s < s + int (Suc n) * credentialHealthBucketSpan" using span_seconds(2) by simp
  then have "bucket_starts s (s + int (Suc n) * credentialHealthBucketSpan) =
      s # map (\<lambda>i. (s + credentialHealthBucketSpan) + int i * credentialHealthBucketSpan) [0..<n]"
    by (subst bucket_starts.simps) (simp only: if_True stop Suc.IH)
  also have "\<dots> = map (\<lambda>i. s + int i * credentialHealthBucketSpan) (0 # map Suc [0..<n])"
    by (simp add: comp_def distrib_right)
  also have "0 # map Suc [0..<n] = [0..<Suc n]" using upt_rec [of 0 "Suc n"] map_Suc_upt [of 0 n] by simp
  finally show ?case .
qed

text \<open>The thirty buckets of a window, by the number of the first.\<close>

lemma window_starts:
  "bucket_starts (credentialHealthWindowStart now) (credentialHealthWindowEnd now) =
     map (\<lambda>i. (now div credentialHealthBucketSpan - 29 + int i) * credentialHealthBucketSpan) [0..<30]"
proof -
  have stop: "credentialHealthWindowEnd now = credentialHealthWindowStart now + int 30 * credentialHealthBucketSpan"
    by (simp add: credentialHealthWindowStart_def credentialHealthWindow_def credentialHealthBucketSpan_def Hour_def Minute_def)
  have "credentialHealthWindowStart now = (now div credentialHealthBucketSpan - 29) * credentialHealthBucketSpan"
    by (simp add: credentialHealthWindowStart_def credentialHealthWindowEnd_def truncate_bucket_def minus_mod_eq_mult_div
        credentialHealthWindow_def credentialHealthBucketSpan_def Hour_def Minute_def algebra_simps)
  then show ?thesis unfolding stop bucket_starts_eq by (simp add: distrib_right)
qed

lemma row_bucket_number: "row_bucket r = 600 * (hr_Timestamp r div credentialHealthBucketSpan)"
  by (simp add: row_bucket_def credentialHealthBucketUnix_def truncate_bucket_def minus_mod_eq_mult_div span_seconds(1) unix_def Second_def)

lemma row_bucket_start: "row_bucket r = unix (k * credentialHealthBucketSpan) \<longleftrightarrow> hr_Timestamp r div credentialHealthBucketSpan = k"
proof -
  have "k * credentialHealthBucketSpan = (600 * k) * Second" by (simp add: span_seconds(1))
  then show ?thesis by (simp only: unix_of_seconds row_bucket_number) simp
qed

definition in_window :: "time \<Rightarrow> credentialHealthLoadRow \<Rightarrow> bool" where
  "in_window now r \<longleftrightarrow> credentialHealthWindowStart now \<le> hr_Timestamp r \<and> hr_Timestamp r < credentialHealthWindowEnd now"

lemma in_window_number:
  "in_window now r \<longleftrightarrow>
     now div credentialHealthBucketSpan - 29 \<le> hr_Timestamp r div credentialHealthBucketSpan
     \<and> hr_Timestamp r div credentialHealthBucketSpan \<le> now div credentialHealthBucketSpan"
proof -
  have ends: "credentialHealthWindowStart now = (now div credentialHealthBucketSpan - 29) * credentialHealthBucketSpan"
      "credentialHealthWindowEnd now = (now div credentialHealthBucketSpan + 1) * credentialHealthBucketSpan"
    by (simp_all add: credentialHealthWindowStart_def credentialHealthWindowEnd_def truncate_bucket_def minus_mod_eq_mult_div
        credentialHealthWindow_def credentialHealthBucketSpan_def Hour_def Minute_def algebra_simps)
  have le: "k * credentialHealthBucketSpan \<le> t \<longleftrightarrow> k \<le> t div credentialHealthBucketSpan" for k t
    by (simp add: span_seconds(1) Second_def) linarith
  show ?thesis unfolding in_window_def ends using le [of "now div credentialHealthBucketSpan + 1" "hr_Timestamp r"]
    by (auto simp: le not_le [symmetric])
qed

text \<open>Sums over the buckets of a window are sums over its rows.\<close>

lemma window_sum:
  fixes f :: "credentialHealthLoadRow \<Rightarrow> int"
  defines "starts now \<equiv> bucket_starts (credentialHealthWindowStart now) (credentialHealthWindowEnd now)"
  shows "(\<Sum>start\<leftarrow>starts now. sum_list (map f (filter (\<lambda>r. row_bucket r = unix start) rows))) = sum_list (map f (filter (in_window now) rows))"
proof -
  let ?n = "now div credentialHealthBucketSpan"
  let ?num = "\<lambda>r. hr_Timestamp r div credentialHealthBucketSpan"
  let ?ks = "map (\<lambda>i. ?n - 29 + int i) [0..<30]"
  have ks: "set ?ks = {?n - 29..?n}"
  proof -
    have "?n - 29 + int (nat (k - (?n - 29))) = k \<and> nat (k - (?n - 29)) < 30" if "?n - 29 \<le> k" "k \<le> ?n" for k
      using that by auto
    then show ?thesis by (force simp: image_iff)
  qed
  have "(\<Sum>start\<leftarrow>starts now. sum_list (map f (filter (\<lambda>r. row_bucket r = unix start) rows)))
      = (\<Sum>k\<leftarrow>?ks. sum_list (map f (filter (\<lambda>r. ?num r = k) rows)))"
    unfolding starts_def window_starts map_map comp_def row_bucket_start ..
  also have "\<dots> = (\<Sum>k\<leftarrow>?ks. sum_list (map f (filter (\<lambda>r. ?num r = k) (filter (in_window now) rows))))"
  proof (rule arg_cong [of _ _ sum_list], rule map_cong)
    fix k assume "k \<in> set ?ks"
    then have "filter (\<lambda>r. ?num r = k) (filter (in_window now) rows) = filter (\<lambda>r. ?num r = k) rows"
      unfolding ks by (auto simp: in_window_number intro!: filter_cong)
    then show "sum_list (map f (filter (\<lambda>r. ?num r = k) rows)) = sum_list (map f (filter (\<lambda>r. ?num r = k) (filter (in_window now) rows)))"
      by simp
  qed simp
  also have "\<dots> = sum_list (map f (filter (in_window now) rows))"
  proof (rule sum_by_key)
    show "distinct ?ks" by (simp add: distinct_map inj_on_def)
    show "?num ` set (filter (in_window now) rows) \<subseteq> set ?ks" unfolding ks by (auto simp: in_window_number)
  qed
  finally show ?thesis .
qed

lemma wrapped_fold: "foldl (\<lambda>n x. wrap64 (n + f x)) (wrap64 a) xs = wrap64 (a + sum_list (map f xs))"
proof (induction xs arbitrary: a)
  case (Cons x xs)
  from Cons [of "a + f x"] show ?case by (simp add: add.assoc)
qed simp

text \<open>What a snapshot says of the rows in its window.\<close>

definition snapshot_exact :: "CredentialHealthSnapshot \<Rightarrow> time \<Rightarrow> credentialHealthLoadRow list \<Rightarrow> bool" where
  "snapshot_exact s now rows \<longleftrightarrow>
     (let window = filter (in_window now) rows in
      hs_TotalSuccess s = wrap64 (\<Sum>r\<leftarrow>window. if hr_Failed r then 0 else 1) \<and>
      hs_TotalFailure s = wrap64 (\<Sum>r\<leftarrow>window. if hr_Failed r then 1 else 0) \<and>
      hs_InputTokens s = min MaxInt64 (sum_list (map input_of window)) \<and>
      hs_CacheReadTokens s = min MaxInt64 (sum_list (map cache_read_of window))) \<and>
     length (hs_Buckets s) = 30 \<and>
     (\<forall>b \<in> set (hs_Buckets s).
        let bucket = filter (\<lambda>r. hb_StartTime b \<le> hr_Timestamp r \<and> hr_Timestamp r < hb_EndTime b) rows in
        hb_Success b = wrap64 (\<Sum>r\<leftarrow>bucket. if hr_Failed r then 0 else 1) \<and>
        hb_Failure b = wrap64 (\<Sum>r\<leftarrow>bucket. if hr_Failed r then 1 else 0))"

lemma build_snapshot_exact:
  assumes "\<And>b. unix (credentialHealthWindowStart now) \<le> b \<Longrightarrow>
      (case map_of buckets b of None \<Rightarrow> zero_counts | Some c \<Rightarrow> c) = health_counts (filter (\<lambda>r. row_bucket r = b) rows)"
  shows "snapshot_exact (buildCredentialHealthSnapshot buckets now) now rows"
proof -
  let ?starts = "bucket_starts (credentialHealthWindowStart now) (credentialHealthWindowEnd now)"
  let ?rows = "\<lambda>start. filter (\<lambda>r. row_bucket r = unix start) rows"
  have counts: "health_bucket buckets start = health_counts (?rows start)" if "start \<in> set ?starts" for start
  proof -
    have "credentialHealthWindowStart now \<le> start"
      using that span_seconds(2) unfolding window_starts
      by (auto simp: credentialHealthWindowStart_def credentialHealthWindowEnd_def truncate_bucket_def minus_mod_eq_mult_div
          credentialHealthWindow_def credentialHealthBucketSpan_def Hour_def Minute_def Second_def algebra_simps)
    then have "unix (credentialHealthWindowStart now) \<le> unix start" unfolding unix_def by (intro zdiv_mono1) (simp_all add: Second_def)
    from assms [OF this] show ?thesis by (simp add: health_bucket_def)
  qed
  have all: "map (health_bucket buckets) ?starts = map (\<lambda>start. health_counts (?rows start)) ?starts"
    using counts by simp
  have sat: "foldl (\<lambda>n x. saturatingAddCredentialHealthTokens n (min MaxInt64 (f x))) 0 xs = min MaxInt64 (sum_list (map f xs))"
    if "\<And>x. 0 \<le> f x" for f :: "time \<Rightarrow> int" and xs
    using saturating_fold [of 0 xs f] that by (simp add: MaxInt64_def)
  have wrap: "foldl (\<lambda>n x. wrap64 (n + f x)) 0 xs = wrap64 (sum_list (map f xs))" for f :: "time \<Rightarrow> int" and xs
    using wrapped_fold [of f 0 xs] by (simp add: wrap64_def)
  let ?s = "buildCredentialHealthSnapshot buckets now"
  have totals: "hs_TotalSuccess ?s = wrap64 (\<Sum>r\<leftarrow>filter (in_window now) rows. if hr_Failed r then 0 else 1)"
      "hs_TotalFailure ?s = wrap64 (\<Sum>r\<leftarrow>filter (in_window now) rows. if hr_Failed r then 1 else 0)"
      "hs_InputTokens ?s = min MaxInt64 (sum_list (map input_of (filter (in_window now) rows)))"
      "hs_CacheReadTokens ?s = min MaxInt64 (sum_list (map cache_read_of (filter (in_window now) rows)))"
    unfolding buildCredentialHealthSnapshot_def Let_def credentialHealthWindowStart_def [symmetric] all
    by (simp_all add: foldl_map health_counts_def wrap sat token_sums_nonneg window_sum)
  have buckets: "hb_Success b = wrap64 (\<Sum>r\<leftarrow>filter (\<lambda>r. hb_StartTime b \<le> hr_Timestamp r \<and> hr_Timestamp r < hb_EndTime b) rows. if hr_Failed r then 0 else 1)
      \<and> hb_Failure b = wrap64 (\<Sum>r\<leftarrow>filter (\<lambda>r. hb_StartTime b \<le> hr_Timestamp r \<and> hr_Timestamp r < hb_EndTime b) rows. if hr_Failed r then 1 else 0)"
    if "b \<in> set (hs_Buckets ?s)" for b
  proof -
    from that obtain start where start: "start \<in> set ?starts" and b: "b = snapshot_bucket buckets start"
      by (auto simp: buildCredentialHealthSnapshot_def Let_def credentialHealthWindowStart_def)
    from start obtain k where k: "start = k * credentialHealthBucketSpan" unfolding window_starts by auto
    have "row_bucket r = unix start \<longleftrightarrow> start \<le> hr_Timestamp r \<and> hr_Timestamp r < start + credentialHealthBucketSpan" for r
      unfolding k row_bucket_start by (auto simp: span_seconds(1) Second_def)
    then have "?rows start = filter (\<lambda>r. hb_StartTime b \<le> hr_Timestamp r \<and> hr_Timestamp r < hb_EndTime b) rows"
      by (simp add: b snapshot_bucket_def Let_def)
    with counts [OF start] show ?thesis by (simp add: b snapshot_bucket_def Let_def health_counts_def)
  qed
  have "length (hs_Buckets ?s) = 30"
    unfolding buildCredentialHealthSnapshot_def Let_def credentialHealthWindowStart_def [symmetric] by (simp add: window_starts)
  with totals buckets show ?thesis unfolding snapshot_exact_def Let_def by blast
qed

text \<open>A health query at or after the last prune.\<close>

lemma CredentialHealth_exact:
  assumes "health_exact now h rows" and "now \<le> later" and "authType \<noteq> ''''" and "authIndex \<noteq> ''''"
  shows "\<exists>s. CredentialHealth (Some h) authType authIndex later = Some s
    \<and> snapshot_exact s later (filter (\<lambda>r. row_key r = (authType, authIndex)) rows)"
proof -
  let ?key = "(authType, authIndex)"
  let ?buckets = "case map_of (ch_bucketsByCredential h) ?key of None \<Rightarrow> [] | Some bs \<Rightarrow> bs"
  have "(case map_of ?buckets b of None \<Rightarrow> zero_counts | Some c \<Rightarrow> c) = health_counts (filter (\<lambda>r. row_bucket r = b) (filter (\<lambda>r. row_key r = ?key) rows))"
    if "unix (credentialHealthWindowStart later) \<le> b" for b
  proof -
    have "unix (credentialHealthWindowStart now) \<le> b" using window_start_mono [OF assms(2)] that by simp
    from health_exactD [OF assms(1) _ _ this, of ?key] assms(3,4)
    show ?thesis by (simp add: counts_at_def conj_commute split: option.splits)
  qed
  from build_snapshot_exact [OF this] show ?thesis
    using assms(3,4) by (simp add: CredentialHealth_def newCredentialHealthKey_def)
qed

end
