(* ===== verification/Recent_Cache.thy ===== *)
theory Recent_Cache
  imports Recent_Pool Credential_Health Usage_Event
begin

text \<open>
  The recent event cache: \<open>src/internal/repository/usage_recent_event_cache.go\<close>, what happens under its
  lock \<open>mu\<close>. A cache keeps a slim copy of the events of its window, the string pool of their fields
  and the credential health buckets. Pointers are options and copying them is the identity. The
  rows a database query returns are arguments; so is every reading of the clock.
\<close>

definition usageRecentEventCacheDefaultWindow :: duration where "usageRecentEventCacheDefaultWindow = 70 * Minute"

definition usageRecentEventCacheDefaultQueueSize :: int where "usageRecentEventCacheDefaultQueueSize = 100"

datatype RecentUsageIdentityKind = RecentUsageIdentityUnknown | RecentUsageIdentityCredential | RecentUsageIdentityAIProvider

record RecentUsageEvent =
  re_Provider :: string
  re_InstanceID :: string
  re_Timestamp :: time
  re_APIGroupKey :: string
  re_Model :: string
  re_ModelAlias :: string
  re_AuthIndex :: string
  re_IdentityFallbackKind :: RecentUsageIdentityKind
  re_IdentityFallbackLabel :: string
  re_Failed :: bool
  re_Generate :: bool
  re_LatencyMS :: int
  re_TTFTMS :: "int option"
  re_InputTokens :: int
  re_OutputTokens :: int
  re_ReasoningTokens :: int
  re_CachedTokens :: int
  re_CacheReadTokens :: int
  re_CacheCreationTokens :: int
  re_TotalTokens :: int
  re_CostUSD :: "float64 option"
  re_CostAvailable :: "bool option"

record recentUsageEventLoadRow =
  lr_InstanceID :: string
  lr_APIGroupKey :: string
  lr_Provider :: string
  lr_AuthType :: string
  lr_Model :: string
  lr_ModelAlias :: string
  lr_Timestamp :: time
  lr_Source :: string
  lr_AuthIndex :: string
  lr_Failed :: bool
  lr_Generate :: bool
  lr_LatencyMS :: int
  lr_TTFTMS :: "int option"
  lr_InputTokens :: int
  lr_OutputTokens :: int
  lr_ReasoningTokens :: int
  lr_CachedTokens :: int
  lr_CacheReadTokens :: int
  lr_CacheCreationTokens :: int
  lr_TotalTokens :: int
  lr_CostUSD :: "float64 option"
  lr_CostAvailable :: "bool option"

record recentCache =
  rc_events :: "RecentUsageEvent list"
  rc_eventReadsValid :: bool
  rc_pool :: stringPool
  rc_credentialHealth :: credentialHealthCache
  rc_window :: duration

definition usageEventGenerateEnabled :: "bool option \<Rightarrow> bool" where
  "usageEventGenerateEnabled generate = (case generate of None \<Rightarrow> True | Some g \<Rightarrow> g)"

text \<open>The empty cache; an unset or non-positive window is the default one.\<close>

definition newEmptyUsageRecentEventCache :: "duration \<Rightarrow> recentCache" where
  "newEmptyUsageRecentEventCache window =
     \<lparr>rc_events = [], rc_eventReadsValid = True, rc_pool = [],
      rc_credentialHealth = \<lparr>ch_bucketsByCredential = [], ch_lastFullPruneUnix = 0\<rparr>,
      rc_window = (if window \<le> 0 then usageRecentEventCacheDefaultWindow else window)\<rparr>"


section \<open>Rows and events\<close>

definition normalizeRecentUsageAuthType :: "string \<Rightarrow> string" where
  "normalizeRecentUsageAuthType value =
     (let v = ToLower (TrimSpace value)
      in if v = ''oauth'' then ''oauth''
         else if v = ''apikey'' \<or> v = ''api_key'' then ''apikey''
         else '''')"

definition usageRecentIdentityFallback :: "string \<Rightarrow> string \<Rightarrow> string \<Rightarrow> RecentUsageIdentityKind \<times> string" where
  "usageRecentIdentityFallback authType source provider =
     (let t = normalizeRecentUsageAuthType authType
      in if t = ''oauth'' then (RecentUsageIdentityCredential, TrimSpace source)
         else if t = ''apikey'' then (RecentUsageIdentityAIProvider, TrimSpace provider)
         else (RecentUsageIdentityUnknown, ''''))"

text \<open>The event of a row, and the strings it interns, in the order of the code.\<close>

definition recentEventFromRow :: "recentUsageEventLoadRow \<Rightarrow> RecentUsageEvent" where
  "recentEventFromRow r =
     (let (identityKind, fallbackLabel) = usageRecentIdentityFallback (lr_AuthType r) (lr_Source r) (lr_Provider r)
      in \<lparr>re_Provider = lr_Provider r, re_InstanceID = lr_InstanceID r, re_Timestamp = lr_Timestamp r,
          re_APIGroupKey = TrimSpace (lr_APIGroupKey r), re_Model = TrimSpace (lr_Model r),
          re_ModelAlias = TrimSpace (lr_ModelAlias r), re_AuthIndex = TrimSpace (lr_AuthIndex r),
          re_IdentityFallbackKind = identityKind, re_IdentityFallbackLabel = fallbackLabel,
          re_Failed = lr_Failed r, re_Generate = lr_Generate r, re_LatencyMS = lr_LatencyMS r, re_TTFTMS = lr_TTFTMS r,
          re_InputTokens = lr_InputTokens r, re_OutputTokens = lr_OutputTokens r,
          re_ReasoningTokens = lr_ReasoningTokens r, re_CachedTokens = lr_CachedTokens r,
          re_CacheReadTokens = lr_CacheReadTokens r, re_CacheCreationTokens = lr_CacheCreationTokens r,
          re_TotalTokens = lr_TotalTokens r, re_CostUSD = lr_CostUSD r, re_CostAvailable = lr_CostAvailable r\<rparr>)"

definition event_strings :: "RecentUsageEvent \<Rightarrow> string list" where
  "event_strings e =
     [re_APIGroupKey e, re_Model e, re_ModelAlias e, re_AuthIndex e, re_Provider e, re_IdentityFallbackLabel e]"

definition recentEventFromRowLocked :: "recentUsageEventLoadRow \<Rightarrow> stringPool \<Rightarrow> RecentUsageEvent \<times> stringPool" where
  "recentEventFromRowLocked r pool = (let e = recentEventFromRow r in (e, fold intern (event_strings e) pool))"

definition releaseEventStringsLocked :: "RecentUsageEvent \<Rightarrow> stringPool \<Rightarrow> stringPool" where
  "releaseEventStringsLocked e pool = fold release (event_strings e) pool"

fun appendRecentEventsLocked :: "recentUsageEventLoadRow list \<Rightarrow> recentCache \<Rightarrow> recentCache" where
  "appendRecentEventsLocked [] c = c"
| "appendRecentEventsLocked (row # rows) c =
     (let (e, pool) = recentEventFromRowLocked row (rc_pool c)
      in appendRecentEventsLocked rows (c\<lparr>rc_events := rc_events c @ [e], rc_pool := pool\<rparr>))"

text \<open>The loop of \<open>pruneLocked\<close> over the events.\<close>

fun prune_events :: "time \<Rightarrow> RecentUsageEvent list \<Rightarrow> RecentUsageEvent list \<times> stringPool \<Rightarrow> RecentUsageEvent list \<times> stringPool" where
  "prune_events cutoff [] st = st"
| "prune_events cutoff (e # es) (kept, pool) =
     (if re_Timestamp e < cutoff then prune_events cutoff es (kept, releaseEventStringsLocked e pool)
      else prune_events cutoff es (kept @ [e], pool))"

definition pruneLocked :: "time \<Rightarrow> recentCache \<Rightarrow> recentCache" where
  "pruneLocked now c =
     (let (kept, pool) = prune_events (now - rc_window c) (rc_events c) ([], rc_pool c)
      in c\<lparr>rc_events := kept, rc_pool := pool\<rparr>)"

definition event_row :: "usageEvent \<Rightarrow> recentUsageEventLoadRow" where
  "event_row e =
     \<lparr>lr_InstanceID = ue_InstanceID e, lr_APIGroupKey = ue_APIGroupKey e, lr_Provider = ue_Provider e,
      lr_AuthType = ue_AuthType e, lr_Model = ue_Model e,
      lr_ModelAlias = (case ue_ModelAlias e of None \<Rightarrow> '''' | Some a \<Rightarrow> a),
      lr_Timestamp = ue_Timestamp e, lr_Source = ue_Source e, lr_AuthIndex = ue_AuthIndex e, lr_Failed = ue_Failed e,
      lr_Generate = usageEventGenerateEnabled (ue_Generate e), lr_LatencyMS = ue_LatencyMS e, lr_TTFTMS = ue_TTFTMS e,
      lr_InputTokens = ue_InputTokens e, lr_OutputTokens = ue_OutputTokens e,
      lr_ReasoningTokens = ue_ReasoningTokens e, lr_CachedTokens = ue_CachedTokens e,
      lr_CacheReadTokens = ue_CacheReadTokens e, lr_CacheCreationTokens = ue_CacheCreationTokens e,
      lr_TotalTokens = ue_TotalTokens e, lr_CostUSD = ue_CostUSD e, lr_CostAvailable = ue_CostAvailable e\<rparr>"

definition credentialHealthRowsFromUsageEvents :: "usageEvent list \<Rightarrow> credentialHealthLoadRow list" where
  "credentialHealthRowsFromUsageEvents events =
     map (\<lambda>e. \<lparr>hr_AuthType = ue_AuthType e, hr_AuthIndex = ue_AuthIndex e, hr_Timestamp = ue_Timestamp e,
                hr_Failed = ue_Failed e, hr_InputTokens = ue_InputTokens e, hr_CacheReadTokens = ue_CacheReadTokens e\<rparr>) events"

text \<open>Adding rows to the health buckets of a cache, with the keys that were touched.\<close>

definition append_health :: "credentialHealthLoadRow list \<Rightarrow> recentCache \<Rightarrow> recentCache \<times> credentialHealthKey list" where
  "append_health rows c =
     (let (m, touched) = appendCredentialHealthRowsLocked rows (ch_bucketsByCredential (rc_credentialHealth c), [])
      in (c\<lparr>rc_credentialHealth := (rc_credentialHealth c)\<lparr>ch_bucketsByCredential := m\<rparr>\<rparr>, touched))"

definition prune_health :: "time \<Rightarrow> credentialHealthKey list option \<Rightarrow> recentCache \<Rightarrow> recentCache" where
  "prune_health now touched c = c\<lparr>rc_credentialHealth := pruneCredentialHealthLocked now touched (rc_credentialHealth c)\<rparr>"

definition appendEvents :: "time \<Rightarrow> usageEvent list \<Rightarrow> recentCache \<Rightarrow> recentCache" where
  "appendEvents now events c =
     (if events = [] then c
      else
        let c = appendRecentEventsLocked (map event_row events) c;
            (c, touched) = append_health (credentialHealthRowsFromUsageEvents events) c
        in prune_health now (Some touched) (pruneLocked now c))"

text \<open>\<open>contains\<close> of the open-ended read that starts at \<open>start\<close>, on the rows the database returned.\<close>

definition loadUsageRecentEventCacheRows :: "time \<Rightarrow> recentUsageEventLoadRow list option \<Rightarrow> recentUsageEventLoadRow list option" where
  "loadUsageRecentEventCacheRows start candidates = map_option (filter (\<lambda>r. \<not> lr_Timestamp r < start)) candidates"

text \<open>
  \<open>NewUsageRecentEventCache\<close> on a database: the answer to the first query and the batches of the
  second, which are \<open>None\<close> for a failed query. The whole batches read before a failure are lost
  with the cache.
\<close>

definition NewUsageRecentEventCache ::
    "duration \<Rightarrow> time \<Rightarrow> recentUsageEventLoadRow list option \<Rightarrow> credentialHealthLoadRow list list option \<Rightarrow> recentCache option" where
  "NewUsageRecentEventCache window now candidates batches =
     (let c = newEmptyUsageRecentEventCache window
      in case loadUsageRecentEventCacheRows (now - rc_window c) candidates of
           None \<Rightarrow> None
         | Some rows \<Rightarrow>
             (case batches of
                None \<Rightarrow> None
              | Some bs \<Rightarrow>
                  Some (prune_health now None
                    (fold (\<lambda>batch c. fst (append_health batch c)) bs (pruneLocked now (appendRecentEventsLocked rows c))))))"

text \<open>
  \<open>ReloadStoredCostEvents\<close>: the clock, the answer of the database, whether the context has ended at
  each of the three checks, and the clock of the prune.
\<close>

record reloadRun =
  rl_hasDB :: bool
  rl_ended1 :: bool
  rl_now :: time
  rl_candidates :: "recentUsageEventLoadRow list option"
  rl_ended2 :: bool
  rl_ended3 :: bool
  rl_pruneNow :: time

definition stored_cost :: "recentUsageEventLoadRow \<Rightarrow> bool" where
  "stored_cost r =
     (case (lr_CostUSD r, lr_CostAvailable r) of (Some cost, Some _) \<Rightarrow> cost \<notin> {NaN, PosInf, NegInf} | _ \<Rightarrow> False)"

definition invalidateEventReads :: "recentCache \<Rightarrow> recentCache" where
  "invalidateEventReads c = c\<lparr>rc_eventReadsValid := False\<rparr>"

definition ReloadStoredCostEvents :: "reloadRun \<Rightarrow> recentCache \<Rightarrow> recentCache \<times> bool" where
  "ReloadStoredCostEvents run c =
     (if \<not> rl_hasDB run \<or> rl_ended1 run then (invalidateEventReads c, False)
      else case loadUsageRecentEventCacheRows (rl_now run - rc_window c) (rl_candidates run) of
             None \<Rightarrow> (invalidateEventReads c, False)
           | Some rows \<Rightarrow>
               if \<not> list_all stored_cost rows \<or> rl_ended2 run \<or> rl_ended3 run then (invalidateEventReads c, False)
               else
                 let c = c\<lparr>rc_events := [], rc_pool := fold releaseEventStringsLocked (rc_events c) (rc_pool c)\<rparr>;
                     c = pruneLocked (rl_pruneNow run) (appendRecentEventsLocked rows c)
                 in (c\<lparr>rc_eventReadsValid := True\<rparr>, True))"


section \<open>Reads\<close>

definition EventsForInstance ::
    "recentCache option \<Rightarrow> string \<Rightarrow> time \<Rightarrow> time \<Rightarrow> bool \<Rightarrow> string \<Rightarrow> RecentUsageEvent list \<times> bool" where
  "EventsForInstance cache instanceID start stop includeEnd apiGroupKey =
     (case cache of
        None \<Rightarrow> ([], False)
      | Some c \<Rightarrow>
          if \<not> rc_eventReadsValid c then ([], False)
          else if stop < start \<or> \<not> includeEnd \<and> stop = start then ([], True)
          else
            let apiGroupKey = TrimSpace apiGroupKey; instanceID = TrimSpace instanceID
            in (filter (\<lambda>e. \<not> (instanceID \<noteq> '''' \<and> re_InstanceID e \<noteq> instanceID)
                   \<and> \<not> re_Timestamp e < start
                   \<and> (if includeEnd then \<not> stop < re_Timestamp e else re_Timestamp e < stop)
                   \<and> \<not> (apiGroupKey \<noteq> '''' \<and> re_APIGroupKey e \<noteq> apiGroupKey)) (rc_events c), True))"

definition Events :: "recentCache option \<Rightarrow> time \<Rightarrow> time \<Rightarrow> bool \<Rightarrow> string \<Rightarrow> RecentUsageEvent list \<times> bool" where
  "Events cache start stop includeEnd apiGroupKey = EventsForInstance cache '''' start stop includeEnd apiGroupKey"

definition EventsSinceForInstance :: "recentCache option \<Rightarrow> string \<Rightarrow> time \<Rightarrow> string \<Rightarrow> RecentUsageEvent list \<times> bool" where
  "EventsSinceForInstance cache instanceID start apiGroupKey =
     (case cache of
        None \<Rightarrow> ([], False)
      | Some c \<Rightarrow>
          if \<not> rc_eventReadsValid c then ([], False)
          else
            let apiGroupKey = TrimSpace apiGroupKey; instanceID = TrimSpace instanceID
            in (filter (\<lambda>e. \<not> (instanceID \<noteq> '''' \<and> re_InstanceID e \<noteq> instanceID)
                   \<and> \<not> re_Timestamp e < start
                   \<and> \<not> (apiGroupKey \<noteq> '''' \<and> re_APIGroupKey e \<noteq> apiGroupKey)) (rc_events c), True))"

definition EventsSince :: "recentCache option \<Rightarrow> time \<Rightarrow> string \<Rightarrow> RecentUsageEvent list \<times> bool" where
  "EventsSince cache start apiGroupKey = EventsSinceForInstance cache '''' start apiGroupKey"

text \<open>The keys are a set; the loop visits the events in order.\<close>

definition UsedAPIKeys :: "recentCache option \<Rightarrow> time \<Rightarrow> time \<Rightarrow> bool \<Rightarrow> bool \<Rightarrow> string set \<times> bool" where
  "UsedAPIKeys cache start stop includeEnd openEnd =
     (case cache of
        None \<Rightarrow> ({}, False)
      | Some c \<Rightarrow>
          if \<not> rc_eventReadsValid c then ({}, False)
          else (set (filter (\<lambda>k. k \<noteq> '''') (map re_APIGroupKey (filter (\<lambda>e. \<not> re_Timestamp e < start
                  \<and> \<not> (\<not> openEnd \<and> (stop < re_Timestamp e \<or> \<not> includeEnd \<and> re_Timestamp e = stop))) (rc_events c)))), True))"

definition Window :: "recentCache option \<Rightarrow> duration" where
  "Window cache = (case cache of None \<Rightarrow> 0 | Some c \<Rightarrow> rc_window c)"

definition recentUsageEventToEntity :: "RecentUsageEvent \<Rightarrow> usageEvent" where
  "recentUsageEventToEntity e =
     blank_event\<lparr>ue_Provider := re_Provider e, ue_InstanceID := re_InstanceID e, ue_APIGroupKey := re_APIGroupKey e,
       ue_Model := re_Model e, ue_Timestamp := re_Timestamp e, ue_AuthIndex := re_AuthIndex e, ue_Failed := re_Failed e,
       ue_Generate := Some (re_Generate e), ue_LatencyMS := re_LatencyMS e, ue_TTFTMS := re_TTFTMS e,
       ue_InputTokens := re_InputTokens e, ue_OutputTokens := re_OutputTokens e,
       ue_ReasoningTokens := re_ReasoningTokens e, ue_CachedTokens := re_CachedTokens e,
       ue_CacheReadTokens := re_CacheReadTokens e, ue_CacheCreationTokens := re_CacheCreationTokens e,
       ue_TotalTokens := re_TotalTokens e, ue_CostUSD := re_CostUSD e, ue_CostAvailable := re_CostAvailable e,
       ue_ModelAlias := (let a = TrimSpace (re_ModelAlias e) in if a \<noteq> '''' then Some a else None)\<rparr>"

section \<open>Runs\<close>

text \<open>
  What changes a cache after its creation. The clock never goes back: an operation reads it after the
  operations before it.
\<close>

datatype cacheOp = Append time "usageEvent list" | Reload reloadRun

fun apply_op :: "cacheOp \<Rightarrow> recentCache \<Rightarrow> recentCache" where
  "apply_op (Append now events) c = appendEvents now events c"
| "apply_op (Reload run) c = fst (ReloadStoredCostEvents run c)"

fun clock_after :: "time \<Rightarrow> cacheOp list \<Rightarrow> time" where
  "clock_after t [] = t"
| "clock_after t (Append now _ # ops) = clock_after now ops"
| "clock_after t (Reload run # ops) = clock_after (rl_pruneNow run) ops"

fun clocks_ok :: "time \<Rightarrow> cacheOp list \<Rightarrow> bool" where
  "clocks_ok t [] = True"
| "clocks_ok t (Append now _ # ops) = (t \<le> now \<and> clocks_ok now ops)"
| "clocks_ok t (Reload run # ops) = (t \<le> rl_now run \<and> rl_now run \<le> rl_pruneNow run \<and> clocks_ok (rl_pruneNow run) ops)"

text \<open>
  The specification keeps everything: all rows accepted since the last successful reload, without a
  window, and whether reads are valid.
\<close>

definition reload_answer :: "duration \<Rightarrow> reloadRun \<Rightarrow> recentUsageEventLoadRow list option" where
  "reload_answer window run =
     (if \<not> rl_hasDB run \<or> rl_ended1 run \<or> rl_ended2 run \<or> rl_ended3 run then None
      else case rl_candidates run of
             None \<Rightarrow> None
           | Some rows \<Rightarrow>
               if list_all stored_cost (filter (\<lambda>r. rl_now run - window \<le> lr_Timestamp r) rows) then Some rows else None)"

fun spec_rows :: "duration \<Rightarrow> cacheOp list \<Rightarrow> recentUsageEventLoadRow list \<times> bool \<Rightarrow> recentUsageEventLoadRow list \<times> bool" where
  "spec_rows window [] st = st"
| "spec_rows window (Append _ events # ops) (rows, valid) = spec_rows window ops (rows @ map event_row events, valid)"
| "spec_rows window (Reload run # ops) (rows, valid) =
     (case reload_answer window run of
        None \<Rightarrow> spec_rows window ops (rows, False)
      | Some rows' \<Rightarrow> spec_rows window ops (rows', True))"

definition ops_health_rows :: "cacheOp list \<Rightarrow> credentialHealthLoadRow list" where
  "ops_health_rows ops =
     concat (map (\<lambda>op. case op of Append _ events \<Rightarrow> credentialHealthRowsFromUsageEvents events | Reload _ \<Rightarrow> []) ops)"


section \<open>The pool counts the references\<close>

lemma append_events_eq:
  "appendRecentEventsLocked rows c =
     c\<lparr>rc_events := rc_events c @ map recentEventFromRow rows,
       rc_pool := fold intern (concat (map (event_strings \<circ> recentEventFromRow) rows)) (rc_pool c)\<rparr>"
  by (induction rows arbitrary: c) (simp_all add: recentEventFromRowLocked_def Let_def)

lemma prune_events_eq:
  "prune_events cutoff es (kept, pool) =
     (kept @ filter (\<lambda>e. cutoff \<le> re_Timestamp e) es,
      fold release (concat (map event_strings (filter (\<lambda>e. re_Timestamp e < cutoff) es))) pool)"
  by (induction es arbitrary: kept pool) (simp_all add: releaseEventStringsLocked_def)

lemma pruneLocked_eq:
  "pruneLocked now c =
     c\<lparr>rc_events := filter (\<lambda>e. now - rc_window c \<le> re_Timestamp e) (rc_events c),
       rc_pool := fold release (concat (map event_strings (filter (\<lambda>e. re_Timestamp e < now - rc_window c) (rc_events c)))) (rc_pool c)\<rparr>"
  by (simp add: pruneLocked_def prune_events_eq)

text \<open>The strings the events of a cache refer to, with their multiplicity.\<close>

definition references :: "RecentUsageEvent list \<Rightarrow> string multiset" where
  "references es = mset (concat (map event_strings es))"

definition pool_counts :: "recentCache \<Rightarrow> bool" where
  "pool_counts c \<longleftrightarrow> strings.counts (rc_pool c) (references (rc_events c))"

lemma references_split: "references es = references (filter P es) + references (filter (\<lambda>e. \<not> P e) es)"
  by (induction es) (simp_all add: references_def)

lemma pool_counts_new: "pool_counts (newEmptyUsageRecentEventCache window)"
  by (simp add: pool_counts_def newEmptyUsageRecentEventCache_def references_def strings.counts_def pool_ok_def pool_refs_def)

lemma pool_counts_append: "pool_counts c \<Longrightarrow> pool_counts (appendRecentEventsLocked rows c)"
  using strings.counts_acquires [of "rc_pool c" "references (rc_events c)" "concat (map (event_strings \<circ> recentEventFromRow) rows)"]
  by (simp add: pool_counts_def append_events_eq references_def add.commute)

lemma pool_counts_prune: "pool_counts c \<Longrightarrow> pool_counts (pruneLocked now c)"
proof -
  assume "pool_counts c"
  let ?gone = "filter (\<lambda>e. re_Timestamp e < now - rc_window c) (rc_events c)"
  let ?kept = "filter (\<lambda>e. now - rc_window c \<le> re_Timestamp e) (rc_events c)"
  have "references (rc_events c) = references ?gone + references ?kept"
    using references_split [of "rc_events c" "\<lambda>e. re_Timestamp e < now - rc_window c"] by (simp add: not_less)
  with \<open>pool_counts c\<close> have "strings.counts (rc_pool c) (mset (concat (map event_strings ?gone)) + references ?kept)"
    by (simp add: pool_counts_def references_def)
  from strings.counts_drops [OF this] show ?thesis by (simp add: pool_counts_def pruneLocked_eq)
qed

lemma pool_counts_health [simp]: "pool_counts (fst (append_health rows c)) = pool_counts c" "pool_counts (prune_health now touched c) = pool_counts c"
  by (simp_all add: pool_counts_def append_health_def prune_health_def split: prod.split)

lemma pool_counts_health_batches: "pool_counts c \<Longrightarrow> pool_counts (fold (\<lambda>batch c. fst (append_health batch c)) bs c)"
  by (induction bs arbitrary: c) simp_all

lemma release_events_eq: "fold releaseEventStringsLocked es pool = fold release (concat (map event_strings es)) pool"
  by (induction es arbitrary: pool) (simp_all add: releaseEventStringsLocked_def)

lemma pool_counts_cleared:
  assumes "pool_counts c"
  shows "pool_counts (c\<lparr>rc_events := [], rc_pool := fold releaseEventStringsLocked (rc_events c) (rc_pool c)\<rparr>)"
  using assms strings.counts_drops [of "rc_pool c" "concat (map event_strings (rc_events c))" "{#}"]
  by (simp add: pool_counts_def references_def release_events_eq)

lemma appendEvents_unfold:
  "events \<noteq> [] \<Longrightarrow> appendEvents now events c =
     (let d = appendRecentEventsLocked (map event_row events) c;
          st = append_health (credentialHealthRowsFromUsageEvents events) d
      in prune_health now (Some (snd st)) (pruneLocked now (fst st)))"
  by (simp add: appendEvents_def Let_def split: prod.split)

lemma pool_counts_op: "pool_counts c \<Longrightarrow> pool_counts (apply_op op c)"
proof (cases op)
  case (Append now events)
  assume c: "pool_counts c"
  then have "pool_counts (appendEvents now events c)"
    by (cases "events = []") (simp add: appendEvents_def, simp add: appendEvents_unfold Let_def pool_counts_prune pool_counts_append)
  with Append show ?thesis by simp
next
  case (Reload run)
  assume c: "pool_counts c"
  have "pool_counts (invalidateEventReads c)" using c by (simp add: pool_counts_def invalidateEventReads_def)
  moreover have "pool_counts (d\<lparr>rc_eventReadsValid := True\<rparr>)" if "pool_counts d" for d using that by (simp add: pool_counts_def)
  ultimately show ?thesis
    using Reload pool_counts_prune [OF pool_counts_append [OF pool_counts_cleared [OF c]]]
    by (simp add: ReloadStoredCostEvents_def Let_def split: option.split)
qed

lemma pool_counts_created: "NewUsageRecentEventCache window now candidates batches = Some c \<Longrightarrow> pool_counts c"
  by (auto simp: NewUsageRecentEventCache_def Let_def pool_counts_health_batches pool_counts_prune pool_counts_append
      pool_counts_new split: option.splits)

lemma pool_counts_run: "pool_counts c \<Longrightarrow> pool_counts (fold apply_op ops c)"
  by (induction ops arbitrary: c) (simp_all add: pool_counts_op)

text \<open>
  The string pool of the cache never leaks and never forgets a string. After any operations, in any
  order and with any clock, it has an entry for exactly the non-empty strings some cached event
  refers to, with the number of fields that refer to it.
\<close>

theorem recent_pool_exact:
  assumes "NewUsageRecentEventCache window now candidates batches = Some c0" and "c = fold apply_op ops c0"
  shows "map_of (rc_pool c) s =
    (let n = length (filter (\<lambda>x. x = s) (concat (map event_strings (rc_events c))))
     in if s = '''' \<or> n = 0 then None else Some (int n))"
proof -
  have "pool_counts c" using pool_counts_run [OF pool_counts_created [OF assms(1)]] assms(2) by simp
  then have counts: "strings.counts (rc_pool c) (references (rc_events c))" by (simp add: pool_counts_def)
  have n: "length (filter (\<lambda>x. x = s) xs) = count (mset xs) s" for xs :: "string list"
    by (induction xs) auto
  show ?thesis
  proof (cases "s = ''''")
    case True
    have refs: "pool_refs (rc_pool c) '''' = 0" and "pool_ok (rc_pool c)" using counts by (auto simp: strings.counts_def)
    then have "0 < n" if "map_of (rc_pool c) '''' = Some n" for n using that unfolding pool_ok_def by blast
    with refs have "map_of (rc_pool c) '''' = None" by (cases "map_of (rc_pool c) ''''") (auto simp: pool_refs_def)
    with True show ?thesis by simp
  next
    case False
    then show ?thesis
      using counted_entry [OF counts False] unfolding n references_def Let_def
      by (auto simp: not_in_iff count_eq_zero_iff)
  qed
qed

section \<open>Reads are complete\<close>

text \<open>
  A cache holds the events of the accepted rows that a cutoff in the past has left, and none of its
  counts of the health window is stale.
\<close>

definition cache_holds :: "time \<Rightarrow> recentCache \<Rightarrow> recentUsageEventLoadRow list \<times> bool \<Rightarrow> bool" where
  "cache_holds clock c spec \<longleftrightarrow>
     rc_eventReadsValid c = snd spec \<and>
     (\<exists>cutoff \<le> clock - rc_window c.
        rc_events c = map recentEventFromRow (filter (\<lambda>r. cutoff \<le> lr_Timestamp r) (fst spec)))"

lemma from_row_time [simp]: "re_Timestamp (recentEventFromRow r) = lr_Timestamp r"
  by (simp add: recentEventFromRow_def split: prod.split)

lemma health_fields [simp]:
  "rc_events (fst (append_health rows c)) = rc_events c" "rc_window (fst (append_health rows c)) = rc_window c"
  "rc_eventReadsValid (fst (append_health rows c)) = rc_eventReadsValid c"
  "rc_events (prune_health now touched c) = rc_events c" "rc_window (prune_health now touched c) = rc_window c"
  "rc_eventReadsValid (prune_health now touched c) = rc_eventReadsValid c"
  by (simp_all add: append_health_def prune_health_def split: prod.split)

lemma window_op: "rc_window (apply_op op c) = rc_window c"
proof (cases op)
  case (Append now events)
  have "rc_window (appendEvents now events c) = rc_window c"
    by (cases "events = []") (simp add: appendEvents_def, simp add: appendEvents_unfold Let_def pruneLocked_eq append_events_eq)
  with Append show ?thesis by simp
next
  case (Reload run)
  then show ?thesis
    by (simp add: ReloadStoredCostEvents_def invalidateEventReads_def pruneLocked_eq append_events_eq Let_def split: option.split)
qed

lemma window_run: "rc_window (fold apply_op ops c) = rc_window c"
  by (induction ops arbitrary: c) (simp_all add: window_op)

text \<open>Filtering by two cutoffs is filtering by the later one.\<close>

lemma filter_cutoffs:
  "filter (\<lambda>r. a \<le> f r) (filter (\<lambda>r. b \<le> f r) rows) = filter (\<lambda>r. max a b \<le> (f r :: int)) rows"
  by (simp add: conj_commute)

lemma cache_holds_later:
  assumes "cache_holds clock c spec" and "clock \<le> now"
  shows "cache_holds now c spec" and "cache_holds now (invalidateEventReads c) (fst spec, False)"
proof -
  from assms(1) obtain cutoff where "rc_eventReadsValid c = snd spec" "cutoff \<le> clock - rc_window c"
      "rc_events c = map recentEventFromRow (filter (\<lambda>r. cutoff \<le> lr_Timestamp r) (fst spec))"
    unfolding cache_holds_def by blast
  moreover from this(2) assms(2) have "cutoff \<le> now - rc_window c" by simp
  ultimately show "cache_holds now c spec" "cache_holds now (invalidateEventReads c) (fst spec, False)"
    unfolding cache_holds_def invalidateEventReads_def by (auto intro: exI [of _ cutoff])
qed

lemma cache_holds_append:
  assumes "cache_holds clock c (rows, valid)" and "clock \<le> now"
  shows "cache_holds now (appendEvents now events c) (rows @ map event_row events, valid)"
proof (cases "events = []")
  case True
  with cache_holds_later(1) [OF assms] show ?thesis by (simp add: appendEvents_def)
next
  case False
  from assms(1) obtain cutoff where c: "rc_eventReadsValid c = valid" "cutoff \<le> clock - rc_window c"
      "rc_events c = map recentEventFromRow (filter (\<lambda>r. cutoff \<le> lr_Timestamp r) rows)"
    by (auto simp: cache_holds_def)
  let ?cut = "now - rc_window c"
  have "cutoff \<le> ?cut" using c(2) assms(2) by simp
  then have "max ?cut cutoff = ?cut" by simp
  then have "rc_events (appendEvents now events c) =
      map recentEventFromRow (filter (\<lambda>r. ?cut \<le> lr_Timestamp r) (rows @ map event_row events))"
    using False filter_cutoffs [of ?cut lr_Timestamp cutoff rows]
    by (simp add: appendEvents_unfold Let_def pruneLocked_eq append_events_eq c(3) filter_map comp_def)
  moreover have "rc_window (appendEvents now events c) = rc_window c" using window_op [of "Append now events" c] by simp
  moreover have "rc_eventReadsValid (appendEvents now events c) = valid"
    using False c(1) by (simp add: appendEvents_unfold Let_def pruneLocked_eq append_events_eq)
  ultimately show ?thesis by (auto simp: cache_holds_def)
qed

lemma cache_holds_reload:
  assumes "cache_holds clock c (rows, valid)" and "clock \<le> rl_now run" and "rl_now run \<le> rl_pruneNow run"
  shows "cache_holds (rl_pruneNow run) (fst (ReloadStoredCostEvents run c))
    (case reload_answer (rc_window c) run of None \<Rightarrow> (rows, False) | Some rows' \<Rightarrow> (rows', True))"
proof (cases "reload_answer (rc_window c) run")
  case None
  then have "ReloadStoredCostEvents run c = (invalidateEventReads c, False)"
    by (auto simp: reload_answer_def ReloadStoredCostEvents_def loadUsageRecentEventCacheRows_def not_less split: option.splits if_splits)
  with None cache_holds_later(2) [OF assms(1), of "rl_pruneNow run"] assms(2,3) show ?thesis by simp
next
  case (Some answer)
  let ?loaded = "filter (\<lambda>r. rl_now run - rc_window c \<le> lr_Timestamp r) answer"
  let ?empty = "c\<lparr>rc_events := [], rc_pool := fold releaseEventStringsLocked (rc_events c) (rc_pool c)\<rparr>"
  have "fst (ReloadStoredCostEvents run c) =
      (pruneLocked (rl_pruneNow run) (appendRecentEventsLocked ?loaded ?empty))\<lparr>rc_eventReadsValid := True\<rparr>"
    using Some by (auto simp: reload_answer_def ReloadStoredCostEvents_def loadUsageRecentEventCacheRows_def not_less Let_def
        split: option.splits if_splits)
  moreover have "filter (\<lambda>r. rl_pruneNow run - rc_window c \<le> lr_Timestamp r) ?loaded =
      filter (\<lambda>r. rl_pruneNow run - rc_window c \<le> lr_Timestamp r) answer"
    using assms(3) by (auto intro!: filter_cong)
  ultimately show ?thesis
    using Some by (auto simp: cache_holds_def pruneLocked_eq append_events_eq filter_map comp_def)
qed

lemma cache_holds_run:
  assumes "cache_holds clock c spec" and "clocks_ok clock ops"
  shows "cache_holds (clock_after clock ops) (fold apply_op ops c) (spec_rows (rc_window c) ops spec)"
  using assms
proof (induction ops arbitrary: clock c spec)
  case (Cons op ops)
  obtain rows valid where spec: "spec = (rows, valid)" by fastforce
  have win: "rc_window (apply_op op c) = rc_window c" by (rule window_op)
  show ?case
  proof (cases op)
    case (Append now events)
    have "cache_holds now (apply_op op c) (rows @ map event_row events, valid)"
      using Cons.prems Append spec cache_holds_append [of clock c rows valid now events] by simp
    from Cons.IH [OF this] Cons.prems(2) Append spec win show ?thesis by simp
  next
    case (Reload run)
    have "cache_holds (rl_pruneNow run) (apply_op op c)
        (case reload_answer (rc_window c) run of None \<Rightarrow> (rows, False) | Some rows' \<Rightarrow> (rows', True))"
      using Cons.prems Reload spec cache_holds_reload [of clock c rows valid run] by simp
    from Cons.IH [OF this] Cons.prems(2) Reload spec win show ?thesis by (simp split: option.splits)
  qed
qed simp

lemma cache_holds_created:
  assumes "NewUsageRecentEventCache window now (Some candidates) batches = Some c"
  shows "cache_holds now c (candidates, True)"
proof -
  let ?new = "newEmptyUsageRecentEventCache window"
  have health: "rc_events (fold (\<lambda>batch c. fst (append_health batch c)) bs d) = rc_events d"
      "rc_window (fold (\<lambda>batch c. fst (append_health batch c)) bs d) = rc_window d"
      "rc_eventReadsValid (fold (\<lambda>batch c. fst (append_health batch c)) bs d) = rc_eventReadsValid d" for bs d
    by (induction bs arbitrary: d) simp_all
  have new: "rc_events ?new = []" "rc_eventReadsValid ?new" by (simp_all add: newEmptyUsageRecentEventCache_def)
  have "rc_events c = map recentEventFromRow (filter (\<lambda>r. now - rc_window ?new \<le> lr_Timestamp r) candidates)"
      "rc_window c = rc_window ?new" "rc_eventReadsValid c"
    using assms by (auto simp: NewUsageRecentEventCache_def loadUsageRecentEventCacheRows_def Let_def health pruneLocked_eq
        append_events_eq new filter_map comp_def not_less split: option.splits)
  then show ?thesis by (auto simp: cache_holds_def)
qed

text \<open>The rows a read over a range of an instance and an API group asks for.\<close>

definition asked_for :: "string \<Rightarrow> string \<Rightarrow> recentUsageEventLoadRow \<Rightarrow> bool" where
  "asked_for instanceID apiGroupKey r \<longleftrightarrow>
     (TrimSpace instanceID = '''' \<or> lr_InstanceID r = TrimSpace instanceID)
     \<and> (TrimSpace apiGroupKey = '''' \<or> TrimSpace (lr_APIGroupKey r) = TrimSpace apiGroupKey)"

lemma from_row_fields [simp]:
  "re_InstanceID (recentEventFromRow r) = lr_InstanceID r" "re_APIGroupKey (recentEventFromRow r) = TrimSpace (lr_APIGroupKey r)"
  by (simp_all add: recentEventFromRow_def split: prod.split)

lemma held_filter:
  assumes "rc_events c = map recentEventFromRow (filter (\<lambda>r. cutoff \<le> lr_Timestamp r) rows)"
    and "\<And>r. P (recentEventFromRow r) \<longleftrightarrow> Q r" and "\<And>r. Q r \<Longrightarrow> cutoff \<le> lr_Timestamp r"
  shows "filter P (rc_events c) = map recentEventFromRow (filter Q rows)"
  unfolding assms(1) filter_map comp_def assms(2) filter_filter
  by (rule arg_cong [of _ _ "map recentEventFromRow"], rule filter_cong) (auto dest: assms(3))

lemma reads_held:
  assumes "cache_holds clock c (rows, valid)" and "clock - rc_window c \<le> start"
  shows "EventsForInstance (Some c) instanceID start stop includeEnd apiGroupKey =
      (if valid then (map recentEventFromRow (filter (\<lambda>r. asked_for instanceID apiGroupKey r \<and> start \<le> lr_Timestamp r
         \<and> (if includeEnd then lr_Timestamp r \<le> stop else lr_Timestamp r < stop)) rows), True) else ([], False))"
    and "EventsSinceForInstance (Some c) instanceID start apiGroupKey =
      (if valid then (map recentEventFromRow (filter (\<lambda>r. asked_for instanceID apiGroupKey r \<and> start \<le> lr_Timestamp r) rows), True)
       else ([], False))"
proof -
  from assms(1) obtain cutoff where c: "rc_eventReadsValid c = valid" "cutoff \<le> clock - rc_window c"
      "rc_events c = map recentEventFromRow (filter (\<lambda>r. cutoff \<le> lr_Timestamp r) rows)"
    by (auto simp: cache_holds_def)
  note held = held_filter [OF c(3)]
  have late: "cutoff \<le> t" if "start \<le> t" for t using that c(2) assms(2) by simp
  have none: "filter (\<lambda>r. asked_for instanceID apiGroupKey r \<and> start \<le> lr_Timestamp r
      \<and> (if includeEnd then lr_Timestamp r \<le> stop else lr_Timestamp r < stop)) rows = []"
    if "stop < start \<or> \<not> includeEnd \<and> stop = start"
    using that by (auto simp: filter_empty_conv split: if_splits)
  show "EventsForInstance (Some c) instanceID start stop includeEnd apiGroupKey =
      (if valid then (map recentEventFromRow (filter (\<lambda>r. asked_for instanceID apiGroupKey r \<and> start \<le> lr_Timestamp r
         \<and> (if includeEnd then lr_Timestamp r \<le> stop else lr_Timestamp r < stop)) rows), True) else ([], False))"
  proof (cases "stop < start \<or> \<not> includeEnd \<and> stop = start")
    case True
    then show ?thesis unfolding none [OF True] by (simp add: EventsForInstance_def c(1))
  next
    case False
    then have "\<not> stop < start" "\<not> (\<not> includeEnd \<and> stop = start)" by auto
    then show ?thesis
      unfolding EventsForInstance_def Let_def option.case
      by (subst held [where Q = "\<lambda>r. asked_for instanceID apiGroupKey r \<and> start \<le> lr_Timestamp r
          \<and> (if includeEnd then lr_Timestamp r \<le> stop else lr_Timestamp r < stop)"])
        (auto simp: asked_for_def not_less c(1) late)
  qed
  show "EventsSinceForInstance (Some c) instanceID start apiGroupKey =
      (if valid then (map recentEventFromRow (filter (\<lambda>r. asked_for instanceID apiGroupKey r \<and> start \<le> lr_Timestamp r) rows), True)
       else ([], False))"
    unfolding EventsSinceForInstance_def Let_def option.case
    by (subst held [where Q = "\<lambda>r. asked_for instanceID apiGroupKey r \<and> start \<le> lr_Timestamp r"])
      (auto simp: asked_for_def not_less c(1) late)
qed

text \<open>
  Claim C34. The cache is transparent for its window. After any appends and reloads under a clock that does not
  go back, a read that starts inside the window of the last of them returns exactly the accepted
  events of its range, instance and API group, in the order they were accepted: none is lost by
  pruning, none is returned twice. Accepted is what the last successful reload read, or the start,
  and every append since. After a failed reload reads are refused until one succeeds.
\<close>

theorem recent_reads_complete:
  assumes "NewUsageRecentEventCache window now (Some candidates) batches = Some c0"
    and "clocks_ok now ops" and "c = fold apply_op ops c0"
    and "spec_rows (rc_window c0) ops (candidates, True) = (rows, valid)"
    and "clock_after now ops - rc_window c0 \<le> start"
  shows "EventsForInstance (Some c) instanceID start stop includeEnd apiGroupKey =
      (if valid then (map recentEventFromRow (filter (\<lambda>r. asked_for instanceID apiGroupKey r \<and> start \<le> lr_Timestamp r
         \<and> (if includeEnd then lr_Timestamp r \<le> stop else lr_Timestamp r < stop)) rows), True) else ([], False))
    \<and> EventsSinceForInstance (Some c) instanceID start apiGroupKey =
      (if valid then (map recentEventFromRow (filter (\<lambda>r. asked_for instanceID apiGroupKey r \<and> start \<le> lr_Timestamp r) rows), True)
       else ([], False))"
proof -
  have "cache_holds (clock_after now ops) c (rows, valid)"
    using cache_holds_run [OF cache_holds_created [OF assms(1)] assms(2)] assms(3,4) by simp
  moreover have "rc_window c = rc_window c0" by (simp add: assms(3) window_run)
  ultimately show ?thesis using reads_held [of "clock_after now ops" c rows valid start] assms(5) by simp
qed


section \<open>Health is exact\<close>

lemma append_health_exact:
  "health_exact now (rc_credentialHealth c) rows \<Longrightarrow> health_exact now (rc_credentialHealth (fst (append_health rows' c))) (rows @ rows')"
  using health_exact_append [of now "rc_credentialHealth c" rows rows' "[]"]
  by (cases "appendCredentialHealthRowsLocked rows' (ch_bucketsByCredential (rc_credentialHealth c), [])")
    (simp add: append_health_def)

lemma prune_health_exact:
  "health_exact now (rc_credentialHealth c) rows \<Longrightarrow> now \<le> now' \<Longrightarrow> health_exact now' (rc_credentialHealth (prune_health now' touched c)) rows"
  by (simp add: prune_health_def health_exact_prune)

lemma health_untouched [simp]:
  "rc_credentialHealth (appendRecentEventsLocked rs c) = rc_credentialHealth c"
  "rc_credentialHealth (pruneLocked t c) = rc_credentialHealth c"
  "rc_credentialHealth (invalidateEventReads c) = rc_credentialHealth c"
  by (simp_all add: append_events_eq pruneLocked_eq invalidateEventReads_def)

lemma health_later: "health_exact now h rows \<Longrightarrow> now \<le> now' \<Longrightarrow> health_exact now' h rows"
  using window_start_mono [of now now'] unfolding health_exact_def by (meson order_trans)

lemma health_append_op:
  assumes "health_exact clock (rc_credentialHealth c) rows" and "clock \<le> now"
  shows "health_exact now (rc_credentialHealth (appendEvents now events c)) (rows @ credentialHealthRowsFromUsageEvents events)"
proof (cases "events = []")
  case True
  with health_later [OF assms] show ?thesis by (simp add: appendEvents_def credentialHealthRowsFromUsageEvents_def)
next
  case False
  let ?d = "appendRecentEventsLocked (map event_row events) c"
  have "health_exact clock (rc_credentialHealth (fst (append_health (credentialHealthRowsFromUsageEvents events) ?d)))
      (rows @ credentialHealthRowsFromUsageEvents events)"
    by (rule append_health_exact) (simp add: assms(1))
  with assms(2) show ?thesis using False by (simp add: appendEvents_unfold Let_def prune_health_exact)
qed

lemma health_reload_op: "rc_credentialHealth (fst (ReloadStoredCostEvents run c)) = rc_credentialHealth c"
  by (simp add: ReloadStoredCostEvents_def Let_def split: option.split)

lemma health_run:
  "health_exact clock (rc_credentialHealth c) rows \<Longrightarrow> clocks_ok clock ops \<Longrightarrow>
   health_exact (clock_after clock ops) (rc_credentialHealth (fold apply_op ops c)) (rows @ ops_health_rows ops)"
proof (induction ops arbitrary: clock c rows)
  case (Cons op ops)
  show ?case
  proof (cases op)
    case (Append now events)
    then show ?thesis
      using Cons.IH [OF health_append_op [OF Cons.prems(1)], of now events] Cons.prems(2) by (simp add: ops_health_rows_def)
  next
    case (Reload run)
    have "health_exact (rl_pruneNow run) (rc_credentialHealth (apply_op op c)) rows"
      using Cons.prems Reload health_later [OF Cons.prems(1), of "rl_pruneNow run"] by (simp add: health_reload_op)
    with Cons.IH [OF this] Cons.prems(2) Reload show ?thesis by (simp add: ops_health_rows_def)
  qed
qed (simp add: ops_health_rows_def)

lemma health_created:
  assumes "NewUsageRecentEventCache window now candidates (Some batches) = Some c"
  shows "health_exact now (rc_credentialHealth c) (concat batches)"
proof -
  have batches: "health_exact now (rc_credentialHealth (fold (\<lambda>batch c. fst (append_health batch c)) bs d)) (rows @ concat bs)"
    if "health_exact now (rc_credentialHealth d) rows" for bs d rows
    using that
  proof (induction bs arbitrary: d rows)
    case (Cons b bs)
    from Cons.IH [OF append_health_exact [OF Cons.prems]] show ?case by simp
  qed simp
  from assms obtain rs where c: "c = prune_health now None (fold (\<lambda>batch c. fst (append_health batch c)) batches
      (pruneLocked now (appendRecentEventsLocked rs (newEmptyUsageRecentEventCache window))))"
    by (auto simp: NewUsageRecentEventCache_def Let_def split: option.splits)
  have "health_exact now (rc_credentialHealth (newEmptyUsageRecentEventCache window)) []"
    using health_exact_empty by (simp add: newEmptyUsageRecentEventCache_def)
  then have "health_exact now (rc_credentialHealth (fold (\<lambda>batch c. fst (append_health batch c)) batches
      (pruneLocked now (appendRecentEventsLocked rs (newEmptyUsageRecentEventCache window))))) (concat batches)"
    using batches [of "pruneLocked now (appendRecentEventsLocked rs (newEmptyUsageRecentEventCache window))" "[]" batches] by simp
  then show ?thesis unfolding c by (rule prune_health_exact) (rule order_refl)
qed

text \<open>
  Claim C35. The credential health snapshot is exact. At any time from the last operation on, the five-hour
  snapshot of a credential has the successes, failures and canonical tokens of all rows of that
  credential in its window, those loaded at the start and those appended since, and each of its
  thirty buckets the successes and failures of its ten minutes; token sums stop at the largest
  64-bit value instead of wrapping.
\<close>

theorem credential_health_exact:
  assumes "NewUsageRecentEventCache window now candidates (Some batches) = Some c0"
    and "clocks_ok now ops" and "c = fold apply_op ops c0" and "clock_after now ops \<le> later"
    and "authType \<noteq> ''''" and "authIndex \<noteq> ''''"
  shows "\<exists>s. CredentialHealth (Some (rc_credentialHealth c)) authType authIndex later = Some s
    \<and> snapshot_exact s later (filter (\<lambda>r. hr_AuthType r = authType \<and> hr_AuthIndex r = authIndex)
        (concat batches @ ops_health_rows ops))"
proof -
  have "health_exact (clock_after now ops) (rc_credentialHealth c) (concat batches @ ops_health_rows ops)"
    using health_run [OF health_created [OF assms(1)] assms(2)] assms(3) by simp
  from CredentialHealth_exact [OF this assms(4-6)] show ?thesis by (simp add: Credential_Health.row_key_def)
qed

section \<open>Examples\<close>

text \<open>A cache of the default window, made at a time, that read one row twice, and an event of the same model added.\<close>

definition example_event :: "time \<Rightarrow> usageEvent" where
  "example_event t =
     blank_event\<lparr>ue_Model := ''m'', ue_Provider := ''p'', ue_AuthType := ''oauth'', ue_AuthIndex := ''a'', ue_Timestamp := t,
       ue_InputTokens := 9223372036854775807\<rparr>"

definition example_created :: "time \<Rightarrow> recentCache option" where
  "example_created now =
     NewUsageRecentEventCache 0 now (Some [event_row (example_event now)])
       (Some [credentialHealthRowsFromUsageEvents [example_event now]])"

definition example_ops :: "time \<Rightarrow> cacheOp list" where
  "example_ops now = [Append now [example_event now, example_event (now - 71 * Minute)]]"

lemma example_exists: "\<exists>c. example_created now = Some c"
  by (simp add: example_created_def NewUsageRecentEventCache_def loadUsageRecentEventCacheRows_def Let_def)

lemma recent_pool_exact_witness:
  "\<exists>c. example_created 0 = Some c \<and> map_of (rc_pool (fold apply_op (example_ops 0) c)) ''m'' = Some 2"
proof -
  obtain c where c: "example_created 0 = Some c" using example_exists by blast
  have new: "NewUsageRecentEventCache 0 0 (Some [event_row (example_event 0)])
      (Some [credentialHealthRowsFromUsageEvents [example_event 0]]) = Some c"
    using c by (simp only: example_created_def)
  have "length (filter (\<lambda>x. x = ''m'') (concat (map event_strings (rc_events (fold apply_op (example_ops 0)
      (the (example_created 0))))))) = 2"
    by code_simp
  then show ?thesis using recent_pool_exact [OF new refl, of "example_ops 0" "''m''"] c by (simp add: Let_def)
qed

lemma recent_reads_complete_witness:
  "\<exists>c. example_created 0 = Some c
     \<and> length (fst (EventsForInstance (Some (fold apply_op (example_ops 0) c)) '''' (- Minute) 0 True '''')) = 2"
proof -
  obtain c where c: "example_created 0 = Some c" using example_exists by blast
  have new: "NewUsageRecentEventCache 0 0 (Some [event_row (example_event 0)])
      (Some [credentialHealthRowsFromUsageEvents [example_event 0]]) = Some c"
    using c by (simp only: example_created_def)
  have win: "rc_window c = 70 * Minute" 
  proof -
    have "rc_window (the (example_created 0)) = 70 * Minute" by code_simp
    with c show ?thesis by simp
  qed
  have ok: "clocks_ok 0 (example_ops 0)" and after: "clock_after 0 (example_ops 0) - rc_window c \<le> - Minute"
    by (simp_all add: example_ops_def win Minute_def Second_def)
  have spec: "spec_rows (rc_window c) (example_ops 0) ([event_row (example_event 0)], True) =
      ([event_row (example_event 0), event_row (example_event 0), event_row (example_event (- (71 * Minute)))], True)"
    by (simp add: example_ops_def)
  have "TrimSpace '''' = ''''" by code_simp
  then have asked: "asked_for '''' '''' r" for r by (simp add: asked_for_def)
  have times: "lr_Timestamp (event_row (example_event t)) = t" for t by (simp add: event_row_def example_event_def)
  from recent_reads_complete [OF new ok refl spec after, of "''''" 0 True "''''"] c show ?thesis
    by (simp add: asked times Minute_def Second_def)
qed

lemma credential_health_exact_witness:
  "\<exists>c s. example_created 0 = Some c
     \<and> CredentialHealth (Some (rc_credentialHealth (fold apply_op (example_ops 0) c))) ''oauth'' ''a'' 0 = Some s
     \<and> hs_InputTokens s = MaxInt64 \<and> hs_TotalSuccess s = 3"
proof -
  obtain c where c: "example_created 0 = Some c" using example_exists by blast
  have new: "NewUsageRecentEventCache 0 0 (Some [event_row (example_event 0)])
      (Some [credentialHealthRowsFromUsageEvents [example_event 0]]) = Some c"
    using c by (simp only: example_created_def)
  have ok: "clocks_ok 0 (example_ops 0)" and after: "clock_after 0 (example_ops 0) \<le> 0" by (simp_all add: example_ops_def)
  let ?rows = "filter (\<lambda>r. hr_AuthType r = ''oauth'' \<and> hr_AuthIndex r = ''a'')
    (concat [credentialHealthRowsFromUsageEvents [example_event 0]] @ ops_health_rows (example_ops 0))"
  have "min MaxInt64 (sum_list (map input_of (filter (in_window 0) ?rows))) = MaxInt64"
      "wrap64 (\<Sum>r\<leftarrow>filter (in_window 0) ?rows. if hr_Failed r then 0 else 1) = 3"
    by code_simp+
  with credential_health_exact [OF new ok refl after, of "''oauth''" "''a''"] c show ?thesis
    unfolding snapshot_exact_def Let_def by force
qed

end
