(* ===== verification/Recent_Queue.thy ===== *)
theory Recent_Queue
  imports Recent_Cache "HOL-Library.Word"
begin

text \<open>
  The append queue of the recent event cache: \<open>TryAppend\<close>, \<open>run\<close>, \<open>Close\<close> and \<open>DrainAcceptedAppends\<close> of
  \<open>src/internal/repository/usage_recent_event_cache.go\<close>, as steps of goroutines. A section under
  \<open>appendStateMu\<close> that uses no channel but the progress channel is one step; \<open>TryAppend\<close> uses the
  append channel and the stop signal under the lock, so it holds the lock over several steps.
  \<open>appendStateMu\<close> is its holder, progress channels are numbers, the watermarks are 64-bit words.
\<close>


section \<open>The queue\<close>

record appendQueue =
  aq_capacity :: nat
  aq_appendCh :: "usageEvent list list"
  aq_appendSlots :: nat
  aq_appendStateMu :: "nat option"
  aq_acceptedAppends :: "64 word"
  aq_completedAppends :: "64 word"
  aq_appendProgressCh :: "nat option"
  aq_closed :: "nat set"
  aq_fresh :: nat
  aq_stopCh :: bool
  aq_doneCh :: bool

text \<open>An unset or non-positive queue size is the default one; every slot is free.\<close>

definition new_queue :: "int \<Rightarrow> appendQueue" where
  "new_queue queueSize =
     (let n = nat (if queueSize \<le> 0 then usageRecentEventCacheDefaultQueueSize else queueSize)
      in \<lparr>aq_capacity = n, aq_appendCh = [], aq_appendSlots = n, aq_appendStateMu = None,
          aq_acceptedAppends = 0, aq_completedAppends = 0, aq_appendProgressCh = None, aq_closed = {}, aq_fresh = 0,
          aq_stopCh = False, aq_doneCh = False\<rparr>)"

text \<open>The two selects of \<open>acquireAppendSlot\<close> are two steps; this is the second one.\<close>

definition acquireAppendSlot :: "appendQueue \<Rightarrow> appendQueue \<times> bool" where
  "acquireAppendSlot q =
     (if 0 < aq_appendSlots q then (q\<lparr>aq_appendSlots := aq_appendSlots q - 1\<rparr>, True) else (q, False))"

definition releaseAppendSlot :: "appendQueue \<Rightarrow> appendQueue" where
  "releaseAppendSlot q =
     (if aq_appendSlots q < aq_capacity q then q\<lparr>aq_appendSlots := aq_appendSlots q + 1\<rparr> else q)"

definition lock_queue :: "nat \<Rightarrow> appendQueue \<Rightarrow> appendQueue" where
  "lock_queue t q = q\<lparr>aq_appendStateMu := Some t\<rparr>"

definition unlock_queue :: "appendQueue \<Rightarrow> appendQueue" where
  "unlock_queue q = q\<lparr>aq_appendStateMu := None\<rparr>"

definition send_append :: "usageEvent list \<Rightarrow> appendQueue \<Rightarrow> appendQueue" where
  "send_append batch q = q\<lparr>aq_appendCh := aq_appendCh q @ [batch]\<rparr>"

definition count_accepted :: "appendQueue \<Rightarrow> appendQueue" where
  "count_accepted q = q\<lparr>aq_acceptedAppends := aq_acceptedAppends q + 1\<rparr>"

text \<open>What the worker does under the lock after a batch.\<close>

definition count_completed :: "appendQueue \<Rightarrow> appendQueue" where
  "count_completed q =
     (let q = q\<lparr>aq_completedAppends := aq_completedAppends q + 1\<rparr>
      in case aq_appendProgressCh q of
           None \<Rightarrow> q
         | Some ch \<Rightarrow> q\<lparr>aq_closed := insert ch (aq_closed q), aq_appendProgressCh := None\<rparr>)"

text \<open>A round of the loop of \<open>DrainAcceptedAppends\<close>: done, or wait on a channel.\<close>

definition drain_round :: "64 word \<Rightarrow> appendQueue \<Rightarrow> appendQueue \<times> nat option" where
  "drain_round target q =
     (if target \<le> aq_completedAppends q then (q, None)
      else case aq_appendProgressCh q of
             Some ch \<Rightarrow> (q, Some ch)
           | None \<Rightarrow> (q\<lparr>aq_appendProgressCh := Some (aq_fresh q), aq_fresh := aq_fresh q + 1\<rparr>, Some (aq_fresh q)))"


section \<open>Goroutines\<close>

text \<open>
  Where a caller is: in \<open>TryAppend\<close> before its slot, with the slot, with the lock, past the stop check, and
  after the send; in \<open>Close\<close>; in \<open>DrainAcceptedAppends\<close> in its loop, waiting, making the last check
  after the worker has gone, and returning nil. The number beside a target is how many batches had
  been accepted when it was read.
\<close>

datatype qplace =
    QIdle
  | QWantSlot "usageEvent list"
  | QReserved "usageEvent list"
  | QLocked "usageEvent list"
  | QChecked "usageEvent list"
  | QSent
  | QClosing
  | QDraining "64 word" nat
  | QDrainWait nat "64 word" nat
  | QDrainLast "64 word" nat
  | QDrained nat

text \<open>Where the worker is: at its select, with a batch before and after it frees the slot, with the batch applied, and gone.\<close>

datatype wplace = WSelect | WGot "usageEvent list" | WApply "usageEvent list" | WApplied | WGone

text \<open>
  The operations on the cache so far are kept, and the batches sent to the channel so far.
\<close>

record qworld =
  qw_queue :: appendQueue
  qw_worker :: wplace
  qw_place :: "nat \<Rightarrow> qplace"
  qw_cache :: recentCache
  qw_ops :: "cacheOp list"
  qw_sent :: "usageEvent list list"

definition qat :: "qworld \<Rightarrow> nat \<Rightarrow> appendQueue \<Rightarrow> qplace \<Rightarrow> qworld" where
  "qat w t q p = w\<lparr>qw_queue := q, qw_place := (qw_place w)(t := p)\<rparr>"

definition wat :: "qworld \<Rightarrow> appendQueue \<Rightarrow> wplace \<Rightarrow> qworld" where
  "wat w q p = w\<lparr>qw_queue := q, qw_worker := p\<rparr>"

definition cache_op :: "cacheOp \<Rightarrow> qworld \<Rightarrow> qworld" where
  "cache_op op w = w\<lparr>qw_cache := apply_op op (qw_cache w), qw_ops := qw_ops w @ [op]\<rparr>"

definition note_sent :: "usageEvent list \<Rightarrow> qworld \<Rightarrow> qworld" where
  "note_sent batch w = w\<lparr>qw_sent := qw_sent w @ [batch]\<rparr>"

abbreviation queue_free :: "qworld \<Rightarrow> bool" where
  "queue_free w \<equiv> aq_appendStateMu (qw_queue w) = None"

text \<open>The calls of \<open>TryAppend\<close>.\<close>

inductive append_step :: "qworld \<Rightarrow> qworld \<Rightarrow> bool" where
  call_append: "qw_place w t = QIdle \<Longrightarrow> batch \<noteq> [] \<Longrightarrow> \<not> aq_stopCh (qw_queue w) \<Longrightarrow>
    append_step w (qat w t (qw_queue w) (QWantSlot batch))"
| take_slot: "qw_place w t = QWantSlot batch \<Longrightarrow> acquireAppendSlot (qw_queue w) = (q, ok) \<Longrightarrow>
    append_step w (qat w t q (if ok then QReserved batch else QIdle))"
| take_lock: "qw_place w t = QReserved batch \<Longrightarrow> queue_free w \<Longrightarrow>
    append_step w (qat w t (lock_queue t (qw_queue w)) (QLocked batch))"
| seen_stopped: "qw_place w t = QLocked batch \<Longrightarrow> aq_stopCh (qw_queue w) \<Longrightarrow>
    append_step w (qat w t (unlock_queue (releaseAppendSlot (qw_queue w))) QIdle)"
| seen_running: "qw_place w t = QLocked batch \<Longrightarrow> \<not> aq_stopCh (qw_queue w) \<Longrightarrow>
    append_step w (qat w t (qw_queue w) (QChecked batch))"
| send: "qw_place w t = QChecked batch \<Longrightarrow> length (aq_appendCh (qw_queue w)) < aq_capacity (qw_queue w) \<Longrightarrow>
    append_step w (note_sent batch (qat w t (send_append batch (qw_queue w)) QSent))"
| stop_wins: "qw_place w t = QChecked batch \<Longrightarrow> aq_stopCh (qw_queue w) \<Longrightarrow>
    append_step w (qat w t (unlock_queue (releaseAppendSlot (qw_queue w))) QIdle)"
| no_room: "qw_place w t = QChecked batch \<Longrightarrow> \<not> length (aq_appendCh (qw_queue w)) < aq_capacity (qw_queue w) \<Longrightarrow>
    \<not> aq_stopCh (qw_queue w) \<Longrightarrow> append_step w (qat w t (unlock_queue (releaseAppendSlot (qw_queue w))) QIdle)"
| sent: "qw_place w t = QSent \<Longrightarrow> append_step w (qat w t (unlock_queue (count_accepted (qw_queue w))) QIdle)"

text \<open>The loop of \<open>run\<close>. \<open>Close\<close> closes the stop channel and waits for the end of the worker.\<close>

inductive worker_step :: "qworld \<Rightarrow> qworld \<Rightarrow> bool" where
  receive: "qw_worker w = WSelect \<Longrightarrow> aq_appendCh (qw_queue w) = batch # rest \<Longrightarrow>
    worker_step w (wat w ((qw_queue w)\<lparr>aq_appendCh := rest\<rparr>) (WGot batch))"
| free_slot: "qw_worker w = WGot batch \<Longrightarrow> worker_step w (wat w (releaseAppendSlot (qw_queue w)) (WApply batch))"
| apply_batch: "qw_worker w = WApply batch \<Longrightarrow> worker_step w (cache_op (Append now batch) (wat w (qw_queue w) WApplied))"
| complete: "qw_worker w = WApplied \<Longrightarrow> queue_free w \<Longrightarrow> worker_step w (wat w (count_completed (qw_queue w)) WSelect)"
| quit: "qw_worker w = WSelect \<Longrightarrow> aq_stopCh (qw_queue w) \<Longrightarrow>
    worker_step w (wat w ((qw_queue w)\<lparr>aq_doneCh := True\<rparr>) WGone)"

inductive close_step :: "qworld \<Rightarrow> qworld \<Rightarrow> bool" where
  call_close: "qw_place w t = QIdle \<Longrightarrow> close_step w (qat w t ((qw_queue w)\<lparr>aq_stopCh := True\<rparr>) QClosing)"
| closed: "qw_place w t = QClosing \<Longrightarrow> aq_doneCh (qw_queue w) \<Longrightarrow> close_step w (qat w t (qw_queue w) QIdle)"

text \<open>The calls of \<open>DrainAcceptedAppends\<close>; a failure returns to \<open>QIdle\<close> at once.\<close>

inductive drain_step :: "qworld \<Rightarrow> qworld \<Rightarrow> bool" where
  call_drain: "qw_place w t = QIdle \<Longrightarrow> queue_free w \<Longrightarrow>
    drain_step w (qat w t (qw_queue w) (QDraining (aq_acceptedAppends (qw_queue w)) (length (qw_sent w))))"
| drain_loop: "qw_place w t = QDraining target n \<Longrightarrow> queue_free w \<Longrightarrow> drain_round target (qw_queue w) = (q, wait) \<Longrightarrow>
    drain_step w (qat w t q (case wait of None \<Rightarrow> QDrained n | Some ch \<Rightarrow> QDrainWait ch target n))"
| drain_woken: "qw_place w t = QDrainWait ch target n \<Longrightarrow> ch \<in> aq_closed (qw_queue w) \<Longrightarrow>
    drain_step w (qat w t (qw_queue w) (QDraining target n))"
| drain_closed: "qw_place w t = QDrainWait ch target n \<Longrightarrow> aq_doneCh (qw_queue w) \<Longrightarrow>
    drain_step w (qat w t (qw_queue w) (QDrainLast target n))"
| drain_cancelled: "qw_place w t = QDrainWait ch target n \<Longrightarrow> drain_step w (qat w t (qw_queue w) QIdle)"
| drain_last: "qw_place w t = QDrainLast target n \<Longrightarrow> queue_free w \<Longrightarrow>
    drain_step w (qat w t (qw_queue w) (if target \<le> aq_completedAppends (qw_queue w) then QDrained n else QIdle))"
| drain_return: "qw_place w t = QDrained n \<Longrightarrow> drain_step w (qat w t (qw_queue w) QIdle)"

text \<open>A reload may come at any time; what it does is under the lock of the cache.\<close>

definition qstep :: "qworld \<Rightarrow> qworld \<Rightarrow> bool" where
  "qstep w w' \<longleftrightarrow> append_step w w' \<or> worker_step w w' \<or> close_step w w' \<or> drain_step w w' \<or> (\<exists>run. w' = cache_op (Reload run) w)"

definition qstart :: "int \<Rightarrow> recentCache \<Rightarrow> qworld" where
  "qstart queueSize c =
     \<lparr>qw_queue = new_queue queueSize, qw_worker = WSelect, qw_place = (\<lambda>_. QIdle), qw_cache = c, qw_ops = [], qw_sent = []\<rparr>"

section \<open>Invariant\<close>

lemma qat_simps [simp]:
  "qw_queue (qat w t q p) = q" "qw_place (qat w t q p) = (qw_place w)(t := p)" "qw_worker (qat w t q p) = qw_worker w"
  "qw_cache (qat w t q p) = qw_cache w" "qw_ops (qat w t q p) = qw_ops w" "qw_sent (qat w t q p) = qw_sent w"
  by (simp_all add: qat_def)

lemma wat_simps [simp]:
  "qw_queue (wat w q p') = q" "qw_place (wat w q p') = qw_place w" "qw_worker (wat w q p') = p'"
  "qw_cache (wat w q p') = qw_cache w" "qw_ops (wat w q p') = qw_ops w" "qw_sent (wat w q p') = qw_sent w"
  by (simp_all add: wat_def)

lemma world_simps [simp]:
  "qw_queue (cache_op op w) = qw_queue w" "qw_place (cache_op op w) = qw_place w" "qw_worker (cache_op op w) = qw_worker w"
  "qw_cache (cache_op op w) = apply_op op (qw_cache w)" "qw_ops (cache_op op w) = qw_ops w @ [op]" "qw_sent (cache_op op w) = qw_sent w"
  "qw_queue (note_sent b w) = qw_queue w" "qw_place (note_sent b w) = qw_place w" "qw_worker (note_sent b w) = qw_worker w"
  "qw_cache (note_sent b w) = qw_cache w" "qw_ops (note_sent b w) = qw_ops w" "qw_sent (note_sent b w) = qw_sent w @ [b]"
  by (simp_all add: cache_op_def note_sent_def)

text \<open>Who has a slot, and who has the lock.\<close>

fun has_slot :: "qplace \<Rightarrow> bool" where
  "has_slot (QReserved _) = True"
| "has_slot (QLocked _) = True"
| "has_slot (QChecked _) = True"
| "has_slot _ = False"

fun has_lock :: "qplace \<Rightarrow> bool" where
  "has_lock (QLocked _) = True"
| "has_lock (QChecked _) = True"
| "has_lock QSent = True"
| "has_lock _ = False"

definition slot_holders :: "qworld \<Rightarrow> nat set" where
  "slot_holders w = {t. has_slot (qw_place w t)}"

fun worker_slots :: "wplace \<Rightarrow> nat" where
  "worker_slots (WGot _) = 1"
| "worker_slots _ = 0"

fun worker_batches :: "wplace \<Rightarrow> usageEvent list list" where
  "worker_batches (WGot b) = [b]"
| "worker_batches (WApply b) = [b]"
| "worker_batches _ = []"

text \<open>The batches a run of the cache has appended.\<close>

definition batches :: "cacheOp list \<Rightarrow> usageEvent list list" where
  "batches ops = concat (map (\<lambda>op. case op of Append _ b \<Rightarrow> [b] | Reload _ \<Rightarrow> []) ops)"

lemma batches_simps [simp]: "batches [] = []" "batches (ops @ ops') = batches ops @ batches ops'"
  "batches [Append now b] = [b]" "batches [Reload run] = []"
  by (simp_all add: batches_def)

definition slots_ok :: "qworld \<Rightarrow> bool" where
  "slots_ok w \<longleftrightarrow> finite (slot_holders w)
     \<and> aq_appendSlots (qw_queue w) + length (aq_appendCh (qw_queue w)) + card (slot_holders w) + worker_slots (qw_worker w)
         = aq_capacity (qw_queue w)"

definition lock_ok :: "qworld \<Rightarrow> bool" where
  "lock_ok w \<longleftrightarrow> (\<forall>t. has_lock (qw_place w t) \<longleftrightarrow> aq_appendStateMu (qw_queue w) = Some t)"

definition order_ok :: "qworld \<Rightarrow> bool" where
  "order_ok w \<longleftrightarrow> qw_sent w = batches (qw_ops w) @ worker_batches (qw_worker w) @ aq_appendCh (qw_queue w)"

definition uncounted :: "qworld \<Rightarrow> 64 word" where
  "uncounted w = (case aq_appendStateMu (qw_queue w) of None \<Rightarrow> 0 | Some t \<Rightarrow> if qw_place w t = QSent then 1 else 0)"

definition marks_ok :: "qworld \<Rightarrow> bool" where
  "marks_ok w \<longleftrightarrow> aq_acceptedAppends (qw_queue w) + uncounted w = of_nat (length (qw_sent w))
     \<and> aq_completedAppends (qw_queue w) + (if qw_worker w = WApplied then 1 else 0) = of_nat (length (batches (qw_ops w)))
     \<and> (qw_worker w = WApplied \<longrightarrow> batches (qw_ops w) \<noteq> [])"

definition done_ok :: "qworld \<Rightarrow> bool" where
  "done_ok w \<longleftrightarrow> (aq_doneCh (qw_queue w) \<longleftrightarrow> qw_worker w = WGone) \<and> (qw_worker w = WGone \<longrightarrow> aq_stopCh (qw_queue w))"

definition target_ok :: "qworld \<Rightarrow> 64 word \<Rightarrow> nat \<Rightarrow> bool" where
  "target_ok w target n \<longleftrightarrow> target = of_nat n \<and> n \<le> length (qw_sent w)"

fun drain_ok :: "qworld \<Rightarrow> qplace \<Rightarrow> bool" where
  "drain_ok w (QDraining target n) = target_ok w target n"
| "drain_ok w (QDrainWait ch target n) = (target_ok w target n
     \<and> (ch \<in> aq_closed (qw_queue w) \<or> aq_appendProgressCh (qw_queue w) = Some ch \<and> \<not> target \<le> aq_completedAppends (qw_queue w)))"
| "drain_ok w (QDrainLast target n) = target_ok w target n"
| "drain_ok w (QDrained n) = (length (qw_sent w) < 2 ^ 64 \<longrightarrow> n \<le> length (batches (qw_ops w)))"
| "drain_ok w _ = True"

definition drains_ok :: "qworld \<Rightarrow> bool" where
  "drains_ok w \<longleftrightarrow> (\<forall>t. drain_ok w (qw_place w t))"

definition qinv :: "qworld \<Rightarrow> bool" where
  "qinv w \<longleftrightarrow> slots_ok w \<and> lock_ok w \<and> order_ok w \<and> marks_ok w \<and> done_ok w \<and> drains_ok w"

lemmas queue_defs = lock_queue_def unlock_queue_def send_append_def count_accepted_def releaseAppendSlot_def acquireAppendSlot_def

lemma slot_holders_simps [simp]:
  "slot_holders (qat w t q p) = (if has_slot p then insert t (slot_holders w) else slot_holders w - {t})"
  "slot_holders (wat w q p') = slot_holders w" "slot_holders (cache_op op w) = slot_holders w"
  "slot_holders (note_sent b w) = slot_holders w"
  by (auto simp: slot_holders_def)

lemma slot_holder_iff: "t \<in> slot_holders w \<longleftrightarrow> has_slot (qw_place w t)"
  by (simp add: slot_holders_def)

lemma slots_qat:
  assumes "slots_ok w" and "aq_capacity q = aq_capacity (qw_queue w)"
    and "aq_appendSlots q + length (aq_appendCh q) + (if has_slot p then 1 else 0) =
      aq_appendSlots (qw_queue w) + length (aq_appendCh (qw_queue w)) + (if has_slot (qw_place w t) then 1 else 0)"
  shows "slots_ok (qat w t q p)"
proof -
  let ?H = "slot_holders w"
  have fin: "finite ?H" using assms(1) by (simp add: slots_ok_def)
  have "card (if has_slot p then insert t ?H else ?H - {t}) + (if has_slot (qw_place w t) then 1 else 0) =
      card ?H + (if has_slot p then 1 else 0)"
  proof (cases "has_slot (qw_place w t)")
    case True
    then have "t \<in> ?H" by (simp add: slot_holder_iff)
    with True card_Suc_Diff1 [OF fin this] show ?thesis by (simp add: insert_absorb)
  next
    case False
    then have "t \<notin> ?H" by (simp add: slot_holder_iff)
    with False fin show ?thesis by simp
  qed
  with assms fin show ?thesis by (auto simp: slots_ok_def split: if_splits)
qed

text \<open>Whoever has a slot finds room in the channel, and a slot that is released has been missing.\<close>

lemma slots_room:
  assumes "slots_ok w" and "has_slot (qw_place w t)"
  shows "aq_appendSlots (qw_queue w) + length (aq_appendCh (qw_queue w)) < aq_capacity (qw_queue w)"
proof -
  have "0 < card (slot_holders w)" using assms by (auto simp: slots_ok_def slot_holder_iff card_gt_0_iff)
  with assms(1) show ?thesis unfolding slots_ok_def by linarith
qed

lemma slots_ignore [simp]: "slots_ok (note_sent b w) = slots_ok w" "slots_ok (cache_op op w) = slots_ok w"
  by (simp_all add: slots_ok_def)

lemma slots_append:
  assumes "append_step w w'" and ok: "slots_ok w"
  shows "slots_ok w'"
  using assms(1)
proof cases
  case (seen_stopped t batch)
  then show ?thesis using slots_room [OF ok, of t] by (auto simp: queue_defs intro!: slots_qat [OF ok])
next
  case (stop_wins t batch)
  then show ?thesis using slots_room [OF ok, of t] by (auto simp: queue_defs intro!: slots_qat [OF ok])
next
  case (no_room t batch)
  then show ?thesis using slots_room [OF ok, of t] by (auto simp: queue_defs intro!: slots_qat [OF ok])
qed (auto simp: queue_defs intro!: slots_qat [OF ok] split: if_splits)

lemma slots_worker: "worker_step w w' \<Longrightarrow> slots_ok w \<Longrightarrow> slots_ok w'"
  by (induction rule: worker_step.induct) (auto simp: slots_ok_def queue_defs count_completed_def Let_def split: option.splits)

lemma slots_close: "close_step w w' \<Longrightarrow> slots_ok w \<Longrightarrow> slots_ok w'"
  by (induction rule: close_step.induct) (auto intro!: slots_qat)

lemma slots_drain: "drain_step w w' \<Longrightarrow> slots_ok w \<Longrightarrow> slots_ok w'"
  by (induction rule: drain_step.induct) (auto intro!: slots_qat simp: drain_round_def split: option.splits if_splits)

text \<open>The lock.\<close>

lemma lock_ignore [simp]: "lock_ok (note_sent b w) = lock_ok w" "lock_ok (cache_op op w) = lock_ok w"
  by (simp_all add: lock_ok_def)

lemma lock_append: "append_step w w' \<Longrightarrow> lock_ok w \<Longrightarrow> lock_ok w'"
  by (induction rule: append_step.induct) (force simp: lock_ok_def queue_defs split: if_splits)+

lemma lock_worker: "worker_step w w' \<Longrightarrow> lock_ok w \<Longrightarrow> lock_ok w'"
  by (induction rule: worker_step.induct) (auto simp: lock_ok_def queue_defs count_completed_def Let_def split: option.splits)

lemma lock_close: "close_step w w' \<Longrightarrow> lock_ok w \<Longrightarrow> lock_ok w'"
  by (induction rule: close_step.induct) (force simp: lock_ok_def)+

lemma lock_drain: "drain_step w w' \<Longrightarrow> lock_ok w \<Longrightarrow> lock_ok w'"
  by (induction rule: drain_step.induct) (force simp: lock_ok_def drain_round_def split: option.splits if_splits)+

text \<open>The order of the batches.\<close>

lemma order_append: "append_step w w' \<Longrightarrow> order_ok w \<Longrightarrow> order_ok w'"
  by (induction rule: append_step.induct) (auto simp: order_ok_def queue_defs split: if_splits)

lemma order_worker: "worker_step w w' \<Longrightarrow> order_ok w \<Longrightarrow> order_ok w'"
  by (induction rule: worker_step.induct) (auto simp: order_ok_def queue_defs count_completed_def Let_def split: option.splits)

lemma order_close: "close_step w w' \<Longrightarrow> order_ok w \<Longrightarrow> order_ok w'"
  by (induction rule: close_step.induct) (auto simp: order_ok_def)

lemma order_drain: "drain_step w w' \<Longrightarrow> order_ok w \<Longrightarrow> order_ok w'"
  by (induction rule: drain_step.induct) (auto simp: order_ok_def drain_round_def split: option.splits if_splits)

text \<open>The watermarks.\<close>

lemma uncounted_qat:
  assumes "lock_ok w" and "\<not> has_lock (qw_place w t)" and "aq_appendStateMu q = aq_appendStateMu (qw_queue w)"
  shows "uncounted (qat w t q p) = uncounted w"
  using assms by (auto simp: uncounted_def lock_ok_def split: option.split)

lemma marks_qat:
  assumes "lock_ok w" and "marks_ok w" and "\<not> has_lock (qw_place w t)" and "aq_appendStateMu q = aq_appendStateMu (qw_queue w)"
    and "aq_acceptedAppends q = aq_acceptedAppends (qw_queue w)" and "aq_completedAppends q = aq_completedAppends (qw_queue w)"
  shows "marks_ok (qat w t q p)"
  using assms(2,5,6) uncounted_qat [OF assms(1,3,4)] by (simp add: marks_ok_def)

lemma lock_held: "lock_ok w \<Longrightarrow> has_lock (qw_place w t) \<Longrightarrow> aq_appendStateMu (qw_queue w) = Some t"
  by (simp add: lock_ok_def)

lemma uncounted_simps [simp]:
  "aq_appendStateMu q = None \<Longrightarrow> uncounted (qat w t q p) = 0"
  "aq_appendStateMu q = Some t \<Longrightarrow> uncounted (qat w t q p) = (if p = QSent then 1 else 0)"
  "uncounted (note_sent b w) = uncounted w"
  by (simp_all add: uncounted_def cong: option.case_cong)

lemma uncounted_held: "lock_ok w \<Longrightarrow> has_lock (qw_place w t) \<Longrightarrow> uncounted w = (if qw_place w t = QSent then 1 else 0)"
  using lock_held [of w t] by (simp add: uncounted_def)

lemma marks_append:
  assumes "append_step w w'" and ok: "lock_ok w" "marks_ok w"
  shows "marks_ok w'"
  using assms(1)
proof cases
  case (take_slot t batch q ok')
  then show ?thesis using ok by (auto simp: queue_defs intro!: marks_qat split: if_splits)
next
  case (take_lock t batch)
  then show ?thesis using ok by (auto simp: marks_ok_def uncounted_def queue_defs)
next
  case (call_append t batch)
  then show ?thesis using ok by (auto intro!: marks_qat)
next
  case (seen_stopped t batch)
  then show ?thesis using ok uncounted_held [OF ok(1), of t] by (auto simp: marks_ok_def queue_defs)
next
  case (seen_running t batch)
  then show ?thesis using ok lock_held [OF ok(1), of t] uncounted_held [OF ok(1), of t] by (auto simp: marks_ok_def)
next
  case (send t batch)
  then show ?thesis using ok lock_held [OF ok(1), of t] uncounted_held [OF ok(1), of t] by (auto simp: marks_ok_def queue_defs)
next
  case (stop_wins t batch)
  then show ?thesis using ok uncounted_held [OF ok(1), of t] by (auto simp: marks_ok_def queue_defs)
next
  case (no_room t batch)
  then show ?thesis using ok uncounted_held [OF ok(1), of t] by (auto simp: marks_ok_def queue_defs)
next
  case (sent t)
  then show ?thesis using ok uncounted_held [OF ok(1), of t] by (auto simp: marks_ok_def queue_defs)
qed

lemma marks_worker: "worker_step w w' \<Longrightarrow> marks_ok w \<Longrightarrow> marks_ok w'"
  by (induction rule: worker_step.induct)
    (auto simp: marks_ok_def uncounted_def queue_defs count_completed_def Let_def algebra_simps split: option.splits)

lemma marks_close: "close_step w w' \<Longrightarrow> lock_ok w \<Longrightarrow> marks_ok w \<Longrightarrow> marks_ok w'"
  by (induction rule: close_step.induct) (auto intro!: marks_qat)

lemma marks_drain: "drain_step w w' \<Longrightarrow> lock_ok w \<Longrightarrow> marks_ok w \<Longrightarrow> marks_ok w'"
  by (induction rule: drain_step.induct) (auto intro!: marks_qat simp: drain_round_def split: option.splits if_splits)

text \<open>The end of the worker.\<close>

lemma done_append: "append_step w w' \<Longrightarrow> done_ok w \<Longrightarrow> done_ok w'"
  by (induction rule: append_step.induct) (auto simp: done_ok_def queue_defs split: if_splits)

lemma done_worker: "worker_step w w' \<Longrightarrow> done_ok w \<Longrightarrow> done_ok w'"
  by (induction rule: worker_step.induct) (auto simp: done_ok_def queue_defs count_completed_def Let_def split: option.splits)

lemma done_close: "close_step w w' \<Longrightarrow> done_ok w \<Longrightarrow> done_ok w'"
  by (induction rule: close_step.induct) (auto simp: done_ok_def)

lemma done_drain: "drain_step w w' \<Longrightarrow> done_ok w \<Longrightarrow> done_ok w'"
  by (induction rule: drain_step.induct) (auto simp: done_ok_def drain_round_def split: option.splits if_splits)

text \<open>The places of the drains. What other goroutines do keeps them.\<close>

definition drain_keeps :: "qworld \<Rightarrow> qworld \<Rightarrow> bool" where
  "drain_keeps w w' \<longleftrightarrow> length (qw_sent w) \<le> length (qw_sent w') \<and> length (batches (qw_ops w)) \<le> length (batches (qw_ops w'))
     \<and> aq_closed (qw_queue w) \<subseteq> aq_closed (qw_queue w')
     \<and> (\<forall>ch. aq_appendProgressCh (qw_queue w) = Some ch \<longrightarrow> ch \<in> aq_closed (qw_queue w')
          \<or> aq_appendProgressCh (qw_queue w') = Some ch \<and> aq_completedAppends (qw_queue w') = aq_completedAppends (qw_queue w))"

lemma drain_ok_keeps: "drain_keeps w w' \<Longrightarrow> drain_ok w p \<Longrightarrow> drain_ok w' p"
  by (cases p) (auto simp: drain_keeps_def target_ok_def)

lemma drains_keep:
  assumes "drains_ok w" and "drain_keeps w w'" and "\<And>u. u \<noteq> t \<Longrightarrow> qw_place w' u = qw_place w u" and "drain_ok w' (qw_place w' t)"
  shows "drains_ok w'"
  unfolding drains_ok_def
proof
  fix u
  show "drain_ok w' (qw_place w' u)"
    by (cases "u = t") (use assms drain_ok_keeps [OF assms(2)] in \<open>auto simp: drains_ok_def\<close>)
qed

lemma drains_append: "append_step w w' \<Longrightarrow> drains_ok w \<Longrightarrow> drains_ok w'"
  by (induction rule: append_step.induct)
    (rule drains_keep, assumption, auto simp: drain_keeps_def queue_defs split: if_splits)+

lemma drains_worker:
  assumes "worker_step w w'" and "drains_ok w"
  shows "drains_ok w'"
proof -
  have "drain_keeps w w'" and "qw_place w' = qw_place w"
    using assms(1) by (induction rule: worker_step.induct)
      (auto simp: drain_keeps_def queue_defs count_completed_def Let_def split: option.splits)
  with assms(2) show ?thesis using drain_ok_keeps by (simp add: drains_ok_def)
qed

lemma drains_close: "close_step w w' \<Longrightarrow> drains_ok w \<Longrightarrow> drains_ok w'"
  by (induction rule: close_step.induct) (rule drains_keep, assumption, auto simp: drain_keeps_def)+

lemma completed_reached:
  assumes "order_ok w" and "marks_ok w" and "target_ok w target n" and "target \<le> aq_completedAppends (qw_queue w)"
    and "length (qw_sent w) < 2 ^ 64"
  shows "n \<le> length (batches (qw_ops w))"
proof -
  let ?k = "length (batches (qw_ops w))"
  have k: "?k \<le> length (qw_sent w)" using assms(1) by (simp add: order_ok_def)
  obtain j where j: "aq_completedAppends (qw_queue w) = of_nat j" "j \<le> ?k"
  proof (cases "qw_worker w = WApplied")
    case True
    then have "?k = Suc (?k - 1)" using assms(2) by (simp add: marks_ok_def)
    then have "of_nat ?k = of_nat (?k - 1) + (1 :: 64 word)" by (metis of_nat_Suc add.commute)
    moreover have "aq_completedAppends (qw_queue w) + 1 = of_nat ?k" using assms(2) True by (simp add: marks_ok_def)
    ultimately have "aq_completedAppends (qw_queue w) = of_nat (?k - 1)" by simp
    with that show ?thesis by simp
  next
    case False
    with assms(2) that show ?thesis by (simp add: marks_ok_def)
  qed
  have "unat (of_nat n :: 64 word) = n" "unat (of_nat j :: 64 word) = j"
    using assms(3,5) j(2) k by (simp_all add: target_ok_def unsigned_of_nat take_bit_nat_eq_self)
  with assms(3,4) j show ?thesis by (simp add: target_ok_def word_le_nat_alt)
qed

lemma drains_drain:
  assumes "drain_step w w'" and ok: "drains_ok w" "order_ok w" "marks_ok w"
  shows "drains_ok w'"
proof -
  have here: "drain_ok w (qw_place w t)" for t using ok(1) by (simp add: drains_ok_def)
  have reached: "drain_ok w (QDrained n)" if "target_ok w target n" "target \<le> aq_completedAppends (qw_queue w)" for target n
    using completed_reached [OF ok(2,3) that] by simp
  have "drain_keeps w (qat w t (qw_queue w) p)" for t p by (simp add: drain_keeps_def)
  note stay = drains_keep [OF ok(1) this] drain_ok_keeps [OF this]
  have word: "aq_acceptedAppends (qw_queue w) = of_nat (length (qw_sent w))" if "queue_free w"
    using ok(3) that by (simp add: marks_ok_def uncounted_def)
  from assms(1) show ?thesis
  proof cases
    case (call_drain t)
    with word show ?thesis by (auto intro!: stay(1) [of t] simp: target_ok_def)
  next
    case (drain_loop t target n q wait)
    show ?thesis
    proof (cases "target \<le> aq_completedAppends (qw_queue w)")
      case True
      with drain_loop here [of t] show ?thesis
        by (auto simp: drain_round_def intro!: stay(1) [of t] stay(2) reached simp del: drain_ok.simps(4))
    next
      case False
      have "drain_keeps w w'" using drain_loop False by (auto simp: drain_keeps_def drain_round_def split: option.splits)
      moreover have "drain_ok w' (qw_place w' t)"
        using drain_loop False here [of t] by (auto simp: drain_round_def target_ok_def split: option.splits)
      ultimately show ?thesis using drain_loop by (auto intro: drains_keep [OF ok(1), where t = t])
    qed
  next
    case (drain_last t target n)
    with here [of t] show ?thesis
      by (auto intro!: stay(1) [of t] stay(2) reached simp del: drain_ok.simps(4))
  next
    case (drain_woken t ch target n)
    with here [of t] show ?thesis by (auto intro!: stay(1) [of t] simp: target_ok_def)
  next
    case (drain_closed t ch target n)
    with here [of t] show ?thesis by (auto intro!: stay(1) [of t] simp: target_ok_def)
  qed (auto intro!: stay(1))
qed

lemma qinv_step:
  assumes "qstep w w'" and "qinv w"
  shows "qinv w'"
proof -
  have reload: "qinv (cache_op (Reload run) w)" for run
  proof -
    have "uncounted (cache_op (Reload run) w) = uncounted w" by (simp add: uncounted_def cong: option.case_cong)
    moreover have "drain_keeps w (cache_op (Reload run) w)" by (simp add: drain_keeps_def)
    ultimately show ?thesis using assms(2) drain_ok_keeps
      by (simp add: qinv_def order_ok_def marks_ok_def done_ok_def drains_ok_def)
  qed
  from assms(1) show ?thesis unfolding qstep_def
  proof (elim disjE exE)
    assume s: "append_step w w'"
    from slots_append [OF s] lock_append [OF s] order_append [OF s] marks_append [OF s] done_append [OF s] drains_append [OF s] assms(2)
    show ?thesis by (simp add: qinv_def)
  next
    assume s: "worker_step w w'"
    from slots_worker [OF s] lock_worker [OF s] order_worker [OF s] marks_worker [OF s] done_worker [OF s] drains_worker [OF s] assms(2)
    show ?thesis by (simp add: qinv_def)
  next
    assume s: "close_step w w'"
    from slots_close [OF s] lock_close [OF s] order_close [OF s] marks_close [OF s] done_close [OF s] drains_close [OF s] assms(2)
    show ?thesis by (simp add: qinv_def)
  next
    assume s: "drain_step w w'"
    from slots_drain [OF s] lock_drain [OF s] order_drain [OF s] marks_drain [OF s] done_drain [OF s] drains_drain [OF s] assms(2)
    show ?thesis by (simp add: qinv_def)
  qed (simp add: reload)
qed

lemma qinv_start: "qinv (qstart queueSize c)"
  by (simp add: qinv_def qstart_def new_queue_def Let_def slots_ok_def slot_holders_def lock_ok_def order_ok_def marks_ok_def
      uncounted_def done_ok_def drains_ok_def)

lemma qinv_reached: "qstep\<^sup>*\<^sup>* (qstart queueSize c) w \<Longrightarrow> qinv w"
  by (induction rule: rtranclp_induct) (auto intro: qinv_start qinv_step)

text \<open>The cache is what the operations so far made of it.\<close>

lemma cache_step: "qstep w w' \<Longrightarrow> qw_cache w = fold apply_op (qw_ops w) c \<Longrightarrow> qw_cache w' = fold apply_op (qw_ops w') c"
  unfolding qstep_def
  by (elim disjE exE append_step.cases worker_step.cases close_step.cases drain_step.cases) simp_all

lemma cache_reached: "qstep\<^sup>*\<^sup>* (qstart queueSize c) w \<Longrightarrow> qw_cache w = fold apply_op (qw_ops w) c"
  by (induction rule: rtranclp_induct) (auto intro: cache_step simp: qstart_def)

section \<open>Progress\<close>

text \<open>
  A call of \<open>DrainAcceptedAppends\<close> goes on as long as the cache is not closed and the call is not
  given up. Its going on needs no close and no reload, only callers of \<open>TryAppend\<close>, the worker
  and the drains.
\<close>

definition going :: "nat \<Rightarrow> qworld \<Rightarrow> bool" where
  "going t w \<longleftrightarrow> \<not> aq_stopCh (qw_queue w) \<and> qw_place w t \<noteq> QIdle"

definition goes_on :: "nat \<Rightarrow> qworld \<Rightarrow> qworld \<Rightarrow> bool" where
  "goes_on t w w' \<longleftrightarrow> (append_step w w' \<or> worker_step w w' \<or> drain_step w w') \<and> going t w'"

lemma goes_on_qsteps: "(goes_on t)\<^sup>*\<^sup>* w w' \<Longrightarrow> qstep\<^sup>*\<^sup>* w w'"
  by (induction rule: rtranclp_induct) (auto simp: goes_on_def qstep_def intro: rtranclp.rtrancl_into_rtrancl)

text \<open>A step of the lock's holder leaves everybody else, the worker and the watermarks' waiters alone.\<close>

definition undisturbed :: "nat \<Rightarrow> qworld \<Rightarrow> qworld \<Rightarrow> bool" where
  "undisturbed t w w' \<longleftrightarrow> (going t w \<longrightarrow> (goes_on t)\<^sup>*\<^sup>* w w') \<and> qw_place w' t = qw_place w t \<and> aq_stopCh (qw_queue w') = aq_stopCh (qw_queue w)
     \<and> length (qw_sent w') \<le> Suc (length (qw_sent w))"

lemma append_undisturbed:
  "append_step w w' \<Longrightarrow> qw_place w' t = qw_place w t \<Longrightarrow> aq_stopCh (qw_queue w') = aq_stopCh (qw_queue w) \<Longrightarrow>
   length (qw_sent w') \<le> Suc (length (qw_sent w)) \<Longrightarrow> undisturbed t w w'"
  by (auto simp: undisturbed_def goes_on_def going_def)

lemma free_sent:
  assumes "qw_place w u = QSent" and "u \<noteq> t"
  shows "\<exists>w'. undisturbed t w w' \<and> queue_free w' \<and> qw_sent w' = qw_sent w"
  using append_step.sent [OF assms(1)] assms(2) by (intro exI [of _ "qat w u (unlock_queue (count_accepted (qw_queue w))) QIdle"])
    (auto intro!: append_undisturbed simp: queue_defs)

lemma free_checked:
  assumes "slots_ok w" and "qw_place w u = QChecked b" and "u \<noteq> t"
  shows "\<exists>w'. undisturbed t w w' \<and> queue_free w'"
proof -
  let ?v = "note_sent b (qat w u (send_append b (qw_queue w)) QSent)"
  have step: "append_step w ?v" using slots_room [OF assms(1), of u] assms(2) by (intro append_step.send) auto
  have "qw_place ?v u = QSent" by simp
  from free_sent [OF this assms(3)] obtain w' where w': "undisturbed t ?v w'" "queue_free w'" "qw_sent w' = qw_sent ?v" by blast
  have "going t w \<Longrightarrow> goes_on t w ?v \<and> going t ?v" using step assms(3) by (auto simp: goes_on_def going_def queue_defs)
  with w'(1,3) assms(3) have "undisturbed t w w'"
    by (auto simp: undisturbed_def queue_defs intro: converse_rtranclp_into_rtranclp)
  with w'(2) show ?thesis by blast
qed

lemma free_lock:
  assumes "qinv w" and "\<not> has_lock (qw_place w t)"
  shows "\<exists>w'. undisturbed t w w' \<and> queue_free w'"
proof (cases "aq_appendStateMu (qw_queue w)")
  case None
  have "undisturbed t w w" by (simp add: undisturbed_def)
  with None show ?thesis by blast
next
  case (Some u)
  have slots: "slots_ok w" and "lock_ok w" using assms(1) by (simp_all add: qinv_def)
  with Some have u: "has_lock (qw_place w u)" by (simp add: lock_ok_def)
  with assms(2) have "u \<noteq> t" by auto
  from u show ?thesis
  proof (cases "qw_place w u")
    case (QLocked b)
    show ?thesis
    proof (cases "aq_stopCh (qw_queue w)")
      case True
      from append_step.seen_stopped [OF QLocked True] \<open>u \<noteq> t\<close>
      show ?thesis by (intro exI [of _ "qat w u (unlock_queue (releaseAppendSlot (qw_queue w))) QIdle"])
        (auto intro!: append_undisturbed simp: queue_defs)
    next
      case False
      let ?v = "qat w u (qw_queue w) (QChecked b)"
      have step: "append_step w ?v" by (rule append_step.seen_running [OF QLocked False])
      have "slots_ok ?v" by (rule slots_append [OF step slots])
      from free_checked [OF this _ \<open>u \<noteq> t\<close>, of b] obtain w' where w': "undisturbed t ?v w'" "queue_free w'" by auto
      have "going t w \<Longrightarrow> goes_on t w ?v \<and> going t ?v" using step \<open>u \<noteq> t\<close> by (auto simp: goes_on_def going_def)
      with w'(1) \<open>u \<noteq> t\<close> have "undisturbed t w w'"
        by (auto simp: undisturbed_def intro: converse_rtranclp_into_rtranclp)
      with w'(2) show ?thesis by blast
    qed
  next
    case (QChecked b)
    from free_checked [OF slots QChecked \<open>u \<noteq> t\<close>] show ?thesis .
  next
    case QSent
    from free_sent [OF QSent \<open>u \<noteq> t\<close>] show ?thesis by blast
  qed simp_all
qed

text \<open>The worker finishes what it has; with a free lock nobody can hold it up.\<close>

definition finished :: "qworld \<Rightarrow> qworld \<Rightarrow> bool" where
  "finished w w' \<longleftrightarrow> worker_step\<^sup>*\<^sup>* w w' \<and> qw_worker w' = WSelect \<and> queue_free w' \<and> qw_place w' = qw_place w
     \<and> qw_sent w' = qw_sent w \<and> aq_stopCh (qw_queue w') = aq_stopCh (qw_queue w)
     \<and> (\<forall>ch. aq_appendProgressCh (qw_queue w) = Some ch \<longrightarrow> qw_worker w \<noteq> WSelect \<longrightarrow> ch \<in> aq_closed (qw_queue w'))
     \<and> length (batches (qw_ops w')) = length (batches (qw_ops w)) + length (worker_batches (qw_worker w))"

lemma finished_after:
  assumes "worker_step w v" and "finished v w'" and "queue_free v" and "qw_worker v \<noteq> WSelect" and "qw_place v = qw_place w"
    and "qw_sent v = qw_sent w" and "aq_stopCh (qw_queue v) = aq_stopCh (qw_queue w)"
    and "aq_appendProgressCh (qw_queue v) = aq_appendProgressCh (qw_queue w)"
    and "length (batches (qw_ops v)) + length (worker_batches (qw_worker v)) = length (batches (qw_ops w)) + length (worker_batches (qw_worker w))"
  shows "finished w w'"
  using assms by (auto simp: finished_def intro: converse_rtranclp_into_rtranclp)

lemma worker_finishes:
  assumes "queue_free w" and "qw_worker w \<noteq> WGone"
  shows "\<exists>w'. finished w w'"
proof -
  have applied: "\<exists>w'. finished v w'" if v: "queue_free v" "qw_worker v = WApplied" for v
  proof -
    have "finished v (wat v (count_completed (qw_queue v)) WSelect)"
      unfolding finished_def using worker_step.complete [OF v(2,1)] v
      by (auto simp: count_completed_def Let_def split: option.split)
    then show ?thesis by blast
  qed
  have apply_it: "\<exists>w'. finished v w'" if v: "queue_free v" "qw_worker v = WApply b" for v b
  proof -
    let ?u = "cache_op (Append 0 b) (wat v (qw_queue v) WApplied)"
    obtain w' where "finished ?u w'" using applied [of ?u] v(1) by auto
    from finished_after [OF worker_step.apply_batch [OF v(2), of 0] this] v show ?thesis by auto
  qed
  show ?thesis
  proof (cases "qw_worker w")
    case WSelect
    with assms(1) have "finished w w" by (simp add: finished_def)
    then show ?thesis by blast
  next
    case (WGot b)
    let ?u = "wat w (releaseAppendSlot (qw_queue w)) (WApply b)"
    have frame: "aq_appendStateMu (releaseAppendSlot q) = aq_appendStateMu q" "aq_stopCh (releaseAppendSlot q) = aq_stopCh q"
      "aq_appendProgressCh (releaseAppendSlot q) = aq_appendProgressCh q" for q
      by (simp_all add: releaseAppendSlot_def)
    then have "queue_free ?u" using assms(1) by simp
    from apply_it [OF this, of b] obtain w' where "finished ?u w'" by auto
    from finished_after [OF worker_step.free_slot [OF WGot] this] assms(1) WGot frame show ?thesis by auto
  next
    case (WApply b)
    from apply_it [OF assms(1) this] show ?thesis .
  next
    case WApplied
    from applied [OF assms(1) this] show ?thesis .
  next
    case WGone
    with assms(2) show ?thesis by simp
  qed
qed

lemma worker_keeps: "worker_step w w' \<Longrightarrow> going t w \<Longrightarrow> going t w'"
  by (induction rule: worker_step.induct) (auto simp: going_def queue_defs count_completed_def Let_def split: option.split)

lemma worker_goes: "worker_step w w' \<Longrightarrow> going t w \<Longrightarrow> goes_on t w w'"
  by (simp add: goes_on_def worker_keeps)

lemma worker_goes_on: "worker_step\<^sup>*\<^sup>* w w' \<Longrightarrow> going t w \<Longrightarrow> (goes_on t)\<^sup>*\<^sup>* w w' \<and> going t w'"
  by (induction rule: rtranclp_induct) (auto intro: worker_keeps worker_goes rtranclp.rtrancl_into_rtrancl)

lemma qinv_steps: "qstep\<^sup>*\<^sup>* w w' \<Longrightarrow> qinv w \<Longrightarrow> qinv w'"
  by (induction rule: rtranclp_induct) (auto intro: qinv_step)

lemma completed_at_select:
  assumes "qinv w" and "qw_worker w = WSelect" and "n \<le> length (batches (qw_ops w))" and "length (qw_sent w) < 2 ^ 64"
  shows "of_nat n \<le> aq_completedAppends (qw_queue w)"
proof -
  let ?k = "length (batches (qw_ops w))"
  have "?k < 2 ^ 64" and "aq_completedAppends (qw_queue w) = of_nat ?k"
    using assms by (simp_all add: qinv_def marks_ok_def order_ok_def)
  with assms(3) show ?thesis by (simp add: word_le_nat_alt unsigned_of_nat take_bit_nat_eq_self)
qed

text \<open>One batch more.\<close>

lemma worker_round:
  assumes "qinv w" and "queue_free w" and "qw_worker w = WSelect" and "length (batches (qw_ops w)) < length (qw_sent w)"
    and "going t w"
  shows "\<exists>w'. (goes_on t)\<^sup>*\<^sup>* w w' \<and> qw_worker w' = WSelect \<and> queue_free w' \<and> qw_place w' = qw_place w \<and> qw_sent w' = qw_sent w
    \<and> aq_stopCh (qw_queue w') = aq_stopCh (qw_queue w) \<and> length (batches (qw_ops w')) = Suc (length (batches (qw_ops w)))
    \<and> (\<forall>ch. aq_appendProgressCh (qw_queue w) = Some ch \<longrightarrow> ch \<in> aq_closed (qw_queue w'))"
proof -
  from assms(1,3,4) obtain b rest where ch: "aq_appendCh (qw_queue w) = b # rest"
    by (cases "aq_appendCh (qw_queue w)") (auto simp: qinv_def order_ok_def)
  let ?v = "wat w ((qw_queue w)\<lparr>aq_appendCh := rest\<rparr>) (WGot b)"
  obtain w' where f: "finished ?v w'" using worker_finishes [of ?v] assms(2) by auto
  have "worker_step w ?v" by (rule worker_step.receive [OF assms(3) ch])
  moreover have "worker_step\<^sup>*\<^sup>* ?v w'" using f by (simp add: finished_def)
  ultimately have "worker_step\<^sup>*\<^sup>* w w'" by (rule converse_rtranclp_into_rtranclp)
  with assms(5) have "(goes_on t)\<^sup>*\<^sup>* w w'" using worker_goes_on by blast
  with f show ?thesis by (auto simp: finished_def)
qed

lemma drain_round_waits:
  assumes "drain_round target q0 = (q, wait)" and "\<not> target \<le> aq_completedAppends q0"
  shows "\<exists>ch. wait = Some ch \<and> aq_appendProgressCh q = Some ch \<and> aq_stopCh q = aq_stopCh q0 \<and> aq_appendStateMu q = aq_appendStateMu q0"
proof (cases "aq_appendProgressCh q0")
  case None
  with assms show ?thesis by (auto simp: drain_round_def)
next
  case (Some a)
  with assms(2) have "drain_round target q0 = (q0, Some a)" by (simp add: drain_round_def)
  then have "q = q0" "wait = Some a" using assms(1) by simp_all
  with Some show ?thesis by simp
qed

lemma drain_finishes:
  assumes "qinv w" and "queue_free w" and "qw_worker w = WSelect" and "qw_place w t = QDraining target n"
    and "length (qw_sent w) < 2 ^ 64" and "\<not> aq_stopCh (qw_queue w)"
  shows "\<exists>w'. (goes_on t)\<^sup>*\<^sup>* w w' \<and> qw_place w' t = QDrained n"
  using assms
proof (induction "n - length (batches (qw_ops w))" arbitrary: w rule: less_induct)
  case less
  have "drain_ok w (qw_place w t)" using less.prems(1) by (simp add: qinv_def drains_ok_def)
  with less.prems(4) have target: "target = of_nat n" "n \<le> length (qw_sent w)" by (simp_all add: target_ok_def)
  obtain q wait where round: "drain_round target (qw_queue w) = (q, wait)" by fastforce
  let ?v = "qat w t q (case wait of None \<Rightarrow> QDrained n | Some ch \<Rightarrow> QDrainWait ch target n)"
  have stop: "aq_stopCh q = aq_stopCh (qw_queue w)"
    using round by (auto simp: drain_round_def split: if_splits option.splits)
  have "going t ?v" using less.prems(6) stop by (simp add: going_def split: option.split)
  then have v: "goes_on t w ?v" and going: "going t ?v"
    using drain_step.drain_loop [OF less.prems(4,2) round] by (simp_all add: goes_on_def)
  show ?case
  proof (cases "target \<le> aq_completedAppends (qw_queue w)")
    case True
    with round have "wait = None" by (simp add: drain_round_def)
    with v show ?thesis by (intro exI [of _ ?v]) auto
  next
    case False
    then have more: "length (batches (qw_ops w)) < n"
      using completed_at_select [OF less.prems(1,3) _ less.prems(5), of n] target(1) by (meson not_less)
    from False round obtain ch where ch: "wait = Some ch" "aq_appendProgressCh q = Some ch" "aq_stopCh q = aq_stopCh (qw_queue w)"
        "aq_appendStateMu q = aq_appendStateMu (qw_queue w)"
      using drain_round_waits [OF round False] by blast
    have v_inv: "qinv ?v" by (rule qinv_steps [OF goes_on_qsteps [OF r_into_rtranclp [of "goes_on t", OF v]] less.prems(1)])
    obtain u where u: "(goes_on t)\<^sup>*\<^sup>* ?v u" "qw_worker u = WSelect" "queue_free u" "qw_place u = qw_place ?v" "qw_sent u = qw_sent w"
        "length (batches (qw_ops u)) = Suc (length (batches (qw_ops w)))" "ch \<in> aq_closed (qw_queue u)" "aq_stopCh (qw_queue u) = aq_stopCh (qw_queue w)"
      using worker_round [OF v_inv _ _ _ going] less.prems(2,3) more target(2) ch by auto
    let ?x = "qat u t (qw_queue u) (QDraining target n)"
    have "drain_step u ?x" using u(4,7) ch(1) by (intro drain_step.drain_woken) auto
    then have x: "goes_on t u ?x" using u(8) less.prems(6) by (simp add: goes_on_def going_def)
    have "(goes_on t)\<^sup>*\<^sup>* w ?x"
      by (rule converse_rtranclp_into_rtranclp [OF v rtranclp.rtrancl_into_rtrancl [OF u(1) x]])
    moreover have "qinv ?x" using u(1) x v_inv by (meson goes_on_qsteps qinv_steps rtranclp.rtrancl_into_rtrancl)
    moreover have "\<exists>w'. (goes_on t)\<^sup>*\<^sup>* ?x w' \<and> qw_place w' t = QDrained n"
      by (rule less.hyps) (use u more less.prems(5,6) \<open>qinv ?x\<close> in auto)
    ultimately show ?thesis by (meson rtranclp_trans)
  qed
qed

section \<open>What the queue promises\<close>

text \<open>
  The queue never blocks and never loses a slot. Slots, queued batches, callers with a slot and the worker's
  batch before it frees its slot always add up to the capacity, so a caller that has a slot finds
  room in the channel and the default branches of the send and of the release are never taken.
\<close>

theorem append_slot_has_room:
  assumes "qstep\<^sup>*\<^sup>* (qstart queueSize c) w" and "qw_place w t = QChecked batch"
  shows "length (aq_appendCh (qw_queue w)) < aq_capacity (qw_queue w)
    \<and> aq_appendSlots (qw_queue w) < aq_capacity (qw_queue w)"
  using slots_room [of w t] qinv_reached [OF assms(1)] assms(2) by (simp add: qinv_def)

text \<open>
  Claim C36. Draining is sound: when \<open>DrainAcceptedAppends\<close> returns nil, every batch that had been accepted when it was
  called has been applied to the cache, in the order of acceptance, and the cache is what the
  applied batches and the reloads between them make of the cache at the start. The watermarks are
  compared as 64-bit words, which is right as long as fewer than \<open>2 ^ 64\<close> batches have been sent.
\<close>

theorem drain_waits_for_accepted:
  assumes "qstep\<^sup>*\<^sup>* (qstart queueSize c) w" and "qw_place w t = QDrained n" and "length (qw_sent w) < 2 ^ 64"
  shows "take n (batches (qw_ops w)) = take n (qw_sent w) \<and> n \<le> length (batches (qw_ops w))
    \<and> qw_cache w = fold apply_op (qw_ops w) c"
proof -
  from qinv_reached [OF assms(1)] have "order_ok w" "drain_ok w (qw_place w t)" by (simp_all add: qinv_def drains_ok_def)
  with assms(2,3) cache_reached [OF assms(1)] show ?thesis by (simp add: order_ok_def)
qed

lemma waiting_woken:
  assumes "qinv w" and "qw_place w t = QDrainWait ch target n"
  shows "target \<le> aq_completedAppends (qw_queue w) \<longrightarrow> ch \<in> aq_closed (qw_queue w)"
    and "worker_step w w' \<Longrightarrow> qw_worker w = WApplied \<Longrightarrow> ch \<in> aq_closed (qw_queue w')"
proof -
  have "drain_ok w (qw_place w t)" using assms(1) by (simp add: qinv_def drains_ok_def)
  then have ch: "ch \<in> aq_closed (qw_queue w) \<or> aq_appendProgressCh (qw_queue w) = Some ch \<and> \<not> target \<le> aq_completedAppends (qw_queue w)"
    unfolding assms(2) by simp
  then show "target \<le> aq_completedAppends (qw_queue w) \<longrightarrow> ch \<in> aq_closed (qw_queue w)" by blast
  assume "worker_step w w'" and "qw_worker w = WApplied"
  then have "w' = wat w (count_completed (qw_queue w)) WSelect" by (auto elim: worker_step.cases)
  with ch show "ch \<in> aq_closed (qw_queue w')" by (auto simp: count_completed_def Let_def split: option.split)
qed

text \<open>The worker gets to close the channel a drain waits on.\<close>

lemma worker_wakes:
  assumes "qinv w" and "queue_free w" and "qw_worker w = WSelect" and "qw_place w t = QDrainWait ch target n"
    and "length (qw_sent w) < 2 ^ 64" and "\<not> aq_stopCh (qw_queue w)"
  shows "\<exists>x. (goes_on t)\<^sup>*\<^sup>* w x \<and> qinv x \<and> queue_free x \<and> qw_worker x = WSelect \<and> qw_place x t = QDrainWait ch target n
      \<and> length (qw_sent x) < 2 ^ 64 \<and> \<not> aq_stopCh (qw_queue x) \<and> ch \<in> aq_closed (qw_queue x)"
proof (cases "ch \<in> aq_closed (qw_queue w)")
  case True
  with assms show ?thesis by blast
next
  case False
  have going: "going t w" using assms(4,6) by (simp add: going_def)
  from assms(1) have "drain_ok w (qw_place w t)" by (simp add: qinv_def drains_ok_def)
  with False have p: "target = of_nat n" "n \<le> length (qw_sent w)" "aq_appendProgressCh (qw_queue w) = Some ch"
      "\<not> target \<le> aq_completedAppends (qw_queue w)" unfolding assms(4) drain_ok.simps target_ok_def by blast+
  then have "length (batches (qw_ops w)) < length (qw_sent w)"
    using completed_at_select [OF assms(1,3) _ assms(5), of n] by (meson not_less less_le_trans)
  from worker_round [OF assms(1-3) this going]
  obtain x where x: "(goes_on t)\<^sup>*\<^sup>* w x" "qw_worker x = WSelect" "queue_free x" "qw_place x = qw_place w" "qw_sent x = qw_sent w"
      "aq_stopCh (qw_queue x) = aq_stopCh (qw_queue w)" "ch \<in> aq_closed (qw_queue x)"
    using p(3) by blast
  have "qinv x" by (rule qinv_steps [OF goes_on_qsteps [OF x(1)] assms(1)])
  with x assms show ?thesis by auto
qed

text \<open>
  Claim C37. A waiting drain is never stuck and no wake-up is lost. In every state that can be reached and in
  which \<open>DrainAcceptedAppends\<close> waits on a progress channel: once its target is completed, that
  channel has been closed; whenever the worker counts a batch it has applied, that channel is
  closed afterwards; and as long as the cache is not closed, the call can still return nil by
  going on, with the cache staying open and without being given up, by steps of \<open>TryAppend\<close>
  calls, the worker and drains alone, whatever the other callers were doing.
\<close>

theorem drain_can_finish:
  assumes "qstep\<^sup>*\<^sup>* (qstart queueSize c) w" and "qw_place w t = QDrainWait ch target n"
    and "\<not> aq_stopCh (qw_queue w)" and "Suc (length (qw_sent w)) < 2 ^ 64"
  shows "(target \<le> aq_completedAppends (qw_queue w) \<longrightarrow> ch \<in> aq_closed (qw_queue w))
    \<and> (\<forall>w'. worker_step w w' \<longrightarrow> qw_worker w = WApplied \<longrightarrow> ch \<in> aq_closed (qw_queue w'))
    \<and> (\<exists>w'. (goes_on t)\<^sup>*\<^sup>* w w' \<and> qw_place w' t = QDrained n)"
proof (intro conjI allI)
  note inv = qinv_reached [OF assms(1)]
  show "target \<le> aq_completedAppends (qw_queue w) \<longrightarrow> ch \<in> aq_closed (qw_queue w)"
    by (rule waiting_woken(1) [OF inv assms(2)])
  show "worker_step w w' \<longrightarrow> qw_worker w = WApplied \<longrightarrow> ch \<in> aq_closed (qw_queue w')" for w'
    using waiting_woken(2) [OF inv assms(2)] by blast
  have going: "going t w" using assms(2,3) by (simp add: going_def)
  from free_lock [OF inv, of t] assms(2) obtain v where v: "undisturbed t w v" "queue_free v" by auto
  then have steps: "(goes_on t)\<^sup>*\<^sup>* w v" "qw_place v t = QDrainWait ch target n" "\<not> aq_stopCh (qw_queue v)" "length (qw_sent v) < 2 ^ 64"
    using assms(2-4) going by (auto simp: undisturbed_def)
  have inv_v: "qinv v" by (rule qinv_steps [OF goes_on_qsteps [OF steps(1)] inv])
  then have "qw_worker v \<noteq> WGone" using steps(3) by (auto simp: qinv_def done_ok_def)
  from worker_finishes [OF v(2) this] obtain u where u: "finished v u" by blast
  have "going t v" using steps(2,3) by (simp add: going_def)
  then have vu: "(goes_on t)\<^sup>*\<^sup>* v u" using u worker_goes_on by (auto simp: finished_def)
  have "qinv u" by (rule qinv_steps [OF goes_on_qsteps [OF vu] inv_v])
  then obtain x where x: "(goes_on t)\<^sup>*\<^sup>* u x" "qinv x" "queue_free x" "qw_worker x = WSelect" "qw_place x t = QDrainWait ch target n"
      "length (qw_sent x) < 2 ^ 64" "\<not> aq_stopCh (qw_queue x)" "ch \<in> aq_closed (qw_queue x)"
    using worker_wakes [of u t ch target n] u steps by (auto simp: finished_def)
  let ?y = "qat x t (qw_queue x) (QDraining target n)"
  have y: "goes_on t x ?y" using drain_step.drain_woken [OF x(5,8)] x(7) by (simp add: goes_on_def going_def)
  have "qinv ?y" using qinv_steps goes_on_qsteps [OF r_into_rtranclp [of "goes_on t", OF y]] x(2) by blast
  then have "\<exists>w'. (goes_on t)\<^sup>*\<^sup>* ?y w' \<and> qw_place w' t = QDrained n"
    by (rule drain_finishes [of _ t target n]) (use x in auto)
  with steps(1) vu x(1) y show "\<exists>w'. (goes_on t)\<^sup>*\<^sup>* w w' \<and> qw_place w' t = QDrained n"
    by (meson rtranclp.rtrancl_into_rtrancl rtranclp_trans)
qed

text \<open>A \<open>TryAppend\<close> that nobody disturbs.\<close>

lemma try_append_run:
  assumes "qw_place w t = QIdle" and "queue_free w" and "\<not> aq_stopCh (qw_queue w)" and "batch \<noteq> []"
    and "0 < aq_appendSlots (qw_queue w)" and "length (aq_appendCh (qw_queue w)) < aq_capacity (qw_queue w)"
  shows "\<exists>w'. qstep\<^sup>*\<^sup>* w w' \<and> qw_sent w' = qw_sent w @ [batch] \<and> qw_place w' = qw_place w \<and> qw_worker w' = qw_worker w
    \<and> qw_ops w' = qw_ops w \<and> qw_queue w' = (qw_queue w)\<lparr>aq_appendSlots := aq_appendSlots (qw_queue w) - 1,
      aq_appendCh := aq_appendCh (qw_queue w) @ [batch], aq_acceptedAppends := aq_acceptedAppends (qw_queue w) + 1\<rparr>"
proof -
  let ?q = "(qw_queue w)\<lparr>aq_appendSlots := aq_appendSlots (qw_queue w) - 1\<rparr>"
  let ?w1 = "qat w t (qw_queue w) (QWantSlot batch)"
  let ?w2 = "qat ?w1 t ?q (QReserved batch)"
  let ?w3 = "qat ?w2 t (lock_queue t ?q) (QLocked batch)"
  let ?w4 = "qat ?w3 t (lock_queue t ?q) (QChecked batch)"
  let ?w5 = "note_sent batch (qat ?w4 t (send_append batch (lock_queue t ?q)) QSent)"
  let ?w6 = "qat ?w5 t (unlock_queue (count_accepted (send_append batch (lock_queue t ?q)))) QIdle"
  have "append_step w ?w1" using append_step.call_append [OF assms(1,4,3)] .
  moreover have "append_step ?w1 ?w2" using append_step.take_slot [of ?w1 t batch ?q True] assms(5) by (simp add: queue_defs)
  moreover have "append_step ?w2 ?w3" using append_step.take_lock [of ?w2 t batch] assms(2) by simp
  moreover have "append_step ?w3 ?w4" using append_step.seen_running [of ?w3 t batch] assms(3) by (simp add: queue_defs)
  moreover have "append_step ?w4 ?w5" using append_step.send [of ?w4 t batch] assms(6) by (simp add: queue_defs)
  moreover have "append_step ?w5 ?w6" using append_step.sent [of ?w5 t] by simp
  ultimately have "qstep w ?w1" "qstep ?w1 ?w2" "qstep ?w2 ?w3" "qstep ?w3 ?w4" "qstep ?w4 ?w5" "qstep ?w5 ?w6"
    unfolding qstep_def by blast+
  then have "qstep\<^sup>*\<^sup>* w ?w6" by (meson converse_rtranclp_into_rtranclp rtranclp.rtrancl_refl)
  with assms(1,2) show ?thesis by (intro exI [of _ ?w6]) (auto simp: queue_defs)
qed

text \<open>A run: one batch is accepted, and then a drain begins; the batch is still in the channel.\<close>

lemma example_waiting:
  "\<exists>w ch. qstep\<^sup>*\<^sup>* (qstart 1 c) w \<and> qw_place w 1 = QDrainWait ch 1 1 \<and> qw_sent w = [[example_event 0]]
    \<and> \<not> aq_stopCh (qw_queue w) \<and> queue_free w \<and> qw_worker w = WSelect \<and> qw_ops w = []"
proof -
  obtain w where w: "qstep\<^sup>*\<^sup>* (qstart 1 c) w" "qw_sent w = [[example_event 0]]" "qw_place w 1 = QIdle" "queue_free w" "qw_worker w = WSelect"
      "aq_acceptedAppends (qw_queue w) = 1" "aq_completedAppends (qw_queue w) = 0" "aq_appendProgressCh (qw_queue w) = None" "\<not> aq_stopCh (qw_queue w)"
      "qw_ops w = []"
    using try_append_run [of "qstart 1 c" 0 "[example_event 0]"] by (auto simp: qstart_def new_queue_def)
  let ?v = "qat w 1 (qw_queue w) (QDraining 1 1)"
  have v: "qstep w ?v" using drain_step.call_drain [OF w(3,4)] w(2,6) by (simp add: qstep_def)
  obtain q where q: "drain_round 1 (qw_queue w) = (q, Some (aq_fresh (qw_queue w)))" "aq_stopCh q = aq_stopCh (qw_queue w)" "aq_appendStateMu q = None"
    using w(4,7,8) by (simp add: drain_round_def)
  let ?u = "qat ?v 1 q (QDrainWait (aq_fresh (qw_queue w)) 1 1)"
  have "qstep ?v ?u" using drain_step.drain_loop [of ?v 1 1 1 q "Some (aq_fresh (qw_queue w))"] w(4) q(1) by (simp add: qstep_def)
  with w(1) v have "qstep\<^sup>*\<^sup>* (qstart 1 c) ?u" by (meson rtranclp.rtrancl_into_rtrancl)
  with w q show ?thesis by (intro exI [of _ ?u] exI [of _ "aq_fresh (qw_queue w)"]) auto
qed

lemma drain_can_finish_witness:
  "\<exists>w w' ch. qw_place w 1 = QDrainWait ch 1 1 \<and> qw_ops w = [] \<and> \<not> aq_stopCh (qw_queue w)
     \<and> (goes_on 1)\<^sup>*\<^sup>* w w' \<and> qw_place w' 1 = QDrained 1"
proof -
  obtain w ch where w: "qstep\<^sup>*\<^sup>* (qstart 1 (newEmptyUsageRecentEventCache 0)) w" "qw_place w 1 = QDrainWait ch 1 1"
      "qw_sent w = [[example_event 0]]" "\<not> aq_stopCh (qw_queue w)" "qw_ops w = []"
    using example_waiting by blast
  then have few: "Suc (length (qw_sent w)) < 2 ^ 64" by simp
  from drain_can_finish [OF w(1,2,4) few] w(2,4,5) show ?thesis by blast
qed

lemma append_slot_has_room_witness:
  "\<exists>w :: qworld. qw_place w 0 = QChecked [example_event 0] \<and> length (aq_appendCh (qw_queue w)) < 1"
proof -
  let ?c = "newEmptyUsageRecentEventCache 0"
  let ?w1 = "qat (qstart 1 ?c) 0 (new_queue 1) (QWantSlot [example_event 0])"
  let ?q = "(new_queue 1)\<lparr>aq_appendSlots := 0\<rparr>"
  let ?w2 = "qat ?w1 0 ?q (QReserved [example_event 0])"
  let ?w3 = "qat ?w2 0 (lock_queue 0 ?q) (QLocked [example_event 0])"
  let ?w4 = "qat ?w3 0 (lock_queue 0 ?q) (QChecked [example_event 0])"
  have "append_step (qstart 1 ?c) ?w1"
    using append_step.call_append [of "qstart 1 ?c" 0 "[example_event 0]"] by (simp add: qstart_def new_queue_def)
  moreover have "append_step ?w1 ?w2"
    using append_step.take_slot [of ?w1 0 "[example_event 0]" ?q True] by (simp add: queue_defs new_queue_def)
  moreover have "append_step ?w2 ?w3" using append_step.take_lock [of ?w2 0 "[example_event 0]"] by (simp add: new_queue_def)
  moreover have "append_step ?w3 ?w4" using append_step.seen_running [of ?w3 0 "[example_event 0]"] by (simp add: queue_defs new_queue_def)
  ultimately have "qstep (qstart 1 ?c) ?w1" "qstep ?w1 ?w2" "qstep ?w2 ?w3" "qstep ?w3 ?w4" unfolding qstep_def by blast+
  then have "qstep\<^sup>*\<^sup>* (qstart 1 ?c) ?w4" by (meson converse_rtranclp_into_rtranclp rtranclp.rtrancl_refl)
  from append_slot_has_room [OF this, of 0 "[example_event 0]"] have "length (aq_appendCh (qw_queue ?w4)) < 1"
    by (simp add: lock_queue_def new_queue_def)
  moreover have "qw_place ?w4 0 = QChecked [example_event 0]" by simp
  ultimately show ?thesis by (intro exI [where x = ?w4] conjI)
qed

text \<open>The worker applies the batch and the drain returns nil.\<close>

lemma example_drained:
  "\<exists>w. qstep\<^sup>*\<^sup>* (qstart 1 c) w \<and> qw_place w 1 = QDrained 1 \<and> qw_sent w = [[example_event 0]]
     \<and> qw_ops w = [Append 0 [example_event 0]]"
proof -
  obtain w ch where w: "qstep\<^sup>*\<^sup>* (qstart 1 c) w" "qw_place w 1 = QDrainWait ch 1 1" "qw_sent w = [[example_event 0]]"
      "queue_free w" "qw_worker w = WSelect" "qw_ops w = []"
    using example_waiting by blast
  from qinv_reached [OF w(1)] have inv: "order_ok w" "marks_ok w" "drain_ok w (qw_place w 1)" by (simp_all add: qinv_def drains_ok_def)
  let ?q = "(qw_queue w)\<lparr>aq_appendCh := []\<rparr>"
  let ?r = "count_completed (releaseAppendSlot ?q)"
  have queue: "aq_appendCh (qw_queue w) = [[example_event 0]]" "aq_completedAppends (qw_queue w) = 0"
    using inv(1,2) w(3,5,6) by (simp_all add: order_ok_def marks_ok_def)
  have free: "aq_appendStateMu (releaseAppendSlot ?q) = None" "aq_appendStateMu ?r = None"
    using w(4) by (simp_all add: releaseAppendSlot_def count_completed_def Let_def split: option.split)
  have closed: "ch \<in> aq_closed ?r" "aq_completedAppends ?r = 1"
    using inv(3) w(2) queue(2) by (auto simp: releaseAppendSlot_def count_completed_def Let_def split: option.split)
  let ?w1 = "wat w ?q (WGot [example_event 0])"
  let ?w2 = "wat ?w1 (releaseAppendSlot ?q) (WApply [example_event 0])"
  let ?w3 = "cache_op (Append 0 [example_event 0]) (wat ?w2 (releaseAppendSlot ?q) WApplied)"
  let ?w4 = "wat ?w3 ?r WSelect"
  let ?w5 = "qat ?w4 1 ?r (QDraining 1 1)"
  let ?w6 = "qat ?w5 1 ?r (QDrained 1)"
  have "worker_step w ?w1" by (rule worker_step.receive [OF w(5) queue(1)])
  moreover have "worker_step ?w1 ?w2" using worker_step.free_slot [of ?w1] by simp
  moreover have "worker_step ?w2 ?w3" using worker_step.apply_batch [of ?w2 _ 0] by simp
  moreover have "worker_step ?w3 ?w4" using worker_step.complete [of ?w3] free(1) by simp
  moreover have "drain_step ?w4 ?w5" using drain_step.drain_woken [of ?w4 1 ch 1 1] w(2) closed(1) by simp
  moreover have "drain_step ?w5 ?w6"
    using drain_step.drain_loop [of ?w5 1 1 1 ?r None] free(2) closed(2) by (simp add: drain_round_def)
  ultimately have "qstep w ?w1" "qstep ?w1 ?w2" "qstep ?w2 ?w3" "qstep ?w3 ?w4" "qstep ?w4 ?w5" "qstep ?w5 ?w6"
    unfolding qstep_def by blast+
  then have "qstep\<^sup>*\<^sup>* w ?w6" by (meson converse_rtranclp_into_rtranclp rtranclp.rtrancl_refl)
  with w(1) have "qstep\<^sup>*\<^sup>* (qstart 1 c) ?w6" by (rule rtranclp_trans)
  with w(3,6) show ?thesis by (intro exI [of _ ?w6]) auto
qed

lemma drain_waits_for_accepted_witness:
  "\<exists>w :: qworld. qw_place w 1 = QDrained 1 \<and> take 1 (batches (qw_ops w)) = [[example_event 0]]"
proof -
  obtain w where w: "qstep\<^sup>*\<^sup>* (qstart 1 (newEmptyUsageRecentEventCache 0)) w" "qw_place w 1 = QDrained 1"
      "qw_sent w = [[example_event 0]]"
    using example_drained by blast
  then have "length (qw_sent w) < 2 ^ 64" by simp
  from drain_waits_for_accepted [OF w(1,2) this] w(2,3) have "take 1 (batches (qw_ops w)) = [[example_event 0]]" by simp
  with w(2) show ?thesis by blast
qed

section \<open>The queue and the cache together\<close>

lemma appended_rows:
  assumes "\<forall>op \<in> set ops. \<not> (\<exists>run. op = Reload run)"
  shows "spec_rows window ops (rows, True) = (rows @ map event_row (concat (batches ops)), True)"
  using assms
proof (induction ops arbitrary: rows)
  case (Cons op ops)
  then obtain now b where "op = Append now b" by (cases op) auto
  with Cons show ?case by (simp add: batches_def)
qed simp

text \<open>
  Claim C38. What has been accepted can be read after a drain. An event of a batch that \<open>TryAppend\<close> accepted
  before \<open>DrainAcceptedAppends\<close> was called is among the events a read returns once the drain has
  returned nil, if it is not older than the start of the read and the read starts inside the
  window. The run is one without reloads, which replace the events by those of the database.
\<close>

theorem accepted_readable_after_drain:
  assumes "NewUsageRecentEventCache window now (Some candidates) health = Some c0"
    and "qstep\<^sup>*\<^sup>* (qstart queueSize c0) w" and "qw_place w t = QDrained n" and "length (qw_sent w) < 2 ^ 64"
    and "\<forall>op \<in> set (qw_ops w). \<not> (\<exists>run. op = Reload run)" and "clocks_ok now (qw_ops w)"
    and "clock_after now (qw_ops w) - rc_window c0 \<le> start"
    and "e \<in> set (concat (take n (qw_sent w)))" and "start \<le> ue_Timestamp e"
  shows "recentEventFromRow (event_row e) \<in> set (fst (EventsSince (Some (qw_cache w)) start ''''))"
proof -
  from qinv_reached [OF assms(2)] have "order_ok w" "drain_ok w (qw_place w t)" by (simp_all add: qinv_def drains_ok_def)
  with assms(3,4) have "take n (qw_sent w) = take n (batches (qw_ops w))" by (simp add: order_ok_def)
  with assms(8) have e: "e \<in> set (concat (batches (qw_ops w)))" by (auto dest: in_set_takeD)
  have "cache_holds (clock_after now (qw_ops w)) (qw_cache w) (candidates @ map event_row (concat (batches (qw_ops w))), True)"
    using cache_holds_run [OF cache_holds_created [OF assms(1)] assms(6)] appended_rows [OF assms(5)] cache_reached [OF assms(2)] by simp
  moreover have "rc_window (qw_cache w) = rc_window c0" by (simp add: cache_reached [OF assms(2)] window_run)
  ultimately have read: "EventsSinceForInstance (Some (qw_cache w)) '''' start '''' =
      (map recentEventFromRow (filter (\<lambda>r. asked_for '''' '''' r \<and> start \<le> lr_Timestamp r)
        (candidates @ map event_row (concat (batches (qw_ops w))))), True)"
    using reads_held(2) assms(7) by simp
  have "TrimSpace '''' = ''''" by code_simp
  then have "asked_for '''' '''' (event_row e)" "lr_Timestamp (event_row e) = ue_Timestamp e"
    by (simp_all add: asked_for_def event_row_def)
  with e assms(9) show ?thesis by (auto simp: EventsSince_def read)
qed

lemma accepted_readable_after_drain_witness:
  "\<exists>w :: qworld. qw_place w 1 = QDrained 1
     \<and> recentEventFromRow (event_row (example_event 0)) \<in> set (fst (EventsSince (Some (qw_cache w)) 0 ''''))"
proof -
  obtain c where c: "example_created 0 = Some c" using example_exists by blast
  have new: "NewUsageRecentEventCache 0 0 (Some [event_row (example_event 0)])
      (Some [credentialHealthRowsFromUsageEvents [example_event 0]]) = Some c"
    using c by (simp only: example_created_def)
  have "rc_window (the (example_created 0)) = 70 * Minute" by code_simp
  with c have win: "0 - rc_window c \<le> 0" by (simp add: Minute_def Second_def)
  obtain w where w: "qstep\<^sup>*\<^sup>* (qstart 1 c) w" "qw_place w 1 = QDrained 1" "qw_sent w = [[example_event 0]]"
      "qw_ops w = [Append 0 [example_event 0]]"
    using example_drained by blast
  have few: "length (qw_sent w) < 2 ^ 64" using w(3) by simp
  have only: "\<forall>op \<in> set (qw_ops w). \<not> (\<exists>run. op = Reload run)" and ok: "clocks_ok 0 (qw_ops w)"
    and after: "clock_after 0 (qw_ops w) - rc_window c \<le> 0" and e: "example_event 0 \<in> set (concat (take 1 (qw_sent w)))"
    and time: "0 \<le> ue_Timestamp (example_event 0)"
    using w(3,4) win by (simp_all add: example_event_def)
  from accepted_readable_after_drain [OF new w(1,2) few only ok after e time] w(2) show ?thesis by blast
qed

end
