(* ===== verification/Calendar.thy ===== *)
theory Calendar
  imports Go_Zone "HOL-Library.Monad_Syntax"
begin

text \<open>
  Local days: \<open>src/internal/timeutil/calendar.go\<close>. A \<open>CivilDate\<close> is its number of days since
  1970-01-01, so \<open>calendarTime\<close>, the UTC midnight of the date, is a multiplication. The zone is a
  parameter as in \<open>Go_Zone\<close>; \<open>ZoneBounds\<close> reports the zero time, here \<open>None\<close>, when the offset in force
  never ends.
\<close>

type_synonym CivilDate = int

definition day_seconds :: int where "day_seconds = 86400"

definition calendarTime :: "CivilDate \<Rightarrow> time" where "calendarTime date = date * day_seconds * Second"

definition DateOf :: "zone \<Rightarrow> time \<Rightarrow> CivilDate" where "DateOf zone t = wall_day zone t"

definition date_AddDays :: "CivilDate \<Rightarrow> int \<Rightarrow> CivilDate" where "date_AddDays date days = date + days"

text \<open>Go's division truncates, but the dates are whole days apart.\<close>

definition DaysUntil :: "CivilDate \<Rightarrow> CivilDate \<Rightarrow> int" where
  "DaysUntil date other = (unix (calendarTime other) - unix (calendarTime date)) div day_seconds"

record Interval =
  iv_Start :: time
  iv_End :: time

definition ElapsedRange :: "time \<Rightarrow> duration \<Rightarrow> Interval" where
  "ElapsedRange anchor d = \<lparr>iv_Start = anchor - d, iv_End = anchor\<rparr>"


section \<open>Years\<close>

text \<open>The first day of a year of the Gregorian calendar, and the year of a day.\<close>

definition year_start :: "int \<Rightarrow> int" where
  "year_start y = 365 * (y - 1970) + (y - 1969) div 4 - (y - 1901) div 100 + (y - 1601) div 400"

lemma year_start_less: "year_start y < year_start (y + 1)"
proof -
  have "(y - 1969) div 4 \<le> (y + 1 - 1969) div 4" "(y - 1601) div 400 \<le> (y + 1 - 1601) div 400"
    by (simp_all add: zdiv_mono1)
  moreover have "(y - 1900) div 100 \<le> (y - 1901 + 100) div 100" by (rule zdiv_mono1) simp_all
  then have "(y - 1900) div 100 \<le> (y - 1901) div 100 + 1" by (simp only: div_add_self2)
  ultimately show ?thesis by (simp add: year_start_def)
qed

function year_from :: "int \<Rightarrow> int \<Rightarrow> int" where
  "year_from y day = (if year_start (y + 1) \<le> day then year_from (y + 1) day else y)"
  by pat_completeness auto

termination
proof (relation "measure (\<lambda>(y, day). nat (day - year_start y))")
  show "wf (measure (\<lambda>(y, day). nat (day - year_start y)))" by simp
next
  fix y day :: int
  assume "year_start (y + 1) \<le> day"
  with year_start_less [of y] show "((y + 1, day), y, day) \<in> measure (\<lambda>(y, day). nat (day - year_start y))" by simp
qed

text \<open>The search starts at or before the year of the day: a year has at most 366 days, and at least 365.\<close>

definition year_of :: "int \<Rightarrow> int" where
  "year_of day = year_from (1970 + (if 0 \<le> day then day div 366 else day div 365)) day"

section \<open>Zone segments\<close>

text \<open>
  \<open>ZoneSegmentEnd\<close>. Past the last transition of a POSIX rule the library takes every year for 365
  days, so in the last day of a leap year it reports an end that is over; the code then takes the
  start of the next UTC year.
\<close>

definition ZoneSegmentEnd :: "zone \<Rightarrow> time \<Rightarrow> time option" where
  "ZoneSegmentEnd zone at =
     (let e = zs_end (zone (unix at))
      in if e = MaxInt64 then None
         else if at < e * Second then Some (e * Second)
         else
           let year = year_of (unix at div day_seconds);
               start = year_start year * day_seconds * Second;
               nextYear = year_start (year + 1) * day_seconds * Second;
               shortEnd = start + 365 * 24 * Hour
           in if shortEnd < nextYear \<and> e * Second = shortEnd then Some nextYear else Some (e * Second))"

text \<open>
  The loop of \<open>DayBounds\<close> over the segments, with what it has found so far. It ends if every segment
  ends after it starts.
\<close>

partial_function (option) day_segments ::
    "zone \<Rightarrow> time \<Rightarrow> time \<Rightarrow> time \<Rightarrow> time \<Rightarrow> Interval option \<Rightarrow> Interval option option" where
  "day_segments zone nominalStart nominalEnd searchEnd cursor found =
     (if \<not> cursor < searchEnd then Some found
      else
        let offset = zs_offset (zone (unix cursor));
            segmentEnd = (case ZoneSegmentEnd zone cursor of
                            None \<Rightarrow> searchEnd
                          | Some e \<Rightarrow> if searchEnd < e then searchEnd else e);
            start = max cursor (nominalStart - offset * Second);
            stop = min segmentEnd (nominalEnd - offset * Second);
            found' = (if start < stop
                      then Some \<lparr>iv_Start = (case found of None \<Rightarrow> start | Some b \<Rightarrow> iv_Start b), iv_End = stop\<rparr>
                      else found)
        in day_segments zone nominalStart nominalEnd searchEnd segmentEnd found')"

declare day_segments.simps [code]

definition DayBounds :: "zone \<Rightarrow> CivilDate \<Rightarrow> Interval option option" where
  "DayBounds zone date =
     (let nominalStart = calendarTime date;
          nominalEnd = calendarTime (date_AddDays date 1);
          searchEnd = nominalEnd + 48 * Hour
      in day_segments zone nominalStart nominalEnd searchEnd (nominalStart - 48 * Hour) None)"


section \<open>The bounds are exact\<close>

text \<open>
  What the documentation of the library says of segments: the offset does not change between an
  instant and the end of its segment, which is later. Offsets are less than two days, the margin of
  the search.
\<close>

definition segments_true :: "zone \<Rightarrow> bool" where
  "segments_true zone \<longleftrightarrow>
     (\<forall>t. (case ZoneSegmentEnd zone t of
             None \<Rightarrow> \<forall>u \<ge> t. zs_offset (zone (unix u)) = zs_offset (zone (unix t))
           | Some e \<Rightarrow> t < e \<and> (\<forall>u. t \<le> u \<and> u < e \<longrightarrow> zs_offset (zone (unix u)) = zs_offset (zone (unix t)))))
     \<and> (\<forall>u. \<bar>zs_offset (zone u)\<bar> \<le> 172800)"

locale segmented_zone =
  fixes zone :: zone
  assumes segments: "segments_true zone"
begin

lemma offset_bound: "\<bar>zs_offset (zone u)\<bar> \<le> 172800"
  using segments by (simp add: segments_true_def)

lemma segment:
  "case ZoneSegmentEnd zone t of
     None \<Rightarrow> \<forall>u \<ge> t. zs_offset (zone (unix u)) = zs_offset (zone (unix t))
   | Some e \<Rightarrow> t < e \<and> (\<forall>u. t \<le> u \<and> u < e \<longrightarrow> zs_offset (zone (unix u)) = zs_offset (zone (unix t)))"
  using segments unfolding segments_true_def by blast

lemma segment_forever:
  assumes "ZoneSegmentEnd zone t = None" and "t \<le> u"
  shows "zs_offset (zone (unix u)) = zs_offset (zone (unix t))"
  using segment [of t] assms(2) unfolding assms(1) option.case by blast

lemma segment_until:
  assumes "ZoneSegmentEnd zone t = Some e"
  shows "t < e" and "t \<le> u \<Longrightarrow> u < e \<Longrightarrow> zs_offset (zone (unix u)) = zs_offset (zone (unix t))"
  using segment [of t] unfolding assms option.case by blast+

end

lemma le_unix_iff: "a \<le> unix t \<longleftrightarrow> a * Second \<le> t"
proof
  assume "a \<le> unix t"
  then have "a * Second \<le> unix t * Second" by (simp add: Second_def)
  with unix_bounds(1) [of t] show "a * Second \<le> t" by linarith
next
  assume "a * Second \<le> t"
  with unix_bounds(2) [of t] have "a * Second < (unix t + 1) * Second" by linarith
  then show "a \<le> unix t" by (simp add: Second_def)
qed

lemma wall_day_at:
  assumes "zs_offset (zone (unix t)) = offset"
  shows "wall_day zone t = day \<longleftrightarrow> calendarTime day - offset * Second \<le> t \<and> t < calendarTime (day + 1) - offset * Second"
proof -
  have "wall_day zone t = day \<longleftrightarrow> day * 86400 \<le> unix t + offset \<and> \<not> (day + 1) * 86400 \<le> unix t + offset"
    using assms by (auto simp: wall_day_def wall_seconds_def)
  also have "\<dots> \<longleftrightarrow> day * 86400 - offset \<le> unix t \<and> \<not> (day + 1) * 86400 - offset \<le> unix t" by linarith
  also have "\<dots> \<longleftrightarrow> (day * 86400 - offset) * Second \<le> t \<and> t < ((day + 1) * 86400 - offset) * Second"
    unfolding le_unix_iff by (simp add: not_le)
  finally show ?thesis by (simp add: calendarTime_def day_seconds_def algebra_simps)
qed

text \<open>What the loop has found when it has come to \<open>cursor\<close>: the hull of the instants of the date from \<open>lo\<close> on.\<close>

definition hull_of :: "zone \<Rightarrow> CivilDate \<Rightarrow> time \<Rightarrow> time \<Rightarrow> Interval option \<Rightarrow> bool" where
  "hull_of zone day lo cursor found \<longleftrightarrow>
     (case found of
        None \<Rightarrow> \<forall>t. lo \<le> t \<longrightarrow> t < cursor \<longrightarrow> wall_day zone t \<noteq> day
      | Some b \<Rightarrow> lo \<le> iv_Start b \<and> iv_Start b < iv_End b \<and> iv_End b \<le> cursor
          \<and> wall_day zone (iv_Start b) = day \<and> wall_day zone (iv_End b - 1) = day
          \<and> (\<forall>t. lo \<le> t \<longrightarrow> t < cursor \<longrightarrow> wall_day zone t = day \<longrightarrow> iv_Start b \<le> t \<and> t < iv_End b))"

lemma hull_step:
  assumes hull: "hull_of zone day lo c found" and "lo \<le> c" and "c < e"
    and const: "\<And>u. c \<le> u \<Longrightarrow> u < e \<Longrightarrow> zs_offset (zone (unix u)) = offset"
  defines "start \<equiv> max c (calendarTime day - offset * Second)" and "stop \<equiv> min e (calendarTime (day + 1) - offset * Second)"
  shows "hull_of zone day lo e
    (if start < stop then Some \<lparr>iv_Start = (case found of None \<Rightarrow> start | Some b \<Rightarrow> iv_Start b), iv_End = stop\<rparr> else found)"
proof -
  have here: "wall_day zone u = day \<longleftrightarrow> start \<le> u \<and> u < stop" if "c \<le> u" "u < e" for u
    using wall_day_at [where zone = zone and t = u and day = day, OF const [OF that]] that by (auto simp: start_def stop_def)
  have bounds: "c \<le> start" "stop \<le> e" by (simp_all add: start_def stop_def)
  show ?thesis
  proof (cases "start < stop")
    case True
    have ends: "wall_day zone start = day" "wall_day zone (stop - 1) = day"
      using here [of start] here [of "stop - 1"] bounds True by simp_all
    show ?thesis
    proof (cases found)
      case None
      with hull have before: "wall_day zone t \<noteq> day" if "lo \<le> t" "t < c" for t using that by (simp add: hull_of_def)
      have "start \<le> t \<and> t < stop" if "lo \<le> t" "t < e" "wall_day zone t = day" for t
        using before [of t] here [of t] that by force
      with None True ends bounds assms(2) show ?thesis by (simp add: hull_of_def)
    next
      case (Some b)
      with hull have b: "lo \<le> iv_Start b" "iv_Start b < iv_End b" "iv_End b \<le> c" "wall_day zone (iv_Start b) = day"
        and before: "lo \<le> t \<Longrightarrow> t < c \<Longrightarrow> wall_day zone t = day \<Longrightarrow> iv_Start b \<le> t \<and> t < iv_End b" for t
        by (simp_all add: hull_of_def)
      have "iv_Start b \<le> t \<and> t < stop" if "lo \<le> t" "t < e" "wall_day zone t = day" for t
        using before [of t] here [of t] that b bounds True by force
      with Some True ends b bounds show ?thesis by (simp add: hull_of_def)
    qed
  next
    case False
    then have none: "wall_day zone u \<noteq> day" if "c \<le> u" "u < e" for u using here [OF that] by auto
    show ?thesis
    proof (cases found)
      case None
      have "wall_day zone t \<noteq> day" if "lo \<le> t" "t < e" for t
        using hull None none [of t] that by (cases "t < c") (simp_all add: hull_of_def)
      with None False show ?thesis by (simp add: hull_of_def)
    next
      case (Some b)
      have "iv_Start b \<le> t \<and> t < iv_End b" if "lo \<le> t" "t < e" "wall_day zone t = day" for t
        using hull Some none [of t] that by (cases "t < c") (simp_all add: hull_of_def)
      with Some False hull assms(3) show ?thesis by (simp add: hull_of_def)
    qed
  qed
qed

context segmented_zone
begin

lemma day_segments_hull:
  assumes "hull_of zone day lo c found" and "lo \<le> c" and "c \<le> searchEnd"
  shows "\<exists>found'. day_segments zone (calendarTime day) (calendarTime (day + 1)) searchEnd c found = Some found'
    \<and> hull_of zone day lo searchEnd found'"
  using assms
proof (induction "nat (searchEnd - c)" arbitrary: c found rule: less_induct)
  case less
  show ?case
  proof (cases "c < searchEnd")
    case False
    with less.prems have "c = searchEnd" by simp
    with less.prems(1) show ?thesis by (subst day_segments.simps) simp
  next
    case True
    let ?offset = "zs_offset (zone (unix c))"
    define e where "e = (case ZoneSegmentEnd zone c of None \<Rightarrow> searchEnd | Some e \<Rightarrow> if searchEnd < e then searchEnd else e)"
    define start where "start = max c (calendarTime day - ?offset * Second)"
    define stop where "stop = min e (calendarTime (day + 1) - ?offset * Second)"
    define found' where "found' = (if start < stop
      then Some \<lparr>iv_Start = (case found of None \<Rightarrow> start | Some b \<Rightarrow> iv_Start b), iv_End = stop\<rparr> else found)"
    have e: "c < e" "e \<le> searchEnd" using True segment_until(1) [of c] by (auto simp: e_def split: option.split)
    have const: "zs_offset (zone (unix u)) = ?offset" if "c \<le> u" "u < e" for u
      using that segment_forever [of c u] segment_until(2) [of c _ u] by (auto simp: e_def split: option.splits if_splits)
    have "hull_of zone day lo e found'"
      unfolding found'_def start_def stop_def by (rule hull_step [OF less.prems(1,2) e(1) const])
    moreover have "nat (searchEnd - e) < nat (searchEnd - c)" using e True by simp
    ultimately obtain r where "day_segments zone (calendarTime day) (calendarTime (day + 1)) searchEnd e found' = Some r"
        "hull_of zone day lo searchEnd r"
      using less.hyps [of e found'] less.prems(2) e by auto
    moreover have "day_segments zone (calendarTime day) (calendarTime (day + 1)) searchEnd c found =
        day_segments zone (calendarTime day) (calendarTime (day + 1)) searchEnd e found'"
      unfolding found'_def start_def stop_def e_def using True by (subst day_segments.simps) (simp add: Let_def)
    ultimately show ?thesis by simp
  qed
qed

lemma date_near:
  assumes "wall_day zone t = day"
  shows "calendarTime day - 48 * Hour \<le> t \<and> t < calendarTime (day + 1) + 48 * Hour"
proof -
  let ?o = "zs_offset (zone (unix t))"
  have "?o * Second \<le> 48 * Hour" "- (48 * Hour) \<le> ?o * Second"
    using offset_bound [of "unix t"] by (simp_all add: Hour_def Minute_def Second_def)
  with assms show ?thesis by (auto simp: wall_day_at [OF refl])
qed

lemma day_bounds:
  "\<exists>found. DayBounds zone day = Some found
     \<and> (case found of
          None \<Rightarrow> \<forall>t. wall_day zone t \<noteq> day
        | Some b \<Rightarrow> wall_day zone (iv_Start b) = day \<and> wall_day zone (iv_End b - 1) = day
            \<and> (\<forall>t. wall_day zone t = day \<longrightarrow> iv_Start b \<le> t \<and> t < iv_End b))"
proof -
  let ?lo = "calendarTime day - 48 * Hour" and ?hi = "calendarTime (day + 1) + 48 * Hour"
  have "?lo \<le> ?hi" by (simp add: calendarTime_def day_seconds_def Hour_def Minute_def Second_def)
  moreover have "hull_of zone day ?lo ?lo None" by (simp add: hull_of_def)
  ultimately obtain r where "day_segments zone (calendarTime day) (calendarTime (day + 1)) ?hi ?lo None = Some r"
      "hull_of zone day ?lo ?hi r"
    using day_segments_hull by blast
  with date_near [of _ day] show ?thesis
    by (auto simp: DayBounds_def Let_def date_AddDays_def hull_of_def split: option.splits)
qed

end

text \<open>
  \<open>DayBounds\<close> ends and is exact in every zone, whatever its transitions do at midnight: it reports
  that a date does not exist exactly if no instant has it, and otherwise the first instant of the
  date and the instant after its last one.
\<close>

theorem day_bounds_exact:
  assumes "segments_true zone"
  shows "\<exists>found. DayBounds zone day = Some found
     \<and> (case found of
          None \<Rightarrow> \<forall>t. DateOf zone t \<noteq> day
        | Some b \<Rightarrow> DateOf zone (iv_Start b) = day \<and> DateOf zone (iv_End b - 1) = day
            \<and> (\<forall>t. DateOf zone t = day \<longrightarrow> iv_Start b \<le> t \<and> t < iv_End b))"
  unfolding DateOf_def by (rule segmented_zone.day_bounds [OF segmented_zone.intro [OF assms]])

text \<open>
  Zones: a fixed offset, and two with one transition each. On 2024-09-08 Santiago skips the hour after
  midnight; in 2011 Apia skips the whole 30th of December.
\<close>

lemma fixed_zone_segments: "\<bar>offset\<bar> \<le> 172800 \<Longrightarrow> segments_true (fixed_zone offset)"
  by (simp add: segments_true_def ZoneSegmentEnd_def fixed_zone_def)

definition one_transition :: "int \<Rightarrow> int \<Rightarrow> int \<Rightarrow> zone" where
  "one_transition at before after u =
     (if u < at then \<lparr>zs_offset = before, zs_start = MinInt64, zs_end = at\<rparr>
      else \<lparr>zs_offset = after, zs_start = at, zs_end = MaxInt64\<rparr>)"

lemma one_transition_segments:
  assumes "\<bar>before\<bar> \<le> 172800" and "\<bar>after\<bar> \<le> 172800" and "at < MaxInt64"
  shows "segments_true (one_transition at before after)"
proof -
  have less: "unix t < at \<longleftrightarrow> t < at * Second" for t using le_unix_iff [of at t] by linarith
  have mono: "unix t \<le> unix u" if "t \<le> u" for t u using that by (simp add: unix_def zdiv_mono1 Second_def)
  have "case ZoneSegmentEnd (one_transition at before after) t of
     None \<Rightarrow> \<forall>u \<ge> t. zs_offset (one_transition at before after (unix u)) = zs_offset (one_transition at before after (unix t))
   | Some e \<Rightarrow> t < e \<and> (\<forall>u. t \<le> u \<and> u < e \<longrightarrow>
       zs_offset (one_transition at before after (unix u)) = zs_offset (one_transition at before after (unix t)))" for t
  proof (cases "unix t < at")
    case True
    then have "ZoneSegmentEnd (one_transition at before after) t = Some (at * Second)"
      using assms(3) less [of t] by (simp add: ZoneSegmentEnd_def one_transition_def)
    with True show ?thesis by (simp add: less one_transition_def)
  next
    case False
    then have "ZoneSegmentEnd (one_transition at before after) t = None" by (simp add: ZoneSegmentEnd_def one_transition_def)
    moreover have "\<not> unix u < at" if "t \<le> u" for u using False mono [OF that] by simp
    ultimately show ?thesis using False by (simp add: one_transition_def)
  qed
  with assms(1,2) show ?thesis by (simp add: segments_true_def one_transition_def)
qed

interpretation santiago_days: segmented_zone "one_transition 1725768000 (- 14400) (- 10800)"
  by unfold_locales (rule one_transition_segments; simp add: MaxInt64_def)

interpretation apia_days: segmented_zone "one_transition 1325239200 (- 36000) 50400"
  by unfold_locales (rule one_transition_segments; simp add: MaxInt64_def)

lemma DayBounds_value:
  assumes "segments_true zone" and "wall_day zone s = day" and "wall_day zone (e - 1) = day"
    and "\<And>t. wall_day zone t = day \<Longrightarrow> s \<le> t \<and> t < e"
  shows "DayBounds zone day = Some (Some \<lparr>iv_Start = s, iv_End = e\<rparr>)"
proof -
  obtain found where f: "DayBounds zone day = Some found" and c: "case found of
      None \<Rightarrow> \<forall>t. wall_day zone t \<noteq> day
    | Some b \<Rightarrow> wall_day zone (iv_Start b) = day \<and> wall_day zone (iv_End b - 1) = day
        \<and> (\<forall>t. wall_day zone t = day \<longrightarrow> iv_Start b \<le> t \<and> t < iv_End b)"
    using segmented_zone.day_bounds [OF segmented_zone.intro [OF assms(1)]] by blast
  with assms(2) obtain b where b: "found = Some b" by (cases found) auto
  with c assms(2,3) have "iv_Start b \<le> s" "e - 1 < iv_End b" "wall_day zone (iv_Start b) = day" "wall_day zone (iv_End b - 1) = day" by auto
  with assms(4) [of "iv_Start b"] assms(4) [of "iv_End b - 1"] have "iv_Start b = s" "iv_End b = e" by auto
  with b f show ?thesis by (cases b) simp
qed

text \<open>The first instant of 2024-09-08 in Santiago is 01:00, and 2011-12-30 does not exist in Apia.\<close>

lemma one_transition_day:
  "wall_day (one_transition at before after) t = day \<longleftrightarrow>
     (if t < at * Second then calendarTime day - before * Second \<le> t \<and> t < calendarTime (day + 1) - before * Second
      else calendarTime day - after * Second \<le> t \<and> t < calendarTime (day + 1) - after * Second)"
proof -
  have "unix t < at \<longleftrightarrow> t < at * Second" using le_unix_iff [of at t] by linarith
  then have "zs_offset (one_transition at before after (unix t)) = (if t < at * Second then before else after)"
    by (simp add: one_transition_def)
  from wall_day_at [where zone = "one_transition at before after", OF this] show ?thesis by simp
qed

lemma day_bounds_exact_witness:
  "(\<exists>b. DayBounds (one_transition 1725768000 (- 14400) (- 10800)) 19974 = Some (Some b) \<and> iv_Start b = 1725768000 * Second)
   \<and> DayBounds (one_transition 1325239200 (- 36000) 50400) 15338 = Some None"
proof -
  let ?s = "one_transition 1725768000 (- 14400) (- 10800)" and ?a = "one_transition 1325239200 (- 36000) 50400"
  have s: "DateOf ?s t = 19974 \<longleftrightarrow> 1725768000 * Second \<le> t \<and> t < 1725850800 * Second" for t
    by (auto simp: DateOf_def one_transition_day calendarTime_def day_seconds_def Second_def)
  have a: "DateOf ?a t \<noteq> 15338" for t
    by (auto simp: DateOf_def one_transition_day calendarTime_def day_seconds_def Second_def)
  obtain f where f: "DayBounds ?s 19974 = Some f" and c: "case f of None \<Rightarrow> \<forall>t. DateOf ?s t \<noteq> 19974
      | Some b \<Rightarrow> DateOf ?s (iv_Start b) = 19974 \<and> DateOf ?s (iv_End b - 1) = 19974
          \<and> (\<forall>t. DateOf ?s t = 19974 \<longrightarrow> iv_Start b \<le> t \<and> t < iv_End b)"
    using day_bounds_exact [OF santiago_days.segments, of 19974] by blast
  have "DateOf ?s (1725768000 * Second) = 19974" using s [of "1725768000 * Second"] by (simp add: Second_def)
  with c obtain b where b: "f = Some b" "iv_Start b \<le> 1725768000 * Second" "1725768000 * Second \<le> iv_Start b"
    by (cases f) (auto simp: s)
  obtain g where g: "DayBounds ?a 15338 = Some g" and "case g of None \<Rightarrow> \<forall>t. DateOf ?a t \<noteq> 15338
      | Some b \<Rightarrow> DateOf ?a (iv_Start b) = 15338 \<and> DateOf ?a (iv_End b - 1) = 15338
          \<and> (\<forall>t. DateOf ?a t = 15338 \<longrightarrow> iv_Start b \<le> t \<and> t < iv_End b)"
    using day_bounds_exact [OF apia_days.segments, of 15338] by blast
  with a have "g = None" by (cases g) auto
  with f g b show ?thesis by auto
qed

text \<open>In a zone with regular days a date lasts from its midnight to the next one.\<close>

lemma regular_day_iff:
  assumes "regular_days zone"
  shows "wall_day zone t = day \<longleftrightarrow> midnight zone day * Second \<le> t \<and> t < midnight zone (day + 1) * Second"
  unfolding regular_zone.wall_day_iff [OF regular_zone.intro [OF assms]] le_unix_iff [symmetric] by (simp add: not_le [symmetric] le_unix_iff)

lemma DayBounds_regular:
  assumes "regular_days zone" and "segments_true zone"
  shows "DayBounds zone day = Some (Some \<lparr>iv_Start = midnight zone day * Second, iv_End = midnight zone (day + 1) * Second\<rparr>)"
proof (rule DayBounds_value [OF assms(2)])
  have "midnight zone day * Second < midnight zone (day + 1) * Second"
    using regular_zone.midnight_less [OF regular_zone.intro [OF assms(1)], of day] by (simp add: Second_def)
  then show "wall_day zone (midnight zone day * Second) = day" "wall_day zone (midnight zone (day + 1) * Second - 1) = day"
    by (simp_all add: regular_day_iff [OF assms(1)])
qed (simp add: regular_day_iff [OF assms(1)])

end
