(* ===== verification/Query_Range.thy ===== *)
theory Query_Range
  imports Calendar Go_Strconv
begin

text \<open>
  The time ranges of usage queries: \<open>src/internal/timeutil/usage_range.go\<close> and
  \<open>usage_query_range.go\<close>. The zone is \<open>time.Local\<close>. \<open>time.Parse\<close> is a parameter: \<open>parseDate\<close> reads a date
  in the layout \<open>DateOnly\<close> and \<open>parseRFC3339\<close> an instant. An error is told apart by what the code
  tells apart: whether it is a conflict with the bounds that move with the clock.
\<close>


section \<open>Rolling ranges\<close>

datatype UsageRollingUnit = UsageRollingUnitHour | UsageRollingUnitDay

record UsageRollingRange =
  rr_Value :: int
  rr_Unit :: UsageRollingUnit

definition rolling_Duration :: "UsageRollingRange \<Rightarrow> duration" where
  "rolling_Duration r = (if rr_Unit r = UsageRollingUnitDay then rr_Value r * 24 * Hour else rr_Value r * Hour)"

definition ParseUsageRollingRange :: "string \<Rightarrow> UsageRollingRange option" where
  "ParseUsageRollingRange value =
     (if length value < 2 then None
      else
        let u = last value; numberText = butlast value
        in if u \<noteq> CHR ''h'' \<and> u \<noteq> CHR ''d'' then None
           else case Atoi numberText of
             None \<Rightarrow> None
           | Some number \<Rightarrow>
               if Itoa number \<noteq> numberText then None
               else
                 let (minimum, maximum) = (if u = CHR ''d'' then (1, 30) else (5, 24))
                 in if number < minimum \<or> maximum < number then None
                    else Some \<lparr>rr_Value = number, rr_Unit = (if u = CHR ''d'' then UsageRollingUnitDay else UsageRollingUnitHour)\<rparr>)"

definition IsUsageRollingHourRange :: "string \<Rightarrow> bool" where
  "IsUsageRollingHourRange value =
     (case ParseUsageRollingRange value of None \<Rightarrow> False | Some r \<Rightarrow> rr_Unit r = UsageRollingUnitHour)"

definition IsUsageRollingDayRange :: "string \<Rightarrow> bool" where
  "IsUsageRollingDayRange value =
     (case ParseUsageRollingRange value of None \<Rightarrow> False | Some r \<Rightarrow> rr_Unit r = UsageRollingUnitDay)"


section \<open>Query ranges\<close>

datatype UsageQueryUnit = UsageQueryUnitHour | UsageQueryUnitDay

record UsageQueryRange =
  qr_Range :: string
  qr_Unit :: UsageQueryUnit
  qr_Count :: int
  qr_StartTime :: time
  qr_EndTime :: time
  qr_EndExclusive :: bool

datatype rangeError = InvalidRange | UsageQueryRangeBoundsConflict

definition IsUsageQueryRangeBoundsConflict :: "rangeError \<Rightarrow> bool" where
  "IsUsageQueryRangeBoundsConflict err \<longleftrightarrow> err = UsageQueryRangeBoundsConflict"

definition defaultCustomDayRangeMaxDays :: int where "defaultCustomDayRangeMaxDays = 30"

definition LongCustomDayRangeMaxDays :: int where "LongCustomDayRangeMaxDays = 365"

record timeParsers =
  tp_date :: "string \<Rightarrow> CivilDate option"
  tp_rfc3339 :: "string \<Rightarrow> time option"

definition resolveUsageQueryUnit :: "timeParsers \<Rightarrow> string \<Rightarrow> string \<Rightarrow> string \<Rightarrow> rangeError + UsageQueryUnit" where
  "resolveUsageQueryUnit parsers unitValue startValue endValue =
     (let u = TrimSpace unitValue
      in if u = '''' then
           (if tp_date parsers startValue \<noteq> None \<and> tp_date parsers endValue \<noteq> None then Inr UsageQueryUnitDay
            else Inr UsageQueryUnitHour)
         else if u = ''hour'' then Inr UsageQueryUnitHour
         else if u = ''day'' then Inr UsageQueryUnitDay
         else Inl InvalidRange)"

text \<open>The minutes, seconds and nanoseconds that the wall clock shows beyond the hour.\<close>

definition past_hour :: "zone \<Rightarrow> time \<Rightarrow> duration" where
  "past_hour zone t =
     (let w = wall_seconds zone t
      in w mod 3600 div 60 * Minute + w mod 60 * Second + t mod Second)"

definition parseUsageQueryHour :: "zone \<Rightarrow> timeParsers \<Rightarrow> string \<Rightarrow> rangeError + time" where
  "parseUsageQueryHour zone parsers value =
     (case tp_rfc3339 parsers value of
        None \<Rightarrow> Inl InvalidRange
      | Some parsed \<Rightarrow>
          let w = wall_seconds zone parsed
          in if w mod 3600 div 60 \<noteq> 0 \<or> w mod 60 \<noteq> 0 \<or> parsed mod Second \<noteq> 0 then Inl InvalidRange else Inr parsed)"

text \<open>\<open>Sub\<close> saturates, and division and remainder truncate.\<close>

definition parseCustomUsageHourRange :: "zone \<Rightarrow> timeParsers \<Rightarrow> string \<Rightarrow> string \<Rightarrow> time \<Rightarrow> rangeError + UsageQueryRange" where
  "parseCustomUsageHourRange zone parsers startValue endValue anchor =
     andThen (parseUsageQueryHour zone parsers startValue) (\<lambda>startTime.
     andThen (parseUsageQueryHour zone parsers endValue) (\<lambda>endHour.
       if endHour < startTime then Inl InvalidRange
       else
         let selectedHours = time_Sub endHour startTime div Hour + 1;
             currentHour = anchor - past_hour zone anchor
         in if time_Sub endHour startTime mod Hour \<noteq> 0 \<or> selectedHours < 5 \<or> 24 < selectedHours then Inl InvalidRange
            else if startTime < currentHour - 23 * Hour then Inl UsageQueryRangeBoundsConflict
            else if currentHour < endHour then Inl UsageQueryRangeBoundsConflict
            else Inr \<lparr>qr_Range = ''custom'', qr_Unit = UsageQueryUnitHour, qr_Count = selectedHours, qr_StartTime = startTime,
                     qr_EndTime = endHour + Hour, qr_EndExclusive = True\<rparr>))"

text \<open>The outer option is the loop of \<open>DayBounds\<close>, which might not end.\<close>

definition parseCustomUsageDayRange ::
    "zone \<Rightarrow> timeParsers \<Rightarrow> string \<Rightarrow> string \<Rightarrow> time \<Rightarrow> int \<Rightarrow> (rangeError + UsageQueryRange) option" where
  "parseCustomUsageDayRange zone parsers startValue endValue anchor maxDays =
     (case (tp_date parsers startValue, tp_date parsers endValue) of
        (Some startDate, Some endDate) \<Rightarrow>
          let count = DaysUntil startDate endDate + 1; today = DateOf zone anchor
          in if count < 1 \<or> maxDays < count then Some (Inl InvalidRange)
             else if maxDays \<le> DaysUntil startDate today then Some (Inl UsageQueryRangeBoundsConflict)
             else if 0 < DaysUntil today endDate then Some (Inl UsageQueryRangeBoundsConflict)
             else do {
               start \<leftarrow> DayBounds zone startDate;
               stop \<leftarrow> DayBounds zone endDate;
               Some (case (start, stop) of
                       (Some s, Some e) \<Rightarrow>
                         Inr \<lparr>qr_Range = ''custom'', qr_Unit = UsageQueryUnitDay, qr_Count = count,
                              qr_StartTime = iv_Start s, qr_EndTime = iv_End e, qr_EndExclusive = True\<rparr>
                     | _ \<Rightarrow> Inl InvalidRange)
             }
      | _ \<Rightarrow> Some (Inl InvalidRange))"

definition parseCustomUsageQueryRange ::
    "zone \<Rightarrow> timeParsers \<Rightarrow> string \<Rightarrow> string \<Rightarrow> string \<Rightarrow> time \<Rightarrow> int \<Rightarrow> (rangeError + UsageQueryRange) option" where
  "parseCustomUsageQueryRange zone parsers unitValue startValue endValue anchor maxCustomDays =
     (let startValue = TrimSpace startValue; endValue = TrimSpace endValue
      in if startValue = '''' \<or> endValue = '''' then Some (Inl InvalidRange)
         else case resolveUsageQueryUnit parsers unitValue startValue endValue of
           Inl err \<Rightarrow> Some (Inl err)
         | Inr UsageQueryUnitDay \<Rightarrow>
             parseCustomUsageDayRange zone parsers startValue endValue anchor
               (if maxCustomDays \<le> 0 then defaultCustomDayRangeMaxDays else maxCustomDays)
         | Inr UsageQueryUnitHour \<Rightarrow> Some (parseCustomUsageHourRange zone parsers startValue endValue anchor))"

definition ParseUsageQueryRangeWithOptions ::
    "zone \<Rightarrow> timeParsers \<Rightarrow> string \<Rightarrow> string \<Rightarrow> string \<Rightarrow> string \<Rightarrow> time \<Rightarrow> int \<Rightarrow> (rangeError + UsageQueryRange) option" where
  "ParseUsageQueryRangeWithOptions zone parsers rangeValue unitValue startValue endValue anchor maxCustomDays =
     (let rangeValue = TrimSpace rangeValue
      in if rangeValue = '''' \<or> anchor = zeroTime then Some (Inl InvalidRange)
         else if rangeValue = ''today'' \<or> rangeValue = ''yesterday'' then
           let date = (if rangeValue = ''yesterday'' then date_AddDays (DateOf zone anchor) (- 1) else DateOf zone anchor)
           in do {
             bounds \<leftarrow> DayBounds zone date;
             Some (case bounds of
                     None \<Rightarrow> Inl InvalidRange
                   | Some b \<Rightarrow> Inr \<lparr>qr_Range = rangeValue, qr_Unit = UsageQueryUnitDay, qr_Count = 1,
                                   qr_StartTime = iv_Start b, qr_EndTime = iv_End b - Nanosecond, qr_EndExclusive = False\<rparr>)
           }
         else if rangeValue = ''custom'' then
           parseCustomUsageQueryRange zone parsers unitValue startValue endValue anchor maxCustomDays
         else Some (case ParseUsageRollingRange rangeValue of
                      None \<Rightarrow> Inl InvalidRange
                    | Some rolling \<Rightarrow>
                        let window = ElapsedRange anchor (rolling_Duration rolling)
                        in Inr \<lparr>qr_Range = rangeValue,
                                qr_Unit = (if rr_Unit rolling = UsageRollingUnitDay then UsageQueryUnitDay else UsageQueryUnitHour),
                                qr_Count = rr_Value rolling, qr_StartTime = iv_Start window, qr_EndTime = iv_End window,
                                qr_EndExclusive = False\<rparr>))"

definition ParseUsageQueryRange ::
    "zone \<Rightarrow> timeParsers \<Rightarrow> string \<Rightarrow> string \<Rightarrow> string \<Rightarrow> string \<Rightarrow> time \<Rightarrow> (rangeError + UsageQueryRange) option" where
  "ParseUsageQueryRange zone parsers rangeValue unitValue startValue endValue anchor =
     ParseUsageQueryRangeWithOptions zone parsers rangeValue unitValue startValue endValue anchor 0"

section \<open>What an accepted range covers\<close>

text \<open>
  Rolling ranges are parsed exactly: the accepted texts are the canonical decimals 5 to 24 with an \<open>h\<close> and 1 to
  30 with a \<open>d\<close>, and the result is the number and the unit.
\<close>

theorem rolling_range_exact:
  "ParseUsageRollingRange value = Some r \<longleftrightarrow>
     value = Itoa (rr_Value r) @ (if rr_Unit r = UsageRollingUnitDay then ''d'' else ''h'')
     \<and> (if rr_Unit r = UsageRollingUnitDay then 1 \<le> rr_Value r \<and> rr_Value r \<le> 30 else 5 \<le> rr_Value r \<and> rr_Value r \<le> 24)"
    (is "?L \<longleftrightarrow> ?R")
proof
  assume ?L
  then have len: "\<not> length value < 2" by (auto simp: ParseUsageRollingRange_def split: if_splits)
  then have "value = butlast value @ [last value]" by (intro append_butlast_last_id [symmetric]) auto
  with \<open>?L\<close> len show ?R
    by (auto simp: ParseUsageRollingRange_def Let_def split: if_splits option.splits)
next
  assume R: ?R
  then have "is_int64 (rr_Value r)" by (auto simp: int64_bounds split: if_splits)
  from Atoi_Itoa [OF this] have atoi: "Atoi (Itoa (rr_Value r)) = Some (rr_Value r)" .
  have "Itoa (rr_Value r) \<noteq> []" using itoa_digits by (simp add: Itoa_def)
  then have len: "\<not> length (Itoa (rr_Value r) @ [c]) < 2" for c by (cases "Itoa (rr_Value r)") simp_all
  let ?v = "rr_Value r"
  show ?L
  proof (cases "rr_Unit r")
    case UsageRollingUnitHour
    with R have "value = Itoa ?v @ [CHR ''h'']" "5 \<le> ?v" "?v \<le> 24" by simp_all
    then have "ParseUsageRollingRange value = Some \<lparr>rr_Value = ?v, rr_Unit = UsageRollingUnitHour\<rparr>"
      using len [of "CHR ''h''"] by (simp add: ParseUsageRollingRange_def atoi)
    moreover have "\<lparr>rr_Value = ?v, rr_Unit = UsageRollingUnitHour\<rparr> = r" using UsageRollingUnitHour by (cases r) simp
    ultimately show ?thesis by (simp only:)
  next
    case UsageRollingUnitDay
    with R have "value = Itoa ?v @ [CHR ''d'']" "1 \<le> ?v" "?v \<le> 30" by simp_all
    then have "ParseUsageRollingRange value = Some \<lparr>rr_Value = ?v, rr_Unit = UsageRollingUnitDay\<rparr>"
      using len [of "CHR ''d''"] by (simp add: ParseUsageRollingRange_def atoi)
    moreover have "\<lparr>rr_Value = ?v, rr_Unit = UsageRollingUnitDay\<rparr> = r" using UsageRollingUnitDay by (cases r) simp
    ultimately show ?thesis by (simp only:)
  qed
qed

text \<open>What a date covers, for the bounds of a day.\<close>

definition covers_dates :: "zone \<Rightarrow> CivilDate \<Rightarrow> CivilDate \<Rightarrow> time \<Rightarrow> time \<Rightarrow> bool" where
  "covers_dates zone s e start stop \<longleftrightarrow>
     DateOf zone start = s \<and> DateOf zone (stop - 1) = e
     \<and> (\<forall>t. DateOf zone t = s \<longrightarrow> start \<le> t) \<and> (\<forall>t. DateOf zone t = e \<longrightarrow> t < stop)"

text \<open>How far the wall clock is past its last whole hour.\<close>

definition into_hour :: "zone \<Rightarrow> time \<Rightarrow> duration" where
  "into_hour zone t = wall_seconds zone t mod 3600 * Second + t mod Second"

text \<open>
  What an accepted range is, from the texts of the request. The days: both texts are dates,
  and the range goes from the first instant of the first to the last of the second date.
\<close>

definition days_asked :: "zone \<Rightarrow> timeParsers \<Rightarrow> string \<Rightarrow> string \<Rightarrow> time \<Rightarrow> UsageQueryRange \<Rightarrow> bool" where
  "days_asked zone parsers startText endText anchor r \<longleftrightarrow>
     (\<exists>s e. tp_date parsers startText = Some s \<and> tp_date parsers endText = Some e
        \<and> covers_dates zone s e (qr_StartTime r) (qr_EndTime r)
        \<and> qr_Count r = e - s + 1 \<and> 1 \<le> qr_Count r \<and> qr_Count r \<le> 30
        \<and> e \<le> DateOf zone anchor \<and> DateOf zone anchor - s < 30)
   \<and> qr_Range r = ''custom'' \<and> qr_Unit r = UsageQueryUnitDay \<and> qr_EndExclusive r"

text \<open>The hours: both texts are instants at a whole hour, of which the second is included.\<close>

definition hours_asked :: "zone \<Rightarrow> timeParsers \<Rightarrow> string \<Rightarrow> string \<Rightarrow> time \<Rightarrow> UsageQueryRange \<Rightarrow> bool" where
  "hours_asked zone parsers startText endText anchor r \<longleftrightarrow>
     (\<exists>s e. tp_rfc3339 parsers startText = Some s \<and> tp_rfc3339 parsers endText = Some e
        \<and> into_hour zone s = 0 \<and> into_hour zone e = 0
        \<and> qr_StartTime r = s \<and> qr_EndTime r = e + Hour
        \<and> e - s + Hour = qr_Count r * Hour \<and> 5 \<le> qr_Count r \<and> qr_Count r \<le> 24
        \<and> e \<le> anchor - into_hour zone anchor \<and> anchor - into_hour zone anchor - 23 * Hour \<le> s)
   \<and> qr_Range r = ''custom'' \<and> qr_Unit r = UsageQueryUnitHour \<and> qr_EndExclusive r"

text \<open>Which of the two a custom range asks for: the unit, or without one the form of the texts.\<close>

definition unit_asked :: "timeParsers \<Rightarrow> string \<Rightarrow> string \<Rightarrow> string \<Rightarrow> UsageQueryUnit \<Rightarrow> bool" where
  "unit_asked parsers unit startText endText u \<longleftrightarrow>
     (case u of
        UsageQueryUnitDay \<Rightarrow> unit = ''day'' \<or> unit = '''' \<and> tp_date parsers startText \<noteq> None \<and> tp_date parsers endText \<noteq> None
      | UsageQueryUnitHour \<Rightarrow> unit = ''hour'' \<or> unit = '''' \<and> (tp_date parsers startText = None \<or> tp_date parsers endText = None))"

text \<open>The days \<open>today\<close> and \<open>yesterday\<close>, and the rolling ranges, which end at the anchor.\<close>

definition day_asked :: "zone \<Rightarrow> CivilDate \<Rightarrow> UsageQueryRange \<Rightarrow> bool" where
  "day_asked zone date r \<longleftrightarrow>
     covers_dates zone date date (qr_StartTime r) (qr_EndTime r + 1)
   \<and> qr_Unit r = UsageQueryUnitDay \<and> qr_Count r = 1 \<and> \<not> qr_EndExclusive r"

definition rolling_asked :: "string \<Rightarrow> time \<Rightarrow> UsageQueryRange \<Rightarrow> bool" where
  "rolling_asked rangeText anchor r \<longleftrightarrow>
     (case qr_Unit r of
        UsageQueryUnitDay \<Rightarrow> rangeText = Itoa (qr_Count r) @ ''d'' \<and> 1 \<le> qr_Count r \<and> qr_Count r \<le> 30
          \<and> qr_StartTime r = anchor - qr_Count r * 24 * Hour
      | UsageQueryUnitHour \<Rightarrow> rangeText = Itoa (qr_Count r) @ ''h'' \<and> 5 \<le> qr_Count r \<and> qr_Count r \<le> 24
          \<and> qr_StartTime r = anchor - qr_Count r * Hour)
   \<and> qr_EndTime r = anchor \<and> \<not> qr_EndExclusive r"

definition range_asked ::
    "zone \<Rightarrow> timeParsers \<Rightarrow> string \<Rightarrow> string \<Rightarrow> string \<Rightarrow> string \<Rightarrow> time \<Rightarrow> UsageQueryRange \<Rightarrow> bool" where
  "range_asked zone parsers rangeText unit startText endText anchor r \<longleftrightarrow>
     anchor \<noteq> zeroTime \<and> qr_Range r = rangeText
   \<and> (if rangeText = ''today'' then day_asked zone (DateOf zone anchor) r
      else if rangeText = ''yesterday'' then day_asked zone (DateOf zone anchor - 1) r
      else if rangeText = ''custom'' then
        startText \<noteq> '''' \<and> endText \<noteq> '''' \<and> unit_asked parsers unit startText endText (qr_Unit r)
        \<and> (days_asked zone parsers startText endText anchor r \<or> hours_asked zone parsers startText endText anchor r)
      else rolling_asked rangeText anchor r)"

lemma days_until [simp]: "DaysUntil s e = e - s"
proof -
  have "unix (calendarTime d) = d * day_seconds" for d by (simp add: calendarTime_def)
  then have "DaysUntil s e = (e - s) * 86400 div 86400" by (simp add: DaysUntil_def day_seconds_def left_diff_distrib)
  then show ?thesis by simp
qed

lemma day_bounds_cover:
  assumes "segments_true zone" and "DayBounds zone s = Some (Some b)" and "DayBounds zone e = Some (Some b')"
  shows "covers_dates zone s e (iv_Start b) (iv_End b')"
  using segmented_zone.day_bounds [OF segmented_zone.intro [OF assms(1)], of s]
    segmented_zone.day_bounds [OF segmented_zone.intro [OF assms(1)], of e] assms(2,3)
  by (simp add: covers_dates_def DateOf_def)

lemma day_bounds_total:
  assumes "segments_true zone"
  shows "\<exists>found. DayBounds zone day = Some found"
  using segmented_zone.day_bounds [OF segmented_zone.intro [OF assms], of day] by blast

lemma covers_dates_bounds:
  assumes "segments_true zone"
  shows "covers_dates zone s e start stop \<longleftrightarrow>
    (\<exists>b b'. DayBounds zone s = Some (Some b) \<and> DayBounds zone e = Some (Some b') \<and> start = iv_Start b \<and> stop = iv_End b')"
proof
  assume "\<exists>b b'. DayBounds zone s = Some (Some b) \<and> DayBounds zone e = Some (Some b') \<and> start = iv_Start b \<and> stop = iv_End b'"
  with day_bounds_cover [OF assms] show "covers_dates zone s e start stop" by blast
next
  assume cover: "covers_dates zone s e start stop"
  note bounds = segmented_zone.day_bounds [OF segmented_zone.intro [OF assms]]
  obtain f f' where f: "DayBounds zone s = Some f" "DayBounds zone e = Some f'"
    using day_bounds_total [OF assms, of s] day_bounds_total [OF assms, of e] by blast
  have "f \<noteq> None" "f' \<noteq> None"
    using bounds [of s] bounds [of e] cover f by (auto simp: covers_dates_def DateOf_def split: option.splits)
  then obtain b b' where b: "f = Some b" "f' = Some b'" by auto
  from day_bounds_cover [OF assms] f b have "covers_dates zone s e (iv_Start b) (iv_End b')" by simp
  with cover have "start = iv_Start b" "stop - 1 < iv_End b'" "iv_End b' - 1 < stop"
    unfolding covers_dates_def by (auto intro: order_antisym)
  with f b show "\<exists>b b'. DayBounds zone s = Some (Some b) \<and> DayBounds zone e = Some (Some b') \<and> start = iv_Start b \<and> stop = iv_End b'"
    by auto
qed

lemma past_hour_into: "past_hour zone t = into_hour zone t"
proof -
  let ?w = "wall_seconds zone t mod 3600"
  have "?w div 60 * 60 + ?w mod 60 = ?w" by simp
  moreover have "?w mod 60 = wall_seconds zone t mod 60" by (simp add: mod_mod_cancel)
  ultimately have "?w div 60 * 60 + wall_seconds zone t mod 60 = ?w" by simp
  then have "?w * Second = (?w div 60 * 60 + wall_seconds zone t mod 60) * Second" by simp
  then show ?thesis by (simp add: past_hour_def into_hour_def Let_def Minute_def algebra_simps)
qed

lemma parse_hour_exact:
  "parseUsageQueryHour zone parsers v = Inr t \<longleftrightarrow> tp_rfc3339 parsers v = Some t \<and> into_hour zone t = 0"
proof -
  have whole: "wall_seconds zone x mod 3600 div 60 \<noteq> 0 \<or> wall_seconds zone x mod 60 \<noteq> 0 \<or> x mod Second \<noteq> 0 \<longleftrightarrow> into_hour zone x \<noteq> 0" for x
  proof -
    have "0 \<le> a \<Longrightarrow> 0 \<le> b \<Longrightarrow> 0 \<le> c \<Longrightarrow> a * Minute + b * Second + c = 0 \<longleftrightarrow> a = 0 \<and> b = 0 \<and> c = 0" for a b c
      by (auto simp: Minute_def Second_def)
    moreover have "0 \<le> x mod Second" by (simp add: Second_def)
    ultimately have "wall_seconds zone x mod 3600 div 60 * Minute + wall_seconds zone x mod 60 * Second + x mod Second = 0
        \<longleftrightarrow> wall_seconds zone x mod 3600 div 60 = 0 \<and> wall_seconds zone x mod 60 = 0 \<and> x mod Second = 0"
      by (simp only: pos_imp_zdiv_nonneg_iff pos_mod_sign simp_thms)
    then show ?thesis unfolding past_hour_into [symmetric] past_hour_def Let_def by (simp only: de_Morgan_conj)
  qed
  show ?thesis unfolding parseUsageQueryHour_def Let_def whole by (auto split: option.split)
qed

lemma hours_between:
  "s \<le> e \<and> time_Sub e s mod Hour = 0 \<and> time_Sub e s div Hour + 1 = n \<and> 5 \<le> n \<and> n \<le> 24
    \<longleftrightarrow> e - s + Hour = n * Hour \<and> 5 \<le> n \<and> n \<le> 24" (is "?L \<longleftrightarrow> ?R")
proof
  assume L: ?L
  then have sub: "time_Sub e s = (n - 1) * Hour" using div_mult_mod_eq [of "time_Sub e s" Hour] by auto
  moreover have "(n - 1) * Hour \<le> 23 * Hour" using L by (simp add: Hour_def Minute_def Second_def)
  ultimately have "e - s = (n - 1) * Hour"
    using L by (auto simp: time_Sub_def min_def max_def int64_bounds Hour_def Minute_def Second_def split: if_splits)
  with L show ?R by (simp add: algebra_simps)
next
  assume R: ?R
  then have diff: "e - s = (n - 1) * Hour" by (simp add: algebra_simps)
  moreover have "4 * Hour \<le> (n - 1) * Hour" "(n - 1) * Hour \<le> 23 * Hour" using R by (simp_all add: Hour_def Minute_def Second_def)
  ultimately have "time_Sub e s = (n - 1) * Hour" "s \<le> e"
    by (auto simp: time_Sub_def min_def max_def int64_bounds Hour_def Minute_def Second_def)
  moreover have "Hour \<noteq> 0" by (simp add: Hour_def Minute_def Second_def)
  ultimately show ?L using R by simp
qed

lemma parse_hours_exact:
  "parseCustomUsageHourRange zone parsers startText endText anchor = Inr r \<longleftrightarrow> hours_asked zone parsers startText endText anchor r"
proof -
  have "parseCustomUsageHourRange zone parsers startText endText anchor = Inr r \<longleftrightarrow>
    (\<exists>s e n. parseUsageQueryHour zone parsers startText = Inr s \<and> parseUsageQueryHour zone parsers endText = Inr e
      \<and> (s \<le> e \<and> time_Sub e s mod Hour = 0 \<and> time_Sub e s div Hour + 1 = n \<and> 5 \<le> n \<and> n \<le> 24)
      \<and> anchor - past_hour zone anchor - 23 * Hour \<le> s \<and> e \<le> anchor - past_hour zone anchor
      \<and> r = \<lparr>qr_Range = ''custom'', qr_Unit = UsageQueryUnitHour, qr_Count = n, qr_StartTime = s,
            qr_EndTime = e + Hour, qr_EndExclusive = True\<rparr>)" (is "?code \<longleftrightarrow> ?read")
  proof
    assume ?code
    then show ?read by (auto simp: parseCustomUsageHourRange_def Let_def andThen_eq_Inr not_less split: if_splits)
  next
    assume ?read
    then show ?code by (elim exE conjE) (simp add: parseCustomUsageHourRange_def Let_def)
  qed
  also have "\<dots> \<longleftrightarrow> hours_asked zone parsers startText endText anchor r"
    unfolding hours_between hours_asked_def parse_hour_exact past_hour_into by (cases r) auto
  finally show ?thesis .
qed

lemma parse_days_exact:
  assumes "segments_true zone"
  shows "parseCustomUsageDayRange zone parsers startText endText anchor 30 = Some (Inr r) \<longleftrightarrow> days_asked zone parsers startText endText anchor r"
proof -
  obtain f where f: "\<And>d. DayBounds zone d = Some (f d)" using day_bounds_total [OF assms] by metis
  have "parseCustomUsageDayRange zone parsers startText endText anchor 30 = Some (Inr r) \<longleftrightarrow>
    (\<exists>s e b b'. tp_date parsers startText = Some s \<and> tp_date parsers endText = Some e
      \<and> 1 \<le> e - s + 1 \<and> e - s + 1 \<le> 30 \<and> DateOf zone anchor - s < 30 \<and> e \<le> DateOf zone anchor
      \<and> DayBounds zone s = Some (Some b) \<and> DayBounds zone e = Some (Some b')
      \<and> r = \<lparr>qr_Range = ''custom'', qr_Unit = UsageQueryUnitDay, qr_Count = e - s + 1, qr_StartTime = iv_Start b,
            qr_EndTime = iv_End b', qr_EndExclusive = True\<rparr>)"
    by (auto simp: parseCustomUsageDayRange_def Let_def f split: option.splits if_splits)
  also have "\<dots> \<longleftrightarrow> days_asked zone parsers startText endText anchor r"
    unfolding days_asked_def covers_dates_bounds [OF assms] by (cases r) auto
  finally show ?thesis .
qed

lemma parse_day_total:
  assumes "segments_true zone"
  shows "\<exists>res. parseCustomUsageDayRange zone parsers startValue endValue anchor maxDays = Some res"
proof -
  obtain f where f: "DayBounds zone d = Some (f d)" for d using day_bounds_total [OF assms] by metis
  show ?thesis
    by (cases "tp_date parsers startValue"; cases "tp_date parsers endValue") (simp_all add: parseCustomUsageDayRange_def Let_def f)
qed

lemma parse_custom_exact:
  assumes "segments_true zone"
  shows "\<exists>res. parseCustomUsageQueryRange zone parsers unitValue startValue endValue anchor 0 = Some res
    \<and> (\<forall>r. res = Inr r \<longleftrightarrow>
          TrimSpace startValue \<noteq> '''' \<and> TrimSpace endValue \<noteq> ''''
          \<and> unit_asked parsers (TrimSpace unitValue) (TrimSpace startValue) (TrimSpace endValue) (qr_Unit r)
          \<and> (days_asked zone parsers (TrimSpace startValue) (TrimSpace endValue) anchor r
             \<or> hours_asked zone parsers (TrimSpace startValue) (TrimSpace endValue) anchor r))"
proof -
  let ?s = "TrimSpace startValue" and ?e = "TrimSpace endValue" and ?u = "TrimSpace unitValue"
  obtain day where day: "parseCustomUsageDayRange zone parsers ?s ?e anchor 30 = Some day"
    using parse_day_total [OF assms] by blast
  have days: "day = Inr r \<longleftrightarrow> days_asked zone parsers ?s ?e anchor r" for r
    using parse_days_exact [OF assms, of parsers ?s ?e anchor r] day by simp
  have units: "days_asked zone parsers ?s ?e anchor r \<Longrightarrow> qr_Unit r = UsageQueryUnitDay"
    "hours_asked zone parsers ?s ?e anchor r \<Longrightarrow> qr_Unit r = UsageQueryUnitHour" for r
    by (simp_all add: days_asked_def hours_asked_def)
  have result: "parseCustomUsageQueryRange zone parsers unitValue startValue endValue anchor 0 = Some
      (if ?s = '''' \<or> ?e = '''' then Inl InvalidRange
       else if unit_asked parsers ?u ?s ?e UsageQueryUnitDay then day
       else if unit_asked parsers ?u ?s ?e UsageQueryUnitHour then parseCustomUsageHourRange zone parsers ?s ?e anchor
       else Inl InvalidRange)"
    by (auto simp: parseCustomUsageQueryRange_def resolveUsageQueryUnit_def unit_asked_def day
        defaultCustomDayRangeMaxDays_def Let_def)
  have one: "unit_asked parsers ?u ?s ?e UsageQueryUnitDay \<Longrightarrow> \<not> unit_asked parsers ?u ?s ?e UsageQueryUnitHour"
    by (auto simp: unit_asked_def)
  show ?thesis
    unfolding result using days parse_hours_exact [of zone parsers ?s ?e anchor] units one by auto
qed

lemma parse_date_exact:
  assumes "segments_true zone"
  shows "\<exists>f. DayBounds zone date = Some f \<and> (\<forall>r.
    (case f of None \<Rightarrow> Inl InvalidRange
     | Some b \<Rightarrow> Inr \<lparr>qr_Range = v, qr_Unit = UsageQueryUnitDay, qr_Count = 1,
         qr_StartTime = iv_Start b, qr_EndTime = iv_End b - Nanosecond, qr_EndExclusive = False\<rparr>) = Inr r
    \<longleftrightarrow> qr_Range r = v \<and> day_asked zone date r)"
proof -
  obtain f where f: "DayBounds zone date = Some f" using day_bounds_total [OF assms] by blast
  have "(case f of None \<Rightarrow> Inl InvalidRange
     | Some b \<Rightarrow> Inr \<lparr>qr_Range = v, qr_Unit = UsageQueryUnitDay, qr_Count = 1,
         qr_StartTime = iv_Start b, qr_EndTime = iv_End b - Nanosecond, qr_EndExclusive = False\<rparr>) = Inr r
    \<longleftrightarrow> qr_Range r = v \<and> day_asked zone date r" for r
    by (cases r; cases f) (auto simp: day_asked_def covers_dates_bounds [OF assms] f Nanosecond_def)
  with f show ?thesis by blast
qed

lemma parse_rolling_exact:
  "(case ParseUsageRollingRange v of None \<Rightarrow> Inl InvalidRange
    | Some x \<Rightarrow> Inr \<lparr>qr_Range = v, qr_Unit = (if rr_Unit x = UsageRollingUnitDay then UsageQueryUnitDay else UsageQueryUnitHour),
        qr_Count = rr_Value x, qr_StartTime = anchor - rolling_Duration x, qr_EndTime = anchor, qr_EndExclusive = False\<rparr>) = Inr r
    \<longleftrightarrow> qr_Range r = v \<and> rolling_asked v anchor r" (is "?L \<longleftrightarrow> ?R")
proof
  assume ?L
  then obtain x where x: "ParseUsageRollingRange v = Some x"
    "r = \<lparr>qr_Range = v, qr_Unit = (if rr_Unit x = UsageRollingUnitDay then UsageQueryUnitDay else UsageQueryUnitHour),
        qr_Count = rr_Value x, qr_StartTime = anchor - rolling_Duration x, qr_EndTime = anchor, qr_EndExclusive = False\<rparr>"
    by (auto split: option.splits)
  from x(1) [unfolded rolling_range_exact] show ?R
    by (cases "rr_Unit x") (simp_all add: x(2) rolling_asked_def rolling_Duration_def)
next
  assume R: ?R
  let ?x = "\<lparr>rr_Value = qr_Count r, rr_Unit = (if qr_Unit r = UsageQueryUnitDay then UsageRollingUnitDay else UsageRollingUnitHour)\<rparr>"
  have "ParseUsageRollingRange v = Some ?x"
    unfolding rolling_range_exact using R by (cases "qr_Unit r") (simp_all add: rolling_asked_def)
  with R show ?L by (cases r; cases "qr_Unit r") (simp_all add: rolling_asked_def rolling_Duration_def)
qed

text \<open>
  Claim C39. Query ranges are sound and complete for their texts, and parsing always answers. A request is
  accepted as a range if and only if it is the one its texts ask for: \<open>today\<close> and \<open>yesterday\<close> are exactly that
  local date, whatever its length; a custom range of days goes from the first instant of the date its
  start text names to the last instant of the date its end text names, at most 30 days, not in the
  future and no older than 30 days; a custom range of hours goes from the whole hour its start text
  names to the end of the hour its end text names, 5 to 24 hours, ending no later than the current
  hour and starting within the last 24; a rolling range is as long as its text says and ends at the
  anchor. Everything else, and a request without an anchor, is refused.
\<close>

theorem query_range_sound:
  assumes "segments_true zone"
  shows "\<exists>res. ParseUsageQueryRange zone parsers rangeValue unitValue startValue endValue anchor = Some res
    \<and> (\<forall>r. res = Inr r \<longleftrightarrow>
          range_asked zone parsers (TrimSpace rangeValue) (TrimSpace unitValue) (TrimSpace startValue) (TrimSpace endValue) anchor r)"
proof -
  let ?v = "TrimSpace rangeValue"
  note parse = ParseUsageQueryRange_def ParseUsageQueryRangeWithOptions_def
  consider "?v = '''' \<or> anchor = zeroTime" | "?v \<noteq> ''''" "anchor \<noteq> zeroTime" "?v = ''today'' \<or> ?v = ''yesterday''"
    | "anchor \<noteq> zeroTime" "?v = ''custom''"
    | "?v \<noteq> ''''" "anchor \<noteq> zeroTime" "?v \<noteq> ''today''" "?v \<noteq> ''yesterday''" "?v \<noteq> ''custom''" by blast
  then show ?thesis
  proof cases
    case 1
    have "\<not> rolling_asked '''' anchor r" for r by (auto simp: rolling_asked_def split: UsageQueryUnit.splits)
    with 1 show ?thesis by (auto simp: parse range_asked_def)
  next
    case 2
    obtain f where f: "DayBounds zone (if ?v = ''yesterday'' then DateOf zone anchor - 1 else DateOf zone anchor) = Some f"
      and exact: "\<And>r. (case f of None \<Rightarrow> Inl InvalidRange
         | Some b \<Rightarrow> Inr \<lparr>qr_Range = ?v, qr_Unit = UsageQueryUnitDay, qr_Count = 1,
             qr_StartTime = iv_Start b, qr_EndTime = iv_End b - Nanosecond, qr_EndExclusive = False\<rparr>) = Inr r
        \<longleftrightarrow> qr_Range r = ?v \<and> day_asked zone (if ?v = ''yesterday'' then DateOf zone anchor - 1 else DateOf zone anchor) r"
      using parse_date_exact [OF assms] by blast
    from 2 f exact show ?thesis by (auto simp: parse range_asked_def Let_def date_AddDays_def)
  next
    case 3
    obtain res where "parseCustomUsageQueryRange zone parsers unitValue startValue endValue anchor 0 = Some res"
      and "\<And>r. res = Inr r \<longleftrightarrow> TrimSpace startValue \<noteq> '''' \<and> TrimSpace endValue \<noteq> ''''
          \<and> unit_asked parsers (TrimSpace unitValue) (TrimSpace startValue) (TrimSpace endValue) (qr_Unit r)
          \<and> (days_asked zone parsers (TrimSpace startValue) (TrimSpace endValue) anchor r
             \<or> hours_asked zone parsers (TrimSpace startValue) (TrimSpace endValue) anchor r)"
      using parse_custom_exact [OF assms] by blast
    with 3 show ?thesis by (auto simp: parse range_asked_def days_asked_def hours_asked_def)
  next
    case 4
    then have "ParseUsageQueryRange zone parsers rangeValue unitValue startValue endValue anchor = Some
        (case ParseUsageRollingRange ?v of None \<Rightarrow> Inl InvalidRange
         | Some x \<Rightarrow> Inr \<lparr>qr_Range = ?v, qr_Unit = (if rr_Unit x = UsageRollingUnitDay then UsageQueryUnitDay else UsageQueryUnitHour),
             qr_Count = rr_Value x, qr_StartTime = anchor - rolling_Duration x, qr_EndTime = anchor, qr_EndExclusive = False\<rparr>)"
      by (simp add: parse ElapsedRange_def Let_def split: option.split)
    with 4 parse_rolling_exact [of ?v anchor] show ?thesis by (simp add: range_asked_def)
  qed
qed

section \<open>Conflicts with the clock\<close>

lemma hours_apart:
  assumes "time_Sub e s mod Hour = 0" and "time_Sub e s div Hour + 1 \<le> 24" and "s \<le> e"
  shows "e - s = time_Sub e s div Hour * Hour" and "e - s \<le> 23 * Hour"
proof -
  have sub: "time_Sub e s = time_Sub e s div Hour * Hour" using assms(1) div_mult_mod_eq [of "time_Sub e s" Hour] by simp
  moreover have few: "time_Sub e s div Hour * Hour \<le> 23 * Hour" using assms(2) by (simp add: Hour_def Minute_def Second_def)
  ultimately have "time_Sub e s \<le> 23 * Hour" by simp
  then have "e - s = time_Sub e s"
    using assms(3) by (auto simp: time_Sub_def min_def max_def int64_bounds Hour_def Minute_def Second_def split: if_splits)
  with sub few show "e - s = time_Sub e s div Hour * Hour" "e - s \<le> 23 * Hour" by simp_all
qed

text \<open>An instant just after a whole second shows the same wall clock.\<close>

lemma just_after:
  assumes "t mod Second = 0"
  shows "wall_seconds zone (t + 1) = wall_seconds zone t" and "(t + 1) mod Second = 1" and "t + 1 \<noteq> zeroTime"
proof -
  obtain k where k: "t = Second * k" using assms by (metis mod_0_imp_dvd dvdE)
  have "(t + 1) div Second = t div Second" by (simp add: k Second_def)
  then show "wall_seconds zone (t + 1) = wall_seconds zone t" by (simp add: wall_seconds_def unix_def)
  show m: "(t + 1) mod Second = 1" by (simp add: k Second_def)
  show "t + 1 \<noteq> zeroTime"
  proof
    assume "t + 1 = zeroTime"
    with m have "zeroTime mod Second = 1" by simp
    then show False by (simp add: zeroTime_def Second_def)
  qed
qed

lemma hour_conflict:
  assumes "parseCustomUsageHourRange zone parsers startValue endValue anchor = Inl UsageQueryRangeBoundsConflict"
  shows "\<exists>later r. later \<noteq> zeroTime \<and> parseCustomUsageHourRange zone parsers startValue endValue later = Inr r"
proof -
  have parse: "parseUsageQueryHour zone parsers v \<noteq> Inl UsageQueryRangeBoundsConflict" for v
    by (auto simp: parseUsageQueryHour_def Let_def split: option.split)
  from assms obtain s e where p: "parseUsageQueryHour zone parsers startValue = Inr s" "parseUsageQueryHour zone parsers endValue = Inr e"
      and c: "time_Sub e s mod Hour = 0" "time_Sub e s div Hour + 1 \<le> 24" "s \<le> e" "\<not> time_Sub e s div Hour + 1 < 5"
    using parse
    by (cases "parseUsageQueryHour zone parsers startValue"; cases "parseUsageQueryHour zone parsers endValue")
      (auto simp: parseCustomUsageHourRange_def Let_def split: if_splits)
  from p(2) have e: "wall_seconds zone e mod 3600 div 60 = 0" "wall_seconds zone e mod 60 = 0" "e mod Second = 0"
    by (auto simp: parseUsageQueryHour_def Let_def split: option.splits if_splits)
  have "past_hour zone (e + 1) = 1" using e by (simp add: past_hour_def just_after)
  with p c hours_apart [OF c(1-3)] just_after(3) [OF e(3)] show ?thesis
    by (intro exI [of _ "e + 1"]) (simp add: parseCustomUsageHourRange_def Let_def)
qed

lemma first_instant_whole:
  assumes "segments_true zone" and "DayBounds zone day = Some (Some b)"
  shows "iv_Start b mod Second = 0"
proof -
  let ?u = "unix (iv_Start b) * Second"
  have b: "wall_day zone (iv_Start b) = day" "\<And>t. wall_day zone t = day \<Longrightarrow> iv_Start b \<le> t"
    using segmented_zone.day_bounds [OF segmented_zone.intro [OF assms(1)], of day] assms(2) by auto
  then have "wall_day zone ?u = day" by (simp add: wall_day_def wall_seconds_def)
  with b(2) unix_bounds(1) [of "iv_Start b"] have "iv_Start b = ?u" by (metis order_antisym)
  then show ?thesis by (metis unix_of_seconds(2))
qed

lemma day_conflict:
  assumes "segments_true zone" and "parseCustomUsageDayRange zone parsers startValue endValue anchor maxDays = Some (Inl UsageQueryRangeBoundsConflict)"
  shows "(\<exists>later r. later \<noteq> zeroTime \<and> parseCustomUsageDayRange zone parsers startValue endValue later maxDays = Some (Inr r))
    \<or> (\<exists>v d. v \<in> {startValue, endValue} \<and> tp_date parsers v = Some d \<and> DayBounds zone d = Some None)"
proof -
  from assms(2) obtain s e where p: "tp_date parsers startValue = Some s" "tp_date parsers endValue = Some e"
    by (auto simp: parseCustomUsageDayRange_def split: option.splits)
  obtain f f' where f: "DayBounds zone s = Some f" "DayBounds zone e = Some f'"
    using day_bounds_total [OF assms(1), of s] day_bounds_total [OF assms(1), of e] by blast
  from assms(2) p have count: "\<not> e - s + 1 < 1" "\<not> maxDays < e - s + 1"
    by (auto simp: parseCustomUsageDayRange_def Let_def split: if_splits)
  show ?thesis
  proof (cases "f = None \<or> f' = None")
    case True
    with p f show ?thesis by blast
  next
    case False
    then obtain b b' where b: "f = Some b" "f' = Some b'" by auto
    let ?t = "iv_Start b' + 1"
    have whole: "iv_Start b' mod Second = 0" by (rule first_instant_whole [OF assms(1)]) (use f b in simp)
    have "wall_day zone (iv_Start b') = e"
      using segmented_zone.day_bounds [OF segmented_zone.intro [OF assms(1)], of e] f(2) b(2) by simp
    then have "DateOf zone ?t = e" by (simp add: DateOf_def wall_day_def just_after(1) [OF whole])
    with p f b count just_after(3) [OF whole] show ?thesis
      by (intro disjI1 exI [of _ ?t]) (simp add: parseCustomUsageDayRange_def Let_def)
  qed
qed

text \<open>Every other refusal stays: of what is not a custom range, of a unit, and of a range that is not well formed.\<close>

lemma not_custom_refused:
  assumes "\<not> (TrimSpace rangeValue = ''custom'' \<and> TrimSpace startValue \<noteq> '''' \<and> TrimSpace endValue \<noteq> '''')" and "anchor \<noteq> zeroTime"
    and "TrimSpace rangeValue \<notin> {''today'', ''yesterday''}"
    and "ParseUsageQueryRange zone parsers rangeValue unitValue startValue endValue anchor = Some (Inl err)"
  shows "ParseUsageQueryRange zone parsers rangeValue unitValue startValue endValue t = Some (Inl InvalidRange)"
proof -
  let ?v = "TrimSpace rangeValue" and ?parse = "ParseUsageQueryRange zone parsers rangeValue unitValue startValue endValue"
  have rolling: "?parse t = Some (case ParseUsageRollingRange ?v of None \<Rightarrow> Inl InvalidRange
      | Some x \<Rightarrow> Inr \<lparr>qr_Range = ?v, qr_Unit = (if rr_Unit x = UsageRollingUnitDay then UsageQueryUnitDay else UsageQueryUnitHour),
          qr_Count = rr_Value x, qr_StartTime = t - rolling_Duration x, qr_EndTime = t, qr_EndExclusive = False\<rparr>)"
    if "?v \<noteq> ''''" "?v \<noteq> ''custom''" "t \<noteq> zeroTime" for t
    using that assms(3) by (simp add: ParseUsageQueryRange_def ParseUsageQueryRangeWithOptions_def ElapsedRange_def Let_def split: option.split)
  show ?thesis
  proof (cases "?v = '''' \<or> t = zeroTime \<or> ?v = ''custom''")
    case True
    with assms(1) show ?thesis
      by (auto simp: ParseUsageQueryRange_def ParseUsageQueryRangeWithOptions_def parseCustomUsageQueryRange_def Let_def)
  next
    case False
    then have "ParseUsageRollingRange ?v = None"
      using rolling [of anchor] assms(2,4) by (cases "ParseUsageRollingRange ?v") simp_all
    with False rolling [of t] show ?thesis by simp
  qed
qed

lemma parse_custom:
  assumes "TrimSpace rangeValue = ''custom''" and "TrimSpace startValue \<noteq> ''''" and "TrimSpace endValue \<noteq> ''''"
  shows "ParseUsageQueryRange zone parsers rangeValue unitValue startValue endValue t =
    (if t = zeroTime then Some (Inl InvalidRange)
     else case resolveUsageQueryUnit parsers unitValue (TrimSpace startValue) (TrimSpace endValue) of
        Inl err \<Rightarrow> Some (Inl err)
      | Inr UsageQueryUnitDay \<Rightarrow> parseCustomUsageDayRange zone parsers (TrimSpace startValue) (TrimSpace endValue) t 30
      | Inr UsageQueryUnitHour \<Rightarrow> Some (parseCustomUsageHourRange zone parsers (TrimSpace startValue) (TrimSpace endValue) t))"
  using assms by (simp add: ParseUsageQueryRange_def ParseUsageQueryRangeWithOptions_def parseCustomUsageQueryRange_def
      defaultCustomDayRangeMaxDays_def Let_def split: sum.split UsageQueryUnit.split)

lemma day_refused:
  "parseCustomUsageDayRange zone parsers s e anchor 30 = Some (Inl InvalidRange) \<Longrightarrow> parseCustomUsageDayRange zone parsers s e t 30 \<noteq> Some (Inr r)"
  by (auto simp: parseCustomUsageDayRange_def Let_def bind_eq_Some_conv split: option.splits if_splits)

lemma hour_refused:
  "parseCustomUsageHourRange zone parsers s e anchor = Inl InvalidRange \<Longrightarrow> parseCustomUsageHourRange zone parsers s e t \<noteq> Inr r"
  by (auto simp: parseCustomUsageHourRange_def Let_def andThen_eq_Inr split: if_splits)

lemma unit_refused: "resolveUsageQueryUnit parsers unitValue s e = Inl err \<Longrightarrow> err = InvalidRange"
  by (auto simp: resolveUsageQueryUnit_def Let_def split: if_splits)

text \<open>The two kinds of refusal, for a parser \<open>g\<close> of either unit.\<close>

lemma refusal_kinds:
  assumes at: "\<And>t. parse t = (if t = zeroTime then Some (Inl InvalidRange) else g t)"
    and refused: "g anchor = Some (Inl err)"
    and conflict: "g anchor = Some (Inl UsageQueryRangeBoundsConflict) \<Longrightarrow> (\<exists>later r. later \<noteq> zeroTime \<and> g later = Some (Inr r)) \<or> missing"
    and invalid: "\<And>t r. g anchor = Some (Inl InvalidRange) \<Longrightarrow> g t \<noteq> Some (Inr r)"
  shows "if IsUsageQueryRangeBoundsConflict err then (\<exists>later r. parse later = Some (Inr r)) \<or> missing
    else \<not> (\<exists>later r. parse later = Some (Inr r))"
proof (cases err)
  case InvalidRange
  with invalid refused at show ?thesis by (simp add: IsUsageQueryRangeBoundsConflict_def)
next
  case UsageQueryRangeBoundsConflict
  with conflict refused have "(\<exists>later r. later \<noteq> zeroTime \<and> g later = Some (Inr r)) \<or> missing" by simp
  then show ?thesis unfolding UsageQueryRangeBoundsConflict IsUsageQueryRangeBoundsConflict_def using at by auto
qed

text \<open>
  Claim C40. A conflict with the bounds is a matter of the clock only, and every other refusal is not: a request
  that is refused as a conflict is accepted at some other time, unless one of its dates does not exist in
  the zone, and a request refused for another reason is accepted at no time (the current date
  of \<open>today\<close> and \<open>yesterday\<close>, which the zone may skip, aside).
\<close>

theorem range_conflict_is_clock:
  assumes "segments_true zone" and "anchor \<noteq> zeroTime"
    and "ParseUsageQueryRange zone parsers rangeValue unitValue startValue endValue anchor = Some (Inl err)"
    and "TrimSpace rangeValue \<notin> {''today'', ''yesterday''}"
  shows "if IsUsageQueryRangeBoundsConflict err
    then (\<exists>later r. ParseUsageQueryRange zone parsers rangeValue unitValue startValue endValue later = Some (Inr r))
      \<or> (\<exists>v d. v \<in> {TrimSpace startValue, TrimSpace endValue} \<and> tp_date parsers v = Some d \<and> DayBounds zone d = Some None)
    else \<not> (\<exists>later r. ParseUsageQueryRange zone parsers rangeValue unitValue startValue endValue later = Some (Inr r))"
proof -
  let ?s = "TrimSpace startValue" and ?e = "TrimSpace endValue"
  let ?parse = "ParseUsageQueryRange zone parsers rangeValue unitValue startValue endValue"
  show ?thesis
  proof (cases "TrimSpace rangeValue = ''custom'' \<and> ?s \<noteq> '''' \<and> ?e \<noteq> ''''")
    case False
    with not_custom_refused [OF False assms(2,4,3)] assms(3) show ?thesis by (auto simp: IsUsageQueryRangeBoundsConflict_def)
  next
    case True
    then have parse: "?parse t = (if t = zeroTime then Some (Inl InvalidRange)
        else case resolveUsageQueryUnit parsers unitValue ?s ?e of
           Inl err \<Rightarrow> Some (Inl err)
         | Inr UsageQueryUnitDay \<Rightarrow> parseCustomUsageDayRange zone parsers ?s ?e t 30
         | Inr UsageQueryUnitHour \<Rightarrow> Some (parseCustomUsageHourRange zone parsers ?s ?e t))" for t by (intro parse_custom) simp_all
    consider (unit) x where "resolveUsageQueryUnit parsers unitValue ?s ?e = Inl x"
      | (day) "resolveUsageQueryUnit parsers unitValue ?s ?e = Inr UsageQueryUnitDay"
      | (hour) "resolveUsageQueryUnit parsers unitValue ?s ?e = Inr UsageQueryUnitHour"
      by (metis UsageQueryUnit.exhaust sum.exhaust)
    then show ?thesis
    proof cases
      case unit
      with unit_refused [OF unit] parse assms(2,3) show ?thesis by (auto simp: IsUsageQueryRangeBoundsConflict_def)
    next
      case day
      then have at: "?parse t = (if t = zeroTime then Some (Inl InvalidRange) else parseCustomUsageDayRange zone parsers ?s ?e t 30)" for t
        by (simp add: parse)
      with assms(2,3) have "parseCustomUsageDayRange zone parsers ?s ?e anchor 30 = Some (Inl err)" by simp
      then show ?thesis by (rule refusal_kinds [OF at]) (rule day_conflict [OF assms(1)] day_refused, assumption)+
    next
      case hour
      then have at: "?parse t = (if t = zeroTime then Some (Inl InvalidRange) else Some (parseCustomUsageHourRange zone parsers ?s ?e t))" for t
        by (simp add: parse)
      with assms(2,3) have "Some (parseCustomUsageHourRange zone parsers ?s ?e anchor) = Some (Inl err)" by simp
      then show ?thesis using hour_conflict hour_refused by (intro refusal_kinds [OF at]) auto
    qed
  qed
qed

section \<open>Examples\<close>

text \<open>A parser that knows two dates and the day after.\<close>

definition example_parsers :: timeParsers where
  "example_parsers =
     \<lparr>tp_date = (\<lambda>s. if s = ''2024-09-08'' then Some 19974 else if s = ''2024-09-09'' then Some 19975 else None),
      tp_rfc3339 = (\<lambda>_. None)\<rparr>"

text \<open>
  Two dates asked for in UTC at one o'clock of the second, and today on the day of 23 hours on
  which Chile changes to summer time.
\<close>

lemma query_range_sound_witness:
  "(\<exists>r. ParseUsageQueryRange (fixed_zone 0) example_parsers ''custom'' ''day'' ''2024-09-08'' ''2024-09-09'' (1725843600 * Second)
        = Some (Inr r)
      \<and> qr_StartTime r = 1725753600 * Second \<and> qr_EndTime r = 1725926400 * Second \<and> qr_Count r = 2)
   \<and> (\<exists>r. ParseUsageQueryRange (one_transition 1725768000 (- 14400) (- 10800)) example_parsers ''today'' '''' '''' '''' (1725800000 * Second)
        = Some (Inr r)
      \<and> qr_StartTime r = 1725768000 * Second \<and> qr_EndTime r = 1725850800 * Second - 1)"
proof -
  let ?utc = "fixed_zone 0" and ?chile = "one_transition 1725768000 (- 14400) (- 10800)"
  let ?two = "\<lparr>qr_Range = ''custom'', qr_Unit = UsageQueryUnitDay, qr_Count = 2, qr_StartTime = 1725753600 * Second,
    qr_EndTime = 1725926400 * Second, qr_EndExclusive = True\<rparr>"
  let ?short = "\<lparr>qr_Range = ''today'', qr_Unit = UsageQueryUnitDay, qr_Count = 1, qr_StartTime = 1725768000 * Second,
    qr_EndTime = 1725850800 * Second - 1, qr_EndExclusive = False\<rparr>"
  have trim: "TrimSpace ''custom'' = ''custom''" "TrimSpace ''day'' = ''day''" "TrimSpace ''2024-09-08'' = ''2024-09-08''"
      "TrimSpace ''2024-09-09'' = ''2024-09-09''" "TrimSpace ''today'' = ''today''"
    by code_simp+
  have utc: "DateOf ?utc t = d \<longleftrightarrow> d * 86400 * Second \<le> t \<and> t < (d + 1) * 86400 * Second" for t d
    by (auto simp: DateOf_def wall_day_def wall_seconds_def fixed_zone_def unix_def day_seconds_def Second_def)
  have chile: "DateOf ?chile t = 19974 \<longleftrightarrow> 1725768000 * Second \<le> t \<and> t < 1725850800 * Second" for t
    by (auto simp: DateOf_def one_transition_day calendarTime_def day_seconds_def Second_def)
  have anchors: "1725843600 * Second \<noteq> zeroTime" "1725800000 * Second \<noteq> zeroTime"
      "DateOf ?utc (1725843600 * Second) = 19975" "DateOf ?chile (1725800000 * Second) = 19974"
    unfolding utc chile by (simp_all add: zeroTime_def Second_def)
  have "covers_dates ?utc 19974 19975 (1725753600 * Second) (1725926400 * Second)"
    unfolding covers_dates_def utc by (simp add: Second_def)
  then have two: "range_asked ?utc example_parsers ''custom'' ''day'' ''2024-09-08'' ''2024-09-09'' (1725843600 * Second) ?two"
    by (simp add: range_asked_def days_asked_def unit_asked_def example_parsers_def anchors)
  have "covers_dates ?chile 19974 19974 (1725768000 * Second) (1725850800 * Second)"
    unfolding covers_dates_def chile by (simp add: Second_def)
  then have short: "range_asked ?chile example_parsers ''today'' (TrimSpace '''') (TrimSpace '''') (TrimSpace '''') (1725800000 * Second) ?short"
    by (simp add: range_asked_def day_asked_def anchors)
  have "segments_true ?utc" by (simp add: fixed_zone_segments)
  note asked = query_range_sound [OF this, of example_parsers "''custom''" "''day''" "''2024-09-08''" "''2024-09-09''" "1725843600 * Second"]
  have "ParseUsageQueryRange ?utc example_parsers ''custom'' ''day'' ''2024-09-08'' ''2024-09-09'' (1725843600 * Second) = Some (Inr ?two)"
    using asked two unfolding trim
    apply -
    apply (elim exE conjE)
    apply (drule spec)
    apply (drule iffD2, assumption)
    apply (simp only:)
    done
  moreover note asked = query_range_sound [OF santiago_days.segments, of example_parsers "''today''" "''''" "''''" "''''" "1725800000 * Second"]
  have "ParseUsageQueryRange ?chile example_parsers ''today'' '''' '''' '''' (1725800000 * Second) = Some (Inr ?short)"
    using asked short unfolding trim
    apply -
    apply (elim exE conjE)
    apply (drule spec)
    apply (drule iffD2, assumption)
    apply (simp only:)
    done
  ultimately show ?thesis by simp
qed

lemma range_conflict_is_clock_witness:
  "\<exists>later r. ParseUsageQueryRange (fixed_zone 0) example_parsers ''custom'' ''day'' ''2024-09-08'' ''2024-09-09'' later = Some (Inr r)"
proof -
  let ?parse = "ParseUsageQueryRange (fixed_zone 0) example_parsers ''custom'' ''day'' ''2024-09-08'' ''2024-09-09''"
  have trim: "TrimSpace ''custom'' = ''custom''" "TrimSpace ''day'' = ''day''" "TrimSpace ''2024-09-08'' = ''2024-09-08''"
      "TrimSpace ''2024-09-09'' = ''2024-09-09''"
    by code_simp+
  have segments: "segments_true (fixed_zone 0)" by (simp add: fixed_zone_segments)
  have zone: "DayBounds (fixed_zone 0) d \<noteq> Some None" for d
    using DayBounds_regular [OF fixed_zone_regular segments, of d] by simp
  have "DateOf (fixed_zone 0) 0 = 0" by (simp add: DateOf_def wall_day_def wall_seconds_def fixed_zone_def unix_def)
  then have "?parse 0 = Some (Inl UsageQueryRangeBoundsConflict)"
    by (simp add: ParseUsageQueryRange_def ParseUsageQueryRangeWithOptions_def parseCustomUsageQueryRange_def trim resolveUsageQueryUnit_def
        parseCustomUsageDayRange_def example_parsers_def defaultCustomDayRangeMaxDays_def zeroTime_def)
  moreover have "(0 :: time) \<noteq> zeroTime" "TrimSpace ''custom'' \<notin> {''today'', ''yesterday''}" by (simp_all add: zeroTime_def trim)
  ultimately show ?thesis
    using range_conflict_is_clock [OF segments, of 0 example_parsers "''custom''" "''day''" "''2024-09-08''" "''2024-09-09''"] zone
    by (auto simp: IsUsageQueryRangeBoundsConflict_def)
qed

end
