(* ===== verification/Overview_Query.thy ===== *)
theory Overview_Query
  imports Overview_Aggregate Recent_Cache Query_Range
begin

text \<open>
  The overview of a time range: \<open>src/internal/repository/usage.go\<close> from the plan of the query to the
  record it returns, with the readers it uses from \<open>usage_bucket_read.go\<close>,
  \<open>usage_event_time_read.go\<close>, \<open>usage_overview_pricing.go\<close> and \<open>usage_overview_comparisons.go\<close>.
  The tables are arguments: a query is the list of the rows that satisfy its conditions. A sum of 64-bit
  columns that leaves 64 bits is an error of the database; the sums here are those of queries that
  succeed. The sum of a float column, whose order is the database's, is a parameter. The comparison
  mode, which is another query, is left out.
\<close>

record UsageQueryFilter =
  uf_ComparisonOnly :: bool
  uf_InstanceID :: string
  uf_Range :: string
  uf_CustomUnit :: string
  uf_StartTime :: "time option"
  uf_EndTime :: "time option"
  uf_EndExclusive :: bool
  uf_QueryNow :: "time option"
  uf_RealtimeWindow :: string
  uf_RealtimeEndTime :: "time option"
  uf_APIGroupKey :: string
  uf_ExcludedAPIGroupKeys :: "string list"
  uf_Providers :: "string list option"
  uf_ProviderAuthIndexes :: "string list option"


section \<open>The plan\<close>

definition usageOverviewQueryNow :: "time \<Rightarrow> UsageQueryFilter \<Rightarrow> time" where
  "usageOverviewQueryNow now qf = (case uf_QueryNow qf of Some t \<Rightarrow> t | None \<Rightarrow> now)"

definition usageOverviewEffectiveFilter :: "UsageQueryFilter \<Rightarrow> time \<Rightarrow> UsageQueryFilter" where
  "usageOverviewEffectiveFilter qf queryNow =
     (case uf_EndTime qf of
        None \<Rightarrow> qf\<lparr>uf_QueryNow := Some queryNow\<rparr>
      | Some end_ \<Rightarrow>
          qf\<lparr>uf_EndTime := Some (if queryNow < end_ then queryNow else end_), uf_QueryNow := Some queryNow\<rparr>)"

definition usageOverviewCurrentRightBoundary :: "UsageQueryFilter \<Rightarrow> time \<Rightarrow> bool" where
  "usageOverviewCurrentRightBoundary qf queryNow =
     (let r = TrimSpace (uf_Range qf)
      in if ParseUsageRollingRange r \<noteq> None then True
         else if r = ''today'' then True
         else if r = ''custom'' then (case uf_EndTime qf of None \<Rightarrow> False | Some end_ \<Rightarrow> queryNow < end_)
         else False)"

definition usageOverviewFullHourWindow :: "time \<Rightarrow> time \<Rightarrow> time \<times> time" where
  "usageOverviewFullHourWindow start stop =
     (let fullStart = (if start \<noteq> truncate_hour start then truncate_hour start + Hour else truncate_hour start);
          fullEnd = truncate_hour stop
      in (fullStart, if fullEnd < fullStart then fullStart else fullEnd))"

text \<open>The day of an instant always exists; the code ignores the flag, and the interval of a date that did not exist would be zero.\<close>

definition day_interval :: "zone \<Rightarrow> time \<Rightarrow> Interval option" where
  "day_interval zone t =
     map_option (\<lambda>b. case b of Some i \<Rightarrow> i | None \<Rightarrow> \<lparr>iv_Start = zeroTime, iv_End = zeroTime\<rparr>) (DayBounds zone (DateOf zone t))"

definition usageOverviewFullDayWindow :: "zone \<Rightarrow> time \<Rightarrow> time \<Rightarrow> (time \<times> time) option" where
  "usageOverviewFullDayWindow zone start stop =
     do {
       startDay \<leftarrow> day_interval zone start;
       endDay \<leftarrow> day_interval zone stop;
       let fullStart = (if start \<noteq> iv_Start startDay then iv_End startDay else iv_Start startDay);
       let fullEnd = iv_Start endDay;
       Some (fullStart, if fullEnd < fullStart then fullStart else fullEnd)
     }"

record rawEventWindow =
  rw_start :: time
  rw_end :: time
  rw_includeEnd :: bool
  rw_currentRight :: bool

definition appendUsageOverviewRawEventBoundaryWindows ::
    "rawEventWindow list \<Rightarrow> time \<Rightarrow> time \<Rightarrow> time \<Rightarrow> time \<Rightarrow> bool \<Rightarrow> bool \<Rightarrow> rawEventWindow list" where
  "appendUsageOverviewRawEventBoundaryWindows windows windowStart windowEnd coveredStart coveredEnd includeRightEnd currentRightEnd =
     (if \<not> windowStart < windowEnd then windows
      else
        let left =
              (if windowStart < coveredStart then
                 let leftEnd = (if windowEnd < coveredStart then windowEnd else coveredStart)
                 in if windowStart < leftEnd
                    then [\<lparr>rw_start = windowStart, rw_end = leftEnd, rw_includeEnd = includeRightEnd \<and> leftEnd = windowEnd,
                           rw_currentRight = currentRightEnd \<and> leftEnd = windowEnd\<rparr>]
                    else []
               else []);
            right =
              (if \<not> windowEnd < coveredEnd then
                 let rightStart = (if coveredEnd < windowStart then windowStart else coveredEnd)
                 in if rightStart < windowEnd \<or> currentRightEnd \<and> rightStart = windowEnd
                    then [\<lparr>rw_start = rightStart, rw_end = windowEnd, rw_includeEnd = includeRightEnd, rw_currentRight = currentRightEnd\<rparr>]
                    else []
               else [])
        in windows @ left @ right)"

text \<open>One turn of the loop that merges: the last window of the result, and the next window.\<close>

definition merge_window :: "rawEventWindow list \<Rightarrow> rawEventWindow \<Rightarrow> rawEventWindow list" where
  "merge_window merged window =
     (let lst = last merged
      in if rw_end lst < rw_start window then merged @ [window]
         else if rw_end lst < rw_end window then
           butlast merged @ [lst\<lparr>rw_end := rw_end window, rw_includeEnd := rw_includeEnd window, rw_currentRight := rw_currentRight window\<rparr>]
         else if rw_end window = rw_end lst then
           butlast merged @ [lst\<lparr>rw_includeEnd := rw_includeEnd lst \<or> rw_includeEnd window,
                                 rw_currentRight := rw_currentRight lst \<or> rw_currentRight window\<rparr>]
         else if rw_currentRight window then butlast merged @ [lst\<lparr>rw_currentRight := True\<rparr>]
         else merged)"

definition mergeUsageOverviewRawEventWindows :: "rawEventWindow list \<Rightarrow> rawEventWindow list" where
  "mergeUsageOverviewRawEventWindows windows =
     (if length windows < 2 then windows
      else case sort_key (\<lambda>w. (rw_start w, rw_end w)) windows of
             [] \<Rightarrow> []
           | w # ws \<Rightarrow> foldl merge_window [w] ws)"

definition usageOverviewRawEventWindows :: "UsageQueryFilter \<Rightarrow> time \<Rightarrow> time \<Rightarrow> bool \<Rightarrow> rawEventWindow list" where
  "usageOverviewRawEventWindows qf fullHourStart fullHourEnd currentRight =
     (case (uf_StartTime qf, uf_EndTime qf) of
        (Some windowStart, Some windowEnd) \<Rightarrow>
          mergeUsageOverviewRawEventWindows
            (appendUsageOverviewRawEventBoundaryWindows [] windowStart windowEnd fullHourStart fullHourEnd
              (\<not> uf_EndExclusive qf) currentRight)
      | _ \<Rightarrow> [])"

definition usageOverviewEventInsideWindow :: "usageEvent \<Rightarrow> time \<Rightarrow> time \<Rightarrow> bool" where
  "usageOverviewEventInsideWindow e start stop \<longleftrightarrow> \<not> ue_Timestamp e < start \<and> ue_Timestamp e < stop"

definition usageOverviewDailyAverageDayMinutes :: int where "usageOverviewDailyAverageDayMinutes = 24 * 60"

definition usageOverviewDailyBucketThresholdMinutes :: int where "usageOverviewDailyBucketThresholdMinutes = 7 * 24 * 60"

definition computeWindowMinutes :: "UsageQueryFilter \<Rightarrow> int" where
  "computeWindowMinutes qf =
     (case (uf_StartTime qf, uf_EndTime qf) of
        (Some start, Some end_) \<Rightarrow>
          if end_ < start then 0
          else
            let d = time_Sub end_ start;
                minutes = (if d mod Minute \<noteq> 0 then d div Minute + 1 else d div Minute)
            in if minutes < 1 then 1 else minutes
      | _ \<Rightarrow> 0)"

definition shouldBucketUsageOverviewByDay :: "UsageQueryFilter \<Rightarrow> int \<Rightarrow> bool" where
  "shouldBucketUsageOverviewByDay qf windowMinutes \<longleftrightarrow>
     uf_Range qf = ''all'' \<or> uf_Range qf = ''7d'' \<or> usageOverviewDailyBucketThresholdMinutes \<le> windowMinutes"

section \<open>Reading buckets\<close>

text \<open>Nothing changes the clocks from two days before the range to two days after it.\<close>

definition usageReadHasStableOffset :: "zone \<Rightarrow> time \<Rightarrow> time \<Rightarrow> bool" where
  "usageReadHasStableOffset zone start stop =
     (case ZoneSegmentEnd zone (start - 48 * Hour) of None \<Rightarrow> True | Some e \<Rightarrow> stop + 48 * Hour < e)"

text \<open>
  Stored texts of whole seconds in years of four digits order as their wall clocks, and equal wall
  clocks as the texts of their offsets.
\<close>

definition two_digits :: "int \<Rightarrow> string" where
  "two_digits n = [char_of (nat (48 + n div 10)), char_of (nat (48 + n mod 10))]"

definition offset_text :: "int \<Rightarrow> string" where
  "offset_text offset =
     (if offset = 0 then ''Z''
      else (if offset < 0 then ''-'' else ''+'') @ two_digits (\<bar>offset\<bar> div 3600) @ '':'' @ two_digits (\<bar>offset\<bar> mod 3600 div 60))"

definition storage_text_less :: "zone \<Rightarrow> time \<Rightarrow> time \<Rightarrow> bool" where
  "storage_text_less zone a b \<longleftrightarrow>
     (wall_seconds zone a < wall_seconds zone b
      \<or> wall_seconds zone a = wall_seconds zone b \<and> offset_text (zs_offset (zone (unix a))) < offset_text (zs_offset (zone (unix b))))"

datatype bucketGrain = HourlyGrain | DailyGrain

record usageBucketRead =
  br_keys :: "time list"
  br_displayStarts :: "(int \<times> time) list"
  br_start :: time
  br_end :: time
  br_stableOffset :: bool

text \<open>
  The loop over the dates of a range of days. \<open>BucketKeysForEvent\<close> at the start of a date gives the key
  under which its events were stored.
\<close>

partial_function (option) daily_keys ::
    "zone \<Rightarrow> time \<Rightarrow> time \<Rightarrow> CivilDate \<Rightarrow> (time \<times> time) list \<Rightarrow> (time \<times> time) list option" where
  "daily_keys zone start stop date acc =
     Option.bind (DayBounds zone date) (\<lambda>bounds.
       case bounds of
         None \<Rightarrow> daily_keys zone start stop (date_AddDays date 1) acc
       | Some b \<Rightarrow>
           if \<not> iv_Start b < stop then Some acc
           else if iv_Start b < start then daily_keys zone start stop (date_AddDays date 1) acc
           else daily_keys zone start stop (date_AddDays date 1) (acc @ [(day_start zone (iv_Start b), iv_Start b)]))"

declare daily_keys.simps [code]

function hourly_keys :: "time \<Rightarrow> time \<Rightarrow> time \<Rightarrow> time list" where
  "hourly_keys start stop cursor =
     (if cursor < stop then (if \<not> cursor < start then [cursor] else []) @ hourly_keys start stop (cursor + Hour) else [])"
  by pat_completeness auto

termination
  by (relation "measure (\<lambda>(start, stop, cursor). nat (stop - cursor))") (auto simp: Hour_def Minute_def Second_def)

definition overviewBucketRead :: "zone \<Rightarrow> time \<Rightarrow> time \<Rightarrow> bucketGrain \<Rightarrow> usageBucketRead option" where
  "overviewBucketRead zone start stop grain =
     (let base = \<lparr>br_keys = [], br_displayStarts = [], br_start = start, br_end = stop,
                  br_stableOffset = usageReadHasStableOffset zone start stop\<rparr>
      in if br_stableOffset base then Some base
         else if grain = DailyGrain then
           map_option (\<lambda>ks. base\<lparr>br_keys := map fst ks, br_displayStarts := map (\<lambda>(k, d). (unix k, d)) (rev ks)\<rparr>)
             (daily_keys zone start stop (DateOf zone start) [])
         else Some (base\<lparr>br_keys := hourly_keys start stop (truncate_hour start)\<rparr>))"

text \<open>The condition of the query on the bucket of a row.\<close>

definition bucket_selected :: "zone \<Rightarrow> usageBucketRead \<Rightarrow> time \<Rightarrow> bool" where
  "bucket_selected zone b k =
     (if br_stableOffset b then \<not> storage_text_less zone k (br_start b) \<and> storage_text_less zone k (br_end b)
      else k \<in> set (br_keys b))"

definition displayStart :: "usageBucketRead \<Rightarrow> time \<Rightarrow> time" where
  "displayStart b stored = (case map_of (br_displayStarts b) (unix stored) of Some d \<Rightarrow> d | None \<Rightarrow> stored)"

record usageOverviewStatProjection =
  sp_BucketStart :: time
  sp_RequestCount :: int
  sp_SuccessCount :: int
  sp_FailureCount :: int
  sp_InputTokens :: int
  sp_OutputTokens :: int
  sp_ReasoningTokens :: int
  sp_CacheReadTokens :: int
  sp_CacheCreationTokens :: int
  sp_TotalTokens :: int
  sp_CostUSD :: "float64 option"
  sp_UnavailableCostCount :: "int option"
  sp_MissingCostCount :: int

text \<open>The aggregate columns of one group; a sum over no value is NULL.\<close>

definition stat_projection :: "(float64 list \<Rightarrow> float64) \<Rightarrow> time \<Rightarrow> usageOverviewStat list \<Rightarrow> usageOverviewStatProjection" where
  "stat_projection sum_cost bucket rows =
     \<lparr>sp_BucketStart = bucket,
      sp_RequestCount = sum_list (map os_RequestCount rows), sp_SuccessCount = sum_list (map os_SuccessCount rows),
      sp_FailureCount = sum_list (map os_FailureCount rows), sp_InputTokens = sum_list (map os_InputTokens rows),
      sp_OutputTokens = sum_list (map os_OutputTokens rows), sp_ReasoningTokens = sum_list (map os_ReasoningTokens rows),
      sp_CacheReadTokens = sum_list (map os_CacheReadTokens rows),
      sp_CacheCreationTokens = sum_list (map os_CacheCreationTokens rows), sp_TotalTokens = sum_list (map os_TotalTokens rows),
      sp_CostUSD = (let cs = List.map_filter os_CostUSD rows in if cs = [] then None else Some (sum_cost cs)),
      sp_UnavailableCostCount =
        (let cs = List.map_filter os_UnavailableCostCount rows in if cs = [] then None else Some (sum_list cs)),
      sp_MissingCostCount = int (length (filter (\<lambda>r. os_CostUSD r = None \<or> os_UnavailableCostCount r = None) rows))\<rparr>"

definition row_in_scope :: "UsageQueryFilter \<Rightarrow> usageOverviewStat \<Rightarrow> bool" where
  "row_in_scope qf r \<longleftrightarrow>
     (TrimSpace (uf_APIGroupKey qf) = '''' \<or> bk_APIGroupKey (os_Key r) = TrimSpace (uf_APIGroupKey qf))
     \<and> (TrimSpace (uf_InstanceID qf) = '''' \<or> bk_InstanceID (os_Key r) = TrimSpace (uf_InstanceID qf))
     \<and> bk_APIGroupKey (os_Key r) \<notin> set (uf_ExcludedAPIGroupKeys qf)
     \<and> (case uf_ProviderAuthIndexes qf of None \<Rightarrow> True | Some xs \<Rightarrow> bk_AuthIndex (os_Key r) \<in> set xs)"

definition loadUsageOverviewStatProjection ::
    "(float64 list \<Rightarrow> float64) \<Rightarrow> zone \<Rightarrow> usageOverviewStat list \<Rightarrow> UsageQueryFilter \<Rightarrow> time \<Rightarrow> time \<Rightarrow> bucketGrain
      \<Rightarrow> usageOverviewStatProjection list option" where
  "loadUsageOverviewStatProjection sum_cost zone rows qf start stop grain =
     map_option (\<lambda>buckets.
       let selected = filter (\<lambda>r. bucket_selected zone buckets (bk_BucketStart (os_Key r)) \<and> row_in_scope qf r) rows;
           groups = sort_key (\<lambda>k. (wall_seconds zone k, offset_text (zs_offset (zone (unix k)))))
             (remdups (map (\<lambda>r. bk_BucketStart (os_Key r)) selected));
           projections = map (\<lambda>k. stat_projection sum_cost k (filter (\<lambda>r. bk_BucketStart (os_Key r) = k) selected)) groups
       in sort_key sp_BucketStart (map (\<lambda>p. p\<lparr>sp_BucketStart := displayStart buckets (sp_BucketStart p)\<rparr>) projections))
     (overviewBucketRead zone start stop grain)"


section \<open>The record\<close>

text \<open>A key of a series: the text of a date, or of an hour.\<close>

datatype seriesKey = DateKey CivilDate | HourKey time

record StatisticsSnapshot =
  sn_TotalRequests :: int
  sn_SuccessCount :: int
  sn_FailureCount :: int
  sn_TotalTokens :: int

record UsageOverviewSummary =
  sm_RequestCount :: int
  sm_TokenCount :: int
  sm_WindowMinutes :: int
  sm_RPM :: float64
  sm_TPM :: float64
  sm_TotalCost :: float64
  sm_CostAvailable :: bool
  sm_InputTokens :: int
  sm_CacheReadTokens :: int
  sm_CacheCreationTokens :: int
  sm_ReasoningTokens :: int
  sm_DailyAverageRequests :: "float64 option"
  sm_DailyAverageTokens :: "float64 option"
  sm_DailyAverageCost :: "float64 option"
  sm_DailyAverageRangeDays :: "float64 option"

record UsageOverviewSeries =
  us_Requests :: "seriesKey \<rightharpoonup> int"
  us_Tokens :: "seriesKey \<rightharpoonup> int"
  us_RPM :: "seriesKey \<rightharpoonup> float64"
  us_TPM :: "seriesKey \<rightharpoonup> float64"
  us_Cost :: "seriesKey \<rightharpoonup> float64"
  us_CacheReadRate :: "seriesKey \<rightharpoonup> float64 option"
  us_CacheReadRateInputTokens :: "seriesKey \<rightharpoonup> int"
  us_CacheReadRateReadTokens :: "seriesKey \<rightharpoonup> int"

record UsageOverview =
  ov_Usage :: StatisticsSnapshot
  ov_Summary :: UsageOverviewSummary
  ov_Series :: UsageOverviewSeries

definition newUsageOverviewSeriesRecord :: UsageOverviewSeries where
  "newUsageOverviewSeriesRecord =
     \<lparr>us_Requests = Map.empty, us_Tokens = Map.empty, us_RPM = Map.empty, us_TPM = Map.empty, us_Cost = Map.empty,
      us_CacheReadRate = Map.empty, us_CacheReadRateInputTokens = Map.empty, us_CacheReadRateReadTokens = Map.empty\<rparr>"

definition newUsageOverviewRecord :: "int \<Rightarrow> UsageOverview" where
  "newUsageOverviewRecord windowMinutes =
     \<lparr>ov_Usage = \<lparr>sn_TotalRequests = 0, sn_SuccessCount = 0, sn_FailureCount = 0, sn_TotalTokens = 0\<rparr>,
      ov_Summary =
        \<lparr>sm_RequestCount = 0, sm_TokenCount = 0, sm_WindowMinutes = windowMinutes, sm_RPM = Fin 0, sm_TPM = Fin 0,
         sm_TotalCost = Fin 0, sm_CostAvailable = True, sm_InputTokens = 0, sm_CacheReadTokens = 0, sm_CacheCreationTokens = 0,
         sm_ReasoningTokens = 0, sm_DailyAverageRequests = None, sm_DailyAverageTokens = None, sm_DailyAverageCost = None,
         sm_DailyAverageRangeDays = None\<rparr>,
      ov_Series = newUsageOverviewSeriesRecord\<rparr>"

definition usageOverviewBucket :: "zone \<Rightarrow> time \<Rightarrow> bool \<Rightarrow> seriesKey" where
  "usageOverviewBucket zone t byDay = (if byDay then DateKey (DateOf zone t) else HourKey (truncate_hour t))"

text \<open>\<open>m[key] += value\<close> on a map of integers and on a map of floats.\<close>

definition add_int :: "seriesKey \<Rightarrow> int \<Rightarrow> (seriesKey \<rightharpoonup> int) \<Rightarrow> (seriesKey \<rightharpoonup> int)" where
  "add_int k v m = m(k \<mapsto> wrap64 ((case m k of None \<Rightarrow> 0 | Some n \<Rightarrow> n) + v))"

definition add_float :: "seriesKey \<Rightarrow> float64 \<Rightarrow> (seriesKey \<rightharpoonup> float64) \<Rightarrow> (seriesKey \<rightharpoonup> float64)" where
  "add_float k v m = m(k \<mapsto> fadd (case m k of None \<Rightarrow> Fin 0 | Some x \<Rightarrow> x) v)"

definition updateUsageOverviewSeriesCacheReadRate :: "seriesKey \<Rightarrow> int \<Rightarrow> int \<Rightarrow> UsageOverviewSeries \<Rightarrow> UsageOverviewSeries" where
  "updateUsageOverviewSeriesCacheReadRate k inputTokens cacheReadTokens s =
     s\<lparr>us_CacheReadRateInputTokens := add_int k inputTokens (us_CacheReadRateInputTokens s),
       us_CacheReadRateReadTokens := add_int k cacheReadTokens (us_CacheReadRateReadTokens s)\<rparr>"

definition applyUsageOverviewStatToSeries ::
    "int \<Rightarrow> int \<Rightarrow> int \<Rightarrow> int \<Rightarrow> float64 \<Rightarrow> seriesKey \<Rightarrow> UsageOverviewSeries \<Rightarrow> UsageOverviewSeries" where
  "applyUsageOverviewStatToSeries requestCount inputTokens cacheReadTokens totalTokens cost k s =
     updateUsageOverviewSeriesCacheReadRate k inputTokens cacheReadTokens
       (s\<lparr>us_Requests := add_int k requestCount (us_Requests s), us_Tokens := add_int k totalTokens (us_Tokens s),
          us_Cost := add_float k cost (us_Cost s)\<rparr>)"

definition applyUsageOverviewStatToSummary ::
    "int \<Rightarrow> int \<Rightarrow> int \<Rightarrow> int \<Rightarrow> float64 \<Rightarrow> UsageOverviewSummary \<Rightarrow> UsageOverviewSummary" where
  "applyUsageOverviewStatToSummary inputTokens cacheReadTokens cacheCreationTokens reasoningTokens cost s =
     s\<lparr>sm_InputTokens := wrap64 (sm_InputTokens s + inputTokens),
       sm_CacheReadTokens := wrap64 (sm_CacheReadTokens s + cacheReadTokens),
       sm_CacheCreationTokens := wrap64 (sm_CacheCreationTokens s + cacheCreationTokens),
       sm_ReasoningTokens := wrap64 (sm_ReasoningTokens s + reasoningTokens),
       sm_TotalCost := fadd (sm_TotalCost s) cost\<rparr>"

definition applyUsageOverviewStatToSnapshotTotals :: "int \<Rightarrow> int \<Rightarrow> int \<Rightarrow> int \<Rightarrow> StatisticsSnapshot \<Rightarrow> StatisticsSnapshot" where
  "applyUsageOverviewStatToSnapshotTotals requestCount successCount failureCount totalTokens s =
     s\<lparr>sn_TotalRequests := wrap64 (sn_TotalRequests s + requestCount), sn_TotalTokens := wrap64 (sn_TotalTokens s + totalTokens),
       sn_SuccessCount := wrap64 (sn_SuccessCount s + successCount), sn_FailureCount := wrap64 (sn_FailureCount s + failureCount)\<rparr>"

datatype overviewQueryError =
    RangeMissing
  | ComparisonQuery
  | BucketNotBackfilled time
  | BucketNotFinite time
  | EventNotBackfilled int
  | EventNotFinite int

definition applyUsageOverviewStatToOverview ::
    "zone \<Rightarrow> bool \<Rightarrow> usageOverviewStatProjection \<Rightarrow> UsageOverview \<Rightarrow> overviewQueryError + UsageOverview" where
  "applyUsageOverviewStatToOverview zone bucketByDay row ov =
     (case (sp_CostUSD row, sp_UnavailableCostCount row) of
        (Some rowCost, Some unavailable) \<Rightarrow>
          if sp_MissingCostCount row \<noteq> 0 then Inl (BucketNotBackfilled (sp_BucketStart row))
          else if rowCost \<in> {NaN, PosInf, NegInf} then Inl (BucketNotFinite (sp_BucketStart row))
          else
            let usage = applyUsageOverviewStatToSnapshotTotals (sp_RequestCount row) (sp_SuccessCount row) (sp_FailureCount row)
                          (sp_TotalTokens row) (ov_Usage ov);
                summary = (if 0 < unavailable then (ov_Summary ov)\<lparr>sm_CostAvailable := False\<rparr> else ov_Summary ov);
                summary = applyUsageOverviewStatToSummary (sp_InputTokens row) (sp_CacheReadTokens row) (sp_CacheCreationTokens row)
                            (sp_ReasoningTokens row) rowCost summary;
                k = usageOverviewBucket zone (sp_BucketStart row) bucketByDay
            in Inr \<lparr>ov_Usage = usage, ov_Summary = summary,
                    ov_Series = applyUsageOverviewStatToSeries (sp_RequestCount row) (sp_InputTokens row) (sp_CacheReadTokens row)
                                  (sp_TotalTokens row) rowCost k (ov_Series ov)\<rparr>
      | _ \<Rightarrow> Inl (BucketNotBackfilled (sp_BucketStart row)))"

fun apply_stats :: "zone \<Rightarrow> bool \<Rightarrow> usageOverviewStatProjection list \<Rightarrow> UsageOverview \<Rightarrow> overviewQueryError + UsageOverview" where
  "apply_stats zone bucketByDay [] ov = Inr ov"
| "apply_stats zone bucketByDay (row # rows) ov =
     andThen (applyUsageOverviewStatToOverview zone bucketByDay row ov) (apply_stats zone bucketByDay rows)"

text \<open>The two tables, and how the database adds up fees.\<close>

record overviewTables =
  ot_hourly :: "usageOverviewStat list"
  ot_daily :: "usageOverviewStat list"
  ot_events :: "usageEvent list"
  ot_sum_cost :: "float64 list \<Rightarrow> float64"

definition loadAndApplyUsageOverviewStats ::
    "zone \<Rightarrow> overviewTables \<Rightarrow> UsageQueryFilter \<Rightarrow> time \<Rightarrow> time \<Rightarrow> bucketGrain \<Rightarrow> bool \<Rightarrow> UsageOverview
      \<Rightarrow> (overviewQueryError + UsageOverview) option" where
  "loadAndApplyUsageOverviewStats zone db qf start stop grain bucketByDay ov =
     map_option (\<lambda>rows. apply_stats zone bucketByDay rows ov)
       (loadUsageOverviewStatProjection (ot_sum_cost db) zone
          (if grain = DailyGrain then ot_daily db else ot_hourly db) qf start stop grain)"


section \<open>Events at the edges\<close>

definition usageOverviewStoredEventCost :: "usageEvent \<Rightarrow> overviewQueryError + float64 \<times> bool" where
  "usageOverviewStoredEventCost e =
     (case (ue_CostUSD e, ue_CostAvailable e) of
        (Some cost, Some available) \<Rightarrow>
          if cost \<in> {NaN, PosInf, NegInf} then Inl (EventNotFinite (ue_ID e)) else Inr (cost, available)
      | _ \<Rightarrow> Inl (EventNotBackfilled (ue_ID e)))"

definition applyUsageEventToOverviewSnapshot :: "usageEvent \<Rightarrow> StatisticsSnapshot \<Rightarrow> StatisticsSnapshot" where
  "applyUsageEventToOverviewSnapshot e s =
     s\<lparr>sn_TotalRequests := wrap64 (sn_TotalRequests s + 1), sn_TotalTokens := wrap64 (sn_TotalTokens s + ue_TotalTokens e),
       sn_FailureCount := (if ue_Failed e then wrap64 (sn_FailureCount s + 1) else sn_FailureCount s),
       sn_SuccessCount := (if ue_Failed e then sn_SuccessCount s else wrap64 (sn_SuccessCount s + 1))\<rparr>"

definition applyUsageEventToOverviewSeries :: "usageEvent \<Rightarrow> float64 \<Rightarrow> seriesKey \<Rightarrow> UsageOverviewSeries \<Rightarrow> UsageOverviewSeries" where
  "applyUsageEventToOverviewSeries e cost k s =
     updateUsageOverviewSeriesCacheReadRate k (ue_InputTokens e) (ue_CacheReadTokens e)
       (s\<lparr>us_Requests := add_int k 1 (us_Requests s), us_Tokens := add_int k (ue_TotalTokens e) (us_Tokens s),
          us_Cost := add_float k cost (us_Cost s)\<rparr>)"

definition applyUsageEventToOverview :: "zone \<Rightarrow> usageEvent \<Rightarrow> bool \<Rightarrow> float64 \<Rightarrow> bool \<Rightarrow> UsageOverview \<Rightarrow> UsageOverview" where
  "applyUsageEventToOverview zone e bucketByDay cost costAvailable ov =
     (let s = ov_Summary ov;
          s = s\<lparr>sm_InputTokens := wrap64 (sm_InputTokens s + ue_InputTokens e),
                sm_CacheReadTokens := wrap64 (sm_CacheReadTokens s + ue_CacheReadTokens e),
                sm_CacheCreationTokens := wrap64 (sm_CacheCreationTokens s + ue_CacheCreationTokens e),
                sm_ReasoningTokens := wrap64 (sm_ReasoningTokens s + ue_ReasoningTokens e),
                sm_CostAvailable := (if costAvailable then sm_CostAvailable s else False),
                sm_TotalCost := fadd (sm_TotalCost s) cost\<rparr>
      in ov\<lparr>ov_Summary := s,
            ov_Series := applyUsageEventToOverviewSeries e cost (usageOverviewBucket zone (ue_Timestamp e) bucketByDay) (ov_Series ov)\<rparr>)"

fun apply_events :: "zone \<Rightarrow> bool \<Rightarrow> time \<Rightarrow> time \<Rightarrow> usageEvent list \<Rightarrow> UsageOverview \<Rightarrow> overviewQueryError + UsageOverview" where
  "apply_events zone bucketByDay fullStart fullEnd [] ov = Inr ov"
| "apply_events zone bucketByDay fullStart fullEnd (e # es) ov =
     (if usageOverviewEventInsideWindow e fullStart fullEnd then apply_events zone bucketByDay fullStart fullEnd es ov
      else andThen (usageOverviewStoredEventCost e) (\<lambda>(cost, available).
             apply_events zone bucketByDay fullStart fullEnd es
               (applyUsageEventToOverview zone e bucketByDay cost available
                 (ov\<lparr>ov_Usage := applyUsageEventToOverviewSnapshot e (ov_Usage ov)\<rparr>))))"

text \<open>
  The reads of a range of events, one for each segment of the zone. The texts by which each one narrows its
  candidates are left out: they admit every event the read contains.
\<close>

record usageEventTimeRead =
  tr_start :: time
  tr_end :: time
  tr_includeEnd :: bool

partial_function (option) time_reads :: "zone \<Rightarrow> time \<Rightarrow> bool \<Rightarrow> time \<Rightarrow> usageEventTimeRead list option" where
  "time_reads zone stop includeEnd cursor =
     (if \<not> (cursor < stop \<or> includeEnd \<and> cursor = stop) then Some []
      else
        let (segmentEnd, closed) =
              (case ZoneSegmentEnd zone cursor of
                 None \<Rightarrow> (stop, includeEnd)
               | Some zoneEnd \<Rightarrow> if \<not> stop < zoneEnd then (zoneEnd, False) else (stop, includeEnd));
            read = \<lparr>tr_start = cursor, tr_end = segmentEnd, tr_includeEnd = closed\<rparr>
        in if closed \<or> segmentEnd = stop \<and> \<not> includeEnd then Some [read]
           else Option.bind (time_reads zone stop includeEnd segmentEnd) (\<lambda>reads. Some (read # reads)))"

declare time_reads.simps [code]

definition usageEventTimeReads :: "zone \<Rightarrow> time \<Rightarrow> time \<Rightarrow> bool \<Rightarrow> usageEventTimeRead list option" where
  "usageEventTimeReads zone start stop includeEnd =
     (if stop < start \<or> \<not> includeEnd \<and> stop = start then Some [] else time_reads zone stop includeEnd start)"

definition read_contains :: "usageEventTimeRead \<Rightarrow> time \<Rightarrow> bool" where
  "read_contains r t \<longleftrightarrow> \<not> t < tr_start r \<and> (t < tr_end r \<or> tr_includeEnd r \<and> t = tr_end r)"

definition usageProviderExcluded :: "string \<Rightarrow> string list option \<Rightarrow> bool" where
  "usageProviderExcluded value values = (case values of None \<Rightarrow> False | Some vs \<Rightarrow> value \<notin> set vs)"

definition usageAPIGroupKeyExcluded :: "string \<Rightarrow> string list \<Rightarrow> bool" where
  "usageAPIGroupKeyExcluded apiGroupKey excluded \<longleftrightarrow> apiGroupKey \<in> set excluded"

definition event_in_scope :: "UsageQueryFilter \<Rightarrow> usageEvent \<Rightarrow> bool" where
  "event_in_scope qf e \<longleftrightarrow>
     (TrimSpace (uf_InstanceID qf) = '''' \<or> ue_InstanceID e = TrimSpace (uf_InstanceID qf))
     \<and> (TrimSpace (uf_APIGroupKey qf) = '''' \<or> ue_APIGroupKey e = TrimSpace (uf_APIGroupKey qf))
     \<and> ue_APIGroupKey e \<notin> set (uf_ExcludedAPIGroupKeys qf)
     \<and> (case uf_Providers qf of None \<Rightarrow> True | Some vs \<Rightarrow> ue_Provider e \<in> set vs)"

definition loadUsageOverviewEventRange :: "zone \<Rightarrow> usageEvent list \<Rightarrow> UsageQueryFilter \<Rightarrow> time \<Rightarrow> time \<Rightarrow> bool \<Rightarrow> usageEvent list option" where
  "loadUsageOverviewEventRange zone events qf start stop includeEnd =
     map_option (\<lambda>reads. sort_key ue_Timestamp (concat (map (\<lambda>r.
         sort_key ue_Timestamp (filter (\<lambda>e. event_in_scope qf e \<and> read_contains r (ue_Timestamp e)) events)) reads)))
       (usageEventTimeReads zone start stop includeEnd)"

definition usageOverviewRecentCacheCoversWindow :: "recentCache option \<Rightarrow> rawEventWindow \<Rightarrow> time \<Rightarrow> bool" where
  "usageOverviewRecentCacheCoversWindow cache w queryNow =
     (if cache = None then False
      else if rw_end w < rw_start w \<or> \<not> rw_includeEnd w \<and> rw_end w = rw_start w \<and> \<not> rw_currentRight w then True
      else \<not> rw_start w < queryNow - Window cache)"

definition cached_events :: "recentCache option \<Rightarrow> UsageQueryFilter \<Rightarrow> rawEventWindow \<Rightarrow> RecentUsageEvent list \<times> bool" where
  "cached_events cache qf w =
     (if rw_currentRight w then EventsSinceForInstance cache (uf_InstanceID qf) (rw_start w) (uf_APIGroupKey qf)
      else EventsForInstance cache (uf_InstanceID qf) (rw_start w) (rw_end w) (rw_includeEnd w) (uf_APIGroupKey qf))"

definition window_events ::
    "zone \<Rightarrow> usageEvent list \<Rightarrow> UsageQueryFilter \<Rightarrow> recentCache option \<Rightarrow> time \<Rightarrow> rawEventWindow \<Rightarrow> usageEvent list option" where
  "window_events zone events qf cache queryNow w =
     (let (cached, ok) = cached_events cache qf w
      in if usageOverviewRecentCacheCoversWindow cache w queryNow \<and> ok then
           Some (map recentUsageEventToEntity (filter (\<lambda>e.
             \<not> (usageAPIGroupKeyExcluded (re_APIGroupKey e) (uf_ExcludedAPIGroupKeys qf)
                \<or> usageProviderExcluded (re_Provider e) (uf_Providers qf)
                \<or> usageProviderExcluded (re_AuthIndex e) (uf_ProviderAuthIndexes qf))) cached))
         else loadUsageOverviewEventRange zone events qf (rw_start w) (rw_end w) (rw_includeEnd w))"

fun load_windows ::
    "zone \<Rightarrow> usageEvent list \<Rightarrow> UsageQueryFilter \<Rightarrow> recentCache option \<Rightarrow> time \<Rightarrow> rawEventWindow list \<Rightarrow> usageEvent list option" where
  "load_windows zone events qf cache queryNow [] = Some []"
| "load_windows zone events qf cache queryNow (w # ws) =
     Option.bind (window_events zone events qf cache queryNow w) (\<lambda>es.
       map_option (\<lambda>rest. es @ rest) (load_windows zone events qf cache queryNow ws))"

definition loadUsageOverviewRawEventWindowsWithFilter ::
    "zone \<Rightarrow> usageEvent list \<Rightarrow> time \<Rightarrow> UsageQueryFilter \<Rightarrow> rawEventWindow list \<Rightarrow> recentCache option \<Rightarrow> usageEvent list option" where
  "loadUsageOverviewRawEventWindowsWithFilter zone events now qf windows cache =
     load_windows zone events qf cache (usageOverviewQueryNow now qf) windows"


section \<open>The overview\<close>

text \<open>\<open>Duration.Minutes\<close>: whole minutes, and the rest as a fraction.\<close>

definition duration_Minutes :: "duration \<Rightarrow> float64" where
  "duration_Minutes d = fadd (of_int64 (d div Minute)) (fdiv (of_int64 (d mod Minute)) (of_int64 Minute))"

definition Interval_Minutes :: "Interval \<Rightarrow> float64" where
  "Interval_Minutes i = duration_Minutes (time_Sub (iv_End i) (iv_Start i))"

definition usageOverviewSeriesBucketMinutes :: "zone \<Rightarrow> seriesKey \<Rightarrow> float64 option" where
  "usageOverviewSeriesBucketMinutes zone k =
     (case k of
        DateKey date \<Rightarrow>
          map_option (\<lambda>b. case b of Some i \<Rightarrow> Interval_Minutes i | None \<Rightarrow> of_int64 usageOverviewDailyAverageDayMinutes) (DayBounds zone date)
      | HourKey _ \<Rightarrow> Some (of_int64 (Hour div Minute)))"

definition finalizeUsageOverviewSeries :: "zone \<Rightarrow> UsageOverviewSeries \<Rightarrow> UsageOverviewSeries" where
  "finalizeUsageOverviewSeries zone s =
     (let value = (\<lambda>m k. case m k of None \<Rightarrow> 0 | Some n \<Rightarrow> n);
          minutes = (\<lambda>k. the (usageOverviewSeriesBucketMinutes zone k))
      in s\<lparr>us_RPM := (\<lambda>k. map_option (\<lambda>requests. fdiv (of_int64 requests) (minutes k)) (us_Requests s k)),
           us_TPM := (\<lambda>k. map_option (\<lambda>_. fdiv (of_int64 (value (us_Tokens s) k)) (minutes k)) (us_Requests s k)),
           us_CacheReadRate := (\<lambda>k. map_option (\<lambda>_.
             if value (us_CacheReadRateInputTokens s) k \<le> 0 then None
             else Some (fmul (fdiv (of_int64 (value (us_CacheReadRateReadTokens s) k)) (of_int64 (value (us_CacheReadRateInputTokens s) k)))
                         (Fin 100))) (us_Requests s k))\<rparr>)"

definition finalizeUsageOverview :: "zone \<Rightarrow> UsageOverview \<Rightarrow> UsageOverview" where
  "finalizeUsageOverview zone ov =
     (let s = (ov_Summary ov)\<lparr>sm_RequestCount := sn_TotalRequests (ov_Usage ov), sm_TokenCount := sn_TotalTokens (ov_Usage ov)\<rparr>;
          s = (if 0 < sm_WindowMinutes s
               then s\<lparr>sm_RPM := fdiv (of_int64 (sm_RequestCount s)) (of_int64 (sm_WindowMinutes s)),
                      sm_TPM := fdiv (of_int64 (sm_TokenCount s)) (of_int64 (sm_WindowMinutes s))\<rparr>
               else s);
          s = (if usageOverviewDailyAverageDayMinutes < sm_WindowMinutes s then
                 let days = fdiv (of_int64 (sm_WindowMinutes s)) (of_int64 usageOverviewDailyAverageDayMinutes)
                 in s\<lparr>sm_DailyAverageRequests := Some (fdiv (of_int64 (sm_RequestCount s)) days),
                      sm_DailyAverageTokens := Some (fdiv (of_int64 (sm_TokenCount s)) days),
                      sm_DailyAverageCost := Some (fdiv (sm_TotalCost s) days), sm_DailyAverageRangeDays := Some days\<rparr>
               else s)
      in ov\<lparr>ov_Summary := s, ov_Series := finalizeUsageOverviewSeries zone (ov_Series ov)\<rparr>)"

text \<open>A failed read or an error of the data ends the build; \<open>None\<close> is a search for a day that does not end.\<close>

definition bind_result :: "('e + 'a) option \<Rightarrow> ('a \<Rightarrow> ('e + 'b) option) \<Rightarrow> ('e + 'b) option" where
  "bind_result r f = Option.bind r (\<lambda>x. case x of Inl e \<Rightarrow> Some (Inl e) | Inr a \<Rightarrow> f a)"

text \<open>The hourly windows on both sides of the whole days.\<close>

fun load_hourly_windows ::
    "zone \<Rightarrow> overviewTables \<Rightarrow> UsageQueryFilter \<Rightarrow> bool \<Rightarrow> (time \<times> time) list \<Rightarrow> UsageOverview
      \<Rightarrow> (overviewQueryError + UsageOverview) option" where
  "load_hourly_windows zone db qf bucketByDay [] ov = Some (Inr ov)"
| "load_hourly_windows zone db qf bucketByDay ((start, stop) # windows) ov =
     (if \<not> start < stop then load_hourly_windows zone db qf bucketByDay windows ov
      else bind_result (loadAndApplyUsageOverviewStats zone db qf start stop HourlyGrain bucketByDay ov)
             (load_hourly_windows zone db qf bucketByDay windows))"

definition load_full_window ::
    "zone \<Rightarrow> overviewTables \<Rightarrow> UsageQueryFilter \<Rightarrow> bool \<Rightarrow> time \<Rightarrow> time \<Rightarrow> UsageOverview
      \<Rightarrow> (overviewQueryError + UsageOverview) option" where
  "load_full_window zone db qf bucketByDay fullStart fullEnd ov =
     (if \<not> fullStart < fullEnd then Some (Inr ov)
      else Option.bind (usageOverviewFullDayWindow zone fullStart fullEnd) (\<lambda>(fullDayStart, fullDayEnd).
             if \<not> bucketByDay \<or> \<not> fullDayStart < fullDayEnd
             then loadAndApplyUsageOverviewStats zone db qf fullStart fullEnd HourlyGrain bucketByDay ov
             else bind_result (loadAndApplyUsageOverviewStats zone db qf fullDayStart fullDayEnd DailyGrain bucketByDay ov)
                    (load_hourly_windows zone db qf bucketByDay [(fullStart, fullDayStart), (fullDayEnd, fullEnd)])))"

definition buildUsageOverviewFromStats ::
    "zone \<Rightarrow> overviewTables \<Rightarrow> time \<Rightarrow> UsageQueryFilter \<Rightarrow> recentCache option \<Rightarrow> time \<Rightarrow> time
      \<Rightarrow> (overviewQueryError + UsageOverview) option" where
  "buildUsageOverviewFromStats zone db now qf cache start stop =
     (let queryNow = usageOverviewQueryNow now qf;
          currentRight = usageOverviewCurrentRightBoundary qf queryNow;
          effective = usageOverviewEffectiveFilter qf queryNow;
          effectiveEnd = (if queryNow < stop then queryNow else stop);
          windowMinutes = computeWindowMinutes effective;
          bucketByDay = shouldBucketUsageOverviewByDay effective windowMinutes;
          ov = newUsageOverviewRecord windowMinutes;
          finish = (\<lambda>ov. Some (Inr (finalizeUsageOverview zone ov)))
      in if TrimSpace (uf_Range qf) = ''custom'' \<and> TrimSpace (uf_CustomUnit qf) = ''hour'' then
           bind_result (loadAndApplyUsageOverviewStats zone db qf start stop HourlyGrain False ov) finish
         else if TrimSpace (uf_Range qf) = ''custom'' \<and> TrimSpace (uf_CustomUnit qf) = ''day'' then
           bind_result (loadAndApplyUsageOverviewStats zone db qf start stop DailyGrain True ov) finish
         else
           let (fullStart, fullEnd) = usageOverviewFullHourWindow start effectiveEnd;
               windows = usageOverviewRawEventWindows effective fullStart fullEnd currentRight
           in Option.bind (loadUsageOverviewRawEventWindowsWithFilter zone (ot_events db) now effective windows cache) (\<lambda>boundaryEvents.
                bind_result (Some (apply_events zone bucketByDay fullStart fullEnd boundaryEvents ov)) (\<lambda>ov.
                  bind_result (load_full_window zone db effective bucketByDay fullStart fullEnd ov) finish)))"

definition BuildUsageOverviewWithFilterAndRecentCache ::
    "zone \<Rightarrow> overviewTables \<Rightarrow> time \<Rightarrow> UsageQueryFilter \<Rightarrow> recentCache option \<Rightarrow> (overviewQueryError + UsageOverview) option" where
  "BuildUsageOverviewWithFilterAndRecentCache zone db now qf cache =
     (if uf_ComparisonOnly qf then Some (Inl ComparisonQuery)
      else case (uf_StartTime qf, uf_EndTime qf) of
             (Some start, Some stop) \<Rightarrow> buildUsageOverviewFromStats zone db now qf cache start stop
           | _ \<Rightarrow> Some (Inl RangeMissing))"

end
