(* ===== verification/Overview_Exact.thy ===== *)
theory Overview_Exact
  imports Overview_Query
begin

text \<open>
  An overview counts every event of its range once. The range is cut into the edges, read as events,
  and the whole hours and days inside, read as rows; the theory shows that the pieces partition
  the range, that the reads of each piece select it exactly, and so that every counter of the
  result is the sum over the events of the range.
\<close>

section \<open>Sums\<close>

lemma wrap64_mid: "wrap64 (a + (wrap64 b + c)) = wrap64 (a + (b + c))"
  using wrap64_add [of b "a + c"] by (metis add.left_commute)

lemma wrap64_sum: "wrap64 (a + (\<Sum>r\<leftarrow>rs. wrap64 (g r))) = wrap64 (a + (\<Sum>r\<leftarrow>rs. g r))"
proof (induction rs arbitrary: a)
  case (Cons r rs)
  from Cons.IH [of "a + g r"] show ?case by (simp add: wrap64_mid add.assoc)
qed simp

text \<open>Filters that select every element of a list once, or not at all, partition it.\<close>

lemma filter_add_mset:
  "mset (filter (\<lambda>x. P x \<or> Q x) xs) = mset (filter P xs) + mset (filter Q xs)" if "\<forall>x\<in>set xs. \<not> (P x \<and> Q x)"
  using that by (induction xs) auto

lemma partition_mset:
  assumes "\<forall>x\<in>set xs. length (filter (\<lambda>r. C r x) rs) = of_bool (Q x)"
  shows "mset (concat (map (\<lambda>r. filter (C r) xs) rs)) = mset (filter Q xs)"
  using assms
proof (induction rs arbitrary: Q)
  case Nil
  then have "\<forall>x\<in>set xs. \<not> Q x" by simp
  then show ?case by (simp add: filter_False)
next
  case (Cons r rs)
  let ?Q = "\<lambda>x. Q x \<and> \<not> C r x"
  have "\<forall>x\<in>set xs. length (filter (\<lambda>r. C r x) rs) = of_bool (?Q x)"
    using Cons.prems by (auto simp: of_bool_def split: if_splits)
  then have "mset (concat (map (\<lambda>r. filter (C r) xs) rs)) = mset (filter ?Q xs)" by (rule Cons.IH)
  moreover have "\<forall>x\<in>set xs. C r x \<longrightarrow> Q x" using Cons.prems by (auto simp: of_bool_def split: if_splits)
  then have "filter (\<lambda>x. C r x \<or> ?Q x) xs = filter Q xs" by (intro filter_cong) auto
  ultimately show ?case using filter_add_mset [of xs "C r" ?Q] by simp
qed

lemma sum_list_mset_eq: "mset xs = mset ys \<Longrightarrow> (\<Sum>x\<leftarrow>xs. f x) = (\<Sum>x\<leftarrow>ys. f x :: int)"
  by (metis mset_map sum_mset_sum_list)


section \<open>The plan\<close>

definition whole_hour :: "time \<Rightarrow> bool" where
  "whole_hour t \<longleftrightarrow> t mod Hour = 0"

definition window_contains :: "rawEventWindow \<Rightarrow> time \<Rightarrow> bool" where
  "window_contains w t \<longleftrightarrow> rw_start w \<le> t \<and> (t < rw_end w \<or> rw_includeEnd w \<and> t = rw_end w)"

text \<open>
  The instants an overview is about: from its start up to its end. An end that is included is read
  unless it is a whole hour that the rows reach.
\<close>

definition includes_end :: "UsageQueryFilter \<Rightarrow> bool \<Rightarrow> time \<Rightarrow> time \<Rightarrow> bool" where
  "includes_end qf currentRight start stop \<longleftrightarrow>
     start < stop \<and> \<not> uf_EndExclusive qf
     \<and> (currentRight \<or> \<not> whole_hour stop \<or> stop - start < Hour \<and> \<not> whole_hour start)"

definition in_range :: "UsageQueryFilter \<Rightarrow> bool \<Rightarrow> time \<Rightarrow> time \<Rightarrow> time \<Rightarrow> bool" where
  "in_range qf currentRight start stop t \<longleftrightarrow> start \<le> t \<and> (t < stop \<or> includes_end qf currentRight start stop \<and> t = stop)"

lemma truncate_hour: "truncate_hour t \<le> t" "t < truncate_hour t + Hour" "whole_hour (truncate_hour t)"
    "truncate_hour t = t \<longleftrightarrow> whole_hour t"
proof -
  have "0 \<le> t mod Hour" "t mod Hour < Hour" by (simp_all add: Hour_def Minute_def Second_def)
  then show "truncate_hour t \<le> t" "t < truncate_hour t + Hour" by (simp_all add: truncate_hour_def)
  show "whole_hour (truncate_hour t)" by (simp add: truncate_hour_def whole_hour_def minus_mod_eq_div_mult)
  show "truncate_hour t = t \<longleftrightarrow> whole_hour t" by (simp add: truncate_hour_def whole_hour_def)
qed

text \<open>Whole hours are a whole number of hours apart.\<close>

lemma whole_hour_gap:
  assumes "whole_hour a" and "whole_hour b" and "a < b" shows "a + Hour \<le> b"
proof -
  obtain i j where ij: "a = Hour * i" "b = Hour * j"
    using assms(1,2) unfolding whole_hour_def mod_eq_0_iff_dvd dvd_def by blast
  have h: "0 < Hour" by (simp add: Hour_def Minute_def Second_def)
  with assms(3) ij have "i + 1 \<le> j" by simp
  with h have "Hour * (i + 1) \<le> Hour * j" by (intro mult_left_mono) simp_all
  with ij show ?thesis by (simp add: algebra_simps)
qed

lemma truncate_hour_le_iff:
  assumes "whole_hour a" shows "a \<le> truncate_hour t \<longleftrightarrow> a \<le> t"
  using truncate_hour [of t] whole_hour_gap [OF truncate_hour(3) [of t] assms] by linarith

lemma full_hours:
  assumes "usageOverviewFullHourWindow start stop = (fullStart, fullEnd)"
  shows "start \<le> fullStart" and "fullStart < start + Hour" and "whole_hour fullStart" and "whole_hour fullEnd"
    and "fullStart = start \<longleftrightarrow> whole_hour start" and "fullEnd = max fullStart (truncate_hour stop)"
proof -
  have fs: "fullStart = (if whole_hour start then start else truncate_hour start + Hour)"
    using assms truncate_hour(4) [of start] by (simp add: usageOverviewFullHourWindow_def Let_def eq_commute split: if_splits)
  show fe: "fullEnd = max fullStart (truncate_hour stop)"
    using assms by (auto simp: usageOverviewFullHourWindow_def Let_def max_def)
  have h: "0 < Hour" by (simp add: Hour_def Minute_def Second_def)
  have "whole_hour (truncate_hour start + Hour)" using truncate_hour(3) [of start] by (simp add: whole_hour_def)
  with fs show "whole_hour fullStart" by simp
  with fe truncate_hour(3) [of stop] show "whole_hour fullEnd" by (simp add: max_def)
  from fs h truncate_hour [of start] show "start \<le> fullStart" "fullStart < start + Hour" "fullStart = start \<longleftrightarrow> whole_hour start"
    by (auto simp: order_less_le)
qed

lemma merge_two:
  "rw_start a < rw_start b \<Longrightarrow> mergeUsageOverviewRawEventWindows [a, b] = merge_window [a] b"
  by (simp add: mergeUsageOverviewRawEventWindows_def)

text \<open>The windows and the whole hours hold every instant of the range once, and no other.\<close>

lemma raw_windows_partition:
  assumes full: "usageOverviewFullHourWindow start stop = (fullStart, fullEnd)"
    and qf: "uf_StartTime qf = Some start" "uf_EndTime qf = Some stop"
  shows "length (filter (\<lambda>w. window_contains w t) (usageOverviewRawEventWindows qf fullStart fullEnd currentRight)) =
      of_bool (in_range qf currentRight start stop t \<and> \<not> (fullStart \<le> t \<and> t < fullEnd))"
proof (cases "start < stop")
  case False
  then show ?thesis
    by (auto simp: usageOverviewRawEventWindows_def qf appendUsageOverviewRawEventBoundaryWindows_def
        mergeUsageOverviewRawEventWindows_def in_range_def includes_end_def)
next
  case True
  let ?ws = "usageOverviewRawEventWindows qf fullStart fullEnd currentRight"
  define inc where "inc = (\<not> uf_EndExclusive qf)"
  note h = full_hours [OF full] truncate_hour [of stop]
  have whole: "whole_hour stop \<longleftrightarrow> stop = truncate_hour stop" using truncate_hour(4) [of stop] by auto
  have range: "in_range qf currentRight start stop t \<longleftrightarrow>
      start \<le> t \<and> (t < stop \<or> inc \<and> (currentRight \<or> \<not> whole_hour stop \<or> stop \<le> fullStart) \<and> t = stop)"
  proof -
    have "whole_hour stop \<Longrightarrow> stop - start < Hour \<and> \<not> whole_hour start \<longleftrightarrow> stop \<le> fullStart"
      using h(1-3,5) True whole_hour_gap [of fullStart stop] whole_hour_gap [of start stop] by (cases "whole_hour start") force+
    with True show ?thesis by (auto simp: in_range_def includes_end_def inc_def)
  qed
  define left where "left = (if start < fullStart
    then [\<lparr>rw_start = start, rw_end = min stop fullStart, rw_includeEnd = inc \<and> stop \<le> fullStart,
           rw_currentRight = currentRight \<and> stop \<le> fullStart\<rparr>] else [])"
  define right where "right = (if fullEnd < stop \<or> currentRight \<and> fullEnd = stop
    then [\<lparr>rw_start = fullEnd, rw_end = stop, rw_includeEnd = inc, rw_currentRight = currentRight\<rparr>] else [])"
  have fe: "start \<le> fullEnd" "fullStart \<le> fullEnd" using h by simp_all
  have "?ws = mergeUsageOverviewRawEventWindows (left @ right)"
    using True fe(1) by (auto simp: usageOverviewRawEventWindows_def qf appendUsageOverviewRawEventBoundaryWindows_def
        left_def right_def inc_def Let_def min_def)
  moreover have "mergeUsageOverviewRawEventWindows ws = ws" if "length ws < 2" for ws
    using that by (simp add: mergeUsageOverviewRawEventWindows_def)
  ultimately consider (none) "left = []" "?ws = right" | (left) "right = []" "?ws = left"
    | (both) "left \<noteq> []" "right \<noteq> []" "?ws = merge_window [hd left] (hd right)"
    using merge_two [of "hd left" "hd right"] fe h(1) by (auto simp: left_def right_def split: if_splits)
  then show ?thesis
  proof cases
    case none
    then have "fullStart = start" using h(1) by (auto simp: left_def split: if_splits)
    with none h fe whole True show ?thesis
      by (auto simp: right_def window_contains_def range max_def split: if_splits)
  next
    case left
    then show ?thesis using h fe whole True
      by (auto simp: right_def left_def window_contains_def range max_def split: if_splits)
  next
    case both
    from both(1,2) have less: "start < fullStart" and reach: "fullEnd < stop \<or> currentRight \<and> fullEnd = stop"
      by (auto simp: left_def right_def split: if_splits)
    then have min: "min stop fullStart = fullStart" using fe by auto
    have hd: "hd left = \<lparr>rw_start = start, rw_end = fullStart, rw_includeEnd = inc \<and> stop \<le> fullStart,
           rw_currentRight = currentRight \<and> stop \<le> fullStart\<rparr>"
        "hd right = \<lparr>rw_start = fullEnd, rw_end = stop, rw_includeEnd = inc, rw_currentRight = currentRight\<rparr>"
      using less reach min by (simp_all add: left_def right_def)
    have closed: "in_range qf currentRight start stop t \<longleftrightarrow> start \<le> t \<and> (t < stop \<or> inc \<and> t = stop)"
    proof -
      have "currentRight \<or> \<not> whole_hour stop" using reach h(4) h(6) whole by (metis max.strict_coboundedI2 order_less_irrefl)
      then show ?thesis unfolding range by blast
    qed
    show ?thesis
    proof (cases "fullStart < fullEnd")
      case True
      then have "?ws = [hd left, hd right]" using both(3) by (simp add: hd merge_window_def)
      then show ?thesis using True less reach h(1) unfolding closed by (auto simp: hd window_contains_def)
    next
      case False
      with fe have same: "fullEnd = fullStart" by simp
      have "window_contains w t \<longleftrightarrow> start \<le> t \<and> (t < stop \<or> inc \<and> t = stop)"
        if "w = \<lparr>rw_start = start, rw_end = stop, rw_includeEnd = inc, rw_currentRight = c\<rparr>" for w c
        by (simp add: that window_contains_def)
      moreover have "\<exists>c. merge_window [hd left] (hd right) = [\<lparr>rw_start = start, rw_end = stop, rw_includeEnd = inc, rw_currentRight = c\<rparr>]"
        using reach unfolding hd same by (auto simp: merge_window_def Let_def)
      ultimately show ?thesis unfolding closed both(3) using same by auto
    qed
  qed
qed

section \<open>The reads\<close>

context segmented_zone
begin

text \<open>The reads of a range partition it, whatever the zone does within it.\<close>

lemma time_reads_partition:
  "\<exists>reads. time_reads zone stop incl cursor = Some reads
     \<and> (\<forall>t. length (filter (\<lambda>r. read_contains r t) reads) = of_bool (cursor \<le> t \<and> (t < stop \<or> incl \<and> t = stop)))"
proof (induction "nat (stop - cursor)" arbitrary: cursor rule: less_induct)
  case less
  let ?in = "\<lambda>t. cursor \<le> t \<and> (t < stop \<or> incl \<and> t = stop)"
  show ?case
  proof (cases "cursor < stop \<or> incl \<and> cursor = stop")
    case False
    then show ?thesis by (subst time_reads.simps) auto
  next
    case True
    show ?thesis
    proof (cases "\<exists>e. ZoneSegmentEnd zone cursor = Some e \<and> e \<le> stop")
      case False
      then have "time_reads zone stop incl cursor = Some [\<lparr>tr_start = cursor, tr_end = stop, tr_includeEnd = incl\<rparr>]"
        using True by (subst time_reads.simps) (auto split: option.split)
      then show ?thesis by (auto simp: read_contains_def)
    next
      case True
      then obtain e where e: "ZoneSegmentEnd zone cursor = Some e" "cursor < e" "e \<le> stop" using segment_until(1) by blast
      then have "nat (stop - e) < nat (stop - cursor)" by simp
      from less.hyps [OF this] obtain reads where reads: "time_reads zone stop incl e = Some reads"
        "length (filter (\<lambda>r. read_contains r t) reads) = of_bool (e \<le> t \<and> (t < stop \<or> incl \<and> t = stop))" for t
        by blast
      let ?r = "\<lparr>tr_start = cursor, tr_end = e, tr_includeEnd = False\<rparr>"
      have first: "read_contains ?r t \<longleftrightarrow> cursor \<le> t \<and> t < e" for t by (auto simp: read_contains_def)
      have "time_reads zone stop incl cursor = (if e = stop \<and> \<not> incl then Some [?r] else Some (?r # reads))"
        using e reads(1) by (subst time_reads.simps) (simp add: Let_def)
      moreover have "length (filter (\<lambda>r. read_contains r t) (?r # reads)) = of_bool (?in t)" for t
      proof -
        have "length (filter (\<lambda>r. read_contains r t) (?r # reads)) =
            of_bool (cursor \<le> t \<and> t < e) + length (filter (\<lambda>r. read_contains r t) reads)"
          by (simp add: first)
        then show ?thesis unfolding reads(2) using e(2,3) by (auto simp: of_bool_def)
      qed
      moreover have "length (filter (\<lambda>r. read_contains r t) [?r]) = of_bool (?in t)" if "e = stop" "\<not> incl" for t
        unfolding filter.simps first using that by auto
      ultimately show ?thesis by (cases "e = stop \<and> \<not> incl") auto
    qed
  qed
qed

lemma event_reads_partition:
  "\<exists>reads. usageEventTimeReads zone start stop incl = Some reads
     \<and> (\<forall>t. length (filter (\<lambda>r. read_contains r t) reads) = of_bool (start \<le> t \<and> (t < stop \<or> incl \<and> t = stop)))"
  using time_reads_partition [of stop incl start] by (auto simp: usageEventTimeReads_def)

text \<open>So a range reads the events in scope that lie in it, in the order of their times.\<close>

lemma event_range_exact:
  "\<exists>es. loadUsageOverviewEventRange zone events qf start stop incl = Some es
     \<and> mset es = mset (filter (\<lambda>e. event_in_scope qf e \<and> start \<le> ue_Timestamp e
                             \<and> (ue_Timestamp e < stop \<or> incl \<and> ue_Timestamp e = stop)) events)"
proof -
  obtain reads where reads: "usageEventTimeReads zone start stop incl = Some reads"
    "\<forall>t. length (filter (\<lambda>r. read_contains r t) reads) = of_bool (start \<le> t \<and> (t < stop \<or> incl \<and> t = stop))"
    using event_reads_partition by blast
  let ?scope = "filter (event_in_scope qf) events"
  have "mset (concat (map (\<lambda>r. sort_key ue_Timestamp (filter (\<lambda>e. event_in_scope qf e \<and> read_contains r (ue_Timestamp e)) events)) reads))
      = mset (concat (map (\<lambda>r. filter (\<lambda>e. read_contains r (ue_Timestamp e)) ?scope) reads))"
    by (simp add: mset_concat comp_def mset_map [symmetric] conj_commute)
  also have "\<dots> = mset (filter (\<lambda>e. start \<le> ue_Timestamp e \<and> (ue_Timestamp e < stop \<or> incl \<and> ue_Timestamp e = stop)) ?scope)"
    by (rule partition_mset) (simp add: reads(2))
  finally show ?thesis by (simp add: loadUsageOverviewEventRange_def reads(1) conj_commute)
qed

text \<open>Without a cache the windows of the edges read the events in scope that lie in one of them.\<close>

lemma raw_events_exact:
  assumes "\<forall>e\<in>set events. length (filter (\<lambda>w. window_contains w (ue_Timestamp e)) ws) = of_bool (Q (ue_Timestamp e))"
  shows "\<exists>es. loadUsageOverviewRawEventWindowsWithFilter zone events now qf ws None = Some es
     \<and> mset es = mset (filter (\<lambda>e. event_in_scope qf e \<and> Q (ue_Timestamp e)) events)"
proof -
  let ?scope = "filter (event_in_scope qf) events"
  have loaded: "\<exists>es. load_windows zone events qf None queryNow ws = Some es
     \<and> mset es = mset (concat (map (\<lambda>w. filter (\<lambda>e. window_contains w (ue_Timestamp e)) ?scope) ws))" for queryNow ws
  proof (induction ws)
    case (Cons w ws)
    obtain es where "loadUsageOverviewEventRange zone events qf (rw_start w) (rw_end w) (rw_includeEnd w) = Some es"
      "mset es = mset (filter (\<lambda>e. window_contains w (ue_Timestamp e)) ?scope)"
      using event_range_exact [of events qf "rw_start w" "rw_end w" "rw_includeEnd w"] by (auto simp: window_contains_def conj_commute)
    with Cons show ?case
      by (auto simp: window_events_def usageOverviewRecentCacheCoversWindow_def split: prod.split)
  qed simp
  have "mset (concat (map (\<lambda>w. filter (\<lambda>e. window_contains w (ue_Timestamp e)) ?scope) ws)) = mset (filter (\<lambda>e. Q (ue_Timestamp e)) ?scope)"
    by (rule partition_mset) (use assms in simp)
  with loaded [of "usageOverviewQueryNow now qf" ws] show ?thesis
    by (simp add: loadUsageOverviewRawEventWindowsWithFilter_def conj_commute)
qed

end

section \<open>The rows of a window\<close>

definition whole_second :: "time \<Rightarrow> bool" where
  "whole_second t \<longleftrightarrow> unix t * Second = t"

lemma whole_hour_second: "whole_hour t \<Longrightarrow> whole_second t"
proof -
  assume "whole_hour t"
  then obtain k where "t = Hour * k" unfolding whole_hour_def mod_eq_0_iff_dvd dvd_def by blast
  then have "t = (3600 * k) * Second" by (simp add: Hour_def Minute_def)
  then show ?thesis unfolding whole_second_def by (simp only: unix_of_seconds)
qed

lemma whole_second_less: "whole_second a \<Longrightarrow> whole_second b \<Longrightarrow> unix a < unix b \<longleftrightarrow> a < b"
  unfolding whole_second_def using le_unix_iff [of "unix b" a] by linarith

lemma unix_hours: "unix (t + 48 * Hour) = unix t + 172800" "unix (t - 48 * Hour) = unix t - 172800"
proof -
  have "t + 48 * Hour = t + 172800 * Second" "t - 48 * Hour = t + (- 172800) * Second" by (simp_all add: Hour_def Minute_def)
  then show "unix (t + 48 * Hour) = unix t + 172800" "unix (t - 48 * Hour) = unix t - 172800"
    by (simp_all add: unix_def Second_def)
qed

lemma unix_mono: "t \<le> u \<Longrightarrow> unix t \<le> unix u"
  by (simp add: unix_def zdiv_mono1 Second_def)

text \<open>Zones of this theory: regular days, segments as documented, and midnights on the whole hours by which the code cuts.\<close>

definition overview_zone :: "zone \<Rightarrow> bool" where
  "overview_zone zone \<longleftrightarrow> regular_days zone \<and> segments_true zone \<and> (\<forall>day. whole_hour (midnight zone day * Second))"

locale hourly_zone =
  fixes zone :: zone
  assumes overview: "overview_zone zone"
begin

sublocale regular_zone zone
  by unfold_locales (use overview in \<open>simp add: overview_zone_def\<close>)

sublocale segmented_zone zone
  by unfold_locales (use overview in \<open>simp add: overview_zone_def\<close>)

lemma midnight_hour: "whole_hour (midnight zone day * Second)"
  using overview by (simp add: overview_zone_def)

lemma stable_offset:
  assumes "usageReadHasStableOffset zone start stop" and "start - 48 * Hour \<le> u" and "u \<le> stop + 48 * Hour"
  shows "zs_offset (zone (unix u)) = zs_offset (zone (unix (start - 48 * Hour)))"
  using assms segment_forever [of "start - 48 * Hour" u] segment_until(2) [of "start - 48 * Hour" _ u]
  by (auto simp: usageReadHasStableOffset_def split: option.splits)

text \<open>Where the clocks do not change the order of the stored texts is that of the times.\<close>

lemma stable_order:
  assumes stable: "usageReadHasStableOffset zone start stop"
    and seconds: "whole_second start" "whole_second stop" "whole_second k" and le: "start \<le> stop"
  shows "\<not> storage_text_less zone k start \<and> storage_text_less zone k stop \<longleftrightarrow> start \<le> k \<and> k < stop"
proof -
  define off where "off = zs_offset (zone (unix (start - 48 * Hour)))"
  have h: "0 < Hour" by (simp add: Hour_def Minute_def Second_def)
  have bound: "\<bar>zs_offset (zone u)\<bar> \<le> 86400" for u using regular by (simp add: regular_days_def)
  have ends: "wall_seconds zone start = unix start + off" "wall_seconds zone stop = unix stop + off"
    using stable_offset [OF stable, of start] stable_offset [OF stable, of stop] le h by (simp_all add: wall_seconds_def off_def)
  have oo: "\<bar>off\<bar> \<le> 86400" by (simp add: off_def bound)
  consider (before) "k < start - 48 * Hour" | (near) "start - 48 * Hour \<le> k" "k \<le> stop + 48 * Hour" | (behind) "stop + 48 * Hour < k"
    by linarith
  then show ?thesis
  proof cases
    case before
    have "whole_second (start - 48 * Hour)" using seconds(1) unfolding whole_second_def unix_hours
      by (simp add: Hour_def Minute_def left_diff_distrib)
    with before have "unix k < unix start - 172800" using whole_second_less [OF seconds(3), of "start - 48 * Hour"] by (simp add: unix_hours)
    then have "wall_seconds zone k < wall_seconds zone start"
      using bound [of "unix k"] oo by (simp add: ends) (simp add: wall_seconds_def)
    then show ?thesis using before h by (simp add: storage_text_less_def)
  next
    case behind
    have "unix stop + 172800 \<le> unix k" using unix_mono [of "stop + 48 * Hour" k] behind by (simp add: unix_hours)
    then have "wall_seconds zone stop < wall_seconds zone k \<or> unix k = unix stop + 172800"
      using bound [of "unix k"] oo unfolding ends(2) wall_seconds_def [of zone k] by linarith
    moreover have "unix k \<noteq> unix stop + 172800"
      using behind seconds(2,3) unfolding whole_second_def by (auto simp: Hour_def Minute_def algebra_simps)
    ultimately show ?thesis using behind h le by (auto simp: storage_text_less_def)
  next
    case near
    then have k: "wall_seconds zone k = unix k + off" using stable_offset [OF stable, of k] by (simp add: wall_seconds_def off_def)
    have same: "zs_offset (zone (unix start)) = off" "zs_offset (zone (unix stop)) = off" "zs_offset (zone (unix k)) = off"
      using ends k by (simp_all add: wall_seconds_def)
    have "storage_text_less zone k x \<longleftrightarrow> k < x" if "wall_seconds zone x = unix x + off" "zs_offset (zone (unix x)) = off" "whole_second x" for x
      using whole_second_less [OF seconds(3) that(3)] by (auto simp: storage_text_less_def k that same)
    then show ?thesis using ends same seconds by auto
  qed
qed

lemma hourly_keys_set:
  "whole_hour cursor \<Longrightarrow> set (hourly_keys start stop cursor) = {k. whole_hour k \<and> cursor \<le> k \<and> start \<le> k \<and> k < stop}"
proof (induction start stop cursor rule: hourly_keys.induct)
  case (1 start stop cursor)
  have "whole_hour (cursor + Hour)" using 1(2) by (simp add: whole_hour_def)
  moreover have gap: "cursor \<le> k \<longleftrightarrow> k = cursor \<or> cursor + Hour \<le> k" if "whole_hour k" for k
    using whole_hour_gap [OF 1(2) that] by (cases "cursor < k") (auto simp: Hour_def Minute_def Second_def)
  ultimately have keys: "set (hourly_keys start stop (cursor + Hour)) = {k. whole_hour k \<and> cursor + Hour \<le> k \<and> start \<le> k \<and> k < stop}"
    if "cursor < stop" using 1(1) that by blast
  have "x \<in> set (hourly_keys start stop cursor) \<longleftrightarrow> whole_hour x \<and> cursor \<le> x \<and> start \<le> x \<and> x < stop" for x
  proof (cases "cursor < stop")
    case True
    then have "x \<in> set (hourly_keys start stop cursor) \<longleftrightarrow> \<not> cursor < start \<and> x = cursor \<or> x \<in> set (hourly_keys start stop (cursor + Hour))"
      by (subst hourly_keys.simps) (auto simp del: hourly_keys.simps)
    also have "\<dots> \<longleftrightarrow> \<not> cursor < start \<and> x = cursor \<or> whole_hour x \<and> cursor + Hour \<le> x \<and> start \<le> x \<and> x < stop"
      unfolding keys [OF True] by blast
    also have "\<dots> \<longleftrightarrow> whole_hour x \<and> cursor \<le> x \<and> start \<le> x \<and> x < stop"
      using gap [of x] 1(2) True by (metis leD leI)
    finally show ?thesis .
  qed (subst hourly_keys.simps, simp del: hourly_keys.simps)
  then show ?case by blast
qed

lemma hourly_selected:
  assumes "whole_hour start" and "whole_hour stop" and "start \<le> stop"
  shows "\<exists>b. overviewBucketRead zone start stop HourlyGrain = Some b \<and> br_displayStarts b = []
    \<and> (\<forall>k. whole_hour k \<longrightarrow> bucket_selected zone b k = (start \<le> k \<and> k < stop))"
proof (cases "usageReadHasStableOffset zone start stop")
  case True
  then show ?thesis
    using stable_order [OF True] whole_hour_second assms by (simp add: overviewBucketRead_def bucket_selected_def)
next
  case False
  have "start \<le> k \<Longrightarrow> truncate_hour start \<le> k" for k using truncate_hour(1) [of start] by linarith
  then have "k \<in> set (hourly_keys start stop (truncate_hour start)) \<longleftrightarrow> start \<le> k \<and> k < stop" if "whole_hour k" for k
    unfolding hourly_keys_set [OF truncate_hour(3)] using that by blast
  with False show ?thesis by (simp add: overviewBucketRead_def bucket_selected_def del: hourly_keys.simps)
qed

end

context hourly_zone
begin

lemma midnight_mono: "midnight zone d < midnight zone d' \<longleftrightarrow> d < d'"
proof -
  have step: "midnight zone d < midnight zone d'" if "d < d'" for d d'
    using that
  proof (induction rule: int_gr_induct)
    case base
    then show ?case using midnight_less [of d] by simp
  next
    case (step i)
    then show ?case using midnight_less [of i] by simp
  qed
  from step [of d d'] step [of d' d] show ?thesis by (cases d d' rule: linorder_cases) auto
qed

lemma midnight_times: "midnight zone d * Second < midnight zone d' * Second \<longleftrightarrow> d < d'"
  by (simp add: midnight_mono Second_def)

lemma day_start_of_midnight: "day_start zone (midnight zone d * Second) = midnight zone d * Second"
  by (simp add: day_start_midnight wall_day_def wall_midnight)

lemma bounds_of_day:
  "DayBounds zone day = Some (Some \<lparr>iv_Start = midnight zone day * Second, iv_End = midnight zone (day + 1) * Second\<rparr>)"
  using overview by (simp add: DayBounds_regular overview_zone_def)

lemma daily_keys_value:
  "date \<le> d2 \<Longrightarrow> daily_keys zone (midnight zone d1 * Second) (midnight zone d2 * Second) date acc =
     Some (acc @ map (\<lambda>d. (midnight zone d * Second, midnight zone d * Second)) (filter (\<lambda>d. d1 \<le> d) [date..d2 - 1]))"
proof (induction "nat (d2 - date)" arbitrary: date acc)
  case 0
  then show ?case by (subst daily_keys.simps) (simp add: bounds_of_day)
next
  case (Suc n)
  then have less: "date < d2" by simp
  with Suc(2) have "n = nat (d2 - date_AddDays date 1)" "date_AddDays date 1 \<le> d2" by (simp_all add: date_AddDays_def)
  note IH = Suc(1) [OF this]
  have range: "[date..d2 - 1] = date # [date_AddDays date 1..d2 - 1]"
    using less by (simp add: upto_rec1 date_AddDays_def)
  show ?case
    by (subst daily_keys.simps)
      (use less in \<open>simp add: bounds_of_day midnight_times IH day_start_of_midnight range del: upto.simps\<close>)
qed

lemma daily_selected:
  assumes "d1 \<le> d2"
  shows "\<exists>b. overviewBucketRead zone (midnight zone d1 * Second) (midnight zone d2 * Second) DailyGrain = Some b
    \<and> (\<forall>d. bucket_selected zone b (midnight zone d * Second) = (d1 \<le> d \<and> d < d2))
    \<and> (\<forall>d. displayStart b (midnight zone d * Second) = midnight zone d * Second)"
proof -
  let ?m = "\<lambda>d. midnight zone d * Second"
  have seconds: "whole_second (?m d)" for d by (simp add: whole_second_def)
  have order: "?m d1 \<le> ?m d \<and> ?m d < ?m d2 \<longleftrightarrow> d1 \<le> d \<and> d < d2" for d
    using midnight_times [of d d1] by (simp add: not_less [symmetric] midnight_times)
  show ?thesis
  proof (cases "usageReadHasStableOffset zone (?m d1) (?m d2)")
    case True
    have "?m d1 \<le> ?m d2" using assms midnight_times [of d2 d1] by (simp add: not_less [symmetric])
    from stable_order [OF True seconds seconds seconds this] show ?thesis
      using True order by (auto simp: overviewBucketRead_def bucket_selected_def displayStart_def)
  next
    case False
    let ?ds = "filter (\<lambda>d. d1 \<le> d) [d1..d2 - 1]"
    define b where "b = \<lparr>br_keys = map ?m ?ds, br_displayStarts = map (\<lambda>d. (midnight zone d, ?m d)) (rev ?ds),
      br_start = ?m d1, br_end = ?m d2, br_stableOffset = False\<rparr>"
    have "DateOf zone (?m d1) = d1" by (simp add: DateOf_def wall_day_def wall_midnight)
    then have "overviewBucketRead zone (?m d1) (?m d2) DailyGrain = Some b"
      using False daily_keys_value [OF assms] by (simp add: overviewBucketRead_def b_def comp_def rev_map [symmetric])
    moreover have "?m d = ?m d' \<longleftrightarrow> d = d'" for d d' by (metis midnight_times linorder_neq_iff)
    then have "bucket_selected zone b (?m d) = (d1 \<le> d \<and> d < d2)" for d
      by (auto simp: bucket_selected_def b_def)
    moreover have "displayStart b (?m d) = ?m d" for d
    proof (cases "map_of (br_displayStarts b) (midnight zone d)")
      case (Some x)
      then have "(midnight zone d, x) \<in> set (br_displayStarts b)" by (rule map_of_SomeD)
      then have "x = ?m d" by (auto simp: b_def)
      with Some show ?thesis by (simp add: displayStart_def)
    qed (simp add: displayStart_def)
    ultimately show ?thesis by blast
  qed
qed

text \<open>The start of the day of an instant lies between two midnights exactly if the instant does.\<close>

lemma day_between:
  "d1 \<le> wall_day zone t \<and> wall_day zone t < d2 \<longleftrightarrow> midnight zone d1 * Second \<le> t \<and> t < midnight zone d2 * Second"
proof -
  define d where "d = wall_day zone t"
  then have d: "midnight zone d * Second \<le> t" "t < midnight zone (d + 1) * Second"
    using regular_day_iff [OF regular, of t d] by simp_all
  have "d1 \<le> d \<longleftrightarrow> midnight zone d1 * Second \<le> t" for d1
    using d midnight_times [of d d1] midnight_times [of d1 "d + 1"] by (auto simp: not_less [symmetric])
  from this [of d1] this [of d2] show ?thesis
    unfolding d_def [symmetric] by (auto simp: not_le)
qed

end

section \<open>Counters\<close>

text \<open>Scopes that stored events and rows answer alike: by instance and by API keys that are stored as they are.\<close>

definition plain_scope :: "UsageQueryFilter \<Rightarrow> usageEvent list \<Rightarrow> bool" where
  "plain_scope qf events \<longleftrightarrow>
     uf_Providers qf = None \<and> uf_ProviderAuthIndexes qf = None
     \<and> (\<forall>e\<in>set events. normalizeRequiredDimension (ue_APIGroupKey e) = ue_APIGroupKey e)"

lemma plain_scope_rows:
  assumes "plain_scope qf events" and "e \<in> set events" and "os_Key r = event_dimensions e t"
  shows "row_in_scope qf r \<longleftrightarrow> event_in_scope qf e"
  using assms by (auto simp: plain_scope_def row_in_scope_def event_in_scope_def event_dimensions_def)

text \<open>A row of a bucket whose fees are all stored is present in the columns of its group.\<close>

definition priced :: "usageOverviewStatProjection \<Rightarrow> bool" where
  "priced p \<longleftrightarrow> sp_CostUSD p \<noteq> None \<and> sp_UnavailableCostCount p \<noteq> None \<and> sp_MissingCostCount p = 0"

lemma stat_projection_start [simp]: "sp_BucketStart (stat_projection sum_cost k rows) = k"
  by (simp add: stat_projection_def)

lemma stat_projection_priced:
  assumes "rows \<noteq> []" and "\<forall>r\<in>set rows. os_CostUSD r \<noteq> None \<and> os_UnavailableCostCount r \<noteq> None"
  shows "priced (stat_projection sum_cost k rows)"
proof -
  from assms obtain r rest where "rows = r # rest" "os_CostUSD r \<noteq> None" "os_UnavailableCostCount r \<noteq> None" by (cases rows) auto
  moreover have "filter (\<lambda>r. os_CostUSD r = None \<or> os_UnavailableCostCount r = None) rows = []"
    using assms(2) by (auto simp: filter_empty_conv)
  ultimately show ?thesis by (auto simp: priced_def stat_projection_def Let_def map_filter_simps)
qed

lemma table_sum:
  assumes table: "table_of key events rows" and exact: "\<And>r es. row_exact r es \<Longrightarrow> sv r = wrap64 (\<Sum>e\<leftarrow>es. ev e)"
  shows "wrap64 (a + (\<Sum>r\<leftarrow>filter (\<lambda>r. P (os_Key r)) rows. sv r)) = wrap64 (a + (\<Sum>e\<leftarrow>filter (\<lambda>e. P (key e)) events. ev e))"
proof -
  let ?rows = "filter (\<lambda>r. P (os_Key r)) rows" and ?es = "filter (\<lambda>e. P (key e)) events"
  let ?part = "\<lambda>k. \<Sum>e\<leftarrow>filter (\<lambda>e. key e = k) ?es. ev e"
  have "sv r = wrap64 (?part (os_Key r))" if "r \<in> set ?rows" for r
  proof -
    have "row_exact r (filter (\<lambda>e. key e = os_Key r) events)" using table that by (simp add: table_of_def)
    moreover have "filter (\<lambda>e. key e = os_Key r) ?es = filter (\<lambda>e. key e = os_Key r) events"
      using that by (auto intro: filter_cong)
    ultimately show ?thesis using exact by simp
  qed
  then have "(\<Sum>r\<leftarrow>?rows. sv r) = (\<Sum>r\<leftarrow>?rows. wrap64 (?part (os_Key r)))" by (intro arg_cong [of _ _ sum_list] map_cong) simp_all
  then have "wrap64 (a + (\<Sum>r\<leftarrow>?rows. sv r)) = wrap64 (a + (\<Sum>r\<leftarrow>?rows. ?part (os_Key r)))" by (simp only: wrap64_sum)
  also have "(\<Sum>r\<leftarrow>?rows. ?part (os_Key r)) = (\<Sum>k\<leftarrow>map os_Key ?rows. ?part k)" by (simp add: comp_def)
  also have "\<dots> = (\<Sum>e\<leftarrow>?es. ev e)"
  proof (rule sum_by_key)
    have "hourlyRowLess = (\<lambda>l r. os_Key l < os_Key r)" by (intro ext) (simp add: rowLess_key)
    then have "sorted_wrt (<) (map os_Key rows)" using table by (simp add: table_of_def sorted_wrt_map)
    then have "distinct (map os_Key rows)" by (simp add: strict_sorted_iff)
    then show "distinct (map os_Key ?rows)" by (rule distinct_map_filter)
    show "key ` set ?es \<subseteq> set (map os_Key ?rows)" using table by (auto simp: table_of_def image_iff) (metis image_iff)
  qed
  finally show ?thesis .
qed

text \<open>
  A bucket whose fees do not add up to a number cannot be shown. The fee of a bucket is the database's sum over its rows in
  scope; \<open>bad\<close> are the buckets of events in scope, at instants with \<open>P\<close>, whose fee is not finite.
\<close>

definition finite_fee :: "float64 \<Rightarrow> bool" where
  "finite_fee fee \<longleftrightarrow> (\<exists>x. fee = Fin x)"

lemma not_finite_fee: "\<not> finite_fee fee \<longleftrightarrow> fee \<in> {NaN, PosInf, NegInf}"
  by (cases fee) (simp_all add: finite_fee_def)

definition bucket_fee :: "(float64 list \<Rightarrow> float64) \<Rightarrow> UsageQueryFilter \<Rightarrow> usageOverviewStat list \<Rightarrow> time \<Rightarrow> float64" where
  "bucket_fee sum_cost qf table k =
     sum_cost (List.map_filter os_CostUSD (filter (\<lambda>r. bk_BucketStart (os_Key r) = k \<and> row_in_scope qf r) table))"

definition bad ::
    "(float64 list \<Rightarrow> float64) \<Rightarrow> usageOverviewStat list \<Rightarrow> UsageQueryFilter \<Rightarrow> usageEvent list \<Rightarrow> (usageEvent \<Rightarrow> time) \<Rightarrow> (time \<Rightarrow> bool)
      \<Rightarrow> time set" where
  "bad sum_cost table qf events bucket P =
     bucket ` {e \<in> set events. event_in_scope qf e \<and> P (ue_Timestamp e) \<and> \<not> finite_fee (bucket_fee sum_cost qf table (bucket e))}"

lemma bad_none: "(\<And>t. \<not> P t) \<Longrightarrow> bad sum_cost table qf events bucket P = {}"
  by (simp add: bad_def)

lemma bad_or: "bad sum_cost table qf events bucket (\<lambda>t. P t \<or> Q t) = bad sum_cost table qf events bucket P \<union> bad sum_cost table qf events bucket Q"
  by (auto simp: bad_def)

definition infinite_cost :: "usageOverviewStatProjection \<Rightarrow> bool" where
  "infinite_cost p \<longleftrightarrow> (\<exists>c. sp_CostUSD p = Some c \<and> \<not> finite_fee c)"

lemma stat_projection_cost:
  assumes "rows \<noteq> []" and "\<forall>r\<in>set rows. os_CostUSD r \<noteq> None \<and> os_UnavailableCostCount r \<noteq> None"
  shows "sp_CostUSD (stat_projection sum_cost k rows) = Some (sum_cost (List.map_filter os_CostUSD rows))"
proof -
  from assms obtain r rest where "rows = r # rest" "os_CostUSD r \<noteq> None" by (cases rows) auto
  then show ?thesis by (auto simp: stat_projection_def Let_def map_filter_simps)
qed

text \<open>
  A counter of the overview: what an event adds, what the columns of a bucket add, and that the row of
  a bucket holds the sum of its events. It counts where \<open>on\<close> says, which does not tell an instant
  from the start of its bucket.
\<close>

locale counter =
  fixes get :: "UsageOverview \<Rightarrow> int"
    and ev :: "usageEvent \<Rightarrow> int"
    and pv :: "usageOverviewStatProjection \<Rightarrow> int"
    and sv :: "usageOverviewStat \<Rightarrow> int"
    and on :: "zone \<Rightarrow> bool \<Rightarrow> time \<Rightarrow> bool"
  assumes fresh: "get (newUsageOverviewRecord m) = 0"
    and event: "is_int64 (get ov) \<Longrightarrow> get (applyUsageEventToOverview zone e byDay cost available
                  (ov\<lparr>ov_Usage := applyUsageEventToOverviewSnapshot e (ov_Usage ov)\<rparr>)) =
                wrap64 (get ov + (if on zone byDay (ue_Timestamp e) then ev e else 0))"
    and stat: "is_int64 (get ov) \<Longrightarrow> applyUsageOverviewStatToOverview zone byDay p ov = Inr ov' \<Longrightarrow>
                get ov' = wrap64 (get ov + (if on zone byDay (sp_BucketStart p) then pv p else 0))"
    and projection: "pv ((stat_projection sum_cost k rows)\<lparr>sp_BucketStart := t\<rparr>) = (\<Sum>r\<leftarrow>rows. sv r)"
    and row: "row_exact r es \<Longrightarrow> sv r = wrap64 (\<Sum>e\<leftarrow>es. ev e)"
    and hour: "overview_zone zone \<Longrightarrow> on zone byDay (truncate_hour t) = on zone byDay t"
    and day: "overview_zone zone \<Longrightarrow> on zone True (day_start zone t) = on zone True t"
    and finish: "get (finalizeUsageOverview zone ov) = get ov"
begin

text \<open>The result counts \<open>n\<close> if no bucket in \<open>B\<close> is bad, and is the error of one of them otherwise.\<close>

definition outcome :: "overviewQueryError + UsageOverview \<Rightarrow> time set \<Rightarrow> int \<Rightarrow> bool" where
  "outcome r B n \<longleftrightarrow> (case r of Inl err \<Rightarrow> \<exists>t\<in>B. err = BucketNotFinite t | Inr ov \<Rightarrow> B = {} \<and> get ov = wrap64 n)"

lemma outcome_wrap: "outcome r B (wrap64 a + b) \<longleftrightarrow> outcome r B (a + b)"
  by (cases r) (simp_all add: outcome_def)

lemma outcome_bind:
  assumes "outcome r A n" and "\<And>ov. is_int64 (get ov) \<Longrightarrow> get ov = wrap64 n \<Longrightarrow> \<exists>r'. f ov = Some r' \<and> outcome r' B m"
  shows "\<exists>r'. bind_result (Some r) f = Some r' \<and> outcome r' (A \<union> B) m"
proof (cases r)
  case (Inl err)
  with assms(1) show ?thesis by (auto simp: outcome_def bind_result_def)
next
  case (Inr ov)
  with assms(1) have "A = {}" "get ov = wrap64 n" "is_int64 (get ov)" by (simp_all add: outcome_def)
  with assms(2) Inr show ?thesis by (simp add: bind_result_def)
qed

lemma apply_stats_outcome:
  assumes "\<forall>p\<in>set ps. priced p" and "is_int64 (get ov)"
  shows "outcome (apply_stats zone byDay ps ov) (sp_BucketStart ` {p \<in> set ps. infinite_cost p}) (get ov + (\<Sum>p\<leftarrow>ps. if on zone byDay (sp_BucketStart p) then pv p else 0))"
  using assms
proof (induction ps arbitrary: ov)
  case Nil
  then show ?case by (simp add: outcome_def wrap64_id)
next
  case (Cons p ps)
  show ?case
  proof (cases "applyUsageOverviewStatToOverview zone byDay p ov")
    case (Inl err)
    with Cons.prems(1) show ?thesis
      by (auto simp: outcome_def applyUsageOverviewStatToOverview_def priced_def infinite_cost_def not_finite_fee Let_def split: option.splits if_splits)
  next
    case (Inr ov')
    from stat [OF Cons.prems(2) this] have get': "get ov' = wrap64 (get ov + (if on zone byDay (sp_BucketStart p) then pv p else 0))" .
    from Inr have paid: "\<not> infinite_cost p"
      by (auto simp: applyUsageOverviewStatToOverview_def infinite_cost_def not_finite_fee Let_def split: option.splits if_splits)
    have "outcome (apply_stats zone byDay ps ov') (sp_BucketStart ` {p \<in> set ps. infinite_cost p}) (get ov' + (\<Sum>p\<leftarrow>ps. if on zone byDay (sp_BucketStart p) then pv p else 0))"
      by (rule Cons.IH) (use Cons.prems(1) get' in simp_all)
    moreover have "{q \<in> set (p # ps). infinite_cost q} = {q \<in> set ps. infinite_cost q}" using paid by auto
    ultimately show ?thesis using Inr unfolding get' outcome_wrap by (simp add: add.assoc)
  qed
qed

lemma apply_events_outcome:
  assumes "\<forall>e\<in>set es. backfilled e \<and> \<not> usageOverviewEventInsideWindow e fullStart fullEnd" and "is_int64 (get ov)"
  shows "outcome (apply_events zone byDay fullStart fullEnd es ov) {} (get ov + (\<Sum>e\<leftarrow>filter (\<lambda>e. on zone byDay (ue_Timestamp e)) es. ev e))"
  using assms
proof (induction es arbitrary: ov)
  case Nil
  then show ?case by (simp add: outcome_def wrap64_id)
next
  case (Cons e es)
  then obtain cost available where paid: "usageOverviewStoredEventCost e = Inr (cost, available)"
    by (auto simp: backfilled_def usageOverviewStoredEventCost_def split: option.splits float64.splits)
  let ?ov = "applyUsageEventToOverview zone e byDay cost available (ov\<lparr>ov_Usage := applyUsageEventToOverviewSnapshot e (ov_Usage ov)\<rparr>)"
  note step = event [OF Cons.prems(2), of zone e byDay cost available]
  have "is_int64 (get ?ov)" by (simp add: step)
  with Cons.IH [of ?ov] Cons.prems(1) have "outcome (apply_events zone byDay fullStart fullEnd es ?ov) {}
      (get ?ov + (\<Sum>e\<leftarrow>filter (\<lambda>e. on zone byDay (ue_Timestamp e)) es. ev e))" by simp
  with paid Cons.prems(1) show ?case unfolding step outcome_wrap
    by (cases "on zone byDay (ue_Timestamp e)") (simp_all add: add.assoc)
qed

end

context counter
begin

definition amount :: "zone \<Rightarrow> bool \<Rightarrow> UsageQueryFilter \<Rightarrow> usageEvent list \<Rightarrow> (time \<Rightarrow> bool) \<Rightarrow> int" where
  "amount zone byDay qf events P =
     (\<Sum>e\<leftarrow>filter (\<lambda>e. event_in_scope qf e \<and> P (ue_Timestamp e) \<and> on zone byDay (ue_Timestamp e)) events. ev e)"

lemma amount_split:
  assumes "\<And>t. P t \<longleftrightarrow> Q t \<or> R t" and "\<And>t. \<not> (Q t \<and> R t)"
  shows "amount zone byDay qf events P = amount zone byDay qf events Q + amount zone byDay qf events R"
  unfolding amount_def using assms by (induction events) auto

text \<open>The rows of a table that a query selects, bucket by bucket, add up to the events they stand for.\<close>

lemma selected_rows_sum:
  fixes b :: usageBucketRead
  assumes table: "table_of key events rows" and plain: "plain_scope qf events"
    and key: "\<forall>e\<in>set events. key e = event_dimensions e (bucket e)"
    and sel: "\<forall>e\<in>set events. bucket_selected zone b (bucket e) \<longleftrightarrow> start \<le> ue_Timestamp e \<and> ue_Timestamp e < stop"
    and same: "\<forall>e\<in>set events. on zone byDay (bucket e) = on zone byDay (ue_Timestamp e)"
  shows "wrap64 (a + (\<Sum>r\<leftarrow>filter (\<lambda>r. bucket_selected zone b (bk_BucketStart (os_Key r)) \<and> row_in_scope qf r) rows.
      if on zone byDay (bk_BucketStart (os_Key r)) then sv r else 0)) =
    wrap64 (a + amount zone byDay qf events (\<lambda>t. start \<le> t \<and> t < stop))"
proof -
  define P where "P k \<longleftrightarrow> bucket_selected zone b (bk_BucketStart k)
      \<and> row_in_scope qf (newRow k) \<and> on zone byDay (bk_BucketStart k)" for k
  have scope: "row_in_scope qf r \<longleftrightarrow> row_in_scope qf (newRow (os_Key r))" for r :: usageOverviewStat
    by (simp add: row_in_scope_def newRow_def cong: option.case_cong)
  have "(\<Sum>r\<leftarrow>filter (\<lambda>r. bucket_selected zone b (bk_BucketStart (os_Key r)) \<and> row_in_scope qf r) rows.
      if on zone byDay (bk_BucketStart (os_Key r)) then sv r else 0) = (\<Sum>r\<leftarrow>filter (\<lambda>r. P (os_Key r)) rows. sv r)"
    unfolding sum_list_map_filter' P_def
    by (intro arg_cong [of _ _ sum_list] map_cong) (auto simp: scope [symmetric])
  moreover have "filter (\<lambda>e. P (key e)) events =
      filter (\<lambda>e. event_in_scope qf e \<and> (start \<le> ue_Timestamp e \<and> ue_Timestamp e < stop) \<and> on zone byDay (ue_Timestamp e)) events"
  proof (rule filter_cong [OF refl])
    fix e assume e: "e \<in> set events"
    with key have k: "key e = event_dimensions e (bucket e)" by simp
    have "row_in_scope qf (newRow (key e)) \<longleftrightarrow> event_in_scope qf e"
      by (rule plain_scope_rows [OF plain e]) (simp add: k newRow_def)
    moreover have "bk_BucketStart (key e) = bucket e" by (simp add: k event_dimensions_def)
    ultimately show "P (key e) \<longleftrightarrow> event_in_scope qf e \<and> (start \<le> ue_Timestamp e \<and> ue_Timestamp e < stop) \<and> on zone byDay (ue_Timestamp e)"
      using sel same e by (auto simp: P_def)
  qed
  ultimately show ?thesis
    using table_sum [where sv = sv and ev = ev and P = P, OF table row] by (simp add: amount_def)
qed

lemma selected_buckets:
  fixes b :: usageBucketRead
  assumes table: "table_of key events rows" and plain: "plain_scope qf events"
    and key: "\<forall>e\<in>set events. key e = event_dimensions e (bucket e)"
    and sel: "\<forall>e\<in>set events. bucket_selected zone b (bucket e) \<longleftrightarrow> start \<le> ue_Timestamp e \<and> ue_Timestamp e < stop"
  shows "(\<lambda>r. bk_BucketStart (os_Key r)) ` set (filter (\<lambda>r. bucket_selected zone b (bk_BucketStart (os_Key r)) \<and> row_in_scope qf r) rows) =
    bucket ` {e \<in> set events. event_in_scope qf e \<and> start \<le> ue_Timestamp e \<and> ue_Timestamp e < stop}"
proof -
  have same: "bk_BucketStart (os_Key r) = bucket e" "row_in_scope qf r \<longleftrightarrow> event_in_scope qf e" if "e \<in> set events" "os_Key r = key e" for r e
    using key plain_scope_rows [OF plain that(1), of r] that by (simp_all add: event_dimensions_def)
  have keys: "os_Key ` set rows = key ` set events" using table by (simp add: table_of_def)
  show ?thesis
  proof (intro equalityI subsetI; elim imageE)
    fix k r assume "k = bk_BucketStart (os_Key r)"
      and r: "r \<in> set (filter (\<lambda>r. bucket_selected zone b (bk_BucketStart (os_Key r)) \<and> row_in_scope qf r) rows)"
    moreover from r keys obtain e where "e \<in> set events" "os_Key r = key e" by (auto simp: set_eq_iff image_iff)
    ultimately show "k \<in> bucket ` {e \<in> set events. event_in_scope qf e \<and> start \<le> ue_Timestamp e \<and> ue_Timestamp e < stop}"
      using same [of e r] sel by auto
  next
    fix k e assume "k = bucket e" and e: "e \<in> {e \<in> set events. event_in_scope qf e \<and> start \<le> ue_Timestamp e \<and> ue_Timestamp e < stop}"
    moreover from e keys obtain r where "r \<in> set rows" "os_Key r = key e" by (metis (mono_tags, lifting) imageE imageI mem_Collect_eq)
    ultimately show "k \<in> (\<lambda>r. bk_BucketStart (os_Key r)) ` set (filter (\<lambda>r. bucket_selected zone b (bk_BucketStart (os_Key r)) \<and> row_in_scope qf r) rows)"
      using same [of e r] sel by (auto intro!: image_eqI [of _ _ r])
  qed
qed

lemma load_stats:
  assumes table: "table_of key events (if grain = DailyGrain then ot_daily db else ot_hourly db)" and plain: "plain_scope qf events"
    and key: "\<forall>e\<in>set events. key e = event_dimensions e (bucket e)"
    and read: "overviewBucketRead zone start stop grain = Some b"
    and sel: "\<forall>e\<in>set events. bucket_selected zone b (bucket e) \<longleftrightarrow> start \<le> ue_Timestamp e \<and> ue_Timestamp e < stop"
    and same: "\<forall>e\<in>set events. on zone byDay (bucket e) = on zone byDay (ue_Timestamp e)"
    and shown: "\<forall>e\<in>set events. displayStart b (bucket e) = bucket e"
    and int64: "is_int64 (get ov)"
  shows "\<exists>r. loadAndApplyUsageOverviewStats zone db qf start stop grain byDay ov = Some r
    \<and> outcome r (bad (ot_sum_cost db) (if grain = DailyGrain then ot_daily db else ot_hourly db) qf events bucket (\<lambda>t. start \<le> t \<and> t < stop))
        (get ov + amount zone byDay qf events (\<lambda>t. start \<le> t \<and> t < stop))"
proof -
  define rows where "rows = (if grain = DailyGrain then ot_daily db else ot_hourly db)"
  define selected where "selected = filter (\<lambda>r. bucket_selected zone b (bk_BucketStart (os_Key r)) \<and> row_in_scope qf r) rows"
  define groups where "groups = sort_key (\<lambda>k. (wall_seconds zone k, offset_text (zs_offset (zone (unix k)))))
    (remdups (map (\<lambda>r. bk_BucketStart (os_Key r)) selected))"
  define group where "group k = filter (\<lambda>r. bk_BucketStart (os_Key r) = k) selected" for k
  define ps where "ps = map (\<lambda>k. (stat_projection (ot_sum_cost db) k (group k))\<lparr>sp_BucketStart := displayStart b k\<rparr>) groups"
  have table: "table_of key events rows" using table by (simp add: rows_def)
  have load: "loadUsageOverviewStatProjection (ot_sum_cost db) zone rows qf start stop grain = Some (sort_key sp_BucketStart ps)"
    by (simp add: loadUsageOverviewStatProjection_def read ps_def groups_def selected_def group_def Let_def comp_def)
  have set_groups: "set groups = (\<lambda>r. bk_BucketStart (os_Key r)) ` set selected" by (simp add: groups_def)
  have rowD: "displayStart b (bk_BucketStart (os_Key r)) = bk_BucketStart (os_Key r)"
      "os_CostUSD r \<noteq> None \<and> os_UnavailableCostCount r \<noteq> None" if r: "r \<in> set selected" for r
  proof -
    have "r \<in> set rows" using r by (simp add: selected_def)
    with table obtain e where "e \<in> set events" "os_Key r = key e" and exact: "row_exact r (filter (\<lambda>e. key e = os_Key r) events)"
      unfolding table_of_def by (metis imageE imageI)
    with key have "bk_BucketStart (os_Key r) = bucket e" by (simp add: event_dimensions_def)
    with shown \<open>e \<in> set events\<close> show "displayStart b (bk_BucketStart (os_Key r)) = bk_BucketStart (os_Key r)" by simp
    from exact show "os_CostUSD r \<noteq> None \<and> os_UnavailableCostCount r \<noteq> None" by (simp add: row_exact_def)
  qed
  have kD: "displayStart b k = k" if "k \<in> set groups" for k using that rowD(1) set_groups by auto
  have some: "group k \<noteq> []" if "k \<in> set groups" for k using that set_groups by (auto simp: group_def filter_empty_conv)
  let ?bad = "bad (ot_sum_cost db) rows qf events bucket (\<lambda>t. start \<le> t \<and> t < stop)"
  have bad_projections: "sp_BucketStart ` {p \<in> set (sort_key sp_BucketStart ps). infinite_cost p} = ?bad"
  proof -
    have "infinite_cost ((stat_projection (ot_sum_cost db) k (group k))\<lparr>sp_BucketStart := t\<rparr>) \<longleftrightarrow> \<not> finite_fee (bucket_fee (ot_sum_cost db) qf rows k)"
      if k: "k \<in> set groups" for k t
    proof -
      have "sp_CostUSD (stat_projection (ot_sum_cost db) k (group k)) = Some (ot_sum_cost db (List.map_filter os_CostUSD (group k)))"
        by (rule stat_projection_cost [OF some [OF k]]) (use rowD(2) in \<open>simp add: group_def\<close>)
      moreover have "bucket_selected zone b k" using k set_groups by (auto simp: selected_def)
      then have "group k = filter (\<lambda>r. bk_BucketStart (os_Key r) = k \<and> row_in_scope qf r) rows"
        by (auto simp: group_def selected_def intro!: filter_cong)
      ultimately show ?thesis by (simp add: infinite_cost_def bucket_fee_def)
    qed
    then have "sp_BucketStart ` {p \<in> set ps. infinite_cost p} = {k \<in> set groups. \<not> finite_fee (bucket_fee (ot_sum_cost db) qf rows k)}"
      using kD by (force simp: ps_def)
    moreover have "set groups = bucket ` {e \<in> set events. event_in_scope qf e \<and> start \<le> ue_Timestamp e \<and> ue_Timestamp e < stop}"
      unfolding set_groups selected_def by (rule selected_buckets [OF table plain key sel])
    ultimately show ?thesis by (auto simp: bad_def)
  qed
  have "\<forall>p\<in>set ps. priced p"
  proof
    fix p assume "p \<in> set ps"
    then obtain k where k: "k \<in> set groups" "p = (stat_projection (ot_sum_cost db) k (group k))\<lparr>sp_BucketStart := displayStart b k\<rparr>"
      by (auto simp: ps_def)
    from some [OF k(1)] have "priced (stat_projection (ot_sum_cost db) k (group k))"
      by (rule stat_projection_priced) (use rowD(2) in \<open>simp add: group_def\<close>)
    then show "priced p" by (simp add: k(2) priced_def)
  qed
  then have "outcome (apply_stats zone byDay (sort_key sp_BucketStart ps) ov) (sp_BucketStart ` {p \<in> set (sort_key sp_BucketStart ps). infinite_cost p})
      (get ov + (\<Sum>p\<leftarrow>sort_key sp_BucketStart ps. if on zone byDay (sp_BucketStart p) then pv p else 0))"
    by (intro apply_stats_outcome int64) simp
  also have "sp_BucketStart ` {p \<in> set (sort_key sp_BucketStart ps). infinite_cost p} = ?bad"
    by (rule bad_projections)
  also have "(\<Sum>p\<leftarrow>sort_key sp_BucketStart ps. if on zone byDay (sp_BucketStart p) then pv p else 0) =
      (\<Sum>p\<leftarrow>ps. if on zone byDay (sp_BucketStart p) then pv p else 0)"
    by (rule sum_list_mset_eq) simp
  also have "\<dots> = (\<Sum>k\<leftarrow>groups. \<Sum>r\<leftarrow>group k. if on zone byDay (bk_BucketStart (os_Key r)) then sv r else 0)"
  proof -
    have "(if on zone byDay (displayStart b k) then pv ((stat_projection (ot_sum_cost db) k (group k))\<lparr>sp_BucketStart := displayStart b k\<rparr>) else 0)
        = (\<Sum>r\<leftarrow>group k. if on zone byDay (bk_BucketStart (os_Key r)) then sv r else 0)" if "k \<in> set groups" for k
    proof -
      have "(\<Sum>r\<leftarrow>group k. if on zone byDay (bk_BucketStart (os_Key r)) then sv r else 0) = (\<Sum>r\<leftarrow>group k. if on zone byDay k then sv r else 0)"
        by (intro arg_cong [of _ _ sum_list] map_cong) (simp_all add: group_def)
      then show ?thesis by (simp add: projection kD [OF that] sum_list_0)
    qed
    then show ?thesis by (simp add: ps_def comp_def cong: map_cong)
  qed
  also have "\<dots> = (\<Sum>r\<leftarrow>selected. if on zone byDay (bk_BucketStart (os_Key r)) then sv r else 0)"
    unfolding group_def by (rule sum_by_key) (simp_all add: groups_def)
  finally have "outcome (apply_stats zone byDay (sort_key sp_BucketStart ps) ov) ?bad
      (get ov + (\<Sum>r\<leftarrow>selected. if on zone byDay (bk_BucketStart (os_Key r)) then sv r else 0))" .
  then have "outcome (apply_stats zone byDay (sort_key sp_BucketStart ps) ov) ?bad
      (get ov + amount zone byDay qf events (\<lambda>t. start \<le> t \<and> t < stop))"
    using selected_rows_sum [where a = "get ov", OF table plain key sel same] by (simp add: outcome_def selected_def split: sum.splits)
  then show ?thesis
    using load by (simp add: loadAndApplyUsageOverviewStats_def rows_def)
qed

end

section \<open>The windows of rows\<close>

text \<open>Tables that the aggregation has built from the events, all of them with stored fees.\<close>

definition built_from :: "zone \<Rightarrow> overviewTables \<Rightarrow> bool" where
  "built_from zone db \<longleftrightarrow>
     (\<forall>e\<in>set (ot_events db). backfilled e)
     \<and> table_of hour_key (ot_events db) (ot_hourly db) \<and> table_of (day_key zone) (ot_events db) (ot_daily db)"

text \<open>The buckets of hours and of days whose fee is not finite.\<close>

definition bad_hours :: "overviewTables \<Rightarrow> UsageQueryFilter \<Rightarrow> (time \<Rightarrow> bool) \<Rightarrow> time set" where
  "bad_hours db qf = bad (ot_sum_cost db) (ot_hourly db) qf (ot_events db) (\<lambda>e. truncate_hour (ue_Timestamp e))"

definition bad_days :: "zone \<Rightarrow> overviewTables \<Rightarrow> UsageQueryFilter \<Rightarrow> (time \<Rightarrow> bool) \<Rightarrow> time set" where
  "bad_days zone db qf = bad (ot_sum_cost db) (ot_daily db) qf (ot_events db) (\<lambda>e. day_start zone (ue_Timestamp e))"

text \<open>
  How an instant is read between \<open>start\<close> and \<open>stop\<close>: by its day when the series go by days and the day lies between them, otherwise by its
  hour when the hour does, otherwise as an event. \<open>unreadable\<close> are the buckets that are read and have no finite fee.
\<close>

definition read_by_day :: "zone \<Rightarrow> bool \<Rightarrow> time \<Rightarrow> time \<Rightarrow> time \<Rightarrow> bool" where
  "read_by_day zone byDay start stop t \<longleftrightarrow>
     byDay \<and> start \<le> midnight zone (wall_day zone t) * Second \<and> midnight zone (wall_day zone t + 1) * Second \<le> stop"

definition read_by_hour :: "zone \<Rightarrow> bool \<Rightarrow> time \<Rightarrow> time \<Rightarrow> time \<Rightarrow> bool" where
  "read_by_hour zone byDay start stop t \<longleftrightarrow>
     \<not> read_by_day zone byDay start stop t \<and> start \<le> truncate_hour t \<and> truncate_hour t + Hour \<le> stop"

definition unreadable :: "zone \<Rightarrow> overviewTables \<Rightarrow> bool \<Rightarrow> UsageQueryFilter \<Rightarrow> time \<Rightarrow> time \<Rightarrow> time set" where
  "unreadable zone db byDay qf start stop =
     bad_days zone db qf (read_by_day zone byDay start stop) \<union> bad_hours db qf (read_by_hour zone byDay start stop)"

lemma read_whole_hours:
  assumes "whole_hour start" and "whole_hour stop"
  shows "read_by_hour zone byDay start stop t \<longleftrightarrow> \<not> read_by_day zone byDay start stop t \<and> start \<le> t \<and> t < stop"
proof -
  have "truncate_hour t + Hour \<le> stop \<longleftrightarrow> t < stop"
    using truncate_hour [of t] whole_hour_gap [OF truncate_hour(3) [of t] assms(2)] by linarith
  then show ?thesis using truncate_hour_le_iff [OF assms(1)] by (simp add: read_by_hour_def)
qed

context hourly_zone
begin

lemma full_days:
  obtains d1 d2 where "usageOverviewFullDayWindow zone start stop = Some (midnight zone d1 * Second, midnight zone d2 * Second)"
    and "d1 \<le> d2" and "start \<le> midnight zone d1 * Second" and "d1 < d2 \<longrightarrow> midnight zone d2 * Second \<le> stop"
    and "\<And>t. read_by_day zone True start stop t \<longleftrightarrow> midnight zone d1 * Second \<le> t \<and> t < midnight zone d2 * Second"
proof -
  let ?m = "\<lambda>d. midnight zone d * Second"
  define ds de where "ds = wall_day zone start" and "de = wall_day zone stop"
  define d1 where "d1 = (if start \<noteq> ?m ds then ds + 1 else ds)"
  have day: "day_interval zone t = Some \<lparr>iv_Start = ?m (wall_day zone t), iv_End = ?m (wall_day zone t + 1)\<rparr>" for t
    by (simp add: day_interval_def DateOf_def bounds_of_day)
  have le: "?m d \<le> ?m d' \<longleftrightarrow> d \<le> d'" for d d' using midnight_times [of d' d] by (simp add: not_less [symmetric])
  have inside: "?m ds \<le> start" "start < ?m (ds + 1)" "?m de \<le> stop"
    using regular_day_iff [OF regular, of start ds] regular_day_iff [OF regular, of stop de] by (simp_all add: ds_def de_def)
  have ends: "(if start \<noteq> ?m ds then ?m (ds + 1) else ?m ds) = ?m d1" "(if ?m de < ?m d1 then ?m d1 else ?m de) = ?m (max d1 de)"
    by (simp_all add: d1_def max_def midnight_times)
  have "usageOverviewFullDayWindow zone start stop = Some (?m d1, ?m (max d1 de))"
    unfolding usageOverviewFullDayWindow_def day Let_def Option.bind.simps Interval.select_convs ds_def [symmetric] de_def [symmetric] ends ..
  moreover have "read_by_day zone True start stop t \<longleftrightarrow> ?m d1 \<le> t \<and> t < ?m (max d1 de)" for t
  proof -
    have "start \<le> ?m d \<longleftrightarrow> d1 \<le> d" for d
      using inside(1,2) midnight_times [of d "ds + 1"] midnight_times [of ds d] midnight_times [of d ds] by (auto simp: d1_def not_less)
    moreover have "?m (d + 1) \<le> stop \<longleftrightarrow> d < de" for d
      using inside(3) regular_day_iff [OF regular, of stop de] midnight_times [of "d + 1" "de + 1"] le [of "d + 1" de] by (auto simp: de_def not_less)
    ultimately show ?thesis unfolding day_between [symmetric] by (auto simp: read_by_day_def)
  qed
  ultimately show thesis using inside by (intro that [of d1 "max d1 de"]) (auto simp: d1_def max_def)
qed

end

context counter
begin

lemma load_hours:
  assumes zone: "overview_zone zone" and built: "built_from zone db" and plain: "plain_scope qf (ot_events db)"
    and "whole_hour start" and "whole_hour stop" and "start \<le> stop" and "is_int64 (get ov)"
  shows "\<exists>r. loadAndApplyUsageOverviewStats zone db qf start stop HourlyGrain byDay ov = Some r
    \<and> outcome r (bad_hours db qf (\<lambda>t. start \<le> t \<and> t < stop)) (get ov + amount zone byDay qf (ot_events db) (\<lambda>t. start \<le> t \<and> t < stop))"
proof -
  obtain b where b: "overviewBucketRead zone start stop HourlyGrain = Some b" "br_displayStarts b = []"
      "\<forall>k. whole_hour k \<longrightarrow> bucket_selected zone b k = (start \<le> k \<and> k < stop)"
    using hourly_zone.hourly_selected [OF hourly_zone.intro [OF zone] assms(4-6)] by blast
  have "\<exists>r. loadAndApplyUsageOverviewStats zone db qf start stop HourlyGrain byDay ov = Some r
    \<and> outcome r (bad (ot_sum_cost db) (if HourlyGrain = DailyGrain then ot_daily db else ot_hourly db) qf (ot_events db)
          (\<lambda>e. truncate_hour (ue_Timestamp e)) (\<lambda>t. start \<le> t \<and> t < stop))
        (get ov + amount zone byDay qf (ot_events db) (\<lambda>t. start \<le> t \<and> t < stop))"
  proof (rule load_stats [where key = hour_key and b = b])
    show "\<forall>e\<in>set (ot_events db). bucket_selected zone b (truncate_hour (ue_Timestamp e)) \<longleftrightarrow>
        start \<le> ue_Timestamp e \<and> ue_Timestamp e < stop"
      using b(3) truncate_hour(3) truncate_hour_le_iff [OF assms(4)] truncate_hour_le_iff [OF assms(5)]
      by (simp add: not_le [symmetric])
  qed (use built b(1,2) in \<open>simp_all add: built_from_def plain hour_key_def hour [OF zone] displayStart_def assms(7)\<close>)
  then show ?thesis by (simp add: bad_hours_def)
qed

lemma load_days:
  assumes zone: "overview_zone zone" and built: "built_from zone db" and plain: "plain_scope qf (ot_events db)"
    and "d1 \<le> d2" and "is_int64 (get ov)"
  shows "\<exists>r. loadAndApplyUsageOverviewStats zone db qf (midnight zone d1 * Second) (midnight zone d2 * Second) DailyGrain True ov = Some r
    \<and> outcome r (bad_days zone db qf (\<lambda>t. midnight zone d1 * Second \<le> t \<and> t < midnight zone d2 * Second))
        (get ov + amount zone True qf (ot_events db) (\<lambda>t. midnight zone d1 * Second \<le> t \<and> t < midnight zone d2 * Second))"
proof -
  note hz = hourly_zone.intro [OF zone]
  have start: "day_start zone t = midnight zone (wall_day zone t) * Second" for t
    using zone by (simp add: regular_zone.day_start_midnight regular_zone.intro overview_zone_def)
  obtain b where b: "overviewBucketRead zone (midnight zone d1 * Second) (midnight zone d2 * Second) DailyGrain = Some b"
      "\<forall>d. bucket_selected zone b (midnight zone d * Second) = (d1 \<le> d \<and> d < d2)"
      "\<forall>d. displayStart b (midnight zone d * Second) = midnight zone d * Second"
    using hourly_zone.daily_selected [OF hz assms(4)] by blast
  have "\<exists>r. loadAndApplyUsageOverviewStats zone db qf (midnight zone d1 * Second) (midnight zone d2 * Second) DailyGrain True ov = Some r
    \<and> outcome r (bad (ot_sum_cost db) (if DailyGrain = DailyGrain then ot_daily db else ot_hourly db) qf (ot_events db)
          (\<lambda>e. day_start zone (ue_Timestamp e)) (\<lambda>t. midnight zone d1 * Second \<le> t \<and> t < midnight zone d2 * Second))
        (get ov + amount zone True qf (ot_events db) (\<lambda>t. midnight zone d1 * Second \<le> t \<and> t < midnight zone d2 * Second))"
  proof (rule load_stats [where key = "day_key zone" and b = b])
    show "\<forall>e\<in>set (ot_events db). bucket_selected zone b (day_start zone (ue_Timestamp e)) \<longleftrightarrow>
        midnight zone d1 * Second \<le> ue_Timestamp e \<and> ue_Timestamp e < midnight zone d2 * Second"
      by (simp add: start b(2) hourly_zone.day_between [OF hz])
  qed (use built b(1,3) in \<open>simp_all add: built_from_def plain day_key_def day [OF zone] start [symmetric] assms(5)\<close>,
       simp add: start b(3))
  then show ?thesis by (simp add: bad_days_def)
qed

lemma unreadable_empty:
  assumes "overview_zone zone" and "\<not> start < stop"
  shows "unreadable zone db byDay qf start stop = {}"
proof -
  have "midnight zone d * Second < midnight zone (d + 1) * Second" for d
    using hourly_zone.midnight_times [OF hourly_zone.intro [OF assms(1)], of d "d + 1"] by simp
  then have "\<not> read_by_day zone byDay start stop t" for t
    using assms(2) by (metis not_le order.strict_trans2 order.strict_trans1 read_by_day_def)
  moreover have "\<not> read_by_hour zone byDay start stop t" for t
    using assms(2) truncate_hour(1,2) [of t] by (auto simp: read_by_hour_def)
  ultimately show ?thesis by (simp add: unreadable_def bad_days_def bad_hours_def bad_none)
qed

text \<open>The whole hours of a range, with the whole days among them read as days.\<close>

lemma load_full:
  assumes zone: "overview_zone zone" and built: "built_from zone db" and plain: "plain_scope qf (ot_events db)"
    and hours: "whole_hour start" "whole_hour stop" and "is_int64 (get ov)"
  shows "\<exists>r. load_full_window zone db qf byDay start stop ov = Some r
    \<and> outcome r (unreadable zone db byDay qf start stop) (get ov + amount zone byDay qf (ot_events db) (\<lambda>t. start \<le> t \<and> t < stop))"
proof (cases "start < stop")
  case False
  then have "amount zone byDay qf (ot_events db) (\<lambda>t. start \<le> t \<and> t < stop) = 0" by (simp add: amount_def)
  with False assms(6) show ?thesis by (simp add: load_full_window_def outcome_def wrap64_id unreadable_empty [OF zone])
next
  case True
  note hz = hourly_zone.intro [OF zone]
  let ?m = "\<lambda>d. midnight zone d * Second" and ?a = "\<lambda>a b. amount zone byDay qf (ot_events db) (\<lambda>t. a \<le> t \<and> t < b)"
  let ?h = "\<lambda>a b. bad_hours db qf (\<lambda>t. a \<le> t \<and> t < b)"
  obtain d1 d2 where d: "usageOverviewFullDayWindow zone start stop = Some (?m d1, ?m d2)"
      "d1 \<le> d2" "start \<le> ?m d1" "d1 < d2 \<longrightarrow> ?m d2 \<le> stop"
      "\<And>t. read_by_day zone True start stop t \<longleftrightarrow> ?m d1 \<le> t \<and> t < ?m d2"
    by (rule hourly_zone.full_days [OF hz, where start = start and stop = stop]) blast
  note load_hours = load_hours [OF zone built plain] and read = read_whole_hours [OF hours]
  show ?thesis
  proof (cases "byDay \<and> ?m d1 < ?m d2")
    case False
    then have "\<not> read_by_day zone byDay start stop t" for t using d(5) [of t] by (auto simp: read_by_day_def)
    then have "unreadable zone db byDay qf start stop = ?h start stop"
      unfolding unreadable_def read [abs_def] by (simp add: bad_days_def bad_none)
    with False load_hours [OF hours less_imp_le [OF True] assms(6)] True show ?thesis
      by (auto simp: load_full_window_def d(1))
  next
    case split: True
    then have less: "d1 < d2" and byDay: "byDay = True" using hourly_zone.midnight_times [OF hz, of d1 d2] by simp_all
    note whole = hourly_zone.midnight_hour [OF hz]
    have step: "\<exists>r'. load_hourly_windows zone db qf byDay ((a, b) # ws) ov = Some r' \<and> outcome r' (?h a b \<union> B) m"
      if "whole_hour a" "whole_hour b" "a \<le> b" "is_int64 (get ov)"
        and "\<And>ov'. is_int64 (get ov') \<Longrightarrow> get ov' = wrap64 (get ov + ?a a b) \<Longrightarrow>
          \<exists>r'. load_hourly_windows zone db qf byDay ws ov' = Some r' \<and> outcome r' B m" for a b ws ov B m
    proof (cases "a < b")
      case True
      note given = that(1-4) and next_windows = that(5)
      obtain r where "loadAndApplyUsageOverviewStats zone db qf a b HourlyGrain byDay ov = Some r" "outcome r (?h a b) (get ov + ?a a b)"
        using load_hours [OF given] by blast
      with True outcome_bind [OF this(2) next_windows] show ?thesis by simp
    next
      case False
      then have "?a a b = 0" "?h a b = {}" by (simp_all add: amount_def bad_hours_def bad_def)
      with False that(4) that(5) [of ov] show ?thesis by (simp add: wrap64_id)
    qed
    have total: "?a start stop = ?a (?m d1) (?m d2) + (?a start (?m d1) + ?a (?m d2) stop)"
      using d(3) d(4) [rule_format, OF less] split
      by (subst amount_split [where Q = "\<lambda>t. ?m d1 \<le> t \<and> t < ?m d2" and R = "\<lambda>t. (start \<le> t \<and> t < ?m d1) \<or> (?m d2 \<le> t \<and> t < stop)"],
          auto) (subst amount_split [where Q = "\<lambda>t. start \<le> t \<and> t < ?m d1" and R = "\<lambda>t. ?m d2 \<le> t \<and> t < stop"], auto)
    have sources: "read_by_day zone byDay start stop = (\<lambda>t. ?m d1 \<le> t \<and> t < ?m d2)"
        "read_by_hour zone byDay start stop = (\<lambda>t. (start \<le> t \<and> t < ?m d1) \<or> (?m d2 \<le> t \<and> t < stop))"
      using d(3) d(4) [rule_format, OF less] split by (auto simp: fun_eq_iff read d(5) byDay)
    have unreadable: "unreadable zone db byDay qf start stop =
        bad_days zone db qf (\<lambda>t. ?m d1 \<le> t \<and> t < ?m d2) \<union> (?h start (?m d1) \<union> (?h (?m d2) stop \<union> {}))"
      unfolding unreadable_def sources by (simp add: bad_hours_def bad_or)
    obtain r where r: "loadAndApplyUsageOverviewStats zone db qf (?m d1) (?m d2) DailyGrain byDay ov = Some r"
        "outcome r (bad_days zone db qf (\<lambda>t. ?m d1 \<le> t \<and> t < ?m d2)) (get ov + ?a (?m d1) (?m d2))"
      using load_days [OF zone built plain d(2) assms(6)] byDay by auto
    have "\<exists>r'. bind_result (Some r) (load_hourly_windows zone db qf byDay [(start, ?m d1), (?m d2, stop)]) = Some r'
        \<and> outcome r' (unreadable zone db byDay qf start stop) (get ov + ?a start stop)"
      unfolding unreadable
    proof (rule outcome_bind [OF r(2)])
      fix ov1 assume 1: "is_int64 (get ov1)" "get ov1 = wrap64 (get ov + ?a (?m d1) (?m d2))"
      show "\<exists>r'. load_hourly_windows zone db qf byDay [(start, ?m d1), (?m d2, stop)] ov1 = Some r'
          \<and> outcome r' (?h start (?m d1) \<union> (?h (?m d2) stop \<union> {})) (get ov + ?a start stop)"
      proof (rule step [OF hours(1) whole d(3) 1(1)])
        fix ov2 assume 2: "is_int64 (get ov2)" "get ov2 = wrap64 (get ov1 + ?a start (?m d1))"
        show "\<exists>r'. load_hourly_windows zone db qf byDay [(?m d2, stop)] ov2 = Some r' \<and> outcome r' (?h (?m d2) stop \<union> {}) (get ov + ?a start stop)"
        proof (rule step [OF whole hours(2) d(4) [rule_format, OF less] 2(1)])
          fix ov3 assume 3: "get ov3 = wrap64 (get ov2 + ?a (?m d2) stop)"
          show "\<exists>r'. load_hourly_windows zone db qf byDay [] ov3 = Some r' \<and> outcome r' {} (get ov + ?a start stop)"
            by (simp add: outcome_def 3 2(2) 1(2) total add.assoc)
        qed
      qed
    qed
    with True split d(1) r(1) show ?thesis by (simp add: load_full_window_def)
  qed
qed

end

section \<open>The whole query\<close>

definition hourly_custom :: "UsageQueryFilter \<Rightarrow> bool" where
  "hourly_custom qf \<longleftrightarrow> TrimSpace (uf_Range qf) = ''custom'' \<and> TrimSpace (uf_CustomUnit qf) = ''hour''"

definition daily_custom :: "UsageQueryFilter \<Rightarrow> bool" where
  "daily_custom qf \<longleftrightarrow> TrimSpace (uf_Range qf) = ''custom'' \<and> TrimSpace (uf_CustomUnit qf) = ''day''"

text \<open>
  The instants a query covers, and whether its series go by days. A range that ends now is a rolling one, today, or a
  custom one that is not over.
\<close>

definition ends_now :: "UsageQueryFilter \<Rightarrow> time \<Rightarrow> bool" where
  "ends_now qf queryNow \<longleftrightarrow>
     ParseUsageRollingRange (TrimSpace (uf_Range qf)) \<noteq> None \<or> TrimSpace (uf_Range qf) = ''today''
     \<or> TrimSpace (uf_Range qf) = ''custom'' \<and> (\<exists>stop. uf_EndTime qf = Some stop \<and> queryNow < stop)"

lemma right_boundary: "usageOverviewCurrentRightBoundary qf queryNow \<longleftrightarrow> ends_now qf queryNow"
  by (auto simp: usageOverviewCurrentRightBoundary_def ends_now_def Let_def split: option.splits)

definition overview_covers :: "time \<Rightarrow> UsageQueryFilter \<Rightarrow> time \<Rightarrow> time \<Rightarrow> time \<Rightarrow> bool" where
  "overview_covers now qf start stop t \<longleftrightarrow>
     (if hourly_custom qf \<or> daily_custom qf then start \<le> t \<and> t < stop
      else let queryNow = usageOverviewQueryNow now qf
           in in_range qf (ends_now qf queryNow) start (if queryNow < stop then queryNow else stop) t)"

definition bucketed_by_day :: "time \<Rightarrow> UsageQueryFilter \<Rightarrow> bool" where
  "bucketed_by_day now qf \<longleftrightarrow>
     (if hourly_custom qf then False
      else if daily_custom qf then True
      else let effective = usageOverviewEffectiveFilter qf (usageOverviewQueryNow now qf)
           in shouldBucketUsageOverviewByDay effective (computeWindowMinutes effective))"

text \<open>The buckets that a query reads and that have no finite fee.\<close>

definition overview_unreadable :: "zone \<Rightarrow> overviewTables \<Rightarrow> time \<Rightarrow> UsageQueryFilter \<Rightarrow> time \<Rightarrow> time \<Rightarrow> time set" where
  "overview_unreadable zone db now qf start stop =
     unreadable zone db (bucketed_by_day now qf) qf start
       (if hourly_custom qf \<or> daily_custom qf then stop else min (usageOverviewQueryNow now qf) stop)"

text \<open>The bounds the API gives to custom ranges: whole hours, or midnights.\<close>

definition aligned :: "zone \<Rightarrow> UsageQueryFilter \<Rightarrow> time \<Rightarrow> time \<Rightarrow> bool" where
  "aligned zone qf start stop \<longleftrightarrow>
     (hourly_custom qf \<longrightarrow> whole_hour start \<and> whole_hour stop \<and> start \<le> stop)
     \<and> (daily_custom qf \<longrightarrow> (\<exists>d1 d2. d1 \<le> d2 \<and> start = midnight zone d1 * Second \<and> stop = midnight zone d2 * Second))"

lemma effective_filter:
  fixes queryNow :: time
  assumes "uf_StartTime qf = Some start" and "uf_EndTime qf = Some stop"
  defines "eff \<equiv> usageOverviewEffectiveFilter qf queryNow"
  shows "uf_StartTime eff = Some start" and "uf_EndTime eff = Some (if queryNow < stop then queryNow else stop)"
    and "event_in_scope eff = event_in_scope qf" and "plain_scope eff = plain_scope qf"
    and "in_range eff = in_range qf" and "row_in_scope eff = row_in_scope qf"
  using assms by (auto simp: row_in_scope_def usageOverviewEffectiveFilter_def event_in_scope_def plain_scope_def in_range_def includes_end_def fun_eq_iff)

lemma covers_custom:
  "hourly_custom qf \<or> daily_custom qf \<Longrightarrow> overview_covers now qf start stop = (\<lambda>t. start \<le> t \<and> t < stop)"
  by (auto simp: overview_covers_def fun_eq_iff)

context counter
begin

lemma finished:
  "outcome r B n \<Longrightarrow> \<exists>r'. bind_result (Some r) (\<lambda>ov. Some (Inr (finalizeUsageOverview zone ov))) = Some r' \<and> outcome r' B n"
  using outcome_bind [where B = "{}" and m = n] by (simp add: outcome_def finish)

lemma new_record: "is_int64 (get (newUsageOverviewRecord m))" "get (newUsageOverviewRecord m) = 0"
  by (simp_all add: fresh int64_bounds)

lemma read_custom_days:
  assumes "overview_zone zone"
  shows "read_by_day zone True (midnight zone d1 * Second) (midnight zone d2 * Second) =
      (\<lambda>t. midnight zone d1 * Second \<le> t \<and> t < midnight zone d2 * Second)"
    and "\<not> read_by_hour zone True (midnight zone d1 * Second) (midnight zone d2 * Second) t"
proof -
  note hz = hourly_zone.intro [OF assms]
  have le: "midnight zone d * Second \<le> midnight zone d' * Second \<longleftrightarrow> d \<le> d'" for d d'
    using hourly_zone.midnight_times [OF hz, of d' d] by (simp add: not_less [symmetric])
  have "read_by_day zone True (midnight zone d1 * Second) (midnight zone d2 * Second) t \<longleftrightarrow> d1 \<le> wall_day zone t \<and> wall_day zone t < d2" for t
    by (simp add: read_by_day_def le) arith
  then show days: "read_by_day zone True (midnight zone d1 * Second) (midnight zone d2 * Second) =
      (\<lambda>t. midnight zone d1 * Second \<le> t \<and> t < midnight zone d2 * Second)"
    by (simp add: fun_eq_iff hourly_zone.day_between [OF hz])
  show "\<not> read_by_hour zone True (midnight zone d1 * Second) (midnight zone d2 * Second) t"
    using days by (simp add: read_whole_hours hourly_zone.midnight_hour [OF hz])
qed

text \<open>A custom range of hours or days is read from one table.\<close>

lemma build_custom:
  assumes zone: "overview_zone zone" and built: "built_from zone db" and plain: "plain_scope qf (ot_events db)"
    and custom: "hourly_custom qf \<or> daily_custom qf" and aligned: "aligned zone qf start stop"
  shows "\<exists>r. buildUsageOverviewFromStats zone db now qf None start stop = Some r
    \<and> outcome r (overview_unreadable zone db now qf start stop)
        (amount zone (bucketed_by_day now qf) qf (ot_events db) (overview_covers now qf start stop))"
proof -
  define m where "m = computeWindowMinutes (usageOverviewEffectiveFilter qf (usageOverviewQueryNow now qf))"
  let ?grain = "if hourly_custom qf then HourlyGrain else DailyGrain"
  have "\<exists>r. loadAndApplyUsageOverviewStats zone db qf start stop ?grain (\<not> hourly_custom qf) (newUsageOverviewRecord m) = Some r
    \<and> outcome r (unreadable zone db (\<not> hourly_custom qf) qf start stop) (amount zone (\<not> hourly_custom qf) qf (ot_events db) (overview_covers now qf start stop))"
  proof (cases "hourly_custom qf")
    case True
    with aligned have "whole_hour start" "whole_hour stop" "start \<le> stop" by (simp_all add: aligned_def)
    from load_hours [OF zone built plain this new_record(1), of False] True show ?thesis
      by (simp add: covers_custom new_record(2) unreadable_def bad_days_def bad_none read_by_day_def
          read_whole_hours [OF \<open>whole_hour start\<close> \<open>whole_hour stop\<close>, abs_def])
  next
    case False
    with aligned custom obtain d1 d2 where d: "d1 \<le> d2" "start = midnight zone d1 * Second" "stop = midnight zone d2 * Second"
      by (auto simp: aligned_def)
    note days = read_custom_days [OF zone, of d1 d2, folded d(2,3)]
    from load_days [OF zone built plain d(1) new_record(1), folded d(2,3)] False custom show ?thesis
      by (simp add: covers_custom new_record(2) unreadable_def days bad_hours_def bad_none)
  qed
  then obtain r where r: "loadAndApplyUsageOverviewStats zone db qf start stop ?grain (\<not> hourly_custom qf) (newUsageOverviewRecord m) = Some r"
      "outcome r (unreadable zone db (\<not> hourly_custom qf) qf start stop)
        (amount zone (\<not> hourly_custom qf) qf (ot_events db) (overview_covers now qf start stop))" by blast
  then have "buildUsageOverviewFromStats zone db now qf None start stop = bind_result (Some r) (\<lambda>ov. Some (Inr (finalizeUsageOverview zone ov)))"
    using custom by (auto simp: buildUsageOverviewFromStats_def Let_def hourly_custom_def daily_custom_def m_def)
  moreover have "bucketed_by_day now qf = (\<not> hourly_custom qf)" using custom by (auto simp: bucketed_by_day_def)
  ultimately show ?thesis using finished [OF r(2)] custom by (simp add: overview_unreadable_def)
qed

text \<open>Rounded to whole hours, a range still holds the same hours and days.\<close>

lemma unreadable_whole_hours:
  assumes zone: "overview_zone zone" and full: "usageOverviewFullHourWindow start stop = (fullStart, fullEnd)"
  shows "unreadable zone db byDay qf fullStart fullEnd = unreadable zone db byDay qf start stop"
proof -
  note hz = hourly_zone.intro [OF zone]
  have left: "fullStart \<le> k \<longleftrightarrow> start \<le> k" if "whole_hour k" for k
    using whole_hour_gap [OF that full_hours(3) [OF full]] full_hours(1,2) [OF full] by linarith
  have inside: "fullStart \<le> k \<and> k' \<le> fullEnd \<longleftrightarrow> start \<le> k \<and> k' \<le> stop" if "whole_hour k" "whole_hour k'" "k < k'" for k k'
    using left [OF that(1)] that(3) full_hours(6) [OF full] truncate_hour_le_iff [OF that(2), of stop] by auto
  have "midnight zone d * Second < midnight zone (d + 1) * Second" for d
    using hourly_zone.midnight_times [OF hz, of d "d + 1"] by simp
  then have days: "read_by_day zone byDay fullStart fullEnd = read_by_day zone byDay start stop"
    by (simp add: fun_eq_iff read_by_day_def inside hourly_zone.midnight_hour [OF hz])
  have "whole_hour (truncate_hour t + Hour)" for t using truncate_hour(3) [of t] by (simp add: whole_hour_def)
  moreover have "0 < Hour" by (simp add: Hour_def Minute_def Second_def)
  ultimately have "read_by_hour zone byDay fullStart fullEnd = read_by_hour zone byDay start stop"
    by (simp add: fun_eq_iff read_by_hour_def days inside truncate_hour(3))
  with days show ?thesis by (simp add: unreadable_def)
qed

text \<open>The events at the edges of any other range.\<close>

lemma edge_events:
  assumes zone: "overview_zone zone" and built: "built_from zone db"
    and full: "usageOverviewFullHourWindow start stop = (fullStart, fullEnd)"
    and range: "uf_StartTime eff = Some start" "uf_EndTime eff = Some stop"
  shows "\<exists>es. loadUsageOverviewRawEventWindowsWithFilter zone (ot_events db) now eff
        (usageOverviewRawEventWindows eff fullStart fullEnd right) None = Some es
    \<and> outcome (apply_events zone byDay fullStart fullEnd es (newUsageOverviewRecord m)) {}
        (amount zone byDay eff (ot_events db) (\<lambda>t. in_range eff right start stop t \<and> \<not> (fullStart \<le> t \<and> t < fullEnd)))"
proof -
  let ?ws = "usageOverviewRawEventWindows eff fullStart fullEnd right"
  let ?edge = "\<lambda>t. in_range eff right start stop t \<and> \<not> (fullStart \<le> t \<and> t < fullEnd)"
  have seg: "segmented_zone zone" using zone by (simp add: overview_zone_def segmented_zone_def)
  obtain es where es: "loadUsageOverviewRawEventWindowsWithFilter zone (ot_events db) now eff ?ws None = Some es"
      "mset es = mset (filter (\<lambda>e. event_in_scope eff e \<and> ?edge (ue_Timestamp e)) (ot_events db))"
    using segmented_zone.raw_events_exact [where events = "ot_events db" and ws = ?ws and Q = ?edge and now = now and qf = eff, OF seg]
      raw_windows_partition [OF full range] by blast
  have "set es = set (filter (\<lambda>e. event_in_scope eff e \<and> ?edge (ue_Timestamp e)) (ot_events db))" using mset_eq_setD [OF es(2)] .
  then have "\<forall>e\<in>set es. backfilled e \<and> \<not> usageOverviewEventInsideWindow e fullStart fullEnd"
    using built by (auto simp: built_from_def usageOverviewEventInsideWindow_def)
  note events = apply_events_outcome [OF this new_record(1) [of m], of zone byDay]
  have "mset (filter (\<lambda>e. on zone byDay (ue_Timestamp e)) es) =
      mset (filter (\<lambda>e. event_in_scope eff e \<and> ?edge (ue_Timestamp e) \<and> on zone byDay (ue_Timestamp e)) (ot_events db))"
    unfolding mset_filter es(2) filter_filter_mset by (simp add: conj_ac)
  then have "(\<Sum>e\<leftarrow>filter (\<lambda>e. on zone byDay (ue_Timestamp e)) es. ev e) = amount zone byDay eff (ot_events db) ?edge"
    unfolding amount_def by (rule sum_list_mset_eq)
  with events es(1) show ?thesis by (simp add: new_record(2))
qed

lemma build_other:
  assumes zone: "overview_zone zone" and built: "built_from zone db" and plain: "plain_scope qf (ot_events db)"
    and range: "uf_StartTime qf = Some start" "uf_EndTime qf = Some stop" and other: "\<not> (hourly_custom qf \<or> daily_custom qf)"
  shows "\<exists>r. buildUsageOverviewFromStats zone db now qf None start stop = Some r
    \<and> outcome r (overview_unreadable zone db now qf start stop)
        (amount zone (bucketed_by_day now qf) qf (ot_events db) (overview_covers now qf start stop))"
proof -
  define queryNow where "queryNow = usageOverviewQueryNow now qf"
  define eff where "eff = usageOverviewEffectiveFilter qf queryNow"
  define stop' where "stop' = (if queryNow < stop then queryNow else stop)"
  define right where "right = usageOverviewCurrentRightBoundary qf queryNow"
  define byDay where "byDay = shouldBucketUsageOverviewByDay eff (computeWindowMinutes eff)"
  define ov where "ov = newUsageOverviewRecord (computeWindowMinutes eff)"
  let ?finish = "\<lambda>ov. Some (Inr (finalizeUsageOverview zone ov))"
  let ?n = "amount zone (bucketed_by_day now qf) qf (ot_events db) (overview_covers now qf start stop)"
    and ?B = "overview_unreadable zone db now qf start stop"
  obtain fullStart fullEnd where full: "usageOverviewFullHourWindow start stop' = (fullStart, fullEnd)" by (cases "usageOverviewFullHourWindow start stop'")
  note eff = effective_filter [OF range, of queryNow, folded eff_def stop'_def]
  let ?full = "\<lambda>t. fullStart \<le> t \<and> t < fullEnd"
  let ?edge = "\<lambda>t. in_range qf right start stop' t \<and> \<not> ?full t" and ?a = "amount zone byDay eff (ot_events db)"
  obtain es where es: "loadUsageOverviewRawEventWindowsWithFilter zone (ot_events db) now eff
        (usageOverviewRawEventWindows eff fullStart fullEnd right) None = Some es"
      "outcome (apply_events zone byDay fullStart fullEnd es ov) {} (?a ?edge)"
    using edge_events [OF zone built full eff(1,2)] unfolding eff(5) ov_def by blast
  have inside: "in_range qf right start stop' t" if "?full t" for t
    using that full_hours(1,6) [OF full] truncate_hour(1) [of stop'] by (auto simp: in_range_def max_def split: if_splits)
  have "overview_covers now qf start stop = in_range qf right start stop'" "bucketed_by_day now qf = byDay"
    using other by (simp_all add: right_boundary [symmetric] overview_covers_def bucketed_by_day_def Let_def byDay_def eff_def queryNow_def right_def stop'_def fun_eq_iff)
  note byDay = this(2)
  from \<open>overview_covers now qf start stop = _\<close> byDay have "?n = ?a (in_range qf right start stop')" by (simp add: amount_def eff(3))
  also have "\<dots> = ?a ?edge + ?a ?full" by (rule amount_split) (use inside in blast)+
  finally have total: "?n = ?a ?edge + ?a ?full" .
  have "?B = unreadable zone db byDay qf start stop'"
    using other by (simp add: overview_unreadable_def byDay queryNow_def [symmetric] stop'_def min_def not_le eq_commute)
  then have unreadable: "unreadable zone db byDay eff fullStart fullEnd = ?B"
    using unreadable_whole_hours [OF zone full] by (simp add: unreadable_def bad_days_def bad_hours_def bad_def bucket_fee_def eff(3,6))
  have "\<exists>r. bind_result (Some (apply_events zone byDay fullStart fullEnd es ov))
      (\<lambda>ov. bind_result (load_full_window zone db eff byDay fullStart fullEnd ov) ?finish) = Some r \<and> outcome r ({} \<union> ?B) ?n"
  proof (rule outcome_bind [OF es(2)])
    fix ov assume ov: "is_int64 (get ov)" "get ov = wrap64 (?a ?edge)"
    have "plain_scope eff (ot_events db)" using plain by (simp add: eff(4))
    from load_full [OF zone built this full_hours(3,4) [OF full] ov(1), of byDay] obtain r where
      r: "load_full_window zone db eff byDay fullStart fullEnd ov = Some r" "outcome r (unreadable zone db byDay eff fullStart fullEnd) (get ov + ?a ?full)" by blast
    from r(2) have "outcome r ?B ?n" unfolding ov(2) total outcome_wrap unreadable .
    with finished r(1) show "\<exists>r'. bind_result (load_full_window zone db eff byDay fullStart fullEnd ov) ?finish = Some r' \<and> outcome r' ?B ?n"
      by simp
  qed
  moreover have "buildUsageOverviewFromStats zone db now qf None start stop =
      bind_result (Some (apply_events zone byDay fullStart fullEnd es ov))
        (\<lambda>ov. bind_result (load_full_window zone db eff byDay fullStart fullEnd ov) ?finish)"
    using other full es(1) unfolding buildUsageOverviewFromStats_def hourly_custom_def [symmetric] daily_custom_def [symmetric]
    by (simp add: Let_def queryNow_def [symmetric] eff_def [symmetric] byDay_def [symmetric] right_def [symmetric] stop'_def [symmetric] ov_def [symmetric])
  ultimately show ?thesis by simp
qed

text \<open>Every counter counts the events in scope that the query covers, each once.\<close>

lemma build_exact:
  assumes "overview_zone zone" and "built_from zone db" and "plain_scope qf (ot_events db)"
    and "uf_StartTime qf = Some start" and "uf_EndTime qf = Some stop" and "aligned zone qf start stop"
    and "\<not> uf_ComparisonOnly qf"
  shows "\<exists>r. BuildUsageOverviewWithFilterAndRecentCache zone db now qf None = Some r
    \<and> outcome r (overview_unreadable zone db now qf start stop)
        (amount zone (bucketed_by_day now qf) qf (ot_events db) (overview_covers now qf start stop))"
  using build_custom [OF assms(1-3) _ assms(6)] build_other [OF assms(1-5)] assms(4,5,7)
  by (cases "hourly_custom qf \<or> daily_custom qf") (simp_all add: BuildUsageOverviewWithFilterAndRecentCache_def)

end

section \<open>The counters of the overview\<close>

lemma bucket_of_hour:
  assumes "overview_zone zone"
  shows "usageOverviewBucket zone (truncate_hour t) byDay = usageOverviewBucket zone t byDay"
proof -
  note hz = hourly_zone.intro [OF assms]
  have "wall_day zone (truncate_hour t) = d \<longleftrightarrow> wall_day zone t = d" for d
    using assms truncate_hour_le_iff [OF hourly_zone.midnight_hour [OF hz]]
    by (simp add: overview_zone_def regular_day_iff not_le [symmetric])
  then have "DateOf zone (truncate_hour t) = DateOf zone t" by (simp add: DateOf_def)
  moreover have "truncate_hour (truncate_hour t) = truncate_hour t" by (simp add: truncate_hour)
  ultimately show ?thesis by (simp add: usageOverviewBucket_def)
qed

lemma bucket_of_day:
  assumes "overview_zone zone"
  shows "usageOverviewBucket zone (day_start zone t) True = usageOverviewBucket zone t True"
proof -
  have "regular_zone zone" using assms by (simp add: overview_zone_def regular_zone_def)
  then show ?thesis
    by (simp add: usageOverviewBucket_def DateOf_def regular_zone.day_start_midnight) (simp add: wall_day_def regular_zone.wall_midnight)
qed

lemma stat_applied:
  "applyUsageOverviewStatToOverview zone byDay p ov = Inr ov' \<Longrightarrow>
     ov_Usage ov' = applyUsageOverviewStatToSnapshotTotals (sp_RequestCount p) (sp_SuccessCount p) (sp_FailureCount p) (sp_TotalTokens p) (ov_Usage ov)
     \<and> sm_InputTokens (ov_Summary ov') = wrap64 (sm_InputTokens (ov_Summary ov) + sp_InputTokens p)
     \<and> sm_CacheReadTokens (ov_Summary ov') = wrap64 (sm_CacheReadTokens (ov_Summary ov) + sp_CacheReadTokens p)
     \<and> sm_CacheCreationTokens (ov_Summary ov') = wrap64 (sm_CacheCreationTokens (ov_Summary ov) + sp_CacheCreationTokens p)
     \<and> sm_ReasoningTokens (ov_Summary ov') = wrap64 (sm_ReasoningTokens (ov_Summary ov) + sp_ReasoningTokens p)
     \<and> (\<exists>cost. ov_Series ov' = applyUsageOverviewStatToSeries (sp_RequestCount p) (sp_InputTokens p) (sp_CacheReadTokens p) (sp_TotalTokens p)
          cost (usageOverviewBucket zone (sp_BucketStart p) byDay) (ov_Series ov))"
  by (auto simp: applyUsageOverviewStatToOverview_def applyUsageOverviewStatToSummary_def Let_def split: option.splits if_splits)

lemma finalize_keeps:
  "ov_Usage (finalizeUsageOverview zone ov) = ov_Usage ov"
  "sm_InputTokens (ov_Summary (finalizeUsageOverview zone ov)) = sm_InputTokens (ov_Summary ov)"
  "sm_CacheReadTokens (ov_Summary (finalizeUsageOverview zone ov)) = sm_CacheReadTokens (ov_Summary ov)"
  "sm_CacheCreationTokens (ov_Summary (finalizeUsageOverview zone ov)) = sm_CacheCreationTokens (ov_Summary ov)"
  "sm_ReasoningTokens (ov_Summary (finalizeUsageOverview zone ov)) = sm_ReasoningTokens (ov_Summary ov)"
  "us_Requests (ov_Series (finalizeUsageOverview zone ov)) = us_Requests (ov_Series ov)"
  "us_Tokens (ov_Series (finalizeUsageOverview zone ov)) = us_Tokens (ov_Series ov)"
  "us_CacheReadRateInputTokens (ov_Series (finalizeUsageOverview zone ov)) = us_CacheReadRateInputTokens (ov_Series ov)"
  "us_CacheReadRateReadTokens (ov_Series (finalizeUsageOverview zone ov)) = us_CacheReadRateReadTokens (ov_Series ov)"
  by (simp_all add: finalizeUsageOverview_def finalizeUsageOverviewSeries_def Let_def)

lemma length_sum: "int (length (filter P es)) = (\<Sum>e\<leftarrow>es. if P e then 1 else 0)"
  by (induction es) simp_all

lemmas counter_defs = newUsageOverviewRecord_def applyUsageEventToOverview_def applyUsageEventToOverviewSnapshot_def Let_def
  applyUsageOverviewStatToSnapshotTotals_def stat_projection_def row_exact_def finalize_keeps length_sum sum_list_triv wrap64_id

interpretation requests: counter "\<lambda>ov. sn_TotalRequests (ov_Usage ov)" "\<lambda>e. 1" sp_RequestCount os_RequestCount "\<lambda>zone byDay t. True"
  by unfold_locales (auto simp: counter_defs dest!: stat_applied)

interpretation successes: counter "\<lambda>ov. sn_SuccessCount (ov_Usage ov)" "\<lambda>e. if \<not> ue_Failed e then 1 else 0" sp_SuccessCount os_SuccessCount
    "\<lambda>zone byDay t. True"
  by unfold_locales (auto simp: counter_defs dest!: stat_applied)

interpretation failures: counter "\<lambda>ov. sn_FailureCount (ov_Usage ov)" "\<lambda>e. if ue_Failed e then 1 else 0" sp_FailureCount os_FailureCount
    "\<lambda>zone byDay t. True"
  by unfold_locales (auto simp: counter_defs dest!: stat_applied)

interpretation tokens: counter "\<lambda>ov. sn_TotalTokens (ov_Usage ov)" ue_TotalTokens sp_TotalTokens os_TotalTokens "\<lambda>zone byDay t. True"
  by unfold_locales (auto simp: counter_defs dest!: stat_applied)

interpretation input_tokens: counter "\<lambda>ov. sm_InputTokens (ov_Summary ov)" ue_InputTokens sp_InputTokens os_InputTokens "\<lambda>zone byDay t. True"
  by unfold_locales (auto simp: counter_defs dest!: stat_applied)

interpretation cache_read_tokens: counter "\<lambda>ov. sm_CacheReadTokens (ov_Summary ov)" ue_CacheReadTokens sp_CacheReadTokens os_CacheReadTokens
    "\<lambda>zone byDay t. True"
  by unfold_locales (auto simp: counter_defs dest!: stat_applied)

interpretation cache_creation_tokens: counter "\<lambda>ov. sm_CacheCreationTokens (ov_Summary ov)" ue_CacheCreationTokens sp_CacheCreationTokens
    os_CacheCreationTokens "\<lambda>zone byDay t. True"
  by unfold_locales (auto simp: counter_defs dest!: stat_applied)

interpretation reasoning_tokens: counter "\<lambda>ov. sm_ReasoningTokens (ov_Summary ov)" ue_ReasoningTokens sp_ReasoningTokens os_ReasoningTokens
    "\<lambda>zone byDay t. True"
  by unfold_locales (auto simp: counter_defs dest!: stat_applied)

text \<open>A point of a series; a key that is missing stands for no events.\<close>

definition point :: "(seriesKey \<rightharpoonup> int) \<Rightarrow> seriesKey \<Rightarrow> int" where
  "point m k = (case m k of None \<Rightarrow> 0 | Some n \<Rightarrow> n)"

lemma point_add: "point (add_int k v m) k' = (if k' = k then wrap64 (point m k + v) else point m k')"
  by (simp add: point_def add_int_def)

lemma point_empty: "point Map.empty k = 0"
  by (simp add: point_def)

lemmas point_defs = applyUsageOverviewStatToSeries_def applyUsageEventToOverviewSeries_def updateUsageOverviewSeriesCacheReadRate_def
  newUsageOverviewSeriesRecord_def point_add point_empty bucket_of_hour bucket_of_day

interpretation request_points: counter "\<lambda>ov. point (us_Requests (ov_Series ov)) k" "\<lambda>e. 1" sp_RequestCount os_RequestCount
    "\<lambda>zone byDay t. usageOverviewBucket zone t byDay = k" for k
  by unfold_locales (auto simp: counter_defs point_defs dest!: stat_applied)

interpretation token_points: counter "\<lambda>ov. point (us_Tokens (ov_Series ov)) k" ue_TotalTokens sp_TotalTokens os_TotalTokens
    "\<lambda>zone byDay t. usageOverviewBucket zone t byDay = k" for k
  by unfold_locales (auto simp: counter_defs point_defs dest!: stat_applied)

interpretation input_points: counter "\<lambda>ov. point (us_CacheReadRateInputTokens (ov_Series ov)) k" ue_InputTokens sp_InputTokens os_InputTokens
    "\<lambda>zone byDay t. usageOverviewBucket zone t byDay = k" for k
  by unfold_locales (auto simp: counter_defs point_defs dest!: stat_applied)

interpretation cache_read_points: counter "\<lambda>ov. point (us_CacheReadRateReadTokens (ov_Series ov)) k" ue_CacheReadTokens sp_CacheReadTokens
    os_CacheReadTokens "\<lambda>zone byDay t. usageOverviewBucket zone t byDay = k" for k
  by unfold_locales (auto simp: counter_defs point_defs dest!: stat_applied)

lemma built_from_rows:
  assumes "BuildRows zone (ot_events db) = Inr (ot_hourly db, ot_daily db, watermark)"
  shows "built_from zone db"
  using BuildRows_exact [where zone = zone and events = "ot_events db"] by (simp add: assms built_from_def list_all_iff)

text \<open>The events a query is about, and what it says of them.\<close>

definition covered :: "time \<Rightarrow> UsageQueryFilter \<Rightarrow> time \<Rightarrow> time \<Rightarrow> usageEvent list \<Rightarrow> usageEvent list" where
  "covered now qf start stop events = filter (\<lambda>e. event_in_scope qf e \<and> overview_covers now qf start stop (ue_Timestamp e)) events"

definition overview_totals :: "UsageOverview \<Rightarrow> int list" where
  "overview_totals ov =
     [sn_TotalRequests (ov_Usage ov), sn_SuccessCount (ov_Usage ov), sn_FailureCount (ov_Usage ov), sn_TotalTokens (ov_Usage ov),
      sm_InputTokens (ov_Summary ov), sm_CacheReadTokens (ov_Summary ov), sm_CacheCreationTokens (ov_Summary ov),
      sm_ReasoningTokens (ov_Summary ov)]"

definition event_totals :: "usageEvent list \<Rightarrow> int list" where
  "event_totals es = map wrap64
     [int (length es), int (length (filter (\<lambda>e. \<not> ue_Failed e) es)), int (length (filter ue_Failed es)), (\<Sum>e\<leftarrow>es. ue_TotalTokens e),
      (\<Sum>e\<leftarrow>es. ue_InputTokens e), (\<Sum>e\<leftarrow>es. ue_CacheReadTokens e), (\<Sum>e\<leftarrow>es. ue_CacheCreationTokens e), (\<Sum>e\<leftarrow>es. ue_ReasoningTokens e)]"

definition overview_points :: "UsageOverview \<Rightarrow> seriesKey \<Rightarrow> int list" where
  "overview_points ov k =
     [point (us_Requests (ov_Series ov)) k, point (us_Tokens (ov_Series ov)) k,
      point (us_CacheReadRateInputTokens (ov_Series ov)) k, point (us_CacheReadRateReadTokens (ov_Series ov)) k]"

definition event_points :: "usageEvent list \<Rightarrow> int list" where
  "event_points es = map wrap64
     [int (length es), (\<Sum>e\<leftarrow>es. ue_TotalTokens e), (\<Sum>e\<leftarrow>es. ue_InputTokens e), (\<Sum>e\<leftarrow>es. ue_CacheReadTokens e)]"

text \<open>
  Claim C4. The overview of a range counts every event once. In a zone whose midnights are whole hours, over
  tables that \<open>BuildRows\<close> has built from the events, a query by instance and API keys, without a filter on providers
  and without the recent event cache, always answers. It answers an error exactly if it reads a bucket whose fees do not add up to a
  finite number, and the error names such a bucket: a local date between the start and the end of the range when the series go by
  days, or otherwise an hour between them, that holds an event in scope. Else the totals it answers are the 64-bit sums over exactly the
  events in scope that the range covers, whichever of them it read as events, hours and days.
\<close>

theorem overview_query_exact:
  assumes "overview_zone zone" and "BuildRows zone (ot_events db) = Inr (ot_hourly db, ot_daily db, watermark)"
    and "plain_scope qf (ot_events db)" and "\<not> uf_ComparisonOnly qf"
    and "uf_StartTime qf = Some start" and "uf_EndTime qf = Some stop" and "aligned zone qf start stop"
  shows "\<exists>r. BuildUsageOverviewWithFilterAndRecentCache zone db now qf None = Some r
    \<and> (case r of
         Inl err \<Rightarrow> \<exists>t\<in>overview_unreadable zone db now qf start stop. err = BucketNotFinite t
       | Inr ov \<Rightarrow> overview_unreadable zone db now qf start stop = {}
           \<and> overview_totals ov = event_totals (covered now qf start stop (ot_events db)))"
proof -
  note given = assms(1) built_from_rows [OF assms(2)] assms(3,5-7,4)
  from requests.build_exact [OF given] obtain r where r: "BuildUsageOverviewWithFilterAndRecentCache zone db now qf None = Some r" by blast
  show ?thesis
    using requests.build_exact [OF given, of now] successes.build_exact [OF given, of now] failures.build_exact [OF given, of now]
      tokens.build_exact [OF given, of now] input_tokens.build_exact [OF given, of now] cache_read_tokens.build_exact [OF given, of now]
      cache_creation_tokens.build_exact [OF given, of now] reasoning_tokens.build_exact [OF given, of now]
    unfolding r
    by (cases r) (simp_all del: filter_filter add: overview_totals_def event_totals_def covered_def length_sum sum_list_triv
        requests.outcome_def successes.outcome_def failures.outcome_def tokens.outcome_def input_tokens.outcome_def
        cache_read_tokens.outcome_def cache_creation_tokens.outcome_def reasoning_tokens.outcome_def
        requests.amount_def successes.amount_def failures.amount_def tokens.amount_def input_tokens.amount_def
        cache_read_tokens.amount_def cache_creation_tokens.amount_def reasoning_tokens.amount_def)
qed

text \<open>
  Claim C5. The series agree with the totals. Under the same conditions (whole-hour midnights, tables built from the events, no filter on
  providers and no recent event cache) the error is that of a bucket without a finite fee that is read, and else every point of the series of requests,
  tokens, input tokens and cached tokens is the 64-bit sum over exactly the covered events of its hour,
  or of its local date when the range is shown by days, although the rows behind it carry only the
  start of their bucket.
\<close>

theorem overview_series_exact:
  assumes "overview_zone zone" and "BuildRows zone (ot_events db) = Inr (ot_hourly db, ot_daily db, watermark)"
    and "plain_scope qf (ot_events db)" and "\<not> uf_ComparisonOnly qf"
    and "uf_StartTime qf = Some start" and "uf_EndTime qf = Some stop" and "aligned zone qf start stop"
  shows "\<exists>r. BuildUsageOverviewWithFilterAndRecentCache zone db now qf None = Some r
    \<and> (case r of
         Inl err \<Rightarrow> \<exists>t\<in>overview_unreadable zone db now qf start stop. err = BucketNotFinite t
       | Inr ov \<Rightarrow> overview_unreadable zone db now qf start stop = {} \<and> overview_points ov k =
           event_points (filter (\<lambda>e. usageOverviewBucket zone (ue_Timestamp e) (bucketed_by_day now qf) = k)
             (covered now qf start stop (ot_events db))))"
proof -
  note given = assms(1) built_from_rows [OF assms(2)] assms(3,5-7,4)
  from request_points.build_exact [OF given] obtain r where r: "BuildUsageOverviewWithFilterAndRecentCache zone db now qf None = Some r" by blast
  show ?thesis
    using request_points.build_exact [OF given, of now k] token_points.build_exact [OF given, of now k]
      input_points.build_exact [OF given, of now k] cache_read_points.build_exact [OF given, of now k]
    unfolding r
    by (cases r) (simp_all add: overview_points_def event_points_def covered_def sum_list_triv conj_ac
        request_points.outcome_def token_points.outcome_def input_points.outcome_def cache_read_points.outcome_def
        request_points.amount_def token_points.amount_def input_points.amount_def cache_read_points.amount_def)
qed

text \<open>
  Four events in a zone eight hours ahead, the tables built from them, and the range from 0:30 to 3:15 of the
  day of the epoch: the first event is before it, the second at its left edge, the third in its whole
  hours and the last at its right edge.
\<close>

definition query_event :: "int \<Rightarrow> usageEvent" where
  "query_event s = blank_event\<lparr>ue_ID := s, ue_APIGroupKey := ''k'', ue_Timestamp := s * Second, ue_TotalTokens := s, ue_CostUSD := Some (Fin 2),
     ue_CostAvailable := Some True\<rparr>"

definition query_events :: "usageEvent list" where
  "query_events = map query_event [1000, 2000, 9000, 11000]"

definition query_tables :: "zone \<Rightarrow> usageEvent list \<Rightarrow> overviewTables" where
  "query_tables zone events =
     (case BuildRows zone events of
        Inr (hourly, daily, _) \<Rightarrow> \<lparr>ot_hourly = hourly, ot_daily = daily, ot_events = events, ot_sum_cost = foldl fadd (Fin 0)\<rparr>
      | Inl _ \<Rightarrow> \<lparr>ot_hourly = [], ot_daily = [], ot_events = events, ot_sum_cost = foldl fadd (Fin 0)\<rparr>)"

definition query_filter :: UsageQueryFilter where
  "query_filter =
     \<lparr>uf_ComparisonOnly = False, uf_InstanceID = '''', uf_Range = ''yesterday'', uf_CustomUnit = '''', uf_StartTime = Some (1800 * Second),
      uf_EndTime = Some (11700 * Second), uf_EndExclusive = True, uf_QueryNow = Some (90000 * Second),
      uf_RealtimeWindow = '''', uf_RealtimeEndTime = None, uf_APIGroupKey = ''k'',
      uf_ExcludedAPIGroupKeys = [], uf_Providers = None, uf_ProviderAuthIndexes = None\<rparr>"

lemma fixed_overview_zone:
  assumes "\<bar>offset\<bar> \<le> 86400" and "3600 dvd offset"
  shows "overview_zone (fixed_zone offset)"
proof -
  have "whole_hour (midnight (fixed_zone offset) day * Second)" for day
  proof -
    obtain h where "offset = 3600 * h" using assms(2) by (auto elim: dvdE)
    then have "midnight (fixed_zone offset) day * Second = Hour * (24 * day - h)"
      by (simp add: midnight_def from_wall_fixed Hour_def Minute_def algebra_simps)
    then show ?thesis by (simp add: whole_hour_def)
  qed
  then show ?thesis using assms(1) by (simp add: overview_zone_def fixed_zone_regular fixed_zone_segments)
qed

interpretation eastern_eight: hourly_zone "fixed_zone 28800"
  by unfold_locales (simp add: fixed_overview_zone)

lemma query_tables_built:
  assumes "\<forall>e\<in>set events. backfilled e"
  shows "\<exists>w. BuildRows zone (ot_events (query_tables zone events)) =
    Inr (ot_hourly (query_tables zone events), ot_daily (query_tables zone events), w)"
  by (simp add: query_tables_def BuildRows_priced [OF assms])

lemma query_example:
  "\<forall>e\<in>set query_events. backfilled e" "plain_scope query_filter query_events"
  "uf_StartTime query_filter = Some (1800 * Second)" "uf_EndTime query_filter = Some (11700 * Second)" "\<not> uf_ComparisonOnly query_filter"
  "aligned zone query_filter start stop" "\<not> hourly_custom query_filter" "\<not> daily_custom query_filter"
  "covered 0 query_filter (1800 * Second) (11700 * Second) query_events = map query_event [2000, 9000, 11000]"
proof -
  show "\<forall>e\<in>set query_events. backfilled e" by (simp add: query_events_def query_event_def backfilled_def)
  have dim: "normalizeRequiredDimension ''k'' = ''k''" "TrimSpace ''k'' = ''k''" "TrimSpace '''' = ''''" "TrimSpace ''yesterday'' \<noteq> ''custom''" by code_simp+
  then show custom: "\<not> hourly_custom query_filter" "\<not> daily_custom query_filter"
    by (simp_all add: hourly_custom_def daily_custom_def query_filter_def)
  from custom show "aligned zone query_filter start stop" by (simp add: aligned_def)
  show "plain_scope query_filter query_events"
    by (simp add: plain_scope_def query_filter_def query_events_def query_event_def dim)
  show "covered 0 query_filter (1800 * Second) (11700 * Second) query_events = map query_event [2000, 9000, 11000]"
  proof -
    have "uf_EndExclusive query_filter" "uf_QueryNow query_filter = Some (90000 * Second)" "\<not> 90000 * Second < 11700 * Second"
      by (simp_all add: query_filter_def Second_def)
    with custom have "overview_covers 0 query_filter (1800 * Second) (11700 * Second) t \<longleftrightarrow> 1800 * Second \<le> t \<and> t < 11700 * Second" for t
      by (simp add: overview_covers_def usageOverviewQueryNow_def in_range_def includes_end_def)
    moreover have "event_in_scope query_filter (query_event s)" for s
      by (simp add: event_in_scope_def query_filter_def query_event_def dim)
    moreover have "ue_Timestamp (query_event s) = s * Second" for s by (simp add: query_event_def)
    ultimately show ?thesis by (simp add: covered_def query_events_def Second_def)
  qed
qed (simp_all add: query_filter_def)

lemma only_answer:
  "\<exists>r. x = Some r \<and> (case r of Inl err \<Rightarrow> \<exists>t\<in>{}. err = f t | Inr answer \<Rightarrow> P answer) \<Longrightarrow> \<exists>answer. x = Some (Inr answer) \<and> P answer"
  by (elim exE, rename_tac r, case_tac r) auto

text \<open>Up to a hundred fees of at most two dollars add up.\<close>

lemma foldl_fadd_below:
  "below n x \<Longrightarrow> \<forall>y\<in>set ys. below n y \<Longrightarrow> n + length ys < 1023 \<Longrightarrow> below (n + length ys) (foldl fadd x ys)"
proof (induction ys arbitrary: n x)
  case (Cons y ys)
  have "below (Suc n) (fadd x y)" using Cons.prems by (simp add: fadd_below)
  moreover have "\<forall>y\<in>set ys. below (Suc n) y" using Cons.prems(2) by (simp add: below_mono [of n _ "Suc n"])
  ultimately show ?case using Cons.IH [of "Suc n" "fadd x y"] Cons.prems(3) by simp
qed simp

lemma few_fees:
  assumes "\<forall>y\<in>set ys. below n y" and "length ys \<le> 100" and "n < 900"
  shows "below (n + 100) (foldl fadd (Fin 0) ys)"
proof -
  have "below (n + length ys) (foldl fadd (Fin 0) ys)" using foldl_fadd_below [OF below_zero assms(1)] assms(2,3) by linarith
  then show ?thesis by (rule below_mono) (use assms(2) in linarith)
qed

lemma in_map_filter: "y \<in> set (List.map_filter f xs) \<longleftrightarrow> (\<exists>x\<in>set xs. f x = Some y)"
  by (induction xs) (auto simp: map_filter_simps split: option.split)

lemma map_filter_short: "length (List.map_filter f xs) \<le> length xs"
  by (induction xs) (simp_all add: map_filter_simps split: option.split)

lemma few_fees_finite:
  assumes table: "table_of key events table" and few: "length events \<le> 100" and small: "\<forall>e\<in>set events. \<forall>c. ue_CostUSD e = Some c \<longrightarrow> below 1 c"
  shows "finite_fee (bucket_fee (foldl fadd (Fin 0)) qf table k)" and "\<forall>r\<in>set table. \<forall>c. os_CostUSD r = Some c \<longrightarrow> below 101 c"
proof -
  have "below (1 + 100) c" if "r \<in> set table" "os_CostUSD r = Some c" for r c
  proof -
    let ?es = "filter (\<lambda>e. key e = os_Key r) events"
    have "c = foldl fadd (Fin 0) (List.map_filter ue_CostUSD ?es)" using table that by (simp add: table_of_def row_exact_def)
    moreover have "length (List.map_filter ue_CostUSD ?es) \<le> 100"
      using map_filter_short [of ue_CostUSD ?es] length_filter_le [of "\<lambda>e. key e = os_Key r" events] few by linarith
    moreover have "\<forall>c\<in>set (List.map_filter ue_CostUSD ?es). below 1 c" using small by (auto simp: in_map_filter)
    ultimately show ?thesis using few_fees [of "List.map_filter ue_CostUSD ?es" 1] by simp
  qed
  then show rows: "\<forall>r\<in>set table. \<forall>c. os_CostUSD r = Some c \<longrightarrow> below 101 c" by auto
  have "hourlyRowLess = (\<lambda>l r. os_Key l < os_Key r)" by (intro ext) (simp add: rowLess_key)
  then have "sorted_wrt (<) (map os_Key table)" using table by (simp add: table_of_def sorted_wrt_map)
  then have "distinct (map os_Key table)" by (simp add: strict_sorted_iff)
  then have "length table = card (os_Key ` set table)" by (metis distinct_card length_map set_map)
  also have "\<dots> \<le> length events"
    using table card_image_le [of "set events" key] card_length [of events] by (simp add: table_of_def)
  finally have size: "length table \<le> 100" using few by simp
  let ?fees = "List.map_filter os_CostUSD (filter (\<lambda>r. bk_BucketStart (os_Key r) = k \<and> row_in_scope qf r) table)"
  have "length ?fees \<le> 100"
    using map_filter_short [of os_CostUSD] length_filter_le [of _ table] size by (meson order_trans)
  moreover have "\<forall>c\<in>set ?fees. below 101 c" using rows by (auto simp: in_map_filter)
  ultimately have "below (101 + 100) (foldl fadd (Fin 0) ?fees)" by (intro few_fees) simp_all
  then show "finite_fee (bucket_fee (foldl fadd (Fin 0)) qf table k)" by (auto simp: bucket_fee_def finite_fee_def elim: belowE)
qed

lemma query_example_readable:
  "overview_unreadable (fixed_zone 28800) (query_tables (fixed_zone 28800) query_events) now qf start stop = {}"
proof -
  let ?db = "query_tables (fixed_zone 28800) query_events"
  obtain w where "BuildRows (fixed_zone 28800) (ot_events ?db) = Inr (ot_hourly ?db, ot_daily ?db, w)"
    using query_tables_built [OF query_example(1)] by blast
  from built_from_rows [OF this] have tables: "table_of hour_key (ot_events ?db) (ot_hourly ?db)" "table_of (day_key (fixed_zone 28800)) (ot_events ?db) (ot_daily ?db)"
    by (simp_all add: built_from_def)
  have fees: "ot_sum_cost ?db = foldl fadd (Fin 0)" and events: "ot_events ?db = query_events"
    by (simp_all add: query_tables_def BuildRows_priced [OF query_example(1)])
  have "length (ot_events ?db) \<le> 100" "\<forall>e\<in>set (ot_events ?db). \<forall>c. ue_CostUSD e = Some c \<longrightarrow> below 1 c"
    unfolding events by (auto simp: query_events_def query_event_def below_def)
  note finite = few_fees_finite(1) [OF tables(1) this] few_fees_finite(1) [OF tables(2) this]
  show ?thesis by (simp add: overview_unreadable_def unreadable_def bad_hours_def bad_days_def bad_def fees finite)
qed

theorem overview_query_exact_witness:
  "\<exists>ov. BuildUsageOverviewWithFilterAndRecentCache (fixed_zone 28800) (query_tables (fixed_zone 28800) query_events) 0 query_filter None = Some (Inr ov)
    \<and> overview_totals ov = [3, 3, 0, 22000, 0, 0, 0, 0]"
proof -
  let ?db = "query_tables (fixed_zone 28800) query_events"
  have events: "ot_events ?db = query_events" by (simp add: query_tables_def BuildRows_priced [OF query_example(1)])
  obtain w where "BuildRows (fixed_zone 28800) (ot_events ?db) = Inr (ot_hourly ?db, ot_daily ?db, w)"
    using query_tables_built [OF query_example(1)] by blast
  from overview_query_exact [OF eastern_eight.overview this _ query_example(5,3,4,6), of 0]
  moreover have "event_totals (map query_event [2000, 9000, 11000]) = [3, 3, 0, 22000, 0, 0, 0, 0]"
    by (simp add: event_totals_def query_event_def blank_event_def wrap64_def)
  ultimately show ?thesis using query_example(2) unfolding events query_example(9) query_example_readable
    by (auto dest!: only_answer)
qed

lemma query_example_hours: "\<not> bucketed_by_day 0 query_filter"
proof -
  have "time_Sub (11700 * Second) (1800 * Second) = 9900 * Second" by (simp add: time_Sub_def MinInt64_def MaxInt64_def Second_def)
  moreover have "\<not> 90000 * Second < 11700 * Second" by (simp add: Second_def)
  ultimately show ?thesis
    using query_example(3,7,8)
    by (simp add: bucketed_by_day_def usageOverviewEffectiveFilter_def usageOverviewQueryNow_def shouldBucketUsageOverviewByDay_def
        computeWindowMinutes_def query_filter_def usageOverviewDailyBucketThresholdMinutes_def Minute_def Second_def)
qed

theorem overview_series_exact_witness:
  "\<exists>ov. BuildUsageOverviewWithFilterAndRecentCache (fixed_zone 28800) (query_tables (fixed_zone 28800) query_events) 0 query_filter None = Some (Inr ov)
    \<and> overview_points ov (HourKey (7200 * Second)) = [1, 9000, 0, 0]"
proof -
  let ?db = "query_tables (fixed_zone 28800) query_events"
  have events: "ot_events ?db = query_events" by (simp add: query_tables_def BuildRows_priced [OF query_example(1)])
  obtain w where "BuildRows (fixed_zone 28800) (ot_events ?db) = Inr (ot_hourly ?db, ot_daily ?db, w)"
    using query_tables_built [OF query_example(1)] by blast
  from overview_series_exact [OF eastern_eight.overview this _ query_example(5,3,4,6), of 0 "HourKey (7200 * Second)"]
  moreover have "event_points (filter (\<lambda>e. usageOverviewBucket (fixed_zone 28800) (ue_Timestamp e) (bucketed_by_day 0 query_filter) = HourKey (7200 * Second))
      (map query_event [2000, 9000, 11000])) = [1, 9000, 0, 0]"
    using query_example_hours
    by (simp add: event_points_def query_event_def blank_event_def wrap64_def usageOverviewBucket_def truncate_hour_def Hour_def Minute_def Second_def)
  ultimately show ?thesis using query_example(2) unfolding events query_example(9) query_example_readable
    by (auto dest!: only_answer)
qed

text \<open>
  Why whole-hour midnights: half an hour off, in India say, the hourly rows before the first whole day and
  the row of that day both hold an event of the half hour after midnight, so a range that is shown by days
  counts it twice.
\<close>

lemma half_hour_zone_counts_twice:
  defines "zone \<equiv> fixed_zone 19800" and "t \<equiv> 67500 * Second"
  shows "\<exists>d1 d2 h d. usageOverviewFullDayWindow zone 0 (259200 * Second) = Some (d1, d2) \<and> 0 < d1 \<and> d1 < d2
    \<and> overviewBucketRead zone 0 d1 HourlyGrain = Some h \<and> bucket_selected zone h (truncate_hour t)
    \<and> overviewBucketRead zone d1 d2 DailyGrain = Some d \<and> bucket_selected zone d (day_start zone t)"
proof -
  have mid: "midnight zone day = day * 86400 - 19800" for day by (simp add: zone_def midnight_def from_wall_fixed)
  have day: "day_interval zone u = Some \<lparr>iv_Start = midnight zone (wall_day zone u) * Second, iv_End = midnight zone (wall_day zone u + 1) * Second\<rparr>" for u
    by (simp add: day_interval_def DateOf_def DayBounds_regular zone_def fixed_zone_regular fixed_zone_segments)
  have wall: "wall_seconds zone u = unix u + 19800" for u by (simp add: wall_seconds_def zone_def fixed_zone_def)
  have days: "wall_day zone 0 = 0" "wall_day zone (259200 * Second) = 3" by (simp_all add: wall_day_def wall) (simp add: unix_def)
  have stable: "usageReadHasStableOffset zone a b" for a b
    by (simp add: usageReadHasStableOffset_def ZoneSegmentEnd_def zone_def fixed_zone_def)
  have window: "usageOverviewFullDayWindow zone 0 (259200 * Second) = Some (66600 * Second, 239400 * Second)"
    unfolding usageOverviewFullDayWindow_def day days mid by (simp add: Second_def)
  have "truncate_hour t = 64800 * Second" "day_start zone t = 66600 * Second"
    by (simp_all add: t_def truncate_hour_def Hour_def Minute_def Second_def day_start_def wall_day_def wall unix_def)
       (simp add: zone_def from_wall_fixed)
  then have "storage_text_less zone (truncate_hour t) (66600 * Second)" "\<not> storage_text_less zone (truncate_hour t) 0"
      "storage_text_less zone (day_start zone t) (239400 * Second)" "\<not> storage_text_less zone (day_start zone t) (66600 * Second)"
    by (simp_all add: storage_text_less_def wall) (simp_all add: unix_def)
  with window show ?thesis by (simp add: overviewBucketRead_def stable bucket_selected_def Second_def)
qed

end
