(* ===== verification/Realtime_Overview.thy ===== *)
theory Realtime_Overview
  imports Overview_Query Latency_Sketch "HOL-Library.Signed_Division"
begin

text \<open>
  The realtime part of the overview: \<open>buildUsageOverviewRealtime\<close> of \<open>src/internal/repository/usage.go\<close>
  with \<open>usage_realtime_speed.go\<close> and \<open>usage_realtime_insights.go\<close>. The identities that the database
  returns are the argument \<open>lookup\<close>. The texts of bucket times are the times. A map is an association
  list in the order of its creation; \<open>order\<close> is the order in which Go visits it and in which the
  unstable sort leaves entries of equal rank.
\<close>

section \<open>Windows\<close>

definition usageOverviewRealtimeBucketCount :: int where "usageOverviewRealtimeBucketCount = 30"

definition usageOverviewRealtimeLatencyScatterMaxPoints :: int where "usageOverviewRealtimeLatencyScatterMaxPoints = 1000"

definition usageOverviewRealtimeWindow :: "string \<Rightarrow> duration \<times> duration" where
  "usageOverviewRealtimeWindow value =
     (let v = TrimSpace value
      in if v = ''15m'' then (15 * Minute, 30 * Second)
         else if v = ''30m'' then (30 * Minute, Minute)
         else if v = ''60m'' then (60 * Minute, 120 * Second)
         else (15 * Minute, 30 * Second))"

definition usageOverviewRealtimeWindowLabel :: "duration \<Rightarrow> string" where
  "usageOverviewRealtimeWindowLabel window =
     (if window = 15 * Minute then ''15m''
      else if window = 30 * Minute then ''30m''
      else if window = 60 * Minute then ''60m''
      else ''15m'')"

definition usageOverviewRealtimeAggregationWindow :: "duration \<Rightarrow> duration" where
  "usageOverviewRealtimeAggregationWindow window =
     (if window = 15 * Minute then 3 * Minute
      else if window = 30 * Minute then 5 * Minute
      else if window = 60 * Minute then 10 * Minute
      else 3 * Minute)"

definition usageOverviewRealtimeAggregationBucketCount :: "duration \<Rightarrow> duration \<Rightarrow> int" where
  "usageOverviewRealtimeAggregationBucketCount bucketSpan aggregationWindow =
     (if bucketSpan \<le> 0 \<or> aggregationWindow \<le> 0 then 1
      else let n = (if aggregationWindow mod bucketSpan \<noteq> 0 then aggregationWindow div bucketSpan + 1 else aggregationWindow div bucketSpan)
           in if n < 1 then 1 else n)"

definition usageOverviewRealtimeWarmupBucketCount :: "int \<Rightarrow> int" where
  "usageOverviewRealtimeWarmupBucketCount aggregationBucketCount =
     (if aggregationBucketCount \<le> 1 then 0 else aggregationBucketCount - 1)"


section \<open>Events\<close>

record realtimeEvent =
  rt_event :: usageEvent
  rt_identityFallbackKind :: RecentUsageIdentityKind
  rt_identityFallbackLabel :: string

definition loadUsageOverviewRealtimeEventsFromRecentCache ::
    "recentCache option \<Rightarrow> UsageQueryFilter \<Rightarrow> time \<Rightarrow> time \<Rightarrow> realtimeEvent list option" where
  "loadUsageOverviewRealtimeEventsFromRecentCache cache qf start stop =
     (if cache = None then None
      else let (cached, ok) = EventsForInstance cache (uf_InstanceID qf) start stop False (uf_APIGroupKey qf)
           in if \<not> ok then None
              else Some (map (\<lambda>e. \<lparr>rt_event = recentUsageEventToEntity e, rt_identityFallbackKind = re_IdentityFallbackKind e,
                                   rt_identityFallbackLabel = re_IdentityFallbackLabel e\<rparr>)
                     (filter (\<lambda>e. \<not> (usageAPIGroupKeyExcluded (re_APIGroupKey e) (uf_ExcludedAPIGroupKeys qf)
                        \<or> usageProviderExcluded (re_Provider e) (uf_Providers qf)
                        \<or> usageProviderExcluded (re_AuthIndex e) (uf_ProviderAuthIndexes qf))) cached)))"

definition loadUsageOverviewRealtimeEventsFromDB ::
    "zone \<Rightarrow> usageEvent list \<Rightarrow> UsageQueryFilter \<Rightarrow> time \<Rightarrow> time \<Rightarrow> realtimeEvent list option" where
  "loadUsageOverviewRealtimeEventsFromDB zone events qf start stop =
     map_option (map (\<lambda>row.
         let (kind, label) = usageRecentIdentityFallback (ue_AuthType row) (ue_Source row) (ue_Provider row)
         in \<lparr>rt_event = row, rt_identityFallbackKind = kind, rt_identityFallbackLabel = label\<rparr>))
       (loadUsageOverviewEventRange zone events qf start stop False)"


section \<open>Buckets\<close>

record latencyPair =
  lp_timestamp :: time
  lp_ttftMS :: int
  lp_latencyMS :: int

record realtimeBucket =
  rb_failures :: int
  rb_tokenRequests :: int
  rb_cachedRequests :: int
  rb_outputTokens :: int
  rb_reasoningTokens :: int
  rb_bucketStart :: time
  rb_requests :: int
  rb_tokens :: int
  rb_inputTokens :: int
  rb_cacheReadTokens :: int
  rb_cacheCreationTokens :: int
  rb_costUSD :: float64
  rb_costAvailable :: bool
  rb_latencyPairs :: "latencyPair list"

definition empty_bucket :: "time \<Rightarrow> realtimeBucket" where
  "empty_bucket start =
     \<lparr>rb_failures = 0, rb_tokenRequests = 0, rb_cachedRequests = 0, rb_outputTokens = 0, rb_reasoningTokens = 0,
      rb_bucketStart = start, rb_requests = 0, rb_tokens = 0, rb_inputTokens = 0, rb_cacheReadTokens = 0,
      rb_cacheCreationTokens = 0, rb_costUSD = Fin 0, rb_costAvailable = True, rb_latencyPairs = []\<rparr>"

definition newUsageOverviewRealtimeBuckets :: "time \<Rightarrow> duration \<Rightarrow> int \<Rightarrow> realtimeBucket list" where
  "newUsageOverviewRealtimeBuckets start bucketSpan n = map (\<lambda>index. empty_bucket (start + int index * bucketSpan)) [0..<nat n]"

definition usageOverviewRealtimeBucketIndex :: "time \<Rightarrow> time \<Rightarrow> duration \<Rightarrow> int \<Rightarrow> int" where
  "usageOverviewRealtimeBucketIndex timestamp start bucketSpan bucketCount =
     (if timestamp < start then - 1
      else let index = time_Sub timestamp start div bucketSpan
           in if index < 0 then - 1 else if bucketCount \<le> index then bucketCount - 1 else index)"

text \<open>What an event adds to its bucket before its tokens are looked at, and the tokens of a priced one.\<close>

definition count_request :: "bool \<Rightarrow> usageEvent \<Rightarrow> realtimeBucket \<Rightarrow> realtimeBucket" where
  "count_request visible e b =
     (let b = b\<lparr>rb_requests := wrap64 (rb_requests b + 1),
                rb_failures := (if ue_Failed e then wrap64 (rb_failures b + 1) else rb_failures b)\<rparr>
      in case ue_TTFTMS e of
           None \<Rightarrow> b
         | Some ttft \<Rightarrow>
             if \<not> ue_Failed e \<and> usageEventGenerateEnabled (ue_Generate e) \<and> 0 < ttft \<and> 0 < ue_LatencyMS e \<and> visible
             then b\<lparr>rb_latencyPairs := rb_latencyPairs b
                      @ [\<lparr>lp_timestamp = ue_Timestamp e, lp_ttftMS = ttft, lp_latencyMS = ue_LatencyMS e\<rparr>]\<rparr>
             else b)"

definition count_tokens :: "usageEvent \<Rightarrow> float64 \<Rightarrow> bool \<Rightarrow> realtimeBucket \<Rightarrow> realtimeBucket" where
  "count_tokens e cost available b =
     b\<lparr>rb_tokenRequests := wrap64 (rb_tokenRequests b + 1),
       rb_cachedRequests := (if 0 < ue_CacheReadTokens e then wrap64 (rb_cachedRequests b + 1) else rb_cachedRequests b),
       rb_outputTokens := wrap64 (rb_outputTokens b + ue_OutputTokens e),
       rb_reasoningTokens := wrap64 (rb_reasoningTokens b + ue_ReasoningTokens e),
       rb_tokens := wrap64 (rb_tokens b + ue_TotalTokens e),
       rb_inputTokens := wrap64 (rb_inputTokens b + ue_InputTokens e),
       rb_cacheReadTokens := wrap64 (rb_cacheReadTokens b + ue_CacheReadTokens e),
       rb_cacheCreationTokens := wrap64 (rb_cacheCreationTokens b + ue_CacheCreationTokens e),
       rb_costUSD := fadd (rb_costUSD b) cost,
       rb_costAvailable := (if available then rb_costAvailable b else False)\<rparr>"

definition add_bucket :: "realtimeBucket \<Rightarrow> realtimeBucket \<Rightarrow> realtimeBucket" where
  "add_bucket a b =
     a\<lparr>rb_requests := wrap64 (rb_requests a + rb_requests b),
       rb_tokens := wrap64 (rb_tokens a + rb_tokens b),
       rb_inputTokens := wrap64 (rb_inputTokens a + rb_inputTokens b),
       rb_cacheReadTokens := wrap64 (rb_cacheReadTokens a + rb_cacheReadTokens b),
       rb_cacheCreationTokens := wrap64 (rb_cacheCreationTokens a + rb_cacheCreationTokens b),
       rb_costUSD := fadd (rb_costUSD a) (rb_costUSD b),
       rb_costAvailable := (if rb_costAvailable b then rb_costAvailable a else False)\<rparr>"

definition aggregateUsageOverviewRealtimeBucket :: "realtimeBucket list \<Rightarrow> int \<Rightarrow> int \<Rightarrow> realtimeBucket" where
  "aggregateUsageOverviewRealtimeBucket buckets index bucketCount =
     (if index < 0 \<or> int (length buckets) \<le> index then empty_bucket zeroTime
      else
        let start = (if index - bucketCount + 1 < 0 then 0 else index - bucketCount + 1)
        in foldl add_bucket (empty_bucket (rb_bucketStart (buckets ! nat index)))
             (map (\<lambda>i. buckets ! i) [nat start..<Suc (nat index)]))"

section \<open>Shares\<close>

record topAccumulator =
  ta_instanceID :: string
  ta_key :: string
  ta_label :: string
  ta_tokens :: int
  ta_requests :: int
  ta_costUSD :: float64
  ta_costAvailable :: bool

type_synonym topTotals = "(string \<times> topAccumulator) list"

definition normalizeUsageOverviewDimension :: "string \<Rightarrow> string" where
  "normalizeUsageOverviewDimension value = (let trimmed = TrimSpace value in if trimmed = '''' then ''unknown'' else trimmed)"

definition LegacyCPAInstanceID :: string where
  "LegacyCPAInstanceID = ''00000000-0000-7000-8000-000000000000''"

definition analysisIdentityKey :: "string \<Rightarrow> string \<Rightarrow> string" where
  "analysisIdentityKey instanceID identity =
     (let instanceID = TrimSpace instanceID
      in (if instanceID = '''' then LegacyCPAInstanceID else instanceID) @ [char_of (0 :: nat)] @ TrimSpace identity)"

definition usageOverviewRealtimeAPIKeyScope :: "string \<Rightarrow> string \<Rightarrow> string" where
  "usageOverviewRealtimeAPIKeyScope instanceID apiGroupKey = analysisIdentityKey instanceID (normalizeUsageOverviewDimension apiGroupKey)"

definition usageOverviewRealtimeTopItem :: "string \<Rightarrow> string \<Rightarrow> string \<Rightarrow> topAccumulator" where
  "usageOverviewRealtimeTopItem instanceID publicKey label =
     \<lparr>ta_instanceID = instanceID, ta_key = publicKey, ta_label = label, ta_tokens = 0, ta_requests = 0, ta_costUSD = Fin 0,
      ta_costAvailable = True\<rparr>"

definition applyUsageOverviewRealtimeRequestToTotals :: "string \<Rightarrow> string \<Rightarrow> string \<Rightarrow> string \<Rightarrow> topTotals \<Rightarrow> topTotals" where
  "applyUsageOverviewRealtimeRequestToTotals key instanceID publicKey label totals =
     touch key (usageOverviewRealtimeTopItem instanceID publicKey label) (\<lambda>a. a\<lparr>ta_requests := wrap64 (ta_requests a + 1)\<rparr>) totals"

definition applyUsageOverviewRealtimeTokenUsageToTotals ::
    "string \<Rightarrow> string \<Rightarrow> string \<Rightarrow> string \<Rightarrow> int \<Rightarrow> float64 \<Rightarrow> bool \<Rightarrow> topTotals \<Rightarrow> topTotals" where
  "applyUsageOverviewRealtimeTokenUsageToTotals key instanceID publicKey label tokens cost costAvailable totals =
     touch key (usageOverviewRealtimeTopItem instanceID publicKey label)
       (\<lambda>a. a\<lparr>ta_tokens := wrap64 (ta_tokens a + tokens), ta_costUSD := fadd (ta_costUSD a) cost,
              ta_costAvailable := (if costAvailable then ta_costAvailable a else False)\<rparr>) totals"

datatype UsageIdentityAuthType = UsageIdentityAuthTypeCredential | UsageIdentityAuthTypeAIProvider

record analysisIdentityInfo =
  ai_provider :: string
  ai_identity :: string
  ai_label :: string
  ai_authType :: "UsageIdentityAuthType option"

type_synonym identityLookup = "UsageIdentityAuthType \<Rightarrow> string \<rightharpoonup> analysisIdentityInfo"

definition usageOverviewRealtimeIdentityTargets ::
    "realtimeEvent \<Rightarrow> identityLookup \<Rightarrow> analysisIdentityInfo option \<times> analysisIdentityInfo option" where
  "usageOverviewRealtimeIdentityTargets r lookup =
     (let e = rt_event r;
          authIndex = TrimSpace (ue_AuthIndex e);
          key = analysisIdentityKey (ue_InstanceID e) authIndex;
          fallbackLabel = TrimSpace (rt_identityFallbackLabel r);
          fallbackKey = (if authIndex = '''' then fallbackLabel else authIndex);
          fallback = \<lparr>ai_provider = '''', ai_identity = fallbackKey, ai_label = (if fallbackLabel = '''' then fallbackKey else fallbackLabel), ai_authType = None\<rparr>
      in if authIndex \<noteq> '''' \<and> lookup UsageIdentityAuthTypeCredential key \<noteq> None then (lookup UsageIdentityAuthTypeCredential key, None)
         else if authIndex \<noteq> '''' \<and> lookup UsageIdentityAuthTypeAIProvider key \<noteq> None
         then (None, lookup UsageIdentityAuthTypeAIProvider key)
         else if fallbackKey = '''' then (None, None)
         else case rt_identityFallbackKind r of
                RecentUsageIdentityCredential \<Rightarrow> (Some fallback, None)
              | RecentUsageIdentityAIProvider \<Rightarrow> (None, Some fallback)
              | RecentUsageIdentityUnknown \<Rightarrow> (None, None))"

record currentUsage =
  cu_models :: topTotals
  cu_apiKeys :: topTotals
  cu_credentials :: topTotals
  cu_aiProviders :: topTotals

definition applyUsageOverviewRealtimeIdentityRequest :: "realtimeEvent \<Rightarrow> identityLookup \<Rightarrow> currentUsage \<Rightarrow> currentUsage" where
  "applyUsageOverviewRealtimeIdentityRequest r lookup u =
     (let e = rt_event r;
          (credential, aiProvider) = usageOverviewRealtimeIdentityTargets r lookup;
          count_one = (\<lambda>target totals. case target of
             None \<Rightarrow> totals
           | Some i \<Rightarrow> applyUsageOverviewRealtimeRequestToTotals (analysisIdentityKey (ue_InstanceID e) (ai_identity i)) (ue_InstanceID e)
                        (ai_identity i) (ai_label i) totals)
      in u\<lparr>cu_credentials := count_one credential (cu_credentials u), cu_aiProviders := count_one aiProvider (cu_aiProviders u)\<rparr>)"

definition applyUsageOverviewRealtimeRequest :: "realtimeEvent \<Rightarrow> identityLookup \<Rightarrow> currentUsage \<Rightarrow> currentUsage" where
  "applyUsageOverviewRealtimeRequest r lookup u =
     (let e = rt_event r; model = normalizeUsageOverviewDimension (ue_Model e); apiKey = normalizeUsageOverviewDimension (ue_APIGroupKey e)
      in applyUsageOverviewRealtimeIdentityRequest r lookup
           (u\<lparr>cu_models := applyUsageOverviewRealtimeRequestToTotals model '''' model model (cu_models u),
              cu_apiKeys := applyUsageOverviewRealtimeRequestToTotals (usageOverviewRealtimeAPIKeyScope (ue_InstanceID e) (ue_APIGroupKey e))
                (ue_InstanceID e) apiKey apiKey (cu_apiKeys u)\<rparr>))"

definition applyUsageOverviewRealtimeIdentityTokenUsage ::
    "realtimeEvent \<Rightarrow> identityLookup \<Rightarrow> float64 \<Rightarrow> bool \<Rightarrow> currentUsage \<Rightarrow> currentUsage" where
  "applyUsageOverviewRealtimeIdentityTokenUsage r lookup cost costAvailable u =
     (let e = rt_event r;
          (credential, aiProvider) = usageOverviewRealtimeIdentityTargets r lookup;
          add_tokens = (\<lambda>target totals. case target of
             None \<Rightarrow> totals
           | Some i \<Rightarrow> applyUsageOverviewRealtimeTokenUsageToTotals (analysisIdentityKey (ue_InstanceID e) (ai_identity i)) (ue_InstanceID e)
                        (ai_identity i) (ai_label i) (ue_TotalTokens e) cost costAvailable totals)
      in u\<lparr>cu_credentials := add_tokens credential (cu_credentials u), cu_aiProviders := add_tokens aiProvider (cu_aiProviders u)\<rparr>)"

definition applyUsageOverviewRealtimeTokenUsage ::
    "realtimeEvent \<Rightarrow> float64 \<Rightarrow> bool \<Rightarrow> identityLookup \<Rightarrow> currentUsage \<Rightarrow> currentUsage" where
  "applyUsageOverviewRealtimeTokenUsage r cost costAvailable lookup u =
     (let e = rt_event r; model = normalizeUsageOverviewDimension (ue_Model e); apiKey = normalizeUsageOverviewDimension (ue_APIGroupKey e)
      in applyUsageOverviewRealtimeIdentityTokenUsage r lookup cost costAvailable
           (u\<lparr>cu_models := applyUsageOverviewRealtimeTokenUsageToTotals model '''' model model (ue_TotalTokens e) cost costAvailable (cu_models u),
              cu_apiKeys := applyUsageOverviewRealtimeTokenUsageToTotals
                (usageOverviewRealtimeAPIKeyScope (ue_InstanceID e) (ue_APIGroupKey e)) (ue_InstanceID e) apiKey apiKey
                (ue_TotalTokens e) cost costAvailable (cu_apiKeys u)\<rparr>))"

definition RealtimeUsageOtherKey :: string where "RealtimeUsageOtherKey = ''__realtime_others__''"

record topItem =
  ti_InstanceID :: string
  ti_Key :: string
  ti_Label :: string
  ti_Tokens :: int
  ti_Requests :: int
  ti_CostUSD :: "float64 option"
  ti_Share :: float64

definition usageOverviewRealtimeCostPtr :: "float64 \<Rightarrow> bool \<Rightarrow> float64 option" where
  "usageOverviewRealtimeCostPtr cost available = (if available then Some cost else None)"

definition usageOverviewRealtimeCacheReadRate :: "int \<Rightarrow> int \<Rightarrow> float64 option" where
  "usageOverviewRealtimeCacheReadRate cacheReadTokens inputTokens =
     (if inputTokens \<le> 0 then None else Some (fmul (fdiv (of_int64 cacheReadTokens) (of_int64 inputTokens)) (Fin 100)))"

definition add_other :: "topAccumulator \<Rightarrow> topAccumulator \<Rightarrow> topAccumulator" where
  "add_other a i =
     a\<lparr>ta_tokens := wrap64 (ta_tokens a + ta_tokens i), ta_requests := wrap64 (ta_requests a + ta_requests i),
       ta_costUSD := fadd (ta_costUSD a) (ta_costUSD i), ta_costAvailable := (if ta_costAvailable i then ta_costAvailable a else False)\<rparr>"

definition other_item :: "topAccumulator list \<Rightarrow> topAccumulator" where
  "other_item items = foldl add_other (usageOverviewRealtimeTopItem '''' RealtimeUsageOtherKey ''Other'') items"

definition finalizeUsageOverviewRealtimeTopItems :: "(topAccumulator list \<Rightarrow> topAccumulator list) \<Rightarrow> topTotals \<Rightarrow> topItem list" where
  "finalizeUsageOverviewRealtimeTopItems order totals =
     (let items = filter (\<lambda>i. \<not> ta_tokens i \<le> 0) (order (map snd totals));
          totalTokens = foldl (\<lambda>n i. wrap64 (n + ta_tokens i)) 0 items;
          items = sort_key (\<lambda>i. (- ta_tokens i, ta_key i)) items;
          items = (if 5 < length items then take 5 items @ [other_item (drop 5 items)] else items)
      in map (\<lambda>i. \<lparr>ti_InstanceID = ta_instanceID i, ti_Key = ta_key i, ti_Label = ta_label i, ti_Tokens = ta_tokens i,
                   ti_Requests = ta_requests i, ti_CostUSD = usageOverviewRealtimeCostPtr (ta_costUSD i) (ta_costAvailable i),
                   ti_Share = (if 0 < totalTokens then fmul (fdiv (of_int64 (ta_tokens i)) (of_int64 totalTokens)) (Fin 100) else Fin 0)\<rparr>)
           items)"

section \<open>Speeds\<close>

record speedSample =
  ss_SpeedTPSSum :: float64
  ss_SpeedSampleCount :: int
  ss_MeanTPS :: "float64 option"

record modelSpeedSeries =
  ms_Model :: string
  ms_TotalTokens :: int
  ms_SpeedSampleCount :: int
  ms_FirstHalf :: speedSample
  ms_SecondHalf :: speedSample

record modelSpeed =
  mo_Available :: bool
  mo_Start :: time
  mo_Mid :: time
  mo_End :: time
  mo_Series :: "modelSpeedSeries list"

record modelSpeedAccumulator =
  sa_record :: modelSpeed
  sa_models :: "(string \<times> modelSpeedSeries) list"

definition newRealtimeModelSpeed :: "time \<Rightarrow> time \<Rightarrow> bool \<Rightarrow> modelSpeedAccumulator" where
  "newRealtimeModelSpeed start stop available =
     \<lparr>sa_record = \<lparr>mo_Available = available, mo_Start = start, mo_Mid = start + time_Sub stop start sdiv 2, mo_End = stop, mo_Series = []\<rparr>,
      sa_models = []\<rparr>"

definition new_speed_series :: "string \<Rightarrow> modelSpeedSeries" where
  "new_speed_series model =
     (let none = \<lparr>ss_SpeedTPSSum = Fin 0, ss_SpeedSampleCount = 0, ss_MeanTPS = None\<rparr>
      in \<lparr>ms_Model = model, ms_TotalTokens = 0, ms_SpeedSampleCount = 0, ms_FirstHalf = none, ms_SecondHalf = none\<rparr>)"

definition speed_add :: "usageEvent \<Rightarrow> time \<Rightarrow> modelSpeedAccumulator \<Rightarrow> modelSpeedAccumulator" where
  "speed_add e timestamp a =
     (let model = normalizeUsageOverviewDimension (ue_Model e);
          sampled = (\<lambda>s. s\<lparr>ss_SpeedTPSSum := fadd (ss_SpeedTPSSum s)
                          (fdiv (fmul (of_int64 (ue_OutputTokens e)) (Fin 1000)) (of_int64 (ue_LatencyMS e))),
                        ss_SpeedSampleCount := wrap64 (ss_SpeedSampleCount s + 1)\<rparr>);
          add_sample = (\<lambda>series.
            if ue_OutputTokens e \<le> 0 \<or> ue_LatencyMS e \<le> 0 then series
            else let series = (if timestamp < mo_Mid (sa_record a) then series\<lparr>ms_FirstHalf := sampled (ms_FirstHalf series)\<rparr>
                               else series\<lparr>ms_SecondHalf := sampled (ms_SecondHalf series)\<rparr>)
                 in series\<lparr>ms_SpeedSampleCount := wrap64 (ms_SpeedSampleCount series + 1)\<rparr>)
      in a\<lparr>sa_models := touch model (new_speed_series model) add_sample (sa_models a)\<rparr>)"

definition speed_finalize :: "(modelSpeedSeries list \<Rightarrow> modelSpeedSeries list) \<Rightarrow> topTotals \<Rightarrow> modelSpeedAccumulator \<Rightarrow> modelSpeed" where
  "speed_finalize order tokenTotals a =
     (let mean = (\<lambda>s. if 0 < ss_SpeedSampleCount s
                      then s\<lparr>ss_MeanTPS := Some (fdiv (ss_SpeedTPSSum s) (of_int64 (ss_SpeedSampleCount s)))\<rparr> else s);
          finish = (\<lambda>(model, series).
            (case map_of tokenTotals model of None \<Rightarrow> series | Some t \<Rightarrow> series\<lparr>ms_TotalTokens := ta_tokens t\<rparr>)
              \<lparr>ms_FirstHalf := mean (ms_FirstHalf series), ms_SecondHalf := mean (ms_SecondHalf series)\<rparr>)
      in (sa_record a)\<lparr>mo_Series := sort_key (\<lambda>s. (- ms_TotalTokens s, ms_Model s))
           (mo_Series (sa_record a) @ order (map finish (sa_models a)))\<rparr>)"


section \<open>Latencies\<close>

record latencyScatter =
  sc_Points :: "(int \<times> int) list"
  sc_TotalPoints :: int
  sc_P95TTFTMS :: int
  sc_P95LatencyMS :: int
  sc_MaxTTFTMS :: int
  sc_MaxLatencyMS :: int

definition usageOverviewRealtimeSortedPercentile :: "int list \<Rightarrow> float64 \<Rightarrow> int option" where
  "usageOverviewRealtimeSortedPercentile values percentile =
     (if values = [] then None
      else let n = int (length values);
               index = float_to_int64 (fceil (fmul percentile (of_int64 n))) - 1;
               index = (if index < 0 then 0 else index)
           in Some (values ! nat (if n \<le> index then n - 1 else index)))"

definition usageOverviewRealtimeScatterPointRange :: "int \<Rightarrow> int \<Rightarrow> int \<Rightarrow> int \<times> int" where
  "usageOverviewRealtimeScatterPointRange index pointCount maxPoints =
     (if maxPoints \<le> 0 then (0, 0)
      else (wrap64 (index * pointCount) sdiv maxPoints, wrap64 ((index + 1) * pointCount) sdiv maxPoints))"

definition sample_pairs :: "latencyPair list \<Rightarrow> latencyPair list" where
  "sample_pairs pairs =
     (let pairs = sort_key (\<lambda>p. (lp_timestamp p, lp_ttftMS p, lp_latencyMS p)) pairs
      in map (\<lambda>index.
           let (start, stop) = usageOverviewRealtimeScatterPointRange index (int (length pairs)) usageOverviewRealtimeLatencyScatterMaxPoints
           in pairs ! nat (start + (stop - start) sdiv 2)) [0..usageOverviewRealtimeLatencyScatterMaxPoints - 1])"

definition p95_rank :: float64 where "p95_rank = to_float (95 / 100)"

definition buildUsageOverviewRealtimeLatencyScatter :: "realtimeBucket list \<Rightarrow> latencyScatter" where
  "buildUsageOverviewRealtimeLatencyScatter buckets =
     (let pairs = concat (map rb_latencyPairs buckets)
      in if pairs = [] then
           \<lparr>sc_Points = [], sc_TotalPoints = 0, sc_P95TTFTMS = 0, sc_P95LatencyMS = 0, sc_MaxTTFTMS = 0, sc_MaxLatencyMS = 0\<rparr>
         else
           let shown = (if usageOverviewRealtimeLatencyScatterMaxPoints < int (length pairs) then sample_pairs pairs else pairs)
           in \<lparr>sc_Points = map (\<lambda>p. (lp_ttftMS p, lp_latencyMS p)) shown, sc_TotalPoints = int (length pairs),
               sc_P95TTFTMS = the (usageOverviewRealtimeSortedPercentile (sort (map lp_ttftMS pairs)) p95_rank),
               sc_P95LatencyMS = the (usageOverviewRealtimeSortedPercentile (sort (map lp_latencyMS pairs)) p95_rank),
               sc_MaxTTFTMS = foldl max 0 (map lp_ttftMS pairs), sc_MaxLatencyMS = foldl max 0 (map lp_latencyMS pairs)\<rparr>)"


section \<open>The record\<close>

record windowSummary =
  ws_Requests :: int
  ws_Failures :: int
  ws_TokenRequests :: int
  ws_CachedRequests :: int
  ws_TotalTokens :: int
  ws_InputTokens :: int
  ws_OutputTokens :: int
  ws_ReasoningTokens :: int
  ws_CacheReadTokens :: int
  ws_CacheCreationTokens :: int
  ws_CostUSD :: float64
  ws_CostAvailable :: bool

record outcomePoint =
  op_Bucket :: time
  op_Requests :: int
  op_Failures :: int

record realtimeInsights =
  in_Summary :: windowSummary
  in_Outcomes :: "outcomePoint list"

definition add_summary :: "windowSummary \<Rightarrow> realtimeBucket \<Rightarrow> windowSummary" where
  "add_summary s b =
     \<lparr>ws_Requests = wrap64 (ws_Requests s + rb_requests b), ws_Failures = wrap64 (ws_Failures s + rb_failures b),
      ws_TokenRequests = wrap64 (ws_TokenRequests s + rb_tokenRequests b),
      ws_CachedRequests = wrap64 (ws_CachedRequests s + rb_cachedRequests b),
      ws_TotalTokens = wrap64 (ws_TotalTokens s + rb_tokens b), ws_InputTokens = wrap64 (ws_InputTokens s + rb_inputTokens b),
      ws_OutputTokens = wrap64 (ws_OutputTokens s + rb_outputTokens b),
      ws_ReasoningTokens = wrap64 (ws_ReasoningTokens s + rb_reasoningTokens b),
      ws_CacheReadTokens = wrap64 (ws_CacheReadTokens s + rb_cacheReadTokens b),
      ws_CacheCreationTokens = wrap64 (ws_CacheCreationTokens s + rb_cacheCreationTokens b),
      ws_CostUSD = fadd (ws_CostUSD s) (rb_costUSD b), ws_CostAvailable = (ws_CostAvailable s \<and> rb_costAvailable b)\<rparr>"

definition buildRealtimeInsights :: "realtimeBucket list \<Rightarrow> realtimeInsights" where
  "buildRealtimeInsights buckets =
     \<lparr>in_Summary = foldl add_summary
        \<lparr>ws_Requests = 0, ws_Failures = 0, ws_TokenRequests = 0, ws_CachedRequests = 0, ws_TotalTokens = 0, ws_InputTokens = 0,
         ws_OutputTokens = 0, ws_ReasoningTokens = 0, ws_CacheReadTokens = 0, ws_CacheCreationTokens = 0, ws_CostUSD = Fin 0,
         ws_CostAvailable = True\<rparr> buckets,
      in_Outcomes = map (\<lambda>b. \<lparr>op_Bucket = rb_bucketStart b, op_Requests = rb_requests b, op_Failures = rb_failures b\<rparr>) buckets\<rparr>"

record velocityPoint =
  vp_Bucket :: time
  vp_TokensPerMinute :: float64
  vp_Tokens :: int
  vp_CostUSD :: "float64 option"

record levelPoint =
  qp_Bucket :: time
  qp_RequestsPerMinute :: float64
  qp_Requests :: int

record cachePoint =
  cp_Bucket :: time
  cp_CacheReadRate :: "float64 option"
  cp_CacheReadTokens :: int
  cp_CacheCreationTokens :: int
  cp_InputTokens :: int

record realtimeOverview =
  ro_Insights :: realtimeInsights
  ro_Window :: string
  ro_BucketSeconds :: int
  ro_WindowStart :: time
  ro_WindowEnd :: time
  ro_TokenVelocity :: "velocityPoint list"
  ro_ModelSpeed :: modelSpeed
  ro_LatencyScatter :: latencyScatter
  ro_Models :: "topItem list"
  ro_APIKeys :: "topItem list"
  ro_Credentials :: "topItem list"
  ro_AIProviders :: "topItem list"
  ro_RequestLevel :: "levelPoint list"
  ro_CacheLevel :: "cachePoint list"

definition finalizeUsageOverviewRealtime ::
    "(topAccumulator list \<Rightarrow> topAccumulator list) \<Rightarrow> duration \<Rightarrow> duration \<Rightarrow> time \<Rightarrow> time \<Rightarrow> realtimeBucket list \<Rightarrow> int
      \<Rightarrow> currentUsage \<Rightarrow> modelSpeed \<Rightarrow> realtimeOverview" where
  "finalizeUsageOverviewRealtime order window bucketSpan windowStart windowEnd buckets visibleStartIndex u speed =
     (let aggregationWindow = usageOverviewRealtimeAggregationWindow window;
          aggregationBucketCount = usageOverviewRealtimeAggregationBucketCount bucketSpan aggregationWindow;
          minutes = duration_Minutes aggregationWindow;
          rolling = map (\<lambda>index. aggregateUsageOverviewRealtimeBucket buckets index aggregationBucketCount)
                      [visibleStartIndex..int (length buckets) - 1];
          visible = drop (nat visibleStartIndex) buckets
      in \<lparr>ro_Insights = buildRealtimeInsights visible, ro_Window = usageOverviewRealtimeWindowLabel window,
          ro_BucketSeconds = bucketSpan div Second, ro_WindowStart = windowStart, ro_WindowEnd = windowEnd,
          ro_TokenVelocity = map (\<lambda>b. \<lparr>vp_Bucket = rb_bucketStart b, vp_TokensPerMinute = fdiv (of_int64 (rb_tokens b)) minutes,
             vp_Tokens = rb_tokens b, vp_CostUSD = usageOverviewRealtimeCostPtr (rb_costUSD b) (rb_costAvailable b)\<rparr>) rolling,
          ro_ModelSpeed = speed, ro_LatencyScatter = buildUsageOverviewRealtimeLatencyScatter visible,
          ro_Models = finalizeUsageOverviewRealtimeTopItems order (cu_models u),
          ro_APIKeys = finalizeUsageOverviewRealtimeTopItems order (cu_apiKeys u),
          ro_Credentials = finalizeUsageOverviewRealtimeTopItems order (cu_credentials u),
          ro_AIProviders = finalizeUsageOverviewRealtimeTopItems order (cu_aiProviders u),
          ro_RequestLevel = map (\<lambda>b. \<lparr>qp_Bucket = rb_bucketStart b, qp_RequestsPerMinute = fdiv (of_int64 (rb_requests b)) minutes,
             qp_Requests = rb_requests b\<rparr>) rolling,
          ro_CacheLevel = map (\<lambda>b. \<lparr>cp_Bucket = rb_bucketStart b,
             cp_CacheReadRate = usageOverviewRealtimeCacheReadRate (rb_cacheReadTokens b) (rb_inputTokens b),
             cp_CacheReadTokens = rb_cacheReadTokens b, cp_CacheCreationTokens = rb_cacheCreationTokens b,
             cp_InputTokens = rb_inputTokens b\<rparr>) rolling\<rparr>)"


section \<open>The build\<close>

record realtimeState =
  rs_buckets :: "realtimeBucket list"
  rs_usage :: currentUsage
  rs_speed :: modelSpeedAccumulator

text \<open>One turn of the loop over the events.\<close>

definition realtime_step ::
    "identityLookup \<Rightarrow> bool \<Rightarrow> time \<Rightarrow> time \<Rightarrow> time \<Rightarrow> duration \<Rightarrow> realtimeEvent \<Rightarrow> realtimeState \<Rightarrow> overviewQueryError + realtimeState" where
  "realtime_step lookup cacheOK readStart start stop bucketSpan r s =
     (let e = rt_event r;
          timestamp = ue_Timestamp e;
          index = usageOverviewRealtimeBucketIndex timestamp readStart bucketSpan (int (length (rs_buckets s)));
          visible = (\<not> timestamp < start)
      in if index < 0 then Inr s
         else
           let speed = (if cacheOK \<and> visible \<and> timestamp < stop then speed_add e timestamp (rs_speed s) else rs_speed s);
               b = count_request visible e (rs_buckets s ! nat index);
               u = (if visible then applyUsageOverviewRealtimeRequest r lookup (rs_usage s) else rs_usage s)
           in if ue_Failed e \<or> ue_TotalTokens e \<le> 0
              then Inr \<lparr>rs_buckets = (rs_buckets s)[nat index := b], rs_usage = u, rs_speed = speed\<rparr>
              else andThen (usageOverviewStoredEventCost e) (\<lambda>(cost, available).
                     Inr \<lparr>rs_buckets = (rs_buckets s)[nat index := count_tokens e cost available b],
                          rs_usage = (if visible then applyUsageOverviewRealtimeTokenUsage r cost available lookup u else u),
                          rs_speed = speed\<rparr>))"

fun realtime_events ::
    "identityLookup \<Rightarrow> bool \<Rightarrow> time \<Rightarrow> time \<Rightarrow> time \<Rightarrow> duration \<Rightarrow> realtimeEvent list \<Rightarrow> realtimeState \<Rightarrow> overviewQueryError + realtimeState" where
  "realtime_events lookup cacheOK readStart start stop bucketSpan [] s = Inr s"
| "realtime_events lookup cacheOK readStart start stop bucketSpan (r # rest) s =
     andThen (realtime_step lookup cacheOK readStart start stop bucketSpan r s)
       (realtime_events lookup cacheOK readStart start stop bucketSpan rest)"

definition no_usage :: currentUsage where
  "no_usage = \<lparr>cu_models = [], cu_apiKeys = [], cu_credentials = [], cu_aiProviders = []\<rparr>"

definition buildUsageOverviewRealtime ::
    "(topAccumulator list \<Rightarrow> topAccumulator list) \<Rightarrow> (modelSpeedSeries list \<Rightarrow> modelSpeedSeries list) \<Rightarrow> zone \<Rightarrow> usageEvent list
      \<Rightarrow> identityLookup \<Rightarrow> time \<Rightarrow> UsageQueryFilter \<Rightarrow> recentCache option \<Rightarrow> (overviewQueryError + realtimeOverview) option" where
  "buildUsageOverviewRealtime order speed_order zone table lookup now qf cache =
     (let (window, bucketSpan) = usageOverviewRealtimeWindow (uf_RealtimeWindow qf);
          warmup = usageOverviewRealtimeWarmupBucketCount
                     (usageOverviewRealtimeAggregationBucketCount bucketSpan (usageOverviewRealtimeAggregationWindow window));
          stop = (case uf_RealtimeEndTime qf of None \<Rightarrow> now | Some t \<Rightarrow> t);
          start = stop - window;
          readStart = start - warmup * bucketSpan;
          cached = loadUsageOverviewRealtimeEventsFromRecentCache cache qf readStart stop
      in Option.bind (case cached of Some es \<Rightarrow> Some es | None \<Rightarrow> loadUsageOverviewRealtimeEventsFromDB zone table qf readStart stop)
           (\<lambda>events. Some (andThen
              (realtime_events lookup (cached \<noteq> None) readStart start stop bucketSpan events
                 \<lparr>rs_buckets = newUsageOverviewRealtimeBuckets readStart bucketSpan (usageOverviewRealtimeBucketCount + warmup),
                  rs_usage = no_usage, rs_speed = newRealtimeModelSpeed start stop (cached \<noteq> None)\<rparr>)
              (\<lambda>s. Inr (finalizeUsageOverviewRealtime order window bucketSpan start stop (rs_buckets s) warmup (rs_usage s)
                 (speed_finalize speed_order (cu_models (rs_usage s)) (rs_speed s)))))))"

end
