(* ===== verification/Realtime_Exact.thy ===== *)
theory Realtime_Exact
  imports Realtime_Overview Overview_Exact
begin

text \<open>
  The realtime overview is exact: its buckets partition the window it reads, every point of its curves
  is the 64-bit sum over the events of its aggregation window, its summary covers the events of the
  visible window, its shares conserve tokens, and its scatter shows real requests.
\<close>

section \<open>The buckets partition the window\<close>

definition realtime_span :: "string \<Rightarrow> duration" where
  "realtime_span value = snd (usageOverviewRealtimeWindow value)"

definition realtime_warmup :: "string \<Rightarrow> int" where
  "realtime_warmup value =
     (let (window, bucketSpan) = usageOverviewRealtimeWindow value
      in usageOverviewRealtimeWarmupBucketCount
           (usageOverviewRealtimeAggregationBucketCount bucketSpan (usageOverviewRealtimeAggregationWindow window)))"

definition realtime_start :: "string \<Rightarrow> time \<Rightarrow> time" where
  "realtime_start value stop = stop - fst (usageOverviewRealtimeWindow value)"

definition realtime_read_start :: "string \<Rightarrow> time \<Rightarrow> time" where
  "realtime_read_start value stop = realtime_start value stop - realtime_warmup value * realtime_span value"

text \<open>Three windows, whose buckets fill them, and whose aggregation windows are whole buckets.\<close>

lemma realtime_windows:
  obtains "usageOverviewRealtimeWindow value = (15 * Minute, 30 * Second)" "realtime_warmup value = 5"
  | "usageOverviewRealtimeWindow value = (30 * Minute, Minute)" "realtime_warmup value = 4"
  | "usageOverviewRealtimeWindow value = (60 * Minute, 120 * Second)" "realtime_warmup value = 4"
  by (cases "usageOverviewRealtimeWindow value = (15 * Minute, 30 * Second)";
      cases "usageOverviewRealtimeWindow value = (30 * Minute, Minute)")
    (auto simp: realtime_warmup_def usageOverviewRealtimeWindow_def usageOverviewRealtimeAggregationWindow_def
      usageOverviewRealtimeAggregationBucketCount_def usageOverviewRealtimeWarmupBucketCount_def Let_def Minute_def Second_def
      split: if_splits)

lemma realtime_geometry:
  "0 < realtime_span value" "0 \<le> realtime_warmup value"
  "usageOverviewRealtimeAggregationBucketCount (realtime_span value) (usageOverviewRealtimeAggregationWindow (fst (usageOverviewRealtimeWindow value)))
     = realtime_warmup value + 1"
  "usageOverviewRealtimeAggregationWindow (fst (usageOverviewRealtimeWindow value)) = (realtime_warmup value + 1) * realtime_span value"
  "fst (usageOverviewRealtimeWindow value) = usageOverviewRealtimeBucketCount * realtime_span value"
  "(usageOverviewRealtimeBucketCount + realtime_warmup value) * realtime_span value \<le> MaxInt64"
  by (rule realtime_windows [of "value"]; simp add: realtime_span_def usageOverviewRealtimeAggregationWindow_def
      usageOverviewRealtimeAggregationBucketCount_def usageOverviewRealtimeBucketCount_def Minute_def Second_def MaxInt64_def)+

lemma realtime_starts:
  "realtime_start value stop = stop - usageOverviewRealtimeBucketCount * realtime_span value"
  "realtime_read_start value stop = stop - (usageOverviewRealtimeBucketCount + realtime_warmup value) * realtime_span value"
  by (simp_all add: realtime_start_def realtime_read_start_def realtime_geometry(5) algebra_simps)

lemma bucket_index:
  assumes "0 < bucketSpan" and "n * bucketSpan \<le> MaxInt64" and "start \<le> t" and "t < start + n * bucketSpan"
  shows "usageOverviewRealtimeBucketIndex t start bucketSpan n = (t - start) div bucketSpan"
    and "0 \<le> (t - start) div bucketSpan" and "(t - start) div bucketSpan < n"
proof -
  have "time_Sub t start = t - start" using assms by (simp add: time_Sub_def MinInt64_def)
  moreover show nonneg: "0 \<le> (t - start) div bucketSpan" using assms by (simp add: pos_imp_zdiv_nonneg_iff)
  moreover show "(t - start) div bucketSpan < n"
    using assms by (simp add: not_le [symmetric] int_le_div_iff)
  ultimately show "usageOverviewRealtimeBucketIndex t start bucketSpan n = (t - start) div bucketSpan"
    using assms(3) by (simp add: usageOverviewRealtimeBucketIndex_def Let_def)
qed

lemma bucket_interval:
  assumes "0 < (bucketSpan :: int)"
  shows "i \<le> (t - start) div bucketSpan \<longleftrightarrow> start + i * bucketSpan \<le> t"
    and "(t - start) div bucketSpan < i \<longleftrightarrow> t < start + i * bucketSpan"
proof -
  show "i \<le> (t - start) div bucketSpan \<longleftrightarrow> start + i * bucketSpan \<le> t"
    using assms by (simp add: int_le_div_iff algebra_simps) 
  then show "(t - start) div bucketSpan < i \<longleftrightarrow> t < start + i * bucketSpan" by linarith
qed

section \<open>The events of the window\<close>

text \<open>The events in scope: those the cache holds if it can be read, else those of the table.\<close>

definition cache_in_scope :: "UsageQueryFilter \<Rightarrow> RecentUsageEvent \<Rightarrow> bool" where
  "cache_in_scope qf e \<longleftrightarrow>
     (TrimSpace (uf_InstanceID qf) = '''' \<or> re_InstanceID e = TrimSpace (uf_InstanceID qf))
     \<and> (TrimSpace (uf_APIGroupKey qf) = '''' \<or> re_APIGroupKey e = TrimSpace (uf_APIGroupKey qf))
     \<and> \<not> usageAPIGroupKeyExcluded (re_APIGroupKey e) (uf_ExcludedAPIGroupKeys qf)
     \<and> \<not> usageProviderExcluded (re_Provider e) (uf_Providers qf) \<and> \<not> usageProviderExcluded (re_AuthIndex e) (uf_ProviderAuthIndexes qf)"

definition realtime_source :: "usageEvent list \<Rightarrow> UsageQueryFilter \<Rightarrow> recentCache option \<Rightarrow> usageEvent list" where
  "realtime_source table qf cache =
     (case cache of
        None \<Rightarrow> filter (event_in_scope qf) table
      | Some c \<Rightarrow> if rc_eventReadsValid c then map recentUsageEventToEntity (filter (cache_in_scope qf) (rc_events c))
                  else filter (event_in_scope qf) table)"

abbreviation during :: "time \<Rightarrow> time \<Rightarrow> usageEvent list \<Rightarrow> usageEvent list" where
  "during start stop es \<equiv> filter (\<lambda>e. start \<le> ue_Timestamp e \<and> ue_Timestamp e < stop) es"

lemma recent_event_timestamp [simp]: "ue_Timestamp (recentUsageEventToEntity e) = re_Timestamp e"
  by (simp add: recentUsageEventToEntity_def)

lemma realtime_cached_events:
  assumes "start < stop" and "rc_eventReadsValid c"
  obtains es where "loadUsageOverviewRealtimeEventsFromRecentCache (Some c) qf start stop = Some es"
    "map rt_event es = during start stop (map recentUsageEventToEntity (filter (cache_in_scope qf) (rc_events c)))"
proof
  let ?read = "filter (\<lambda>e. cache_in_scope qf e \<and> start \<le> re_Timestamp e \<and> re_Timestamp e < stop) (rc_events c)"
  let ?event = "\<lambda>e. \<lparr>rt_event = recentUsageEventToEntity e, rt_identityFallbackKind = re_IdentityFallbackKind e,
                       rt_identityFallbackLabel = re_IdentityFallbackLabel e\<rparr>"
  show "loadUsageOverviewRealtimeEventsFromRecentCache (Some c) qf start stop = Some (map ?event ?read)"
    using assms
    by (auto simp: loadUsageOverviewRealtimeEventsFromRecentCache_def EventsForInstance_def Let_def cache_in_scope_def
        intro!: arg_cong [of _ _ "map ?event"] filter_cong)
  show "map rt_event (map ?event ?read) = during start stop (map recentUsageEventToEntity (filter (cache_in_scope qf) (rc_events c)))"
    by (simp add: filter_map comp_def conj_commute)
qed

context segmented_zone
begin

lemma realtime_table_events:
  obtains es where "loadUsageOverviewRealtimeEventsFromDB zone table qf start stop = Some es"
    "mset (map rt_event es) = mset (during start stop (filter (event_in_scope qf) table))"
proof -
  obtain rows where rows: "loadUsageOverviewEventRange zone table qf start stop False = Some rows"
    "mset rows = mset (during start stop (filter (event_in_scope qf) table))"
    using event_range_exact [of table qf start stop False] by (auto simp: conj_commute)
  have same: "map rt_event (map (\<lambda>row. let (kind, label) = usageRecentIdentityFallback (ue_AuthType row) (ue_Source row) (ue_Provider row)
      in \<lparr>rt_event = row, rt_identityFallbackKind = kind, rt_identityFallbackLabel = label\<rparr>) rows) = rows"
    by (simp add: comp_def case_prod_unfold Let_def)
  show ?thesis
    by (rule that, unfold loadUsageOverviewRealtimeEventsFromDB_def rows(1) option.map, rule refl, unfold same, rule rows(2))
qed

end

section \<open>What an event does to its bucket\<close>

text \<open>Tokens are counted for a successful request that has any, if its cost is usable.\<close>

definition billed :: "usageEvent \<Rightarrow> bool" where
  "billed e \<longleftrightarrow> \<not> ue_Failed e \<and> 0 < ue_TotalTokens e"

definition payable :: "usageEvent \<Rightarrow> bool" where
  "payable e \<longleftrightarrow> (billed e \<longrightarrow> \<not> isl (usageOverviewStoredEventCost e))"

definition counted :: "time \<Rightarrow> realtimeBucket \<Rightarrow> usageEvent \<Rightarrow> realtimeBucket" where
  "counted start b e =
     (let b = count_request (\<not> ue_Timestamp e < start) e b
      in if billed e then case_prod (\<lambda>cost available. count_tokens e cost available b) (projr (usageOverviewStoredEventCost e)) else b)"

definition slot :: "time \<Rightarrow> duration \<Rightarrow> usageEvent \<Rightarrow> int" where
  "slot readStart bucketSpan e = (ue_Timestamp e - readStart) div bucketSpan"

lemma realtime_step_buckets:
  assumes "usageOverviewRealtimeBucketIndex (ue_Timestamp (rt_event r)) readStart bucketSpan (int (length (rs_buckets s))) = int i"
  shows "payable (rt_event r) \<Longrightarrow> \<exists>s'. realtime_step lookup ok readStart start stop bucketSpan r s = Inr s'
           \<and> rs_buckets s' = (rs_buckets s)[i := counted start (rs_buckets s ! i) (rt_event r)]"
    and "\<not> payable (rt_event r) \<Longrightarrow> isl (realtime_step lookup ok readStart start stop bucketSpan r s)"
  using assms
  by (cases "usageOverviewStoredEventCost (rt_event r)";
      auto simp: realtime_step_def Let_def payable_def billed_def counted_def split: prod.splits)+

lemma realtime_events_buckets:
  assumes "0 < bucketSpan" and "n = length (rs_buckets s)" and "int n * bucketSpan \<le> MaxInt64"
    and "\<forall>r\<in>set rs. readStart \<le> ue_Timestamp (rt_event r) \<and> ue_Timestamp (rt_event r) < readStart + int n * bucketSpan"
  shows "case realtime_events lookup ok readStart start stop bucketSpan rs s of
      Inl err \<Rightarrow> \<not> (\<forall>r\<in>set rs. payable (rt_event r))
    | Inr s' \<Rightarrow> (\<forall>r\<in>set rs. payable (rt_event r)) \<and> length (rs_buckets s') = n
        \<and> (\<forall>j<n. rs_buckets s' ! j = foldl (counted start) (rs_buckets s ! j)
                   (filter (\<lambda>e. slot readStart bucketSpan e = int j) (map rt_event rs)))"
  using assms(2,4)
proof (induction rs arbitrary: s)
  case Nil
  then show ?case by simp
next
  case (Cons r rs)
  let ?e = "rt_event r"
  define i where "i = nat (slot readStart bucketSpan ?e)"
  have index: "usageOverviewRealtimeBucketIndex (ue_Timestamp ?e) readStart bucketSpan (int (length (rs_buckets s))) = int i"
    and i: "i < n" "slot readStart bucketSpan ?e = int i"
    using bucket_index [OF assms(1,3), of readStart "ue_Timestamp ?e"] Cons.prems by (simp_all add: i_def slot_def)
  show ?case
  proof (cases "payable ?e")
    case False
    have "isl (realtime_step lookup ok readStart start stop bucketSpan r s)" by (rule realtime_step_buckets(2) [OF index False])
    with False show ?thesis by (cases "realtime_step lookup ok readStart start stop bucketSpan r s") auto
  next
    case True
    with realtime_step_buckets(1) [OF index] obtain s' where s':
      "realtime_step lookup ok readStart start stop bucketSpan r s = Inr s'"
      "rs_buckets s' = (rs_buckets s)[i := counted start (rs_buckets s ! i) ?e]" by blast
    from Cons.IH [of s'] Cons.prems s'(2) i True show ?thesis
      by (cases "realtime_events lookup ok readStart start stop bucketSpan rs s'")
        (auto simp: s' nth_list_update)
  qed
qed

section \<open>Counters of buckets\<close>

lemma slots_sum:
  assumes "a \<le> b"
  shows "(\<Sum>k\<leftarrow>[a..<b]. \<Sum>e\<leftarrow>filter (\<lambda>e. slot t sp e = int k) es. f e) =
     (\<Sum>e\<leftarrow>filter (\<lambda>e. int a \<le> slot t sp e \<and> slot t sp e < int b) es. f e :: int)"
  using assms
proof (induction b rule: dec_induct)
  case base
  have "filter (\<lambda>e. int a \<le> slot t sp e \<and> slot t sp e < int a) es = []" by (auto simp: filter_empty_conv)
  then show ?case by simp
next
  case (step b)
  have "(\<Sum>e\<leftarrow>filter (\<lambda>e. int a \<le> slot t sp e \<and> slot t sp e < int b) es. f e) + (\<Sum>e\<leftarrow>filter (\<lambda>e. slot t sp e = int b) es. f e) =
      (\<Sum>e\<leftarrow>filter (\<lambda>e. int a \<le> slot t sp e \<and> slot t sp e < int (Suc b)) es. f e)"
    using step.hyps(1) by (induction es) auto
  with step show ?case by simp
qed

lemma fold_counter:
  assumes "\<And>b e. is_int64 (get b) \<Longrightarrow> get (add b e) = wrap64 (get b + amount e)" and "is_int64 (get b)"
  shows "get (foldl add b es) = wrap64 (get b + (\<Sum>e\<leftarrow>es. amount e))"
  using assms(2) by (induction es arbitrary: b) (simp_all add: assms(1) wrap64_id add.assoc)

text \<open>
  A column of the buckets: \<open>rq\<close> is what a request adds to it and \<open>tk\<close> what its tokens add. A rolling
  column is also added up over an aggregation window, a summary column over the visible window.
\<close>

locale bucket_counter =
  fixes get :: "realtimeBucket \<Rightarrow> int" and rq tk :: "usageEvent \<Rightarrow> int"
  assumes fresh: "get (empty_bucket t) = 0"
    and request: "is_int64 (get b) \<Longrightarrow> get (count_request visible e b) = wrap64 (get b + rq e)"
    and tokens: "is_int64 (get b) \<Longrightarrow> get (count_tokens e cost available b) = wrap64 (get b + tk e)"
begin

definition amount :: "usageEvent list \<Rightarrow> int" where
  "amount es = (\<Sum>e\<leftarrow>es. rq e + (if billed e then tk e else 0))"

lemma counted_amount: "is_int64 (get b) \<Longrightarrow> get (counted start b e) = wrap64 (get b + (rq e + (if billed e then tk e else 0)))"
  by (simp add: counted_def Let_def request tokens add.assoc split: prod.split)

lemma bucket_amount: "get (foldl (counted start) (empty_bucket t) es) = wrap64 (amount es)"
  using fold_counter [of get "counted start", OF counted_amount, of "empty_bucket t" es] by (simp add: fresh amount_def is_int64_def int64_bounds)

end

locale rolling_counter = bucket_counter +
  assumes roll: "is_int64 (get a) \<Longrightarrow> get (add_bucket a b) = wrap64 (get a + get b)"
begin

lemma aggregate_amount:
  assumes "\<forall>j<n. get (buckets ! j) = wrap64 (amount (filter (\<lambda>e. slot t sp e = int j) es))"
    and "length buckets = n" and "j < n" and "int m \<le> int j + 1" and "0 < m"
  shows "get (aggregateUsageOverviewRealtimeBucket buckets (int j) (int m)) =
    wrap64 (amount (filter (\<lambda>e. int j + 1 - int m \<le> slot t sp e \<and> slot t sp e < int j + 1) es))"
proof -
  define i where "i = j + 1 - m"
  have i: "i < Suc j" "\<not> int j - int m + 1 < 0" "nat (int j - int m + 1) = i" "int j + 1 - int m = int i" using assms(4,5) by (auto simp: i_def)
  have "get (aggregateUsageOverviewRealtimeBucket buckets (int j) (int m)) =
      get (foldl add_bucket (empty_bucket (rb_bucketStart (buckets ! j))) (map (\<lambda>k. buckets ! k) [i..<Suc j]))"
    using assms(2,3) by (simp add: aggregateUsageOverviewRealtimeBucket_def Let_def i(2,3) del: upt_Suc)
  also have "\<dots> = wrap64 (\<Sum>b\<leftarrow>map (\<lambda>k. buckets ! k) [i..<Suc j]. get b)"
    using fold_counter [of get add_bucket get, OF roll] by (simp add: fresh is_int64_def int64_bounds del: upt_Suc)
  also have "(\<Sum>b\<leftarrow>map (\<lambda>k. buckets ! k) [i..<Suc j]. get b) = (\<Sum>k\<leftarrow>[i..<Suc j]. wrap64 (amount (filter (\<lambda>e. slot t sp e = int k) es)))"
    using assms(1,3) by (auto simp: comp_def simp del: upt_Suc intro!: arg_cong [of _ _ sum_list] map_cong)
  also have "wrap64 \<dots> = wrap64 (amount (filter (\<lambda>e. int i \<le> slot t sp e \<and> slot t sp e < int (Suc j)) es))"
    using wrap64_sum [of 0 "\<lambda>k. amount (filter (\<lambda>e. slot t sp e = int k) es)" "[i..<Suc j]"] i(1)
    by (simp add: amount_def slots_sum del: upt_Suc)
  moreover have "int (Suc j) = int j + 1" by simp
  ultimately show ?thesis unfolding i(4) by (simp only:)
qed

end

locale summary_counter = bucket_counter +
  fixes sum_of :: "windowSummary \<Rightarrow> int"
  assumes none: "sum_of (in_Summary (buildRealtimeInsights [])) = 0"
    and summed: "sum_of (add_summary s b) = wrap64 (sum_of s + get b)"
begin

lemma summary_amount:
  assumes "\<forall>j<n. get (buckets ! j) = wrap64 (amount (filter (\<lambda>e. slot t sp e = int j) es))"
    and "length buckets = n" and "m \<le> n"
  shows "sum_of (in_Summary (buildRealtimeInsights (drop m buckets))) =
    wrap64 (amount (filter (\<lambda>e. int m \<le> slot t sp e \<and> slot t sp e < int n) es))"
proof -
  have "sum_of (in_Summary (buildRealtimeInsights (drop m buckets))) = wrap64 (\<Sum>b\<leftarrow>drop m buckets. get b)"
    using fold_counter [of sum_of add_summary get, OF summed] none
    by (simp add: buildRealtimeInsights_def is_int64_def int64_bounds)
  also have "(\<Sum>b\<leftarrow>drop m buckets. get b) = (\<Sum>k\<leftarrow>[m..<n]. get (buckets ! k))"
    by (rule arg_cong [of _ _ sum_list]) (use assms(2,3) in \<open>auto intro: nth_equalityI\<close>)
  also have "(\<Sum>k\<leftarrow>[m..<n]. get (buckets ! k)) = (\<Sum>k\<leftarrow>[m..<n]. wrap64 (amount (filter (\<lambda>e. slot t sp e = int k) es)))"
    using assms(1) by (auto simp: comp_def intro!: arg_cong [of _ _ sum_list] map_cong)
  also have "wrap64 \<dots> = wrap64 (amount (filter (\<lambda>e. int m \<le> slot t sp e \<and> slot t sp e < int n) es))"
    using wrap64_sum [of 0 "\<lambda>k. amount (filter (\<lambda>e. slot t sp e = int k) es)" "[m..<n]"] assms(3)
    by (simp add: amount_def slots_sum)
  finally show ?thesis .
qed

end

lemmas bucket_columns = empty_bucket_def count_request_def count_tokens_def add_bucket_def add_summary_def buildRealtimeInsights_def Let_def wrap64_id

interpretation requests_column: rolling_counter rb_requests "\<lambda>e. 1" "\<lambda>e. 0"
  by unfold_locales (auto simp: bucket_columns split: option.split)

interpretation tokens_column: rolling_counter rb_tokens "\<lambda>e. 0" ue_TotalTokens
  by unfold_locales (auto simp: bucket_columns split: option.split)

interpretation input_column: rolling_counter rb_inputTokens "\<lambda>e. 0" ue_InputTokens
  by unfold_locales (auto simp: bucket_columns split: option.split)

interpretation cache_read_column: rolling_counter rb_cacheReadTokens "\<lambda>e. 0" ue_CacheReadTokens
  by unfold_locales (auto simp: bucket_columns split: option.split)

interpretation cache_creation_column: rolling_counter rb_cacheCreationTokens "\<lambda>e. 0" ue_CacheCreationTokens
  by unfold_locales (auto simp: bucket_columns split: option.split)

interpretation requests_total: summary_counter rb_requests "\<lambda>e. 1" "\<lambda>e. 0" ws_Requests
  by unfold_locales (auto simp: bucket_columns split: option.split)

interpretation failures_total: summary_counter rb_failures "\<lambda>e. if ue_Failed e then 1 else 0" "\<lambda>e. 0" ws_Failures
  by unfold_locales (auto simp: bucket_columns split: option.split)

interpretation token_requests_total: summary_counter rb_tokenRequests "\<lambda>e. 0" "\<lambda>e. 1" ws_TokenRequests
  by unfold_locales (auto simp: bucket_columns split: option.split)

interpretation cached_requests_total: summary_counter rb_cachedRequests "\<lambda>e. 0" "\<lambda>e. if 0 < ue_CacheReadTokens e then 1 else 0" ws_CachedRequests
  by unfold_locales (auto simp: bucket_columns split: option.split)

interpretation tokens_total: summary_counter rb_tokens "\<lambda>e. 0" ue_TotalTokens ws_TotalTokens
  by unfold_locales (auto simp: bucket_columns split: option.split)

interpretation output_total: summary_counter rb_outputTokens "\<lambda>e. 0" ue_OutputTokens ws_OutputTokens
  by unfold_locales (auto simp: bucket_columns split: option.split)

interpretation reasoning_total: summary_counter rb_reasoningTokens "\<lambda>e. 0" ue_ReasoningTokens ws_ReasoningTokens
  by unfold_locales (auto simp: bucket_columns split: option.split)

lemma bucket_start_kept: "rb_bucketStart (foldl (counted start) b es) = rb_bucketStart b"
proof (induction es arbitrary: b)
  case (Cons e es)
  have "rb_bucketStart (counted start b e) = rb_bucketStart b"
    by (auto simp: counted_def count_request_def count_tokens_def Let_def split: option.split prod.split)
  with Cons show ?case by simp
qed simp

lemma aggregate_start:
  assumes "j < length buckets"
  shows "rb_bucketStart (aggregateUsageOverviewRealtimeBucket buckets (int j) m) = rb_bucketStart (buckets ! j)"
proof -
  have "rb_bucketStart (foldl add_bucket a bs) = rb_bucketStart a" for a bs
    by (induction bs arbitrary: a) (simp_all add: add_bucket_def)
  with assms show ?thesis by (simp add: aggregateUsageOverviewRealtimeBucket_def Let_def empty_bucket_def del: upt_Suc)
qed


section \<open>The build\<close>

definition realtime_end :: "time \<Rightarrow> UsageQueryFilter \<Rightarrow> time" where
  "realtime_end now qf = (case uf_RealtimeEndTime qf of None \<Rightarrow> now | Some t \<Rightarrow> t)"

text \<open>The buckets after the events of a window: each holds those of its slot.\<close>

definition filled :: "string \<Rightarrow> time \<Rightarrow> usageEvent list \<Rightarrow> realtimeBucket list \<Rightarrow> bool" where
  "filled value stop es buckets \<longleftrightarrow>
     int (length buckets) = usageOverviewRealtimeBucketCount + realtime_warmup value
     \<and> (\<forall>j<length buckets. buckets ! j =
          foldl (counted (realtime_start value stop)) (empty_bucket (realtime_read_start value stop + int j * realtime_span value))
            (filter (\<lambda>e. slot (realtime_read_start value stop) (realtime_span value) e = int j) es))"

definition answer ::
    "(topAccumulator list \<Rightarrow> topAccumulator list) \<Rightarrow> string \<Rightarrow> time \<Rightarrow> realtimeBucket list \<Rightarrow> currentUsage \<Rightarrow> modelSpeed \<Rightarrow> realtimeOverview" where
  "answer order value stop buckets u speed =
     finalizeUsageOverviewRealtime order (fst (usageOverviewRealtimeWindow value)) (realtime_span value) (realtime_start value stop) stop
       buckets (realtime_warmup value) u speed"

lemma realtime_filled:
  assumes "\<forall>r\<in>set rs. realtime_read_start value stop \<le> ue_Timestamp (rt_event r) \<and> ue_Timestamp (rt_event r) < stop"
    and "rs_buckets s = newUsageOverviewRealtimeBuckets (realtime_read_start value stop) (realtime_span value)
                          (usageOverviewRealtimeBucketCount + realtime_warmup value)"
  shows "case realtime_events lookup ok (realtime_read_start value stop) (realtime_start value stop) stop (realtime_span value) rs s of
      Inl err \<Rightarrow> \<not> (\<forall>r\<in>set rs. payable (rt_event r))
    | Inr s' \<Rightarrow> (\<forall>r\<in>set rs. payable (rt_event r)) \<and> filled value stop (map rt_event rs) (rs_buckets s')"
proof -
  have "0 \<le> usageOverviewRealtimeBucketCount + realtime_warmup value"
    using realtime_geometry(2) [of "value"] by (simp add: usageOverviewRealtimeBucketCount_def)
  then obtain n where n: "int n = usageOverviewRealtimeBucketCount + realtime_warmup value" by (metis nonneg_int_cases)
  have range: "realtime_read_start value stop + int n * realtime_span value = stop" unfolding n by (simp add: realtime_starts)
  have buckets: "rs_buckets s = newUsageOverviewRealtimeBuckets (realtime_read_start value stop) (realtime_span value) (int n)"
    using assms(2) by (simp only: n)
  have "\<forall>j<n. rs_buckets s ! j = empty_bucket (realtime_read_start value stop + int j * realtime_span value)" "n = length (rs_buckets s)"
    unfolding buckets by (simp_all add: newUsageOverviewRealtimeBuckets_def)
  moreover have "int n * realtime_span value \<le> MaxInt64" unfolding n by (rule realtime_geometry(6))
  note realtime_events_buckets [OF realtime_geometry(1) calculation(2) this, where readStart = "realtime_read_start value stop",
      unfolded range, OF assms(1), where start = "realtime_start value stop" and stop = stop and lookup = lookup and ok = ok]
  ultimately show ?thesis unfolding filled_def n [symmetric] by (auto split: sum.splits)
qed

lemma realtime_build_steps:
  "buildUsageOverviewRealtime order speed_order zone table lookup now qf cache =
     (let value = uf_RealtimeWindow qf; stop = realtime_end now qf;
          start = realtime_start value stop; readStart = realtime_read_start value stop;
          cached = loadUsageOverviewRealtimeEventsFromRecentCache cache qf readStart stop
      in Option.bind (case cached of Some es \<Rightarrow> Some es | None \<Rightarrow> loadUsageOverviewRealtimeEventsFromDB zone table qf readStart stop)
           (\<lambda>events. Some (andThen
              (realtime_events lookup (cached \<noteq> None) readStart start stop (realtime_span value) events
                 \<lparr>rs_buckets = newUsageOverviewRealtimeBuckets readStart (realtime_span value) (usageOverviewRealtimeBucketCount + realtime_warmup value),
                  rs_usage = no_usage, rs_speed = newRealtimeModelSpeed start stop (cached \<noteq> None)\<rparr>)
              (\<lambda>s. Inr (answer order value stop (rs_buckets s) (rs_usage s)
                 (speed_finalize speed_order (cu_models (rs_usage s)) (rs_speed s)))))))"
  unfolding buildUsageOverviewRealtime_def realtime_end_def realtime_start_def realtime_read_start_def realtime_span_def realtime_warmup_def
    answer_def case_prod_unfold Let_def by (rule refl)

context segmented_zone
begin

text \<open>The events in scope of the window, in the order the build takes them, and what it makes of them.\<close>

lemma realtime_built:
  obtains es where "mset es = mset (during (realtime_read_start (uf_RealtimeWindow qf) (realtime_end now qf)) (realtime_end now qf)
                                      (realtime_source table qf cache))"
    and "\<exists>r. buildUsageOverviewRealtime order speed_order zone table lookup now qf cache = Some r
      \<and> (case r of
           Inl err \<Rightarrow> \<not> (\<forall>e\<in>set es. payable e)
         | Inr ro \<Rightarrow> (\<forall>e\<in>set es. payable e) \<and> (\<exists>buckets u speed. filled (uf_RealtimeWindow qf) (realtime_end now qf) es buckets
             \<and> ro = answer order (uf_RealtimeWindow qf) (realtime_end now qf) buckets u speed))"
proof -
  let ?choice = "uf_RealtimeWindow qf" and ?stop = "realtime_end now qf"
  let ?start = "realtime_start ?choice ?stop" and ?read = "realtime_read_start ?choice ?stop"
  let ?cached = "loadUsageOverviewRealtimeEventsFromRecentCache cache qf ?read ?stop"
  obtain rs where rs: "(case ?cached of Some es \<Rightarrow> Some es | None \<Rightarrow> loadUsageOverviewRealtimeEventsFromDB zone table qf ?read ?stop) = Some rs"
    "mset (map rt_event rs) = mset (during ?read ?stop (realtime_source table qf cache))"
  proof (cases "\<exists>c. cache = Some c \<and> rc_eventReadsValid c")
    case True
    then obtain c where c: "cache = Some c" "rc_eventReadsValid c" by blast
    have "?read < ?stop" using realtime_geometry(1,2) [of ?choice]
      by (simp add: realtime_starts usageOverviewRealtimeBucketCount_def add_pos_nonneg mult_pos_pos)
    then obtain rs where "?cached = Some rs"
        "map rt_event rs = during ?read ?stop (map recentUsageEventToEntity (filter (cache_in_scope qf) (rc_events c)))"
      unfolding c(1) by (rule realtime_cached_events [OF _ c(2)])
    with c show ?thesis by (intro that [of rs]) (simp_all only: realtime_source_def option.case if_True)
  next
    case False
    then have "?cached = None" "realtime_source table qf cache = filter (event_in_scope qf) table"
      by (auto simp: loadUsageOverviewRealtimeEventsFromRecentCache_def EventsForInstance_def realtime_source_def split: option.split)
    moreover obtain rs where "loadUsageOverviewRealtimeEventsFromDB zone table qf ?read ?stop = Some rs"
        "mset (map rt_event rs) = mset (during ?read ?stop (filter (event_in_scope qf) table))"
      by (rule realtime_table_events)
    ultimately show ?thesis by (intro that [of rs]) (simp_all only: option.case)
  qed
  define s where "s = \<lparr>rs_buckets = newUsageOverviewRealtimeBuckets ?read (realtime_span ?choice)
      (usageOverviewRealtimeBucketCount + realtime_warmup ?choice), rs_usage = no_usage, rs_speed = newRealtimeModelSpeed ?start ?stop (?cached \<noteq> None)\<rparr>"
  have "buildUsageOverviewRealtime order speed_order zone table lookup now qf cache =
      Some (andThen (realtime_events lookup (?cached \<noteq> None) ?read ?start ?stop (realtime_span ?choice) rs s)
        (\<lambda>s. Inr (answer order ?choice ?stop (rs_buckets s) (rs_usage s) (speed_finalize speed_order (cu_models (rs_usage s)) (rs_speed s)))))"
    unfolding realtime_build_steps Let_def rs(1) s_def by simp
  moreover have "\<forall>r\<in>set rs. ?read \<le> ue_Timestamp (rt_event r) \<and> ue_Timestamp (rt_event r) < ?stop"
    using mset_eq_setD [OF rs(2)] by auto
  from realtime_filled [OF this, of s lookup "?cached \<noteq> None"] have "case realtime_events lookup (?cached \<noteq> None) ?read ?start ?stop
      (realtime_span ?choice) rs s of
        Inl err \<Rightarrow> \<not> (\<forall>r\<in>set rs. payable (rt_event r))
      | Inr s' \<Rightarrow> (\<forall>r\<in>set rs. payable (rt_event r)) \<and> filled ?choice ?stop (map rt_event rs) (rs_buckets s')"
    by (simp add: s_def)
  ultimately show ?thesis using rs(2)
    by (intro that [of "map rt_event rs"]) (auto simp: s_def split: sum.splits)
qed

end

lemma slot_during:
  assumes "realtime_start value stop + (i - realtime_warmup value) * realtime_span value = lower"
    and "realtime_start value stop + (j - realtime_warmup value) * realtime_span value = upper"
  shows "filter (\<lambda>e. i \<le> slot (realtime_read_start value stop) (realtime_span value) e
                   \<and> slot (realtime_read_start value stop) (realtime_span value) e < j) es = during lower upper es"
  using bucket_interval [OF realtime_geometry(1) [of "value"], where start = "realtime_read_start value stop"] assms
  by (intro filter_cong) (simp_all add: slot_def realtime_read_start_def algebra_simps)

lemma filled_cell:
  assumes "filled value stop es buckets" and "j < length buckets"
  shows "buckets ! j = foldl (counted (realtime_start value stop)) (empty_bucket (realtime_read_start value stop + int j * realtime_span value))
           (filter (\<lambda>e. slot (realtime_read_start value stop) (realtime_span value) e = int j) es)"
  using assms by (simp add: filled_def)

lemma filled_size:
  assumes "filled value stop es buckets"
  obtains w where "realtime_warmup value = int w" and "length buckets = w + 30"
proof -
  obtain w where "realtime_warmup value = int w" using realtime_geometry(2) by (rule nonneg_int_cases)
  moreover from this have "int (length buckets) = int (w + 30)" using assms by (simp add: filled_def usageOverviewRealtimeBucketCount_def)
  then have "length buckets = w + 30" by (simp only: of_nat_eq_iff)
  ultimately show ?thesis by (rule that)
qed

text \<open>The time that bucket \<open>k\<close> of the visible window begins at, and the events of a window of \<open>m\<close> buckets that ends with it.\<close>

abbreviation tick :: "string \<Rightarrow> time \<Rightarrow> int \<Rightarrow> time" where
  "tick value stop k \<equiv> realtime_start value stop + k * realtime_span value"

context bucket_counter
begin

lemma filled_amount:
  assumes "filled value stop es buckets"
  shows "\<forall>j<length buckets. get (buckets ! j) =
    wrap64 (amount (filter (\<lambda>e. slot (realtime_read_start value stop) (realtime_span value) e = int j) es))"
  using filled_cell [OF assms] by (simp add: bucket_amount)

lemma outcome_amount:
  assumes "filled value stop es buckets" and "length buckets = w + 30" and "realtime_warmup value = int w" and "k < 30"
  shows "get (buckets ! (w + k)) = wrap64 (amount (during (tick value stop (int k)) (tick value stop (int k + 1)) es))"
proof -
  have "get (buckets ! (w + k)) = wrap64 (amount (filter (\<lambda>e. slot (realtime_read_start value stop) (realtime_span value) e = int (w + k)) es))"
    using filled_amount [OF assms(1)] assms(2,4) by simp
  also have "filter (\<lambda>e. slot (realtime_read_start value stop) (realtime_span value) e = int (w + k)) es =
      filter (\<lambda>e. int (w + k) \<le> slot (realtime_read_start value stop) (realtime_span value) e
                 \<and> slot (realtime_read_start value stop) (realtime_span value) e < int (w + k) + 1) es"
    by (intro filter_cong) auto
  also have "\<dots> = during (tick value stop (int k)) (tick value stop (int k + 1)) es"
    by (rule slot_during) (simp_all add: assms(3))
  finally show ?thesis .
qed

end

context rolling_counter
begin

lemma curve_amount:
  assumes "filled value stop es buckets" and "length buckets = w + 30" and "realtime_warmup value = int w" and "k < 30"
  shows "get (aggregateUsageOverviewRealtimeBucket buckets (int (w + k)) (int (w + 1))) =
    wrap64 (amount (during (tick value stop (int k - int w)) (tick value stop (int k + 1)) es))"
  using aggregate_amount [OF filled_amount [OF assms(1)] refl, of "w + k" "w + 1"]
    slot_during [of "value" stop "int k" _ "int (w + k) + 1" _ es, OF refl refl] assms(2-4) by simp

end

context summary_counter
begin

lemma window_amount:
  assumes "filled value stop es buckets" and "length buckets = w + 30" and "realtime_warmup value = int w"
  shows "sum_of (in_Summary (buildRealtimeInsights (drop w buckets))) = wrap64 (amount (during (realtime_start value stop) stop es))"
  using summary_amount [OF filled_amount [OF assms(1)] refl, of w]
    slot_during [of "value" stop "int w" _ "int (w + 30)" _ es, OF refl refl] assms(2,3)
  by (simp add: realtime_starts usageOverviewRealtimeBucketCount_def)

end

lemma during_during:
  assumes "start \<le> lower" and "upper \<le> stop"
  shows "during lower upper (during start stop es) = during lower upper es"
  using assms by (auto intro: filter_cong)

lemma mset_during: "mset es = mset es' \<Longrightarrow> mset (during lower upper es) = mset (during lower upper es')"
  by (simp add: mset_filter)

lemma billed_sum: "(\<Sum>e\<leftarrow>es. if billed e then f e else 0 :: int) = (\<Sum>e\<leftarrow>filter billed es. f e)"
  by (induction es) simp_all

text \<open>The columns of the curves and of the summary over a list of events.\<close>

definition curve_point :: "realtimeOverview \<Rightarrow> nat \<Rightarrow> time \<times> int list" where
  "curve_point ro k =
     (vp_Bucket (ro_TokenVelocity ro ! k),
      [qp_Requests (ro_RequestLevel ro ! k), vp_Tokens (ro_TokenVelocity ro ! k), cp_InputTokens (ro_CacheLevel ro ! k),
       cp_CacheReadTokens (ro_CacheLevel ro ! k), cp_CacheCreationTokens (ro_CacheLevel ro ! k)])"

definition curve_sums :: "usageEvent list \<Rightarrow> int list" where
  "curve_sums es = map wrap64
     [int (length es), (\<Sum>e\<leftarrow>filter billed es. ue_TotalTokens e), (\<Sum>e\<leftarrow>filter billed es. ue_InputTokens e),
      (\<Sum>e\<leftarrow>filter billed es. ue_CacheReadTokens e), (\<Sum>e\<leftarrow>filter billed es. ue_CacheCreationTokens e)]"

definition summary_columns :: "windowSummary \<Rightarrow> int list" where
  "summary_columns s = [ws_Requests s, ws_Failures s, ws_TokenRequests s, ws_CachedRequests s, ws_TotalTokens s, ws_OutputTokens s, ws_ReasoningTokens s]"

definition summary_sums :: "usageEvent list \<Rightarrow> int list" where
  "summary_sums es = map wrap64
     [int (length es), int (length (filter ue_Failed es)), int (length (filter billed es)),
      int (length (filter (\<lambda>e. billed e \<and> 0 < ue_CacheReadTokens e) es)), (\<Sum>e\<leftarrow>filter billed es. ue_TotalTokens e),
      (\<Sum>e\<leftarrow>filter billed es. ue_OutputTokens e), (\<Sum>e\<leftarrow>filter billed es. ue_ReasoningTokens e)]"

lemma nth_curve: "k < 30 \<Longrightarrow> map f [a..29 + a] ! k = f (a + int k)"
  by simp

lemma start_of_cell:
  assumes "filled value stop es buckets" and "length buckets = w + 30" and "realtime_warmup value = int w" and "k < 30"
  shows "rb_bucketStart (buckets ! (w + k)) = tick value stop (int k)"
proof -
  have "realtime_read_start value stop + int (w + k) * realtime_span value = tick value stop (int k)"
    by (simp add: realtime_read_start_def assms(3) algebra_simps)
  with filled_cell [OF assms(1), of "w + k"] assms(2,4) show ?thesis
    by (simp only: bucket_start_kept add_less_cancel_left) (simp add: empty_bucket_def)
qed

lemma answer_rolling:
  assumes "length buckets = w + 30" and "realtime_warmup value = int w" and "k < 30"
    and "b = aggregateUsageOverviewRealtimeBucket buckets (int (w + k)) (int (w + 1))"
  shows "curve_point (answer order value stop buckets u speed) k =
    (rb_bucketStart b, [rb_requests b, rb_tokens b, rb_inputTokens b, rb_cacheReadTokens b, rb_cacheCreationTokens b])"
proof -
  have "usageOverviewRealtimeAggregationBucketCount (realtime_span value)
      (usageOverviewRealtimeAggregationWindow (fst (usageOverviewRealtimeWindow value))) = int (w + 1)"
    by (simp add: realtime_geometry(3) assms(2))
  then show ?thesis
    by (simp add: curve_point_def answer_def finalizeUsageOverviewRealtime_def Let_def assms(1,2,4) comp_def nth_curve [OF assms(3)] del: nth_map)
qed

lemma answer_curves:
  assumes "filled value stop es buckets" and "k < 30"
  shows "curve_point (answer order value stop buckets u speed) k =
    (tick value stop (int k), curve_sums (during (tick value stop (int k - realtime_warmup value)) (tick value stop (int k + 1)) es))"
proof -
  obtain w where w: "realtime_warmup value = int w" "length buckets = w + 30" by (rule filled_size [OF assms(1)])
  note at = assms(1) w(2,1) assms(2)
  have "rb_bucketStart (aggregateUsageOverviewRealtimeBucket buckets (int (w + k)) (int (w + 1))) = tick value stop (int k)"
    using start_of_cell [OF at] assms(2) w(2) by (simp add: aggregate_start del: of_nat_add)
  then show ?thesis
    unfolding answer_rolling [OF w(2,1) assms(2) refl] requests_column.curve_amount [OF at] tokens_column.curve_amount [OF at]
      input_column.curve_amount [OF at] cache_read_column.curve_amount [OF at] cache_creation_column.curve_amount [OF at]
    by (simp add: curve_sums_def w(1) sum_list_triv billed_sum requests_column.amount_def tokens_column.amount_def
        input_column.amount_def cache_read_column.amount_def cache_creation_column.amount_def)
qed

lemma counted_lengths:
  "(\<Sum>e\<leftarrow>es. if billed e then 1 else 0) = int (length (filter billed es))"
  "(\<Sum>e\<leftarrow>es. if ue_Failed e then 1 else 0) = int (length (filter ue_Failed es))"
  "(\<Sum>e\<leftarrow>es. if 0 < ue_CacheReadTokens e then 1 else 0) = int (length (filter (\<lambda>e. 0 < ue_CacheReadTokens e) es))"
  by (induction es) simp_all

lemma answer_summary:
  assumes "filled value stop es buckets"
  shows "summary_columns (in_Summary (ro_Insights (answer order value stop buckets u speed))) =
    summary_sums (during (realtime_start value stop) stop es)"
proof -
  obtain w where w: "realtime_warmup value = int w" "length buckets = w + 30" by (rule filled_size [OF assms(1)])
  note at = assms(1) w(2,1)
  have "ro_Insights (answer order value stop buckets u speed) = buildRealtimeInsights (drop w buckets)"
    by (simp add: answer_def finalizeUsageOverviewRealtime_def Let_def w)
  then show ?thesis
    by (simp add: summary_columns_def requests_total.window_amount [OF at] failures_total.window_amount [OF at]
        token_requests_total.window_amount [OF at] cached_requests_total.window_amount [OF at] tokens_total.window_amount [OF at]
        output_total.window_amount [OF at] reasoning_total.window_amount [OF at])
      (simp add: summary_sums_def sum_list_triv billed_sum counted_lengths requests_column.amount_def failures_total.amount_def
        token_requests_total.amount_def cached_requests_total.amount_def tokens_column.amount_def output_total.amount_def
        reasoning_total.amount_def)
qed

lemma answer_outcomes:
  assumes "filled value stop es buckets" and "k < 30"
  shows "in_Outcomes (ro_Insights (answer order value stop buckets u speed)) ! k =
    (let there = during (tick value stop (int k)) (tick value stop (int k + 1)) es
     in \<lparr>op_Bucket = tick value stop (int k), op_Requests = wrap64 (int (length there)), op_Failures = wrap64 (int (length (filter ue_Failed there)))\<rparr>)"
proof -
  obtain w where w: "realtime_warmup value = int w" "length buckets = w + 30" by (rule filled_size [OF assms(1)])
  note at = assms(1) w(2,1) assms(2)
  have "in_Outcomes (ro_Insights (answer order value stop buckets u speed)) ! k =
      \<lparr>op_Bucket = rb_bucketStart (buckets ! (w + k)), op_Requests = rb_requests (buckets ! (w + k)), op_Failures = rb_failures (buckets ! (w + k))\<rparr>"
    using assms(2) w by (simp add: answer_def finalizeUsageOverviewRealtime_def buildRealtimeInsights_def Let_def)
  then show ?thesis unfolding start_of_cell [OF at]
    by (simp add: Let_def requests_column.outcome_amount [OF at] failures_total.outcome_amount [OF at])
      (simp add: requests_column.amount_def failures_total.amount_def sum_list_triv counted_lengths)
qed

section \<open>The properties\<close>

lemma sums_mset:
  assumes "mset es = mset es'"
  shows "curve_sums es = curve_sums es'" and "summary_sums es = summary_sums es'"
proof -
  have filters: "mset (filter P es) = mset (filter P es')" for P using assms by simp
  have "length (filter P es) = length (filter P es')" "(\<Sum>e\<leftarrow>filter P es. f e) = (\<Sum>e\<leftarrow>filter P es'. f e)" for P and f :: "usageEvent \<Rightarrow> int"
    using mset_eq_length [OF filters] sum_list_mset_eq [OF filters] by auto
  moreover have "length es = length es'" using assms by (rule mset_eq_length)
  ultimately show "curve_sums es = curve_sums es'" "summary_sums es = summary_sums es'"
    by (simp_all only: curve_sums_def summary_sums_def)
qed

lemma payable_backfilled: "payable e \<longleftrightarrow> (billed e \<longrightarrow> backfilled e)"
  by (auto simp: payable_def backfilled_def usageOverviewStoredEventCost_def split: option.split float64.split)

lemma realtime_within:
  assumes "k < 30"
  shows "realtime_read_start value stop \<le> tick value stop (int k + 1) - usageOverviewRealtimeAggregationWindow (fst (usageOverviewRealtimeWindow value))"
    and "tick value stop (int k + 1) \<le> stop"
    and "tick value stop (int k - realtime_warmup value) =
      tick value stop (int k + 1) - usageOverviewRealtimeAggregationWindow (fst (usageOverviewRealtimeWindow value))"
proof -
  have pos: "0 < realtime_span value" by (rule realtime_geometry)
  have "(int k + 1) * realtime_span value \<le> 30 * realtime_span value" using assms pos by (intro mult_right_mono) simp_all
  then show "tick value stop (int k + 1) \<le> stop" by (simp add: realtime_starts usageOverviewRealtimeBucketCount_def)
  show eq: "tick value stop (int k - realtime_warmup value) =
      tick value stop (int k + 1) - usageOverviewRealtimeAggregationWindow (fst (usageOverviewRealtimeWindow value))"
    unfolding realtime_geometry(4) by (simp add: algebra_simps)
  have "0 \<le> int k * realtime_span value" using pos by simp
  then show "realtime_read_start value stop \<le> tick value stop (int k + 1) - usageOverviewRealtimeAggregationWindow (fst (usageOverviewRealtimeWindow value))"
    unfolding eq [symmetric] realtime_read_start_def by (simp add: algebra_simps)
qed

lemma realtime_answer:
  assumes "segments_true zone"
  obtains es r where "mset es = mset (during (realtime_read_start (uf_RealtimeWindow qf) (realtime_end now qf)) (realtime_end now qf)
                                      (realtime_source table qf cache))"
    and "buildUsageOverviewRealtime order speed_order zone table lookup now qf cache = Some r"
    and "isl r \<longleftrightarrow> \<not> (\<forall>e\<in>set es. payable e)"
    and "\<forall>ro. r = Inr ro \<longrightarrow> (\<exists>buckets u speed. filled (uf_RealtimeWindow qf) (realtime_end now qf) es buckets
             \<and> ro = answer order (uf_RealtimeWindow qf) (realtime_end now qf) buckets u speed)"
proof -
  have "segmented_zone zone" using assms by unfold_locales
  then obtain es where es: "mset es = mset (during (realtime_read_start (uf_RealtimeWindow qf) (realtime_end now qf)) (realtime_end now qf)
                                      (realtime_source table qf cache))"
    and "\<exists>r. buildUsageOverviewRealtime order speed_order zone table lookup now qf cache = Some r
      \<and> (case r of
           Inl err \<Rightarrow> \<not> (\<forall>e\<in>set es. payable e)
         | Inr ro \<Rightarrow> (\<forall>e\<in>set es. payable e) \<and> (\<exists>buckets u speed. filled (uf_RealtimeWindow qf) (realtime_end now qf) es buckets
             \<and> ro = answer order (uf_RealtimeWindow qf) (realtime_end now qf) buckets u speed))"
    by (rule segmented_zone.realtime_built)
  then obtain r where r: "buildUsageOverviewRealtime order speed_order zone table lookup now qf cache = Some r"
    "case r of
           Inl err \<Rightarrow> \<not> (\<forall>e\<in>set es. payable e)
         | Inr ro \<Rightarrow> (\<forall>e\<in>set es. payable e) \<and> (\<exists>buckets u speed. filled (uf_RealtimeWindow qf) (realtime_end now qf) es buckets
             \<and> ro = answer order (uf_RealtimeWindow qf) (realtime_end now qf) buckets u speed)" by (elim exE conjE)
  show ?thesis by (rule that [OF es r(1)]; cases r; use r(2) in simp)
qed

text \<open>
  Five events around a realtime window of a quarter of an hour that ends an hour after the epoch: the
  first is before the read, the second only before the window, the last at its end.
\<close>

definition realtime_table :: "usageEvent list" where
  "realtime_table = map query_event [2500, 2600, 2710, 3599, 3600]"

definition no_identity :: identityLookup where
  "no_identity = (\<lambda>_ _. None)"

lemma realtime_example:
  "uf_RealtimeWindow query_filter = ''''" "realtime_end (3600 * Second) query_filter = 3600 * Second"
  "realtime_span '''' = 30 * Second" "realtime_warmup '''' = 5" "realtime_start '''' (3600 * Second) = 2700 * Second"
  "realtime_read_start '''' (3600 * Second) = 2550 * Second" "fst (usageOverviewRealtimeWindow '''') = 15 * Minute"
  "realtime_source realtime_table query_filter None = realtime_table"
  "ue_Timestamp (query_event s) = s * Second" "billed (query_event s) \<longleftrightarrow> 0 < s" "backfilled (query_event s)"
proof -
  have dim: "TrimSpace ''k'' = ''k''" "TrimSpace '''' = ''''" by code_simp+
  show w: "realtime_warmup '''' = 5" "realtime_span '''' = 30 * Second" "fst (usageOverviewRealtimeWindow '''') = 15 * Minute"
    by (simp_all add: realtime_span_def realtime_warmup_def usageOverviewRealtimeWindow_def dim
        usageOverviewRealtimeAggregationWindow_def usageOverviewRealtimeAggregationBucketCount_def usageOverviewRealtimeWarmupBucketCount_def
        Minute_def Second_def Let_def)
  show "realtime_start '''' (3600 * Second) = 2700 * Second" "realtime_read_start '''' (3600 * Second) = 2550 * Second"
    by (simp_all add: realtime_read_start_def realtime_start_def w Minute_def Second_def)
  have "event_in_scope query_filter (query_event s)" for s
    by (simp add: event_in_scope_def query_filter_def query_event_def dim)
  then show "realtime_source realtime_table query_filter None = realtime_table" by (simp add: realtime_source_def realtime_table_def)
qed (simp_all add: query_filter_def realtime_end_def query_event_def blank_event_def billed_def backfilled_def)

lemma realtime_example_built:
  obtains ro where "buildUsageOverviewRealtime id id (fixed_zone 0) realtime_table no_identity (3600 * Second) query_filter None = Some (Inr ro)"
proof -
  have zone: "segments_true (fixed_zone 0)" by (simp add: fixed_zone_segments)
  obtain es r where r: "mset es = mset (during (2550 * Second) (3600 * Second) realtime_table)"
    "buildUsageOverviewRealtime id id (fixed_zone 0) realtime_table no_identity (3600 * Second) query_filter None = Some r"
    "isl r \<longleftrightarrow> \<not> (\<forall>e\<in>set es. payable e)"
    by (rule realtime_answer [OF zone, where qf = query_filter and now = "3600 * Second" and table = realtime_table and cache = None
          and order = id and speed_order = id and lookup = no_identity, unfolded realtime_example(1,2,6,8)])
  have "\<forall>e\<in>set es. payable e" unfolding mset_eq_setD [OF r(1)]
    by (auto simp: realtime_table_def payable_backfilled realtime_example)
  with r(3) have "\<not> isl r" by simp
  with r(2) show ?thesis by (cases r) (auto intro: that)
qed

text \<open>
  The buckets of the realtime overview partition what it reads. For each of its windows an instant from
  the start of the read to the end of the window falls in the bucket whose interval contains it,
  so the index never has to be clamped, and it falls in a visible bucket exactly if it is in the window.
\<close>

theorem realtime_buckets_partition:
  assumes "realtime_read_start value stop \<le> t" and "t < stop"
    and "i = usageOverviewRealtimeBucketIndex t (realtime_read_start value stop) (realtime_span value)
               (usageOverviewRealtimeBucketCount + realtime_warmup value)"
  shows "0 \<le> i \<and> i < usageOverviewRealtimeBucketCount + realtime_warmup value
    \<and> realtime_read_start value stop + i * realtime_span value \<le> t \<and> t < realtime_read_start value stop + (i + 1) * realtime_span value
    \<and> (realtime_warmup value \<le> i \<longleftrightarrow> realtime_start value stop \<le> t)"
proof -
  have "t < realtime_read_start value stop + (usageOverviewRealtimeBucketCount + realtime_warmup value) * realtime_span value"
    using assms(2) by (simp add: realtime_starts)
  note index = bucket_index [OF realtime_geometry(1,6) assms(1) this]
  note interval = bucket_interval [OF realtime_geometry(1) [of "value"], where t = t and start = "realtime_read_start value stop"]
  show ?thesis unfolding assms(3) index(1)
    using index(2,3) interval(1) [of "(t - realtime_read_start value stop) div realtime_span value"]
      interval(2) [of "(t - realtime_read_start value stop) div realtime_span value + 1"] interval(1) [of "realtime_warmup value"]
    by (simp only: order_refl less_add_one simp_thms) (simp add: realtime_read_start_def)
qed

theorem realtime_buckets_partition_witness:
  "\<exists>i. i = usageOverviewRealtimeBucketIndex (2729 * Second) (2550 * Second) (30 * Second) 35
    \<and> 2550 * Second + i * (30 * Second) \<le> 2729 * Second \<and> 2729 * Second < 2550 * Second + (i + 1) * (30 * Second) \<and> 5 \<le> i"
  using realtime_buckets_partition [of "''''" "3600 * Second" "2729 * Second", OF _ _ refl]
  by (simp add: realtime_example usageOverviewRealtimeBucketCount_def) (simp add: Second_def)

text \<open>
  The realtime overview fails exactly for a missing price. With the readings of a zone it always
  answers, and its answer is an error exactly if the window, with the buckets before it, holds an event
  in scope with tokens to count whose cost has not been stored or is not finite.
\<close>

theorem realtime_fails_iff:
  assumes "segments_true zone"
  shows "\<exists>r. buildUsageOverviewRealtime order speed_order zone table lookup now qf cache = Some r
    \<and> (isl r \<longleftrightarrow> (\<exists>e\<in>set (during (realtime_read_start (uf_RealtimeWindow qf) (realtime_end now qf)) (realtime_end now qf)
                                (realtime_source table qf cache)). billed e \<and> \<not> backfilled e))"
proof -
  obtain es r where r: "mset es = mset (during (realtime_read_start (uf_RealtimeWindow qf) (realtime_end now qf)) (realtime_end now qf)
                                      (realtime_source table qf cache))"
    "buildUsageOverviewRealtime order speed_order zone table lookup now qf cache = Some r" "isl r \<longleftrightarrow> \<not> (\<forall>e\<in>set es. payable e)"
    by (rule realtime_answer [OF assms])
  then show ?thesis unfolding r(2) mset_eq_setD [OF r(1), symmetric] by (simp add: payable_backfilled)
qed

definition unpriced_event :: usageEvent where
  "unpriced_event = blank_event\<lparr>ue_APIGroupKey := ''k'', ue_Timestamp := 3000 * Second, ue_TotalTokens := 7\<rparr>"

theorem realtime_fails_iff_witness:
  "\<exists>r. buildUsageOverviewRealtime id id (fixed_zone 0) (unpriced_event # realtime_table) no_identity (3600 * Second) query_filter None = Some r
    \<and> isl r"
proof -
  have dim: "TrimSpace ''k'' = ''k''" "TrimSpace '''' = ''''" by code_simp+
  have source: "realtime_source (unpriced_event # realtime_table) query_filter None = unpriced_event # realtime_table"
    using realtime_example(8) by (simp add: realtime_source_def event_in_scope_def query_filter_def unpriced_event_def blank_event_def dim)
  have unpriced: "billed unpriced_event" "\<not> backfilled unpriced_event" "2550 * Second \<le> ue_Timestamp unpriced_event"
      "ue_Timestamp unpriced_event < 3600 * Second"
    by (simp_all add: unpriced_event_def billed_def backfilled_def blank_event_def Second_def)
  have "segments_true (fixed_zone 0)" by (simp add: fixed_zone_segments)
  from realtime_fails_iff [OF this, of id id "unpriced_event # realtime_table" no_identity "3600 * Second" query_filter None,
      unfolded realtime_example source]
  show ?thesis using unpriced by auto
qed

text \<open>
  Claim C6. The curves of the realtime overview are exact. In a time zone, when the overview is built, the
  point of each of its thirty buckets holds the 64-bit sums over exactly the events in scope of the
  aggregation window that ends with the bucket: the requests, and the tokens of the successful ones
  that have any. The first points are as complete as the last, since the read begins early enough.
\<close>

theorem realtime_curves_exact:
  assumes "segments_true zone" and "buildUsageOverviewRealtime order speed_order zone table lookup now qf cache = Some (Inr ro)"
    and "k < 30" and "value = uf_RealtimeWindow qf" and "until = tick value (realtime_end now qf) (int k + 1)"
  shows "curve_point ro k =
    (until - realtime_span value,
     curve_sums (during (until - usageOverviewRealtimeAggregationWindow (fst (usageOverviewRealtimeWindow value))) until
       (realtime_source table qf cache)))"
proof -
  obtain es r where r: "mset es = mset (during (realtime_read_start value (realtime_end now qf)) (realtime_end now qf)
                                      (realtime_source table qf cache))"
    "buildUsageOverviewRealtime order speed_order zone table lookup now qf cache = Some r"
    "\<forall>ro. r = Inr ro \<longrightarrow> (\<exists>buckets u speed. filled value (realtime_end now qf) es buckets
             \<and> ro = answer order value (realtime_end now qf) buckets u speed)"
    unfolding assms(4) by (rule realtime_answer [OF assms(1)])
  with assms(2) obtain buckets u speed where built: "filled value (realtime_end now qf) es buckets"
    "ro = answer order value (realtime_end now qf) buckets u speed" by auto
  note within = realtime_within [OF assms(3), of "value" "realtime_end now qf", folded assms(5)]
  have "until - realtime_span value = tick value (realtime_end now qf) (int k)" unfolding assms(5) by (simp add: algebra_simps)
  then show ?thesis
    unfolding built(2) answer_curves [OF built(1) assms(3), folded assms(5)] within(3)
    using sums_mset(1) [OF mset_during [OF r(1)]] within(1,2) by (simp only: during_during)
qed

theorem realtime_curves_exact_witness:
  "\<exists>ro. buildUsageOverviewRealtime id id (fixed_zone 0) realtime_table no_identity (3600 * Second) query_filter None = Some (Inr ro)
    \<and> curve_point ro 0 = (2700 * Second, [2, 5310, 0, 0, 0])"
proof -
  obtain ro where ro: "buildUsageOverviewRealtime id id (fixed_zone 0) realtime_table no_identity (3600 * Second) query_filter None = Some (Inr ro)"
    by (rule realtime_example_built)
  have "curve_sums (during (2550 * Second) (2730 * Second) realtime_table) = [2, 5310, 0, 0, 0]"
    by (simp add: realtime_table_def realtime_example(9,10) curve_sums_def Second_def wrap64_def)
      (simp add: query_event_def blank_event_def wrap64_def)
  moreover have "segments_true (fixed_zone 0)" by (simp add: fixed_zone_segments)
  from realtime_curves_exact [OF this ro _ refl refl, of 0, unfolded realtime_example]
  have "curve_point ro 0 = (2700 * Second, curve_sums (during (2550 * Second) (2730 * Second) realtime_table))"
    by (simp add: usageOverviewRealtimeAggregationWindow_def Minute_def Second_def)
  ultimately show ?thesis using ro by simp
qed

text \<open>
  Claim C7. The summary and the outcomes of the realtime overview are exact. When the overview is built its
  summary counts, in 64 bits, exactly the events in scope of the visible window, and each of its
  thirty outcomes those of its bucket; the buckets read before the window are in none of them.
\<close>

theorem realtime_insights_exact:
  assumes "segments_true zone" and "buildUsageOverviewRealtime order speed_order zone table lookup now qf cache = Some (Inr ro)"
    and "k < 30" and "value = uf_RealtimeWindow qf" and "stop = realtime_end now qf"
  shows "summary_columns (in_Summary (ro_Insights ro)) = summary_sums (during (realtime_start value stop) stop (realtime_source table qf cache))
    \<and> in_Outcomes (ro_Insights ro) ! k =
      (let there = during (tick value stop (int k)) (tick value stop (int k + 1)) (realtime_source table qf cache)
       in \<lparr>op_Bucket = tick value stop (int k), op_Requests = wrap64 (int (length there)), op_Failures = wrap64 (int (length (filter ue_Failed there)))\<rparr>)"
proof -
  obtain es r where r: "mset es = mset (during (realtime_read_start value stop) stop (realtime_source table qf cache))"
    "buildUsageOverviewRealtime order speed_order zone table lookup now qf cache = Some r"
    "\<forall>ro. r = Inr ro \<longrightarrow> (\<exists>buckets u speed. filled value stop es buckets \<and> ro = answer order value stop buckets u speed)"
    unfolding assms(4,5) by (rule realtime_answer [OF assms(1)])
  with assms(2) obtain buckets u speed where built: "filled value stop es buckets" "ro = answer order value stop buckets u speed" by auto
  have starts: "realtime_read_start value stop \<le> realtime_start value stop" "realtime_start value stop \<le> tick value stop (int k)"
    using realtime_geometry(1,2) [of "value"] by (simp_all add: realtime_read_start_def)
  then have before: "realtime_read_start value stop \<le> tick value stop (int k)" by (rule order_trans)
  note mset = mset_during [OF r(1)]
  have there: "mset (during (tick value stop (int k)) (tick value stop (int k + 1)) es) =
      mset (during (tick value stop (int k)) (tick value stop (int k + 1)) (realtime_source table qf cache))"
    unfolding mset using before realtime_within(2) [OF assms(3)] by (simp only: during_during)
  then have "length (filter P (during (tick value stop (int k)) (tick value stop (int k + 1)) es)) =
      length (filter P (during (tick value stop (int k)) (tick value stop (int k + 1)) (realtime_source table qf cache)))" for P
    by (intro mset_eq_length) (simp only: mset_filter)
  note lengths = this this [of "\<lambda>_. True", simplified filter_True]
  show ?thesis
    unfolding built(2) answer_summary [OF built(1)] answer_outcomes [OF built(1) assms(3)] Let_def
    using sums_mset(2) [OF mset [of "realtime_start value stop" stop]] starts(1) lengths
    by (simp add: during_during del: filter_filter)
qed

theorem realtime_insights_exact_witness:
  "\<exists>ro. buildUsageOverviewRealtime id id (fixed_zone 0) realtime_table no_identity (3600 * Second) query_filter None = Some (Inr ro)
    \<and> summary_columns (in_Summary (ro_Insights ro)) = [2, 0, 2, 0, 6309, 0, 0]
    \<and> in_Outcomes (ro_Insights ro) ! 29 = \<lparr>op_Bucket = 3570 * Second, op_Requests = 1, op_Failures = 0\<rparr>"
proof -
  obtain ro where ro: "buildUsageOverviewRealtime id id (fixed_zone 0) realtime_table no_identity (3600 * Second) query_filter None = Some (Inr ro)"
    by (rule realtime_example_built)
  have "summary_sums (during (2700 * Second) (3600 * Second) realtime_table) = [2, 0, 2, 0, 6309, 0, 0]"
    by (simp add: realtime_table_def realtime_example(9,10) summary_sums_def Second_def wrap64_def)
      (simp add: query_event_def blank_event_def wrap64_def)
  moreover have "during (3570 * Second) (3600 * Second) realtime_table = [query_event 3599]" "\<not> ue_Failed (query_event 3599)"
    by (simp_all add: realtime_table_def realtime_example(9) Second_def) (simp add: query_event_def blank_event_def)
  moreover have "segments_true (fixed_zone 0)" by (simp add: fixed_zone_segments)
  from realtime_insights_exact [OF this ro _ refl refl, of 29, unfolded realtime_example]
  have "summary_columns (in_Summary (ro_Insights ro)) = summary_sums (during (2700 * Second) (3600 * Second) realtime_table)"
    "in_Outcomes (ro_Insights ro) ! 29 = (let there = during (3570 * Second) (3600 * Second) realtime_table
       in \<lparr>op_Bucket = 3570 * Second, op_Requests = wrap64 (int (length there)), op_Failures = wrap64 (int (length (filter ue_Failed there)))\<rparr>)"
    by (simp_all add: Second_def)
  ultimately show ?thesis using ro by (simp add: Let_def wrap64_def)
qed

end
