(* ===== verification/Realtime_Shares.thy ===== *)
theory Realtime_Shares
  imports Realtime_Overview
begin

text \<open>
  The shares of the realtime overview, its percentile and its scatter: the five largest items and the
  rest, which conserve tokens, the rank of the percentile in float64 arithmetic, and the sample of a
  large scatter, which takes one request of each of its segments.
\<close>

section \<open>The largest items\<close>

lemma fold_tokens:
  assumes "\<forall>i\<in>set items. 0 \<le> ta_tokens i" and "0 \<le> n" and "n + (\<Sum>i\<leftarrow>items. ta_tokens i) \<le> MaxInt64"
  shows "foldl (\<lambda>n i. wrap64 (n + ta_tokens i)) n items = n + (\<Sum>i\<leftarrow>items. ta_tokens i)"
  using assms
proof (induction items arbitrary: n)
  case (Cons i items)
  have "0 \<le> (\<Sum>i\<leftarrow>items. ta_tokens i)" using Cons.prems(1) by (intro sum_list_nonneg) auto
  with Cons.prems have "wrap64 (n + ta_tokens i) = n + ta_tokens i" by (intro wrap64_id) (simp add: int64_bounds)
  with Cons show ?case by simp
qed simp

lemma foldl_image: "(\<And>a x. p (f a x) = g (p a) x) \<Longrightarrow> p (foldl f a xs) = foldl g (p a) xs"
  by (induction xs arbitrary: a) simp_all

lemma foldl_conj: "foldl (\<lambda>b i. if P i then b else False) b xs \<longleftrightarrow> b \<and> (\<forall>x\<in>set xs. P x)"
  by (induction xs arbitrary: b) auto

lemma foldl_const: "foldl (\<lambda>b i. b) b xs = b"
  by (induction xs) simp_all

lemma other_item_fields:
  "ta_tokens (other_item items) = foldl (\<lambda>n i. wrap64 (n + ta_tokens i)) 0 items"
  "ta_requests (other_item items) = foldl (\<lambda>n i. wrap64 (n + ta_requests i)) 0 items"
  "ta_costAvailable (other_item items) = foldl (\<lambda>b i. if ta_costAvailable i then b else False) True items"
  "ta_key (other_item items) = foldl (\<lambda>k i. k) RealtimeUsageOtherKey items"
  unfolding other_item_def
  by (subst foldl_image [of _ add_other]; simp add: add_other_def usageOverviewRealtimeTopItem_def; fail)+

definition item_columns :: "topItem \<Rightarrow> string \<times> int \<times> int \<times> bool" where
  "item_columns i = (ti_Key i, ti_Tokens i, ti_Requests i, ti_CostUSD i \<noteq> None)"

definition total_columns :: "topAccumulator \<Rightarrow> string \<times> int \<times> int \<times> bool" where
  "total_columns a = (ta_key a, ta_tokens a, ta_requests a, ta_costAvailable a)"

text \<open>
  The shares show the largest items and lose no token. The items with tokens are ranked by
  tokens and key; up to five are shown as they are, and when there are more the five largest are shown
  and a sixth holds the tokens and requests of all the others, whose cost is known only if each of theirs is.
\<close>

theorem top_items_conserve:
  assumes "mset (order (map snd totals)) = mset (map snd totals)"
    and "(\<Sum>i\<leftarrow>filter (\<lambda>i. 0 < ta_tokens i) (map snd totals). ta_tokens i) \<le> MaxInt64"
  shows "\<exists>ranked. mset ranked = mset (filter (\<lambda>i. 0 < ta_tokens i) (map snd totals))
    \<and> sorted_wrt (\<lambda>a b. ta_tokens b < ta_tokens a \<or> ta_tokens b = ta_tokens a \<and> ta_key a \<le> ta_key b) ranked
    \<and> map item_columns (finalizeUsageOverviewRealtimeTopItems order totals) =
        map total_columns (take 5 ranked)
          @ (if 5 < length ranked
             then [(RealtimeUsageOtherKey, \<Sum>i\<leftarrow>drop 5 ranked. ta_tokens i, wrap64 (\<Sum>i\<leftarrow>drop 5 ranked. ta_requests i),
                    \<forall>i\<in>set (drop 5 ranked). ta_costAvailable i)]
             else [])
    \<and> (\<Sum>i\<leftarrow>finalizeUsageOverviewRealtimeTopItems order totals. ti_Tokens i) =
        (\<Sum>i\<leftarrow>filter (\<lambda>i. 0 < ta_tokens i) (map snd totals). ta_tokens i)"
proof -
  define ranked where "ranked = sort_key (\<lambda>i. (- ta_tokens i, ta_key i)) (filter (\<lambda>i. \<not> ta_tokens i \<le> 0) (order (map snd totals)))"
  have ranked: "mset ranked = mset (filter (\<lambda>i. 0 < ta_tokens i) (map snd totals))"
    using assms(1) by (simp add: ranked_def not_le del: mset_map)
  have sum: "(\<Sum>i\<leftarrow>ranked. ta_tokens i) = (\<Sum>i\<leftarrow>filter (\<lambda>i. 0 < ta_tokens i) (map snd totals). ta_tokens i)"
    using arg_cong [OF ranked, of "\<lambda>m. sum_mset (image_mset ta_tokens m)"] by (simp flip: sum_mset_sum_list)
  have split: "(\<Sum>i\<leftarrow>take 5 ranked. ta_tokens i) + (\<Sum>i\<leftarrow>drop 5 ranked. ta_tokens i) = (\<Sum>i\<leftarrow>ranked. ta_tokens i)"
    by (simp flip: sum_list_append map_append)
  have positive: "\<forall>i\<in>set ranked. 0 < ta_tokens i" using mset_eq_setD [OF ranked] by auto
  then have part: "0 \<le> ta_tokens i" if "i \<in> set (take 5 ranked) \<or> i \<in> set (drop 5 ranked)" for i
    using that by (auto dest!: in_set_takeD in_set_dropD intro: less_imp_le)
  then have "0 \<le> (\<Sum>i\<leftarrow>take 5 ranked. ta_tokens i)" by (intro sum_list_nonneg) auto
  with part have rest: "ta_tokens (other_item (drop 5 ranked)) = (\<Sum>i\<leftarrow>drop 5 ranked. ta_tokens i)"
    using fold_tokens [of "drop 5 ranked" 0] split sum assms(2) by (simp add: other_item_fields)
  have requests: "ta_requests (other_item (drop 5 ranked)) = wrap64 (\<Sum>i\<leftarrow>drop 5 ranked. ta_requests i)"
    using column_fold [of id "\<lambda>i n. wrap64 (n + ta_requests i)" ta_requests 0]
    by (simp add: other_item_fields is_int64_def int64_bounds)
  have other: "total_columns (other_item (drop 5 ranked)) = (RealtimeUsageOtherKey, \<Sum>i\<leftarrow>drop 5 ranked. ta_tokens i,
      wrap64 (\<Sum>i\<leftarrow>drop 5 ranked. ta_requests i), \<forall>i\<in>set (drop 5 ranked). ta_costAvailable i)"
    by (simp add: total_columns_def rest requests) (simp add: other_item_fields foldl_conj foldl_const)
  have sorted: "sorted_wrt (\<lambda>a b. ta_tokens b < ta_tokens a \<or> ta_tokens b = ta_tokens a \<and> ta_key a \<le> ta_key b) ranked"
  proof -
    have "sorted (map (\<lambda>i. (- ta_tokens i, ta_key i)) ranked)" by (simp add: ranked_def)
    then show ?thesis unfolding sorted_map by (rule sorted_wrt_mono_rel [rotated]) (auto simp: less_eq_prod_def)
  qed
  define shown where "shown = (if 5 < length ranked then take 5 ranked @ [other_item (drop 5 ranked)] else ranked)"
  have columns: "map item_columns (finalizeUsageOverviewRealtimeTopItems order totals) = map total_columns shown"
    by (simp add: finalizeUsageOverviewRealtimeTopItems_def Let_def shown_def ranked_def item_columns_def total_columns_def
        usageOverviewRealtimeCostPtr_def comp_def)
  then have "map (fst \<circ> snd) (map item_columns (finalizeUsageOverviewRealtimeTopItems order totals)) = map (fst \<circ> snd) (map total_columns shown)"
    by (rule arg_cong)
  then have tokens: "map ti_Tokens (finalizeUsageOverviewRealtimeTopItems order totals) = map ta_tokens shown"
    by (simp add: item_columns_def total_columns_def comp_def)
  show ?thesis
    using ranked sorted columns tokens sum split rest other
    by (intro exI [of _ ranked]) (auto simp: shown_def simp del: mset_filter)
qed

text \<open>Eight items, one of them without tokens: five are shown and two are in the rest.\<close>

definition share_totals :: topTotals where
  "share_totals = map (\<lambda>(key, n). (key, (usageOverviewRealtimeTopItem '''' key key)\<lparr>ta_tokens := n, ta_requests := 1\<rparr>))
     [(''a'', 1), (''b'', 9), (''c'', 9), (''d'', 0), (''e'', 4), (''f'', 3), (''g'', 8), (''h'', 2)]"

theorem top_items_conserve_witness: "(\<Sum>i\<leftarrow>finalizeUsageOverviewRealtimeTopItems id share_totals. ti_Tokens i) = 36"
  using top_items_conserve [of id share_totals] by (auto simp: share_totals_def usageOverviewRealtimeTopItem_def MaxInt64_def)

section \<open>The percentile\<close>

text \<open>The constant 0.95 of the source is a little less than 95 hundredths.\<close>

lemma p95_rank_value: "p95_rank = Fin (8556839292003942 / 9007199254740992)"
proof -
  have "to_float (95 / 100) = Fin (of_int 8556839292003942 * 2 powi (- 53))"
    by (rule to_float_nearest) (simp_all add: power_int_minus)
  then show ?thesis by (simp add: p95_rank_def power_int_minus)
qed

lemma ceiling_rank:
  assumes "0 < n" and "n \<le> 2 ^ 40"
  shows "float_to_int64 (fceil (fmul p95_rank (of_int64 n))) = (19 * n - 1) div 20 + 1"
proof -
  define m where "m = (19 * n - 1) div 20"
  have m: "20 * m < 19 * n" "19 * n \<le> 20 * m + 20" using assms(1) by (simp_all add: m_def)
  have small: "0 \<le> m" "m < 2 ^ 41" using assms m by (simp_all add: m_def)
  let ?c = "8556839292003942 / 9007199254740992 :: rat"
  have n: "of_int64 n = Fin (of_int n)"
    using to_float_dyadic [of n 0] assms by (simp add: of_int64_def)
  have "?c * of_int n = of_int (8556839292003942 * n) / 9007199254740992" by simp
  have low: "of_int m + 1 / 32 \<le> ?c * of_int n"
  proof -
    have "9007199254740992 * (32 * m + 1) \<le> 32 * (8556839292003942 * n)" using m(1) assms by simp
    then have "(of_int (9007199254740992 * (32 * m + 1)) :: rat) \<le> of_int (32 * (8556839292003942 * n))" by (simp only: of_int_le_iff)
    then show ?thesis by (simp add: field_simps)
  qed
  have high: "?c * of_int n \<le> of_int m + 1"
  proof -
    have "8556839292003942 * n \<le> 9007199254740992 * (m + 1)" using m(2) assms by simp
    then have "(of_int (8556839292003942 * n) :: rat) \<le> of_int (9007199254740992 * (m + 1))" by (simp only: of_int_le_iff)
    then show ?thesis by (simp add: field_simps)
  qed
  have to_rounded: "rounded v = v" if "representable v" for v
    using that by (simp add: representable_def to_float_def Let_def split: if_splits)
  have "of_int m + 1 / 32 = (of_int (32 * m + 1) * 2 powi - 5 :: rat)" "of_int m + 1 = (of_int (m + 1) * 2 powi 0 :: rat)"
    by (simp_all add: power_int_minus field_simps)
  moreover have "representable (of_int (32 * m + 1) * 2 powi - 5)" "representable (of_int (m + 1) * 2 powi 0)"
    using small by (intro representable_dyadic; simp)+
  ultimately have fixed: "rounded (of_int m + 1 / 32) = of_int m + 1 / 32" "rounded (of_int m + 1) = of_int m + 1"
    by (simp_all only: to_rounded)
  have "0 \<le> (of_int m + 1 / 32 :: rat)" using small by simp
  from rounded_mono [OF this low] rounded_mono [OF _ high] fixed
  have product: "of_int m + 1 / 32 \<le> rounded (?c * of_int n)" "rounded (?c * of_int n) \<le> of_int m + 1"
    using assms(1) by simp_all
  have "(of_int m + 1 :: rat) \<le> 2 ^ 1023"
  proof -
    have "(of_int (m + 1) :: rat) \<le> of_int (2 ^ 42)" unfolding of_int_le_iff using small(2) by simp
    also have "(of_int (2 ^ 42) :: rat) \<le> 2 ^ 1023" by simp
    finally show ?thesis by simp
  qed
  with product MaxFloat64_bounds small(1) have "to_float (?c * of_int n) = Fin (rounded (?c * of_int n))"
    by (simp add: to_float_def Let_def)
  moreover have "\<lceil>rounded (?c * of_int n)\<rceil> = m + 1" using product by (intro ceiling_unique) simp_all
  ultimately show ?thesis
    using small by (simp add: p95_rank_value n m_def [symmetric] int64_bounds)
qed

lemma sorted_counts:
  assumes "sorted xs" and "i < length xs"
  shows "Suc i \<le> length (filter (\<lambda>x. x \<le> xs ! i) xs)" and "length (filter (\<lambda>x. x < xs ! i) xs) \<le> i"
proof -
  have "filter (\<lambda>x. x \<le> xs ! i) (take (Suc i) xs) = take (Suc i) xs"
    using assms by (auto simp: filter_id_conv in_set_conv_nth less_Suc_eq_le sorted_iff_nth_mono)
  then have "Suc i = length (filter (\<lambda>x. x \<le> xs ! i) (take (Suc i) xs))" using assms(2) by simp
  also have "\<dots> \<le> length (filter (\<lambda>x. x \<le> xs ! i) (take (Suc i) xs @ drop (Suc i) xs))" by (simp only: filter_append length_append)
  finally show "Suc i \<le> length (filter (\<lambda>x. x \<le> xs ! i) xs)" by (simp only: append_take_drop_id)
  have "filter (\<lambda>x. x < xs ! i) (drop i xs) = []"
    using assms by (auto simp: filter_empty_conv in_set_conv_nth not_less sorted_iff_nth_mono)
  then have "length (filter (\<lambda>x. x < xs ! i) (take i xs @ drop i xs)) = length (filter (\<lambda>x. x < xs ! i) (take i xs))"
    by (simp only: filter_append append_Nil2)
  also have "\<dots> \<le> i" using length_filter_le [of _ "take i xs"] by (rule order_trans) simp
  finally show "length (filter (\<lambda>x. x < xs ! i) xs) \<le> i" by (simp only: append_take_drop_id)
qed

text \<open>
  The 95th percentile of the scatter is the nearest rank, although its rank is the ceiling of a
  product of floats. For up to 2 to the 40 values it is one of them, at least 95 in a hundred values
  are no larger and fewer than 95 in a hundred are smaller.
\<close>

theorem p95_nearest_rank:
  assumes "values \<noteq> []" and "length values \<le> 2 ^ 40"
  shows "\<exists>v\<in>set values. usageOverviewRealtimeSortedPercentile (sort values) p95_rank = Some v
    \<and> 19 * length values \<le> 20 * length (filter (\<lambda>x. x \<le> v) values)
    \<and> 20 * length (filter (\<lambda>x. x < v) values) < 19 * length values"
proof -
  let ?n = "int (length values)"
  obtain i where i: "(19 * ?n - 1) div 20 = int i" using assms(1) by (metis nonneg_int_cases length_greater_0_conv
      of_nat_0_less_iff pos_imp_zdiv_nonneg_iff zero_less_numeral zle_diff1_eq mult_pos_pos)
  have n: "0 < ?n" "?n \<le> 2 ^ 40" using assms by simp_all
  from i have bounds: "20 * int i < 19 * ?n" "19 * ?n \<le> 20 * int i + 20" by linarith+
  then have inside: "i < length (sort values)" using n(1) by simp
  have "usageOverviewRealtimeSortedPercentile (sort values) p95_rank = Some (sort values ! i)"
    using inside by (auto simp: usageOverviewRealtimeSortedPercentile_def Let_def ceiling_rank [OF n] i length_0_conv [symmetric] simp del: length_0_conv)
  moreover have "sort values ! i \<in> set values" using nth_mem [OF inside] by simp
  moreover have "length (filter P values) = length (filter P (sort values))" for P
    by (rule mset_eq_length) (simp only: mset_filter mset_sort)
  ultimately show ?thesis
    using sorted_counts [OF sorted_sort inside] bounds by (intro bexI [of _ "sort values ! i"]) simp_all
qed

theorem p95_nearest_rank_witness:
  "usageOverviewRealtimeSortedPercentile (sort [5, 1, 4, 2, 3 :: int]) p95_rank = Some 5"
proof -
  obtain v where v: "v \<in> set [5, 1, 4, 2, 3 :: int]" "usageOverviewRealtimeSortedPercentile (sort [5, 1, 4, 2, 3]) p95_rank = Some v"
    "19 * length [5, 1, 4, 2, 3 :: int] \<le> 20 * length (filter (\<lambda>x. x \<le> v) [5, 1, 4, 2, 3])"
    using p95_nearest_rank [of "[5, 1, 4, 2, 3]"] by auto
  then have "v = 5" by (auto split: if_splits)
  with v(2) show ?thesis by simp
qed

section \<open>The scatter\<close>

lemma sdiv_nonneg: "0 \<le> a \<Longrightarrow> 0 < b \<Longrightarrow> a sdiv b = a div (b :: int)"
  by (cases "a = 0") (simp_all add: signed_divide_int_def)

definition segment :: "nat \<Rightarrow> nat \<Rightarrow> nat" where
  "segment n k = k * n div 1000"

definition picked :: "nat \<Rightarrow> nat \<Rightarrow> nat" where
  "picked n k = segment n k + (segment n (k + 1) - segment n k) div 2"

lemma segments:
  assumes "1000 < n" and "k < 1000"
  shows "segment n k \<le> picked n k" and "picked n k < segment n (k + 1)" and "segment n (k + 1) \<le> n"
proof -
  have "segment n k + 1 = (k * n + 1000) div 1000" by (simp add: segment_def)
  also have "\<dots> \<le> segment n (k + 1)" unfolding segment_def using assms(1) by (intro div_le_mono) simp
  finally have "segment n k < segment n (k + 1)" by simp
  then show "segment n k \<le> picked n k" "picked n k < segment n (k + 1)" by (simp_all add: picked_def)
  have "(k + 1) * n \<le> 1000 * n" using assms(2) by (intro mult_right_mono) simp_all
  then show "segment n (k + 1) \<le> n" using div_le_mono [of "(k + 1) * n" "1000 * n" 1000] by (simp add: segment_def)
qed

lemma point_range:
  assumes "n \<le> 2 ^ 50" and "k < 1000"
  shows "usageOverviewRealtimeScatterPointRange (int k) (int n) 1000 = (int (segment n k), int (segment n (k + 1)))"
proof -
  have "(k + 1) * n \<le> 1000 * 2 ^ 50" using assms by (intro mult_mono) simp_all
  then have "int ((k + 1) * n) \<le> int (1000 * 2 ^ 50)" by (simp only: of_nat_le_iff)
  moreover have "int (k * n) \<le> int ((k + 1) * n)" by simp
  moreover have "is_int64 (int m)" if "int m \<le> int (1000 * 2 ^ 50)" for m using that by (simp add: int64_bounds)
  ultimately have "is_int64 (int (k * n))" "is_int64 (int ((k + 1) * n))" by (meson order_trans)+
  then have "wrap64 (int k * int n) = int (k * n)" "wrap64 ((int k + 1) * int n) = int ((k + 1) * n)"
    by (simp_all add: wrap64_id algebra_simps)
  then show ?thesis
    by (simp add: usageOverviewRealtimeScatterPointRange_def sdiv_nonneg segment_def zdiv_int add.commute)
qed

lemma sample_pairs_picked:
  assumes "1000 < length pairs" and "length pairs \<le> 2 ^ 50"
  shows "sample_pairs pairs =
    map (\<lambda>k. sort_key (\<lambda>p. (lp_timestamp p, lp_ttftMS p, lp_latencyMS p)) pairs ! picked (length pairs) k) [0..<1000]"
proof -
  have "[0..999] = map int [0..<1000]" by (intro nth_equalityI) simp_all
  moreover have "nat (int (segment n k) + (int (segment n (k + 1)) - int (segment n k)) sdiv 2) = picked n k"
    if "1000 < n" "k < 1000" for n k
    using segments(1,2) [OF that] by (simp add: picked_def sdiv_nonneg nat_add_distrib nat_div_distrib)
  ultimately show ?thesis
    using assms by (simp add: sample_pairs_def usageOverviewRealtimeLatencyScatterMaxPoints_def point_range comp_def)
qed

text \<open>
  A scatter shows real requests, evenly. Up to a thousand requests are all shown. Of more, exactly a
  thousand are: they are put in the order of time, cut into a thousand segments that are not empty, and
  each segment gives one request of its own, with the two values of that request, so no request is shown twice.
\<close>

theorem scatter_sample:
  assumes "pairs = concat (map rb_latencyPairs buckets)" and "length pairs \<le> 2 ^ 50"
    and "scatter = buildUsageOverviewRealtimeLatencyScatter buckets"
  shows "sc_TotalPoints scatter = int (length pairs)
    \<and> (if length pairs \<le> 1000 then sc_Points scatter = map (\<lambda>p. (lp_ttftMS p, lp_latencyMS p)) pairs
       else \<exists>ordered indices. mset ordered = mset pairs \<and> sorted (map lp_timestamp ordered)
         \<and> length indices = 1000 \<and> sorted_wrt (<) indices
         \<and> (\<forall>k<1000. k * length pairs div 1000 \<le> indices ! k \<and> indices ! k < (k + 1) * length pairs div 1000)
         \<and> sc_Points scatter = map (\<lambda>i. (lp_ttftMS (ordered ! i), lp_latencyMS (ordered ! i))) indices)"
proof (cases "length pairs \<le> 1000")
  case True
  then show ?thesis
    by (simp add: assms(3) buildUsageOverviewRealtimeLatencyScatter_def assms(1) [symmetric] Let_def
        usageOverviewRealtimeLatencyScatterMaxPoints_def)
next
  case False
  let ?ordered = "sort_key (\<lambda>p. (lp_timestamp p, lp_ttftMS p, lp_latencyMS p)) pairs"
  let ?indices = "map (picked (length pairs)) [0..<1000]"
  from False have large: "1000 < length pairs" by simp
  have "sorted (map (\<lambda>p. (lp_timestamp p, lp_ttftMS p, lp_latencyMS p)) ?ordered)" by simp
  then have "sorted (map lp_timestamp ?ordered)"
    unfolding sorted_map by (rule sorted_wrt_mono_rel [rotated]) (auto simp: less_eq_prod_def)
  moreover have "sorted_wrt (<) ?indices"
  proof -
    have "picked (length pairs) k < picked (length pairs) k'" if "k < k'" "k' < 1000" for k k'
    proof -
      have "(k + 1) * length pairs \<le> k' * length pairs" using that(1) by (intro mult_right_mono) simp_all
      then have "segment (length pairs) (k + 1) \<le> segment (length pairs) k'" unfolding segment_def by (rule div_le_mono)
      with segments(2) [OF large, of k] segments(1) [OF large, of k'] that show ?thesis by linarith
    qed
    then show ?thesis by (simp add: sorted_wrt_map sorted_wrt_iff_nth_less)
  qed
  moreover have "\<forall>k<1000. k * length pairs div 1000 \<le> ?indices ! k \<and> ?indices ! k < (k + 1) * length pairs div 1000"
    using segments(1,2) [OF large] by (simp add: segment_def)
  moreover have "sc_Points scatter = map (\<lambda>i. (lp_ttftMS (?ordered ! i), lp_latencyMS (?ordered ! i))) ?indices"
    "sc_TotalPoints scatter = int (length pairs)"
    using large
    by (auto simp: assms(3) buildUsageOverviewRealtimeLatencyScatter_def assms(1) [symmetric] Let_def sample_pairs_picked [OF large assms(2)]
        usageOverviewRealtimeLatencyScatterMaxPoints_def)
  ultimately show ?thesis using False by (intro conjI) (simp, simp only: if_False, intro exI [of _ ?ordered] exI [of _ ?indices], simp)
qed

definition scatter_buckets :: "realtimeBucket list" where
  "scatter_buckets =
     [(empty_bucket 0)\<lparr>rb_latencyPairs := [\<lparr>lp_timestamp = 1, lp_ttftMS = 20, lp_latencyMS = 300\<rparr>]\<rparr>,
      (empty_bucket 9)\<lparr>rb_latencyPairs := [\<lparr>lp_timestamp = 9, lp_ttftMS = 10, lp_latencyMS = 400\<rparr>]\<rparr>]"

theorem scatter_sample_witness: "sc_Points (buildUsageOverviewRealtimeLatencyScatter scatter_buckets) = [(20, 300), (10, 400)]"
  using scatter_sample [OF refl _ refl, of scatter_buckets] by (simp add: scatter_buckets_def)

end
