(* ===== verification/Analysis_Query.thy ===== *)
theory Analysis_Query
  imports Realtime_Overview Pricing_Resolver
begin

text \<open>
  The analysis page: \<open>BuildAnalysisWithFilter\<close> of \<open>src/internal/repository/usage.go\<close> with
  \<open>usage_analysis_grain.go\<close>, \<open>usage_analysis_projection.go\<close> and \<open>usage_analysis_speed.go\<close>. It folds the
  hourly or the daily rows of the active API keys into a trend, several compositions and a heat map. The
  tables are arguments, as in \<open>Overview_Query\<close>; \<open>keys\<close> are the instance and key of the rows of
  \<open>cpa_api_keys\<close> that are not deleted, and \<open>lookup\<close> the identities. The nine columns that several structs
  of \<open>dto/analysis.go\<close> repeat are one record here.
\<close>

section \<open>Grain and range\<close>

definition analysisUsesDailyStats :: "zone \<Rightarrow> UsageQueryFilter \<Rightarrow> bool option" where
  "analysisUsesDailyStats zone qf =
     do {
       let long = 24 * 60 < computeWindowMinutes qf;
       daily \<leftarrow> (if long \<and> (uf_Range qf = ''today'' \<or> uf_Range qf = ''yesterday'')
          then map_option (\<lambda>day. case day of
                 None \<Rightarrow> True
               | Some b \<Rightarrow> \<not> (iv_Start b = truncate_hour (iv_Start b) \<and> iv_End b = truncate_hour (iv_End b)))
               (DayBounds zone (DateOf zone (case uf_StartTime qf of Some t \<Rightarrow> t | None \<Rightarrow> zeroTime)))
          else Some long);
       Some (if TrimSpace (uf_Range qf) = ''custom'' then
               if TrimSpace (uf_CustomUnit qf) = ''day'' then True
               else if TrimSpace (uf_CustomUnit qf) = ''hour'' then False
               else daily
             else daily)
     }"

definition analysisRollingDayWindow :: "zone \<Rightarrow> time \<Rightarrow> time \<Rightarrow> (time \<times> time) option" where
  "analysisRollingDayWindow zone start stop =
     do {
       startDay \<leftarrow> day_interval zone start;
       endDay \<leftarrow> day_interval zone stop;
       Some (iv_Start startDay, iv_End endDay)
     }"

definition analysisHourlyStatsEnd :: "zone \<Rightarrow> UsageQueryFilter \<Rightarrow> time \<Rightarrow> time option" where
  "analysisHourlyStatsEnd zone qf fullEnd =
     (case (uf_StartTime qf, uf_EndTime qf) of
        (Some start, Some stop) \<Rightarrow>
          if IsUsageRollingHourRange (uf_Range qf) \<or> IsUsageRollingDayRange (uf_Range qf)
          then Some (if fullEnd < stop then fullEnd + Hour else fullEnd)
          else if uf_Range qf = ''today'' \<or> uf_Range qf = ''yesterday''
          then map_option (\<lambda>b. if fullEnd < iv_End b then iv_End b else fullEnd) (day_interval zone start)
          else Some fullEnd
      | _ \<Rightarrow> Some fullEnd)"


section \<open>Rows\<close>

record analysisRow =
  pr_InstanceID :: string
  pr_BucketStart :: time
  pr_APIGroupKey :: string
  pr_Model :: string
  pr_AuthIndex :: string
  pr_RequestCount :: int
  pr_InputTokens :: int
  pr_OutputTokens :: int
  pr_ReasoningTokens :: int
  pr_CacheReadTokens :: int
  pr_CacheCreationTokens :: int
  pr_TotalTokens :: int
  pr_SpeedTPSSum :: float64
  pr_SpeedSampleCount :: int
  pr_CostUSD :: "float64 option"
  pr_UnavailableCostCount :: "int option"

definition analysis_row :: "usageOverviewStat \<Rightarrow> analysisRow" where
  "analysis_row r =
     \<lparr>pr_InstanceID = bk_InstanceID (os_Key r), pr_BucketStart = bk_BucketStart (os_Key r), pr_APIGroupKey = bk_APIGroupKey (os_Key r),
      pr_Model = bk_Model (os_Key r), pr_AuthIndex = bk_AuthIndex (os_Key r), pr_RequestCount = os_RequestCount r,
      pr_InputTokens = os_InputTokens r, pr_OutputTokens = os_OutputTokens r, pr_ReasoningTokens = os_ReasoningTokens r,
      pr_CacheReadTokens = os_CacheReadTokens r, pr_CacheCreationTokens = os_CacheCreationTokens r, pr_TotalTokens = os_TotalTokens r,
      pr_SpeedTPSSum = os_SpeedTPSSum r, pr_SpeedSampleCount = os_SpeedSampleCount r, pr_CostUSD = os_CostUSD r,
      pr_UnavailableCostCount = os_UnavailableCostCount r\<rparr>"

text \<open>The inner join with the active keys: a row for every key that matches.\<close>

definition active_rows :: "(string \<times> string) list \<Rightarrow> usageOverviewStat list \<Rightarrow> usageOverviewStat list" where
  "active_rows keys rows =
     concat (map (\<lambda>r. map (\<lambda>_. r) (filter (\<lambda>k. k = (bk_InstanceID (os_Key r), bk_APIGroupKey (os_Key r))) keys)) rows)"

fun reject_cost :: "analysisRow list \<Rightarrow> overviewQueryError + unit" where
  "reject_cost [] = Inr ()"
| "reject_cost (r # rows) =
     (case (pr_CostUSD r, pr_UnavailableCostCount r) of
        (Some cost, Some _) \<Rightarrow> if cost \<in> {NaN, PosInf, NegInf} then Inl (BucketNotFinite (pr_BucketStart r)) else reject_cost rows
      | _ \<Rightarrow> Inl (BucketNotBackfilled (pr_BucketStart r)))"

definition loadAnalysisOverviewStatProjection ::
    "zone \<Rightarrow> (string \<times> string) list \<Rightarrow> usageOverviewStat list \<Rightarrow> UsageQueryFilter \<Rightarrow> time \<Rightarrow> time \<Rightarrow> bucketGrain
      \<Rightarrow> (overviewQueryError + analysisRow list) option" where
  "loadAnalysisOverviewStatProjection zone keys table qf start stop grain =
     map_option (\<lambda>buckets.
       let selected = filter (\<lambda>r. bucket_selected zone buckets (bk_BucketStart (os_Key r)) \<and> row_in_scope qf r) (active_rows keys table);
           rows = map analysis_row (sort_key (\<lambda>r. (wall_seconds zone (bk_BucketStart (os_Key r)),
             offset_text (zs_offset (zone (unix (bk_BucketStart (os_Key r))))))) selected)
       in andThen (reject_cost rows) (\<lambda>_.
            Inr (sort_key pr_BucketStart (map (\<lambda>r. r\<lparr>pr_BucketStart := displayStart buckets (pr_BucketStart r)\<rparr>) rows))))
     (overviewBucketRead zone start stop grain)"

definition loadAnalysisOverviewHourlyStatsWithFilter ::
    "zone \<Rightarrow> (string \<times> string) list \<Rightarrow> overviewTables \<Rightarrow> UsageQueryFilter \<Rightarrow> time \<Rightarrow> time \<Rightarrow> (overviewQueryError + analysisRow list) option" where
  "loadAnalysisOverviewHourlyStatsWithFilter zone keys db qf start stop =
     loadAnalysisOverviewStatProjection zone keys (ot_hourly db) qf start stop HourlyGrain"

definition loadAnalysisOverviewDailyStatsWithFilter ::
    "zone \<Rightarrow> (string \<times> string) list \<Rightarrow> overviewTables \<Rightarrow> UsageQueryFilter \<Rightarrow> time \<Rightarrow> time \<Rightarrow> (overviewQueryError + analysisRow list) option" where
  "loadAnalysisOverviewDailyStatsWithFilter zone keys db qf start stop =
     loadAnalysisOverviewStatProjection zone keys (ot_daily db) qf start stop DailyGrain"

text \<open>\<open>loadAnalysisProjectionIdentityLookup\<close> asks for these identities.\<close>

definition projection_auth_indexes :: "analysisRow list \<Rightarrow> string list" where
  "projection_auth_indexes rows =
     foldl (\<lambda>seen row. let authIndex = TrimSpace (pr_AuthIndex row)
                      in if authIndex = '''' \<or> authIndex \<in> set seen then seen else seen @ [authIndex]) [] rows"


section \<open>The record\<close>

datatype AnalysisGranularity = AnalysisGranularityHourly | AnalysisGranularityDaily

record analysisTotals =
  an_Requests :: int
  an_InputTokens :: int
  an_OutputTokens :: int
  an_CacheReadTokens :: int
  an_CacheCreationTokens :: int
  an_ReasoningTokens :: int
  an_TotalTokens :: int
  an_CostUSD :: float64
  an_CostAvailable :: bool

record tokenUsageBucket =
  tu_Bucket :: time
  tu_Totals :: analysisTotals

record analysisModelUsage =
  mu_Bucket :: time
  mu_Model :: string
  mu_TotalTokens :: int
  mu_Requests :: int

record composition =
  co_InstanceID :: string
  co_Key :: string
  co_Label :: string
  co_Totals :: analysisTotals

record heatmapCell =
  hm_InstanceID :: string
  hm_APIKey :: string
  hm_Model :: string
  hm_Totals :: analysisTotals

record costSummary =
  cs_TotalCostUSD :: float64
  cs_CostAvailable :: bool

record modelEfficiency =
  me_Model :: string
  me_Totals :: analysisTotals
  me_CostPerRequestUSD :: float64
  me_OutputTokensPerRequest :: float64
  me_CacheReadRate :: float64

definition no_totals :: analysisTotals where
  "no_totals =
     \<lparr>an_Requests = 0, an_InputTokens = 0, an_OutputTokens = 0, an_CacheReadTokens = 0, an_CacheCreationTokens = 0,
      an_ReasoningTokens = 0, an_TotalTokens = 0, an_CostUSD = Fin 0, an_CostAvailable = True\<rparr>"

text \<open>The loader has found the two fees present.\<close>

definition row_cost :: "analysisRow \<Rightarrow> float64 \<times> bool" where
  "row_cost row =
     (case pr_CostUSD row of Some cost \<Rightarrow> cost | None \<Rightarrow> NaN, case pr_UnavailableCostCount row of Some n \<Rightarrow> n = 0 | None \<Rightarrow> False)"

definition applyAnalysisCompositionTotals :: "analysisRow \<Rightarrow> analysisTotals \<Rightarrow> analysisTotals" where
  "applyAnalysisCompositionTotals row t =
     (let (costUSD, costAvailable) = row_cost row
      in \<lparr>an_Requests = wrap64 (an_Requests t + pr_RequestCount row),
          an_InputTokens = wrap64 (an_InputTokens t + pr_InputTokens row),
          an_OutputTokens = wrap64 (an_OutputTokens t + pr_OutputTokens row),
          an_CacheReadTokens = wrap64 (an_CacheReadTokens t + pr_CacheReadTokens row),
          an_CacheCreationTokens = wrap64 (an_CacheCreationTokens t + pr_CacheCreationTokens row),
          an_ReasoningTokens = wrap64 (an_ReasoningTokens t + pr_ReasoningTokens row),
          an_TotalTokens = wrap64 (an_TotalTokens t + pr_TotalTokens row),
          an_CostUSD = fadd (an_CostUSD t) costUSD,
          an_CostAvailable = (if costAvailable then an_CostAvailable t else False)\<rparr>)"

section \<open>Speeds\<close>

definition analysisModelSpeedMaxBuckets :: int where "analysisModelSpeedMaxBuckets = 8"

record speedBucket =
  sb_Start :: time
  sb_End :: time

record analysisSpeedSeries =
  sv_Model :: string
  sv_TotalTokens :: int
  sv_SpeedSampleCount :: int
  sv_Samples :: "speedSample list"

record analysisModelSpeed =
  as_RangeStart :: time
  as_RangeEnd :: time
  as_Buckets :: "speedBucket list"
  as_Series :: "analysisSpeedSeries list"

record analysisSpeedAccumulator =
  aa_record :: analysisModelSpeed
  aa_models :: "(string \<times> analysisSpeedSeries) list"

text \<open>
  The first local day that begins in the range, then the starts of the days up to its end. A date that
  did not exist is skipped.
\<close>

partial_function (option) first_day :: "zone \<Rightarrow> time \<Rightarrow> CivilDate \<Rightarrow> (CivilDate \<times> time) option" where
  "first_day zone start date =
     Option.bind (DayBounds zone date) (\<lambda>bounds.
       if bounds \<noteq> None \<and> \<not> iv_Start (the bounds) < start then Some (date, iv_Start (the bounds))
       else Option.bind (first_day zone start (date_AddDays date 1)) Some)"

partial_function (option) day_boundaries :: "zone \<Rightarrow> time \<Rightarrow> CivilDate \<Rightarrow> time \<Rightarrow> time list option" where
  "day_boundaries zone stop date from =
     (if \<not> from < stop then Some [from]
      else Option.bind (DayBounds zone (date_AddDays date 1)) (\<lambda>bounds.
        case bounds of
          None \<Rightarrow> Option.bind (day_boundaries zone stop (date_AddDays date 1) from) Some
        | Some b \<Rightarrow>
            Option.bind (day_boundaries zone stop (date_AddDays date 1) (if stop < iv_Start b then stop else iv_Start b))
              (\<lambda>rest. Some (from # rest))))"

declare first_day.simps [code] day_boundaries.simps [code]

function hour_boundaries :: "time \<Rightarrow> time \<Rightarrow> time list" where
  "hour_boundaries stop from = (if from < stop then from # hour_boundaries stop (from + Hour) else [from])"
  by pat_completeness auto
termination by (relation "measure (\<lambda>(stop, from). nat (stop - from))") (simp_all add: Hour_def Minute_def Second_def)

declare hour_boundaries.simps [simp del]

definition grouped_buckets :: "time list \<Rightarrow> speedBucket list" where
  "grouped_buckets boundaries =
     (let count = int (length boundaries) - 1; bucketCount = min count analysisModelSpeedMaxBuckets
      in map (\<lambda>i.
           let first = i * (count sdiv bucketCount) + min i (count smod bucketCount);
               last = first + count sdiv bucketCount + (if i < count smod bucketCount then 1 else 0)
           in \<lparr>sb_Start = boundaries ! nat first, sb_End = boundaries ! nat last\<rparr>) [0..bucketCount - 1])"

definition newAnalysisModelSpeed :: "zone \<Rightarrow> time \<Rightarrow> time \<Rightarrow> bool \<Rightarrow> analysisSpeedAccumulator option" where
  "newAnalysisModelSpeed zone start stop daily =
     do {
       (start, boundaries) \<leftarrow> (if daily then
           do {
             (date, start) \<leftarrow> first_day zone start (DateOf zone start);
             boundaries \<leftarrow> day_boundaries zone stop date start;
             Some (start, boundaries)
           }
         else Some (start, hour_boundaries stop start));
       Some \<lparr>aa_record = \<lparr>as_RangeStart = start, as_RangeEnd = stop, as_Buckets = grouped_buckets boundaries, as_Series = []\<rparr>, aa_models = []\<rparr>
     }"

text \<open>\<open>sort.Search\<close> for the first bucket that ends later, on buckets in order: a search from the left.\<close>

definition analysis_speed_add :: "analysisRow \<Rightarrow> time \<Rightarrow> analysisSpeedAccumulator \<Rightarrow> analysisSpeedAccumulator" where
  "analysis_speed_add row bucket a =
     (let buckets = as_Buckets (aa_record a);
          index = length (takeWhile (\<lambda>b. \<not> bucket < sb_End b) buckets)
      in if index = length buckets \<or> bucket < sb_Start (buckets ! index) then a
         else
           let model = normalizeUsageOverviewDimension (pr_Model row);
               none = \<lparr>ss_SpeedTPSSum = Fin 0, ss_SpeedSampleCount = 0, ss_MeanTPS = None\<rparr>;
               fresh = \<lparr>sv_Model = model, sv_TotalTokens = 0, sv_SpeedSampleCount = 0, sv_Samples = replicate (length buckets) none\<rparr>;
               sampled = (\<lambda>s. s\<lparr>ss_SpeedTPSSum := fadd (ss_SpeedTPSSum s) (pr_SpeedTPSSum row),
                               ss_SpeedSampleCount := wrap64 (ss_SpeedSampleCount s + pr_SpeedSampleCount row)\<rparr>)
           in a\<lparr>aa_models := touch model fresh (\<lambda>s. s\<lparr>sv_TotalTokens := wrap64 (sv_TotalTokens s + pr_TotalTokens row),
                  sv_SpeedSampleCount := wrap64 (sv_SpeedSampleCount s + pr_SpeedSampleCount row),
                  sv_Samples := (sv_Samples s)[index := sampled (sv_Samples s ! index)]\<rparr>) (aa_models a)\<rparr>)"

definition analysis_speed_finalize ::
    "(analysisSpeedSeries list \<Rightarrow> analysisSpeedSeries list) \<Rightarrow> analysisSpeedAccumulator \<Rightarrow> analysisModelSpeed" where
  "analysis_speed_finalize order a =
     (let mean = (\<lambda>s. if 0 < ss_SpeedSampleCount s
                      then s\<lparr>ss_MeanTPS := Some (fdiv (ss_SpeedTPSSum s) (of_int64 (ss_SpeedSampleCount s)))\<rparr> else s)
      in (aa_record a)\<lparr>as_Series := sort_key (\<lambda>s. (- sv_TotalTokens s, sv_Model s))
           (as_Series (aa_record a) @ order (map (\<lambda>(_, s). s\<lparr>sv_Samples := map mean (sv_Samples s)\<rparr>) (aa_models a)))\<rparr>)"


section \<open>Folding the rows\<close>

record analysisState =
  an_bucketTotals :: "(time \<times> tokenUsageBucket) list"
  an_modelUsageTotals :: "((time \<times> string) \<times> analysisModelUsage) list"
  an_apiTotals :: "(string \<times> composition) list"
  an_modelTotals :: "(string \<times> composition) list"
  an_credentialTotals :: "(string \<times> composition) list"
  an_aiProviderTotals :: "(string \<times> composition) list"
  an_providerTotals :: "(string \<times> composition) list"
  an_heatmapTotals :: "((string \<times> string \<times> string) \<times> heatmapCell) list"
  an_costSummary :: costSummary
  an_speed :: analysisSpeedAccumulator

definition resolveAnalysisModelName :: "'loc resolver \<Rightarrow> analysisRow \<Rightarrow> string" where
  "resolveAnalysisModelName r row =
     ResolveModelName r \<lparr>ud_APIGroupKey = '''', ud_Model = pr_Model row, ud_AuthIndex = '''', ud_ModelAlias = '''', ud_ServiceTier = '''',
       ud_ResponseServiceTier = '''', ud_ReasoningEffort = '''', ud_Endpoint = '''', ud_ExecutorType = ''''\<rparr>"

definition add_composition :: "analysisRow \<Rightarrow> composition \<Rightarrow> composition" where
  "add_composition row c = c\<lparr>co_Totals := applyAnalysisCompositionTotals row (co_Totals c)\<rparr>"

definition new_composition :: "string \<Rightarrow> string \<Rightarrow> string \<Rightarrow> composition" where
  "new_composition instanceID key label = \<lparr>co_InstanceID = instanceID, co_Key = key, co_Label = label, co_Totals = no_totals\<rparr>"

definition applyAnalysisRow :: "time \<Rightarrow> string \<Rightarrow> analysisRow \<Rightarrow> analysisState \<Rightarrow> analysisState" where
  "applyAnalysisRow bucket model row st =
     (let apiKey = normalizeUsageOverviewDimension (pr_APIGroupKey row);
          modelName = normalizeUsageOverviewDimension model;
          apiScopeKey = analysisIdentityKey (pr_InstanceID row) apiKey;
          (costUSD, costAvailable) = row_cost row
      in st\<lparr>an_bucketTotals := touch bucket \<lparr>tu_Bucket = bucket, tu_Totals = no_totals\<rparr>
               (\<lambda>b. b\<lparr>tu_Totals := applyAnalysisCompositionTotals row (tu_Totals b)\<rparr>) (an_bucketTotals st),
            an_modelUsageTotals := touch (bucket, modelName) \<lparr>mu_Bucket = bucket, mu_Model = modelName, mu_TotalTokens = 0, mu_Requests = 0\<rparr>
               (\<lambda>u. u\<lparr>mu_TotalTokens := wrap64 (mu_TotalTokens u + pr_TotalTokens row),
                       mu_Requests := wrap64 (mu_Requests u + pr_RequestCount row)\<rparr>) (an_modelUsageTotals st),
            an_apiTotals := touch apiScopeKey (new_composition (pr_InstanceID row) apiKey '''') (add_composition row) (an_apiTotals st),
            an_modelTotals := touch modelName (new_composition '''' modelName '''') (add_composition row) (an_modelTotals st),
            an_heatmapTotals := touch (pr_InstanceID row, apiKey, modelName)
               \<lparr>hm_InstanceID = pr_InstanceID row, hm_APIKey = apiKey, hm_Model = modelName, hm_Totals = no_totals\<rparr>
               (\<lambda>h. h\<lparr>hm_Totals := applyAnalysisCompositionTotals row (hm_Totals h)\<rparr>) (an_heatmapTotals st),
            an_costSummary := \<lparr>cs_TotalCostUSD = fadd (cs_TotalCostUSD (an_costSummary st)) costUSD,
               cs_CostAvailable = (if costAvailable then cs_CostAvailable (an_costSummary st) else False)\<rparr>\<rparr>)"

definition lookup_find :: "identityLookup \<Rightarrow> UsageIdentityAuthType \<Rightarrow> string \<Rightarrow> string \<Rightarrow> analysisIdentityInfo option" where
  "lookup_find lookup authType instanceID identity = lookup authType (analysisIdentityKey instanceID identity)"

definition applyAnalysisIdentityCompositionTotal ::
    "string \<Rightarrow> analysisIdentityInfo \<Rightarrow> analysisRow \<Rightarrow> (string \<times> composition) list \<Rightarrow> (string \<times> composition) list" where
  "applyAnalysisIdentityCompositionTotal instanceID identity row totals =
     touch (analysisIdentityKey instanceID (ai_identity identity)) (new_composition instanceID (ai_identity identity) (ai_label identity))
       (add_composition row) totals"

definition applyAnalysisIdentityComposition :: "identityLookup \<Rightarrow> analysisRow \<Rightarrow> analysisState \<Rightarrow> analysisState" where
  "applyAnalysisIdentityComposition lookup row st =
     (let authIndex = TrimSpace (pr_AuthIndex row);
          find = (\<lambda>kind. lookup_find lookup kind (pr_InstanceID row) authIndex);
          count_identity = (\<lambda>kind totals. case find kind of
             None \<Rightarrow> totals | Some i \<Rightarrow> applyAnalysisIdentityCompositionTotal (pr_InstanceID row) i row totals);
          provider_of = (\<lambda>kind. case find kind of None \<Rightarrow> None | Some i \<Rightarrow> if ai_provider i = '''' then None else Some (ai_provider i));
          provider = (case provider_of UsageIdentityAuthTypeCredential of Some p \<Rightarrow> Some p | None \<Rightarrow> provider_of UsageIdentityAuthTypeAIProvider)
      in if authIndex = '''' then st
         else st\<lparr>an_credentialTotals := count_identity UsageIdentityAuthTypeCredential (an_credentialTotals st),
                 an_aiProviderTotals := count_identity UsageIdentityAuthTypeAIProvider (an_aiProviderTotals st),
                 an_providerTotals := (case provider of
                    None \<Rightarrow> an_providerTotals st
                  | Some p \<Rightarrow> touch p (new_composition '''' p p) (add_composition row) (an_providerTotals st))\<rparr>)"

section \<open>The answer\<close>

record analysisRecord =
  ar_Granularity :: AnalysisGranularity
  ar_RangeStart :: time
  ar_RangeEnd :: time
  ar_TokenUsage :: "tokenUsageBucket list"
  ar_ModelSpeed :: "analysisModelSpeed option"
  ar_ModelUsage :: "analysisModelUsage list"
  ar_APIKeyComposition :: "composition list"
  ar_ModelComposition :: "composition list"
  ar_CredentialsComposition :: "composition list"
  ar_AIProviderComposition :: "composition list"
  ar_ProviderComposition :: "composition list"
  ar_Heatmap :: "heatmapCell list"
  ar_CostSummary :: costSummary
  ar_ModelEfficiency :: "modelEfficiency list"

text \<open>
  The orders in which Go leaves what its maps and unstable sorts do not fix: of compositions and of
  heat map cells with equal rank. The other tables have distinct sort keys.
\<close>

record analysisOrders =
  od_compositions :: "composition list \<Rightarrow> composition list"
  od_cells :: "heatmapCell list \<Rightarrow> heatmapCell list"
  od_series :: "analysisSpeedSeries list \<Rightarrow> analysisSpeedSeries list"

definition sortAnalysisComposition :: "composition list \<Rightarrow> composition list" where
  "sortAnalysisComposition items = sort_key (\<lambda>c. (- an_TotalTokens (co_Totals c), co_Key c)) items"

definition buildAnalysisModelEfficiencyRecord :: "composition \<Rightarrow> modelEfficiency" where
  "buildAnalysisModelEfficiencyRecord item =
     (let t = co_Totals item
      in \<lparr>me_Model = co_Key item, me_Totals = t,
          me_CostPerRequestUSD = (if 0 < an_Requests t then fdiv (an_CostUSD t) (of_int64 (an_Requests t)) else Fin 0),
          me_OutputTokensPerRequest = (if 0 < an_Requests t then fdiv (of_int64 (an_OutputTokens t)) (of_int64 (an_Requests t)) else Fin 0),
          me_CacheReadRate = (if 0 < an_InputTokens t then fdiv (of_int64 (an_CacheReadTokens t)) (of_int64 (an_InputTokens t)) else Fin 0)\<rparr>)"

text \<open>Fees descending. A sum of finite fees is never a NaN, which would have no place in the order.\<close>

fun cost_rank :: "float64 \<Rightarrow> nat \<times> rat" where
  "cost_rank PosInf = (0, 0)"
| "cost_rank (Fin x) = (1, - x)"
| "cost_rank NegInf = (2, 0)"
| "cost_rank NaN = (3, 0)"

definition finalizeAnalysisRecord :: "analysisOrders \<Rightarrow> analysisState \<Rightarrow> analysisRecord \<Rightarrow> analysisRecord" where
  "finalizeAnalysisRecord order st record =
     (let sorted_by_use = (\<lambda>totals. sortAnalysisComposition (od_compositions order (map snd totals)))
      in record\<lparr>ar_TokenUsage := sort_key tu_Bucket (ar_TokenUsage record @ map snd (an_bucketTotals st)),
                ar_ModelUsage := sort_key (\<lambda>u. (mu_Bucket u, mu_Model u)) (map snd (an_modelUsageTotals st)),
                ar_APIKeyComposition := sorted_by_use (an_apiTotals st),
                ar_ModelComposition := sorted_by_use (an_modelTotals st),
                ar_ModelEfficiency := sort_key (\<lambda>e. (cost_rank (an_CostUSD (me_Totals e)), - an_TotalTokens (me_Totals e), me_Model e))
                   (map (\<lambda>(_, c). buildAnalysisModelEfficiencyRecord c) (an_modelTotals st)),
                ar_CredentialsComposition := sorted_by_use (an_credentialTotals st),
                ar_AIProviderComposition := sorted_by_use (an_aiProviderTotals st),
                ar_ProviderComposition := sorted_by_use (an_providerTotals st),
                ar_Heatmap := sort_key (\<lambda>h. (hm_APIKey h, hm_Model h)) (od_cells order (map snd (an_heatmapTotals st))),
                ar_CostSummary := an_costSummary st,
                ar_ModelSpeed := Some (analysis_speed_finalize (od_series order) (an_speed st))\<rparr>)"

definition start_analysis :: "analysisSpeedAccumulator \<Rightarrow> costSummary \<Rightarrow> analysisState" where
  "start_analysis speed summary =
     \<lparr>an_bucketTotals = [], an_modelUsageTotals = [], an_apiTotals = [], an_modelTotals = [], an_credentialTotals = [],
      an_aiProviderTotals = [], an_providerTotals = [], an_heatmapTotals = [], an_costSummary = summary, an_speed = speed\<rparr>"

text \<open>One turn of the loop over the rows; hourly buckets are cut to the hour.\<close>

definition analysis_turn :: "'loc resolver \<Rightarrow> identityLookup \<Rightarrow> bool \<Rightarrow> analysisState \<Rightarrow> analysisRow \<Rightarrow> analysisState" where
  "analysis_turn r lookup daily st row =
     (let bucket = (if daily then pr_BucketStart row else truncate_hour (pr_BucketStart row));
          st = st\<lparr>an_speed := analysis_speed_add row bucket (an_speed st)\<rparr>
      in applyAnalysisIdentityComposition lookup row (applyAnalysisRow bucket (resolveAnalysisModelName r row) row st))"

definition applyAnalysisHourlyRows ::
    "analysisOrders \<Rightarrow> 'loc resolver \<Rightarrow> zone \<Rightarrow> identityLookup \<Rightarrow> analysisRow list \<Rightarrow> time \<Rightarrow> time \<Rightarrow> analysisRecord \<Rightarrow> analysisRecord option" where
  "applyAnalysisHourlyRows order r zone lookup rows start stop record =
     map_option (\<lambda>speed. finalizeAnalysisRecord order
         (foldl (analysis_turn r lookup False) (start_analysis speed (ar_CostSummary record)) rows) record)
       (newAnalysisModelSpeed zone start stop False)"

definition applyAnalysisDailyRows ::
    "analysisOrders \<Rightarrow> 'loc resolver \<Rightarrow> zone \<Rightarrow> identityLookup \<Rightarrow> analysisRow list \<Rightarrow> time \<Rightarrow> time \<Rightarrow> analysisRecord \<Rightarrow> analysisRecord option" where
  "applyAnalysisDailyRows order r zone lookup rows start stop record =
     map_option (\<lambda>speed. finalizeAnalysisRecord order
         (foldl (analysis_turn r lookup True) (start_analysis speed (ar_CostSummary record)) rows) record)
       (newAnalysisModelSpeed zone start stop True)"

definition fillAnalysisFullDayHourlyBuckets :: "zone \<Rightarrow> UsageQueryFilter \<Rightarrow> analysisRecord \<Rightarrow> analysisRecord option" where
  "fillAnalysisFullDayHourlyBuckets zone qf record =
     (case uf_StartTime qf of
        None \<Rightarrow> Some record
      | Some localStart \<Rightarrow>
          if ar_Granularity record \<noteq> AnalysisGranularityHourly \<or> uf_Range qf \<noteq> ''today'' \<and> uf_Range qf \<noteq> ''yesterday'' then Some record
          else
            map_option (\<lambda>bounds.
              let start = truncate_hour localStart;
                  bucketByTime = map_of (rev (map (\<lambda>b. (truncate_hour (tu_Bucket b), b)) (ar_TokenUsage record)))
              in record\<lparr>ar_TokenUsage := map (\<lambda>k. case bucketByTime (start + k * Hour) of
                     Some b \<Rightarrow> b | None \<Rightarrow> \<lparr>tu_Bucket = start + k * Hour, tu_Totals = no_totals\<rparr>)
                   [0..(iv_End bounds - start) div Hour]\<rparr>)
              (day_interval zone localStart))"

definition BuildAnalysisWithFilter ::
    "analysisOrders \<Rightarrow> 'loc resolver \<Rightarrow> zone \<Rightarrow> (string \<times> string) list \<Rightarrow> overviewTables \<Rightarrow> identityLookup \<Rightarrow> UsageQueryFilter
      \<Rightarrow> (overviewQueryError + analysisRecord) option" where
  "BuildAnalysisWithFilter order r zone keys db lookup qf =
     (case (uf_StartTime qf, uf_EndTime qf) of
        (Some start, Some stop) \<Rightarrow>
          do {
            bucketByDay \<leftarrow> analysisUsesDailyStats zone qf;
            let record = \<lparr>ar_Granularity = (if bucketByDay then AnalysisGranularityDaily else AnalysisGranularityHourly),
                          ar_RangeStart = start, ar_RangeEnd = stop, ar_TokenUsage = [], ar_ModelSpeed = None, ar_ModelUsage = [],
                          ar_APIKeyComposition = [], ar_ModelComposition = [], ar_CredentialsComposition = [],
                          ar_AIProviderComposition = [], ar_ProviderComposition = [], ar_Heatmap = [],
                          ar_CostSummary = \<lparr>cs_TotalCostUSD = Fin 0, cs_CostAvailable = True\<rparr>, ar_ModelEfficiency = []\<rparr>;
            if bucketByDay then
              do {
                (dailyStart, dailyEnd) \<leftarrow>
                  (if IsUsageRollingDayRange (uf_Range qf) then analysisRollingDayWindow zone start stop else Some (start, stop));
                rows \<leftarrow> loadAnalysisOverviewDailyStatsWithFilter zone keys db qf dailyStart dailyEnd;
                case rows of
                  Inl err \<Rightarrow> Some (Inl err)
                | Inr dailyRows \<Rightarrow> map_option Inr (applyAnalysisDailyRows order r zone lookup dailyRows dailyStart dailyEnd
                    (record\<lparr>ar_RangeStart := dailyStart, ar_RangeEnd := dailyEnd\<rparr>))
              }
            else
              do {
                let (fullStart, fullEnd) = usageOverviewFullHourWindow start stop;
                fullEnd \<leftarrow> analysisHourlyStatsEnd zone qf fullEnd;
                if \<not> fullStart < fullEnd then Some (Inr record)
                else
                  do {
                    rows \<leftarrow> loadAnalysisOverviewHourlyStatsWithFilter zone keys db qf fullStart fullEnd;
                    case rows of
                      Inl err \<Rightarrow> Some (Inl err)
                    | Inr hourlyRows \<Rightarrow>
                        do {
                          record \<leftarrow> applyAnalysisHourlyRows order r zone lookup hourlyRows fullStart fullEnd record;
                          map_option Inr (fillAnalysisFullDayHourlyBuckets zone qf record)
                        }
                  }
              }
          }
      | _ \<Rightarrow> Some (Inl RangeMissing))"

end
