(* ===== verification/Analysis_Exact.thy ===== *)
theory Analysis_Exact
  imports Analysis_Query Overview_Exact
begin

text \<open>
  What the analysis page shows. First the tables over the rows they fold: each holds one entry for every
  key that occurs, the 64-bit sum of the rows of that key. Then the rows over the events from which the
  aggregation built them, so that each entry is the sum over exactly the events of its key in the range.
\<close>

section \<open>A table of totals\<close>

text \<open>
  \<open>items\<close> tabulates \<open>es\<close>: one entry for every key, its columns the sums over the elements with that key.
  An element without a key is in no entry.
\<close>

definition tabulates :: "('e list \<Rightarrow> 'c) \<Rightarrow> ('e \<Rightarrow> 'k option) \<Rightarrow> ('r \<Rightarrow> 'k) \<Rightarrow> ('r \<Rightarrow> 'c) \<Rightarrow> 'e list \<Rightarrow> 'r list \<Rightarrow> bool" where
  "tabulates added key item_key columns es items \<longleftrightarrow>
     distinct (map item_key items) \<and> Some ` item_key ` set items = key ` set es - {None} \<and>
     (\<forall>x\<in>set items. columns x = added (filter (\<lambda>e. key e = Some (item_key x)) es))"

lemma tabulates_mset:
  assumes "mset items' = mset items"
  shows "tabulates added key item_key columns es items' \<longleftrightarrow> tabulates added key item_key columns es items"
proof -
  have "mset (map item_key items') = mset (map item_key items)" by (simp add: assms)
  then have "distinct (map item_key items') = distinct (map item_key items)" by (rule mset_eq_imp_distinct_iff)
  with mset_eq_setD [OF assms] show ?thesis by (simp add: tabulates_def)
qed

definition count_in :: "('e \<Rightarrow> 'k option) \<Rightarrow> ('e \<Rightarrow> 'r) \<Rightarrow> ('e \<Rightarrow> 'r \<Rightarrow> 'r) \<Rightarrow> ('k \<times> 'r) list \<Rightarrow> 'e \<Rightarrow> ('k \<times> 'r) list" where
  "count_in key fresh add t e = (case key e of None \<Rightarrow> t | Some k \<Rightarrow> touch k (fresh e) (add e) t)"

lemma count_in_collect:
  "foldl (count_in key fresh add) t es = collect (\<lambda>e. the (key e)) fresh add t (filter (\<lambda>e. key e \<noteq> None) es)"
  by (induction es arbitrary: t) (auto simp: count_in_def split: option.splits)

locale totals_table =
  fixes key :: "'e \<Rightarrow> 'k option" and fresh :: "'e \<Rightarrow> 'r" and add :: "'e \<Rightarrow> 'r \<Rightarrow> 'r" and item_key :: "'r \<Rightarrow> 'k"
    and columns :: "'r \<Rightarrow> 'c" and added :: "'e list \<Rightarrow> 'c"
  assumes fresh_key: "key e = Some k \<Longrightarrow> item_key (fresh e) = k"
    and add_key: "item_key (add e r) = item_key r"
    and added: "columns (foldl (\<lambda>r e. add e r) (fresh e) es) = added es"
begin

lemma folded_key: "item_key (foldl (\<lambda>r e. add e r) r es) = item_key r"
  by (induction es arbitrary: r) (simp_all add: add_key)

lemma table_tabulates: "tabulates added key item_key columns es (map snd (foldl (count_in key fresh add) [] es))"
proof -
  let ?keyed = "filter (\<lambda>e. key e \<noteq> None) es"
  define t where "t = foldl (count_in key fresh add) [] es"
  have t: "t = collect (\<lambda>e. the (key e)) fresh add [] ?keyed" by (simp add: t_def count_in_collect)
  have dist: "distinct (map fst t)" unfolding t by (rule collect_distinct) simp
  have entry: "item_key r = k \<and> columns r = added (filter (\<lambda>e. key e = Some k) es)" if "(k, r) \<in> set t" for k r
  proof -
    have "row_of (\<lambda>e. the (key e)) fresh add ?keyed k = Some r"
      using map_of_is_SomeI [OF dist that] by (simp add: t collect_lookup)
    moreover have "filter (\<lambda>e. the (key e) = k) ?keyed = filter (\<lambda>e. key e = Some k) es" by (auto intro: filter_cong)
    ultimately obtain e rest where es: "filter (\<lambda>e. key e = Some k) es = e # rest" "r = foldl (\<lambda>r e. add e r) (fresh e) (e # rest)"
      by (auto simp: row_of_def split: list.splits)
    from es(1) have "key e = Some k" by (auto simp: filter_eq_Cons_iff)
    with es show ?thesis by (simp only: folded_key fresh_key added)
  qed
  then have same: "map item_key (map snd t) = map fst t" by (fastforce intro: map_cong simp: comp_def)
  have "Some ` set (map fst t) = key ` set es - {None}"
    using collect_keys [of "\<lambda>e. the (key e)" fresh add ?keyed] by (force simp: t image_iff)
  then have "Some ` item_key ` set (map snd t) = key ` set es - {None}" by (simp only: set_map [symmetric] same)
  moreover have "distinct (map item_key (map snd t))" by (simp only: same dist)
  ultimately show ?thesis using entry by (auto simp: tabulates_def t_def [symmetric])
qed

end

section \<open>The tables of the analysis\<close>

definition totals_columns :: "analysisTotals \<Rightarrow> int list" where
  "totals_columns t =
     [an_Requests t, an_InputTokens t, an_OutputTokens t, an_CacheReadTokens t, an_CacheCreationTokens t, an_ReasoningTokens t, an_TotalTokens t]"

definition row_sums :: "analysisRow list \<Rightarrow> int list" where
  "row_sums rows = map wrap64
     [\<Sum>r\<leftarrow>rows. pr_RequestCount r, \<Sum>r\<leftarrow>rows. pr_InputTokens r, \<Sum>r\<leftarrow>rows. pr_OutputTokens r, \<Sum>r\<leftarrow>rows. pr_CacheReadTokens r,
      \<Sum>r\<leftarrow>rows. pr_CacheCreationTokens r, \<Sum>r\<leftarrow>rows. pr_ReasoningTokens r, \<Sum>r\<leftarrow>rows. pr_TotalTokens r]"

definition use_sums :: "analysisRow list \<Rightarrow> int list" where
  "use_sums rows = map wrap64 [\<Sum>r\<leftarrow>rows. pr_TotalTokens r, \<Sum>r\<leftarrow>rows. pr_RequestCount r]"

lemma folded_totals:
  "totals_columns (foldl (\<lambda>t r. applyAnalysisCompositionTotals r t) no_totals rows) = row_sums rows"
proof -
  let ?add = "applyAnalysisCompositionTotals"
  have zero: "an_Requests no_totals = 0" "an_InputTokens no_totals = 0" "an_OutputTokens no_totals = 0" "an_CacheReadTokens no_totals = 0"
      "an_CacheCreationTokens no_totals = 0" "an_ReasoningTokens no_totals = 0" "an_TotalTokens no_totals = 0"
    by (simp_all add: no_totals_def)
  note column = column_fold [where add = ?add and r = no_totals and es = rows]
  show ?thesis
    unfolding totals_columns_def row_sums_def list.map
    using column [where f = an_Requests and g = pr_RequestCount] column [where f = an_InputTokens and g = pr_InputTokens]
      column [where f = an_OutputTokens and g = pr_OutputTokens] column [where f = an_CacheReadTokens and g = pr_CacheReadTokens]
      column [where f = an_CacheCreationTokens and g = pr_CacheCreationTokens]
      column [where f = an_ReasoningTokens and g = pr_ReasoningTokens] column [where f = an_TotalTokens and g = pr_TotalTokens]
    by (simp add: zero applyAnalysisCompositionTotals_def split_beta int64_bounds)
qed

text \<open>The keys, by which a row is in an entry of each table.\<close>

definition bucket_of :: "bool \<Rightarrow> analysisRow \<Rightarrow> time" where
  "bucket_of daily row = (if daily then pr_BucketStart row else truncate_hour (pr_BucketStart row))"

definition model_of :: "'loc resolver \<Rightarrow> analysisRow \<Rightarrow> string" where
  "model_of r row = normalizeUsageOverviewDimension (resolveAnalysisModelName r row)"

definition api_of :: "analysisRow \<Rightarrow> string" where
  "api_of row = normalizeUsageOverviewDimension (pr_APIGroupKey row)"

definition identity_of :: "identityLookup \<Rightarrow> UsageIdentityAuthType \<Rightarrow> analysisRow \<Rightarrow> analysisIdentityInfo option" where
  "identity_of lookup kind row =
     (if TrimSpace (pr_AuthIndex row) = '''' then None
      else lookup kind (analysisIdentityKey (pr_InstanceID row) (TrimSpace (pr_AuthIndex row))))"

definition provider_of :: "identityLookup \<Rightarrow> analysisRow \<Rightarrow> string option" where
  "provider_of lookup row =
     (case filter (\<lambda>p. p \<noteq> '''') (map ai_provider
        (List.map_filter (\<lambda>kind. identity_of lookup kind row) [UsageIdentityAuthTypeCredential, UsageIdentityAuthTypeAIProvider])) of
        [] \<Rightarrow> None | p # _ \<Rightarrow> Some p)"

definition scope_key :: "composition \<Rightarrow> string" where
  "scope_key c = analysisIdentityKey (co_InstanceID c) (co_Key c)"

definition cell_key :: "heatmapCell \<Rightarrow> string \<times> string \<times> string" where
  "cell_key h = (hm_InstanceID h, hm_APIKey h, hm_Model h)"

text \<open>One turn counts the row into each of the tables.\<close>

definition count_identity_in :: "identityLookup \<Rightarrow> UsageIdentityAuthType \<Rightarrow> (string \<times> composition) list \<Rightarrow> analysisRow \<Rightarrow> (string \<times> composition) list" where
  "count_identity_in lookup kind = count_in
     (\<lambda>row. map_option (\<lambda>i. analysisIdentityKey (pr_InstanceID row) (ai_identity i)) (identity_of lookup kind row))
     (\<lambda>row. case identity_of lookup kind row of None \<Rightarrow> new_composition '''' '''' ''''
        | Some i \<Rightarrow> new_composition (pr_InstanceID row) (ai_identity i) (ai_label i))
     add_composition"

definition fresh_bucket :: "bool \<Rightarrow> analysisRow \<Rightarrow> tokenUsageBucket" where
  "fresh_bucket daily row = \<lparr>tu_Bucket = bucket_of daily row, tu_Totals = no_totals\<rparr>"

definition add_to_bucket :: "analysisRow \<Rightarrow> tokenUsageBucket \<Rightarrow> tokenUsageBucket" where
  "add_to_bucket row b = b\<lparr>tu_Totals := applyAnalysisCompositionTotals row (tu_Totals b)\<rparr>"

definition fresh_use :: "'loc resolver \<Rightarrow> bool \<Rightarrow> analysisRow \<Rightarrow> analysisModelUsage" where
  "fresh_use r daily row = \<lparr>mu_Bucket = bucket_of daily row, mu_Model = model_of r row, mu_TotalTokens = 0, mu_Requests = 0\<rparr>"

definition add_to_use :: "analysisRow \<Rightarrow> analysisModelUsage \<Rightarrow> analysisModelUsage" where
  "add_to_use row u = u\<lparr>mu_TotalTokens := wrap64 (mu_TotalTokens u + pr_TotalTokens row), mu_Requests := wrap64 (mu_Requests u + pr_RequestCount row)\<rparr>"

definition fresh_cell :: "'loc resolver \<Rightarrow> analysisRow \<Rightarrow> heatmapCell" where
  "fresh_cell r row = \<lparr>hm_InstanceID = pr_InstanceID row, hm_APIKey = api_of row, hm_Model = model_of r row, hm_Totals = no_totals\<rparr>"

definition add_to_cell :: "analysisRow \<Rightarrow> heatmapCell \<Rightarrow> heatmapCell" where
  "add_to_cell row h = h\<lparr>hm_Totals := applyAnalysisCompositionTotals row (hm_Totals h)\<rparr>"

definition use_key :: "analysisModelUsage \<Rightarrow> time \<times> string" where
  "use_key u = (mu_Bucket u, mu_Model u)"

definition use_columns :: "analysisModelUsage \<Rightarrow> int list" where
  "use_columns u = [mu_TotalTokens u, mu_Requests u]"

lemma folded_composition: "co_Totals (foldl (\<lambda>c r. add_composition r c) c rows) = foldl (\<lambda>t r. applyAnalysisCompositionTotals r t) (co_Totals c) rows"
  by (induction rows arbitrary: c) (simp_all add: add_composition_def)

lemma folded_bucket: "tu_Totals (foldl (\<lambda>b r. add_to_bucket r b) b rows) = foldl (\<lambda>t r. applyAnalysisCompositionTotals r t) (tu_Totals b) rows"
  by (induction rows arbitrary: b) (simp_all add: add_to_bucket_def)

lemma folded_cell: "hm_Totals (foldl (\<lambda>h r. add_to_cell r h) h rows) = foldl (\<lambda>t r. applyAnalysisCompositionTotals r t) (hm_Totals h) rows"
  by (induction rows arbitrary: h) (simp_all add: add_to_cell_def)

lemma folded_use: "use_columns (foldl (\<lambda>u r. add_to_use r u) (fresh_use rs daily row) rows) = use_sums rows"
  unfolding use_columns_def use_sums_def list.map
  using column_fold [where add = add_to_use and r = "fresh_use rs daily row" and es = rows and f = mu_TotalTokens and g = pr_TotalTokens]
    column_fold [where add = add_to_use and r = "fresh_use rs daily row" and es = rows and f = mu_Requests and g = pr_RequestCount]
  by (simp add: add_to_use_def fresh_use_def int64_bounds)

lemma fresh_entries [simp]:
  "co_InstanceID (new_composition i k l) = i" "co_Key (new_composition i k l) = k" "co_Totals (new_composition i k l) = no_totals"
  "tu_Bucket (fresh_bucket daily row) = bucket_of daily row" "tu_Totals (fresh_bucket daily row) = no_totals"
  "cell_key (fresh_cell r row) = (pr_InstanceID row, api_of row, model_of r row)" "hm_Totals (fresh_cell r row) = no_totals"
  "use_key (fresh_use r daily row) = (bucket_of daily row, model_of r row)"
  by (simp_all add: new_composition_def fresh_bucket_def fresh_cell_def cell_key_def use_key_def fresh_use_def)

lemma kept_keys [simp]:
  "co_InstanceID (add_composition row c) = co_InstanceID c" "co_Key (add_composition row c) = co_Key c"
  "tu_Bucket (add_to_bucket row b) = tu_Bucket b" "cell_key (add_to_cell row h) = cell_key h" "use_key (add_to_use row u) = use_key u"
  by (simp_all add: add_composition_def add_to_bucket_def add_to_cell_def cell_key_def use_key_def add_to_use_def)

lemmas table_laws = folded_composition folded_bucket folded_cell folded_totals folded_use scope_key_def

interpretation trend: totals_table "\<lambda>row. Some (bucket_of daily row)" "fresh_bucket daily" add_to_bucket tu_Bucket
    "\<lambda>b. totals_columns (tu_Totals b)" row_sums for daily
  by unfold_locales (simp_all add: table_laws)

interpretation uses: totals_table "\<lambda>row. Some (bucket_of daily row, model_of r row)" "fresh_use r daily" add_to_use use_key use_columns use_sums for daily r
  by unfold_locales (simp_all add: table_laws)

interpretation apis: totals_table "\<lambda>row. Some (analysisIdentityKey (pr_InstanceID row) (api_of row))"
    "\<lambda>row. new_composition (pr_InstanceID row) (api_of row) ''''" add_composition scope_key "\<lambda>c. totals_columns (co_Totals c)" row_sums
  by unfold_locales (simp_all add: table_laws)

interpretation models: totals_table "\<lambda>row. Some (model_of r row)" "\<lambda>row. new_composition '''' (model_of r row) ''''" add_composition co_Key
    "\<lambda>c. totals_columns (co_Totals c)" row_sums for r
  by unfold_locales (simp_all add: table_laws)

interpretation cells: totals_table "\<lambda>row. Some (pr_InstanceID row, api_of row, model_of r row)" "fresh_cell r" add_to_cell cell_key
    "\<lambda>h. totals_columns (hm_Totals h)" row_sums for r
  by unfold_locales (simp_all add: table_laws)

interpretation identities: totals_table
    "\<lambda>row. map_option (\<lambda>i. analysisIdentityKey (pr_InstanceID row) (ai_identity i)) (identity_of lookup kind row)"
    "\<lambda>row. case identity_of lookup kind row of None \<Rightarrow> new_composition '''' '''' ''''
       | Some i \<Rightarrow> new_composition (pr_InstanceID row) (ai_identity i) (ai_label i)"
    add_composition scope_key "\<lambda>c. totals_columns (co_Totals c)" row_sums for lookup kind
  by unfold_locales (auto simp: table_laws split: option.splits)

interpretation providers: totals_table "provider_of lookup" "\<lambda>row. new_composition '''' (the (provider_of lookup row)) (the (provider_of lookup row))"
    add_composition co_Key "\<lambda>c. totals_columns (co_Totals c)" row_sums for lookup
  by unfold_locales (simp_all add: table_laws)

lemma analysis_turn_tables:
  fixes st :: analysisState
  shows "an_bucketTotals (analysis_turn r lookup daily st row) = count_in (\<lambda>row. Some (bucket_of daily row)) (fresh_bucket daily) add_to_bucket (an_bucketTotals st) row"
    and "an_modelUsageTotals (analysis_turn r lookup daily st row) =
      count_in (\<lambda>row. Some (bucket_of daily row, model_of r row)) (fresh_use r daily) add_to_use (an_modelUsageTotals st) row"
    and "an_apiTotals (analysis_turn r lookup daily st row) = count_in (\<lambda>row. Some (analysisIdentityKey (pr_InstanceID row) (api_of row)))
      (\<lambda>row. new_composition (pr_InstanceID row) (api_of row) '''') add_composition (an_apiTotals st) row"
    and "an_modelTotals (analysis_turn r lookup daily st row) =
      count_in (\<lambda>row. Some (model_of r row)) (\<lambda>row. new_composition '''' (model_of r row) '''') add_composition (an_modelTotals st) row"
    and "an_heatmapTotals (analysis_turn r lookup daily st row) =
      count_in (\<lambda>row. Some (pr_InstanceID row, api_of row, model_of r row)) (fresh_cell r) add_to_cell (an_heatmapTotals st) row"
    and "an_credentialTotals (analysis_turn r lookup daily st row) = count_identity_in lookup UsageIdentityAuthTypeCredential (an_credentialTotals st) row"
    and "an_aiProviderTotals (analysis_turn r lookup daily st row) = count_identity_in lookup UsageIdentityAuthTypeAIProvider (an_aiProviderTotals st) row"
    and "an_providerTotals (analysis_turn r lookup daily st row) = count_in (provider_of lookup)
      (\<lambda>row. new_composition '''' (the (provider_of lookup row)) (the (provider_of lookup row))) add_composition (an_providerTotals st) row"
    and "an_speed (analysis_turn r lookup daily st row) = analysis_speed_add row (bucket_of daily row) (an_speed st)"
    and "an_costSummary (analysis_turn r lookup daily st row) = \<lparr>cs_TotalCostUSD = fadd (cs_TotalCostUSD (an_costSummary st)) (fst (row_cost row)),
      cs_CostAvailable = (cs_CostAvailable (an_costSummary st) \<and> snd (row_cost row))\<rparr>"
  by (simp_all add: analysis_turn_def applyAnalysisIdentityComposition_def applyAnalysisRow_def Let_def split_beta lookup_find_def count_in_def
    count_identity_in_def applyAnalysisIdentityCompositionTotal_def bucket_of_def model_of_def api_of_def identity_of_def provider_of_def
    fresh_bucket_def [abs_def] add_to_bucket_def [abs_def] fresh_use_def [abs_def] add_to_use_def [abs_def] fresh_cell_def [abs_def] add_to_cell_def [abs_def] map_filter_simps split: option.splits)

text \<open>
  The tables of an answer, over any list whose elements are \<open>placed\<close> in rows and \<open>added\<close> up: the rows themselves
  or the events.
\<close>

definition tables_exact ::
    "('e \<Rightarrow> analysisRow) \<Rightarrow> ('e list \<Rightarrow> int list) \<Rightarrow> 'loc resolver \<Rightarrow> identityLookup \<Rightarrow> bool \<Rightarrow> 'e list \<Rightarrow> analysisRecord \<Rightarrow> bool" where
  "tables_exact placed added r lookup daily es answer \<longleftrightarrow>
     tabulates (\<lambda>es. [added es ! 6, added es ! 0]) (\<lambda>e. Some (bucket_of daily (placed e), model_of r (placed e))) use_key use_columns
       es (ar_ModelUsage answer)
     \<and> tabulates added (\<lambda>e. Some (analysisIdentityKey (pr_InstanceID (placed e)) (api_of (placed e)))) scope_key
         (\<lambda>c. totals_columns (co_Totals c)) es (ar_APIKeyComposition answer)
     \<and> tabulates added (\<lambda>e. Some (model_of r (placed e))) co_Key (\<lambda>c. totals_columns (co_Totals c)) es (ar_ModelComposition answer)
     \<and> tabulates added (\<lambda>e. map_option (\<lambda>i. analysisIdentityKey (pr_InstanceID (placed e)) (ai_identity i))
           (identity_of lookup UsageIdentityAuthTypeCredential (placed e))) scope_key
         (\<lambda>c. totals_columns (co_Totals c)) es (ar_CredentialsComposition answer)
     \<and> tabulates added (\<lambda>e. map_option (\<lambda>i. analysisIdentityKey (pr_InstanceID (placed e)) (ai_identity i))
           (identity_of lookup UsageIdentityAuthTypeAIProvider (placed e))) scope_key
         (\<lambda>c. totals_columns (co_Totals c)) es (ar_AIProviderComposition answer)
     \<and> tabulates added (\<lambda>e. provider_of lookup (placed e)) co_Key (\<lambda>c. totals_columns (co_Totals c)) es (ar_ProviderComposition answer)
     \<and> tabulates added (\<lambda>e. Some (pr_InstanceID (placed e), api_of (placed e), model_of r (placed e))) cell_key
         (\<lambda>h. totals_columns (hm_Totals h)) es (ar_Heatmap answer)"

definition trend_exact :: "('e \<Rightarrow> analysisRow) \<Rightarrow> ('e list \<Rightarrow> int list) \<Rightarrow> bool \<Rightarrow> 'e list \<Rightarrow> tokenUsageBucket list \<Rightarrow> bool" where
  "trend_exact placed added daily es trend \<longleftrightarrow>
     tabulates added (\<lambda>e. Some (bucket_of daily (placed e))) tu_Bucket (\<lambda>b. totals_columns (tu_Totals b)) es trend
     \<and> sorted_wrt (<) (map tu_Bucket trend)"

text \<open>Go may take the entries of its maps, and those that its sort holds equal, in any order.\<close>

definition any_order :: "analysisOrders \<Rightarrow> bool" where
  "any_order order \<longleftrightarrow> (\<forall>xs. mset (od_compositions order xs) = mset xs) \<and> (\<forall>xs. mset (od_cells order xs) = mset xs)
     \<and> (\<forall>xs. mset (od_series order xs) = mset xs)"

lemma fold_project: "(\<And>st x. f (turn st x) = g (f st) x) \<Longrightarrow> f (foldl turn st xs) = foldl g (f st) xs"
  by (induction xs arbitrary: st) simp_all

lemma started:
  "an_bucketTotals (start_analysis speed summary) = []" "an_modelUsageTotals (start_analysis speed summary) = []"
  "an_apiTotals (start_analysis speed summary) = []" "an_modelTotals (start_analysis speed summary) = []"
  "an_credentialTotals (start_analysis speed summary) = []" "an_aiProviderTotals (start_analysis speed summary) = []"
  "an_providerTotals (start_analysis speed summary) = []" "an_heatmapTotals (start_analysis speed summary) = []"
  by (simp_all add: start_analysis_def)

lemma use_of_row_sums: "[row_sums rows ! 6, row_sums rows ! 0] = use_sums rows"
  by (simp add: row_sums_def use_sums_def)

abbreviation folded :: "'loc resolver \<Rightarrow> identityLookup \<Rightarrow> bool \<Rightarrow> analysisSpeedAccumulator \<Rightarrow> costSummary \<Rightarrow> analysisRow list \<Rightarrow> analysisState" where
  "folded r lookup daily speed summary rows \<equiv> foldl (analysis_turn r lookup daily) (start_analysis speed summary) rows"

lemmas turns = fold_project [where turn = "analysis_turn r lookup daily" for r :: "'loc resolver" and lookup daily]

lemma folded_tables:
  fixes speed :: analysisSpeedAccumulator and summary :: costSummary
  shows "tabulates row_sums (\<lambda>row. Some (bucket_of daily row)) tu_Bucket (\<lambda>b. totals_columns (tu_Totals b)) rows
      (map snd (an_bucketTotals (folded r lookup daily speed summary rows)))"
    and "tabulates use_sums (\<lambda>row. Some (bucket_of daily row, model_of r row)) use_key use_columns rows
      (map snd (an_modelUsageTotals (folded r lookup daily speed summary rows)))"
    and "tabulates row_sums (\<lambda>row. Some (analysisIdentityKey (pr_InstanceID row) (api_of row))) scope_key (\<lambda>c. totals_columns (co_Totals c)) rows
       (map snd (an_apiTotals (folded r lookup daily speed summary rows)))"
    and "tabulates row_sums (\<lambda>row. Some (model_of r row)) co_Key (\<lambda>c. totals_columns (co_Totals c)) rows
      (map snd (an_modelTotals (folded r lookup daily speed summary rows)))"
    and "tabulates row_sums (\<lambda>row. map_option (\<lambda>i. analysisIdentityKey (pr_InstanceID row) (ai_identity i))
         (identity_of lookup UsageIdentityAuthTypeCredential row)) scope_key (\<lambda>c. totals_columns (co_Totals c)) rows
      (map snd (an_credentialTotals (folded r lookup daily speed summary rows)))"
    and "tabulates row_sums (\<lambda>row. map_option (\<lambda>i. analysisIdentityKey (pr_InstanceID row) (ai_identity i))
         (identity_of lookup UsageIdentityAuthTypeAIProvider row)) scope_key (\<lambda>c. totals_columns (co_Totals c)) rows
      (map snd (an_aiProviderTotals (folded r lookup daily speed summary rows)))"
    and "tabulates row_sums (provider_of lookup) co_Key (\<lambda>c. totals_columns (co_Totals c)) rows
      (map snd (an_providerTotals (folded r lookup daily speed summary rows)))"
    and "tabulates row_sums (\<lambda>row. Some (pr_InstanceID row, api_of row, model_of r row)) cell_key (\<lambda>h. totals_columns (hm_Totals h)) rows
       (map snd (an_heatmapTotals (folded r lookup daily speed summary rows)))"
  unfolding turns [where f = an_bucketTotals, OF analysis_turn_tables(1)]
    turns [where f = an_modelUsageTotals, OF analysis_turn_tables(2)] turns [where f = an_apiTotals, OF analysis_turn_tables(3)]
    turns [where f = an_modelTotals, OF analysis_turn_tables(4)] turns [where f = an_heatmapTotals, OF analysis_turn_tables(5)]
    turns [where f = an_credentialTotals, OF analysis_turn_tables(6)] turns [where f = an_aiProviderTotals, OF analysis_turn_tables(7)]
    turns [where f = an_providerTotals, OF analysis_turn_tables(8)] count_identity_in_def started
  by (rule trend.table_tabulates uses.table_tabulates apis.table_tabulates models.table_tabulates cells.table_tabulates
      identities.table_tabulates providers.table_tabulates)+

lemma finalized_tables:
  fixes r :: "'loc resolver" and lookup :: identityLookup and daily :: bool and speed :: analysisSpeedAccumulator and summary :: costSummary
    and rows :: "analysisRow list" and order :: analysisOrders and answer :: analysisRecord
  assumes "any_order order" and "ar_TokenUsage answer = []"
  defines "result \<equiv> finalizeAnalysisRecord order (folded r lookup daily speed summary rows) answer"
  shows "tables_exact (\<lambda>row. row) row_sums r lookup daily rows result" and "trend_exact (\<lambda>row. row) row_sums daily rows (ar_TokenUsage result)"
proof -
  let ?st = "folded r lookup daily speed summary rows"
  have perm: "mset (od_compositions order xs) = mset xs" "mset (od_cells order cs) = mset cs" for xs cs
    using assms(1) by (simp_all add: any_order_def)
  have lists: "mset (ar_ModelUsage result) = mset (map snd (an_modelUsageTotals ?st))"
      "mset (ar_APIKeyComposition result) = mset (map snd (an_apiTotals ?st))"
      "mset (ar_ModelComposition result) = mset (map snd (an_modelTotals ?st))"
      "mset (ar_CredentialsComposition result) = mset (map snd (an_credentialTotals ?st))"
      "mset (ar_AIProviderComposition result) = mset (map snd (an_aiProviderTotals ?st))"
      "mset (ar_ProviderComposition result) = mset (map snd (an_providerTotals ?st))"
      "mset (ar_Heatmap result) = mset (map snd (an_heatmapTotals ?st))"
    by (simp_all add: result_def finalizeAnalysisRecord_def sortAnalysisComposition_def Let_def perm del: mset_map)
  show "tables_exact (\<lambda>row. row) row_sums r lookup daily rows result"
    unfolding tables_exact_def use_of_row_sums lists [THEN tabulates_mset] by (intro conjI folded_tables)
  have trend: "ar_TokenUsage result = sort_key tu_Bucket (map snd (an_bucketTotals ?st))"
    by (simp add: result_def finalizeAnalysisRecord_def Let_def assms(2))
  have "mset (ar_TokenUsage result) = mset (map snd (an_bucketTotals ?st))" unfolding trend by simp
  from tabulates_mset [OF this] folded_tables(1)
  have "tabulates row_sums (\<lambda>row. Some (bucket_of daily row)) tu_Bucket (\<lambda>b. totals_columns (tu_Totals b)) rows (ar_TokenUsage result)"
    by blast
  then show "trend_exact (\<lambda>row. row) row_sums daily rows (ar_TokenUsage result)"
    by (simp add: trend_exact_def tabulates_def strict_sorted_iff trend)
qed

section \<open>Rows and events\<close>

definition event_sums :: "usageEvent list \<Rightarrow> int list" where
  "event_sums es = map wrap64
     [int (length es), \<Sum>e\<leftarrow>es. ue_InputTokens e, \<Sum>e\<leftarrow>es. ue_OutputTokens e, \<Sum>e\<leftarrow>es. ue_CacheReadTokens e,
      \<Sum>e\<leftarrow>es. ue_CacheCreationTokens e, \<Sum>e\<leftarrow>es. ue_ReasoningTokens e, \<Sum>e\<leftarrow>es. ue_TotalTokens e]"

text \<open>What places a row in the tables: all but its counts and fees. The row of an event is one that counts nothing yet.\<close>

definition bare :: "analysisRow \<Rightarrow> analysisRow" where
  "bare row = row\<lparr>pr_RequestCount := 0, pr_InputTokens := 0, pr_OutputTokens := 0, pr_ReasoningTokens := 0, pr_CacheReadTokens := 0,
     pr_CacheCreationTokens := 0, pr_TotalTokens := 0, pr_SpeedTPSSum := Fin 0, pr_SpeedSampleCount := 0, pr_CostUSD := Some (Fin 0),
     pr_UnavailableCostCount := Some 0\<rparr>"

definition placed_by :: "(usageEvent \<Rightarrow> BucketKey) \<Rightarrow> usageEvent \<Rightarrow> analysisRow" where
  "placed_by key e = analysis_row (newRow (key e))"

lemma bare_analysis_row: "bare (analysis_row r) = analysis_row (newRow (os_Key r))"
  by (simp add: bare_def analysis_row_def newRow_def)

definition stands_for :: "(usageEvent \<Rightarrow> analysisRow) \<Rightarrow> usageEvent list \<Rightarrow> analysisRow list \<Rightarrow> bool" where
  "stands_for placed es rows \<longleftrightarrow>
     bare ` set rows = placed ` set es
     \<and> (\<forall>P. row_sums (filter (\<lambda>row. P (bare row)) rows) = event_sums (filter (\<lambda>e. P (placed e)) es))"

lemma tabulates_events:
  assumes "stands_for placed es rows" and "\<And>row. key (bare row) = key row"
    and "\<And>es' rows'. row_sums rows' = event_sums es' \<Longrightarrow> f rows' = g es'"
  shows "tabulates f key item_key columns rows items \<longleftrightarrow> tabulates g (\<lambda>e. key (placed e)) item_key columns es items"
proof -
  have "key ` set rows = key ` bare ` set rows" by (simp add: image_image assms(2))
  also have "\<dots> = (\<lambda>e. key (placed e)) ` set es" using assms(1) by (simp add: stands_for_def image_image)
  finally have "key ` set rows = (\<lambda>e. key (placed e)) ` set es" .
  moreover have "f (filter (\<lambda>row. key row = Some k) rows) = g (filter (\<lambda>e. key (placed e) = Some k) es)" for k
  proof (rule assms(3))
    have "row_sums (filter (\<lambda>row. key (bare row) = Some k) rows) = event_sums (filter (\<lambda>e. key (placed e) = Some k) es)"
      using assms(1) [unfolded stands_for_def, THEN conjunct2, THEN spec, of "\<lambda>row. key row = Some k"] .
    then show "row_sums (filter (\<lambda>row. key row = Some k) rows) = event_sums (filter (\<lambda>e. key (placed e) = Some k) es)"
      by (simp only: assms(2))
  qed
  ultimately show ?thesis by (simp add: tabulates_def)
qed

lemma bare_fields [simp]:
  "pr_InstanceID (bare row) = pr_InstanceID row" "pr_BucketStart (bare row) = pr_BucketStart row"
  "pr_APIGroupKey (bare row) = pr_APIGroupKey row" "pr_Model (bare row) = pr_Model row" "pr_AuthIndex (bare row) = pr_AuthIndex row"
  by (simp_all add: bare_def)

lemma bare_keys [simp]:
  "bucket_of daily (bare row) = bucket_of daily row" "model_of r (bare row) = model_of r row" "api_of (bare row) = api_of row"
  "identity_of lookup kind (bare row) = identity_of lookup kind row"
  by (simp_all add: bucket_of_def model_of_def resolveAnalysisModelName_def api_of_def identity_of_def)

lemma bare_provider [simp]: "provider_of lookup (bare row) = provider_of lookup row"
  by (simp add: provider_of_def)

lemma exact_over_events:
  assumes "stands_for placed es rows"
  shows "tables_exact (\<lambda>row. row) row_sums r lookup daily rows answer \<longleftrightarrow> tables_exact placed event_sums r lookup daily es answer"
    and "trend_exact (\<lambda>row. row) row_sums daily rows trend \<longleftrightarrow> trend_exact placed event_sums daily es trend"
proof -
  note over = tabulates_events [OF assms]
  show "tables_exact (\<lambda>row. row) row_sums r lookup daily rows answer \<longleftrightarrow> tables_exact placed event_sums r lookup daily es answer"
    unfolding tables_exact_def by (intro arg_cong2 [where f = "(\<and>)"]; rule over; simp)
  show "trend_exact (\<lambda>row. row) row_sums daily rows trend \<longleftrightarrow> trend_exact placed event_sums daily es trend"
    unfolding trend_exact_def by (rule arg_cong2 [where f = "(\<and>)"], rule over) simp_all
qed

definition active :: "(string \<times> string) list \<Rightarrow> usageEvent \<Rightarrow> bool" where
  "active keys e \<longleftrightarrow> (ue_InstanceID e, ue_APIGroupKey e) \<in> set keys"

lemma filter_same: "distinct xs \<Longrightarrow> filter (\<lambda>k. k = x) xs = (if x \<in> set xs then [x] else [])"
  by (induction xs) (auto simp: filter_empty_conv)

lemma active_rows_filter:
  "distinct keys \<Longrightarrow> active_rows keys rows = filter (\<lambda>r. (bk_InstanceID (os_Key r), bk_APIGroupKey (os_Key r)) \<in> set keys) rows"
  by (induction rows) (simp_all add: active_rows_def filter_same)

text \<open>The fee of a row is the sum over the events of its key; \<open>unpaid\<close> are the buckets of events whose row has no finite fee.\<close>

definition row_fee :: "(usageEvent \<Rightarrow> BucketKey) \<Rightarrow> usageEvent list \<Rightarrow> BucketKey \<Rightarrow> float64" where
  "row_fee key events k = foldl fadd (Fin 0) (List.map_filter ue_CostUSD (filter (\<lambda>e. key e = k) events))"

definition unpaid :: "(usageEvent \<Rightarrow> BucketKey) \<Rightarrow> usageEvent list \<Rightarrow> usageEvent list \<Rightarrow> time set" where
  "unpaid key events es = (\<lambda>e. bk_BucketStart (key e)) ` {e \<in> set es. \<not> finite_fee (row_fee key events (key e))}"

lemma reject_cost_exact:
  "\<forall>row\<in>set rows. pr_CostUSD row \<noteq> None \<and> pr_UnavailableCostCount row \<noteq> None \<Longrightarrow>
     case reject_cost rows of
       Inl err \<Rightarrow> \<exists>t \<in> pr_BucketStart ` {row \<in> set rows. \<not> finite_fee (the (pr_CostUSD row))}. err = BucketNotFinite t
     | Inr _ \<Rightarrow> \<forall>row\<in>set rows. finite_fee (the (pr_CostUSD row))"
proof (induction rows)
  case (Cons row rows)
  then obtain cost where cost: "pr_CostUSD row = Some cost" and "pr_UnavailableCostCount row \<noteq> None" by auto
  with Cons show ?case
    by (cases cost) (auto simp: finite_fee_def split: option.splits sum.splits)
qed simp

lemma event_sums_rows:
  assumes table: "table_of key events table"
  shows "row_sums (map analysis_row (filter (\<lambda>r. P (os_Key r)) table)) = event_sums (filter (\<lambda>e. P (key e)) events)"
proof -
  note total = table_sum [where a = 0 and P = P, OF table]
  show ?thesis
    unfolding row_sums_def event_sums_def list.map map_map comp_def
    using total [where sv = os_RequestCount and ev = "\<lambda>e. 1"] total [where sv = os_InputTokens and ev = ue_InputTokens]
      total [where sv = os_OutputTokens and ev = ue_OutputTokens] total [where sv = os_CacheReadTokens and ev = ue_CacheReadTokens]
      total [where sv = os_CacheCreationTokens and ev = ue_CacheCreationTokens]
      total [where sv = os_ReasoningTokens and ev = ue_ReasoningTokens] total [where sv = os_TotalTokens and ev = ue_TotalTokens]
    by (simp add: row_exact_def analysis_row_def sum_list_triv)
qed

lemma row_sums_mset: "mset rows = mset rows' \<Longrightarrow> row_sums rows = row_sums rows'"
  unfolding row_sums_def by (intro arg_cong [of _ _ "map wrap64"] arg_cong2 [of _ _ _ _ "(#)"] sum_list_mset_eq refl)

lemma selected_stand:
  assumes table: "table_of key events table" and rows: "mset rows = mset (map analysis_row (filter (\<lambda>r. P (os_Key r)) table))"
  shows "stands_for (placed_by key) (filter (\<lambda>e. P (key e)) events) rows"
proof -
  let ?selected = "map analysis_row (filter (\<lambda>r. P (os_Key r)) table)"
  have "row_sums (filter (\<lambda>row. Q (bare row)) rows) = event_sums (filter (\<lambda>e. Q (placed_by key e)) (filter (\<lambda>e. P (key e)) events))" for Q
  proof -
    have "mset (filter (\<lambda>row. Q (bare row)) rows) = mset (filter (\<lambda>row. Q (bare row)) ?selected)" by (simp only: mset_filter rows)
    also have "filter (\<lambda>row. Q (bare row)) ?selected =
        map analysis_row (filter (\<lambda>r. P (os_Key r) \<and> Q (analysis_row (newRow (os_Key r)))) table)"
      by (simp add: filter_map comp_def bare_analysis_row)
    finally have "row_sums (filter (\<lambda>row. Q (bare row)) rows) = row_sums \<dots>" by (rule row_sums_mset)
    also have "\<dots> = event_sums (filter (\<lambda>e. P (key e) \<and> Q (analysis_row (newRow (key e)))) events)"
      by (rule event_sums_rows [OF table])
    finally show ?thesis by (simp add: placed_by_def)
  qed
  moreover have "bare ` set rows = placed_by key ` set (filter (\<lambda>e. P (key e)) events)"
  proof -
    have "bare ` set rows = (\<lambda>k. analysis_row (newRow k)) ` {k \<in> os_Key ` set table. P k}"
      unfolding mset_eq_setD [OF rows] set_map image_image bare_analysis_row by auto
    also have "os_Key ` set table = key ` set events" using table by (simp add: table_of_def)
    finally show ?thesis by (auto simp: placed_by_def)
  qed
  ultimately show ?thesis by (simp add: stands_for_def)
qed

text \<open>The rows that a query loads stand for exactly the events of its range with an active key.\<close>

definition in_window :: "UsageQueryFilter \<Rightarrow> (string \<times> string) list \<Rightarrow> time \<Rightarrow> time \<Rightarrow> usageEvent list \<Rightarrow> usageEvent list" where
  "in_window qf keys start stop events =
     filter (\<lambda>e. event_in_scope qf e \<and> active keys e \<and> start \<le> ue_Timestamp e \<and> ue_Timestamp e < stop) events"

lemma loaded_rows:
  assumes table: "table_of key events table" and plain: "plain_scope qf events" and keys: "distinct keys"
    and key: "\<forall>e\<in>set events. key e = event_dimensions e (bucket e)"
    and read: "overviewBucketRead zone start stop grain = Some b"
    and sel: "\<forall>e\<in>set events. bucket_selected zone b (bucket e) \<longleftrightarrow> start \<le> ue_Timestamp e \<and> ue_Timestamp e < stop"
    and shown: "\<forall>e\<in>set events. displayStart b (bucket e) = bucket e"
  shows "\<exists>result. loadAnalysisOverviewStatProjection zone keys table qf start stop grain = Some result
    \<and> (case result of Inl err \<Rightarrow> \<exists>t\<in>unpaid key events (in_window qf keys start stop events). err = BucketNotFinite t
       | Inr rows \<Rightarrow> unpaid key events (in_window qf keys start stop events) = {}
           \<and> stands_for (placed_by key) (in_window qf keys start stop events) rows)"
proof -
  define P where "P k \<longleftrightarrow> bucket_selected zone b (bk_BucketStart k) \<and> row_in_scope qf (newRow k) \<and> (bk_InstanceID k, bk_APIGroupKey k) \<in> set keys" for k
  define selected where "selected = filter (\<lambda>r. P (os_Key r)) table"
  have scope: "row_in_scope qf r \<longleftrightarrow> row_in_scope qf (newRow (os_Key r))" for r :: usageOverviewStat
    by (simp add: row_in_scope_def newRow_def cong: option.case_cong)
  have loaded: "filter (\<lambda>r. bucket_selected zone b (bk_BucketStart (os_Key r)) \<and> row_in_scope qf r) (active_rows keys table) = selected"
    unfolding selected_def P_def active_rows_filter [OF keys] filter_filter by (rule filter_cong) (use scope in auto)
  have rowD: "\<exists>e\<in>set events. os_Key r = key e" "os_CostUSD r \<noteq> None \<and> os_UnavailableCostCount r \<noteq> None" if "r \<in> set table" for r
  proof -
    show "\<exists>e\<in>set events. os_Key r = key e" using table that by (auto simp: table_of_def)
    show "os_CostUSD r \<noteq> None \<and> os_UnavailableCostCount r \<noteq> None" using table that by (auto simp: table_of_def row_exact_def)
  qed
  have P: "P (key e) \<longleftrightarrow> event_in_scope qf e \<and> active keys e \<and> start \<le> ue_Timestamp e \<and> ue_Timestamp e < stop" if e: "e \<in> set events" for e
  proof -
    have k: "key e = event_dimensions e (bucket e)" using key e by simp
    have "row_in_scope qf (newRow (key e)) \<longleftrightarrow> event_in_scope qf e"
      by (rule plain_scope_rows [OF plain e]) (simp add: k newRow_def)
    moreover have "normalizeRequiredDimension (ue_APIGroupKey e) = ue_APIGroupKey e" using plain e by (simp add: plain_scope_def)
    ultimately show ?thesis using sel e by (auto simp: P_def k event_dimensions_def active_def)
  qed
  then have window: "filter (\<lambda>e. P (key e)) events = in_window qf keys start stop events"
    unfolding in_window_def by (intro filter_cong) simp_all
  define rows where "rows = map analysis_row (sort_key (\<lambda>r. (wall_seconds zone (bk_BucketStart (os_Key r)),
    offset_text (zs_offset (zone (unix (bk_BucketStart (os_Key r))))))) selected)"
  have start: "displayStart b (pr_BucketStart row) = pr_BucketStart row" if "row \<in> set rows" for row
  proof -
    from that obtain r where "r \<in> set table" "pr_BucketStart row = bk_BucketStart (os_Key r)"
      by (auto simp: rows_def selected_def analysis_row_def)
    with rowD(1) key shown show ?thesis by (force simp: event_dimensions_def)
  qed
  then have "map (\<lambda>row. row\<lparr>pr_BucketStart := displayStart b (pr_BucketStart row)\<rparr>) rows = rows"
    by (simp add: map_idI)
  then have result: "loadAnalysisOverviewStatProjection zone keys table qf start stop grain =
      Some (andThen (reject_cost rows) (\<lambda>_. Inr (sort_key pr_BucketStart rows)))"
    by (simp add: loadAnalysisOverviewStatProjection_def read Let_def loaded rows_def [symmetric] del: map_map)
  have fee: "pr_CostUSD row \<noteq> None \<and> pr_UnavailableCostCount row \<noteq> None" if "row \<in> set rows" for row
    using rowD(2) that by (auto simp: rows_def selected_def analysis_row_def)
  have "pr_BucketStart ` {row \<in> set rows. \<not> finite_fee (the (pr_CostUSD row))} = unpaid key events (in_window qf keys start stop events)"
  proof -
    have "os_CostUSD r = Some (row_fee key events (os_Key r))" if "r \<in> set table" for r
      using table that by (simp add: table_of_def row_exact_def row_fee_def)
    then have "pr_BucketStart ` {row \<in> set rows. \<not> finite_fee (the (pr_CostUSD row))} =
        bk_BucketStart ` {k \<in> os_Key ` set table. P k \<and> \<not> finite_fee (row_fee key events k)}"
      by (force simp: rows_def selected_def analysis_row_def)
    also have "os_Key ` set table = key ` set events" using table by (simp add: table_of_def)
    finally show ?thesis unfolding window [symmetric] unpaid_def by (auto simp: image_iff)
  qed
  moreover have "{row \<in> set rows. \<not> finite_fee (the (pr_CostUSD row))} = {} \<longleftrightarrow> (\<forall>row\<in>set rows. finite_fee (the (pr_CostUSD row)))" by auto
  moreover note reject_cost_exact [of rows] fee
  moreover have "stands_for (placed_by key) (in_window qf keys start stop events) (sort_key pr_BucketStart rows)"
    unfolding window [symmetric] by (rule selected_stand [OF table]) (simp add: rows_def selected_def)
  ultimately show ?thesis by (cases "reject_cost rows") (auto simp: result)
qed

definition analysis_key :: "zone \<Rightarrow> bool \<Rightarrow> usageEvent \<Rightarrow> BucketKey" where
  "analysis_key zone daily = (if daily then day_key zone else hour_key)"

lemma hourly_rows:
  assumes "overview_zone zone" and "built_from zone db" and "plain_scope qf (ot_events db)" and "distinct keys"
    and "whole_hour start" and "whole_hour stop" and "start \<le> stop"
  shows "\<exists>result. loadAnalysisOverviewHourlyStatsWithFilter zone keys db qf start stop = Some result
    \<and> (case result of Inl err \<Rightarrow> \<exists>t\<in>unpaid hour_key (ot_events db) (in_window qf keys start stop (ot_events db)). err = BucketNotFinite t
       | Inr rows \<Rightarrow> unpaid hour_key (ot_events db) (in_window qf keys start stop (ot_events db)) = {}
           \<and> stands_for (placed_by hour_key) (in_window qf keys start stop (ot_events db)) rows)"
proof -
  obtain b where b: "overviewBucketRead zone start stop HourlyGrain = Some b" "br_displayStarts b = []"
      "\<forall>k. whole_hour k \<longrightarrow> bucket_selected zone b k = (start \<le> k \<and> k < stop)"
    using hourly_zone.hourly_selected [OF hourly_zone.intro [OF assms(1)] assms(5-7)] by blast
  have "\<forall>e\<in>set (ot_events db). bucket_selected zone b (truncate_hour (ue_Timestamp e)) \<longleftrightarrow> start \<le> ue_Timestamp e \<and> ue_Timestamp e < stop"
    using b(3) truncate_hour(3) truncate_hour_le_iff [OF assms(5)] truncate_hour_le_iff [OF assms(6)] by (simp add: not_le [symmetric])
  moreover have "table_of hour_key (ot_events db) (ot_hourly db)" using assms(2) by (simp add: built_from_def)
  ultimately show ?thesis
    unfolding loadAnalysisOverviewHourlyStatsWithFilter_def
    by (intro loaded_rows [where bucket = "\<lambda>e. truncate_hour (ue_Timestamp e)" and b = b])
       (simp_all add: assms(3,4) b(1,2) hour_key_def displayStart_def)
qed

lemma daily_rows:
  assumes "overview_zone zone" and "built_from zone db" and "plain_scope qf (ot_events db)" and "distinct keys" and "d1 \<le> d2"
  shows "\<exists>result. loadAnalysisOverviewDailyStatsWithFilter zone keys db qf (midnight zone d1 * Second) (midnight zone d2 * Second) = Some result
    \<and> (let es = in_window qf keys (midnight zone d1 * Second) (midnight zone d2 * Second) (ot_events db)
       in case result of Inl err \<Rightarrow> \<exists>t\<in>unpaid (day_key zone) (ot_events db) es. err = BucketNotFinite t
       | Inr rows \<Rightarrow> unpaid (day_key zone) (ot_events db) es = {} \<and> stands_for (placed_by (day_key zone))
           (in_window qf keys (midnight zone d1 * Second) (midnight zone d2 * Second) (ot_events db)) rows)"
proof -
  note hz = hourly_zone.intro [OF assms(1)]
  have start: "day_start zone t = midnight zone (wall_day zone t) * Second" for t
    using assms(1) by (simp add: regular_zone.day_start_midnight regular_zone.intro overview_zone_def)
  obtain b where b: "overviewBucketRead zone (midnight zone d1 * Second) (midnight zone d2 * Second) DailyGrain = Some b"
      "\<forall>d. bucket_selected zone b (midnight zone d * Second) = (d1 \<le> d \<and> d < d2)"
      "\<forall>d. displayStart b (midnight zone d * Second) = midnight zone d * Second"
    using hourly_zone.daily_selected [OF hz assms(5)] by blast
  have "table_of (day_key zone) (ot_events db) (ot_daily db)" using assms(2) by (simp add: built_from_def)
  then show ?thesis
    unfolding loadAnalysisOverviewDailyStatsWithFilter_def Let_def
    by (intro loaded_rows [where bucket = "\<lambda>e. day_start zone (ue_Timestamp e)" and b = b])
       (simp_all add: assms(3,4) b day_key_def start hourly_zone.day_between [OF hz])
qed

section \<open>The intervals of the speeds\<close>

lemma hour_boundaries_value:
  "hour_boundaries stop start = map (\<lambda>k. start + int k * Hour) [0..<Suc (nat (- ((start - stop) div Hour)))]"
proof (induction stop start rule: hour_boundaries.induct)
  case (1 stop start)
  have h: "0 < Hour" by (simp add: Hour_def Minute_def Second_def)
  show ?case
  proof (cases "start < stop")
    case True
    have "(start + Hour - stop) div Hour = (start - stop) div Hour + 1"
      using div_add_self2 [of Hour "start - stop"] h by (simp add: algebra_simps)
    moreover have "(start - stop) div Hour < 0" using True h by (simp add: div_neg_pos_less0)
    ultimately have n: "nat (- ((start - stop) div Hour)) = Suc (nat (- ((start + Hour - stop) div Hour)))" by simp
    have "hour_boundaries stop start = start # hour_boundaries stop (start + Hour)" using True by (subst hour_boundaries.simps) simp
    also have "\<dots> = start # map (\<lambda>k. start + int (Suc k) * Hour) [0..<Suc (nat (- ((start + Hour - stop) div Hour)))]"
      unfolding 1 [OF True] by (simp add: algebra_simps)
    also have "\<dots> = map (\<lambda>k. start + int k * Hour) (0 # map Suc [0..<Suc (nat (- ((start + Hour - stop) div Hour)))])"
      by (simp add: comp_def)
    also have "0 # map Suc [0..<Suc (nat (- ((start + Hour - stop) div Hour)))] = [0..<Suc (nat (- ((start - stop) div Hour)))]"
      unfolding n map_Suc_upt by (simp add: upt_conv_Cons del: upt_Suc)
    finally show ?thesis .
  next
    case False
    with h have "0 \<le> (start - stop) div Hour" by (simp add: pos_imp_zdiv_nonneg_iff)
    with False show ?thesis by (subst hour_boundaries.simps) simp
  qed
qed

text \<open>Of \<open>n\<close> source buckets in \<open>m\<close> groups, the number that lie before group \<open>i\<close>.\<close>

definition group_start :: "nat \<Rightarrow> nat \<Rightarrow> nat \<Rightarrow> nat" where
  "group_start n m i = i * (n div m) + min i (n mod m)"

lemma group_steps:
  "group_start n m 0 = 0" "0 < m \<Longrightarrow> group_start n m m = n" "group_start n m (Suc i) = group_start n m i + n div m + (if i < n mod m then 1 else 0)"
proof -
  show "group_start n m 0 = 0" "group_start n m (Suc i) = group_start n m i + n div m + (if i < n mod m then 1 else 0)" by (simp_all add: group_start_def min_def)
  assume "0 < m"
  then have "n mod m < m" by simp
  then have "min m (n mod m) = n mod m" by linarith
  then show "group_start n m m = n" by (simp add: group_start_def)
qed

lemma group_bound: "0 < m \<Longrightarrow> i \<le> m \<Longrightarrow> group_start n m i \<le> n"
proof -
  assume "0 < m" "i \<le> m"
  then have "group_start n m i \<le> m * (n div m) + n mod m" unfolding group_start_def by (intro add_mono mult_right_mono) simp_all
  then show ?thesis by simp
qed

lemma grouped_edges:
  assumes "0 < n" and m: "m = min n 8"
  shows "length (grouped_buckets (map f [0..<Suc n])) = m"
    and "i < m \<Longrightarrow> grouped_buckets (map f [0..<Suc n]) ! i = \<lparr>sb_Start = f (group_start n m i), sb_End = f (group_start n m (Suc i))\<rparr>"
proof -
  have pos: "0 < m" "int m = min (int n) 8" using assms by simp_all
  have div: "int n sdiv int m = int (n div m)" "int n smod int m = int (n mod m)"
    unfolding signed_divide_int_def signed_modulo_int_def using pos(1) assms(1) by (simp_all add: zdiv_int zmod_int)
  have "int (length (map f [0..<Suc n])) - 1 = int n" by simp
  then have groups: "grouped_buckets (map f [0..<Suc n]) = map (\<lambda>i. \<lparr>sb_Start = map f [0..<Suc n] ! nat (i * int (n div m) + min i (int (n mod m))),
      sb_End = map f [0..<Suc n] ! nat (i * int (n div m) + min i (int (n mod m)) + int (n div m) + (if i < int (n mod m) then 1 else 0))\<rparr>) [0..int m - 1]"
    unfolding grouped_buckets_def Let_def analysisModelSpeedMaxBuckets_def by (simp only: pos(2) [symmetric] div)
  then show "length (grouped_buckets (map f [0..<Suc n])) = m" by simp
  show "grouped_buckets (map f [0..<Suc n]) ! i = \<lparr>sb_Start = f (group_start n m i), sb_End = f (group_start n m (Suc i))\<rparr>" if "i < m"
  proof -
    have "group_start n m i \<le> n" "group_start n m (Suc i) \<le> n" using that pos(1) by (simp_all add: group_bound)
    moreover have "int i * int (n div m) + min (int i) (int (n mod m)) = int (group_start n m i)" by (simp add: group_start_def)
    moreover from this have "int i * int (n div m) + min (int i) (int (n mod m)) + int (n div m) + (if int i < int (n mod m) then 1 else 0) = int (group_start n m (Suc i))"
      by (simp add: group_steps(3))
    ultimately show ?thesis unfolding groups using that by (simp add: nth_upto nth_append del: upt_Suc)
  qed
qed

context hourly_zone
begin

lemma first_day_value: "first_day zone (midnight zone d * Second) d = Some (d, midnight zone d * Second)"
  by (subst first_day.simps) (simp add: bounds_of_day)

lemma day_boundaries_value:
  "d1 \<le> d2 \<Longrightarrow> day_boundaries zone (midnight zone d2 * Second) d1 (midnight zone d1 * Second) =
     Some (map (\<lambda>d. midnight zone d * Second) [d1..d2])"
proof (induction "nat (d2 - d1)" arbitrary: d1)
  case 0
  then show ?case by (subst day_boundaries.simps) simp
next
  case (Suc n)
  then have less: "d1 < d2" by simp
  with Suc(2) have "n = nat (d2 - (d1 + 1))" "d1 + 1 \<le> d2" by simp_all
  note IH = Suc(1) [OF this]
  have "[d1..d2] = d1 # [d1 + 1..d2]" using less by (simp add: upto_rec1)
  moreover have "(if midnight zone d2 * Second < midnight zone (d1 + 1) * Second then midnight zone d2 * Second else midnight zone (d1 + 1) * Second)
      = midnight zone (d1 + 1) * Second"
    using less by (simp add: midnight_times)
  ultimately show ?case
    by (subst day_boundaries.simps) (use less in \<open>simp add: bounds_of_day midnight_times date_AddDays_def IH del: upto.simps\<close>)
qed

lemma daily_speed:
  assumes "d1 \<le> d2"
  shows "newAnalysisModelSpeed zone (midnight zone d1 * Second) (midnight zone d2 * Second) True =
    Some \<lparr>aa_record = \<lparr>as_RangeStart = midnight zone d1 * Second, as_RangeEnd = midnight zone d2 * Second,
        as_Buckets = grouped_buckets (map (\<lambda>d. midnight zone d * Second) [d1..d2]), as_Series = []\<rparr>, aa_models = []\<rparr>"
proof -
  have "DateOf zone (midnight zone d1 * Second) = d1" by (simp add: DateOf_def wall_day_def wall_midnight)
  then show ?thesis by (simp add: newAnalysisModelSpeed_def first_day_value day_boundaries_value [OF assms])
qed

end

lemma hourly_speed:
  "newAnalysisModelSpeed zone start stop False =
    Some \<lparr>aa_record = \<lparr>as_RangeStart = start, as_RangeEnd = stop, as_Buckets = grouped_buckets (hour_boundaries stop start), as_Series = []\<rparr>,
      aa_models = []\<rparr>"
  by (simp add: newAnalysisModelSpeed_def)

section \<open>The series of the speeds\<close>

definition speed_slot :: "speedBucket list \<Rightarrow> time \<Rightarrow> nat option" where
  "speed_slot buckets t =
     (let i = length (takeWhile (\<lambda>b. \<not> t < sb_End b) buckets)
      in if i = length buckets \<or> t < sb_Start (buckets ! i) then None else Some i)"

definition speed_key :: "speedBucket list \<Rightarrow> bool \<Rightarrow> analysisRow \<Rightarrow> string option" where
  "speed_key buckets daily row =
     map_option (\<lambda>_. normalizeUsageOverviewDimension (pr_Model row)) (speed_slot buckets (bucket_of daily row))"

definition no_sample :: speedSample where
  "no_sample = \<lparr>ss_SpeedTPSSum = Fin 0, ss_SpeedSampleCount = 0, ss_MeanTPS = None\<rparr>"

definition fresh_series :: "speedBucket list \<Rightarrow> analysisRow \<Rightarrow> analysisSpeedSeries" where
  "fresh_series buckets row = \<lparr>sv_Model = normalizeUsageOverviewDimension (pr_Model row), sv_TotalTokens = 0, sv_SpeedSampleCount = 0,
     sv_Samples = replicate (length buckets) no_sample\<rparr>"

definition add_sample :: "analysisRow \<Rightarrow> speedSample \<Rightarrow> speedSample" where
  "add_sample row x = x\<lparr>ss_SpeedTPSSum := fadd (ss_SpeedTPSSum x) (pr_SpeedTPSSum row),
     ss_SpeedSampleCount := wrap64 (ss_SpeedSampleCount x + pr_SpeedSampleCount row)\<rparr>"

definition add_to_series :: "speedBucket list \<Rightarrow> bool \<Rightarrow> analysisRow \<Rightarrow> analysisSpeedSeries \<Rightarrow> analysisSpeedSeries" where
  "add_to_series buckets daily row s =
     s\<lparr>sv_TotalTokens := wrap64 (sv_TotalTokens s + pr_TotalTokens row), sv_SpeedSampleCount := wrap64 (sv_SpeedSampleCount s + pr_SpeedSampleCount row),
       sv_Samples := (case speed_slot buckets (bucket_of daily row) of None \<Rightarrow> sv_Samples s
          | Some i \<Rightarrow> (sv_Samples s)[i := add_sample row (sv_Samples s ! i)])\<rparr>"

lemma analysis_speed_add_models:
  "as_Buckets (aa_record (analysis_speed_add row bucket a)) = as_Buckets (aa_record a)"
  "aa_record (analysis_speed_add row bucket a) = aa_record a"
  "as_Buckets (aa_record a) = buckets \<Longrightarrow> aa_models (analysis_speed_add row (bucket_of daily row) a) =
     count_in (speed_key buckets daily) (fresh_series buckets) (add_to_series buckets daily) (aa_models a) row"
  by (simp_all add: analysis_speed_add_def Let_def count_in_def speed_key_def speed_slot_def fresh_series_def add_to_series_def [abs_def]
      add_sample_def no_sample_def)

text \<open>What a series shows of its rows: their sum, and for every interval the speeds of the rows in it, with their mean.\<close>

definition with_mean :: "speedSample \<Rightarrow> speedSample" where
  "with_mean x = (if 0 < ss_SpeedSampleCount x
     then x\<lparr>ss_MeanTPS := Some (fdiv (ss_SpeedTPSSum x) (of_int64 (ss_SpeedSampleCount x)))\<rparr> else x)"

definition series_columns :: "analysisSpeedSeries \<Rightarrow> int \<times> int \<times> speedSample list" where
  "series_columns s = (sv_TotalTokens s, sv_SpeedSampleCount s, sv_Samples s)"

definition speed_sums :: "speedBucket list \<Rightarrow> bool \<Rightarrow> analysisRow list \<Rightarrow> int \<times> int \<times> speedSample list" where
  "speed_sums buckets daily rows =
     (wrap64 (\<Sum>r\<leftarrow>rows. pr_TotalTokens r), wrap64 (\<Sum>r\<leftarrow>rows. pr_SpeedSampleCount r),
      map (\<lambda>i. let here = filter (\<lambda>r. speed_slot buckets (bucket_of daily r) = Some i) rows
               in with_mean \<lparr>ss_SpeedTPSSum = foldl fadd (Fin 0) (map pr_SpeedTPSSum here),
                    ss_SpeedSampleCount = wrap64 (\<Sum>r\<leftarrow>here. pr_SpeedSampleCount r), ss_MeanTPS = None\<rparr>)
        [0..<length buckets])"

lemma added_samples:
  "length (sv_Samples (add_to_series buckets daily row s)) = length (sv_Samples s)"
  "i < length (sv_Samples s) \<Longrightarrow> sv_Samples (add_to_series buckets daily row s) ! i =
     (if speed_slot buckets (bucket_of daily row) = Some i then add_sample row (sv_Samples s ! i) else sv_Samples s ! i)"
  by (simp_all add: add_to_series_def nth_list_update split: option.split)

lemma folded_samples:
  "length (sv_Samples (foldl (\<lambda>s r. add_to_series buckets daily r s) s rows)) = length (sv_Samples s)"
  "i < length (sv_Samples s) \<Longrightarrow> sv_Samples (foldl (\<lambda>s r. add_to_series buckets daily r s) s rows) ! i =
     foldl (\<lambda>x r. add_sample r x) (sv_Samples s ! i) (filter (\<lambda>r. speed_slot buckets (bucket_of daily r) = Some i) rows)"
  by (induction rows arbitrary: s) (simp_all add: added_samples)

lemma folded_sample:
  "foldl (\<lambda>x r. add_sample r x) no_sample rows =
     \<lparr>ss_SpeedTPSSum = foldl fadd (Fin 0) (map pr_SpeedTPSSum rows), ss_SpeedSampleCount = wrap64 (\<Sum>r\<leftarrow>rows. pr_SpeedSampleCount r),
      ss_MeanTPS = None\<rparr>"
proof -
  let ?x = "foldl (\<lambda>x r. add_sample r x) no_sample rows"
  have "ss_SpeedTPSSum (foldl (\<lambda>x r. add_sample r x) x rows) = foldl fadd (ss_SpeedTPSSum x) (map pr_SpeedTPSSum rows)"
       "ss_MeanTPS (foldl (\<lambda>x r. add_sample r x) x rows) = ss_MeanTPS x" for x
    by (induction rows arbitrary: x) (simp_all add: add_sample_def)
  moreover have "ss_SpeedSampleCount ?x = wrap64 (ss_SpeedSampleCount no_sample + (\<Sum>r\<leftarrow>rows. pr_SpeedSampleCount r))"
    by (rule column_fold) (simp_all add: add_sample_def no_sample_def int64_bounds)
  ultimately have "ss_SpeedTPSSum ?x = foldl fadd (Fin 0) (map pr_SpeedTPSSum rows)" "ss_MeanTPS ?x = None"
      "ss_SpeedSampleCount ?x = wrap64 (\<Sum>r\<leftarrow>rows. pr_SpeedSampleCount r)"
    by (simp_all add: no_sample_def)
  then show ?thesis by (intro speedSample.equality) simp_all
qed

definition finished_series :: "analysisSpeedSeries \<Rightarrow> analysisSpeedSeries" where
  "finished_series s = s\<lparr>sv_Samples := map with_mean (sv_Samples s)\<rparr>"

interpretation speeds: totals_table "speed_key buckets daily" "fresh_series buckets" "add_to_series buckets daily" sv_Model
    "\<lambda>s. series_columns (finished_series s)" "speed_sums buckets daily" for buckets daily
proof unfold_locales
  fix e k and s :: analysisSpeedSeries and rows
  show "speed_key buckets daily e = Some k \<Longrightarrow> sv_Model (fresh_series buckets e) = k"
    by (auto simp: speed_key_def fresh_series_def)
  show "sv_Model (add_to_series buckets daily e s) = sv_Model s" by (simp add: add_to_series_def)
  let ?fresh = "fresh_series buckets e"
  let ?s = "foldl (\<lambda>s r. add_to_series buckets daily r s) ?fresh rows"
  have "sv_TotalTokens ?s = wrap64 (sv_TotalTokens ?fresh + (\<Sum>r\<leftarrow>rows. pr_TotalTokens r))"
       "sv_SpeedSampleCount ?s = wrap64 (sv_SpeedSampleCount ?fresh + (\<Sum>r\<leftarrow>rows. pr_SpeedSampleCount r))"
    by (rule column_fold; simp add: add_to_series_def fresh_series_def int64_bounds)+
  moreover have "sv_Samples ?s = map (\<lambda>i. foldl (\<lambda>x r. add_sample r x) no_sample
      (filter (\<lambda>r. speed_slot buckets (bucket_of daily r) = Some i) rows)) [0..<length buckets]"
    by (rule nth_equalityI) (simp_all add: folded_samples fresh_series_def)
  ultimately show "series_columns (finished_series ?s) = speed_sums buckets daily rows"
    by (simp add: series_columns_def speed_sums_def fresh_series_def finished_series_def folded_sample Let_def comp_def)
qed

lemma folded_speeds:
  fixes speed :: analysisSpeedAccumulator
  defines "buckets \<equiv> as_Buckets (aa_record speed)"
  assumes "aa_models speed = []"
  shows "tabulates (speed_sums buckets daily) (speed_key buckets daily) sv_Model (\<lambda>s. series_columns (finished_series s)) rows
      (map snd (aa_models (an_speed (folded r lookup daily speed summary rows))))"
    and "aa_record (an_speed (folded r lookup daily speed summary rows)) = aa_record speed"
proof -
  have kept: "aa_record (an_speed (foldl (analysis_turn r lookup daily) st rows)) = aa_record (an_speed st)"
    and models: "as_Buckets (aa_record (an_speed st)) = buckets \<Longrightarrow> aa_models (an_speed (foldl (analysis_turn r lookup daily) st rows)) =
      foldl (count_in (speed_key buckets daily) (fresh_series buckets) (add_to_series buckets daily)) (aa_models (an_speed st)) rows" for st
    by (induction rows arbitrary: st) (simp_all add: analysis_turn_tables(9) analysis_speed_add_models)
  have start: "an_speed (start_analysis speed summary) = speed" by (simp add: start_analysis_def)
  show "aa_record (an_speed (folded r lookup daily speed summary rows)) = aa_record speed" by (simp add: kept start)
  show "tabulates (speed_sums buckets daily) (speed_key buckets daily) sv_Model (\<lambda>s. series_columns (finished_series s)) rows
      (map snd (aa_models (an_speed (folded r lookup daily speed summary rows))))"
    using speeds.table_tabulates by (simp add: models start buckets_def assms(2))
qed

text \<open>The speeds that are shown: the intervals as they were group_start, and one series for every model with a row in them.\<close>

definition speeds_exact :: "bool \<Rightarrow> analysisRow list \<Rightarrow> analysisModelSpeed \<Rightarrow> bool" where
  "speeds_exact daily rows shown \<longleftrightarrow>
     tabulates (speed_sums (as_Buckets shown) daily) (speed_key (as_Buckets shown) daily) sv_Model series_columns rows (as_Series shown)"

lemma tabulates_map:
  assumes "\<And>x. item_key (f x) = item_key x"
  shows "tabulates added key item_key columns es (map f items) \<longleftrightarrow> tabulates added key item_key (\<lambda>x. columns (f x)) es items"
  by (simp add: tabulates_def assms image_image comp_def)

lemma finished_key: "sv_Model (finished_series s) = sv_Model s"
  by (simp add: finished_series_def)

lemma finalized_speeds:
  fixes speed :: analysisSpeedAccumulator and st :: analysisState
  assumes "any_order order" and "aa_models speed = []" and "as_Series (aa_record speed) = []"
    and st: "st = folded r lookup daily speed summary rows"
  defines "shown \<equiv> analysis_speed_finalize (od_series order) (an_speed st)"
  shows "speeds_exact daily rows shown" and "as_Buckets shown = as_Buckets (aa_record speed)"
    and "as_RangeStart shown = as_RangeStart (aa_record speed)" and "as_RangeEnd shown = as_RangeEnd (aa_record speed)"
proof -
  have mean: "(\<lambda>s. s\<lparr>sv_Samples := map (\<lambda>s. if 0 < ss_SpeedSampleCount s
        then s\<lparr>ss_MeanTPS := Some (fdiv (ss_SpeedTPSSum s) (of_int64 (ss_SpeedSampleCount s)))\<rparr> else s) (sv_Samples s)\<rparr>) = finished_series"
    by (simp add: fun_eq_iff finished_series_def with_mean_def [abs_def])
  have base: "aa_record (an_speed st) = aa_record speed" unfolding st by (rule folded_speeds) (rule assms)
  show buckets: "as_Buckets shown = as_Buckets (aa_record speed)" and "as_RangeStart shown = as_RangeStart (aa_record speed)"
    and "as_RangeEnd shown = as_RangeEnd (aa_record speed)"
    by (simp_all add: shown_def analysis_speed_finalize_def base)
  have perm: "mset (as_Series shown) = mset (map finished_series (map snd (aa_models (an_speed st))))"
    using assms(1) by (simp add: shown_def analysis_speed_finalize_def Let_def base assms(3) any_order_def mean [symmetric] split_def comp_def)
  show "speeds_exact daily rows shown"
    unfolding speeds_exact_def buckets tabulates_mset [OF perm] tabulates_map [of sv_Model finished_series, OF finished_key] st
    by (rule folded_speeds(1) [OF assms(2)])
qed

section \<open>The query\<close>

text \<open>The first whole hour of a range, the end of its hourly rows, and the instants that an analysis covers.\<close>

definition first_hour :: "time \<Rightarrow> time" where
  "first_hour start = fst (usageOverviewFullHourWindow start start)"

definition hours_end :: "zone \<Rightarrow> UsageQueryFilter \<Rightarrow> time \<Rightarrow> time \<Rightarrow> time" where
  "hours_end zone qf start stop =
     (let whole = max (first_hour start) (truncate_hour stop)
      in if IsUsageRollingHourRange (uf_Range qf) \<or> IsUsageRollingDayRange (uf_Range qf) then if whole < stop then whole + Hour else whole
         else if uf_Range qf \<in> {''today'', ''yesterday''} then max whole (midnight zone (wall_day zone start + 1) * Second)
         else whole)"

definition analysis_span :: "zone \<Rightarrow> UsageQueryFilter \<Rightarrow> bool \<Rightarrow> time \<Rightarrow> time \<Rightarrow> time \<times> time" where
  "analysis_span zone qf daily start stop =
     (if \<not> daily then (first_hour start, hours_end zone qf start stop)
      else if IsUsageRollingDayRange (uf_Range qf)
      then (midnight zone (wall_day zone start) * Second, midnight zone (wall_day zone stop + 1) * Second)
      else (start, stop))"

definition analysed_events :: "zone \<Rightarrow> UsageQueryFilter \<Rightarrow> (string \<times> string) list \<Rightarrow> bool \<Rightarrow> time \<Rightarrow> time \<Rightarrow> usageEvent list \<Rightarrow> usageEvent list" where
  "analysed_events zone qf keys daily start stop events =
     in_window qf keys (fst (analysis_span zone qf daily start stop)) (snd (analysis_span zone qf daily start stop)) events"

text \<open>A range that is read by days begins and ends with days, unless it is a number of days back from now.\<close>

definition whole_days :: "zone \<Rightarrow> UsageQueryFilter \<Rightarrow> time \<Rightarrow> time \<Rightarrow> bool" where
  "whole_days zone qf start stop \<longleftrightarrow>
     start \<le> stop \<and> (IsUsageRollingDayRange (uf_Range qf) \<or> (\<exists>d1 d2. start = midnight zone d1 * Second \<and> stop = midnight zone d2 * Second))"

lemma hour_window: "usageOverviewFullHourWindow start stop = (first_hour start, max (first_hour start) (truncate_hour stop))"
  by (auto simp: usageOverviewFullHourWindow_def first_hour_def Let_def max_def)

lemma first_hour: "start \<le> first_hour start" "first_hour start < start + Hour" "whole_hour (first_hour start)"
  using full_hours [OF hour_window] by blast+

context hourly_zone
begin

lemma interval_of_day: "day_interval zone t = Some \<lparr>iv_Start = midnight zone (wall_day zone t) * Second, iv_End = midnight zone (wall_day zone t + 1) * Second\<rparr>"
  by (simp add: day_interval_def DateOf_def bounds_of_day)

lemma hourly_end:
  assumes "uf_StartTime qf = Some start" and "uf_EndTime qf = Some stop"
  shows "analysisHourlyStatsEnd zone qf (max (first_hour start) (truncate_hour stop)) = Some (hours_end zone qf start stop)"
    and "whole_hour (hours_end zone qf start stop)" and "first_hour start \<le> hours_end zone qf start stop"
proof -
  define whole where "whole = max (first_hour start) (truncate_hour stop)"
  note spelled = hours_end_def [of zone qf start stop, folded whole_def]
  show "analysisHourlyStatsEnd zone qf (max (first_hour start) (truncate_hour stop)) = Some (hours_end zone qf start stop)"
    unfolding whole_def [symmetric] by (simp add: analysisHourlyStatsEnd_def assms interval_of_day spelled Let_def max_def)
  have whole: "whole_hour whole" using first_hour(3) truncate_hour(3) by (simp add: whole_def max_def)
  then have "whole_hour (whole + Hour)" by (simp add: whole_hour_def)
  with whole show "whole_hour (hours_end zone qf start stop)" using midnight_hour by (simp add: spelled Let_def max_def)
  have "0 < Hour" "first_hour start \<le> whole" by (simp_all add: whole_def) (simp add: Hour_def Minute_def Second_def)
  then show "first_hour start \<le> hours_end zone qf start stop" by (auto simp: spelled Let_def)
qed

lemma daily_window:
  assumes "whole_days zone qf start stop"
  obtains d1 d2 where "d1 \<le> d2" and "analysis_span zone qf True start stop = (midnight zone d1 * Second, midnight zone d2 * Second)"
    and "IsUsageRollingDayRange (uf_Range qf) \<Longrightarrow>
      analysisRollingDayWindow zone start stop = Some (midnight zone d1 * Second, midnight zone d2 * Second)"
proof (cases "IsUsageRollingDayRange (uf_Range qf)")
  case True
  have "start \<le> stop" using assms by (simp add: whole_days_def)
  then have "midnight zone (wall_day zone start) * Second < midnight zone (wall_day zone stop + 1) * Second"
    using regular_day_iff [OF regular, of start "wall_day zone start"] regular_day_iff [OF regular, of stop "wall_day zone stop"] by simp
  then have "wall_day zone start \<le> wall_day zone stop + 1" by (simp add: midnight_times)
  with True show thesis
    by (intro that [of "wall_day zone start" "wall_day zone stop + 1"]) (simp_all add: analysis_span_def analysisRollingDayWindow_def interval_of_day)
next
  case False
  with assms obtain d1 d2 where d: "start = midnight zone d1 * Second" "stop = midnight zone d2 * Second" "start \<le> stop"
    by (auto simp: whole_days_def)
  then have "d1 \<le> d2" using midnight_times [of d2 d1] by (simp add: not_less [symmetric])
  with d(1,2) False show thesis by (intro that [of d1 d2]) (simp_all add: analysis_span_def)
qed

end

text \<open>The record that the rows are folded into, and the bars a day is filled up with.\<close>

definition empty_answer :: "bool \<Rightarrow> time \<Rightarrow> time \<Rightarrow> analysisRecord" where
  "empty_answer daily start stop =
     \<lparr>ar_Granularity = (if daily then AnalysisGranularityDaily else AnalysisGranularityHourly),
      ar_RangeStart = start, ar_RangeEnd = stop, ar_TokenUsage = [], ar_ModelSpeed = None, ar_ModelUsage = [],
      ar_APIKeyComposition = [], ar_ModelComposition = [], ar_CredentialsComposition = [], ar_AIProviderComposition = [],
      ar_ProviderComposition = [], ar_Heatmap = [], ar_CostSummary = \<lparr>cs_TotalCostUSD = Fin 0, cs_CostAvailable = True\<rparr>,
      ar_ModelEfficiency = []\<rparr>"

definition full_day :: "zone \<Rightarrow> UsageQueryFilter \<Rightarrow> time \<Rightarrow> tokenUsageBucket list \<Rightarrow> tokenUsageBucket list" where
  "full_day zone qf start trend =
     (if uf_Range qf \<notin> {''today'', ''yesterday''} then trend
      else map (\<lambda>k. case map_of (rev (map (\<lambda>b. (truncate_hour (tu_Bucket b), b)) trend)) (truncate_hour start + k * Hour) of
               Some b \<Rightarrow> b | None \<Rightarrow> \<lparr>tu_Bucket = truncate_hour start + k * Hour, tu_Totals = no_totals\<rparr>)
             [0..(midnight zone (wall_day zone start + 1) * Second - truncate_hour start) div Hour])"

lemma empty_tables: "tables_exact placed event_sums r lookup daily [] (empty_answer d start stop)"
  by (simp add: tables_exact_def tabulates_def empty_answer_def)

lemma empty_trend [simp]: "ar_TokenUsage (empty_answer daily start stop) = []"
  by (simp add: empty_answer_def)

text \<open>Rows that stand for events, folded and finished.\<close>

definition finished :: "analysisOrders \<Rightarrow> 'loc resolver \<Rightarrow> identityLookup \<Rightarrow> bool \<Rightarrow> analysisSpeedAccumulator \<Rightarrow> analysisRow list \<Rightarrow> analysisRecord \<Rightarrow> analysisRecord" where
  "finished order r lookup daily speed rows answer =
     finalizeAnalysisRecord order (folded r lookup daily speed (ar_CostSummary answer) rows) answer"

lemma finished_exact:
  assumes "any_order order" and "ar_TokenUsage answer = []" and "stands_for placed es rows"
  shows "tables_exact placed event_sums r lookup daily es (finished order r lookup daily speed rows answer)"
    and "trend_exact placed event_sums daily es (ar_TokenUsage (finished order r lookup daily speed rows answer))"
  unfolding finished_def exact_over_events [OF assms(3), symmetric] by (rule finalized_tables [OF assms(1,2)])+

lemma tables_exact_trend [simp]:
  "tables_exact placed added r lookup daily es (answer\<lparr>ar_TokenUsage := trend\<rparr>) = tables_exact placed added r lookup daily es answer"
  by (simp add: tables_exact_def)

lemma empty_in_window: "\<not> start < stop \<Longrightarrow> in_window qf keys start stop events = []"
  by (auto simp: in_window_def filter_empty_conv)

context hourly_zone
begin

lemma fill_hours:
  assumes "uf_StartTime qf = Some start" and "ar_Granularity answer = AnalysisGranularityHourly"
  shows "fillAnalysisFullDayHourlyBuckets zone qf answer = Some (answer\<lparr>ar_TokenUsage := full_day zone qf start (ar_TokenUsage answer)\<rparr>)"
  by (auto simp: fillAnalysisFullDayHourlyBuckets_def assms interval_of_day full_day_def Let_def)

lemma analysis_hours:
  assumes built: "built_from zone db" and plain: "plain_scope qf (ot_events db)" and keys: "distinct keys" and order: "any_order order"
    and range: "uf_StartTime qf = Some start" "uf_EndTime qf = Some stop" and daily: "analysisUsesDailyStats zone qf = Some False"
  defines "es \<equiv> analysed_events zone qf keys False start stop (ot_events db)"
  shows "\<exists>result. BuildAnalysisWithFilter order r zone keys db lookup qf = Some result
    \<and> (case result of Inl err \<Rightarrow> \<exists>t\<in>unpaid hour_key (ot_events db) es. err = BucketNotFinite t
       | Inr answer \<Rightarrow> unpaid hour_key (ot_events db) es = {} \<and> tables_exact (placed_by hour_key) event_sums r lookup False es answer
         \<and> (\<exists>trend. trend_exact (placed_by hour_key) event_sums False es trend
             \<and> ar_TokenUsage answer = (if first_hour start < hours_end zone qf start stop then full_day zone qf start trend else [])))"
proof -
  let ?from = "first_hour start" and ?to = "hours_end zone qf start stop"
  note ends = hourly_end [OF range]
  have es: "es = in_window qf keys ?from ?to (ot_events db)" by (simp add: es_def analysed_events_def analysis_span_def)
  have build: "BuildAnalysisWithFilter order r zone keys db lookup qf =
      (if \<not> ?from < ?to then Some (Inr (empty_answer False start stop))
       else Option.bind (loadAnalysisOverviewHourlyStatsWithFilter zone keys db qf ?from ?to) (\<lambda>rows. case rows of
          Inl err \<Rightarrow> Some (Inl err)
        | Inr rows \<Rightarrow> Option.bind (applyAnalysisHourlyRows order r zone lookup rows ?from ?to (empty_answer False start stop))
            (\<lambda>answer. map_option Inr (fillAnalysisFullDayHourlyBuckets zone qf answer))))"
    by (simp add: BuildAnalysisWithFilter_def range daily hour_window ends(1) empty_answer_def Let_def cong: sum.case_cong)
  show ?thesis
  proof (cases "?from < ?to")
    case False
    then have "es = []" unfolding es by (rule empty_in_window)
    with False build empty_tables show ?thesis by (simp add: unpaid_def trend_exact_def tabulates_def exI [of _ "[]"])
  next
    case True
    then have "?from \<le> ?to" by simp
    from hourly_rows [OF overview built plain keys first_hour(3) ends(2) this] obtain result
      where load: "loadAnalysisOverviewHourlyStatsWithFilter zone keys db qf ?from ?to = Some result"
        and rows: "case result of Inl err \<Rightarrow> \<exists>t\<in>unpaid hour_key (ot_events db) es. err = BucketNotFinite t
          | Inr rows \<Rightarrow> unpaid hour_key (ot_events db) es = {} \<and> stands_for (placed_by hour_key) es rows"
      unfolding es by blast
    obtain speed where speed: "newAnalysisModelSpeed zone ?from ?to False = Some speed" using hourly_speed by blast
    let ?answer = "\<lambda>rows. finished order r lookup False speed rows (empty_answer False start stop)"
    have "ar_Granularity (?answer rows) = AnalysisGranularityHourly" for rows
      by (simp add: finished_def finalizeAnalysisRecord_def empty_answer_def Let_def)
    note fill = fill_hours [OF range(1) this]
    have "BuildAnalysisWithFilter order r zone keys db lookup qf = Some (map_sum id
        (\<lambda>rows. (?answer rows)\<lparr>ar_TokenUsage := full_day zone qf start (ar_TokenUsage (?answer rows))\<rparr>) result)"
      using True by (cases result) (simp_all add: build load applyAnalysisHourlyRows_def speed fill finished_def [symmetric])
    with rows True show ?thesis
      by (cases result) (auto simp: finished_exact(1) [OF order empty_trend] intro: finished_exact(2) [OF order empty_trend])
  qed
qed

lemma analysis_days:
  assumes built: "built_from zone db" and plain: "plain_scope qf (ot_events db)" and keys: "distinct keys" and order: "any_order order"
    and range: "uf_StartTime qf = Some start" "uf_EndTime qf = Some stop" and daily: "analysisUsesDailyStats zone qf = Some True"
    and days: "whole_days zone qf start stop"
  defines "es \<equiv> analysed_events zone qf keys True start stop (ot_events db)"
  shows "\<exists>result. BuildAnalysisWithFilter order r zone keys db lookup qf = Some result
    \<and> (case result of Inl err \<Rightarrow> \<exists>t\<in>unpaid (day_key zone) (ot_events db) es. err = BucketNotFinite t
       | Inr answer \<Rightarrow> unpaid (day_key zone) (ot_events db) es = {} \<and> tables_exact (placed_by (day_key zone)) event_sums r lookup True es answer
         \<and> trend_exact (placed_by (day_key zone)) event_sums True es (ar_TokenUsage answer))"
proof -
  obtain d1 d2 where d: "d1 \<le> d2" "analysis_span zone qf True start stop = (midnight zone d1 * Second, midnight zone d2 * Second)"
      "IsUsageRollingDayRange (uf_Range qf) \<Longrightarrow>
        analysisRollingDayWindow zone start stop = Some (midnight zone d1 * Second, midnight zone d2 * Second)"
    using daily_window [OF days] by blast
  let ?from = "midnight zone d1 * Second" and ?to = "midnight zone d2 * Second"
  have es: "es = in_window qf keys ?from ?to (ot_events db)" by (simp add: es_def analysed_events_def d(2))
  have window: "(if IsUsageRollingDayRange (uf_Range qf) then analysisRollingDayWindow zone start stop else Some (start, stop)) = Some (?from, ?to)"
    using d(2,3) by (simp add: analysis_span_def split: if_splits)
  let ?empty = "(empty_answer True start stop)\<lparr>ar_RangeStart := ?from, ar_RangeEnd := ?to\<rparr>"
  have build: "BuildAnalysisWithFilter order r zone keys db lookup qf =
      Option.bind (loadAnalysisOverviewDailyStatsWithFilter zone keys db qf ?from ?to) (\<lambda>rows. case rows of
          Inl err \<Rightarrow> Some (Inl err)
        | Inr rows \<Rightarrow> map_option Inr (applyAnalysisDailyRows order r zone lookup rows ?from ?to ?empty))"
    by (simp add: BuildAnalysisWithFilter_def range daily window empty_answer_def Let_def cong: sum.case_cong)
  from daily_rows [OF overview built plain keys d(1)] obtain result
    where load: "loadAnalysisOverviewDailyStatsWithFilter zone keys db qf ?from ?to = Some result"
      and rows: "case result of Inl err \<Rightarrow> \<exists>t\<in>unpaid (day_key zone) (ot_events db) es. err = BucketNotFinite t
        | Inr rows \<Rightarrow> unpaid (day_key zone) (ot_events db) es = {} \<and> stands_for (placed_by (day_key zone)) es rows"
    unfolding es Let_def by blast
  obtain speed where speed: "newAnalysisModelSpeed zone ?from ?to True = Some speed" using daily_speed [OF d(1)] by blast
  have "BuildAnalysisWithFilter order r zone keys db lookup qf = Some (map_sum id (\<lambda>rows. finished order r lookup True speed rows ?empty) result)"
    by (cases result) (simp_all add: build load applyAnalysisDailyRows_def speed finished_def)
  with rows show ?thesis by (cases result) (simp_all add: finished_exact [OF order])
qed

end

text \<open>Bars of a trend: in order, each the sum of its events, and every event in one of them.\<close>

definition bars_exact :: "(usageEvent \<Rightarrow> time) \<Rightarrow> usageEvent list \<Rightarrow> tokenUsageBucket list \<Rightarrow> bool" where
  "bars_exact bar es trend \<longleftrightarrow>
     sorted_wrt (<) (map tu_Bucket trend)
     \<and> (\<forall>e\<in>set es. bar e \<in> tu_Bucket ` set trend)
     \<and> (\<forall>b\<in>set trend. totals_columns (tu_Totals b) = event_sums (filter (\<lambda>e. bar e = tu_Bucket b) es))"

lemma bars_of_trend: "trend_exact placed event_sums daily es trend \<Longrightarrow> bars_exact (\<lambda>e. bucket_of daily (placed e)) es trend"
proof -
  assume trend: "trend_exact placed event_sums daily es trend"
  then have "Some ` tu_Bucket ` set trend = (\<lambda>e. Some (bucket_of daily (placed e))) ` set es"
    by (auto simp: trend_exact_def tabulates_def)
  then have "Some ` tu_Bucket ` set trend = Some ` (\<lambda>e. bucket_of daily (placed e)) ` set es" by (simp only: image_image)
  then have "tu_Bucket ` set trend = (\<lambda>e. bucket_of daily (placed e)) ` set es" by (simp only: inj_image_eq_iff [OF inj_Some])
  with trend show ?thesis by (auto simp: trend_exact_def tabulates_def bars_exact_def)
qed

lemma hour_bar: "bucket_of False (placed_by hour_key e) = truncate_hour (ue_Timestamp e)"
  using truncate_hour(3,4) [of "truncate_hour (ue_Timestamp e)"] truncate_hour(3) [of "ue_Timestamp e"]
  by (simp add: bucket_of_def placed_by_def analysis_row_def newRow_def hour_key_def event_dimensions_def)

lemma no_totals_columns: "totals_columns no_totals = event_sums []"
  by (simp add: totals_columns_def no_totals_def event_sums_def wrap64_def)

definition day_hours :: "zone \<Rightarrow> time \<Rightarrow> time list" where
  "day_hours zone start =
     map (\<lambda>k. truncate_hour start + k * Hour) [0..(midnight zone (wall_day zone start + 1) * Second - truncate_hour start) div Hour]"

lemma in_day_hours:
  assumes "start \<le> t" and "t < midnight zone (wall_day zone start + 1) * Second"
  shows "truncate_hour t \<in> set (day_hours zone start)"
proof -
  let ?first = "truncate_hour start" and ?t = "truncate_hour t"
  have h: "0 < Hour" by (simp add: Hour_def Minute_def Second_def)
  have "?first \<le> ?t" using truncate_hour_le_iff [OF truncate_hour(3), of start t] truncate_hour(1) [of start] assms(1) by simp
  moreover have "(?t - ?first) mod Hour = 0" using truncate_hour(3) [of t] truncate_hour(3) [of start] by (simp add: whole_hour_def mod_diff_eq [symmetric])
  then have "?t = ?first + (?t - ?first) div Hour * Hour" by (simp add: mod_0_imp_dvd)
  moreover have "(?t - ?first) div Hour \<le> (midnight zone (wall_day zone start + 1) * Second - ?first) div Hour"
    using truncate_hour(1) [of t] assms(2) h by (intro zdiv_mono1) simp_all
  ultimately show ?thesis using h by (auto simp: day_hours_def pos_imp_zdiv_nonneg_iff intro!: image_eqI [of _ _ "(?t - ?first) div Hour"])
qed

lemma full_day_bars:
  assumes bars: "bars_exact (\<lambda>e. truncate_hour (ue_Timestamp e)) es trend" and exactly: "tu_Bucket ` set trend = (\<lambda>e. truncate_hour (ue_Timestamp e)) ` set es"
    and day: "uf_Range qf \<in> {''today'', ''yesterday''}"
    and within: "\<forall>e\<in>set es. start \<le> ue_Timestamp e \<and> ue_Timestamp e < midnight zone (wall_day zone start + 1) * Second"
  shows "bars_exact (\<lambda>e. truncate_hour (ue_Timestamp e)) es (full_day zone qf start trend)"
    and "map tu_Bucket (full_day zone qf start trend) = day_hours zone start"
proof -
  let ?bar = "\<lambda>e. truncate_hour (ue_Timestamp e)" and ?entry = "\<lambda>t. map_of (rev (map (\<lambda>b. (truncate_hour (tu_Bucket b), b)) trend)) t"
  let ?cell = "\<lambda>t. case ?entry t of Some b \<Rightarrow> b | None \<Rightarrow> \<lparr>tu_Bucket = t, tu_Totals = no_totals\<rparr>"
  have h: "0 < Hour" by (simp add: Hour_def Minute_def Second_def)
  have whole: "truncate_hour (tu_Bucket b) = tu_Bucket b" if "b \<in> set trend" for b
  proof -
    from that have "tu_Bucket b \<in> ?bar ` set es" unfolding exactly [symmetric] by (rule imageI)
    with truncate_hour(3,4) show ?thesis by auto
  qed
  have entry: "?entry t = Some b \<Longrightarrow> b \<in> set trend \<and> tu_Bucket b = t" "?entry t = None \<Longrightarrow> t \<notin> tu_Bucket ` set trend" for t b
  proof -
    have entries: "set (rev (map (\<lambda>b. (truncate_hour (tu_Bucket b), b)) trend)) = (\<lambda>b. (tu_Bucket b, b)) ` set trend"
      using whole by (simp cong: image_cong)
    show "b \<in> set trend \<and> tu_Bucket b = t" if "?entry t = Some b" using map_of_SomeD [OF that] unfolding entries by auto
    show "?entry t = None \<Longrightarrow> t \<notin> tu_Bucket ` set trend" unfolding map_of_eq_None_iff entries by (simp add: image_image)
  qed
  have cell: "tu_Bucket (?cell t) = t" "totals_columns (tu_Totals (?cell t)) = event_sums (filter (\<lambda>e. ?bar e = t) es)" for t
  proof -
    show "tu_Bucket (?cell t) = t" using entry(1) [of t] by (cases "?entry t") simp_all
    show "totals_columns (tu_Totals (?cell t)) = event_sums (filter (\<lambda>e. ?bar e = t) es)"
    proof (cases "?entry t")
      case None
      then have "filter (\<lambda>e. ?bar e = t) es = []" using entry(2) [OF None] unfolding exactly by (auto simp: filter_empty_conv)
      with None show ?thesis by (simp add: no_totals_columns)
    next
      case (Some b)
      with entry(1) [OF Some] bars show ?thesis by (simp add: bars_exact_def)
    qed
  qed
  have full: "full_day zone qf start trend = map ?cell (day_hours zone start)" using day by (auto simp: full_day_def day_hours_def)
  then show hours: "map tu_Bucket (full_day zone qf start trend) = day_hours zone start" by (simp add: comp_def cell(1))
  have "sorted_wrt (<) (day_hours zone start)"
    unfolding day_hours_def sorted_wrt_map by (rule sorted_wrt_mono_rel [OF _ sorted_wrt_upto]) (use h in simp)
  moreover have "?bar e \<in> set (day_hours zone start)" if "e \<in> set es" for e
    using within that by (intro in_day_hours) simp_all
  ultimately show "bars_exact ?bar es (full_day zone qf start trend)"
    using cell unfolding bars_exact_def hours unfolding full by (auto simp: image_image)
qed

section \<open>What the page shows\<close>

definition event_bar :: "zone \<Rightarrow> bool \<Rightarrow> usageEvent \<Rightarrow> time" where
  "event_bar zone daily e = (if daily then day_start zone (ue_Timestamp e) else truncate_hour (ue_Timestamp e))"

lemma placed_bar: "bucket_of daily (placed_by (analysis_key zone daily) e) = event_bar zone daily e"
  using hour_bar [of e]
  by (simp add: event_bar_def analysis_key_def) (simp add: bucket_of_def placed_by_def analysis_row_def newRow_def day_key_def event_dimensions_def)

text \<open>Today and yesterday end with their day.\<close>

definition within_day :: "zone \<Rightarrow> UsageQueryFilter \<Rightarrow> time \<Rightarrow> time \<Rightarrow> bool" where
  "within_day zone qf start stop \<longleftrightarrow> (uf_Range qf \<in> {''today'', ''yesterday''} \<longrightarrow> stop \<le> midnight zone (wall_day zone start + 1) * Second)"

lemma day_is_no_rolling_range:
  "\<not> IsUsageRollingHourRange ''today''" "\<not> IsUsageRollingDayRange ''today''"
  "\<not> IsUsageRollingHourRange ''yesterday''" "\<not> IsUsageRollingDayRange ''yesterday''"
  by code_simp+

context hourly_zone
begin

lemma day_events:
  assumes "within_day zone qf start stop" and "uf_Range qf \<in> {''today'', ''yesterday''}"
    and e: "e \<in> set (analysed_events zone qf keys False start stop events)"
  shows "start \<le> ue_Timestamp e \<and> ue_Timestamp e < midnight zone (wall_day zone start + 1) * Second"
proof -
  let ?close = "midnight zone (wall_day zone start + 1) * Second"
  have start: "start < ?close" using regular_day_iff [OF regular, of start "wall_day zone start"] by simp
  have "first_hour start \<le> ?close"
  proof (rule ccontr)
    assume "\<not> first_hour start \<le> ?close"
    then have "?close + Hour \<le> first_hour start" using whole_hour_gap [OF midnight_hour first_hour(3)] by simp
    with start first_hour(2) [of start] show False by simp
  qed
  moreover have "stop \<le> ?close" using assms(1,2) unfolding within_day_def by blast
  with truncate_hour(1) [of stop] have "truncate_hour stop \<le> ?close" by (rule order_trans)
  ultimately have "hours_end zone qf start stop = ?close"
    using assms(2) day_is_no_rolling_range by (auto simp: hours_end_def Let_def)
  with e first_hour(1) [of start] show ?thesis by (auto simp: analysed_events_def in_window_def analysis_span_def)
qed

lemma hour_trend:
  fixes events :: "usageEvent list" and qf :: UsageQueryFilter and keys :: "(string \<times> string) list" and start stop :: time
  defines "es \<equiv> analysed_events zone qf keys False start stop events"
  assumes trend: "trend_exact (placed_by hour_key) event_sums False es trend" and within: "within_day zone qf start stop"
    and shown: "shown = (if first_hour start < hours_end zone qf start stop then full_day zone qf start trend else [])"
  shows "bars_exact (event_bar zone False) es shown"
    and "uf_Range qf \<in> {''today'', ''yesterday''} \<Longrightarrow> first_hour start < hours_end zone qf start stop \<Longrightarrow> map tu_Bucket shown = day_hours zone start"
proof -
  have bar: "event_bar zone False = (\<lambda>e. truncate_hour (ue_Timestamp e))" by (simp add: event_bar_def fun_eq_iff)
  have bars: "bars_exact (event_bar zone False) es trend" using bars_of_trend [OF trend] by (simp only: hour_bar bar)
  have "tu_Bucket ` set trend = (\<lambda>e. truncate_hour (ue_Timestamp e)) ` set es"
  proof -
    have "Some ` tu_Bucket ` set trend = Some ` (\<lambda>e. truncate_hour (ue_Timestamp e)) ` set es"
      using trend by (auto simp: trend_exact_def tabulates_def hour_bar image_image)
    then show ?thesis by (simp only: inj_image_eq_iff [OF inj_Some])
  qed
  note full = full_day_bars [OF bars [unfolded bar] this]
  have day: "bars_exact (event_bar zone False) es (full_day zone qf start trend)" "map tu_Bucket (full_day zone qf start trend) = day_hours zone start"
    if "uf_Range qf \<in> {''today'', ''yesterday''}"
    unfolding bar by (rule full [OF that]; use day_events [OF within that] in \<open>simp add: es_def\<close>)+
  show "bars_exact (event_bar zone False) es shown"
  proof (cases "first_hour start < hours_end zone qf start stop")
    case True
    show ?thesis
    proof (cases "uf_Range qf \<in> {''today'', ''yesterday''}")
      case False
      then have "full_day zone qf start trend = trend" by (simp add: full_day_def)
      with bars True shown show ?thesis by simp
    qed (use day(1) True shown in simp)
  next
    case False
    then have "es = []" by (simp add: es_def analysed_events_def analysis_span_def empty_in_window)
    with False shown show ?thesis by (simp add: bars_exact_def)
  qed
  show "uf_Range qf \<in> {''today'', ''yesterday''} \<Longrightarrow> first_hour start < hours_end zone qf start stop \<Longrightarrow> map tu_Bucket shown = day_hours zone start"
    using day(2) shown by simp
qed

lemma analysis_answer:
  assumes given: "built_from zone db" "plain_scope qf (ot_events db)" "distinct keys" "any_order order"
      "uf_StartTime qf = Some start" "uf_EndTime qf = Some stop" "analysisUsesDailyStats zone qf = Some daily"
    and days: "daily \<longrightarrow> whole_days zone qf start stop"
  defines "es \<equiv> analysed_events zone qf keys daily start stop (ot_events db)"
  shows "\<exists>result. BuildAnalysisWithFilter order r zone keys db lookup qf = Some result
    \<and> (case result of Inl err \<Rightarrow> \<exists>t\<in>unpaid (analysis_key zone daily) (ot_events db) es. err = BucketNotFinite t
       | Inr answer \<Rightarrow> unpaid (analysis_key zone daily) (ot_events db) es = {}
         \<and> tables_exact (placed_by (analysis_key zone daily)) event_sums r lookup daily es answer
         \<and> (within_day zone qf start stop \<longrightarrow> bars_exact (event_bar zone daily) es (ar_TokenUsage answer)
             \<and> (\<not> daily \<and> uf_Range qf \<in> {''today'', ''yesterday''} \<and> first_hour start < hours_end zone qf start stop \<longrightarrow>
                 map tu_Bucket (ar_TokenUsage answer) = day_hours zone start)))"
proof (cases daily)
  case True
  then have "whole_days zone qf start stop" "analysisUsesDailyStats zone qf = Some True" using days given(7) by simp_all
  from analysis_days [OF given(1-6) this(2,1)] obtain result
    where "BuildAnalysisWithFilter order r zone keys db lookup qf = Some result"
      and "case result of Inl err \<Rightarrow> \<exists>t\<in>unpaid (analysis_key zone daily) (ot_events db) es. err = BucketNotFinite t
         | Inr answer \<Rightarrow> unpaid (analysis_key zone daily) (ot_events db) es = {} \<and> tables_exact (placed_by (analysis_key zone daily)) event_sums r lookup daily es answer
           \<and> trend_exact (placed_by (analysis_key zone daily)) event_sums daily es (ar_TokenUsage answer)"
    unfolding es_def eqTrueI [OF True] analysis_key_def if_True by blast
  then show ?thesis using bars_of_trend [where placed = "placed_by (analysis_key zone daily)" and daily = daily] True
    by (cases result) (simp_all add: placed_bar)
next
  case False
  then have hours: "daily = False" by simp
  then have "analysisUsesDailyStats zone qf = Some False" using given(7) by simp
  from analysis_hours [OF given(1-6) this] obtain result
    where result: "BuildAnalysisWithFilter order r zone keys db lookup qf = Some result"
      and exact: "case result of Inl err \<Rightarrow> \<exists>t\<in>unpaid hour_key (ot_events db) es. err = BucketNotFinite t
         | Inr answer \<Rightarrow> unpaid hour_key (ot_events db) es = {} \<and> tables_exact (placed_by hour_key) event_sums r lookup False es answer
           \<and> (\<exists>trend. trend_exact (placed_by hour_key) event_sums False es trend
               \<and> ar_TokenUsage answer = (if first_hour start < hours_end zone qf start stop then full_day zone qf start trend else []))"
    unfolding es_def hours by blast
  show ?thesis
  proof (cases result)
    case (Inl err)
    with result exact show ?thesis by (simp add: analysis_key_def hours)
  next
    case (Inr answer)
    with exact obtain trend where trend: "trend_exact (placed_by hour_key) event_sums False es trend"
        "ar_TokenUsage answer = (if first_hour start < hours_end zone qf start stop then full_day zone qf start trend else [])" by auto
    note shown = hour_trend [OF trend(1) [unfolded es_def hours] _ trend(2)]
    from Inr result exact shown show ?thesis by (simp add: analysis_key_def hours es_def)
  qed
qed

end

text \<open>
  Claim C8. The analysis counts every event once in each of its tables. In a zone whose midnights are whole
  hours, over tables that \<open>BuildRows\<close> has built from the events, a query by instance and API keys
  always answers. It answers an error exactly if the fees of a stored row that it reads, those of the events with one key, do not
  add up to a finite number, and the error names the bucket of such a row. Else the compositions by API key,
  model, credential, provider key and provider, the use of models over time and the heat map each hold one
  entry for every key that occurs among the events of the range with an active API key, and the seven
  counts of an entry are the 64-bit sums over exactly the events of its key.
\<close>

theorem analysis_query_exact:
  assumes "overview_zone zone" and "BuildRows zone (ot_events db) = Inr (ot_hourly db, ot_daily db, watermark)"
    and "plain_scope qf (ot_events db)" and "distinct keys" and "any_order order"
    and "uf_StartTime qf = Some start" and "uf_EndTime qf = Some stop"
    and "analysisUsesDailyStats zone qf = Some daily" and "daily \<longrightarrow> whole_days zone qf start stop"
  shows "\<exists>result. BuildAnalysisWithFilter order r zone keys db lookup qf = Some result
    \<and> (case result of
         Inl err \<Rightarrow> \<exists>t\<in>unpaid (analysis_key zone daily) (ot_events db) (analysed_events zone qf keys daily start stop (ot_events db)). err = BucketNotFinite t
       | Inr answer \<Rightarrow> unpaid (analysis_key zone daily) (ot_events db) (analysed_events zone qf keys daily start stop (ot_events db)) = {}
         \<and> tables_exact (placed_by (analysis_key zone daily)) event_sums r lookup daily
           (analysed_events zone qf keys daily start stop (ot_events db)) answer)"
  using hourly_zone.analysis_answer [OF hourly_zone.intro [OF assms(1)] built_from_rows [OF assms(2)] assms(3-9), of r lookup]
  by (elim exE) (rule exI, erule conjE, rule conjI, assumption, simp split: sum.splits)

text \<open>
  The events of \<open>Overview_Exact\<close> again, asked for as part of yesterday. The whole hours begin at the second hour, so
  that the first two events are left out, and the hours go on to the end of the day.
\<close>

definition code_order :: analysisOrders where
  "code_order = \<lparr>od_compositions = id, od_cells = id, od_series = id\<rparr>"

lemma code_any_order: "any_order code_order"
  by (simp add: any_order_def code_order_def)

lemma example_day_end:
  "midnight (fixed_zone 28800) (wall_day (fixed_zone 28800) (1800 * Second) + 1) = 57600"
proof -
  have "wall_day (fixed_zone 28800) (1800 * Second) = 0" by (simp add: wall_day_def wall_seconds_def fixed_zone_def unix_def Second_def)
  then show ?thesis by (simp only: midnight_def from_wall_fixed) simp
qed

lemma example_hours: "first_hour (1800 * Second) = 3600 * Second" "truncate_hour (11700 * Second) = 10800 * Second" "truncate_hour (1800 * Second) = 0"
    "hours_end (fixed_zone 28800) query_filter (1800 * Second) (11700 * Second) = 57600 * Second"
proof -
  show hours: "first_hour (1800 * Second) = 3600 * Second" "truncate_hour (11700 * Second) = 10800 * Second" "truncate_hour (1800 * Second) = 0"
    by (simp_all add: first_hour_def usageOverviewFullHourWindow_def truncate_hour_def Hour_def Minute_def Second_def)
  have "uf_Range query_filter = ''yesterday''" by (simp add: query_filter_def)
  then show "hours_end (fixed_zone 28800) query_filter (1800 * Second) (11700 * Second) = 57600 * Second"
    unfolding hours_end_def example_day_end hours using day_is_no_rolling_range by (simp add: Second_def)
qed

lemma analysis_example:
  "analysisUsesDailyStats (fixed_zone 28800) query_filter = Some False"
  "analysed_events (fixed_zone 28800) query_filter [('''', ''k'')] False (1800 * Second) (11700 * Second) query_events = map query_event [9000, 11000]"
  "within_day (fixed_zone 28800) query_filter (1800 * Second) (11700 * Second)"
proof -
  have "time_Sub (11700 * Second) (1800 * Second) = 9900 * Second" by (simp add: time_Sub_def MinInt64_def MaxInt64_def Second_def)
  moreover have "TrimSpace ''yesterday'' = ''yesterday''" by code_simp
  ultimately show "analysisUsesDailyStats (fixed_zone 28800) query_filter = Some False"
    by (simp add: analysisUsesDailyStats_def computeWindowMinutes_def query_filter_def Minute_def Second_def)
  show "within_day (fixed_zone 28800) query_filter (1800 * Second) (11700 * Second)"
    unfolding within_day_def example_day_end by (simp add: Second_def)
  have "analysis_span (fixed_zone 28800) query_filter False (1800 * Second) (11700 * Second) = (3600 * Second, 57600 * Second)"
    unfolding analysis_span_def example_hours by simp
  moreover have "event_in_scope query_filter (query_event s) \<and> active [('''', ''k'')] (query_event s)" for s
  proof -
    have "TrimSpace ''k'' = ''k''" "TrimSpace '''' = ''''" by code_simp+
    then show ?thesis by (simp add: event_in_scope_def active_def query_filter_def query_event_def blank_event_def)
  qed
  moreover have "ue_Timestamp (query_event s) = s * Second" for s by (simp add: query_event_def)
  ultimately show "analysed_events (fixed_zone 28800) query_filter [('''', ''k'')] False (1800 * Second) (11700 * Second) query_events = map query_event [9000, 11000]"
    by (simp add: analysed_events_def in_window_def query_events_def Second_def)
qed

lemma query_example_paid: "unpaid key query_events es = {}"
proof -
  have "below (1 + 100) (row_fee key query_events k)" for k
    unfolding row_fee_def
  proof (rule few_fees)
    let ?es = "filter (\<lambda>e. key e = k) query_events"
    show "\<forall>c\<in>set (List.map_filter ue_CostUSD ?es). below 1 c" by (auto simp: in_map_filter query_events_def query_event_def below_def)
    have "length query_events \<le> 100" by (simp add: query_events_def)
    then show "length (List.map_filter ue_CostUSD ?es) \<le> 100"
      using map_filter_short [of ue_CostUSD ?es] length_filter_le [of "\<lambda>e. key e = k" query_events] by linarith
  qed simp
  then have "finite_fee (row_fee key query_events k)" for k by (metis belowE finite_fee_def)
  then show ?thesis by (simp add: unpaid_def)
qed

theorem analysis_query_exact_witness:
  "\<exists>answer. BuildAnalysisWithFilter code_order (None :: unit resolver) (fixed_zone 28800) [('''', ''k'')] (query_tables (fixed_zone 28800) query_events) (\<lambda>_ _. None) query_filter
      = Some (Inr answer)
    \<and> tables_exact (placed_by hour_key) event_sums (None :: unit resolver) (\<lambda>_ _. None) False (map query_event [9000, 11000]) answer"
proof -
  let ?db = "query_tables (fixed_zone 28800) query_events"
  have events: "ot_events ?db = query_events" by (simp add: query_tables_def BuildRows_priced [OF query_example(1)])
  obtain w where built: "BuildRows (fixed_zone 28800) (ot_events ?db) = Inr (ot_hourly ?db, ot_daily ?db, w)"
    using query_tables_built [OF query_example(1)] by blast
  have "plain_scope query_filter (ot_events ?db)" "distinct [('''', ''k'')]" by (simp_all add: events query_example(2))
  moreover have "False \<longrightarrow> whole_days (fixed_zone 28800) query_filter (1800 * Second) (11700 * Second)" by simp
  ultimately have given: "plain_scope query_filter (ot_events ?db)" "distinct [('''', ''k'')]"
    "False \<longrightarrow> whole_days (fixed_zone 28800) query_filter (1800 * Second) (11700 * Second)" by simp_all
  note answer = analysis_query_exact [OF eastern_eight.overview built given(1,2) code_any_order query_example(3,4) analysis_example(1) given(3),
      of "None :: unit resolver" "\<lambda>_ _. None"]
  from only_answer [OF answer [unfolded events query_example_paid]] show ?thesis unfolding analysis_example(2) analysis_key_def if_False by auto
qed

text \<open>
  Claim C9. The trend shows every event in one bar. Under the same conditions (whole-hour midnights, tables built from the events, no
  filter on providers) the error is that of a row without a finite fee that is read, and else the bars are in strictly ascending
  order, an event is in the bar of its hour, or of its local date when the range is read by days, and the
  seven counts of a bar are the 64-bit sums over exactly its events. For today and yesterday the bars are
  all hours of the day up to and including its end, whether or not anything happened in them.
\<close>

theorem analysis_trend_exact:
  assumes "overview_zone zone" and "BuildRows zone (ot_events db) = Inr (ot_hourly db, ot_daily db, watermark)"
    and "plain_scope qf (ot_events db)" and "distinct keys" and "any_order order"
    and "uf_StartTime qf = Some start" and "uf_EndTime qf = Some stop"
    and "analysisUsesDailyStats zone qf = Some daily" and "daily \<longrightarrow> whole_days zone qf start stop" and "within_day zone qf start stop"
  shows "\<exists>result. BuildAnalysisWithFilter order r zone keys db lookup qf = Some result
    \<and> (case result of
         Inl err \<Rightarrow> \<exists>t\<in>unpaid (analysis_key zone daily) (ot_events db) (analysed_events zone qf keys daily start stop (ot_events db)). err = BucketNotFinite t
       | Inr answer \<Rightarrow>
           unpaid (analysis_key zone daily) (ot_events db) (analysed_events zone qf keys daily start stop (ot_events db)) = {}
           \<and> bars_exact (event_bar zone daily) (analysed_events zone qf keys daily start stop (ot_events db)) (ar_TokenUsage answer)
           \<and> (\<not> daily \<and> uf_Range qf \<in> {''today'', ''yesterday''} \<and> first_hour start < hours_end zone qf start stop \<longrightarrow>
               map tu_Bucket (ar_TokenUsage answer) = day_hours zone start))"
  using hourly_zone.analysis_answer [OF hourly_zone.intro [OF assms(1)] built_from_rows [OF assms(2)] assms(3-9), of r lookup] assms(10)
  by (elim exE) (rule exI, erule conjE, rule conjI, assumption, simp split: sum.splits)

theorem analysis_trend_exact_witness:
  "\<exists>answer. BuildAnalysisWithFilter code_order (None :: unit resolver) (fixed_zone 28800) [('''', ''k'')] (query_tables (fixed_zone 28800) query_events) (\<lambda>_ _. None) query_filter
      = Some (Inr answer)
    \<and> bars_exact (event_bar (fixed_zone 28800) False) (map query_event [9000, 11000]) (ar_TokenUsage answer)
    \<and> map tu_Bucket (ar_TokenUsage answer) = map (\<lambda>k. k * Hour) [0..16]"
proof -
  let ?db = "query_tables (fixed_zone 28800) query_events"
  have events: "ot_events ?db = query_events" by (simp add: query_tables_def BuildRows_priced [OF query_example(1)])
  obtain w where built: "BuildRows (fixed_zone 28800) (ot_events ?db) = Inr (ot_hourly ?db, ot_daily ?db, w)"
    using query_tables_built [OF query_example(1)] by blast
  have "plain_scope query_filter (ot_events ?db)" "distinct [('''', ''k'')]" by (simp_all add: events query_example(2))
  moreover have "False \<longrightarrow> whole_days (fixed_zone 28800) query_filter (1800 * Second) (11700 * Second)" by simp
  ultimately have given: "plain_scope query_filter (ot_events ?db)" "distinct [('''', ''k'')]"
    "False \<longrightarrow> whole_days (fixed_zone 28800) query_filter (1800 * Second) (11700 * Second)" by simp_all
  note shown = analysis_trend_exact [OF eastern_eight.overview built given(1,2) code_any_order query_example(3,4) analysis_example(1) given(3) analysis_example(3),
      where r = "None :: unit resolver" and lookup = "\<lambda>_ _. None"]
  have "day_hours (fixed_zone 28800) (1800 * Second) = map (\<lambda>k. k * Hour) [0..16]"
    unfolding day_hours_def example_day_end example_hours by (simp add: Hour_def Minute_def Second_def)
  moreover have "uf_Range query_filter = ''yesterday''" by (simp add: query_filter_def)
  moreover have "first_hour (1800 * Second) < hours_end (fixed_zone 28800) query_filter (1800 * Second) (11700 * Second)"
    unfolding example_hours by (simp add: Second_def)
  ultimately show ?thesis
    using only_answer [OF shown [unfolded events query_example_paid]] unfolding analysis_example(2) by auto
qed

text \<open>The bounds between source buckets: whole hours from the start, or midnights.\<close>

definition edge :: "zone \<Rightarrow> bool \<Rightarrow> time \<Rightarrow> nat \<Rightarrow> time" where
  "edge zone daily start k = (if daily then midnight zone (wall_day zone start + int k) * Second else start + int k * Hour)"

lemma speed_buckets:
  assumes zone: "overview_zone zone" and "edge zone daily start 0 = start" and "edge zone daily start n = stop"
  shows "\<exists>speed. newAnalysisModelSpeed zone start stop daily = Some speed \<and> aa_models speed = [] \<and> as_Series (aa_record speed) = []
    \<and> as_RangeStart (aa_record speed) = start \<and> as_RangeEnd (aa_record speed) = stop
    \<and> as_Buckets (aa_record speed) = grouped_buckets (map (edge zone daily start) [0..<Suc n])"
proof (cases daily)
  case True
  define d where "d = wall_day zone start"
  have bounds: "start = midnight zone d * Second" "stop = midnight zone (d + int n) * Second"
    using assms(2,3) True by (simp_all add: edge_def d_def)
  have "map (\<lambda>d. midnight zone d * Second) [d..d + int n] = map (edge zone True start) [0..<Suc n]"
    by (rule nth_equalityI) (simp_all add: edge_def d_def [symmetric] nth_append nth_upto del: upt_Suc)
  then show ?thesis
    using hourly_zone.daily_speed [OF hourly_zone.intro [OF zone], of d "d + int n"] True by (simp add: bounds [symmetric])
next
  case False
  have "0 < Hour" by (simp add: Hour_def Minute_def Second_def)
  moreover have "start - stop = (- int n) * Hour" using assms(3) False by (simp add: edge_def)
  ultimately have "(start - stop) div Hour = - int n" by (simp only: nonzero_mult_div_cancel_right less_imp_neq [symmetric] not_False_eq_True)
  then have "hour_boundaries stop start = map (edge zone False start) [0..<Suc n]"
    by (simp add: hour_boundaries_value edge_def [abs_def] del: upt_Suc)
  with False show ?thesis by (simp add: hourly_speed)
qed

lemma slot_found:
  assumes "length buckets = m" and "0 < m" and chain: "\<forall>i<m. buckets ! i = \<lparr>sb_Start = f (c i), sb_End = f (c (Suc i))\<rparr>"
    and "f (c 0) \<le> t" and "t < f (c m)"
  shows "\<exists>i<m. speed_slot buckets t = Some i \<and> f (c i) \<le> t \<and> t < f (c (Suc i))"
proof -
  let ?before = "\<lambda>b. \<not> t < sb_End b"
  define i where "i = length (takeWhile ?before buckets)"
  have "buckets ! (m - 1) \<in> set buckets" using assms(1,2) by (intro nth_mem) simp
  moreover have "t < sb_End (buckets ! (m - 1))" using assms by simp
  ultimately have "takeWhile ?before buckets \<noteq> buckets" unfolding takeWhile_eq_all_conv by blast
  then have "i \<noteq> m" using takeWhile_eq_take [of ?before buckets] assms(1) by (auto simp: i_def)
  then have "i < m" using length_takeWhile_le [of ?before buckets] assms(1) by (simp add: i_def)
  moreover have "t < f (c (Suc i))"
    using nth_length_takeWhile [of ?before buckets] \<open>i < m\<close> chain assms(1) by (simp add: i_def [symmetric])
  moreover have "f (c i) \<le> t"
  proof (cases i)
    case (Suc j)
    then have j: "j < length (takeWhile ?before buckets)" by (simp add: i_def)
    from nth_mem [OF j] have "\<not> t < sb_End (buckets ! j)" unfolding takeWhile_nth [OF j] by (rule set_takeWhileD [THEN conjunct2])
    with chain \<open>i < m\<close> Suc show ?thesis by simp
  qed (use assms(4) in simp)
  ultimately show ?thesis using chain assms(1) by (intro exI [of _ i]) (simp add: speed_slot_def i_def [symmetric])
qed

text \<open>
  Claim C10. The speeds of the analysis cover its range. When the range is \<open>n\<close> whole hours, or \<open>n\<close> local days, the rows
  are folded into at most eight intervals that follow on each other from its start to its end, the first
  \<open>n mod m\<close> of the \<open>m\<close> one source bucket longer than the others. There is one series for every model
  with a row in the range; its totals are the 64-bit sums over the rows of the model, and its sample of
  an interval has the sum of the speeds of the rows in it, in their order, the number of requests measured,
  and the mean where there are any.
\<close>

theorem analysis_speeds_exact:
  fixes n :: nat
  assumes "overview_zone zone" and "any_order order"
    and "edge zone daily start 0 = start" and "edge zone daily start n = stop" and "0 < n"
  defines "m \<equiv> min n 8"
  shows "\<exists>answer shown. (if daily then applyAnalysisDailyRows else applyAnalysisHourlyRows) order r zone lookup rows start stop blank = Some answer
    \<and> ar_ModelSpeed answer = Some shown \<and> speeds_exact daily rows shown
    \<and> as_RangeStart shown = start \<and> as_RangeEnd shown = stop \<and> length (as_Buckets shown) = m
    \<and> (\<forall>i<m. as_Buckets shown ! i = \<lparr>sb_Start = edge zone daily start (group_start n m i), sb_End = edge zone daily start (group_start n m (Suc i))\<rparr>)
    \<and> (\<forall>t. start \<le> t \<and> t < stop \<longrightarrow> (\<exists>i<m. speed_slot (as_Buckets shown) t = Some i
          \<and> edge zone daily start (group_start n m i) \<le> t \<and> t < edge zone daily start (group_start n m (Suc i))))
    \<and> group_start n m 0 = 0 \<and> group_start n m m = n \<and> (\<forall>i. group_start n m (Suc i) = group_start n m i + n div m + (if i < n mod m then 1 else 0))"
proof -
  obtain speed where speed: "newAnalysisModelSpeed zone start stop daily = Some speed" "aa_models speed = []" "as_Series (aa_record speed) = []"
      "as_RangeStart (aa_record speed) = start" "as_RangeEnd (aa_record speed) = stop"
      "as_Buckets (aa_record speed) = grouped_buckets (map (edge zone daily start) [0..<Suc n])"
    using speed_buckets [OF assms(1,3,4)] by blast
  let ?answer = "finished order r lookup daily speed rows blank"
  let ?shown = "analysis_speed_finalize (od_series order) (an_speed (folded r lookup daily speed (ar_CostSummary blank) rows))"
  have "(if daily then applyAnalysisDailyRows else applyAnalysisHourlyRows) order r zone lookup rows start stop blank = Some ?answer"
    using speed(1) by (cases daily) (simp_all add: applyAnalysisDailyRows_def applyAnalysisHourlyRows_def finished_def)
  moreover have "ar_ModelSpeed ?answer = Some ?shown" by (simp add: finished_def finalizeAnalysisRecord_def Let_def)
  moreover note shown = finalized_speeds [OF assms(2) speed(2,3) refl, where daily = daily and rows = rows and r = r and lookup = lookup]
  moreover have buckets: "as_Buckets ?shown = grouped_buckets (map (edge zone daily start) [0..<Suc n])" by (simp only: shown(2) speed(6))
  moreover note groups = grouped_edges [OF assms(5) m_def [THEN meta_eq_to_obj_eq]]
  have size: "length (as_Buckets ?shown) = m" unfolding buckets by (rule groups(1))
  moreover have each: "\<forall>i<m. as_Buckets ?shown ! i =
      \<lparr>sb_Start = edge zone daily start (group_start n m i), sb_End = edge zone daily start (group_start n m (Suc i))\<rparr>"
    unfolding buckets using groups(2) by blast
  moreover have m: "0 < m" using assms(5) by (simp add: m_def)
  note steps = group_steps(1) [of n m] group_steps(2) [OF m, of n] group_steps(3) [of n m]
  moreover have "\<forall>t. start \<le> t \<and> t < stop \<longrightarrow> (\<exists>i<m. speed_slot (as_Buckets ?shown) t = Some i
      \<and> edge zone daily start (group_start n m i) \<le> t \<and> t < edge zone daily start (group_start n m (Suc i)))"
    using slot_found [where f = "edge zone daily start" and c = "group_start n m", OF size m each, unfolded steps(1,2) assms(3,4)] by blast
  ultimately show ?thesis
    by (intro exI [of _ ?answer] exI [of _ ?shown] conjI) (simp_all only: steps size speed(4,5) simp_thms)
qed

theorem analysis_speeds_exact_witness:
  "\<exists>answer shown. applyAnalysisHourlyRows code_order (None :: unit resolver) (fixed_zone 0) (\<lambda>_ _. None) [] 0 (10 * Hour) (empty_answer False 0 (10 * Hour)) = Some answer
    \<and> ar_ModelSpeed answer = Some shown \<and> as_Buckets shown ! 1 = \<lparr>sb_Start = 2 * Hour, sb_End = 4 * Hour\<rparr>
    \<and> as_Buckets shown ! 2 = \<lparr>sb_Start = 4 * Hour, sb_End = 5 * Hour\<rparr>"
proof -
  have zone: "overview_zone (fixed_zone 0)" by (rule fixed_overview_zone) simp_all
  have edges: "edge (fixed_zone 0) False 0 0 = 0" "edge (fixed_zone 0) False 0 10 = 10 * Hour" by (simp_all add: edge_def)
  obtain answer shown where "applyAnalysisHourlyRows code_order (None :: unit resolver) (fixed_zone 0) (\<lambda>_ _. None) [] 0 (10 * Hour) (empty_answer False 0 (10 * Hour)) = Some answer"
      "ar_ModelSpeed answer = Some shown"
      "\<forall>i<8. as_Buckets shown ! i = \<lparr>sb_Start = edge (fixed_zone 0) False 0 (group_start 10 8 i),
         sb_End = edge (fixed_zone 0) False 0 (group_start 10 8 (Suc i))\<rparr>"
    using analysis_speeds_exact [where n = 10 and r = "None :: unit resolver" and lookup = "\<lambda>_ _. None" and rows = "[]"
        and blank = "empty_answer False 0 (10 * Hour)", OF zone code_any_order edges] by auto
  then show ?thesis by (intro exI [of _ answer] exI [of _ shown]) (simp add: edge_def group_start_def)
qed

section \<open>Where the analysis is not exact\<close>

text \<open>
  Why whole-hour midnights: in India, say, a natural day of 24 hours is still read by absolute hours. The rows begin half
  an hour into the day, and the last of them goes half an hour beyond it.
\<close>

lemma half_hour_zone_cuts_day:
  defines "zone \<equiv> fixed_zone 19800" and "start \<equiv> - 19800 * Second" and "stop \<equiv> 66600 * Second"
  defines "qf \<equiv> query_filter\<lparr>uf_StartTime := Some start, uf_EndTime := Some stop\<rparr>"
  shows "analysisUsesDailyStats zone qf = Some False"
    and "\<exists>whole. usageOverviewFullHourWindow start stop = (start + 1800 * Second, whole) \<and> analysisHourlyStatsEnd zone qf whole = Some stop"
    and "truncate_hour stop + Hour = stop + 1800 * Second"
proof -
  have range: "uf_Range qf = ''yesterday''" "uf_StartTime qf = Some start" "uf_EndTime qf = Some stop" by (simp_all add: qf_def query_filter_def)
  have "time_Sub stop start = 86400 * Second" by (simp add: time_Sub_def start_def stop_def MinInt64_def MaxInt64_def Second_def)
  moreover have "TrimSpace ''yesterday'' = ''yesterday''" by code_simp
  ultimately show "analysisUsesDailyStats zone qf = Some False"
    by (simp add: analysisUsesDailyStats_def computeWindowMinutes_def range start_def stop_def Minute_def Second_def)
  have window: "usageOverviewFullHourWindow start stop = (start + 1800 * Second, 64800 * Second)"
    by (simp add: usageOverviewFullHourWindow_def start_def stop_def truncate_hour_def Hour_def Minute_def Second_def)
  have wall: "wall_day zone start = 0" by (simp add: wall_day_def wall_seconds_def zone_def start_def fixed_zone_def unix_def Second_def)
  have "day_interval zone start = Some \<lparr>iv_Start = start, iv_End = stop\<rparr>"
    using wall by (simp add: day_interval_def DateOf_def DayBounds_regular zone_def fixed_zone_regular fixed_zone_segments
        midnight_def from_wall_fixed start_def stop_def)
  then have "analysisHourlyStatsEnd zone qf (64800 * Second) = Some stop"
    using day_is_no_rolling_range by (simp add: analysisHourlyStatsEnd_def range stop_def Second_def)
  with window show "\<exists>whole. usageOverviewFullHourWindow start stop = (start + 1800 * Second, whole) \<and> analysisHourlyStatsEnd zone qf whole = Some stop"
    by blast
  show "truncate_hour stop + Hour = stop + 1800 * Second" by (simp add: stop_def truncate_hour_def Hour_def Minute_def Second_def)
qed

text \<open>
  Compositions of different instances with one key and equal use have no order: the sort leaves them as the map gave them.
\<close>

lemma composition_order_open:
  "sortAnalysisComposition [new_composition i k l, new_composition i' k l'] = [new_composition i k l, new_composition i' k l']"
  by (simp add: sortAnalysisComposition_def)

end
