(* ===== verification/Session_Manager.thy ===== *)
theory Session_Manager
  imports Overview_Query
begin

text \<open>
  Login sessions: \<open>src/internal/auth/session.go\<close> and \<open>session_oidc.go\<close>. The manager caches sessions by token in front
  of the table \<open>auth_sessions\<close>, which knows a token only by its hash. The table is a list of rows with distinct
  hashes. Parameters are \<open>hash\<close> (SHA-256 in hexadecimal), the random token (\<open>None\<close> when reading random
  bytes failed), each reading of the clock, the zone in whose text the database compares times, and for every
  call of the database a \<open>fault\<close>: whether it returned an error and did nothing. A receiver without a
  database, which only returns an error, is not modelled.
\<close>

section \<open>Stored times\<close>

text \<open>
  The database compares times as text, in the form of \<open>RFC3339Nano\<close>: the local date and time, the fraction of
  the second without trailing zeros, and the offset. Up to the seconds the text has a fixed width.
\<close>

definition nano_text :: "int \<Rightarrow> string" where
  "nano_text nanos =
     (if nanos = 0 then ''''
      else CHR ''.'' # rev (dropWhile (\<lambda>c. c = CHR ''0'') (rev (map (\<lambda>k. char_of (nat (48 + nanos div 10 ^ (8 - k) mod 10))) [0..<9]))))"

definition stored_suffix :: "zone \<Rightarrow> time \<Rightarrow> string" where
  "stored_suffix zone t = nano_text (t mod Second) @ offset_text (zs_offset (zone (unix t)))"

definition stored_less :: "zone \<Rightarrow> time \<Rightarrow> time \<Rightarrow> bool" where
  "stored_less zone a b \<longleftrightarrow>
     (wall_seconds zone a < wall_seconds zone b
      \<or> wall_seconds zone a = wall_seconds zone b \<and> stored_suffix zone a < stored_suffix zone b)"


section \<open>Sessions\<close>

definition RoleAdmin :: string where "RoleAdmin = ''admin''"
definition RoleAPIKeyViewer :: string where "RoleAPIKeyViewer = ''api_key_viewer''"
definition SessionSourceStandard :: string where "SessionSourceStandard = ''standard''"
definition SessionSourceEmbed :: string where "SessionSourceEmbed = ''embed''"
definition SessionSourceOIDC :: string where "SessionSourceOIDC = ''oidc''"

definition NormalizeSessionSource :: "string \<Rightarrow> string" where
  "NormalizeSessionSource source = (if source = '''' then SessionSourceStandard else source)"

record Session =
  se_Role :: string
  se_Source :: string
  se_Alias :: string
  se_CPAAPIKeyID :: int
  se_OIDCIssuer :: string
  se_OIDCSubject :: string
  se_OIDCClientID :: string
  se_LoginIP :: string
  se_LastSeenIP :: string
  se_UserAgent :: string
  se_LastSeenAt :: time
  se_ExpiresAt :: time
  se_CreatedAt :: time

text \<open>A \<open>SessionRecord\<close> repeats the fields of the session beside the hash.\<close>

record SessionRecord =
  sr_TokenHash :: string
  sr_Session :: Session

record SessionClientMetadata =
  md_IP :: string
  md_UserAgent :: string

record sessionActivityUpdate =
  sa_token :: string
  sa_lastSeenIP :: string
  sa_lastSeenAt :: time

record OIDCSessionPolicy =
  op_Enabled :: bool
  op_Issuer :: string
  op_ClientID :: string
  op_AllowedSubjects :: "string list"

definition sessionAllowed :: "OIDCSessionPolicy \<Rightarrow> Session \<Rightarrow> bool" where
  "sessionAllowed p session \<longleftrightarrow>
     (if se_Source session = SessionSourceStandard \<or> se_Source session = SessionSourceEmbed then True
      else if se_Source session \<noteq> SessionSourceOIDC then False
      else if \<not> op_Enabled p \<or> se_Role session \<noteq> RoleAdmin \<or> se_OIDCIssuer session = '''' \<or> se_OIDCSubject session = ''''
        \<or> se_OIDCClientID session = '''' \<or> se_OIDCIssuer session \<noteq> op_Issuer p \<or> se_OIDCClientID session \<noteq> op_ClientID p then False
      else if op_AllowedSubjects p = [] then True
      else se_OIDCSubject session \<in> set (op_AllowedSubjects p))"

definition normalizeSessionIP :: "string \<Rightarrow> string" where
  "normalizeSessionIP text = (if 64 < length (TrimSpace text) then '''' else TrimSpace text)"

definition normalizeSessionClientMetadata :: "SessionClientMetadata \<Rightarrow> SessionClientMetadata" where
  "normalizeSessionClientMetadata metadata = metadata\<lparr>md_IP := normalizeSessionIP (md_IP metadata)\<rparr>"


section \<open>The table\<close>

record AuthSession =
  as_TokenHash :: string
  as_Role :: string
  as_Source :: string
  as_Alias :: string
  as_CPAAPIKeyID :: int
  as_OIDCIssuer :: "string option"
  as_OIDCSubject :: "string option"
  as_OIDCClientID :: "string option"
  as_LoginIP :: string
  as_LastSeenIP :: string
  as_UserAgent :: string
  as_LastSeenAt :: "time option"
  as_ExpiresAt :: time
  as_CreatedAt :: time
  as_UpdatedAt :: time

definition optionalSessionIdentity :: "string \<Rightarrow> string option" where
  "optionalSessionIdentity text = (if text = '''' then None else Some text)"

definition sessionIdentityValue :: "string option \<Rightarrow> string" where
  "sessionIdentityValue text = (case text of None \<Rightarrow> '''' | Some t \<Rightarrow> t)"

definition sessionTimePointer :: "time \<Rightarrow> time option" where
  "sessionTimePointer t = (if t = zeroTime then None else Some t)"

definition session_row :: "string \<Rightarrow> Session \<Rightarrow> AuthSession" where
  "session_row tokenHash session =
     \<lparr>as_TokenHash = tokenHash, as_Role = se_Role session, as_Source = NormalizeSessionSource (se_Source session),
      as_Alias = se_Alias session, as_CPAAPIKeyID = se_CPAAPIKeyID session,
      as_OIDCIssuer = optionalSessionIdentity (se_OIDCIssuer session), as_OIDCSubject = optionalSessionIdentity (se_OIDCSubject session),
      as_OIDCClientID = optionalSessionIdentity (se_OIDCClientID session), as_LoginIP = se_LoginIP session,
      as_LastSeenIP = se_LastSeenIP session, as_UserAgent = se_UserAgent session, as_LastSeenAt = sessionTimePointer (se_LastSeenAt session),
      as_ExpiresAt = se_ExpiresAt session, as_CreatedAt = se_CreatedAt session, as_UpdatedAt = se_CreatedAt session\<rparr>"

text \<open>\<open>None\<close> is the error of an unknown role.\<close>

definition authSessionFromRow :: "AuthSession \<Rightarrow> Session option" where
  "authSessionFromRow row =
     (let source = NormalizeSessionSource (as_Source row);
          lastSeenAt = (case as_LastSeenAt row of Some t \<Rightarrow> if t = zeroTime then as_CreatedAt row else t | None \<Rightarrow> as_CreatedAt row);
          common = \<lparr>se_Role = as_Role row, se_Source = source, se_Alias = '''', se_CPAAPIKeyID = 0, se_OIDCIssuer = '''', se_OIDCSubject = '''',
            se_OIDCClientID = '''', se_LoginIP = as_LoginIP row, se_LastSeenIP = as_LastSeenIP row, se_UserAgent = as_UserAgent row,
            se_LastSeenAt = lastSeenAt, se_ExpiresAt = as_ExpiresAt row, se_CreatedAt = as_CreatedAt row\<rparr>
      in if as_Role row = RoleAdmin then
           Some (common\<lparr>se_Alias := as_Alias row, se_OIDCIssuer := sessionIdentityValue (as_OIDCIssuer row),
             se_OIDCSubject := sessionIdentityValue (as_OIDCSubject row), se_OIDCClientID := sessionIdentityValue (as_OIDCClientID row)\<rparr>)
         else if as_Role row = RoleAPIKeyViewer then Some (common\<lparr>se_CPAAPIKeyID := as_CPAAPIKeyID row\<rparr>)
         else None)"

definition authSessionRecordFromRow :: "AuthSession \<Rightarrow> SessionRecord option" where
  "authSessionRecordFromRow row = map_option (\<lambda>s. \<lparr>sr_TokenHash = as_TokenHash row, sr_Session = s\<rparr>) (authSessionFromRow row)"

text \<open>The operations of the store on its table. A deletion and an update also return how many rows they met.\<close>

definition store_Save :: "(string \<Rightarrow> string) \<Rightarrow> string \<Rightarrow> Session \<Rightarrow> AuthSession list \<Rightarrow> AuthSession list" where
  "store_Save hash token session table =
     filter (\<lambda>row. as_TokenHash row \<noteq> hash token) table @ [session_row (hash token) session]"

definition store_UpdateAdminAliasByTokenHash :: "string \<Rightarrow> string \<Rightarrow> time \<Rightarrow> AuthSession list \<Rightarrow> AuthSession list \<times> nat" where
  "store_UpdateAdminAliasByTokenHash tokenHash alias updatedAt table =
     (let met = (\<lambda>row. as_TokenHash row = tokenHash \<and> as_Role row = RoleAdmin)
      in (map (\<lambda>row. if met row then row\<lparr>as_Alias := alias, as_UpdatedAt := updatedAt\<rparr> else row) table, length (filter met table)))"

definition store_UpdateActivity :: "(string \<Rightarrow> string) \<Rightarrow> string \<Rightarrow> string \<Rightarrow> time \<Rightarrow> AuthSession list \<Rightarrow> AuthSession list" where
  "store_UpdateActivity hash token lastSeenIP lastSeenAt table =
     map (\<lambda>row. if as_TokenHash row = hash token
        then row\<lparr>as_LastSeenIP := lastSeenIP, as_LastSeenAt := Some lastSeenAt, as_UpdatedAt := lastSeenAt\<rparr> else row) table"

definition store_row :: "(string \<Rightarrow> string) \<Rightarrow> string \<Rightarrow> AuthSession list \<Rightarrow> AuthSession option" where
  "store_row hash token table = find (\<lambda>row. as_TokenHash row = hash token) table"

text \<open>\<open>None\<close> is an error, \<open>Some None\<close> a token without a row.\<close>

definition store_Get :: "(string \<Rightarrow> string) \<Rightarrow> string \<Rightarrow> AuthSession list \<Rightarrow> Session option option" where
  "store_Get hash token table =
     (case store_row hash token table of None \<Rightarrow> Some None | Some row \<Rightarrow> map_option Some (authSessionFromRow row))"

definition store_List :: "zone \<Rightarrow> time \<Rightarrow> AuthSession list \<Rightarrow> SessionRecord list option" where
  "store_List zone now table =
     those (map authSessionRecordFromRow
       (sort_key (\<lambda>row. (wall_seconds zone (as_CreatedAt row), stored_suffix zone (as_CreatedAt row), as_TokenHash row))
         (filter (\<lambda>row. stored_less zone now (as_ExpiresAt row)) table)))"

definition store_Delete :: "(string \<Rightarrow> string) \<Rightarrow> string \<Rightarrow> AuthSession list \<Rightarrow> AuthSession list" where
  "store_Delete hash token table = filter (\<lambda>row. as_TokenHash row \<noteq> hash token) table"

definition store_DeleteByTokenHash :: "string \<Rightarrow> AuthSession list \<Rightarrow> AuthSession list \<times> nat" where
  "store_DeleteByTokenHash tokenHash table =
     (filter (\<lambda>row. as_TokenHash row \<noteq> tokenHash) table, length (filter (\<lambda>row. as_TokenHash row = tokenHash) table))"

definition store_DeleteByRole :: "string \<Rightarrow> AuthSession list \<Rightarrow> AuthSession list \<times> nat" where
  "store_DeleteByRole role table = (filter (\<lambda>row. as_Role row \<noteq> role) table, length (filter (\<lambda>row. as_Role row = role) table))"

definition store_DeleteExpired :: "zone \<Rightarrow> time \<Rightarrow> AuthSession list \<Rightarrow> AuthSession list" where
  "store_DeleteExpired zone now table = filter (\<lambda>row. stored_less zone now (as_ExpiresAt row)) table"

section \<open>The manager\<close>

record sessionManager =
  sm_ttl :: duration
  sm_store :: "AuthSession list option"
  sm_sessions :: "(string \<times> Session) list"
  sm_pendingActivity :: "(string \<times> sessionActivityUpdate) list"
  sm_activityWriterRunning :: bool
  sm_oidcPolicy :: OIDCSessionPolicy

text \<open>
  A call returns, or panics on an error of the database. The deferred unlock lets others go on with what the call has
  changed before.
\<close>

datatype 'a call = Return 'a | Panic

fun and_then :: "'a call \<times> sessionManager \<Rightarrow> ('a \<Rightarrow> sessionManager \<Rightarrow> 'b call \<times> sessionManager) \<Rightarrow> 'b call \<times> sessionManager" where
  "and_then (Return x, m) f = f x m"
| "and_then (Panic, m) f = (Panic, m)"

definition no_policy :: OIDCSessionPolicy where
  "no_policy = \<lparr>op_Enabled = False, op_Issuer = '''', op_ClientID = '''', op_AllowedSubjects = []\<rparr>"

definition NewSessionManager :: "duration \<Rightarrow> sessionManager" where
  "NewSessionManager ttl =
     \<lparr>sm_ttl = ttl, sm_store = None, sm_sessions = [], sm_pendingActivity = [], sm_activityWriterRunning = False, sm_oidcPolicy = no_policy\<rparr>"

definition NewPersistentSessionManager :: "duration \<Rightarrow> AuthSession list \<Rightarrow> sessionManager" where
  "NewPersistentSessionManager ttl table = (NewSessionManager ttl)\<lparr>sm_store := Some table\<rparr>"

definition SetOIDCPolicy :: "OIDCSessionPolicy \<Rightarrow> sessionManager \<Rightarrow> sessionManager" where
  "SetOIDCPolicy policy m = m\<lparr>sm_oidcPolicy := policy\<rparr>"

definition sessionAllowedLocked :: "sessionManager \<Rightarrow> Session \<Rightarrow> bool" where
  "sessionAllowedLocked m session = sessionAllowed (sm_oidcPolicy m) session"

definition cleanupExpiredLocked :: "zone \<Rightarrow> bool \<Rightarrow> time \<Rightarrow> sessionManager \<Rightarrow> unit call \<times> sessionManager" where
  "cleanupExpiredLocked zone fault now m =
     (let m = m\<lparr>sm_sessions := filter (\<lambda>(token, session). now < se_ExpiresAt session) (sm_sessions m)\<rparr>
      in case sm_store m of
           None \<Rightarrow> (Return (), m)
         | Some table \<Rightarrow> if fault then (Panic, m) else (Return (), m\<lparr>sm_store := Some (store_DeleteExpired zone now table)\<rparr>))"

definition CleanupExpired :: "zone \<Rightarrow> bool \<Rightarrow> time \<Rightarrow> sessionManager \<Rightarrow> unit call \<times> sessionManager" where
  "CleanupExpired zone fault now m = cleanupExpiredLocked zone fault now m"

datatype createError = GenerateFailed | NotPermitted | SaveFailed

text \<open>The session as \<open>create\<close> fills it in.\<close>

definition opened_session :: "duration \<Rightarrow> time \<Rightarrow> SessionClientMetadata \<Rightarrow> Session \<Rightarrow> Session" where
  "opened_session ttl now metadata session =
     (let metadata = normalizeSessionClientMetadata metadata
      in session\<lparr>se_Source := NormalizeSessionSource (se_Source session), se_LoginIP := md_IP metadata,
           se_LastSeenIP := md_IP metadata, se_UserAgent := md_UserAgent metadata, se_LastSeenAt := now,
           se_ExpiresAt := now + ttl, se_CreatedAt := now\<rparr>)"

text \<open>The clock is read at \<open>swept\<close> for the clean-up and at \<open>now\<close> for the session.\<close>

definition create ::
    "zone \<Rightarrow> (string \<Rightarrow> string) \<Rightarrow> string option \<Rightarrow> bool \<Rightarrow> bool \<Rightarrow> time \<Rightarrow> time \<Rightarrow> Session \<Rightarrow> SessionClientMetadata \<Rightarrow> sessionManager
      \<Rightarrow> (createError + string \<times> time) call \<times> sessionManager" where
  "create zone hash generated sweepFault saveFault swept now session metadata m =
     (case generated of
        None \<Rightarrow> (Return (Inl GenerateFailed), m)
      | Some token \<Rightarrow>
          and_then (cleanupExpiredLocked zone sweepFault swept m) (\<lambda>_ m.
            if \<not> sessionAllowedLocked m session then (Return (Inl NotPermitted), m)
            else
              let expiresAt = now + sm_ttl m; session = opened_session (sm_ttl m) now metadata session
              in case sm_store m of
                   None \<Rightarrow> (Return (Inr (token, expiresAt)), m\<lparr>sm_sessions := AList.update token session (sm_sessions m)\<rparr>)
                 | Some table \<Rightarrow>
                     if saveFault then (Return (Inl SaveFailed), m)
                     else (Return (Inr (token, expiresAt)),
                           m\<lparr>sm_store := Some (store_Save hash token session table), sm_sessions := AList.update token session (sm_sessions m)\<rparr>)))"

text \<open>What is logged in: an administrator, a viewer of one API key, or an administrator known to the identity provider.\<close>

definition zero_session :: Session where
  "zero_session =
     \<lparr>se_Role = '''', se_Source = '''', se_Alias = '''', se_CPAAPIKeyID = 0, se_OIDCIssuer = '''', se_OIDCSubject = '''', se_OIDCClientID = '''',
      se_LoginIP = '''', se_LastSeenIP = '''', se_UserAgent = '''', se_LastSeenAt = zeroTime, se_ExpiresAt = zeroTime, se_CreatedAt = zeroTime\<rparr>"

definition admin_login :: "string \<Rightarrow> Session" where
  "admin_login source = zero_session\<lparr>se_Role := RoleAdmin, se_Source := NormalizeSessionSource source\<rparr>"

definition viewer_login :: "int \<Rightarrow> string \<Rightarrow> Session" where
  "viewer_login cpaAPIKeyID source =
     zero_session\<lparr>se_Role := RoleAPIKeyViewer, se_Source := NormalizeSessionSource source, se_CPAAPIKeyID := cpaAPIKeyID\<rparr>"

definition oidc_login :: "string \<Rightarrow> string \<Rightarrow> string \<Rightarrow> string \<Rightarrow> Session" where
  "oidc_login issuer subject clientID alias =
     zero_session\<lparr>se_Role := RoleAdmin, se_Source := SessionSourceOIDC, se_OIDCIssuer := issuer, se_OIDCSubject := subject,
       se_OIDCClientID := clientID, se_Alias := alias\<rparr>"

definition Delete :: "(string \<Rightarrow> string) \<Rightarrow> bool \<Rightarrow> string \<Rightarrow> sessionManager \<Rightarrow> unit call \<times> sessionManager" where
  "Delete hash fault token m =
     (if token = '''' then (Return (), m)
      else
        let m = m\<lparr>sm_sessions := AList.delete token (sm_sessions m)\<rparr>
        in case sm_store m of
             None \<Rightarrow> (Return (), m)
           | Some table \<Rightarrow> if fault then (Panic, m) else (Return (), m\<lparr>sm_store := Some (store_Delete hash token table)\<rparr>))"

text \<open>The part of \<open>Get\<close> under the lock: the cached session and whether the policy allows it.\<close>

definition read_session :: "string \<Rightarrow> sessionManager \<Rightarrow> Session option \<times> bool" where
  "read_session token m =
     (let found = map_of (sm_sessions m) token
      in (found, sessionAllowedLocked m (case found of Some s \<Rightarrow> s | None \<Rightarrow> zero_session)))"

definition getPersisted ::
    "(string \<Rightarrow> string) \<Rightarrow> bool \<Rightarrow> bool \<Rightarrow> time \<Rightarrow> string \<Rightarrow> sessionManager \<Rightarrow> Session option call \<times> sessionManager" where
  "getPersisted hash getFault deleteFault now token m =
     (case sm_store m of
        None \<Rightarrow> (Return None, m)
      | Some table \<Rightarrow>
          (case map_of (sm_sessions m) token of
             Some session \<Rightarrow>
               if \<not> now < se_ExpiresAt session \<or> \<not> sessionAllowedLocked m session then
                 let m = m\<lparr>sm_sessions := AList.delete token (sm_sessions m)\<rparr>
                 in if deleteFault then (Panic, m) else (Return None, m\<lparr>sm_store := Some (store_Delete hash token table)\<rparr>)
               else (Return (Some session), m)
           | None \<Rightarrow>
               if getFault then (Panic, m)
               else (case store_Get hash token table of
                       None \<Rightarrow> (Panic, m)
                     | Some None \<Rightarrow> (Return None, m)
                     | Some (Some session) \<Rightarrow>
                         if \<not> now < se_ExpiresAt session \<or> \<not> sessionAllowedLocked m session then
                           if deleteFault then (Panic, m) else (Return None, m\<lparr>sm_store := Some (store_Delete hash token table)\<rparr>)
                         else (Return (Some session), m\<lparr>sm_sessions := AList.update token session (sm_sessions m)\<rparr>))))"

text \<open>\<open>Get\<close> when nobody comes between its critical sections.\<close>

definition Get ::
    "(string \<Rightarrow> string) \<Rightarrow> bool \<Rightarrow> bool \<Rightarrow> time \<Rightarrow> string \<Rightarrow> sessionManager \<Rightarrow> Session option call \<times> sessionManager" where
  "Get hash getFault deleteFault now token m =
     (if token = '''' then (Return None, m)
      else
        let (found, allowed) = read_session token m
        in case found of
             None \<Rightarrow> getPersisted hash getFault deleteFault now token m
           | Some session \<Rightarrow>
               if \<not> now < se_ExpiresAt session \<or> \<not> allowed
               then and_then (Delete hash deleteFault token m) (\<lambda>_ m. (Return None, m))
               else (Return (Some session), m))"

definition Validate :: "(string \<Rightarrow> string) \<Rightarrow> bool \<Rightarrow> bool \<Rightarrow> time \<Rightarrow> string \<Rightarrow> sessionManager \<Rightarrow> bool call \<times> sessionManager" where
  "Validate hash getFault deleteFault now token m =
     and_then (Get hash getFault deleteFault now token m) (\<lambda>found m. (Return (found \<noteq> None), m))"

definition sessionActivityWriteInterval :: duration where "sessionActivityWriteInterval = Minute"

text \<open>
  The part of \<open>Touch\<close> after its \<open>Get\<close>: whether it changed the session, and whether it starts the writer. The clock is
  read at \<open>checked\<close> and at \<open>now\<close>.
\<close>

definition touch_session :: "time \<Rightarrow> time \<Rightarrow> string \<Rightarrow> string \<Rightarrow> sessionManager \<Rightarrow> (bool \<times> bool) \<times> sessionManager" where
  "touch_session checked now token lastSeenIP m =
     (case map_of (sm_sessions m) token of
        None \<Rightarrow> ((False, False), m)
      | Some session \<Rightarrow>
          let ip = normalizeSessionIP lastSeenIP;
              lastSeenIP = (if ip = '''' then se_LastSeenIP session else ip)
          in if \<not> checked < se_ExpiresAt session then ((False, False), m)
             else if lastSeenIP = se_LastSeenIP session \<and> now < se_LastSeenAt session + sessionActivityWriteInterval then ((False, False), m)
             else
               let m = m\<lparr>sm_sessions := AList.update token (session\<lparr>se_LastSeenIP := lastSeenIP, se_LastSeenAt := now\<rparr>) (sm_sessions m)\<rparr>
               in case sm_store m of
                    None \<Rightarrow> ((True, False), m)
                  | Some _ \<Rightarrow> ((True, \<not> sm_activityWriterRunning m),
                      m\<lparr>sm_pendingActivity := AList.update token \<lparr>sa_token = token, sa_lastSeenIP = lastSeenIP, sa_lastSeenAt = now\<rparr> (sm_pendingActivity m),
                        sm_activityWriterRunning := True\<rparr>))"

definition Touch ::
    "(string \<Rightarrow> string) \<Rightarrow> bool \<Rightarrow> bool \<Rightarrow> time \<Rightarrow> time \<Rightarrow> time \<Rightarrow> string \<Rightarrow> string \<Rightarrow> sessionManager \<Rightarrow> (bool \<times> bool) call \<times> sessionManager" where
  "Touch hash getFault deleteFault got checked now token lastSeenIP m =
     (if token = '''' then (Return (False, False), m)
      else and_then (Get hash getFault deleteFault got token m) (\<lambda>found m.
        if found = None then (Return (False, False), m)
        else (let (changed, m) = touch_session checked now token lastSeenIP m in (Return changed, m))))"

text \<open>
  One round of \<open>writePendingActivity\<close>: under the lock it takes the update that Go's map gives first, here the one at
  \<open>index\<close>, or ends; then, without the lock, it writes the update. An error is only logged.
\<close>

definition take_pending :: "nat \<Rightarrow> sessionManager \<Rightarrow> sessionActivityUpdate option \<times> sessionManager" where
  "take_pending index m =
     (if sm_pendingActivity m = [] then (None, m\<lparr>sm_activityWriterRunning := False\<rparr>)
      else
        let (token, update) = sm_pendingActivity m ! (index mod length (sm_pendingActivity m))
        in (Some update, m\<lparr>sm_pendingActivity := AList.delete token (sm_pendingActivity m)\<rparr>))"

definition write_activity :: "(string \<Rightarrow> string) \<Rightarrow> bool \<Rightarrow> sessionActivityUpdate \<Rightarrow> sessionManager \<Rightarrow> sessionManager" where
  "write_activity hash fault update m =
     (if fault then m
      else m\<lparr>sm_store := map_option (store_UpdateActivity hash (sa_token update) (sa_lastSeenIP update) (sa_lastSeenAt update)) (sm_store m)\<rparr>)"

definition shown_session :: "Session \<Rightarrow> SessionRecord \<Rightarrow> SessionRecord" where
  "shown_session cached r =
     r\<lparr>sr_Session := (sr_Session r)\<lparr>se_Alias := se_Alias cached, se_LoginIP := se_LoginIP cached, se_LastSeenIP := se_LastSeenIP cached,
        se_UserAgent := se_UserAgent cached, se_LastSeenAt := se_LastSeenAt cached\<rparr>\<rparr>"

definition List_sessions ::
    "zone \<Rightarrow> (string \<Rightarrow> string) \<Rightarrow> bool \<Rightarrow> bool \<Rightarrow> time \<Rightarrow> time \<Rightarrow> sessionManager \<Rightarrow> SessionRecord list call \<times> sessionManager" where
  "List_sessions zone hash sweepFault listFault swept now m =
     and_then (cleanupExpiredLocked zone sweepFault swept m) (\<lambda>_ m.
       case sm_store m of
         Some table \<Rightarrow>
           (case if listFault then None else store_List zone now table of
              None \<Rightarrow> (Panic, m)
            | Some records \<Rightarrow>
                let cachedByHash = map_of (map (\<lambda>(token, session). (hash token, session)) (sm_sessions m));
                    records = map (\<lambda>r. case cachedByHash (sr_TokenHash r) of None \<Rightarrow> r | Some s \<Rightarrow> shown_session s r) records
                in (Return (filter (\<lambda>r. sessionAllowedLocked m (sr_Session r)) records), m))
       | None \<Rightarrow>
           (Return (sort_key (\<lambda>r. (se_CreatedAt (sr_Session r), sr_TokenHash r))
              (map (\<lambda>(token, s). \<lparr>sr_TokenHash = hash token, sr_Session = s\<lparr>se_Source := NormalizeSessionSource (se_Source s)\<rparr>\<rparr>)
                (filter (\<lambda>(token, s). sessionAllowedLocked m s) (sm_sessions m)))), m))"

text \<open>
  \<open>for token, session := range m.sessions\<close> of \<open>UpdateAdminAliasByTokenHash\<close>: with a database that has no such row the first
  match ends the call; otherwise every match is renamed.
\<close>

definition UpdateAdminAliasByTokenHash ::
    "zone \<Rightarrow> (string \<Rightarrow> string) \<Rightarrow> bool \<Rightarrow> bool \<Rightarrow> time \<Rightarrow> time \<Rightarrow> string \<Rightarrow> string \<Rightarrow> sessionManager \<Rightarrow> bool call \<times> sessionManager" where
  "UpdateAdminAliasByTokenHash zone hash sweepFault updateFault swept now tokenHash alias m =
     (let tokenHash = TrimSpace tokenHash; alias = TrimSpace alias
      in if tokenHash = '''' then (Return False, m)
         else and_then (cleanupExpiredLocked zone sweepFault swept m) (\<lambda>_ m.
           let met = (\<lambda>(token, session). hash token = tokenHash \<and> se_Role session = RoleAdmin);
               renamed = map (\<lambda>(token, s). (token, if met (token, s) then s\<lparr>se_Alias := alias\<rparr> else s)) (sm_sessions m);
               cached = list_ex met (sm_sessions m)
           in case sm_store m of
                None \<Rightarrow> (Return cached, m\<lparr>sm_sessions := renamed\<rparr>)
              | Some table \<Rightarrow>
                  if updateFault then (Panic, m)
                  else
                    let (table, rows) = store_UpdateAdminAliasByTokenHash tokenHash alias now table; m = m\<lparr>sm_store := Some table\<rparr>
                    in if rows = 0 then (Return False, m) else (Return True, m\<lparr>sm_sessions := renamed\<rparr>)))"

definition DeleteByTokenHash ::
    "zone \<Rightarrow> (string \<Rightarrow> string) \<Rightarrow> bool \<Rightarrow> bool \<Rightarrow> time \<Rightarrow> string \<Rightarrow> sessionManager \<Rightarrow> nat call \<times> sessionManager" where
  "DeleteByTokenHash zone hash sweepFault deleteFault swept tokenHash m =
     (let tokenHash = TrimSpace tokenHash
      in if tokenHash = '''' then (Return 0, m)
         else and_then (cleanupExpiredLocked zone sweepFault swept m) (\<lambda>_ m.
           let met = (\<lambda>(token, session). hash token = tokenHash);
               cached = (if list_ex met (sm_sessions m) then 1 else 0);
               m = m\<lparr>sm_sessions := filter (\<lambda>entry. \<not> met entry) (sm_sessions m)\<rparr>
           in case sm_store m of
                None \<Rightarrow> (Return cached, m)
              | Some table \<Rightarrow>
                  if deleteFault then (Panic, m)
                  else let (table, rows) = store_DeleteByTokenHash tokenHash table
                       in (Return (if cached < rows then rows else cached), m\<lparr>sm_store := Some table\<rparr>)))"

definition DeleteByRole ::
    "zone \<Rightarrow> bool \<Rightarrow> bool \<Rightarrow> time \<Rightarrow> string \<Rightarrow> sessionManager \<Rightarrow> nat call \<times> sessionManager" where
  "DeleteByRole zone sweepFault deleteFault swept role m =
     and_then (cleanupExpiredLocked zone sweepFault swept m) (\<lambda>_ m.
       let met = (\<lambda>(token, session). se_Role session = role);
           cached = length (filter met (sm_sessions m));
           m = m\<lparr>sm_sessions := filter (\<lambda>entry. \<not> met entry) (sm_sessions m)\<rparr>
       in case sm_store m of
            None \<Rightarrow> (Return cached, m)
          | Some table \<Rightarrow>
              if deleteFault then (Panic, m)
              else let (table, rows) = store_DeleteByRole role table
                   in (Return (if cached < rows then rows else cached), m\<lparr>sm_store := Some table\<rparr>))"


section \<open>Sessions of the identity provider at start-up\<close>

definition oidcSessionDeleteBatchSize :: nat where "oidcSessionDeleteBatchSize = 200"

text \<open>The condition of the first deletion. A comparison of SQL with \<open>NULL\<close> selects no row, hence the tests for it.\<close>

definition identity_invalid :: "OIDCSessionPolicy \<Rightarrow> AuthSession \<Rightarrow> bool" where
  "identity_invalid policy row \<longleftrightarrow>
     as_Source row = SessionSourceOIDC
     \<and> (op_Enabled policy \<longrightarrow>
          as_Role row \<noteq> RoleAdmin
          \<or> as_OIDCIssuer row = None \<or> as_OIDCIssuer row = Some '''' \<or> as_OIDCIssuer row \<noteq> Some (op_Issuer policy)
          \<or> as_OIDCClientID row = None \<or> as_OIDCClientID row = Some '''' \<or> as_OIDCClientID row \<noteq> Some (op_ClientID policy)
          \<or> as_OIDCSubject row = None \<or> as_OIDCSubject row = Some '''')"

definition flush_hashes :: "string list \<Rightarrow> AuthSession list \<Rightarrow> AuthSession list \<times> nat" where
  "flush_hashes hashes table =
     (let met = (\<lambda>row. as_Source row = SessionSourceOIDC \<and> as_TokenHash row \<in> set hashes)
      in if hashes = [] then (table, 0) else (filter (\<lambda>row. \<not> met row) table, length (filter met table)))"

fun revoke_subjects :: "string list \<Rightarrow> AuthSession list \<Rightarrow> string list \<Rightarrow> nat \<Rightarrow> AuthSession list \<Rightarrow> AuthSession list \<times> nat" where
  "revoke_subjects allowed [] hashes deleted table =
     (let (table, n) = flush_hashes hashes table in (table, deleted + n))"
| "revoke_subjects allowed (row # rows) hashes deleted table =
     (if sessionIdentityValue (as_OIDCSubject row) \<in> set allowed then revoke_subjects allowed rows hashes deleted table
      else
        let hashes = hashes @ [as_TokenHash row]
        in if length hashes = oidcSessionDeleteBatchSize
           then let (table, n) = flush_hashes hashes table in revoke_subjects allowed rows [] (deleted + n) table
           else revoke_subjects allowed rows hashes deleted table)"

text \<open>One transaction: an error leaves the table as it was, and is the result \<open>None\<close>.\<close>

definition RevokeInvalidOIDCSessions :: "bool \<Rightarrow> OIDCSessionPolicy \<Rightarrow> AuthSession list \<Rightarrow> nat option \<times> AuthSession list" where
  "RevokeInvalidOIDCSessions fault policy table =
     (let kept = filter (\<lambda>row. \<not> identity_invalid policy row) table;
          deleted = length (filter (identity_invalid policy) table)
      in if fault then (None, table)
         else if \<not> op_Enabled policy \<or> op_AllowedSubjects policy = [] then (Some deleted, kept)
         else
           let (kept, deleted) = revoke_subjects (op_AllowedSubjects policy)
                 (filter (\<lambda>row. as_Source row = SessionSourceOIDC) kept) [] deleted kept
           in (Some deleted, kept))"

end
