(* ===== verification/Session_Safety.thy ===== *)
theory Session_Safety
  imports Session_Manager
begin

text \<open>
  What the sessions guarantee. Requests are goroutines whose critical sections come in any order; calls with one
  critical section are one step, \<open>Get\<close> and \<open>Touch\<close> are several, and so is the background writer. The
  database may fail at any call, and a call may panic.
\<close>

section \<open>Goroutines\<close>

text \<open>
  A client is idle, or between the sections of a \<open>Get\<close>, alone or as part of a \<open>Touch\<close> from the given address. What
  it has read is the session, with the verdict of the policy in force then, which is kept beside it.
\<close>

datatype client =
    Idle
  | Found string "string option" Session OIDCSessionPolicy
  | Missing string "string option"
  | Touching string string

datatype event =
    Created string Session
  | Handed string Session time OIDCSessionPolicy
  | RevokedHash string
  | RevokedRole string
  | LoggedOut string
  | Other

record session_world =
  wo_manager :: sessionManager
  wo_clients :: "nat \<Rightarrow> client"
  wo_writer :: "sessionActivityUpdate option"

text \<open>The end of a \<open>Get\<close>: a \<open>Touch\<close> goes on with its second section.\<close>

definition answered :: "string \<Rightarrow> string option \<Rightarrow> client" where
  "answered token origin = (case origin of None \<Rightarrow> Idle | Some ip \<Rightarrow> Touching token ip)"

definition set_client :: "nat \<Rightarrow> client \<Rightarrow> session_world \<Rightarrow> session_world" where
  "set_client c p w = w\<lparr>wo_clients := (wo_clients w)(c := p)\<rparr>"

definition set_manager :: "sessionManager \<Rightarrow> session_world \<Rightarrow> session_world" where
  "set_manager m w = w\<lparr>wo_manager := m\<rparr>"

text \<open>What a login of each kind asks for.\<close>

inductive login :: "Session \<Rightarrow> bool" where
  "login (admin_login source)"
| "login (viewer_login key source)"
| "login (oidc_login issuer subject clientID alias)"

inductive session_step :: "zone \<Rightarrow> (string \<Rightarrow> string) \<Rightarrow> session_world \<Rightarrow> event \<Rightarrow> session_world \<Rightarrow> bool" for zone hash where
  read_found: "session_step zone hash w Other (set_client c (Found token origin s (sm_oidcPolicy (wo_manager w))) w)"
    if "wo_clients w c = Idle" and "token \<noteq> ''''" and "fst (read_session token (wo_manager w)) = Some s"
| read_missing: "session_step zone hash w Other (set_client c (Missing token origin) w)"
    if "wo_clients w c = Idle" and "token \<noteq> ''''" and "fst (read_session token (wo_manager w)) = None"
| hand_found: "session_step zone hash w (Handed token s now p) (set_client c (answered token origin) w)"
    if "wo_clients w c = Found token origin s p" and "now < se_ExpiresAt s" and "sessionAllowed p s"
| drop_found: "session_step zone hash w Other (set_client c Idle (set_manager m w))"
    if "wo_clients w c = Found token origin s p" and "\<not> now < se_ExpiresAt s \<or> \<not> sessionAllowed p s"
      and "snd (Delete hash fault token (wo_manager w)) = m"
| get_persisted: "session_step zone hash w (Handed token s now (sm_oidcPolicy (wo_manager w))) (set_client c (answered token origin) (set_manager m w))"
    if "wo_clients w c = Missing token origin" and "getPersisted hash getFault deleteFault now token (wo_manager w) = (Return (Some s), m)"
| get_nothing: "session_step zone hash w Other (set_client c Idle (set_manager m w))"
    if "wo_clients w c = Missing token origin" and "getPersisted hash getFault deleteFault now token (wo_manager w) = (r, m)"
      and "\<forall>s. r \<noteq> Return (Some s)"
| touch: "session_step zone hash w Other (set_client c Idle (set_manager m w))"
    if "wo_clients w c = Touching token ip" and "snd (touch_session checked now token ip (wo_manager w)) = m"
| writer_takes: "session_step zone hash w Other (w\<lparr>wo_manager := m, wo_writer := update\<rparr>)"
    if "wo_writer w = None" and "take_pending index (wo_manager w) = (update, m)"
| writer_writes: "session_step zone hash w Other (w\<lparr>wo_manager := write_activity hash fault update (wo_manager w), wo_writer := None\<rparr>)"
    if "wo_writer w = Some update"
| create_session: "session_step zone hash w (Created token s) (set_manager m w)"
    if "login s0" and "create zone hash generated sweepFault saveFault swept now s0 metadata (wo_manager w) = (Return (Inr (token, expires)), m)"
      and "map_of (sm_sessions m) token = Some s"
| create_nothing: "session_step zone hash w Other (set_manager m w)"
    if "create zone hash generated sweepFault saveFault swept now s0 metadata (wo_manager w) = (r, m)" and "\<forall>x. r \<noteq> Return (Inr x)"
| set_policy: "session_step zone hash w Other (set_manager (SetOIDCPolicy policy (wo_manager w)) w)"
| cleanup: "session_step zone hash w Other (set_manager (snd (CleanupExpired zone fault now (wo_manager w))) w)"
| logout: "session_step zone hash w (LoggedOut token) (set_manager m w)"
    if "Delete hash fault token (wo_manager w) = (Return (), m)" and "token \<noteq> ''''"
| logout_fails: "session_step zone hash w Other (set_manager m w)"
    if "Delete hash fault token (wo_manager w) = (Panic, m)"
| list: "session_step zone hash w Other (set_manager (snd (List_sessions zone hash sweepFault listFault swept now (wo_manager w))) w)"
| rename: "session_step zone hash w Other
      (set_manager (snd (UpdateAdminAliasByTokenHash zone hash sweepFault updateFault swept now h alias (wo_manager w))) w)"
| revoke: "session_step zone hash w (RevokedHash (TrimSpace h)) (set_manager m w)"
    if "DeleteByTokenHash zone hash sweepFault deleteFault swept h (wo_manager w) = (Return n, m)" and "TrimSpace h \<noteq> ''''"
| revoke_fails: "session_step zone hash w Other (set_manager m w)"
    if "DeleteByTokenHash zone hash sweepFault deleteFault swept h (wo_manager w) = (Panic, m)"
| revoke_role: "session_step zone hash w (RevokedRole role) (set_manager m w)"
    if "DeleteByRole zone sweepFault deleteFault swept role (wo_manager w) = (Return n, m)"
| revoke_role_fails: "session_step zone hash w Other (set_manager m w)"
    if "DeleteByRole zone sweepFault deleteFault swept role (wo_manager w) = (Panic, m)"

inductive run :: "zone \<Rightarrow> (string \<Rightarrow> string) \<Rightarrow> session_world \<Rightarrow> event list \<Rightarrow> session_world \<Rightarrow> bool" for zone hash where
  start: "run zone hash w [] w"
| next_step: "run zone hash w (events @ [e]) w''" if "run zone hash w events w'" and "session_step zone hash w' e w''"

section \<open>Nothing new\<close>

text \<open>
  What identifies a session and never changes: all but its name, addresses, browser and last activity. Every call
  but a successful login only ever forgets sessions, or brings one back from its row.
\<close>

type_synonym session_identity = "string \<times> string \<times> int \<times> string \<times> string \<times> string \<times> time \<times> time"

definition identity :: "Session \<Rightarrow> session_identity" where
  "identity s = (se_Role s, se_Source s, se_CPAAPIKeyID s, se_OIDCIssuer s, se_OIDCSubject s, se_OIDCClientID s, se_ExpiresAt s, se_CreatedAt s)"

definition known_sessions :: "sessionManager \<Rightarrow> (string \<times> session_identity) set" where
  "known_sessions m = (\<lambda>(t, s). (t, identity s)) ` set (sm_sessions m)"

definition row_identity :: "AuthSession \<Rightarrow> string \<times> string \<times> session_identity option" where
  "row_identity row = (as_TokenHash row, as_Role row, map_option identity (authSessionFromRow row))"

definition known_rows :: "sessionManager \<Rightarrow> (string \<times> string \<times> session_identity option) set" where
  "known_rows m = (case sm_store m of None \<Rightarrow> {} | Some table \<Rightarrow> row_identity ` set table)"

definition no_new :: "(string \<Rightarrow> string) \<Rightarrow> sessionManager \<Rightarrow> sessionManager \<Rightarrow> bool" where
  "no_new hash m m' \<longleftrightarrow>
     known_rows m' \<subseteq> known_rows m
     \<and> (\<forall>(t, i)\<in>known_sessions m'. (t, i) \<in> known_sessions m \<or> (\<exists>role. (hash t, role, Some i) \<in> known_rows m))"

lemma no_new_refl [simp]: "no_new hash m m"
  by (auto simp: no_new_def)

lemma no_new_trans: "no_new hash m m' \<Longrightarrow> no_new hash m' m'' \<Longrightarrow> no_new hash m m''"
  unfolding no_new_def by (intro conjI; blast)

lemma no_newI:
  assumes "\<And>t s. (t, s) \<in> set (sm_sessions m') \<Longrightarrow> \<exists>s'. (t, s') \<in> set (sm_sessions m) \<and> identity s = identity s'"
    and "\<And>table'. sm_store m' = Some table' \<Longrightarrow>
      \<exists>table. sm_store m = Some table \<and> (\<forall>row'\<in>set table'. \<exists>row\<in>set table. row_identity row' = row_identity row)"
  shows "no_new hash m m'"
proof -
  have "known_rows m' \<subseteq> known_rows m"
    using assms(2) by (fastforce simp: known_rows_def split: option.splits)
  moreover have "known_sessions m' \<subseteq> known_sessions m" using assms(1) by (fastforce simp: known_sessions_def)
  ultimately show ?thesis unfolding no_new_def by blast
qed

lemma no_new_and_then:
  assumes "no_new hash m (snd c)" and "\<And>x. no_new hash (snd c) (snd (f x (snd c)))"
  shows "no_new hash m (snd (and_then c f))"
proof (cases c)
  case (Pair r m')
  with assms show ?thesis by (cases r) (auto intro: no_new_trans)
qed

lemma row_identity_kept:
  "row_identity (row\<lparr>as_LastSeenIP := ip, as_LastSeenAt := at', as_UpdatedAt := u\<rparr>) = row_identity row"
  "row_identity (row\<lparr>as_Alias := alias, as_UpdatedAt := u\<rparr>) = row_identity row"
  by (cases "as_Role row = RoleAdmin"; cases "as_Role row = RoleAPIKeyViewer";
      simp add: row_identity_def authSessionFromRow_def identity_def Let_def)+

lemma identity_kept [simp]:
  "identity (s\<lparr>se_Alias := alias\<rparr>) = identity s" "identity (s\<lparr>se_LastSeenIP := ip, se_LastSeenAt := t\<rparr>) = identity s"
  "identity (s\<lparr>se_LastSeenAt := t\<rparr>) = identity s"
  by (simp_all add: identity_def)

lemma delete_subset: "set (AList.delete k xs) \<subseteq> set xs"
  by (simp add: AList.delete_eq)

lemma update_entry: "(t, v) \<in> set (AList.update k x xs) \<Longrightarrow> (t, v) = (k, x) \<or> (t, v) \<in> set xs"
  by (induction xs) (auto split: if_splits)

lemma cleanup_no_new: "no_new hash m (snd (cleanupExpiredLocked zone fault now m))"
  by (rule no_newI) (auto simp: cleanupExpiredLocked_def Let_def store_DeleteExpired_def split: option.splits if_splits)

lemma Delete_no_new: "no_new hash' m (snd (Delete hash fault token m))"
  by (rule no_newI) (auto simp: Delete_def Let_def store_Delete_def split: option.splits if_splits dest!: subsetD [OF delete_subset])

lemma touch_no_new: "no_new hash m (snd (touch_session checked now token ip m))"
proof (cases "map_of (sm_sessions m) token")
  case (Some s)
  then have "(token, s) \<in> set (sm_sessions m)" by (rule map_of_SomeD)
  with Some show ?thesis
    by (intro no_newI) (auto simp: touch_session_def Let_def identity_def split: option.splits if_splits dest!: update_entry)
qed (simp add: touch_session_def)

lemma take_no_new: "no_new hash m (snd (take_pending index m))"
  by (rule no_newI) (auto simp: take_pending_def Let_def split: prod.splits if_splits)

lemma write_no_new: "no_new hash' m (write_activity hash fault update m)"
  by (rule no_newI) (force simp: write_activity_def store_UpdateActivity_def row_identity_kept split: if_splits)+

lemma policy_no_new: "no_new hash m (SetOIDCPolicy policy m)"
  by (rule no_newI) (auto simp: SetOIDCPolicy_def)

lemma find_row: "store_row hash token table = Some row \<Longrightarrow> row \<in> set table \<and> as_TokenHash row = hash token"
  by (auto simp: store_row_def find_Some_iff)

lemma getPersisted_no_new: "no_new hash m (snd (getPersisted hash getFault deleteFault now token m))"
proof (cases "sm_store m")
  case (Some table)
  have forget: "no_new hash m (m\<lparr>sm_sessions := AList.delete token (sm_sessions m)\<rparr>)"
      "no_new hash m (m\<lparr>sm_sessions := AList.delete token (sm_sessions m), sm_store := Some (store_Delete hash token table)\<rparr>)"
      "no_new hash m (m\<lparr>sm_store := Some (store_Delete hash token table)\<rparr>)"
    by (rule no_newI; auto simp: Some store_Delete_def dest!: subsetD [OF delete_subset])+
  have load: "no_new hash m (m\<lparr>sm_sessions := AList.update token s (sm_sessions m)\<rparr>)" if get: "store_Get hash token table = Some (Some s)" for s
  proof -
    from get obtain row where "store_row hash token table = Some row" "authSessionFromRow row = Some s"
      by (auto simp: store_Get_def split: option.splits)
    then have "(hash token, as_Role row, Some (identity s)) \<in> known_rows m"
      using find_row [of hash token table row] by (auto simp: known_rows_def Some row_identity_def intro!: image_eqI [of _ _ row])
    then have "\<exists>role. (hash token, role, Some (identity s)) \<in> known_rows m" ..
    then show ?thesis by (auto simp: no_new_def known_rows_def known_sessions_def dest!: update_entry)
  qed
  show ?thesis
    using Some forget load by (auto simp: getPersisted_def Let_def split: option.splits)
qed (simp add: getPersisted_def)

lemma list_no_new: "no_new hash' m (snd (List_sessions zone hash sweepFault listFault swept now m))"
  unfolding List_sessions_def
  by (rule no_new_and_then, rule cleanup_no_new) (auto simp: Let_def split: option.splits)

lemma renamed_no_new:
  "no_new hash m (m\<lparr>sm_sessions := map (\<lambda>(token, s). (token, if P token s then s\<lparr>se_Alias := n\<rparr> else s)) (sm_sessions m)\<rparr>)"
  by (rule no_newI) force+

lemma renamed_rows_no_new:
  "sm_store m = Some table \<Longrightarrow>
     no_new hash m (m\<lparr>sm_store := Some (map (\<lambda>row. if Q row then row\<lparr>as_Alias := n, as_UpdatedAt := now\<rparr> else row) table)\<rparr>)"
  by (rule no_newI) (force simp: row_identity_kept)+

lemma rename_no_new: "no_new hash' m (snd (UpdateAdminAliasByTokenHash zone hash sweepFault updateFault swept now h n m))"
proof (cases "TrimSpace h = ''''")
  case False
  have renamed: "no_new hash' m (m'\<lparr>sm_sessions := map (\<lambda>(token, s). (token, if P token s then s\<lparr>se_Alias := x\<rparr> else s)) (sm_sessions m')\<rparr>)"
    if "no_new hash' m m'" for m m' P x
    using no_new_trans [OF that renamed_no_new] .
  have rows: "no_new hash' m (m\<lparr>sm_store := Some (map (\<lambda>row. if Q row then row\<lparr>as_Alias := x, as_UpdatedAt := now\<rparr> else row) table)\<rparr>)"
    if "sm_store m = Some table" for m table Q x
    by (rule renamed_rows_no_new [OF that])
  have renamed_rows:
    "no_new hash' m (m\<lparr>sm_store := Some (map (\<lambda>row. if Q row then row\<lparr>as_Alias := x, as_UpdatedAt := now\<rparr> else row) table),
       sm_sessions := map (\<lambda>(token, s). (token, if P token s then s\<lparr>se_Alias := y\<rparr> else s)) (sm_sessions m)\<rparr>)"
    if "sm_store m = Some table" for m table P Q x y
    using renamed [OF rows [OF that]] by simp
  show ?thesis
    using False unfolding UpdateAdminAliasByTokenHash_def store_UpdateAdminAliasByTokenHash_def Let_def
    by simp (rule no_new_and_then, rule cleanup_no_new, simp add: renamed rows renamed_rows split: option.splits)
qed (simp add: UpdateAdminAliasByTokenHash_def Let_def)

lemma revoke_no_new: "no_new hash' m (snd (DeleteByTokenHash zone hash sweepFault deleteFault swept h m))"
  unfolding DeleteByTokenHash_def Let_def
  by (cases "TrimSpace h = ''''")
     (simp, simp, rule no_new_and_then, rule cleanup_no_new, rule no_newI,
       auto simp: store_DeleteByTokenHash_def split: option.splits if_splits)

lemma revoke_role_no_new: "no_new hash' m (snd (DeleteByRole zone sweepFault deleteFault swept role m))"
  unfolding DeleteByRole_def Let_def
  by (rule no_new_and_then, rule cleanup_no_new, rule no_newI)
     (auto simp: store_DeleteByRole_def split: option.splits if_splits)

section \<open>Where sessions come from\<close>

text \<open>A token obtains an identity from the cache, from a row of its hash, or because a client has just read it.\<close>

definition knows :: "(string \<Rightarrow> string) \<Rightarrow> sessionManager \<Rightarrow> string \<Rightarrow> session_identity \<Rightarrow> bool" where
  "knows hash m t i \<longleftrightarrow> (t, i) \<in> known_sessions m \<or> (\<exists>role. (hash t, role, Some i) \<in> known_rows m)"

definition reads :: "session_world \<Rightarrow> string \<Rightarrow> session_identity \<Rightarrow> bool" where
  "reads w t i \<longleftrightarrow> (\<exists>c origin s p. wo_clients w c = Found t origin s p \<and> identity s = i)"

definition obtainable :: "(string \<Rightarrow> string) \<Rightarrow> session_world \<Rightarrow> string \<Rightarrow> session_identity \<Rightarrow> bool" where
  "obtainable hash w t i \<longleftrightarrow> knows hash (wo_manager w) t i \<or> reads w t i"

definition created :: "(string \<Rightarrow> string) \<Rightarrow> event \<Rightarrow> string \<Rightarrow> session_identity \<Rightarrow> bool" where
  "created hash e t i \<longleftrightarrow> (\<exists>t' s. e = Created t' s \<and> hash t' = hash t \<and> identity s = i)"

lemma no_new_knows: "no_new hash m m' \<Longrightarrow> knows hash m' t i \<Longrightarrow> knows hash m t i"
  by (fastforce simp: no_new_def knows_def)

lemma cached_known: "map_of (sm_sessions m) token = Some s \<Longrightarrow> knows hash m token (identity s)"
  by (force simp: knows_def known_sessions_def dest: map_of_SomeD)

lemma opened_row:
  assumes "login s0" and "s = opened_session ttl now metadata s0"
  shows "authSessionFromRow (session_row h s) = Some s"
  using assms
  by (cases rule: login.cases)
     (auto simp: opened_session_def session_row_def authSessionFromRow_def Let_def
        admin_login_def viewer_login_def oidc_login_def zero_session_def RoleAdmin_def RoleAPIKeyViewer_def NormalizeSessionSource_def
        SessionSourceStandard_def SessionSourceOIDC_def optionalSessionIdentity_def sessionIdentityValue_def sessionTimePointer_def)

lemma create_returns:
  assumes "create zone hash generated sweepFault saveFault swept now s0 metadata m = (Return (Inr (token, expires)), m')"
  obtains m1 where "cleanupExpiredLocked zone sweepFault swept m = (Return (), m1)" and "expires = now + sm_ttl m1"
    and "m' = m1\<lparr>sm_sessions := AList.update token (opened_session (sm_ttl m1) now metadata s0) (sm_sessions m1),
      sm_store := map_option (store_Save hash token (opened_session (sm_ttl m1) now metadata s0)) (sm_store m1)\<rparr>"
  using assms by (cases "cleanupExpiredLocked zone sweepFault swept m"; cases "fst (cleanupExpiredLocked zone sweepFault swept m)")
    (auto simp: create_def Let_def split: option.splits if_splits)

lemma create_knows:
  assumes "login s0" and c: "create zone hash generated sweepFault saveFault swept now s0 metadata m = (Return (Inr (token, expires)), m')"
    and "map_of (sm_sessions m') token = Some s" and known: "knows hash m' t i"
  shows "knows hash m t i \<or> hash token = hash t \<and> identity s = i"
proof -
  from c obtain m1 where clean: "cleanupExpiredLocked zone sweepFault swept m = (Return (), m1)"
      and m': "m' = m1\<lparr>sm_sessions := AList.update token (opened_session (sm_ttl m1) now metadata s0) (sm_sessions m1),
        sm_store := map_option (store_Save hash token (opened_session (sm_ttl m1) now metadata s0)) (sm_store m1)\<rparr>"
    by (rule create_returns)
  have s: "s = opened_session (sm_ttl m1) now metadata s0" using assms(3) by (simp add: m' update_conv)
  have before: "knows hash m1 t i \<Longrightarrow> knows hash m t i"
    using no_new_knows [OF cleanup_no_new [of hash m zone sweepFault swept]] clean by simp
  have "(t, i) \<in> known_sessions m1 \<or> hash token = hash t \<and> identity s = i" if "(t, i) \<in> known_sessions m'"
    using that by (auto simp: known_sessions_def m' s dest!: update_entry)
  moreover have "(\<exists>role. (hash t, role, Some i) \<in> known_rows m1) \<or> hash token = hash t \<and> identity s = i"
    if "\<exists>role. (hash t, role, Some i) \<in> known_rows m'"
    using that opened_row [OF assms(1) s, of "hash token"]
    by (auto simp: known_rows_def row_identity_def session_row_def m' s [symmetric] store_Save_def split: option.splits)
  ultimately show ?thesis using known before unfolding knows_def by blast
qed

lemma obtainable_manager: "no_new hash (wo_manager w) m \<Longrightarrow> obtainable hash (set_manager m w) t i \<Longrightarrow> obtainable hash w t i"
  by (auto simp: obtainable_def set_manager_def reads_def dest: no_new_knows)

lemma obtainable_client:
  assumes "obtainable hash (set_client c p w) t i" and "\<And>origin s q. p = Found t origin s q \<Longrightarrow> obtainable hash w t (identity s)"
  shows "obtainable hash w t i"
proof -
  have "reads w t i \<or> (\<exists>origin s q. p = Found t origin s q \<and> identity s = i)" if "reads (set_client c p w) t i"
    using that by (fastforce simp: set_client_def reads_def split: if_splits)
  with assms show ?thesis by (fastforce simp: obtainable_def set_client_def)
qed

lemma idle_obtainable: "obtainable hash (set_client c (answered token origin) w) t i \<Longrightarrow> obtainable hash w t i"
  "obtainable hash (set_client c Idle w) t i \<Longrightarrow> obtainable hash w t i"
  "obtainable hash (set_client c (Missing token origin) w) t i \<Longrightarrow> obtainable hash w t i"
  by (erule obtainable_client; simp add: answered_def split: option.splits)+

lemma no_new_result: "no_new hash m (snd c) \<Longrightarrow> c = (r, m') \<Longrightarrow> no_new hash m m'"
  by simp

lemmas results_no_new =
  no_new_result [OF Delete_no_new] no_new_result [OF getPersisted_no_new] no_new_result [OF revoke_no_new]
  no_new_result [OF revoke_role_no_new]

lemma step_obtainable:
  assumes "session_step zone hash w e w'" and "obtainable hash w' t i"
  shows "obtainable hash w t i \<or> created hash e t i"
  using assms
proof (cases rule: session_step.cases)
  case (read_found c token s origin)
  then have "knows hash (wo_manager w) token (identity s)" using cached_known by (simp add: read_session_def Let_def)
  with obtainable_client [OF assms(2) [unfolded read_found(2)]] show ?thesis by (auto simp: obtainable_def)
next
  case (writer_takes index update m)
  then show ?thesis
    using assms(2) no_new_knows [OF take_no_new [of hash "wo_manager w" index], of t i] by (auto simp: obtainable_def reads_def)
next
  case (writer_writes update fault)
  then show ?thesis
    using assms(2) no_new_knows [OF write_no_new [of hash "wo_manager w" hash fault update], of t i] by (auto simp: obtainable_def reads_def)
next
  case (create_session s0 generated sweepFault saveFault swept now metadata token expires m s)
  then show ?thesis
    using assms(2) create_knows [of s0 zone hash generated sweepFault saveFault swept now metadata "wo_manager w" token expires m s t i]
    by (auto simp: created_def obtainable_def set_manager_def reads_def)
next
  case (create_nothing generated sweepFault saveFault swept now s0 metadata r m)
  have "no_new hash (wo_manager w) m"
    using create_nothing cleanup_no_new [of hash "wo_manager w" zone sweepFault swept]
    by (cases "cleanupExpiredLocked zone sweepFault swept (wo_manager w)"; cases "fst (cleanupExpiredLocked zone sweepFault swept (wo_manager w))")
       (auto simp: create_def Let_def split: option.splits if_splits)
  then show ?thesis using assms(2) create_nothing obtainable_manager by blast
qed (use assms(2) in \<open>auto dest!: idle_obtainable obtainable_manager [rotated]
       simp: Delete_no_new touch_no_new policy_no_new CleanupExpired_def cleanup_no_new list_no_new rename_no_new
       intro: results_no_new\<close>)

lemma persisted_found:
  assumes "getPersisted hash getFault deleteFault now token m = (Return (Some s), m')"
  shows "now < se_ExpiresAt s" and "sessionAllowed (sm_oidcPolicy m) s" and "knows hash m token (identity s)"
proof -
  have found: "now < se_ExpiresAt s \<and> sessionAllowed (sm_oidcPolicy m) s \<and> map_of (sm_sessions m') token = Some s"
    using assms by (auto simp: getPersisted_def sessionAllowedLocked_def Let_def update_conv split: option.splits if_splits)
  then show "now < se_ExpiresAt s" "sessionAllowed (sm_oidcPolicy m) s" by simp_all
  show "knows hash m token (identity s)"
    using no_new_knows [OF no_new_result [OF getPersisted_no_new assms]] cached_known found by blast
qed

lemma step_handed:
  assumes "session_step zone hash w (Handed t s now p) w'"
  shows "now < se_ExpiresAt s" and "sessionAllowed p s" and "obtainable hash w t (identity s)"
  using assms by (cases rule: session_step.cases; auto simp: obtainable_def reads_def dest: persisted_found)+

lemma run_obtainable:
  assumes "run zone hash w events w'" and "obtainable hash w' t i"
  shows "obtainable hash w t i \<or> (\<exists>e\<in>set events. created hash e t i)"
  using assms by (induction) (auto dest: step_obtainable)

lemma run_before:
  "run zone hash w events w' \<Longrightarrow> events = xs @ e # ys \<Longrightarrow> \<exists>v v'. run zone hash w xs v \<and> session_step zone hash v e v'"
proof (induction arbitrary: ys rule: run.induct)
  case (next_step w events w' e' w'')
  then show ?case by (cases ys rule: rev_cases) auto
qed simp

section \<open>Revocation\<close>

text \<open>The sessions that an event revokes: by the hash of the token, by role, or by a logout with the token.\<close>

fun revoked :: "(string \<Rightarrow> string) \<Rightarrow> event \<Rightarrow> string \<Rightarrow> session_identity \<Rightarrow> bool" where
  "revoked hash (RevokedHash h) t i \<longleftrightarrow> hash t = h"
| "revoked hash (RevokedRole role) t i \<longleftrightarrow> fst i = role"
| "revoked hash (LoggedOut token) t i \<longleftrightarrow> t = token"
| "revoked hash e t i \<longleftrightarrow> False"

lemma row_role: "authSessionFromRow row = Some s \<Longrightarrow> se_Role s = as_Role row"
  by (auto simp: authSessionFromRow_def Let_def split: if_splits)

lemma known_role:
  assumes "knows hash m t i"
  shows "(\<exists>s. (t, s) \<in> set (sm_sessions m) \<and> identity s = i)
    \<or> (\<exists>table row. sm_store m = Some table \<and> row \<in> set table \<and> as_TokenHash row = hash t \<and> as_Role row = fst i)"
proof -
  have "as_Role row = fst i" if "map_option identity (authSessionFromRow row) = Some i" for row
    using that by (auto simp: identity_def dest: row_role)
  moreover have "\<exists>table row. sm_store m = Some table \<and> row \<in> set table \<and> as_TokenHash row = hash t \<and> map_option identity (authSessionFromRow row) = Some i"
    if "(hash t, role, Some i) \<in> known_rows m" for role
    using that by (auto simp: known_rows_def row_identity_def image_iff eq_commute [of "Some i"] simp del: map_option_eq_Some split: option.splits)
  moreover have "\<exists>s. (t, s) \<in> set (sm_sessions m) \<and> identity s = i" if "(t, i) \<in> known_sessions m"
    using that by (auto simp: known_sessions_def)
  ultimately show ?thesis using assms unfolding knows_def by blast
qed

lemma logout_forgets:
  assumes "Delete hash fault token m = (Return (), m')" and "token \<noteq> ''''"
  shows "\<not> knows hash m' token i"
proof
  assume "knows hash m' token i"
  from known_role [OF this] show False
    using assms by (auto simp: Delete_def store_Delete_def AList.delete_eq Let_def split: option.splits if_splits)
qed

lemma revoke_forgets:
  assumes "DeleteByTokenHash zone hash sweepFault deleteFault swept h m = (Return n, m')" and "TrimSpace h \<noteq> ''''" and "hash t = TrimSpace h"
  shows "\<not> knows hash m' t i"
proof
  assume "knows hash m' t i"
  from known_role [OF this] show False
    using assms by (cases "cleanupExpiredLocked zone sweepFault swept m"; cases "fst (cleanupExpiredLocked zone sweepFault swept m)")
      (auto simp: DeleteByTokenHash_def store_DeleteByTokenHash_def Let_def split: option.splits if_splits)
qed

lemma revoke_role_forgets:
  assumes "DeleteByRole zone sweepFault deleteFault swept role m = (Return n, m')" and "fst i = role"
  shows "\<not> knows hash m' t i"
proof
  assume "knows hash m' t i"
  from known_role [OF this] show False
    using assms by (cases "cleanupExpiredLocked zone sweepFault swept m"; cases "fst (cleanupExpiredLocked zone sweepFault swept m)")
      (auto simp: DeleteByRole_def store_DeleteByRole_def identity_def Let_def split: option.splits if_splits)
qed

lemma revoked_unobtainable:
  assumes "session_step zone hash w e w'" and "revoked hash e t i" and "\<not> reads w t i"
  shows "\<not> obtainable hash w' t i"
  using assms
  by (cases rule: session_step.cases)
     (auto simp: obtainable_def set_manager_def reads_def dest: logout_forgets revoke_forgets revoke_role_forgets)

text \<open>
  Claim C11. A revocation that returns is final: once an administrator has revoked sessions by hash or by role, or a client has
  logged out, no request is handed a revoked session any more, in whatever order the critical sections of later calls come,
  whatever the database refuses, and although the background writer may still hold its activity. Excepted are a request
  that had read the session before the revocation, and a later login that creates the same session with a token of the
  same hash.
\<close>

theorem revocation_final:
  assumes "session_step zone hash w e w1" and "revoked hash e t (identity s)" and "\<not> reads w t (identity s)"
    and "run zone hash w1 events w2" and "\<forall>e'\<in>set events. \<not> created hash e' t (identity s)"
  shows "Handed t s now p \<notin> set events"
proof
  assume "Handed t s now p \<in> set events"
  then obtain xs ys where "events = xs @ Handed t s now p # ys" by (auto simp: in_set_conv_decomp)
  moreover from run_before [OF assms(4) this] obtain v v'
    where before: "run zone hash w1 xs v" and handed: "session_step zone hash v (Handed t s now p) v'" by blast
  ultimately show False
    using run_obtainable [OF before step_handed(3) [OF handed]] revoked_unobtainable [OF assms(1-3)] assms(5) by auto
qed

text \<open>
  Claim C12. Where the sessions that requests are handed come from: when a request is handed one, it has not expired, the policy
  at its reading allows it, and it was created by an earlier login with a token of the same hash, or it was there from
  the start, in the cache, in a row of that hash, or read by a client.
\<close>

theorem session_provenance:
  assumes "run zone hash w events w'" and "events = xs @ Handed t s now p # ys"
  shows "now < se_ExpiresAt s \<and> sessionAllowed p s \<and> (obtainable hash w t (identity s) \<or> (\<exists>e\<in>set xs. created hash e t (identity s)))"
proof -
  from run_before [OF assms] obtain v v'
    where before: "run zone hash w xs v" and handed: "session_step zone hash v (Handed t s now p) v'" by blast
  then show ?thesis using step_handed [OF handed] run_obtainable [OF before step_handed(3) [OF handed]] by blast
qed

text \<open>Worlds for the witnesses: an administrator is logged in, with the session in the cache.\<close>

definition example_session :: Session where
  "example_session = (admin_login '''')\<lparr>se_ExpiresAt := 3600\<rparr>"

definition example_world :: session_world where
  "example_world =
     \<lparr>wo_manager = (NewPersistentSessionManager 3600 [])\<lparr>sm_sessions := [(''t'', example_session)]\<rparr>, wo_clients = \<lambda>_. Idle, wo_writer = None\<rparr>"

definition logged_out_world :: session_world where
  "logged_out_world = set_manager (NewPersistentSessionManager 3600 []) example_world"

lemma example_admin: "sessionAllowed p example_session"
  by (simp add: sessionAllowed_def example_session_def admin_login_def NormalizeSessionSource_def zero_session_def)

lemma example_logout: "session_step (fixed_zone 0) id example_world (LoggedOut ''t'') logged_out_world"
  unfolding logged_out_world_def
  by (rule session_step.logout [where fault = False])
     (simp_all add: Delete_def example_world_def NewPersistentSessionManager_def NewSessionManager_def store_Delete_def)

text \<open>After the logout a request with the token looks into the cache and the table, and gets nothing.\<close>

theorem revocation_final_witness:
  "\<exists>w2. run (fixed_zone 0) id logged_out_world [Other, Other] w2 \<and> Handed ''t'' example_session 0 no_policy \<notin> set [Other, Other]"
proof -
  let ?w = "set_client 0 (Missing ''t'' None) logged_out_world"
  have "session_step (fixed_zone 0) id logged_out_world Other ?w"
    by (rule session_step.read_missing)
       (simp_all add: logged_out_world_def set_manager_def example_world_def read_session_def NewPersistentSessionManager_def NewSessionManager_def Let_def)
  moreover have "session_step (fixed_zone 0) id ?w Other (set_client 0 Idle (set_manager (wo_manager ?w) ?w))"
    by (rule session_step.get_nothing [where getFault = False and deleteFault = False and r = "Return None" and now = 0])
       (simp_all add: getPersisted_def set_client_def logged_out_world_def set_manager_def NewPersistentSessionManager_def
          NewSessionManager_def store_Get_def store_row_def)
  ultimately have "run (fixed_zone 0) id logged_out_world [Other, Other] (set_client 0 Idle (set_manager (wo_manager ?w) ?w))"
    using run.start run.next_step [of _ _ _ "[]"] run.next_step [of _ _ _ "[Other]"] by fastforce
  moreover from revocation_final [OF example_logout _ _ this, of "''t''" example_session 0 no_policy]
  have "Handed ''t'' example_session 0 no_policy \<notin> set [Other, Other]"
    by (simp add: reads_def example_world_def created_def)
  ultimately show ?thesis by blast
qed

theorem session_provenance_witness:
  "\<exists>w'. run (fixed_zone 0) id example_world [Other, Handed ''t'' example_session 0 no_policy] w'
     \<and> 0 < se_ExpiresAt example_session \<and> obtainable id example_world ''t'' (identity example_session)"
proof -
  let ?w = "set_client 0 (Found ''t'' None example_session no_policy) example_world"
  have policy: "sm_oidcPolicy (wo_manager example_world) = no_policy"
    by (simp add: example_world_def NewPersistentSessionManager_def NewSessionManager_def)
  have "session_step (fixed_zone 0) id example_world Other ?w"
    using session_step.read_found [of example_world 0 "''t''" example_session "fixed_zone 0" id None]
    by (simp add: policy) (simp add: example_world_def read_session_def)
  moreover have "session_step (fixed_zone 0) id ?w (Handed ''t'' example_session 0 no_policy) (set_client 0 (answered ''t'' None) ?w)"
    by (rule session_step.hand_found) (simp_all add: set_client_def example_admin, simp add: example_session_def)
  ultimately have run: "run (fixed_zone 0) id example_world [Other, Handed ''t'' example_session 0 no_policy] (set_client 0 (answered ''t'' None) ?w)"
    using run.start run.next_step [of _ _ _ "[]"] run.next_step [of _ _ _ "[Other]"] by fastforce
  have "0 < se_ExpiresAt example_session \<and> obtainable id example_world ''t'' (identity example_session)"
    using session_provenance [OF run, of "[Other]" "''t''" example_session 0 no_policy "[]"] by (simp add: created_def)
  with run show ?thesis by blast
qed

end
