(* ===== verification/Session_Exact.thy ===== *)
theory Session_Exact
  imports Session_Safety
begin

text \<open>
  Two contracts of sessions with the table: the revocation at start-up of sessions of the identity provider, and
  sessions outliving the process.
\<close>

section \<open>Start-up\<close>

lemma filter_length_split:
  "length (filter P xs) + length (filter Q (filter (\<lambda>x. \<not> P x) xs)) = length (filter (\<lambda>x. P x \<or> Q x) xs)"
  by (induction xs) auto

definition subject_rows :: "string list \<Rightarrow> AuthSession list \<Rightarrow> string set" where
  "subject_rows allowed rows = as_TokenHash ` set (filter (\<lambda>row. sessionIdentityValue (as_OIDCSubject row) \<notin> set allowed) rows)"

definition gone :: "string set \<Rightarrow> AuthSession \<Rightarrow> bool" where
  "gone hashes row \<longleftrightarrow> as_Source row = SessionSourceOIDC \<and> as_TokenHash row \<in> hashes"

lemma flush_result: "flush_hashes hashes table = (filter (\<lambda>row. \<not> gone (set hashes) row) table, length (filter (gone (set hashes)) table))"
  by (auto simp: flush_hashes_def gone_def [abs_def] Let_def)

lemma gone_twice:
  "filter (\<lambda>row. \<not> gone B row) (filter (\<lambda>row. \<not> gone A row) table) = filter (\<lambda>row. \<not> gone (A \<union> B) row) table"
  "length (filter (gone A) table) + length (filter (gone B) (filter (\<lambda>row. \<not> gone A row) table)) = length (filter (gone (A \<union> B)) table)"
  unfolding filter_length_split by (auto simp: gone_def intro!: filter_cong arg_cong [of _ _ length])

lemma revoke_subjects_result:
  "revoke_subjects allowed rows hashes deleted table =
     (filter (\<lambda>row. \<not> gone (set hashes \<union> subject_rows allowed rows) row) table,
      deleted + length (filter (gone (set hashes \<union> subject_rows allowed rows)) table))"
proof (induction allowed rows hashes deleted table rule: revoke_subjects.induct)
  case (1 allowed hashes deleted table)
  then show ?case by (simp add: flush_result subject_rows_def)
next
  case (2 allowed row rows hashes deleted table)
  show ?case
  proof (cases "sessionIdentityValue (as_OIDCSubject row) \<in> set allowed")
    case True
    then show ?thesis using 2(1) by (simp add: subject_rows_def)
  next
    case False
    then have hashes: "set hashes \<union> subject_rows allowed (row # rows) = set (hashes @ [as_TokenHash row]) \<union> subject_rows allowed rows"
      by (auto simp: subject_rows_def)
    show ?thesis
    proof (cases "length (hashes @ [as_TokenHash row]) = oidcSessionDeleteBatchSize")
      case full: True
      show ?thesis
        using False full 2(2) [OF False refl full flush_result [of "hashes @ [as_TokenHash row]" table, symmetric] refl]
          gone_twice [where B = "subject_rows allowed rows" and A = "set (hashes @ [as_TokenHash row])" and table = table]
        unfolding hashes by (simp add: flush_result Let_def add.assoc)
    next
      case False': False
      then show ?thesis using False 2(3) [OF False refl False'] unfolding hashes by (simp add: Let_def)
    qed
  qed
qed

definition row_allowed :: "OIDCSessionPolicy \<Rightarrow> AuthSession \<Rightarrow> bool" where
  "row_allowed policy row \<longleftrightarrow>
     as_Source row \<noteq> SessionSourceOIDC \<or> (\<exists>s. authSessionFromRow row = Some s \<and> sessionAllowed policy s)"

lemma row_source: "authSessionFromRow row = Some s \<Longrightarrow> se_Source s = NormalizeSessionSource (as_Source row)"
  by (auto simp: authSessionFromRow_def Let_def split: if_splits)

lemma row_allowed_iff:
  "row_allowed policy row \<longleftrightarrow>
     \<not> identity_invalid policy row
     \<and> (as_Source row = SessionSourceOIDC \<longrightarrow> op_AllowedSubjects policy = [] \<or> sessionIdentityValue (as_OIDCSubject row) \<in> set (op_AllowedSubjects policy))"
proof (cases "as_Source row = SessionSourceOIDC")
  case True
  then have source: "NormalizeSessionSource (as_Source row) = SessionSourceOIDC" "SessionSourceOIDC \<noteq> SessionSourceStandard" "SessionSourceOIDC \<noteq> SessionSourceEmbed"
    by (simp_all add: NormalizeSessionSource_def SessionSourceOIDC_def SessionSourceStandard_def SessionSourceEmbed_def)
  show ?thesis
  proof (cases "as_Role row = RoleAdmin")
    case admin: True
    then show ?thesis
      using True source
      by (auto simp: row_allowed_def identity_invalid_def authSessionFromRow_def sessionAllowed_def sessionIdentityValue_def Let_def split: option.splits)
  next
    case False
    then show ?thesis
      using True source by (auto simp: row_allowed_def identity_invalid_def sessionAllowed_def dest: row_role row_source)
  qed
qed (simp add: row_allowed_def identity_invalid_def)

text \<open>
  Claim C14. At start-up, sessions of the identity provider are revoked exactly: of the rows of the table, those stay that no
  identity provider vouched for and those whose session the policy now allows, in their order; the result is the number of
  the rows removed, although the subjects are checked in the program and deleted in batches of 200 hashes.
\<close>

theorem revoke_oidc_exact:
  assumes "distinct (map as_TokenHash table)"
  shows "RevokeInvalidOIDCSessions False policy table =
    (Some (length (filter (\<lambda>row. \<not> row_allowed policy row) table)), filter (row_allowed policy) table)"
proof (cases "\<not> op_Enabled policy \<or> op_AllowedSubjects policy = []")
  case True
  have "row_allowed policy row \<longleftrightarrow> \<not> identity_invalid policy row" for row
    using True by (auto simp: row_allowed_iff identity_invalid_def)
  then show ?thesis using True by (simp add: RevokeInvalidOIDCSessions_def Let_def cong: filter_cong)
next
  case False
  let ?kept = "filter (\<lambda>row. \<not> identity_invalid policy row) table"
  let ?S = "subject_rows (op_AllowedSubjects policy) (filter (\<lambda>row. as_Source row = SessionSourceOIDC) ?kept)"
  have same: "\<not> gone ?S row \<longleftrightarrow> row_allowed policy row" if "row \<in> set ?kept" for row
  proof -
    have "row' = row" if "row' \<in> set table" "as_TokenHash row' = as_TokenHash row" for row'
      using assms that \<open>row \<in> set ?kept\<close> by (auto simp: distinct_map inj_on_def)
    moreover have "as_TokenHash row \<in> ?S \<longleftrightarrow>
        (\<exists>row'\<in>set table. \<not> identity_invalid policy row' \<and> as_Source row' = SessionSourceOIDC
           \<and> sessionIdentityValue (as_OIDCSubject row') \<notin> set (op_AllowedSubjects policy) \<and> as_TokenHash row' = as_TokenHash row)"
      by (auto simp: subject_rows_def image_iff)
    ultimately have "as_TokenHash row \<in> ?S \<longleftrightarrow> as_Source row = SessionSourceOIDC \<and> sessionIdentityValue (as_OIDCSubject row) \<notin> set (op_AllowedSubjects policy)"
      using \<open>row \<in> set ?kept\<close> unfolding set_filter mem_Collect_eq by blast
    with False that show ?thesis by (auto simp: gone_def row_allowed_iff)
  qed
  have "filter (\<lambda>row. \<not> gone ?S row) ?kept = filter (row_allowed policy) ?kept" by (rule filter_cong [OF refl same])
  then have rows: "filter (\<lambda>row. \<not> gone ?S row) ?kept = filter (row_allowed policy) table"
    by (simp add: row_allowed_iff cong: filter_cong)
  have "identity_invalid policy row \<or> gone ?S row \<longleftrightarrow> \<not> row_allowed policy row" if "row \<in> set table" for row
    using that same [of row] row_allowed_iff [of policy row] unfolding set_filter mem_Collect_eq by blast
  then have "filter (\<lambda>row. identity_invalid policy row \<or> gone ?S row) table = filter (\<lambda>row. \<not> row_allowed policy row) table"
    by (rule filter_cong [OF refl])
  then have removed: "length (filter (identity_invalid policy) table) + length (filter (gone ?S) ?kept) = length (filter (\<lambda>row. \<not> row_allowed policy row) table)"
    using filter_length_split [of "identity_invalid policy" table "gone ?S"] by simp
  show ?thesis
    using False rows removed by (simp add: RevokeInvalidOIDCSessions_def revoke_subjects_result Let_def)
qed

section \<open>Restarts\<close>

lemma saved_row: "store_row hash token (store_Save hash token s table) = Some (session_row (hash token) s)"
proof -
  have "find (\<lambda>row. as_TokenHash row = h) (filter (\<lambda>row. as_TokenHash row \<noteq> h) table @ [session_row h s]) = Some (session_row h s)" for h
    by (induction table) (simp_all add: session_row_def)
  then show ?thesis by (simp add: store_row_def store_Save_def)
qed

text \<open>
  Claim C13. A session outlives the process: after a login that returns a token, a new manager over the same table, whatever its
  lifetime and policy, hands out for that token the very session that the old manager has cached, as long as it has not
  expired and the new policy allows it, and none otherwise. The row keeps every field, of all three kinds of session.
\<close>

theorem session_survives_restart:
  assumes "login s0" and "token \<noteq> ''''"
    and "create zone hash (Some token) sweepFault saveFault swept now s0 metadata m = (Return (Inr (token, expires)), m')"
    and "sm_store m' = Some table"
  shows "\<exists>s. map_of (sm_sessions m') token = Some s
    \<and> fst (Get hash False False t token (SetOIDCPolicy policy (NewPersistentSessionManager ttl table)))
      = Return (if t < expires \<and> sessionAllowed policy s then Some s else None)"
proof -
  from assms(3) obtain m1 where expires: "expires = now + sm_ttl m1"
      and m': "m' = m1\<lparr>sm_sessions := AList.update token (opened_session (sm_ttl m1) now metadata s0) (sm_sessions m1),
        sm_store := map_option (store_Save hash token (opened_session (sm_ttl m1) now metadata s0)) (sm_store m1)\<rparr>"
    by (rule create_returns)
  define s where "s = opened_session (sm_ttl m1) now metadata s0"
  have cached: "map_of (sm_sessions m') token = Some s" by (simp add: m' s_def update_conv)
  from assms(4) obtain table0 where table: "table = store_Save hash token s table0" by (auto simp: m' s_def)
  have "store_Get hash token table = Some (Some s)"
    by (simp add: store_Get_def table saved_row opened_row [OF assms(1) s_def])
  moreover have "expires = se_ExpiresAt s" by (simp add: expires s_def opened_session_def Let_def)
  ultimately show ?thesis
    using assms(2) cached
    by (simp add: Get_def read_session_def getPersisted_def SetOIDCPolicy_def NewPersistentSessionManager_def NewSessionManager_def
        sessionAllowedLocked_def Let_def)
qed

text \<open>
  Expiry in the database compares local times as text. Where clocks go back an hour at the instant 0, a session with 45
  minutes left has expired for the table.
\<close>

lemma expired_by_text:
  assumes "zone = (\<lambda>u. if u < 0 then fixed_zone 3600 u else fixed_zone 0 u)"
    and "as_ExpiresAt row = 900 * Second" and "now = - 1800 * Second"
  shows "now < as_ExpiresAt row \<and> store_DeleteExpired zone now [row] = []"
  using assms by (simp add: store_DeleteExpired_def stored_less_def wall_seconds_def unix_def fixed_zone_def Second_def)

text \<open>Two sessions of the provider, of which the policy names only the first one's subject.\<close>

definition oidc_policy :: OIDCSessionPolicy where
  "oidc_policy = \<lparr>op_Enabled = True, op_Issuer = ''i'', op_ClientID = ''c'', op_AllowedSubjects = [''alice'']\<rparr>"

definition oidc_row :: "string \<Rightarrow> AuthSession" where
  "oidc_row subject = session_row subject (oidc_login ''i'' subject ''c'' '''')"

lemma oidc_row_allowed: "row_allowed oidc_policy (oidc_row subject) \<longleftrightarrow> subject = ''alice''"
  by (auto simp: row_allowed_iff identity_invalid_def oidc_policy_def oidc_row_def session_row_def oidc_login_def zero_session_def
      NormalizeSessionSource_def SessionSourceOIDC_def optionalSessionIdentity_def sessionIdentityValue_def)

theorem revoke_oidc_exact_witness:
  "RevokeInvalidOIDCSessions False oidc_policy [oidc_row ''alice'', oidc_row ''bob''] = (Some 1, [oidc_row ''alice''])"
  using revoke_oidc_exact [of "[oidc_row ''alice'', oidc_row ''bob'']" oidc_policy]
  by (simp add: oidc_row_allowed) (simp add: oidc_row_def session_row_def)

theorem session_survives_restart_witness:
  "\<exists>table s. fst (Get id False False 10 ''t'' (SetOIDCPolicy oidc_policy (NewPersistentSessionManager 60 table))) = Return (Some s)
     \<and> se_Role s = RoleAPIKeyViewer"
proof -
  let ?m = "NewPersistentSessionManager 3600 []"
  obtain m' table where c: "create (fixed_zone 0) id (Some ''t'') False False 0 5 (viewer_login 7 '''') \<lparr>md_IP = '''', md_UserAgent = ''''\<rparr> ?m
        = (Return (Inr (''t'', 3605)), m')" and store: "sm_store m' = Some table"
      and cached: "map_of (sm_sessions m') ''t'' = Some (opened_session 3600 5 \<lparr>md_IP = '''', md_UserAgent = ''''\<rparr> (viewer_login 7 ''''))"
    by (simp add: create_def cleanupExpiredLocked_def NewPersistentSessionManager_def NewSessionManager_def sessionAllowedLocked_def
        sessionAllowed_def viewer_login_def NormalizeSessionSource_def zero_session_def Let_def)
  have "sessionAllowed oidc_policy (opened_session 3600 5 \<lparr>md_IP = '''', md_UserAgent = ''''\<rparr> (viewer_login 7 ''''))"
    by (simp add: sessionAllowed_def opened_session_def viewer_login_def NormalizeSessionSource_def zero_session_def Let_def
        SessionSourceStandard_def)
  then show ?thesis
    using session_survives_restart [OF login.intros(2) _ c store, of 10 oidc_policy 60] cached
    by (force simp: opened_session_def viewer_login_def Let_def)
qed

end
