(* ===== verification/Spec2Isabelle.thy ===== *)
theory Spec2Isabelle
  imports Token_Properties Pricing_Examples Aggregation_Gate Cost_Read_Gate Login_Limiter
    Oidc_Transactions Update_Check Ingest_Backoff Latency_Aggregate Overview_Aggregate Activity_Aggregate Recent_Queue Overview_Exact
    Realtime_Exact Realtime_Shares Analysis_Exact Session_Exact
begin

text \<open>
  \<^bold>\<open>CPA Usage Keeper: a verification development.\<close>

  The program (\<open>src/\<close>, in Go) ingests the usage events of an LLM proxy, puts their token counters in a
  canonical form, prices them, stores them in SQLite, aggregates them into rows, and answers overview,
  activity, latency and health queries. This development is a shallow embedding of the parts that carry
  its logic. Paths below are relative to \<open>src/internal\<close>.

  \<^bold>\<open>How the parts interact.\<close> An ingested event passes the token processor, which fixes its counters, and
  the price snapshot, which fixes its fee; both are stored in the event. Four aggregations read stored
  events into rows: the hourly and daily statistics of the overview, the activity heat map, the latency
  statistics, and, in memory, the recent event cache with its credential health. Queries are cut into
  ranges of local time by the calendar and read rows where they cover whole hours or days and events at
  the edges; the realtime overview reads the recent cache. A recalculation of prices stops ingestion and
  reading with three gates. Logins are guarded by a limiter and by single-use OIDC transactions and open
  sessions, which are cached in front of a table; the ingest loop backs off after failures; the update check looks for releases.

  \<^bold>\<open>Foundations.\<close>
  \<^item> \<open>Keeper_Prelude\<close>: \<open>int64\<close> as bounded integers with \<open>wrap64\<close>, bytewise strings, \<open>TrimSpace\<close> (its fuel is the
    length of the string, each round removes a byte; \<open>strip_stops\<close>), \<open>ToLower\<close> on ASCII, the error monad
    \<open>andThen\<close>, and division by a positive integer.
  \<^item> \<open>Go_Float\<close>: \<open>float64\<close> with exact rounding to 53 bits, subnormals and infinities; monotonicity, idempotence and
    representability of rounding. \<open>Go_Json\<close>: the decoding rules of \<open>encoding/json\<close> on syntax trees.
    \<open>Go_Strconv\<close>, \<open>Go_Time\<close>, \<open>Go_Zone\<close>: \<open>Atoi\<close>, instants with saturating \<open>Sub\<close>, and local time in any zone.
  \<^item> \<open>Keyed_Rows\<close>: the map-of-rows pattern of all aggregations, with the locale \<open>keyed_rows\<close> that every
    aggregation interprets: sorted rows, one per key, each the fold of its events.

  \<^bold>\<open>Token processor\<close> (\<open>service/tokenprocessor\<close>): \<open>Token_Core\<close> (types.go, arithmetic.go, final_total.go), \<open>Token_Registry\<close>
  (registry.go, resolver.go), \<open>Token_Handlers\<close> (the eight handlers and breakdown.go, contract as the locale
  \<open>token_handler\<close>), \<open>Token_Process\<close> (processor.go), \<open>Token_Properties\<close>. The lemmas show that counters stay
  non-negative 64-bit values on every route, that the recorded actions replay to the returned counters, and
  that a reported total is only overwritten with authority.

  \<^bold>\<open>Prices\<close> (\<open>pricing\<close>, \<open>helper/usage_cost.go\<close>): \<open>Pricing_Contract\<close> and \<open>Pricing_Wire\<close> (contract.go, validation_error.go; decoding reads back
  what encoding writes), \<open>Pricing_Compile\<close> (snapshot.go, complete_snapshot.go, fields.go), \<open>Pricing_Branches\<close> (the meaning of a
  conditional price, stated on the operator's configuration), \<open>Pricing_Resolver\<close> (resolver.go, catalog.go), \<open>Pricing_Snapshot\<close>,
  \<open>Pricing_Cost\<close> and \<open>Pricing_Examples\<close>. The compiled snapshot refines the configuration; branches are accepted exactly when no event
  satisfies two of them; fees are finite and non-negative.

  \<^bold>\<open>Gates and small services.\<close> \<open>Work_Gate\<close> (service/usage_work_gate.go), \<open>Aggregation_Gate\<close> (poller/usage_aggregation_pause.go) and
  \<open>Cost_Read_Gate\<close> (service/cost_read_gate.go) are step relations over critical sections, with channels as numbers: mutual
  exclusion by rule induction over reachable states, and that no wake-up is lost. \<open>Login_Limiter\<close> (auth/login_limiter.go),
  \<open>Oidc_Transactions\<close> (oidc/transactions.go), \<open>Ingest_Backoff\<close> (poller/redis_ingest_backoff.go) and \<open>Update_Check\<close>
  (updatecheck/checker.go) are explicit state passing.

  \<^bold>\<open>Latency statistics.\<close> \<open>Latency_Codec\<close> and \<open>Latency_Sketch\<close> (latency/sketch.go, query_sketch.go), \<open>Latency_Heap\<close>, \<open>Latency_Best\<close> and
  \<open>Latency_Sample\<close> (latency/sample.go; the heap provides the locale of the sampling loops), \<open>Latency_Store\<close> (repository/latencystore/store.go)
  and \<open>Latency_Aggregate\<close> (latency/aggregate.go). Sketches and samples are exact under merging, encoding and
  decoding; percentiles are nearest ranks; a stored row keeps exactly the best thousand points.

  \<^bold>\<open>Aggregations and caches.\<close> \<open>Usage_Event\<close> and \<open>Overview_Aggregate\<close> (entities/usage_event.go, overview/aggregate.go), \<open>Activity_Grain\<close> and
  \<open>Activity_Aggregate\<close> (activity/grain.go, aggregate.go), \<open>Credential_Health\<close>, \<open>Recent_Pool\<close>, \<open>Recent_Cache\<close> and \<open>Recent_Queue\<close>
  (repository/usage_credential_health_cache.go, usage_recent_event_cache.go). Rows are the 64-bit sums over exactly the events
  of their key; the cache is a window of the accepted events; a drain returns only after every accepted batch is readable,
  and a waiting drain is woken. A reload of the cache is one step, although the code queries outside its lock: its caller keeps
  appends out meanwhile.

  \<^bold>\<open>Queries.\<close> \<open>Calendar\<close> and \<open>Query_Range\<close> (timeutil/calendar.go, usage_range.go, usage_query_range.go) find the bounds of local dates in any zone
  and accept exactly the ranges their texts ask for. \<open>Overview_Query\<close> (repository/usage.go, usage_bucket_read.go, usage_event_time_read.go, usage_overview_pricing.go)
  and \<open>Overview_Exact\<close>: whatever a range reads as events, hours and days, every event of it counts once, in the
  totals and in every point of the series. The locale \<open>counter\<close> states what one column of the overview
  needs, and every column interprets it. A query fails exactly when it reads a row whose cost is not finite.
  \<open>Realtime_Overview\<close> (repository/usage.go, usage_realtime_speed.go,
  usage_realtime_insights.go), \<open>Realtime_Exact\<close> and \<open>Realtime_Shares\<close>: the curves, the summary, the shares and the scatter of the
  realtime charts, with the locales \<open>bucket_counter\<close>, \<open>rolling_counter\<close> and \<open>summary_counter\<close> per column. \<open>Analysis_Query\<close>
  (repository/usage.go, usage_analysis_grain.go, usage_analysis_projection.go, usage_analysis_speed.go) and \<open>Analysis_Exact\<close>: each table of
  the analysis page holds one entry per key with the sums over exactly its events, unless a row without a finite cost is read. The locale \<open>totals_table\<close> states when a
  map of totals tabulates the rows it has folded, and all nine tables interpret it.

  \<^bold>\<open>Sessions.\<close> \<open>Session_Manager\<close> (auth/session.go, session_oidc.go, entities/auth_session.go) has the cache, the table and every operation
  on them, with the database failing at any call. \<open>Session_Safety\<close> makes each critical section a step of a goroutine, with the
  background writer another: no step but a login makes a session, so a session that is handed out comes from a login, and a
  revocation is final. \<open>Session_Exact\<close>: sessions outlive the process, and the revocation at start-up is exact.

  \<^bold>\<open>Parameters and hypotheses.\<close> What is not in the repository is an argument: the clock; the zone (hypotheses \<open>regular_days\<close>,
  \<open>segments_true\<close> and \<open>overview_zone\<close> say that its readings are those of a time zone, the last one that its midnights are
  whole hours); random bytes and \<open>sha256\<close>; the HTTP transport; \<open>math.Log\<close>, \<open>math.Pow\<close> and the text of a float; \<open>time.Parse\<close>;
  what \<open>json.Unmarshal\<close> returns for raw messages. Where Go leaves an order open (maps, unstable sorts, the sum of a float column in
  the database) the order is an argument or an association list, and a theorem holds for each. Database
  rows are arguments: a query is the list of rows that satisfy its conditions. Instants are unbounded and,
  where the calendar needs it, restricted to those within \<open>2 ^ 50\<close> seconds. Watermarks of the append queue are 64-bit words, with
  fewer than \<open>2 ^ 64\<close> appends. A receiver whose \<open>Add\<close> or \<open>Merge\<close> failed is dropped by all its callers, and so by the model.

  \<^bold>\<open>Loops.\<close> Recursion is structural or has a termination proof. The loops that may run forever in some zone, the reads of a range and the
  search for the bounds of a day or bucket, are \<open>partial_function (option)\<close>, and that they return is part of the theorems.

  \<^bold>\<open>Not modelled.\<close> \<open>api\<close>, \<open>app\<close>, \<open>config\<close> and \<open>logging\<close> are request decoding, wiring and files. \<open>cpa\<close>, \<open>oidc\<close> (but the transactions), \<open>openrouter\<close>,
  \<open>pricingmetadata\<close> and \<open>releasecheck\<close> are clients of network services. \<open>backup\<close> and the migrations, identities, quotas and history files of
  \<open>repository\<close> are SQL and file system calls, whose meaning is the database's. The pollers are goroutines around Redis and those repositories; their gates, pause
  protocol and back-off are modelled. \<open>service\<close> outside the token processor and the gates orchestrates repositories. \<open>quota\<close> maps
  payloads of provider APIs whose form is theirs to define. In \<open>repository/usage.go\<close> the paging queries and
  the comparison mode of the overview are not modelled: they are lists and further foldings of the same rows.
\<close>

end
